(* ===== verification/Prelude.thy ===== *)
theory Prelude
  imports Main "HOL-Library.List_Lexorder" "HOL-Library.Char_ord" "HOL-Library.Product_Lexorder"
begin

text \<open>
  The prelude of the development: the scalar types the wire records are built from, the closed
  error vocabulary, the result type every fallible operation returns, keyed tables (the rows of a
  relational table under a primary key), and the lemma collections the component theories share.
\<close>

section \<open>Scalars\<close>

text \<open>
  A \<open>Digest\<close>, \<open>Token\<close>, \<open>OpaqueRef\<close> or \<open>Identifier\<close> of the wire records is a string. Python and
  SQLite order ASCII strings lexicographically, as the library's order on \<^typ>\<open>string\<close> does. The
  canonical decimal strings of the wire (\<open>NonNegativeIntegerString\<close>, \<open>IntegerString\<close>) are in
  bijection with the naturals and the integers, which model them. A \<open>UtcInstant\<close> is a fixed-width
  string whose lexicographic order is the order of the instants; it is modelled by the number of
  microseconds since the epoch.
\<close>

type_synonym digest = string
type_synonym token = string
type_synonym ident = string
type_synonym opaque_ref = string
type_synonym semver = string
type_synonym instant = int

text \<open>\<open>add_utc\<close> moves an instant by a number of seconds.\<close>

definition add_utc :: "instant \<Rightarrow> int \<Rightarrow> instant" where
  "add_utc t seconds = t + seconds * 1000000"

section \<open>Errors and results\<close>

text \<open>
  The closed error codes (\<open>ERROR_CODES\<close>), and the exceptions a store operation can end with: a
  \<open>PortError\<close> with its code, the \<open>sqlite3.IntegrityError\<close> an \<open>INSERT\<close> over an existing primary
  key would raise, or the \<open>ValidationError\<close> of a record whose field would not validate.
\<close>

datatype (plugins only: code) error_code =
    Access_denied | Ancestry_mismatch | Attestation_invalid | Authorization_denied
  | Landing_store_restore_required | Capability_mismatch | Capacity_exceeded
  | Claim_conflict | Codec_error | Concurrency_conflict | Contract_conflict
  | Contract_invalid | Decision_conflict | Event_conflict | Evidence_conflict
  | Framing_error | Inflight_attempt | Integrity_error | Intent_conflict
  | Invalid_config | Invalid_manifest | Invalid_signature | Invalid_usage
  | Item_too_large | Key_commitment_conflict | Key_not_found | Key_revoked
  | Migration_conflict | Missing_extra | Not_found | Policy_not_authorized
  | Production_policy_adapter_required | Projection_conflict | Projection_gap
  | Release_conflict | Row_attribution_error | Schema_invalid | Scope_closed
  | Scope_conflict | Scope_open | Scope_owner_mismatch | Sequence_conflict
  | Stale_revision | Superseded_contract | Superseded_deployment | Target_unavailable
  | Throttled | Transient_io | Unconfirmed_projection_evidence_lost
  | Unconfirmed_revision | Unsupported_layer | Unsupported_optional_pattern
  | Unsupported_secondary_target | Unsupported_store_migration

datatype exn = Port_error error_code | Sqlite_integrity_error | Validation_error

type_synonym 'a result = "exn + 'a"

definition raise :: "error_code \<Rightarrow> 'a result" where
  "raise c = Inl (Port_error c)"

definition bind :: "'e + 'a \<Rightarrow> ('a \<Rightarrow> 'e + 'b) \<Rightarrow> 'e + 'b" where
  "bind r f = (case r of Inl e \<Rightarrow> Inl e | Inr x \<Rightarrow> f x)"

definition guard :: "bool \<Rightarrow> error_code \<Rightarrow> unit result" where
  "guard ok c = (if ok then Inr () else raise c)"

text \<open>A \<open>for\<close> loop whose body may raise: it stops at the first error.\<close>

fun fold_result :: "('a \<Rightarrow> 's \<Rightarrow> 'e + 's) \<Rightarrow> 'a list \<Rightarrow> 's \<Rightarrow> 'e + 's" where
  "fold_result f [] s = Inr s"
| "fold_result f (x # xs) s = bind (f x s) (fold_result f xs)"

named_theorems result_simps

lemma bind_simps [simp, result_simps]:
  "bind (Inr x) f = f x" "bind (Inl e) f = Inl e"
  by (simp_all add: bind_def)

lemma bind_raise [simp, result_simps]: "bind (raise c) f = raise c"
  by (simp add: bind_def raise_def)

lemma bind_eq_Inr [simp, result_simps]: "bind r f = Inr y \<longleftrightarrow> (\<exists>x. r = Inr x \<and> f x = Inr y)"
  by (simp add: bind_def split: sum.splits)

lemma bind_eq_Inl [result_simps]:
  "bind r f = Inl e \<longleftrightarrow> r = Inl e \<or> (\<exists>x. r = Inr x \<and> f x = Inl e)"
  by (auto simp: bind_def split: sum.splits)

lemma raise_neq_Inr [simp, result_simps]: "raise c \<noteq> Inr x" "Inr x \<noteq> raise c"
  by (simp_all add: raise_def)

lemma raise_eq_Inl [simp, result_simps]: "raise c = Inl e \<longleftrightarrow> e = Port_error c"
  by (auto simp: raise_def)

lemma guard_simps [simp, result_simps]:
  "guard True c = Inr ()" "guard False c = raise c"
  by (simp_all add: guard_def)

lemma guard_eq_Inr [simp, result_simps]: "guard b c = Inr u \<longleftrightarrow> b"
  by (simp add: guard_def)

lemma guard_eq_Inl [simp, result_simps]: "guard b c = Inl e \<longleftrightarrow> \<not> b \<and> e = Port_error c"
  by (auto simp: guard_def)

text \<open>What every step of a raising loop keeps, the loop keeps.\<close>

lemma fold_result_invariant:
  assumes "\<And>x s s'. x \<in> set xs \<Longrightarrow> P s \<Longrightarrow> f x s = Inr s' \<Longrightarrow> P s'"
    and "P s" and "fold_result f xs s = Inr s'"
  shows "P s'"
  using assms
proof (induction xs arbitrary: s)
  case Nil
  then show ?case by simp
next
  case (Cons x xs)
  from Cons.prems(3) obtain t where t: "f x s = Inr t" "fold_result f xs t = Inr s'" by auto
  with Cons.prems(1) [of x s t] Cons.prems(2) have "P t" by simp
  show ?case
    by (rule Cons.IH [OF _ \<open>P t\<close> t(2)]) (use Cons.prems(1) in auto)
qed

lemma fold_result_error:
  assumes "\<And>x s s'. x \<in> set xs \<Longrightarrow> P s \<Longrightarrow> f x s = Inr s' \<Longrightarrow> P s'"
    and "\<And>x s e. x \<in> set xs \<Longrightarrow> P s \<Longrightarrow> f x s = Inl e \<Longrightarrow> Q e"
    and "P s" and "fold_result f xs s = Inl e"
  shows "Q e"
  using assms
proof (induction xs arbitrary: s)
  case Nil
  then show ?case by simp
next
  case (Cons x xs)
  from Cons.prems(4) consider "f x s = Inl e"
    | t where "f x s = Inr t" "fold_result f xs t = Inl e"
    by (auto simp: bind_eq_Inl)
  then show ?case
  proof cases
    case 1
    then show ?thesis using Cons.prems(2) [of x s e] Cons.prems(3) by simp
  next
    case (2 t)
    with Cons.prems(1) [of x s t] Cons.prems(3) have "P t" by simp
    show ?thesis
      by (rule Cons.IH [OF _ _ \<open>P t\<close> 2(2)])
         (use Cons.prems(1) in \<open>meson list.set_intros(2)\<close>,
          use Cons.prems(2) in \<open>meson list.set_intros(2)\<close>)
  qed
qed

lemma fold_result_append:
  "fold_result f (xs @ ys) s = bind (fold_result f xs s) (fold_result f ys)"
  by (induction xs arbitrary: s) (auto simp: bind_def split: sum.splits)

text \<open>A loop that collects what its body returns, and one that only checks.\<close>

fun map_result :: "('a \<Rightarrow> 'e + 'b) \<Rightarrow> 'a list \<Rightarrow> 'e + 'b list" where
  "map_result f [] = Inr []"
| "map_result f (x # xs) = bind (f x) (\<lambda>y. bind (map_result f xs) (\<lambda>ys. Inr (y # ys)))"

definition check_all :: "('a \<Rightarrow> 'e + unit) \<Rightarrow> 'a list \<Rightarrow> 'e + unit" where
  "check_all f xs = bind (map_result f xs) (\<lambda>_. Inr ())"

lemma map_result_Inr [result_simps]:
  "map_result f xs = Inr ys \<longleftrightarrow> list_all2 (\<lambda>x y. f x = Inr y) xs ys"
  by (induction xs arbitrary: ys) (auto simp: list_all2_Cons1)

lemma map_result_Inl: "map_result f xs = Inl e \<Longrightarrow> \<exists>x \<in> set xs. f x = Inl e"
  by (induction xs) (auto simp: bind_eq_Inl)

lemma map_result_cong [fundef_cong]:
  "xs = ys \<Longrightarrow> (\<And>x. x \<in> set ys \<Longrightarrow> f x = g x) \<Longrightarrow> map_result f xs = map_result g ys"
  by (induction ys arbitrary: xs) auto

lemma map_result_total: "(\<And>x. x \<in> set xs \<Longrightarrow> f x = Inr (g x)) \<Longrightarrow> map_result f xs = Inr (map g xs)"
  by (induction xs) auto

lemma check_all_Inr [simp, result_simps]: "check_all f xs = Inr u \<longleftrightarrow> (\<forall>x \<in> set xs. f x = Inr ())"
  by (induction xs) (auto simp: check_all_def)

lemma check_all_Inl: "check_all f xs = Inl e \<Longrightarrow> \<exists>x \<in> set xs. f x = Inl e"
  by (auto simp: check_all_def bind_eq_Inl dest: map_result_Inl)

section \<open>Keyed tables\<close>

text \<open>
  A table is the list of its rows in insertion order; \<open>key\<close> reads a row's primary key.
  \<open>lookup_row\<close> is \<open>SELECT ... WHERE key = k\<close>, \<open>insert_row\<close> is \<open>INSERT\<close>, which fails over an existing
  key, \<open>upsert_row\<close> is \<open>INSERT ... ON CONFLICT DO UPDATE\<close>, \<open>update_row\<close> is \<open>UPDATE ... WHERE key = k\<close>
  and \<open>delete_rows\<close> is \<open>DELETE ... WHERE\<close>.
\<close>

definition lookup_row :: "('r \<Rightarrow> 'k) \<Rightarrow> 'k \<Rightarrow> 'r list \<Rightarrow> 'r option" where
  "lookup_row key k rows = find (\<lambda>r. key r = k) rows"

definition insert_row :: "('r \<Rightarrow> 'k) \<Rightarrow> 'r \<Rightarrow> 'r list \<Rightarrow> 'r list result" where
  "insert_row key r rows =
     (if key r \<in> set (map key rows) then Inl Sqlite_integrity_error else Inr (rows @ [r]))"

definition update_row :: "('r \<Rightarrow> 'k) \<Rightarrow> 'k \<Rightarrow> ('r \<Rightarrow> 'r) \<Rightarrow> 'r list \<Rightarrow> 'r list" where
  "update_row key k f rows = map (\<lambda>r. if key r = k then f r else r) rows"

definition upsert_row :: "('r \<Rightarrow> 'k) \<Rightarrow> 'r \<Rightarrow> 'r list \<Rightarrow> 'r list" where
  "upsert_row key r rows =
     (if key r \<in> set (map key rows) then update_row key (key r) (\<lambda>_. r) rows else rows @ [r])"

definition delete_rows :: "('r \<Rightarrow> bool) \<Rightarrow> 'r list \<Rightarrow> 'r list" where
  "delete_rows p rows = filter (\<lambda>r. \<not> p r) rows"

definition unique_keys :: "('r \<Rightarrow> 'k) \<Rightarrow> 'r list \<Rightarrow> bool" where
  "unique_keys key rows = distinct (map key rows)"

named_theorems table_simps

lemma lookup_row_Nil [simp, table_simps]: "lookup_row key k [] = None"
  by (simp add: lookup_row_def)

lemma lookup_row_Cons [simp, table_simps]:
  "lookup_row key k (r # rows) = (if key r = k then Some r else lookup_row key k rows)"
  by (simp add: lookup_row_def)

lemma lookup_row_append [table_simps]:
  "lookup_row key k (xs @ ys) =
     (case lookup_row key k xs of None \<Rightarrow> lookup_row key k ys | Some r \<Rightarrow> Some r)"
  by (induction xs) auto

lemma lookup_row_None [table_simps]: "lookup_row key k rows = None \<longleftrightarrow> k \<notin> key ` set rows"
  by (induction rows) auto

lemma lookup_row_SomeD: "lookup_row key k rows = Some r \<Longrightarrow> r \<in> set rows \<and> key r = k"
  by (induction rows) (auto split: if_splits)

lemma lookup_row_mem:
  "unique_keys key rows \<Longrightarrow> r \<in> set rows \<Longrightarrow> lookup_row key (key r) rows = Some r"
  by (induction rows) (force simp: unique_keys_def)+

lemma lookup_row_iff:
  assumes "unique_keys key rows"
  shows "lookup_row key k rows = Some r \<longleftrightarrow> r \<in> set rows \<and> key r = k"
proof
  assume "lookup_row key k rows = Some r"
  then show "r \<in> set rows \<and> key r = k" by (rule lookup_row_SomeD)
next
  assume r: "r \<in> set rows \<and> key r = k"
  with lookup_row_mem [OF assms, of r] show "lookup_row key k rows = Some r" by simp
qed

lemma update_row_Nil [simp]: "update_row key k f [] = []"
  by (simp add: update_row_def)

lemma update_row_Cons [simp]:
  "update_row key k f (r # rows) = (if key r = k then f r else r) # update_row key k f rows"
  by (simp add: update_row_def)

lemma map_update_row:
  "(\<And>r. g (f r) = g r) \<Longrightarrow> map g (update_row key k f rows) = map g rows"
  by (simp add: update_row_def)

lemma map_key_update_row:
  assumes "\<And>r. key r = k \<Longrightarrow> key (f r) = k"
  shows "map key (update_row key k f rows) = map key rows"
  by (induction rows) (use assms in auto)

lemma unique_keys_update:
  assumes "\<And>r. key r = k \<Longrightarrow> key (f r) = k"
  shows "unique_keys key (update_row key k f rows) = unique_keys key rows"
  by (simp add: unique_keys_def map_key_update_row assms)

lemma lookup_row_update [table_simps]:
  assumes "\<And>r. key r = k \<Longrightarrow> key (f r) = k"
  shows "lookup_row key k' (update_row key k f rows) =
    (if k' = k then map_option f (lookup_row key k rows) else lookup_row key k' rows)"
  by (induction rows) (use assms in auto)

lemma set_update_rowD:
  "r \<in> set (update_row key k f rows) \<Longrightarrow>
    (\<exists>r0 \<in> set rows. key r0 = k \<and> r = f r0) \<or> r \<in> set rows \<and> key r \<noteq> k"
  by (auto simp: update_row_def split: if_splits)

lemma unique_keys_upsert:
  "unique_keys key rows \<Longrightarrow> unique_keys key (upsert_row key r rows)"
  by (auto simp: upsert_row_def unique_keys_update) (auto simp: unique_keys_def)

lemma lookup_row_upsert [table_simps]:
  "lookup_row key k (upsert_row key r rows) = (if k = key r then Some r else lookup_row key k rows)"
proof (cases "key r \<in> key ` set rows")
  case True
  then have "lookup_row key (key r) rows \<noteq> None" by (simp add: lookup_row_None)
  with True show ?thesis by (auto simp: upsert_row_def lookup_row_update)
next
  case False
  then have "lookup_row key (key r) rows = None" by (simp add: lookup_row_None)
  with False show ?thesis
    by (auto simp: upsert_row_def lookup_row_append split: option.splits)
qed

lemma set_upsert_rowD: "x \<in> set (upsert_row key r rows) \<Longrightarrow> x = r \<or> x \<in> set rows \<and> key x \<noteq> key r"
  by (auto simp: upsert_row_def update_row_def image_iff split: if_splits)

lemma upsert_row_keys:
  "key ` set (upsert_row key r rows) = insert (key r) (key ` set rows)"
proof -
  have "set (map key (upsert_row key r rows)) = insert (key r) (set (map key rows))"
    by (auto simp: upsert_row_def map_key_update_row simp del: set_map)
  then show ?thesis by simp
qed

lemma insert_row_Inr [simp]:
  "insert_row key r rows = Inr rows' \<longleftrightarrow> lookup_row key (key r) rows = None \<and> rows' = rows @ [r]"
  by (auto simp: insert_row_def lookup_row_None)

lemma insert_row_fresh:
  "lookup_row key (key r) rows = None \<Longrightarrow> insert_row key r rows = Inr (rows @ [r])"
  by simp

lemma unique_keys_append1:
  "unique_keys key (rows @ [r]) \<longleftrightarrow> unique_keys key rows \<and> lookup_row key (key r) rows = None"
  by (auto simp: unique_keys_def lookup_row_None)

lemma unique_keys_delete: "unique_keys key rows \<Longrightarrow> unique_keys key (delete_rows p rows)"
  by (simp add: unique_keys_def delete_rows_def distinct_map_filter)

lemma set_delete_rows [simp]: "set (delete_rows p rows) = {r \<in> set rows. \<not> p r}"
  by (auto simp: delete_rows_def)

lemma unique_keys_Nil [simp]: "unique_keys key []"
  by (simp add: unique_keys_def)

section \<open>Sequences\<close>

text \<open>\<open>tuple(sorted(xs))\<close> of a set-like list, and the prefix of a list up to a bound.\<close>

definition sorted_set :: "'a::linorder list \<Rightarrow> 'a list" where
  "sorted_set xs = sort (remdups xs)"

lemma sorted_set_props [simp]:
  "set (sorted_set xs) = set xs" "sorted (sorted_set xs)" "distinct (sorted_set xs)"
  by (simp_all add: sorted_set_def)

lemma sorted_set_cong: "set xs = set ys \<Longrightarrow> sorted_set xs = sorted_set ys"
  by (rule sorted_distinct_set_unique) simp_all

text \<open>Lists related entry by entry.\<close>

lemma list_all2_setD1: "list_all2 P xs ys \<Longrightarrow> x \<in> set xs \<Longrightarrow> \<exists>y \<in> set ys. P x y"
  by (metis in_set_conv_nth list_all2_conv_all_nth)

lemma list_all2_setD2: "list_all2 P xs ys \<Longrightarrow> y \<in> set ys \<Longrightarrow> \<exists>x \<in> set xs. P x y"
  by (metis in_set_conv_nth list_all2_conv_all_nth)

end
