(* ===== verification/Landing_Contract.thy ===== *)
theory Landing_Contract
  imports Prelude
begin

text \<open>
  The vocabulary and the contract records of \<open>ergasterion/framework/landing_contract.py\<close>: the
  closed enumerations, the shared low-level records, the typed scalars and logical types, and the
  Landing product contract with its delivery policy. Every enumeration and every discriminated union is
  a datatype with the source's members; every closed Pydantic record is a record with the source's
  fields, prefixed to keep selectors apart. A one-valued \<open>Literal\<close> field carries no information and
  is left out; a mapping is the list of its items.
\<close>

section \<open>Enumerations\<close>

datatype (plugins only: code) delivery_mode = Cdc | Append_only | Complete_snapshot
datatype (plugins only: code) content_encoding = Enc_identity | Enc_gzip
datatype (plugins only: code) newline_kind = Crlf | Lf
datatype (plugins only: code) backoff_kind = Exponential | Fixed
datatype (plugins only: code) media_type = Ndjson | Csv_text
datatype (plugins only: code) logical_type_kind =
    K_binary | K_boolean | K_date | K_decimal | K_int64 | K_local_datetime | K_utc_instant
  | K_utf8_string
datatype (plugins only: code) simple_logical_type =
    S_binary | S_boolean | S_date | S_int64 | S_utc_instant | S_utf8_string
datatype (plugins only: code) delete_strategy = Explicit_tombstone | No_deletes | Snapshot_diff
datatype (plugins only: code) publication_policy = All_or_nothing | Publish_valid_rows
datatype (plugins only: code) publication_decision =
    Decide_all | Decide_valid_rows | Decide_reject
datatype (plugins only: code) severity = Sev_error | Sev_warn
datatype (plugins only: code) attempt_state =
    Commit_blocked | Committed | Committing | Failed | Materializing | Preparing | Received
  | Validating
datatype (plugins only: code) block_phase = Observer_blocked | Projection_blocked
datatype (plugins only: code) processing_outcome =
    Po_blocked | Po_committed | Po_failed | Po_in_progress | Po_none
datatype (plugins only: code) migration_kind = Carry | Reset
datatype (plugins only: code) projection_intent_kind =
    Pk_delivery_publication | Pk_heartbeat | Pk_migration | Pk_processing | Pk_remediation_release
  | Pk_timeliness | Pk_whole_delivery_reprocessing
datatype (plugins only: code) timeliness = Awaiting | Late | Missing | Not_due | On_time
datatype (plugins only: code) finding_kind = Batch_rule | Parse_kind | Rule_kind | Type_kind
datatype (plugins only: code) diagnostic_code =
    Accepted_value_violation | Column_count_mismatch | Duplicate_key | Invalid_encoding
  | Invalid_logical_type | Json_parse_error | Missing_required_field | Null_not_allowed
  | Range_violation | Row_count_violation | Unexpected_field
datatype (plugins only: code) disposition_status = Accepted | Rejected
datatype (plugins only: code) readiness_result = Ready | Readiness_rejected
datatype (plugins only: code) lifecycle_action = Register | Activate
datatype (plugins only: code) remediation_decision_kind = Evaluated | Released
datatype (plugins only: code) activation_state = Active | Pending_baseline
datatype (plugins only: code) outbox_entry_kind = Ok_evidence | Ok_lifecycle | Ok_projection
datatype (plugins only: code) outbox_status = Pending | Leased | Retryable | Dead_letter | Complete
datatype (plugins only: code) failure_disposition = Fd_dead_letter | Fd_retryable
datatype (plugins only: code) reconciliation_status =
    Rs_not_applicable | Rs_pending | Rs_leased | Rs_retryable | Rs_dead_letter | Rs_complete

section \<open>Typed scalars and logical types\<close>

datatype (plugins only: code) typed_scalar =
    T_binary string
  | T_boolean bool
  | T_date string
  | T_decimal int nat
  | T_int64 int
  | T_local_datetime string string
  | T_string string
  | T_utc_instant instant

datatype (plugins only: code) logical_type =
    Simple simple_logical_type
  | Decimal_type nat nat
  | Local_datetime_type string

fun simple_type_token :: "simple_logical_type \<Rightarrow> logical_type_kind" where
  "simple_type_token S_binary = K_binary"
| "simple_type_token S_boolean = K_boolean"
| "simple_type_token S_date = K_date"
| "simple_type_token S_int64 = K_int64"
| "simple_type_token S_utc_instant = K_utc_instant"
| "simple_type_token S_utf8_string = K_utf8_string"

fun logical_type_token :: "logical_type \<Rightarrow> logical_type_kind" where
  "logical_type_token (Simple s) = simple_type_token s"
| "logical_type_token (Decimal_type _ _) = K_decimal"
| "logical_type_token (Local_datetime_type _) = K_local_datetime"

fun scalar_kind :: "typed_scalar \<Rightarrow> logical_type_kind" where
  "scalar_kind (T_binary _) = K_binary"
| "scalar_kind (T_boolean _) = K_boolean"
| "scalar_kind (T_date _) = K_date"
| "scalar_kind (T_decimal _ _) = K_decimal"
| "scalar_kind (T_int64 _) = K_int64"
| "scalar_kind (T_local_datetime _ _) = K_local_datetime"
| "scalar_kind (T_string _) = K_utf8_string"
| "scalar_kind (T_utc_instant _) = K_utc_instant"

section \<open>Shared low-level records\<close>

record raw_locator =
  rl_frame_sequence :: nat
  rl_byte_offset :: "nat option"
  rl_byte_length :: "nat option"
  rl_line_number :: "nat option"

record finding_metadata =
  fm_diagnostic_code :: diagnostic_code
  fm_raw_locator :: "raw_locator option"
  fm_expected_logical_type :: "logical_type_kind option"
  fm_observed_logical_type :: "logical_type_kind option"
  fm_observed_count :: "nat option"
  fm_expected_min_count :: "nat option"
  fm_expected_max_count :: "nat option"
  fm_duplicate_group_size :: "nat option"

record finding =
  fi_kind :: finding_kind
  fi_rule_id :: "digest option"
  fi_field_path :: "string option"
  fi_code :: error_code
  fi_severity :: severity
  fi_metadata :: finding_metadata

record source_field =
  sf_name :: ident
  sf_logical_type :: logical_type
  sf_nullable :: bool
  sf_physical_name :: "string option"

record logical_identity =
  li_estate_namespace :: string
  li_source :: ident
  li_table :: ident

record product_facts =
  pf_product_version :: semver
  pf_display_name :: string
  pf_description :: string
  pf_owner :: token
  pf_domain :: token
  pf_support :: token
  pf_classification :: token
  pf_access_policy_ref :: token
  pf_retention_policy_ref :: token

section \<open>Landing: codec, integration, columns\<close>

datatype (plugins only: code) codec =
    Csv_codec string bool string string newline_kind "string list"
    \<comment> \<open>delimiter, header, quote, escape, newline, null tokens\<close>
  | Jsonl_codec newline_kind

record trust_policy =
  tp_policy_ref :: token
  tp_allowed_key_ids :: "token list"
  tp_future_clock_skew_seconds :: nat

record external_integration =
  ei_delivery_id_column :: ident
  ei_visibility_epoch_column :: ident
  ei_visibility_kind_column :: ident
  ei_visibility_id_column :: ident
  ei_raw_reference_field :: ident
  ei_candidate_reference_field :: ident
  ei_frame_index_reference_field :: ident
  ei_receipt_trust :: trust_policy

datatype (plugins only: code) integration = Managed | External external_integration

record projection_field =
  pj_source :: ident
  pj_name :: ident
  pj_logical_type :: logical_type
  pj_nullable :: bool

record landing_block =
  lb_source_name :: ident
  lb_identifier :: ident
  lb_integration :: integration
  lb_content_encodings :: "content_encoding list"
  lb_codec :: codec
  lb_physical_columns :: "source_field list"
  lb_physical_name :: "string option"

section \<open>Delivery policy\<close>

datatype (plugins only: code) schedule =
    Interval_schedule nat instant
    \<comment> \<open>every minutes, anchor instant\<close>
  | Cron_schedule string string instant string
    \<comment> \<open>expression, time zone, lower bound, zone-data release\<close>

record sla =
  sla_warn_after_minutes :: nat
  sla_error_after_minutes :: nat

record timestamp_contract =
  tc_load_field :: ident
  tc_event_field :: "ident option"
  tc_effective_field :: "ident option"

datatype (plugins only: code) progress_contract = Sequence_progress ident | Opaque_batch_progress

type_synonym scope_parameters = "(string \<times> typed_scalar) list"

record fingerprint_scope =
  fs_scope_id :: token
  fs_scope_parameters :: scope_parameters

record record_key_contract =
  rk_fields :: "ident list"
  rk_fingerprint_scope :: "fingerprint_scope option"
  rk_hmac_key_id :: "token option"

record retry_policy =
  rp_max_attempts :: nat
  rp_backoff :: backoff_kind
  rp_base_seconds :: nat
  rp_cap_seconds :: nat

datatype (plugins only: code) quality_rule =
    Accepted_values (rule_field: ident) (av_values: "typed_scalar list") (rule_allow_null: bool)
      (rule_severity: severity)
  | Not_null (rule_field: ident) (rule_severity: severity)
  | Range_rule (rule_field: ident) (rg_min: "typed_scalar option") (rg_max: "typed_scalar option")
      (rule_allow_null: bool) (rule_severity: severity)
  | Row_count (rc_min: "nat option") (rc_max: "nat option") (rule_severity: severity)
  | Unique_key (uk_fields: "ident list") (rule_severity: severity)

record quality_policy =
  qp_publication_mode :: publication_policy
  qp_max_error_fraction :: string
  qp_rules :: "quality_rule list"

record tombstone_contract =
  ts_field :: ident
  ts_values :: "typed_scalar list"

record snapshot_contract =
  sn_scope_id :: token
  sn_scope_parameters :: scope_parameters
  sn_attestation_policy_ref :: token
  sn_allowed_key_ids :: "token list"
  sn_future_clock_skew_seconds :: nat

record delivery_policy =
  dp_mode :: delivery_mode
  dp_progress :: progress_contract
  dp_delete_strategy :: delete_strategy
  dp_schedule :: schedule
  dp_schedule_lateness :: sla
  dp_maximum_age :: "sla option"
  dp_timestamps :: timestamp_contract
  dp_record_key :: record_key_contract
  dp_tombstone :: "tombstone_contract option"
  dp_snapshot :: "snapshot_contract option"
  dp_quality :: quality_policy
  dp_retry :: retry_policy

record landing_interfaces =
  if_raw :: token
  if_source_native :: token
  if_published :: token
  if_quarantine :: token
  if_deletion_evidence :: token

record landing_product_contract =
  lc_logical_identity :: logical_identity
  lc_product :: product_facts
  lc_landing :: landing_block
  lc_delivery :: delivery_policy
  lc_projection :: "projection_field list"
  lc_interfaces :: landing_interfaces

section \<open>Migrations\<close>

record migration =
  mg_migration_id :: digest
  mg_kind :: migration_kind
  mg_from_contract_digest :: "digest option"
  mg_to_contract_digest :: digest
  mg_activated_at :: "instant option"
  mg_from_visibility_epoch :: nat
  mg_to_visibility_epoch :: nat

end
