(* ===== verification/Wire_Records.thy ===== *)
theory Wire_Records
  imports Landing_Contract
begin

text \<open>
  The wire records of \<open>ergasterion/ingestion/records.py\<close> and \<open>ergasterion/framework/runtime_binding.py\<close>
  that the delivery state store keeps: stream state, attempts, deployments, projection intents and
  confirmations, lifecycle events, keysets, the outbox and its transactions. Fields keep the
  source's names behind a prefix per record; \<open>schema\<close> and other one-valued fields are left out.
\<close>

section \<open>Visibility and progress\<close>

record delivery_visibility =
  dv_epoch :: nat
  dv_id :: token

datatype (plugins only: code) visibility =
    Delivery_vis delivery_visibility
  | Release_vis nat digest
  | Reprocess_vis nat digest

fun vis_epoch :: "visibility \<Rightarrow> nat" where
  "vis_epoch (Delivery_vis d) = dv_epoch d"
| "vis_epoch (Release_vis e _) = e"
| "vis_epoch (Reprocess_vis e _) = e"

fun vis_id :: "visibility \<Rightarrow> string" where
  "vis_id (Delivery_vis d) = dv_id d"
| "vis_id (Release_vis _ i) = i"
| "vis_id (Reprocess_vis _ i) = i"

datatype (plugins only: code) progress_claim = Opaque_claim | Sequence_claim int nat
  \<comment> \<open>high watermark, event count\<close>

section \<open>Deletion evidence and reconciliation\<close>

record deletion_evidence_intent =
  de_logical_identity :: logical_identity
  de_visibility :: visibility
  de_delete_strategy :: delete_strategy
  de_claim_digest :: digest
  de_attempt_id :: digest
  de_event_sequence_low :: "int option"
  de_event_sequence_high :: "int option"
  de_record_key_scope :: fingerprint_scope
  de_hmac_key_id :: token
  de_key_commitment :: digest
  de_deleted_keyset_ref :: opaque_ref
  de_deleted_keyset_digest :: digest
  de_deleted_key_count :: nat
  de_reconciliation_digest :: "digest option"
  de_intent_digest :: digest

record deletion_evidence =
  dx_intent :: deletion_evidence_intent
  dx_applied_at :: instant
  dx_deletion_evidence_digest :: digest

record snapshot_reconciliation =
  sr_logical_identity :: logical_identity
  sr_attempt_id :: digest
  sr_candidate_visibility :: delivery_visibility
  sr_prior_visibility :: "visibility option"
  sr_prior_keyset_ref :: "opaque_ref option"
  sr_candidate_keyset_ref :: opaque_ref
  sr_status :: reconciliation_status
  sr_attempt_count :: nat
  sr_next_attempt_at :: "instant option"
  sr_lease_owner :: "token option"
  sr_lease_expires_at :: "instant option"
  sr_reason_code :: "error_code option"
  sr_deletion_evidence :: "deletion_evidence_intent option"
  sr_reconciliation_digest :: digest

section \<open>Remediation\<close>

record remediation_evaluation =
  re_original_claim_digest :: digest
  re_raw_receipt_digest :: digest
  re_target_contract_digest :: digest
  re_target_source_schema_digest :: digest
  re_target_published_schema_digest :: digest
  re_target_ruleset_digest :: digest
  re_execution_plan_digest :: digest
  re_root_visibility_epoch :: nat
  re_remediation_evaluation_id :: digest

record remediation_release =
  rr_remediation_evaluation_id :: digest
  rr_selected_locators :: "raw_locator list"
  rr_accepted_content_digest :: digest
  rr_release_id :: digest

record remediation_decision =
  rd_decision_id :: digest
  rd_kind :: remediation_decision_kind
  rd_evaluation :: remediation_evaluation
  rd_disposition_ids :: "digest list"
  rd_validation_result_digest :: digest
  rd_release :: "remediation_release option"
  rd_decided_at :: instant

text \<open>
  The three publication payloads share every field but the identity of what they publish and the
  deadlines of a scheduled delivery.
\<close>

record publication_facts =
  pb_attempt_id :: digest
  pb_visibility :: visibility
  pb_product_version :: semver
  pb_contract_digest :: digest
  pb_source_schema_digest :: digest
  pb_published_schema_digest :: digest
  pb_readiness_digest :: digest
  pb_delivery_claim_digest :: digest
  pb_transport_payload_digest :: digest
  pb_raw_receipt_ref :: opaque_ref
  pb_raw_receipt_digest :: digest
  pb_landing_partition_ref :: opaque_ref
  pb_accepted_content_digest :: digest
  pb_ruleset_digest :: digest
  pb_validation_result_digest :: digest
  pb_accepted_count :: nat
  pb_progress_claim :: progress_claim
  pb_deletion_evidence :: "deletion_evidence_intent option"
  pb_prior_committed_at :: "instant option"
  pb_lineage_digest :: digest

record deadlines =
  dl_scheduled_boundary_at :: instant
  dl_warning_deadline_at :: instant
  dl_error_deadline_at :: instant

record remediation_release_payload =
  rrp_facts :: publication_facts
  rrp_remediation_evaluation_id :: digest
  rrp_release_id :: digest

record remediation_commit_checkpoint =
  rcc_attempt_id :: digest
  rcc_decision :: remediation_decision
  rcc_release_projection_payload :: remediation_release_payload
  rcc_checkpoint_digest :: digest

section \<open>Attempts and stream state\<close>

record snapshot_acceptance =
  sa_accepted_snapshot_complete :: bool
  sa_framed_count :: nat
  sa_accepted_count :: nat
  sa_quarantined_count :: nat
  sa_validation_result_digest :: digest
  sa_publication_decision :: publication_decision

record attempt =
  at_run_id :: digest
  at_attempt_id :: digest
  at_logical_identity :: logical_identity
  at_claim_digest :: digest
  at_delivery_id :: "token option"
  at_reprocessing_id :: "digest option"
  at_remediation_evaluation_id :: "digest option"
  at_scheduled_boundary_at :: instant
  at_attempt_ordinal :: nat
  at_state :: attempt_state
  at_block_phase :: "block_phase option"
  at_reason_code :: "error_code option"
  at_execution_plan_digest :: digest
  at_runtime_manifest_digest :: digest
  at_remediation_commit_checkpoint :: "remediation_commit_checkpoint option"
  at_snapshot_acceptance :: "snapshot_acceptance option"
  at_state_revision :: nat
  at_projection_revision :: "nat option"
  at_committed_at :: "instant option"

record stream_state =
  st_logical_identity :: logical_identity
  st_active_contract_digest :: "digest option"
  st_visibility_epoch :: nat
  st_accepted_progress :: "(string \<times> typed_scalar) list"
  st_last_committed_visibility :: "visibility option"
  st_last_committed_at :: "instant option"
  st_snapshot_reconciliation :: "snapshot_reconciliation option"
  st_state_revision :: nat
  st_required_projection_revision :: nat

record operational_status =
  os_state :: stream_state
  os_latest_attempt :: "attempt option"
  os_processing :: processing_outcome
  os_block_phase :: "block_phase option"
  os_incomplete_outbox_count :: nat

record attempt_query =
  aq_logical_identity :: logical_identity
  aq_claim_digest :: "digest option"
  aq_nonterminal_only :: bool
  aq_after_attempt_id :: "digest option"
  aq_max_items :: nat

record attempt_page =
  ap_attempts :: "attempt list"
  ap_next_after_attempt_id :: "digest option"
  ap_more :: bool

section \<open>Contract and deployment lifecycle\<close>

record interface_readiness =
  ir_logical_identity :: logical_identity
  ir_projection_target :: token
  ir_runtime_manifest_digest :: digest
  ir_contract_digest :: digest
  ir_source_schema_digest :: digest
  ir_published_schema_digest :: digest
  ir_version_interface_ref :: opaque_ref
  ir_capability_digest :: digest
  ir_classification :: token
  ir_access_policy_ref :: token
  ir_retention_policy_ref :: token
  ir_protection_profile :: token
  ir_result :: readiness_result
  ir_readiness_digest :: digest
  ir_verified_at :: instant
  ir_revoked_at :: "instant option"

record runtime_deployment =
  rt_logical_identity :: logical_identity
  rt_contract_digest :: digest
  rt_projection_target :: token
  rt_candidate_manifest_digest :: "digest option"
  rt_active_manifest_digest :: "digest option"
  rt_retired_manifest_digests :: "digest list"
  rt_deployment_revision :: nat

record projection_cursor =
  pc_logical_identity :: logical_identity
  pc_projection_target :: token
  pc_projection_revision :: nat
  pc_projection_intent_digest :: "digest option"

record contract_lifecycle_request =
  cl_action :: lifecycle_action
  cl_expected_state_revision :: nat
  cl_expected_deployment_revision :: "nat option"
  cl_contract :: landing_product_contract
  cl_migration :: "migration option"
  cl_permit_pre_intent_fence :: bool

record contract_lifecycle_result =
  cr_state :: stream_state
  cr_deployment :: "runtime_deployment option"
  cr_fenced_attempt_ids :: "digest list"

record deployment_lifecycle_request =
  dr_action :: lifecycle_action
  dr_expected_state_revision :: nat
  dr_expected_deployment_revision :: nat
  dr_deployment :: runtime_deployment
  dr_readiness :: interface_readiness
  dr_catchup_cursor :: projection_cursor
  dr_permit_pre_intent_fence :: bool

record deployment_lifecycle_result =
  dt_state :: stream_state
  dt_deployment :: runtime_deployment
  dt_catchup_cursor :: projection_cursor
  dt_fenced_attempt_ids :: "digest list"

section \<open>Projection intents and confirmations\<close>

record version_interface =
  vi_logical_identity :: logical_identity
  vi_product_version :: semver
  vi_contract_digest :: digest
  vi_root_visibility_epoch :: nat
  vi_relation_ref :: opaque_ref
  vi_active :: bool

record ancestry_row =
  ar_logical_identity :: logical_identity
  ar_descendant_epoch :: nat
  ar_ancestor_epoch :: nat
  ar_projection_target :: token
  ar_projection_revision :: nat

record timeliness_payload =
  tl_deadlines :: deadlines
  tl_timeliness :: timeliness
  tl_evaluated_through_at :: instant
  tl_prior_committed_at :: "instant option"

datatype (plugins only: code) projection_payload =
    Delivery_publication publication_facts deadlines
  | Heartbeat instant instant "instant option"
  | Migration_projection migration version_interface "ancestry_row list" digest "instant option"
  | Processing_projection attempt processing_outcome "instant option"
  | Remediation_release_projection remediation_release_payload
  | Timeliness_projection timeliness_payload
  | Whole_delivery_reprocessing publication_facts deadlines digest

record projection_intent =
  pi_logical_identity :: logical_identity
  pi_contract_digest :: digest
  pi_projection_target :: token
  pi_projection_revision :: nat
  pi_originating_state_revision :: nat
  pi_kind :: projection_intent_kind
  pi_execution_plan_digest :: digest
  pi_runtime_manifest_digest :: digest
  pi_payload :: projection_payload
  pi_payload_digest :: digest
  pi_projection_intent_digest :: digest

record projection_confirmation =
  pn_logical_identity :: logical_identity
  pn_contract_digest :: digest
  pn_projection_target :: token
  pn_kind :: projection_intent_kind
  pn_projection_intent_digest :: digest
  pn_projection_revision :: nat
  pn_target_applied_at :: instant
  pn_committed_at :: "instant option"
  pn_release_applied_at :: "instant option"
  pn_timeliness :: "timeliness option"
  pn_processing :: processing_outcome
  pn_visibility :: "visibility option"
  pn_ledger_ref :: "opaque_ref option"
  pn_deletion_evidence :: "deletion_evidence option"
  pn_target_result_digest :: digest

section \<open>Lifecycle events\<close>

text \<open>
  The state store reads an event's identity, its position and its payload digest; the ten payload
  variants are carried through, so the payload is a type parameter.
\<close>

record 'ev lifecycle_event =
  ev_event_id :: digest
  ev_event_type :: string
  ev_logical_identity :: logical_identity
  ev_state_revision :: nat
  ev_event_ordinal :: nat
  ev_attempt_id :: "digest option"
  ev_execution_plan_digest :: digest
  ev_runtime_manifest_digest :: digest
  ev_payload :: 'ev
  ev_payload_digest :: digest
  ev_created_at :: instant

text \<open>\<open>LifecycleEventCursor\<close>: state revision, event ordinal, event id.\<close>

type_synonym event_cursor = "nat \<times> nat \<times> digest"

section \<open>Snapshot and tombstone keysets\<close>

record snapshot_keyset =
  ks_keyset_id :: digest
  ks_logical_identity :: logical_identity
  ks_visibility :: visibility
  ks_record_key_scope :: fingerprint_scope
  ks_hmac_key_id :: token
  ks_key_commitment :: digest
  ks_keyset_ref :: opaque_ref
  ks_keyset_digest :: "digest option"
  ks_key_count :: nat
  ks_complete :: bool

record keyset_request =
  kr_attempt_id :: digest
  kr_logical_identity :: logical_identity
  kr_visibility :: visibility
  kr_record_key_scope :: fingerprint_scope
  kr_hmac_key_id :: token
  kr_key_commitment :: digest

record keyset_completion =
  kc_attempt_id :: digest
  kc_keyset_id :: digest
  kc_expected_key_count :: nat
  kc_expected_keyset_digest :: digest

record tombstone_keyset = snapshot_keyset +
  tk_event_sequence_low :: "int option"
  tk_event_sequence_high :: "int option"

record tombstone_completion = keyset_completion +
  tc_event_sequence_low :: "int option"
  tc_event_sequence_high :: "int option"

record tombstone_tag =
  tt_event_sequence :: int
  tt_tag :: digest

record tombstone_tag_page =
  tg_keyset_id :: digest
  tg_items :: "tombstone_tag list"
  tg_bytes_supplied :: nat

record key_tag_page =
  kp_keyset_id :: digest
  kp_first_frame_sequence :: nat
  kp_next_frame_sequence :: nat
  kp_tags :: "digest list"
  kp_bytes_supplied :: nat

record reconciliation_request =
  rq_attempt_id :: digest
  rq_claim_digest :: digest
  rq_prior_keyset :: "snapshot_keyset option"
  rq_candidate_keyset :: snapshot_keyset

record tombstone_evidence_request =
  tr_attempt_id :: digest
  tr_claim_digest :: digest
  tr_keyset :: tombstone_keyset

section \<open>Outbox\<close>

datatype (plugins only: code) 'ev outbox_payload =
    Projection_payload projection_intent
  | Lifecycle_payload "'ev lifecycle_event"
  | Evidence_payload snapshot_reconciliation

fun payload_kind :: "'ev outbox_payload \<Rightarrow> outbox_entry_kind" where
  "payload_kind (Projection_payload _) = Ok_projection"
| "payload_kind (Lifecycle_payload _) = Ok_lifecycle"
| "payload_kind (Evidence_payload _) = Ok_evidence"

record outbox_entry =
  oe_outbox_id :: digest
  oe_logical_identity :: logical_identity
  oe_entry_kind :: outbox_entry_kind
  oe_payload_ref :: opaque_ref
  oe_payload_digest :: digest
  oe_status :: outbox_status
  oe_dispatch_ordinal :: nat
  oe_next_not_before :: instant
  oe_lease_owner :: "token option"
  oe_lease_expires_at :: "instant option"
  oe_reason_code :: "error_code option"
  oe_completed_at :: "instant option"

record 'ev outbox_enqueue =
  en_outbox_id :: digest
  en_payload :: "'ev outbox_payload"
  en_payload_digest :: digest
  en_next_not_before :: instant

record outbox_completion =
  oc_outbox_id :: digest
  oc_payload_digest :: digest
  oc_lease_owner :: token
  oc_completed_at :: instant

record 'ev state_transaction =
  tx_expected_state_revision :: nat
  tx_next_state :: stream_state
  tx_attempt_updates :: "attempt list"
  tx_deployment_update :: "runtime_deployment option"
  tx_projection_confirmation :: "projection_confirmation option"
  tx_enqueue :: "'ev outbox_enqueue list"
  tx_complete :: "outbox_completion list"

record failure_transaction =
  ft_expected_state_revision :: nat
  ft_next_state :: stream_state
  ft_attempt_updates :: "attempt list"
  ft_outbox_id :: digest
  ft_payload_digest :: digest
  ft_lease_owner :: token
  ft_failure_observed_at :: instant
  ft_reason_code :: error_code
  ft_disposition :: failure_disposition
  ft_next_not_before :: "instant option"

end
