(* ===== verification/Optimistic_Store.thy ===== *)
theory Optimistic_Store
  imports Prelude
begin

text \<open>
  The optimistic-concurrency contract of the delivery state store: every write names the stream it is
  for and the revision it read, and commits only over that revision. \<open>run_all\<close> is any interleaving
  of requests that several callers prepared on their own; the lemmas say which of them can win.
\<close>

fun run_all :: "('q \<Rightarrow> 'd \<Rightarrow> ('e + 'r) \<times> 'd) \<Rightarrow> 'q list \<Rightarrow> 'd \<Rightarrow> ('q \<times> ('e + 'r)) list \<times> 'd" where
  "run_all exec [] d = ([], d)"
| "run_all exec (q # qs) d =
     (case exec q d of (x, d1) \<Rightarrow> (case run_all exec qs d1 of (xs, d2) \<Rightarrow> ((q, x) # xs, d2)))"

definition winners :: "('q \<times> ('e + 'r)) list \<Rightarrow> 'q list" where
  "winners xs = map fst (filter (\<lambda>p. \<not> isl (snd p)) xs)"

lemma winners_simps [simp]:
  "winners [] = []"
  "winners ((q, Inr r) # xs) = q # winners xs"
  "winners ((q, Inl e) # xs) = winners xs"
  by (simp_all add: winners_def)

lemma run_all_requests: "run_all exec qs d = (xs, d') \<Longrightarrow> map fst xs = qs"
  by (induction qs arbitrary: d xs) (auto split: prod.splits)

lemma winners_subset: "run_all exec qs d = (xs, d') \<Longrightarrow> set (winners xs) \<subseteq> set qs"
  using run_all_requests [of exec qs d xs d'] by (force simp: winners_def)

fun chained :: "('q \<Rightarrow> nat) \<Rightarrow> ('q \<Rightarrow> nat) \<Rightarrow> nat \<Rightarrow> 'q list \<Rightarrow> bool" where
  "chained expected next_rev n [] = True"
| "chained expected next_rev n (q # qs) =
     (expected q = n \<and> chained expected next_rev (next_rev q) qs)"

lemma chained_lower:
  assumes "chained expected next_rev n ws" and "\<And>q. q \<in> set ws \<Longrightarrow> expected q < next_rev q"
    and "q \<in> set ws"
  shows "n \<le> expected q"
  using assms
proof (induction ws arbitrary: n)
  case Nil
  then show ?case by simp
next
  case (Cons w ws)
  show ?case
  proof (cases "q = w")
    case True
    with Cons.prems(1) show ?thesis by simp
  next
    case False
    with Cons.prems have "next_rev w \<le> expected q" by (intro Cons.IH) auto
    moreover from Cons.prems(2) [of w] have "expected w < next_rev w" by simp
    ultimately show ?thesis using Cons.prems(1) by simp
  qed
qed

lemma chained_sorted:
  assumes "chained expected next_rev n ws" and "\<And>q. q \<in> set ws \<Longrightarrow> expected q < next_rev q"
  shows "sorted_wrt (<) (map expected ws)"
  using assms
proof (induction ws arbitrary: n)
  case Nil
  then show ?case by simp
next
  case (Cons w ws)
  have "sorted_wrt (<) (map expected ws)"
    by (rule Cons.IH [of "next_rev w"]) (use Cons.prems in auto)
  moreover have "expected w < expected q" if "q \<in> set ws" for q
  proof -
    have "next_rev w \<le> expected q"
      using Cons.prems that by (intro chained_lower [of expected next_rev "next_rev w" ws]) auto
    with Cons.prems(2) [of w] show ?thesis by simp
  qed
  ultimately show ?case by simp
qed

locale optimistic_store =
  fixes rev :: "'i \<Rightarrow> 'd \<Rightarrow> nat option"
    and exec :: "'q \<Rightarrow> 'd \<Rightarrow> ('e + 'r) \<times> 'd"
    and stream :: "'q \<Rightarrow> 'i"
    and expected :: "'q \<Rightarrow> nat"
    and next_rev :: "'q \<Rightarrow> nat"
    and inv :: "'d \<Rightarrow> bool"
  assumes commit: "inv d \<Longrightarrow> exec q d = (Inr r, d') \<Longrightarrow>
      rev (stream q) d = Some (expected q) \<and> rev (stream q) d' = Some (next_rev q)"
    and reject: "inv d \<Longrightarrow> exec q d = (Inl e, d') \<Longrightarrow> rev i d' = rev i d"
    and others: "inv d \<Longrightarrow> exec q d = (Inr r, d') \<Longrightarrow> i \<noteq> stream q \<Longrightarrow> rev i d' = rev i d"
    and inv_exec: "inv d \<Longrightarrow> exec q d = (x, d') \<Longrightarrow> inv d'"
begin

lemma run_inv: "inv d \<Longrightarrow> run_all exec qs d = (xs, d') \<Longrightarrow> inv d'"
  by (induction qs arbitrary: d xs) (auto split: prod.splits dest: inv_exec)

lemma winners_chained:
  assumes "inv d" and "run_all exec qs d = (xs, d')" and "\<forall>q \<in> set qs. stream q = i"
    and "rev i d = Some n"
  shows "chained expected next_rev n (winners xs)"
  using assms
proof (induction qs arbitrary: d xs n)
  case Nil
  then show ?case by auto
next
  case (Cons q qs)
  obtain x d1 where x: "exec q d = (x, d1)" by (cases "exec q d")
  obtain ys where ys: "run_all exec qs d1 = (ys, d')" and eq: "xs = (q, x) # ys"
    using Cons.prems(2) x by (auto split: prod.splits)
  have inv1: "inv d1" by (rule inv_exec [OF Cons.prems(1) x])
  have q: "stream q = i" and qs: "\<forall>q \<in> set qs. stream q = i" using Cons.prems(3) by simp_all
  note IH = Cons.IH [OF inv1 ys qs]
  show ?case
  proof (cases x)
    case (Inl e)
    from reject [OF Cons.prems(1) x [unfolded Inl], of i] Cons.prems(4)
    have "rev i d1 = Some n" by simp
    then show ?thesis using IH eq Inl by simp
  next
    case (Inr r)
    note com = commit [OF Cons.prems(1) x [unfolded Inr], unfolded q]
    then have "chained expected next_rev (next_rev q) (winners ys)" using IH by simp
    moreover have "expected q = n" using com Cons.prems(4) by simp
    ultimately show ?thesis using eq Inr by simp
  qed
qed

lemma winners_unknown_stream:
  assumes "inv d" and "run_all exec qs d = (xs, d')" and "\<forall>q \<in> set qs. stream q = i"
    and "rev i d = None"
  shows "winners xs = []"
  using assms
proof (induction qs arbitrary: d xs)
  case Nil
  then show ?case by auto
next
  case (Cons q qs)
  obtain x d1 where x: "exec q d = (x, d1)" by (cases "exec q d")
  obtain ys where ys: "run_all exec qs d1 = (ys, d')" and eq: "xs = (q, x) # ys"
    using Cons.prems(2) x by (auto split: prod.splits)
  have inv1: "inv d1" by (rule inv_exec [OF Cons.prems(1) x])
  have q: "stream q = i" and qs: "\<forall>q \<in> set qs. stream q = i" using Cons.prems(3) by simp_all
  show ?case
  proof (cases x)
    case (Inl e)
    from reject [OF Cons.prems(1) x [unfolded Inl], of i] Cons.prems(4) have "rev i d1 = None" by simp
    from Cons.IH [OF inv1 ys qs this] show ?thesis using eq Inl by simp
  next
    case (Inr r)
    from commit [OF Cons.prems(1) x [unfolded Inr]] q Cons.prems(4) show ?thesis by simp
  qed
qed

text \<open>Requests prepared against one revision: at most one of them commits.\<close>

lemma at_most_one_winner:
  assumes "inv d" and "run_all exec qs d = (xs, d')"
    and same: "\<And>q. q \<in> set qs \<Longrightarrow> stream q = i \<and> expected q = n \<and> n < next_rev q"
  shows "length (winners xs) \<le> 1"
proof (cases "rev i d")
  case None
  have "winners xs = []" by (rule winners_unknown_stream [OF assms(1,2) _ None]) (use same in auto)
  then show ?thesis by simp
next
  case (Some m)
  have sub: "set (winners xs) \<subseteq> set qs" by (rule winners_subset [OF assms(2)])
  have chain: "chained expected next_rev m (winners xs)"
    by (rule winners_chained [OF assms(1,2) _ Some]) (use same in auto)
  have "sorted_wrt (<) (map expected (winners xs))"
    by (rule chained_sorted [OF chain]) (use same sub in auto)
  moreover have "expected q = n" if "q \<in> set (winners xs)" for q using that same sub by blast
  ultimately show ?thesis by (cases "winners xs"; cases "tl (winners xs)") auto
qed

end

end
