(* ===== verification/State_Store.thy ===== *)
theory State_Store
  imports Wire_Records Optimistic_Store
begin

text \<open>
  The SQLite delivery state store of \<open>ergasterion/ingestion/sqlite_store.py\<close>: its tables, its
  transactions, the stream and attempt rows, and the contract and deployment lifecycles. A row
  keeps the columns the queries read beside the JSON document it stores (\<open>*_json\<close>), as the schema
  does. What the store takes from outside the repository (the encoded size of a record and the
  canonical digest of a contract, made by Pydantic and RFC 8785) is a field of the configuration.
\<close>

section \<open>Tables\<close>

record stream_row =
  sm_identity :: logical_identity
  sm_state :: stream_state
  sm_candidate_contract_digest :: "digest option"
  sm_candidate_migration :: "migration option"
  sm_deployment :: "runtime_deployment option"
  sm_deployment_revision :: nat

record attempt_row =
  ax_attempt_id :: digest
  ax_identity :: logical_identity
  ax_claim_digest :: digest
  ax_ordinal :: nat
  ax_state :: attempt_state
  ax_json :: attempt

record outbox_row =
  ob_outbox_id :: digest
  ob_identity :: logical_identity
  ob_entry_kind :: outbox_entry_kind
  ob_payload_digest :: digest
  ob_status :: outbox_status
  ob_dispatch_ordinal :: nat
  ob_next_not_before :: instant
  ob_lease_owner :: "token option"
  ob_lease_expires_at :: "instant option"
  ob_projection_revision :: "nat option"
  ob_json :: outbox_entry

record 'ev payload_row =
  py_outbox_id :: digest
  py_payload_digest :: digest
  py_json :: "'ev outbox_payload"

record intent_row =
  ix_identity :: logical_identity
  ix_target :: token
  ix_revision :: nat
  ix_intent_digest :: digest
  ix_json :: projection_intent

record confirmation_row =
  cx_identity :: logical_identity
  cx_target :: token
  cx_revision :: nat
  cx_intent_digest :: digest
  cx_json :: projection_confirmation

record cursor_row =
  cu_identity :: logical_identity
  cu_target :: token
  cu_revision :: nat
  cu_intent_digest :: "digest option"

record 'ev event_row =
  ex_event_id :: digest
  ex_identity :: logical_identity
  ex_state_revision :: nat
  ex_event_ordinal :: nat
  ex_payload_digest :: digest
  ex_json :: "'ev lifecycle_event"

record 'k keyset_row =
  kx_keyset_id :: digest
  kx_identity :: logical_identity
  kx_visibility :: visibility
  kx_hmac_key_id :: token
  kx_key_commitment :: digest
  kx_complete :: bool
  kx_successor_complete :: bool
  kx_retained_until :: "instant option"
  kx_json :: 'k

record 't tag_row =
  tx_keyset_id :: digest
  tx_seq :: nat
  tx_tag :: 't

record reconciliation_row =
  rx_attempt_id :: digest
  rx_identity :: logical_identity
  rx_status :: reconciliation_status
  rx_json :: snapshot_reconciliation

record 'ev db =
  db_streams :: "stream_row list"
  db_attempts :: "attempt_row list"
  db_outbox :: "outbox_row list"
  db_outbox_payloads :: "'ev payload_row list"
  db_intents :: "intent_row list"
  db_confirmations :: "confirmation_row list"
  db_cursors :: "cursor_row list"
  db_events :: "'ev event_row list"
  db_snapshot_keysets :: "snapshot_keyset keyset_row list"
  db_snapshot_tags :: "digest tag_row list"
  db_tombstone_keysets :: "tombstone_keyset keyset_row list"
  db_tombstone_tags :: "tombstone_tag tag_row list"
  db_reconciliations :: "reconciliation_row list"

text \<open>The file \<open>_migrate\<close> leaves behind: every table exists and is empty.\<close>

definition empty_db :: "'ev db" where
  "empty_db = \<lparr>db_streams = [], db_attempts = [], db_outbox = [], db_outbox_payloads = [],
     db_intents = [], db_confirmations = [], db_cursors = [], db_events = [],
     db_snapshot_keysets = [], db_snapshot_tags = [], db_tombstone_keysets = [],
     db_tombstone_tags = [], db_reconciliations = []\<rparr>"

text \<open>
  The store's constructor arguments, and the functions of the libraries it calls: the UTF-8 size
  of a record's canonical JSON, and the canonical digest of a contract and of the keyset
  envelopes.
\<close>

record 'ev store_config =
  sc_lease_seconds :: int
  sc_deletion_keyset_days :: int
  sc_max_wire_record_bytes :: nat
  sc_attempt_size :: "attempt \<Rightarrow> nat"
  sc_payload_size :: "'ev outbox_payload \<Rightarrow> nat"
  sc_contract_digest :: "landing_product_contract \<Rightarrow> digest"
  sc_keyset_id :: "logical_identity \<Rightarrow> visibility \<Rightarrow> string \<Rightarrow> digest"
  sc_snapshot_digest :: "logical_identity \<Rightarrow> visibility \<Rightarrow> fingerprint_scope \<Rightarrow> token \<Rightarrow> digest
                           \<Rightarrow> digest list \<Rightarrow> digest"
  sc_tombstone_digest :: "logical_identity \<Rightarrow> visibility \<Rightarrow> fingerprint_scope \<Rightarrow> token \<Rightarrow> digest
                           \<Rightarrow> tombstone_tag list \<Rightarrow> digest"
  sc_deleted_ref :: "digest list \<Rightarrow> digest \<Rightarrow> digest"
  sc_reconciliation_digest :: "digest \<Rightarrow> digest option \<Rightarrow> digest list \<Rightarrow> digest"
  sc_deletion_intent_digest :: "deletion_evidence_intent \<Rightarrow> digest"

section \<open>Transactions\<close>

text \<open>
  \<open>_expire_retained_keysets\<close>: keysets whose successor is complete and whose retention window has
  elapsed are dropped with their tags, in both keyset tables.
\<close>

definition keyset_expired :: "instant \<Rightarrow> 'k keyset_row \<Rightarrow> bool" where
  "keyset_expired now r \<longleftrightarrow> kx_successor_complete r \<and>
     (case kx_retained_until r of None \<Rightarrow> False | Some t \<Rightarrow> t \<le> now)"

definition expired_ids :: "instant \<Rightarrow> 'k keyset_row list \<Rightarrow> digest list" where
  "expired_ids now rows = map kx_keyset_id (filter (keyset_expired now) rows)"

definition expire_retained_keysets :: "instant \<Rightarrow> 'ev db \<Rightarrow> 'ev db" where
  "expire_retained_keysets now d =
     (let snap = expired_ids now (db_snapshot_keysets d);
          tomb = expired_ids now (db_tombstone_keysets d)
      in d\<lparr>db_snapshot_tags := delete_rows (\<lambda>r. tx_keyset_id r \<in> set snap) (db_snapshot_tags d),
           db_snapshot_keysets :=
             delete_rows (\<lambda>r. kx_keyset_id r \<in> set snap) (db_snapshot_keysets d),
           db_tombstone_tags := delete_rows (\<lambda>r. tx_keyset_id r \<in> set tomb) (db_tombstone_tags d),
           db_tombstone_keysets :=
             delete_rows (\<lambda>r. kx_keyset_id r \<in> set tomb) (db_tombstone_keysets d)\<rparr>)"

text \<open>
  \<open>_tx\<close>: the expiry commits in a transaction of its own; then the operation runs in another, which
  commits its writes, or rolls them back when it raises.
\<close>

definition in_tx :: "instant \<Rightarrow> ('ev db \<Rightarrow> ('a \<times> 'ev db) result) \<Rightarrow> 'ev db \<Rightarrow> 'a result \<times> 'ev db"
  where
  "in_tx now f d =
     (let d0 = expire_retained_keysets now d
      in case f d0 of Inl e \<Rightarrow> (Inl e, d0) | Inr (x, d1) \<Rightarrow> (Inr x, d1))"

section \<open>Streams\<close>

definition empty_state :: "logical_identity \<Rightarrow> stream_state" where
  "empty_state i = \<lparr>st_logical_identity = i, st_active_contract_digest = None,
     st_visibility_epoch = 0, st_accepted_progress = [], st_last_committed_visibility = None,
     st_last_committed_at = None, st_snapshot_reconciliation = None, st_state_revision = 0,
     st_required_projection_revision = 0\<rparr>"

definition ensure_stream_body :: "logical_identity \<Rightarrow> 'ev db \<Rightarrow> (stream_state \<times> 'ev db) result" where
  "ensure_stream_body i d =
     (case lookup_row sm_identity i (db_streams d) of
        Some r \<Rightarrow> Inr (sm_state r, d)
      | None \<Rightarrow>
          (let s = empty_state i;
               r = \<lparr>sm_identity = i, sm_state = s, sm_candidate_contract_digest = None,
                    sm_candidate_migration = None, sm_deployment = None,
                    sm_deployment_revision = 0\<rparr>
           in bind (insert_row sm_identity r (db_streams d))
                (\<lambda>rows. Inr (s, d\<lparr>db_streams := rows\<rparr>))))"

definition ensure_stream ::
    "instant \<Rightarrow> logical_identity \<Rightarrow> 'ev db \<Rightarrow> stream_state result \<times> 'ev db" where
  "ensure_stream now i = in_tx now (ensure_stream_body i)"

definition stream_row_of :: "logical_identity \<Rightarrow> 'ev db \<Rightarrow> stream_row result" where
  "stream_row_of i d =
     (case lookup_row sm_identity i (db_streams d) of None \<Rightarrow> raise Not_found | Some r \<Rightarrow> Inr r)"

definition load_state :: "logical_identity \<Rightarrow> 'ev db \<Rightarrow> stream_state result" where
  "load_state i d = bind (stream_row_of i d) (\<lambda>r. Inr (sm_state r))"

text \<open>\<open>_save_state\<close>: \<open>UPDATE streams\<close>, with the extra columns a caller assigns.\<close>

definition save_state ::
    "stream_state \<Rightarrow> (stream_row \<Rightarrow> stream_row) \<Rightarrow> 'ev db \<Rightarrow> 'ev db" where
  "save_state s assign d =
     d\<lparr>db_streams := update_row sm_identity (st_logical_identity s)
                       (\<lambda>r. assign (r\<lparr>sm_state := s\<rparr>)) (db_streams d)\<rparr>"

definition check_revision :: "nat \<Rightarrow> nat \<Rightarrow> unit result" where
  "check_revision actual expected = guard (expected = actual) Stale_revision"

section \<open>Attempts\<close>

definition is_pre_intent :: "attempt_state \<Rightarrow> bool" where
  "is_pre_intent s \<longleftrightarrow> s \<in> {Received, Preparing, Validating, Materializing}"

definition is_post_intent :: "attempt_state \<Rightarrow> bool" where
  "is_post_intent s \<longleftrightarrow> s \<in> {Committing, Commit_blocked}"

definition is_terminal :: "attempt_state \<Rightarrow> bool" where
  "is_terminal s \<longleftrightarrow> s \<in> {Committed, Failed}"

text \<open>\<open>_put_attempt\<close>; a conflicting row keeps its \<open>identity_key\<close> column.\<close>

definition put_attempt :: "'ev store_config \<Rightarrow> attempt \<Rightarrow> 'ev db \<Rightarrow> 'ev db result" where
  "put_attempt cfg a d =
     (if sc_attempt_size cfg a > sc_max_wire_record_bytes cfg then raise Capacity_exceeded
      else Inr (d\<lparr>db_attempts :=
        (if at_attempt_id a \<in> set (map ax_attempt_id (db_attempts d))
         then update_row ax_attempt_id (at_attempt_id a)
                (\<lambda>r. r\<lparr>ax_claim_digest := at_claim_digest a, ax_ordinal := at_attempt_ordinal a,
                        ax_state := at_state a, ax_json := a\<rparr>) (db_attempts d)
         else db_attempts d @
                [\<lparr>ax_attempt_id = at_attempt_id a, ax_identity = at_logical_identity a,
                  ax_claim_digest = at_claim_digest a, ax_ordinal = at_attempt_ordinal a,
                  ax_state = at_state a, ax_json = a\<rparr>])\<rparr>))"

definition put_attempts :: "'ev store_config \<Rightarrow> attempt list \<Rightarrow> 'ev db \<Rightarrow> 'ev db result" where
  "put_attempts cfg = fold_result (put_attempt cfg)"

definition attempts_for :: "logical_identity \<Rightarrow> 'ev db \<Rightarrow> attempt list" where
  "attempts_for i d =
     map ax_json (sort_key (\<lambda>r. (ax_ordinal r, ax_attempt_id r))
                    (filter (\<lambda>r. ax_identity r = i) (db_attempts d)))"

text \<open>
  \<open>_fence_attempts\<close>: a transition fails the stream's live attempts that have staged nothing yet. It
  refuses when one has already staged its intent, and, without permission, when any is live.
\<close>

definition intent_staged :: "attempt \<Rightarrow> bool" where
  "intent_staged a \<longleftrightarrow> is_post_intent (at_state a) \<or> at_remediation_commit_checkpoint a \<noteq> None
     \<or> at_projection_revision a \<noteq> None"

definition fence_attempts ::
    "'ev store_config \<Rightarrow> logical_identity \<Rightarrow> error_code \<Rightarrow> bool \<Rightarrow> 'ev db
       \<Rightarrow> (digest list \<times> 'ev db) result" where
  "fence_attempts cfg i reason permit d =
     (let live = filter (\<lambda>a. \<not> is_terminal (at_state a)) (attempts_for i d);
          blocked = filter intent_staged live;
          eligible = filter (\<lambda>a. is_pre_intent (at_state a)) live
      in if blocked \<noteq> [] then raise Inflight_attempt
         else if eligible \<noteq> [] \<and> \<not> permit then raise Inflight_attempt
         else bind (put_attempts cfg
                     (map (\<lambda>a. a\<lparr>at_state := Failed, at_reason_code := Some reason\<rparr>) eligible) d)
                (\<lambda>d'. Inr (sort (map at_attempt_id eligible), d')))"

section \<open>Projection cursors\<close>

definition authoritative_cursor :: "logical_identity \<Rightarrow> token \<Rightarrow> 'ev db \<Rightarrow> projection_cursor" where
  "authoritative_cursor i target d =
     (case lookup_row (\<lambda>r. (cu_identity r, cu_target r)) (i, target) (db_cursors d) of
        None \<Rightarrow> \<lparr>pc_logical_identity = i, pc_projection_target = target,
                 pc_projection_revision = 0, pc_projection_intent_digest = None\<rparr>
      | Some r \<Rightarrow> \<lparr>pc_logical_identity = i, pc_projection_target = target,
                   pc_projection_revision = cu_revision r,
                   pc_projection_intent_digest = cu_intent_digest r\<rparr>)"

definition check_catchup :: "projection_cursor \<Rightarrow> projection_cursor \<Rightarrow> token \<Rightarrow> unit result" where
  "check_catchup auth catchup target =
     (if pc_projection_target catchup \<noteq> target then raise Unsupported_secondary_target
      else if pc_logical_identity catchup \<noteq> pc_logical_identity auth then raise Integrity_error
      else let auth_rev = pc_projection_revision auth; got_rev = pc_projection_revision catchup in
        if auth_rev = 0 then
          (if got_rev \<noteq> 0 \<or> pc_projection_intent_digest catchup \<noteq> None
           then raise Superseded_deployment else Inr ())
        else if got_rev = 0 \<and> pc_projection_intent_digest catchup = None
          then raise Superseded_deployment
        else if got_rev < auth_rev then raise Superseded_deployment
        else if got_rev > auth_rev then raise Superseded_deployment
        else if pc_projection_intent_digest catchup \<noteq> pc_projection_intent_digest auth
          then raise Superseded_deployment
        else Inr ())"

section \<open>Contract lifecycle\<close>

definition activation_state_update ::
    "digest \<Rightarrow> migration option \<Rightarrow> stream_state \<Rightarrow> stream_state" where
  "activation_state_update digest mig s =
     (let s1 = s\<lparr>st_active_contract_digest := Some digest,
                  st_state_revision := st_state_revision s + 1\<rparr>
      in case mig of
           None \<Rightarrow> s1
         | Some m \<Rightarrow>
             (let s2 = s1\<lparr>st_visibility_epoch := mg_to_visibility_epoch m\<rparr>
              in if mg_kind m = Reset then s2\<lparr>st_accepted_progress := []\<rparr> else s2))"

definition contract_lifecycle_body ::
    "'ev store_config \<Rightarrow> contract_lifecycle_request \<Rightarrow> 'ev db
       \<Rightarrow> (contract_lifecycle_result \<times> 'ev db) result" where
  "contract_lifecycle_body cfg req d =
     (let i = lc_logical_identity (cl_contract req); digest = sc_contract_digest cfg (cl_contract req)
      in bind (stream_row_of i d) (\<lambda>row.
         let s = sm_state row; dep = sm_deployment row in
         bind (check_revision (st_state_revision s) (cl_expected_state_revision req)) (\<lambda>_.
         if cl_action req = Register then
           (let s' = s\<lparr>st_state_revision := st_state_revision s + 1\<rparr>;
                d' = save_state s'
                       (\<lambda>r. r\<lparr>sm_candidate_contract_digest := Some digest,
                               sm_candidate_migration := cl_migration req\<rparr>) d
            in Inr (\<lparr>cr_state = s', cr_deployment = dep, cr_fenced_attempt_ids = []\<rparr>, d'))
         else if sm_candidate_contract_digest row = None then raise Contract_conflict
         else if sm_candidate_contract_digest row \<noteq> Some digest then raise Contract_conflict
         else if sm_candidate_migration row \<noteq> cl_migration req then raise Migration_conflict
         else if (case cl_migration req of
                    None \<Rightarrow> False
                  | Some m \<Rightarrow> mg_from_contract_digest m \<noteq> None \<and> st_active_contract_digest s \<noteq> None
                             \<and> mg_from_contract_digest m \<noteq> st_active_contract_digest s)
           then raise Migration_conflict
         else bind (fence_attempts cfg i Superseded_contract (cl_permit_pre_intent_fence req) d)
           (\<lambda>(fenced, d1).
             let s' = activation_state_update digest (cl_migration req) s;
                 d' = save_state s'
                        (\<lambda>r. r\<lparr>sm_candidate_contract_digest := None,
                                sm_candidate_migration := None\<rparr>) d1
             in Inr (\<lparr>cr_state = s', cr_deployment = dep, cr_fenced_attempt_ids = fenced\<rparr>, d')))))"

definition contract_lifecycle ::
    "'ev store_config \<Rightarrow> instant \<Rightarrow> contract_lifecycle_request \<Rightarrow> 'ev db
       \<Rightarrow> contract_lifecycle_result result \<times> 'ev db" where
  "contract_lifecycle cfg now req = in_tx now (contract_lifecycle_body cfg req)"

section \<open>Deployment lifecycle\<close>

definition deployment_lifecycle_body ::
    "'ev store_config \<Rightarrow> deployment_lifecycle_request \<Rightarrow> 'ev db
       \<Rightarrow> (deployment_lifecycle_result \<times> 'ev db) result" where
  "deployment_lifecycle_body cfg req d =
     (let incoming = dr_deployment req; i = rt_logical_identity incoming;
          target = rt_projection_target incoming
      in bind (stream_row_of i d) (\<lambda>row.
         let s = sm_state row; actual_rev = sm_deployment_revision row; current = sm_deployment row in
         bind (check_revision (st_state_revision s) (dr_expected_state_revision req)) (\<lambda>_.
         if dr_expected_deployment_revision req \<noteq> actual_rev then raise Stale_revision
         else if ir_result (dr_readiness req) \<noteq> Ready then raise Schema_invalid
         else if (case current of None \<Rightarrow> False | Some c \<Rightarrow> rt_projection_target c \<noteq> target)
           then raise Unsupported_secondary_target
         else bind (if dr_action req = Activate
                    then check_catchup (authoritative_cursor i target d) (dr_catchup_cursor req) target
                    else Inr ()) (\<lambda>_.
         let next_rev = actual_rev + 1; finish = (\<lambda>dep fenced d1.
           let s' = s\<lparr>st_state_revision := st_state_revision s + 1\<rparr>;
               d' = save_state s' (\<lambda>r. r\<lparr>sm_deployment := Some dep,
                                         sm_deployment_revision := next_rev\<rparr>) d1
           in Inr (\<lparr>dt_state = s', dt_deployment = dep,
                    dt_catchup_cursor = dr_catchup_cursor req, dt_fenced_attempt_ids = fenced\<rparr>, d'))
         in if dr_action req = Register then
              finish (incoming\<lparr>
                rt_active_manifest_digest :=
                  (case current of None \<Rightarrow> None | Some c \<Rightarrow> rt_active_manifest_digest c),
                rt_retired_manifest_digests :=
                  (case current of None \<Rightarrow> [] | Some c \<Rightarrow> rt_retired_manifest_digests c),
                rt_deployment_revision := next_rev\<rparr>) [] d
            else
              (let candidate =
                 (case rt_candidate_manifest_digest incoming of
                    Some m \<Rightarrow> Some m
                  | None \<Rightarrow> (case current of None \<Rightarrow> None
                                           | Some c \<Rightarrow> rt_candidate_manifest_digest c));
                   retired = (case current of None \<Rightarrow> [] | Some c \<Rightarrow> rt_retired_manifest_digests c);
                   previous = (case current of None \<Rightarrow> None | Some c \<Rightarrow> rt_active_manifest_digest c)
               in if candidate = None then raise Superseded_deployment
                  else bind (fence_attempts cfg i Superseded_deployment
                               (dr_permit_pre_intent_fence req) d)
                    (\<lambda>(fenced, d1). finish (incoming\<lparr>
                       rt_candidate_manifest_digest := None,
                       rt_active_manifest_digest := candidate,
                       rt_retired_manifest_digests :=
                         retired @ (case previous of None \<Rightarrow> [] | Some p \<Rightarrow> [p]),
                       rt_deployment_revision := next_rev\<rparr>) fenced d1))))))"

definition deployment_lifecycle ::
    "'ev store_config \<Rightarrow> instant \<Rightarrow> deployment_lifecycle_request \<Rightarrow> 'ev db
       \<Rightarrow> deployment_lifecycle_result result \<times> 'ev db" where
  "deployment_lifecycle cfg now req = in_tx now (deployment_lifecycle_body cfg req)"

section \<open>Queries\<close>

definition page_attempts :: "attempt_query \<Rightarrow> attempt list \<Rightarrow> attempt_page" where
  "page_attempts q items0 =
     (let items1 = (case aq_claim_digest q of None \<Rightarrow> items0
                      | Some c \<Rightarrow> filter (\<lambda>a. at_claim_digest a = c) items0);
          items2 = (if aq_nonterminal_only q
                    then filter (\<lambda>a. \<not> is_terminal (at_state a)) items1 else items1);
          items = (case aq_after_attempt_id q of None \<Rightarrow> items2
                     | Some k \<Rightarrow> tl (dropWhile (\<lambda>a. at_attempt_id a \<noteq> k) items2));
          page = take (aq_max_items q) items;
          more = (length items > length page)
      in \<lparr>ap_attempts = page,
          ap_next_after_attempt_id =
            (if page \<noteq> [] \<and> more then Some (at_attempt_id (last page)) else None),
          ap_more = more\<rparr>)"

definition attempts :: "instant \<Rightarrow> attempt_query \<Rightarrow> 'ev db \<Rightarrow> attempt_page result \<times> 'ev db" where
  "attempts now q d =
     (case in_tx now (\<lambda>d. Inr (attempts_for (aq_logical_identity q) d, d)) d of
        (r, d') \<Rightarrow> (bind r (\<lambda>items. Inr (page_attempts q items)), d'))"

definition processing_of :: "attempt_state \<Rightarrow> processing_outcome" where
  "processing_of s =
     (if s = Committed then Po_committed
      else if s = Failed then Po_failed
      else if s = Commit_blocked then Po_blocked
      else Po_in_progress)"

definition status_body :: "logical_identity \<Rightarrow> 'ev db \<Rightarrow> (operational_status \<times> 'ev db) result" where
  "status_body i d =
     bind (load_state i d) (\<lambda>s.
       let mine = attempts_for i d;
           pending = length (filter (\<lambda>r. ob_identity r = i \<and> ob_status r \<in> {Pending, Leased, Retryable})
                       (db_outbox d));
           latest = (if mine = [] then None else Some (last mine))
       in Inr (\<lparr>os_state = s, os_latest_attempt = latest,
                os_processing = (case latest of None \<Rightarrow> Po_none | Some a \<Rightarrow> processing_of (at_state a)),
                os_block_phase = (case latest of None \<Rightarrow> None | Some a \<Rightarrow> at_block_phase a),
                os_incomplete_outbox_count = pending\<rparr>, d))"

definition status_query ::
    "instant \<Rightarrow> logical_identity \<Rightarrow> 'ev db \<Rightarrow> operational_status result \<times> 'ev db" where
  "status_query now i = in_tx now (status_body i)"

section \<open>Transactions: atomicity\<close>

lemmas result_splits = sum.splits prod.splits option.splits if_splits

lemma in_tx_Inr [result_simps]:
  "in_tx now f d = (Inr x, d') \<longleftrightarrow> f (expire_retained_keysets now d) = Inr (x, d')"
  by (auto simp: in_tx_def Let_def split: sum.splits)

lemma in_tx_Inl [result_simps]:
  "in_tx now f d = (Inl e, d') \<longleftrightarrow>
     f (expire_retained_keysets now d) = Inl e \<and> d' = expire_retained_keysets now d"
  by (auto simp: in_tx_def Let_def split: sum.splits)

lemma expire_frame [simp]:
  "db_streams (expire_retained_keysets now d) = db_streams d"
  "db_attempts (expire_retained_keysets now d) = db_attempts d"
  "db_outbox (expire_retained_keysets now d) = db_outbox d"
  "db_outbox_payloads (expire_retained_keysets now d) = db_outbox_payloads d"
  "db_intents (expire_retained_keysets now d) = db_intents d"
  "db_confirmations (expire_retained_keysets now d) = db_confirmations d"
  "db_cursors (expire_retained_keysets now d) = db_cursors d"
  "db_events (expire_retained_keysets now d) = db_events d"
  "db_reconciliations (expire_retained_keysets now d) = db_reconciliations d"
  by (simp_all add: expire_retained_keysets_def Let_def)

lemma expired_ids_iff: "k \<in> set (expired_ids now rows) \<longleftrightarrow>
    (\<exists>r \<in> set rows. kx_keyset_id r = k \<and> keyset_expired now r)"
  by (auto simp: expired_ids_def)

lemma expired_ids_again:
  "expired_ids now (delete_rows (\<lambda>r. kx_keyset_id r \<in> set (expired_ids now rows)) rows) = []"
  by (auto simp: expired_ids_def delete_rows_def filter_empty_conv)

lemma expire_idem:
  "expire_retained_keysets now (expire_retained_keysets now d) = expire_retained_keysets now d"
  unfolding expire_retained_keysets_def Let_def by (simp add: expired_ids_again) (simp add: delete_rows_def)

section \<open>Well-formed stream and attempt tables\<close>

definition stream_row_ok :: "stream_row \<Rightarrow> bool" where
  "stream_row_ok r \<longleftrightarrow> st_logical_identity (sm_state r) = sm_identity r \<and>
     (case sm_deployment r of None \<Rightarrow> sm_deployment_revision r = 0
      | Some c \<Rightarrow> rt_deployment_revision c = sm_deployment_revision r)"

definition wf_streams :: "stream_row list \<Rightarrow> bool" where
  "wf_streams rows \<longleftrightarrow> unique_keys sm_identity rows \<and> (\<forall>r \<in> set rows. stream_row_ok r)"

definition attempt_row_ok :: "attempt_row \<Rightarrow> bool" where
  "attempt_row_ok r \<longleftrightarrow> at_attempt_id (ax_json r) = ax_attempt_id r
     \<and> at_claim_digest (ax_json r) = ax_claim_digest r
     \<and> at_attempt_ordinal (ax_json r) = ax_ordinal r \<and> at_state (ax_json r) = ax_state r"

definition wf_attempts :: "attempt_row list \<Rightarrow> bool" where
  "wf_attempts rows \<longleftrightarrow> unique_keys ax_attempt_id rows \<and> (\<forall>r \<in> set rows. attempt_row_ok r)"

named_theorems wf_intros

lemma wf_streams_lookup:
  "wf_streams rows \<Longrightarrow> lookup_row sm_identity i rows = Some r \<Longrightarrow> stream_row_ok r \<and> sm_identity r = i"
  by (auto simp: wf_streams_def dest: lookup_row_SomeD)

lemma wf_streams_update [wf_intros]:
  assumes "wf_streams rows"
    and "\<And>r. r \<in> set rows \<Longrightarrow> sm_identity r = i \<Longrightarrow> stream_row_ok (f r) \<and> sm_identity (f r) = i"
    and "\<And>r. sm_identity (f r) = sm_identity r"
  shows "wf_streams (update_row sm_identity i f rows)"
  using assms
  by (auto simp: wf_streams_def unique_keys_update dest!: set_update_rowD)

lemma ensure_stream_body_ok:
  assumes "wf_streams (db_streams d)"
  shows "\<exists>s d'. ensure_stream_body i d = Inr (s, d') \<and> wf_streams (db_streams d') \<and>
     st_logical_identity s = i \<and> load_state i d' = Inr s"
proof (cases "lookup_row sm_identity i (db_streams d)")
  case None
  with assms show ?thesis
    by (auto simp: ensure_stream_body_def insert_row_fresh wf_streams_def unique_keys_append1
        stream_row_ok_def empty_state_def load_state_def stream_row_of_def lookup_row_append
        Let_def)
next
  case (Some r)
  with wf_streams_lookup [OF assms this] assms show ?thesis
    by (auto simp: ensure_stream_body_def stream_row_ok_def load_state_def stream_row_of_def)
qed

lemma put_attempt_frame:
  assumes "put_attempt cfg a d = Inr d'"
  shows "d' = d\<lparr>db_attempts := db_attempts d'\<rparr>"
  using assms by (auto simp: put_attempt_def split: if_splits)

lemma put_attempt_wf:
  assumes "put_attempt cfg a d = Inr d'" and "wf_attempts (db_attempts d)"
  shows "wf_attempts (db_attempts d')"
proof (cases "at_attempt_id a \<in> ax_attempt_id ` set (db_attempts d)")
  case True
  with assms show ?thesis
    by (auto simp: put_attempt_def wf_attempts_def unique_keys_update attempt_row_ok_def
        split: if_splits dest!: set_update_rowD)
next
  case False
  with assms show ?thesis
    by (auto simp: put_attempt_def wf_attempts_def unique_keys_append1 attempt_row_ok_def
        lookup_row_None split: if_splits)
qed

lemma put_attempt_error: "put_attempt cfg a d = Inl e \<Longrightarrow> e = Port_error Capacity_exceeded"
  by (auto simp: put_attempt_def split: if_splits)

lemma put_attempts_frame:
  assumes "put_attempts cfg as d = Inr d'"
  shows "d' = d\<lparr>db_attempts := db_attempts d'\<rparr>"
  using assms unfolding put_attempts_def
proof (induction as arbitrary: d)
  case Nil
  then show ?case by simp
next
  case (Cons a as)
  then obtain d1 where d1: "put_attempt cfg a d = Inr d1"
    and d': "fold_result (put_attempt cfg) as d1 = Inr d'" by auto
  have "d' = d1\<lparr>db_attempts := db_attempts d'\<rparr>" by (rule Cons.IH [OF d'])
  also have "\<dots> = d\<lparr>db_attempts := db_attempts d'\<rparr>"
    by (subst put_attempt_frame [OF d1]) simp
  finally show ?case .
qed

lemma put_attempts_wf:
  assumes "put_attempts cfg as d = Inr d'" and "wf_attempts (db_attempts d)"
  shows "wf_attempts (db_attempts d')"
  using fold_result_invariant [where P = "\<lambda>d. wf_attempts (db_attempts d)"] assms
  by (metis put_attempt_wf put_attempts_def)

lemma put_attempts_error:
  assumes "put_attempts cfg as d = Inl e"
  shows "e = Port_error Capacity_exceeded"
  using fold_result_error [where P = "\<lambda>_. True" and Q = "\<lambda>e. e = Port_error Capacity_exceeded",
      OF _ _ _ assms [unfolded put_attempts_def]]
  by (auto dest: put_attempt_error)

text \<open>What the attempt table holds after a batch of writes.\<close>

lemma put_attempt_lookup:
  assumes "put_attempt cfg a d = Inr d'"
  shows "map_option ax_json (lookup_row ax_attempt_id k (db_attempts d')) =
    (if k = at_attempt_id a then Some a
     else map_option ax_json (lookup_row ax_attempt_id k (db_attempts d)))"
proof (cases "at_attempt_id a \<in> ax_attempt_id ` set (db_attempts d)")
  case True
  then have "lookup_row ax_attempt_id (at_attempt_id a) (db_attempts d) \<noteq> None"
    by (simp add: lookup_row_None)
  with True assms show ?thesis
    by (auto simp: put_attempt_def lookup_row_update split: if_splits)
next
  case False
  then have "lookup_row ax_attempt_id (at_attempt_id a) (db_attempts d) = None"
    by (simp add: lookup_row_None)
  with False assms show ?thesis
    by (auto simp: put_attempt_def lookup_row_append split: if_splits option.splits)
qed

lemma put_attempts_last:
  assumes "put_attempts cfg (as @ [a]) d = Inr d'"
  shows "map_option ax_json (lookup_row ax_attempt_id (at_attempt_id a) (db_attempts d')) = Some a"
proof -
  from assms obtain d1 where "put_attempt cfg a d1 = Inr d'"
    by (auto simp: put_attempts_def fold_result_append)
  from put_attempt_lookup [OF this, of "at_attempt_id a"] show ?thesis by simp
qed

section \<open>Fencing\<close>

lemma find_unique:
  assumes "a \<in> set as" and "P a" and uniq: "\<And>b. b \<in> set as \<Longrightarrow> P b \<Longrightarrow> b = a"
  shows "find P as = Some a"
proof (cases "find P as")
  case None
  with assms(1,2) show ?thesis by (simp add: find_None_iff)
next
  case (Some c)
  then have "c \<in> set as" "P c" by (auto simp: find_Some_iff)
  with Some uniq show ?thesis by metis
qed

lemma find_none: "(\<And>b. b \<in> set as \<Longrightarrow> \<not> P b) \<Longrightarrow> find P as = None"
  by (induction as) auto

definition write_attempt :: "attempt \<Rightarrow> attempt_row \<Rightarrow> attempt_row" where
  "write_attempt a r = r\<lparr>ax_claim_digest := at_claim_digest a, ax_ordinal := at_attempt_ordinal a,
     ax_state := at_state a, ax_json := a\<rparr>"

lemma write_attempt_simps [simp]:
  "ax_attempt_id (write_attempt a r) = ax_attempt_id r"
  "ax_identity (write_attempt a r) = ax_identity r"
  "ax_state (write_attempt a r) = at_state a"
  "ax_json (write_attempt a r) = a"
  by (simp_all add: write_attempt_def)

lemma put_attempt_existing:
  assumes "put_attempt cfg a d = Inr d'" and "at_attempt_id a \<in> ax_attempt_id ` set (db_attempts d)"
  shows "db_attempts d' = update_row ax_attempt_id (at_attempt_id a) (write_attempt a) (db_attempts d)"
  using assms by (auto simp: put_attempt_def write_attempt_def [abs_def] split: if_splits)

lemma put_attempts_existing:
  assumes "put_attempts cfg as d = Inr d'"
    and "at_attempt_id ` set as \<subseteq> ax_attempt_id ` set (db_attempts d)"
    and "distinct (map at_attempt_id as)"
  shows "db_attempts d' = map (\<lambda>r. case find (\<lambda>a. at_attempt_id a = ax_attempt_id r) as of
      None \<Rightarrow> r | Some a \<Rightarrow> write_attempt a r) (db_attempts d)"
  using assms unfolding put_attempts_def
proof (induction as arbitrary: d)
  case Nil
  then show ?case by simp
next
  case (Cons a as)
  from Cons.prems(1) obtain d1 where d1: "put_attempt cfg a d = Inr d1"
    and d': "fold_result (put_attempt cfg) as d1 = Inr d'" by auto
  from Cons.prems(2) have mem: "at_attempt_id a \<in> ax_attempt_id ` set (db_attempts d)" by simp
  note rows1 = put_attempt_existing [OF d1 mem]
  have keys: "map ax_attempt_id (db_attempts d1) = map ax_attempt_id (db_attempts d)"
    by (simp add: rows1 map_key_update_row)
  then have "ax_attempt_id ` set (db_attempts d1) = ax_attempt_id ` set (db_attempts d)"
    by (metis set_map)
  with Cons.prems(2,3) have
    "db_attempts d' = map (\<lambda>r. case find (\<lambda>a. at_attempt_id a = ax_attempt_id r) as of
      None \<Rightarrow> r | Some a \<Rightarrow> write_attempt a r) (db_attempts d1)"
    by (intro Cons.IH [OF d']) auto
  moreover have "find (\<lambda>b. at_attempt_id b = at_attempt_id a) as = None"
    using Cons.prems(3) by (intro find_none) (auto simp: image_iff)
  ultimately show ?case
    by (auto simp: rows1 update_row_def split: option.splits)
qed

lemma mem_attempts_for:
  "a \<in> set (attempts_for i d) \<longleftrightarrow> (\<exists>r \<in> set (db_attempts d). ax_identity r = i \<and> a = ax_json r)"
  by (auto simp: attempts_for_def)

lemma attempts_for_ids:
  assumes "wf_attempts (db_attempts d)"
  shows "map at_attempt_id (attempts_for i d) =
     map ax_attempt_id (sort_key (\<lambda>r. (ax_ordinal r, ax_attempt_id r))
                    (filter (\<lambda>r. ax_identity r = i) (db_attempts d)))"
  using assms by (auto simp: attempts_for_def wf_attempts_def attempt_row_ok_def)

lemma distinct_attempts_for:
  assumes "wf_attempts (db_attempts d)"
  shows "distinct (map at_attempt_id (attempts_for i d))"
  using assms unfolding attempts_for_ids [OF assms]
  by (simp add: wf_attempts_def unique_keys_def distinct_map inj_on_def)

text \<open>The row an attempt of the fenced stream is left in.\<close>

definition fence_row :: "logical_identity \<Rightarrow> error_code \<Rightarrow> attempt_row \<Rightarrow> attempt_row" where
  "fence_row i reason r =
     (if ax_identity r = i \<and> \<not> is_terminal (ax_state r)
      then write_attempt ((ax_json r)\<lparr>at_state := Failed, at_reason_code := Some reason\<rparr>) r else r)"

lemma not_terminal_cases:
  "\<not> is_terminal s \<longleftrightarrow> is_pre_intent s \<or> is_post_intent s"
  "is_pre_intent s \<Longrightarrow> \<not> is_post_intent s"
  by (cases s; simp add: is_terminal_def is_pre_intent_def is_post_intent_def)+

lemma fence_attempts_rows:
  assumes fence: "fence_attempts cfg i reason permit d = Inr (fenced, d')"
    and wf: "wf_attempts (db_attempts d)"
  shows "db_attempts d' = map (fence_row i reason) (db_attempts d)"
    and "d' = d\<lparr>db_attempts := db_attempts d'\<rparr>"
    and "fenced = sort (map at_attempt_id (filter (\<lambda>a. \<not> is_terminal (at_state a)) (attempts_for i d)))"
    and "\<And>a. a \<in> set (attempts_for i d) \<Longrightarrow> \<not> is_terminal (at_state a) \<Longrightarrow> \<not> intent_staged a \<and> permit"
proof -
  let ?live = "filter (\<lambda>a. \<not> is_terminal (at_state a)) (attempts_for i d)"
  let ?upd = "\<lambda>a. a\<lparr>at_state := Failed, at_reason_code := Some reason\<rparr>"
  from fence have unstaged: "filter intent_staged ?live = []"
    and permit: "filter (\<lambda>a. is_pre_intent (at_state a)) ?live \<noteq> [] \<Longrightarrow> permit"
    by (auto simp: fence_attempts_def Let_def split: if_splits)
  then have pre: "is_pre_intent (at_state a)" if "a \<in> set ?live" for a
    using that not_terminal_cases(1) [of "at_state a"]
    by (auto simp: filter_empty_conv intent_staged_def)
  then have elig: "filter (\<lambda>a. is_pre_intent (at_state a)) ?live = ?live"
    by (simp only: filter_id_conv) blast
  show "\<not> intent_staged a \<and> permit" if "a \<in> set (attempts_for i d)" "\<not> is_terminal (at_state a)" for a
  proof -
    from that have "a \<in> set ?live" by simp
    with unstaged permit [unfolded elig] show ?thesis by (auto simp: filter_empty_conv)
  qed
  from fence have puts: "put_attempts cfg (map ?upd ?live) d = Inr d'"
    and "fenced = sort (map at_attempt_id ?live)"
    by (auto simp: fence_attempts_def Let_def elig simp del: filter_filter split: if_splits)
  then show "fenced = sort (map at_attempt_id ?live)" by simp
  show "d' = d\<lparr>db_attempts := db_attempts d'\<rparr>" by (rule put_attempts_frame [OF puts])
  have ids: "map at_attempt_id (map ?upd ?live) = map at_attempt_id ?live" by simp
  have dist: "distinct (map at_attempt_id (map ?upd ?live))"
    unfolding ids by (rule distinct_map_filter [OF distinct_attempts_for [OF wf]])
  have ok: "attempt_row_ok r" if "r \<in> set (db_attempts d)" for r
    using wf that by (simp add: wf_attempts_def)
  have sub: "at_attempt_id ` set (map ?upd ?live) \<subseteq> ax_attempt_id ` set (db_attempts d)"
    using ok by (force simp: mem_attempts_for attempt_row_ok_def)
  have inj: "r = r'" if "r \<in> set (db_attempts d)" "r' \<in> set (db_attempts d)"
      "ax_attempt_id r = ax_attempt_id r'" for r r'
    using wf that by (auto simp: wf_attempts_def unique_keys_def distinct_map inj_on_def)
  have find: "find (\<lambda>a. at_attempt_id a = ax_attempt_id r) (map ?upd ?live) =
     (if ax_identity r = i \<and> \<not> is_terminal (ax_state r) then Some (?upd (ax_json r)) else None)"
    if r: "r \<in> set (db_attempts d)" for r
  proof (cases "ax_identity r = i \<and> \<not> is_terminal (ax_state r)")
    case True
    have "find (\<lambda>a. at_attempt_id a = ax_attempt_id r) (map ?upd ?live) = Some (?upd (ax_json r))"
    proof (rule find_unique)
      show "?upd (ax_json r) \<in> set (map ?upd ?live)"
        using r True ok [OF r] by (auto simp: mem_attempts_for attempt_row_ok_def)
      show "at_attempt_id (?upd (ax_json r)) = ax_attempt_id r"
        using ok [OF r] by (simp add: attempt_row_ok_def)
    next
      fix b assume "b \<in> set (map ?upd ?live)" and b: "at_attempt_id b = ax_attempt_id r"
      then obtain r' where r': "r' \<in> set (db_attempts d)" "b = ?upd (ax_json r')"
        by (auto simp: mem_attempts_for)
      with b ok [OF r'(1)] have "ax_attempt_id r' = ax_attempt_id r"
        by (simp add: attempt_row_ok_def)
      with inj [OF r'(1) r] r'(2) show "b = ?upd (ax_json r)" by simp
    qed
    with True show ?thesis by simp
  next
    case False
    have "find (\<lambda>a. at_attempt_id a = ax_attempt_id r) (map ?upd ?live) = None"
    proof (rule find_none)
      fix b assume "b \<in> set (map ?upd ?live)"
      then obtain r' where r': "r' \<in> set (db_attempts d)" "b = ?upd (ax_json r')"
        and live: "ax_identity r' = i" "\<not> is_terminal (at_state (ax_json r'))"
        by (auto simp: mem_attempts_for)
      then show "at_attempt_id b \<noteq> ax_attempt_id r"
        using ok [OF r'(1)] inj [OF r'(1) r] False by (auto simp: attempt_row_ok_def)
    qed
    with False show ?thesis by simp
  qed
  show "db_attempts d' = map (fence_row i reason) (db_attempts d)"
    unfolding put_attempts_existing [OF puts sub dist]
    by (rule map_cong) (simp_all add: find fence_row_def del: set_map)
qed

lemma fence_attempts_terminal:
  assumes "fence_attempts cfg i reason permit d = Inr (fenced, d')" and "wf_attempts (db_attempts d)"
    and "a \<in> set (attempts_for i d')"
  shows "is_terminal (at_state a)"
proof -
  from assms(3) obtain r where "r \<in> set (db_attempts d')" "ax_identity r = i" "a = ax_json r"
    by (auto simp: mem_attempts_for)
  then obtain r0 where r0: "r0 \<in> set (db_attempts d)" "r = fence_row i reason r0"
    unfolding fence_attempts_rows(1) [OF assms(1,2)] by auto
  moreover from r0(1) assms(2) have "at_state (ax_json r0) = ax_state r0"
    by (simp add: wf_attempts_def attempt_row_ok_def)
  ultimately show ?thesis
    using \<open>ax_identity r = i\<close> \<open>a = ax_json r\<close>
    by (auto simp: fence_row_def is_terminal_def split: if_splits)
qed

lemma fence_attempts_wf:
  assumes "fence_attempts cfg i reason permit d = Inr (fenced, d')" and "wf_attempts (db_attempts d)"
  shows "wf_attempts (db_attempts d')"
proof -
  have "map ax_attempt_id (map (fence_row i reason) (db_attempts d)) = map ax_attempt_id (db_attempts d)"
    by (simp add: fence_row_def)
  then have "unique_keys ax_attempt_id (map (fence_row i reason) (db_attempts d))"
    using assms(2) unfolding wf_attempts_def unique_keys_def by metis
  moreover have "attempt_row_ok (fence_row i reason r)" if "attempt_row_ok r" for r
    using that by (simp add: fence_row_def attempt_row_ok_def write_attempt_def)
  ultimately show ?thesis
    using assms(2) unfolding fence_attempts_rows(1) [OF assms]
    by (auto simp: wf_attempts_def)
qed

lemma fence_attempts_error:
  assumes "fence_attempts cfg i reason permit d = Inl e"
  shows "e \<in> {Port_error Inflight_attempt, Port_error Capacity_exceeded}"
  using assms put_attempts_error
  by (auto simp: fence_attempts_def Let_def bind_eq_Inl split: if_splits)

section \<open>Lifecycle transitions\<close>

definition stream_rev :: "logical_identity \<Rightarrow> 'ev db \<Rightarrow> nat option" where
  "stream_rev i d = map_option (\<lambda>r. st_state_revision (sm_state r)) (lookup_row sm_identity i (db_streams d))"

lemma stream_row_of_Inr [simp]:
  "stream_row_of i d = Inr r \<longleftrightarrow> lookup_row sm_identity i (db_streams d) = Some r"
  by (auto simp: stream_row_of_def split: option.splits)

lemma check_revision_Inr [simp]: "check_revision a e = Inr u \<longleftrightarrow> e = a"
  by (simp add: check_revision_def)

lemma lookup_save_state:
  assumes "\<And>r. sm_identity (assign r) = sm_identity r"
  shows "lookup_row sm_identity k (db_streams (save_state s assign d)) =
    (if k = st_logical_identity s
     then map_option (\<lambda>r. assign (r\<lparr>sm_state := s\<rparr>)) (lookup_row sm_identity k (db_streams d))
     else lookup_row sm_identity k (db_streams d))"
  using assms by (simp add: save_state_def lookup_row_update)

lemma save_state_frame [simp]:
  "db_attempts (save_state s f d) = db_attempts d"
  "db_outbox (save_state s f d) = db_outbox d"
  "db_outbox_payloads (save_state s f d) = db_outbox_payloads d"
  "db_intents (save_state s f d) = db_intents d"
  "db_confirmations (save_state s f d) = db_confirmations d"
  "db_cursors (save_state s f d) = db_cursors d"
  "db_events (save_state s f d) = db_events d"
  "db_snapshot_keysets (save_state s f d) = db_snapshot_keysets d"
  "db_snapshot_tags (save_state s f d) = db_snapshot_tags d"
  "db_tombstone_keysets (save_state s f d) = db_tombstone_keysets d"
  "db_tombstone_tags (save_state s f d) = db_tombstone_tags d"
  "db_reconciliations (save_state s f d) = db_reconciliations d"
  by (simp_all add: save_state_def)

lemma attempts_for_save_state [simp]: "attempts_for i (save_state s f d) = attempts_for i d"
  by (simp add: attempts_for_def)

lemma activation_state_update_simps [simp]:
  "st_logical_identity (activation_state_update dg m s) = st_logical_identity s"
  "st_active_contract_digest (activation_state_update dg m s) = Some dg"
  "st_state_revision (activation_state_update dg m s) = st_state_revision s + 1"
  by (auto simp: activation_state_update_def Let_def split: option.splits)

text \<open>What a contract transition that commits has read and written.\<close>

lemma contract_lifecycle_body_Inr:
  assumes "contract_lifecycle_body cfg req d = Inr (res, d')"
  defines "i \<equiv> lc_logical_identity (cl_contract req)"
    and "dg \<equiv> sc_contract_digest cfg (cl_contract req)"
  obtains
    (registered) row where "cl_action req = Register"
      "lookup_row sm_identity i (db_streams d) = Some row"
      "st_state_revision (sm_state row) = cl_expected_state_revision req"
      "cr_state res = (sm_state row)\<lparr>st_state_revision := st_state_revision (sm_state row) + 1\<rparr>"
      "d' = save_state (cr_state res) (\<lambda>r. r\<lparr>sm_candidate_contract_digest := Some dg,
               sm_candidate_migration := cl_migration req\<rparr>) d"
  | (activated) row d1 where "cl_action req = Activate"
      "lookup_row sm_identity i (db_streams d) = Some row"
      "st_state_revision (sm_state row) = cl_expected_state_revision req"
      "sm_candidate_contract_digest row = Some dg" "sm_candidate_migration row = cl_migration req"
      "\<And>m a b. cl_migration req = Some m \<Longrightarrow> mg_from_contract_digest m = Some a \<Longrightarrow>
         st_active_contract_digest (sm_state row) = Some b \<Longrightarrow> a = b"
      "fence_attempts cfg i Superseded_contract (cl_permit_pre_intent_fence req) d =
         Inr (cr_fenced_attempt_ids res, d1)"
      "cr_state res = activation_state_update dg (cl_migration req) (sm_state row)"
      "d' = save_state (cr_state res) (\<lambda>r. r\<lparr>sm_candidate_contract_digest := None,
               sm_candidate_migration := None\<rparr>) d1"
proof (cases "cl_action req")
  case Register
  with assms(1) show ?thesis
    by (auto simp: contract_lifecycle_body_def Let_def i_def dg_def intro!: registered)
next
  case Activate
  with assms(1) show ?thesis
    by (auto simp: contract_lifecycle_body_def Let_def i_def [symmetric] dg_def [symmetric]
        split: if_splits option.splits intro!: activated)
qed

lemma contract_lifecycle_body_error:
  assumes "contract_lifecycle_body cfg req d = Inl e"
  shows "e \<in> Port_error ` {Not_found, Stale_revision, Contract_conflict, Migration_conflict,
    Inflight_attempt, Capacity_exceeded}"
  using assms
  by (auto simp: contract_lifecycle_body_def Let_def bind_eq_Inl stream_row_of_def check_revision_def
      split: if_splits option.splits dest: fence_attempts_error)

definition finish_deployment ::
    "deployment_lifecycle_request \<Rightarrow> stream_row \<Rightarrow> runtime_deployment \<Rightarrow> digest list \<Rightarrow> 'ev db
       \<Rightarrow> deployment_lifecycle_result \<times> 'ev db" where
  "finish_deployment req row dep fenced d =
     (let s = sm_state row; s' = s\<lparr>st_state_revision := st_state_revision s + 1\<rparr>
      in (\<lparr>dt_state = s', dt_deployment = dep, dt_catchup_cursor = dr_catchup_cursor req,
           dt_fenced_attempt_ids = fenced\<rparr>,
          save_state s' (\<lambda>r. r\<lparr>sm_deployment := Some dep,
            sm_deployment_revision := sm_deployment_revision row + 1\<rparr>) d))"

text \<open>What a deployment transition that commits has read and written.\<close>

lemma deployment_lifecycle_body_Inr:
  assumes "deployment_lifecycle_body cfg req d = Inr (res, d')"
  defines "i \<equiv> rt_logical_identity (dr_deployment req)"
    and "target \<equiv> rt_projection_target (dr_deployment req)"
  obtains row d1 where
      "lookup_row sm_identity i (db_streams d) = Some row"
      "st_state_revision (sm_state row) = dr_expected_state_revision req"
      "dr_expected_deployment_revision req = sm_deployment_revision row"
      "ir_result (dr_readiness req) = Ready"
      "\<And>c. sm_deployment row = Some c \<Longrightarrow> rt_projection_target c = target"
      "(res, d') = finish_deployment req row (dt_deployment res) (dt_fenced_attempt_ids res) d1"
      "rt_deployment_revision (dt_deployment res) = sm_deployment_revision row + 1"
      "rt_projection_target (dt_deployment res) = target"
      "dr_action req = Register \<and> d1 = d \<and> dt_fenced_attempt_ids res = []
         \<and> rt_active_manifest_digest (dt_deployment res) =
             Option.bind (sm_deployment row) rt_active_manifest_digest
         \<and> rt_candidate_manifest_digest (dt_deployment res) =
             rt_candidate_manifest_digest (dr_deployment req)
       \<or> dr_action req = Activate
         \<and> check_catchup (authoritative_cursor i target d) (dr_catchup_cursor req) target = Inr ()
         \<and> fence_attempts cfg i Superseded_deployment (dr_permit_pre_intent_fence req) d =
             Inr (dt_fenced_attempt_ids res, d1)
         \<and> rt_candidate_manifest_digest (dt_deployment res) = None
         \<and> rt_active_manifest_digest (dt_deployment res) \<noteq> None
         \<and> rt_active_manifest_digest (dt_deployment res) =
             (case rt_candidate_manifest_digest (dr_deployment req) of
                Some m \<Rightarrow> Some m
              | None \<Rightarrow> Option.bind (sm_deployment row) rt_candidate_manifest_digest)
         \<and> rt_retired_manifest_digests (dt_deployment res) =
             (case sm_deployment row of None \<Rightarrow> []
              | Some c \<Rightarrow> rt_retired_manifest_digests c @
                  (case rt_active_manifest_digest c of None \<Rightarrow> [] | Some p \<Rightarrow> [p]))"
proof (cases "dr_action req")
  case Register
  with assms(1) show ?thesis
    by (auto simp: deployment_lifecycle_body_def Let_def i_def target_def finish_deployment_def
        split: if_splits option.splits intro!: that)
next
  case Activate
  with assms(1) show ?thesis
    by (auto simp: deployment_lifecycle_body_def Let_def i_def target_def finish_deployment_def
        split: if_splits option.splits prod.splits intro!: that)
qed

lemma check_catchup_error:
  "check_catchup auth cu t = Inl e \<Longrightarrow>
     e \<in> Port_error ` {Unsupported_secondary_target, Integrity_error, Superseded_deployment}"
  by (auto simp: check_catchup_def Let_def split: if_splits)

lemma deployment_lifecycle_body_error:
  assumes "deployment_lifecycle_body cfg req d = Inl e"
  shows "e \<in> Port_error ` {Not_found, Stale_revision, Schema_invalid, Unsupported_secondary_target,
    Integrity_error, Superseded_deployment, Inflight_attempt, Capacity_exceeded}"
  using assms
  by (auto simp: deployment_lifecycle_body_def Let_def bind_eq_Inl stream_row_of_def check_revision_def
      split: if_splits option.splits prod.splits dest: fence_attempts_error check_catchup_error)

lemma fence_attempts_streams:
  "fence_attempts cfg i reason permit d = Inr (fenced, d') \<Longrightarrow> wf_attempts (db_attempts d) \<Longrightarrow>
     db_streams d' = db_streams d"
  by (drule (1) fence_attempts_rows(2)) (metis db.select_convs(1) db.surjective db.update_convs(2))

lemma save_state_wf_streams:
  assumes "wf_streams (db_streams d)"
    and "\<And>r. lookup_row sm_identity (st_logical_identity s) (db_streams d) = Some r \<Longrightarrow>
           stream_row_ok (assign (r\<lparr>sm_state := s\<rparr>))"
    and "\<And>r. sm_identity (assign r) = sm_identity r"
  shows "wf_streams (db_streams (save_state s assign d))"
proof -
  have "unique_keys sm_identity (db_streams d)" using assms(1) by (simp add: wf_streams_def)
  then show ?thesis
    using assms unfolding save_state_def
    by (auto simp: lookup_row_iff intro!: wf_streams_update)
qed

lemma contract_lifecycle_body_wf:
  assumes ok: "contract_lifecycle_body cfg req d = Inr (res, d')"
    and ws: "wf_streams (db_streams d)" and wa: "wf_attempts (db_attempts d)"
  shows "wf_streams (db_streams d') \<and> wf_attempts (db_attempts d')"
  using ok
proof (cases rule: contract_lifecycle_body_Inr)
  case (registered row)
  note row = wf_streams_lookup [OF ws registered(2)]
  have "wf_streams (db_streams d')"
    unfolding registered(5)
    by (rule save_state_wf_streams [OF ws])
       (use row registered(2,4) in \<open>auto simp: stream_row_ok_def split: option.splits\<close>)
  then show ?thesis using wa registered(5) by simp
next
  case (activated row d1)
  note row = wf_streams_lookup [OF ws activated(2)]
  note streams = fence_attempts_streams [OF activated(7) wa]
  have "wf_streams (db_streams d')"
    unfolding activated(9)
    by (rule save_state_wf_streams)
       (use row activated(2,8) ws streams in \<open>auto simp: stream_row_ok_def split: option.splits\<close>)
  then show ?thesis using fence_attempts_wf [OF activated(7) wa] activated(9) by simp
qed

lemma contract_lifecycle_body_rev:
  assumes ok: "contract_lifecycle_body cfg req d = Inr (res, d')"
    and ws: "wf_streams (db_streams d)" and wa: "wf_attempts (db_attempts d)"
  defines "i \<equiv> lc_logical_identity (cl_contract req)"
  shows "stream_rev i d = Some (cl_expected_state_revision req)"
    and "stream_rev k d' = (if k = i then Some (cl_expected_state_revision req + 1) else stream_rev k d)"
    and "st_logical_identity (cr_state res) = i"
    and "\<exists>r. lookup_row sm_identity i (db_streams d') = Some r \<and> sm_state r = cr_state res"
proof -
  have "stream_rev i d = Some (cl_expected_state_revision req)
    \<and> stream_rev k d' = (if k = i then Some (cl_expected_state_revision req + 1) else stream_rev k d)
    \<and> st_logical_identity (cr_state res) = i
    \<and> (\<exists>r. lookup_row sm_identity i (db_streams d') = Some r \<and> sm_state r = cr_state res)"
    using ok
  proof (cases rule: contract_lifecycle_body_Inr)
    case (registered row)
    note row = wf_streams_lookup [OF ws registered(2)]
    then have "st_logical_identity (sm_state row) = i" by (simp add: stream_row_ok_def i_def)
    then show ?thesis
      using registered by (simp add: stream_rev_def lookup_save_state i_def)
  next
    case (activated row d1)
    note row = wf_streams_lookup [OF ws activated(2)]
    then have "st_logical_identity (sm_state row) = i" by (simp add: stream_row_ok_def i_def)
    then show ?thesis
      using activated fence_attempts_streams [OF activated(7) wa]
      by (simp add: stream_rev_def lookup_save_state i_def)
  qed
  then show "stream_rev i d = Some (cl_expected_state_revision req)"
    and "stream_rev k d' = (if k = i then Some (cl_expected_state_revision req + 1) else stream_rev k d)"
    and "st_logical_identity (cr_state res) = i"
    and "\<exists>r. lookup_row sm_identity i (db_streams d') = Some r \<and> sm_state r = cr_state res"
    by auto
qed

lemma deployment_lifecycle_body_effect:
  assumes ok: "deployment_lifecycle_body cfg req d = Inr (res, d')"
    and ws: "wf_streams (db_streams d)" and wa: "wf_attempts (db_attempts d)"
  defines "i \<equiv> rt_logical_identity (dr_deployment req)"
  shows "wf_streams (db_streams d')" and "wf_attempts (db_attempts d')"
    and "stream_rev i d = Some (dr_expected_state_revision req)"
    and "stream_rev k d' = (if k = i then Some (dr_expected_state_revision req + 1) else stream_rev k d)"
    and "\<exists>r. lookup_row sm_identity i (db_streams d') = Some r \<and> sm_state r = dt_state res
             \<and> sm_deployment r = Some (dt_deployment res)"
proof -
  from ok obtain row d1 where row: "lookup_row sm_identity i (db_streams d) = Some row"
      "st_state_revision (sm_state row) = dr_expected_state_revision req"
      "(res, d') = finish_deployment req row (dt_deployment res) (dt_fenced_attempt_ids res) d1"
      "rt_deployment_revision (dt_deployment res) = sm_deployment_revision row + 1"
    and d1: "d1 = d \<or> fence_attempts cfg i Superseded_deployment (dr_permit_pre_intent_fence req) d =
             Inr (dt_fenced_attempt_ids res, d1)"
    unfolding i_def by (cases rule: deployment_lifecycle_body_Inr) auto
  note id = wf_streams_lookup [OF ws row(1)]
  then have sid: "st_logical_identity (sm_state row) = i" by (simp add: stream_row_ok_def)
  from d1 have streams: "db_streams d1 = db_streams d" and wa1: "wf_attempts (db_attempts d1)"
    using fence_attempts_streams [OF _ wa] fence_attempts_wf [OF _ wa] wa by auto
  define s' where "s' = (sm_state row)\<lparr>st_state_revision := st_state_revision (sm_state row) + 1\<rparr>"
  let ?f = "\<lambda>r. r\<lparr>sm_deployment := Some (dt_deployment res),
              sm_deployment_revision := sm_deployment_revision row + 1\<rparr>"
  have d': "d' = save_state s' ?f d1"
    using row(3) by (simp add: finish_deployment_def Let_def s'_def)
  have res: "dt_state res = s'"
    using arg_cong [OF row(3), of "\<lambda>x. dt_state (fst x)"]
    by (simp add: finish_deployment_def Let_def s'_def)
  show "wf_streams (db_streams d')"
    unfolding d'
  proof (rule save_state_wf_streams)
    fix r assume "lookup_row sm_identity (st_logical_identity s') (db_streams d1) = Some r"
    with row(1) streams sid have "r = row" by (simp add: s'_def)
    then show "stream_row_ok (?f (r\<lparr>sm_state := s'\<rparr>))"
      using id row(4) unfolding stream_row_ok_def s'_def by simp
  qed (simp_all add: ws streams)
  show "wf_attempts (db_attempts d')" using wa1 d' by simp
  show "stream_rev i d = Some (dr_expected_state_revision req)"
    using row(1,2) by (simp add: stream_rev_def)
  have key: "st_logical_identity s' = i" using sid by (simp add: s'_def)
  show "stream_rev k d' = (if k = i then Some (dr_expected_state_revision req + 1) else stream_rev k d)"
    using row(1,2) key streams unfolding d' by (simp add: stream_rev_def lookup_save_state) (simp add: s'_def)
  show "\<exists>r. lookup_row sm_identity i (db_streams d') = Some r \<and> sm_state r = dt_state res
             \<and> sm_deployment r = Some (dt_deployment res)"
    using row(1) key streams res unfolding d' by (simp add: lookup_save_state)
qed

section \<open>A concrete store\<close>

text \<open>One stream, one contract and their deployment: the values the examples below evaluate.\<close>

definition eg_identity :: logical_identity where
  "eg_identity = \<lparr>li_estate_namespace = ''estate'', li_source = ''crm'', li_table = ''orders''\<rparr>"

definition eg_quality :: quality_policy where
  "eg_quality = \<lparr>qp_publication_mode = All_or_nothing, qp_max_error_fraction = ''0'', qp_rules = []\<rparr>"

definition eg_delivery :: delivery_policy where
  "eg_delivery = \<lparr>dp_mode = Append_only, dp_progress = Opaque_batch_progress,
     dp_delete_strategy = No_deletes, dp_schedule = Interval_schedule 60 0,
     dp_schedule_lateness = \<lparr>sla_warn_after_minutes = 30, sla_error_after_minutes = 60\<rparr>,
     dp_maximum_age = None,
     dp_timestamps = \<lparr>tc_load_field = ''loaded'', tc_event_field = None, tc_effective_field = None\<rparr>,
     dp_record_key = \<lparr>rk_fields = [''id''], rk_fingerprint_scope = None, rk_hmac_key_id = None\<rparr>,
     dp_tombstone = None, dp_snapshot = None, dp_quality = eg_quality,
     dp_retry = \<lparr>rp_max_attempts = 3, rp_backoff = Fixed, rp_base_seconds = 1, rp_cap_seconds = 1\<rparr>\<rparr>"

definition eg_contract :: landing_product_contract where
  "eg_contract = \<lparr>lc_logical_identity = eg_identity,
     lc_product = \<lparr>pf_product_version = ''1.0.0'', pf_display_name = ''Orders'', pf_description = ''d'',
       pf_owner = ''o'', pf_domain = ''d'', pf_support = ''s'', pf_classification = ''c'',
       pf_access_policy_ref = ''a'', pf_retention_policy_ref = ''r''\<rparr>,
     lc_landing = \<lparr>lb_source_name = ''crm'', lb_identifier = ''orders'', lb_integration = Managed,
       lb_content_encodings = [Enc_identity], lb_codec = Jsonl_codec Lf, lb_physical_columns = [],
       lb_physical_name = None\<rparr>,
     lc_delivery = eg_delivery, lc_projection = [],
     lc_interfaces = \<lparr>if_raw = ''r'', if_source_native = ''n'', if_published = ''p'',
       if_quarantine = ''q'', if_deletion_evidence = ''e''\<rparr>\<rparr>"

definition eg_config :: "unit store_config" where
  "eg_config = \<lparr>sc_lease_seconds = 60, sc_deletion_keyset_days = 30, sc_max_wire_record_bytes = 10,
     sc_attempt_size = (\<lambda>_. 1), sc_payload_size = (\<lambda>_. 1),
     sc_contract_digest = (\<lambda>c. pf_product_version (lc_product c)),
     sc_keyset_id = (\<lambda>i v k. k @ vis_id v), sc_snapshot_digest = (\<lambda>i v s k c ts. concat ts),
     sc_tombstone_digest = (\<lambda>i v s k c ts. concat (map tt_tag ts)),
     sc_deleted_ref = (\<lambda>ts a. a @ concat ts), sc_reconciliation_digest = (\<lambda>c p ts. c @ concat ts),
     sc_deletion_intent_digest = de_attempt_id\<rparr>"

definition eg_attempt :: "digest \<Rightarrow> attempt_state \<Rightarrow> attempt" where
  "eg_attempt k s = \<lparr>at_run_id = ''run'', at_attempt_id = k, at_logical_identity = eg_identity,
     at_claim_digest = ''claim'', at_delivery_id = None, at_reprocessing_id = None,
     at_remediation_evaluation_id = None, at_scheduled_boundary_at = 0, at_attempt_ordinal = 1,
     at_state = s, at_block_phase = None, at_reason_code = None, at_execution_plan_digest = ''plan'',
     at_runtime_manifest_digest = ''manifest'', at_remediation_commit_checkpoint = None,
     at_snapshot_acceptance = None, at_state_revision = 0, at_projection_revision = None,
     at_committed_at = None\<rparr>"

definition eg_attempt_row :: "digest \<Rightarrow> attempt_state \<Rightarrow> attempt_row" where
  "eg_attempt_row k s = \<lparr>ax_attempt_id = k, ax_identity = eg_identity, ax_claim_digest = ''claim'',
     ax_ordinal = 1, ax_state = s, ax_json = eg_attempt k s\<rparr>"

text \<open>A stream whose contract is registered and waits for activation, with one live attempt.\<close>

definition eg_stream :: stream_row where
  "eg_stream = \<lparr>sm_identity = eg_identity, sm_state = empty_state eg_identity,
     sm_candidate_contract_digest = Some ''1.0.0'', sm_candidate_migration = None,
     sm_deployment = None, sm_deployment_revision = 0\<rparr>"

definition eg_db :: "unit db" where
  "eg_db = empty_db\<lparr>db_streams := [eg_stream],
     db_attempts := [eg_attempt_row ''a1'' Committed, eg_attempt_row ''a2'' Validating]\<rparr>"

definition eg_activate :: contract_lifecycle_request where
  "eg_activate = \<lparr>cl_action = Activate, cl_expected_state_revision = 0,
     cl_expected_deployment_revision = None, cl_contract = eg_contract, cl_migration = None,
     cl_permit_pre_intent_fence = True\<rparr>"

definition eg_deployment :: runtime_deployment where
  "eg_deployment = \<lparr>rt_logical_identity = eg_identity, rt_contract_digest = ''1.0.0'',
     rt_projection_target = ''t'', rt_candidate_manifest_digest = Some ''m1'',
     rt_active_manifest_digest = None, rt_retired_manifest_digests = [], rt_deployment_revision = 0\<rparr>"

definition eg_deploy :: deployment_lifecycle_request where
  "eg_deploy = \<lparr>dr_action = Activate, dr_expected_state_revision = 0,
     dr_expected_deployment_revision = 0, dr_deployment = eg_deployment,
     dr_readiness = \<lparr>ir_logical_identity = eg_identity, ir_projection_target = ''t'',
       ir_runtime_manifest_digest = ''m1'', ir_contract_digest = ''1.0.0'',
       ir_source_schema_digest = '''', ir_published_schema_digest = '''',
       ir_version_interface_ref = '''', ir_capability_digest = '''', ir_classification = ''c'',
       ir_access_policy_ref = ''a'', ir_retention_policy_ref = ''r'', ir_protection_profile = ''p'',
       ir_result = Ready, ir_readiness_digest = '''', ir_verified_at = 0, ir_revoked_at = None\<rparr>,
     dr_catchup_cursor = \<lparr>pc_logical_identity = eg_identity, pc_projection_target = ''t'',
       pc_projection_revision = 0, pc_projection_intent_digest = None\<rparr>,
     dr_permit_pre_intent_fence = True\<rparr>"

lemma run_succeeds: "\<not> isl (fst p) \<Longrightarrow> \<exists>x d. p = (Inr x, d)"
  by (cases p; cases "fst p") auto

lemma eg_db_wf: "wf_streams (db_streams eg_db)" "wf_attempts (db_attempts eg_db)"
  by code_simp+

section \<open>Lifecycle properties\<close>

lemma contract_lifecycle_rejects_unregistered:
  assumes "lookup_row sm_identity (lc_logical_identity (cl_contract req)) (db_streams d) = Some row"
    and "sm_candidate_contract_digest row \<noteq> Some (sc_contract_digest cfg (cl_contract req))"
    and "st_state_revision (sm_state row) = cl_expected_state_revision req"
    and "cl_action req = Activate"
  shows "contract_lifecycle_body cfg req d = raise Contract_conflict"
  using assms
  by (auto simp: contract_lifecycle_body_def Let_def stream_row_of_def check_revision_def)

text \<open>An activation that commits promotes exactly the candidate contract registered on the
  stream, with the migration registered beside it, at the revision the caller read; it clears the
  candidate, makes the contract's digest the active one, advances the revision by one, and leaves
  no live attempt behind on the stream.\<close>

theorem contract_activation_correct:
  assumes ok: "contract_lifecycle cfg now req d = (Inr res, d')"
    and act: "cl_action req = Activate"
    and ws: "wf_streams (db_streams d)" and wa: "wf_attempts (db_attempts d)"
  shows "\<exists>row row'. lookup_row sm_identity (lc_logical_identity (cl_contract req)) (db_streams d) = Some row
    \<and> lookup_row sm_identity (lc_logical_identity (cl_contract req)) (db_streams d') = Some row'
    \<and> sm_candidate_contract_digest row = Some (sc_contract_digest cfg (cl_contract req))
    \<and> sm_candidate_migration row = cl_migration req
    \<and> st_state_revision (sm_state row) = cl_expected_state_revision req
    \<and> sm_state row' = cr_state res
    \<and> sm_candidate_contract_digest row' = None \<and> sm_candidate_migration row' = None
    \<and> sm_deployment row' = sm_deployment row
    \<and> st_active_contract_digest (cr_state res) = Some (sc_contract_digest cfg (cl_contract req))
    \<and> st_state_revision (cr_state res) = cl_expected_state_revision req + 1
    \<and> (\<forall>a \<in> set (attempts_for (lc_logical_identity (cl_contract req)) d'). is_terminal (at_state a))"
proof -
  let ?i = "lc_logical_identity (cl_contract req)"
  from ok have body: "contract_lifecycle_body cfg req (expire_retained_keysets now d) = Inr (res, d')"
    by (simp add: contract_lifecycle_def in_tx_Inr)
  then show ?thesis
  proof (cases rule: contract_lifecycle_body_Inr)
    case (registered row)
    with act show ?thesis by simp
  next
    case (activated row d1)
    note row = activated(2) [unfolded expire_frame]
    have wa0: "wf_attempts (db_attempts (expire_retained_keysets now d))" using wa by simp
    from wf_streams_lookup [OF ws row] have "st_logical_identity (sm_state row) = ?i"
      by (simp add: stream_row_ok_def)
    moreover have "db_streams d1 = db_streams d"
      using fence_attempts_streams [OF activated(7) wa0] by simp
    moreover have "is_terminal (at_state a)" if "a \<in> set (attempts_for ?i d')" for a
      using fence_attempts_terminal [OF activated(7) wa0] that activated(9) by simp
    ultimately show ?thesis
      using activated row by (simp add: lookup_save_state)
  qed
qed

theorem contract_activation_witness:
  "\<exists>res d'. contract_lifecycle eg_config 0 eg_activate eg_db = (Inr res, d')
     \<and> st_active_contract_digest (cr_state res) = Some ''1.0.0'' \<and> st_state_revision (cr_state res) = 1
     \<and> cr_fenced_attempt_ids res = [''a2'']"
proof -
  have "\<not> isl (fst (contract_lifecycle eg_config 0 eg_activate eg_db))" by code_simp
  then obtain res d' where ok: "contract_lifecycle eg_config 0 eg_activate eg_db = (Inr res, d')"
    using run_succeeds by blast
  moreover have "map_sum id cr_fenced_attempt_ids (fst (contract_lifecycle eg_config 0 eg_activate eg_db)) = Inr [''a2'']"
    by code_simp
  ultimately show ?thesis
    using contract_activation_correct [OF ok _ eg_db_wf]
    by (auto simp: eg_activate_def eg_config_def eg_contract_def)
qed

text \<open>Fencing is safe: when a contract or deployment transition fails the live attempts of a
  stream, none of them had staged a projection intent or a release checkpoint, the caller permitted
  it, and every other attempt row is left as it was.\<close>

theorem fencing_never_loses_a_staged_intent:
  assumes "fence_attempts cfg i reason permit d = Inr (fenced, d')" and "wf_attempts (db_attempts d)"
  shows "fenced = sort (map at_attempt_id (filter (\<lambda>a. \<not> is_terminal (at_state a)) (attempts_for i d)))
    \<and> (fenced \<noteq> [] \<longrightarrow> permit)
    \<and> (\<forall>a \<in> set (attempts_for i d). \<not> is_terminal (at_state a) \<longrightarrow>
         is_pre_intent (at_state a) \<and> at_projection_revision a = None
         \<and> at_remediation_commit_checkpoint a = None)
    \<and> length (db_attempts d') = length (db_attempts d)
    \<and> (\<forall>n < length (db_attempts d).
         if ax_identity (db_attempts d ! n) = i \<and> \<not> is_terminal (ax_state (db_attempts d ! n))
         then ax_json (db_attempts d' ! n) = (ax_json (db_attempts d ! n))
                \<lparr>at_state := Failed, at_reason_code := Some reason\<rparr>
         else db_attempts d' ! n = db_attempts d ! n)"
proof -
  note F = fence_attempts_rows [OF assms]
  have permit: "permit" if "fenced \<noteq> []"
  proof -
    from that F(3) have "filter (\<lambda>a. \<not> is_terminal (at_state a)) (attempts_for i d) \<noteq> []" by auto
    then obtain a where "a \<in> set (attempts_for i d)" "\<not> is_terminal (at_state a)"
      by (auto simp: filter_empty_conv)
    then show ?thesis using F(4) by blast
  qed
  have live: "is_pre_intent (at_state a) \<and> at_projection_revision a = None
      \<and> at_remediation_commit_checkpoint a = None"
    if "a \<in> set (attempts_for i d)" "\<not> is_terminal (at_state a)" for a
    using F(4) [OF that] that(2) not_terminal_cases(1) [of "at_state a"] by (auto simp: intent_staged_def)
  show ?thesis
    using F(3) permit live unfolding F(1) by (simp add: fence_row_def)
qed

theorem fencing_witness:
  "\<exists>d'. fence_attempts eg_config eg_identity Superseded_contract True eg_db = Inr ([''a2''], d')
     \<and> db_attempts d' ! 0 = eg_attempt_row ''a1'' Committed"
proof -
  have "map_sum id fst (fence_attempts eg_config eg_identity Superseded_contract True eg_db) = Inr [''a2'']"
    by code_simp
  then obtain d' where ok: "fence_attempts eg_config eg_identity Superseded_contract True eg_db = Inr ([''a2''], d')"
    by (cases "fence_attempts eg_config eg_identity Superseded_contract True eg_db") auto
  have "db_attempts d' ! 0 = eg_attempt_row ''a1'' Committed"
    using fencing_never_loses_a_staged_intent [OF ok eg_db_wf(2)]
    by (simp add: eg_db_def eg_attempt_row_def is_terminal_def)
  with ok show ?thesis by blast
qed

text \<open>The catch-up check of a deployment activation accepts exactly the store's own cursor:
  same target, same stream, same confirmed revision and same intent digest (no digest when nothing
  is confirmed yet).\<close>

theorem check_catchup_iff:
  "check_catchup auth catchup target = Inr () \<longleftrightarrow>
     pc_projection_target catchup = target
     \<and> pc_logical_identity catchup = pc_logical_identity auth
     \<and> pc_projection_revision catchup = pc_projection_revision auth
     \<and> pc_projection_intent_digest catchup =
         (if pc_projection_revision auth = 0 then None else pc_projection_intent_digest auth)"
  unfolding check_catchup_def Let_def by (auto split: if_splits)

text \<open>A deployment activation that commits serves the candidate manifest, retires the manifest
  it replaces, answers a caller whose cursor is the store's, and leaves no live attempt behind.\<close>

theorem deployment_activation_correct:
  assumes ok: "deployment_lifecycle cfg now req d = (Inr res, d')"
    and act: "dr_action req = Activate"
    and ws: "wf_streams (db_streams d)" and wa: "wf_attempts (db_attempts d)"
  defines "i \<equiv> rt_logical_identity (dr_deployment req)"
    and "target \<equiv> rt_projection_target (dr_deployment req)"
  shows "\<exists>row. lookup_row sm_identity i (db_streams d) = Some row
    \<and> sm_deployment_revision row = dr_expected_deployment_revision req
    \<and> (\<exists>row'. lookup_row sm_identity i (db_streams d') = Some row'
          \<and> sm_state row' = dt_state res \<and> sm_deployment row' = Some (dt_deployment res))
    \<and> rt_deployment_revision (dt_deployment res) = sm_deployment_revision row + 1
    \<and> rt_active_manifest_digest (dt_deployment res) \<noteq> None
    \<and> rt_candidate_manifest_digest (dt_deployment res) = None
    \<and> (\<forall>c p. sm_deployment row = Some c \<longrightarrow> rt_active_manifest_digest c = Some p \<longrightarrow>
         rt_projection_target c = target
         \<and> rt_retired_manifest_digests (dt_deployment res) = rt_retired_manifest_digests c @ [p])
    \<and> pc_projection_revision (dr_catchup_cursor req) =
         pc_projection_revision (authoritative_cursor i target d)
    \<and> (\<forall>a \<in> set (attempts_for i d'). is_terminal (at_state a))"
proof -
  let ?d = "expire_retained_keysets now d"
  from ok have body: "deployment_lifecycle_body cfg req ?d = Inr (res, d')"
    by (simp add: deployment_lifecycle_def in_tx_Inr)
  have wf: "wf_streams (db_streams ?d)" "wf_attempts (db_attempts ?d)" using ws wa by simp_all
  note effect = deployment_lifecycle_body_effect(5) [OF body wf, folded i_def]
  from body show ?thesis
  proof (cases rule: deployment_lifecycle_body_Inr)
    case (1 row d1)
    note R = 1 [folded i_def target_def]
    from R(9) act have chk: "check_catchup (authoritative_cursor i target ?d) (dr_catchup_cursor req) target = Inr ()"
      and fence: "fence_attempts cfg i Superseded_deployment (dr_permit_pre_intent_fence req) ?d =
             Inr (dt_fenced_attempt_ids res, d1)" by auto
    have cursor: "authoritative_cursor i target ?d = authoritative_cursor i target d"
      by (simp add: authoritative_cursor_def)
    from R(6) have "attempts_for i d' = attempts_for i d1"
      by (simp add: finish_deployment_def Let_def)
    then have "is_terminal (at_state a)" if "a \<in> set (attempts_for i d')" for a
      using fence_attempts_terminal [OF fence wf(2)] that by simp
    then show ?thesis
      using R(1-5,7-9) act effect chk cursor by (auto simp: check_catchup_iff)
  qed
qed

theorem deployment_activation_witness:
  "\<exists>res d'. deployment_lifecycle eg_config 0 eg_deploy eg_db = (Inr res, d')
     \<and> rt_deployment_revision (dt_deployment res) = 1
     \<and> rt_active_manifest_digest (dt_deployment res) \<noteq> None"
proof -
  have "\<not> isl (fst (deployment_lifecycle eg_config 0 eg_deploy eg_db))" by code_simp
  then obtain res d' where ok: "deployment_lifecycle eg_config 0 eg_deploy eg_db = (Inr res, d')"
    using run_succeeds by blast
  then show ?thesis
    using deployment_activation_correct [OF ok _ eg_db_wf]
    by (auto simp: eg_deploy_def eg_deployment_def eg_db_def eg_stream_def)
qed

end
