(* ===== verification/Outbox.thy ===== *)
theory Outbox
  imports State_Store
begin

text \<open>
  The recoverable outbox and the ledgers of \<open>ergasterion/ingestion/sqlite_store.py\<close>: recording
  projection intents, confirmations and lifecycle events, enqueueing, leasing, completing and
  failing outbox entries, and the two transactions that combine them with a compare-and-swap of the
  stream state.
\<close>

section \<open>Ledgers\<close>

definition intent_key :: "intent_row \<Rightarrow> logical_identity \<times> token \<times> nat" where
  "intent_key r = (ix_identity r, ix_target r, ix_revision r)"

definition confirmation_key :: "confirmation_row \<Rightarrow> logical_identity \<times> token \<times> nat" where
  "confirmation_key r = (cx_identity r, cx_target r, cx_revision r)"

definition cursor_key :: "cursor_row \<Rightarrow> logical_identity \<times> token" where
  "cursor_key r = (cu_identity r, cu_target r)"

definition payload_key :: "'ev payload_row \<Rightarrow> digest \<times> digest" where
  "payload_key r = (py_outbox_id r, py_payload_digest r)"

definition intent_row_of :: "projection_intent \<Rightarrow> intent_row" where
  "intent_row_of p = \<lparr>ix_identity = pi_logical_identity p, ix_target = pi_projection_target p,
     ix_revision = pi_projection_revision p, ix_intent_digest = pi_projection_intent_digest p,
     ix_json = p\<rparr>"

definition record_intent :: "projection_intent \<Rightarrow> 'ev db \<Rightarrow> 'ev db result" where
  "record_intent p d =
     (case lookup_row intent_key
             (pi_logical_identity p, pi_projection_target p, pi_projection_revision p) (db_intents d) of
        Some r \<Rightarrow> if ix_json r \<noteq> p then raise Intent_conflict else Inr d
      | None \<Rightarrow> bind (insert_row intent_key (intent_row_of p) (db_intents d))
                  (\<lambda>rows. Inr (d\<lparr>db_intents := rows\<rparr>)))"

definition confirmation_row_of :: "projection_confirmation \<Rightarrow> confirmation_row" where
  "confirmation_row_of c = \<lparr>cx_identity = pn_logical_identity c, cx_target = pn_projection_target c,
     cx_revision = pn_projection_revision c, cx_intent_digest = pn_projection_intent_digest c,
     cx_json = c\<rparr>"

definition cursor_row_of :: "projection_confirmation \<Rightarrow> cursor_row" where
  "cursor_row_of c = \<lparr>cu_identity = pn_logical_identity c, cu_target = pn_projection_target c,
     cu_revision = pn_projection_revision c,
     cu_intent_digest = Some (pn_projection_intent_digest c)\<rparr>"

text \<open>\<open>_record_confirmation\<close>: the confirmation, and the target's cursor when it moves forward.\<close>

definition record_confirmation :: "projection_confirmation \<Rightarrow> 'ev db \<Rightarrow> 'ev db result" where
  "record_confirmation c d =
     (case lookup_row confirmation_key
             (pn_logical_identity c, pn_projection_target c, pn_projection_revision c)
             (db_confirmations d) of
        Some r \<Rightarrow> if cx_json r \<noteq> c then raise Integrity_error else Inr d
      | None \<Rightarrow> bind (insert_row confirmation_key (confirmation_row_of c) (db_confirmations d))
          (\<lambda>rows.
             let d1 = d\<lparr>db_confirmations := rows\<rparr>;
                 current = lookup_row cursor_key
                             (pn_logical_identity c, pn_projection_target c) (db_cursors d1)
             in if (case current of None \<Rightarrow> True
                      | Some r \<Rightarrow> pn_projection_revision c > cu_revision r)
                then Inr (d1\<lparr>db_cursors := upsert_row cursor_key (cursor_row_of c) (db_cursors d1)\<rparr>)
                else Inr d1))"

definition event_row_of :: "'ev lifecycle_event \<Rightarrow> 'ev event_row" where
  "event_row_of e = \<lparr>ex_event_id = ev_event_id e, ex_identity = ev_logical_identity e,
     ex_state_revision = ev_state_revision e, ex_event_ordinal = ev_event_ordinal e,
     ex_payload_digest = ev_payload_digest e, ex_json = e\<rparr>"

definition record_event :: "'ev lifecycle_event \<Rightarrow> 'ev db \<Rightarrow> 'ev db result" where
  "record_event e d =
     (case lookup_row ex_event_id (ev_event_id e) (db_events d) of
        Some r \<Rightarrow> if ex_payload_digest r \<noteq> ev_payload_digest e then raise Event_conflict else Inr d
      | None \<Rightarrow> bind (insert_row ex_event_id (event_row_of e) (db_events d))
                  (\<lambda>rows. Inr (d\<lparr>db_events := rows\<rparr>)))"

text \<open>
  \<open>SqliteLifecycleSink.project_events\<close>: the same insertion for a batch, in one transaction, which
  answers the ids in order.
\<close>

fun project_events_body ::
    "'ev lifecycle_event list \<Rightarrow> 'ev db \<Rightarrow> (digest list \<times> 'ev db) result" where
  "project_events_body [] d = Inr ([], d)"
| "project_events_body (e # es) d =
     bind (record_event e d) (\<lambda>d1.
       bind (project_events_body es d1) (\<lambda>(ids, d2). Inr (ev_event_id e # ids, d2)))"

definition project_events :: "'ev lifecycle_event list \<Rightarrow> 'ev db \<Rightarrow> digest list result \<times> 'ev db" where
  "project_events es d =
     (case project_events_body es d of Inl e \<Rightarrow> (Inl e, d) | Inr (ids, d') \<Rightarrow> (Inr ids, d'))"

section \<open>Enqueueing\<close>

definition record_reconciliation ::
    "logical_identity \<Rightarrow> snapshot_reconciliation \<Rightarrow> 'ev db \<Rightarrow> 'ev db" where
  "record_reconciliation i s d = d\<lparr>db_reconciliations :=
     (if sr_attempt_id s \<in> set (map rx_attempt_id (db_reconciliations d))
      then update_row rx_attempt_id (sr_attempt_id s)
             (\<lambda>r. r\<lparr>rx_status := sr_status s, rx_json := s\<rparr>) (db_reconciliations d)
      else db_reconciliations d @
             [\<lparr>rx_attempt_id = sr_attempt_id s, rx_identity = i, rx_status = sr_status s,
               rx_json = s\<rparr>])\<rparr>"

definition payload_revision :: "'ev outbox_payload \<Rightarrow> nat option" where
  "payload_revision p =
     (case p of Projection_payload i \<Rightarrow> Some (pi_projection_revision i) | _ \<Rightarrow> None)"

definition record_payload :: "logical_identity \<Rightarrow> 'ev outbox_payload \<Rightarrow> 'ev db \<Rightarrow> 'ev db result" where
  "record_payload i p d =
     (case p of Projection_payload intent \<Rightarrow> record_intent intent d
      | Lifecycle_payload e \<Rightarrow> record_event e d
      | Evidence_payload s \<Rightarrow> Inr (record_reconciliation i s d))"

definition new_entry :: "logical_identity \<Rightarrow> 'ev outbox_enqueue \<Rightarrow> outbox_entry" where
  "new_entry i item = \<lparr>oe_outbox_id = en_outbox_id item, oe_logical_identity = i,
     oe_entry_kind = payload_kind (en_payload item), oe_payload_ref = en_outbox_id item,
     oe_payload_digest = en_payload_digest item, oe_status = Pending, oe_dispatch_ordinal = 1,
     oe_next_not_before = en_next_not_before item, oe_lease_owner = None,
     oe_lease_expires_at = None, oe_reason_code = None, oe_completed_at = None\<rparr>"

definition new_outbox_row :: "logical_identity \<Rightarrow> 'ev outbox_enqueue \<Rightarrow> outbox_row" where
  "new_outbox_row i item = \<lparr>ob_outbox_id = en_outbox_id item, ob_identity = i,
     ob_entry_kind = payload_kind (en_payload item), ob_payload_digest = en_payload_digest item,
     ob_status = Pending, ob_dispatch_ordinal = 1, ob_next_not_before = en_next_not_before item,
     ob_lease_owner = None, ob_lease_expires_at = None,
     ob_projection_revision = payload_revision (en_payload item), ob_json = new_entry i item\<rparr>"

definition enqueue ::
    "'ev store_config \<Rightarrow> logical_identity \<Rightarrow> 'ev outbox_enqueue \<Rightarrow> 'ev db \<Rightarrow> 'ev db result" where
  "enqueue cfg i item d =
     (if sc_payload_size cfg (en_payload item) > sc_max_wire_record_bytes cfg
      then raise Capacity_exceeded
      else case lookup_row ob_outbox_id (en_outbox_id item) (db_outbox d) of
        Some r \<Rightarrow> if ob_payload_digest r \<noteq> en_payload_digest item then raise Integrity_error else Inr d
      | None \<Rightarrow>
          bind (record_payload i (en_payload item) d) (\<lambda>d1.
          bind (insert_row ob_outbox_id (new_outbox_row i item) (db_outbox d1)) (\<lambda>rows.
          bind (insert_row payload_key
                  \<lparr>py_outbox_id = en_outbox_id item, py_payload_digest = en_payload_digest item,
                    py_json = en_payload item\<rparr> (db_outbox_payloads d1)) (\<lambda>payloads.
          Inr (d1\<lparr>db_outbox := rows, db_outbox_payloads := payloads\<rparr>)))))"

section \<open>Entry transitions\<close>

text \<open>An \<open>UPDATE outbox\<close> writes the columns it names and the entry's document.\<close>

definition store_entry :: "outbox_entry \<Rightarrow> outbox_row \<Rightarrow> outbox_row" where
  "store_entry e r = r\<lparr>ob_status := oe_status e, ob_dispatch_ordinal := oe_dispatch_ordinal e,
     ob_next_not_before := oe_next_not_before e, ob_lease_owner := oe_lease_owner e,
     ob_lease_expires_at := oe_lease_expires_at e, ob_json := e\<rparr>"

definition complete_entry :: "outbox_completion \<Rightarrow> 'ev db \<Rightarrow> 'ev db result" where
  "complete_entry done d =
     (case lookup_row ob_outbox_id (oc_outbox_id done) (db_outbox d) of
        None \<Rightarrow> raise Not_found
      | Some r \<Rightarrow>
          if ob_payload_digest r \<noteq> oc_payload_digest done then raise Integrity_error
          else let e = ob_json r in
            if oe_status e = Complete then Inr d
            else if oe_status e = Leased \<and> oe_lease_owner e \<noteq> Some (oc_lease_owner done)
              then raise Integrity_error
            else let e' = e\<lparr>oe_status := Complete, oe_completed_at := Some (oc_completed_at done),
                            oe_lease_owner := None, oe_lease_expires_at := None\<rparr>
              in Inr (d\<lparr>db_outbox := update_row ob_outbox_id (oc_outbox_id done)
                   (\<lambda>r. r\<lparr>ob_status := Complete, ob_lease_owner := None, ob_lease_expires_at := None,
                           ob_json := e'\<rparr>) (db_outbox d)\<rparr>))"

definition set_deployment ::
    "logical_identity \<Rightarrow> runtime_deployment option \<Rightarrow> 'ev db \<Rightarrow> 'ev db" where
  "set_deployment i dep d =
     (case dep of None \<Rightarrow> d
      | Some c \<Rightarrow> d\<lparr>db_streams := update_row sm_identity i
          (\<lambda>r. r\<lparr>sm_deployment := Some c, sm_deployment_revision := rt_deployment_revision c\<rparr>)
          (db_streams d)\<rparr>)"

definition state_transaction_body ::
    "'ev store_config \<Rightarrow> 'ev state_transaction \<Rightarrow> 'ev db \<Rightarrow> (stream_state \<times> 'ev db) result" where
  "state_transaction_body cfg t d =
     (let i = st_logical_identity (tx_next_state t) in
      bind (load_state i d) (\<lambda>s.
      bind (check_revision (st_state_revision s) (tx_expected_state_revision t)) (\<lambda>_.
      bind (put_attempts cfg (tx_attempt_updates t) d) (\<lambda>d1.
      bind (fold_result (enqueue cfg i) (tx_enqueue t)
              (set_deployment i (tx_deployment_update t) d1)) (\<lambda>d2.
      bind (fold_result complete_entry (tx_complete t) d2) (\<lambda>d3.
      bind (case tx_projection_confirmation t of None \<Rightarrow> Inr d3
            | Some c \<Rightarrow> record_confirmation c d3) (\<lambda>d4.
      Inr (tx_next_state t, save_state (tx_next_state t) (\<lambda>r. r) d4))))))))"

definition state_transaction ::
    "'ev store_config \<Rightarrow> instant \<Rightarrow> 'ev state_transaction \<Rightarrow> 'ev db \<Rightarrow> stream_state result \<times> 'ev db" where
  "state_transaction cfg now t = in_tx now (state_transaction_body cfg t)"

definition load_outbox_payload :: "digest \<Rightarrow> digest \<Rightarrow> 'ev db \<Rightarrow> 'ev outbox_payload result" where
  "load_outbox_payload oid dg d =
     (case lookup_row payload_key (oid, dg) (db_outbox_payloads d) of
        None \<Rightarrow> raise Not_found | Some r \<Rightarrow> Inr (py_json r))"

section \<open>Leasing\<close>

definition lease_expired :: "instant \<Rightarrow> outbox_entry \<Rightarrow> bool" where
  "lease_expired now e \<longleftrightarrow> oe_status e = Leased \<and>
     (case oe_lease_expires_at e of None \<Rightarrow> False | Some t \<Rightarrow> t \<le> now)"

text \<open>An entry the loop of \<open>lease_outbox\<close> does not skip.\<close>

definition leasable :: "instant \<Rightarrow> outbox_entry \<Rightarrow> bool" where
  "leasable now e \<longleftrightarrow> (oe_status e \<in> {Pending, Retryable} \<or> lease_expired now e)
     \<and> \<not> oe_next_not_before e > now"

definition lease_entry :: "'ev store_config \<Rightarrow> token \<Rightarrow> instant \<Rightarrow> outbox_entry \<Rightarrow> outbox_entry" where
  "lease_entry cfg owner now e = e\<lparr>oe_status := Leased, oe_lease_owner := Some owner,
     oe_lease_expires_at := Some (add_utc now (sc_lease_seconds cfg))\<rparr>"

text \<open>
  The partition in its dispatch order: \<open>ORDER BY COALESCE(projection_revision, 1 << 30), outbox_id\<close>.
\<close>

definition outbox_partition ::
    "logical_identity \<Rightarrow> outbox_entry_kind \<Rightarrow> outbox_row list \<Rightarrow> outbox_row list" where
  "outbox_partition i kind rows =
     sort_key (\<lambda>r. (case ob_projection_revision r of None \<Rightarrow> 2 ^ 30 | Some n \<Rightarrow> n, ob_outbox_id r))
       (filter (\<lambda>r. ob_identity r = i \<and> ob_entry_kind r = kind) rows)"

fun lease_loop ::
    "'ev store_config \<Rightarrow> outbox_entry_kind \<Rightarrow> token \<Rightarrow> instant \<Rightarrow> nat \<Rightarrow> outbox_row list
       \<Rightarrow> outbox_entry list \<Rightarrow> 'ev db \<Rightarrow> outbox_entry list \<times> 'ev db" where
  "lease_loop cfg kind owner now max_items [] leased d = (leased, d)"
| "lease_loop cfg kind owner now max_items (r # rows) leased d =
     (if length leased \<ge> max_items then (leased, d)
      else let e = ob_json r in
        if \<not> (oe_status e \<in> {Pending, Retryable} \<or> lease_expired now e)
          then lease_loop cfg kind owner now max_items rows leased d
        else if oe_next_not_before e > now
          then lease_loop cfg kind owner now max_items rows leased d
        else if kind = Ok_projection \<and> leased \<noteq> [] then (leased, d)
        else let e' = lease_entry cfg owner now e
          in lease_loop cfg kind owner now max_items rows (leased @ [e'])
               (d\<lparr>db_outbox := update_row ob_outbox_id (oe_outbox_id e)
                   (\<lambda>r. r\<lparr>ob_status := Leased, ob_lease_owner := Some owner,
                           ob_lease_expires_at := oe_lease_expires_at e', ob_json := e'\<rparr>)
                   (db_outbox d)\<rparr>))"

definition lease_outbox ::
    "'ev store_config \<Rightarrow> instant \<Rightarrow> logical_identity \<Rightarrow> outbox_entry_kind \<Rightarrow> token \<Rightarrow> instant \<Rightarrow> nat
       \<Rightarrow> 'ev db \<Rightarrow> outbox_entry list result \<times> 'ev db" where
  "lease_outbox cfg now i kind owner observed max_items =
     in_tx now (\<lambda>d. Inr (lease_loop cfg kind owner observed max_items
                           (outbox_partition i kind (db_outbox d)) [] d))"

section \<open>Failing an entry\<close>

definition fail_entry :: "failure_transaction \<Rightarrow> outbox_entry \<Rightarrow> outbox_entry" where
  "fail_entry t e = e\<lparr>
     oe_status := (if ft_disposition t = Fd_dead_letter then Dead_letter else Retryable),
     oe_next_not_before := (case ft_next_not_before t of None \<Rightarrow> oe_next_not_before e | Some n \<Rightarrow> n),
     oe_reason_code := Some (ft_reason_code t), oe_lease_owner := None,
     oe_lease_expires_at := None, oe_dispatch_ordinal := oe_dispatch_ordinal e + 1\<rparr>"

definition fail_outbox_body ::
    "'ev store_config \<Rightarrow> failure_transaction \<Rightarrow> 'ev db \<Rightarrow> (stream_state \<times> 'ev db) result" where
  "fail_outbox_body cfg t d =
     (let i = st_logical_identity (ft_next_state t) in
      bind (load_state i d) (\<lambda>s.
      bind (check_revision (st_state_revision s) (ft_expected_state_revision t)) (\<lambda>_.
      bind (put_attempts cfg (ft_attempt_updates t) d) (\<lambda>d1.
      case lookup_row ob_outbox_id (ft_outbox_id t) (db_outbox d1) of
        None \<Rightarrow> raise Not_found
      | Some r \<Rightarrow>
          if ob_payload_digest r \<noteq> ft_payload_digest t then raise Integrity_error
          else let e = ob_json r in
            if oe_status e = Leased \<and> oe_lease_owner e \<notin> {None, Some (ft_lease_owner t)}
                \<and> (case oe_lease_expires_at e of None \<Rightarrow> True
                   | Some x \<Rightarrow> x > ft_failure_observed_at t)
              then raise Concurrency_conflict
            else let e' = fail_entry t e
              in Inr (ft_next_state t,
                   save_state (ft_next_state t) (\<lambda>r. r)
                     (d1\<lparr>db_outbox := update_row ob_outbox_id (ft_outbox_id t)
                        (\<lambda>r. r\<lparr>ob_status := oe_status e',
                                ob_next_not_before := oe_next_not_before e',
                                ob_lease_owner := None, ob_lease_expires_at := None,
                                ob_dispatch_ordinal := oe_dispatch_ordinal e', ob_json := e'\<rparr>)
                        (db_outbox d1)\<rparr>))))))"

definition fail_outbox ::
    "'ev store_config \<Rightarrow> instant \<Rightarrow> failure_transaction \<Rightarrow> 'ev db \<Rightarrow> stream_state result \<times> 'ev db" where
  "fail_outbox cfg now t = in_tx now (fail_outbox_body cfg t)"

section \<open>Well-formed ledgers and outbox\<close>

definition wf_intents :: "intent_row list \<Rightarrow> bool" where
  "wf_intents rows \<longleftrightarrow> unique_keys intent_key rows \<and> (\<forall>r \<in> set rows. r = intent_row_of (ix_json r))"

definition wf_confirmations :: "confirmation_row list \<Rightarrow> bool" where
  "wf_confirmations rows \<longleftrightarrow> unique_keys confirmation_key rows
     \<and> (\<forall>r \<in> set rows. r = confirmation_row_of (cx_json r))"

definition wf_events :: "'ev event_row list \<Rightarrow> bool" where
  "wf_events rows \<longleftrightarrow> unique_keys ex_event_id rows \<and> (\<forall>r \<in> set rows. r = event_row_of (ex_json r))"

definition wf_reconciliations :: "reconciliation_row list \<Rightarrow> bool" where
  "wf_reconciliations rows \<longleftrightarrow> unique_keys rx_attempt_id rows
     \<and> (\<forall>r \<in> set rows. sr_attempt_id (rx_json r) = rx_attempt_id r \<and> sr_status (rx_json r) = rx_status r)"

text \<open>A cursor is the newest confirmation of its stream and target.\<close>

definition newest_confirmation :: "confirmation_row list \<Rightarrow> cursor_row \<Rightarrow> bool" where
  "newest_confirmation confs c \<longleftrightarrow>
     (\<exists>r \<in> set confs. cx_identity r = cu_identity c \<and> cx_target r = cu_target c
        \<and> cx_revision r = cu_revision c \<and> cu_intent_digest c = Some (cx_intent_digest r))
     \<and> (\<forall>r \<in> set confs. cx_identity r = cu_identity c \<longrightarrow> cx_target r = cu_target c \<longrightarrow>
          cx_revision r \<le> cu_revision c)"

definition wf_cursors :: "confirmation_row list \<Rightarrow> cursor_row list \<Rightarrow> bool" where
  "wf_cursors confs rows \<longleftrightarrow> unique_keys cursor_key rows
     \<and> (\<forall>c \<in> set rows. newest_confirmation confs c)
     \<and> (\<forall>r \<in> set confs. \<exists>c \<in> set rows. cursor_key c = (cx_identity r, cx_target r))"

definition outbox_row_ok :: "outbox_row \<Rightarrow> bool" where
  "outbox_row_ok r \<longleftrightarrow> (let e = ob_json r in
     oe_outbox_id e = ob_outbox_id r \<and> oe_logical_identity e = ob_identity r
     \<and> oe_entry_kind e = ob_entry_kind r \<and> oe_payload_digest e = ob_payload_digest r
     \<and> oe_status e = ob_status r \<and> oe_dispatch_ordinal e = ob_dispatch_ordinal r
     \<and> oe_next_not_before e = ob_next_not_before r \<and> oe_lease_owner e = ob_lease_owner r
     \<and> oe_lease_expires_at e = ob_lease_expires_at r
     \<and> 1 \<le> ob_dispatch_ordinal r
     \<and> (ob_status r = Leased \<longleftrightarrow> ob_lease_owner r \<noteq> None)
     \<and> (ob_lease_owner r = None \<longleftrightarrow> ob_lease_expires_at r = None)
     \<and> (ob_entry_kind r = Ok_projection \<longleftrightarrow> ob_projection_revision r \<noteq> None))"

definition payload_of :: "'ev payload_row \<Rightarrow> outbox_row \<Rightarrow> bool" where
  "payload_of p r \<longleftrightarrow> payload_key p = (ob_outbox_id r, ob_payload_digest r)
     \<and> payload_kind (py_json p) = ob_entry_kind r
     \<and> payload_revision (py_json p) = ob_projection_revision r"

definition wf_outbox :: "outbox_row list \<Rightarrow> 'ev payload_row list \<Rightarrow> bool" where
  "wf_outbox rows payloads \<longleftrightarrow> unique_keys ob_outbox_id rows \<and> unique_keys payload_key payloads
     \<and> (\<forall>r \<in> set rows. outbox_row_ok r \<and> (\<exists>p \<in> set payloads. payload_of p r))
     \<and> (\<forall>p \<in> set payloads. \<exists>r \<in> set rows. payload_of p r)"

definition wf_ledgers :: "'ev db \<Rightarrow> bool" where
  "wf_ledgers d \<longleftrightarrow> wf_outbox (db_outbox d) (db_outbox_payloads d) \<and> wf_intents (db_intents d)
     \<and> wf_confirmations (db_confirmations d) \<and> wf_cursors (db_confirmations d) (db_cursors d)
     \<and> wf_events (db_events d) \<and> wf_reconciliations (db_reconciliations d)"

section \<open>The ledgers stay well-formed\<close>

lemma intent_key_row_of [simp]: "intent_key (intent_row_of p) =
    (pi_logical_identity p, pi_projection_target p, pi_projection_revision p)"
  by (simp add: intent_key_def intent_row_of_def)

lemma confirmation_key_row_of [simp]: "confirmation_key (confirmation_row_of c) =
    (pn_logical_identity c, pn_projection_target c, pn_projection_revision c)"
  by (simp add: confirmation_key_def confirmation_row_of_def)

lemma cursor_key_row_of [simp]: "cursor_key (cursor_row_of c) =
    (pn_logical_identity c, pn_projection_target c)"
  by (simp add: cursor_key_def cursor_row_of_def)

lemma row_of_json [simp]:
  "ix_json (intent_row_of p) = p" "cx_json (confirmation_row_of c) = c"
  "ex_json (event_row_of e) = e" "ex_event_id (event_row_of e) = ev_event_id e"
  by (simp_all add: intent_row_of_def confirmation_row_of_def event_row_of_def)

lemma record_intent_Inr:
  assumes "record_intent p d = Inr d'"
  shows "d' = d\<lparr>db_intents := db_intents d'\<rparr>"
    and "wf_intents (db_intents d) \<Longrightarrow> wf_intents (db_intents d')"
    and "\<exists>r \<in> set (db_intents d'). ix_json r = p"
  using assms
  by (auto simp: record_intent_def insert_row_fresh wf_intents_def unique_keys_append1
      split: option.splits if_splits dest: lookup_row_SomeD)

lemma record_intent_error:
  "record_intent p d = Inl e \<Longrightarrow> e = Port_error Intent_conflict"
  by (auto simp: record_intent_def insert_row_fresh split: option.splits if_splits)

lemma record_event_Inr:
  assumes "record_event ev d = Inr d'"
  shows "d' = d\<lparr>db_events := db_events d'\<rparr>"
    and "wf_events (db_events d) \<Longrightarrow> wf_events (db_events d')"
  using assms
  by (auto simp: record_event_def insert_row_fresh wf_events_def unique_keys_append1
      split: option.splits if_splits)

lemma record_event_error: "record_event ev d = Inl e \<Longrightarrow> e = Port_error Event_conflict"
  by (auto simp: record_event_def insert_row_fresh split: option.splits if_splits)

lemma record_reconciliation_wf:
  "wf_reconciliations (db_reconciliations d) \<Longrightarrow>
    wf_reconciliations (db_reconciliations (record_reconciliation i s d))"
  by (auto simp: record_reconciliation_def wf_reconciliations_def unique_keys_update
      unique_keys_append1 lookup_row_None dest!: set_update_rowD)

lemma record_reconciliation_frame:
  "record_reconciliation i s d =
     d\<lparr>db_reconciliations := db_reconciliations (record_reconciliation i s d)\<rparr>"
  by (simp add: record_reconciliation_def)

lemma record_confirmation_Inr:
  assumes ok: "record_confirmation c d = Inr d'"
  shows "d' = d\<lparr>db_confirmations := db_confirmations d', db_cursors := db_cursors d'\<rparr>"
    and "wf_confirmations (db_confirmations d) \<Longrightarrow> wf_confirmations (db_confirmations d')"
  using ok
  by (auto simp: record_confirmation_def insert_row_fresh Let_def wf_confirmations_def
      unique_keys_append1 split: option.splits if_splits)

lemma record_confirmation_error:
  "record_confirmation c d = Inl e \<Longrightarrow> e = Port_error Integrity_error"
  by (auto simp: record_confirmation_def insert_row_fresh Let_def split: option.splits if_splits)

lemma record_confirmation_cursors:
  assumes ok: "record_confirmation c d = Inr d'"
    and wf: "wf_cursors (db_confirmations d) (db_cursors d)"
  shows "wf_cursors (db_confirmations d') (db_cursors d')"
proof (cases "db_confirmations d' = db_confirmations d \<and> db_cursors d' = db_cursors d")
  case True
  with wf show ?thesis by simp
next
  case False
  let ?row = "confirmation_row_of c" and ?k = "(pn_logical_identity c, pn_projection_target c)"
  let ?old = "lookup_row cursor_key ?k (db_cursors d)"
  have uniq: "unique_keys cursor_key (db_cursors d)" using wf by (simp add: wf_cursors_def)
  from False ok have confs: "db_confirmations d' = db_confirmations d @ [?row]"
    by (auto simp: record_confirmation_def insert_row_fresh Let_def split: option.splits if_splits)
  show ?thesis
  proof (cases "case ?old of None \<Rightarrow> True | Some r \<Rightarrow> pn_projection_revision c > cu_revision r")
    case moved: True
    with False ok have rows: "db_cursors d' = upsert_row cursor_key (cursor_row_of c) (db_cursors d)"
      by (auto simp: record_confirmation_def insert_row_fresh Let_def split: option.splits if_splits)
    have below: "cx_revision r \<le> pn_projection_revision c"
      if r: "r \<in> set (db_confirmations d)" "cx_identity r = pn_logical_identity c"
        "cx_target r = pn_projection_target c" for r
    proof -
      from wf r obtain u where u: "u \<in> set (db_cursors d)" "cursor_key u = ?k"
        by (auto simp: wf_cursors_def)
      then have "?old = Some u" by (simp add: lookup_row_iff [OF uniq])
      moreover from wf u r have "cx_revision r \<le> cu_revision u"
        by (auto simp: wf_cursors_def newest_confirmation_def cursor_key_def)
      ultimately show ?thesis using moved by simp
    qed
    have "newest_confirmation (db_confirmations d') u" if "u \<in> set (db_cursors d')" for u
    proof -
      from that set_upsert_rowD [of u cursor_key "cursor_row_of c" "db_cursors d"] rows
      consider "u = cursor_row_of c" | "u \<in> set (db_cursors d)" "cursor_key u \<noteq> ?k" by auto
      then show ?thesis
      proof cases
        case 1
        then show ?thesis
          using below by (auto simp: newest_confirmation_def confs cursor_row_of_def confirmation_row_of_def)
      next
        case 2
        with wf show ?thesis
          by (auto simp: wf_cursors_def newest_confirmation_def confs confirmation_row_of_def cursor_key_def)
      qed
    qed
    moreover have "\<exists>u \<in> set (db_cursors d'). cursor_key u = (cx_identity r, cx_target r)"
      if "r \<in> set (db_confirmations d')" for r
    proof -
      have keys: "cursor_key ` set (db_cursors d') = insert ?k (cursor_key ` set (db_cursors d))"
        unfolding rows by (simp add: upsert_row_keys)
      from that consider "r = ?row" | "r \<in> set (db_confirmations d)" by (auto simp: confs)
      then have "(cx_identity r, cx_target r) \<in> cursor_key ` set (db_cursors d')"
      proof cases
        case 1
        then show ?thesis by (simp add: keys confirmation_row_of_def)
      next
        case 2
        with wf obtain u where "u \<in> set (db_cursors d)" "cursor_key u = (cx_identity r, cx_target r)"
          by (auto simp: wf_cursors_def)
        then show ?thesis unfolding keys by (metis imageI insertI2)
      qed
      then show ?thesis by auto
    qed
    ultimately show ?thesis
      using uniq by (simp add: wf_cursors_def rows unique_keys_upsert)
  next
    case stay: False
    then obtain u where u: "?old = Some u" "pn_projection_revision c \<le> cu_revision u"
      by (auto split: option.splits)
    from stay False ok have rows: "db_cursors d' = db_cursors d"
      by (auto simp: record_confirmation_def insert_row_fresh Let_def split: option.splits if_splits)
    from u(1) have mem: "u \<in> set (db_cursors d)" "cursor_key u = ?k" by (auto dest: lookup_row_SomeD)
    have "newest_confirmation (db_confirmations d') v" if v: "v \<in> set (db_cursors d)" for v
    proof -
      have "v = u" if "cursor_key v = ?k"
        using that v mem uniq by (auto simp: unique_keys_def distinct_map inj_on_def)
      with wf v u(2) show ?thesis
        by (auto simp: wf_cursors_def newest_confirmation_def confs confirmation_row_of_def cursor_key_def)
    qed
    with wf mem show ?thesis
      by (auto simp: wf_cursors_def rows confs confirmation_row_of_def)
  qed
qed

section \<open>The outbox stays well-formed\<close>

lemma wf_outbox_unique:
  assumes "wf_outbox rows payloads" and "lookup_row ob_outbox_id k rows = Some r0"
    and "r \<in> set rows" and "ob_outbox_id r = k"
  shows "r = r0"
  using assms lookup_row_mem [of ob_outbox_id rows r] by (simp add: wf_outbox_def)

lemma wf_outbox_update:
  assumes wf: "wf_outbox rows payloads" and r0: "lookup_row ob_outbox_id k rows = Some r0"
    and f: "\<And>r. ob_outbox_id (f r) = ob_outbox_id r \<and> ob_payload_digest (f r) = ob_payload_digest r
      \<and> ob_entry_kind (f r) = ob_entry_kind r \<and> ob_projection_revision (f r) = ob_projection_revision r"
    and ok: "outbox_row_ok (f r0)"
  shows "wf_outbox (update_row ob_outbox_id k f rows) payloads"
proof -
  have pay: "payload_of p (f r) = payload_of p r" for p r using f by (simp add: payload_of_def)
  have 1: "outbox_row_ok r \<and> (\<exists>p \<in> set payloads. payload_of p r)"
    if "r \<in> set (update_row ob_outbox_id k f rows)" for r
    using set_update_rowD [OF that] wf ok pay wf_outbox_unique [OF wf r0]
    by (fastforce simp: wf_outbox_def)
  have "\<exists>r \<in> set (update_row ob_outbox_id k f rows). payload_of p r" if "p \<in> set payloads" for p
  proof -
    from wf that obtain r where "r \<in> set rows" "payload_of p r" by (auto simp: wf_outbox_def)
    then have "(if ob_outbox_id r = k then f r else r) \<in> set (update_row ob_outbox_id k f rows)"
      and "payload_of p (if ob_outbox_id r = k then f r else r)"
      by (auto simp: update_row_def pay)
    then show ?thesis by blast
  qed
  with 1 wf f show ?thesis by (simp add: wf_outbox_def unique_keys_update)
qed

lemma wf_outbox_entry:
  assumes "wf_outbox rows payloads" and "lookup_row ob_outbox_id k rows = Some r"
  shows "outbox_row_ok r" and "ob_outbox_id r = k"
  using assms lookup_row_SomeD [OF assms(2)] by (simp_all add: wf_outbox_def)

lemma wf_outbox_insert:
  assumes wf: "wf_outbox rows payloads" and new: "lookup_row ob_outbox_id (ob_outbox_id r) rows = None"
    and r: "outbox_row_ok r" "payload_of p r"
  shows "wf_outbox (rows @ [r]) (payloads @ [p])"
    and "lookup_row payload_key (payload_key p) payloads = None"
proof -
  show fresh: "lookup_row payload_key (payload_key p) payloads = None"
  proof (cases "lookup_row payload_key (payload_key p) payloads")
    case (Some q)
    with wf obtain r' where "r' \<in> set rows" "payload_of q r'" and "payload_key q = payload_key p"
      by (auto simp: wf_outbox_def dest!: lookup_row_SomeD)
    with r(2) have "ob_outbox_id r' = ob_outbox_id r" by (auto simp: payload_of_def)
    with new \<open>r' \<in> set rows\<close> have False by (metis imageI lookup_row_None)
    then show ?thesis ..
  qed
  from wf new r fresh show "wf_outbox (rows @ [r]) (payloads @ [p])"
    by (auto simp: wf_outbox_def unique_keys_append1)
qed

lemma new_outbox_row_ok [simp]: "outbox_row_ok (new_outbox_row i item)"
  by (cases "en_payload item")
     (simp_all add: outbox_row_ok_def new_outbox_row_def new_entry_def payload_revision_def Let_def)

lemma new_outbox_row_payload:
  "payload_of \<lparr>py_outbox_id = en_outbox_id item, py_payload_digest = en_payload_digest item,
     py_json = en_payload item\<rparr> (new_outbox_row i item)"
  by (simp add: payload_of_def payload_key_def new_outbox_row_def)

lemma record_payload_Inr:
  assumes "record_payload i p d = Inr d'"
  obtains a b c where "d' = d\<lparr>db_intents := a, db_events := b, db_reconciliations := c\<rparr>"
    and "wf_intents (db_intents d) \<longrightarrow> wf_intents a"
    and "wf_events (db_events d) \<longrightarrow> wf_events b"
    and "wf_reconciliations (db_reconciliations d) \<longrightarrow> wf_reconciliations c"
proof (cases p)
  case (Projection_payload x)
  with assms have r: "record_intent x d = Inr d'" by (simp add: record_payload_def)
  obtain a where a: "d' = d\<lparr>db_intents := a\<rparr>" using record_intent_Inr(1) [OF r] by blast
  show ?thesis
    by (rule that [where a = a and b = "db_events d" and c = "db_reconciliations d"])
       (use record_intent_Inr(2) [OF r] a in simp_all)
next
  case (Lifecycle_payload x)
  with assms have r: "record_event x d = Inr d'" by (simp add: record_payload_def)
  obtain b where b: "d' = d\<lparr>db_events := b\<rparr>" using record_event_Inr(1) [OF r] by blast
  show ?thesis
    by (rule that [where a = "db_intents d" and b = b and c = "db_reconciliations d"])
       (use record_event_Inr(2) [OF r] b in simp_all)
next
  case (Evidence_payload x)
  with assms have r: "d' = record_reconciliation i x d" by (simp add: record_payload_def)
  obtain c where c: "d' = d\<lparr>db_reconciliations := c\<rparr>" using record_reconciliation_frame r by blast
  then have "db_reconciliations d' = c" by simp
  show ?thesis
    by (rule that [where a = "db_intents d" and b = "db_events d" and c = c])
       (use record_reconciliation_wf [of d i x] r c \<open>db_reconciliations d' = c\<close> in auto)
qed

lemma record_payload_error:
  "record_payload i p d = Inl e \<Longrightarrow> e \<in> Port_error ` {Intent_conflict, Event_conflict}"
  by (auto simp: record_payload_def split: outbox_payload.splits
      dest: record_intent_error record_event_error)

text \<open>Tables the outbox operations leave alone.\<close>

definition same_keysets :: "'ev db \<Rightarrow> 'ev db \<Rightarrow> bool" where
  "same_keysets d d' \<longleftrightarrow> db_snapshot_keysets d' = db_snapshot_keysets d
     \<and> db_snapshot_tags d' = db_snapshot_tags d
     \<and> db_tombstone_keysets d' = db_tombstone_keysets d \<and> db_tombstone_tags d' = db_tombstone_tags d"

definition same_core :: "'ev db \<Rightarrow> 'ev db \<Rightarrow> bool" where
  "same_core d d' \<longleftrightarrow> db_streams d' = db_streams d \<and> db_attempts d' = db_attempts d
     \<and> same_keysets d d'"

lemma same_core_refl [simp]: "same_core d d" "same_keysets d d"
  by (simp_all add: same_core_def same_keysets_def)

lemma same_core_trans: "same_core a b \<Longrightarrow> same_core b c \<Longrightarrow> same_core a c"
  by (simp add: same_core_def same_keysets_def)

lemma same_keysets_trans: "same_keysets a b \<Longrightarrow> same_keysets b c \<Longrightarrow> same_keysets a c"
  by (simp add: same_keysets_def)

lemma enqueue_Inr:
  assumes ok: "enqueue cfg i item d = Inr d'" and wf: "wf_ledgers d"
  shows "wf_ledgers d' \<and> same_core d d'"
proof (cases "lookup_row ob_outbox_id (en_outbox_id item) (db_outbox d)")
  case (Some r)
  with ok wf show ?thesis by (auto simp: enqueue_def split: if_splits)
next
  case None
  let ?r = "new_outbox_row i item"
  let ?p = "\<lparr>py_outbox_id = en_outbox_id item, py_payload_digest = en_payload_digest item,
              py_json = en_payload item\<rparr>"
  from ok None obtain d1 where rec: "record_payload i (en_payload item) d = Inr d1"
    and rest: "bind (insert_row ob_outbox_id ?r (db_outbox d1)) (\<lambda>rows.
          bind (insert_row payload_key ?p (db_outbox_payloads d1)) (\<lambda>payloads.
          Inr (d1\<lparr>db_outbox := rows, db_outbox_payloads := payloads\<rparr>))) = Inr d'"
    by (auto simp: enqueue_def split: if_splits)
  obtain a b c where d1: "d1 = d\<lparr>db_intents := a, db_events := b, db_reconciliations := c\<rparr>"
    and keep: "wf_intents (db_intents d) \<longrightarrow> wf_intents a" "wf_events (db_events d) \<longrightarrow> wf_events b"
      "wf_reconciliations (db_reconciliations d) \<longrightarrow> wf_reconciliations c"
    by (rule record_payload_Inr [OF rec])
  from wf keep have abc: "wf_intents a" "wf_events b" "wf_reconciliations c"
    by (simp_all add: wf_ledgers_def)
  have id: "ob_outbox_id ?r = en_outbox_id item" by (simp add: new_outbox_row_def)
  have "wf_outbox (db_outbox d @ [?r]) (db_outbox_payloads d @ [?p])"
    by (rule wf_outbox_insert(1)) (use wf None id new_outbox_row_payload in \<open>auto simp: wf_ledgers_def\<close>)
  moreover from rest d1 have "d' = d1\<lparr>db_outbox := db_outbox d @ [?r],
      db_outbox_payloads := db_outbox_payloads d @ [?p]\<rparr>" by auto
  ultimately show ?thesis
    using wf abc d1 by (simp add: wf_ledgers_def same_core_def same_keysets_def)
qed

lemma enqueue_error:
  assumes err: "enqueue cfg i item d = Inl e" and wf: "wf_ledgers d"
  shows "e \<in> Port_error ` {Capacity_exceeded, Integrity_error, Intent_conflict, Event_conflict}"
proof (cases "lookup_row ob_outbox_id (en_outbox_id item) (db_outbox d)")
  case (Some r)
  with err show ?thesis by (auto simp: enqueue_def split: if_splits)
next
  case None
  let ?r = "new_outbox_row i item"
  let ?p = "\<lparr>py_outbox_id = en_outbox_id item, py_payload_digest = en_payload_digest item,
              py_json = en_payload item\<rparr>"
  have id: "ob_outbox_id ?r = en_outbox_id item" by (simp add: new_outbox_row_def)
  have fresh: "lookup_row payload_key (payload_key ?p) (db_outbox_payloads d) = None"
    by (rule wf_outbox_insert(2) [of "db_outbox d" _ ?r])
       (use wf None id new_outbox_row_payload in \<open>auto simp: wf_ledgers_def\<close>)
  show ?thesis
  proof (cases "record_payload i (en_payload item) d")
    case (Inl e')
    with err None show ?thesis by (auto simp: enqueue_def split: if_splits dest: record_payload_error)
  next
    case (Inr d1)
    then obtain a b c where d1: "d1 = d\<lparr>db_intents := a, db_events := b, db_reconciliations := c\<rparr>"
      using record_payload_Inr by metis
    have f1: "lookup_row ob_outbox_id (ob_outbox_id ?r) (db_outbox d1) = None"
      using None id by (simp add: d1)
    have f2: "lookup_row payload_key (payload_key ?p) (db_outbox_payloads d1) = None"
      using fresh by (simp add: d1)
    from err None Inr show ?thesis
      by (simp add: enqueue_def insert_row_fresh [OF f1] insert_row_fresh [OF f2] split: if_splits)
  qed
qed

lemma complete_entry_Inr:
  assumes ok: "complete_entry done d = Inr d'" and wf: "wf_ledgers d"
  shows "wf_ledgers d' \<and> same_core d d'"
proof -
  from ok obtain r where r: "lookup_row ob_outbox_id (oc_outbox_id done) (db_outbox d) = Some r"
    and d': "d' = d \<or> d' = d\<lparr>db_outbox := update_row ob_outbox_id (oc_outbox_id done)
           (\<lambda>x. x\<lparr>ob_status := Complete, ob_lease_owner := None, ob_lease_expires_at := None,
                   ob_json := (ob_json r)\<lparr>oe_status := Complete,
                     oe_completed_at := Some (oc_completed_at done), oe_lease_owner := None,
                     oe_lease_expires_at := None\<rparr>\<rparr>) (db_outbox d)\<rparr>"
    by (auto simp: complete_entry_def Let_def split: option.splits if_splits)
  have wo: "wf_outbox (db_outbox d) (db_outbox_payloads d)" using wf by (simp add: wf_ledgers_def)
  have "wf_outbox (update_row ob_outbox_id (oc_outbox_id done)
           (\<lambda>x. x\<lparr>ob_status := Complete, ob_lease_owner := None, ob_lease_expires_at := None,
                   ob_json := (ob_json r)\<lparr>oe_status := Complete,
                     oe_completed_at := Some (oc_completed_at done), oe_lease_owner := None,
                     oe_lease_expires_at := None\<rparr>\<rparr>) (db_outbox d)) (db_outbox_payloads d)"
    by (rule wf_outbox_update [OF wo r])
       (use wf_outbox_entry [OF wo r] in \<open>simp_all add: outbox_row_ok_def Let_def\<close>)
  with d' wf show ?thesis by (auto simp: wf_ledgers_def same_core_def same_keysets_def)
qed

lemma complete_entry_error:
  "complete_entry done d = Inl e \<Longrightarrow> e \<in> Port_error ` {Not_found, Integrity_error}"
  by (auto simp: complete_entry_def Let_def split: option.splits if_splits)

lemma record_confirmation_ledgers:
  assumes "record_confirmation c d = Inr d'" and "wf_ledgers d"
  shows "wf_ledgers d' \<and> same_core d d'"
proof -
  obtain a b where d': "d' = d\<lparr>db_confirmations := a, db_cursors := b\<rparr>"
    using record_confirmation_Inr(1) [OF assms(1)] by blast
  with record_confirmation_Inr(2) [OF assms(1)] record_confirmation_cursors [OF assms(1)] assms(2)
  show ?thesis by (simp add: wf_ledgers_def same_core_def same_keysets_def)
qed

lemma fold_enqueue_Inr:
  assumes "fold_result (enqueue cfg i) items d = Inr d'" and "wf_ledgers d"
  shows "wf_ledgers d' \<and> same_core d d'"
  using fold_result_invariant [where P = "\<lambda>x. wf_ledgers x \<and> same_core d x", OF _ _ assms(1)] assms(2)
    enqueue_Inr same_core_trans by (metis (no_types, lifting) same_core_refl(1))

lemma fold_complete_Inr:
  assumes "fold_result complete_entry items d = Inr d'" and "wf_ledgers d"
  shows "wf_ledgers d' \<and> same_core d d'"
  using fold_result_invariant [where P = "\<lambda>x. wf_ledgers x \<and> same_core d x", OF _ _ assms(1)] assms(2)
    complete_entry_Inr same_core_trans by (metis (no_types, lifting) same_core_refl(1))

lemma fold_enqueue_error:
  assumes "fold_result (enqueue cfg i) items d = Inl e" and "wf_ledgers d"
  shows "e \<in> Port_error ` {Capacity_exceeded, Integrity_error, Intent_conflict, Event_conflict}"
  by (rule fold_result_error [where P = wf_ledgers, OF _ _ assms(2,1)])
     (use enqueue_Inr enqueue_error in blast)+

lemma fold_complete_error:
  assumes "fold_result complete_entry items d = Inl e" and "wf_ledgers d"
  shows "e \<in> Port_error ` {Not_found, Integrity_error}"
  by (rule fold_result_error [where P = wf_ledgers, OF _ _ assms(2,1)])
     (use complete_entry_Inr complete_entry_error in blast)+

section \<open>The state transaction\<close>

definition wf_store :: "'ev db \<Rightarrow> bool" where
  "wf_store d \<longleftrightarrow> wf_streams (db_streams d) \<and> wf_attempts (db_attempts d) \<and> wf_ledgers d"

lemma wf_ledgers_cong:
  assumes "db_outbox d' = db_outbox d" "db_outbox_payloads d' = db_outbox_payloads d"
    "db_intents d' = db_intents d" "db_confirmations d' = db_confirmations d"
    "db_cursors d' = db_cursors d" "db_events d' = db_events d"
    "db_reconciliations d' = db_reconciliations d"
  shows "wf_ledgers d' = wf_ledgers d"
  by (simp add: wf_ledgers_def assms)

lemma wf_ledgers_frame [simp]:
  "wf_ledgers (save_state s f d) = wf_ledgers d"
  "wf_ledgers (expire_retained_keysets now d) = wf_ledgers d"
  "wf_ledgers (set_deployment i dep d) = wf_ledgers d"
  by (rule wf_ledgers_cong; simp add: set_deployment_def split: option.splits)+

lemma set_deployment_frame [simp]:
  "db_attempts (set_deployment i dep d) = db_attempts d"
  "db_outbox (set_deployment i dep d) = db_outbox d"
  by (simp_all add: set_deployment_def split: option.splits)

lemma put_attempts_core:
  assumes "put_attempts cfg as d = Inr d'"
  shows "db_streams d' = db_streams d" and "wf_ledgers d' = wf_ledgers d" and "same_keysets d d'"
    and "db_outbox d' = db_outbox d"
proof -
  obtain a where "d' = d\<lparr>db_attempts := a\<rparr>" using put_attempts_frame [OF assms] by blast
  then show "db_streams d' = db_streams d" and "wf_ledgers d' = wf_ledgers d" and "same_keysets d d'"
    and "db_outbox d' = db_outbox d"
    by (simp_all add: wf_ledgers_def same_keysets_def)
qed

lemma set_deployment_streams:
  assumes "wf_streams (db_streams d)"
  shows "wf_streams (db_streams (set_deployment i dep d))"
    and "map_option sm_state (lookup_row sm_identity k (db_streams (set_deployment i dep d))) =
         map_option sm_state (lookup_row sm_identity k (db_streams d))"
proof -
  show "wf_streams (db_streams (set_deployment i dep d))"
    using assms
    by (auto simp: set_deployment_def stream_row_ok_def wf_streams_def unique_keys_update
        split: option.splits dest!: set_update_rowD)
  show "map_option sm_state (lookup_row sm_identity k (db_streams (set_deployment i dep d))) =
         map_option sm_state (lookup_row sm_identity k (db_streams d))"
    by (cases "lookup_row sm_identity i (db_streams d)")
      (auto simp: set_deployment_def lookup_row_update split: option.splits)
qed

text \<open>
  What a state transaction that commits has done, step by step: each \<open>obtain\<close>ed database is the one
  the code has after that statement.
\<close>

lemma state_transaction_body_Inr:
  assumes "state_transaction_body cfg t d = Inr (s, d')"
  defines "i \<equiv> st_logical_identity (tx_next_state t)"
  obtains row d1 d2 d3 d4 where
    "lookup_row sm_identity i (db_streams d) = Some row"
    "st_state_revision (sm_state row) = tx_expected_state_revision t"
    "put_attempts cfg (tx_attempt_updates t) d = Inr d1"
    "fold_result (enqueue cfg i) (tx_enqueue t) (set_deployment i (tx_deployment_update t) d1) = Inr d2"
    "fold_result complete_entry (tx_complete t) d2 = Inr d3"
    "(case tx_projection_confirmation t of None \<Rightarrow> Inr d3 | Some c \<Rightarrow> record_confirmation c d3) = Inr d4"
    "s = tx_next_state t" "d' = save_state (tx_next_state t) (\<lambda>r. r) d4"
  using assms
  by (auto simp: state_transaction_body_def Let_def load_state_def)

lemma optional_confirmation:
  assumes "(case c of None \<Rightarrow> Inr d | Some c \<Rightarrow> record_confirmation c d) = Inr d'" and "wf_ledgers d"
  shows "wf_ledgers d' \<and> same_core d d'"
  using assms by (auto split: option.splits dest: record_confirmation_ledgers)

lemma state_transaction_body_effect:
  assumes ok: "state_transaction_body cfg t d = Inr (s, d')" and wf: "wf_store d"
  defines "i \<equiv> st_logical_identity (tx_next_state t)"
  shows "wf_store d'" and "same_keysets d d'" and "s = tx_next_state t"
    and "stream_rev i d = Some (tx_expected_state_revision t)"
    and "stream_rev k d' = (if k = i then Some (st_state_revision (tx_next_state t)) else stream_rev k d)"
    and "\<exists>r. lookup_row sm_identity i (db_streams d') = Some r \<and> sm_state r = tx_next_state t"
proof -
  from ok obtain row d1 d2 d3 d4 where
    R: "lookup_row sm_identity i (db_streams d) = Some row"
      "st_state_revision (sm_state row) = tx_expected_state_revision t"
    and s1: "put_attempts cfg (tx_attempt_updates t) d = Inr d1"
    and s2: "fold_result (enqueue cfg i) (tx_enqueue t) (set_deployment i (tx_deployment_update t) d1) = Inr d2"
    and s3: "fold_result complete_entry (tx_complete t) d2 = Inr d3"
    and s4: "(case tx_projection_confirmation t of None \<Rightarrow> Inr d3 | Some c \<Rightarrow> record_confirmation c d3) = Inr d4"
    and s: "s = tx_next_state t" and d': "d' = save_state (tx_next_state t) (\<lambda>r. r) d4"
    unfolding i_def by (rule state_transaction_body_Inr)
  let ?dd = "set_deployment i (tx_deployment_update t) d1"
  from wf have ws: "wf_streams (db_streams d)" and wa: "wf_attempts (db_attempts d)"
    and wl: "wf_ledgers d" by (simp_all add: wf_store_def)
  note P = put_attempts_core [OF s1] put_attempts_wf [OF s1 wa]
  have E: "wf_ledgers d2 \<and> same_core ?dd d2" by (rule fold_enqueue_Inr [OF s2]) (simp add: P wl)
  have C: "wf_ledgers d3 \<and> same_core d2 d3" using E by (intro fold_complete_Inr [OF s3]) simp
  have F: "wf_ledgers d4 \<and> same_core d3 d4" using C by (intro optional_confirmation [OF s4]) simp
  have core: "same_core ?dd d4" using E C F by (blast intro: same_core_trans)
  have ws1: "wf_streams (db_streams d1)" using ws by (simp add: P)
  note D = set_deployment_streams [OF ws1, where i = i and dep = "tx_deployment_update t"]
  have streams: "db_streams d4 = db_streams ?dd" and atts: "db_attempts d4 = db_attempts d1"
    using core by (simp_all add: same_core_def)
  have ok_row: "stream_row_ok (r\<lparr>sm_state := tx_next_state t\<rparr>)"
    if "lookup_row sm_identity i (db_streams ?dd) = Some r" for r
    using wf_streams_lookup [OF D(1) that] by (simp add: stream_row_ok_def i_def split: option.splits)
  have "wf_streams (db_streams d')"
    unfolding d' by (rule save_state_wf_streams) (use D(1) ok_row in \<open>simp_all add: streams i_def\<close>)
  then show "wf_store d'" using F P by (simp add: wf_store_def d' atts)
  have "same_keysets d1 ?dd" by (simp add: same_keysets_def set_deployment_def split: option.splits)
  then show "same_keysets d d'"
    using P core by (simp add: same_keysets_def same_core_def d')
  show "s = tx_next_state t" by (rule s)
  show "stream_rev i d = Some (tx_expected_state_revision t)" using R by (simp add: stream_rev_def)
  have same: "map_option sm_state (lookup_row sm_identity k (db_streams d4)) =
      map_option sm_state (lookup_row sm_identity k (db_streams d))" for k
    by (simp add: streams D P)
  from same [of i] R obtain r4 where r4: "lookup_row sm_identity i (db_streams d4) = Some r4" by auto
  then show "\<exists>r. lookup_row sm_identity i (db_streams d') = Some r \<and> sm_state r = tx_next_state t"
    by (simp add: d' lookup_save_state i_def)
  have "stream_rev k d4 = stream_rev k d"
    using arg_cong [OF same [of k], of "map_option st_state_revision"]
    by (simp add: stream_rev_def option.map_comp comp_def)
  then show "stream_rev k d' = (if k = i then Some (st_state_revision (tx_next_state t)) else stream_rev k d)"
    using r4 by (simp add: d' stream_rev_def lookup_save_state i_def)
qed

text \<open>A well-formed store never trips over a primary key: every refusal is one of the closed codes.\<close>

lemma state_transaction_body_error:
  fixes d :: "'ev db"
  assumes err: "state_transaction_body cfg t d = Inl e" and wf: "wf_store d"
  shows "e \<in> Port_error ` {Not_found, Stale_revision, Capacity_exceeded, Integrity_error,
    Intent_conflict, Event_conflict}"
proof -
  let ?i = "st_logical_identity (tx_next_state t)"
  from err consider "e \<in> Port_error ` {Not_found, Stale_revision}"
    | "put_attempts cfg (tx_attempt_updates t) d = Inl e"
    | d1 where "put_attempts cfg (tx_attempt_updates t) d = Inr d1"
        "fold_result (enqueue cfg ?i) (tx_enqueue t) (set_deployment ?i (tx_deployment_update t) d1) = Inl e"
    | d1 d2 where "put_attempts cfg (tx_attempt_updates t) d = Inr d1"
        "fold_result (enqueue cfg ?i) (tx_enqueue t) (set_deployment ?i (tx_deployment_update t) d1) = Inr d2"
        "fold_result complete_entry (tx_complete t) d2 = Inl e"
    | c and d3 :: "'ev db" where "record_confirmation c d3 = Inl e"
    by (auto simp: state_transaction_body_def Let_def load_state_def bind_eq_Inl stream_row_of_def
        check_revision_def split: option.splits)
  then show ?thesis
  proof cases
    case 2
    then show ?thesis using put_attempts_error by auto
  next
    case (3 d1)
    then show ?thesis
      using fold_enqueue_error [OF 3(2)] put_attempts_core(2) [OF 3(1)] wf by (auto simp: wf_store_def)
  next
    case (4 d1 d2)
    have "wf_ledgers d2"
      using fold_enqueue_Inr [OF 4(2)] put_attempts_core(2) [OF 4(1)] wf by (auto simp: wf_store_def)
    from fold_complete_error [OF 4(3) this] show ?thesis by auto
  next
    case 5
    then show ?thesis by (auto dest: record_confirmation_error)
  qed auto
qed

section \<open>What a lease takes\<close>

text \<open>
  The loop takes, in partition order, the entries that are pending, due for a retry or abandoned by
  their owner; at most \<open>max_items\<close> of them, and at most one projection.
\<close>

definition lease_limit :: "outbox_entry_kind \<Rightarrow> nat \<Rightarrow> nat" where
  "lease_limit kind n = (if kind = Ok_projection then min n 1 else n)"

definition lease_rows :: "outbox_entry_kind \<Rightarrow> instant \<Rightarrow> nat \<Rightarrow> outbox_row list \<Rightarrow> outbox_row list" where
  "lease_rows kind now n rows = take n (filter (\<lambda>r. leasable now (ob_json r)) rows)"

definition lease_row :: "'ev store_config \<Rightarrow> token \<Rightarrow> instant \<Rightarrow> outbox_row \<Rightarrow> outbox_row" where
  "lease_row cfg owner now r = r\<lparr>ob_status := Leased, ob_lease_owner := Some owner,
     ob_lease_expires_at := Some (add_utc now (sc_lease_seconds cfg)),
     ob_json := lease_entry cfg owner now (ob_json r)\<rparr>"

definition take_lease ::
    "'ev store_config \<Rightarrow> token \<Rightarrow> instant \<Rightarrow> outbox_row \<Rightarrow> outbox_row list \<Rightarrow> outbox_row list" where
  "take_lease cfg owner now r rows = update_row ob_outbox_id (oe_outbox_id (ob_json r))
     (\<lambda>x. x\<lparr>ob_status := Leased, ob_lease_owner := Some owner,
             ob_lease_expires_at := Some (add_utc now (sc_lease_seconds cfg)),
             ob_json := lease_entry cfg owner now (ob_json r)\<rparr>) rows"

lemma lease_loop_rows:
  "lease_loop cfg kind owner now n rows leased d =
     (leased @ map (\<lambda>r. lease_entry cfg owner now (ob_json r))
        (lease_rows kind now (lease_limit kind n - length leased) rows),
      d\<lparr>db_outbox := fold (take_lease cfg owner now)
        (lease_rows kind now (lease_limit kind n - length leased) rows) (db_outbox d)\<rparr>)"
proof (induction rows arbitrary: leased d)
  case Nil
  then show ?case by (simp add: lease_rows_def)
next
  case (Cons r rows)
  have skip: "lease_rows kind now m (r # rows) = lease_rows kind now m rows"
    if "\<not> leasable now (ob_json r)" for m
    using that by (simp add: lease_rows_def)
  consider "n \<le> length leased" | "\<not> n \<le> length leased" "\<not> leasable now (ob_json r)"
    | "\<not> n \<le> length leased" "leasable now (ob_json r)" "kind = Ok_projection \<and> leased \<noteq> []"
    | "\<not> n \<le> length leased" "leasable now (ob_json r)" "\<not> (kind = Ok_projection \<and> leased \<noteq> [])"
    by blast
  then show ?case
  proof cases
    case 1
    then have "lease_limit kind n - length leased = 0" by (auto simp: lease_limit_def)
    with 1 show ?thesis by (simp add: lease_rows_def)
  next
    case 2
    then have "lease_loop cfg kind owner now n (r # rows) leased d =
        lease_loop cfg kind owner now n rows leased d"
      by (auto simp: leasable_def Let_def)
    with 2 show ?thesis by (simp add: Cons.IH skip)
  next
    case 3
    then have "1 \<le> length leased" by (cases leased) auto
    with 3 have "lease_limit kind n - length leased = 0" by (simp add: lease_limit_def)
    with 3 show ?thesis by (auto simp: lease_rows_def leasable_def Let_def)
  next
    case 4
    have pos: "lease_limit kind n - length leased = Suc (lease_limit kind n - length (leased @ [x]))" for x
      using 4 by (auto simp: lease_limit_def)
    have "lease_loop cfg kind owner now n (r # rows) leased d =
        lease_loop cfg kind owner now n rows (leased @ [lease_entry cfg owner now (ob_json r)])
          (d\<lparr>db_outbox := take_lease cfg owner now r (db_outbox d)\<rparr>)"
      using 4 by (auto simp: leasable_def Let_def take_lease_def lease_entry_def)
    then show ?thesis
      using 4 by (simp add: Cons.IH pos [of "lease_entry cfg owner now (ob_json r)"] lease_rows_def del: length_append)
  qed
qed

lemma take_lease_row:
  assumes wf: "wf_outbox rows payloads" and r: "r \<in> set rows"
  shows "take_lease cfg owner now r rows =
    map (\<lambda>x. if x = r then lease_row cfg owner now x else x) rows"
proof -
  have id: "oe_outbox_id (ob_json r) = ob_outbox_id r"
    using wf r by (simp add: wf_outbox_def outbox_row_ok_def Let_def)
  have "x = r" if "x \<in> set rows" "ob_outbox_id x = ob_outbox_id r" for x
    using wf r that by (auto simp: wf_outbox_def unique_keys_def distinct_map inj_on_def)
  then show ?thesis
    by (auto simp: take_lease_def update_row_def id lease_row_def)
qed

lemma lease_row_simps [simp]:
  "ob_outbox_id (lease_row cfg owner now r) = ob_outbox_id r"
  "ob_payload_digest (lease_row cfg owner now r) = ob_payload_digest r"
  "ob_entry_kind (lease_row cfg owner now r) = ob_entry_kind r"
  "ob_identity (lease_row cfg owner now r) = ob_identity r"
  "ob_projection_revision (lease_row cfg owner now r) = ob_projection_revision r"
  "ob_json (lease_row cfg owner now r) = lease_entry cfg owner now (ob_json r)"
  by (simp_all add: lease_row_def)

lemma outbox_row_ok_lease: "outbox_row_ok r \<Longrightarrow> outbox_row_ok (lease_row cfg owner now r)"
  by (simp add: outbox_row_ok_def lease_row_def lease_entry_def Let_def)

lemma wf_outbox_map:
  assumes wf: "wf_outbox rows payloads"
    and f: "\<And>r. r \<in> set rows \<Longrightarrow> ob_outbox_id (f r) = ob_outbox_id r \<and> ob_payload_digest (f r) = ob_payload_digest r
      \<and> ob_entry_kind (f r) = ob_entry_kind r \<and> ob_projection_revision (f r) = ob_projection_revision r
      \<and> outbox_row_ok (f r)"
  shows "wf_outbox (map f rows) payloads"
proof -
  have "map ob_outbox_id (map f rows) = map ob_outbox_id rows" using f by simp
  moreover have "payload_of p (f r) = payload_of p r" if "r \<in> set rows" for p r
    using f that by (simp add: payload_of_def)
  ultimately have "unique_keys ob_outbox_id (map f rows)"
    and pay: "\<And>r p. r \<in> set rows \<Longrightarrow> payload_of p (f r) = payload_of p r"
    using wf by (simp_all add: wf_outbox_def unique_keys_def del: map_map)
  moreover have "\<exists>x \<in> set (map f rows). payload_of p x" if "p \<in> set payloads" for p
  proof -
    from wf that obtain r where "r \<in> set rows" "payload_of p r" by (auto simp: wf_outbox_def)
    then show ?thesis using pay by auto
  qed
  moreover have "outbox_row_ok x \<and> (\<exists>p \<in> set payloads. payload_of p x)" if "x \<in> set (map f rows)" for x
    using that wf f pay by (fastforce simp: wf_outbox_def)
  ultimately show ?thesis using wf by (simp add: wf_outbox_def)
qed

lemma fold_take_lease:
  assumes "wf_outbox rows payloads" and "set ls \<subseteq> set rows" and "distinct ls"
  shows "fold (take_lease cfg owner now) ls rows =
    map (\<lambda>x. if x \<in> set ls then lease_row cfg owner now x else x) rows"
  using assms
proof (induction ls arbitrary: rows)
  case Nil
  then show ?case by simp
next
  case (Cons r ls)
  let ?rows1 = "take_lease cfg owner now r rows"
  have rows1: "?rows1 = map (\<lambda>x. if x = r then lease_row cfg owner now x else x) rows"
    using Cons.prems by (intro take_lease_row) auto
  have wf1: "wf_outbox ?rows1 payloads"
    unfolding rows1 using Cons.prems(1)
    by (intro wf_outbox_map) (auto simp: wf_outbox_def outbox_row_ok_lease lease_row_simps)
  have "set ls \<subseteq> set ?rows1" using Cons.prems by (auto simp: rows1)
  note IH = Cons.IH [OF wf1 this]
  have new: "lease_row cfg owner now r \<notin> set ls"
  proof
    assume mem: "lease_row cfg owner now r \<in> set ls"
    then have "lease_row cfg owner now r \<in> set rows" "r \<in> set rows" using Cons.prems(2) by auto
    with Cons.prems(1) lease_row_simps(1) [of cfg owner now r] have "lease_row cfg owner now r = r"
      by (auto simp: wf_outbox_def unique_keys_def distinct_map inj_on_def)
    with mem Cons.prems(3) show False by simp
  qed
  have "fold (take_lease cfg owner now) (r # ls) rows =
      map (\<lambda>x. if x \<in> set ls then lease_row cfg owner now x else x) ?rows1"
    using IH Cons.prems(3) by simp
  also have "\<dots> = map (\<lambda>x. if x \<in> set (r # ls) then lease_row cfg owner now x else x) rows"
    using new Cons.prems(3) by (auto simp: rows1)
  finally show ?case .
qed

definition leased_rows ::
    "logical_identity \<Rightarrow> outbox_entry_kind \<Rightarrow> instant \<Rightarrow> nat \<Rightarrow> 'ev db \<Rightarrow> outbox_row list" where
  "leased_rows i kind observed n d =
     lease_rows kind observed (lease_limit kind n) (outbox_partition i kind (db_outbox d))"

lemma set_outbox_partition [simp]:
  "set (outbox_partition i kind rows) = {r \<in> set rows. ob_identity r = i \<and> ob_entry_kind r = kind}"
  by (auto simp: outbox_partition_def)

lemma distinct_rows: "unique_keys key rows \<Longrightarrow> distinct rows"
  by (simp add: unique_keys_def distinct_map)

lemma distinct_outbox_partition: "distinct rows \<Longrightarrow> distinct (outbox_partition i kind rows)"
  by (simp add: outbox_partition_def)

lemma leased_rows_mem:
  assumes "r \<in> set (leased_rows i kind observed n d)"
  shows "r \<in> set (db_outbox d)" "ob_identity r = i" "ob_entry_kind r = kind" "leasable observed (ob_json r)"
  using assms by (auto simp: leased_rows_def lease_rows_def dest!: in_set_takeD)

lemma distinct_leased_rows:
  "wf_store d \<Longrightarrow> distinct (leased_rows i kind observed n d)"
  using distinct_rows [of ob_outbox_id "db_outbox d"]
  by (simp add: wf_store_def wf_ledgers_def wf_outbox_def leased_rows_def lease_rows_def
      distinct_outbox_partition)

lemma length_leased_rows: "length (leased_rows i kind observed n d) \<le> lease_limit kind n"
  by (simp add: leased_rows_def lease_rows_def)

lemma leased_rows_expire [simp]:
  "leased_rows i kind observed n (expire_retained_keysets now d) = leased_rows i kind observed n d"
  by (simp add: leased_rows_def)

definition lease_update ::
    "'ev store_config \<Rightarrow> token \<Rightarrow> instant \<Rightarrow> outbox_row list \<Rightarrow> 'ev db \<Rightarrow> 'ev db" where
  "lease_update cfg owner observed rs d = d\<lparr>db_outbox :=
     map (\<lambda>r. if r \<in> set rs then lease_row cfg owner observed r else r) (db_outbox d)\<rparr>"

lemma lease_outbox_eq:
  assumes "wf_store d"
  shows "lease_outbox cfg now i kind owner observed n d =
    (Inr (map (\<lambda>r. lease_entry cfg owner observed (ob_json r)) (leased_rows i kind observed n d)),
     lease_update cfg owner observed (leased_rows i kind observed n d) (expire_retained_keysets now d))"
proof -
  let ?d = "expire_retained_keysets now d"
  have wf: "wf_outbox (db_outbox ?d) (db_outbox_payloads ?d)"
    using assms by (simp add: wf_store_def wf_ledgers_def)
  have "fold (take_lease cfg owner observed) (leased_rows i kind observed n d) (db_outbox ?d) =
      map (\<lambda>r. if r \<in> set (leased_rows i kind observed n d) then lease_row cfg owner observed r else r)
        (db_outbox ?d)"
    by (rule fold_take_lease [OF wf])
       (use leased_rows_mem distinct_leased_rows [OF assms] in auto)
  then show ?thesis
    by (simp add: lease_outbox_def in_tx_def Let_def lease_loop_rows lease_update_def
        leased_rows_def [symmetric])
qed

lemma wf_lease_update:
  assumes "wf_store d"
  shows "wf_store (lease_update cfg owner observed rs d)"
    and "stream_rev k (lease_update cfg owner observed rs d) = stream_rev k d"
    and "same_core d (lease_update cfg owner observed rs d)"
proof -
  have wo: "wf_outbox (db_outbox d) (db_outbox_payloads d)"
    using assms by (simp add: wf_store_def wf_ledgers_def)
  then have "wf_outbox (map (\<lambda>r. if r \<in> set rs then lease_row cfg owner observed r else r) (db_outbox d))
      (db_outbox_payloads d)"
    by (rule wf_outbox_map) (use wo in \<open>simp add: wf_outbox_def outbox_row_ok_lease\<close>)
  with assms show "wf_store (lease_update cfg owner observed rs d)"
    by (simp add: wf_store_def wf_ledgers_def lease_update_def)
qed (simp_all add: lease_update_def stream_rev_def same_core_def same_keysets_def)

lemma wf_store_expire [simp]: "wf_store (expire_retained_keysets now d) = wf_store d"
  by (simp add: wf_store_def)

lemma stream_rev_expire [simp]: "stream_rev k (expire_retained_keysets now d) = stream_rev k d"
  by (simp add: stream_rev_def)

lemma lease_outbox_wf:
  assumes "wf_store d" and "lease_outbox cfg now i kind owner observed n d = (x, d')"
  shows "wf_store d'" and "stream_rev k d' = stream_rev k d"
  using assms lease_outbox_eq [OF assms(1)] wf_lease_update [of "expire_retained_keysets now d"]
  by auto

section \<open>What a failure writes\<close>

lemma fail_outbox_body_Inr:
  assumes ok: "fail_outbox_body cfg t d = Inr (s, d')" and wf: "wf_store d"
  defines "i \<equiv> st_logical_identity (ft_next_state t)"
  obtains srow d1 r where
    "lookup_row sm_identity i (db_streams d) = Some srow"
    "st_state_revision (sm_state srow) = ft_expected_state_revision t"
    "put_attempts cfg (ft_attempt_updates t) d = Inr d1"
    "lookup_row ob_outbox_id (ft_outbox_id t) (db_outbox d) = Some r"
    "ob_payload_digest r = ft_payload_digest t"
    "\<not> (oe_status (ob_json r) = Leased \<and> oe_lease_owner (ob_json r) \<notin> {None, Some (ft_lease_owner t)}
        \<and> (case oe_lease_expires_at (ob_json r) of None \<Rightarrow> True | Some x \<Rightarrow> x > ft_failure_observed_at t))"
    "s = ft_next_state t"
    "d' = save_state s (\<lambda>r. r) (d1\<lparr>db_outbox := update_row ob_outbox_id (ft_outbox_id t)
       (store_entry (fail_entry t (ob_json r))) (db_outbox d)\<rparr>)"
proof -
  let ?upd = "\<lambda>r x. x\<lparr>ob_status := oe_status (fail_entry t (ob_json r)),
              ob_next_not_before := oe_next_not_before (fail_entry t (ob_json r)),
              ob_lease_owner := None, ob_lease_expires_at := None,
              ob_dispatch_ordinal := oe_dispatch_ordinal (fail_entry t (ob_json r)),
              ob_json := fail_entry t (ob_json r)\<rparr>"
  let ?foreign = "\<lambda>e. oe_status e = Leased \<and> oe_lease_owner e \<notin> {None, Some (ft_lease_owner t)}
        \<and> (case oe_lease_expires_at e of None \<Rightarrow> True | Some x \<Rightarrow> x > ft_failure_observed_at t)"
  from ok obtain srow d1 where
    S: "lookup_row sm_identity i (db_streams d) = Some srow"
    "st_state_revision (sm_state srow) = ft_expected_state_revision t"
    "put_attempts cfg (ft_attempt_updates t) d = Inr d1"
    and rest: "(case lookup_row ob_outbox_id (ft_outbox_id t) (db_outbox d1) of
        None \<Rightarrow> raise Not_found
      | Some r \<Rightarrow> if ob_payload_digest r \<noteq> ft_payload_digest t then raise Integrity_error
          else if ?foreign (ob_json r) then raise Concurrency_conflict
          else Inr (ft_next_state t, save_state (ft_next_state t) (\<lambda>r. r)
                     (d1\<lparr>db_outbox := update_row ob_outbox_id (ft_outbox_id t) (?upd r) (db_outbox d1)\<rparr>)))
      = Inr (s, d')"
    unfolding fail_outbox_body_def Let_def load_state_def i_def by auto
  from rest obtain r where R: "lookup_row ob_outbox_id (ft_outbox_id t) (db_outbox d1) = Some r"
    "ob_payload_digest r = ft_payload_digest t" "\<not> ?foreign (ob_json r)" "s = ft_next_state t"
    and d': "d' = save_state s (\<lambda>r. r)
       (d1\<lparr>db_outbox := update_row ob_outbox_id (ft_outbox_id t) (?upd r) (db_outbox d1)\<rparr>)"
    by (cases "lookup_row ob_outbox_id (ft_outbox_id t) (db_outbox d1)") (fastforce split: if_splits)+
  have eq: "?upd r = store_entry (fail_entry t (ob_json r))"
    by (rule ext) (simp add: store_entry_def fail_entry_def)
  show ?thesis
    by (rule that [OF S _ R(2-4)]) (use R(1) d' put_attempts_core(4) [OF S(3)] eq in simp_all)
qed

lemma fail_outbox_body_effect:
  assumes ok: "fail_outbox_body cfg t d = Inr (s, d')" and wf: "wf_store d"
  defines "i \<equiv> st_logical_identity (ft_next_state t)"
  shows "wf_store d'" and "same_keysets d d'" and "s = ft_next_state t"
    and "stream_rev i d = Some (ft_expected_state_revision t)"
    and "stream_rev k d' = (if k = i then Some (st_state_revision (ft_next_state t)) else stream_rev k d)"
proof -
  from ok wf obtain srow d1 r where
    R: "lookup_row sm_identity i (db_streams d) = Some srow"
      "st_state_revision (sm_state srow) = ft_expected_state_revision t"
    and s1: "put_attempts cfg (ft_attempt_updates t) d = Inr d1"
    and r: "lookup_row ob_outbox_id (ft_outbox_id t) (db_outbox d) = Some r"
    and s: "s = ft_next_state t"
    and d': "d' = save_state s (\<lambda>r. r) (d1\<lparr>db_outbox := update_row ob_outbox_id (ft_outbox_id t)
       (store_entry (fail_entry t (ob_json r))) (db_outbox d)\<rparr>)"
    unfolding i_def by (rule fail_outbox_body_Inr)
  from wf have ws: "wf_streams (db_streams d)" and wa: "wf_attempts (db_attempts d)"
    and wl: "wf_ledgers d" by (simp_all add: wf_store_def)
  note P = put_attempts_core [OF s1] put_attempts_wf [OF s1 wa]
  have wo: "wf_outbox (db_outbox d) (db_outbox_payloads d)" using wl by (simp add: wf_ledgers_def)
  have "wf_outbox (update_row ob_outbox_id (ft_outbox_id t)
       (store_entry (fail_entry t (ob_json r))) (db_outbox d)) (db_outbox_payloads d)"
    by (rule wf_outbox_update [OF wo r])
       (use wf_outbox_entry [OF wo r] in
          \<open>simp_all add: outbox_row_ok_def Let_def store_entry_def fail_entry_def\<close>)
  moreover have "wf_ledgers d1" using wl P by simp
  moreover have "db_outbox_payloads d1 = db_outbox_payloads d"
    using put_attempts_frame [OF s1] by (metis db.select_convs(4) db.surjective db.update_convs(2))
  ultimately have wl': "wf_ledgers d'" by (simp add: d' wf_ledgers_def)
  have "wf_streams (db_streams d')"
    unfolding d'
    by (rule save_state_wf_streams)
       (use ws wf_streams_lookup [OF ws] in
          \<open>fastforce simp: P s stream_row_ok_def split: option.splits\<close>)+
  then show "wf_store d'" using wl' P by (simp add: wf_store_def d')
  show "same_keysets d d'" using P by (simp add: same_keysets_def d')
  show "s = ft_next_state t" by (rule s)
  show "stream_rev i d = Some (ft_expected_state_revision t)" using R by (simp add: stream_rev_def)
  show "stream_rev k d' = (if k = i then Some (st_state_revision (ft_next_state t)) else stream_rev k d)"
    using R P by (simp add: d' stream_rev_def lookup_save_state s i_def)
qed

lemma stream_row_of_Inl: "stream_row_of i d = Inl e \<Longrightarrow> e = Port_error Not_found"
  by (auto simp: stream_row_of_def split: option.splits)

lemma guarded_branch_Inl:
  "(case x of None \<Rightarrow> raise a | Some r \<Rightarrow> if p r then raise b else if q r then raise c else Inr (f r)) = Inl e
     \<Longrightarrow> e \<in> Port_error ` {a, b, c}"
  by (cases x) (simp_all split: if_splits)

lemma fail_outbox_body_error:
  assumes "fail_outbox_body cfg t d = Inl e"
  shows "e \<in> Port_error ` {Not_found, Stale_revision, Capacity_exceeded, Integrity_error,
    Concurrency_conflict}"
  using assms
  unfolding fail_outbox_body_def Let_def load_state_def
  by (auto simp: bind_eq_Inl check_revision_def
      dest!: guarded_branch_Inl stream_row_of_Inl put_attempts_error)

section \<open>Polling workers\<close>

text \<open>Workers that poll one partition: the owner, the clock's instant, the observed instant, the limit.\<close>

type_synonym lease_call = "token \<times> instant \<times> instant \<times> nat"

fun lease_all ::
    "'ev store_config \<Rightarrow> logical_identity \<Rightarrow> outbox_entry_kind \<Rightarrow> lease_call list \<Rightarrow> 'ev db
       \<Rightarrow> outbox_entry list list \<times> 'ev db" where
  "lease_all cfg i kind [] d = ([], d)"
| "lease_all cfg i kind ((owner, now, observed, n) # calls) d =
     (case lease_outbox cfg now i kind owner observed n d of
        (x, d1) \<Rightarrow> (case lease_all cfg i kind calls d1 of
          (ess, d2) \<Rightarrow> ((case x of Inl e \<Rightarrow> [] | Inr es \<Rightarrow> es) # ess, d2)))"

text \<open>The entries of \<open>ids\<close> are leased beyond the instant \<open>t\<close>.\<close>

definition held_until :: "digest set \<Rightarrow> instant \<Rightarrow> 'ev db \<Rightarrow> bool" where
  "held_until ids t d \<longleftrightarrow> (\<forall>r \<in> set (db_outbox d). ob_outbox_id r \<in> ids \<longrightarrow>
     oe_status (ob_json r) = Leased \<and> (\<exists>x. oe_lease_expires_at (ob_json r) = Some x \<and> t < x))"

lemma held_not_leasable:
  assumes "held_until ids observed d" and "r \<in> set (leased_rows i kind observed n d)"
  shows "ob_outbox_id r \<notin> ids"
  using leased_rows_mem [OF assms(2)] assms(1)
  by (fastforce simp: held_until_def leasable_def lease_expired_def)

lemma wf_store_row:
  assumes "wf_store d" and "r \<in> set (db_outbox d)"
  shows "outbox_row_ok r" and "oe_outbox_id (ob_json r) = ob_outbox_id r"
proof -
  show "outbox_row_ok r" using assms by (simp add: wf_store_def wf_ledgers_def wf_outbox_def)
  then show "oe_outbox_id (ob_json r) = ob_outbox_id r" by (simp add: outbox_row_ok_def Let_def)
qed

lemma wf_store_unique:
  assumes "wf_store d" and "r \<in> set (db_outbox d)" "q \<in> set (db_outbox d)" "ob_outbox_id r = ob_outbox_id q"
  shows "r = q"
  using assms by (auto simp: wf_store_def wf_ledgers_def wf_outbox_def unique_keys_def distinct_map inj_on_def)

lemma lease_update_holds:
  assumes wf: "wf_store d" and held: "held_until ids t d"
    and t: "t < add_utc observed (sc_lease_seconds cfg)"
    and rs: "set rs \<subseteq> set (db_outbox d)"
  shows "held_until (ids \<union> ob_outbox_id ` set rs) t (lease_update cfg owner observed rs d)"
  unfolding held_until_def
proof (intro ballI impI)
  fix r assume "r \<in> set (db_outbox (lease_update cfg owner observed rs d))"
    and id: "ob_outbox_id r \<in> ids \<union> ob_outbox_id ` set rs"
  then consider q where "q \<in> set rs" "r = lease_row cfg owner observed q"
    | "r \<in> set (db_outbox d)" "r \<notin> set rs" by (auto simp: lease_update_def split: if_splits)
  then show "oe_status (ob_json r) = Leased \<and> (\<exists>x. oe_lease_expires_at (ob_json r) = Some x \<and> t < x)"
  proof cases
    case 1
    with t show ?thesis by (simp add: lease_entry_def)
  next
    case 2
    then have "ob_outbox_id r \<notin> ob_outbox_id ` set rs" using wf_store_unique [OF wf 2(1)] rs by blast
    with id held 2(1) show ?thesis by (auto simp: held_until_def)
  qed
qed

lemma lease_all_disjoint:
  assumes "wf_store d" and "lease_all cfg i kind calls d = (ess, d')"
    and "\<forall>(_, _, observed, _) \<in> set calls. held_until ids observed d"
    and "\<forall>(_, _, s, _) \<in> set calls. \<forall>(_, _, t, _) \<in> set calls. t < add_utc s (sc_lease_seconds cfg)"
  shows "distinct (map oe_outbox_id (concat ess)) \<and> set (map oe_outbox_id (concat ess)) \<inter> ids = {}"
  using assms
proof (induction calls arbitrary: d ess ids)
  case Nil
  then show ?case by auto
next
  case (Cons c calls)
  obtain owner now observed n where c: "c = (owner, now, observed, n)" by (cases c)
  let ?d0 = "expire_retained_keysets now d" and ?rs = "leased_rows i kind observed n d"
  let ?d1 = "lease_update cfg owner observed ?rs ?d0"
  from Cons.prems(2) c obtain ess1 where rest: "lease_all cfg i kind calls ?d1 = (ess1, d')"
    and ess: "ess = map (\<lambda>r. lease_entry cfg owner observed (ob_json r)) ?rs # ess1"
    by (auto simp: lease_outbox_eq [OF Cons.prems(1)] split: prod.splits)
  let ?ids = "ids \<union> ob_outbox_id ` set ?rs"
  have wf0: "wf_store ?d0" using Cons.prems(1) by simp
  have sub: "set ?rs \<subseteq> set (db_outbox ?d0)" using leased_rows_mem by auto
  have "\<forall>(_, _, t, _) \<in> set calls. held_until ?ids t ?d1"
  proof (clarify)
    fix o' n' t m assume q: "(o', n', t, m) \<in> set calls"
    with Cons.prems(3) have "held_until ids t ?d0" by (fastforce simp: held_until_def)
    moreover from q Cons.prems(4) c have "t < add_utc observed (sc_lease_seconds cfg)" by fastforce
    ultimately show "held_until ?ids t ?d1" by (intro lease_update_holds [OF wf0]) (use sub in auto)
  qed
  with Cons.prems(4) have IH: "distinct (map oe_outbox_id (concat ess1))
      \<and> set (map oe_outbox_id (concat ess1)) \<inter> ?ids = {}"
    by (intro Cons.IH [OF wf_lease_update(1) [OF wf0] rest]) auto
  have ids: "map (\<lambda>r. oe_outbox_id (lease_entry cfg owner observed (ob_json r))) ?rs = map ob_outbox_id ?rs"
    using sub wf_store_row(2) [OF Cons.prems(1)] by (auto simp: lease_entry_def)
  have "inj_on ob_outbox_id (set ?rs)"
    by (rule inj_onI, rule wf_store_unique [OF Cons.prems(1)]) (auto dest: leased_rows_mem)
  then have "distinct (map ob_outbox_id ?rs)"
    using distinct_leased_rows [OF Cons.prems(1)] by (simp add: distinct_map)
  moreover have "ob_outbox_id ` set ?rs \<inter> ids = {}"
    using held_not_leasable Cons.prems(3) c by fastforce
  ultimately show ?case using IH by (auto simp: ess ids comp_def) blast+
qed

end
