(* ===== verification/Outbox_Props.thy ===== *)
theory Outbox_Props
  imports Outbox
begin

text \<open>
  What the recoverable outbox of \<open>ergasterion/ingestion/sqlite_store.py\<close> guarantees: which entries a
  lease takes and for whom, what completing and failing an entry does, and how a target's cursor
  follows the confirmations.
\<close>

section \<open>A stream with two undelivered projections\<close>

definition eg_facts :: "nat \<Rightarrow> projection_intent" where
  "eg_facts n = \<lparr>pi_logical_identity = eg_identity, pi_contract_digest = ''1.0.0'',
     pi_projection_target = ''t'', pi_projection_revision = n, pi_originating_state_revision = 0,
     pi_kind = Pk_heartbeat, pi_execution_plan_digest = ''plan'',
     pi_runtime_manifest_digest = ''manifest'', pi_payload = Heartbeat 0 0 None,
     pi_payload_digest = ''p'', pi_projection_intent_digest = ''i''\<rparr>"

definition eg_enqueue :: "digest \<Rightarrow> nat \<Rightarrow> unit outbox_enqueue" where
  "eg_enqueue k n = \<lparr>en_outbox_id = k, en_payload = Projection_payload (eg_facts n),
     en_payload_digest = ''pd'', en_next_not_before = 0\<rparr>"

definition eg_confirmation :: "nat \<Rightarrow> projection_confirmation" where
  "eg_confirmation n = \<lparr>pn_logical_identity = eg_identity, pn_contract_digest = ''1.0.0'',
     pn_projection_target = ''t'', pn_kind = Pk_heartbeat, pn_projection_intent_digest = ''i'',
     pn_projection_revision = n, pn_target_applied_at = 0, pn_committed_at = None,
     pn_release_applied_at = None, pn_timeliness = None, pn_processing = Po_none,
     pn_visibility = None, pn_ledger_ref = None, pn_deletion_evidence = None,
     pn_target_result_digest = ''r''\<rparr>"

definition eg_transaction ::
    "nat \<Rightarrow> unit outbox_enqueue list \<Rightarrow> outbox_completion list \<Rightarrow> projection_confirmation option
       \<Rightarrow> unit state_transaction" where
  "eg_transaction n items dones conf = \<lparr>tx_expected_state_revision = n,
     tx_next_state = (empty_state eg_identity)\<lparr>st_state_revision := n + 1\<rparr>,
     tx_attempt_updates = [], tx_deployment_update = None, tx_projection_confirmation = conf,
     tx_enqueue = items, tx_complete = dones\<rparr>"

definition eg_outbox :: "unit db" where
  "eg_outbox = snd (state_transaction eg_config 0
     (eg_transaction 0 [eg_enqueue ''o1'' 1, eg_enqueue ''o2'' 2] [] None) eg_db)"

definition eg_completion :: "digest \<Rightarrow> outbox_completion" where
  "eg_completion k = \<lparr>oc_outbox_id = k, oc_payload_digest = ''pd'', oc_lease_owner = ''w'',
     oc_completed_at = 0\<rparr>"

definition eg_failure :: "nat \<Rightarrow> digest \<Rightarrow> failure_transaction" where
  "eg_failure n k = \<lparr>ft_expected_state_revision = n,
     ft_next_state = (empty_state eg_identity)\<lparr>st_state_revision := n + 1\<rparr>,
     ft_attempt_updates = [], ft_outbox_id = k, ft_payload_digest = ''pd'', ft_lease_owner = ''w'',
     ft_failure_observed_at = 0, ft_reason_code = Transient_io, ft_disposition = Fd_retryable,
     ft_next_not_before = None\<rparr>"

lemma eg_db_wf_store: "wf_store eg_db"
  by code_simp

lemma eg_outbox_wf: "wf_store eg_outbox"
  by code_simp

lemma wf_ledgers_outbox: "wf_ledgers d \<Longrightarrow> wf_outbox (db_outbox d) (db_outbox_payloads d)"
  by (simp add: wf_ledgers_def)

lemma wf_store_lookup:
  assumes "wf_store d" and "lookup_row ob_outbox_id k (db_outbox d) = Some r"
  shows "outbox_row_ok r"
  using assms(1) wf_outbox_entry(1) [OF _ assms(2)] by (auto simp: wf_store_def wf_ledgers_def)

section \<open>Leases\<close>

text \<open>A lease takes, in partition order, the first entries of the partition that are pending, due for
  a retry or abandoned by an owner whose lease ran out; at most \<open>max_items\<close> of them, and one at most
  for projections. It answers those entries under the new owner with the new expiry, and writes
  exactly their rows.\<close>

theorem lease_outbox_correct:
  assumes "wf_store d"
  shows "lease_outbox cfg now i kind owner observed n d =
    (let taken = take (if kind = Ok_projection then min n 1 else n)
                   (filter (\<lambda>r. leasable observed (ob_json r)) (outbox_partition i kind (db_outbox d)))
     in (Inr (map (\<lambda>r. lease_entry cfg owner observed (ob_json r)) taken),
         (expire_retained_keysets now d)\<lparr>db_outbox :=
            map (\<lambda>r. if r \<in> set taken then lease_row cfg owner observed r else r) (db_outbox d)\<rparr>))"
  using lease_outbox_eq [OF assms, of cfg now i kind owner observed n]
  by (simp add: leased_rows_def lease_rows_def lease_limit_def lease_update_def Let_def)

theorem lease_outbox_correct_witness:
  "map_sum id (map oe_outbox_id)
     (fst (lease_outbox eg_config 0 eg_identity Ok_projection ''w'' 0 5 eg_outbox)) = Inr [''o1'']"
  unfolding lease_outbox_correct [OF eg_outbox_wf] by code_simp

text \<open>C32: However many workers poll a partition, as long as no lease among them has run out when a later
  one polls, no entry is handed to two of them.\<close>

theorem leases_are_exclusive:
  assumes "wf_store d" and "lease_all cfg i kind calls d = (ess, d')"
    and "\<forall>(_, _, s, _) \<in> set calls. \<forall>(_, _, t, _) \<in> set calls. t < add_utc s (sc_lease_seconds cfg)"
  shows "distinct (map oe_outbox_id (concat ess))"
  using lease_all_disjoint [OF assms(1,2) _ assms(3), of "{}"] by (simp add: held_until_def)

theorem leases_are_exclusive_witness:
  "distinct (map oe_outbox_id (concat (fst (lease_all eg_config eg_identity Ok_projection
     [(''w'', 0, 0, 1), (''v'', 0, 10, 1), (''u'', 0, 20, 1)] eg_outbox))))
   \<and> map length (fst (lease_all eg_config eg_identity Ok_projection
     [(''w'', 0, 0, 1), (''v'', 0, 10, 1), (''u'', 0, 20, 1)] eg_outbox)) = [1, 1, 0]"
proof -
  let ?calls = "[(''w'', 0, 0, 1), (''v'', 0, 10, 1), (''u'', 0, 20, 1)] :: lease_call list"
  have win: "\<forall>(_, _, s, _) \<in> set ?calls. \<forall>(_, _, t, _) \<in> set ?calls.
      t < add_utc s (sc_lease_seconds eg_config)" by (simp add: add_utc_def eg_config_def)
  have "distinct (map oe_outbox_id (concat (fst (lease_all eg_config eg_identity Ok_projection ?calls eg_outbox))))"
    by (rule leases_are_exclusive [OF eg_outbox_wf prod.collapse [symmetric] win])
  moreover have "map length (fst (lease_all eg_config eg_identity Ok_projection ?calls eg_outbox)) = [1, 1, 0]"
    by code_simp
  ultimately show ?thesis by blast
qed

text \<open>The lease of a projection does not wait for the lower revisions of its partition: while the
  first revision is still leased to another worker, the next revision is handed out.\<close>

theorem projection_lease_skips_incomplete:
  "\<exists>es1 d1 es2 d2. lease_outbox eg_config 0 eg_identity Ok_projection ''w'' 0 5 eg_outbox = (Inr es1, d1)
     \<and> lease_outbox eg_config 0 eg_identity Ok_projection ''v'' 1 5 d1 = (Inr es2, d2)
     \<and> map oe_outbox_id es1 = [''o1''] \<and> map oe_outbox_id es2 = [''o2'']
     \<and> map (\<lambda>r. (ob_outbox_id r, ob_projection_revision r, ob_status r, ob_lease_owner r)) (db_outbox d2)
         = [(''o1'', Some 1, Leased, Some ''w''), (''o2'', Some 2, Leased, Some ''v'')]"
proof -
  let ?p = "lease_outbox eg_config 0 eg_identity Ok_projection ''w'' 0 5 eg_outbox"
  let ?q = "lease_outbox eg_config 0 eg_identity Ok_projection ''v'' 1 5 (snd ?p)"
  have "map_sum id (map oe_outbox_id) (fst ?p) = Inr [''o1'']" by code_simp
  moreover have "map_sum id (map oe_outbox_id) (fst ?q) = Inr [''o2'']" by code_simp
  moreover have "map (\<lambda>r. (ob_outbox_id r, ob_projection_revision r, ob_status r, ob_lease_owner r))
      (db_outbox (snd ?q)) = [(''o1'', Some 1, Leased, Some ''w''), (''o2'', Some 2, Leased, Some ''v'')]"
    by code_simp
  ultimately show ?thesis
    by (cases ?p; cases ?q; cases "fst ?p"; cases "fst ?q") auto
qed

section \<open>Completing and failing\<close>

lemma complete_entry_row:
  assumes "complete_entry done d = Inr d'"
  shows "\<exists>r. lookup_row ob_outbox_id (oc_outbox_id done) (db_outbox d) = Some r
    \<and> ob_payload_digest r = oc_payload_digest done
    \<and> (oe_status (ob_json r) = Leased \<longrightarrow> oe_lease_owner (ob_json r) = Some (oc_lease_owner done))
    \<and> (if oe_status (ob_json r) = Complete then d' = d
       else d' = d\<lparr>db_outbox := update_row ob_outbox_id (oc_outbox_id done)
           (\<lambda>x. x\<lparr>ob_status := Complete, ob_lease_owner := None, ob_lease_expires_at := None,
                   ob_json := (ob_json r)\<lparr>oe_status := Complete,
                     oe_completed_at := Some (oc_completed_at done), oe_lease_owner := None,
                     oe_lease_expires_at := None\<rparr>\<rparr>) (db_outbox d)\<rparr>)"
  using assms by (auto simp: complete_entry_def Let_def split: option.splits if_splits)

text \<open>A completion needs the entry and its payload digest, and, while the entry is leased, the lease
  itself. It leaves the entry complete and unleased, touches no other entry, and answers a later
  completion of the same entry, whoever sends it, without a write.\<close>

theorem complete_entry_correct:
  assumes ok: "complete_entry done d = Inr d'" and wf: "wf_store d"
  shows "\<exists>r r'. lookup_row ob_outbox_id (oc_outbox_id done) (db_outbox d) = Some r
    \<and> ob_payload_digest r = oc_payload_digest done
    \<and> (oe_status (ob_json r) = Leased \<longrightarrow> oe_lease_owner (ob_json r) = Some (oc_lease_owner done))
    \<and> lookup_row ob_outbox_id (oc_outbox_id done) (db_outbox d') = Some r'
    \<and> ob_status r' = Complete \<and> oe_status (ob_json r') = Complete \<and> ob_lease_owner r' = None
    \<and> (\<forall>k. k \<noteq> oc_outbox_id done \<longrightarrow>
         lookup_row ob_outbox_id k (db_outbox d') = lookup_row ob_outbox_id k (db_outbox d))
    \<and> (\<forall>again. oc_outbox_id again = oc_outbox_id done \<longrightarrow>
         oc_payload_digest again = oc_payload_digest done \<longrightarrow> complete_entry again d' = Inr d')"
proof -
  from complete_entry_row [OF ok] obtain r where
    r: "lookup_row ob_outbox_id (oc_outbox_id done) (db_outbox d) = Some r"
    and R: "ob_payload_digest r = oc_payload_digest done"
      "oe_status (ob_json r) = Leased \<longrightarrow> oe_lease_owner (ob_json r) = Some (oc_lease_owner done)"
    and d': "if oe_status (ob_json r) = Complete then d' = d
       else d' = d\<lparr>db_outbox := update_row ob_outbox_id (oc_outbox_id done)
           (\<lambda>x. x\<lparr>ob_status := Complete, ob_lease_owner := None, ob_lease_expires_at := None,
                   ob_json := (ob_json r)\<lparr>oe_status := Complete,
                     oe_completed_at := Some (oc_completed_at done), oe_lease_owner := None,
                     oe_lease_expires_at := None\<rparr>\<rparr>) (db_outbox d)\<rparr>" by blast
  have rok: "outbox_row_ok r"
    by (rule wf_store_lookup [OF wf r])
  obtain r' where r': "lookup_row ob_outbox_id (oc_outbox_id done) (db_outbox d') = Some r'"
      "ob_status r' = Complete" "oe_status (ob_json r') = Complete" "ob_lease_owner r' = None"
      "ob_payload_digest r' = ob_payload_digest r"
    using d' r rok
    by (cases "oe_status (ob_json r) = Complete")
       (auto simp: lookup_row_update outbox_row_ok_def Let_def)
  moreover have "lookup_row ob_outbox_id k (db_outbox d') = lookup_row ob_outbox_id k (db_outbox d)"
    if "k \<noteq> oc_outbox_id done" for k
    using d' that by (auto simp: lookup_row_update split: if_splits)
  moreover have "complete_entry again d' = Inr d'"
    if "oc_outbox_id again = oc_outbox_id done" "oc_payload_digest again = oc_payload_digest done" for again
    using that r' R by (simp add: complete_entry_def Let_def)
  ultimately show ?thesis using r R by blast
qed

theorem complete_entry_correct_witness:
  "\<exists>d' r'. complete_entry (eg_completion ''o1'') eg_outbox = Inr d'
     \<and> lookup_row ob_outbox_id ''o1'' (db_outbox d') = Some r' \<and> ob_status r' = Complete
     \<and> complete_entry (eg_completion ''o1'') d' = Inr d'"
proof -
  have "\<not> isl (complete_entry (eg_completion ''o1'') eg_outbox)" by code_simp
  then obtain d' where ok: "complete_entry (eg_completion ''o1'') eg_outbox = Inr d'"
    by (cases "complete_entry (eg_completion ''o1'') eg_outbox") auto
  have id: "oc_outbox_id (eg_completion ''o1'') = ''o1''" by (simp add: eg_completion_def)
  from complete_entry_correct [OF ok eg_outbox_wf, unfolded id] obtain r' where
    "lookup_row ob_outbox_id ''o1'' (db_outbox d') = Some r'" "ob_status r' = Complete"
    and "complete_entry (eg_completion ''o1'') d' = Inr d'" using id by metis
  with ok show ?thesis by blast
qed

text \<open>A reported failure needs the entry, its payload digest and the revision the caller read, and
  never overrides a lease another worker still holds. It records the reason, counts the dispatch,
  drops the lease and makes the entry retryable or a dead letter; no other entry changes and the
  stream takes the caller's next state.\<close>

theorem fail_outbox_correct:
  assumes ok: "fail_outbox cfg now t d = (Inr s, d')" and wf: "wf_store d"
  shows "\<exists>r r'. lookup_row ob_outbox_id (ft_outbox_id t) (db_outbox d) = Some r
    \<and> ob_payload_digest r = ft_payload_digest t
    \<and> \<not> (ob_status r = Leased \<and> ob_lease_owner r \<noteq> Some (ft_lease_owner t)
         \<and> (\<forall>x. ob_lease_expires_at r = Some x \<longrightarrow> ft_failure_observed_at t < x))
    \<and> stream_rev (st_logical_identity (ft_next_state t)) d = Some (ft_expected_state_revision t)
    \<and> s = ft_next_state t
    \<and> lookup_row ob_outbox_id (ft_outbox_id t) (db_outbox d') = Some r'
    \<and> ob_status r' = (if ft_disposition t = Fd_dead_letter then Dead_letter else Retryable)
    \<and> ob_lease_owner r' = None \<and> ob_lease_expires_at r' = None
    \<and> ob_dispatch_ordinal r' = ob_dispatch_ordinal r + 1
    \<and> oe_reason_code (ob_json r') = Some (ft_reason_code t)
    \<and> ob_next_not_before r' =
         (case ft_next_not_before t of None \<Rightarrow> ob_next_not_before r | Some n \<Rightarrow> n)
    \<and> (\<forall>k. k \<noteq> ft_outbox_id t \<longrightarrow>
         lookup_row ob_outbox_id k (db_outbox d') = lookup_row ob_outbox_id k (db_outbox d))"
proof -
  from ok have body: "fail_outbox_body cfg t (expire_retained_keysets now d) = Inr (s, d')"
    by (simp add: fail_outbox_def in_tx_Inr)
  have wf0: "wf_store (expire_retained_keysets now d)" using wf by simp
  from body wf0 obtain srow d1 r where
    r: "lookup_row ob_outbox_id (ft_outbox_id t) (db_outbox d) = Some r"
    and R: "ob_payload_digest r = ft_payload_digest t"
      "\<not> (oe_status (ob_json r) = Leased \<and> oe_lease_owner (ob_json r) \<notin> {None, Some (ft_lease_owner t)}
        \<and> (case oe_lease_expires_at (ob_json r) of None \<Rightarrow> True | Some x \<Rightarrow> x > ft_failure_observed_at t))"
      "s = ft_next_state t"
    and d': "d' = save_state s (\<lambda>r. r) (d1\<lparr>db_outbox := update_row ob_outbox_id (ft_outbox_id t)
       (store_entry (fail_entry t (ob_json r))) (db_outbox d)\<rparr>)"
    by (rule fail_outbox_body_Inr) (rule that; simp)
  have rok: "outbox_row_ok r"
    by (rule wf_store_lookup [OF wf r])
  have free: "\<not> (ob_status r = Leased \<and> ob_lease_owner r \<noteq> Some (ft_lease_owner t)
         \<and> (\<forall>x. ob_lease_expires_at r = Some x \<longrightarrow> ft_failure_observed_at t < x))"
    using R(2) rok by (auto simp: outbox_row_ok_def Let_def split: option.splits)
  have rev: "stream_rev (st_logical_identity (ft_next_state t)) d = Some (ft_expected_state_revision t)"
    using fail_outbox_body_effect(4) [OF body wf0] by simp
  have key: "ob_outbox_id (store_entry e q) = ob_outbox_id q" for e q by (simp add: store_entry_def)
  let ?r = "store_entry (fail_entry t (ob_json r)) r"
  have "lookup_row ob_outbox_id (ft_outbox_id t) (db_outbox d') = Some ?r"
    using r by (simp add: d' lookup_row_update key)
  moreover have "lookup_row ob_outbox_id k (db_outbox d') = lookup_row ob_outbox_id k (db_outbox d)"
    if "k \<noteq> ft_outbox_id t" for k
    using that by (simp add: d' lookup_row_update key)
  moreover have "ob_status ?r = (if ft_disposition t = Fd_dead_letter then Dead_letter else Retryable)"
    "ob_lease_owner ?r = None" "ob_lease_expires_at ?r = None"
    "ob_dispatch_ordinal ?r = ob_dispatch_ordinal r + 1"
    "oe_reason_code (ob_json ?r) = Some (ft_reason_code t)"
    "ob_next_not_before ?r = (case ft_next_not_before t of None \<Rightarrow> ob_next_not_before r | Some n \<Rightarrow> n)"
    using rok by (simp_all add: store_entry_def fail_entry_def outbox_row_ok_def Let_def split: option.splits)
  ultimately show ?thesis using r R(1,3) free rev by blast
qed

theorem fail_outbox_correct_witness:
  "\<exists>s d' r'. fail_outbox eg_config 0 (eg_failure 1 ''o1'') eg_outbox = (Inr s, d')
     \<and> lookup_row ob_outbox_id ''o1'' (db_outbox d') = Some r' \<and> ob_status r' = Retryable
     \<and> oe_reason_code (ob_json r') = Some Transient_io"
proof -
  have "\<not> isl (fst (fail_outbox eg_config 0 (eg_failure 1 ''o1'') eg_outbox))" by code_simp
  then obtain s d' where ok: "fail_outbox eg_config 0 (eg_failure 1 ''o1'') eg_outbox = (Inr s, d')"
    using run_succeeds by blast
  have "ft_outbox_id (eg_failure 1 ''o1'') = ''o1''" "ft_disposition (eg_failure 1 ''o1'') = Fd_retryable"
    "ft_reason_code (eg_failure 1 ''o1'') = Transient_io" by (simp_all add: eg_failure_def)
  with ok show ?thesis using fail_outbox_correct [OF ok eg_outbox_wf] by auto
qed

text \<open>Completion is not final: a failure reported for an entry that is already complete puts it back
  to retryable, and the next poll hands it out again, with its completion instant still recorded.\<close>

theorem completed_entry_is_dispatched_again:
  "\<exists>s1 d1 s2 d2 es d3.
     state_transaction eg_config 0 (eg_transaction 1 [] [eg_completion ''o1''] (Some (eg_confirmation 1))) eg_outbox
       = (Inr s1, d1)
     \<and> map_option ob_status (lookup_row ob_outbox_id ''o1'' (db_outbox d1)) = Some Complete
     \<and> fail_outbox eg_config 0 (eg_failure 2 ''o1'') d1 = (Inr s2, d2)
     \<and> lease_outbox eg_config 0 eg_identity Ok_projection ''w'' 0 1 d2 = (Inr es, d3)
     \<and> map oe_outbox_id es = [''o1''] \<and> map oe_completed_at es = [Some 0]"
proof -
  let ?p = "state_transaction eg_config 0
    (eg_transaction 1 [] [eg_completion ''o1''] (Some (eg_confirmation 1))) eg_outbox"
  let ?q = "fail_outbox eg_config 0 (eg_failure 2 ''o1'') (snd ?p)"
  let ?l = "lease_outbox eg_config 0 eg_identity Ok_projection ''w'' 0 1 (snd ?q)"
  have "\<not> isl (fst ?p)" by code_simp
  moreover have "map_option ob_status (lookup_row ob_outbox_id ''o1'' (db_outbox (snd ?p))) = Some Complete"
    by code_simp
  moreover have "\<not> isl (fst ?q)" by code_simp
  moreover have "map_sum id (map (\<lambda>e. (oe_outbox_id e, oe_completed_at e))) (fst ?l) = Inr [(''o1'', Some 0)]"
    by code_simp
  ultimately show ?thesis
    by (cases ?p; cases ?q; cases ?l; cases "fst ?p"; cases "fst ?q"; cases "fst ?l") auto
qed

end
