(* ===== verification/Sealed_Log.thy ===== *)
theory Sealed_Log
  imports Prelude
begin

text \<open>
  The contract of a log that is filled page by page and then sealed: an append extends the log it
  names and only while it is open, a seal changes no content, and nothing reopens a log. The keysets
  of the delivery state store are such logs.
\<close>

text \<open>Appends and seals in any order.\<close>

definition log_step :: "('p \<Rightarrow> 'd \<Rightarrow> 'd result) \<Rightarrow> ('c \<Rightarrow> 'd \<Rightarrow> 'd result) \<Rightarrow> 'p + 'c \<Rightarrow> 'd \<Rightarrow> 'd result" where
  "log_step add close x d = (case x of Inl p \<Rightarrow> add p d | Inr c \<Rightarrow> close c d)"

locale sealed_log =
  fixes content :: "'k \<Rightarrow> 'd \<Rightarrow> 't list"
    and sealed :: "'k \<Rightarrow> 'd \<Rightarrow> bool"
    and append :: "'p \<Rightarrow> 'd \<Rightarrow> 'd result"
    and target :: "'p \<Rightarrow> 'k"
    and page :: "'p \<Rightarrow> 't list"
    and seal :: "'c \<Rightarrow> 'd \<Rightarrow> 'd result"
    and subject :: "'c \<Rightarrow> 'k"
    and inv :: "'d \<Rightarrow> bool"
  assumes append_Inr: "inv d \<Longrightarrow> append p d = Inr d' \<Longrightarrow>
      inv d' \<and> \<not> sealed (target p) d \<and> sealed k d' = sealed k d
      \<and> content k d' = (if k = target p then content k d @ page p else content k d)"
    and seal_Inr: "inv d \<Longrightarrow> seal c d = Inr d' \<Longrightarrow>
      inv d' \<and> content k d' = content k d \<and> sealed k d' = (sealed k d \<or> k = subject c)"
begin

lemma appends_content:
  assumes "inv d" and "fold_result append ps d = Inr d'"
  shows "inv d' \<and> sealed k d' = sealed k d
    \<and> content k d' = content k d @ concat (map page (filter (\<lambda>p. target p = k) ps))"
  using assms
proof (induction ps arbitrary: d)
  case Nil
  then show ?case by simp
next
  case (Cons p ps)
  then obtain d1 where d1: "append p d = Inr d1" and rest: "fold_result append ps d1 = Inr d'" by auto
  from append_Inr [OF Cons.prems(1) d1] have inv1: "inv d1" by simp
  from Cons.IH [OF inv1 rest] append_Inr [OF Cons.prems(1) d1, of k] show ?case by auto
qed

lemma frozen:
  assumes "inv d" and "fold_result (log_step append seal) xs d = Inr d'" and "sealed k d"
  shows "inv d' \<and> sealed k d' \<and> content k d' = content k d"
  using assms
proof (induction xs arbitrary: d)
  case Nil
  then show ?case by simp
next
  case (Cons x xs)
  then obtain d1 where d1: "log_step append seal x d = Inr d1" and rest: "fold_result (log_step append seal) xs d1 = Inr d'" by auto
  have "inv d1 \<and> sealed k d1 \<and> content k d1 = content k d"
  proof (cases x)
    case (Inl p)
    with d1 have "append p d = Inr d1" by (simp add: log_step_def)
    from append_Inr [OF Cons.prems(1) this] Cons.prems(3) show ?thesis by auto
  next
    case (Inr c)
    with d1 have "seal c d = Inr d1" by (simp add: log_step_def)
    from seal_Inr [OF Cons.prems(1) this] Cons.prems(3) show ?thesis by auto
  qed
  with Cons.IH [OF _ rest] show ?case by auto
qed

lemma pages_then_seal:
  assumes "inv d" and "fold_result append ps d = Inr d1" and "seal c d1 = Inr d2"
    and "fold_result (log_step append seal) xs d2 = Inr d3"
  shows "content (subject c) d3 =
      content (subject c) d @ concat (map page (filter (\<lambda>p. target p = subject c) ps))"
proof -
  note A = appends_content [OF assms(1,2), of "subject c"]
  then have inv1: "inv d1" by simp
  note S = seal_Inr [OF inv1 assms(3), of "subject c"]
  then have inv2: "inv d2" and sealed2: "sealed (subject c) d2" by simp_all
  from frozen [OF inv2 assms(4) sealed2] S A show ?thesis by simp
qed

end

end
