(* ===== verification/Keysets.thy ===== *)
theory Keysets
  imports Outbox Sealed_Log
begin

text \<open>
  The snapshot and tombstone keysets of \<open>ergasterion/ingestion/sqlite_store.py\<close>: opening a keyset,
  appending pages of tags, completing it against its digest, reconciling two snapshots into
  deletion evidence, and finalizing tombstone evidence. Retention is the expiry that opens every
  transaction of \<open>State_Store\<close>.
\<close>

section \<open>Tags\<close>

definition tag_key :: "'t tag_row \<Rightarrow> digest \<times> nat" where
  "tag_key r = (tx_keyset_id r, tx_seq r)"

text \<open>\<open>SELECT ... WHERE keyset_id = ? ORDER BY seq\<close>, and \<open>SELECT COUNT(*)\<close>.\<close>

definition tags_of :: "digest \<Rightarrow> 't tag_row list \<Rightarrow> 't list" where
  "tags_of k rows = map tx_tag (sort_key tx_seq (filter (\<lambda>r. tx_keyset_id r = k) rows))"

definition tag_count :: "digest \<Rightarrow> 't tag_row list \<Rightarrow> nat" where
  "tag_count k rows = length (filter (\<lambda>r. tx_keyset_id r = k) rows)"

text \<open>The insertions of one page: the sequence numbers go on from \<open>n\<close>.\<close>

fun insert_tags :: "digest \<Rightarrow> nat \<Rightarrow> 't list \<Rightarrow> 't tag_row list \<Rightarrow> 't tag_row list result" where
  "insert_tags k n [] rows = Inr rows"
| "insert_tags k n (t # ts) rows =
     bind (insert_row tag_key \<lparr>tx_keyset_id = k, tx_seq = n, tx_tag = t\<rparr> rows) (insert_tags k (n + 1) ts)"

definition load_keyset :: "digest \<Rightarrow> 'k keyset_row list \<Rightarrow> 'k keyset_row result" where
  "load_keyset k rows = (case lookup_row kx_keyset_id k rows of None \<Rightarrow> raise Not_found | Some r \<Rightarrow> Inr r)"

definition new_keyset_row ::
    "digest \<Rightarrow> logical_identity \<Rightarrow> visibility \<Rightarrow> token \<Rightarrow> digest \<Rightarrow> 'k \<Rightarrow> 'k keyset_row" where
  "new_keyset_row k i v key com json = \<lparr>kx_keyset_id = k, kx_identity = i, kx_visibility = v,
     kx_hmac_key_id = key, kx_key_commitment = com, kx_complete = False,
     kx_successor_complete = False, kx_retained_until = None, kx_json = json\<rparr>"

section \<open>Snapshot keysets\<close>

definition begin_snapshot_body ::
    "'ev store_config \<Rightarrow> keyset_request \<Rightarrow> 'ev db \<Rightarrow> (snapshot_keyset \<times> 'ev db) result" where
  "begin_snapshot_body cfg req d =
     (let k = sc_keyset_id cfg (kr_logical_identity req) (kr_visibility req) ''snapshot'' in
      case lookup_row kx_keyset_id k (db_snapshot_keysets d) of
        Some r \<Rightarrow>
          if kx_key_commitment r \<noteq> kr_key_commitment req \<or> kx_hmac_key_id r \<noteq> kr_hmac_key_id req
          then raise Key_commitment_conflict else Inr (kx_json r, d)
      | None \<Rightarrow>
          (let keyset = \<lparr>ks_keyset_id = k, ks_logical_identity = kr_logical_identity req,
             ks_visibility = kr_visibility req, ks_record_key_scope = kr_record_key_scope req,
             ks_hmac_key_id = kr_hmac_key_id req, ks_key_commitment = kr_key_commitment req,
             ks_keyset_ref = k, ks_keyset_digest = None, ks_key_count = 0, ks_complete = False\<rparr>
           in bind (insert_row kx_keyset_id
                     (new_keyset_row k (kr_logical_identity req) (kr_visibility req)
                        (kr_hmac_key_id req) (kr_key_commitment req) keyset) (db_snapshot_keysets d))
                (\<lambda>rows. Inr (keyset, d\<lparr>db_snapshot_keysets := rows\<rparr>))))"

definition begin_snapshot_keyset ::
    "'ev store_config \<Rightarrow> instant \<Rightarrow> keyset_request \<Rightarrow> 'ev db \<Rightarrow> snapshot_keyset result \<times> 'ev db" where
  "begin_snapshot_keyset cfg now req = in_tx now (begin_snapshot_body cfg req)"

definition append_snapshot_body :: "key_tag_page \<Rightarrow> 'ev db \<Rightarrow> (snapshot_keyset \<times> 'ev db) result" where
  "append_snapshot_body page d =
     (let k = kp_keyset_id page in
      bind (load_keyset k (db_snapshot_keysets d)) (\<lambda>r.
      bind (guard (\<not> kx_complete r) Integrity_error) (\<lambda>_.
      let count = tag_count k (db_snapshot_tags d) in
      bind (guard (kp_first_frame_sequence page = count) Sequence_conflict) (\<lambda>_.
      bind (insert_tags k count (kp_tags page) (db_snapshot_tags d)) (\<lambda>tags.
      let keyset = (kx_json r)\<lparr>ks_key_count := count + length (kp_tags page)\<rparr>
      in Inr (keyset, d\<lparr>db_snapshot_tags := tags,
           db_snapshot_keysets := update_row kx_keyset_id k (\<lambda>r. r\<lparr>kx_json := keyset\<rparr>)
             (db_snapshot_keysets d)\<rparr>))))))"

definition append_snapshot_keyset ::
    "instant \<Rightarrow> digest \<Rightarrow> key_tag_page \<Rightarrow> 'ev db \<Rightarrow> snapshot_keyset result \<times> 'ev db" where
  "append_snapshot_keyset now attempt_id page = in_tx now (append_snapshot_body page)"

definition complete_snapshot_body ::
    "'ev store_config \<Rightarrow> keyset_completion \<Rightarrow> 'ev db \<Rightarrow> (snapshot_keyset \<times> 'ev db) result" where
  "complete_snapshot_body cfg c d =
     (let k = kc_keyset_id c in
      bind (load_keyset k (db_snapshot_keysets d)) (\<lambda>r.
      let tags = tags_of k (db_snapshot_tags d) in
      bind (guard (length tags = kc_expected_key_count c) Integrity_error) (\<lambda>_.
      let keyset = kx_json r;
          dg = sc_snapshot_digest cfg (ks_logical_identity keyset) (ks_visibility keyset)
                 (ks_record_key_scope keyset) (ks_hmac_key_id keyset) (ks_key_commitment keyset) tags
      in bind (guard (dg = kc_expected_keyset_digest c) Integrity_error) (\<lambda>_.
      let keyset' = keyset\<lparr>ks_complete := True, ks_keyset_digest := Some dg\<rparr>
      in Inr (keyset', d\<lparr>db_snapshot_keysets :=
           update_row kx_keyset_id k (\<lambda>r. r\<lparr>kx_complete := True, kx_json := keyset'\<rparr>)
             (db_snapshot_keysets d)\<rparr>)))))"

definition complete_snapshot_keyset ::
    "'ev store_config \<Rightarrow> instant \<Rightarrow> keyset_completion \<Rightarrow> 'ev db \<Rightarrow> snapshot_keyset result \<times> 'ev db" where
  "complete_snapshot_keyset cfg now c = in_tx now (complete_snapshot_body cfg c)"

text \<open>The first row of \<open>ORDER BY complete DESC, keyset_id\<close>.\<close>

definition get_snapshot_keyset ::
    "instant \<Rightarrow> logical_identity \<Rightarrow> visibility \<Rightarrow> 'ev db \<Rightarrow> snapshot_keyset result \<times> 'ev db" where
  "get_snapshot_keyset now i v = in_tx now (\<lambda>d.
     case sort_key (\<lambda>r. (\<not> kx_complete r, kx_keyset_id r))
            (filter (\<lambda>r. kx_identity r = i \<and> kx_visibility r = v) (db_snapshot_keysets d)) of
       [] \<Rightarrow> raise Not_found
     | r # _ \<Rightarrow> Inr (kx_json r, d))"

section \<open>Reconciling two snapshots\<close>

definition delivery_visibility_of :: "visibility \<Rightarrow> delivery_visibility" where
  "delivery_visibility_of v =
     (case v of Delivery_vis dv \<Rightarrow> dv | _ \<Rightarrow> \<lparr>dv_epoch = vis_epoch v, dv_id = vis_id v\<rparr>)"

definition sealed_intent ::
    "'ev store_config \<Rightarrow> deletion_evidence_intent \<Rightarrow> deletion_evidence_intent" where
  "sealed_intent cfg body = body\<lparr>de_intent_digest := sc_deletion_intent_digest cfg body\<rparr>"

definition prior_tags_of ::
    "snapshot_keyset \<Rightarrow> snapshot_keyset option \<Rightarrow> 'ev db \<Rightarrow> digest list result" where
  "prior_tags_of candidate prior d =
     (case prior of
        None \<Rightarrow> Inr []
      | Some p \<Rightarrow>
          if ks_hmac_key_id p \<noteq> ks_hmac_key_id candidate
             \<or> ks_key_commitment p \<noteq> ks_key_commitment candidate
          then raise Key_commitment_conflict
          else bind (load_keyset (ks_keyset_id p) (db_snapshot_keysets d))
                 (\<lambda>_. Inr (tags_of (ks_keyset_id p) (db_snapshot_tags d))))"

definition snapshot_deletion_intent ::
    "'ev store_config \<Rightarrow> reconciliation_request \<Rightarrow> digest list \<Rightarrow> digest \<Rightarrow> deletion_evidence_intent" where
  "snapshot_deletion_intent cfg req deleted rdigest =
     (let c = rq_candidate_keyset req in sealed_intent cfg
       \<lparr>de_logical_identity = ks_logical_identity c, de_visibility = ks_visibility c,
        de_delete_strategy = Snapshot_diff, de_claim_digest = rq_claim_digest req,
        de_attempt_id = rq_attempt_id req, de_event_sequence_low = None,
        de_event_sequence_high = None, de_record_key_scope = ks_record_key_scope c,
        de_hmac_key_id = ks_hmac_key_id c, de_key_commitment = ks_key_commitment c,
        de_deleted_keyset_ref = sc_deleted_ref cfg deleted (rq_attempt_id req),
        de_deleted_keyset_digest = sc_snapshot_digest cfg (ks_logical_identity c) (ks_visibility c)
          (ks_record_key_scope c) (ks_hmac_key_id c) (ks_key_commitment c) deleted,
        de_deleted_key_count = length deleted, de_reconciliation_digest = Some rdigest,
        de_intent_digest = []\<rparr>)"

definition reconcile_snapshot_body ::
    "'ev store_config \<Rightarrow> instant \<Rightarrow> reconciliation_request \<Rightarrow> 'ev db
       \<Rightarrow> ((snapshot_reconciliation \<times> deletion_evidence_intent) \<times> 'ev db) result" where
  "reconcile_snapshot_body cfg clock req d =
     (let c = rq_candidate_keyset req in
      case lookup_row rx_attempt_id (rq_attempt_id req) (db_reconciliations d) of
        Some r \<Rightarrow>
          (let stored = rx_json r in
           if sr_candidate_keyset_ref stored \<noteq> ks_keyset_ref c then raise Concurrency_conflict
           else case sr_deletion_evidence stored of
             None \<Rightarrow> raise Integrity_error
           | Some intent \<Rightarrow> Inr ((stored, intent), d))
      | None \<Rightarrow>
          bind (load_keyset (ks_keyset_id c) (db_snapshot_keysets d)) (\<lambda>_.
          bind (prior_tags_of c (rq_prior_keyset req) d) (\<lambda>prior_tags.
          let candidate_tags = tags_of (ks_keyset_id c) (db_snapshot_tags d);
              deleted = sorted_set (filter (\<lambda>t. t \<notin> set candidate_tags) prior_tags);
              rdigest = sc_reconciliation_digest cfg (ks_keyset_id c)
                          (map_option ks_keyset_id (rq_prior_keyset req)) deleted;
              intent = snapshot_deletion_intent cfg req deleted rdigest;
              rec = \<lparr>sr_logical_identity = ks_logical_identity c, sr_attempt_id = rq_attempt_id req,
                sr_candidate_visibility = delivery_visibility_of (ks_visibility c),
                sr_prior_visibility = map_option ks_visibility (rq_prior_keyset req),
                sr_prior_keyset_ref = map_option ks_keyset_ref (rq_prior_keyset req),
                sr_candidate_keyset_ref = ks_keyset_ref c, sr_status = Rs_complete,
                sr_attempt_count = 1, sr_next_attempt_at = None, sr_lease_owner = None,
                sr_lease_expires_at = None, sr_reason_code = None,
                sr_deletion_evidence = Some intent, sr_reconciliation_digest = rdigest\<rparr>
          in bind (insert_row rx_attempt_id
                    \<lparr>rx_attempt_id = rq_attempt_id req, rx_identity = ks_logical_identity c,
                     rx_status = Rs_complete, rx_json = rec\<rparr> (db_reconciliations d)) (\<lambda>recs.
             let d1 = d\<lparr>db_reconciliations := recs\<rparr>
             in Inr ((rec, intent),
                  (case rq_prior_keyset req of
                     None \<Rightarrow> d1
                   | Some p \<Rightarrow> d1\<lparr>db_snapshot_keysets :=
                       update_row kx_keyset_id (ks_keyset_id p)
                         (\<lambda>r. r\<lparr>kx_successor_complete := True, kx_retained_until :=
                            Some (add_utc clock (sc_deletion_keyset_days cfg * 86400))\<rparr>)
                         (db_snapshot_keysets d1)\<rparr>))))))"

definition reconcile_snapshot ::
    "'ev store_config \<Rightarrow> instant \<Rightarrow> instant \<Rightarrow> reconciliation_request \<Rightarrow> 'ev db
       \<Rightarrow> (snapshot_reconciliation \<times> deletion_evidence_intent) result \<times> 'ev db" where
  "reconcile_snapshot cfg now clock req d =
     (if \<not> ks_complete (rq_candidate_keyset req) then (raise Integrity_error, d)
      else in_tx now (reconcile_snapshot_body cfg clock req) d)"

section \<open>Tombstone keysets\<close>

definition begin_tombstone_body ::
    "'ev store_config \<Rightarrow> keyset_request \<Rightarrow> 'ev db \<Rightarrow> (tombstone_keyset \<times> 'ev db) result" where
  "begin_tombstone_body cfg req d =
     (let k = sc_keyset_id cfg (kr_logical_identity req) (kr_visibility req) ''tombstone'' in
      case lookup_row kx_keyset_id k (db_tombstone_keysets d) of
        Some r \<Rightarrow>
          if kx_key_commitment r \<noteq> kr_key_commitment req \<or> kx_hmac_key_id r \<noteq> kr_hmac_key_id req
          then raise Key_commitment_conflict else Inr (kx_json r, d)
      | None \<Rightarrow>
          (let keyset = \<lparr>ks_keyset_id = k, ks_logical_identity = kr_logical_identity req,
             ks_visibility = kr_visibility req, ks_record_key_scope = kr_record_key_scope req,
             ks_hmac_key_id = kr_hmac_key_id req, ks_key_commitment = kr_key_commitment req,
             ks_keyset_ref = k, ks_keyset_digest = None, ks_key_count = 0, ks_complete = False,
             tk_event_sequence_low = None, tk_event_sequence_high = None\<rparr>
           in bind (insert_row kx_keyset_id
                     (new_keyset_row k (kr_logical_identity req) (kr_visibility req)
                        (kr_hmac_key_id req) (kr_key_commitment req) keyset) (db_tombstone_keysets d))
                (\<lambda>rows. Inr (keyset, d\<lparr>db_tombstone_keysets := rows\<rparr>))))"

definition begin_tombstone_keyset ::
    "'ev store_config \<Rightarrow> instant \<Rightarrow> keyset_request \<Rightarrow> 'ev db \<Rightarrow> tombstone_keyset result \<times> 'ev db" where
  "begin_tombstone_keyset cfg now req = in_tx now (begin_tombstone_body cfg req)"

text \<open>The loop over a page: an item whose sequence is not ahead of the last one stops the transaction.\<close>

fun insert_tombstones ::
    "digest \<Rightarrow> int option \<Rightarrow> nat \<Rightarrow> tombstone_tag list \<Rightarrow> tombstone_tag tag_row list
       \<Rightarrow> tombstone_tag tag_row list result" where
  "insert_tombstones k last_seq n [] rows = Inr rows"
| "insert_tombstones k last_seq n (t # ts) rows =
     (if (case last_seq of None \<Rightarrow> False | Some s \<Rightarrow> tt_event_sequence t \<le> s)
      then raise Sequence_conflict
      else bind (insert_row tag_key \<lparr>tx_keyset_id = k, tx_seq = n, tx_tag = t\<rparr> rows)
             (insert_tombstones k (Some (tt_event_sequence t)) (n + 1) ts))"

definition append_tombstone_body ::
    "tombstone_tag_page \<Rightarrow> 'ev db \<Rightarrow> (tombstone_keyset \<times> 'ev db) result" where
  "append_tombstone_body page d =
     (let k = tg_keyset_id page in
      bind (load_keyset k (db_tombstone_keysets d)) (\<lambda>r.
      bind (guard (\<not> kx_complete r) Integrity_error) (\<lambda>_.
      let held = tags_of k (db_tombstone_tags d);
          last_seq = (if held = [] then None else Some (tt_event_sequence (last held)))
      in bind (insert_tombstones k last_seq (tag_count k (db_tombstone_tags d)) (tg_items page)
                 (db_tombstone_tags d)) (\<lambda>rows.
      let tags = tags_of k rows;
          keyset = (kx_json r)\<lparr>ks_key_count := length tags,
            tk_event_sequence_low := (if tags = [] then None else Some (tt_event_sequence (hd tags))),
            tk_event_sequence_high := (if tags = [] then None else Some (tt_event_sequence (last tags)))\<rparr>
      in Inr (keyset, d\<lparr>db_tombstone_tags := rows,
           db_tombstone_keysets := update_row kx_keyset_id k (\<lambda>r. r\<lparr>kx_json := keyset\<rparr>)
             (db_tombstone_keysets d)\<rparr>)))))"

definition append_tombstone_keyset ::
    "instant \<Rightarrow> digest \<Rightarrow> tombstone_tag_page \<Rightarrow> 'ev db \<Rightarrow> tombstone_keyset result \<times> 'ev db" where
  "append_tombstone_keyset now attempt_id page = in_tx now (append_tombstone_body page)"

definition complete_tombstone_body ::
    "'ev store_config \<Rightarrow> tombstone_completion \<Rightarrow> 'ev db \<Rightarrow> (tombstone_keyset \<times> 'ev db) result" where
  "complete_tombstone_body cfg c d =
     (let k = kc_keyset_id c in
      bind (load_keyset k (db_tombstone_keysets d)) (\<lambda>r.
      let items = tags_of k (db_tombstone_tags d) in
      bind (guard (length items = kc_expected_key_count c) Integrity_error) (\<lambda>_.
      let keyset = kx_json r;
          dg = sc_tombstone_digest cfg (ks_logical_identity keyset) (ks_visibility keyset)
                 (ks_record_key_scope keyset) (ks_hmac_key_id keyset) (ks_key_commitment keyset) items
      in bind (guard (dg = kc_expected_keyset_digest c) Integrity_error) (\<lambda>_.
      let keyset' = keyset\<lparr>ks_complete := True, ks_keyset_digest := Some dg,
            tk_event_sequence_low := tc_event_sequence_low c,
            tk_event_sequence_high := tc_event_sequence_high c\<rparr>
      in Inr (keyset', d\<lparr>db_tombstone_keysets :=
           update_row kx_keyset_id k (\<lambda>r. r\<lparr>kx_complete := True, kx_json := keyset'\<rparr>)
             (db_tombstone_keysets d)\<rparr>)))))"

definition complete_tombstone_keyset ::
    "'ev store_config \<Rightarrow> instant \<Rightarrow> tombstone_completion \<Rightarrow> 'ev db \<Rightarrow> tombstone_keyset result \<times> 'ev db" where
  "complete_tombstone_keyset cfg now c = in_tx now (complete_tombstone_body cfg c)"

text \<open>
  The evidence of a complete keyset. \<open>DeletionEvidenceIntent\<close> wants a digest, so a keyset without one
  would not validate.
\<close>

definition finalize_tombstone_body ::
    "'ev store_config \<Rightarrow> instant \<Rightarrow> tombstone_evidence_request \<Rightarrow> 'ev db
       \<Rightarrow> (deletion_evidence_intent \<times> 'ev db) result" where
  "finalize_tombstone_body cfg clock req d =
     bind (load_keyset (ks_keyset_id (tr_keyset req)) (db_tombstone_keysets d)) (\<lambda>r.
     let keyset = kx_json r in
     bind (guard (ks_complete keyset) Integrity_error) (\<lambda>_.
     bind (guard (ks_hmac_key_id keyset = ks_hmac_key_id (tr_keyset req)
              \<and> ks_key_commitment keyset = ks_key_commitment (tr_keyset req)) Key_commitment_conflict) (\<lambda>_.
     case ks_keyset_digest keyset of
       None \<Rightarrow> Inl Validation_error
     | Some dg \<Rightarrow>
        (let intent = sealed_intent cfg
          \<lparr>de_logical_identity = ks_logical_identity keyset, de_visibility = ks_visibility keyset,
           de_delete_strategy = Explicit_tombstone, de_claim_digest = tr_claim_digest req,
           de_attempt_id = tr_attempt_id req,
           de_event_sequence_low = tk_event_sequence_low keyset,
           de_event_sequence_high = tk_event_sequence_high keyset,
           de_record_key_scope = ks_record_key_scope keyset, de_hmac_key_id = ks_hmac_key_id keyset,
           de_key_commitment = ks_key_commitment keyset, de_deleted_keyset_ref = ks_keyset_ref keyset,
           de_deleted_keyset_digest = dg, de_deleted_key_count = ks_key_count keyset,
           de_reconciliation_digest = None, de_intent_digest = []\<rparr>
         in Inr (intent, d\<lparr>db_tombstone_keysets :=
              update_row kx_keyset_id (ks_keyset_id keyset)
                (\<lambda>r. r\<lparr>kx_successor_complete := True, kx_retained_until :=
                   Some (add_utc clock (sc_deletion_keyset_days cfg * 86400))\<rparr>)
                (db_tombstone_keysets d)\<rparr>)))))"

definition finalize_tombstone_evidence ::
    "'ev store_config \<Rightarrow> instant \<Rightarrow> instant \<Rightarrow> tombstone_evidence_request \<Rightarrow> 'ev db
       \<Rightarrow> deletion_evidence_intent result \<times> 'ev db" where
  "finalize_tombstone_evidence cfg now clock req = in_tx now (finalize_tombstone_body cfg clock req)"

section \<open>Well-formed keysets\<close>

text \<open>
  The tags of a keyset are numbered without gaps in insertion order, no tag outlives its keyset, the
  stored document agrees with the columns, and a complete keyset carries the digest of exactly the
  tags stored for it.
\<close>

definition wf_tags :: "digest set \<Rightarrow> 't tag_row list \<Rightarrow> bool" where
  "wf_tags ids rows \<longleftrightarrow> (\<forall>r \<in> set rows. tx_keyset_id r \<in> ids)
     \<and> (\<forall>k \<in> ids. map tx_seq (filter (\<lambda>r. tx_keyset_id r = k) rows) = [0..<tag_count k rows])"

definition keyset_row_ok ::
    "('a snapshot_keyset_scheme \<Rightarrow> 't list \<Rightarrow> digest) \<Rightarrow> 't tag_row list
       \<Rightarrow> 'a snapshot_keyset_scheme keyset_row \<Rightarrow> bool" where
  "keyset_row_ok dig tags r \<longleftrightarrow> (let k = kx_json r in
     ks_keyset_id k = kx_keyset_id r \<and> ks_complete k = kx_complete r
     \<and> ks_logical_identity k = kx_identity r \<and> ks_visibility k = kx_visibility r
     \<and> ks_hmac_key_id k = kx_hmac_key_id r \<and> ks_key_commitment k = kx_key_commitment r
     \<and> ks_key_count k = tag_count (kx_keyset_id r) tags
     \<and> (if kx_complete r then ks_keyset_digest k = Some (dig k (tags_of (kx_keyset_id r) tags))
        else ks_keyset_digest k = None))"

definition wf_keysets ::
    "('a snapshot_keyset_scheme \<Rightarrow> 't list \<Rightarrow> digest) \<Rightarrow> 'a snapshot_keyset_scheme keyset_row list
       \<Rightarrow> 't tag_row list \<Rightarrow> bool" where
  "wf_keysets dig rows tags \<longleftrightarrow> unique_keys kx_keyset_id rows
     \<and> wf_tags (set (map kx_keyset_id rows)) tags \<and> (\<forall>r \<in> set rows. keyset_row_ok dig tags r)"

definition snapshot_seal :: "'ev store_config \<Rightarrow> snapshot_keyset \<Rightarrow> digest list \<Rightarrow> digest" where
  "snapshot_seal cfg k tags = sc_snapshot_digest cfg (ks_logical_identity k) (ks_visibility k)
     (ks_record_key_scope k) (ks_hmac_key_id k) (ks_key_commitment k) tags"

definition tombstone_seal :: "'ev store_config \<Rightarrow> tombstone_keyset \<Rightarrow> tombstone_tag list \<Rightarrow> digest" where
  "tombstone_seal cfg k tags = sc_tombstone_digest cfg (ks_logical_identity k) (ks_visibility k)
     (ks_record_key_scope k) (ks_hmac_key_id k) (ks_key_commitment k) tags"

lemma tag_count_tags_of: "length (tags_of k rows) = tag_count k rows"
  by (simp add: tags_of_def tag_count_def)

lemma tags_of_filter:
  assumes "wf_tags ids rows" and "k \<in> ids"
  shows "tags_of k rows = map tx_tag (filter (\<lambda>r. tx_keyset_id r = k) rows)"
proof -
  from assms have "map tx_seq (filter (\<lambda>r. tx_keyset_id r = k) rows) = [0..<tag_count k rows]"
    by (simp add: wf_tags_def)
  then have "sorted (map tx_seq (filter (\<lambda>r. tx_keyset_id r = k) rows))" by simp
  then show ?thesis by (simp add: tags_of_def sorted_sort_id sort_key_id_if_sorted)
qed

lemma tags_of_absent:
  assumes "wf_tags ids rows" and "k \<notin> ids"
  shows "tags_of k rows = []" and "tag_count k rows = 0"
proof -
  from assms have "filter (\<lambda>r. tx_keyset_id r = k) rows = []"
    by (auto simp: wf_tags_def filter_empty_conv)
  then show "tags_of k rows = []" and "tag_count k rows = 0"
    by (simp_all add: tags_of_def tag_count_def)
qed

definition page_rows :: "digest \<Rightarrow> nat \<Rightarrow> 't list \<Rightarrow> 't tag_row list" where
  "page_rows k n ts = map (\<lambda>(j, t). \<lparr>tx_keyset_id = k, tx_seq = j, tx_tag = t\<rparr>) (enumerate n ts)"

lemma page_rows_simps [simp]:
  "page_rows k n [] = []"
  "page_rows k n (t # ts) = \<lparr>tx_keyset_id = k, tx_seq = n, tx_tag = t\<rparr> # page_rows k (Suc n) ts"
  by (simp_all add: page_rows_def)

lemma page_rows_facts:
  "filter (\<lambda>r. tx_keyset_id r = k') (page_rows k n ts) = (if k' = k then page_rows k n ts else [])"
  "map tx_seq (page_rows k n ts) = [n..<n + length ts]"
  "map tx_tag (page_rows k n ts) = ts"
  "length (page_rows k n ts) = length ts"
  "r \<in> set (page_rows k n ts) \<Longrightarrow> tx_keyset_id r = k"
proof -
  show "filter (\<lambda>r. tx_keyset_id r = k') (page_rows k n ts) = (if k' = k then page_rows k n ts else [])"
    by (induction ts arbitrary: n) auto
  show "map tx_seq (page_rows k n ts) = [n..<n + length ts]"
    by (simp add: page_rows_def comp_def case_prod_unfold)
  show "map tx_tag (page_rows k n ts) = ts" by (induction ts arbitrary: n) auto
  show "length (page_rows k n ts) = length ts" by (simp add: page_rows_def)
  show "r \<in> set (page_rows k n ts) \<Longrightarrow> tx_keyset_id r = k" by (auto simp: page_rows_def)
qed

lemma tag_count_append [simp]: "tag_count k (xs @ ys) = tag_count k xs + tag_count k ys"
  by (simp add: tag_count_def)

lemma tag_count_page [simp]: "tag_count k' (page_rows k n ts) = (if k' = k then length ts else 0)"
  by (simp add: tag_count_def page_rows_facts)

lemma wf_tags_page:
  assumes "wf_tags ids rows" and "k \<in> ids"
  shows "wf_tags ids (rows @ page_rows k (tag_count k rows) ts)"
    and "k' \<in> ids \<Longrightarrow> tags_of k' (rows @ page_rows k (tag_count k rows) ts) =
         (if k' = k then tags_of k' rows @ ts else tags_of k' rows)"
proof -
  show wf: "wf_tags ids (rows @ page_rows k (tag_count k rows) ts)"
    using assms
    by (auto simp: wf_tags_def page_rows_facts upt_add_eq_append [of 0 "tag_count k rows"])
  show "tags_of k' (rows @ page_rows k (tag_count k rows) ts) =
         (if k' = k then tags_of k' rows @ ts else tags_of k' rows)" if "k' \<in> ids"
    using that tags_of_filter [OF assms(1) that] tags_of_filter [OF wf that]
    by (cases "k' = k") (simp_all add: page_rows_facts)
qed

lemma insert_tags_fresh:
  assumes "\<forall>r \<in> set rows. tx_keyset_id r = k \<longrightarrow> tx_seq r < n"
  shows "insert_tags k n ts rows = Inr (rows @ page_rows k n ts)"
  using assms
proof (induction ts arbitrary: n rows)
  case Nil
  then show ?case by simp
next
  case (Cons t ts)
  let ?r = "\<lparr>tx_keyset_id = k, tx_seq = n, tx_tag = t\<rparr>"
  have "lookup_row tag_key (tag_key ?r) rows = None"
    using Cons.prems by (auto simp: lookup_row_None tag_key_def)
  then have "insert_tags k n (t # ts) rows = insert_tags k (Suc n) ts (rows @ [?r])"
    by (simp add: insert_row_fresh)
  also have "\<dots> = Inr ((rows @ [?r]) @ page_rows k (Suc n) ts)"
    by (rule Cons.IH) (use Cons.prems in auto)
  finally show ?case by simp
qed

lemma wf_tags_below:
  assumes "wf_tags ids rows" and "k \<in> ids"
  shows "\<forall>r \<in> set rows. tx_keyset_id r = k \<longrightarrow> tx_seq r < tag_count k rows"
proof (intro ballI impI)
  fix r assume "r \<in> set rows" "tx_keyset_id r = k"
  then have "tx_seq r \<in> set (map tx_seq (filter (\<lambda>r. tx_keyset_id r = k) rows))" by auto
  with assms show "tx_seq r < tag_count k rows" by (simp add: wf_tags_def)
qed

text \<open>Rows whose documents are rewritten, and a keyset that is opened.\<close>

lemma load_keyset_Inr [simp]: "load_keyset k rows = Inr r \<longleftrightarrow> lookup_row kx_keyset_id k rows = Some r"
  by (auto simp: load_keyset_def split: option.splits)

lemma load_keyset_Inl: "load_keyset k rows = Inl e \<Longrightarrow> e = Port_error Not_found"
  by (auto simp: load_keyset_def split: option.splits)

lemma wf_keysets_lookup:
  assumes "wf_keysets dig rows tags" and "lookup_row kx_keyset_id k rows = Some r"
  shows "r \<in> set rows" "kx_keyset_id r = k" "keyset_row_ok dig tags r"
  using assms lookup_row_SomeD [OF assms(2)] by (simp_all add: wf_keysets_def)

lemma wf_keysets_tags: "wf_keysets dig rows tags \<Longrightarrow> wf_tags (kx_keyset_id ` set rows) tags"
  by (simp add: wf_keysets_def)

lemma keyset_row_ok_cong:
  assumes "tags_of (kx_keyset_id r) tags' = tags_of (kx_keyset_id r) tags"
  shows "keyset_row_ok dig tags' r = keyset_row_ok dig tags r"
proof -
  have "tag_count (kx_keyset_id r) tags' = tag_count (kx_keyset_id r) tags"
    using arg_cong [OF assms, of length] by (simp only: tag_count_tags_of)
  with assms show ?thesis by (simp add: keyset_row_ok_def)
qed

lemma wf_keysets_update:
  assumes wf: "wf_keysets dig rows tags" and look: "lookup_row kx_keyset_id k rows = Some r0"
    and key: "\<And>r. kx_keyset_id (f r) = kx_keyset_id r"
    and wft: "wf_tags (kx_keyset_id ` set rows) tags'"
    and others: "\<And>k'. k' \<in> kx_keyset_id ` set rows \<Longrightarrow> k' \<noteq> k \<Longrightarrow> tags_of k' tags' = tags_of k' tags"
    and ok: "keyset_row_ok dig tags' (f r0)"
  shows "wf_keysets dig (update_row kx_keyset_id k f rows) tags'"
proof -
  have uniq: "unique_keys kx_keyset_id rows" using wf by (simp add: wf_keysets_def)
  have "keyset_row_ok dig tags' r" if mem: "r \<in> set (update_row kx_keyset_id k f rows)" for r
  proof -
    from set_update_rowD [OF mem] consider r1 where "r1 \<in> set rows" "kx_keyset_id r1 = k" "r = f r1"
      | "r \<in> set rows" "kx_keyset_id r \<noteq> k" by blast
    then show ?thesis
    proof cases
      case (1 r1)
      then have "r1 = r0" using look lookup_row_mem [OF uniq 1(1)] by simp
      with 1 ok show ?thesis by simp
    next
      case 2
      then have "tags_of (kx_keyset_id r) tags' = tags_of (kx_keyset_id r) tags" by (intro others) auto
      from keyset_row_ok_cong [OF this] 2 wf show ?thesis by (simp add: wf_keysets_def)
    qed
  qed
  moreover have "kx_keyset_id ` set (update_row kx_keyset_id k f rows) = kx_keyset_id ` set rows"
  proof -
    have "map kx_keyset_id (update_row kx_keyset_id k f rows) = map kx_keyset_id rows"
      using key by (intro map_key_update_row) simp
    then show ?thesis by (metis set_map)
  qed
  moreover have "unique_keys kx_keyset_id (update_row kx_keyset_id k f rows)"
    using uniq key by (simp add: unique_keys_update)
  ultimately show ?thesis using wft by (simp add: wf_keysets_def)
qed

lemma wf_keysets_open:
  assumes wf: "wf_keysets dig rows tags" and fresh: "lookup_row kx_keyset_id (kx_keyset_id r) rows = None"
    and ok: "keyset_row_ok dig [] r"
  shows "wf_keysets dig (rows @ [r]) tags"
proof -
  have "kx_keyset_id r \<notin> kx_keyset_id ` set rows" using fresh by (simp add: lookup_row_None)
  note absent = tags_of_absent [OF wf_keysets_tags [OF wf] this]
  have none: "filter (\<lambda>q. tx_keyset_id q = kx_keyset_id r) tags = []"
    using absent(2) by (simp add: tag_count_def)
  have "tags_of (kx_keyset_id r) tags = tags_of (kx_keyset_id r) []" using absent by (simp add: tags_of_def)
  then have "keyset_row_ok dig tags r" using ok keyset_row_ok_cong by blast
  moreover have "wf_tags (insert (kx_keyset_id r) (kx_keyset_id ` set rows)) tags"
    using wf_keysets_tags [OF wf] none absent by (auto simp: wf_tags_def)
  ultimately show ?thesis using wf fresh by (auto simp: wf_keysets_def unique_keys_append1)
qed

section \<open>Every operation keeps the keysets well-formed\<close>

definition wf_snapshots :: "'ev store_config \<Rightarrow> 'ev db \<Rightarrow> bool" where
  "wf_snapshots cfg d \<longleftrightarrow> wf_keysets (snapshot_seal cfg) (db_snapshot_keysets d) (db_snapshot_tags d)"

definition wf_tombstones :: "'ev store_config \<Rightarrow> 'ev db \<Rightarrow> bool" where
  "wf_tombstones cfg d \<longleftrightarrow> wf_keysets (tombstone_seal cfg) (db_tombstone_keysets d) (db_tombstone_tags d)"

lemma lookup_image: "lookup_row key k rows = Some r \<Longrightarrow> k \<in> key ` set rows"
  by (auto dest: lookup_row_SomeD)

lemma new_keyset_row_simps [simp]:
  "kx_keyset_id (new_keyset_row k i v key com json) = k"
  "kx_identity (new_keyset_row k i v key com json) = i"
  "kx_visibility (new_keyset_row k i v key com json) = v"
  "kx_hmac_key_id (new_keyset_row k i v key com json) = key"
  "kx_key_commitment (new_keyset_row k i v key com json) = com"
  "\<not> kx_complete (new_keyset_row k i v key com json)"
  "kx_json (new_keyset_row k i v key com json) = json"
  "kx_retained_until (new_keyset_row k i v key com json) = None"
  by (simp_all add: new_keyset_row_def)

lemma tag_count_Nil [simp]: "tag_count k [] = 0"
  by (simp add: tag_count_def)

lemma begin_snapshot_body_Inr:
  assumes ok: "begin_snapshot_body cfg req d = Inr (ks, d')" and wf: "wf_snapshots cfg d"
  shows "wf_snapshots cfg d'" and "d' = d\<lparr>db_snapshot_keysets := db_snapshot_keysets d'\<rparr>"
    and "\<exists>r. lookup_row kx_keyset_id (sc_keyset_id cfg (kr_logical_identity req) (kr_visibility req) ''snapshot'')
           (db_snapshot_keysets d') = Some r \<and> kx_json r = ks
           \<and> kx_key_commitment r = kr_key_commitment req \<and> kx_hmac_key_id r = kr_hmac_key_id req"
proof -
  let ?k = "sc_keyset_id cfg (kr_logical_identity req) (kr_visibility req) ''snapshot''"
  show "d' = d\<lparr>db_snapshot_keysets := db_snapshot_keysets d'\<rparr>"
    using ok by (auto simp: begin_snapshot_body_def Let_def split: option.splits if_splits)
  have "wf_snapshots cfg d' \<and> (\<exists>r. lookup_row kx_keyset_id ?k (db_snapshot_keysets d') = Some r \<and> kx_json r = ks
           \<and> kx_key_commitment r = kr_key_commitment req \<and> kx_hmac_key_id r = kr_hmac_key_id req)"
  proof (cases "lookup_row kx_keyset_id ?k (db_snapshot_keysets d)")
    case (Some r)
    with ok wf show ?thesis by (auto simp: begin_snapshot_body_def Let_def split: if_splits)
  next
    case None
    let ?row = "new_keyset_row ?k (kr_logical_identity req) (kr_visibility req) (kr_hmac_key_id req)
      (kr_key_commitment req) ks"
    from None ok have ks: "ks = \<lparr>ks_keyset_id = ?k, ks_logical_identity = kr_logical_identity req,
             ks_visibility = kr_visibility req, ks_record_key_scope = kr_record_key_scope req,
             ks_hmac_key_id = kr_hmac_key_id req, ks_key_commitment = kr_key_commitment req,
             ks_keyset_ref = ?k, ks_keyset_digest = None, ks_key_count = 0, ks_complete = False\<rparr>"
      and d': "d' = d\<lparr>db_snapshot_keysets := db_snapshot_keysets d @ [?row]\<rparr>"
      by (auto simp: begin_snapshot_body_def insert_row_fresh Let_def)
    have rok: "keyset_row_ok (snapshot_seal cfg) [] ?row" by (simp add: keyset_row_ok_def ks)
    have "wf_snapshots cfg d'"
      using wf_keysets_open [of "snapshot_seal cfg" "db_snapshot_keysets d" "db_snapshot_tags d" ?row]
        wf None rok by (simp add: wf_snapshots_def d')
    moreover have "lookup_row kx_keyset_id ?k (db_snapshot_keysets d') = Some ?row"
      using None by (simp add: d' lookup_row_append)
    ultimately show ?thesis by auto
  qed
  then show "wf_snapshots cfg d'" and "\<exists>r. lookup_row kx_keyset_id ?k (db_snapshot_keysets d') = Some r \<and> kx_json r = ks
           \<and> kx_key_commitment r = kr_key_commitment req \<and> kx_hmac_key_id r = kr_hmac_key_id req" by blast+
qed

lemma begin_snapshot_body_Inl:
  "begin_snapshot_body cfg req d = Inl e \<Longrightarrow> e = Port_error Key_commitment_conflict"
  by (auto simp: begin_snapshot_body_def Let_def insert_row_fresh split: option.splits if_splits)

text \<open>An append that commits extends the keyset by exactly the page.\<close>

lemma append_snapshot_body_Inr:
  assumes ok: "append_snapshot_body page d = Inr (ks, d')" and wf: "wf_snapshots cfg d"
  obtains r where
    "lookup_row kx_keyset_id (kp_keyset_id page) (db_snapshot_keysets d) = Some r" "\<not> kx_complete r"
    "kp_first_frame_sequence page = tag_count (kp_keyset_id page) (db_snapshot_tags d)"
    "ks = (kx_json r)\<lparr>ks_key_count := kp_first_frame_sequence page + length (kp_tags page)\<rparr>"
    "d' = d\<lparr>db_snapshot_tags := db_snapshot_tags d @
             page_rows (kp_keyset_id page) (kp_first_frame_sequence page) (kp_tags page),
            db_snapshot_keysets := update_row kx_keyset_id (kp_keyset_id page) (\<lambda>r. r\<lparr>kx_json := ks\<rparr>)
             (db_snapshot_keysets d)\<rparr>"
proof -
  let ?k = "kp_keyset_id page"
  from ok obtain r where r: "lookup_row kx_keyset_id ?k (db_snapshot_keysets d) = Some r" "\<not> kx_complete r"
    and c: "kp_first_frame_sequence page = tag_count ?k (db_snapshot_tags d)"
    and ins: "\<exists>tags. insert_tags ?k (tag_count ?k (db_snapshot_tags d)) (kp_tags page) (db_snapshot_tags d) = Inr tags
       \<and> ks = (kx_json r)\<lparr>ks_key_count := tag_count ?k (db_snapshot_tags d) + length (kp_tags page)\<rparr>
       \<and> d' = d\<lparr>db_snapshot_tags := tags,
           db_snapshot_keysets := update_row kx_keyset_id ?k (\<lambda>r. r\<lparr>kx_json := ks\<rparr>)
             (db_snapshot_keysets d)\<rparr>"
    by (auto simp: append_snapshot_body_def Let_def)
  have "insert_tags ?k (tag_count ?k (db_snapshot_tags d)) (kp_tags page) (db_snapshot_tags d) =
      Inr (db_snapshot_tags d @ page_rows ?k (tag_count ?k (db_snapshot_tags d)) (kp_tags page))"
    by (rule insert_tags_fresh, rule wf_tags_below [OF wf_keysets_tags])
       (use wf r in \<open>auto simp: wf_snapshots_def lookup_image\<close>)
  with ins show ?thesis using r c by (intro that) auto
qed

lemma append_snapshot_body_effect:
  assumes ok: "append_snapshot_body page d = Inr (ks, d')" and wf: "wf_snapshots cfg d"
  shows "wf_snapshots cfg d'"
    and "k \<in> kx_keyset_id ` set (db_snapshot_keysets d) \<Longrightarrow> tags_of k (db_snapshot_tags d') =
      (if k = kp_keyset_id page then tags_of k (db_snapshot_tags d) @ kp_tags page
       else tags_of k (db_snapshot_tags d))"
    and "map kx_keyset_id (db_snapshot_keysets d') = map kx_keyset_id (db_snapshot_keysets d)"
    and "map_option kx_complete (lookup_row kx_keyset_id k (db_snapshot_keysets d')) =
         map_option kx_complete (lookup_row kx_keyset_id k (db_snapshot_keysets d))"
proof -
  let ?k = "kp_keyset_id page"
  from ok wf obtain r where r: "lookup_row kx_keyset_id ?k (db_snapshot_keysets d) = Some r" "\<not> kx_complete r"
    and c: "kp_first_frame_sequence page = tag_count ?k (db_snapshot_tags d)"
    and ks: "ks = (kx_json r)\<lparr>ks_key_count := kp_first_frame_sequence page + length (kp_tags page)\<rparr>"
    and d': "d' = d\<lparr>db_snapshot_tags := db_snapshot_tags d @
             page_rows ?k (kp_first_frame_sequence page) (kp_tags page),
            db_snapshot_keysets := update_row kx_keyset_id ?k (\<lambda>r. r\<lparr>kx_json := ks\<rparr>)
             (db_snapshot_keysets d)\<rparr>"
    by (rule append_snapshot_body_Inr)
  have wfk: "wf_keysets (snapshot_seal cfg) (db_snapshot_keysets d) (db_snapshot_tags d)"
    using wf by (simp add: wf_snapshots_def)
  note T = wf_tags_page [OF wf_keysets_tags [OF wfk] lookup_image [OF r(1)], where ts = "kp_tags page"]
  note R = wf_keysets_lookup [OF wfk r(1)]
  have "keyset_row_ok (snapshot_seal cfg) (db_snapshot_tags d') (r\<lparr>kx_json := ks\<rparr>)"
    using R r(2) by (simp add: d' ks c keyset_row_ok_def Let_def)
  then show "wf_snapshots cfg d'"
    unfolding wf_snapshots_def d'
    using T wfk r(1) by (simp add: c) (rule wf_keysets_update; simp)
  show "tags_of k (db_snapshot_tags d') =
      (if k = ?k then tags_of k (db_snapshot_tags d) @ kp_tags page else tags_of k (db_snapshot_tags d))"
    if "k \<in> kx_keyset_id ` set (db_snapshot_keysets d)"
    using T(2) [OF that] by (simp add: d' c)
  show "map kx_keyset_id (db_snapshot_keysets d') = map kx_keyset_id (db_snapshot_keysets d)"
    by (simp add: d' map_key_update_row)
  show "map_option kx_complete (lookup_row kx_keyset_id k (db_snapshot_keysets d')) =
         map_option kx_complete (lookup_row kx_keyset_id k (db_snapshot_keysets d))"
    by (simp add: d' lookup_row_update option.map_comp comp_def)
qed

lemma append_snapshot_body_Inl:
  assumes "append_snapshot_body page d = Inl e" and wf: "wf_snapshots cfg d"
  shows "e \<in> Port_error ` {Not_found, Integrity_error, Sequence_conflict}"
proof (cases "lookup_row kx_keyset_id (kp_keyset_id page) (db_snapshot_keysets d)")
  case None
  then show ?thesis using assms(1) by (auto simp: append_snapshot_body_def load_keyset_def)
next
  case (Some r)
  have "insert_tags (kp_keyset_id page) (tag_count (kp_keyset_id page) (db_snapshot_tags d)) (kp_tags page)
      (db_snapshot_tags d) = Inr (db_snapshot_tags d @
        page_rows (kp_keyset_id page) (tag_count (kp_keyset_id page) (db_snapshot_tags d)) (kp_tags page))"
    by (rule insert_tags_fresh, rule wf_tags_below [OF wf_keysets_tags])
       (use wf Some in \<open>auto simp: wf_snapshots_def lookup_image\<close>)
  with Some assms(1) show ?thesis
    by (auto simp: append_snapshot_body_def Let_def load_keyset_def bind_eq_Inl)
qed

lemma complete_snapshot_body_Inr:
  assumes ok: "complete_snapshot_body cfg c d = Inr (ks, d')" and wf: "wf_snapshots cfg d"
  shows "wf_snapshots cfg d'" and "d' = d\<lparr>db_snapshot_keysets := db_snapshot_keysets d'\<rparr>"
    and "map kx_keyset_id (db_snapshot_keysets d') = map kx_keyset_id (db_snapshot_keysets d)"
    and "map_option kx_complete (lookup_row kx_keyset_id k (db_snapshot_keysets d')) =
         (if k = kc_keyset_id c then Some True
          else map_option kx_complete (lookup_row kx_keyset_id k (db_snapshot_keysets d)))"
    and "ks_complete ks" and "ks_keyset_id ks = kc_keyset_id c"
    and "ks_keyset_digest ks = Some (kc_expected_keyset_digest c)"
    and "ks_keyset_digest ks = Some (snapshot_seal cfg ks (tags_of (kc_keyset_id c) (db_snapshot_tags d)))"
    and "ks_key_count ks = kc_expected_key_count c"
    and "length (tags_of (kc_keyset_id c) (db_snapshot_tags d)) = kc_expected_key_count c"
proof -
  let ?k = "kc_keyset_id c"
  let ?tags = "tags_of ?k (db_snapshot_tags d)"
  from ok obtain r where r: "lookup_row kx_keyset_id ?k (db_snapshot_keysets d) = Some r"
    and n: "length ?tags = kc_expected_key_count c"
    and dg: "snapshot_seal cfg (kx_json r) ?tags = kc_expected_keyset_digest c"
    and ks: "ks = (kx_json r)\<lparr>ks_complete := True, ks_keyset_digest := Some (kc_expected_keyset_digest c)\<rparr>"
    and d': "d' = d\<lparr>db_snapshot_keysets := update_row kx_keyset_id ?k
               (\<lambda>r. r\<lparr>kx_complete := True, kx_json := ks\<rparr>) (db_snapshot_keysets d)\<rparr>"
    by (auto simp: complete_snapshot_body_def Let_def snapshot_seal_def)
  have wfk: "wf_keysets (snapshot_seal cfg) (db_snapshot_keysets d) (db_snapshot_tags d)"
    using wf by (simp add: wf_snapshots_def)
  note R = wf_keysets_lookup [OF wfk r]
  have seal: "snapshot_seal cfg ks ts = snapshot_seal cfg (kx_json r) ts" for ts
    by (simp add: ks snapshot_seal_def)
  have "keyset_row_ok (snapshot_seal cfg) (db_snapshot_tags d) (r\<lparr>kx_complete := True, kx_json := ks\<rparr>)"
    using R dg seal by (simp add: ks keyset_row_ok_def Let_def)
  then show "wf_snapshots cfg d'"
    unfolding wf_snapshots_def d' using wfk r wf_keysets_tags [OF wfk]
    by simp (rule wf_keysets_update; simp)
  show "d' = d\<lparr>db_snapshot_keysets := db_snapshot_keysets d'\<rparr>" by (simp add: d')
  show "map kx_keyset_id (db_snapshot_keysets d') = map kx_keyset_id (db_snapshot_keysets d)"
    by (simp add: d' map_key_update_row)
  show "map_option kx_complete (lookup_row kx_keyset_id k (db_snapshot_keysets d')) =
         (if k = ?k then Some True
          else map_option kx_complete (lookup_row kx_keyset_id k (db_snapshot_keysets d)))"
    using r by (simp add: d' lookup_row_update)
  show "ks_complete ks" and "ks_keyset_id ks = ?k"
    and "ks_keyset_digest ks = Some (kc_expected_keyset_digest c)"
    and "ks_keyset_digest ks = Some (snapshot_seal cfg ks ?tags)"
    and "ks_key_count ks = kc_expected_key_count c"
    and "length ?tags = kc_expected_key_count c"
    using R n dg by (simp_all add: ks keyset_row_ok_def Let_def tag_count_tags_of snapshot_seal_def)
qed

lemma complete_snapshot_body_Inl:
  "complete_snapshot_body cfg c d = Inl e \<Longrightarrow> e \<in> Port_error ` {Not_found, Integrity_error}"
  by (auto simp: complete_snapshot_body_def Let_def bind_eq_Inl dest: load_keyset_Inl)

section \<open>Reconciliation\<close>

text \<open>The keys deleted between two snapshots.\<close>

definition deleted_keys :: "snapshot_keyset option \<Rightarrow> snapshot_keyset \<Rightarrow> 'ev db \<Rightarrow> digest set" where
  "deleted_keys prior candidate d =
     (case prior of None \<Rightarrow> {} | Some p \<Rightarrow> set (tags_of (ks_keyset_id p) (db_snapshot_tags d)))
     - set (tags_of (ks_keyset_id candidate) (db_snapshot_tags d))"

lemma prior_tags_of_Inr:
  "prior_tags_of c prior d = Inr ts \<Longrightarrow>
     (case prior of None \<Rightarrow> ts = []
      | Some p \<Rightarrow> ts = tags_of (ks_keyset_id p) (db_snapshot_tags d)
          \<and> ks_hmac_key_id p = ks_hmac_key_id c \<and> ks_key_commitment p = ks_key_commitment c
          \<and> ks_keyset_id p \<in> kx_keyset_id ` set (db_snapshot_keysets d))"
  by (auto simp: prior_tags_of_def lookup_image split: option.splits if_splits)

lemma prior_tags_of_Inl:
  "prior_tags_of c prior d = Inl e \<Longrightarrow> e \<in> Port_error ` {Key_commitment_conflict, Not_found}"
  by (auto simp: prior_tags_of_def bind_eq_Inl split: option.splits if_splits dest: load_keyset_Inl)

definition mark_successor :: "instant \<Rightarrow> digest \<Rightarrow> 'k keyset_row list \<Rightarrow> 'k keyset_row list" where
  "mark_successor until k = update_row kx_keyset_id k
     (\<lambda>r. r\<lparr>kx_successor_complete := True, kx_retained_until := Some until\<rparr>)"

lemma reconcile_snapshot_body_Inr:
  assumes ok: "reconcile_snapshot_body cfg clock req d = Inr ((rec, intent), d')"
  defines "c \<equiv> rq_candidate_keyset req"
  obtains
    (replayed) r where "lookup_row rx_attempt_id (rq_attempt_id req) (db_reconciliations d) = Some r"
      "rx_json r = rec" "sr_candidate_keyset_ref rec = ks_keyset_ref c"
      "sr_deletion_evidence rec = Some intent" "d' = d"
  | (reconciled) deleted where
      "lookup_row rx_attempt_id (rq_attempt_id req) (db_reconciliations d) = None"
      "sorted deleted" "distinct deleted" "set deleted = deleted_keys (rq_prior_keyset req) c d"
      "intent = snapshot_deletion_intent cfg req deleted (sr_reconciliation_digest rec)"
      "sr_reconciliation_digest rec = sc_reconciliation_digest cfg (ks_keyset_id c)
          (map_option ks_keyset_id (rq_prior_keyset req)) deleted"
      "sr_attempt_id rec = rq_attempt_id req" "sr_status rec = Rs_complete"
      "sr_candidate_keyset_ref rec = ks_keyset_ref c" "sr_deletion_evidence rec = Some intent"
      "\<And>p. rq_prior_keyset req = Some p \<Longrightarrow> ks_hmac_key_id p = ks_hmac_key_id c
         \<and> ks_key_commitment p = ks_key_commitment c"
      "d' = d\<lparr>db_reconciliations := db_reconciliations d @
               [\<lparr>rx_attempt_id = rq_attempt_id req, rx_identity = ks_logical_identity c,
                 rx_status = Rs_complete, rx_json = rec\<rparr>],
              db_snapshot_keysets := (case rq_prior_keyset req of None \<Rightarrow> db_snapshot_keysets d
                | Some p \<Rightarrow> mark_successor (add_utc clock (sc_deletion_keyset_days cfg * 86400))
                             (ks_keyset_id p) (db_snapshot_keysets d))\<rparr>"
proof (cases "lookup_row rx_attempt_id (rq_attempt_id req) (db_reconciliations d)")
  case (Some r)
  with ok show ?thesis
    by (intro replayed [of r]) (auto simp: reconcile_snapshot_body_def Let_def c_def
        split: if_splits option.splits)
next
  case None
  let ?cand = "tags_of (ks_keyset_id c) (db_snapshot_tags d)"
  from None ok obtain prior_tags where pt: "prior_tags_of c (rq_prior_keyset req) d = Inr prior_tags"
    by (auto simp: reconcile_snapshot_body_def Let_def c_def)
  let ?del = "sorted_set (filter (\<lambda>t. t \<notin> set ?cand) prior_tags)"
  have del: "set ?del = deleted_keys (rq_prior_keyset req) c d"
    using prior_tags_of_Inr [OF pt] by (auto simp: deleted_keys_def split: option.splits)
  have key: "\<And>p. rq_prior_keyset req = Some p \<Longrightarrow> ks_hmac_key_id p = ks_hmac_key_id c
         \<and> ks_key_commitment p = ks_key_commitment c"
    using prior_tags_of_Inr [OF pt] by auto
  from None ok pt show ?thesis
    by (intro reconciled [OF None _ _ del]) (auto simp: reconcile_snapshot_body_def Let_def c_def
        insert_row_fresh mark_successor_def key split: option.splits)
qed

lemma keyset_row_ok_mark [simp]:
  "keyset_row_ok dig tags (r\<lparr>kx_successor_complete := b, kx_retained_until := u\<rparr>) = keyset_row_ok dig tags r"
  by (simp add: keyset_row_ok_def Let_def)

lemma wf_keysets_mark:
  assumes "wf_keysets dig rows tags"
  shows "wf_keysets dig (mark_successor until k rows) tags"
proof (cases "lookup_row kx_keyset_id k rows")
  case (Some r)
  show ?thesis
    unfolding mark_successor_def
    by (rule wf_keysets_update [OF assms Some])
       (use assms wf_keysets_lookup [OF assms Some] wf_keysets_tags in simp_all)
next
  case None
  then have "mark_successor until k rows = rows"
    by (auto simp: mark_successor_def update_row_def lookup_row_None intro!: map_idI)
  with assms show ?thesis by simp
qed

lemma reconcile_snapshot_body_effect:
  assumes ok: "reconcile_snapshot_body cfg clock req d = Inr (x, d')" and wf: "wf_snapshots cfg d"
  shows "wf_snapshots cfg d'" and "db_snapshot_tags d' = db_snapshot_tags d"
    and "d' = d\<lparr>db_reconciliations := db_reconciliations d', db_snapshot_keysets := db_snapshot_keysets d'\<rparr>"
    and "wf_reconciliations (db_reconciliations d) \<Longrightarrow> wf_reconciliations (db_reconciliations d')"
proof -
  obtain rec intent where x: "x = (rec, intent)" by (cases x)
  have "wf_snapshots cfg d' \<and> db_snapshot_tags d' = db_snapshot_tags d
     \<and> d' = d\<lparr>db_reconciliations := db_reconciliations d', db_snapshot_keysets := db_snapshot_keysets d'\<rparr>
     \<and> (wf_reconciliations (db_reconciliations d) \<longrightarrow> wf_reconciliations (db_reconciliations d'))"
    using ok [unfolded x]
  proof (cases rule: reconcile_snapshot_body_Inr)
    case (replayed r)
    with wf show ?thesis by simp
  next
    case (reconciled deleted)
    then show ?thesis
      using wf by (auto simp: wf_snapshots_def wf_keysets_mark wf_reconciliations_def
          unique_keys_append1 split: option.splits)
  qed
  then show "wf_snapshots cfg d'" and "db_snapshot_tags d' = db_snapshot_tags d"
    and "d' = d\<lparr>db_reconciliations := db_reconciliations d', db_snapshot_keysets := db_snapshot_keysets d'\<rparr>"
    and "wf_reconciliations (db_reconciliations d) \<Longrightarrow> wf_reconciliations (db_reconciliations d')"
    by blast+
qed

lemma reconcile_snapshot_body_Inl:
  assumes "reconcile_snapshot_body cfg clock req d = Inl e"
  shows "e \<in> Port_error ` {Concurrency_conflict, Integrity_error, Not_found, Key_commitment_conflict}"
proof (cases "lookup_row rx_attempt_id (rq_attempt_id req) (db_reconciliations d)")
  case (Some r)
  with assms show ?thesis
    by (auto simp: reconcile_snapshot_body_def Let_def split: option.splits if_splits)
next
  case None
  with assms show ?thesis
    by (auto simp: reconcile_snapshot_body_def Let_def insert_row_fresh bind_eq_Inl
        dest!: load_keyset_Inl prior_tags_of_Inl)
qed

section \<open>Expiry\<close>

lemma filter_kept_tags:
  "k \<notin> set ids \<Longrightarrow> filter (\<lambda>r. tx_keyset_id r = k) (delete_rows (\<lambda>r. tx_keyset_id r \<in> set ids) rows) =
     filter (\<lambda>r. tx_keyset_id r = k) rows"
  by (auto simp: delete_rows_def intro!: filter_cong)

lemma wf_keysets_expire:
  assumes wf: "wf_keysets dig rows tags"
  shows "wf_keysets dig (delete_rows (\<lambda>r. kx_keyset_id r \<in> set ids) rows)
     (delete_rows (\<lambda>r. tx_keyset_id r \<in> set ids) tags)"
proof -
  let ?rows = "delete_rows (\<lambda>r. kx_keyset_id r \<in> set ids) rows"
  let ?tags = "delete_rows (\<lambda>r. tx_keyset_id r \<in> set ids) tags"
  have same: "tags_of k ?tags = tags_of k tags" "tag_count k ?tags = tag_count k tags" if "k \<notin> set ids" for k
    using filter_kept_tags [OF that, of tags] by (simp_all add: tags_of_def tag_count_def)
  have "wf_tags (kx_keyset_id ` set ?rows) ?tags"
    using wf_keysets_tags [OF wf] filter_kept_tags [of _ ids tags] same
    by (auto simp: wf_tags_def)
  moreover have "keyset_row_ok dig ?tags r" if "r \<in> set ?rows" for r
    using wf that keyset_row_ok_cong [of r ?tags tags dig] same by (auto simp: wf_keysets_def)
  ultimately show ?thesis using wf by (simp add: wf_keysets_def unique_keys_delete)
qed

lemma wf_keysets_expire_retained [simp]:
  "wf_snapshots cfg d \<Longrightarrow> wf_snapshots cfg (expire_retained_keysets now d)"
  "wf_tombstones cfg d \<Longrightarrow> wf_tombstones cfg (expire_retained_keysets now d)"
  by (simp_all add: wf_snapshots_def wf_tombstones_def expire_retained_keysets_def Let_def wf_keysets_expire)

section \<open>Tombstone keysets stay well-formed and ordered\<close>

definition ordered_tags :: "tombstone_tag list \<Rightarrow> bool" where
  "ordered_tags ts \<longleftrightarrow> sorted_wrt (<) (map tt_event_sequence ts)"

definition ordered_tombstones :: "'ev db \<Rightarrow> bool" where
  "ordered_tombstones d \<longleftrightarrow> (\<forall>k \<in> kx_keyset_id ` set (db_tombstone_keysets d).
     ordered_tags (tags_of k (db_tombstone_tags d)))"

definition ahead :: "int option \<Rightarrow> tombstone_tag list \<Rightarrow> bool" where
  "ahead s ts \<longleftrightarrow> (case s of None \<Rightarrow> True | Some x \<Rightarrow> \<forall>t \<in> set ts. x < tt_event_sequence t) \<and> ordered_tags ts"

lemma ahead_Cons:
  "ahead s (t # ts) \<longleftrightarrow> (case s of None \<Rightarrow> True | Some x \<Rightarrow> x < tt_event_sequence t)
     \<and> ahead (Some (tt_event_sequence t)) ts"
  by (cases s) (force simp: ahead_def ordered_tags_def)+

lemma insert_tombstones_eq:
  assumes "\<forall>r \<in> set rows. tx_keyset_id r = k \<longrightarrow> tx_seq r < n"
  shows "insert_tombstones k s n ts rows =
    (if ahead s ts then Inr (rows @ page_rows k n ts) else raise Sequence_conflict)"
  using assms
proof (induction ts arbitrary: s n rows)
  case Nil
  then show ?case by (simp add: ahead_def ordered_tags_def split: option.splits)
next
  case (Cons t ts)
  let ?r = "\<lparr>tx_keyset_id = k, tx_seq = n, tx_tag = t\<rparr>"
  have fresh: "lookup_row tag_key (tag_key ?r) rows = None"
    using Cons.prems by (auto simp: lookup_row_None tag_key_def)
  have "insert_tombstones k (Some (tt_event_sequence t)) (Suc n) ts (rows @ [?r]) =
      (if ahead (Some (tt_event_sequence t)) ts then Inr ((rows @ [?r]) @ page_rows k (Suc n) ts)
       else raise Sequence_conflict)"
    by (rule Cons.IH) (use Cons.prems in auto)
  then show ?case
    by (cases s) (auto simp: ahead_Cons insert_row_fresh [OF fresh])
qed

lemma ordered_tags_append:
  "ordered_tags (xs @ ys) \<longleftrightarrow> ordered_tags xs \<and>
     ahead (if xs = [] then None else Some (tt_event_sequence (last xs))) ys"
proof (cases "xs = []")
  case True
  then show ?thesis by (simp add: ahead_def ordered_tags_def)
next
  case False
  have "x \<le> last zs" if "x \<in> set zs" "sorted_wrt (<) zs" for x :: int and zs
  proof -
    from that have "zs \<noteq> []" by auto
    with that have "sorted (butlast zs @ [last zs])" "x \<in> set (butlast zs @ [last zs])"
      by (simp_all add: strict_sorted_imp_sorted)
    then show ?thesis by (auto simp: sorted_append)
  qed
  from this [of _ "map tt_event_sequence xs"] False
  have below: "tt_event_sequence x \<le> tt_event_sequence (last xs)" if "x \<in> set xs" "ordered_tags xs" for x
    using that by (auto simp: ordered_tags_def last_map)
  have "last xs \<in> set xs" using False by simp
  with False below show ?thesis
    by (auto simp: ordered_tags_def ahead_def sorted_wrt_append sorted_wrt_map) (meson le_less_trans)+
qed

lemma begin_tombstone_body_Inr:
  assumes ok: "begin_tombstone_body cfg req d = Inr (ks, d')"
    and wf: "wf_tombstones cfg d" and ord: "ordered_tombstones d"
  shows "wf_tombstones cfg d'" and "ordered_tombstones d'"
    and "d' = d\<lparr>db_tombstone_keysets := db_tombstone_keysets d'\<rparr>"
proof -
  let ?k = "sc_keyset_id cfg (kr_logical_identity req) (kr_visibility req) ''tombstone''"
  show "d' = d\<lparr>db_tombstone_keysets := db_tombstone_keysets d'\<rparr>"
    using ok by (auto simp: begin_tombstone_body_def Let_def split: option.splits if_splits)
  have "wf_tombstones cfg d' \<and> ordered_tombstones d'"
  proof (cases "lookup_row kx_keyset_id ?k (db_tombstone_keysets d)")
    case (Some r)
    with ok wf ord show ?thesis by (auto simp: begin_tombstone_body_def Let_def split: if_splits)
  next
    case None
    let ?row = "new_keyset_row ?k (kr_logical_identity req) (kr_visibility req) (kr_hmac_key_id req)
      (kr_key_commitment req) ks"
    from None ok have ks: "ks = \<lparr>ks_keyset_id = ?k, ks_logical_identity = kr_logical_identity req,
             ks_visibility = kr_visibility req, ks_record_key_scope = kr_record_key_scope req,
             ks_hmac_key_id = kr_hmac_key_id req, ks_key_commitment = kr_key_commitment req,
             ks_keyset_ref = ?k, ks_keyset_digest = None, ks_key_count = 0, ks_complete = False,
             tk_event_sequence_low = None, tk_event_sequence_high = None\<rparr>"
      and d': "d' = d\<lparr>db_tombstone_keysets := db_tombstone_keysets d @ [?row]\<rparr>"
      by (auto simp: begin_tombstone_body_def insert_row_fresh Let_def)
    have rok: "keyset_row_ok (tombstone_seal cfg) [] ?row" by (simp add: keyset_row_ok_def ks)
    have wfk: "wf_keysets (tombstone_seal cfg) (db_tombstone_keysets d) (db_tombstone_tags d)"
      using wf by (simp add: wf_tombstones_def)
    have "wf_tombstones cfg d'"
      using wf_keysets_open [OF wfk, of ?row] None rok by (simp add: wf_tombstones_def d')
    moreover have "tags_of ?k (db_tombstone_tags d) = []"
      using None by (intro tags_of_absent [OF wf_keysets_tags [OF wfk]]) (simp add: lookup_row_None)
    ultimately show ?thesis using ord by (auto simp: ordered_tombstones_def d' ordered_tags_def)
  qed
  then show "wf_tombstones cfg d'" and "ordered_tombstones d'" by blast+
qed

lemma begin_tombstone_body_Inl:
  "begin_tombstone_body cfg req d = Inl e \<Longrightarrow> e = Port_error Key_commitment_conflict"
  by (auto simp: begin_tombstone_body_def Let_def insert_row_fresh split: option.splits if_splits)

lemma append_tombstone_body_Inr:
  assumes ok: "append_tombstone_body page d = Inr (ks, d')" and wf: "wf_tombstones cfg d"
  defines "k \<equiv> tg_keyset_id page"
  defines "tags \<equiv> tags_of k (db_tombstone_tags d) @ tg_items page"
  obtains r where
    "lookup_row kx_keyset_id k (db_tombstone_keysets d) = Some r" "\<not> kx_complete r"
    "ahead (if tags_of k (db_tombstone_tags d) = [] then None
       else Some (tt_event_sequence (last (tags_of k (db_tombstone_tags d))))) (tg_items page)"
    "ks = (kx_json r)\<lparr>ks_key_count := length tags,
       tk_event_sequence_low := (if tags = [] then None else Some (tt_event_sequence (hd tags))),
       tk_event_sequence_high := (if tags = [] then None else Some (tt_event_sequence (last tags)))\<rparr>"
    "d' = d\<lparr>db_tombstone_tags := db_tombstone_tags d @
             page_rows k (tag_count k (db_tombstone_tags d)) (tg_items page),
            db_tombstone_keysets := update_row kx_keyset_id k (\<lambda>r. r\<lparr>kx_json := ks\<rparr>)
             (db_tombstone_keysets d)\<rparr>"
proof -
  let ?rows = "db_tombstone_tags d @ page_rows k (tag_count k (db_tombstone_tags d)) (tg_items page)"
  let ?last = "if tags_of k (db_tombstone_tags d) = [] then None
       else Some (tt_event_sequence (last (tags_of k (db_tombstone_tags d))))"
  have wfk: "wf_keysets (tombstone_seal cfg) (db_tombstone_keysets d) (db_tombstone_tags d)"
    using wf by (simp add: wf_tombstones_def)
  from ok obtain r where r: "lookup_row kx_keyset_id k (db_tombstone_keysets d) = Some r" "\<not> kx_complete r"
    by (auto simp: append_tombstone_body_def Let_def k_def)
  note ids = wf_keysets_tags [OF wfk] lookup_image [OF r(1)]
  note ins = insert_tombstones_eq [OF wf_tags_below [OF ids], of ?last "tg_items page"]
  have tags: "tags_of k ?rows = tags"
    using wf_tags_page(2) [OF ids ids(2), of "tg_items page"] by (simp add: tags_def)
  from ok r have go: "bind (insert_tombstones k ?last (tag_count k (db_tombstone_tags d)) (tg_items page)
        (db_tombstone_tags d)) (\<lambda>rows. let tags = tags_of k rows;
          keyset = (kx_json r)\<lparr>ks_key_count := length tags,
            tk_event_sequence_low := (if tags = [] then None else Some (tt_event_sequence (hd tags))),
            tk_event_sequence_high := (if tags = [] then None else Some (tt_event_sequence (last tags)))\<rparr>
      in Inr (keyset, d\<lparr>db_tombstone_tags := rows,
           db_tombstone_keysets := update_row kx_keyset_id k (\<lambda>r. r\<lparr>kx_json := keyset\<rparr>)
             (db_tombstone_keysets d)\<rparr>)) = Inr (ks, d')"
    unfolding append_tombstone_body_def Let_def k_def [symmetric] by auto
  show ?thesis
  proof (cases "ahead ?last (tg_items page)")
    case True
    from go show ?thesis
      unfolding ins if_P [OF True] bind_simps(1) Let_def tags
      by (intro that [OF r True]) auto
  next
    case False
    with go ins show ?thesis by simp
  qed
qed

lemma append_tombstone_body_effect:
  assumes ok: "append_tombstone_body page d = Inr (ks, d')"
    and wf: "wf_tombstones cfg d" and ord: "ordered_tombstones d"
  shows "wf_tombstones cfg d'" and "ordered_tombstones d'"
    and "k \<in> kx_keyset_id ` set (db_tombstone_keysets d) \<Longrightarrow> tags_of k (db_tombstone_tags d') =
      (if k = tg_keyset_id page then tags_of k (db_tombstone_tags d) @ tg_items page
       else tags_of k (db_tombstone_tags d))"
    and "map kx_keyset_id (db_tombstone_keysets d') = map kx_keyset_id (db_tombstone_keysets d)"
    and "map_option kx_complete (lookup_row kx_keyset_id k (db_tombstone_keysets d')) =
         map_option kx_complete (lookup_row kx_keyset_id k (db_tombstone_keysets d))"
proof -
  let ?k = "tg_keyset_id page"
  let ?tags = "tags_of ?k (db_tombstone_tags d) @ tg_items page"
  from ok wf obtain r where r: "lookup_row kx_keyset_id ?k (db_tombstone_keysets d) = Some r" "\<not> kx_complete r"
    and ahd: "ahead (if tags_of ?k (db_tombstone_tags d) = [] then None
       else Some (tt_event_sequence (last (tags_of ?k (db_tombstone_tags d))))) (tg_items page)"
    and ks: "ks = (kx_json r)\<lparr>ks_key_count := length ?tags,
       tk_event_sequence_low := (if ?tags = [] then None else Some (tt_event_sequence (hd ?tags))),
       tk_event_sequence_high := (if ?tags = [] then None else Some (tt_event_sequence (last ?tags)))\<rparr>"
    and d': "d' = d\<lparr>db_tombstone_tags := db_tombstone_tags d @
             page_rows ?k (tag_count ?k (db_tombstone_tags d)) (tg_items page),
            db_tombstone_keysets := update_row kx_keyset_id ?k (\<lambda>r. r\<lparr>kx_json := ks\<rparr>)
             (db_tombstone_keysets d)\<rparr>"
    by (rule append_tombstone_body_Inr)
  have wfk: "wf_keysets (tombstone_seal cfg) (db_tombstone_keysets d) (db_tombstone_tags d)"
    using wf by (simp add: wf_tombstones_def)
  note T = wf_tags_page [OF wf_keysets_tags [OF wfk] lookup_image [OF r(1)], where ts = "tg_items page"]
  note R = wf_keysets_lookup [OF wfk r(1)]
  have "keyset_row_ok (tombstone_seal cfg) (db_tombstone_tags d') (r\<lparr>kx_json := ks\<rparr>)"
    using R r(2) by (simp add: d' ks keyset_row_ok_def Let_def tag_count_tags_of)
  then show "wf_tombstones cfg d'"
    unfolding wf_tombstones_def d'
    using T wfk r(1) by simp (rule wf_keysets_update; simp)
  show keys: "map kx_keyset_id (db_tombstone_keysets d') = map kx_keyset_id (db_tombstone_keysets d)"
    by (simp add: d' map_key_update_row)
  then have ids: "kx_keyset_id ` set (db_tombstone_keysets d') = kx_keyset_id ` set (db_tombstone_keysets d)"
    by (metis set_map)
  have content: "tags_of k (db_tombstone_tags d') =
      (if k = ?k then tags_of k (db_tombstone_tags d) @ tg_items page else tags_of k (db_tombstone_tags d))"
    if "k \<in> kx_keyset_id ` set (db_tombstone_keysets d)" for k
    using T(2) [OF that] by (simp add: d')
  then show "k \<in> kx_keyset_id ` set (db_tombstone_keysets d) \<Longrightarrow> tags_of k (db_tombstone_tags d') =
      (if k = ?k then tags_of k (db_tombstone_tags d) @ tg_items page else tags_of k (db_tombstone_tags d))" .
  show "ordered_tombstones d'"
    using ord ahd content ids by (auto simp: ordered_tombstones_def ordered_tags_append)
  show "map_option kx_complete (lookup_row kx_keyset_id k (db_tombstone_keysets d')) =
         map_option kx_complete (lookup_row kx_keyset_id k (db_tombstone_keysets d))"
    by (simp add: d' lookup_row_update option.map_comp comp_def)
qed

lemma append_tombstone_body_Inl:
  assumes err: "append_tombstone_body page d = Inl e" and wf: "wf_tombstones cfg d"
  shows "e \<in> Port_error ` {Not_found, Integrity_error, Sequence_conflict}"
proof (cases "lookup_row kx_keyset_id (tg_keyset_id page) (db_tombstone_keysets d)")
  case None
  then show ?thesis using err by (auto simp: append_tombstone_body_def load_keyset_def)
next
  case (Some r)
  have wfk: "wf_keysets (tombstone_seal cfg) (db_tombstone_keysets d) (db_tombstone_tags d)"
    using wf by (simp add: wf_tombstones_def)
  note ins = insert_tombstones_eq [OF wf_tags_below [OF wf_keysets_tags [OF wfk] lookup_image [OF Some]]]
  from Some err show ?thesis
    by (auto simp: append_tombstone_body_def Let_def load_keyset_def bind_eq_Inl ins split: if_splits)
qed

lemma complete_tombstone_body_Inr:
  assumes ok: "complete_tombstone_body cfg c d = Inr (ks, d')" and wf: "wf_tombstones cfg d"
    and ord: "ordered_tombstones d"
  shows "wf_tombstones cfg d'" and "ordered_tombstones d'"
    and "d' = d\<lparr>db_tombstone_keysets := db_tombstone_keysets d'\<rparr>"
    and "map kx_keyset_id (db_tombstone_keysets d') = map kx_keyset_id (db_tombstone_keysets d)"
    and "map_option kx_complete (lookup_row kx_keyset_id k (db_tombstone_keysets d')) =
         (if k = kc_keyset_id c then Some True
          else map_option kx_complete (lookup_row kx_keyset_id k (db_tombstone_keysets d)))"
    and "ks_keyset_digest ks = Some (tombstone_seal cfg ks (tags_of (kc_keyset_id c) (db_tombstone_tags d)))"
    and "ks_key_count ks = length (tags_of (kc_keyset_id c) (db_tombstone_tags d))"
    and "tk_event_sequence_low ks = tc_event_sequence_low c"
    and "tk_event_sequence_high ks = tc_event_sequence_high c"
proof -
  let ?k = "kc_keyset_id c"
  let ?tags = "tags_of ?k (db_tombstone_tags d)"
  from ok obtain r where r: "lookup_row kx_keyset_id ?k (db_tombstone_keysets d) = Some r"
    and n: "length ?tags = kc_expected_key_count c"
    and dg: "tombstone_seal cfg (kx_json r) ?tags = kc_expected_keyset_digest c"
    and ks: "ks = (kx_json r)\<lparr>ks_complete := True, ks_keyset_digest := Some (kc_expected_keyset_digest c),
            tk_event_sequence_low := tc_event_sequence_low c,
            tk_event_sequence_high := tc_event_sequence_high c\<rparr>"
    and d': "d' = d\<lparr>db_tombstone_keysets := update_row kx_keyset_id ?k
               (\<lambda>r. r\<lparr>kx_complete := True, kx_json := ks\<rparr>) (db_tombstone_keysets d)\<rparr>"
    by (auto simp: complete_tombstone_body_def Let_def tombstone_seal_def)
  have wfk: "wf_keysets (tombstone_seal cfg) (db_tombstone_keysets d) (db_tombstone_tags d)"
    using wf by (simp add: wf_tombstones_def)
  note R = wf_keysets_lookup [OF wfk r]
  have seal: "tombstone_seal cfg ks ts = tombstone_seal cfg (kx_json r) ts" for ts
    by (simp add: ks tombstone_seal_def)
  have "keyset_row_ok (tombstone_seal cfg) (db_tombstone_tags d) (r\<lparr>kx_complete := True, kx_json := ks\<rparr>)"
    using R dg seal by (simp add: ks keyset_row_ok_def Let_def)
  then show "wf_tombstones cfg d'"
    unfolding wf_tombstones_def d' using wfk r wf_keysets_tags [OF wfk]
    by simp (rule wf_keysets_update; simp)
  show "d' = d\<lparr>db_tombstone_keysets := db_tombstone_keysets d'\<rparr>" by (simp add: d')
  show keys: "map kx_keyset_id (db_tombstone_keysets d') = map kx_keyset_id (db_tombstone_keysets d)"
    by (simp add: d' map_key_update_row)
  then have "kx_keyset_id ` set (db_tombstone_keysets d') = kx_keyset_id ` set (db_tombstone_keysets d)"
    by (metis set_map)
  then show "ordered_tombstones d'" using ord by (simp add: ordered_tombstones_def) (simp add: d')
  show "map_option kx_complete (lookup_row kx_keyset_id k (db_tombstone_keysets d')) =
         (if k = ?k then Some True
          else map_option kx_complete (lookup_row kx_keyset_id k (db_tombstone_keysets d)))"
    using r by (simp add: d' lookup_row_update)
  show "ks_keyset_digest ks = Some (tombstone_seal cfg ks ?tags)"
    and "ks_key_count ks = length ?tags"
    and "tk_event_sequence_low ks = tc_event_sequence_low c"
    and "tk_event_sequence_high ks = tc_event_sequence_high c"
    using R n dg by (simp_all add: ks keyset_row_ok_def Let_def tag_count_tags_of tombstone_seal_def)
qed

lemma complete_tombstone_body_Inl:
  "complete_tombstone_body cfg c d = Inl e \<Longrightarrow> e \<in> Port_error ` {Not_found, Integrity_error}"
  by (auto simp: complete_tombstone_body_def Let_def bind_eq_Inl dest: load_keyset_Inl)

lemma mark_successor_ids: "kx_keyset_id ` set (mark_successor u k rows) = kx_keyset_id ` set rows"
proof -
  have "map kx_keyset_id (mark_successor u k rows) = map kx_keyset_id rows"
    by (simp add: mark_successor_def map_key_update_row)
  then show ?thesis by (metis set_map)
qed

lemma absent_content:
  "wf_keysets dig rows tags \<Longrightarrow> k \<notin> kx_keyset_id ` set rows \<Longrightarrow> tags_of k tags = []"
  by (rule tags_of_absent(1) [OF wf_keysets_tags])

lemma finalize_tombstone_body_Inr:
  assumes ok: "finalize_tombstone_body cfg clock req d = Inr (intent, d')"
    and wf: "wf_tombstones cfg d" and ord: "ordered_tombstones d"
  defines "k \<equiv> ks_keyset_id (tr_keyset req)"
  shows "wf_tombstones cfg d'" and "ordered_tombstones d'"
    and "d' = d\<lparr>db_tombstone_keysets :=
          mark_successor (add_utc clock (sc_deletion_keyset_days cfg * 86400)) k (db_tombstone_keysets d)\<rparr>"
    and "\<exists>r. lookup_row kx_keyset_id k (db_tombstone_keysets d) = Some r \<and> kx_complete r
      \<and> kx_hmac_key_id r = ks_hmac_key_id (tr_keyset req)
      \<and> kx_key_commitment r = ks_key_commitment (tr_keyset req)
      \<and> de_deleted_keyset_digest intent = tombstone_seal cfg (kx_json r) (tags_of k (db_tombstone_tags d))
      \<and> de_deleted_key_count intent = length (tags_of k (db_tombstone_tags d))
      \<and> de_delete_strategy intent = Explicit_tombstone"
proof -
  have wfk: "wf_keysets (tombstone_seal cfg) (db_tombstone_keysets d) (db_tombstone_tags d)"
    using wf by (simp add: wf_tombstones_def)
  from ok obtain r where r: "lookup_row kx_keyset_id k (db_tombstone_keysets d) = Some r"
    by (auto simp: finalize_tombstone_body_def k_def)
  note R = wf_keysets_lookup [OF wfk r]
  have id: "ks_keyset_id (kx_json r) = k" using R by (simp add: keyset_row_ok_def Let_def)
  from ok r id show d': "d' = d\<lparr>db_tombstone_keysets :=
          mark_successor (add_utc clock (sc_deletion_keyset_days cfg * 86400)) k (db_tombstone_keysets d)\<rparr>"
    by (auto simp: finalize_tombstone_body_def k_def [symmetric] Let_def mark_successor_def
        split: option.splits)
  from ok r R show "\<exists>r. lookup_row kx_keyset_id k (db_tombstone_keysets d) = Some r \<and> kx_complete r
      \<and> kx_hmac_key_id r = ks_hmac_key_id (tr_keyset req)
      \<and> kx_key_commitment r = ks_key_commitment (tr_keyset req)
      \<and> de_deleted_keyset_digest intent = tombstone_seal cfg (kx_json r) (tags_of k (db_tombstone_tags d))
      \<and> de_deleted_key_count intent = length (tags_of k (db_tombstone_tags d))
      \<and> de_delete_strategy intent = Explicit_tombstone"
    by (auto simp: finalize_tombstone_body_def k_def [symmetric] Let_def keyset_row_ok_def sealed_intent_def
        tag_count_tags_of split: option.splits)
  show "wf_tombstones cfg d'" using wfk by (simp add: wf_tombstones_def d' wf_keysets_mark)
  have "kx_keyset_id ` set (db_tombstone_keysets d') = kx_keyset_id ` set (db_tombstone_keysets d)"
    unfolding d' by (simp add: mark_successor_ids)
  then show "ordered_tombstones d'" using ord by (simp add: ordered_tombstones_def) (simp add: d')
qed

text \<open>In a well-formed store a complete keyset has its digest: the evidence always validates.\<close>

lemma finalize_tombstone_body_Inl:
  assumes err: "finalize_tombstone_body cfg clock req d = Inl e" and wf: "wf_tombstones cfg d"
  shows "e \<in> Port_error ` {Not_found, Integrity_error, Key_commitment_conflict}"
proof (cases "lookup_row kx_keyset_id (ks_keyset_id (tr_keyset req)) (db_tombstone_keysets d)")
  case None
  then show ?thesis using err by (auto simp: finalize_tombstone_body_def load_keyset_def)
next
  case (Some r)
  have wfk: "wf_keysets (tombstone_seal cfg) (db_tombstone_keysets d) (db_tombstone_tags d)"
    using wf by (simp add: wf_tombstones_def)
  from wf_keysets_lookup [OF wfk Some] have
    "ks_complete (kx_json r) \<Longrightarrow> ks_keyset_digest (kx_json r) \<noteq> None"
    by (auto simp: keyset_row_ok_def Let_def split: if_splits)
  with Some err show ?thesis
    by (auto simp: finalize_tombstone_body_def load_keyset_def Let_def bind_eq_Inl split: option.splits)
qed

lemma ordered_expire [simp]:
  assumes "ordered_tombstones d"
  shows "ordered_tombstones (expire_retained_keysets now d)"
proof -
  let ?ids = "expired_ids now (db_tombstone_keysets d)"
  have "tags_of k (delete_rows (\<lambda>r. tx_keyset_id r \<in> set ?ids) (db_tombstone_tags d)) =
      tags_of k (db_tombstone_tags d)" if "k \<notin> set ?ids" for k
    using filter_kept_tags [OF that, of "db_tombstone_tags d"] by (simp add: tags_of_def)
  with assms show ?thesis by (auto simp: ordered_tombstones_def expire_retained_keysets_def Let_def)
qed

section \<open>Keysets are sealed logs\<close>

definition run_body :: "('p \<Rightarrow> 'd \<Rightarrow> ('r \<times> 'd) result) \<Rightarrow> 'p \<Rightarrow> 'd \<Rightarrow> 'd result" where
  "run_body f p d = bind (f p d) (\<lambda>x. Inr (snd x))"

lemma run_body_Inr: "run_body f p d = Inr d' \<longleftrightarrow> (\<exists>x. f p d = Inr (x, d'))"
  by (auto simp: run_body_def)

definition snapshot_content :: "digest \<Rightarrow> 'ev db \<Rightarrow> digest list" where
  "snapshot_content k d = tags_of k (db_snapshot_tags d)"

definition snapshot_sealed :: "digest \<Rightarrow> 'ev db \<Rightarrow> bool" where
  "snapshot_sealed k d \<longleftrightarrow> map_option kx_complete (lookup_row kx_keyset_id k (db_snapshot_keysets d)) = Some True"

definition tombstone_content :: "digest \<Rightarrow> 'ev db \<Rightarrow> tombstone_tag list" where
  "tombstone_content k d = tags_of k (db_tombstone_tags d)"

definition tombstone_sealed :: "digest \<Rightarrow> 'ev db \<Rightarrow> bool" where
  "tombstone_sealed k d \<longleftrightarrow> map_option kx_complete (lookup_row kx_keyset_id k (db_tombstone_keysets d)) = Some True"

lemma append_snapshot_content:
  assumes ok: "append_snapshot_body page d = Inr (ks, d')" and wf: "wf_snapshots cfg d"
  shows "snapshot_content k d' =
    (if k = kp_keyset_id page then snapshot_content k d @ kp_tags page else snapshot_content k d)"
proof (cases "k \<in> kx_keyset_id ` set (db_snapshot_keysets d)")
  case True
  with append_snapshot_body_effect(2) [OF assms True] show ?thesis by (simp add: snapshot_content_def)
next
  case False
  have "map kx_keyset_id (db_snapshot_keysets d') = map kx_keyset_id (db_snapshot_keysets d)"
    by (rule append_snapshot_body_effect(3) [OF assms])
  then have "k \<notin> kx_keyset_id ` set (db_snapshot_keysets d')" using False by (metis set_map)
  moreover have "kp_keyset_id page \<in> kx_keyset_id ` set (db_snapshot_keysets d)"
    using ok by (auto simp: append_snapshot_body_def Let_def lookup_image)
  moreover have "wf_keysets (snapshot_seal cfg) (db_snapshot_keysets d') (db_snapshot_tags d')"
    and "wf_keysets (snapshot_seal cfg) (db_snapshot_keysets d) (db_snapshot_tags d)"
    using append_snapshot_body_effect(1) [OF assms] wf by (simp_all add: wf_snapshots_def)
  ultimately show ?thesis
    using False absent_content [of "snapshot_seal cfg"] by (auto simp: snapshot_content_def)
qed

lemma append_tombstone_content:
  assumes ok: "append_tombstone_body page d = Inr (ks, d')" and wf: "wf_tombstones cfg d"
    and ord: "ordered_tombstones d"
  shows "tombstone_content k d' =
    (if k = tg_keyset_id page then tombstone_content k d @ tg_items page else tombstone_content k d)"
proof (cases "k \<in> kx_keyset_id ` set (db_tombstone_keysets d)")
  case True
  with append_tombstone_body_effect(3) [OF assms True] show ?thesis by (simp add: tombstone_content_def)
next
  case False
  have "map kx_keyset_id (db_tombstone_keysets d') = map kx_keyset_id (db_tombstone_keysets d)"
    by (rule append_tombstone_body_effect(4) [OF assms])
  then have "k \<notin> kx_keyset_id ` set (db_tombstone_keysets d')" using False by (metis set_map)
  moreover have "tg_keyset_id page \<in> kx_keyset_id ` set (db_tombstone_keysets d)"
    using ok by (auto simp: append_tombstone_body_def Let_def lookup_image)
  moreover have "wf_keysets (tombstone_seal cfg) (db_tombstone_keysets d') (db_tombstone_tags d')"
    and "wf_keysets (tombstone_seal cfg) (db_tombstone_keysets d) (db_tombstone_tags d)"
    using append_tombstone_body_effect(1) [OF assms] wf by (simp_all add: wf_tombstones_def)
  ultimately show ?thesis
    using False absent_content [of "tombstone_seal cfg"] by (auto simp: tombstone_content_def)
qed

interpretation snapshots: sealed_log snapshot_content snapshot_sealed
    "run_body append_snapshot_body" kp_keyset_id kp_tags
    "run_body (complete_snapshot_body cfg)" kc_keyset_id "wf_snapshots cfg"
proof (unfold_locales, goal_cases)
  case (1 d page d' k)
  then obtain ks where ok: "append_snapshot_body page d = Inr (ks, d')" by (auto simp: run_body_Inr)
  note E = append_snapshot_body_effect [OF ok 1(1)]
  from ok 1(1) have "\<not> snapshot_sealed (kp_keyset_id page) d"
    by (rule append_snapshot_body_Inr) (simp add: snapshot_sealed_def)
  then show ?case
    using E append_snapshot_content [OF ok 1(1)] by (simp add: snapshot_sealed_def)
next
  case (2 d c d' k)
  then obtain ks where ok: "complete_snapshot_body cfg c d = Inr (ks, d')" by (auto simp: run_body_Inr)
  note E = complete_snapshot_body_Inr [OF ok 2(1)]
  have "db_snapshot_tags d' = db_snapshot_tags d" by (subst E(2)) simp
  then show ?case using E(1,4) by (simp add: snapshot_sealed_def snapshot_content_def)
qed

definition wf_tombstone_log :: "'ev store_config \<Rightarrow> 'ev db \<Rightarrow> bool" where
  "wf_tombstone_log cfg d \<longleftrightarrow> wf_tombstones cfg d \<and> ordered_tombstones d"

interpretation tombstones: sealed_log tombstone_content tombstone_sealed
    "run_body append_tombstone_body" tg_keyset_id tg_items
    "run_body (complete_tombstone_body cfg)" kc_keyset_id "wf_tombstone_log cfg"
proof (unfold_locales, goal_cases)
  case (1 d page d' k)
  then obtain ks where ok: "append_tombstone_body page d = Inr (ks, d')" by (auto simp: run_body_Inr)
  from 1(1) have wf: "wf_tombstones cfg d" "ordered_tombstones d" by (simp_all add: wf_tombstone_log_def)
  note E = append_tombstone_body_effect [OF ok wf]
  from ok wf(1) have "\<not> tombstone_sealed (tg_keyset_id page) d"
    by (rule append_tombstone_body_Inr) (simp add: tombstone_sealed_def)
  then show ?case
    using E append_tombstone_content [OF ok wf] by (simp add: tombstone_sealed_def wf_tombstone_log_def)
next
  case (2 d c d' k)
  then obtain ks where ok: "complete_tombstone_body cfg c d = Inr (ks, d')" by (auto simp: run_body_Inr)
  from 2(1) have wf: "wf_tombstones cfg d" "ordered_tombstones d" by (simp_all add: wf_tombstone_log_def)
  note E = complete_tombstone_body_Inr [OF ok wf]
  have "db_tombstone_tags d' = db_tombstone_tags d" by (subst E(3)) simp
  then show ?case using E(1,2,5) by (simp add: tombstone_sealed_def tombstone_content_def wf_tombstone_log_def)
qed

end
