(* ===== verification/Store_Machine.thy ===== *)
theory Store_Machine
  imports Keysets
begin

text \<open>
  The delivery state store as a state machine: every public operation of \<open>SqliteStateStore\<close> and of the
  lifecycle sink that writes is a step, and what holds of the empty file and survives every step holds of
  every file the store can have. The four operations that compare and swap the stream's revision
  discharge the contract of \<open>Optimistic_Store\<close>.
\<close>

section \<open>Optimistic writers\<close>

datatype (plugins only: code) 'ev store_request =
    Contract_request contract_lifecycle_request
  | Deployment_request deployment_lifecycle_request
  | State_request "'ev state_transaction"
  | Failure_request failure_transaction

definition answered :: "'a result \<times> 'd \<Rightarrow> unit result \<times> 'd" where
  "answered p = (map_sum id (\<lambda>_. ()) (fst p), snd p)"

lemma answered_iff [simp]:
  "answered p = (Inr u, d) \<longleftrightarrow> (\<exists>x. p = (Inr x, d))"
  "answered p = (Inl e, d) \<longleftrightarrow> p = (Inl e, d)"
  by (cases p; cases "fst p"; auto simp: answered_def)+

text \<open>A request and the instant its transaction starts.\<close>

fun store_exec :: "'ev store_config \<Rightarrow> instant \<times> 'ev store_request \<Rightarrow> 'ev db \<Rightarrow> unit result \<times> 'ev db" where
  "store_exec cfg (now, Contract_request q) d = answered (contract_lifecycle cfg now q d)"
| "store_exec cfg (now, Deployment_request q) d = answered (deployment_lifecycle cfg now q d)"
| "store_exec cfg (now, State_request q) d = answered (state_transaction cfg now q d)"
| "store_exec cfg (now, Failure_request q) d = answered (fail_outbox cfg now q d)"

fun request_stream :: "instant \<times> 'ev store_request \<Rightarrow> logical_identity" where
  "request_stream (_, Contract_request q) = lc_logical_identity (cl_contract q)"
| "request_stream (_, Deployment_request q) = rt_logical_identity (dr_deployment q)"
| "request_stream (_, State_request q) = st_logical_identity (tx_next_state q)"
| "request_stream (_, Failure_request q) = st_logical_identity (ft_next_state q)"

fun request_expected :: "instant \<times> 'ev store_request \<Rightarrow> nat" where
  "request_expected (_, Contract_request q) = cl_expected_state_revision q"
| "request_expected (_, Deployment_request q) = dr_expected_state_revision q"
| "request_expected (_, State_request q) = tx_expected_state_revision q"
| "request_expected (_, Failure_request q) = ft_expected_state_revision q"

fun request_next :: "instant \<times> 'ev store_request \<Rightarrow> nat" where
  "request_next (_, Contract_request q) = cl_expected_state_revision q + 1"
| "request_next (_, Deployment_request q) = dr_expected_state_revision q + 1"
| "request_next (_, State_request q) = st_state_revision (tx_next_state q)"
| "request_next (_, Failure_request q) = st_state_revision (ft_next_state q)"

lemma lifecycle_frame:
  assumes "contract_lifecycle_body cfg req d = Inr (res, d')" and "wf_store d"
  shows "wf_ledgers d' = wf_ledgers d" and "same_keysets d d'" and "db_confirmations d' = db_confirmations d"
proof -
  have wa: "wf_attempts (db_attempts d)" using assms(2) by (simp add: wf_store_def)
  from assms(1) have "wf_ledgers d' = wf_ledgers d \<and> same_keysets d d' \<and> db_confirmations d' = db_confirmations d"
  proof (cases rule: contract_lifecycle_body_Inr)
    case (registered row)
    then show ?thesis by (simp add: same_keysets_def)
  next
    case (activated row d1)
    obtain a where "d1 = d\<lparr>db_attempts := a\<rparr>"
      using fence_attempts_rows(2) [OF activated(7) wa] by blast
    with activated(9) show ?thesis by (simp add: same_keysets_def wf_ledgers_def)
  qed
  then show "wf_ledgers d' = wf_ledgers d" and "same_keysets d d'" and "db_confirmations d' = db_confirmations d"
    by blast+
qed

lemma deployment_frame:
  assumes "deployment_lifecycle_body cfg req d = Inr (res, d')" and "wf_store d"
  shows "wf_ledgers d' = wf_ledgers d" and "same_keysets d d'" and "db_confirmations d' = db_confirmations d"
proof -
  have wa: "wf_attempts (db_attempts d)" using assms(2) by (simp add: wf_store_def)
  from assms(1) obtain row d1 where
      fin: "(res, d') = finish_deployment req row (dt_deployment res) (dt_fenced_attempt_ids res) d1"
    and d1: "d1 = d \<or> fence_attempts cfg (rt_logical_identity (dr_deployment req)) Superseded_deployment
         (dr_permit_pre_intent_fence req) d = Inr (dt_fenced_attempt_ids res, d1)"
    by (cases rule: deployment_lifecycle_body_Inr) auto
  from d1 obtain a where a: "d1 = d\<lparr>db_attempts := a\<rparr>"
  proof
    assume "d1 = d"
    then show ?thesis by (intro that [of "db_attempts d"]) simp
  next
    assume "fence_attempts cfg (rt_logical_identity (dr_deployment req)) Superseded_deployment
         (dr_permit_pre_intent_fence req) d = Inr (dt_fenced_attempt_ids res, d1)"
    from fence_attempts_rows(2) [OF this wa] show ?thesis by (rule that)
  qed
  have "snd (res, d') = snd (finish_deployment req row (dt_deployment res) (dt_fenced_attempt_ids res) d1)"
    by (simp only: fin)
  then obtain s f where "d' = save_state s f d1" by (simp add: finish_deployment_def Let_def)
  with a show "wf_ledgers d' = wf_ledgers d" and "same_keysets d d'"
    and "db_confirmations d' = db_confirmations d" by (simp_all add: same_keysets_def wf_ledgers_def)
qed

lemma store_exec_Inr:
  assumes ok: "store_exec cfg q d = (Inr u, d')" and wf: "wf_store d"
  shows "wf_store d'" and "same_keysets (expire_retained_keysets (fst q) d) d'"
    and "stream_rev (request_stream q) d = Some (request_expected q)"
    and "stream_rev k d' = (if k = request_stream q then Some (request_next q) else stream_rev k d)"
proof -
  let ?d = "expire_retained_keysets (fst q) d"
  have wf0: "wf_store ?d" using wf by simp
  then have ws: "wf_streams (db_streams ?d)" and wa: "wf_attempts (db_attempts ?d)" and wl: "wf_ledgers ?d"
    by (simp_all add: wf_store_def)
  have "wf_store d' \<and> same_keysets ?d d' \<and> stream_rev (request_stream q) ?d = Some (request_expected q)
    \<and> stream_rev k d' = (if k = request_stream q then Some (request_next q) else stream_rev k ?d)"
  proof (cases "(cfg, q, d)" rule: store_exec.cases)
    case (1 c now r)
    then obtain res where body: "contract_lifecycle_body cfg r ?d = Inr (res, d')"
      using ok by (auto simp: contract_lifecycle_def in_tx_Inr)
    show ?thesis
      using 1 contract_lifecycle_body_wf [OF body ws wa] contract_lifecycle_body_rev(1,2) [OF body ws wa]
        lifecycle_frame [OF body wf0] wl by (simp add: wf_store_def)
  next
    case (2 c now r)
    then obtain res where body: "deployment_lifecycle_body cfg r ?d = Inr (res, d')"
      using ok by (auto simp: deployment_lifecycle_def in_tx_Inr)
    show ?thesis
      using 2 deployment_lifecycle_body_effect(1-4) [OF body ws wa] deployment_frame [OF body wf0] wl
      by (simp add: wf_store_def)
  next
    case (3 c now t)
    then obtain s where body: "state_transaction_body cfg t ?d = Inr (s, d')"
      using ok by (auto simp: state_transaction_def in_tx_Inr)
    show ?thesis using 3 state_transaction_body_effect(1,2,4,5) [OF body wf0] by simp
  next
    case (4 c now t)
    then obtain s where body: "fail_outbox_body cfg t ?d = Inr (s, d')"
      using ok by (auto simp: fail_outbox_def in_tx_Inr)
    show ?thesis using 4 fail_outbox_body_effect(1,2,4,5) [OF body wf0] by simp
  qed
  then show "wf_store d'" and "same_keysets ?d d'"
    and "stream_rev (request_stream q) d = Some (request_expected q)"
    and "stream_rev k d' = (if k = request_stream q then Some (request_next q) else stream_rev k d)"
    by simp_all
qed

lemma store_exec_Inl:
  assumes "store_exec cfg q d = (Inl e, d')"
  shows "d' = expire_retained_keysets (fst q) d"
  using assms
  by (cases "(cfg, q, d)" rule: store_exec.cases)
     (auto simp: contract_lifecycle_def deployment_lifecycle_def state_transaction_def fail_outbox_def in_tx_Inl)

interpretation store: optimistic_store stream_rev "store_exec cfg" request_stream request_expected
    request_next wf_store
proof (unfold_locales, goal_cases)
  case (1 d q r d')
  show ?case using store_exec_Inr(3) [OF 1(2,1)] store_exec_Inr(4) [OF 1(2,1), of "request_stream q"] by simp
next
  case (2 d q e d' i)
  then show ?case using store_exec_Inl by fastforce
next
  case (3 d q r d' i)
  show ?case using store_exec_Inr(4) [OF 3(2,1), of i] 3(3) by simp
next
  case (4 d q x d')
  then show ?case
    by (cases x) (auto dest: store_exec_Inr(1) store_exec_Inl)
qed

section \<open>Every step keeps the store well-formed\<close>

definition wf_db :: "'ev store_config \<Rightarrow> 'ev db \<Rightarrow> bool" where
  "wf_db cfg d \<longleftrightarrow> wf_store d \<and> wf_snapshots cfg d \<and> wf_tombstone_log cfg d"

text \<open>A step is one operation with the outcome its caller sees.\<close>

inductive store_step :: "'ev store_config \<Rightarrow> 'ev db \<Rightarrow> unit result \<Rightarrow> 'ev db \<Rightarrow> bool" for cfg where
  ensure: "answered (ensure_stream now i d) = (r, d') \<Longrightarrow> store_step cfg d r d'"
| request: "answered (store_exec cfg q d) = (r, d') \<Longrightarrow> store_step cfg d r d'"
| lease: "answered (lease_outbox cfg now i kind owner observed n d) = (r, d') \<Longrightarrow> store_step cfg d r d'"
| read_attempts: "answered (attempts now aq d) = (r, d') \<Longrightarrow> store_step cfg d r d'"
| read_status: "answered (status_query now i d) = (r, d') \<Longrightarrow> store_step cfg d r d'"
| sink: "answered (project_events evs d) = (r, d') \<Longrightarrow> store_step cfg d r d'"
| begin_snapshot: "answered (begin_snapshot_keyset cfg now kr d) = (r, d') \<Longrightarrow> store_step cfg d r d'"
| append_snapshot: "answered (append_snapshot_keyset now a page d) = (r, d') \<Longrightarrow> store_step cfg d r d'"
| complete_snapshot: "answered (complete_snapshot_keyset cfg now c d) = (r, d') \<Longrightarrow> store_step cfg d r d'"
| get_snapshot: "answered (get_snapshot_keyset now i v d) = (r, d') \<Longrightarrow> store_step cfg d r d'"
| reconcile: "answered (reconcile_snapshot cfg now clock rq d) = (r, d') \<Longrightarrow> store_step cfg d r d'"
| begin_tombstone: "answered (begin_tombstone_keyset cfg now kr d) = (r, d') \<Longrightarrow> store_step cfg d r d'"
| append_tombstone: "answered (append_tombstone_keyset now a tpage d) = (r, d') \<Longrightarrow> store_step cfg d r d'"
| complete_tombstone: "answered (complete_tombstone_keyset cfg now tc d) = (r, d') \<Longrightarrow> store_step cfg d r d'"
| finalize: "answered (finalize_tombstone_evidence cfg now clock tr d) = (r, d') \<Longrightarrow> store_step cfg d r d'"

inductive reachable :: "'ev store_config \<Rightarrow> 'ev db \<Rightarrow> bool" for cfg where
  empty: "reachable cfg empty_db"
| step: "reachable cfg d \<Longrightarrow> store_step cfg d r d' \<Longrightarrow> reachable cfg d'"

lemma answered_pair: "answered p = (r, d') \<Longrightarrow> p = (fst p, d')"
  by (auto simp: answered_def prod_eq_iff)

lemma wf_same_keysets:
  assumes "same_keysets d d'"
  shows "wf_snapshots cfg d' = wf_snapshots cfg d" and "wf_tombstone_log cfg d' = wf_tombstone_log cfg d"
  using assms
  by (simp_all add: same_keysets_def wf_snapshots_def wf_tombstone_log_def wf_tombstones_def ordered_tombstones_def)

lemma wf_tombstone_log_expire [simp]:
  "wf_tombstone_log cfg d \<Longrightarrow> wf_tombstone_log cfg (expire_retained_keysets now d)"
  by (simp add: wf_tombstone_log_def)

lemma wf_db_expire [simp]: "wf_db cfg d \<Longrightarrow> wf_db cfg (expire_retained_keysets now d)"
  by (simp add: wf_db_def)

lemma wf_store_keyset_frame [simp]:
  "wf_store (d\<lparr>db_snapshot_keysets := a\<rparr>) = wf_store d"
  "wf_store (d\<lparr>db_snapshot_tags := b\<rparr>) = wf_store d"
  "wf_store (d\<lparr>db_tombstone_keysets := e\<rparr>) = wf_store d"
  "wf_store (d\<lparr>db_tombstone_tags := f\<rparr>) = wf_store d"
  by (simp_all add: wf_store_def wf_ledgers_def)

lemma wf_snapshots_tombstone_frame [simp]:
  "wf_snapshots cfg (d\<lparr>db_tombstone_keysets := e\<rparr>) = wf_snapshots cfg d"
  "wf_snapshots cfg (d\<lparr>db_tombstone_tags := f\<rparr>) = wf_snapshots cfg d"
  "wf_snapshots cfg (d\<lparr>db_reconciliations := g\<rparr>) = wf_snapshots cfg d"
  "wf_tombstone_log cfg (d\<lparr>db_snapshot_keysets := a\<rparr>) = wf_tombstone_log cfg d"
  "wf_tombstone_log cfg (d\<lparr>db_snapshot_tags := b\<rparr>) = wf_tombstone_log cfg d"
  "wf_tombstone_log cfg (d\<lparr>db_reconciliations := g\<rparr>) = wf_tombstone_log cfg d"
  by (simp_all add: wf_snapshots_def wf_tombstone_log_def wf_tombstones_def ordered_tombstones_def)

text \<open>A transaction keeps what its body keeps, as long as the expiry does.\<close>

lemma in_tx_wf:
  assumes "in_tx now f d = (x, d')" and "wf_db cfg d"
    and "\<And>d0 y d1. wf_db cfg d0 \<Longrightarrow> f d0 = Inr (y, d1) \<Longrightarrow> wf_db cfg d1"
  shows "wf_db cfg d'"
proof (cases x)
  case (Inl e)
  with assms(1,2) show ?thesis by (simp add: in_tx_Inl)
next
  case (Inr y)
  with assms(1) have "f (expire_retained_keysets now d) = Inr (y, d')" by (simp add: in_tx_Inr)
  then show ?thesis by (rule assms(3) [rotated]) (use assms(2) in simp)
qed

lemma ensure_stream_wf:
  assumes "wf_db cfg d" and "ensure_stream_body i d = Inr (s, d')"
  shows "wf_db cfg d'"
proof -
  have "d' = d\<lparr>db_streams := db_streams d'\<rparr>"
    using assms(2)
    by (cases "lookup_row sm_identity i (db_streams d)")
       (auto simp: ensure_stream_body_def Let_def insert_row_fresh)
  then obtain rows where d': "d' = d\<lparr>db_streams := rows\<rparr>" by blast
  from assms(1) have ws: "wf_streams (db_streams d)" by (simp add: wf_db_def wf_store_def)
  from ensure_stream_body_ok [OF ws, of i] assms(2) have "wf_streams (db_streams d')" by auto
  moreover have "same_keysets d d'" "wf_ledgers d' = wf_ledgers d" "db_attempts d' = db_attempts d"
    by (simp_all add: d' same_keysets_def wf_ledgers_def)
  ultimately show ?thesis
    using assms(1) wf_same_keysets [of d d' cfg] by (simp add: wf_db_def wf_store_def)
qed

lemma project_events_wf:
  assumes "wf_db cfg d" and "project_events_body evs d = Inr (ids, d')"
  shows "wf_db cfg d'"
  using assms
proof (induction evs arbitrary: d ids)
  case Nil
  then show ?case by simp
next
  case (Cons e evs)
  then obtain d1 rest where d1: "record_event e d = Inr d1" and r: "project_events_body evs d1 = Inr (rest, d')"
    by (auto split: prod.splits)
  obtain a where a: "d1 = d\<lparr>db_events := a\<rparr>" using record_event_Inr(1) [OF d1] by blast
  have "wf_ledgers d1"
    using record_event_Inr(2) [OF d1] Cons.prems(1) a by (simp add: wf_ledgers_def wf_db_def wf_store_def)
  moreover have "same_keysets d d1" by (simp add: a same_keysets_def)
  ultimately have "wf_db cfg d1"
    using Cons.prems(1) wf_same_keysets [of d d1 cfg] a by (simp add: wf_db_def wf_store_def)
  then show ?case by (rule Cons.IH [OF _ r])
qed

lemma reconcile_wf:
  assumes wf: "wf_db cfg d" and ok: "reconcile_snapshot_body cfg clock rq d = Inr (x, d')"
  shows "wf_db cfg d'"
proof -
  note E = reconcile_snapshot_body_effect [OF ok]
  obtain a b where d': "d' = d\<lparr>db_reconciliations := a, db_snapshot_keysets := b\<rparr>"
    using E(3) wf by (auto simp: wf_db_def)
  have "wf_reconciliations a" using E(4) wf d' by (simp add: wf_db_def wf_store_def wf_ledgers_def)
  then have "wf_store d'" using wf by (simp add: d' wf_db_def wf_store_def wf_ledgers_def)
  moreover have "wf_snapshots cfg d'" using E(1) wf by (simp add: wf_db_def)
  moreover have "wf_tombstone_log cfg d'" using wf by (simp add: d' wf_db_def)
  ultimately show ?thesis by (simp add: wf_db_def)
qed

lemma snapshot_ops_wf:
  assumes wf: "wf_db cfg d"
  shows "begin_snapshot_body cfg kr d = Inr (ks, d') \<Longrightarrow> wf_db cfg d'"
    and "append_snapshot_body page d = Inr (ks, d') \<Longrightarrow> wf_db cfg d'"
    and "complete_snapshot_body cfg c d = Inr (ks, d') \<Longrightarrow> wf_db cfg d'"
proof -
  have ws: "wf_snapshots cfg d" using wf by (simp add: wf_db_def)
  {
    assume ok: "begin_snapshot_body cfg kr d = Inr (ks, d')"
    obtain a where "d' = d\<lparr>db_snapshot_keysets := a\<rparr>" using begin_snapshot_body_Inr(2) [OF ok ws] by blast
    then show "wf_db cfg d'" using begin_snapshot_body_Inr(1) [OF ok ws] wf by (simp add: wf_db_def)
  }
  {
    assume ok: "append_snapshot_body page d = Inr (ks, d')"
    from ok ws obtain a b where "d' = d\<lparr>db_snapshot_tags := a, db_snapshot_keysets := b\<rparr>"
      by (rule append_snapshot_body_Inr)
    then show "wf_db cfg d'" using append_snapshot_body_effect(1) [OF ok ws] wf by (simp add: wf_db_def)
  }
  {
    assume ok: "complete_snapshot_body cfg c d = Inr (ks, d')"
    obtain a where "d' = d\<lparr>db_snapshot_keysets := a\<rparr>" using complete_snapshot_body_Inr(2) [OF ok ws] by blast
    then show "wf_db cfg d'" using complete_snapshot_body_Inr(1) [OF ok ws] wf by (simp add: wf_db_def)
  }
qed

lemma tombstone_ops_wf:
  assumes wf: "wf_db cfg d"
  shows "begin_tombstone_body cfg kr d = Inr (ks, d') \<Longrightarrow> wf_db cfg d'"
    and "append_tombstone_body page d = Inr (ks, d') \<Longrightarrow> wf_db cfg d'"
    and "complete_tombstone_body cfg c d = Inr (ks, d') \<Longrightarrow> wf_db cfg d'"
    and "finalize_tombstone_body cfg clock tr d = Inr (ev, d') \<Longrightarrow> wf_db cfg d'"
proof -
  have wt: "wf_tombstones cfg d" "ordered_tombstones d" using wf by (simp_all add: wf_db_def wf_tombstone_log_def)
  {
    assume ok: "begin_tombstone_body cfg kr d = Inr (ks, d')"
    obtain a where "d' = d\<lparr>db_tombstone_keysets := a\<rparr>" using begin_tombstone_body_Inr(3) [OF ok wt] by blast
    then show "wf_db cfg d'"
      using begin_tombstone_body_Inr(1,2) [OF ok wt] wf by (simp add: wf_db_def wf_tombstone_log_def)
  }
  {
    assume ok: "append_tombstone_body page d = Inr (ks, d')"
    from ok wt(1) obtain a b where "d' = d\<lparr>db_tombstone_tags := a, db_tombstone_keysets := b\<rparr>"
      by (rule append_tombstone_body_Inr)
    then show "wf_db cfg d'"
      using append_tombstone_body_effect(1,2) [OF ok wt] wf by (simp add: wf_db_def wf_tombstone_log_def)
  }
  {
    assume ok: "complete_tombstone_body cfg c d = Inr (ks, d')"
    obtain a where "d' = d\<lparr>db_tombstone_keysets := a\<rparr>" using complete_tombstone_body_Inr(3) [OF ok wt] by blast
    then show "wf_db cfg d'"
      using complete_tombstone_body_Inr(1,2) [OF ok wt] wf by (simp add: wf_db_def wf_tombstone_log_def)
  }
  {
    assume ok: "finalize_tombstone_body cfg clock tr d = Inr (ev, d')"
    obtain a where "d' = d\<lparr>db_tombstone_keysets := a\<rparr>" using finalize_tombstone_body_Inr(3) [OF ok wt] by blast
    then show "wf_db cfg d'"
      using finalize_tombstone_body_Inr(1,2) [OF ok wt] wf by (simp add: wf_db_def wf_tombstone_log_def)
  }
qed

lemma store_exec_wf_db:
  assumes wf: "wf_db cfg d" and ok: "store_exec cfg q d = (x, d')"
  shows "wf_db cfg d'"
proof (cases x)
  case (Inl e)
  with ok wf show ?thesis using store_exec_Inl by fastforce
next
  case (Inr u)
  with ok have run: "store_exec cfg q d = (Inr u, d')" by simp
  have ws: "wf_store d" using wf by (simp add: wf_db_def)
  note E = store_exec_Inr(1,2) [OF run ws]
  have "wf_db cfg (expire_retained_keysets (fst q) d)" using wf by simp
  then show ?thesis using E wf_same_keysets [OF E(2), of cfg] by (simp add: wf_db_def)
qed

lemma lease_wf_db:
  assumes wf: "wf_db cfg d" and ok: "lease_outbox cfg now i kind owner observed n d = (es, d')"
  shows "wf_db cfg d'"
proof -
  have ws: "wf_store d" using wf by (simp add: wf_db_def)
  have wse: "wf_store (expire_retained_keysets now d)" using ws by simp
  from ok lease_outbox_eq [OF ws] obtain rs where
    d': "d' = lease_update cfg owner observed rs (expire_retained_keysets now d)" by fastforce
  have same: "same_keysets (expire_retained_keysets now d) d'"
    using wf_lease_update(3) [OF wse] d' by (simp add: same_core_def)
  have "wf_db cfg (expire_retained_keysets now d)" using wf by simp
  then show ?thesis
    using wf_lease_update(1) [OF wse, of cfg owner observed rs] wf_same_keysets [OF same, of cfg]
    by (simp add: wf_db_def d')
qed

lemma store_step_wf:
  assumes "store_step cfg d r d'" and wf: "wf_db cfg d"
  shows "wf_db cfg d'"
  using assms(1)
proof cases
  case (ensure now i)
  show ?thesis
    by (rule in_tx_wf [OF answered_pair [OF ensure(1), unfolded ensure_stream_def] wf ensure_stream_wf])
next
  case (request q)
  show ?thesis by (rule store_exec_wf_db [OF wf answered_pair [OF request(1)]])
next
  case (lease now i kind owner observed n)
  show ?thesis by (rule lease_wf_db [OF wf answered_pair [OF lease(1)]])
next
  case (read_attempts now aq)
  from answered_pair [OF read_attempts(1)] have "d' = expire_retained_keysets now d"
    by (auto simp: attempts_def in_tx_def Let_def)
  with wf show ?thesis by simp
next
  case (read_status now i)
  show ?thesis
    by (rule in_tx_wf [OF answered_pair [OF read_status(1), unfolded status_query_def] wf])
       (auto simp: status_body_def Let_def)
next
  case (sink evs)
  from answered_pair [OF sink(1)] wf project_events_wf [OF wf] show ?thesis
    by (auto simp: project_events_def split: sum.splits)
next
  case (begin_snapshot now kr)
  show ?thesis
    by (rule in_tx_wf [OF answered_pair [OF begin_snapshot(1), unfolded begin_snapshot_keyset_def] wf snapshot_ops_wf(1)])
next
  case (append_snapshot now a page)
  show ?thesis
    by (rule in_tx_wf [OF answered_pair [OF append_snapshot(1), unfolded append_snapshot_keyset_def] wf snapshot_ops_wf(2)])
next
  case (complete_snapshot now c)
  show ?thesis
    by (rule in_tx_wf [OF answered_pair [OF complete_snapshot(1), unfolded complete_snapshot_keyset_def] wf snapshot_ops_wf(3)])
next
  case (get_snapshot now i v)
  show ?thesis
    by (rule in_tx_wf [OF answered_pair [OF get_snapshot(1), unfolded get_snapshot_keyset_def] wf])
       (auto split: list.splits)
next
  case (reconcile now clock rq)
  show ?thesis
  proof (cases "ks_complete (rq_candidate_keyset rq)")
    case True
    with answered_pair [OF reconcile(1)] have
      "in_tx now (reconcile_snapshot_body cfg clock rq) d = (fst (reconcile_snapshot cfg now clock rq d), d')"
      by (simp add: reconcile_snapshot_def)
    then show ?thesis by (rule in_tx_wf [OF _ wf reconcile_wf])
  next
    case False
    with answered_pair [OF reconcile(1)] wf show ?thesis by (simp add: reconcile_snapshot_def)
  qed
next
  case (begin_tombstone now kr)
  show ?thesis
    by (rule in_tx_wf [OF answered_pair [OF begin_tombstone(1), unfolded begin_tombstone_keyset_def] wf tombstone_ops_wf(1)])
next
  case (append_tombstone now a tpage)
  show ?thesis
    by (rule in_tx_wf [OF answered_pair [OF append_tombstone(1), unfolded append_tombstone_keyset_def] wf tombstone_ops_wf(2)])
next
  case (complete_tombstone now tc)
  show ?thesis
    by (rule in_tx_wf [OF answered_pair [OF complete_tombstone(1), unfolded complete_tombstone_keyset_def] wf tombstone_ops_wf(3)])
next
  case (finalize now clock tr)
  show ?thesis
    by (rule in_tx_wf [OF answered_pair [OF finalize(1), unfolded finalize_tombstone_evidence_def] wf tombstone_ops_wf(4)])
qed

lemma wf_db_empty: "wf_db cfg empty_db"
  by (simp add: wf_db_def wf_store_def wf_streams_def wf_attempts_def wf_ledgers_def wf_outbox_def
      wf_intents_def wf_confirmations_def wf_cursors_def wf_events_def wf_reconciliations_def
      wf_snapshots_def wf_tombstone_log_def wf_tombstones_def ordered_tombstones_def wf_keysets_def
      wf_tags_def empty_db_def)

lemma reachable_wf: "reachable cfg d \<Longrightarrow> wf_db cfg d"
  by (induction rule: reachable.induct) (auto simp: wf_db_empty intro: store_step_wf)

text \<open>No step ends outside the closed error codes.\<close>

lemma closed_codes: "e \<in> Port_error ` A \<Longrightarrow> e \<in> range Port_error"
  by auto

lemma store_exec_error:
  assumes err: "store_exec cfg q d = (Inl e, d')" and wf: "wf_store d"
  shows "e \<in> range Port_error"
proof -
  have wf0: "wf_store (expire_retained_keysets (fst q) d)" using wf by simp
  show ?thesis
    using err
    by (cases "(cfg, q, d)" rule: store_exec.cases)
       (use wf0 in \<open>auto simp: contract_lifecycle_def deployment_lifecycle_def state_transaction_def
          fail_outbox_def in_tx_Inl dest!: contract_lifecycle_body_error deployment_lifecycle_body_error
          fail_outbox_body_error state_transaction_body_error\<close>)
qed

lemma project_events_error:
  "project_events_body evs d = Inl e \<Longrightarrow> e = Port_error Event_conflict"
proof (induction evs arbitrary: d)
  case (Cons ev evs)
  then show ?case by (auto simp: bind_eq_Inl split: prod.splits dest: record_event_error)
qed simp

lemma ensure_stream_total: "wf_db cfg d \<Longrightarrow> ensure_stream_body i d \<noteq> Inl e"
  using ensure_stream_body_ok [of d i] by (auto simp: wf_db_def wf_store_def)

lemma store_step_error:
  assumes step: "store_step cfg d (Inl e) d'" and wf: "wf_db cfg d"
  shows "e \<in> range Port_error"
proof -
  have wf0: "wf_db cfg (expire_retained_keysets now d)" for now using wf by simp
  then have ws: "wf_store (expire_retained_keysets now d)" and sn: "wf_snapshots cfg (expire_retained_keysets now d)"
    and tm: "wf_tombstones cfg (expire_retained_keysets now d)" for now
    by (simp_all add: wf_db_def wf_tombstone_log_def)
  from step show ?thesis
  proof cases
    case (ensure now i)
    then show ?thesis using ensure_stream_total [OF wf0] by (auto simp: ensure_stream_def in_tx_Inl)
  next
    case (request q)
    then have run: "store_exec cfg q d = (Inl e, d')" by simp
    show ?thesis by (rule store_exec_error [OF run]) (use wf in \<open>simp add: wf_db_def\<close>)
  next
    case (lease now i kind owner observed n)
    then show ?thesis by (simp add: lease_outbox_def in_tx_Inl)
  next
    case (read_attempts now aq)
    then show ?thesis by (simp add: attempts_def in_tx_def Let_def)
  next
    case (read_status now i)
    then show ?thesis
      by (auto simp: status_query_def in_tx_Inl status_body_def load_state_def bind_eq_Inl Let_def
          dest: stream_row_of_Inl)
  next
    case (sink evs)
    then show ?thesis
      by (auto simp: project_events_def split: sum.splits dest: project_events_error)
  next
    case (begin_snapshot now kr)
    then show ?thesis by (auto simp: begin_snapshot_keyset_def in_tx_Inl dest: begin_snapshot_body_Inl)
  next
    case (append_snapshot now a page)
    then show ?thesis
      by (auto simp: append_snapshot_keyset_def in_tx_Inl dest!: append_snapshot_body_Inl [OF _ sn])
  next
    case (complete_snapshot now c)
    then show ?thesis by (auto simp: complete_snapshot_keyset_def in_tx_Inl dest: complete_snapshot_body_Inl)
  next
    case (get_snapshot now i v)
    then show ?thesis by (auto simp: get_snapshot_keyset_def in_tx_Inl split: list.splits)
  next
    case (reconcile now clock rq)
    then show ?thesis
      by (auto simp: reconcile_snapshot_def in_tx_Inl raise_def split: if_splits dest: reconcile_snapshot_body_Inl)
  next
    case (begin_tombstone now kr)
    then show ?thesis by (auto simp: begin_tombstone_keyset_def in_tx_Inl dest: begin_tombstone_body_Inl)
  next
    case (append_tombstone now a tpage)
    then show ?thesis
      by (auto simp: append_tombstone_keyset_def in_tx_Inl dest!: append_tombstone_body_Inl [OF _ tm])
  next
    case (complete_tombstone now tc)
    then show ?thesis by (auto simp: complete_tombstone_keyset_def in_tx_Inl dest: complete_tombstone_body_Inl)
  next
    case (finalize now clock tr)
    then show ?thesis
      by (auto simp: finalize_tombstone_evidence_def in_tx_Inl dest!: finalize_tombstone_body_Inl [OF _ tm])
  qed
qed

section \<open>Confirmations only accumulate\<close>

lemma enqueue_confirmations:
  assumes "enqueue cfg i item d = Inr d'"
  shows "db_confirmations d' = db_confirmations d"
proof (cases "lookup_row ob_outbox_id (en_outbox_id item) (db_outbox d)")
  case (Some r)
  with assms show ?thesis by (auto simp: enqueue_def split: if_splits)
next
  case None
  with assms obtain d1 where rec: "record_payload i (en_payload item) d = Inr d1"
    and d': "db_confirmations d' = db_confirmations d1"
    by (auto simp: enqueue_def split: if_splits)
  obtain a b c where "d1 = d\<lparr>db_intents := a, db_events := b, db_reconciliations := c\<rparr>"
    by (rule record_payload_Inr [OF rec])
  with d' show ?thesis by simp
qed

lemma complete_confirmations:
  "complete_entry done d = Inr d' \<Longrightarrow> db_confirmations d' = db_confirmations d"
  by (auto simp: complete_entry_def Let_def split: option.splits if_splits)

lemma fold_confirmations:
  "fold_result (enqueue cfg i) items d = Inr d' \<Longrightarrow> db_confirmations d' = db_confirmations d"
  "fold_result complete_entry dones d = Inr d' \<Longrightarrow> db_confirmations d' = db_confirmations d"
proof -
  show "fold_result (enqueue cfg i) items d = Inr d' \<Longrightarrow> db_confirmations d' = db_confirmations d"
    by (induction items arbitrary: d) (auto dest: enqueue_confirmations)
  show "fold_result complete_entry dones d = Inr d' \<Longrightarrow> db_confirmations d' = db_confirmations d"
    by (induction dones arbitrary: d) (auto dest: complete_confirmations)
qed

lemma put_attempts_confirmations:
  assumes "put_attempts cfg as d = Inr d'"
  shows "db_confirmations d' = db_confirmations d"
proof -
  obtain a where "d' = d\<lparr>db_attempts := a\<rparr>" using put_attempts_frame [OF assms] by blast
  then show ?thesis by simp
qed

lemma record_confirmation_grows:
  assumes "record_confirmation c d = Inr d'"
  shows "set (db_confirmations d) \<subseteq> set (db_confirmations d')"
  using assms
  by (auto simp: record_confirmation_def insert_row_fresh Let_def split: option.splits if_splits)

lemma store_exec_confirmations:
  assumes ok: "store_exec cfg q d = (Inr u, d')" and wf: "wf_store d"
  shows "set (db_confirmations d) \<subseteq> set (db_confirmations d')"
proof -
  let ?d = "expire_retained_keysets (fst q) d"
  have wf0: "wf_store ?d" using wf by simp
  show ?thesis
  proof (cases "(cfg, q, d)" rule: store_exec.cases)
    case (1 c now r)
    then obtain res where body: "contract_lifecycle_body cfg r ?d = Inr (res, d')"
      using ok by (auto simp: contract_lifecycle_def in_tx_Inr)
    show ?thesis using lifecycle_frame(3) [OF body wf0] by simp
  next
    case (2 c now r)
    then obtain res where body: "deployment_lifecycle_body cfg r ?d = Inr (res, d')"
      using ok by (auto simp: deployment_lifecycle_def in_tx_Inr)
    show ?thesis using deployment_frame(3) [OF body wf0] by simp
  next
    case (3 c now t)
    let ?i = "st_logical_identity (tx_next_state t)"
    from 3 obtain s where body: "state_transaction_body cfg t ?d = Inr (s, d')"
      using ok by (auto simp: state_transaction_def in_tx_Inr)
    then obtain d1 d2 d3 d4 where S: "put_attempts cfg (tx_attempt_updates t) ?d = Inr d1"
        "fold_result (enqueue cfg ?i) (tx_enqueue t) (set_deployment ?i (tx_deployment_update t) d1) = Inr d2"
        "fold_result complete_entry (tx_complete t) d2 = Inr d3"
      and c: "(case tx_projection_confirmation t of None \<Rightarrow> Inr d3 | Some c \<Rightarrow> record_confirmation c d3) = Inr d4"
      and d': "d' = save_state (tx_next_state t) (\<lambda>r. r) d4" by (rule state_transaction_body_Inr)
    have "db_confirmations (set_deployment ?i (tx_deployment_update t) d1) = db_confirmations d1"
      by (simp add: set_deployment_def split: option.splits)
    then have "db_confirmations d3 = db_confirmations d"
      using put_attempts_confirmations [OF S(1)] fold_confirmations(1) [OF S(2)] fold_confirmations(2) [OF S(3)]
      by simp
    moreover have "set (db_confirmations d3) \<subseteq> set (db_confirmations d4)"
      using c by (auto split: option.splits dest: record_confirmation_grows)
    ultimately show ?thesis by (simp add: d')
  next
    case (4 c now t)
    then obtain s where body: "fail_outbox_body cfg t ?d = Inr (s, d')"
      using ok by (auto simp: fail_outbox_def in_tx_Inr)
    then obtain d1 f where "put_attempts cfg (ft_attempt_updates t) ?d = Inr d1"
      and "d' = save_state s (\<lambda>r. r) (d1\<lparr>db_outbox := f\<rparr>)"
      using wf0 by (rule fail_outbox_body_Inr)
    then show ?thesis using put_attempts_confirmations by fastforce
  qed
qed

lemma project_events_confirmations:
  "project_events_body evs d = Inr (ids, d') \<Longrightarrow> db_confirmations d' = db_confirmations d"
proof (induction evs arbitrary: d ids)
  case (Cons e evs)
  then obtain d1 rest where d1: "record_event e d = Inr d1" and r: "project_events_body evs d1 = Inr (rest, d')"
    by (auto split: prod.splits)
  have "db_confirmations d1 = db_confirmations d"
    using d1 by (auto simp: record_event_def insert_row_fresh split: option.splits if_splits)
  with Cons.IH [OF r] show ?case by simp
qed simp

text \<open>A transaction keeps the confirmations its body keeps.\<close>

lemma in_tx_confirmations:
  assumes "in_tx now f d = (x, d')"
    and "\<And>y d1. f (expire_retained_keysets now d) = Inr (y, d1) \<Longrightarrow> db_confirmations d1 = db_confirmations d"
  shows "db_confirmations d' = db_confirmations d"
proof (cases x)
  case (Inl e)
  with assms(1) show ?thesis by (simp add: in_tx_Inl)
next
  case (Inr y)
  with assms(1) have "f (expire_retained_keysets now d) = Inr (y, d')" by (simp add: in_tx_Inr)
  then show ?thesis by (rule assms(2))
qed

lemma append_tombstone_confirmations:
  "append_tombstone_body page d = Inr (ks, d') \<Longrightarrow> db_confirmations d' = db_confirmations d"
  by (auto simp: append_tombstone_body_def Let_def)

lemma keyset_confirmations:
  "begin_snapshot_body cfg kr d = Inr (ks, d') \<Longrightarrow> db_confirmations d' = db_confirmations d"
  "append_snapshot_body page d = Inr (ks, d') \<Longrightarrow> db_confirmations d' = db_confirmations d"
  "complete_snapshot_body cfg c d = Inr (ks, d') \<Longrightarrow> db_confirmations d' = db_confirmations d"
  "begin_tombstone_body cfg kr d = Inr (tk, d') \<Longrightarrow> db_confirmations d' = db_confirmations d"
  "complete_tombstone_body cfg tc d = Inr (tk, d') \<Longrightarrow> db_confirmations d' = db_confirmations d"
  "finalize_tombstone_body cfg clock tr d = Inr (ev, d') \<Longrightarrow> db_confirmations d' = db_confirmations d"
  "reconcile_snapshot_body cfg clock rq d = Inr (x, d') \<Longrightarrow> db_confirmations d' = db_confirmations d"
  by (auto simp: begin_snapshot_body_def append_snapshot_body_def complete_snapshot_body_def
      begin_tombstone_body_def complete_tombstone_body_def finalize_tombstone_body_def
      reconcile_snapshot_body_def Let_def insert_row_fresh split: option.splits if_splits)

lemma ensure_confirmations:
  "ensure_stream_body i d = Inr (s, d') \<Longrightarrow> db_confirmations d' = db_confirmations d"
  by (cases "lookup_row sm_identity i (db_streams d)")
     (auto simp: ensure_stream_body_def Let_def insert_row_fresh)

lemma read_confirmations:
  "status_body i d = Inr (s, d') \<Longrightarrow> db_confirmations d' = db_confirmations d"
  by (auto simp: status_body_def Let_def)

lemmas body_confirmations = ensure_confirmations read_confirmations keyset_confirmations
  append_tombstone_confirmations

lemma store_step_confirmations:
  assumes step: "store_step cfg d r d'" and wf: "wf_db cfg d"
  shows "set (db_confirmations d) \<subseteq> set (db_confirmations d')"
  using step
proof cases
  case (ensure now i)
  have "db_confirmations d' = db_confirmations d"
    by (rule in_tx_confirmations [OF answered_pair [OF ensure(1), unfolded ensure_stream_def]]) (auto dest: body_confirmations)
  then show ?thesis by simp
next
  case (request q)
  show ?thesis
  proof (cases "fst (store_exec cfg q d)")
    case (Inl e)
    with answered_pair [OF request(1)] have "store_exec cfg q d = (Inl e, d')" by simp
    from store_exec_Inl [OF this] show ?thesis by simp
  next
    case (Inr u)
    with answered_pair [OF request(1)] have "store_exec cfg q d = (Inr u, d')" by simp
    from store_exec_confirmations [OF this] wf show ?thesis by (simp add: wf_db_def)
  qed
next
  case (lease now i kind owner observed n)
  have "wf_store d" using wf by (simp add: wf_db_def)
  with answered_pair [OF lease(1)] lease_outbox_eq [of d] show ?thesis
    by (auto simp: lease_update_def)
next
  case (read_attempts now aq)
  from answered_pair [OF read_attempts(1)] have "d' = expire_retained_keysets now d"
    by (auto simp: attempts_def in_tx_def Let_def)
  then show ?thesis by simp
next
  case (read_status now i)
  have "db_confirmations d' = db_confirmations d"
    by (rule in_tx_confirmations [OF answered_pair [OF read_status(1), unfolded status_query_def]]) (auto dest: body_confirmations)
  then show ?thesis by simp
next
  case (sink evs)
  from answered_pair [OF sink(1)] show ?thesis
    by (auto simp: project_events_def split: sum.splits dest: project_events_confirmations)
next
  case (begin_snapshot now kr)
  have "db_confirmations d' = db_confirmations d"
    by (rule in_tx_confirmations [OF answered_pair [OF begin_snapshot(1), unfolded begin_snapshot_keyset_def]]) (auto dest: body_confirmations)
  then show ?thesis by simp
next
  case (append_snapshot now a page)
  have "db_confirmations d' = db_confirmations d"
    by (rule in_tx_confirmations [OF answered_pair [OF append_snapshot(1), unfolded append_snapshot_keyset_def]]) (auto dest: body_confirmations)
  then show ?thesis by simp
next
  case (complete_snapshot now c)
  have "db_confirmations d' = db_confirmations d"
    by (rule in_tx_confirmations [OF answered_pair [OF complete_snapshot(1), unfolded complete_snapshot_keyset_def]]) (auto dest: body_confirmations)
  then show ?thesis by simp
next
  case (get_snapshot now i v)
  have "db_confirmations d' = db_confirmations d"
    by (rule in_tx_confirmations [OF answered_pair [OF get_snapshot(1), unfolded get_snapshot_keyset_def]]) (auto split: list.splits)
  then show ?thesis by simp
next
  case (reconcile now clock rq)
  show ?thesis
  proof (cases "ks_complete (rq_candidate_keyset rq)")
    case True
    with answered_pair [OF reconcile(1)] have
      "in_tx now (reconcile_snapshot_body cfg clock rq) d = (fst (reconcile_snapshot cfg now clock rq d), d')"
      by (simp add: reconcile_snapshot_def)
    then have "db_confirmations d' = db_confirmations d"
      by (rule in_tx_confirmations) (auto dest: body_confirmations)
    then show ?thesis by simp
  next
    case False
    with answered_pair [OF reconcile(1)] show ?thesis by (simp add: reconcile_snapshot_def)
  qed
next
  case (begin_tombstone now kr)
  have "db_confirmations d' = db_confirmations d"
    by (rule in_tx_confirmations [OF answered_pair [OF begin_tombstone(1), unfolded begin_tombstone_keyset_def]]) (auto dest: body_confirmations)
  then show ?thesis by simp
next
  case (append_tombstone now a tpage)
  have "db_confirmations d' = db_confirmations d"
    by (rule in_tx_confirmations [OF answered_pair [OF append_tombstone(1), unfolded append_tombstone_keyset_def]]) (auto dest: body_confirmations)
  then show ?thesis by simp
next
  case (complete_tombstone now tc)
  have "db_confirmations d' = db_confirmations d"
    by (rule in_tx_confirmations [OF answered_pair [OF complete_tombstone(1), unfolded complete_tombstone_keyset_def]]) (auto dest: body_confirmations)
  then show ?thesis by simp
next
  case (finalize now clock tr)
  have "db_confirmations d' = db_confirmations d"
    by (rule in_tx_confirmations [OF answered_pair [OF finalize(1), unfolded finalize_tombstone_evidence_def]]) (auto dest: body_confirmations)
  then show ?thesis by simp
qed

end
