(* ===== verification/Store_Props.thy ===== *)
theory Store_Props
  imports Store_Machine Outbox_Props
begin

text \<open>
  What the delivery state store guarantees to its callers: one writer per revision, a well-formed file
  after every operation, cursors that follow the confirmations and never go back, and no error
  outside the closed codes.
\<close>

section \<open>Writers\<close>




text \<open>The requests on a stream that commit form one history: each read the revision the one before
  it wrote, so with advancing requests the revisions they read are strictly increasing.\<close>

theorem committed_requests_form_one_history:
  assumes "wf_store d" and "run_all (store_exec cfg) qs d = (xs, d')"
    and "\<forall>q \<in> set qs. request_stream q = i \<and> request_expected q < request_next q"
    and "stream_rev i d = Some n"
  shows "chained request_expected request_next n (winners xs)
    \<and> sorted_wrt (<) (map request_expected (winners xs))"
proof -
  have chain: "chained request_expected request_next n (winners xs)"
    by (rule store.winners_chained [OF assms(1,2) _ assms(4)]) (use assms(3) in blast)
  moreover have "sorted_wrt (<) (map request_expected (winners xs))"
    by (rule chained_sorted [OF chain]) (use assms(3) winners_subset [OF assms(2)] in blast)
  ultimately show ?thesis ..
qed

definition eg_history :: "(instant \<times> unit store_request) list" where
  "eg_history = [(0, State_request (eg_transaction 0 [] [] None)),
     (1, State_request (eg_transaction 0 [] [] None)), (2, State_request (eg_transaction 1 [] [] None))]"

theorem committed_requests_form_one_history_witness:
  "chained request_expected request_next 0 (winners (fst (run_all (store_exec eg_config)
      eg_history eg_db)))
   \<and> map request_expected (winners (fst (run_all (store_exec eg_config)
      eg_history eg_db))) = [0, 1]"
proof -
  let ?qs = eg_history
  have start: "stream_rev eg_identity eg_db = Some 0" by code_simp
  have each: "\<forall>q \<in> set ?qs. request_stream q = eg_identity \<and> request_expected q < request_next q"
    by (simp add: eg_history_def eg_transaction_def empty_state_def)
  have "run_all (store_exec eg_config) ?qs eg_db =
      (fst (run_all (store_exec eg_config) ?qs eg_db), snd (run_all (store_exec eg_config) ?qs eg_db))" by simp
  from committed_requests_form_one_history [OF eg_db_wf_store this each start]
  have "chained request_expected request_next 0 (winners (fst (run_all (store_exec eg_config) ?qs eg_db)))"
    by (rule conjunct1)
  moreover have "map request_expected (winners (fst (run_all (store_exec eg_config) ?qs eg_db))) = [0, 1]"
    by code_simp
  ultimately show ?thesis ..
qed

section \<open>Every reachable file\<close>

lemma reachable_ensure: "reachable cfg d \<Longrightarrow> reachable cfg (snd (ensure_stream now i d))"
  by (erule reachable.step) (rule store_step.ensure, simp add: answered_def)

lemma reachable_exec: "reachable cfg d \<Longrightarrow> reachable cfg (snd (store_exec cfg q d))"
  by (erule reachable.step, rule store_step.request) (simp add: answered_def)

lemma eg_reachable: "reachable eg_config (snd (store_exec eg_config
    (0, State_request (eg_transaction 0 [eg_enqueue ''o1'' 1] [] (Some (eg_confirmation 1))))
    (snd (ensure_stream 0 eg_identity empty_db))))"
  by (intro reachable_exec reachable_ensure reachable.empty)





section \<open>Cursors\<close>

text \<open>The abstract cursor: the largest revision confirmed for the stream and the target.\<close>

definition confirmed_revisions :: "logical_identity \<Rightarrow> token \<Rightarrow> 'ev db \<Rightarrow> nat set" where
  "confirmed_revisions i target d =
     {cx_revision r | r. r \<in> set (db_confirmations d) \<and> cx_identity r = i \<and> cx_target r = target}"

lemma finite_confirmed [simp]: "finite (confirmed_revisions i target d)"
  by (simp add: confirmed_revisions_def setcompr_eq_image)

lemma cursor_is_max:
  assumes "wf_cursors (db_confirmations d) (db_cursors d)"
  shows "pc_projection_revision (authoritative_cursor i target d) =
    Max (insert 0 (confirmed_revisions i target d))"
proof -
  have key: "(\<lambda>r. (cu_identity r, cu_target r)) = cursor_key" by (simp add: fun_eq_iff cursor_key_def)
  show ?thesis
  proof (cases "lookup_row cursor_key (i, target) (db_cursors d)")
    case None
    have "confirmed_revisions i target d = {}"
    proof (rule equals0I)
      fix n assume "n \<in> confirmed_revisions i target d"
      then obtain r where "r \<in> set (db_confirmations d)" "(cx_identity r, cx_target r) = (i, target)"
        by (auto simp: confirmed_revisions_def)
      with assms obtain u where "u \<in> set (db_cursors d)" "cursor_key u = (i, target)"
        by (auto simp: wf_cursors_def)
      with None show False by (auto simp: lookup_row_None image_iff)
    qed
    with None show ?thesis by (simp add: authoritative_cursor_def key)
  next
    case (Some u)
    then have u: "u \<in> set (db_cursors d)" "cu_identity u = i" "cu_target u = target"
      by (auto simp: cursor_key_def dest: lookup_row_SomeD)
    with assms have new: "newest_confirmation (db_confirmations d) u" by (simp add: wf_cursors_def)
    have "Max (insert 0 (confirmed_revisions i target d)) = cu_revision u"
    proof (rule Max_eqI)
      show "cu_revision u \<in> insert 0 (confirmed_revisions i target d)"
        using new u by (auto simp: newest_confirmation_def confirmed_revisions_def)
      show "n \<le> cu_revision u" if "n \<in> insert 0 (confirmed_revisions i target d)" for n
        using that new u by (auto simp: newest_confirmation_def confirmed_revisions_def)
    qed simp
    with Some show ?thesis by (simp add: authoritative_cursor_def key)
  qed
qed

text \<open>C37: The cursor table refines the confirmation ledger: in every reachable file the authoritative
  cursor of a stream and target is the largest revision confirmed for them, and 0 before the first.\<close>

theorem cursor_refines_confirmations:
  assumes "reachable cfg d"
  shows "pc_projection_revision (authoritative_cursor i target d) =
    Max (insert 0 (confirmed_revisions i target d))"
proof -
  have "wf_cursors (db_confirmations d) (db_cursors d)"
    using reachable_wf [OF assms] by (simp add: wf_db_def wf_store_def wf_ledgers_def)
  then show ?thesis by (rule cursor_is_max)
qed

theorem cursor_refines_confirmations_witness:
  "\<exists>d. reachable eg_config d \<and> pc_projection_revision (authoritative_cursor eg_identity ''t'' d) = 1
     \<and> Max (insert 0 (confirmed_revisions eg_identity ''t'' d)) = 1"
proof -
  let ?d = "snd (store_exec eg_config
    (0, State_request (eg_transaction 0 [eg_enqueue ''o1'' 1] [] (Some (eg_confirmation 1))))
    (snd (ensure_stream 0 eg_identity empty_db)))"
  have "pc_projection_revision (authoritative_cursor eg_identity ''t'' ?d) = 1" by code_simp
  with cursor_refines_confirmations [OF eg_reachable, of eg_identity "''t''"] eg_reachable
  show ?thesis by metis
qed

text \<open>A cursor never goes back: no operation on a reachable file lowers the confirmed revision of any
  stream and target, whether it commits or not.\<close>

theorem cursor_never_goes_back:
  assumes "reachable cfg d" and "store_step cfg d r d'"
  shows "pc_projection_revision (authoritative_cursor i target d)
    \<le> pc_projection_revision (authoritative_cursor i target d')"
proof -
  have wf: "wf_db cfg d" by (rule reachable_wf [OF assms(1)])
  have wf': "wf_db cfg d'" by (rule store_step_wf [OF assms(2) wf])
  have cursors: "wf_cursors (db_confirmations d) (db_cursors d)" "wf_cursors (db_confirmations d') (db_cursors d')"
    using wf wf' by (simp_all add: wf_db_def wf_store_def wf_ledgers_def)
  have "confirmed_revisions i target d \<subseteq> confirmed_revisions i target d'"
    using store_step_confirmations [OF assms(2) wf] by (auto simp: confirmed_revisions_def)
  then show ?thesis
    unfolding cursors [THEN cursor_is_max] by (intro Max_mono) auto
qed

theorem cursor_never_goes_back_witness:
  "pc_projection_revision (authoritative_cursor eg_identity ''t'' (empty_db :: unit db))
    \<le> pc_projection_revision (authoritative_cursor eg_identity ''t'' (snd (ensure_stream 0 eg_identity empty_db :: _ \<times> unit db)))"
  by (rule cursor_never_goes_back [OF reachable.empty, where cfg = eg_config])
     (rule store_step.ensure, simp add: answered_def)

end
