(* ===== verification/Keyset_Props.thy ===== *)
theory Keyset_Props
  imports Store_Machine
begin

text \<open>
  What the snapshot and tombstone keysets guarantee: a completed keyset is the pages that were
  appended, sealed by its digest and frozen; a reconciliation names exactly the keys the candidate
  snapshot lost; tombstone sequences only grow; retention drops nothing before its time.
\<close>

section \<open>Two snapshots\<close>

definition eg_scope :: fingerprint_scope where
  "eg_scope = \<lparr>fs_scope_id = ''scope'', fs_scope_parameters = []\<rparr>"

definition eg_visibility :: "token \<Rightarrow> visibility" where
  "eg_visibility v = Delivery_vis \<lparr>dv_epoch = 1, dv_id = v\<rparr>"

definition eg_keyset_request :: "token \<Rightarrow> keyset_request" where
  "eg_keyset_request v = \<lparr>kr_attempt_id = ''a'', kr_logical_identity = eg_identity,
     kr_visibility = eg_visibility v, kr_record_key_scope = eg_scope, kr_hmac_key_id = ''k'',
     kr_key_commitment = ''c''\<rparr>"

definition eg_page :: "digest \<Rightarrow> nat \<Rightarrow> digest list \<Rightarrow> key_tag_page" where
  "eg_page k n ts = \<lparr>kp_keyset_id = k, kp_first_frame_sequence = n,
     kp_next_frame_sequence = n + length ts, kp_tags = ts, kp_bytes_supplied = 0\<rparr>"

definition eg_keyset_completion :: "digest \<Rightarrow> nat \<Rightarrow> digest \<Rightarrow> keyset_completion" where
  "eg_keyset_completion k n dg = \<lparr>kc_attempt_id = ''a'', kc_keyset_id = k,
     kc_expected_key_count = n, kc_expected_keyset_digest = dg\<rparr>"

definition eg_keyset :: "token \<Rightarrow> bool \<Rightarrow> snapshot_keyset" where
  "eg_keyset v b = \<lparr>ks_keyset_id = ''snapshot'' @ v, ks_logical_identity = eg_identity,
     ks_visibility = eg_visibility v, ks_record_key_scope = eg_scope, ks_hmac_key_id = ''k'',
     ks_key_commitment = ''c'', ks_keyset_ref = ''snapshot'' @ v, ks_keyset_digest = None,
     ks_key_count = 0, ks_complete = b\<rparr>"

text \<open>The keyset of \<open>v1\<close> holds \<open>x\<close> and \<open>y\<close> and is complete; the keyset of \<open>v2\<close> is still empty.\<close>

definition eg_snapshots :: "unit db" where
  "eg_snapshots =
     (let d1 = snd (begin_snapshot_keyset eg_config 0 (eg_keyset_request ''v1'') empty_db);
          d2 = snd (append_snapshot_keyset 0 ''a'' (eg_page ''snapshotv1'' 0 [''x'', ''y'']) d1);
          d3 = snd (complete_snapshot_keyset eg_config 0 (eg_keyset_completion ''snapshotv1'' 2 ''xy'') d2)
      in snd (begin_snapshot_keyset eg_config 0 (eg_keyset_request ''v2'') d3))"

definition eg_reconciliation :: "bool \<Rightarrow> reconciliation_request" where
  "eg_reconciliation b = \<lparr>rq_attempt_id = ''a'', rq_claim_digest = ''claim'',
     rq_prior_keyset = Some (eg_keyset ''v1'' True), rq_candidate_keyset = eg_keyset ''v2'' b\<rparr>"

lemma eg_snapshots_reachable: "reachable eg_config eg_snapshots"
proof -
  have B: "reachable eg_config d \<Longrightarrow> reachable eg_config (snd (begin_snapshot_keyset eg_config 0 q d))" for q d
    by (erule reachable.step) (rule store_step.begin_snapshot, simp add: answered_def)
  have A: "reachable eg_config d \<Longrightarrow> reachable eg_config (snd (append_snapshot_keyset 0 a p d))" for a p d
    by (erule reachable.step) (rule store_step.append_snapshot, simp add: answered_def)
  have C: "reachable eg_config d \<Longrightarrow> reachable eg_config (snd (complete_snapshot_keyset eg_config 0 c d))" for c d
    by (erule reachable.step) (rule store_step.complete_snapshot, simp add: answered_def)
  show ?thesis unfolding eg_snapshots_def Let_def by (intro B A C reachable.empty)
qed

lemma eg_snapshots_wf: "wf_snapshots eg_config eg_snapshots"
  using reachable_wf [OF eg_snapshots_reachable] by (simp add: wf_db_def)

section \<open>Filling and sealing\<close>

text \<open>C38: A keyset that is opened, filled page by page and completed holds exactly the tags of its pages in
  order; its count and its digest are those of that sequence.\<close>

theorem snapshot_keyset_roundtrip:
  assumes wf: "wf_snapshots cfg d" and new: "lookup_row kx_keyset_id k (db_snapshot_keysets d) = None"
    and start: "begin_snapshot_body cfg req d = Inr (ks, d1)"
    and fill: "fold_result (run_body append_snapshot_body) pages d1 = Inr d2"
    and pages: "\<forall>p \<in> set pages. kp_keyset_id p = k"
    and finish: "complete_snapshot_body cfg c d2 = Inr (ks', d3)" and c: "kc_keyset_id c = k"
  shows "snapshot_content k d3 = concat (map kp_tags pages)
    \<and> ks_key_count ks' = length (concat (map kp_tags pages))
    \<and> ks_keyset_digest ks' = Some (snapshot_seal cfg ks' (concat (map kp_tags pages)))
    \<and> snapshot_sealed k d3"
proof -
  have wf1: "wf_snapshots cfg d1" by (rule begin_snapshot_body_Inr(1) [OF start wf])
  have "tags_of k (db_snapshot_tags d) = []"
    using new wf by (intro absent_content [of "snapshot_seal cfg"])
      (simp_all add: wf_snapshots_def lookup_row_None)
  moreover have "db_snapshot_tags d1 = db_snapshot_tags d"
    by (subst begin_snapshot_body_Inr(2) [OF start wf]) simp
  ultimately have empty: "snapshot_content k d1 = []" by (simp add: snapshot_content_def)
  note fold = snapshots.appends_content [where cfg = cfg, OF wf1 fill, of k]
  have content2: "snapshot_content k d2 = concat (map kp_tags pages)"
    using fold empty pages by (simp add: filter_id_conv [THEN iffD2])
  have wf2: "wf_snapshots cfg d2" using fold by simp
  note C = complete_snapshot_body_Inr [OF finish wf2, unfolded c]
  have "snapshot_content k d3 = snapshot_content k d2"
    by (subst C(2)) (simp add: snapshot_content_def)
  then show ?thesis
    using C(4) [of k] C(8-10) content2 by (simp add: snapshot_content_def snapshot_sealed_def)
qed

theorem snapshot_keyset_roundtrip_witness:
  "\<exists>ks d1 d2 ks' d3. begin_snapshot_body eg_config (eg_keyset_request ''v1'') (empty_db :: unit db) = Inr (ks, d1)
     \<and> fold_result (run_body append_snapshot_body)
         [eg_page ''snapshotv1'' 0 [''x'', ''y''], eg_page ''snapshotv1'' 2 [''z'']] d1 = Inr d2
     \<and> complete_snapshot_body eg_config (eg_keyset_completion ''snapshotv1'' 3 ''xyz'') d2 = Inr (ks', d3)
     \<and> snapshot_content ''snapshotv1'' d3 = [''x'', ''y'', ''z''] \<and> ks_key_count ks' = 3"
proof -
  let ?b = "begin_snapshot_body eg_config (eg_keyset_request ''v1'') (empty_db :: unit db)"
  let ?ps = "[eg_page ''snapshotv1'' 0 [''x'', ''y''], eg_page ''snapshotv1'' 2 [''z'']]"
  let ?c = "eg_keyset_completion ''snapshotv1'' 3 ''xyz''"
  have "\<not> isl ?b" by code_simp
  then obtain ks d1 where b: "?b = Inr (ks, d1)" by (cases ?b) auto
  have "\<not> isl (bind ?b (\<lambda>x. fold_result (run_body append_snapshot_body) ?ps (snd x)))" by code_simp
  then obtain d2 where f: "fold_result (run_body append_snapshot_body) ?ps d1 = Inr d2"
    by (cases "fold_result (run_body append_snapshot_body) ?ps d1") (auto simp: b)
  have "\<not> isl (bind ?b (\<lambda>x. bind (fold_result (run_body append_snapshot_body) ?ps (snd x))
      (complete_snapshot_body eg_config ?c)))" by code_simp
  then have "\<not> isl (complete_snapshot_body eg_config ?c d2)" by (simp only: b f bind_simps snd_conv not_False_eq_True)
  then obtain ks' d3 where c: "complete_snapshot_body eg_config ?c d2 = Inr (ks', d3)"
    by (cases "complete_snapshot_body eg_config ?c d2") auto
  have wf: "wf_snapshots eg_config (empty_db :: unit db)"
    using wf_db_empty [of eg_config] by (simp add: wf_db_def)
  have new: "lookup_row kx_keyset_id ''snapshotv1'' (db_snapshot_keysets (empty_db :: unit db)) = None"
    by (simp add: empty_db_def)
  have p: "\<forall>p \<in> set ?ps. kp_keyset_id p = ''snapshotv1''" by (simp add: eg_page_def)
  from snapshot_keyset_roundtrip [OF wf new b f p c] have
    "snapshot_content ''snapshotv1'' d3 = [''x'', ''y'', ''z''] \<and> ks_key_count ks' = 3"
    by (simp add: eg_page_def eg_keyset_completion_def)
  with b f c show ?thesis by blast
qed

text \<open>A complete keyset is frozen: whatever pages and completions are sent afterwards, it stays
  complete and its tags stay the same.\<close>

theorem complete_keyset_is_frozen:
  assumes "wf_snapshots cfg d" and "snapshot_sealed k d"
    and "fold_result (log_step (run_body append_snapshot_body) (run_body (complete_snapshot_body cfg))) xs d = Inr d'"
  shows "snapshot_sealed k d' \<and> snapshot_content k d' = snapshot_content k d"
  using snapshots.frozen [OF assms(1,3,2)] by blast

theorem complete_keyset_is_frozen_witness:
  "\<exists>d'. fold_result (log_step (run_body append_snapshot_body) (run_body (complete_snapshot_body eg_config)))
       [Inl (eg_page ''snapshotv2'' 0 [''z'']), Inr (eg_keyset_completion ''snapshotv1'' 2 ''xy'')] eg_snapshots = Inr d'
     \<and> snapshot_content ''snapshotv1'' d' = [''x'', ''y'']"
proof -
  let ?run = "fold_result (log_step (run_body append_snapshot_body) (run_body (complete_snapshot_body eg_config)))
       [Inl (eg_page ''snapshotv2'' 0 [''z'']), Inr (eg_keyset_completion ''snapshotv1'' 2 ''xy'')] eg_snapshots"
  have "\<not> isl ?run" by code_simp
  then obtain d' where run: "?run = Inr d'" by (cases ?run) auto
  have "snapshot_sealed ''snapshotv1'' eg_snapshots" by code_simp
  moreover have "snapshot_content ''snapshotv1'' eg_snapshots = [''x'', ''y'']" by code_simp
  ultimately show ?thesis using complete_keyset_is_frozen [OF eg_snapshots_wf _ run] run by metis
qed

section \<open>Reconciling\<close>



text \<open>A reconciliation replays: sending the same request again, at any time, answers the stored result
  and its evidence, and writes nothing but the expiry every transaction performs.\<close>

theorem reconcile_snapshot_replays:
  assumes ok: "reconcile_snapshot cfg now clock req d = (Inr (rec, intent), d')"
  shows "reconcile_snapshot cfg now' clock' req d' =
    (Inr (rec, intent), expire_retained_keysets now' d')"
proof -
  from ok have c: "ks_complete (rq_candidate_keyset req)"
    and body: "reconcile_snapshot_body cfg clock req (expire_retained_keysets now d) = Inr ((rec, intent), d')"
    by (auto simp: reconcile_snapshot_def in_tx_Inr raise_def split: if_splits)
  from body have "\<exists>r. lookup_row rx_attempt_id (rq_attempt_id req) (db_reconciliations d') = Some r
      \<and> rx_json r = rec \<and> sr_candidate_keyset_ref rec = ks_keyset_ref (rq_candidate_keyset req)
      \<and> sr_deletion_evidence rec = Some intent"
    by (cases rule: reconcile_snapshot_body_Inr) (auto simp: lookup_row_append)
  with c show ?thesis
    by (auto simp: reconcile_snapshot_def in_tx_Inr reconcile_snapshot_body_def Let_def)
qed

theorem reconcile_snapshot_replays_witness:
  "\<exists>x d'. reconcile_snapshot eg_config 0 0 (eg_reconciliation True) eg_snapshots = (Inr x, d')
     \<and> reconcile_snapshot eg_config 9 9 (eg_reconciliation True) d' = (Inr x, expire_retained_keysets 9 d')"
proof -
  have "\<not> isl (fst (reconcile_snapshot eg_config 0 0 (eg_reconciliation True) eg_snapshots))" by code_simp
  then obtain rec intent d' where
    ok: "reconcile_snapshot eg_config 0 0 (eg_reconciliation True) eg_snapshots = (Inr (rec, intent), d')"
    using run_succeeds by fast
  with reconcile_snapshot_replays [OF ok] show ?thesis by blast
qed

text \<open>The completeness of the candidate is taken from the request, not from the store: a request that
  calls an unfinished keyset complete is reconciled, and every key of the prior snapshot is reported
  deleted although the candidate's tags are still to come.\<close>

theorem incomplete_candidate_is_reconciled:
  "\<not> snapshot_sealed ''snapshotv2'' eg_snapshots
    \<and> (\<exists>rec intent d'. reconcile_snapshot eg_config 0 0 (eg_reconciliation True) eg_snapshots = (Inr (rec, intent), d')
         \<and> de_deleted_key_count intent = 2 \<and> sr_status rec = Rs_complete
         \<and> \<not> isl (fst (append_snapshot_keyset 0 ''a'' (eg_page ''snapshotv2'' 0 [''x'', ''y'']) d')))"
proof -
  let ?r = "reconcile_snapshot eg_config 0 0 (eg_reconciliation True) eg_snapshots"
  have "\<not> snapshot_sealed ''snapshotv2'' eg_snapshots" by code_simp
  moreover have "map_sum id (\<lambda>(rec, intent). (de_deleted_key_count intent, sr_status rec)) (fst ?r) = Inr (2, Rs_complete)"
    by code_simp
  moreover have "\<not> isl (fst (append_snapshot_keyset 0 ''a'' (eg_page ''snapshotv2'' 0 [''x'', ''y'']) (snd ?r)))"
    by code_simp
  ultimately show ?thesis by (cases ?r; cases "fst ?r") auto
qed

section \<open>Tombstones\<close>

text \<open>The tombstone sequences of a keyset are strictly increasing in every reachable file, and an
  append goes through exactly when the keyset is known and open and the page's sequences increase
  beyond those it holds.\<close>

theorem tombstone_append_iff:
  assumes "reachable cfg d"
  shows "(\<forall>k \<in> kx_keyset_id ` set (db_tombstone_keysets d). ordered_tags (tombstone_content k d))
    \<and> (\<not> isl (append_tombstone_body page d) \<longleftrightarrow>
        (\<exists>r. lookup_row kx_keyset_id (tg_keyset_id page) (db_tombstone_keysets d) = Some r \<and> \<not> kx_complete r)
        \<and> ordered_tags (tombstone_content (tg_keyset_id page) d @ tg_items page))"
proof -
  have wf: "wf_tombstones cfg d" and ord: "ordered_tombstones d"
    using reachable_wf [OF assms] by (simp_all add: wf_db_def wf_tombstone_log_def)
  have wfk: "wf_keysets (tombstone_seal cfg) (db_tombstone_keysets d) (db_tombstone_tags d)"
    using wf by (simp add: wf_tombstones_def)
  let ?k = "tg_keyset_id page"
  have "\<not> isl (append_tombstone_body page d) \<longleftrightarrow>
        (\<exists>r. lookup_row kx_keyset_id ?k (db_tombstone_keysets d) = Some r \<and> \<not> kx_complete r)
        \<and> ordered_tags (tombstone_content ?k d @ tg_items page)"
  proof (cases "lookup_row kx_keyset_id ?k (db_tombstone_keysets d)")
    case None
    then show ?thesis by (simp add: append_tombstone_body_def load_keyset_def raise_def)
  next
    case (Some r)
    note ids = wf_keysets_tags [OF wfk] lookup_image [OF Some]
    have held: "ordered_tags (tags_of ?k (db_tombstone_tags d))"
      using ord ids(2) by (auto simp: ordered_tombstones_def)
    show ?thesis
      using Some held
      by (cases "kx_complete r")
        (auto simp: append_tombstone_body_def load_keyset_def raise_def Let_def tombstone_content_def
          insert_tombstones_eq [OF wf_tags_below [OF ids]] ordered_tags_append)
  qed
  with ord show ?thesis by (simp add: ordered_tombstones_def tombstone_content_def)
qed

theorem tombstone_append_iff_witness:
  "isl (append_tombstone_body \<lparr>tg_keyset_id = ''tombstonev1'',
       tg_items = [\<lparr>tt_event_sequence = 5, tt_tag = ''x''\<rparr>, \<lparr>tt_event_sequence = 5, tt_tag = ''y''\<rparr>],
       tg_bytes_supplied = 0\<rparr>
     (snd (begin_tombstone_keyset eg_config 0 (eg_keyset_request ''v1'') (empty_db :: unit db))))"
proof -
  let ?d = "snd (begin_tombstone_keyset eg_config 0 (eg_keyset_request ''v1'') (empty_db :: unit db))"
  have "reachable eg_config ?d"
    by (rule reachable.step [OF reachable.empty], rule store_step.begin_tombstone) (simp add: answered_def)
  note iff = tombstone_append_iff [OF this, THEN conjunct2]
  have no: "\<not> ordered_tags (ts @ [\<lparr>tt_event_sequence = 5, tt_tag = ''x''\<rparr>, \<lparr>tt_event_sequence = 5, tt_tag = ''y''\<rparr>])" for ts
    by (simp add: ordered_tags_def sorted_wrt_append)
  show ?thesis
    by (rule ccontr) (simp add: iff no)
qed

section \<open>Retention\<close>

text \<open>The expiry that opens every transaction drops a keyset exactly when a successor is complete and its
  retention window has elapsed, and takes its tags with it; every other keyset keeps its row and its
  tags, and no tag is left without its keyset.\<close>

theorem expiry_is_exact:
  assumes "reachable cfg d"
  shows "db_snapshot_keysets (expire_retained_keysets now d) =
      filter (\<lambda>r. \<not> (kx_successor_complete r \<and> (\<exists>t. kx_retained_until r = Some t \<and> t \<le> now))) (db_snapshot_keysets d)
    \<and> (\<forall>r \<in> set (db_snapshot_keysets (expire_retained_keysets now d)).
         snapshot_content (kx_keyset_id r) (expire_retained_keysets now d) = snapshot_content (kx_keyset_id r) d)
    \<and> (\<forall>t \<in> set (db_snapshot_tags (expire_retained_keysets now d)).
         tx_keyset_id t \<in> kx_keyset_id ` set (db_snapshot_keysets (expire_retained_keysets now d)))"
proof -
  let ?d = "expire_retained_keysets now d" and ?ids = "expired_ids now (db_snapshot_keysets d)"
  have wf: "wf_snapshots cfg d" using reachable_wf [OF assms] by (simp add: wf_db_def)
  then have uniq: "unique_keys kx_keyset_id (db_snapshot_keysets d)"
    by (simp add: wf_snapshots_def wf_keysets_def)
  have exp: "kx_keyset_id r \<in> set ?ids \<longleftrightarrow> keyset_expired now r" if "r \<in> set (db_snapshot_keysets d)" for r
    using that uniq by (auto simp: expired_ids_iff unique_keys_def distinct_map inj_on_def)
  have rows: "db_snapshot_keysets ?d = filter (\<lambda>r. \<not> keyset_expired now r) (db_snapshot_keysets d)"
    using exp by (auto simp: expire_retained_keysets_def Let_def delete_rows_def intro!: filter_cong)
  moreover have "(\<lambda>r. \<not> keyset_expired now (r :: snapshot_keyset keyset_row)) =
      (\<lambda>r. \<not> (kx_successor_complete r \<and> (\<exists>t. kx_retained_until r = Some t \<and> t \<le> now)))"
    by (auto simp: keyset_expired_def fun_eq_iff split: option.splits)
  moreover have "snapshot_content (kx_keyset_id r) ?d = snapshot_content (kx_keyset_id r) d"
    if "r \<in> set (db_snapshot_keysets ?d)" for r
  proof -
    have "kx_keyset_id r \<notin> set ?ids" using that exp by (auto simp: rows)
    from filter_kept_tags [OF this, of "db_snapshot_tags d"] show ?thesis
      by (simp add: snapshot_content_def tags_of_def expire_retained_keysets_def Let_def)
  qed
  moreover have "wf_snapshots cfg ?d" using wf by simp
  ultimately show ?thesis by (auto simp: wf_snapshots_def wf_keysets_def wf_tags_def)
qed

theorem expiry_is_exact_witness:
  "db_snapshot_keysets (expire_retained_keysets 0 eg_snapshots) =
     filter (\<lambda>r. \<not> (kx_successor_complete r \<and> (\<exists>t. kx_retained_until r = Some t \<and> t \<le> 0))) (db_snapshot_keysets eg_snapshots)"
  using expiry_is_exact [OF eg_snapshots_reachable, of 0] by blast

text \<open>Tombstone evidence is sealed evidence: a finalization that commits names a complete keyset under
  the caller's key, with the digest and the count of exactly the tombstones stored for it.\<close>

theorem finalize_tombstone_correct:
  assumes wf: "wf_tombstone_log cfg d"
    and ok: "finalize_tombstone_body cfg clock req d = Inr (intent, d')"
  shows "tombstone_sealed (ks_keyset_id (tr_keyset req)) d
    \<and> (\<exists>r. lookup_row kx_keyset_id (ks_keyset_id (tr_keyset req)) (db_tombstone_keysets d) = Some r
         \<and> kx_hmac_key_id r = ks_hmac_key_id (tr_keyset req)
         \<and> kx_key_commitment r = ks_key_commitment (tr_keyset req)
         \<and> de_deleted_keyset_digest intent =
             tombstone_seal cfg (kx_json r) (tombstone_content (ks_keyset_id (tr_keyset req)) d))
    \<and> de_deleted_key_count intent = length (tombstone_content (ks_keyset_id (tr_keyset req)) d)
    \<and> tombstone_content k d' = tombstone_content k d"
proof -
  have wt: "wf_tombstones cfg d" "ordered_tombstones d" using wf by (simp_all add: wf_tombstone_log_def)
  note F = finalize_tombstone_body_Inr [OF ok wt]
  have "tombstone_content k d' = tombstone_content k d"
    by (subst F(3)) (simp add: tombstone_content_def)
  then show ?thesis using F(4) by (auto simp: tombstone_sealed_def tombstone_content_def)
qed

definition eg_tombstones :: "unit db" where
  "eg_tombstones =
     (let d1 = snd (begin_tombstone_keyset eg_config 0 (eg_keyset_request ''v1'') empty_db);
          d2 = snd (append_tombstone_keyset 0 ''a'' \<lparr>tg_keyset_id = ''tombstonev1'',
                 tg_items = [\<lparr>tt_event_sequence = 5, tt_tag = ''x''\<rparr>, \<lparr>tt_event_sequence = 7, tt_tag = ''y''\<rparr>],
                 tg_bytes_supplied = 0\<rparr> d1)
      in snd (complete_tombstone_keyset eg_config 0 \<lparr>kc_attempt_id = ''a'', kc_keyset_id = ''tombstonev1'',
           kc_expected_key_count = 2, kc_expected_keyset_digest = ''xy'',
           tc_event_sequence_low = Some 5, tc_event_sequence_high = Some 7\<rparr> d2))"

definition eg_evidence_request :: tombstone_evidence_request where
  "eg_evidence_request = \<lparr>tr_attempt_id = ''a'', tr_claim_digest = ''claim'',
     tr_keyset = \<lparr>ks_keyset_id = ''tombstonev1'', ks_logical_identity = eg_identity,
       ks_visibility = eg_visibility ''v1'', ks_record_key_scope = eg_scope, ks_hmac_key_id = ''k'',
       ks_key_commitment = ''c'', ks_keyset_ref = ''tombstonev1'', ks_keyset_digest = None,
       ks_key_count = 0, ks_complete = False, tk_event_sequence_low = None,
       tk_event_sequence_high = None\<rparr>\<rparr>"

theorem finalize_tombstone_correct_witness:
  "\<exists>intent d'. finalize_tombstone_body eg_config 0 eg_evidence_request eg_tombstones = Inr (intent, d')
     \<and> de_deleted_key_count intent = 2"
proof -
  have "\<not> isl (finalize_tombstone_body eg_config 0 eg_evidence_request eg_tombstones)" by code_simp
  then obtain intent d' where ok: "finalize_tombstone_body eg_config 0 eg_evidence_request eg_tombstones = Inr (intent, d')"
    by (cases "finalize_tombstone_body eg_config 0 eg_evidence_request eg_tombstones") auto
  have B: "reachable eg_config d \<Longrightarrow> reachable eg_config (snd (begin_tombstone_keyset eg_config 0 q d))" for q d
    by (erule reachable.step) (rule store_step.begin_tombstone, simp add: answered_def)
  have A: "reachable eg_config d \<Longrightarrow> reachable eg_config (snd (append_tombstone_keyset 0 a p d))" for a p d
    by (erule reachable.step) (rule store_step.append_tombstone, simp add: answered_def)
  have C: "reachable eg_config d \<Longrightarrow> reachable eg_config (snd (complete_tombstone_keyset eg_config 0 c d))" for c d
    by (erule reachable.step) (rule store_step.complete_tombstone, simp add: answered_def)
  have "reachable eg_config eg_tombstones" unfolding eg_tombstones_def Let_def by (intro B A C reachable.empty)
  then have wf: "wf_tombstone_log eg_config eg_tombstones" using reachable_wf by (auto simp: wf_db_def)
  have "length (tombstone_content (ks_keyset_id (tr_keyset eg_evidence_request)) eg_tombstones) = 2" by code_simp
  with finalize_tombstone_correct [OF wf ok] ok show ?thesis by auto
qed

end
