(* ===== verification/Relation_Names.thy ===== *)
theory Relation_Names
  imports Prelude
begin

text \<open>
  The names of the relations a product publishes, and how a consumer's read chooses one of them:
  the \<open>relation_names\<close> of the registered shapes (\<open>ergasterion/framework/shapes.py\<close> and the plug-ins
  under \<open>ergasterion/shapes\<close>), and the resolver of \<open>ergasterion/framework/contract.py\<close>.
\<close>

section \<open>Errors of the product pipe\<close>

text \<open>
  The \<open>FrameworkError\<close> classes the product graph and the contract pipe raise, with the values the
  code stores in them. An error whose only payload is a message is a datatype of the situations that
  raise it.
\<close>

datatype read_kind = Read_source | Read_lookup

datatype auxiliary_fault =
    Empty_label string
  | Claimed_by string string
  | Unknown_owner
  | Already_published

datatype coverage_fault =
    Key_mismatch string string
  | Unpublished_stored_name string string
  | Duplicate_nodes "string list"
  | Node_without_relation string
  | Unknown_generation string string
  | Unknown_materialisation string string
  | Checkpoint_without_table string
  | Dangling_edge string string string
  | Edge_without_relation string string
  | Lineage_of_unknown string
  | Lineage_from_unknown string string
  | Incomplete_lineage string string
  | Declared_by_unknown string string
  | Unexplained_field string string string
  | Validation_of_unknown string

datatype graph_error =
    Missing_upstream_product string string string
  | Product_graph_cycle "string list"
  | Unclassified_generation string string
  | Reconciliation_reference string string string "string list"
  | Auxiliary_relation_error string string auxiliary_fault
  | Coverage_error coverage_fault
  | Ambiguous_source_relation string string "string list" "string list" read_kind
  | Unknown_source_relation string string string "string list" read_kind bool
  | Unknown_shape string
  | Expression_error string string
  | Key_error string

text \<open>\<open>d[k]\<close> of a \<open>dict\<close>.\<close>

definition get_item :: "(string \<times> 'v) list \<Rightarrow> string \<Rightarrow> graph_error + 'v" where
  "get_item d k = (case map_of d k of None \<Rightarrow> Inl (Key_error k) | Some v \<Rightarrow> Inr v)"

lemma get_item_Inr [simp]: "get_item d k = Inr v \<longleftrightarrow> map_of d k = Some v"
  by (simp add: get_item_def split: option.splits)

lemma get_item_Inl [simp]: "get_item d k = Inl e \<longleftrightarrow> map_of d k = None \<and> e = Key_error k"
  by (auto simp: get_item_def split: option.splits)

section \<open>Shapes\<close>

text \<open>
  The names a \<open>target.shape_config\<close> section declares, one list per kind of entry; a shape reads its
  own kinds.
\<close>

record shape_config =
  cf_entities :: "string list"
  cf_dimensions :: "string list"
  cf_facts :: "string list"
  cf_hubs :: "string list"
  cf_links :: "string list"
  cf_satellites :: "string list"
  cf_business_vault :: "string list"
  cf_point_in_time :: "string list"

definition product_name :: "string \<Rightarrow> string \<Rightarrow> string" where
  "product_name domain name = domain @ ''.'' @ name"

definition under_product :: "string \<Rightarrow> string \<Rightarrow> string" where
  "under_product product suffix = product @ ''__'' @ suffix"

definition declared_names :: "string \<Rightarrow> string \<Rightarrow> shape_config \<Rightarrow> string list" where
  "declared_names domain name cfg = [product_name domain name]"

definition canonical_names :: "string \<Rightarrow> string \<Rightarrow> shape_config \<Rightarrow> string list" where
  "canonical_names domain name cfg = map (under_product (product_name domain name)) (cf_entities cfg)"

definition ods_names :: "string \<Rightarrow> string \<Rightarrow> shape_config \<Rightarrow> string list" where
  "ods_names domain name cfg =
     concat (map (\<lambda>e. map (under_product (product_name domain name))
                        [e, e @ ''_xref'', e @ ''_audit'']) (cf_entities cfg))"

definition dimensional_names :: "string \<Rightarrow> string \<Rightarrow> shape_config \<Rightarrow> string list" where
  "dimensional_names domain name cfg =
     map (\<lambda>n. under_product (product_name domain name) (''dim_'' @ n)) (cf_dimensions cfg)
     @ map (\<lambda>n. under_product (product_name domain name) (''fact_'' @ n)) (cf_facts cfg)"

definition data_vault_names :: "string \<Rightarrow> string \<Rightarrow> shape_config \<Rightarrow> string list" where
  "data_vault_names domain name cfg = map (under_product (product_name domain name))
     (map (\<lambda>n. ''hub_'' @ n) (cf_hubs cfg) @ map (\<lambda>n. ''link_'' @ n) (cf_links cfg)
      @ map (\<lambda>n. ''sat_'' @ n) (cf_satellites cfg) @ map (\<lambda>n. ''golden_'' @ n) (cf_business_vault cfg)
      @ map (\<lambda>n. ''pit_'' @ n) (cf_point_in_time cfg))"

text \<open>\<open>get_shape\<close>: a name the registry does not carry is refused.\<close>

definition shape_relation_names ::
    "string \<Rightarrow> string \<Rightarrow> string \<Rightarrow> shape_config \<Rightarrow> graph_error + string list" where
  "shape_relation_names shape domain name cfg =
     (if shape = ''declared'' then Inr (declared_names domain name cfg)
      else if shape = ''canonical'' then Inr (canonical_names domain name cfg)
      else if shape = ''data_vault'' then Inr (data_vault_names domain name cfg)
      else if shape = ''dimensional'' then Inr (dimensional_names domain name cfg)
      else if shape = ''ods'' then Inr (ods_names domain name cfg)
      else Inl (Unknown_shape shape))"

section \<open>Choosing a relation\<close>

text \<open>\<open>relation_choice\<close>: the published name without the producer's prefix.\<close>

definition strip_prefix :: "string \<Rightarrow> string \<Rightarrow> string option" where
  "strip_prefix p s = (if take (length p) s = p then Some (drop (length p) s) else None)"

definition relation_choice :: "string \<Rightarrow> string \<Rightarrow> string option" where
  "relation_choice producer relation_name = strip_prefix (producer @ ''__'') relation_name"

definition relation_choices :: "string \<Rightarrow> string list \<Rightarrow> string list" where
  "relation_choices producer available =
     filter (\<lambda>c. c \<noteq> []) (List.map_filter (relation_choice producer) available)"

definition resolve_relation_name ::
    "string list \<Rightarrow> string \<Rightarrow> string \<Rightarrow> string option \<Rightarrow> read_kind \<Rightarrow> graph_error + string" where
  "resolve_relation_name available consumer producer relation read =
     (let choices = relation_choices producer available in
      case relation of
        None \<Rightarrow>
          (case available of [name] \<Rightarrow> Inr name
           | _ \<Rightarrow> Inl (Ambiguous_source_relation consumer producer available choices read))
      | Some r \<Rightarrow>
          (case find (\<lambda>name. relation_choice producer name = Some r) available of
             Some name \<Rightarrow> Inr name
           | None \<Rightarrow> Inl (Unknown_source_relation consumer producer r choices read
                       (r = producer \<or> take (length producer + 2) r = producer @ ''__''))))"

lemma strip_prefix_Some [simp]: "strip_prefix p s = Some r \<longleftrightarrow> s = p @ r"
proof
  assume "strip_prefix p s = Some r"
  then have "take (length p) s = p" "drop (length p) s = r" by (auto simp: strip_prefix_def split: if_splits)
  then show "s = p @ r" by (metis append_take_drop_id)
qed (simp add: strip_prefix_def)

lemma relation_choice_Some [simp]:
  "relation_choice producer name = Some r \<longleftrightarrow> name = under_product producer r"
  by (simp add: relation_choice_def under_product_def)

lemma under_product_inject [simp]: "under_product p r = under_product p r' \<longleftrightarrow> r = r'"
  by (simp add: under_product_def)

lemma under_product_nonempty [simp]: "under_product p r \<noteq> []" "[] \<noteq> under_product p r"
  "product_name d n \<noteq> []" "[] \<noteq> product_name d n"
  by (simp_all add: under_product_def product_name_def)

lemma set_relation_choices:
  "r \<in> set (relation_choices producer available) \<longleftrightarrow>
     r \<noteq> [] \<and> under_product producer r \<in> set available"
proof -
  have "set (List.map_filter f xs) = {y. \<exists>x \<in> set xs. f x = Some y}" for f :: "string \<Rightarrow> string option" and xs
    by (induction xs) (auto simp: List.map_filter_simps split: option.splits)
  then show ?thesis by (auto simp: relation_choices_def)
qed

lemma resolve_named:
  "resolve_relation_name available consumer producer (Some r) read = Inr name \<longleftrightarrow>
     name = under_product producer r \<and> name \<in> set available"
proof -
  have "find (\<lambda>name. relation_choice producer name = Some r) available =
      (if under_product producer r \<in> set available then Some (under_product producer r) else None)"
    by (induction available) auto
  then show ?thesis by (auto simp: resolve_relation_name_def)
qed

lemma resolve_unnamed:
  "resolve_relation_name available consumer producer None read = Inr name \<longleftrightarrow> available = [name]"
  by (auto simp: resolve_relation_name_def Let_def split: list.splits)

lemma resolve_published:
  "resolve_relation_name available consumer producer relation read = Inr name \<Longrightarrow> name \<in> set available"
  by (cases relation) (auto simp: resolve_named resolve_unnamed)

lemma shape_names_nonempty:
  "shape_relation_names shape domain name cfg = Inr names \<Longrightarrow> [] \<notin> set names"
  by (auto simp: shape_relation_names_def declared_names_def canonical_names_def ods_names_def
      dimensional_names_def data_vault_names_def split: if_splits)

end
