(* ===== verification/Graph_Order.thy ===== *)
theory Graph_Order
  imports Relation_Names
begin

text \<open>
  The build order of the product graph: \<open>ProductEdge\<close> and \<open>_topological_order\<close> of
  \<open>ergasterion/framework/graph.py\<close>, with the facts that make it a topological order and its failure
  a proof of a cycle.
\<close>

section \<open>The loop\<close>

datatype edge_kind = Edge_source | Edge_lookup | Edge_auxiliary

record product_edge =
  pe_source :: string
  pe_target :: string
  pe_kind :: edge_kind
  pe_contract :: string
  pe_relation :: string

definition blockers :: "product_edge list \<Rightarrow> string \<Rightarrow> string list" where
  "blockers edges n = map pe_source (filter (\<lambda>e. pe_target e = n) edges)"

text \<open>
  The \<open>while\<close> loop: \<open>remaining\<close> is the set of products left, in published-name order, and \<open>placed\<close> is the
  set of the products already in \<open>order\<close>. Every round that goes on removes a product.
\<close>

function topo_loop ::
    "product_edge list \<Rightarrow> string list \<Rightarrow> string list \<Rightarrow> graph_error + string list" where
  "topo_loop edges remaining order =
     (if remaining = [] then Inr order
      else let ready = filter (\<lambda>n. set (blockers edges n) \<subseteq> set order) remaining
        in if ready = [] then Inl (Product_graph_cycle remaining)
           else topo_loop edges (filter (\<lambda>n. n \<notin> set ready) remaining) (order @ ready))"
  by pat_completeness auto

termination
proof (relation "measure (\<lambda>(edges, remaining, order). length remaining)", goal_cases)
  case (2 edges remaining order ready)
  then have "hd ready \<in> set ready" by (intro hd_in_set) simp
  moreover from this have "hd ready \<in> set remaining" unfolding 2(2) by simp
  ultimately show ?case by (auto intro: length_filter_less)
qed simp

declare topo_loop.simps [simp del]

definition topological_order ::
    "string list \<Rightarrow> product_edge list \<Rightarrow> graph_error + string list" where
  "topological_order products edges = topo_loop edges (sorted_set products) []"

section \<open>Ordered prefixes\<close>

definition depends :: "product_edge list \<Rightarrow> (string \<times> string) set" where
  "depends edges = {(pe_source e, pe_target e) | e. e \<in> set edges}"

text \<open>Every member of the list comes after everything it depends on.\<close>

definition builds_before :: "product_edge list \<Rightarrow> string list \<Rightarrow> bool" where
  "builds_before edges xs \<longleftrightarrow>
     (\<forall>ys n zs. xs = ys @ n # zs \<longrightarrow> (\<forall>m. (m, n) \<in> depends edges \<longrightarrow> m \<in> set ys))"

lemma set_blockers: "m \<in> set (blockers edges n) \<longleftrightarrow> (m, n) \<in> depends edges"
  by (auto simp: blockers_def depends_def)

lemma builds_before_Nil [simp]: "builds_before edges []"
  by (simp add: builds_before_def)

lemma builds_before_append:
  assumes xs: "builds_before edges xs"
    and ready: "\<And>n m. n \<in> set rs \<Longrightarrow> (m, n) \<in> depends edges \<Longrightarrow> m \<in> set xs"
  shows "builds_before edges (xs @ rs)"
  unfolding builds_before_def
proof (intro allI impI)
  fix ys n zs m assume eq: "xs @ rs = ys @ n # zs" and dep: "(m, n) \<in> depends edges"
  from eq consider (old) us where "xs = ys @ n # us" | (new) us where "ys = xs @ us" "rs = us @ n # zs"
    by (auto simp: append_eq_append_conv2 append_eq_Cons_conv)
  then show "m \<in> set ys"
  proof cases
    case (old us)
    with xs dep show ?thesis by (simp add: builds_before_def)
  next
    case (new us)
    with ready [of n m] dep show ?thesis by simp
  qed
qed

text \<open>In an ordered list a dependency strictly lowers the first position, so there is no cycle in it.\<close>

lemma takeWhile_until: "n \<notin> set ys \<Longrightarrow> takeWhile (\<lambda>x. x \<noteq> n) (ys @ n # zs) = ys"
  by (induction ys) auto

lemma builds_before_earlier:
  assumes "builds_before edges xs" and "(m, n) \<in> depends edges" and "n \<in> set xs"
  shows "m \<in> set xs \<and> length (takeWhile (\<lambda>x. x \<noteq> m) xs) < length (takeWhile (\<lambda>x. x \<noteq> n) xs)"
proof -
  from split_list_first [OF assms(3)] obtain ys zs where xs: "xs = ys @ n # zs" "n \<notin> set ys" by blast
  with assms(1,2) have m: "m \<in> set ys" by (simp add: builds_before_def)
  from split_list_first [OF m] obtain us vs where ys: "ys = us @ m # vs" "m \<notin> set us" by blast
  with xs(1) have "xs = us @ m # (vs @ n # zs)" by simp
  with ys takeWhile_until [OF ys(2), of "vs @ n # zs"] takeWhile_until [OF xs(2), of zs] xs(1) m
  show ?thesis by simp
qed

lemma builds_before_trancl:
  assumes "builds_before edges xs" and "(m, n) \<in> (depends edges)\<^sup>+" and "n \<in> set xs"
  shows "m \<in> set xs \<and> length (takeWhile (\<lambda>x. x \<noteq> m) xs) < length (takeWhile (\<lambda>x. x \<noteq> n) xs)"
  using assms(2,3)
proof (induction rule: converse_trancl_induct)
  case (base m)
  then show ?case by (rule builds_before_earlier [OF assms(1)])
next
  case (step k m)
  with builds_before_earlier [OF assms(1) step.hyps(1)] show ?case by auto
qed

lemma builds_before_acyclic:
  "builds_before edges xs \<Longrightarrow> n \<in> set xs \<Longrightarrow> (n, n) \<notin> (depends edges)\<^sup>+"
  using builds_before_trancl by blast

text \<open>A finite set whose every member has a predecessor in it lies downstream of a cycle.\<close>

lemma cycle_upstream:
  assumes "finite S" and "\<And>x. x \<in> S \<Longrightarrow> \<exists>y \<in> S. (y, x) \<in> r" and "n \<in> S"
  shows "\<exists>c. (c, c) \<in> r\<^sup>+ \<and> (c, n) \<in> r\<^sup>*"
proof -
  define A where "A = {y \<in> S. (y, n) \<in> r\<^sup>*}"
  define q where "q = r \<inter> (A \<times> A)"
  have step: "\<exists>y \<in> A. (y, x) \<in> q" if x: "x \<in> A" for x
  proof -
    from x assms(2) [of x] obtain y where "y \<in> S" "(y, x) \<in> r" by (auto simp: A_def)
    with x show ?thesis by (auto simp: A_def q_def intro: converse_rtrancl_into_rtrancl)
  qed
  have "\<not> acyclic q"
  proof
    assume "acyclic q"
    moreover have "finite q" using assms(1) by (simp add: q_def A_def)
    ultimately have "wf q" by (rule finite_acyclic_wf [rotated])
    moreover have "n \<in> A" using assms(3) by (simp add: A_def)
    ultimately obtain z where "z \<in> A" "\<And>y. (y, z) \<in> q \<Longrightarrow> y \<notin> A" by (rule wfE_min) blast
    with step [of z] show False by blast
  qed
  then obtain c where c: "(c, c) \<in> q\<^sup>+" by (auto simp: acyclic_def)
  then have "c \<in> A" by (auto simp: q_def elim: tranclE)
  moreover have "(c, c) \<in> r\<^sup>+" using c by (rule trancl_mono) (simp add: q_def)
  ultimately show ?thesis by (auto simp: A_def)
qed

section \<open>What the loop answers\<close>

lemma topo_loop_Inr:
  assumes "topo_loop edges remaining order = Inr xs"
    and "builds_before edges order" and "distinct (order @ remaining)"
  shows "builds_before edges xs \<and> distinct xs \<and> set xs = set order \<union> set remaining"
  using assms
proof (induction edges remaining order rule: topo_loop.induct)
  case (1 edges remaining order)
  let ?ready = "filter (\<lambda>n. set (blockers edges n) \<subseteq> set order) remaining"
  show ?case
  proof (cases "remaining = []")
    case True
    with 1 show ?thesis by (simp add: topo_loop.simps)
  next
    case False
    with 1(2) have ready: "?ready \<noteq> []" by (subst (asm) topo_loop.simps) (auto simp: Let_def split: if_splits)
    have "builds_before edges (order @ ?ready)"
      by (rule builds_before_append [OF 1(3)]) (auto simp: set_blockers)
    then have "builds_before edges xs \<and> distinct xs
        \<and> set xs = set (order @ ?ready) \<union> set (filter (\<lambda>n. n \<notin> set ?ready) remaining)"
      using 1(2,4) False ready
      by (intro 1(1)) (auto simp: topo_loop.simps [of edges remaining] Let_def split: if_splits)
    then show ?thesis by auto
  qed
qed

lemma topo_loop_Inl:
  assumes "topo_loop edges remaining order = Inl err"
    and "builds_before edges order" and "distinct (order @ remaining)" and "sorted remaining"
  shows "\<exists>left placed. err = Product_graph_cycle left \<and> left \<noteq> [] \<and> sorted left \<and> distinct left
    \<and> builds_before edges placed \<and> set placed \<union> set left = set order \<union> set remaining
    \<and> set placed \<inter> set left = {}
    \<and> (\<forall>n \<in> set left. \<exists>m. (m, n) \<in> depends edges \<and> m \<notin> set placed)"
  using assms
proof (induction edges remaining order rule: topo_loop.induct)
  case (1 edges remaining order)
  let ?ready = "filter (\<lambda>n. set (blockers edges n) \<subseteq> set order) remaining"
  let ?rest = "filter (\<lambda>n. n \<notin> set ?ready) remaining"
  from 1(2) have some: "remaining \<noteq> []" by (auto simp: topo_loop.simps)
  show ?case
  proof (cases "?ready = []")
    case True
    with 1(2) some have "err = Product_graph_cycle remaining" by (simp add: topo_loop.simps)
    moreover have "\<exists>m. (m, n) \<in> depends edges \<and> m \<notin> set order" if "n \<in> set remaining" for n
      using that True by (auto simp: filter_empty_conv set_blockers)
    ultimately show ?thesis using 1(3-5) some by (intro exI [of _ remaining] exI [of _ order]) auto
  next
    case False
    have "builds_before edges (order @ ?ready)"
      by (rule builds_before_append [OF 1(3)]) (auto simp: set_blockers)
    moreover have "topo_loop edges ?rest (order @ ?ready) = Inl err"
      using 1(2) some False by (subst (asm) topo_loop.simps) (simp add: Let_def)
    moreover have "distinct ((order @ ?ready) @ ?rest)" "sorted ?rest"
      using 1(4,5) by (auto simp: sorted_wrt_filter)
    moreover have "set (order @ ?ready) \<union> set ?rest = set order \<union> set remaining" by auto
    ultimately show ?thesis using 1(1) [OF some refl False] by metis
  qed
qed

lemma topological_order_Inr:
  "topological_order products edges = Inr xs \<Longrightarrow>
     builds_before edges xs \<and> distinct xs \<and> set xs = set products"
  using topo_loop_Inr [of edges "sorted_set products" "[]" xs] by (simp add: topological_order_def)

text \<open>The products a failure names: those a cycle leads to.\<close>

lemma topological_order_Inl:
  assumes "topological_order products edges = Inl err"
    and closed: "\<And>e. e \<in> set edges \<Longrightarrow> pe_source e \<in> set products"
  shows "err = Product_graph_cycle (sorted_set (filter
      (\<lambda>n. \<exists>c. (c, c) \<in> (depends edges)\<^sup>+ \<and> (c, n) \<in> (depends edges)\<^sup>*) products))
    \<and> \<not> acyclic (depends edges)"
proof -
  from topo_loop_Inl [OF assms(1) [unfolded topological_order_def]] obtain left placed where
    err: "err = Product_graph_cycle left" "left \<noteq> []" "sorted left" "distinct left"
    and placed: "builds_before edges placed" "set placed \<union> set left = set products"
      "set placed \<inter> set left = {}"
    and stuck: "\<forall>n \<in> set left. \<exists>m. (m, n) \<in> depends edges \<and> m \<notin> set placed" by auto
  have pred: "\<exists>m \<in> set left. (m, n) \<in> depends edges" if "n \<in> set left" for n
    using stuck that closed placed(2) by (fastforce simp: depends_def)
  let ?down = "\<lambda>n. \<exists>c. (c, c) \<in> (depends edges)\<^sup>+ \<and> (c, n) \<in> (depends edges)\<^sup>*"
  have down: "?down n" if "n \<in> set left" for n
    by (rule cycle_upstream [OF finite_set pred that])
  have "\<not> ?down n" if n: "n \<in> set placed" for n
  proof
    assume "?down n"
    then obtain c where c: "(c, c) \<in> (depends edges)\<^sup>+" "(c, n) \<in> (depends edges)\<^sup>*" by blast
    from c(2) n have "c \<in> set placed"
      using builds_before_trancl [OF placed(1)] by (auto dest: rtranclD)
    with builds_before_acyclic [OF placed(1)] c(1) show False by blast
  qed
  then have "set left = set (filter ?down products)" using down placed(2,3) by auto
  then have "left = sorted_set (filter ?down products)"
    using err(3,4) by (intro sorted_distinct_set_unique) simp_all
  moreover have "\<not> acyclic (depends edges)"
    using down err(2) by (cases left) (auto simp: acyclic_def)
  ultimately show ?thesis using err(1) by simp
qed

lemma topological_order_acyclic:
  assumes "topological_order products edges = Inr xs"
    and closed: "\<And>e. e \<in> set edges \<Longrightarrow> pe_source e \<in> set products"
  shows "acyclic (depends edges)"
proof -
  note order = topological_order_Inr [OF assms(1)]
  have "(n, n) \<notin> (depends edges)\<^sup>+" for n
  proof
    assume n: "(n, n) \<in> (depends edges)\<^sup>+"
    then obtain m where "(n, m) \<in> depends edges" by (meson tranclD)
    then have "n \<in> set products" using closed by (auto simp: depends_def)
    with order n builds_before_acyclic show False by blast
  qed
  then show ?thesis by (simp add: acyclic_def)
qed

text \<open>The order depends only on the set of products and the set of dependencies.\<close>

lemma topo_loop_cong:
  "depends edges = depends edges' \<Longrightarrow> topo_loop edges remaining order = topo_loop edges' remaining order"
proof (induction edges remaining order rule: topo_loop.induct)
  case (1 edges remaining order)
  have same: "set (blockers edges n) = set (blockers edges' n)" for n
    using 1(2) by (auto simp: set_blockers)
  show ?case using 1 by (subst (1 2) topo_loop.simps) (auto simp: Let_def same)
qed

lemma topological_order_cong:
  assumes "set products = set products'" and "depends edges = depends edges'"
  shows "topological_order products edges = topological_order products' edges'"
  using sorted_set_cong [OF assms(1)] topo_loop_cong [OF assms(2)]
  by (simp add: topological_order_def)

end
