(* ===== verification/Write_Once.thy ===== *)
theory Write_Once
  imports Prelude
begin

text \<open>
  The contract of a write-once ledger: an entry is stored under its key, the same entry may be
  stored again, and another entry under a taken key is refused. The outcome of a batch then depends
  only on the set of its entries.
\<close>

locale write_once =
  fixes key :: "'a \<Rightarrow> 'k"
    and get :: "'s \<Rightarrow> 'k \<Rightarrow> 'a option"
    and put :: "'a \<Rightarrow> 's \<Rightarrow> 'e + 's"
    and valid :: "'a \<Rightarrow> bool"
  assumes put_ok: "put x s = Inr s' \<Longrightarrow> valid x \<and> get s (key x) \<in> {None, Some x}"
    and put_total: "valid x \<Longrightarrow> get s (key x) \<in> {None, Some x} \<Longrightarrow> \<exists>s'. put x s = Inr s'"
    and get_put: "put x s = Inr s' \<Longrightarrow> get s' k = (if k = key x then Some x else get s k)"
begin

definition agreeing :: "'s \<Rightarrow> 'a set \<Rightarrow> bool" where
  "agreeing s A \<longleftrightarrow> (\<forall>x \<in> A. valid x \<and> get s (key x) \<in> {None, Some x})
     \<and> (\<forall>x \<in> A. \<forall>y \<in> A. key x = key y \<longrightarrow> x = y)"

lemma put_again: "put x s = Inr s' \<Longrightarrow> \<exists>s''. put x s' = Inr s'' \<and> get s'' = get s'"
  using put_ok [of x s s'] put_total [of x s'] get_put [of x s s'] get_put [of x s']
  by (fastforce simp: fun_eq_iff)

lemma batch_get:
  assumes "fold_result put xs s = Inr s'"
  shows "agreeing s (set xs) \<and> (\<forall>x \<in> set xs. get s' (key x) = Some x)
    \<and> (\<forall>k. k \<notin> key ` set xs \<longrightarrow> get s' k = get s k)"
  using assms
proof (induction xs arbitrary: s)
  case Nil
  then show ?case by (simp add: agreeing_def)
next
  case (Cons x xs)
  then obtain t where t: "put x s = Inr t" "fold_result put xs t = Inr s'" by auto
  note IH = Cons.IH [OF t(2)] and ok = put_ok [OF t(1)] and get = get_put [OF t(1)]
  have old: "get s (key y) \<in> {None, Some y}" "key y = key x \<longrightarrow> y = x" if "y \<in> set xs" for y
    using IH that ok get [of "key y"] by (auto simp: agreeing_def split: if_splits)
  have x: "get s' (key x) = Some x"
  proof (cases "key x \<in> key ` set xs")
    case True
    then obtain y where "y \<in> set xs" "key y = key x" by auto
    with old(2) IH show ?thesis by auto
  next
    case False
    with IH get [of "key x"] show ?thesis by simp
  qed
  from IH ok old have "agreeing s (set (x # xs))" by (auto simp: agreeing_def)
  with IH x get show ?case by auto
qed

lemma batch_total:
  assumes "agreeing s (set xs)"
  shows "\<exists>s'. fold_result put xs s = Inr s'"
  using assms
proof (induction xs arbitrary: s)
  case Nil
  then show ?case by simp
next
  case (Cons x xs)
  then obtain t where t: "put x s = Inr t" using put_total [of x s] by (auto simp: agreeing_def)
  have "agreeing t (set xs)"
    using Cons.prems get_put [OF t] by (auto simp: agreeing_def)
  from Cons.IH [OF this] t show ?case by auto
qed

lemma batch_iff: "(\<exists>s'. fold_result put xs s = Inr s') \<longleftrightarrow> agreeing s (set xs)"
  using batch_get batch_total by blast

text \<open>Any order of the same entries, with any repetitions, gives the same ledger.\<close>

lemma batch_order:
  assumes "fold_result put xs s = Inr s1" and "set ys = set xs"
  shows "\<exists>s2. fold_result put ys s = Inr s2 \<and> get s2 = get s1"
proof -
  from batch_get [OF assms(1)] assms(2) have "agreeing s (set ys)" by simp
  then obtain s2 where s2: "fold_result put ys s = Inr s2" using batch_total by blast
  have "get s2 k = get s1 k" for k
    using batch_get [OF assms(1)] batch_get [OF s2] assms(2) by (cases "k \<in> key ` set xs") auto
  with s2 show ?thesis by blast
qed

end

end
