(* ===== verification/Product_Graph.thy ===== *)
theory Product_Graph
  imports Graph_Order Write_Once "HOL-Library.Multiset"
begin

text \<open>
  The product graph of \<open>ergasterion/framework/graph.py\<close>: what it reads of a product declaration, the
  edges of the declared reads, generations, field lineage, validation records, stored names, the
  registry of auxiliary relations, the build and the coverage check it ends with.
\<close>

section \<open>Declarations\<close>

text \<open>
  The parts of a declaration document the graph reads, with the shape the product schema gives them.
  A key the schema makes optional is an option, or the empty value the code's \<open>or\<close> turns it into.
\<close>

record validated_product =
  vp_name :: string
  vp_domain :: string
  vp_layer :: string
  vp_profile :: string
  vp_shape :: string

record source_decl =
  sd_contract :: string
  sd_kind :: "string option"
  sd_relation :: "string option"
  sd_conform :: "(string \<times> string) list"

record lookup_decl =
  lk_contract :: string
  lk_relation :: "string option"
  lk_fields :: "string list"

datatype rule_decl =
    Field_rule string
  | Reconcile_rule string "string list"

datatype calculated_field =
    Inline_field string string
  | Rule_field string string "nat option"

datatype step_decl =
    Schema_transform "(string \<times> string option) list"
  | Calculated_fields "calculated_field list"
  | Data_enrichment "lookup_decl list"
  | Data_aggregation "string list" "string list" "(string \<times> string) list"
  | Data_validation string "rule_decl list"
  | Other_step string

record physical_relation =
  ph_name :: "string option"
  ph_schema :: "string option"
  ph_fields :: "(string \<times> string) list"

record document =
  dc_sources :: "source_decl list"
  dc_steps :: "step_decl list"
  dc_combine_method :: "string option"
  dc_checkpoint :: bool
  dc_shape_config :: shape_config
  dc_physical :: "(string option \<times> physical_relation) list"

type_synonym entries = "(string \<times> document \<times> validated_product) list"

section \<open>Graph records\<close>

record product_node =
  nd_published_name :: string
  nd_name :: string
  nd_domain :: string
  nd_layer :: string
  nd_profile :: string
  nd_shape :: string
  nd_generation :: string
  nd_relations :: "string list"
  nd_materialisation :: string
  nd_checkpoint :: bool

datatype lineage_kind = From_field | From_contract | From_rule | From_expression

record lineage_edge =
  fl_product :: string
  fl_target_field :: string
  fl_source_kind :: lineage_kind
  fl_source_product :: string
  fl_source :: string
  fl_occurrence :: string
  fl_transform :: string

record stored_field =
  so_product :: string
  so_relation :: string
  so_field :: string
  so_physical_name :: string

record stored_relation =
  sl_product :: string
  sl_relation :: string
  sl_physical_schema :: "string option"
  sl_physical_name :: "string option"

record declared_field =
  df_product :: string
  df_field :: string
  df_occurrence :: string

datatype validation_kind = On_field | On_reconciliation

record validation_record =
  va_product :: string
  va_occurrence :: string
  va_stage :: string
  va_kind :: validation_kind
  va_subject :: string
  va_references :: "string list"

record auxiliary_relation =
  ar_product :: string
  ar_relation :: string
  ar_translator :: string
  ar_purpose :: string

record product_graph =
  pg_nodes :: "product_node list"
  pg_edges :: "product_edge list"
  pg_field_lineage :: "lineage_edge list"
  pg_validations :: "validation_record list"
  pg_declared_fields :: "declared_field list"
  pg_auxiliary :: "auxiliary_relation list"
  pg_stored_relations :: "stored_relation list"
  pg_stored_fields :: "stored_field list"

definition gen_landing :: string where "gen_landing = ''landing''"
definition gen_first :: string where "gen_first = ''first''"
definition gen_later :: string where "gen_later = ''later''"
definition gen_consolidating :: string where "gen_consolidating = ''consolidating''"

definition generation_labels :: "string list" where
  "generation_labels = [gen_landing, gen_first, gen_later, gen_consolidating]"

definition graph_order :: "product_graph \<Rightarrow> string list" where
  "graph_order g = map nd_published_name (pg_nodes g)"

text \<open>\<open>ProductGraph.generations\<close>: a \<open>dict\<close> with every label, in the labels' order.\<close>

definition graph_generations :: "product_graph \<Rightarrow> (string \<times> string list) list" where
  "graph_generations g = map (\<lambda>label. (label,
     map nd_published_name (filter (\<lambda>n. nd_generation n = label) (pg_nodes g)))) generation_labels"

definition checkpoint_relations :: "product_graph \<Rightarrow> string list" where
  "checkpoint_relations g = concat (map nd_relations (filter nd_checkpoint (pg_nodes g)))"

section \<open>The registry of auxiliary relations\<close>

definition estate_scope :: string where "estate_scope = ''estate''"

definition aux_key :: "auxiliary_relation \<Rightarrow> string \<times> string" where
  "aux_key a = (ar_product a, ar_relation a)"

text \<open>\<open>AuxiliaryRelationRegistry.register\<close>; the registry is its \<open>_entries\<close>.\<close>

definition register_auxiliary ::
    "auxiliary_relation \<Rightarrow> auxiliary_relation list \<Rightarrow> graph_error + auxiliary_relation list" where
  "register_auxiliary entry reg =
     bind (check_all (\<lambda>(label, value).
             if value = [] then Inl (Auxiliary_relation_error (ar_product entry) (ar_relation entry)
                                       (Empty_label label)) else Inr ())
           [(''product'', ar_product entry), (''relation'', ar_relation entry),
            (''translator'', ar_translator entry), (''purpose'', ar_purpose entry)]) (\<lambda>_.
       case lookup_row aux_key (aux_key entry) reg of
         Some existing \<Rightarrow>
           if existing \<noteq> entry
           then Inl (Auxiliary_relation_error (ar_product entry) (ar_relation entry)
                  (Claimed_by (ar_translator existing) (ar_purpose existing)))
           else Inr (upsert_row aux_key entry reg)
       | None \<Rightarrow> Inr (upsert_row aux_key entry reg))"

definition registry_relations :: "auxiliary_relation list \<Rightarrow> auxiliary_relation list" where
  "registry_relations reg = sort_key aux_key reg"

definition collect_auxiliary_relations ::
    "auxiliary_relation list list \<Rightarrow> graph_error + auxiliary_relation list" where
  "collect_auxiliary_relations providers = fold_result register_auxiliary (concat providers) []"

section \<open>Reading a declaration\<close>

definition published_name :: "validated_product \<Rightarrow> string" where
  "published_name v = product_name (vp_domain v) (vp_name v)"

definition published_relation_names :: "validated_product \<Rightarrow> document \<Rightarrow> graph_error + string list" where
  "published_relation_names v doc =
     shape_relation_names (vp_shape v) (vp_domain v) (vp_name v) (dc_shape_config doc)"

definition contract_target :: "string \<Rightarrow> string" where
  "contract_target reference = takeWhile (\<lambda>c. c \<noteq> CHR ''@'') reference"

definition is_fixture :: "source_decl \<Rightarrow> bool" where
  "is_fixture s \<longleftrightarrow> sd_kind s = Some ''fixture''"

definition source_entries :: "document \<Rightarrow> (string \<times> string option \<times> bool) list" where
  "source_entries doc = map (\<lambda>s. (sd_contract s, sd_relation s, is_fixture s))
     (filter (\<lambda>s. sd_contract s \<noteq> []) (dc_sources doc))"

definition source_references :: "document \<Rightarrow> string list" where
  "source_references doc = [reference. (reference, relation, fixture) \<leftarrow> source_entries doc, \<not> fixture]"

definition declared_source_relations :: "document \<Rightarrow> (string \<times> string option) list" where
  "declared_source_relations doc =
     [(reference, relation). (reference, relation, fixture) \<leftarrow> source_entries doc, \<not> fixture]"

text \<open>\<open>str(n)\<close> of a natural number, and the occurrence tag of a step.\<close>

fun decimal :: "nat \<Rightarrow> string" where
  "decimal n = (if n < 10 then [char_of (48 + n)] else decimal (n div 10) @ [char_of (48 + n mod 10)])"

declare decimal.simps [simp del]

definition pattern_of :: "step_decl \<Rightarrow> string" where
  "pattern_of s = (case s of Schema_transform _ \<Rightarrow> ''schema_transform''
     | Calculated_fields _ \<Rightarrow> ''calculated_fields'' | Data_enrichment _ \<Rightarrow> ''data_enrichment''
     | Data_aggregation _ _ _ \<Rightarrow> ''data_aggregation'' | Data_validation _ _ \<Rightarrow> ''data_validation''
     | Other_step p \<Rightarrow> p)"

definition step_occurrence :: "nat \<Rightarrow> step_decl \<Rightarrow> string" where
  "step_occurrence n s = ''steps['' @ decimal n @ '']:'' @ pattern_of s"

definition lookup_references :: "document \<Rightarrow> (string \<times> string \<times> string option) list" where
  "lookup_references doc = concat (map (\<lambda>(n, s).
     (case s of
        Data_enrichment lookups \<Rightarrow>
          [(step_occurrence n s, lk_contract l, lk_relation l). l \<leftarrow> lookups, lk_contract l \<noteq> []]
      | _ \<Rightarrow> [])) (enumerate 0 (dc_steps doc)))"

section \<open>Edges\<close>

definition edge_kind_name :: "edge_kind \<Rightarrow> string" where
  "edge_kind_name k = (case k of Edge_source \<Rightarrow> ''source'' | Edge_lookup \<Rightarrow> ''lookup''
     | Edge_auxiliary \<Rightarrow> ''auxiliary'')"

definition read_edge ::
    "entries \<Rightarrow> (string \<times> string list) list \<Rightarrow> string \<Rightarrow> edge_kind \<Rightarrow> read_kind
       \<Rightarrow> string \<times> string option \<Rightarrow> graph_error + product_edge" where
  "read_edge es rels consumer kind read = (\<lambda>(reference, declared).
     let upstream = contract_target reference in
     if upstream \<notin> set (map fst es) then Inl (Missing_upstream_product consumer reference upstream)
     else bind (get_item rels upstream) (\<lambda>available.
          bind (resolve_relation_name available consumer upstream declared read) (\<lambda>relation.
            Inr \<lparr>pe_source = upstream, pe_target = consumer, pe_kind = kind,
                 pe_contract = reference, pe_relation = relation\<rparr>)))"

definition consumer_edges ::
    "entries \<Rightarrow> (string \<times> string list) list \<Rightarrow> string \<times> document \<Rightarrow> graph_error + product_edge list" where
  "consumer_edges es rels = (\<lambda>(consumer, doc).
     bind (map_result (read_edge es rels consumer Edge_source Read_source)
             (declared_source_relations doc)) (\<lambda>sources.
     bind (map_result (read_edge es rels consumer Edge_lookup Read_lookup)
             (map snd (lookup_references doc))) (\<lambda>lookups.
     Inr (sources @ lookups))))"

text \<open>The consumers in published-name order, each with its document.\<close>

definition sorted_documents :: "entries \<Rightarrow> (string \<times> document) list" where
  "sorted_documents es = map (\<lambda>(n, doc, v). (n, doc)) (sort_key fst es)"

definition edges_for ::
    "entries \<Rightarrow> (string \<times> string list) list \<Rightarrow> graph_error + product_edge list" where
  "edges_for es rels = bind (map_result (consumer_edges es rels) (sorted_documents es)) (\<lambda>edges.
     Inr (sort_key (\<lambda>e. (pe_source e, pe_target e, edge_kind_name (pe_kind e), pe_contract e))
            (concat edges)))"

section \<open>Generations\<close>

text \<open>The published names of the sources that no landing product publishes, one per source.\<close>

definition non_landing :: "entries \<Rightarrow> document \<Rightarrow> graph_error + string list" where
  "non_landing es doc =
     bind (map_result (\<lambda>n. bind (get_item es n) (\<lambda>(_, v). Inr (n, vp_profile v)))
             (map contract_target (source_references doc)))
       (\<lambda>found. Inr (map fst (filter (\<lambda>(n, profile). profile \<noteq> ''landing'') found)))"

definition generation_of ::
    "string \<Rightarrow> document \<Rightarrow> validated_product \<Rightarrow> entries \<Rightarrow> graph_error + string" where
  "generation_of published doc v es =
     (if vp_profile v = ''landing'' then Inr gen_landing
      else if source_entries doc = [] then Inl (Unclassified_generation published (vp_profile v))
      else bind (non_landing es doc) (\<lambda>names.
        if length names \<ge> 2 then Inr gen_consolidating
        else if length names = 1 then Inr gen_later
        else Inr gen_first))"

section \<open>Stored names\<close>

text \<open>\<open>addressable_relations\<close>: a \<open>dict\<close>, in which a later relation of the same key wins.\<close>

definition addressable_relations :: "string \<Rightarrow> string list \<Rightarrow> (string option \<times> string) list" where
  "addressable_relations published names =
     rev (List.map_filter (\<lambda>n. if n = published then Some (None, n)
            else map_option (\<lambda>k. (Some k, n)) (strip_prefix (published @ ''__'') n)) names)"

definition stored_names_for ::
    "string \<Rightarrow> document \<Rightarrow> string list \<Rightarrow> graph_error + (stored_relation list \<times> stored_field list)" where
  "stored_names_for published doc names =
     bind (map_result (\<lambda>(key, entry).
         case map_of (addressable_relations published names) key of
           None \<Rightarrow> Inl (Coverage_error (Unpublished_stored_name published
                         (case key of None \<Rightarrow> ''None'' | Some k \<Rightarrow> k)))
         | Some relation \<Rightarrow> Inr
             (if ph_name entry \<noteq> None \<or> ph_schema entry \<noteq> None
              then [\<lparr>sl_product = published, sl_relation = relation,
                     sl_physical_schema = ph_schema entry, sl_physical_name = ph_name entry\<rparr>]
              else [],
              map (\<lambda>(logical, physical). \<lparr>so_product = published, so_relation = relation,
                     so_field = logical, so_physical_name = physical\<rparr>) (ph_fields entry)))
       (dc_physical doc)) (\<lambda>parts. Inr (concat (map fst parts), concat (map snd parts)))"

section \<open>Field lineage\<close>

text \<open>
  \<open>parse\<close> is the expression parser: the columns an expression reads, or no answer for a syntax error.
  The parser's contract has it return the text unchanged.
\<close>

type_synonym expression_parser = "string \<Rightarrow> string list option"

definition lineage ::
    "string \<Rightarrow> string \<Rightarrow> string \<Rightarrow> string \<Rightarrow> lineage_kind \<Rightarrow> string \<Rightarrow> string \<Rightarrow> lineage_edge" where
  "lineage published occurrence transform target kind source_product source =
     \<lparr>fl_product = published, fl_target_field = target, fl_source_kind = kind,
      fl_source_product = source_product, fl_source = source, fl_occurrence = occurrence,
      fl_transform = transform\<rparr>"

definition from_expression ::
    "expression_parser \<Rightarrow> string \<Rightarrow> string \<Rightarrow> string \<Rightarrow> string \<times> string
       \<Rightarrow> graph_error + lineage_edge list" where
  "from_expression parse published occurrence transform = (\<lambda>(target, text).
     case parse text of
       None \<Rightarrow> Inl (Expression_error published occurrence)
     | Some columns \<Rightarrow> Inr
         (if columns \<noteq> []
          then map (lineage published occurrence transform target From_field published) columns
          else [lineage published occurrence transform target From_expression published text]))"

definition conform_lineage :: "string \<Rightarrow> document \<Rightarrow> nat \<times> source_decl \<Rightarrow> lineage_edge list" where
  "conform_lineage published doc = (\<lambda>(index, s).
     map (\<lambda>(source, target).
       lineage published (''sources['' @ decimal index @ ''].conform'')
         (case dc_combine_method doc of None \<Rightarrow> ''conform'' | Some m \<Rightarrow> m) target
         (if is_fixture s then From_field else From_contract)
         (if is_fixture s then published else contract_target (sd_contract s)) source)
       (sd_conform s))"

definition declare_field :: "string \<Rightarrow> string \<Rightarrow> string \<Rightarrow> declared_field" where
  "declare_field published occurrence field =
     \<lparr>df_product = published, df_field = field, df_occurrence = occurrence\<rparr>"

definition calculated_name :: "calculated_field \<Rightarrow> string" where
  "calculated_name f = (case f of Inline_field n _ \<Rightarrow> n | Rule_field n _ _ \<Rightarrow> n)"

definition calculated_lineage ::
    "expression_parser \<Rightarrow> string \<Rightarrow> string \<Rightarrow> calculated_field \<Rightarrow> graph_error + lineage_edge list" where
  "calculated_lineage parse published occurrence f =
     (case f of
        Inline_field name text \<Rightarrow> from_expression parse published occurrence ''calculated_fields'' (name, text)
      | Rule_field name rule version \<Rightarrow> Inr [lineage published occurrence ''calculated_fields'' name
          From_rule published
          (case version of None \<Rightarrow> rule | Some v \<Rightarrow> rule @ ''@'' @ decimal v)])"

text \<open>The lineage of one step, and the fields it declares.\<close>

definition step_fields ::
    "expression_parser \<Rightarrow> string \<Rightarrow> nat \<times> step_decl
       \<Rightarrow> graph_error + (lineage_edge list \<times> declared_field list)" where
  "step_fields parse published = (\<lambda>(index, s).
     let occurrence = step_occurrence index s; field = declare_field published occurrence in
     case s of
       Schema_transform mapping \<Rightarrow>
         (let kept = [(source, target). (source, Some target) \<leftarrow> mapping] in
          Inr (map (\<lambda>(source, target). lineage published occurrence ''schema_transform'' target
                                         From_field published source) kept,
               map (\<lambda>(source, target). field target) kept))
     | Calculated_fields fs \<Rightarrow>
         bind (map_result (calculated_lineage parse published occurrence) fs) (\<lambda>rows.
           Inr (concat rows, map (\<lambda>f. field (calculated_name f)) fs))
     | Data_enrichment lookups \<Rightarrow>
         Inr (concat (map (\<lambda>l. map (\<lambda>f. lineage published occurrence ''data_enrichment'' f
                 From_contract (contract_target (lk_contract l)) f) (lk_fields l)) lookups),
              concat (map (\<lambda>l. map field (lk_fields l)) lookups))
     | Data_aggregation grain groups aggregates \<Rightarrow>
         bind (map_result (from_expression parse published occurrence ''data_aggregation'') aggregates)
           (\<lambda>rows. Inr
             (map (\<lambda>f. lineage published occurrence ''data_aggregation'' f From_field published f)
                (grain @ groups) @ concat rows,
              map field (grain @ groups) @ map (\<lambda>(name, text). field name) aggregates))
     | _ \<Rightarrow> Inr ([], []))"

definition composition_fields_for ::
    "expression_parser \<Rightarrow> string \<Rightarrow> document \<Rightarrow> graph_error + (lineage_edge list \<times> declared_field list)"
  where
  "composition_fields_for parse published doc =
     bind (map_result (step_fields parse published) (enumerate 0 (dc_steps doc))) (\<lambda>parts.
       Inr (concat (map (conform_lineage published doc) (enumerate 0 (dc_sources doc)))
              @ concat (map fst parts),
            concat (map snd parts)))"

section \<open>Validation records\<close>

definition rule_record ::
    "string \<Rightarrow> string \<Rightarrow> string \<Rightarrow> string list \<Rightarrow> rule_decl \<Rightarrow> graph_error + validation_record" where
  "rule_record published occurrence stage declared r =
     (case r of
        Field_rule f \<Rightarrow> Inr \<lparr>va_product = published, va_occurrence = occurrence, va_stage = stage,
          va_kind = On_field, va_subject = f, va_references = []\<rparr>
      | Reconcile_rule metric contracts \<Rightarrow>
          bind (check_all (\<lambda>reference. if reference \<in> set declared then Inr ()
                  else Inl (Reconciliation_reference published occurrence reference declared)) contracts)
            (\<lambda>_. Inr \<lparr>va_product = published, va_occurrence = occurrence, va_stage = stage,
               va_kind = On_reconciliation, va_subject = metric, va_references = contracts\<rparr>))"

definition step_validations ::
    "string \<Rightarrow> document \<Rightarrow> nat \<times> step_decl \<Rightarrow> graph_error + validation_record list" where
  "step_validations published doc = (\<lambda>(index, s).
     case s of
       Data_validation stage rules \<Rightarrow>
         map_result (rule_record published (step_occurrence index s) stage (source_references doc)) rules
     | _ \<Rightarrow> Inr [])"

definition validations_for :: "string \<Rightarrow> document \<Rightarrow> graph_error + validation_record list" where
  "validations_for published doc =
     bind (map_result (step_validations published doc) (enumerate 0 (dc_steps doc))) (\<lambda>parts.
       Inr (concat parts))"

section \<open>The coverage check\<close>

definition check :: "bool \<Rightarrow> coverage_fault \<Rightarrow> graph_error + unit" where
  "check ok fault = (if ok then Inr () else Inl (Coverage_error fault))"

definition check_node :: "product_node \<Rightarrow> graph_error + unit" where
  "check_node n =
     bind (check (nd_relations n \<noteq> [] \<and> [] \<notin> set (nd_relations n))
             (Node_without_relation (nd_published_name n))) (\<lambda>_.
     bind (check (nd_generation n \<in> set generation_labels)
             (Unknown_generation (nd_published_name n) (nd_generation n))) (\<lambda>_.
     bind (check (nd_materialisation n \<in> {''table'', ''undeclared''})
             (Unknown_materialisation (nd_published_name n) (nd_materialisation n))) (\<lambda>_.
     check (\<not> (nd_checkpoint n \<and> nd_materialisation n \<noteq> ''table''))
       (Checkpoint_without_table (nd_published_name n)))))"

definition check_edge :: "string list \<Rightarrow> product_edge \<Rightarrow> graph_error + unit" where
  "check_edge names e =
     bind (check_all (\<lambda>endpoint. check (endpoint \<in> set names)
             (Dangling_edge (pe_source e) (pe_target e) endpoint)) [pe_source e, pe_target e]) (\<lambda>_.
     check (pe_relation e \<noteq> []) (Edge_without_relation (pe_source e) (pe_target e)))"

definition check_lineage :: "string list \<Rightarrow> lineage_edge \<Rightarrow> graph_error + unit" where
  "check_lineage names l =
     bind (check (fl_product l \<in> set names) (Lineage_of_unknown (fl_product l))) (\<lambda>_.
     bind (check (\<not> (fl_source_kind l = From_contract \<and> fl_source_product l \<notin> set names))
             (Lineage_from_unknown (fl_product l) (fl_source_product l))) (\<lambda>_.
     check (fl_target_field l \<noteq> [] \<and> fl_source l \<noteq> [])
       (Incomplete_lineage (fl_product l) (fl_occurrence l))))"

definition check_declared :: "string list \<Rightarrow> lineage_edge list \<Rightarrow> declared_field \<Rightarrow> graph_error + unit" where
  "check_declared names rows d =
     bind (check (df_product d \<in> set names) (Declared_by_unknown (df_product d) (df_field d))) (\<lambda>_.
     check ((df_product d, df_field d) \<in> set (map (\<lambda>l. (fl_product l, fl_target_field l)) rows))
       (Unexplained_field (df_product d) (df_field d) (df_occurrence d)))"

definition assert_coverage :: "product_graph \<Rightarrow> graph_error + unit" where
  "assert_coverage g =
     (let names = map nd_published_name (pg_nodes g) in
      bind (check (distinct names)
              (Duplicate_nodes (sorted_set (filter (\<lambda>n. count_list names n > 1) names)))) (\<lambda>_.
      bind (check_all check_node (pg_nodes g)) (\<lambda>_.
      bind (check_all (check_edge names) (pg_edges g)) (\<lambda>_.
      bind (check_all (check_lineage names) (pg_field_lineage g)) (\<lambda>_.
      bind (check_all (check_declared names (pg_field_lineage g)) (pg_declared_fields g)) (\<lambda>_.
      check_all (\<lambda>v. check (va_product v \<in> set names) (Validation_of_unknown (va_product v)))
        (pg_validations g)))))))"

section \<open>The build\<close>

definition check_key :: "string \<times> document \<times> validated_product \<Rightarrow> graph_error + unit" where
  "check_key = (\<lambda>(key, doc, v). check (key = published_name v) (Key_mismatch key (published_name v)))"

definition named_relations ::
    "string \<times> document \<times> validated_product \<Rightarrow> graph_error + (string \<times> string list)" where
  "named_relations = (\<lambda>(name, doc, v).
     bind (published_relation_names v doc) (\<lambda>names. Inr (name, names)))"

record product_part =
  pp_node :: product_node
  pp_lineage :: "lineage_edge list"
  pp_declared :: "declared_field list"
  pp_validations :: "validation_record list"
  pp_relations :: "stored_relation list"
  pp_fields :: "stored_field list"

text \<open>The body of the loop over the build order.\<close>

definition product_part_of ::
    "expression_parser \<Rightarrow> entries \<Rightarrow> string list \<Rightarrow> string \<Rightarrow> document
       \<Rightarrow> validated_product \<Rightarrow> graph_error + product_part" where
  "product_part_of parse es names name doc v =
     bind (generation_of name doc v es) (\<lambda>generation.
     bind (composition_fields_for parse name doc) (\<lambda>(rows, declared).
     bind (validations_for name doc) (\<lambda>validations.
     bind (stored_names_for name doc names) (\<lambda>(stored, columns).
       Inr \<lparr>pp_node = \<lparr>nd_published_name = name, nd_name = vp_name v, nd_domain = vp_domain v,
                nd_layer = vp_layer v, nd_profile = vp_profile v, nd_shape = vp_shape v,
                nd_generation = generation, nd_relations = names,
                nd_materialisation = (if dc_checkpoint doc then ''table'' else ''undeclared''),
                nd_checkpoint = dc_checkpoint doc\<rparr>,
            pp_lineage = rows, pp_declared = declared, pp_validations = validations,
            pp_relations = stored, pp_fields = columns\<rparr>))))"

definition build_part ::
    "expression_parser \<Rightarrow> entries \<Rightarrow> (string \<times> string list) list \<Rightarrow> string \<Rightarrow> graph_error + product_part" where
  "build_part parse es rels name =
     bind (get_item es name) (\<lambda>(doc, v).
     bind (get_item rels name) (\<lambda>names. product_part_of parse es names name doc v))"

definition place_auxiliary ::
    "entries \<Rightarrow> string list \<Rightarrow> auxiliary_relation \<Rightarrow> graph_error + product_edge list" where
  "place_auxiliary es published a =
     (if ar_product a \<noteq> estate_scope \<and> ar_product a \<notin> set (map fst es)
      then Inl (Auxiliary_relation_error (ar_product a) (ar_relation a) Unknown_owner)
      else if ar_relation a \<in> set published
      then Inl (Auxiliary_relation_error (ar_product a) (ar_relation a) Already_published)
      else if ar_product a = estate_scope then Inr []
      else Inr [\<lparr>pe_source = ar_product a, pe_target = ar_product a, pe_kind = Edge_auxiliary,
                 pe_contract = ar_purpose a, pe_relation = ar_relation a\<rparr>])"

definition assemble ::
    "product_part list \<Rightarrow> product_edge list \<Rightarrow> auxiliary_relation list \<Rightarrow> product_graph" where
  "assemble parts edges registrations =
     \<lparr>pg_nodes = map pp_node parts,
      pg_edges = sort_key (\<lambda>e. (pe_source e, pe_target e, edge_kind_name (pe_kind e), pe_contract e,
                                pe_relation e)) edges,
      pg_field_lineage = concat (map pp_lineage parts),
      pg_validations = concat (map pp_validations parts),
      pg_declared_fields = concat (map pp_declared parts),
      pg_auxiliary = registrations,
      pg_stored_relations = concat (map pp_relations parts),
      pg_stored_fields = concat (map pp_fields parts)\<rparr>"

definition build_product_graph ::
    "expression_parser \<Rightarrow> entries \<Rightarrow> auxiliary_relation list option \<Rightarrow> graph_error + product_graph" where
  "build_product_graph parse es auxiliary =
     bind (check_all check_key es) (\<lambda>_.
     bind (map_result named_relations es) (\<lambda>rels.
     bind (edges_for es rels) (\<lambda>edges.
     bind (topological_order (map fst es) edges) (\<lambda>order.
     bind (map_result (build_part parse es rels) order) (\<lambda>parts.
     let registrations = (case auxiliary of None \<Rightarrow> [] | Some reg \<Rightarrow> registry_relations reg) in
     bind (map_result (place_auxiliary es (concat (map snd rels))) registrations) (\<lambda>aux.
     let graph = assemble parts (edges @ concat aux) registrations in
     bind (assert_coverage graph) (\<lambda>_. Inr graph)))))))"

section \<open>The registry is a write-once ledger\<close>

definition named_auxiliary :: "auxiliary_relation \<Rightarrow> bool" where
  "named_auxiliary a \<longleftrightarrow> ar_product a \<noteq> [] \<and> ar_relation a \<noteq> [] \<and> ar_translator a \<noteq> []
     \<and> ar_purpose a \<noteq> []"

lemma register_Inr:
  "register_auxiliary a reg = Inr reg' \<longleftrightarrow>
     named_auxiliary a \<and> lookup_row aux_key (aux_key a) reg \<in> {None, Some a}
     \<and> reg' = upsert_row aux_key a reg"
  by (auto simp: register_auxiliary_def named_auxiliary_def split: option.splits if_splits)

interpretation registry: write_once aux_key "\<lambda>reg k. lookup_row aux_key k reg" register_auxiliary
    named_auxiliary
  by unfold_locales (auto simp: register_Inr lookup_row_upsert)

lemma collect_unique:
  assumes "fold_result register_auxiliary as reg = Inr reg'" and "unique_keys aux_key reg"
  shows "unique_keys aux_key reg'"
  by (rule fold_result_invariant [where P = "unique_keys aux_key", OF _ assms(2,1)])
     (auto simp: register_Inr unique_keys_upsert)

lemma sort_key_set_unique:
  assumes "unique_keys key xs" and "unique_keys key ys" and "set xs = set ys"
  shows "sort_key key xs = sort_key key ys"
proof (rule sort_key_inj_key_eq)
  have "distinct xs" "distinct ys" using assms(1,2) by (simp_all add: unique_keys_def distinct_map)
  with assms(3) show "mset xs = mset (sort_key key ys)" by (simp add: set_eq_iff_mset_eq_distinct)
  show "inj_on key (set xs)" using assms(1) by (simp add: unique_keys_def distinct_map)
qed simp

lemma set_of_lookup:
  assumes "unique_keys key rows"
  shows "set rows = {r. lookup_row key (key r) rows = Some r}"
  using lookup_row_iff [OF assms] by blast

end
