(* ===== verification/Graph_Build.thy ===== *)
theory Graph_Build
  imports Product_Graph
begin

text \<open>
  What a successful build of the product graph consists of: the lemmas that read edges, nodes,
  lineage and validation records back to the declarations they come from.
\<close>

section \<open>Edges\<close>

lemma read_edge_Inr:
  "read_edge es rels consumer kind read (reference, declared) = Inr e \<longleftrightarrow>
    (\<exists>available relation. contract_target reference \<in> fst ` set es
      \<and> map_of rels (contract_target reference) = Some available
      \<and> resolve_relation_name available consumer (contract_target reference) declared read = Inr relation
      \<and> e = \<lparr>pe_source = contract_target reference, pe_target = consumer, pe_kind = kind,
             pe_contract = reference, pe_relation = relation\<rparr>)"
  by (auto simp: read_edge_def Let_def)

lemma set_sorted_documents: "set (sorted_documents es) = {(n, doc). \<exists>v. (n, doc, v) \<in> set es}"
  by (force simp: sorted_documents_def)

lemma map_result_mem:
  "map_result f xs = Inr ys \<Longrightarrow> y \<in> set ys \<longleftrightarrow> (\<exists>x \<in> set xs. f x = Inr y)"
  by (induction xs arbitrary: ys) auto

lemma consumer_edges_mem:
  assumes "consumer_edges es rels (consumer, doc) = Inr edges"
  shows "e \<in> set edges \<longleftrightarrow>
    (\<exists>r \<in> set (declared_source_relations doc). read_edge es rels consumer Edge_source Read_source r = Inr e)
    \<or> (\<exists>r \<in> set (lookup_references doc). read_edge es rels consumer Edge_lookup Read_lookup (snd r) = Inr e)"
proof -
  from assms obtain ss ls where
    ss: "map_result (read_edge es rels consumer Edge_source Read_source)
      (declared_source_relations doc) = Inr ss"
    and ls: "map_result (read_edge es rels consumer Edge_lookup Read_lookup)
      (map snd (lookup_references doc)) = Inr ls" and "edges = ss @ ls"
    by (auto simp: consumer_edges_def)
  then show ?thesis by (simp add: map_result_mem [OF ss] map_result_mem [OF ls])
qed

lemma edges_for_parts:
  assumes "edges_for es rels = Inr edges" and "(n, doc, v) \<in> set es"
  shows "\<exists>part. consumer_edges es rels (n, doc) = Inr part \<and> set part \<subseteq> set edges"
proof -
  from assms(1) obtain parts where parts: "map_result (consumer_edges es rels) (sorted_documents es) = Inr parts"
    and edges: "set edges = set (concat parts)" by (auto simp: edges_for_def)
  have "(n, doc) \<in> set (sorted_documents es)" using assms(2) by (auto simp: set_sorted_documents)
  with parts obtain part where "part \<in> set parts" "consumer_edges es rels (n, doc) = Inr part"
    unfolding map_result_Inr by (blast dest: list_all2_setD1)
  with edges show ?thesis by auto
qed

lemma edges_for_mem:
  assumes "edges_for es rels = Inr edges" and "e \<in> set edges"
  shows "\<exists>n doc v part. (n, doc, v) \<in> set es \<and> consumer_edges es rels (n, doc) = Inr part \<and> e \<in> set part"
proof -
  from assms(1) obtain parts where parts: "map_result (consumer_edges es rels) (sorted_documents es) = Inr parts"
    and edges: "set edges = set (concat parts)" by (auto simp: edges_for_def)
  from edges assms(2) obtain part where "part \<in> set parts" "e \<in> set part" by auto
  with map_result_mem [OF parts] show ?thesis by (fastforce simp: set_sorted_documents)
qed

text \<open>An edge of the estate: its ends are products, and its relation is one the producer publishes.\<close>

lemma edges_for_edge:
  assumes "edges_for es rels = Inr edges" and "e \<in> set edges"
  shows "pe_source e \<in> fst ` set es \<and> pe_target e \<in> fst ` set es \<and> pe_kind e \<noteq> Edge_auxiliary
    \<and> contract_target (pe_contract e) = pe_source e
    \<and> (\<exists>available. map_of rels (pe_source e) = Some available \<and> pe_relation e \<in> set available)"
proof -
  from edges_for_mem [OF assms] obtain n doc v part where n: "(n, doc, v) \<in> set es"
    and part: "consumer_edges es rels (n, doc) = Inr part" and e: "e \<in> set part" by blast
  from e consumer_edges_mem [OF part] obtain r k read where
    "read_edge es rels n k read r = Inr e" "k \<noteq> Edge_auxiliary" by blast
  with n show ?thesis
    by (cases r) (force simp: read_edge_Inr dest: resolve_published)
qed

section \<open>The parts of a build\<close>

lemma build_Inr:
  assumes "build_product_graph parse es auxiliary = Inr g"
  obtains rels edges order parts aux where
    "\<forall>x \<in> set es. check_key x = Inr ()" "map_result named_relations es = Inr rels"
    "edges_for es rels = Inr edges" "topological_order (map fst es) edges = Inr order"
    "map_result (build_part parse es rels) order = Inr parts"
    "map_result (place_auxiliary es (concat (map snd rels)))
       (case auxiliary of None \<Rightarrow> [] | Some reg \<Rightarrow> registry_relations reg) = Inr aux"
    "g = assemble parts (edges @ concat aux)
       (case auxiliary of None \<Rightarrow> [] | Some reg \<Rightarrow> registry_relations reg)"
    "assert_coverage g = Inr ()"
  using assms by (auto simp: build_product_graph_def Let_def)

lemma named_relations_keys:
  assumes "map_result named_relations es = Inr rels"
  shows "map fst rels = map fst es"
  using assms by (induction es arbitrary: rels) (auto simp: named_relations_def)

lemma named_relations_mem:
  assumes "map_result named_relations es = Inr rels" and "(n, names) \<in> set rels"
  shows "\<exists>doc v. (n, doc, v) \<in> set es \<and> published_relation_names v doc = Inr names"
proof -
  from assms map_result_mem [OF assms(1), of "(n, names)"] obtain x where
    "x \<in> set es" "named_relations x = Inr (n, names)" by blast
  moreover obtain m doc v where "x = (m, doc, v)" by (cases x)
  ultimately show ?thesis by (auto simp: named_relations_def)
qed

lemma part_name:
  assumes "build_part parse es rels n = Inr p"
  obtains doc v names where "map_of es n = Some (doc, v)" "map_of rels n = Some names"
    "product_part_of parse es names n doc v = Inr p" "nd_published_name (pp_node p) = n"
  using assms by (auto simp: build_part_def product_part_of_def split: prod.splits)

lemma parts_names:
  assumes "map_result (build_part parse es rels) order = Inr parts"
  shows "map (nd_published_name \<circ> pp_node) parts = order"
proof -
  from assms have "list_all2 (\<lambda>n p. build_part parse es rels n = Inr p) order parts"
    by (simp add: map_result_Inr)
  then show ?thesis by (induction rule: list_all2_induct) (auto elim: part_name)
qed

lemma assemble_sel [simp]:
  "pg_nodes (assemble parts edges regs) = map pp_node parts"
  "pg_field_lineage (assemble parts edges regs) = concat (map pp_lineage parts)"
  "pg_declared_fields (assemble parts edges regs) = concat (map pp_declared parts)"
  "pg_validations (assemble parts edges regs) = concat (map pp_validations parts)"
  "set (pg_edges (assemble parts edges regs)) = set edges"
  "pg_auxiliary (assemble parts edges regs) = regs"
  by (simp_all add: assemble_def)

lemma assemble_order:
  "map_result (build_part parse es rels) order = Inr parts \<Longrightarrow> graph_order (assemble parts edges regs) = order"
  by (simp add: graph_order_def parts_names comp_def [symmetric])

lemma place_auxiliary_edge:
  assumes "place_auxiliary es published a = Inr edges" and "e \<in> set edges"
  shows "pe_kind e = Edge_auxiliary \<and> pe_source e \<in> fst ` set es \<and> pe_target e = pe_source e
    \<and> pe_relation e = ar_relation a \<and> pe_relation e \<notin> set published \<and> pe_source e = ar_product a"
  using assms by (force simp: place_auxiliary_def simp flip: set_map split: if_splits)

section \<open>What a part holds\<close>

lemma from_expression_Inr:
  assumes "from_expression parse published occurrence transform (target, text) = Inr rows"
  shows "rows \<noteq> [] \<and> (\<forall>l \<in> set rows. fl_product l = published \<and> fl_target_field l = target
    \<and> fl_source_kind l \<noteq> From_contract \<and> fl_occurrence l = occurrence)"
  using assms by (auto simp: from_expression_def lineage_def split: option.splits if_splits)

lemma calculated_lineage_Inr:
  assumes "calculated_lineage parse published occurrence f = Inr rows"
  shows "rows \<noteq> [] \<and> (\<forall>l \<in> set rows. fl_product l = published \<and> fl_target_field l = calculated_name f
    \<and> fl_source_kind l \<noteq> From_contract \<and> fl_occurrence l = occurrence)"
  using assms by (cases f) (auto simp: calculated_lineage_def calculated_name_def lineage_def
      dest: from_expression_Inr)

text \<open>A lineage row of a product is its own, and an upstream it names is one its reads name.\<close>

definition lineage_of :: "string \<Rightarrow> string set \<Rightarrow> lineage_edge \<Rightarrow> bool" where
  "lineage_of published upstream l \<longleftrightarrow> fl_product l = published
     \<and> (fl_source_kind l = From_contract \<longrightarrow> fl_source_product l \<in> upstream)"

definition explains :: "lineage_edge list \<Rightarrow> string \<Rightarrow> declared_field \<Rightarrow> bool" where
  "explains rows published d \<longleftrightarrow> df_product d = published
     \<and> (\<exists>l \<in> set rows. fl_product l = df_product d \<and> fl_target_field l = df_field d
           \<and> fl_occurrence l = df_occurrence d)"

definition lookup_targets :: "step_decl \<Rightarrow> string set" where
  "lookup_targets s = (case s of Data_enrichment lookups \<Rightarrow> (contract_target \<circ> lk_contract) ` set lookups
     | _ \<Rightarrow> {})"

lemma step_fields_Inr:
  assumes "step_fields parse published (index, s) = Inr (rows, declared)"
  shows "(\<forall>l \<in> set rows. lineage_of published (lookup_targets s) l)
    \<and> (\<forall>d \<in> set declared. explains rows published d)"
proof (cases s)
  case (Schema_transform mapping)
  with assms show ?thesis
    by (force simp: step_fields_def Let_def lineage_def lineage_of_def explains_def declare_field_def)
next
  case (Calculated_fields fs)
  let ?o = "step_occurrence index s"
  from assms Calculated_fields obtain parts where
    parts: "map_result (calculated_lineage parse published ?o) fs = Inr parts"
    and rows: "rows = concat parts"
    and declared: "declared = map (\<lambda>f. declare_field published ?o (calculated_name f)) fs"
    by (auto simp: step_fields_def Let_def)
  have own: "lineage_of published (lookup_targets s) l" if "l \<in> set rows" for l
  proof -
    from that rows obtain part where "part \<in> set parts" "l \<in> set part" by auto
    with map_result_mem [OF parts] obtain f where
      "calculated_lineage parse published ?o f = Inr part" "l \<in> set part" by blast
    then show ?thesis by (auto simp: lineage_of_def dest: calculated_lineage_Inr)
  qed
  moreover have "explains rows published d" if d: "d \<in> set declared" for d
  proof -
    from d declared obtain f where f: "f \<in> set fs" "d = declare_field published ?o (calculated_name f)" by auto
    with parts obtain part where part: "part \<in> set parts" "calculated_lineage parse published ?o f = Inr part"
      unfolding map_result_Inr by (blast dest: list_all2_setD1)
    note P = calculated_lineage_Inr [OF part(2)]
    then have l: "hd part \<in> set part" by (intro hd_in_set) blast
    with P have "fl_product (hd part) = published \<and> fl_target_field (hd part) = calculated_name f
      \<and> fl_occurrence (hd part) = ?o" by blast
    moreover from l part(1) rows have "hd part \<in> set rows" by auto
    ultimately show ?thesis using f(2) by (auto simp: explains_def declare_field_def)
  qed
  ultimately show ?thesis by blast
next
  case (Data_enrichment lookups)
  with assms show ?thesis
    by (force simp: step_fields_def Let_def lineage_def lineage_of_def explains_def declare_field_def
        lookup_targets_def)
next
  case (Data_aggregation grain groups aggregates)
  let ?o = "step_occurrence index s"
  from assms Data_aggregation obtain parts where
    parts: "map_result (from_expression parse published ?o ''data_aggregation'') aggregates = Inr parts"
    and rows: "rows = map (\<lambda>f. lineage published ?o ''data_aggregation'' f From_field published f)
        (grain @ groups) @ concat parts"
    and declared: "declared = map (declare_field published ?o) (grain @ groups)
        @ map (\<lambda>(name, text). declare_field published ?o name) aggregates"
    by (auto simp: step_fields_def Let_def)
  have expr: "lineage_of published (lookup_targets s) l" if "part \<in> set parts" "l \<in> set part" for part l
  proof -
    from that(1) map_result_mem [OF parts] obtain a where
      "from_expression parse published ?o ''data_aggregation'' a = Inr part" by blast
    with that(2) show ?thesis by (cases a) (auto simp: lineage_of_def dest: from_expression_Inr)
  qed
  have own: "lineage_of published (lookup_targets s) l" if "l \<in> set rows" for l
    using that rows expr by (auto simp: lineage_of_def lineage_def)
  have "explains rows published d" if d: "d \<in> set declared" for d
  proof (cases "d \<in> declare_field published ?o ` set (grain @ groups)")
    case True
    then obtain f where f: "f \<in> set (grain @ groups)" "d = declare_field published ?o f" by blast
    let ?l = "lineage published ?o ''data_aggregation'' f From_field published f"
    have "?l \<in> set rows" unfolding rows set_append set_map by (intro UnI1 imageI f(1) [unfolded set_append])
    moreover have "fl_product ?l = df_product d \<and> fl_target_field ?l = df_field d
      \<and> fl_occurrence ?l = df_occurrence d" by (simp add: f(2) declare_field_def lineage_def)
    ultimately show ?thesis unfolding explains_def by (auto simp: f(2) declare_field_def)
  next
    case False
    with d declared obtain a where a: "a \<in> set aggregates" "d = declare_field published ?o (fst a)" by auto
    with parts obtain part where part: "part \<in> set parts"
      "from_expression parse published ?o ''data_aggregation'' a = Inr part"
      unfolding map_result_Inr by (blast dest: list_all2_setD1)
    have P: "part \<noteq> [] \<and> (\<forall>l \<in> set part. fl_product l = published \<and> fl_target_field l = fst a
      \<and> fl_source_kind l \<noteq> From_contract \<and> fl_occurrence l = ?o)"
      by (rule from_expression_Inr [of parse published ?o "''data_aggregation''" "fst a" "snd a"])
         (use part(2) in simp)
    then have l: "hd part \<in> set part" by (intro hd_in_set) blast
    with P have "fl_product (hd part) = published \<and> fl_target_field (hd part) = fst a
      \<and> fl_occurrence (hd part) = ?o" by blast
    moreover from l part(1) rows have "hd part \<in> set rows" by auto
    ultimately show ?thesis using a(2) by (auto simp: explains_def declare_field_def)
  qed
  with own show ?thesis by blast
next
  case (Data_validation stage rules)
  with assms show ?thesis by (simp add: step_fields_def Let_def)
next
  case (Other_step p)
  with assms show ?thesis by (simp add: step_fields_def Let_def)
qed

lemma conform_lineage_of:
  assumes "l \<in> set (conform_lineage published doc (index, src))"
  shows "lineage_of published (if is_fixture src then {} else {contract_target (sd_contract src)}) l"
  using assms by (auto simp: conform_lineage_def lineage_def lineage_of_def split: if_splits)

text \<open>The upstream products a document's reads name.\<close>

definition upstream_of :: "document \<Rightarrow> string set" where
  "upstream_of doc = (contract_target \<circ> sd_contract) ` {src \<in> set (dc_sources doc). \<not> is_fixture src}
     \<union> (\<Union>s \<in> set (dc_steps doc). lookup_targets s)"

lemma lineage_of_mono: "lineage_of published A l \<Longrightarrow> A \<subseteq> B \<Longrightarrow> lineage_of published B l"
  by (auto simp: lineage_of_def)

lemma explains_mono: "explains rows published d \<Longrightarrow> set rows \<subseteq> set rows' \<Longrightarrow> explains rows' published d"
  by (auto simp: explains_def)

lemma set_enumerate: "(n, x) \<in> set (enumerate 0 xs) \<Longrightarrow> x \<in> set xs"
  by (auto simp: enumerate_eq_zip dest: set_zip_rightD)

lemma enumerate_mem: "x \<in> set xs \<Longrightarrow> \<exists>n. (n, x) \<in> set (enumerate 0 xs)"
proof -
  assume "x \<in> set xs"
  then have "x \<in> set (map snd (enumerate 0 xs))" by (simp only: map_snd_enumerate)
  then obtain p where "p \<in> set (enumerate 0 xs)" "x = snd p" by (auto simp only: set_map)
  then have "(fst p, x) \<in> set (enumerate 0 xs)" by simp
  then show ?thesis by blast
qed

lemma lookup_targets_mem:
  "m \<in> lookup_targets s \<longleftrightarrow>
    (\<exists>lookups l. s = Data_enrichment lookups \<and> l \<in> set lookups \<and> m = contract_target (lk_contract l))"
  by (cases s) (auto simp: lookup_targets_def)

lemma composition_fields_Inr:
  assumes "composition_fields_for parse published doc = Inr (rows, declared)"
  shows "(\<forall>l \<in> set rows. lineage_of published (upstream_of doc) l)
    \<and> (\<forall>d \<in> set declared. explains rows published d)"
proof -
  from assms obtain parts where
    parts: "map_result (step_fields parse published) (enumerate 0 (dc_steps doc)) = Inr parts"
    and rows: "rows = concat (map (conform_lineage published doc) (enumerate 0 (dc_sources doc)))
        @ concat (map fst parts)"
    and declared: "declared = concat (map snd parts)" by (auto simp: composition_fields_for_def)
  have step: "(\<forall>l \<in> set (fst part). lineage_of published (upstream_of doc) l)
      \<and> (\<forall>d \<in> set (snd part). explains rows published d)" if part: "part \<in> set parts" for part
  proof -
    from part map_result_mem [OF parts] obtain n s where s: "(n, s) \<in> set (enumerate 0 (dc_steps doc))"
      and eq: "step_fields parse published (n, s) = Inr (fst part, snd part)" by auto
    from set_enumerate [OF s] have "lookup_targets s \<subseteq> upstream_of doc" by (auto simp: upstream_of_def)
    moreover from part rows have "set (fst part) \<subseteq> set rows" by auto
    ultimately show ?thesis
      using step_fields_Inr [OF eq] by (blast intro: lineage_of_mono explains_mono)
  qed
  have conform: "lineage_of published (upstream_of doc) l"
    if "x \<in> set (enumerate 0 (dc_sources doc))" and l: "l \<in> set (conform_lineage published doc x)" for x l
  proof -
    obtain n src where x: "x = (n, src)" by (cases x)
    with that(1) have "src \<in> set (dc_sources doc)" by (auto dest: set_enumerate)
    with conform_lineage_of [OF l [unfolded x]] show ?thesis
      by (elim lineage_of_mono) (auto simp: upstream_of_def split: if_splits)
  qed
  show ?thesis using step conform by (auto simp: rows declared)
qed

lemma validations_Inr:
  assumes "validations_for published doc = Inr records" and "v \<in> set records"
  shows "va_product v = published \<and> set (va_references v) \<subseteq> set (source_references doc)"
proof -
  from assms obtain parts part where
    parts: "map_result (step_validations published doc) (enumerate 0 (dc_steps doc)) = Inr parts"
    and part: "part \<in> set parts" "v \<in> set part" by (auto simp: validations_for_def)
  from part(1) map_result_mem [OF parts] obtain n s where
    eq: "step_validations published doc (n, s) = Inr part" by auto
  with part(2) obtain stage rules where s: "s = Data_validation stage rules"
    by (auto simp: step_validations_def split: step_decl.splits)
  with eq have "map_result (rule_record published (step_occurrence n s) stage (source_references doc)) rules
      = Inr part" by (simp add: step_validations_def)
  from map_result_mem [OF this] part(2) obtain r where
    "rule_record published (step_occurrence n s) stage (source_references doc) r = Inr v" by blast
  then show ?thesis by (auto simp: rule_record_def split: rule_decl.splits if_splits)
qed

end
