(* ===== verification/Graph_Props.thy ===== *)
theory Graph_Props
  imports Graph_Build "HOL-Library.Sublist"
begin

text \<open>
  What the product graph of an estate guarantees: a build order, classified generations, edges that are
  exactly the declared reads, explained fields, a coverage check that has nothing left to find, and
  one graph per estate whatever order its declarations and registrations come in.
\<close>

section \<open>Documents the schema admits\<close>

text \<open>The product and pattern schemas give every name and reference a minimum length of 1.\<close>

definition named_step :: "step_decl \<Rightarrow> bool" where
  "named_step s = (case s of
       Schema_transform mapping \<Rightarrow> \<forall>(source, target) \<in> set mapping. source \<noteq> [] \<and> target \<noteq> Some []
     | Calculated_fields fs \<Rightarrow> \<forall>f \<in> set fs. calculated_name f \<noteq> [] \<and>
         (case f of Inline_field _ text \<Rightarrow> text \<noteq> [] | Rule_field _ rule _ \<Rightarrow> rule \<noteq> [])
     | Data_enrichment lookups \<Rightarrow> \<forall>l \<in> set lookups. lk_contract l \<noteq> [] \<and> [] \<notin> set (lk_fields l)
     | Data_aggregation grain groups aggregates \<Rightarrow> [] \<notin> set (grain @ groups) \<and>
         (\<forall>(name, text) \<in> set aggregates. name \<noteq> [] \<and> text \<noteq> [])
     | Data_validation _ _ \<Rightarrow> True
     | Other_step _ \<Rightarrow> True)"

definition schema_document :: "document \<Rightarrow> bool" where
  "schema_document doc \<longleftrightarrow>
     (\<forall>s \<in> set (dc_sources doc). sd_contract s \<noteq> [] \<and> (\<forall>(a, b) \<in> set (sd_conform s). a \<noteq> [] \<and> b \<noteq> []))
     \<and> (\<forall>s \<in> set (dc_steps doc). named_step s)"

definition schema_estate :: "entries \<Rightarrow> bool" where
  "schema_estate es \<longleftrightarrow> distinct (map fst es) \<and> (\<forall>(n, doc, v) \<in> set es. schema_document doc)"

text \<open>A parser that names the columns it reports.\<close>

definition naming_parser :: "expression_parser \<Rightarrow> bool" where
  "naming_parser parse \<longleftrightarrow> (\<forall>text columns. parse text = Some columns \<longrightarrow> [] \<notin> set columns)"

definition named_row :: "lineage_edge \<Rightarrow> bool" where
  "named_row l \<longleftrightarrow> fl_target_field l \<noteq> [] \<and> fl_source l \<noteq> []"

lemma lineage_named [simp]:
  "named_row (lineage published occurrence transform target kind up source) \<longleftrightarrow> target \<noteq> [] \<and> source \<noteq> []"
  by (simp add: named_row_def lineage_def)

lemma from_expression_named:
  assumes "from_expression parse published occurrence transform (target, text) = Inr rows"
    and "naming_parser parse" and "target \<noteq> []" and "text \<noteq> []" and "l \<in> set rows"
  shows "named_row l"
  using assms by (auto simp: from_expression_def naming_parser_def split: option.splits if_splits)

lemma step_fields_named:
  assumes "step_fields parse published (index, s) = Inr (rows, declared)" and "naming_parser parse"
    and "named_step s" and l: "l \<in> set rows"
  shows "named_row l"
proof (cases s)
  case (Calculated_fields fs)
  let ?o = "step_occurrence index s"
  from assms Calculated_fields obtain parts part where
    parts: "map_result (calculated_lineage parse published ?o) fs = Inr parts"
    and part: "part \<in> set parts" "l \<in> set part" by (auto simp: step_fields_def Let_def)
  from part(1) map_result_mem [OF parts] obtain f where
    f: "f \<in> set fs" "calculated_lineage parse published ?o f = Inr part" by blast
  with assms(3) Calculated_fields have "calculated_name f \<noteq> []"
    "case f of Inline_field _ text \<Rightarrow> text \<noteq> [] | Rule_field _ rule _ \<Rightarrow> rule \<noteq> []"
    by (auto simp: named_step_def)
  with f(2) part(2) assms(2) show ?thesis
    by (cases f) (auto simp: calculated_lineage_def calculated_name_def split: option.splits
        dest: from_expression_named)
next
  case (Data_aggregation grain groups aggregates)
  let ?o = "step_occurrence index s"
  from assms Data_aggregation obtain parts where
    parts: "map_result (from_expression parse published ?o ''data_aggregation'') aggregates = Inr parts"
    and rows: "rows = map (\<lambda>f. lineage published ?o ''data_aggregation'' f From_field published f)
        (grain @ groups) @ concat parts" by (auto simp: step_fields_def Let_def)
  have names: "[] \<notin> set (grain @ groups)" "\<forall>a \<in> set aggregates. fst a \<noteq> [] \<and> snd a \<noteq> []"
    using assms(3) Data_aggregation by (auto simp: named_step_def)
  from l rows consider (carried) f where "f \<in> set (grain @ groups)"
      "l = lineage published ?o ''data_aggregation'' f From_field published f"
    | (expr) part where "part \<in> set parts" "l \<in> set part" by auto
  then show ?thesis
  proof cases
    case (carried f)
    with names(1) show ?thesis by auto
  next
    case (expr part)
    with map_result_mem [OF parts] obtain a where
      a: "a \<in> set aggregates" "from_expression parse published ?o ''data_aggregation'' a = Inr part" by blast
    obtain name expr where "a = (name, expr)" by (cases a)
    with a names(2) show ?thesis
      using from_expression_named [OF _ assms(2) _ _ expr(2), of published ?o _ name expr] by auto
  qed
qed (use assms in \<open>force simp: step_fields_def Let_def named_step_def\<close>)+

lemma composition_fields_named:
  assumes "composition_fields_for parse published doc = Inr (rows, declared)"
    and "naming_parser parse" and "schema_document doc" and l: "l \<in> set rows"
  shows "named_row l"
proof -
  from assms(1) obtain parts where
    parts: "map_result (step_fields parse published) (enumerate 0 (dc_steps doc)) = Inr parts"
    and rows: "rows = concat (map (conform_lineage published doc) (enumerate 0 (dc_sources doc)))
        @ concat (map fst parts)" by (auto simp: composition_fields_for_def)
  from l rows consider (conform) n s where "(n, s) \<in> set (enumerate 0 (dc_sources doc))"
      "l \<in> set (conform_lineage published doc (n, s))"
    | (step) part where "part \<in> set parts" "l \<in> set (fst part)" by auto
  then show ?thesis
  proof cases
    case (conform n s)
    then have "s \<in> set (dc_sources doc)" by (auto dest: set_enumerate)
    with conform(2) assms(3) show ?thesis by (force simp: conform_lineage_def schema_document_def)
  next
    case (step part)
    with map_result_mem [OF parts] obtain n s where s: "(n, s) \<in> set (enumerate 0 (dc_steps doc))"
      and eq: "step_fields parse published (n, s) = Inr (fst part, snd part)" by auto
    have "named_step s" using assms(3) set_enumerate [OF s] by (auto simp: schema_document_def)
    from step_fields_named [OF eq assms(2) this step(2)] show ?thesis .
  qed
qed

section \<open>Reads of the estate are its edges\<close>

lemma source_reference_edge:
  assumes "edges_for es rels = Inr edges" and "(n, doc, v) \<in> set es"
    and "src \<in> set (dc_sources doc)" and "sd_contract src \<noteq> []" and "\<not> is_fixture src"
  shows "\<exists>e \<in> set edges. read_edge es rels n Edge_source Read_source (sd_contract src, sd_relation src) = Inr e"
proof -
  from edges_for_parts [OF assms(1,2)] obtain part where
    part: "consumer_edges es rels (n, doc) = Inr part" "set part \<subseteq> set edges" by blast
  then obtain ss where ss: "map_result (read_edge es rels n Edge_source Read_source)
      (declared_source_relations doc) = Inr ss" "set ss \<subseteq> set part" by (auto simp: consumer_edges_def)
  have "(sd_contract src, sd_relation src) \<in> set (declared_source_relations doc)"
    using assms(3-5) by (force simp: declared_source_relations_def source_entries_def)
  with ss part(2) show ?thesis unfolding map_result_Inr by (blast dest: list_all2_setD1)
qed

lemma lookup_reference_edge:
  assumes "edges_for es rels = Inr edges" and "(n, doc, v) \<in> set es"
    and "Data_enrichment lookups \<in> set (dc_steps doc)" and "l \<in> set lookups" and "lk_contract l \<noteq> []"
  shows "\<exists>e \<in> set edges. read_edge es rels n Edge_lookup Read_lookup (lk_contract l, lk_relation l) = Inr e"
proof -
  from edges_for_parts [OF assms(1,2)] obtain part where
    part: "consumer_edges es rels (n, doc) = Inr part" "set part \<subseteq> set edges" by blast
  then obtain ls where ls: "map_result (read_edge es rels n Edge_lookup Read_lookup)
      (map snd (lookup_references doc)) = Inr ls" "set ls \<subseteq> set part" by (auto simp: consumer_edges_def)
  from assms(3) obtain k where "(k, Data_enrichment lookups) \<in> set (enumerate 0 (dc_steps doc))"
    by (blast dest: enumerate_mem)
  then have "(step_occurrence k (Data_enrichment lookups), lk_contract l, lk_relation l)
      \<in> set (lookup_references doc)"
    using assms(4,5) by (force simp: lookup_references_def)
  then have "(lk_contract l, lk_relation l) \<in> set (map snd (lookup_references doc))" by force
  with ls part(2) show ?thesis unfolding map_result_Inr by (blast dest: list_all2_setD1)
qed

lemma upstream_declared:
  assumes "edges_for es rels = Inr edges" and "(n, doc, v) \<in> set es" and "schema_document doc"
  shows "upstream_of doc \<subseteq> fst ` set es"
proof
  fix m assume "m \<in> upstream_of doc"
  then consider (src) src where "src \<in> set (dc_sources doc)" "\<not> is_fixture src" "m = contract_target (sd_contract src)"
    | (lookup) lookups l where "Data_enrichment lookups \<in> set (dc_steps doc)" "l \<in> set lookups"
        "m = contract_target (lk_contract l)"
    by (auto simp: upstream_of_def lookup_targets_mem)
  then show "m \<in> fst ` set es"
  proof cases
    case (src src)
    with assms(3) have "sd_contract src \<noteq> []" by (auto simp: schema_document_def)
    from source_reference_edge [OF assms(1,2) src(1) this src(2)] src(3) show ?thesis
      by (auto simp: read_edge_Inr)
  next
    case (lookup lookups l)
    with assms(3) have "lk_contract l \<noteq> []" by (force simp: schema_document_def named_step_def)
    from lookup_reference_edge [OF assms(1,2) lookup(1,2) this] lookup(3) show ?thesis
      by (auto simp: read_edge_Inr)
  qed
qed

section \<open>The build order\<close>

text \<open>C36: The build order of the products, for edges that start at products. When the dependencies are
  acyclic the loop returns, and the order holds every product once, each after everything it depends on.
  When they are not, it fails, and the error names exactly the products a cycle leads to, sorted.\<close>

theorem topological_order_correct:
  assumes "\<forall>e \<in> set edges. pe_source e \<in> set products"
  shows "if acyclic (depends edges)
    then \<exists>order. topological_order products edges = Inr order \<and> distinct order
      \<and> set order = set products
      \<and> (\<forall>ys n zs. order = ys @ n # zs \<longrightarrow>
           (\<forall>e \<in> set edges. pe_target e = n \<longrightarrow> pe_source e \<in> set ys))
    else topological_order products edges = Inl (Product_graph_cycle (sorted_set (filter
      (\<lambda>n. \<exists>c. (c, c) \<in> (depends edges)\<^sup>+ \<and> (c, n) \<in> (depends edges)\<^sup>*) products)))"
proof (cases "topological_order products edges")
  case (Inl err)
  with topological_order_Inl [OF Inl] assms show ?thesis by simp
next
  case (Inr order)
  then have "acyclic (depends edges)" by (rule topological_order_acyclic) (use assms in blast)
  moreover have "pe_source e \<in> set ys" if "order = ys @ n # zs" "e \<in> set edges" "pe_target e = n" for e ys n zs
    using topological_order_Inr [OF Inr] that by (auto simp: builds_before_def depends_def)
  ultimately show ?thesis using topological_order_Inr [OF Inr] Inr by auto
qed

lemma depends_Cons:
  "depends [] = {}" "depends (e # es) = insert (pe_source e, pe_target e) (depends es)"
  by (auto simp: depends_def)

definition eg_edge :: "string \<Rightarrow> string \<Rightarrow> product_edge" where
  "eg_edge m n = \<lparr>pe_source = m, pe_target = n, pe_kind = Edge_source, pe_contract = m @ ''@1'',
     pe_relation = m\<rparr>"

theorem topological_order_correct_witness:
  "topological_order [''b'', ''a'', ''c''] [eg_edge ''a'' ''c'', eg_edge ''c'' ''b''] = Inr [''a'', ''c'', ''b'']
   \<and> acyclic (depends [eg_edge ''a'' ''c'', eg_edge ''c'' ''b''])"
proof -
  let ?es = "[eg_edge ''a'' ''c'', eg_edge ''c'' ''b'']"
  have eq: "topological_order [''b'', ''a'', ''c''] ?es = Inr [''a'', ''c'', ''b'']" by code_simp
  have "\<forall>e \<in> set ?es. pe_source e \<in> set [''b'', ''a'', ''c'']" by (simp add: eg_edge_def)
  from topological_order_correct [OF this] eq show ?thesis by (auto split: if_splits)
qed

text \<open>The cycle error names more than the cycle: a product that only consumes a product of the cycle
  is named with it, although it is on no cycle.\<close>

theorem cycle_error_names_consumers:
  "topological_order [''a'', ''b'', ''c''] [eg_edge ''a'' ''b'', eg_edge ''b'' ''a'', eg_edge ''b'' ''c'']
     = Inl (Product_graph_cycle [''a'', ''b'', ''c''])
   \<and> (''c'', ''c'') \<notin> (depends [eg_edge ''a'' ''b'', eg_edge ''b'' ''a'', eg_edge ''b'' ''c''])\<^sup>+"
proof -
  let ?es = "[eg_edge ''a'' ''b'', eg_edge ''b'' ''a'', eg_edge ''b'' ''c'']"
  have "topological_order [''a'', ''b'', ''c''] ?es = Inl (Product_graph_cycle [''a'', ''b'', ''c''])"
    by code_simp
  moreover have "(''c'', n) \<notin> depends ?es" for n by (simp add: depends_Cons eg_edge_def)
  then have "(''c'', ''c'') \<notin> (depends ?es)\<^sup>+" by (meson tranclD)
  ultimately show ?thesis ..
qed

section \<open>Choosing a relation\<close>

text \<open>A read that names a relation gets the relation of that name under the producer's prefix when
  the producer publishes it, and an error otherwise; one that names none gets the only relation. Every
  name the error offers as a choice resolves.\<close>

theorem resolve_relation_correct:
  "(resolve_relation_name available consumer producer (Some r) read = Inr name
      \<longleftrightarrow> name = under_product producer r \<and> name \<in> set available)
   \<and> (resolve_relation_name available consumer producer None read = Inr name \<longleftrightarrow> available = [name])
   \<and> (r \<in> set (relation_choices producer available) \<longleftrightarrow> r \<noteq> [] \<and>
        resolve_relation_name available consumer producer (Some r) read = Inr (under_product producer r))"
  by (auto simp: resolve_named resolve_unnamed set_relation_choices)

section \<open>The nodes of a built graph\<close>

lemma product_part_Inr:
  assumes "product_part_of parse es names name doc v = Inr p"
  shows "generation_of name doc v es = Inr (nd_generation (pp_node p))"
    and "composition_fields_for parse name doc = Inr (pp_lineage p, pp_declared p)"
    and "validations_for name doc = Inr (pp_validations p)"
    and "nd_relations (pp_node p) = names" "nd_profile (pp_node p) = vp_profile v"
      "nd_checkpoint (pp_node p) = dc_checkpoint doc"
      "nd_materialisation (pp_node p) = (if dc_checkpoint doc then ''table'' else ''undeclared'')"
      "nd_published_name (pp_node p) = name"
  using assms by (auto simp: product_part_of_def split: prod.splits)

lemma build_parts:
  assumes "map_result (build_part parse es rels) order = Inr parts" and "p \<in> set parts"
  obtains n doc v names where "n \<in> set order" "map_of es n = Some (doc, v)" "map_of rels n = Some names"
    "product_part_of parse es names n doc v = Inr p" "nd_published_name (pp_node p) = n"
proof -
  from assms map_result_mem [OF assms(1)] obtain n where "n \<in> set order" "build_part parse es rels n = Inr p"
    by blast
  then show ?thesis using that by (elim part_name) blast
qed

text \<open>The sources of a declaration that no landing product publishes.\<close>

definition non_landing_sources :: "entries \<Rightarrow> document \<Rightarrow> string list" where
  "non_landing_sources es doc = filter
     (\<lambda>r. \<exists>d w. map_of es (contract_target r) = Some (d, w) \<and> vp_profile w \<noteq> ''landing'')
     (source_references doc)"

lemma non_landing_Inr:
  assumes "non_landing es doc = Inr names"
  shows "names = map contract_target (non_landing_sources es doc)"
proof -
  have "map fst (filter (\<lambda>(n, profile). profile \<noteq> ''landing'') found) = filter
      (\<lambda>n. \<exists>d w. map_of es n = Some (d, w) \<and> vp_profile w \<noteq> ''landing'') ns"
    if "map_result (\<lambda>n. bind (get_item es n) (\<lambda>(_, v). Inr (n, vp_profile v))) ns = Inr found" for ns found
    using that by (induction ns arbitrary: found) auto
  with assms show ?thesis
    by (auto simp: non_landing_def non_landing_sources_def filter_map comp_def)
qed

lemma generation_Inr:
  assumes "generation_of published doc v es = Inr label"
  shows "label = (if vp_profile v = ''landing'' then gen_landing
      else if 2 \<le> length (non_landing_sources es doc) then gen_consolidating
      else if length (non_landing_sources es doc) = 1 then gen_later else gen_first)"
    and "vp_profile v \<noteq> ''landing'' \<Longrightarrow> source_entries doc \<noteq> []"
  using assms by (auto simp: generation_of_def dest: non_landing_Inr split: if_splits)

lemma generation_label: "generation_of published doc v es = Inr label \<Longrightarrow> label \<in> set generation_labels"
  by (auto simp: generation_of_def generation_labels_def split: if_splits)

lemma generations_partition:
  assumes "\<forall>n \<in> set ns. nd_generation n \<in> set generation_labels"
  shows "mset (concat (map snd (map (\<lambda>label. (label, map nd_published_name
      (filter (\<lambda>n. nd_generation n = label) ns))) generation_labels))) = mset (map nd_published_name ns)"
  using assms
  by (induction ns) (auto simp: generation_labels_def gen_landing_def gen_first_def gen_later_def
      gen_consolidating_def)

text \<open>Every product of a built graph has one generation: a landing product is \<open>landing\<close>; any other has
  a source, and is \<open>consolidating\<close>, \<open>later\<close> or \<open>first\<close> as two or more, one or none of its sources are
  published by products that are not landing products. The generations partition the build order, and
  each lists its products in that order.\<close>

theorem generations_correct:
  assumes "build_product_graph parse es auxiliary = Inr g"
  shows "mset (concat (map snd (graph_generations g))) = mset (graph_order g)
    \<and> (\<forall>(label, members) \<in> set (graph_generations g). subseq members (graph_order g))
    \<and> (\<forall>n \<in> set (pg_nodes g). \<exists>doc v. map_of es (nd_published_name n) = Some (doc, v)
         \<and> nd_profile n = vp_profile v
         \<and> (vp_profile v \<noteq> ''landing'' \<longrightarrow> source_entries doc \<noteq> [])
         \<and> nd_generation n = (if vp_profile v = ''landing'' then gen_landing
             else if 2 \<le> length (non_landing_sources es doc) then gen_consolidating
             else if length (non_landing_sources es doc) = 1 then gen_later else gen_first))"
proof -
  from assms obtain rels edges order parts aux regs where
    parts: "map_result (build_part parse es rels) order = Inr parts"
    and g: "g = assemble parts edges regs" by (elim build_Inr) blast
  have node: "\<exists>doc v. map_of es (nd_published_name n) = Some (doc, v) \<and> nd_profile n = vp_profile v
      \<and> generation_of (nd_published_name n) doc v es = Inr (nd_generation n)" if "n \<in> set (pg_nodes g)" for n
  proof -
    from that g obtain p where p: "p \<in> set parts" "n = pp_node p" by auto
    from build_parts [OF parts p(1)] obtain m doc v names where
      m: "map_of es m = Some (doc, v)" "product_part_of parse es names m doc v = Inr p"
        "nd_published_name (pp_node p) = m" by metis
    from product_part_Inr [OF m(2)] m p(2) show ?thesis by auto
  qed
  have labels: "\<forall>n \<in> set (pg_nodes g). nd_generation n \<in> set generation_labels"
    using node by (blast dest: generation_label)
  have "subseq members (graph_order g)" if "(label, members) \<in> set (graph_generations g)" for label members
    using that by (auto simp: graph_generations_def graph_order_def intro!: subseq_map)
  moreover have "mset (concat (map snd (graph_generations g))) = mset (graph_order g)"
    using generations_partition [OF labels] by (simp only: graph_generations_def graph_order_def)
  moreover have "\<exists>doc v. map_of es (nd_published_name n) = Some (doc, v)
         \<and> nd_profile n = vp_profile v
         \<and> (vp_profile v \<noteq> ''landing'' \<longrightarrow> source_entries doc \<noteq> [])
         \<and> nd_generation n = (if vp_profile v = ''landing'' then gen_landing
             else if 2 \<le> length (non_landing_sources es doc) then gen_consolidating
             else if length (non_landing_sources es doc) = 1 then gen_later else gen_first)"
    if "n \<in> set (pg_nodes g)" for n
    using node [OF that] generation_Inr by blast
  ultimately show ?thesis by blast
qed

text \<open>An estate of three products: a landing product, one that reads it, one that reads and looks up.\<close>

definition eg_product :: "string \<Rightarrow> string \<Rightarrow> source_decl list \<Rightarrow> step_decl list
    \<Rightarrow> string \<times> document \<times> validated_product" where
  "eg_product n profile sources steps = (product_name ''d'' n,
     \<lparr>dc_sources = sources, dc_steps = steps, dc_combine_method = None, dc_checkpoint = False,
      dc_shape_config = \<lparr>cf_entities = [], cf_dimensions = [], cf_facts = [], cf_hubs = [],
        cf_links = [], cf_satellites = [], cf_business_vault = [], cf_point_in_time = []\<rparr>,
      dc_physical = []\<rparr>,
     \<lparr>vp_name = n, vp_domain = ''d'', vp_layer = ''l'', vp_profile = profile, vp_shape = ''declared''\<rparr>)"

definition eg_source :: "string \<Rightarrow> source_decl" where
  "eg_source n = \<lparr>sd_contract = ''d.'' @ n @ ''@1'', sd_kind = None, sd_relation = None, sd_conform = []\<rparr>"

definition eg_estate :: entries where
  "eg_estate = [eg_product ''c'' ''derivation'' [eg_source ''b'']
       [Data_enrichment [\<lparr>lk_contract = ''d.a@1'', lk_relation = None, lk_fields = [''f'']\<rparr>]],
     eg_product ''b'' ''integration'' [eg_source ''a''] [Calculated_fields [Inline_field ''x'' ''1'']],
     eg_product ''a'' ''landing'' [] []]"

definition eg_graph :: product_graph where
  "eg_graph = projr (build_product_graph (\<lambda>_. Some []) eg_estate None)"

lemma eg_graph_built: "build_product_graph (\<lambda>_. Some []) eg_estate None = Inr eg_graph"
proof -
  have "isl (build_product_graph (\<lambda>_. Some []) eg_estate None) = False" by code_simp
  then show ?thesis by (simp add: eg_graph_def)
qed

theorem generations_correct_witness:
  "mset (concat (map snd (graph_generations eg_graph))) = mset (graph_order eg_graph)
   \<and> graph_generations eg_graph = [(gen_landing, [''d.a'']), (gen_first, [''d.b'']),
        (gen_later, [''d.c'']), (gen_consolidating, [])]"
proof -
  have "graph_generations eg_graph = [(gen_landing, [''d.a'']), (gen_first, [''d.b'']),
        (gen_later, [''d.c'']), (gen_consolidating, [])]" by code_simp
  with generations_correct [OF eg_graph_built] show ?thesis by blast
qed

section \<open>The edges of a built graph\<close>

lemma build_edges:
  assumes "build_product_graph parse es auxiliary = Inr g"
  obtains rels edges aux order parts where "map_result named_relations es = Inr rels"
    "edges_for es rels = Inr edges" "topological_order (map fst es) edges = Inr order"
    "graph_order g = order" "set (pg_edges g) = set edges \<union> set (concat aux)"
    "map_result (place_auxiliary es (concat (map snd rels))) (pg_auxiliary g) = Inr aux"
    "map_result (build_part parse es rels) order = Inr parts" "pg_nodes g = map pp_node parts"
  using assms by (elim build_Inr) (auto simp: assemble_order intro: that)

lemma build_edge:
  assumes "build_product_graph parse es auxiliary = Inr g" and "distinct (map fst es)"
    and "e \<in> set (pg_edges g)" and "pe_kind e \<noteq> Edge_auxiliary"
  shows "pe_source e = contract_target (pe_contract e)
    \<and> (\<exists>n \<in> set (pg_nodes g). nd_published_name n = pe_source e \<and> pe_relation e \<in> set (nd_relations n))"
proof -
  from assms(1) obtain rels edges aux order parts where rels: "map_result named_relations es = Inr rels"
    and edges: "edges_for es rels = Inr edges" and order: "topological_order (map fst es) edges = Inr order"
    and set: "set (pg_edges g) = set edges \<union> set (concat aux)"
    and aux: "map_result (place_auxiliary es (concat (map snd rels))) (pg_auxiliary g) = Inr aux"
    and parts: "map_result (build_part parse es rels) order = Inr parts" "pg_nodes g = map pp_node parts"
    by (elim build_edges) blast
  have "e \<notin> set (concat aux)"
    using assms(4) map_result_mem [OF aux] by (auto dest: place_auxiliary_edge)
  with set assms(3) have e: "e \<in> set edges" by blast
  from edges_for_edge [OF edges e] obtain available where E: "pe_source e \<in> fst ` set es"
    "contract_target (pe_contract e) = pe_source e" "map_of rels (pe_source e) = Some available"
    "pe_relation e \<in> set available" by blast
  have "pe_source e \<in> set order" using topological_order_Inr [OF order] E(1) by simp
  with parts(1) obtain p where p: "p \<in> set parts" "build_part parse es rels (pe_source e) = Inr p"
    unfolding map_result_Inr by (blast dest: list_all2_setD1)
  from p(2) have "nd_published_name (pp_node p) = pe_source e \<and> nd_relations (pp_node p) = available"
    using E(3) by (elim part_name) (auto dest: product_part_Inr)
  with p(1) parts(2) E show ?thesis by auto
qed

text \<open>C13: A built graph holds every product of the estate once. Every edge ends at
  two of them. Every source that is not a fixture has its edge, which carries the declared relation where
  the source names one; the edge of a source or lookup carries a relation its producer publishes, and
  starts at a product built strictly before the product it ends at.\<close>

theorem built_graph_correct:
  assumes "build_product_graph parse es auxiliary = Inr g" and "distinct (map fst es)"
  shows "distinct (graph_order g) \<and> set (graph_order g) = fst ` set es
    \<and> (\<forall>e \<in> set (pg_edges g). pe_source e \<in> fst ` set es \<and> pe_target e \<in> fst ` set es)
    \<and> (\<forall>e \<in> set (pg_edges g). pe_kind e \<noteq> Edge_auxiliary \<longrightarrow>
         (\<forall>ys zs. graph_order g = ys @ pe_target e # zs \<longrightarrow> pe_source e \<in> set ys)
         \<and> (\<exists>n \<in> set (pg_nodes g). nd_published_name n = pe_source e \<and> pe_relation e \<in> set (nd_relations n)))
    \<and> (\<forall>(n, doc, v) \<in> set es. \<forall>s \<in> set (dc_sources doc). sd_contract s \<noteq> [] \<and> \<not> is_fixture s \<longrightarrow>
         (\<exists>e \<in> set (pg_edges g). pe_kind e = Edge_source \<and> pe_target e = n \<and> pe_contract e = sd_contract s
            \<and> (\<forall>r. sd_relation s = Some r \<longrightarrow> pe_relation e = under_product (pe_source e) r)))"
proof -
  from assms(1) obtain rels edges aux order where
    edges: "edges_for es rels = Inr edges" and order: "topological_order (map fst es) edges = Inr order"
    and g: "graph_order g = order"
    and set: "set (pg_edges g) = set edges \<union> set (concat aux)"
    and aux: "map_result (place_auxiliary es (concat (map snd rels))) (pg_auxiliary g) = Inr aux"
    by (elim build_edges) blast
  have owned: "pe_kind e = Edge_auxiliary \<and> pe_source e \<in> fst ` set es \<and> pe_target e \<in> fst ` set es"
    if "e \<in> set (concat aux)" for e
  proof -
    from that map_result_mem [OF aux] obtain a part where
      "place_auxiliary es (concat (map snd rels)) a = Inr part" "e \<in> set part" by auto
    from place_auxiliary_edge [OF this] show ?thesis by metis
  qed
  have ends: "pe_source e \<in> fst ` set es \<and> pe_target e \<in> fst ` set es" if "e \<in> set (pg_edges g)" for e
    using that set owned edges_for_edge [OF edges] by blast
  have before: "pe_source e \<in> set ys" if "e \<in> set (pg_edges g)" "pe_kind e \<noteq> Edge_auxiliary"
      "graph_order g = ys @ pe_target e # zs" for e ys zs
  proof -
    from that(1,2) set owned have "(pe_source e, pe_target e) \<in> depends edges" by (auto simp: depends_def)
    with topological_order_Inr [OF order] that(3) g show ?thesis unfolding builds_before_def by metis
  qed
  have read: "\<exists>e \<in> set (pg_edges g). pe_kind e = Edge_source \<and> pe_target e = n \<and> pe_contract e = sd_contract s
      \<and> (\<forall>r. sd_relation s = Some r \<longrightarrow> pe_relation e = under_product (pe_source e) r)"
    if es: "(n, doc, v) \<in> set es" and s: "s \<in> set (dc_sources doc)" "sd_contract s \<noteq> []" "\<not> is_fixture s"
    for n doc v s
  proof -
    from source_reference_edge [OF edges es s] obtain e where "e \<in> set edges"
      "read_edge es rels n Edge_source Read_source (sd_contract s, sd_relation s) = Inr e" by blast
    with set show ?thesis by (intro bexI [of _ e]) (auto simp: read_edge_Inr resolve_named)
  qed
  have published: "\<exists>n \<in> set (pg_nodes g). nd_published_name n = pe_source e \<and> pe_relation e \<in> set (nd_relations n)"
    if "e \<in> set (pg_edges g)" "pe_kind e \<noteq> Edge_auxiliary" for e
    using build_edge [OF assms that] by blast
  from topological_order_Inr [OF order] g have "distinct (graph_order g) \<and> set (graph_order g) = fst ` set es"
    by simp
  with ends before published read show ?thesis by blast
qed

theorem built_graph_correct_witness:
  "distinct (graph_order eg_graph) \<and> graph_order eg_graph = [''d.a'', ''d.b'', ''d.c'']
   \<and> map (\<lambda>e. (pe_source e, pe_target e, pe_kind e)) (pg_edges eg_graph) =
       [(''d.a'', ''d.b'', Edge_source), (''d.a'', ''d.c'', Edge_lookup), (''d.b'', ''d.c'', Edge_source)]"
proof -
  have "distinct (map fst eg_estate)" by code_simp
  from built_graph_correct [OF eg_graph_built this] have "distinct (graph_order eg_graph)" by blast
  moreover have "graph_order eg_graph = [''d.a'', ''d.b'', ''d.c'']" by code_simp
  moreover have "map (\<lambda>e. (pe_source e, pe_target e, pe_kind e)) (pg_edges eg_graph) =
       [(''d.a'', ''d.b'', Edge_source), (''d.a'', ''d.c'', Edge_lookup), (''d.b'', ''d.c'', Edge_source)]"
    by code_simp
  ultimately show ?thesis by blast
qed

section \<open>How a build fails\<close>

text \<open>The failures a declaration or a registration can cause.\<close>

definition declaration_error :: "graph_error \<Rightarrow> bool" where
  "declaration_error e = (case e of
       Coverage_error f \<Rightarrow> (case f of Key_mismatch _ _ \<Rightarrow> True | Unpublished_stored_name _ _ \<Rightarrow> True
         | Node_without_relation _ \<Rightarrow> True | _ \<Rightarrow> False)
     | Key_error _ \<Rightarrow> False
     | _ \<Rightarrow> True)"

lemma resolve_error:
  "resolve_relation_name available consumer producer relation read = Inl e \<Longrightarrow> declaration_error e"
  by (auto simp: resolve_relation_name_def Let_def declaration_error_def split: option.splits list.splits)

lemma read_edge_error:
  assumes "read_edge es rels consumer kind read r = Inl e" and "map fst rels = map fst es"
  shows "declaration_error e"
proof -
  have "map_of rels n \<noteq> None" if "n \<in> set (map fst es)" for n
    using that by (simp only: map_of_eq_None_iff assms(2) [symmetric] set_map) simp
  then have "\<forall>n x y. (n, x, y) \<in> set es \<longrightarrow> map_of rels n \<noteq> None" by force
  then have known: "get_item rels n \<noteq> Inl e'" if "(n, x, y) \<in> set es" for n x y e'
    using that by auto
  from assms(1) obtain reference declared where "e = Missing_upstream_product consumer reference
      (contract_target reference)
    \<or> (\<exists>available. resolve_relation_name available consumer (contract_target reference) declared read = Inl e)"
    using known by (cases r) (force simp: read_edge_def Let_def bind_eq_Inl simp del: get_item_Inl
        split: if_splits)
  then show ?thesis by (auto simp: declaration_error_def dest: resolve_error [unfolded declaration_error_def])
qed

lemma edges_for_error:
  assumes "edges_for es rels = Inl e" and "map fst rels = map fst es"
  shows "declaration_error e"
proof -
  from assms(1) obtain x where "consumer_edges es rels x = Inl e"
    by (auto simp: edges_for_def bind_eq_Inl dest: map_result_Inl)
  then show ?thesis
    by (cases x) (auto simp: consumer_edges_def bind_eq_Inl dest!: map_result_Inl
        intro: read_edge_error [OF _ assms(2)])
qed

lemma generation_error:
  assumes "generation_of n doc v es = Inl e" and "\<And>r. r \<in> set (source_references doc) \<Longrightarrow> contract_target r \<in> fst ` set es"
  shows "declaration_error e"
proof -
  have "\<forall>r \<in> set (source_references doc). map_of es (contract_target r) \<noteq> None"
    using assms(2) by (simp add: map_of_eq_None_iff)
  then have "non_landing es doc \<noteq> Inl e'" for e'
    by (force simp: non_landing_def bind_eq_Inl dest!: map_result_Inl)
  with assms(1) show ?thesis
    by (auto simp: generation_of_def bind_eq_Inl declaration_error_def split: if_splits)
qed

lemma composition_error: "composition_fields_for parse n doc = Inl e \<Longrightarrow> declaration_error e"
proof -
  have expr: "from_expression parse n occ tr x = Inl e \<Longrightarrow> declaration_error e" for occ tr x
    by (cases x) (auto simp: from_expression_def declaration_error_def split: option.splits)
  have "step_fields parse n x = Inl e \<Longrightarrow> declaration_error e" for x
    by (cases x) (auto simp: step_fields_def Let_def bind_eq_Inl calculated_lineage_def
        dest!: map_result_Inl intro: expr split: step_decl.splits calculated_field.splits)
  then show "composition_fields_for parse n doc = Inl e \<Longrightarrow> declaration_error e"
    by (auto simp: composition_fields_for_def bind_eq_Inl dest!: map_result_Inl)
qed

lemma validations_error: "validations_for n doc = Inl e \<Longrightarrow> declaration_error e"
proof -
  have "rule_record n occ stage ds r = Inl e \<Longrightarrow> declaration_error e" for occ stage ds r
    by (cases r) (auto simp: rule_record_def bind_eq_Inl declaration_error_def dest!: check_all_Inl
        split: if_splits)
  then have "step_validations n doc x = Inl e \<Longrightarrow> declaration_error e" for x
    by (cases x) (auto simp: step_validations_def dest!: map_result_Inl split: step_decl.splits)
  then show "validations_for n doc = Inl e \<Longrightarrow> declaration_error e"
    by (auto simp: validations_for_def bind_eq_Inl dest!: map_result_Inl)
qed

lemma stored_names_error: "stored_names_for n doc names = Inl e \<Longrightarrow> declaration_error e"
  by (auto simp: stored_names_for_def bind_eq_Inl declaration_error_def dest!: map_result_Inl
      split: option.splits)

lemma product_part_error:
  assumes "product_part_of parse es names n doc v = Inl e"
    and "\<And>r. r \<in> set (source_references doc) \<Longrightarrow> contract_target r \<in> fst ` set es"
  shows "declaration_error e"
  using assms(1) generation_error [OF _ assms(2)]
  by (auto simp: product_part_of_def bind_eq_Inl split: prod.splits
      dest: composition_error validations_error stored_names_error)

text \<open>What the last check still finds on an assembled graph of schema-valid declarations.\<close>

lemma check_node_error:
  assumes "check_node n = Inl e" and "nd_generation n \<in> set generation_labels"
    and "nd_materialisation n = (if nd_checkpoint n then ''table'' else ''undeclared'')"
  shows "declaration_error e"
  using assms by (auto simp: check_node_def check_def bind_eq_Inl declaration_error_def split: if_splits)

lemma source_references_declared:
  assumes "edges_for es rels = Inr edges" and "(n, doc, v) \<in> set es" and "r \<in> set (source_references doc)"
  shows "contract_target r \<in> fst ` set es"
proof -
  from assms(3) obtain src where "src \<in> set (dc_sources doc)" "sd_contract src \<noteq> []" "\<not> is_fixture src"
    "r = sd_contract src" by (auto simp: source_references_def source_entries_def)
  with source_reference_edge [OF assms(1,2)] show ?thesis by (auto simp: read_edge_Inr)
qed

lemma part_rows:
  assumes "product_part_of parse es names n doc v = Inr p" and "naming_parser parse" and "schema_document doc"
    and "upstream_of doc \<subseteq> N" and "n \<in> N"
  shows "\<And>l. l \<in> set (pp_lineage p) \<Longrightarrow> fl_product l \<in> N \<and> named_row l
      \<and> (fl_source_kind l = From_contract \<longrightarrow> fl_source_product l \<in> N)"
    and "\<And>d. d \<in> set (pp_declared p) \<Longrightarrow> df_product d \<in> N
      \<and> (df_product d, df_field d) \<in> (\<lambda>l. (fl_product l, fl_target_field l)) ` set (pp_lineage p)"
    and "\<And>r. r \<in> set (pp_validations p) \<Longrightarrow> va_product r \<in> N"
proof -
  note F = product_part_Inr [OF assms(1)]
  note C = composition_fields_Inr [OF F(2)]
  show "fl_product l \<in> N \<and> named_row l \<and> (fl_source_kind l = From_contract \<longrightarrow> fl_source_product l \<in> N)"
    if "l \<in> set (pp_lineage p)" for l
    using C that assms(4,5) composition_fields_named [OF F(2) assms(2,3) that] by (auto simp: lineage_of_def)
  show "df_product d \<in> N
      \<and> (df_product d, df_field d) \<in> (\<lambda>l. (fl_product l, fl_target_field l)) ` set (pp_lineage p)"
    if "d \<in> set (pp_declared p)" for d
    using C that assms(5) by (force simp: explains_def)
  show "va_product r \<in> N" if "r \<in> set (pp_validations p)" for r
    using validations_Inr [OF F(3) that] assms(5) by simp
qed

lemma coverage_error:
  assumes "assert_coverage g = Inl e" and "map nd_published_name (pg_nodes g) = order" and "distinct order"
    and nodes: "\<And>n. n \<in> set (pg_nodes g) \<Longrightarrow> nd_generation n \<in> set generation_labels
      \<and> nd_materialisation n = (if nd_checkpoint n then ''table'' else ''undeclared'')"
    and edges: "\<And>x. x \<in> set (pg_edges g) \<Longrightarrow> pe_source x \<in> set order \<and> pe_target x \<in> set order
      \<and> pe_relation x \<noteq> []"
    and rows: "\<And>l. l \<in> set (pg_field_lineage g) \<Longrightarrow> fl_product l \<in> set order \<and> named_row l
      \<and> (fl_source_kind l = From_contract \<longrightarrow> fl_source_product l \<in> set order)"
    and declared: "\<And>d. d \<in> set (pg_declared_fields g) \<Longrightarrow> df_product d \<in> set order
      \<and> (df_product d, df_field d) \<in> (\<lambda>l. (fl_product l, fl_target_field l)) ` set (pg_field_lineage g)"
    and validations: "\<And>v. v \<in> set (pg_validations g) \<Longrightarrow> va_product v \<in> set order"
  shows "declaration_error e"
proof -
  have "check_edge order x = Inr ()" if "x \<in> set (pg_edges g)" for x
    using edges [OF that] by (simp add: check_edge_def check_def check_all_def)
  moreover have "check_lineage order l = Inr ()" if "l \<in> set (pg_field_lineage g)" for l
    using rows [OF that] by (simp add: check_lineage_def check_def named_row_def)
  moreover have "check_declared order (pg_field_lineage g) d = Inr ()" if "d \<in> set (pg_declared_fields g)" for d
    using declared [OF that] by (simp add: check_declared_def check_def)
  moreover have "check (va_product v \<in> set order) f = Inr ()" if "v \<in> set (pg_validations g)" for v f
    using validations [OF that] by (simp add: check_def)
  ultimately have "check_all check_node (pg_nodes g) = Inl e"
    using assms(1) by (auto simp: assert_coverage_def assms(2,3) Let_def check_def [of True] bind_eq_Inl
        dest!: check_all_Inl)
  then show ?thesis using nodes by (auto dest!: check_all_Inl intro: check_node_error)
qed

lemma build_tail_error:
  assumes rels: "map_result named_relations es = Inr rels" and edges: "edges_for es rels = Inr edges"
    and order: "topological_order (map fst es) edges = Inr order" and dist: "distinct (map fst es)"
    and doc: "\<And>n d v. map_of es n = Some (d, v) \<Longrightarrow> schema_document d" and parse: "naming_parser parse"
    and regs: "\<And>a. a \<in> set regs \<Longrightarrow> named_auxiliary a"
    and fail: "bind (map_result (build_part parse es rels) order) (\<lambda>parts.
      bind (map_result (place_auxiliary es (concat (map snd rels))) regs) (\<lambda>aux.
      bind (assert_coverage (assemble parts (edges @ concat aux) regs)) (\<lambda>_. Inr (g parts aux)))) = Inl e"
  shows "declaration_error e"
proof -
  have order_set: "set order = fst ` set es" "distinct order"
    using topological_order_Inr [OF order] by simp_all
  have keys: "map fst rels = map fst es" by (rule named_relations_keys [OF rels])
  have item: "(n, d, v) \<in> set es" if "map_of es n = Some (d, v)" for n d v
    using map_of_SomeD [OF that] .
  from fail consider (part) n where "n \<in> set order" "build_part parse es rels n = Inl e"
    | (aux) a where "a \<in> set regs" "place_auxiliary es (concat (map snd rels)) a = Inl e"
    | (coverage) parts aux where "map_result (build_part parse es rels) order = Inr parts"
        "map_result (place_auxiliary es (concat (map snd rels))) regs = Inr aux"
        "assert_coverage (assemble parts (edges @ concat aux) regs) = Inl e"
    by (auto simp: bind_eq_Inl dest!: map_result_Inl)
  then show ?thesis
  proof cases
    case part
    have "map_of es n \<noteq> None" "map_of rels n \<noteq> None"
      using part(1) order_set(1) keys by (simp_all add: map_of_eq_None_iff flip: set_map)
    with part(2) obtain d v names where "map_of es n = Some (d, v)" "product_part_of parse es names n d v = Inl e"
      by (auto simp: build_part_def bind_eq_Inl)
    then show ?thesis
      using product_part_error source_references_declared [OF edges] item by metis
  next
    case aux
    then show ?thesis by (auto simp: place_auxiliary_def declaration_error_def split: if_splits)
  next
    case (coverage parts aux)
    have owned: "pe_source x \<in> set order \<and> pe_target x \<in> set order \<and> pe_relation x \<noteq> []"
      if x: "x \<in> set (concat aux)" for x
    proof -
      from x map_result_mem [OF coverage(2)] obtain a part where "a \<in> set regs"
        "place_auxiliary es (concat (map snd rels)) a = Inr part" "x \<in> set part" by auto
      with place_auxiliary_edge [OF this(2,3)] regs show ?thesis
        unfolding order_set by (metis named_auxiliary_def)
    qed
    have read: "pe_source x \<in> set order \<and> pe_target x \<in> set order \<and> pe_relation x \<noteq> []"
      if "x \<in> set edges" for x
    proof -
      from edges_for_edge [OF edges that] obtain available where X: "pe_source x \<in> fst ` set es"
        "pe_target x \<in> fst ` set es" "(pe_source x, available) \<in> set rels" "pe_relation x \<in> set available"
        by (blast dest: map_of_SomeD)
      from named_relations_mem [OF rels X(3)] have "[] \<notin> set available"
        by (auto simp: published_relation_names_def dest: shape_names_nonempty)
      with X order_set show ?thesis by auto
    qed
    have part: "\<exists>n d v names. product_part_of parse es names n d v = Inr p \<and> schema_document d
        \<and> upstream_of d \<subseteq> set order \<and> n \<in> set order" if "p \<in> set parts" for p
      using build_parts [OF coverage(1) that] doc item upstream_declared [OF edges] order_set(1) by metis
    note rows = part_rows [OF _ parse]
    show ?thesis
    proof (rule coverage_error [OF coverage(3) _ order_set(2)])
      show "map nd_published_name (pg_nodes (assemble parts (edges @ concat aux) regs)) = order"
        using parts_names [OF coverage(1)] by (simp add: comp_def)
    next
      fix n assume "n \<in> set (pg_nodes (assemble parts (edges @ concat aux) regs))"
      then obtain p where p: "p \<in> set parts" "n = pp_node p" by auto
      with part obtain m d v names where "product_part_of parse es names m d v = Inr p" by blast
      note F = product_part_Inr [OF this]
      from generation_label [OF F(1)] F(6,7) p(2) show "nd_generation n \<in> set generation_labels
        \<and> nd_materialisation n = (if nd_checkpoint n then ''table'' else ''undeclared'')" by simp
    next
      fix x assume "x \<in> set (pg_edges (assemble parts (edges @ concat aux) regs))"
      then show "pe_source x \<in> set order \<and> pe_target x \<in> set order \<and> pe_relation x \<noteq> []"
        using owned read by auto
    next
      fix l assume "l \<in> set (pg_field_lineage (assemble parts (edges @ concat aux) regs))"
      then obtain p where "p \<in> set parts" "l \<in> set (pp_lineage p)" by auto
      with part [of p] rows(1) show "fl_product l \<in> set order \<and> named_row l
        \<and> (fl_source_kind l = From_contract \<longrightarrow> fl_source_product l \<in> set order)" by metis
    next
      fix d assume "d \<in> set (pg_declared_fields (assemble parts (edges @ concat aux) regs))"
      then obtain p where p: "p \<in> set parts" "d \<in> set (pp_declared p)" by auto
      from part [OF p(1)] obtain n doc v names where "product_part_of parse es names n doc v = Inr p"
        "schema_document doc" "upstream_of doc \<subseteq> set order" "n \<in> set order" by blast
      from rows(2) [OF this p(2)] have "df_product d \<in> set order \<and> (df_product d, df_field d)
        \<in> (\<lambda>l. (fl_product l, fl_target_field l)) ` set (pp_lineage p)" .
      with p(1) show "df_product d \<in> set order \<and> (df_product d, df_field d)
        \<in> (\<lambda>l. (fl_product l, fl_target_field l)) `
            set (pg_field_lineage (assemble parts (edges @ concat aux) regs))" by auto
    next
      fix r assume "r \<in> set (pg_validations (assemble parts (edges @ concat aux) regs))"
      then obtain p where "p \<in> set parts" "r \<in> set (pp_validations p)" by auto
      with part rows(3) show "va_product r \<in> set order" by metis
    qed
  qed
qed

text \<open>A build over declarations the schema admits fails only for what a declaration or a registration
  says: no lookup of a product or of its relations misses, and the coverage check at the end of the
  build, which guards against a partial graph, can find nothing but a product whose shape publishes no
  relation. Every edge end, every field's lineage, generation and materialisation is already right.\<close>

theorem build_fails_closed:
  assumes "build_product_graph parse es auxiliary = Inl e" and "schema_estate es" and "naming_parser parse"
    and "\<forall>reg a. auxiliary = Some reg \<longrightarrow> a \<in> set reg \<longrightarrow> named_auxiliary a"
  shows "declaration_error e"
proof -
  let ?regs = "case auxiliary of None \<Rightarrow> [] | Some reg \<Rightarrow> registry_relations reg"
  have regs: "named_auxiliary a" if "a \<in> set ?regs" for a
    using that assms(4) by (auto simp: registry_relations_def split: option.splits)
  have dist: "distinct (map fst es)" using assms(2) by (simp add: schema_estate_def)
  have doc: "schema_document d" if "map_of es n = Some (d, v)" for n d v
    using assms(2) map_of_SomeD [OF that] by (auto simp: schema_estate_def)
  from assms(1) consider (keys) "check_all check_key es = Inl e"
    | (names) "map_result named_relations es = Inl e"
    | (build) rels where "map_result named_relations es = Inr rels"
       "bind (edges_for es rels) (\<lambda>edges. bind (topological_order (map fst es) edges) (\<lambda>order.
          bind (map_result (build_part parse es rels) order) (\<lambda>parts.
          bind (map_result (place_auxiliary es (concat (map snd rels))) ?regs) (\<lambda>aux.
          bind (assert_coverage (assemble parts (edges @ concat aux) ?regs))
            (\<lambda>_. Inr (assemble parts (edges @ concat aux) ?regs)))))) = Inl e"
    by (auto simp: build_product_graph_def Let_def bind_eq_Inl)
  then show ?thesis
  proof cases
    case keys
    then show ?thesis
      by (auto simp: check_key_def check_def declaration_error_def dest!: check_all_Inl split: if_splits)
  next
    case names
    then show ?thesis
      by (auto simp: named_relations_def bind_eq_Inl published_relation_names_def shape_relation_names_def
          declaration_error_def dest!: map_result_Inl split: if_splits)
  next
    case (build rels)
    note keys = named_relations_keys [OF build(1)]
    show ?thesis
    proof (cases "edges_for es rels")
      case (Inl e')
      with build(2) have "edges_for es rels = Inl e" by simp
      then show ?thesis by (rule edges_for_error [OF _ keys])
    next
      case (Inr edges)
      note edges = Inr
      show ?thesis
      proof (cases "topological_order (map fst es) edges")
        case (Inl e')
        with build(2) edges have "topological_order (map fst es) edges = Inl e" by simp
        then show ?thesis
          using topological_order_Inl [of "map fst es" edges e] edges_for_edge [OF edges]
          by (simp add: declaration_error_def)
      next
        case (Inr order)
        then show ?thesis
          using build edges dist doc regs keys assms(3) by (intro build_tail_error) auto
      qed
    qed
  qed
qed

theorem build_fails_closed_witness:
  "build_product_graph (\<lambda>_. Some []) [eg_product ''c'' ''derivation'' [] []] None
     = Inl (Unclassified_generation ''d.c'' ''derivation'')
   \<and> declaration_error (Unclassified_generation ''d.c'' ''derivation'')"
proof -
  have eq: "build_product_graph (\<lambda>_. Some []) [eg_product ''c'' ''derivation'' [] []] None
     = Inl (Unclassified_generation ''d.c'' ''derivation'')" by code_simp
  have "schema_estate [eg_product ''c'' ''derivation'' [] []]" by code_simp
  moreover have "naming_parser (\<lambda>_. Some [])" by (simp add: naming_parser_def)
  ultimately show ?thesis using build_fails_closed [OF eq] eq by simp
qed

section \<open>One graph per estate\<close>

lemma map_of_same_set:
  assumes "distinct (map fst xs)" and "distinct (map fst ys)" and "set xs = set ys"
  shows "map_of xs = map_of ys"
proof
  fix k
  have "map_of xs k = Some v \<longleftrightarrow> map_of ys k = Some v" for v using assms by simp
  then show "map_of xs k = map_of ys k" by (cases "map_of ys k") (auto intro: option.exhaust)
qed

lemma get_item_cong: "map_of d = map_of d' \<Longrightarrow> get_item d = get_item d'"
  by (simp add: get_item_def fun_eq_iff)

lemma read_edge_cong:
  assumes "fst ` set es = fst ` set es'" and "map_of rels = map_of rels'"
  shows "read_edge es rels = read_edge es' rels'"
  by (intro ext) (simp only: read_edge_def get_item_cong [OF assms(2)] set_map assms(1))

lemma edges_for_cong:
  assumes "distinct (map fst es)" and "distinct (map fst es')" and "set es = set es'"
    and "map_of rels = map_of rels'"
  shows "edges_for es rels = edges_for es' rels'"
proof -
  have "sorted_documents es = sorted_documents es'"
    using sort_key_set_unique [of fst es es'] assms by (simp add: sorted_documents_def unique_keys_def)
  moreover have "consumer_edges es rels = consumer_edges es' rels'"
    using read_edge_cong [of es es' rels rels'] assms(3,4) by (simp add: consumer_edges_def)
  ultimately show ?thesis by (simp add: edges_for_def)
qed

lemma build_part_cong:
  assumes "map_of es = map_of es'" and "map_of rels = map_of rels'"
  shows "build_part parse es rels = build_part parse es' rels'"
  by (intro ext) (simp only: build_part_def product_part_of_def generation_of_def non_landing_def
      get_item_cong [OF assms(1)] get_item_cong [OF assms(2)])

lemma place_auxiliary_cong:
  assumes "fst ` set es = fst ` set es'" and "set published = set published'"
  shows "place_auxiliary es published = place_auxiliary es' published'"
  using assms by (simp add: fun_eq_iff place_auxiliary_def)

lemma named_relations_cong:
  assumes "map_result named_relations es = Inr rels" and "set es = set es'"
  shows "\<exists>rels'. map_result named_relations es' = Inr rels' \<and> set rels' = set rels"
proof -
  have "\<forall>x \<in> set es'. named_relations x = Inr (projr (named_relations x))"
    using assms list_all2_setD1 [OF assms(1) [unfolded map_result_Inr]] by fastforce
  then have ok: "map_result named_relations es' = Inr (map (\<lambda>x. projr (named_relations x)) es')"
    by (intro map_result_total) simp
  then show ?thesis using map_result_mem [OF ok] map_result_mem [OF assms(1)] assms(2) by blast
qed

text \<open>One estate has one graph: the build does not depend on the order in which the declarations are
  loaded. Any other enumeration of the same declarations builds the same graph, to the order of its
  nodes, edges, lineage and validation records.\<close>

theorem build_deterministic:
  assumes "build_product_graph parse es auxiliary = Inr g"
    and "distinct (map fst es)" and "distinct (map fst es')" and "set es' = set es"
  shows "build_product_graph parse es' auxiliary = Inr g"
proof -
  let ?regs = "case auxiliary of None \<Rightarrow> [] | Some reg \<Rightarrow> registry_relations reg"
  from assms(1) obtain rels edges order parts aux where
    keys: "\<forall>x \<in> set es. check_key x = Inr ()" and rels: "map_result named_relations es = Inr rels"
    and edges: "edges_for es rels = Inr edges" and order: "topological_order (map fst es) edges = Inr order"
    and parts: "map_result (build_part parse es rels) order = Inr parts"
    and aux: "map_result (place_auxiliary es (concat (map snd rels))) ?regs = Inr aux"
    and g: "g = assemble parts (edges @ concat aux) ?regs" "assert_coverage g = Inr ()"
    by (rule build_Inr)
  from named_relations_cong [OF rels] assms(4) obtain rels' where
    rels': "map_result named_relations es' = Inr rels'" "set rels' = set rels" by metis
  have es: "map_of es' = map_of es" by (rule map_of_same_set [OF assms(3,2,4)])
  have rel: "map_of rels' = map_of rels"
    by (rule map_of_same_set) (use assms(2,3) rels' named_relations_keys rels in \<open>simp_all\<close>)
  have "edges_for es' rels' = Inr edges"
    using edges_for_cong [OF assms(3,2,4) rel] edges by simp
  moreover have "topological_order (map fst es') edges = Inr order"
    using topological_order_cong [of "map fst es'" "map fst es" edges edges] assms(4) order by simp
  moreover have "map_result (build_part parse es' rels') order = Inr parts"
    using build_part_cong [OF es rel] parts by simp
  moreover have "map_result (place_auxiliary es' (concat (map snd rels'))) ?regs = Inr aux"
    using place_auxiliary_cong [of es' es "concat (map snd rels')" "concat (map snd rels)"] assms(4)
      rels'(2) aux by simp
  ultimately show ?thesis
    using keys assms(4) rels'(1) g by (simp add: build_product_graph_def Let_def)
qed

theorem build_deterministic_witness:
  "build_product_graph (\<lambda>_. Some []) (rev eg_estate) None = Inr eg_graph"
  by (rule build_deterministic [OF eg_graph_built]) (code_simp, code_simp, simp)

lemma collect_iff:
  "(\<exists>reg. collect_auxiliary_relations ps = Inr reg) \<longleftrightarrow>
      (\<forall>a \<in> set (concat ps). named_auxiliary a)
      \<and> (\<forall>a \<in> set (concat ps). \<forall>b \<in> set (concat ps). aux_key a = aux_key b \<longrightarrow> a = b)"
  unfolding collect_auxiliary_relations_def registry.batch_iff by (auto simp: registry.agreeing_def)

lemma collect_set:
  assumes "collect_auxiliary_relations ps = Inr reg"
  shows "set reg = set (concat ps)" and "unique_keys aux_key reg"
proof -
  note eq = assms [unfolded collect_auxiliary_relations_def]
  show u: "unique_keys aux_key reg" by (rule collect_unique [OF eq]) simp
  have "lookup_row aux_key (aux_key a) reg = Some a \<longleftrightarrow> a \<in> set (concat ps)" for a
  proof (cases "aux_key a \<in> aux_key ` set (concat ps)")
    case True
    then obtain b where b: "b \<in> set (concat ps)" "aux_key b = aux_key a" by force
    with registry.batch_get [OF eq] have found: "lookup_row aux_key (aux_key a) reg = Some b" by metis
    have "lookup_row aux_key (aux_key a) reg = Some a" if "a \<in> set (concat ps)"
      using registry.batch_get [OF eq] that by blast
    with found b(1) show ?thesis by auto
  next
    case False
    then have "a \<notin> set (concat ps)" by blast
    moreover from False registry.batch_get [OF eq] have "lookup_row aux_key (aux_key a) reg = None"
      by (metis lookup_row_Nil)
    ultimately show ?thesis by simp
  qed
  with set_of_lookup [OF u] show "set reg = set (concat ps)" by blast
qed

text \<open>The registry of auxiliary relations is write-once: whatever the order of the translators and
  however often they repeat themselves, the same registrations are either all accepted or refused, an
  accepted batch lists exactly its registrations, once each, by product and relation, and a batch is
  accepted exactly when every field is named and no two registrations claim one relation differently.\<close>

theorem registrations_correct:
  "((\<exists>reg. collect_auxiliary_relations ps = Inr reg) \<longleftrightarrow>
      (\<forall>a \<in> set (concat ps). named_auxiliary a)
      \<and> (\<forall>a \<in> set (concat ps). \<forall>b \<in> set (concat ps). aux_key a = aux_key b \<longrightarrow> a = b))
   \<and> (\<forall>reg. collect_auxiliary_relations ps = Inr reg \<longrightarrow>
      set (registry_relations reg) = set (concat ps) \<and> distinct (registry_relations reg)
      \<and> sorted (map aux_key (registry_relations reg))
      \<and> (\<forall>qs. set (concat qs) = set (concat ps) \<longrightarrow>
           (\<exists>reg'. collect_auxiliary_relations qs = Inr reg'
              \<and> registry_relations reg' = registry_relations reg)))"
proof (intro conjI allI impI)
  show "(\<exists>reg. collect_auxiliary_relations ps = Inr reg) \<longleftrightarrow>
      (\<forall>a \<in> set (concat ps). named_auxiliary a)
      \<and> (\<forall>a \<in> set (concat ps). \<forall>b \<in> set (concat ps). aux_key a = aux_key b \<longrightarrow> a = b)"
    by (rule collect_iff)
  fix reg assume reg: "collect_auxiliary_relations ps = Inr reg"
  note S = collect_set [OF reg]
  show "set (registry_relations reg) = set (concat ps)" using S(1) by (simp add: registry_relations_def)
  show "distinct (registry_relations reg)"
    using S(2) by (simp add: registry_relations_def unique_keys_def distinct_map)
  show "sorted (map aux_key (registry_relations reg))" by (simp add: registry_relations_def)
  fix qs assume same: "set (concat qs) = set (concat ps)"
  have "\<exists>reg'. collect_auxiliary_relations qs = Inr reg'"
    using collect_iff [of ps] reg unfolding collect_iff [of qs] same by blast
  then obtain reg' where reg': "collect_auxiliary_relations qs = Inr reg'" ..
  note S' = collect_set [OF reg']
  have "registry_relations reg' = registry_relations reg"
    unfolding registry_relations_def by (rule sort_key_set_unique) (use S S' same in simp_all)
  with reg' show "\<exists>reg'. collect_auxiliary_relations qs = Inr reg'
      \<and> registry_relations reg' = registry_relations reg" by blast
qed

definition eg_auxiliary :: "string \<Rightarrow> auxiliary_relation" where
  "eg_auxiliary r = \<lparr>ar_product = ''d.a'', ar_relation = r, ar_translator = ''dbt'', ar_purpose = ''p''\<rparr>"

theorem registrations_correct_witness:
  "\<exists>reg. collect_auxiliary_relations [[eg_auxiliary ''s''], [eg_auxiliary ''r'', eg_auxiliary ''s'']] = Inr reg
    \<and> set (registry_relations reg) = {eg_auxiliary ''r'', eg_auxiliary ''s''}"
proof -
  let ?ps = "[[eg_auxiliary ''s''], [eg_auxiliary ''r'', eg_auxiliary ''s'']]"
  have "\<exists>reg. collect_auxiliary_relations ?ps = Inr reg"
    unfolding registrations_correct [of ?ps, THEN conjunct1]
    by (simp add: named_auxiliary_def eg_auxiliary_def aux_key_def)
  then show ?thesis using registrations_correct [of ?ps, THEN conjunct2] by auto
qed

end
