(* ===== verification/Decimal_Text.thy ===== *)
theory Decimal_Text
  imports Main "HOL-Library.Char_ord"
begin

text \<open>
  Decimal numbers in text, as the version and cron patterns read them: the digit class, the number a
  run of digits stands for, the longest run at the front of a string, and splitting at a separator.
\<close>

section \<open>Reading\<close>

definition is_digit :: "char \<Rightarrow> bool" where
  "is_digit c \<longleftrightarrow> of_char c \<ge> (48::nat) \<and> of_char c \<le> (57::nat)"

definition read_nat :: "string \<Rightarrow> nat" where
  "read_nat = foldl (\<lambda>n c. 10 * n + (of_char c - 48)) 0"

definition digits_prefix :: "string \<Rightarrow> (nat \<times> string) option" where
  "digits_prefix s = (let ds = takeWhile is_digit s in
     if ds = [] then None else Some (read_nat ds, dropWhile is_digit s))"

section \<open>Writing\<close>

fun show_nat :: "nat \<Rightarrow> string" where
  "show_nat n = (if n < 10 then [char_of (n + 48)] else show_nat (n div 10) @ [char_of (n mod 10 + 48)])"

declare show_nat.simps [simp del]

lemma show_nat_digit: "n < 10 \<Longrightarrow> is_digit (char_of (n + 48 :: nat))"
  by (simp add: is_digit_def)

lemma show_nat_digits: "list_all is_digit (show_nat n) \<and> show_nat n \<noteq> []"
proof (induction n rule: show_nat.induct)
  case (1 n)
  then show ?case by (subst (1 2) show_nat.simps) (simp add: show_nat_digit)
qed

lemma read_nat_show: "read_nat (show_nat n) = n"
proof (induction n rule: show_nat.induct)
  case (1 n)
  then show ?case by (subst show_nat.simps) (simp add: read_nat_def)
qed

lemma digits_prefix_show:
  assumes "rest = [] \<or> \<not> is_digit (hd rest)"
  shows "digits_prefix (show_nat n @ rest) = Some (n, rest)"
proof -
  have "takeWhile is_digit (show_nat n @ rest) = show_nat n"
    "dropWhile is_digit (show_nat n @ rest) = rest"
    using show_nat_digits [of n] assms
    by (cases rest; simp add: takeWhile_append list_all_iff takeWhile_eq_all_conv dropWhile_append)+
  then show ?thesis using show_nat_digits [of n] by (simp add: digits_prefix_def read_nat_show)
qed

section \<open>Splitting\<close>

text \<open>\<open>str.split(sep)\<close> for a one-character separator.\<close>

fun split_on :: "char \<Rightarrow> string \<Rightarrow> string list" where
  "split_on sep [] = [[]]"
| "split_on sep (c # cs) =
     (if c = sep then [] # split_on sep cs
      else case split_on sep cs of [] \<Rightarrow> [[c]] | w # ws \<Rightarrow> (c # w) # ws)"

fun join_with :: "char \<Rightarrow> string list \<Rightarrow> string" where
  "join_with sep [] = []"
| "join_with sep [w] = w"
| "join_with sep (w # v # ws) = w @ sep # join_with sep (v # ws)"

lemma split_on_plain: "sep \<notin> set w \<Longrightarrow> split_on sep w = [w]"
  by (induction w) auto

lemma split_on_append: "sep \<notin> set w \<Longrightarrow> split_on sep (w @ sep # rest) = w # split_on sep rest"
  by (induction w) auto

lemma split_on_join:
  "ws \<noteq> [] \<Longrightarrow> \<forall>w \<in> set ws. sep \<notin> set w \<Longrightarrow> split_on sep (join_with sep ws) = ws"
  by (induction ws rule: join_with.induct [of _ sep]) (auto simp: split_on_plain split_on_append)

text \<open>\<open>str.split()\<close>: the maximal runs without white space.\<close>

definition is_space :: "char \<Rightarrow> bool" where
  "is_space c \<longleftrightarrow> of_char c \<in> {9..13 :: nat} \<or> of_char c \<in> {28..32 :: nat} \<or> of_char c \<in> {133, 160 :: nat}"

fun split_spaces :: "string \<Rightarrow> string list" where
  "split_spaces [] = []"
| "split_spaces (c # cs) =
     (if is_space c then split_spaces cs
      else case cs of [] \<Rightarrow> [[c]]
        | d # _ \<Rightarrow> if is_space d then [c] # split_spaces cs
            else case split_spaces cs of [] \<Rightarrow> [[c]] | w # ws \<Rightarrow> (c # w) # ws)"

lemma split_spaces_word:
  "w \<noteq> [] \<Longrightarrow> \<forall>c \<in> set w. \<not> is_space c \<Longrightarrow> split_spaces w = [w]"
proof (induction w)
  case (Cons c w)
  then show ?case by (cases w) auto
qed simp

lemma split_spaces_append:
  assumes "w \<noteq> []" and "\<forall>c \<in> set w. \<not> is_space c" and "is_space s"
  shows "split_spaces (w @ s # rest) = w # split_spaces rest"
  using assms(1,2)
proof (induction w)
  case (Cons c w)
  then show ?case using assms(3) by (cases w) auto
qed simp

end
