(* ===== verification/Contract_Change.thy ===== *)
theory Contract_Change
  imports Landing_Contract Decimal_Text "HOL-Library.Multiset"
begin

text \<open>
  The compatibility classifier of \<open>ergasterion/source_delivery.py\<close>: the canonical contract document
  two contracts are compared by, the changes that are major or minor, and the version bump a class of
  change demands. The canonical bytes and the digests of RFC 8785 documents are made by libraries, and
  are the fields of \<open>canonical_lib\<close>.
\<close>

section \<open>Errors\<close>

text \<open>
  \<open>ContractValidationError\<close> carries where it was raised and every violation found;
  \<open>MigrationConflictError\<close> and its \<open>CapacityExceededError\<close> a message, here the situation that raises it.
\<close>

datatype version_fault = Not_increased | Needs_major_bump | Needs_minor_bump

datatype conflict =
    Concurrent_activation nat nat
  | Candidate_in_flight digest digest
  | Stale_prior_contract "digest option" "digest option"
  | Unregistered_candidate digest "digest option"
  | Nothing_to_carry_from
  | No_pending_baseline

datatype capacity_fault = Too_many_rows nat nat | Too_many_bytes nat nat

datatype contract_error =
    Repeated_value string
  | Version_error version_fault string string
  | Invalid_semver string
  | Migration_conflict_error conflict
  | Capacity_exceeded_error capacity_fault
  | Instant_required
  | Instant_refused

section \<open>Derived lineage\<close>

definition token_safe :: "string \<Rightarrow> string" where
  "token_safe s = map (\<lambda>c. if c = CHR ''_'' then CHR ''-'' else c) s"

definition derive_interfaces :: "ident \<Rightarrow> ident \<Rightarrow> landing_interfaces" where
  "derive_interfaces source table =
     (let base = ''landing-'' @ token_safe source @ ''-'' @ token_safe table in
      \<lparr>if_raw = base @ ''-raw'', if_source_native = base @ ''-source-native'',
       if_published = base @ ''-published'', if_quarantine = base @ ''-quarantine'',
       if_deletion_evidence = base @ ''-deletion-evidence''\<rparr>)"

section \<open>Canonical documents\<close>

record source_schema =
  ss_source_name :: ident
  ss_identifier :: ident
  ss_content_encodings :: "content_encoding list"
  ss_codec :: codec
  ss_physical_columns :: "source_field list"

record published_column =
  pu_name :: ident
  pu_logical_type :: logical_type
  pu_nullable :: bool

record canonical_lib =
  cj_encoding :: "content_encoding \<Rightarrow> string"
  cj_token :: "token \<Rightarrow> string"
  cj_scalar :: "typed_scalar \<Rightarrow> string"
  cj_rule_digest :: "quality_rule \<Rightarrow> digest"
  cj_contract_digest :: "landing_product_contract \<Rightarrow> digest"
  cj_source_schema_digest :: "source_schema \<Rightarrow> digest"
  cj_published_schema_digest :: "published_column list \<Rightarrow> digest"
  cj_ruleset_digest :: "digest \<Rightarrow> digest \<Rightarrow> quality_rule list \<Rightarrow> digest"
  cj_migration_digest :: "migration \<Rightarrow> digest"
  cj_ancestry_bytes :: "nat list \<Rightarrow> nat"

definition normalise_declared_set ::
    "('a \<Rightarrow> string) \<Rightarrow> string \<Rightarrow> 'a list \<Rightarrow> contract_error + 'a list" where
  "normalise_declared_set bytes where_at items =
     (if distinct (map bytes items) then Inr (sort_key bytes items)
      else Inl (Repeated_value where_at))"

text \<open>\<open>str.lower\<close> on an ASCII identifier.\<close>

definition lower_char :: "char \<Rightarrow> char" where
  "lower_char c = (if of_char c \<ge> (65::nat) \<and> of_char c \<le> (90::nat)
     then char_of (of_char c + 32 :: nat) else c)"

definition lower_string :: "string \<Rightarrow> string" where
  "lower_string = map lower_char"

text \<open>A mapping is compared without its order: its items by key.\<close>

definition canonical_parameters :: "scope_parameters \<Rightarrow> scope_parameters" where
  "canonical_parameters = sort_key fst"

definition canonical_rule :: "canonical_lib \<Rightarrow> string \<Rightarrow> quality_rule \<Rightarrow> contract_error + quality_rule" where
  "canonical_rule lib where_at r =
     (case r of
        Accepted_values f vs allow sev \<Rightarrow>
          bind (normalise_declared_set (cj_scalar lib) where_at vs) (\<lambda>vs'. Inr (Accepted_values f vs' allow sev))
      | _ \<Rightarrow> Inr r)"

text \<open>\<open>compute_rule_id\<close>: the digest of the rule with its declared set normalised and no severity.\<close>

definition without_severity :: "quality_rule \<Rightarrow> quality_rule" where
  "without_severity r =
     (case r of
        Accepted_values f vs allow _ \<Rightarrow> Accepted_values f vs allow Sev_error
      | Not_null f _ \<Rightarrow> Not_null f Sev_error
      | Range_rule f lo hi allow _ \<Rightarrow> Range_rule f lo hi allow Sev_error
      | Row_count lo hi _ \<Rightarrow> Row_count lo hi Sev_error
      | Unique_key fs _ \<Rightarrow> Unique_key fs Sev_error)"

definition compute_rule_id :: "canonical_lib \<Rightarrow> quality_rule \<Rightarrow> contract_error + digest" where
  "compute_rule_id lib r =
     bind (canonical_rule lib ''rule.values'' r) (\<lambda>r'. Inr (cj_rule_digest lib (without_severity r')))"

definition canonical_integration :: "canonical_lib \<Rightarrow> integration \<Rightarrow> contract_error + integration" where
  "canonical_integration lib i =
     (case i of
        Managed \<Rightarrow> Inr Managed
      | External e \<Rightarrow>
          bind (normalise_declared_set (cj_token lib) ''landing.integration.receipt_trust.allowed_key_ids''
                  (tp_allowed_key_ids (ei_receipt_trust e))) (\<lambda>ids.
          Inr (External (e\<lparr>ei_receipt_trust := (ei_receipt_trust e)\<lparr>tp_allowed_key_ids := ids\<rparr>\<rparr>))))"

definition canonical_landing :: "canonical_lib \<Rightarrow> landing_block \<Rightarrow> contract_error + landing_block" where
  "canonical_landing lib l =
     bind (normalise_declared_set (cj_encoding lib) ''landing.content_encodings'' (lb_content_encodings l))
       (\<lambda>encodings.
     bind (canonical_integration lib (lb_integration l)) (\<lambda>integration.
     Inr (l\<lparr>lb_physical_columns := sort_key (\<lambda>c. lower_string (sf_name c)) (lb_physical_columns l),
            lb_content_encodings := encodings, lb_integration := integration\<rparr>)))"

definition canonical_tombstone ::
    "canonical_lib \<Rightarrow> tombstone_contract option \<Rightarrow> contract_error + tombstone_contract option" where
  "canonical_tombstone lib t =
     (case t of None \<Rightarrow> Inr None
      | Some b \<Rightarrow> bind (normalise_declared_set (cj_scalar lib) ''delivery.tombstone.values'' (ts_values b))
          (\<lambda>vs. Inr (Some (b\<lparr>ts_values := vs\<rparr>))))"

definition canonical_snapshot ::
    "canonical_lib \<Rightarrow> snapshot_contract option \<Rightarrow> contract_error + snapshot_contract option" where
  "canonical_snapshot lib s =
     (case s of None \<Rightarrow> Inr None
      | Some b \<Rightarrow> bind (normalise_declared_set (cj_token lib) ''delivery.snapshot.allowed_key_ids''
                         (sn_allowed_key_ids b))
          (\<lambda>ids. Inr (Some (b\<lparr>sn_allowed_key_ids := ids,
                              sn_scope_parameters := canonical_parameters (sn_scope_parameters b)\<rparr>))))"

definition canonical_record_key :: "record_key_contract \<Rightarrow> record_key_contract" where
  "canonical_record_key k = k\<lparr>rk_fingerprint_scope := map_option
     (\<lambda>s. s\<lparr>fs_scope_parameters := canonical_parameters (fs_scope_parameters s)\<rparr>)
     (rk_fingerprint_scope k)\<rparr>"

definition rule_at :: "quality_rule \<Rightarrow> string" where
  "rule_at r = (case r of
      Accepted_values f _ _ _ \<Rightarrow> ''delivery.quality.rules['' @ f @ ''].values''
    | _ \<Rightarrow> ''delivery.quality.rules'')"

definition canonical_rules :: "canonical_lib \<Rightarrow> quality_rule list \<Rightarrow> contract_error + quality_rule list" where
  "canonical_rules lib rules =
     bind (map_result (\<lambda>r. canonical_rule lib (rule_at r) r) rules) (\<lambda>rules'.
     bind (map_result (compute_rule_id lib) rules) (\<lambda>ids.
     Inr (map snd (sort_key fst (zip ids rules')))))"

definition canonical_delivery :: "canonical_lib \<Rightarrow> delivery_policy \<Rightarrow> contract_error + delivery_policy" where
  "canonical_delivery lib d =
     bind (canonical_tombstone lib (dp_tombstone d)) (\<lambda>tombstone.
     bind (canonical_snapshot lib (dp_snapshot d)) (\<lambda>snapshot.
     bind (canonical_rules lib (qp_rules (dp_quality d))) (\<lambda>rules.
     Inr (d\<lparr>dp_tombstone := tombstone, dp_snapshot := snapshot,
            dp_record_key := canonical_record_key (dp_record_key d),
            dp_quality := (dp_quality d)\<lparr>qp_rules := rules\<rparr>\<rparr>))))"

definition canonical_contract ::
    "canonical_lib \<Rightarrow> landing_product_contract \<Rightarrow> contract_error + landing_product_contract" where
  "canonical_contract lib c =
     bind (canonical_landing lib (lc_landing c)) (\<lambda>landing.
     bind (canonical_delivery lib (lc_delivery c)) (\<lambda>delivery.
     Inr (c\<lparr>lc_landing := landing, lc_projection := sort_key pj_name (lc_projection c),
            lc_delivery := delivery\<rparr>)))"

definition compute_contract_digest :: "canonical_lib \<Rightarrow> landing_product_contract \<Rightarrow> contract_error + digest" where
  "compute_contract_digest lib c = bind (canonical_contract lib c) (\<lambda>d. Inr (cj_contract_digest lib d))"

definition canonical_source_schema ::
    "canonical_lib \<Rightarrow> landing_product_contract \<Rightarrow> contract_error + source_schema" where
  "canonical_source_schema lib c =
     bind (canonical_contract lib c) (\<lambda>d. let l = lc_landing d in
     Inr \<lparr>ss_source_name = lb_source_name l, ss_identifier = lb_identifier l,
          ss_content_encodings = lb_content_encodings l, ss_codec = lb_codec l,
          ss_physical_columns = lb_physical_columns l\<rparr>)"

definition compute_source_schema_digest ::
    "canonical_lib \<Rightarrow> landing_product_contract \<Rightarrow> contract_error + digest" where
  "compute_source_schema_digest lib c =
     bind (canonical_source_schema lib c) (\<lambda>d. Inr (cj_source_schema_digest lib d))"

definition canonical_published_schema ::
    "canonical_lib \<Rightarrow> landing_product_contract \<Rightarrow> contract_error + published_column list" where
  "canonical_published_schema lib c =
     bind (canonical_contract lib c) (\<lambda>d.
     Inr (map (\<lambda>e. \<lparr>pu_name = pj_name e, pu_logical_type = pj_logical_type e, pu_nullable = pj_nullable e\<rparr>)
       (lc_projection d)))"

definition compute_published_schema_digest ::
    "canonical_lib \<Rightarrow> landing_product_contract \<Rightarrow> contract_error + digest" where
  "compute_published_schema_digest lib c =
     bind (canonical_published_schema lib c) (\<lambda>d. Inr (cj_published_schema_digest lib d))"

definition compute_ruleset_digest ::
    "canonical_lib \<Rightarrow> digest \<Rightarrow> digest \<Rightarrow> quality_rule list \<Rightarrow> contract_error + digest" where
  "compute_ruleset_digest lib source_digest published_digest rules =
     bind (map_result (\<lambda>r. bind (canonical_rule lib ''rule.values'' r) (\<lambda>r'.
             bind (compute_rule_id lib r) (\<lambda>i. Inr (i, r')))) rules) (\<lambda>pairs.
     Inr (cj_ruleset_digest lib source_digest published_digest (map snd (sort_key fst pairs))))"

section \<open>The classifier\<close>

datatype change_class = Ch_none | Ch_patch | Ch_minor | Ch_major | Ch_new_product

text \<open>A \<open>dict\<close> by column name; of two columns of one name the later one wins.\<close>

type_synonym column_spec = "logical_type \<times> bool"

definition column_map :: "source_field list \<Rightarrow> (ident \<times> column_spec) list" where
  "column_map columns = rev (map (\<lambda>c. (sf_name c, sf_logical_type c, sf_nullable c)) columns)"

definition projection_map :: "projection_field list \<Rightarrow> (ident \<times> column_spec) list" where
  "projection_map published = rev (map (\<lambda>e. (pj_name e, pj_logical_type e, pj_nullable e)) published)"

definition reference_fields :: "external_integration \<Rightarrow> ident list" where
  "reference_fields e = [ei_delivery_id_column e, ei_visibility_epoch_column e,
     ei_visibility_kind_column e, ei_visibility_id_column e, ei_raw_reference_field e,
     ei_candidate_reference_field e, ei_frame_index_reference_field e]"

definition integration_major_change :: "integration \<Rightarrow> integration \<Rightarrow> bool" where
  "integration_major_change prior candidate =
     (case (prior, candidate) of
        (Managed, Managed) \<Rightarrow> False
      | (External p, External c) \<Rightarrow> reference_fields p \<noteq> reference_fields c
      | _ \<Rightarrow> True)"

definition integration_minor_change :: "integration \<Rightarrow> integration \<Rightarrow> bool" where
  "integration_minor_change prior candidate =
     (case (prior, candidate) of
        (External p, External c) \<Rightarrow> ei_receipt_trust p \<noteq> ei_receipt_trust c
      | _ \<Rightarrow> False)"

definition snapshot_major_change :: "snapshot_contract option \<Rightarrow> snapshot_contract option \<Rightarrow> bool" where
  "snapshot_major_change prior candidate =
     (case (prior, candidate) of
        (None, None) \<Rightarrow> False
      | (Some p, Some c) \<Rightarrow> sn_scope_id p \<noteq> sn_scope_id c \<or> sn_scope_parameters p \<noteq> sn_scope_parameters c
      | _ \<Rightarrow> True)"

definition snapshot_minor_change :: "snapshot_contract option \<Rightarrow> snapshot_contract option \<Rightarrow> bool" where
  "snapshot_minor_change prior candidate =
     (case (prior, candidate) of
        (Some p, Some c) \<Rightarrow> sn_attestation_policy_ref p \<noteq> sn_attestation_policy_ref c
          \<or> sn_allowed_key_ids p \<noteq> sn_allowed_key_ids c
          \<or> sn_future_clock_skew_seconds p \<noteq> sn_future_clock_skew_seconds c
      | _ \<Rightarrow> False)"

text \<open>A column removed, retyped or renullabled; and a new column that is required.\<close>

definition spec_changed :: "(ident \<times> column_spec) list \<Rightarrow> (ident \<times> column_spec) list \<Rightarrow> bool" where
  "spec_changed prior candidate \<longleftrightarrow> (\<exists>n \<in> set (map fst prior). map_of candidate n \<noteq> map_of prior n)"

definition required_added :: "(ident \<times> column_spec) list \<Rightarrow> (ident \<times> column_spec) list \<Rightarrow> bool" where
  "required_added prior candidate \<longleftrightarrow> (\<exists>n \<in> set (map fst candidate). n \<notin> set (map fst prior)
     \<and> (case map_of candidate n of None \<Rightarrow> False | Some (_, nullable) \<Rightarrow> \<not> nullable))"

definition has_major_change :: "landing_product_contract \<Rightarrow> landing_product_contract \<Rightarrow> bool" where
  "has_major_change prior candidate =
     (let pl = lc_landing prior; cl = lc_landing candidate;
          pd = lc_delivery prior; cd = lc_delivery candidate;
          pc = column_map (lb_physical_columns pl); cc = column_map (lb_physical_columns cl);
          pp = projection_map (lc_projection prior); cp = projection_map (lc_projection candidate)
      in pf_domain (lc_product prior) \<noteq> pf_domain (lc_product candidate)
       \<or> lb_source_name pl \<noteq> lb_source_name cl \<or> lb_identifier pl \<noteq> lb_identifier cl
       \<or> lb_codec pl \<noteq> lb_codec cl
       \<or> lb_content_encodings pl \<noteq> lb_content_encodings cl
       \<or> integration_major_change (lb_integration pl) (lb_integration cl)
       \<or> dp_mode pd \<noteq> dp_mode cd \<or> dp_progress pd \<noteq> dp_progress cd
       \<or> dp_timestamps pd \<noteq> dp_timestamps cd \<or> dp_record_key pd \<noteq> dp_record_key cd
       \<or> dp_delete_strategy pd \<noteq> dp_delete_strategy cd
       \<or> snapshot_major_change (dp_snapshot pd) (dp_snapshot cd)
       \<or> dp_tombstone pd \<noteq> dp_tombstone cd
       \<or> spec_changed pc cc \<or> spec_changed pp cp
       \<or> required_added pc cc \<or> required_added pp cp)"

definition column_added :: "(ident \<times> column_spec) list \<Rightarrow> (ident \<times> column_spec) list \<Rightarrow> bool" where
  "column_added prior candidate \<longleftrightarrow> (\<exists>n \<in> set (map fst candidate). n \<notin> set (map fst prior))"

definition has_minor_change :: "landing_product_contract \<Rightarrow> landing_product_contract \<Rightarrow> bool" where
  "has_minor_change prior candidate =
     (let pl = lc_landing prior; cl = lc_landing candidate;
          pd = lc_delivery prior; cd = lc_delivery candidate;
          pf = lc_product prior; cf = lc_product candidate
      in column_added (column_map (lb_physical_columns pl)) (column_map (lb_physical_columns cl))
       \<or> column_added (projection_map (lc_projection prior)) (projection_map (lc_projection candidate))
       \<or> dp_schedule pd \<noteq> dp_schedule cd
       \<or> pf_classification pf \<noteq> pf_classification cf
       \<or> pf_access_policy_ref pf \<noteq> pf_access_policy_ref cf
       \<or> pf_retention_policy_ref pf \<noteq> pf_retention_policy_ref cf
       \<or> pf_display_name pf \<noteq> pf_display_name cf
       \<or> dp_quality pd \<noteq> dp_quality cd
       \<or> integration_minor_change (lb_integration pl) (lb_integration cl)
       \<or> snapshot_minor_change (dp_snapshot pd) (dp_snapshot cd))"

text \<open>The class of two canonical contracts of one identity.\<close>

definition document_change :: "landing_product_contract \<Rightarrow> landing_product_contract \<Rightarrow> change_class" where
  "document_change prior candidate =
     (if prior = candidate then Ch_none
      else if has_major_change prior candidate then Ch_major
      else if has_minor_change prior candidate then Ch_minor
      else Ch_patch)"

definition classify_contract_change ::
    "canonical_lib \<Rightarrow> landing_product_contract option \<Rightarrow> landing_product_contract
       \<Rightarrow> contract_error + change_class" where
  "classify_contract_change lib prior candidate =
     (case prior of
        None \<Rightarrow> Inr Ch_new_product
      | Some p \<Rightarrow>
          if lc_logical_identity p \<noteq> lc_logical_identity candidate then Inr Ch_new_product
          else bind (canonical_contract lib p) (\<lambda>pd.
               bind (canonical_contract lib candidate) (\<lambda>cd.
               Inr (document_change pd cd))))"

section \<open>Versions\<close>

text \<open>The match of the version pattern: three runs of digits between dots, with the numbers they read.\<close>

definition after_dot :: "string \<Rightarrow> string option" where
  "after_dot s = (case s of [] \<Rightarrow> None | c # cs \<Rightarrow> if c = CHR ''.'' then Some cs else None)"

definition semver_core :: "semver \<Rightarrow> contract_error + (nat \<times> nat \<times> nat)" where
  "semver_core v =
     (case digits_prefix v of None \<Rightarrow> Inl (Invalid_semver v) | Some (a, s1) \<Rightarrow>
     (case after_dot s1 of None \<Rightarrow> Inl (Invalid_semver v) | Some t1 \<Rightarrow>
     (case digits_prefix t1 of None \<Rightarrow> Inl (Invalid_semver v) | Some (b, s2) \<Rightarrow>
     (case after_dot s2 of None \<Rightarrow> Inl (Invalid_semver v) | Some t2 \<Rightarrow>
     (case digits_prefix t2 of None \<Rightarrow> Inl (Invalid_semver v) | Some (c, _) \<Rightarrow> Inr (a, b, c))))))"

definition validate_semver_bump :: "semver \<Rightarrow> semver \<Rightarrow> change_class \<Rightarrow> contract_error + unit" where
  "validate_semver_bump prior candidate required =
     (if required = Ch_none then Inr ()
      else bind (semver_core prior) (\<lambda>p. bind (semver_core candidate) (\<lambda>c.
        if c \<le> p then Inl (Version_error Not_increased prior candidate)
        else if required = Ch_major \<and> fst c \<le> fst p
          then Inl (Version_error Needs_major_bump prior candidate)
        else if required = Ch_minor \<and> (fst c, fst (snd c)) \<le> (fst p, fst (snd p))
          then Inl (Version_error Needs_minor_bump prior candidate)
        else Inr ())))"

section \<open>What a change keeps\<close>

text \<open>
  The abstract contract of a non-breaking change: what consumers and deliveries bind to in \<open>p\<close> is the
  same in \<open>c\<close>. The published columns of \<open>p\<close> keep their type and nullability, and what \<open>c\<close> adds may
  be null.
\<close>

definition extends_spec :: "(ident \<times> column_spec) list \<Rightarrow> (ident \<times> column_spec) list \<Rightarrow> bool" where
  "extends_spec p c \<longleftrightarrow> (\<forall>n t nullable. map_of p n = Some (t, nullable) \<longrightarrow> map_of c n = Some (t, nullable))
     \<and> (\<forall>n t nullable. map_of p n = None \<longrightarrow> map_of c n = Some (t, nullable) \<longrightarrow> nullable)"

definition integration_binding :: "integration \<Rightarrow> ident list option" where
  "integration_binding i = (case i of Managed \<Rightarrow> None | External e \<Rightarrow> Some (reference_fields e))"

definition snapshot_binding :: "snapshot_contract option \<Rightarrow> (token \<times> scope_parameters) option" where
  "snapshot_binding = map_option (\<lambda>s. (sn_scope_id s, sn_scope_parameters s))"

definition binding_of where
  "binding_of c = (lc_logical_identity c, pf_domain (lc_product c),
     (lb_source_name (lc_landing c), lb_identifier (lc_landing c), lb_codec (lc_landing c),
      lb_content_encodings (lc_landing c), integration_binding (lb_integration (lc_landing c))),
     (dp_mode (lc_delivery c), dp_progress (lc_delivery c), dp_timestamps (lc_delivery c),
      dp_record_key (lc_delivery c), dp_delete_strategy (lc_delivery c),
      snapshot_binding (dp_snapshot (lc_delivery c)), dp_tombstone (lc_delivery c)))"

definition continues :: "landing_product_contract \<Rightarrow> landing_product_contract \<Rightarrow> bool" where
  "continues p c \<longleftrightarrow> binding_of p = binding_of c
     \<and> extends_spec (column_map (lb_physical_columns (lc_landing p))) (column_map (lb_physical_columns (lc_landing c)))
     \<and> extends_spec (projection_map (lc_projection p)) (projection_map (lc_projection c))"

lemma extends_spec_refl [simp]: "extends_spec p p"
  by (simp add: extends_spec_def)

lemma extends_spec_trans:
  assumes "extends_spec p q" and "extends_spec q r"
  shows "extends_spec p r"
  unfolding extends_spec_def
proof (intro conjI allI impI)
  show "map_of r n = Some (t, nullable)" if "map_of p n = Some (t, nullable)" for n t nullable
    using that assms by (simp add: extends_spec_def)
  show nullable if "map_of p n = None" "map_of r n = Some (t, nullable)" for n t nullable
  proof (cases "map_of q n")
    case None
    with assms(2) that(2) show ?thesis unfolding extends_spec_def by blast
  next
    case (Some x)
    then obtain t' m where q: "map_of q n = Some (t', m)" by (cases x) auto
    with assms(2) have "map_of r n = Some (t', m)" by (simp add: extends_spec_def)
    with that(2) have "m = nullable" by simp
    with assms(1) that(1) q show ?thesis unfolding extends_spec_def by blast
  qed
qed

lemma extends_spec_iff: "extends_spec p c \<longleftrightarrow> \<not> spec_changed p c \<and> \<not> required_added p c"
proof
  assume ext: "extends_spec p c"
  have "map_of c n = map_of p n" if "n \<in> set (map fst p)" for n
  proof -
    have "map_of p n \<noteq> None" using that by (simp add: map_of_eq_None_iff)
    then obtain t b where "map_of p n = Some (t, b)" by auto
    with ext show ?thesis by (simp add: extends_spec_def)
  qed
  then have "\<not> spec_changed p c" by (auto simp: spec_changed_def)
  moreover have "case map_of c n of None \<Rightarrow> True | Some (t, b) \<Rightarrow> b" if "n \<notin> set (map fst p)" for n
  proof (cases "map_of c n")
    case (Some x)
    have "map_of p n = None" using that by (simp add: map_of_eq_None_iff)
    with ext Some have "snd x" unfolding extends_spec_def by (metis prod.collapse)
    with Some show ?thesis by (simp add: case_prod_beta)
  qed simp
  then have "\<not> required_added p c" by (fastforce simp: required_added_def split: option.splits)
  ultimately show "\<not> spec_changed p c \<and> \<not> required_added p c" ..
next
  assume R: "\<not> spec_changed p c \<and> \<not> required_added p c"
  show "extends_spec p c"
    unfolding extends_spec_def
  proof (intro conjI allI impI)
    show "map_of c n = Some (t, b)" if "map_of p n = Some (t, b)" for n t b
    proof -
      have "n \<in> set (map fst p)" using that by (force dest: map_of_SomeD)
      with R that show ?thesis by (auto simp: spec_changed_def)
    qed
    show b if "map_of p n = None" "map_of c n = Some (t, b)" for n t b
    proof -
      have "n \<notin> set (map fst p)" using that(1) by (simp add: map_of_eq_None_iff)
      moreover have "n \<in> set (map fst c)" using that(2) by (force dest: map_of_SomeD)
      ultimately show ?thesis using R that(2) by (force simp: required_added_def)
    qed
  qed
qed

lemma integration_binding_iff:
  "integration_major_change p c \<longleftrightarrow> integration_binding p \<noteq> integration_binding c"
  by (auto simp: integration_major_change_def integration_binding_def split: integration.splits)

lemma snapshot_binding_iff: "snapshot_major_change p c \<longleftrightarrow> snapshot_binding p \<noteq> snapshot_binding c"
  by (auto simp: snapshot_major_change_def snapshot_binding_def split: option.splits)

lemma has_major_change_iff:
  assumes "lc_logical_identity p = lc_logical_identity c"
  shows "has_major_change p c \<longleftrightarrow> \<not> continues p c"
  using assms unfolding has_major_change_def continues_def binding_of_def Let_def extends_spec_iff
    integration_binding_iff snapshot_binding_iff prod.inject by blast

lemma continues_refl [simp]: "continues c c"
  by (simp add: continues_def)

lemma continues_trans: "continues p q \<Longrightarrow> continues q r \<Longrightarrow> continues p r"
  unfolding continues_def using extends_spec_trans by metis

lemma continues_identity: "continues p c \<Longrightarrow> lc_logical_identity p = lc_logical_identity c"
  by (simp add: continues_def binding_of_def)

lemma canonical_contract_identity [simp]:
  "canonical_contract lib c = Inr d \<Longrightarrow> lc_logical_identity d = lc_logical_identity c"
  "canonical_contract lib c = Inr d \<Longrightarrow> lc_product d = lc_product c"
  by (auto simp: canonical_contract_def)

lemma classify_Inr:
  "classify_contract_change lib prior candidate = Inr k \<longleftrightarrow>
    (case prior of None \<Rightarrow> k = Ch_new_product
     | Some p \<Rightarrow> if lc_logical_identity p \<noteq> lc_logical_identity candidate then k = Ch_new_product
         else \<exists>pd cd. canonical_contract lib p = Inr pd \<and> canonical_contract lib candidate = Inr cd
           \<and> k = document_change pd cd)"
  by (auto simp: classify_contract_change_def split: option.splits)

lemma document_change_continues:
  assumes "lc_logical_identity p = lc_logical_identity c"
  shows "document_change p c \<in> {Ch_none, Ch_patch, Ch_minor} \<longleftrightarrow> continues p c"
  using has_major_change_iff [OF assms] by (auto simp: document_change_def)

end
