(* ===== verification/Contract_Registry.thy ===== *)
theory Contract_Registry
  imports Contract_Change Optimistic_Store
begin

text \<open>
  The contract registry of \<open>ergasterion/source_delivery.py\<close>: the pure migration state machine that
  registers a candidate contract, activates it as a carry or stages it as a reset, and confirms the
  baseline of a reset, each under a compare-and-swap of the registry's revision.
\<close>

section \<open>State\<close>

record pending_baseline =
  pb_product_version :: semver
  pb_visibility_epoch :: nat
  pb_visibility_ancestry :: "nat list"
  pb_migration :: migration

record registry_state =
  rg_active_contract_digest :: "digest option"
  rg_active_product_version :: "semver option"
  rg_activation_state :: activation_state
  rg_candidate_contract_digest :: "digest option"
  rg_visibility_epoch :: nat
  rg_visibility_ancestry :: "nat list"
  rg_state_revision :: nat
  rg_pending_baseline :: "pending_baseline option"

definition initial_registry :: registry_state where
  "initial_registry = \<lparr>rg_active_contract_digest = None, rg_active_product_version = None,
     rg_activation_state = Pending_baseline, rg_candidate_contract_digest = None,
     rg_visibility_epoch = 0, rg_visibility_ancestry = [], rg_state_revision = 0,
     rg_pending_baseline = None\<rparr>"

section \<open>Plans\<close>

definition required_migration_kind :: "change_class \<Rightarrow> migration_kind" where
  "required_migration_kind change = (if change \<in> {Ch_none, Ch_patch, Ch_minor} then Carry else Reset)"

record migration_plan =
  pl_change :: change_class
  pl_kind :: migration_kind
  pl_from_contract_digest :: "digest option"
  pl_to_contract_digest :: digest

definition plan_migration ::
    "canonical_lib \<Rightarrow> registry_state \<Rightarrow> landing_product_contract option \<Rightarrow> landing_product_contract
       \<Rightarrow> contract_error + migration_plan" where
  "plan_migration lib s prior candidate =
     bind (classify_contract_change lib prior candidate) (\<lambda>change.
     bind (case prior of None \<Rightarrow> Inr ()
           | Some p \<Rightarrow> validate_semver_bump (pf_product_version (lc_product p))
                         (pf_product_version (lc_product candidate)) change) (\<lambda>_.
     bind (compute_contract_digest lib candidate) (\<lambda>digest.
     Inr \<lparr>pl_change = change, pl_kind = required_migration_kind change,
          pl_from_contract_digest = rg_active_contract_digest s, pl_to_contract_digest = digest\<rparr>)))"

section \<open>Transitions\<close>

definition check_expected :: "registry_state \<Rightarrow> nat \<Rightarrow> contract_error + unit" where
  "check_expected s expected = (if rg_state_revision s = expected then Inr ()
     else Inl (Migration_conflict_error (Concurrent_activation expected (rg_state_revision s))))"

definition register_candidate ::
    "canonical_lib \<Rightarrow> landing_product_contract \<Rightarrow> nat \<Rightarrow> registry_state
       \<Rightarrow> contract_error + registry_state" where
  "register_candidate lib candidate expected s =
     bind (check_expected s expected) (\<lambda>_.
     bind (compute_contract_digest lib candidate) (\<lambda>digest.
       case rg_candidate_contract_digest s of
         Some d \<Rightarrow> if d \<noteq> digest then Inl (Migration_conflict_error (Candidate_in_flight d digest))
                   else Inr (s\<lparr>rg_candidate_contract_digest := Some digest,
                               rg_state_revision := rg_state_revision s + 1\<rparr>)
       | None \<Rightarrow> Inr (s\<lparr>rg_candidate_contract_digest := Some digest,
                         rg_state_revision := rg_state_revision s + 1\<rparr>)))"

definition check_ancestry_capacity :: "canonical_lib \<Rightarrow> nat list \<Rightarrow> nat \<Rightarrow> nat \<Rightarrow> contract_error + unit" where
  "check_ancestry_capacity lib ancestry max_rows max_bytes =
     (if length ancestry > max_rows
      then Inl (Capacity_exceeded_error (Too_many_rows (length ancestry) max_rows))
      else if cj_ancestry_bytes lib ancestry > max_bytes
      then Inl (Capacity_exceeded_error (Too_many_bytes (cj_ancestry_bytes lib ancestry) max_bytes))
      else Inr ())"

definition sealed_migration :: "canonical_lib \<Rightarrow> migration \<Rightarrow> migration" where
  "sealed_migration lib m =
     m\<lparr>mg_migration_id := cj_migration_digest lib (m\<lparr>mg_migration_id := []\<rparr>)\<rparr>"

definition planned_migration ::
    "canonical_lib \<Rightarrow> migration_plan \<Rightarrow> instant option \<Rightarrow> nat \<Rightarrow> nat \<Rightarrow> migration" where
  "planned_migration lib plan at from_epoch to_epoch = sealed_migration lib
     \<lparr>mg_migration_id = [], mg_kind = pl_kind plan,
      mg_from_contract_digest = pl_from_contract_digest plan,
      mg_to_contract_digest = pl_to_contract_digest plan, mg_activated_at = at,
      mg_from_visibility_epoch = from_epoch, mg_to_visibility_epoch = to_epoch\<rparr>"

record activation =
  ac_prior :: "landing_product_contract option"
  ac_candidate :: landing_product_contract
  ac_expected_revision :: nat
  ac_activated_at :: "instant option"
  ac_max_visibility_ancestry_rows :: nat
  ac_max_wire_record_bytes :: nat

text \<open>The tail of \<open>activate_contract\<close> for a carry, which reaches \<open>ACTIVE\<close> in this call.\<close>

definition activate_carry ::
    "canonical_lib \<Rightarrow> activation \<Rightarrow> migration_plan \<Rightarrow> registry_state
       \<Rightarrow> contract_error + (registry_state \<times> migration)" where
  "activate_carry lib a plan s =
     (let to_epoch = rg_visibility_epoch s + 1 in
      if rg_active_contract_digest s = None
      then Inl (Migration_conflict_error Nothing_to_carry_from)
      else if ac_activated_at a = None then Inl Instant_required
      else let ancestry = rg_visibility_ancestry s @ [to_epoch] in
        bind (check_ancestry_capacity lib ancestry (ac_max_visibility_ancestry_rows a)
                (ac_max_wire_record_bytes a)) (\<lambda>_.
        Inr (\<lparr>rg_active_contract_digest = Some (pl_to_contract_digest plan),
              rg_active_product_version = Some (pf_product_version (lc_product (ac_candidate a))),
              rg_activation_state = Active, rg_candidate_contract_digest = None,
              rg_visibility_epoch = to_epoch, rg_visibility_ancestry = ancestry,
              rg_state_revision = rg_state_revision s + 1, rg_pending_baseline = None\<rparr>,
             planned_migration lib plan (ac_activated_at a) (rg_visibility_epoch s) to_epoch)))"

text \<open>The tail for a reset, which only stages the baseline.\<close>

definition activate_reset ::
    "canonical_lib \<Rightarrow> activation \<Rightarrow> migration_plan \<Rightarrow> registry_state
       \<Rightarrow> contract_error + (registry_state \<times> migration)" where
  "activate_reset lib a plan s =
     (let to_epoch = rg_visibility_epoch s + 1 in
      if ac_activated_at a \<noteq> None then Inl Instant_refused
      else let pending = planned_migration lib plan None (rg_visibility_epoch s) to_epoch in
        Inr (s\<lparr>rg_activation_state := Pending_baseline,
               rg_state_revision := rg_state_revision s + 1,
               rg_pending_baseline := Some
                 \<lparr>pb_product_version = pf_product_version (lc_product (ac_candidate a)),
                  pb_visibility_epoch = to_epoch, pb_visibility_ancestry = [to_epoch],
                  pb_migration = pending\<rparr>\<rparr>, pending))"

definition activate_contract ::
    "canonical_lib \<Rightarrow> activation \<Rightarrow> registry_state \<Rightarrow> contract_error + (registry_state \<times> migration)" where
  "activate_contract lib a s =
     bind (check_expected s (ac_expected_revision a)) (\<lambda>_.
     bind (case ac_prior a of None \<Rightarrow> Inr None
           | Some p \<Rightarrow> bind (compute_contract_digest lib p) (\<lambda>d. Inr (Some d))) (\<lambda>prior_digest.
     if prior_digest \<noteq> rg_active_contract_digest s
     then Inl (Migration_conflict_error (Stale_prior_contract prior_digest (rg_active_contract_digest s)))
     else bind (plan_migration lib s (ac_prior a) (ac_candidate a)) (\<lambda>plan.
       if rg_candidate_contract_digest s \<noteq> Some (pl_to_contract_digest plan)
       then Inl (Migration_conflict_error (Unregistered_candidate (pl_to_contract_digest plan)
              (rg_candidate_contract_digest s)))
       else if pl_kind plan = Carry then activate_carry lib a plan s
       else activate_reset lib a plan s)))"

text \<open>\<open>confirm_baseline_activation\<close>; an \<open>activated_at\<close> of \<open>None\<close> is refused.\<close>

definition confirm_baseline_activation ::
    "canonical_lib \<Rightarrow> nat \<Rightarrow> instant option \<Rightarrow> registry_state
       \<Rightarrow> contract_error + (registry_state \<times> migration)" where
  "confirm_baseline_activation lib expected at s =
     bind (check_expected s expected) (\<lambda>_.
     case (rg_activation_state s, rg_pending_baseline s) of
       (Pending_baseline, Some pending) \<Rightarrow>
         (if at = None then Inl Instant_required
          else let m = pb_migration pending;
                   confirmed = sealed_migration lib (m\<lparr>mg_activated_at := at\<rparr>)
            in Inr (\<lparr>rg_active_contract_digest = Some (mg_to_contract_digest m),
                     rg_active_product_version = Some (pb_product_version pending),
                     rg_activation_state = Active, rg_candidate_contract_digest = None,
                     rg_visibility_epoch = pb_visibility_epoch pending,
                     rg_visibility_ancestry = pb_visibility_ancestry pending,
                     rg_state_revision = rg_state_revision s + 1, rg_pending_baseline = None\<rparr>,
                    confirmed))
     | _ \<Rightarrow> Inl (Migration_conflict_error No_pending_baseline))"

section \<open>The registry as a step relation\<close>

datatype registry_op =
    Register_op landing_product_contract nat
  | Activate_op activation
  | Confirm_op nat "instant option"

fun registry_expected :: "registry_op \<Rightarrow> nat" where
  "registry_expected (Register_op c n) = n"
| "registry_expected (Activate_op a) = ac_expected_revision a"
| "registry_expected (Confirm_op n at) = n"

definition registry_apply ::
    "canonical_lib \<Rightarrow> registry_op \<Rightarrow> registry_state \<Rightarrow> contract_error + (registry_state \<times> migration option)"
  where
  "registry_apply lib q s =
     (case q of
        Register_op c n \<Rightarrow> bind (register_candidate lib c n s) (\<lambda>s'. Inr (s', None))
      | Activate_op a \<Rightarrow> bind (activate_contract lib a s) (\<lambda>(s', m). Inr (s', Some m))
      | Confirm_op n at \<Rightarrow> bind (confirm_baseline_activation lib n at s) (\<lambda>(s', m). Inr (s', Some m)))"

text \<open>
  A run of the registry over contracts whose canonical documents are in \<open>D\<close>, with the documents it has
  activated so far: the one each visibility epoch was opened with, newest first, and the one a staged
  baseline will open the next epoch with.
\<close>

definition activation_documents ::
    "canonical_lib \<Rightarrow> activation \<Rightarrow> (landing_product_contract option \<times> landing_product_contract) option" where
  "activation_documents lib a =
     (case (case ac_prior a of None \<Rightarrow> Inr None
            | Some p \<Rightarrow> bind (canonical_contract lib p) (\<lambda>d. Inr (Some d)),
            canonical_contract lib (ac_candidate a)) of
        (Inr p, Inr c) \<Rightarrow> Some (p, c)
      | _ \<Rightarrow> None)"

inductive registry_run ::
    "canonical_lib \<Rightarrow> landing_product_contract set \<Rightarrow> registry_state
       \<Rightarrow> (nat \<times> landing_product_contract) list \<Rightarrow> landing_product_contract option \<Rightarrow> bool" for lib D where
  start: "registry_run lib D initial_registry [] None"
| register: "registry_run lib D s log staged \<Longrightarrow> register_candidate lib c n s = Inr s' \<Longrightarrow>
    registry_run lib D s' log staged"
| activate: "registry_run lib D s log staged \<Longrightarrow> activate_contract lib a s = Inr (s', m) \<Longrightarrow>
    activation_documents lib a = Some (p, c) \<Longrightarrow> set_option p \<subseteq> D \<Longrightarrow> c \<in> D \<Longrightarrow>
    registry_run lib D s' (if mg_kind m = Carry then (rg_visibility_epoch s', c) # log else log)
      (if mg_kind m = Carry then None else Some c)"
| confirm: "registry_run lib D s log staged \<Longrightarrow> confirm_baseline_activation lib n at s = Inr (s', m) \<Longrightarrow>
    registry_run lib D s'
      (case staged of None \<Rightarrow> log | Some c \<Rightarrow> (rg_visibility_epoch s', c) # log) None"

section \<open>Facts of the transitions\<close>

lemma check_expected_Inr [simp]: "check_expected s n = Inr u \<longleftrightarrow> rg_state_revision s = n"
  by (simp add: check_expected_def)

lemma register_candidate_Inr:
  "register_candidate lib c n s = Inr s' \<longleftrightarrow>
    (\<exists>d. rg_state_revision s = n \<and> compute_contract_digest lib c = Inr d
      \<and> rg_candidate_contract_digest s \<in> {None, Some d}
      \<and> s' = s\<lparr>rg_candidate_contract_digest := Some d, rg_state_revision := rg_state_revision s + 1\<rparr>)"
  by (cases "rg_candidate_contract_digest s") (auto simp: register_candidate_def)

lemma compute_contract_digest_Inr [simp]:
  "compute_contract_digest lib c = Inr d \<longleftrightarrow>
    (\<exists>doc. canonical_contract lib c = Inr doc \<and> d = cj_contract_digest lib doc)"
  by (auto simp: compute_contract_digest_def)

text \<open>What a successful activation read, and what it did.\<close>

lemma activate_contract_Inr:
  assumes "activate_contract lib a s = Inr (s', m)" and "activation_documents lib a = Some (p, c)"
  shows "rg_state_revision s = ac_expected_revision a
    \<and> rg_active_contract_digest s = map_option (cj_contract_digest lib) p
    \<and> rg_candidate_contract_digest s = Some (cj_contract_digest lib c)
    \<and> (\<exists>plan. plan_migration lib s (ac_prior a) (ac_candidate a) = Inr plan
      \<and> pl_to_contract_digest plan = cj_contract_digest lib c
      \<and> (if pl_kind plan = Carry then activate_carry lib a plan s = Inr (s', m)
         else activate_reset lib a plan s = Inr (s', m)))"
proof -
  from assms(2) have c: "canonical_contract lib (ac_candidate a) = Inr c"
    by (auto simp: activation_documents_def split: sum.splits)
  from assms(2) have p: "(case ac_prior a of None \<Rightarrow> Inr None
      | Some q \<Rightarrow> bind (canonical_contract lib q) (\<lambda>d. Inr (Some d))) = Inr p"
    by (simp add: activation_documents_def split: sum.splits)
  then have pd: "(case ac_prior a of None \<Rightarrow> Inr None
      | Some q \<Rightarrow> bind (compute_contract_digest lib q) (\<lambda>d. Inr (Some d)))
      = Inr (map_option (cj_contract_digest lib) p)"
    by (cases "ac_prior a") (auto simp: compute_contract_digest_def)
  from assms(1) obtain plan where plan: "plan_migration lib s (ac_prior a) (ac_candidate a) = Inr plan"
    and rest: "rg_state_revision s = ac_expected_revision a"
      "rg_active_contract_digest s = map_option (cj_contract_digest lib) p"
      "rg_candidate_contract_digest s = Some (pl_to_contract_digest plan)"
      "(if pl_kind plan = Carry then activate_carry lib a plan s else activate_reset lib a plan s)
        = Inr (s', m)"
    unfolding activate_contract_def pd by (simp split: if_splits)
  from plan c have "pl_to_contract_digest plan = cj_contract_digest lib c"
    by (auto simp: plan_migration_def)
  with plan rest show ?thesis by (simp split: if_splits)
qed

lemma plan_migration_Inr:
  assumes "plan_migration lib s (ac_prior a) (ac_candidate a) = Inr plan"
    and "activation_documents lib a = Some (p, c)"
  shows "pl_kind plan = required_migration_kind (pl_change plan)
    \<and> pl_from_contract_digest plan = rg_active_contract_digest s
    \<and> (pl_kind plan = Carry \<longrightarrow> (\<exists>d. p = Some d \<and> continues d c))"
proof -
  from assms(1) obtain change where
    change: "classify_contract_change lib (ac_prior a) (ac_candidate a) = Inr change"
    and plan: "pl_change plan = change" "pl_kind plan = required_migration_kind change"
      "pl_from_contract_digest plan = rg_active_contract_digest s"
    by (auto simp: plan_migration_def)
  have "\<exists>d. p = Some d \<and> continues d c" if "pl_kind plan = Carry"
  proof -
    have small: "change \<in> {Ch_none, Ch_patch, Ch_minor}"
      using that plan(2) by (auto simp: required_migration_kind_def split: if_splits)
    with change obtain q where q: "ac_prior a = Some q"
      "lc_logical_identity q = lc_logical_identity (ac_candidate a)"
      by (auto simp: classify_Inr split: option.splits if_splits)
    with change obtain qd cd where docs: "canonical_contract lib q = Inr qd"
      "canonical_contract lib (ac_candidate a) = Inr cd" "change = document_change qd cd"
      by (auto simp: classify_Inr)
    then have "p = Some qd" "c = cd" using assms(2) q(1) by (simp_all add: activation_documents_def)
    moreover have "continues qd cd"
      using document_change_continues [of qd cd] small docs q(2) by simp
    ultimately show ?thesis by simp
  qed
  with plan show ?thesis by simp
qed

lemma sealed_migration_sel [simp]:
  "mg_kind (sealed_migration lib m) = mg_kind m"
  "mg_to_contract_digest (sealed_migration lib m) = mg_to_contract_digest m"
  "mg_from_contract_digest (sealed_migration lib m) = mg_from_contract_digest m"
  "mg_activated_at (sealed_migration lib m) = mg_activated_at m"
  "mg_from_visibility_epoch (sealed_migration lib m) = mg_from_visibility_epoch m"
  "mg_to_visibility_epoch (sealed_migration lib m) = mg_to_visibility_epoch m"
  by (simp_all add: sealed_migration_def)

text \<open>What each transition does to the state, on success.\<close>

lemma activate_carry_Inr:
  "activate_carry lib a plan s = Inr (s', m) \<longleftrightarrow>
    rg_active_contract_digest s \<noteq> None \<and> ac_activated_at a \<noteq> None
    \<and> check_ancestry_capacity lib (rg_visibility_ancestry s @ [rg_visibility_epoch s + 1])
        (ac_max_visibility_ancestry_rows a) (ac_max_wire_record_bytes a) = Inr ()
    \<and> s' = \<lparr>rg_active_contract_digest = Some (pl_to_contract_digest plan),
        rg_active_product_version = Some (pf_product_version (lc_product (ac_candidate a))),
        rg_activation_state = Active, rg_candidate_contract_digest = None,
        rg_visibility_epoch = rg_visibility_epoch s + 1,
        rg_visibility_ancestry = rg_visibility_ancestry s @ [rg_visibility_epoch s + 1],
        rg_state_revision = rg_state_revision s + 1, rg_pending_baseline = None\<rparr>
    \<and> m = planned_migration lib plan (ac_activated_at a) (rg_visibility_epoch s) (rg_visibility_epoch s + 1)"
  by (simp add: activate_carry_def Let_def) blast

lemma activate_reset_Inr:
  "activate_reset lib a plan s = Inr (s', m) \<longleftrightarrow>
    ac_activated_at a = None
    \<and> m = planned_migration lib plan None (rg_visibility_epoch s) (rg_visibility_epoch s + 1)
    \<and> s' = s\<lparr>rg_activation_state := Pending_baseline, rg_state_revision := rg_state_revision s + 1,
        rg_pending_baseline := Some
          \<lparr>pb_product_version = pf_product_version (lc_product (ac_candidate a)),
           pb_visibility_epoch = rg_visibility_epoch s + 1,
           pb_visibility_ancestry = [rg_visibility_epoch s + 1], pb_migration = m\<rparr>\<rparr>"
  by (simp add: activate_reset_def Let_def) blast

lemma confirm_baseline_Inr:
  "confirm_baseline_activation lib n at s = Inr (s', m) \<longleftrightarrow>
    (\<exists>pending. rg_state_revision s = n \<and> rg_activation_state s = Pending_baseline
      \<and> rg_pending_baseline s = Some pending \<and> at \<noteq> None
      \<and> m = sealed_migration lib (pb_migration pending\<lparr>mg_activated_at := at\<rparr>)
      \<and> s' = \<lparr>rg_active_contract_digest = Some (mg_to_contract_digest (pb_migration pending)),
          rg_active_product_version = Some (pb_product_version pending),
          rg_activation_state = Active, rg_candidate_contract_digest = None,
          rg_visibility_epoch = pb_visibility_epoch pending,
          rg_visibility_ancestry = pb_visibility_ancestry pending,
          rg_state_revision = rg_state_revision s + 1, rg_pending_baseline = None\<rparr>)"
  by (auto simp: confirm_baseline_activation_def Let_def split: activation_state.splits option.splits)

lemma planned_migration_sel [simp]:
  "mg_kind (planned_migration lib plan at f t) = pl_kind plan"
  "mg_to_contract_digest (planned_migration lib plan at f t) = pl_to_contract_digest plan"
  "mg_from_contract_digest (planned_migration lib plan at f t) = pl_from_contract_digest plan"
  "mg_activated_at (planned_migration lib plan at f t) = at"
  "mg_from_visibility_epoch (planned_migration lib plan at f t) = f"
  "mg_to_visibility_epoch (planned_migration lib plan at f t) = t"
  by (simp_all add: planned_migration_def)

lemma plan_kind_Carry_or_Reset: "k = Carry \<or> k = Reset"
  by (cases k) simp_all

section \<open>What every run keeps\<close>

text \<open>
  The epochs are numbered as they open; the ancestry is an unbroken range of them that ends at the
  current one; the active digest and version are those of the contract the current epoch opened with;
  a baseline is pending exactly when a contract is staged, and it is the registered candidate, bound to
  the next epoch; and the registry is \<open>ACTIVE\<close> exactly when a contract is active and none is staged.
\<close>

definition pending_matches ::
    "canonical_lib \<Rightarrow> registry_state \<Rightarrow> pending_baseline option \<Rightarrow> landing_product_contract option \<Rightarrow> bool"
  where
  "pending_matches lib s pending staged =
     (case (pending, staged) of
        (None, None) \<Rightarrow> True
      | (Some pb, Some c) \<Rightarrow>
          rg_candidate_contract_digest s = Some (cj_contract_digest lib c)
          \<and> pb_product_version pb = pf_product_version (lc_product c)
          \<and> pb_visibility_epoch pb = rg_visibility_epoch s + 1
          \<and> pb_visibility_ancestry pb = [rg_visibility_epoch s + 1]
          \<and> mg_kind (pb_migration pb) = Reset
          \<and> mg_from_contract_digest (pb_migration pb) = rg_active_contract_digest s
          \<and> mg_to_contract_digest (pb_migration pb) = cj_contract_digest lib c
          \<and> mg_activated_at (pb_migration pb) = None
          \<and> mg_from_visibility_epoch (pb_migration pb) = rg_visibility_epoch s
          \<and> mg_to_visibility_epoch (pb_migration pb) = rg_visibility_epoch s + 1
      | _ \<Rightarrow> False)"

definition active_contract :: "(nat \<times> landing_product_contract) list \<Rightarrow> landing_product_contract option" where
  "active_contract log = (case log of [] \<Rightarrow> None | (e, c) # _ \<Rightarrow> Some c)"

definition unbroken :: "nat list \<Rightarrow> nat \<Rightarrow> bool" where
  "unbroken ancestry epoch = (if epoch = 0 then ancestry = []
     else ancestry \<noteq> [] \<and> 1 \<le> hd ancestry \<and> ancestry = [hd ancestry..<Suc epoch])"

definition registry_inv ::
    "canonical_lib \<Rightarrow> registry_state \<Rightarrow> (nat \<times> landing_product_contract) list
       \<Rightarrow> landing_product_contract option \<Rightarrow> bool" where
  "registry_inv lib s log staged \<longleftrightarrow>
     map fst log = rev [1..<Suc (rg_visibility_epoch s)]
     \<and> unbroken (rg_visibility_ancestry s) (rg_visibility_epoch s)
     \<and> rg_active_contract_digest s = map_option (cj_contract_digest lib) (active_contract log)
     \<and> rg_active_product_version s = map_option (pf_product_version \<circ> lc_product) (active_contract log)
     \<and> (rg_activation_state s = Active \<longleftrightarrow> log \<noteq> [] \<and> staged = None)
     \<and> pending_matches lib s (rg_pending_baseline s) staged"

lemma unbroken_snoc: "unbroken anc e \<Longrightarrow> e \<noteq> 0 \<Longrightarrow> unbroken (anc @ [Suc e]) (Suc e)"
  unfolding unbroken_def by (metis (no_types, lifting) Suc_neq_Zero append_is_Nil_conv hd_append2
      le_SucI length_upt less_Suc_eq_le not_less upt_Suc zero_diff length_0_conv diff_is_0_eq upt_conv_Nil)

lemma unbroken_root: "unbroken [Suc e] (Suc e)"
  by (simp add: unbroken_def)

lemma registry_inv_start: "registry_inv lib initial_registry [] None"
  by (simp add: registry_inv_def initial_registry_def unbroken_def active_contract_def pending_matches_def)


lemma active_contract_Cons [simp]: "active_contract ((e, c) # log) = Some c"
  by (simp add: active_contract_def)

lemma activation_candidate_version:
  "activation_documents lib a = Some (p, c) \<Longrightarrow>
    pf_product_version (lc_product (ac_candidate a)) = pf_product_version (lc_product c)"
  by (auto simp: activation_documents_def split: sum.splits)

lemma registry_inv_carry:
  assumes "registry_inv lib s log staged" and "activate_carry lib a plan s = Inr (s', m)"
    and "pl_to_contract_digest plan = cj_contract_digest lib c"
    and "pf_product_version (lc_product (ac_candidate a)) = pf_product_version (lc_product c)"
  shows "registry_inv lib s' ((rg_visibility_epoch s', c) # log) None"
proof -
  have "rg_visibility_epoch s \<noteq> 0"
  proof
    assume "rg_visibility_epoch s = 0"
    with assms(1) have "log = []" by (simp add: registry_inv_def)
    with assms(1,2) show False by (simp add: registry_inv_def active_contract_def activate_carry_Inr)
  qed
  with assms unbroken_snoc [of "rg_visibility_ancestry s" "rg_visibility_epoch s"] show ?thesis
    by (simp add: registry_inv_def activate_carry_Inr pending_matches_def)
qed

lemma registry_inv_reset:
  assumes "registry_inv lib s log staged" and "activate_reset lib a plan s = Inr (s', m)"
    and "pl_to_contract_digest plan = cj_contract_digest lib c" and "pl_kind plan = Reset"
    and "pl_from_contract_digest plan = rg_active_contract_digest s"
    and "pf_product_version (lc_product (ac_candidate a)) = pf_product_version (lc_product c)"
    and "rg_candidate_contract_digest s = Some (cj_contract_digest lib c)"
  shows "registry_inv lib s' log (Some c)"
  using assms by (simp add: registry_inv_def activate_reset_Inr pending_matches_def)

lemma registry_inv_confirm:
  assumes "registry_inv lib s log staged" and "confirm_baseline_activation lib n at s = Inr (s', m)"
  shows "\<exists>c. staged = Some c \<and> registry_inv lib s' ((rg_visibility_epoch s', c) # log) None"
proof -
  from assms(2) obtain pb where pb: "rg_pending_baseline s = Some pb" by (auto simp: confirm_baseline_Inr)
  with assms(1) obtain c where c: "staged = Some c"
    by (cases staged) (auto simp: registry_inv_def pending_matches_def)
  with assms pb show ?thesis
    by (simp add: registry_inv_def confirm_baseline_Inr pending_matches_def unbroken_root)
qed

text \<open>The case of an activation, with what decides it.\<close>

lemma activate_contract_cases:
  assumes "activate_contract lib a s = Inr (s', m)" and "activation_documents lib a = Some (p, c)"
  obtains (carry) plan d where "mg_kind m = Carry" "p = Some d" "continues d c"
      "activate_carry lib a plan s = Inr (s', m)" "pl_to_contract_digest plan = cj_contract_digest lib c"
      "rg_active_contract_digest s = Some (cj_contract_digest lib d)"
  | (reset) plan where "mg_kind m = Reset" "pl_kind plan = Reset"
      "activate_reset lib a plan s = Inr (s', m)" "pl_to_contract_digest plan = cj_contract_digest lib c"
      "pl_from_contract_digest plan = rg_active_contract_digest s"
      "rg_candidate_contract_digest s = Some (cj_contract_digest lib c)"
proof -
  from activate_contract_Inr [OF assms] obtain plan where
    act: "rg_active_contract_digest s = map_option (cj_contract_digest lib) p"
      "rg_candidate_contract_digest s = Some (cj_contract_digest lib c)"
    and plan: "plan_migration lib s (ac_prior a) (ac_candidate a) = Inr plan"
      "pl_to_contract_digest plan = cj_contract_digest lib c"
    and step: "if pl_kind plan = Carry then activate_carry lib a plan s = Inr (s', m)
         else activate_reset lib a plan s = Inr (s', m)" by blast
  note pm = plan_migration_Inr [OF plan(1) assms(2)]
  show thesis
  proof (cases "pl_kind plan")
    case Carry
    with pm obtain d where d: "p = Some d" "continues d c" by blast
    have "activate_carry lib a plan s = Inr (s', m)" using step Carry by simp
    moreover from this Carry have "mg_kind m = Carry" by (simp add: activate_carry_Inr)
    ultimately show ?thesis using carry [of d plan] d plan(2) act(1) by simp
  next
    case Reset
    then have "activate_reset lib a plan s = Inr (s', m)" using step by simp
    moreover from this Reset have "mg_kind m = Reset" by (simp add: activate_reset_Inr)
    ultimately show ?thesis using reset [of plan] Reset plan(2) act(2) pm by simp
  qed
qed

lemma registry_run_inv: "registry_run lib D s log staged \<Longrightarrow> registry_inv lib s log staged"
proof (induction rule: registry_run.induct)
  case start
  show ?case by (rule registry_inv_start)
next
  case (register s log staged c n s')
  then show ?case
    by (cases staged; cases "rg_pending_baseline s")
       (auto simp: registry_inv_def register_candidate_Inr pending_matches_def)
next
  case (activate s log staged a s' m p c)
  note version = activation_candidate_version [OF activate.hyps(3)]
  from activate.hyps(2,3) show ?case
  proof (cases rule: activate_contract_cases)
    case (carry plan d)
    from registry_inv_carry [OF activate.IH carry(4,5) version] carry(1) show ?thesis by simp
  next
    case (reset plan)
    from registry_inv_reset [OF activate.IH reset(3,4,2,5) version reset(6)] reset(1)
    show ?thesis by simp
  qed
next
  case (confirm s log staged n at s' m)
  from registry_inv_confirm [OF confirm.IH confirm.hyps(2)] show ?case by auto
qed

text \<open>The documents a run has activated are those it was given.\<close>

lemma registry_run_documents:
  "registry_run lib D s log staged \<Longrightarrow> snd ` set log \<subseteq> D \<and> set_option staged \<subseteq> D"
  by (induction rule: registry_run.induct) (auto split: option.splits)

text \<open>Every epoch of the ancestry opened with a contract that every later one of it continues.\<close>

definition readable_series :: "nat list \<Rightarrow> (nat \<times> landing_product_contract) list \<Rightarrow> bool" where
  "readable_series ancestry log \<longleftrightarrow> (\<forall>(e, d) \<in> set log. \<forall>(e', d') \<in> set log.
     e \<in> set ancestry \<longrightarrow> e' \<in> set ancestry \<longrightarrow> e \<le> e' \<longrightarrow> continues d d')"

lemma readable_seriesD:
  "readable_series anc log \<Longrightarrow> (e, d) \<in> set log \<Longrightarrow> (e', d') \<in> set log
    \<Longrightarrow> e \<in> set anc \<Longrightarrow> e' \<in> set anc \<Longrightarrow> e \<le> e' \<Longrightarrow> continues d d'"
  unfolding readable_series_def by blast

lemma readable_series_root:
  assumes "map fst log = rev [1..<Suc e]"
  shows "readable_series [Suc e] ((Suc e, c) # log)"
proof -
  have "e' < Suc e" if "(e', d) \<in> set log" for e' d
  proof -
    have "e' \<in> set (map fst log)" using that by force
    then show ?thesis by (simp add: assms del: upt_Suc set_map)
  qed
  then show ?thesis by (fastforce simp: readable_series_def)
qed

lemma readable_series_carry:
  assumes "readable_series anc log" and "map fst log = rev [1..<Suc e]" and "e \<noteq> 0"
    and "e \<in> set anc" and "\<forall>x \<in> set anc. x \<le> e"
    and "active_contract log = Some d" and "continues d c"
  shows "readable_series (anc @ [Suc e]) ((Suc e, c) # log)"
proof -
  obtain e0 rest where log: "log = (e0, d) # rest"
    using assms(6) by (auto simp: active_contract_def split: list.splits)
  have e0: "e0 = e" using assms(2,3) log by (cases e) auto
  have below: "e' \<le> e" if "(e', x) \<in> set log" for e' x
  proof -
    have "e' \<in> set (map fst log)" using that by force
    then show ?thesis by (simp add: assms(2) del: upt_Suc set_map)
  qed
  have old: "continues x c" if "(e', x) \<in> set log" "e' \<in> set anc" for e' x
  proof -
    have "continues x d"
      by (rule readable_seriesD [OF assms(1) that(1) _ that(2)]) (use log e0 assms(4) below that in auto)
    then show ?thesis using assms(7) by (rule continues_trans)
  qed
  show ?thesis
    unfolding readable_series_def
  proof (clarify)
    fix x y x' y'
    assume mem: "(x, y) \<in> set ((Suc e, c) # log)" "(x', y') \<in> set ((Suc e, c) # log)"
      and anc: "x \<in> set (anc @ [Suc e])" "x' \<in> set (anc @ [Suc e])" and le: "x \<le> x'"
    show "continues y y'"
    proof (cases "(x', y') = (Suc e, c)")
      case True
      show ?thesis
      proof (cases "(x, y) \<in> set log")
        case in_log: True
        then have "x \<in> set anc" using anc(1) below [OF in_log] by auto
        from old [OF in_log this] True show ?thesis by simp
      next
        case False
        with mem(1) True show ?thesis by simp
      qed
    next
      case False
      with mem(2) have in': "(x', y') \<in> set log" by auto
      with below have "x' \<le> e" by blast
      with le have x: "x \<le> e" "x \<in> set anc" "x' \<in> set anc" using anc by auto
      with mem(1) have "(x, y) \<in> set log" by auto
      from readable_seriesD [OF assms(1) this in' x(2,3) le] show ?thesis .
    qed
  qed
qed

section \<open>Versions along a run\<close>

text \<open>A version does not go back, and only an unchanged document may keep it.\<close>

definition version_follows :: "landing_product_contract \<Rightarrow> landing_product_contract \<Rightarrow> bool" where
  "version_follows p c \<longleftrightarrow> p = c \<or>
     (\<exists>v w. semver_core (pf_product_version (lc_product p)) = Inr v
       \<and> semver_core (pf_product_version (lc_product c)) = Inr w \<and> v < w)"

lemma version_follows_trans: "version_follows p q \<Longrightarrow> version_follows q r \<Longrightarrow> version_follows p r"
  unfolding version_follows_def by (metis sum.inject(2) less_trans)

text \<open>What the numbers of two versions satisfy when a bump of the given class is accepted.\<close>

fun bump_allowed :: "change_class \<Rightarrow> nat \<times> nat \<times> nat \<Rightarrow> nat \<times> nat \<times> nat \<Rightarrow> bool" where
  "bump_allowed Ch_none p c = True"
| "bump_allowed Ch_patch p c = (p < c)"
| "bump_allowed Ch_new_product p c = (p < c)"
| "bump_allowed Ch_minor (x, y, z) (x', y', z') = (x < x' \<or> x = x' \<and> y < y')"
| "bump_allowed Ch_major (x, y, z) (x', y', z') = (x < x')"

lemma validate_bump_iff:
  "validate_semver_bump p c k = Inr () \<longleftrightarrow>
    k = Ch_none \<or> (\<exists>v w. semver_core p = Inr v \<and> semver_core c = Inr w \<and> bump_allowed k v w)"
proof (cases "k = Ch_none")
  case False
  have "(if w \<le> v then Inl (Version_error Not_increased p c)
      else if k = Ch_major \<and> fst w \<le> fst v then Inl (Version_error Needs_major_bump p c)
      else if k = Ch_minor \<and> (fst w, fst (snd w)) \<le> (fst v, fst (snd v))
        then Inl (Version_error Needs_minor_bump p c)
      else Inr ()) = Inr () \<longleftrightarrow> bump_allowed k v w" for v w
    using False by (cases v; cases w; cases k) auto
  with False show ?thesis by (auto simp: validate_semver_bump_def)
qed (simp add: validate_semver_bump_def)

lemma bump_allowed_increases: "k \<noteq> Ch_none \<Longrightarrow> bump_allowed k v w \<Longrightarrow> v < w"
  by (cases k; cases v; cases w) auto

lemma plan_migration_version:
  assumes "plan_migration lib s (ac_prior a) (ac_candidate a) = Inr plan"
    and "activation_documents lib a = Some (Some d, c)"
  shows "version_follows d c"
proof -
  from assms(2) obtain q where q: "ac_prior a = Some q" "canonical_contract lib q = Inr d"
    "canonical_contract lib (ac_candidate a) = Inr c"
    by (auto simp: activation_documents_def split: option.splits sum.splits)
  have version: "lc_product d = lc_product q" "lc_product c = lc_product (ac_candidate a)"
    using q(2,3) by simp_all
  from assms(1) q obtain k where k: "classify_contract_change lib (Some q) (ac_candidate a) = Inr k"
    "validate_semver_bump (pf_product_version (lc_product q))
       (pf_product_version (lc_product (ac_candidate a))) k = Inr ()"
    by (auto simp: plan_migration_def)
  show ?thesis
  proof (cases "k = Ch_none")
    case True
    with k(1) have "document_change d c = Ch_none"
      using q by (auto simp: classify_Inr split: if_splits)
    then show ?thesis by (auto simp: version_follows_def document_change_def split: if_splits)
  next
    case False
    with k(2) version show ?thesis
      using bump_allowed_increases [OF False] by (auto simp: validate_bump_iff version_follows_def)
  qed
qed

text \<open>The versions of a log, newest first, and the version a staged contract will take.\<close>

definition versions_ordered ::
    "(nat \<times> landing_product_contract) list \<Rightarrow> landing_product_contract option \<Rightarrow> bool" where
  "versions_ordered log staged \<longleftrightarrow> sorted_wrt (\<lambda>c p. version_follows p c) (map snd log)
     \<and> (case (active_contract log, staged) of (Some p, Some c) \<Rightarrow> version_follows p c | _ \<Rightarrow> True)"

lemma versions_ordered_Cons:
  assumes "versions_ordered log staged" and "\<And>p. active_contract log = Some p \<Longrightarrow> version_follows p c"
  shows "versions_ordered ((e, c) # log) None"
proof (cases log)
  case Nil
  then show ?thesis by (simp add: versions_ordered_def active_contract_def)
next
  case (Cons x rest)
  obtain e0 p where x: "x = (e0, p)" by (cases x)
  have p: "version_follows p c" using assms(2) Cons x by simp
  have "version_follows q c" if "q \<in> snd ` set rest" for q
  proof (rule version_follows_trans [OF _ p])
    show "version_follows q p" using assms(1) that Cons x by (auto simp: versions_ordered_def)
  qed
  with assms(1) p Cons x show ?thesis by (auto simp: versions_ordered_def active_contract_def)
qed

section \<open>The history of a run\<close>

text \<open>
  With digests that tell the documents of the run apart, the contract an activation says it follows is
  the one the current epoch opened with.
\<close>

lemma activation_prior_document:
  assumes "registry_inv lib s log staged" and "inj_on (cj_contract_digest lib) D"
    and "snd ` set log \<subseteq> D" and "set_option p \<subseteq> D"
    and "rg_active_contract_digest s = map_option (cj_contract_digest lib) p"
  shows "active_contract log = p"
proof -
  have eq: "map_option (cj_contract_digest lib) (active_contract log) = map_option (cj_contract_digest lib) p"
    using assms(1,5) by (simp add: registry_inv_def)
  show ?thesis
  proof (cases log)
    case Nil
    with eq show ?thesis by (cases p) (simp_all add: active_contract_def)
  next
    case (Cons x rest)
    with eq assms(2-4) show ?thesis
      by (cases x; cases p) (auto simp: active_contract_def inj_on_eq_iff)
  qed
qed

lemma unbroken_bounds:
  assumes "unbroken anc e" and "e \<noteq> 0"
  shows "e \<in> set anc" and "\<forall>x \<in> set anc. x \<le> e"
proof -
  have "anc = [hd anc..<Suc e]" and "anc \<noteq> []" using assms by (simp_all add: unbroken_def)
  then have "set anc = {hd anc..<Suc e}" "hd anc < Suc e"
    by (metis set_upt, metis upt_eq_Nil_conv not_less zero_less_Suc linorder_not_less)
  then show "e \<in> set anc" and "\<forall>x \<in> set anc. x \<le> e" by auto
qed

lemma registry_run_history:
  assumes "registry_run lib D s log staged" and "inj_on (cj_contract_digest lib) D"
  shows "readable_series (rg_visibility_ancestry s) log \<and> versions_ordered log staged"
  using assms(1)
proof (induction rule: registry_run.induct)
  case start
  show ?case by (simp add: readable_series_def versions_ordered_def active_contract_def)
next
  case (register s log staged c n s')
  then show ?case by (auto simp: register_candidate_Inr)
next
  case (activate s log staged a s' m p c)
  note inv = registry_run_inv [OF activate.hyps(1)]
  have docs: "snd ` set log \<subseteq> D" using registry_run_documents [OF activate.hyps(1)] by simp
  from activate_contract_Inr [OF activate.hyps(2,3)] obtain plan where
    plan: "plan_migration lib s (ac_prior a) (ac_candidate a) = Inr plan"
    and act: "rg_active_contract_digest s = map_option (cj_contract_digest lib) p" by blast
  have prior: "active_contract log = p"
    by (rule activation_prior_document [OF inv assms(2) docs activate.hyps(4) act])
  have follows: "version_follows d c" if "active_contract log = Some d" for d
    using plan_migration_version [OF plan] activate.hyps(3) prior that by simp
  from activate.hyps(2,3) show ?case
  proof (cases rule: activate_contract_cases)
    case (carry plan d)
    have epochs: "map fst log = rev [1..<Suc (rg_visibility_epoch s)]"
      and unb: "unbroken (rg_visibility_ancestry s) (rg_visibility_epoch s)"
      using inv by (simp_all add: registry_inv_def)
    have pos: "rg_visibility_epoch s \<noteq> 0"
      using epochs prior carry(2) by (cases log) (auto simp: active_contract_def split: if_splits)
    have "readable_series (rg_visibility_ancestry s @ [Suc (rg_visibility_epoch s)])
        ((Suc (rg_visibility_epoch s), c) # log)"
      by (rule readable_series_carry [OF conjunct1 [OF activate.IH] epochs pos
            unbroken_bounds [OF unb pos] _ carry(3)]) (use prior carry(2) in simp)
    moreover have "versions_ordered ((rg_visibility_epoch s', c) # log) None"
      by (rule versions_ordered_Cons [OF conjunct2 [OF activate.IH] follows])
    ultimately show ?thesis using carry(1,4) by (simp add: activate_carry_Inr)
  next
    case (reset plan)
    with activate.IH follows show ?thesis
      by (simp add: activate_reset_Inr versions_ordered_def split: option.splits)
  qed
next
  case (confirm s log staged n at s' m)
  note inv = registry_run_inv [OF confirm.hyps(1)]
  from registry_inv_confirm [OF inv confirm.hyps(2)] obtain c where c: "staged = Some c" by blast
  have epochs: "map fst log = rev [1..<Suc (rg_visibility_epoch s)]"
    using inv by (simp add: registry_inv_def)
  have new: "rg_visibility_epoch s' = Suc (rg_visibility_epoch s)"
    "rg_visibility_ancestry s' = [Suc (rg_visibility_epoch s)]"
    using confirm.hyps(2) inv c by (auto simp: confirm_baseline_Inr registry_inv_def pending_matches_def)
  have "versions_ordered ((rg_visibility_epoch s', c) # log) None"
    by (rule versions_ordered_Cons [OF conjunct2 [OF confirm.IH]])
       (use confirm.IH c in \<open>simp add: versions_ordered_def\<close>)
  with readable_series_root [OF epochs] c new show ?case by simp
qed

section \<open>When an activation is accepted\<close>

text \<open>
  The revision is current, both contracts have a canonical document, the one it follows is the active
  one and the candidate is registered, the version is bumped as far as the change demands, and the
  instant is given exactly for a carry, whose longer ancestry fits both ceilings.
\<close>

definition change_between ::
    "landing_product_contract option \<Rightarrow> landing_product_contract \<Rightarrow> change_class" where
  "change_between p c = (case p of None \<Rightarrow> Ch_new_product
     | Some d \<Rightarrow> if lc_logical_identity d \<noteq> lc_logical_identity c then Ch_new_product
         else document_change d c)"

definition version_accepted ::
    "landing_product_contract option \<Rightarrow> landing_product_contract \<Rightarrow> bool" where
  "version_accepted p c = (case p of None \<Rightarrow> True
     | Some d \<Rightarrow> validate_semver_bump (pf_product_version (lc_product d))
         (pf_product_version (lc_product c)) (change_between p c) = Inr ())"

definition carries :: "landing_product_contract option \<Rightarrow> landing_product_contract \<Rightarrow> bool" where
  "carries p c = (case p of None \<Rightarrow> False | Some d \<Rightarrow> continues d c)"

definition activation_accepted :: "canonical_lib \<Rightarrow> activation \<Rightarrow> registry_state \<Rightarrow> bool" where
  "activation_accepted lib a s \<longleftrightarrow> rg_state_revision s = ac_expected_revision a \<and>
     (case activation_documents lib a of None \<Rightarrow> False
      | Some (p, c) \<Rightarrow>
          rg_active_contract_digest s = map_option (cj_contract_digest lib) p
          \<and> rg_candidate_contract_digest s = Some (cj_contract_digest lib c)
          \<and> version_accepted p c
          \<and> (if carries p c
             then ac_activated_at a \<noteq> None
               \<and> length (rg_visibility_ancestry s) < ac_max_visibility_ancestry_rows a
               \<and> cj_ancestry_bytes lib (rg_visibility_ancestry s @ [rg_visibility_epoch s + 1])
                   \<le> ac_max_wire_record_bytes a
             else ac_activated_at a = None))"

lemma carries_kind: "required_migration_kind (change_between p c) = Carry \<longleftrightarrow> carries p c"
proof (cases p)
  case None
  then show ?thesis by (simp add: carries_def change_between_def required_migration_kind_def)
next
  case (Some d)
  show ?thesis
  proof (cases "lc_logical_identity d = lc_logical_identity c")
    case True
    from document_change_continues [OF True] Some True show ?thesis
      by (simp add: carries_def change_between_def required_migration_kind_def)
  next
    case False
    with Some continues_identity [of d c] show ?thesis
      by (auto simp: carries_def change_between_def required_migration_kind_def)
  qed
qed

text \<open>The two documents of an activation, and what the plan makes of them.\<close>

lemma activation_documents_Some:
  "activation_documents lib a = Some (p, c) \<longleftrightarrow>
    canonical_contract lib (ac_candidate a) = Inr c
    \<and> (case ac_prior a of None \<Rightarrow> p = None
       | Some q \<Rightarrow> \<exists>d. p = Some d \<and> canonical_contract lib q = Inr d)"
  by (cases "ac_prior a"; cases "canonical_contract lib (ac_candidate a)")
     (auto simp: activation_documents_def split: sum.splits)

lemma plan_migration_documents:
  assumes "activation_documents lib a = Some (p, c)"
  shows "plan_migration lib s (ac_prior a) (ac_candidate a) = Inr plan \<longleftrightarrow>
    version_accepted p c
    \<and> plan = \<lparr>pl_change = change_between p c, pl_kind = required_migration_kind (change_between p c),
        pl_from_contract_digest = rg_active_contract_digest s,
        pl_to_contract_digest = cj_contract_digest lib c\<rparr>"
proof -
  from assms have c: "canonical_contract lib (ac_candidate a) = Inr c"
    by (simp add: activation_documents_Some)
  have classed: "classify_contract_change lib (ac_prior a) (ac_candidate a) = Inr (change_between p c)"
    using assms by (cases "ac_prior a")
      (auto simp: activation_documents_Some classify_Inr change_between_def)
  have version: "(case ac_prior a of None \<Rightarrow> Inr ()
      | Some q \<Rightarrow> validate_semver_bump (pf_product_version (lc_product q))
          (pf_product_version (lc_product (ac_candidate a))) (change_between p c)) = Inr ()
      \<longleftrightarrow> version_accepted p c"
    using assms by (cases "ac_prior a") (auto simp: activation_documents_Some version_accepted_def)
  show ?thesis
    unfolding plan_migration_def classed using c version
    by (auto simp: compute_contract_digest_def)
qed

lemma activation_needs_documents:
  assumes "activate_contract lib a s = Inr x"
  shows "\<exists>p c. activation_documents lib a = Some (p, c)"
proof -
  from assms obtain plan d where plan: "plan_migration lib s (ac_prior a) (ac_candidate a) = Inr plan"
    and d: "(case ac_prior a of None \<Rightarrow> Inr None
      | Some q \<Rightarrow> bind (compute_contract_digest lib q) (\<lambda>d. Inr (Some d))) = Inr d"
    unfolding activate_contract_def by (auto split: if_splits)
  from plan obtain c where "canonical_contract lib (ac_candidate a) = Inr c"
    by (auto simp: plan_migration_def)
  with d show ?thesis by (cases "ac_prior a") (auto simp: activation_documents_Some)
qed

lemma activate_contract_iff:
  "(\<exists>x. activate_contract lib a s = Inr x) \<longleftrightarrow> activation_accepted lib a s"
proof (cases "activation_documents lib a")
  case None
  with activation_needs_documents [of lib a s] show ?thesis by (auto simp: activation_accepted_def)
next
  case (Some pc)
  obtain p c where pc: "pc = (p, c)" by (cases pc)
  let ?plan = "\<lparr>pl_change = change_between p c, pl_kind = required_migration_kind (change_between p c),
        pl_from_contract_digest = rg_active_contract_digest s,
        pl_to_contract_digest = cj_contract_digest lib c\<rparr>"
  note docs = Some [unfolded pc]
  have prior: "(case ac_prior a of None \<Rightarrow> Inr None
      | Some q \<Rightarrow> bind (compute_contract_digest lib q) (\<lambda>d. Inr (Some d)))
      = Inr (map_option (cj_contract_digest lib) p)"
    using docs by (cases "ac_prior a") (auto simp: activation_documents_Some compute_contract_digest_def)
  have tail: "(\<exists>x. (if pl_kind ?plan = Carry then activate_carry lib a ?plan s
        else activate_reset lib a ?plan s) = Inr x) \<longleftrightarrow>
      (if carries p c then rg_active_contract_digest s \<noteq> None \<and> ac_activated_at a \<noteq> None
        \<and> check_ancestry_capacity lib (rg_visibility_ancestry s @ [rg_visibility_epoch s + 1])
            (ac_max_visibility_ancestry_rows a) (ac_max_wire_record_bytes a) = Inr ()
       else ac_activated_at a = None)"
    by (simp add: carries_kind split_paired_Ex activate_carry_Inr activate_reset_Inr)
  have "(\<exists>x. activate_contract lib a s = Inr x) \<longleftrightarrow>
      rg_state_revision s = ac_expected_revision a
      \<and> map_option (cj_contract_digest lib) p = rg_active_contract_digest s
      \<and> version_accepted p c
      \<and> rg_candidate_contract_digest s = Some (cj_contract_digest lib c)
      \<and> (\<exists>x. (if pl_kind ?plan = Carry then activate_carry lib a ?plan s
        else activate_reset lib a ?plan s) = Inr x)"
    unfolding activate_contract_def prior
    by (auto simp: plan_migration_documents [OF docs])
  moreover have "carries p c \<Longrightarrow> p \<noteq> None" by (cases p) (simp_all add: carries_def)
  ultimately show ?thesis
    unfolding tail using docs
    by (auto simp: activation_accepted_def check_ancestry_capacity_def split: if_splits)
qed

section \<open>Concurrent callers\<close>

text \<open>An operation as a compare-and-swap store runs it: a refused one leaves the registry as it is.\<close>

definition registry_exec ::
    "canonical_lib \<Rightarrow> registry_op \<Rightarrow> registry_state \<Rightarrow> (contract_error + migration option) \<times> registry_state" where
  "registry_exec lib q s =
     (case registry_apply lib q s of Inl e \<Rightarrow> (Inl e, s) | Inr (s', m) \<Rightarrow> (Inr m, s'))"

lemma registry_apply_revision:
  assumes "registry_apply lib q s = Inr (s', m)"
  shows "rg_state_revision s = registry_expected q \<and> rg_state_revision s' = rg_state_revision s + 1"
proof (cases q)
  case (Register_op c n)
  with assms show ?thesis by (auto simp: registry_apply_def register_candidate_Inr)
next
  case (Activate_op a)
  with assms obtain m' where act: "activate_contract lib a s = Inr (s', m')"
    by (auto simp: registry_apply_def)
  from activation_needs_documents [OF act] obtain p c where
    docs: "activation_documents lib a = Some (p, c)" by blast
  from activate_contract_Inr [OF act docs] obtain plan where
    "rg_state_revision s = ac_expected_revision a"
    "activate_carry lib a plan s = Inr (s', m') \<or> activate_reset lib a plan s = Inr (s', m')" by metis
  then show ?thesis using Activate_op by (auto simp: activate_carry_Inr activate_reset_Inr)
next
  case (Confirm_op n at)
  with assms show ?thesis by (auto simp: registry_apply_def confirm_baseline_Inr)
qed

interpretation registry_cas: optimistic_store "\<lambda>_ s. Some (rg_state_revision s)" "registry_exec lib"
    "\<lambda>_. ()" registry_expected "\<lambda>q. registry_expected q + 1" "\<lambda>_. True"
  by unfold_locales
     (auto simp: registry_exec_def split: sum.splits dest: registry_apply_revision)
end
