(* ===== verification/Registry_Props.thy ===== *)
theory Registry_Props
  imports Contract_Registry
begin

text \<open>
  What the contract registry guarantees: the invariant of every run, the readable series and the
  versions of its history, the two steps of a reset, when an activation is accepted, who wins a race,
  what the classifier promises of two contracts, and that declaring the same contract in another order
  changes nothing.
\<close>

section \<open>An example\<close>

text \<open>A library whose contract digest is the version, which tells the example's documents apart.\<close>

definition eg_lib :: canonical_lib where
  "eg_lib = \<lparr>cj_encoding = (\<lambda>e. if e = Enc_identity then ''identity'' else ''gzip''),
     cj_token = (\<lambda>t. t), cj_scalar = (\<lambda>v. case v of T_string s \<Rightarrow> s | _ \<Rightarrow> []),
     cj_rule_digest = (\<lambda>r. case r of Not_null f _ \<Rightarrow> f | _ \<Rightarrow> []),
     cj_contract_digest = (\<lambda>c. pf_product_version (lc_product c)),
     cj_source_schema_digest = ss_identifier,
     cj_published_schema_digest = (\<lambda>cs. concat (map pu_name cs)),
     cj_ruleset_digest = (\<lambda>a b rs. a @ b), cj_migration_digest = (\<lambda>m. mg_to_contract_digest m),
     cj_ancestry_bytes = (\<lambda>xs. 2 * length xs + 1)\<rparr>"

definition eg_column :: "ident \<Rightarrow> simple_logical_type \<Rightarrow> bool \<Rightarrow> source_field" where
  "eg_column n t nullable = \<lparr>sf_name = n, sf_logical_type = Simple t, sf_nullable = nullable,
     sf_physical_name = None\<rparr>"

definition eg_landing_contract :: "semver \<Rightarrow> source_field list \<Rightarrow> landing_product_contract" where
  "eg_landing_contract version columns =
     \<lparr>lc_logical_identity = \<lparr>li_estate_namespace = ''estate'', li_source = ''crm'', li_table = ''orders''\<rparr>,
      lc_product = \<lparr>pf_product_version = version, pf_display_name = ''Orders'', pf_description = [],
        pf_owner = ''team'', pf_domain = ''sales'', pf_support = ''desk'',
        pf_classification = ''internal'', pf_access_policy_ref = ''a'', pf_retention_policy_ref = ''r''\<rparr>,
      lc_landing = \<lparr>lb_source_name = ''crm'', lb_identifier = ''orders'', lb_integration = Managed,
        lb_content_encodings = [Enc_identity], lb_codec = Jsonl_codec Lf,
        lb_physical_columns = columns, lb_physical_name = None\<rparr>,
      lc_delivery = \<lparr>dp_mode = Append_only, dp_progress = Sequence_progress ''id'',
        dp_delete_strategy = No_deletes, dp_schedule = Interval_schedule 60 0,
        dp_schedule_lateness = \<lparr>sla_warn_after_minutes = 1, sla_error_after_minutes = 2\<rparr>,
        dp_maximum_age = None,
        dp_timestamps = \<lparr>tc_load_field = ''at'', tc_event_field = None, tc_effective_field = None\<rparr>,
        dp_record_key = \<lparr>rk_fields = [''id''], rk_fingerprint_scope = None, rk_hmac_key_id = None\<rparr>,
        dp_tombstone = None, dp_snapshot = None,
        dp_quality = \<lparr>qp_publication_mode = All_or_nothing, qp_max_error_fraction = ''0'',
          qp_rules = [Not_null ''at'' Sev_error, Not_null ''id'' Sev_error]\<rparr>,
        dp_retry = \<lparr>rp_max_attempts = 3, rp_backoff = Fixed, rp_base_seconds = 1, rp_cap_seconds = 1\<rparr>\<rparr>,
      lc_projection = [\<lparr>pj_source = ''id'', pj_name = ''id'', pj_logical_type = Simple S_int64,
        pj_nullable = False\<rparr>],
      lc_interfaces = derive_interfaces ''crm'' ''orders''\<rparr>"

definition eg_first :: landing_product_contract where
  "eg_first = eg_landing_contract ''1.0.0''
     [eg_column ''at'' S_utc_instant False, eg_column ''id'' S_int64 False]"

definition eg_added :: landing_product_contract where
  "eg_added = eg_landing_contract ''1.1.0''
     [eg_column ''at'' S_utc_instant False, eg_column ''id'' S_int64 False, eg_column ''note'' S_utf8_string True]"

definition eg_retyped :: landing_product_contract where
  "eg_retyped = eg_landing_contract ''2.0.0''
     [eg_column ''at'' S_utc_instant False, eg_column ''id'' S_utf8_string False]"

definition eg_reordered :: landing_product_contract where
  "eg_reordered = (eg_landing_contract ''1.0.0''
     [eg_column ''id'' S_int64 False, eg_column ''at'' S_utc_instant False])
     \<lparr>lc_delivery := (lc_delivery eg_first)\<lparr>dp_quality := (dp_quality (lc_delivery eg_first))
       \<lparr>qp_rules := [Not_null ''id'' Sev_error, Not_null ''at'' Sev_error]\<rparr>\<rparr>\<rparr>"

definition eg_activation ::
    "landing_product_contract option \<Rightarrow> landing_product_contract \<Rightarrow> nat \<Rightarrow> instant option \<Rightarrow> activation" where
  "eg_activation prior c n at = \<lparr>ac_prior = prior, ac_candidate = c, ac_expected_revision = n,
     ac_activated_at = at, ac_max_visibility_ancestry_rows = 10, ac_max_wire_record_bytes = 1000\<rparr>"

text \<open>The first contract staged and confirmed, the addition carried, and the retyping staged.\<close>

definition eg_first_staged :: migration where
  "eg_first_staged = \<lparr>mg_migration_id = ''1.0.0'', mg_kind = Reset, mg_from_contract_digest = None,
     mg_to_contract_digest = ''1.0.0'', mg_activated_at = None, mg_from_visibility_epoch = 0,
     mg_to_visibility_epoch = 1\<rparr>"

definition eg_first_confirmed :: migration where
  "eg_first_confirmed = \<lparr>mg_migration_id = ''1.0.0'', mg_kind = Reset, mg_from_contract_digest = None,
     mg_to_contract_digest = ''1.0.0'', mg_activated_at = Some 5, mg_from_visibility_epoch = 0,
     mg_to_visibility_epoch = 1\<rparr>"

definition eg_added_carried :: migration where
  "eg_added_carried = \<lparr>mg_migration_id = ''1.1.0'', mg_kind = Carry, mg_from_contract_digest = Some ''1.0.0'',
     mg_to_contract_digest = ''1.1.0'', mg_activated_at = Some 9, mg_from_visibility_epoch = 1,
     mg_to_visibility_epoch = 2\<rparr>"

definition eg_retyped_staged :: migration where
  "eg_retyped_staged = \<lparr>mg_migration_id = ''2.0.0'', mg_kind = Reset, mg_from_contract_digest = Some ''1.1.0'',
     mg_to_contract_digest = ''2.0.0'', mg_activated_at = None, mg_from_visibility_epoch = 2,
     mg_to_visibility_epoch = 3\<rparr>"

definition eg_registered :: registry_state where
  "eg_registered = \<lparr>rg_active_contract_digest = None, rg_active_product_version = None,
     rg_activation_state = Pending_baseline, rg_candidate_contract_digest = Some ''1.0.0'', rg_visibility_epoch = 0,
     rg_visibility_ancestry = [], rg_state_revision = 1, rg_pending_baseline = None\<rparr>"

definition eg_staged :: registry_state where
  "eg_staged = \<lparr>rg_active_contract_digest = None, rg_active_product_version = None,
     rg_activation_state = Pending_baseline, rg_candidate_contract_digest = Some ''1.0.0'', rg_visibility_epoch = 0,
     rg_visibility_ancestry = [], rg_state_revision = 2, rg_pending_baseline = Some \<lparr>pb_product_version = ''1.0.0'',
       pb_visibility_epoch = 1, pb_visibility_ancestry = [1], pb_migration = eg_first_staged\<rparr>\<rparr>"

definition eg_active :: registry_state where
  "eg_active = \<lparr>rg_active_contract_digest = Some ''1.0.0'', rg_active_product_version = Some ''1.0.0'',
     rg_activation_state = Active, rg_candidate_contract_digest = None, rg_visibility_epoch = 1,
     rg_visibility_ancestry = [1], rg_state_revision = 3, rg_pending_baseline = None\<rparr>"

definition eg_carrying :: registry_state where
  "eg_carrying = \<lparr>rg_active_contract_digest = Some ''1.0.0'', rg_active_product_version = Some ''1.0.0'',
     rg_activation_state = Active, rg_candidate_contract_digest = Some ''1.1.0'', rg_visibility_epoch = 1,
     rg_visibility_ancestry = [1], rg_state_revision = 4, rg_pending_baseline = None\<rparr>"

definition eg_carried :: registry_state where
  "eg_carried = \<lparr>rg_active_contract_digest = Some ''1.1.0'', rg_active_product_version = Some ''1.1.0'',
     rg_activation_state = Active, rg_candidate_contract_digest = None, rg_visibility_epoch = 2,
     rg_visibility_ancestry = [1, 2], rg_state_revision = 5, rg_pending_baseline = None\<rparr>"

definition eg_resetting :: registry_state where
  "eg_resetting = \<lparr>rg_active_contract_digest = Some ''1.1.0'', rg_active_product_version = Some ''1.1.0'',
     rg_activation_state = Active, rg_candidate_contract_digest = Some ''2.0.0'', rg_visibility_epoch = 2,
     rg_visibility_ancestry = [1, 2], rg_state_revision = 6, rg_pending_baseline = None\<rparr>"

definition eg_reset :: registry_state where
  "eg_reset = \<lparr>rg_active_contract_digest = Some ''1.1.0'', rg_active_product_version = Some ''1.1.0'',
     rg_activation_state = Pending_baseline, rg_candidate_contract_digest = Some ''2.0.0'', rg_visibility_epoch = 2,
     rg_visibility_ancestry = [1, 2], rg_state_revision = 7, rg_pending_baseline = Some \<lparr>pb_product_version = ''2.0.0'',
       pb_visibility_epoch = 3, pb_visibility_ancestry = [3], pb_migration = eg_retyped_staged\<rparr>\<rparr>"

definition eg_documents :: "landing_product_contract set" where
  "eg_documents = {eg_first, eg_added, eg_retyped}"

lemma eg_documents_inj: "inj_on (cj_contract_digest eg_lib) eg_documents"
  by (simp add: inj_on_def eg_documents_def eg_lib_def eg_first_def eg_added_def eg_retyped_def
      eg_landing_contract_def)

lemma eg_registered_step: "register_candidate eg_lib eg_first 0 initial_registry = Inr eg_registered"
  by code_simp

lemma eg_staged_step:
  "activate_contract eg_lib (eg_activation None eg_reordered 1 None) eg_registered
    = Inr (eg_staged, eg_first_staged)"
  by code_simp

lemma eg_active_step:
  "confirm_baseline_activation eg_lib 2 (Some 5) eg_staged
    = Inr (eg_active, eg_first_confirmed)"
  by code_simp

lemma eg_carrying_step: "register_candidate eg_lib eg_added 3 eg_active = Inr eg_carrying"
  by code_simp

lemma eg_carried_step:
  "activate_contract eg_lib (eg_activation (Some eg_first) eg_added 4 (Some 9)) eg_carrying
    = Inr (eg_carried, eg_added_carried)"
  by code_simp

lemma eg_resetting_step: "register_candidate eg_lib eg_retyped 5 eg_carried = Inr eg_resetting"
  by code_simp

lemma eg_reset_step:
  "activate_contract eg_lib (eg_activation (Some eg_added) eg_retyped 6 None) eg_resetting
    = Inr (eg_reset, eg_retyped_staged)"
  by code_simp

lemma eg_kinds:
  "mg_kind eg_first_staged = Reset"
  "mg_kind eg_added_carried = Carry"
  "mg_kind eg_retyped_staged = Reset"
  by code_simp+

lemma eg_epochs: "rg_visibility_epoch eg_active = 1" "rg_visibility_epoch eg_carried = 2"
  by code_simp+

lemma eg_activation_documents:
  "activation_documents eg_lib (eg_activation None eg_reordered 1 None) = Some (None, eg_first)"
  "activation_documents eg_lib (eg_activation (Some eg_first) eg_added 4 (Some 9)) = Some (Some eg_first, eg_added)"
  "activation_documents eg_lib (eg_activation (Some eg_added) eg_retyped 6 None) = Some (Some eg_added, eg_retyped)"
  by code_simp+

lemma eg_documents_mem: "eg_first \<in> eg_documents" "eg_added \<in> eg_documents" "eg_retyped \<in> eg_documents"
  by (simp_all add: eg_documents_def)

lemma eg_run_carried:
  "registry_run eg_lib eg_documents eg_carried [(2, eg_added), (1, eg_first)] None"
proof -
  have "registry_run eg_lib eg_documents eg_registered [] None"
    by (rule registry_run.register [OF registry_run.start eg_registered_step])
  from registry_run.activate [OF this eg_staged_step eg_activation_documents(1)]
  have "registry_run eg_lib eg_documents eg_staged [] (Some eg_first)"
    by (simp add: eg_kinds eg_documents_mem del: One_nat_def)
  from registry_run.confirm [OF this eg_active_step]
  have "registry_run eg_lib eg_documents eg_active [(1, eg_first)] None" by (simp add: eg_epochs del: One_nat_def)
  from registry_run.register [OF this eg_carrying_step]
  have "registry_run eg_lib eg_documents eg_carrying [(1, eg_first)] None" .
  from registry_run.activate [OF this eg_carried_step eg_activation_documents(2)]
  show ?thesis by (simp add: eg_kinds eg_epochs eg_documents_mem del: One_nat_def)
qed

lemma eg_run_reset:
  "registry_run eg_lib eg_documents eg_reset [(2, eg_added), (1, eg_first)] (Some eg_retyped)"
proof -
  from registry_run.register [OF eg_run_carried eg_resetting_step]
  have "registry_run eg_lib eg_documents eg_resetting [(2, eg_added), (1, eg_first)] None" .
  from registry_run.activate [OF this eg_reset_step eg_activation_documents(3)]
  show ?thesis by (simp add: eg_kinds eg_documents_mem del: One_nat_def)
qed

section \<open>Every run\<close>

text \<open>C34: In every run of the registry each activation opens the next visibility epoch, the ancestry
  is an unbroken range of epochs ending at the current one, the active digest and version are those of
  the contract the epoch opened with, and a baseline is pending exactly while a reset is staged: for
  the registered candidate, the next epoch and an ancestry of that epoch alone.\<close>

theorem registry_run_consistent:
  assumes "registry_run lib D s log staged"
  shows "map fst log = rev [1..<Suc (rg_visibility_epoch s)]
    \<and> unbroken (rg_visibility_ancestry s) (rg_visibility_epoch s)
    \<and> rg_active_contract_digest s = map_option (cj_contract_digest lib) (active_contract log)
    \<and> rg_active_product_version s = map_option (pf_product_version \<circ> lc_product) (active_contract log)
    \<and> (rg_activation_state s = Active \<longleftrightarrow> log \<noteq> [] \<and> staged = None)
    \<and> pending_matches lib s (rg_pending_baseline s) staged"
  using registry_run_inv [OF assms] by (simp add: registry_inv_def)

theorem registry_run_consistent_witness:
  "rg_visibility_epoch eg_reset = 2 \<and> rg_visibility_ancestry eg_reset = [1, 2]
    \<and> pending_matches eg_lib eg_reset (rg_pending_baseline eg_reset) (Some eg_retyped)
    \<and> unbroken (rg_visibility_ancestry eg_reset) (rg_visibility_epoch eg_reset)"
proof -
  have "rg_visibility_epoch eg_reset = 2 \<and> rg_visibility_ancestry eg_reset = [1, 2]" by code_simp
  with registry_run_consistent [OF eg_run_reset] show ?thesis by blast
qed

text \<open>C6: Whatever epochs the ancestry of a registry holds, a consumer may read them as one series: the
  contract of every later one continues that of every earlier one, keeping the columns, their types and
  nullability, the keys, the mode and the deletion strategy. And versions never go back: of two epochs,
  the later has the larger version unless both opened with one document.\<close>

theorem ancestry_is_one_series:
  assumes "registry_run lib D s log staged" and "inj_on (cj_contract_digest lib) D"
  shows "readable_series (rg_visibility_ancestry s) log \<and> versions_ordered log staged"
  using assms by (rule registry_run_history)

theorem ancestry_is_one_series_witness:
  "readable_series (rg_visibility_ancestry eg_reset) [(2, eg_added), (1, eg_first)]
    \<and> versions_ordered [(2, eg_added), (1, eg_first)] (Some eg_retyped)
    \<and> rg_visibility_ancestry eg_reset = [1, 2] \<and> \<not> continues eg_added eg_retyped
    \<and> eg_first \<noteq> eg_added"
proof -
  have "rg_visibility_ancestry eg_reset = [1, 2]" by code_simp
  moreover have "has_major_change eg_added eg_retyped" by code_simp
  moreover have "lc_logical_identity eg_added = lc_logical_identity eg_retyped" by code_simp
  moreover have "eg_first \<noteq> eg_added" by code_simp
  ultimately show ?thesis
    using ancestry_is_one_series [OF eg_run_reset eg_documents_inj]
      has_major_change_iff [of eg_added eg_retyped] by blast
qed

section \<open>One transition\<close>

text \<open>An activation is accepted exactly when its revision is current, both contracts have a
  canonical document, the one it follows is the active one and the candidate the registered one, the
  version is bumped as far as the change demands, and the instant is given exactly for a candidate that
  continues the active contract, whose longer ancestry must fit both ceilings.\<close>

theorem activation_accepted_iff:
  "(\<exists>x. activate_contract lib a s = Inr x) = activation_accepted lib a s"
  by (rule activate_contract_iff)

text \<open>A reset takes two steps: the activation stages it and leaves the active contract, its version,
  epoch and ancestry as they were, and only a confirmation over the new revision, with an instant,
  commits what was staged: the candidate's digest and version, the next epoch and an ancestry of that
  epoch alone.\<close>

theorem reset_takes_two_steps:
  assumes "activate_contract lib a s = Inr (staged, m)" and "mg_kind m = Reset"
  shows "rg_active_contract_digest staged = rg_active_contract_digest s
    \<and> rg_active_product_version staged = rg_active_product_version s
    \<and> rg_visibility_epoch staged = rg_visibility_epoch s
    \<and> rg_visibility_ancestry staged = rg_visibility_ancestry s
    \<and> rg_activation_state staged = Pending_baseline \<and> mg_activated_at m = None
    \<and> (\<forall>n at s' m'. confirm_baseline_activation lib n at staged = Inr (s', m') \<longleftrightarrow>
        n = rg_state_revision s + 1 \<and> at \<noteq> None
        \<and> m' = sealed_migration lib (m\<lparr>mg_activated_at := at\<rparr>)
        \<and> s' = \<lparr>rg_active_contract_digest = Some (mg_to_contract_digest m),
            rg_active_product_version = Some (pf_product_version (lc_product (ac_candidate a))),
            rg_activation_state = Active, rg_candidate_contract_digest = None,
            rg_visibility_epoch = rg_visibility_epoch s + 1,
            rg_visibility_ancestry = [rg_visibility_epoch s + 1],
            rg_state_revision = rg_state_revision s + 2, rg_pending_baseline = None\<rparr>)"
proof -
  from activation_needs_documents [OF assms(1)] obtain p c where
    docs: "activation_documents lib a = Some (p, c)" by blast
  from assms(1) docs show ?thesis
  proof (cases rule: activate_contract_cases)
    case (carry plan d)
    with assms(2) show ?thesis by simp
  next
    case (reset plan)
    from reset(3) show ?thesis by (auto simp: activate_reset_Inr confirm_baseline_Inr)
  qed
qed

theorem reset_takes_two_steps_witness:
  "rg_active_contract_digest eg_reset = Some ''1.1.0'' \<and> rg_visibility_epoch eg_reset = 2
    \<and> rg_visibility_ancestry eg_reset = [1, 2]
    \<and> (\<exists>s' m'. confirm_baseline_activation eg_lib 7 (Some 11) eg_reset = Inr (s', m')
        \<and> rg_active_contract_digest s' = Some ''2.0.0'' \<and> rg_visibility_ancestry s' = [3])"
proof -
  have before: "rg_active_contract_digest eg_resetting = Some ''1.1.0''"
    "rg_visibility_epoch eg_resetting = 2" "rg_visibility_ancestry eg_resetting = [1, 2]"
    "rg_state_revision eg_resetting = 6"
    "mg_to_contract_digest eg_retyped_staged = ''2.0.0''"
    by code_simp+
  from reset_takes_two_steps [OF eg_reset_step eg_kinds(3)] before show ?thesis by simp
qed

text \<open>Of any operations prepared against one revision of the registry - registrations, activations
  and confirmations, from any callers and in any order - at most one commits.\<close>

theorem registry_has_one_winner:
  assumes "run_all (registry_exec lib) qs s = (xs, s')"
    and "\<forall>q \<in> set qs. registry_expected q = n"
  shows "length (winners xs) \<le> 1"
  by (rule registry_cas.at_most_one_winner [OF TrueI assms(1), where n = n]) (use assms(2) in simp)

definition eg_race :: "registry_op list" where
  "eg_race = [Activate_op (eg_activation (Some eg_first) eg_added 4 None),
     Activate_op (eg_activation (Some eg_first) eg_added 4 (Some 9)), Register_op eg_added 4]"

theorem registry_has_one_winner_witness:
  "length (winners (fst (run_all (registry_exec eg_lib) eg_race eg_carrying))) = 1"
proof -
  have "length (winners (fst (run_all (registry_exec eg_lib) eg_race eg_carrying))) \<le> 1"
    by (rule registry_has_one_winner [OF prod.collapse [symmetric], where n = 4])
       (simp add: eg_race_def eg_activation_def)
  moreover have "winners (fst (run_all (registry_exec eg_lib) eg_race eg_carrying)) \<noteq> []" by code_simp
  ultimately show ?thesis
    by (cases "winners (fst (run_all (registry_exec eg_lib) eg_race eg_carrying))") auto
qed

section \<open>Classification\<close>

text \<open>C40: Of two contracts with canonical documents, a change is breaking exactly when they are of one
  product and the later does not continue the earlier: it changes what deliveries bind to, drops,
  retypes or renullables a physical or published column, or adds one that is required.\<close>

theorem classification_correct:
  assumes "canonical_contract lib p = Inr pd" and "canonical_contract lib c = Inr cd"
  shows "classify_contract_change lib (Some p) c = Inr k \<longleftrightarrow>
    (if lc_logical_identity p \<noteq> lc_logical_identity c then k = Ch_new_product
     else if pd = cd then k = Ch_none
     else if \<not> continues pd cd then k = Ch_major
     else k = (if has_minor_change pd cd then Ch_minor else Ch_patch))"
proof -
  have "has_major_change pd cd \<longleftrightarrow> \<not> continues pd cd" if "lc_logical_identity p = lc_logical_identity c"
    using that assms by (intro has_major_change_iff) simp
  with assms show ?thesis by (auto simp: classify_Inr document_change_def)
qed

theorem classification_correct_witness:
  "classify_contract_change eg_lib (Some eg_reordered) eg_first = Inr Ch_none
    \<and> classify_contract_change eg_lib (Some eg_first) eg_added = Inr Ch_minor
    \<and> classify_contract_change eg_lib (Some eg_added) eg_retyped = Inr Ch_major"
proof -
  have docs: "canonical_contract eg_lib eg_reordered = Inr eg_first"
    "canonical_contract eg_lib eg_first = Inr eg_first" "canonical_contract eg_lib eg_added = Inr eg_added"
    "canonical_contract eg_lib eg_retyped = Inr eg_retyped"
    by code_simp+
  have one: "lc_logical_identity eg_reordered = lc_logical_identity eg_first"
    "lc_logical_identity eg_first = lc_logical_identity eg_added"
    "lc_logical_identity eg_added = lc_logical_identity eg_retyped" by code_simp+
  have "\<not> has_major_change eg_first eg_added" "has_major_change eg_added eg_retyped"
    "has_minor_change eg_first eg_added" "eg_first \<noteq> eg_added" "eg_added \<noteq> eg_retyped"
    by code_simp+
  then show ?thesis
    using classification_correct [OF docs(1,2)] classification_correct [OF docs(2,3)]
      classification_correct [OF docs(3,4)] one
      has_major_change_iff [OF one(2)] has_major_change_iff [OF one(3)] by simp
qed

text \<open>The text of a version.\<close>

fun render_version :: "nat \<times> nat \<times> nat \<Rightarrow> string \<Rightarrow> semver" where
  "render_version (x, y, z) tag = show_nat x @ CHR ''.'' # show_nat y @ CHR ''.'' # show_nat z
     @ (if tag = [] then [] else CHR ''-'' # tag)"

lemma semver_core_render: "semver_core (render_version v tag) = Inr v"
  by (cases v) (simp add: semver_core_def digits_prefix_show after_dot_def is_digit_def)

text \<open>A version bump between \<open>x.y.z\<close> versions, with or without a pre-release tag, is accepted
  exactly when the numbers the class of change names grow: the first for a breaking change, the first
  two for an additive one, the whole triple for any other change, and none for no change. The tags are
  not compared.\<close>

theorem semver_bump_correct:
  "(validate_semver_bump (render_version v tag) (render_version w tag') k = Inr ()) = bump_allowed k v w"
  by (simp add: validate_bump_iff semver_core_render) (cases k; simp)


section \<open>Declaring in another order\<close>

lemma sort_key_mset:
  "mset xs = mset ys \<Longrightarrow> inj_on key (set xs) \<Longrightarrow> sort_key key xs = sort_key key ys"
  by (rule sort_key_inj_key_eq) simp_all

lemma sort_key_mset_distinct:
  assumes "mset xs = mset ys" and "distinct (map key xs)"
  shows "sort_key key xs = sort_key key ys"
  using assms by (intro sort_key_mset) (auto simp: distinct_map)

lemma normalise_reordered:
  assumes "mset xs = mset ys"
  shows "normalise_declared_set key at xs = normalise_declared_set key at ys"
proof -
  have "mset (map key xs) = mset (map key ys)" using assms by simp
  then have "distinct (map key xs) = distinct (map key ys)" by (rule mset_eq_imp_distinct_iff)
  with sort_key_mset_distinct [OF assms, of key] show ?thesis by (simp add: normalise_declared_set_def)
qed

text \<open>
  \<open>c'\<close> declares what \<open>c\<close> does, with the physical columns, the projection, the encodings and the quality
  rules each in another order. Names are told apart as the canonical order does, columns without regard
  to case, and rules by their id.
\<close>

definition reordered :: "canonical_lib \<Rightarrow> landing_product_contract \<Rightarrow> landing_product_contract \<Rightarrow> bool" where
  "reordered lib c c' \<longleftrightarrow>
     (\<exists>columns projection encodings rules.
        c' = c\<lparr>lc_landing := (lc_landing c)\<lparr>lb_physical_columns := columns, lb_content_encodings := encodings\<rparr>,
               lc_projection := projection,
               lc_delivery := (lc_delivery c)\<lparr>dp_quality := (dp_quality (lc_delivery c))\<lparr>qp_rules := rules\<rparr>\<rparr>\<rparr>
        \<and> mset columns = mset (lb_physical_columns (lc_landing c))
        \<and> mset projection = mset (lc_projection c)
        \<and> mset encodings = mset (lb_content_encodings (lc_landing c))
        \<and> mset rules = mset (qp_rules (dp_quality (lc_delivery c))))
     \<and> distinct (map (\<lambda>f. lower_string (sf_name f)) (lb_physical_columns (lc_landing c)))
     \<and> distinct (map pj_name (lc_projection c))
     \<and> distinct (map (\<lambda>r. projr (compute_rule_id lib r)) (qp_rules (dp_quality (lc_delivery c))))"

lemma map_result_projr:
  "map_result f xs = Inr ys \<Longrightarrow> ys = map (\<lambda>x. projr (f x)) xs \<and> (\<forall>x \<in> set xs. f x = Inr (projr (f x)))"
  by (induction xs arbitrary: ys) auto

lemma canonical_rules_reordered:
  assumes "canonical_rules lib rules = Inr rs" and "mset rules' = mset rules"
    and "distinct (map (\<lambda>r. projr (compute_rule_id lib r)) rules)"
  shows "canonical_rules lib rules' = Inr rs"
proof -
  let ?id = "\<lambda>r. projr (compute_rule_id lib r)" and ?can = "\<lambda>r. projr (canonical_rule lib (rule_at r) r)"
  have set_eq: "set rules' = set rules" using assms(2) by (rule mset_eq_setD)
  from assms(1) obtain rs' ids where ok: "map_result (\<lambda>r. canonical_rule lib (rule_at r) r) rules = Inr rs'"
    "map_result (compute_rule_id lib) rules = Inr ids" "rs = map snd (sort_key fst (zip ids rs'))"
    by (auto simp: canonical_rules_def)
  note c = map_result_projr [OF ok(1)] and i = map_result_projr [OF ok(2)]
  have "map_result (\<lambda>r. canonical_rule lib (rule_at r) r) rules' = Inr (map ?can rules')"
    by (rule map_result_total) (use c set_eq in blast)
  moreover have "map_result (compute_rule_id lib) rules' = Inr (map ?id rules')"
    by (rule map_result_total) (use i set_eq in blast)
  moreover have "sort_key fst (zip (map ?id rules) (map ?can rules))
      = sort_key fst (zip (map ?id rules') (map ?can rules'))"
  proof (rule sort_key_mset_distinct)
    show "mset (zip (map ?id rules) (map ?can rules)) = mset (zip (map ?id rules') (map ?can rules'))"
      using assms(2) by (simp add: zip_map_map zip_same_conv_map)
    show "distinct (map fst (zip (map ?id rules) (map ?can rules)))"
      using assms(3) by (simp add: comp_def)
  qed
  ultimately show ?thesis using ok(3) c i by (simp add: canonical_rules_def)
qed

lemma canonical_contract_reordered:
  assumes "reordered lib c c'" and "canonical_contract lib c = Inr d"
  shows "canonical_contract lib c' = Inr d"
proof -
  from assms(1) obtain columns projection encodings rules where
    c': "c' = c\<lparr>lc_landing := (lc_landing c)\<lparr>lb_physical_columns := columns, lb_content_encodings := encodings\<rparr>,
               lc_projection := projection,
               lc_delivery := (lc_delivery c)\<lparr>dp_quality := (dp_quality (lc_delivery c))\<lparr>qp_rules := rules\<rparr>\<rparr>\<rparr>"
    and m: "mset columns = mset (lb_physical_columns (lc_landing c))" "mset projection = mset (lc_projection c)"
      "mset encodings = mset (lb_content_encodings (lc_landing c))"
      "mset rules = mset (qp_rules (dp_quality (lc_delivery c)))"
    and d: "distinct (map (\<lambda>f. lower_string (sf_name f)) (lb_physical_columns (lc_landing c)))"
      "distinct (map pj_name (lc_projection c))"
      "distinct (map (\<lambda>r. projr (compute_rule_id lib r)) (qp_rules (dp_quality (lc_delivery c))))"
    unfolding reordered_def by blast
  from assms(2) obtain landing delivery where
    ok: "canonical_landing lib (lc_landing c) = Inr landing" "canonical_delivery lib (lc_delivery c) = Inr delivery"
    and dd: "d = c\<lparr>lc_landing := landing, lc_projection := sort_key pj_name (lc_projection c), lc_delivery := delivery\<rparr>"
    unfolding canonical_contract_def bind_eq_Inr sum.inject by metis
  have "canonical_landing lib (lc_landing c') = Inr landing"
    using ok(1) sort_key_mset_distinct [OF m(1) [symmetric] d(1)] normalise_reordered [OF m(3)]
    by (auto simp: canonical_landing_def c')
  moreover have "canonical_delivery lib (lc_delivery c') = Inr delivery"
    using ok(2) canonical_rules_reordered [OF _ m(4) d(3)]
    by (auto simp: canonical_delivery_def c')
  moreover have "sort_key pj_name (lc_projection c') = sort_key pj_name (lc_projection c)"
    using sort_key_mset_distinct [OF m(2) [symmetric] d(2)] by (simp add: c')
  ultimately show ?thesis by (simp add: canonical_contract_def dd c')
qed

text \<open>Declaring a contract's columns, projection, encodings and quality rules in another order changes
  nothing: it has the same canonical document and digest, the registry sees no change between the two,
  and either classifies the same against any other contract.\<close>

theorem declaration_order_is_immaterial:
  assumes "reordered lib c c'" and "canonical_contract lib c = Inr d"
  shows "compute_contract_digest lib c' = compute_contract_digest lib c
    \<and> classify_contract_change lib (Some c) c' = Inr Ch_none
    \<and> classify_contract_change lib (Some q) c' = classify_contract_change lib (Some q) c
    \<and> classify_contract_change lib (Some c') q = classify_contract_change lib (Some c) q"
proof -
  note d' = canonical_contract_reordered [OF assms]
  have id: "lc_logical_identity c' = lc_logical_identity c"
    using canonical_contract_identity(1) [OF d'] canonical_contract_identity(1) [OF assms(2)] by simp
  show ?thesis using d' assms(2) id
    by (simp add: compute_contract_digest_def classify_contract_change_def document_change_def)
qed

theorem declaration_order_is_immaterial_witness:
  "eg_reordered \<noteq> eg_first
    \<and> compute_contract_digest eg_lib eg_reordered = compute_contract_digest eg_lib eg_first
    \<and> classify_contract_change eg_lib (Some eg_first) eg_reordered = Inr Ch_none"
proof -
  have differ: "eg_reordered \<noteq> eg_first" by code_simp
  have "distinct (map (\<lambda>f. lower_string (sf_name f)) (lb_physical_columns (lc_landing eg_first)))"
    "distinct (map pj_name (lc_projection eg_first))"
    "distinct (map (\<lambda>r. projr (compute_rule_id eg_lib r)) (qp_rules (dp_quality (lc_delivery eg_first))))"
    "mset (lb_physical_columns (lc_landing eg_reordered)) = mset (lb_physical_columns (lc_landing eg_first))"
    "mset (qp_rules (dp_quality (lc_delivery eg_reordered))) = mset (qp_rules (dp_quality (lc_delivery eg_first)))"
    by code_simp+
  moreover have "eg_reordered = eg_first
     \<lparr>lc_landing := (lc_landing eg_first)\<lparr>lb_physical_columns := lb_physical_columns (lc_landing eg_reordered),
        lb_content_encodings := lb_content_encodings (lc_landing eg_first)\<rparr>,
      lc_projection := lc_projection eg_first,
      lc_delivery := (lc_delivery eg_first)\<lparr>dp_quality := (dp_quality (lc_delivery eg_first))
        \<lparr>qp_rules := qp_rules (dp_quality (lc_delivery eg_reordered))\<rparr>\<rparr>\<rparr>"
    by code_simp
  ultimately have re: "reordered eg_lib eg_first eg_reordered"
    unfolding reordered_def by blast
  have "canonical_contract eg_lib eg_first = Inr eg_first" by code_simp
  from declaration_order_is_immaterial [OF re this] differ show ?thesis by blast
qed


section \<open>The published schema\<close>

lemma sorted_entries_unique:
  fixes xs ys :: "(ident \<times> column_spec) list"
  assumes "sorted (map fst xs)" and "distinct (map fst xs)" and "sorted (map fst ys)"
    and "distinct (map fst ys)" and "map_of (rev xs) = map_of (rev ys)"
  shows "xs = ys"
proof (rule map_sorted_distinct_set_unique [where f = fst])
  have "distinct (map fst (rev xs))" "distinct (map fst (rev ys))"
    using assms(2,4) by (simp_all add: rev_map [symmetric])
  with assms(5) have eq: "set (rev xs) = set (rev ys)" by (simp add: map_of_inject_set)
  then show "set xs = set ys" by simp
  show "inj_on fst (set xs \<union> set ys)" using eq assms(2) by (simp add: distinct_map)
qed (use assms in simp_all)

lemma distinct_map_sort: "distinct (map f (sort_key key xs)) = distinct (map f xs)"
  by (rule mset_eq_imp_distinct_iff) simp

definition published_entries :: "projection_field list \<Rightarrow> (ident \<times> column_spec) list" where
  "published_entries es = map (\<lambda>e. (pj_name e, pj_logical_type e, pj_nullable e)) es"

lemma no_minor_no_major_published:
  assumes "continues p c" and "\<not> has_minor_change p c"
  shows "map_of (projection_map (lc_projection p)) = map_of (projection_map (lc_projection c))"
proof
  fix n
  have ext: "extends_spec (projection_map (lc_projection p)) (projection_map (lc_projection c))"
    using assms(1) by (simp add: continues_def)
  have none: "\<not> column_added (projection_map (lc_projection p)) (projection_map (lc_projection c))"
    using assms(2) by (simp add: has_minor_change_def Let_def)
  show "map_of (projection_map (lc_projection p)) n = map_of (projection_map (lc_projection c)) n"
  proof (cases "map_of (projection_map (lc_projection p)) n")
    case None
    then have "n \<notin> set (map fst (projection_map (lc_projection p)))" by (simp add: map_of_eq_None_iff)
    with none have "n \<notin> set (map fst (projection_map (lc_projection c)))" by (auto simp: column_added_def)
    with None show ?thesis by (simp add: map_of_eq_None_iff [THEN iffD2])
  next
    case (Some x)
    with ext show ?thesis by (cases x) (simp add: extends_spec_def)
  qed
qed

text \<open>A change that is no more than a patch never moves the published schema a consumer binds to: the
  canonical published schema, and its digest, are those of the earlier contract.\<close>

theorem patch_keeps_published_schema:
  assumes "classify_contract_change lib (Some p) c = Inr k" and "k = Ch_none \<or> k = Ch_patch"
    and "distinct (map pj_name (lc_projection p))" and "distinct (map pj_name (lc_projection c))"
    and "canonical_contract lib p = Inr pd" and "canonical_contract lib c = Inr cd"
  shows "canonical_published_schema lib c = canonical_published_schema lib p
    \<and> compute_published_schema_digest lib c = compute_published_schema_digest lib p"
proof -
  note class' = classification_correct [OF assms(5,6), of k, THEN iffD1, OF assms(1)]
  have proj: "lc_projection pd = sort_key pj_name (lc_projection p)"
    "lc_projection cd = sort_key pj_name (lc_projection c)"
    using assms(5,6) by (auto simp: canonical_contract_def simp del: canonical_contract_identity)
  have "published_entries (lc_projection pd) = published_entries (lc_projection cd)"
  proof (cases "pd = cd")
    case False
    with class' assms(2) have "continues pd cd" "\<not> has_minor_change pd cd" by (auto split: if_splits)
    from no_minor_no_major_published [OF this] show ?thesis
      using assms(3,4) proj
      by (intro sorted_entries_unique)
         (simp_all add: published_entries_def projection_map_def comp_def distinct_map_sort)
  qed simp
  moreover have "canonical_published_schema lib x = Inr (map (\<lambda>(n, t, b).
      \<lparr>pu_name = n, pu_logical_type = t, pu_nullable = b\<rparr>) (published_entries (lc_projection d)))"
    if "canonical_contract lib x = Inr d" for x d
    using that by (simp add: canonical_published_schema_def published_entries_def comp_def)
  ultimately show ?thesis using assms(5,6) by (simp add: compute_published_schema_digest_def)
qed

definition eg_described :: landing_product_contract where
  "eg_described = eg_first\<lparr>lc_product := (lc_product eg_first)
     \<lparr>pf_product_version := ''1.0.1'', pf_owner := ''other''\<rparr>\<rparr>"

theorem patch_keeps_published_schema_witness:
  "classify_contract_change eg_lib (Some eg_reordered) eg_described = Inr Ch_patch
    \<and> canonical_published_schema eg_lib eg_described = canonical_published_schema eg_lib eg_reordered"
proof -
  have k: "classify_contract_change eg_lib (Some eg_reordered) eg_described = Inr Ch_patch" by code_simp
  have d: "distinct (map pj_name (lc_projection eg_reordered))"
    "distinct (map pj_name (lc_projection eg_described))" by code_simp+
  have c: "canonical_contract eg_lib eg_reordered = Inr eg_first"
    "canonical_contract eg_lib eg_described = Inr eg_described" by code_simp+
  from patch_keeps_published_schema [OF k _ d c] k show ?thesis by simp
qed

text \<open>The derived interface names do not tell every two tables apart.\<close>

lemma derive_interfaces_collides:
  "derive_interfaces ''crm_web'' ''orders'' = derive_interfaces ''crm'' ''web_orders''"
  by code_simp

end
