(* ===== verification/Cron.thy ===== *)
theory Cron
  imports Prelude Decimal_Text
begin

text \<open>
  The limited cron grammar of \<open>ergasterion/source_delivery.py\<close>: a field is a comma list of parts, each a
  star, a number or an ascending range inside its domain, the first and the last with an optional
  positive step; an expression is five fields, of which the two for the day combine as cron does.
\<close>

section \<open>Fields\<close>

datatype cron_error =
    Bad_part string string
  | Bad_step string string
  | Outside_domain string string
  | Descending_range string string
  | Step_without_range string string
  | Not_five_fields nat
  | Empty_cron_domain

datatype cron_base = Star | Single nat | Span nat nat

text \<open>The match of a part: its base and the step written after a slash.\<close>

definition step_suffix :: "string \<Rightarrow> nat option option" where
  "step_suffix s =
     (case s of [] \<Rightarrow> Some None
      | c # cs \<Rightarrow> if c \<noteq> CHR ''/'' then None
          else (case digits_prefix cs of Some (n, []) \<Rightarrow> Some (Some n) | _ \<Rightarrow> None))"

definition span_suffix :: "nat \<Rightarrow> string \<Rightarrow> cron_base \<times> string" where
  "span_suffix a s =
     (case s of [] \<Rightarrow> (Single a, [])
      | c # cs \<Rightarrow> if c = CHR ''-'' then (case digits_prefix cs of Some (b, rest) \<Rightarrow> (Span a b, rest)
            | None \<Rightarrow> (Single a, s))
          else (Single a, s))"

definition match_part :: "string \<Rightarrow> (cron_base \<times> nat option) option" where
  "match_part part =
     (case (case part of [] \<Rightarrow> None
            | c # cs \<Rightarrow> if c = CHR ''*'' then Some (Star, cs)
                else map_option (\<lambda>(a, rest). span_suffix a rest) (digits_prefix part)) of
        None \<Rightarrow> None
      | Some (base, rest) \<Rightarrow> map_option (\<lambda>step. (base, step)) (step_suffix rest))"

text \<open>\<open>range(start, end + 1, step)\<close>\<close>

definition stepped :: "nat \<Rightarrow> nat \<Rightarrow> nat \<Rightarrow> nat list" where
  "stepped start stop step = filter (\<lambda>n. (n - start) mod step = 0) [start..<Suc stop]"

definition part_values :: "string \<Rightarrow> nat \<Rightarrow> nat \<Rightarrow> string \<Rightarrow> cron_error + nat list" where
  "part_values at low high part =
     (case match_part part of
        None \<Rightarrow> Inl (Bad_part at part)
      | Some (base, step_given) \<Rightarrow>
          let step = (case step_given of None \<Rightarrow> 1 | Some n \<Rightarrow> n) in
          if step < 1 then Inl (Bad_step at part)
          else (case base of
              Star \<Rightarrow> Inr (stepped low high step)
            | Span a b \<Rightarrow>
                if \<not> (low \<le> a \<and> a \<le> high \<and> low \<le> b \<and> b \<le> high) then Inl (Outside_domain at part)
                else if a > b then Inl (Descending_range at part)
                else Inr (stepped a b step)
            | Single a \<Rightarrow>
                if step_given \<noteq> None then Inl (Step_without_range at part)
                else if \<not> (low \<le> a \<and> a \<le> high) then Inl (Outside_domain at part)
                else Inr (stepped a a step)))"

definition parse_cron_field :: "string \<Rightarrow> nat \<Rightarrow> nat \<Rightarrow> string \<Rightarrow> cron_error + nat list" where
  "parse_cron_field at low high tok =
     bind (map_result (part_values at low high) (split_on (CHR '','') tok)) (\<lambda>vs. Inr (remdups (concat vs)))"

section \<open>Expressions\<close>

record parsed_cron =
  pc_minutes :: "nat list"
  pc_hours :: "nat list"
  pc_days_of_month :: "nat list"
  pc_months :: "nat list"
  pc_days_of_week :: "nat list"
  pc_day_of_month_restricted :: bool
  pc_day_of_week_restricted :: bool

definition parse_cron_expression :: "string \<Rightarrow> cron_error + parsed_cron" where
  "parse_cron_expression expression =
     (case split_spaces expression of
        [minute, hour, day, month, weekday] \<Rightarrow>
          bind (parse_cron_field ''minute'' 0 59 minute) (\<lambda>minutes.
          bind (parse_cron_field ''hour'' 0 23 hour) (\<lambda>hours.
          bind (parse_cron_field ''day-of-month'' 1 31 day) (\<lambda>days.
          bind (parse_cron_field ''month'' 1 12 month) (\<lambda>months.
          bind (parse_cron_field ''day-of-week'' 0 6 weekday) (\<lambda>weekdays.
            if minutes = [] \<or> hours = [] \<or> days = [] \<or> months = [] \<or> weekdays = []
            then Inl Empty_cron_domain
            else Inr \<lparr>pc_minutes = minutes, pc_hours = hours, pc_days_of_month = days,
                      pc_months = months, pc_days_of_week = weekdays,
                      pc_day_of_month_restricted = (day \<noteq> ''*''),
                      pc_day_of_week_restricted = (weekday \<noteq> ''*'')\<rparr>)))))
      | toks \<Rightarrow> Inl (Not_five_fields (length toks)))"

section \<open>What the grammar means\<close>

text \<open>The parts as they are written, and the values each stands for.\<close>

datatype cron_part = Every "nat option" | Exactly nat | Between nat nat "nat option"

fun write_step :: "nat option \<Rightarrow> string" where
  "write_step None = []"
| "write_step (Some n) = CHR ''/'' # show_nat n"

fun write_part :: "cron_part \<Rightarrow> string" where
  "write_part (Every s) = CHR ''*'' # write_step s"
| "write_part (Exactly n) = show_nat n"
| "write_part (Between a b s) = show_nat a @ CHR ''-'' # show_nat b @ write_step s"

definition write_field :: "cron_part list \<Rightarrow> string" where
  "write_field parts = join_with (CHR '','') (map write_part parts)"

definition every :: "nat option \<Rightarrow> nat" where
  "every s = (case s of None \<Rightarrow> 1 | Some n \<Rightarrow> n)"

fun part_ok :: "nat \<Rightarrow> nat \<Rightarrow> cron_part \<Rightarrow> bool" where
  "part_ok low high (Every s) = (1 \<le> every s)"
| "part_ok low high (Exactly n) = (low \<le> n \<and> n \<le> high)"
| "part_ok low high (Between a b s) = (1 \<le> every s \<and> low \<le> a \<and> a \<le> b \<and> b \<le> high)"

fun part_means :: "nat \<Rightarrow> nat \<Rightarrow> cron_part \<Rightarrow> nat \<Rightarrow> bool" where
  "part_means low high (Every s) n = (\<exists>k. n = low + k * every s \<and> n \<le> high)"
| "part_means low high (Exactly a) n = (n = a)"
| "part_means low high (Between a b s) n = (\<exists>k. n = a + k * every s \<and> n \<le> b)"

lemma set_stepped: "set (stepped a b s) = {n. \<exists>k. n = a + k * s \<and> n \<le> b}"
proof -
  have "(n - a) mod s = 0 \<and> a \<le> n \<longleftrightarrow> (\<exists>k. n = a + k * s)" for n
  proof
    assume h: "(n - a) mod s = 0 \<and> a \<le> n"
    then obtain k where "n - a = k * s" by (metis dvd_div_mult_self mod_0_imp_dvd)
    with h have "n = a + k * s" by simp
    then show "\<exists>k. n = a + k * s" ..
  qed auto
  moreover have "set (stepped a b s) = {n. ((n - a) mod s = 0 \<and> a \<le> n) \<and> n \<le> b}"
    by (auto simp: stepped_def simp del: upt_Suc)
  ultimately show ?thesis by auto
qed

lemma no_digit_chars: "\<not> is_digit (CHR ''/'')" "\<not> is_digit (CHR ''-'')" "\<not> is_digit (CHR ''*'')"
  "\<not> is_digit (CHR '','')"
  by (simp_all add: is_digit_def)

lemma step_suffix_write [simp]: "step_suffix (write_step s) = Some s"
  using digits_prefix_show [of "[]"] by (cases s) (simp_all add: step_suffix_def)

lemma write_step_start: "write_step s = [] \<or> \<not> is_digit (hd (write_step s)) \<and> hd (write_step s) = CHR ''/''"
  by (cases s) (simp_all add: no_digit_chars)

lemma show_nat_first: "\<exists>c cs. show_nat n = c # cs \<and> is_digit c"
  using show_nat_digits [of n] by (cases "show_nat n") auto

lemma match_number:
  assumes "rest = [] \<or> \<not> is_digit (hd rest)"
  shows "match_part (show_nat n @ rest) =
    (case span_suffix n rest of (base, r) \<Rightarrow> map_option (\<lambda>step. (base, step)) (step_suffix r))"
proof -
  obtain c cs where c: "show_nat n = c # cs" "is_digit c" using show_nat_first by blast
  with no_digit_chars have "c \<noteq> CHR ''*''" by auto
  with c(1) digits_prefix_show [OF assms, of n] show ?thesis
    by (simp add: match_part_def split: prod.splits)
qed

lemma match_write_part:
  "match_part (write_part p) = Some (case p of Every s \<Rightarrow> (Star, s) | Exactly n \<Rightarrow> (Single n, None)
     | Between a b s \<Rightarrow> (Span a b, s))"
proof (cases p)
  case (Every s)
  then show ?thesis by (simp add: match_part_def)
next
  case (Exactly n)
  then show ?thesis using match_number [of "[]" n] by (simp add: span_suffix_def step_suffix_def)
next
  case (Between a b s)
  have "digits_prefix (show_nat b @ write_step s) = Some (b, write_step s)"
    by (rule digits_prefix_show) (use write_step_start in blast)
  with Between show ?thesis
    using match_number [of "CHR ''-'' # show_nat b @ write_step s" a]
    by (simp add: span_suffix_def no_digit_chars)
qed

lemma part_values_written:
  "part_values at low high (write_part (Every s)) =
    (if every s < 1 then Inl (Bad_step at (write_part (Every s))) else Inr (stepped low high (every s)))"
  "part_values at low high (write_part (Exactly n)) =
    (if low \<le> n \<and> n \<le> high then Inr (stepped n n 1) else Inl (Outside_domain at (write_part (Exactly n))))"
  "part_values at low high (write_part (Between a b s)) =
    (if every s < 1 then Inl (Bad_step at (write_part (Between a b s)))
     else if \<not> (low \<le> a \<and> a \<le> high \<and> low \<le> b \<and> b \<le> high)
       then Inl (Outside_domain at (write_part (Between a b s)))
     else if a > b then Inl (Descending_range at (write_part (Between a b s)))
     else Inr (stepped a b (every s)))"
  unfolding part_values_def match_write_part by (simp_all add: every_def Let_def)

lemma part_values_write:
  assumes "part_ok low high p"
  shows "\<exists>vs. part_values at low high (write_part p) = Inr vs \<and> set vs = {n. part_means low high p n}"
  using assms
  by (cases p) (auto simp: part_values_written set_stepped simp del: write_part.simps)

lemma part_refused:
  assumes "\<not> part_ok low high p"
  shows "\<exists>e. part_values at low high (write_part p) = Inl e"
  using assms
  by (cases p) (auto simp: part_values_written simp del: write_part.simps)

lemma show_nat_chars: "c \<in> set (show_nat n) \<Longrightarrow> is_digit c"
  using show_nat_digits [of n] by (auto simp: list_all_iff)

lemma write_part_chars: "c \<in> set (write_part p) \<Longrightarrow> is_digit c \<or> c \<in> {CHR ''*'', CHR ''/'', CHR ''-''}"
proof -
  have step: "c \<in> set (write_step s) \<Longrightarrow> is_digit c \<or> c = CHR ''/''" for s
    by (cases s) (auto dest: show_nat_chars)
  show "c \<in> set (write_part p) \<Longrightarrow> ?thesis"
    by (cases p) (auto dest: show_nat_chars step)
qed

lemma split_write_field:
  assumes "parts \<noteq> []"
  shows "split_on (CHR '','') (write_field parts) = map write_part parts"
proof -
  have "CHR '','' \<notin> set (write_part p)" for p
    using write_part_chars [of "CHR '',''" p] no_digit_chars(4) by auto
  with assms show ?thesis unfolding write_field_def by (intro split_on_join) auto
qed

lemma parse_written_field:
  assumes "parts \<noteq> []" and "\<forall>p \<in> set parts. part_ok low high p"
  shows "\<exists>vs. parse_cron_field at low high (write_field parts) = Inr vs
    \<and> set vs = {n. \<exists>p \<in> set parts. part_means low high p n}"
proof -
  let ?v = "\<lambda>p. projr (part_values at low high (write_part p))"
  have v: "part_values at low high (write_part p) = Inr (?v p) \<and> set (?v p) = {n. part_means low high p n}"
    if "p \<in> set parts" for p
    using part_values_write [of low high p at] assms(2) that by auto
  have "map_result (part_values at low high) (map write_part parts) = Inr (map ?v parts)"
    using v by (simp add: map_result_Inr list_all2_map1 list_all2_map2 list_all2_same)
  with assms(1) show ?thesis using v
    by (auto simp: parse_cron_field_def split_write_field)
qed

lemma refused_written_field:
  assumes "parts \<noteq> []" and "\<not> (\<forall>p \<in> set parts. part_ok low high p)"
  shows "\<exists>e. parse_cron_field at low high (write_field parts) = Inl e"
proof (cases "parse_cron_field at low high (write_field parts)")
  case (Inr vs)
  then obtain ys where "list_all2 (\<lambda>x y. part_values at low high x = Inr y) (map write_part parts) ys"
    using assms(1) by (auto simp: parse_cron_field_def split_write_field map_result_Inr)
  then have "\<exists>y. part_values at low high (write_part p) = Inr y" if "p \<in> set parts" for p
    using that by (auto simp: list_all2_conv_all_nth in_set_conv_nth)
  with assms(2) part_refused show ?thesis by (metis Inl_Inr_False)
qed simp

lemma parse_cron_field_nonempty:
  assumes "parse_cron_field at low high tok = Inr vs" and "low \<le> high"
  shows "vs \<noteq> [] \<and> (\<forall>n \<in> set vs. low \<le> n \<and> n \<le> high)"
proof -
  from assms(1) obtain yss where yss: "list_all2 (\<lambda>x y. part_values at low high x = Inr y) (split_on (CHR '','') tok) yss"
    "vs = remdups (concat yss)" by (auto simp: parse_cron_field_def map_result_Inr)
  have each: "ys \<noteq> [] \<and> (\<forall>n \<in> set ys. low \<le> n \<and> n \<le> high)" if "part_values at low high x = Inr ys" for x ys
  proof -
    have mem: "a \<in> set (stepped a b s)" if "a \<le> b" for a b s
      using that by (simp add: stepped_def del: upt_Suc)
    have range: "a \<le> n \<and> n \<le> b" if "n \<in> set (stepped a b s)" for a b s n
      using that by (auto simp: stepped_def simp del: upt_Suc)
    from that assms(2) obtain a b s where "ys = stepped a b s" "low \<le> a" "a \<le> b" "b \<le> high"
      by (auto simp: part_values_def Let_def simp del: upt_Suc
          split: option.splits prod.splits if_splits cron_base.splits)
    then show ?thesis using mem [of a b s] range [of _ a b s] by (metis empty_iff list.set(1) le_trans)
  qed
  have "split_on (CHR '','') tok \<noteq> []" by (induction tok) (auto split: list.splits)
  with yss(1) obtain y ys where "yss = y # ys" by (cases yss) auto
  moreover have "y \<in> set yss \<Longrightarrow> y \<noteq> [] \<and> (\<forall>n \<in> set y. low \<le> n \<and> n \<le> high)" for y
    using yss(1) each by (auto simp: list_all2_conv_all_nth in_set_conv_nth)
  ultimately show ?thesis using yss(2) by fastforce
qed

end
