(* ===== verification/Schedule_Boundaries.thy ===== *)
theory Schedule_Boundaries
  imports Landing_Contract Cron
begin

text \<open>
  The schedule engine of \<open>ergasterion/source_delivery.py\<close>: the scheduled occurrence at or before an
  instant, the one strictly after it, and whether an instant is an occurrence at all, for interval and
  cron schedules. Instants and local times are microseconds since 1970-01-01; a local day is its number
  from that date. Python's \<open>ZoneInfo\<close>, which reads the zone database, is a parameter.
\<close>

section \<open>Calendar\<close>

definition day_micros :: int where "day_micros = 86400000000"

text \<open>The month and day of month of a day number, in the proleptic Gregorian calendar of \<open>datetime.date\<close>.\<close>

definition month_and_day :: "int \<Rightarrow> int \<times> int" where
  "month_and_day day =
     (let z = day + 719468;
          doe = z mod 146097;
          yoe = (doe - doe div 1460 + doe div 36524 - doe div 146096) div 365;
          doy = doe - (365 * yoe + yoe div 4 - yoe div 100);
          mp = (5 * doy + 2) div 153
      in (if mp < 10 then mp + 3 else mp - 9, doy - (153 * mp + 2) div 5 + 1))"

text \<open>\<open>date.weekday()\<close>, Monday 0, and the weekday of cron, Sunday 0.\<close>

definition weekday :: "int \<Rightarrow> int" where
  "weekday day = (day + 3) mod 7"

definition cron_weekday :: "int \<Rightarrow> int" where
  "cron_weekday day = (weekday day + 1) mod 7"

definition day_matches :: "parsed_cron \<Rightarrow> int \<Rightarrow> bool" where
  "day_matches parsed day =
     (let (month, day_of_month) = month_and_day day in
      if nat month \<notin> set (pc_months parsed) then False
      else if pc_day_of_month_restricted parsed \<and> pc_day_of_week_restricted parsed
      then nat day_of_month \<in> set (pc_days_of_month parsed)
        \<or> nat (cron_weekday day) \<in> set (pc_days_of_week parsed)
      else if pc_day_of_month_restricted parsed then nat day_of_month \<in> set (pc_days_of_month parsed)
      else if pc_day_of_week_restricted parsed then nat (cron_weekday day) \<in> set (pc_days_of_week parsed)
      else True)"

section \<open>Zones\<close>

text \<open>\<open>astimezone(zone)\<close> of an instant, and \<open>replace(tzinfo=zone, fold=f).astimezone(utc)\<close> of a local time.\<close>

record zone =
  zn_local :: "instant \<Rightarrow> int"
  zn_utc :: "int \<Rightarrow> bool \<Rightarrow> instant"

definition local_day :: "zone \<Rightarrow> instant \<Rightarrow> int" where
  "local_day z t = zn_local z t div day_micros"

definition local_to_utc_instants :: "zone \<Rightarrow> int \<Rightarrow> instant list" where
  "local_to_utc_instants z naive =
     sort (remdups (filter (\<lambda>t. zn_local z t = naive) (map (zn_utc z naive) [False, True])))"

definition local_time :: "int \<Rightarrow> nat \<Rightarrow> nat \<Rightarrow> int" where
  "local_time day hour minute = day * day_micros + (int hour * 60 + int minute) * 60000000"

definition cron_day_occurrences :: "zone \<Rightarrow> parsed_cron \<Rightarrow> int \<Rightarrow> instant list" where
  "cron_day_occurrences z parsed day =
     sort (concat (map (\<lambda>hour. concat (map (\<lambda>minute.
       local_to_utc_instants z (local_time day hour minute)) (pc_minutes parsed))) (pc_hours parsed)))"

section \<open>The search\<close>

datatype schedule_error = Bad_expression cron_error | Unknown_zone string | No_occurrence

definition max_cron_search_days :: nat where "max_cron_search_days = 4 * 366 + 10"

text \<open>The loop over days, \<open>step\<close> days at a time, until a matching day has a candidate to pick.\<close>

fun search_days :: "(int \<Rightarrow> bool) \<Rightarrow> (int \<Rightarrow> instant option) \<Rightarrow> int \<Rightarrow> nat \<Rightarrow> int \<Rightarrow> instant option" where
  "search_days matches pick step 0 day = None"
| "search_days matches pick step (Suc n) day =
     (case (if matches day then pick day else None) of
        Some t \<Rightarrow> Some t
      | None \<Rightarrow> search_days matches pick step n (day + step))"

definition pick_with :: "(instant set \<Rightarrow> instant) \<Rightarrow> instant list \<Rightarrow> instant option" where
  "pick_with best candidates = (if candidates = [] then None else Some (best (set candidates)))"

definition load_cron :: "(string \<Rightarrow> zone option) \<Rightarrow> string \<Rightarrow> string \<Rightarrow> schedule_error + (zone \<times> parsed_cron)" where
  "load_cron zones expression timezone =
     (case zones timezone of
        None \<Rightarrow> Inl (Unknown_zone timezone)
      | Some z \<Rightarrow> (case parse_cron_expression expression of
            Inl e \<Rightarrow> Inl (Bad_expression e)
          | Inr parsed \<Rightarrow> Inr (z, parsed)))"

definition current_boundary_at ::
    "(string \<Rightarrow> zone option) \<Rightarrow> schedule \<Rightarrow> instant \<Rightarrow> schedule_error + instant option" where
  "current_boundary_at zones schedule at =
     (case schedule of
        Interval_schedule every_minutes anchor \<Rightarrow>
          if at < anchor then Inr None
          else let step = int every_minutes * 60000000 in Inr (Some (anchor + ((at - anchor) div step) * step))
      | Cron_schedule expression timezone starts_at version \<Rightarrow>
          if at < starts_at then Inr None
          else bind (load_cron zones expression timezone) (\<lambda>(z, parsed).
            Inr (search_days (day_matches parsed)
              (\<lambda>day. pick_with Max (filter (\<lambda>t. starts_at \<le> t \<and> t \<le> at) (cron_day_occurrences z parsed day)))
              (- 1) max_cron_search_days (local_day z at))))"

definition next_boundary_after ::
    "(string \<Rightarrow> zone option) \<Rightarrow> schedule \<Rightarrow> instant \<Rightarrow> schedule_error + instant" where
  "next_boundary_after zones schedule at =
     (case schedule of
        Interval_schedule every_minutes anchor \<Rightarrow>
          if at < anchor then Inr anchor
          else let step = int every_minutes * 60000000 in Inr (anchor + ((at - anchor) div step + 1) * step)
      | Cron_schedule expression timezone starts_at version \<Rightarrow>
          bind (load_cron zones expression timezone) (\<lambda>(z, parsed).
            case search_days (day_matches parsed)
              (\<lambda>day. pick_with Min (filter (\<lambda>t. t > at \<and> t \<ge> starts_at) (cron_day_occurrences z parsed day)))
              1 max_cron_search_days (local_day z (max at (starts_at - 1))) of
              Some t \<Rightarrow> Inr t
            | None \<Rightarrow> Inl No_occurrence))"

definition is_eligible_boundary ::
    "(string \<Rightarrow> zone option) \<Rightarrow> schedule \<Rightarrow> instant \<Rightarrow> instant \<Rightarrow> schedule_error + bool" where
  "is_eligible_boundary zones schedule boundary_at at =
     (if boundary_at > at then Inr False
      else bind (current_boundary_at zones schedule boundary_at) (\<lambda>b. Inr (b = Some boundary_at)))"

section \<open>What an occurrence is\<close>

text \<open>
  The laws of a zone: every instant is one of the two readings of its local time (PEP 495), and, for the
  ordering of days, an instant of an earlier local day comes before one of a later day.
\<close>

definition folds_cover :: "zone \<Rightarrow> bool" where
  "folds_cover z \<longleftrightarrow> (\<forall>t. t = zn_utc z (zn_local z t) False \<or> t = zn_utc z (zn_local z t) True)"

definition days_ordered :: "zone \<Rightarrow> bool" where
  "days_ordered z \<longleftrightarrow> (\<forall>t u. local_day z t < local_day z u \<longrightarrow> t < u)"

text \<open>The local times a parsed expression names.\<close>

definition cron_names :: "parsed_cron \<Rightarrow> int \<Rightarrow> bool" where
  "cron_names parsed naive \<longleftrightarrow> day_matches parsed (naive div day_micros)
     \<and> (\<exists>hour \<in> set (pc_hours parsed). \<exists>minute \<in> set (pc_minutes parsed).
          naive = local_time (naive div day_micros) hour minute)"

definition cron_occurs :: "zone \<Rightarrow> parsed_cron \<Rightarrow> instant \<Rightarrow> instant \<Rightarrow> bool" where
  "cron_occurs z parsed starts_at t \<longleftrightarrow> starts_at \<le> t \<and> cron_names parsed (zn_local z t)"

definition interval_occurs :: "nat \<Rightarrow> instant \<Rightarrow> instant \<Rightarrow> bool" where
  "interval_occurs every_minutes anchor t \<longleftrightarrow> (\<exists>k :: nat. t = anchor + int k * (int every_minutes * 60000000))"

text \<open>A parsed expression keeps to the domains of its fields.\<close>

definition cron_in_domain :: "parsed_cron \<Rightarrow> bool" where
  "cron_in_domain parsed \<longleftrightarrow> (\<forall>h \<in> set (pc_hours parsed). h \<le> 23) \<and> (\<forall>m \<in> set (pc_minutes parsed). m \<le> 59)"

lemma parse_cron_in_domain: "parse_cron_expression e = Inr parsed \<Longrightarrow> cron_in_domain parsed"
  using parse_cron_field_nonempty [of _ 0 59] parse_cron_field_nonempty [of _ 0 23]
  by (fastforce simp: parse_cron_expression_def cron_in_domain_def split: list.splits if_splits)

lemma local_time_day:
  assumes "h \<le> 23" and "m \<le> 59"
  shows "local_time day h m div day_micros = day"
proof -
  have "0 \<le> (int h * 60 + int m) * 60000000" "(int h * 60 + int m) * 60000000 < day_micros"
    using assms by (simp_all add: day_micros_def)
  then show ?thesis
    by (simp add: local_time_def div_pos_pos_trivial)
qed

lemma set_local_to_utc:
  assumes "folds_cover z"
  shows "set (local_to_utc_instants z naive) = {t. zn_local z t = naive}"
proof -
  have "t = zn_utc z naive False \<or> t = zn_utc z naive True" if "zn_local z t = naive" for t
    using assms that unfolding folds_cover_def by metis
  moreover have "set (local_to_utc_instants z naive)
      = {zn_utc z naive False, zn_utc z naive True} \<inter> {t. zn_local z t = naive}"
    unfolding local_to_utc_instants_def by (simp only: set_sort set_remdups set_filter set_map) auto
  ultimately show ?thesis by blast
qed

lemma set_day_occurrences:
  assumes "folds_cover z" and "cron_in_domain parsed"
  shows "set (cron_day_occurrences z parsed day) =
    {t. local_day z t = day \<and> (\<exists>h \<in> set (pc_hours parsed). \<exists>m \<in> set (pc_minutes parsed).
      zn_local z t = local_time day h m)}"
  using assms(2) local_time_day
  by (auto simp: cron_day_occurrences_def set_local_to_utc [OF assms(1)] local_day_def cron_in_domain_def)

lemma occurrence_on_day:
  assumes "folds_cover z" and "cron_in_domain parsed"
  shows "cron_occurs z parsed starts t \<longleftrightarrow>
    starts \<le> t \<and> day_matches parsed (local_day z t) \<and> t \<in> set (cron_day_occurrences z parsed (local_day z t))"
  by (auto simp: set_day_occurrences [OF assms] cron_occurs_def cron_names_def local_day_def)

section \<open>What the search finds\<close>

lemma search_days_found:
  assumes "search_days matches pick step n day = Some t"
  shows "\<exists>k < n. matches (day + int k * step) \<and> pick (day + int k * step) = Some t
      \<and> (\<forall>j < k. matches (day + int j * step) \<longrightarrow> pick (day + int j * step) = None)"
  using assms
proof (induction n arbitrary: day)
  case 0
  then show ?case by simp
next
  case (Suc n)
  have shift: "day + step + int k * step = day + int (Suc k) * step" for k
    by (simp add: algebra_simps)
  show ?case
  proof (cases "if matches day then pick day else None")
    case None
    then have here: "matches day \<longrightarrow> pick day = None" by (simp split: if_splits)
    from None Suc.prems have "search_days matches pick step n (day + step) = Some t" by simp
    from Suc.IH [OF this] obtain k where k: "k < n" "matches (day + int (Suc k) * step)"
      "pick (day + int (Suc k) * step) = Some t"
      "\<forall>j < k. matches (day + int (Suc j) * step) \<longrightarrow> pick (day + int (Suc j) * step) = None"
      unfolding shift by blast
    have "matches (day + int j * step) \<longrightarrow> pick (day + int j * step) = None" if "j < Suc k" for j
      using here k(4) that by (cases j) simp_all
    with k(1-3) show ?thesis by (intro exI [of _ "Suc k"]) blast
  next
    case (Some u)
    with Suc.prems have "matches day" "pick day = Some t" by (auto split: if_splits)
    then show ?thesis by (intro exI [of _ 0]) simp
  qed
qed

lemma search_days_missed:
  assumes "search_days matches pick step n day = None" and "k < n"
    and "matches (day + int k * step)"
  shows "pick (day + int k * step) = None"
  using assms
proof (induction n arbitrary: day k)
  case 0
  then show ?case by simp
next
  case (Suc n)
  have shift: "day + step + int j * step = day + int (Suc j) * step" for j
    by (simp add: algebra_simps)
  from Suc.prems(1) have here: "matches day \<longrightarrow> pick day = None"
    and rest: "search_days matches pick step n (day + step) = None"
    by (auto split: option.splits if_splits)
  show ?case
  proof (cases k)
    case 0
    with here Suc.prems(3) show ?thesis by simp
  next
    case (Suc j)
    from Suc.IH [OF rest, of j] Suc.prems(2,3) show ?thesis unfolding Suc shift by simp
  qed
qed

lemma pick_with_Some:
  assumes "pick_with Max candidates = Some t"
  shows "t \<in> set candidates \<and> (\<forall>u \<in> set candidates. u \<le> t)"
  using assms Max_in [of "set candidates"] by (auto simp: pick_with_def split: if_splits)

lemma pick_with_Min_Some:
  assumes "pick_with Min candidates = Some t"
  shows "t \<in> set candidates \<and> (\<forall>u \<in> set candidates. t \<le> u)"
  using assms Min_in [of "set candidates"] by (auto simp: pick_with_def split: if_splits)

lemma pick_with_None [simp]: "pick_with f candidates = None \<longleftrightarrow> candidates = []"
  by (simp add: pick_with_def)

definition candidates_until :: "zone \<Rightarrow> parsed_cron \<Rightarrow> instant \<Rightarrow> instant \<Rightarrow> int \<Rightarrow> instant list" where
  "candidates_until z parsed starts at day =
     filter (\<lambda>t. starts \<le> t \<and> t \<le> at) (cron_day_occurrences z parsed day)"

definition candidates_after :: "zone \<Rightarrow> parsed_cron \<Rightarrow> instant \<Rightarrow> instant \<Rightarrow> int \<Rightarrow> instant list" where
  "candidates_after z parsed starts at day =
     filter (\<lambda>t. t > at \<and> t \<ge> starts) (cron_day_occurrences z parsed day)"

lemma candidate_until_iff:
  assumes "folds_cover z" and "cron_in_domain parsed"
  shows "day_matches parsed day \<and> t \<in> set (candidates_until z parsed starts at day) \<longleftrightarrow>
    cron_occurs z parsed starts t \<and> t \<le> at \<and> local_day z t = day"
  by (auto simp: candidates_until_def occurrence_on_day [OF assms] set_day_occurrences [OF assms])

lemma candidate_after_iff:
  assumes "folds_cover z" and "cron_in_domain parsed"
  shows "day_matches parsed day \<and> t \<in> set (candidates_after z parsed starts at day) \<longleftrightarrow>
    cron_occurs z parsed starts t \<and> at < t \<and> local_day z t = day"
  by (auto simp: candidates_after_def occurrence_on_day [OF assms] set_day_occurrences [OF assms])

text \<open>The search backwards finds an occurrence, and the greatest when days are ordered.\<close>

lemma search_back_occurs:
  assumes "folds_cover z" and "cron_in_domain parsed"
    and "search_days (day_matches parsed) (\<lambda>d. pick_with Max (candidates_until z parsed starts at d))
      (- 1) n (local_day z at) = Some b"
  shows "cron_occurs z parsed starts b \<and> b \<le> at"
proof -
  from search_days_found [OF assms(3)] obtain d where
    "day_matches parsed d" "pick_with Max (candidates_until z parsed starts at d) = Some b" by blast
  with pick_with_Some have "b \<in> set (candidates_until z parsed starts at d)" by blast
  with \<open>day_matches parsed d\<close> candidate_until_iff [OF assms(1,2)] show ?thesis by blast
qed

lemma search_back_greatest:
  assumes "folds_cover z" and "cron_in_domain parsed" and "days_ordered z"
    and "search_days (day_matches parsed) (\<lambda>d. pick_with Max (candidates_until z parsed starts at d))
      (- 1) n (local_day z at) = Some b"
    and "cron_occurs z parsed starts t" and "t \<le> at"
  shows "t \<le> b"
proof -
  from search_days_found [OF assms(4)] obtain k where k:
    "day_matches parsed (local_day z at - int k)"
    "pick_with Max (candidates_until z parsed starts at (local_day z at - int k)) = Some b"
    "\<forall>j < k. day_matches parsed (local_day z at - int j) \<longrightarrow>
       candidates_until z parsed starts at (local_day z at - int j) = []" by auto
  note cand = candidate_until_iff [OF assms(1,2), of _ _ starts at]
  have b: "local_day z b = local_day z at - int k"
    using k(1) pick_with_Some [OF k(2)] cand by blast
  have upper: "local_day z t \<le> local_day z at"
    using assms(3,6) unfolding days_ordered_def by (metis not_le)
  show ?thesis
  proof (cases "local_day z t \<le> local_day z b")
    case le: True
    show ?thesis
    proof (cases "local_day z t = local_day z b")
      case True
      with assms(5,6) b cand have "t \<in> set (candidates_until z parsed starts at (local_day z at - int k))"
        by metis
      with pick_with_Some [OF k(2)] show ?thesis by blast
    next
      case False
      with le assms(3) have "t < b" unfolding days_ordered_def by simp
      then show ?thesis by simp
    qed
  next
    case False
    define j where "j = nat (local_day z at - local_day z t)"
    have j: "local_day z at - int j = local_day z t" "j < k" using False b upper by (auto simp: j_def)
    from assms(5,6) cand have "day_matches parsed (local_day z t)"
      "t \<in> set (candidates_until z parsed starts at (local_day z t))" by blast+
    with k(3) j show ?thesis by (metis empty_iff list.set(1))
  qed
qed

lemma search_back_none:
  assumes "folds_cover z" and "cron_in_domain parsed" and "days_ordered z"
    and "search_days (day_matches parsed) (\<lambda>d. pick_with Max (candidates_until z parsed starts at d))
      (- 1) n (local_day z at) = None"
    and "cron_occurs z parsed starts t" and "t \<le> at"
  shows "local_day z t + int n \<le> local_day z at"
proof (rule ccontr)
  assume far: "\<not> ?thesis"
  define j where "j = nat (local_day z at - local_day z t)"
  have "local_day z t \<le> local_day z at"
    using assms(3,6) unfolding days_ordered_def by (metis not_le)
  with far have j: "local_day z at + int j * - 1 = local_day z t" "j < n" by (auto simp: j_def)
  note cand = candidate_until_iff [OF assms(1,2), of _ t starts at]
  from assms(5,6) cand have "day_matches parsed (local_day z t)"
    "t \<in> set (candidates_until z parsed starts at (local_day z t))" by blast+
  moreover have "pick_with Max (candidates_until z parsed starts at (local_day z t)) = None"
    using search_days_missed [OF assms(4) j(2)] calculation(1) j(1) by simp
  ultimately show False by simp
qed

text \<open>The search forwards finds the least occurrence after the instant.\<close>

lemma search_ahead_least:
  assumes "folds_cover z" and "cron_in_domain parsed" and "days_ordered z"
    and "search_days (day_matches parsed) (\<lambda>d. pick_with Min (candidates_after z parsed starts at d))
      1 n (local_day z (max at (starts - 1))) = Some b"
  shows "cron_occurs z parsed starts b \<and> at < b \<and> (\<forall>t. cron_occurs z parsed starts t \<longrightarrow> at < t \<longrightarrow> b \<le> t)"
proof -
  let ?day = "local_day z (max at (starts - 1))"
  note cand = candidate_after_iff [OF assms(1,2), of _ _ starts at]
  from search_days_found [OF assms(4)] obtain k where k:
    "day_matches parsed (?day + int k)"
    "pick_with Min (candidates_after z parsed starts at (?day + int k)) = Some b"
    "\<forall>j < k. day_matches parsed (?day + int j) \<longrightarrow> candidates_after z parsed starts at (?day + int j) = []"
    by auto
  have b: "cron_occurs z parsed starts b" "at < b" "local_day z b = ?day + int k"
    using k(1) pick_with_Min_Some [OF k(2)] cand by blast+
  have "b \<le> t" if t: "cron_occurs z parsed starts t" "at < t" for t
  proof -
    have "\<not> t < max at (starts - 1)" using t by (auto simp: cron_occurs_def)
    with assms(3) have lower: "?day \<le> local_day z t" unfolding days_ordered_def by (metis not_le)
    consider "local_day z t < local_day z b" | "local_day z t = local_day z b" | "local_day z b < local_day z t"
      by linarith
    then show ?thesis
    proof cases
      case 1
      define j where "j = nat (local_day z t - ?day)"
      have j: "?day + int j = local_day z t" "j < k" using 1 b(3) lower by (auto simp: j_def)
      from t cand have "day_matches parsed (local_day z t)"
        "t \<in> set (candidates_after z parsed starts at (local_day z t))" by blast+
      with k(3) j show ?thesis by (metis empty_iff list.set(1))
    next
      case 2
      with t b(3) cand have "t \<in> set (candidates_after z parsed starts at (?day + int k))" by metis
      with pick_with_Min_Some [OF k(2)] show ?thesis by blast
    next
      case 3
      with assms(3) show ?thesis unfolding days_ordered_def by (meson less_imp_le)
    qed
  qed
  with b(1,2) show ?thesis by blast
qed

lemma search_ahead_none:
  assumes "folds_cover z" and "cron_in_domain parsed" and "days_ordered z"
    and "search_days (day_matches parsed) (\<lambda>d. pick_with Min (candidates_after z parsed starts at d))
      1 n (local_day z (max at (starts - 1))) = None"
    and "cron_occurs z parsed starts t" and "at < t"
  shows "local_day z (max at (starts - 1)) + int n \<le> local_day z t"
proof (rule ccontr)
  let ?day = "local_day z (max at (starts - 1))"
  assume far: "\<not> ?thesis"
  define j where "j = nat (local_day z t - ?day)"
  have "\<not> t < max at (starts - 1)" using assms(5,6) by (auto simp: cron_occurs_def)
  with assms(3) have "?day \<le> local_day z t" unfolding days_ordered_def by (metis not_le)
  with far have j: "?day + int j * 1 = local_day z t" "j < n" by (auto simp: j_def)
  note cand = candidate_after_iff [OF assms(1,2), of _ t starts at]
  from assms(5,6) cand have "day_matches parsed (local_day z t)"
    "t \<in> set (candidates_after z parsed starts at (local_day z t))" by blast+
  moreover have "pick_with Min (candidates_after z parsed starts at (local_day z t)) = None"
    using search_days_missed [OF assms(4) j(2)] calculation(1) j(1) by simp
  ultimately show False by simp
qed

section \<open>Schedules\<close>

text \<open>The occurrences of a schedule, and the schedules the engine can load.\<close>

definition occurs :: "(string \<Rightarrow> zone option) \<Rightarrow> schedule \<Rightarrow> instant \<Rightarrow> bool" where
  "occurs zones schedule t =
     (case schedule of
        Interval_schedule every_minutes anchor \<Rightarrow> interval_occurs every_minutes anchor t
      | Cron_schedule expression timezone starts_at version \<Rightarrow>
          (case load_cron zones expression timezone of
             Inl e \<Rightarrow> False
           | Inr (z, parsed) \<Rightarrow> cron_occurs z parsed starts_at t))"

definition schedule_loads :: "(string \<Rightarrow> zone option) \<Rightarrow> schedule \<Rightarrow> bool" where
  "schedule_loads zones schedule =
     (case schedule of
        Interval_schedule every_minutes anchor \<Rightarrow> every_minutes > 0
      | Cron_schedule expression timezone starts_at version \<Rightarrow>
          \<not> isl (load_cron zones expression timezone))"

definition zones_lawful :: "(string \<Rightarrow> zone option) \<Rightarrow> bool" where
  "zones_lawful zones \<longleftrightarrow> (\<forall>n z. zones n = Some z \<longrightarrow> folds_cover z)"

definition zones_ordered :: "(string \<Rightarrow> zone option) \<Rightarrow> bool" where
  "zones_ordered zones \<longleftrightarrow> (\<forall>n z. zones n = Some z \<longrightarrow> folds_cover z \<and> days_ordered z)"

lemma load_cron_Inr:
  "load_cron zones e tz = Inr (z, parsed) \<longleftrightarrow> zones tz = Some z \<and> parse_cron_expression e = Inr parsed"
  by (auto simp: load_cron_def split: option.splits sum.splits)

lemma current_boundary_cron:
  assumes "load_cron zones e tz = Inr (z, parsed)"
  shows "current_boundary_at zones (Cron_schedule e tz starts v) at =
    Inr (if at < starts then None
      else search_days (day_matches parsed) (\<lambda>d. pick_with Max (candidates_until z parsed starts at d))
        (- 1) max_cron_search_days (local_day z at))"
  using assms by (simp add: current_boundary_at_def candidates_until_def)

lemma next_boundary_cron:
  assumes "load_cron zones e tz = Inr (z, parsed)"
  shows "next_boundary_after zones (Cron_schedule e tz starts v) at =
    (case search_days (day_matches parsed) (\<lambda>d. pick_with Min (candidates_after z parsed starts at d))
        1 max_cron_search_days (local_day z (max at (starts - 1))) of
       Some t \<Rightarrow> Inr t | None \<Rightarrow> Inl No_occurrence)"
  using assms by (simp add: next_boundary_after_def candidates_after_def)

text \<open>Intervals: the quotient is the number of whole steps since the anchor.\<close>

lemma interval_floor:
  assumes "0 < n" and "anchor \<le> (at :: int)"
  defines "step \<equiv> int n * 60000000"
  shows "interval_occurs n anchor (anchor + ((at - anchor) div step) * step)"
    and "anchor + ((at - anchor) div step) * step \<le> at"
    and "at < anchor + ((at - anchor) div step + 1) * step"
    and "interval_occurs n anchor (anchor + ((at - anchor) div step + 1) * step)"
    and "interval_occurs n anchor t \<Longrightarrow> t \<le> at \<Longrightarrow> t \<le> anchor + ((at - anchor) div step) * step"
    and "interval_occurs n anchor t \<Longrightarrow> at < t \<Longrightarrow> anchor + ((at - anchor) div step + 1) * step \<le> t"
proof -
  have step: "0 < step" using assms(1) by (simp add: step_def)
  define q where "q = (at - anchor) div step"
  have q: "0 \<le> q" using assms(2) step by (simp add: q_def pos_imp_zdiv_nonneg_iff)
  have whole: "q * step + (at - anchor) mod step = at - anchor" unfolding q_def by (rule div_mult_mod_eq)
  have "0 \<le> (at - anchor) mod step" "(at - anchor) mod step < step" using step by simp_all
  with whole have qs: "q * step \<le> at - anchor" and qs1: "at - anchor < (q + 1) * step"
    by (simp_all add: distrib_right)
  show "interval_occurs n anchor (anchor + q * step)"
    using q by (auto simp: interval_occurs_def step_def intro!: exI [of _ "nat q"])
  show "interval_occurs n anchor (anchor + (q + 1) * step)"
    using q by (auto simp: interval_occurs_def step_def nat_add_distrib algebra_simps intro!: exI [of _ "nat (q + 1)"])
  show "anchor + q * step \<le> at" "at < anchor + (q + 1) * step" using qs qs1 by simp_all
  have k: "int k \<le> q" if "int k * step \<le> at - anchor" for k
  proof (rule ccontr)
    assume "\<not> int k \<le> q"
    then have "(q + 1) * step \<le> int k * step" using step by (intro mult_right_mono) simp_all
    with that qs1 show False by simp
  qed
  have k': "q + 1 \<le> int k" if "at - anchor < int k * step" for k
  proof (rule ccontr)
    assume "\<not> q + 1 \<le> int k"
    then have "int k * step \<le> q * step" using step by (intro mult_right_mono) simp_all
    with that qs show False by simp
  qed
  show "t \<le> anchor + q * step" if occ: "interval_occurs n anchor t" and le: "t \<le> at"
  proof -
    from occ obtain j where j: "t = anchor + int j * step" by (auto simp: interval_occurs_def step_def)
    with le k [of j] step show ?thesis by (simp add: mult_right_mono)
  qed
  show "anchor + (q + 1) * step \<le> t" if occ: "interval_occurs n anchor t" and le: "at < t"
  proof -
    from occ obtain j where j: "t = anchor + int j * step" by (auto simp: interval_occurs_def step_def)
    with le k' [of j] have "(q + 1) * step \<le> int j * step" using step by (intro mult_right_mono) simp_all
    with j show ?thesis by simp
  qed
qed

lemma interval_occurs_code [code]:
  "interval_occurs n anchor t \<longleftrightarrow> anchor \<le> t \<and> (t - anchor) mod (int n * 60000000) = 0"
proof
  assume r: "anchor \<le> t \<and> (t - anchor) mod (int n * 60000000) = 0"
  then obtain k where k: "t - anchor = int n * 60000000 * k" by (auto simp: mod_eq_0_iff_dvd dvd_def)
  have "t = anchor + int (nat k) * (int n * 60000000)"
  proof (cases "0 \<le> k")
    case True
    with k show ?thesis by (simp add: algebra_simps)
  next
    case False
    then have "int n * 60000000 * k \<le> 0" by (simp add: mult_nonneg_nonpos)
    with k r have "t = anchor" by linarith
    with k False show ?thesis by auto
  qed
  then show "interval_occurs n anchor t" unfolding interval_occurs_def by blast
qed (auto simp: interval_occurs_def)

lemma interval_starts: "interval_occurs n anchor t \<Longrightarrow> anchor \<le> t"
  by (auto simp: interval_occurs_def)

lemma interval_anchor: "interval_occurs n anchor anchor"
  by (auto simp: interval_occurs_def intro!: exI [of _ 0])

end
