(* ===== verification/Schedule_Props.thy ===== *)
theory Schedule_Props
  imports Schedule_Boundaries
begin

text \<open>
  What the schedule engine guarantees: the meaning of a cron field, which instants are eligible
  boundaries, and that the boundary before and the one after an instant are the neighbouring occurrences.
\<close>

section \<open>Cron fields\<close>

text \<open>A cron field written as a comma list of parts is accepted exactly when every part keeps to the
  domain, ascends and steps by at least one, and then stands for exactly the values its parts name.\<close>

theorem cron_field_correct:
  assumes "parts \<noteq> []"
  shows "if \<forall>p \<in> set parts. part_ok low high p
    then \<exists>vs. parse_cron_field at low high (write_field parts) = Inr vs
      \<and> set vs = {n. \<exists>p \<in> set parts. part_means low high p n}
    else \<exists>e. parse_cron_field at low high (write_field parts) = Inl e"
  using parse_written_field [OF assms] refused_written_field [OF assms] by simp

theorem cron_field_correct_witness:
  "write_field [Every (Some 20), Exactly 5, Between 10 14 None] = ''*/20,5,10-14''
    \<and> (\<exists>vs. parse_cron_field ''minute'' 0 59 ''*/20,5,10-14'' = Inr vs \<and> set vs = {0, 20, 40, 5, 10, 11, 12, 13, 14})
    \<and> (\<exists>e. parse_cron_field ''hour'' 0 23 (write_field [Between 10 24 None]) = Inl e)"
proof -
  let ?parts = "[Every (Some 20), Exactly 5, Between 10 14 None]"
  have written: "write_field ?parts = ''*/20,5,10-14''" by code_simp
  have every: "(\<exists>k. n = k * 20 \<and> n \<le> 59) \<longleftrightarrow> n \<in> {0, 20, 40}" for n :: nat by (simp add: mult.commute) presburger
  have between: "(\<exists>k. n = 10 + k \<and> n \<le> 14) \<longleftrightarrow> n \<in> {10, 11, 12, 13, 14}" for n :: nat by simp presburger
  have "{n. \<exists>p \<in> set ?parts. part_means 0 59 p n} = {0, 20, 40, 5, 10, 11, 12, 13, 14}"
    using every between by (auto simp: every_def)
  with cron_field_correct [of ?parts 0 59 "''minute''"] written
  have "\<exists>vs. parse_cron_field ''minute'' 0 59 ''*/20,5,10-14'' = Inr vs
      \<and> set vs = {0, 20, 40, 5, 10, 11, 12, 13, 14}" by (simp add: every_def)
  moreover from cron_field_correct [of "[Between 10 24 None]" 0 23 "''hour''"]
  have "\<exists>e. parse_cron_field ''hour'' 0 23 (write_field [Between 10 24 None]) = Inl e" by simp
  ultimately show ?thesis using written by blast
qed

section \<open>An example zone\<close>

text \<open>A zone two hours ahead of UTC until it falls back by an hour on one night, at three o'clock.\<close>

definition eg_change :: instant where "eg_change = 20000 * day_micros + 3600000000"

definition eg_zone :: zone where
  "eg_zone = \<lparr>zn_local = (\<lambda>t. if t < eg_change then t + 7200000000 else t + 3600000000),
     zn_utc = (\<lambda>n fold. if fold then (if n - 3600000000 \<ge> eg_change then n - 3600000000 else n - 7200000000)
       else (if n - 7200000000 < eg_change then n - 7200000000 else n - 3600000000))\<rparr>"

definition eg_zones :: "string \<Rightarrow> zone option" where
  "eg_zones n = (if n = ''Test/Zone'' then Some eg_zone else None)"

lemma eg_zone_covers: "folds_cover eg_zone"
  by (auto simp: folds_cover_def eg_zone_def)

lemma eg_zone_ordered: "days_ordered eg_zone"
  unfolding days_ordered_def
proof (intro allI impI)
  fix t u :: instant
  assume less: "local_day eg_zone t < local_day eg_zone u"
  show "t < u"
  proof (rule ccontr)
    assume "\<not> t < u"
    then have tu: "u \<le> t" by simp
    have mono: "local_day eg_zone u \<le> local_day eg_zone t" if "(u < eg_change) = (t < eg_change)"
      using that tu by (auto simp: local_day_def eg_zone_def day_micros_def intro!: zdiv_mono1)
    have "local_day eg_zone u \<le> 20000" if "u < eg_change"
    proof -
      have "(u + 7200000000) div day_micros \<le> (eg_change + 7200000000) div day_micros"
        using that by (intro zdiv_mono1) (simp_all add: day_micros_def)
      with that show ?thesis by (simp add: local_day_def eg_zone_def eg_change_def day_micros_def)
    qed
    moreover have "20000 \<le> local_day eg_zone t" if "\<not> t < eg_change"
    proof -
      have "(eg_change + 3600000000) div day_micros \<le> (t + 3600000000) div day_micros"
        using that by (intro zdiv_mono1) (simp_all add: day_micros_def)
      with that show ?thesis by (simp add: local_day_def eg_zone_def eg_change_def day_micros_def)
    qed
    ultimately show False using less mono tu by (cases "u < eg_change"; cases "t < eg_change") auto
  qed
qed

lemma eg_zones_ordered: "zones_ordered eg_zones" "zones_lawful eg_zones"
  using eg_zone_covers eg_zone_ordered by (simp_all add: zones_ordered_def zones_lawful_def eg_zones_def)

text \<open>Every night at half past two, which happens twice in the night of the change.\<close>

definition eg_nightly :: schedule where
  "eg_nightly = Cron_schedule ''30 2 * * *'' ''Test/Zone'' 0 ''2026.2''"

lemma eg_nightly_loads: "schedule_loads eg_zones eg_nightly"
  by code_simp

section \<open>Boundaries\<close>

text \<open>C35: An instant is an eligible boundary of a schedule exactly when it is one of its occurrences -
  a whole number of steps from the anchor, or an instant from the lower bound on whose local time the
  expression names, both readings of a repeated local time included and none of a skipped one - and not
  after the evaluation time.\<close>

theorem eligible_boundary_iff:
  assumes "schedule_loads zones schedule" and "zones_lawful zones"
  shows "is_eligible_boundary zones schedule b at = Inr (b \<le> at \<and> occurs zones schedule b)"
proof (cases schedule)
  case (Interval_schedule n anchor)
  with assms(1) have n: "0 < n" by (simp add: schedule_loads_def)
  show ?thesis
  proof (cases "b < anchor")
    case True
    with Interval_schedule show ?thesis
      by (auto simp: is_eligible_boundary_def current_boundary_at_def occurs_def dest: interval_starts)
  next
    case False
    then have le: "anchor \<le> b" by simp
    let ?f = "anchor + ((b - anchor) div (int n * 60000000)) * (int n * 60000000)"
    have "?f = b \<longleftrightarrow> interval_occurs n anchor b"
      using interval_floor(1,2) [OF n le] interval_floor(5) [OF n le, of b] by (metis order.antisym order.refl)
    with Interval_schedule False show ?thesis
      by (auto simp: is_eligible_boundary_def current_boundary_at_def occurs_def Let_def)
  qed
next
  case (Cron_schedule e tz starts v)
  with assms(1) obtain z parsed where load: "load_cron zones e tz = Inr (z, parsed)"
    by (cases "load_cron zones e tz") (auto simp: schedule_loads_def)
  with assms(2) have z: "folds_cover z" and dom: "cron_in_domain parsed"
    by (auto simp: load_cron_Inr zones_lawful_def intro: parse_cron_in_domain)
  let ?search = "search_days (day_matches parsed) (\<lambda>d. pick_with Max (candidates_until z parsed starts b d))
      (- 1) max_cron_search_days (local_day z b)"
  have "starts \<le> b \<and> ?search = Some b \<longleftrightarrow> cron_occurs z parsed starts b"
  proof
    assume "starts \<le> b \<and> ?search = Some b"
    then show "cron_occurs z parsed starts b" using search_back_occurs [OF z dom] by blast
  next
    assume occ: "cron_occurs z parsed starts b"
    then have mem: "day_matches parsed (local_day z b)"
      "b \<in> set (candidates_until z parsed starts b (local_day z b))"
      using candidate_until_iff [OF z dom, of _ b starts b] by blast+
    obtain t where t: "pick_with Max (candidates_until z parsed starts b (local_day z b)) = Some t"
      using mem(2) by (cases "candidates_until z parsed starts b (local_day z b)") (auto simp: pick_with_def)
    with pick_with_Some [OF t] mem(2) have "t = b"
      by (auto simp: candidates_until_def intro: order.antisym)
    moreover have "?search = (case (if day_matches parsed (local_day z b)
        then pick_with Max (candidates_until z parsed starts b (local_day z b)) else None) of
        Some u \<Rightarrow> Some u
      | None \<Rightarrow> search_days (day_matches parsed) (\<lambda>d. pick_with Max (candidates_until z parsed starts b d))
          (- 1) 1473 (local_day z b + - 1))"
      using search_days.simps(2) [of "day_matches parsed" _ "- 1" 1473 "local_day z b"]
      by (simp add: max_cron_search_days_def)
    ultimately have "?search = Some b" using mem(1) t by simp
    with occ show "starts \<le> b \<and> ?search = Some b" by (simp add: cron_occurs_def)
  qed
  with Cron_schedule load show ?thesis
    by (auto simp: is_eligible_boundary_def current_boundary_cron [OF load] occurs_def)
qed

theorem eligible_boundary_iff_witness:
  "is_eligible_boundary eg_zones eg_nightly (eg_change - 1800000000) eg_change = Inr True
    \<and> is_eligible_boundary eg_zones eg_nightly (eg_change + 1800000000) (eg_change + 1800000000) = Inr True
    \<and> is_eligible_boundary eg_zones eg_nightly eg_change eg_change = Inr False"
proof -
  have "occurs eg_zones eg_nightly (eg_change - 1800000000)"
    "occurs eg_zones eg_nightly (eg_change + 1800000000)" "\<not> occurs eg_zones eg_nightly eg_change"
    by code_simp+
  then show ?thesis using eligible_boundary_iff [OF eg_nightly_loads eg_zones_ordered(2)] by simp
qed

text \<open>What an answer of the engine means: no occurrence is known to be nearer, and where it finds none
  there is none within the days it searches.\<close>

definition within_search :: "(string \<Rightarrow> zone option) \<Rightarrow> schedule \<Rightarrow> instant \<Rightarrow> instant \<Rightarrow> bool" where
  "within_search zones schedule t u =
     (case schedule of
        Interval_schedule every_minutes anchor \<Rightarrow> True
      | Cron_schedule expression timezone starts_at version \<Rightarrow>
          (case zones timezone of None \<Rightarrow> False
           | Some z \<Rightarrow> \<bar>local_day z t - local_day z (max u (starts_at - 1))\<bar> < int max_cron_search_days))"

text \<open>The current boundary is the greatest occurrence at or before the instant; there is none only
  when no occurrence up to the instant lies within the days searched.\<close>

theorem current_boundary_greatest:
  assumes "schedule_loads zones schedule" and "zones_ordered zones"
  shows "case current_boundary_at zones schedule at of
      Inr (Some b) \<Rightarrow> occurs zones schedule b \<and> b \<le> at
        \<and> (\<forall>t. occurs zones schedule t \<and> t \<le> at \<longrightarrow> t \<le> b)
    | Inr None \<Rightarrow> \<forall>t. occurs zones schedule t \<and> within_search zones schedule t at \<longrightarrow> at < t
    | Inl e \<Rightarrow> False"
proof (cases schedule)
  case (Interval_schedule n anchor)
  with assms(1) have n: "0 < n" by (simp add: schedule_loads_def)
  show ?thesis
  proof (cases "at < anchor")
    case True
    with Interval_schedule show ?thesis
      by (fastforce simp: current_boundary_at_def occurs_def dest: interval_starts)
  next
    case False
    then have le: "anchor \<le> at" by simp
    from interval_floor(1,2,5) [OF n le] Interval_schedule False show ?thesis
      by (simp add: current_boundary_at_def occurs_def Let_def)
  qed
next
  case (Cron_schedule e tz starts v)
  with assms(1) obtain z parsed where load: "load_cron zones e tz = Inr (z, parsed)"
    by (cases "load_cron zones e tz") (auto simp: schedule_loads_def)
  with assms(2) have z: "folds_cover z" "days_ordered z" "zones tz = Some z" and dom: "cron_in_domain parsed"
    by (auto simp: load_cron_Inr zones_ordered_def intro: parse_cron_in_domain)
  have occ: "occurs zones schedule t = cron_occurs z parsed starts t" for t
    using load Cron_schedule by (simp add: occurs_def)
  let ?search = "search_days (day_matches parsed) (\<lambda>d. pick_with Max (candidates_until z parsed starts at d))
      (- 1) max_cron_search_days (local_day z at)"
  show ?thesis
  proof (cases "at < starts")
    case True
    then have "current_boundary_at zones schedule at = Inr None"
      using Cron_schedule by (simp add: current_boundary_cron [OF load])
    with True show ?thesis by (auto simp: occ cron_occurs_def)
  next
    case False
    then have cur: "current_boundary_at zones schedule at = Inr ?search" and at: "max at (starts - 1) = at"
      using Cron_schedule by (simp_all add: current_boundary_cron [OF load])
    show ?thesis
    proof (cases ?search)
      case None
      have "at < t" if t: "cron_occurs z parsed starts t" "within_search zones schedule t at" for t
      proof (rule ccontr)
        assume "\<not> at < t"
        with search_back_none [OF z(1) dom z(2) None t(1)]
        have "local_day z t + int max_cron_search_days \<le> local_day z at" by simp
        with t(2) z(3) Cron_schedule at show False by (simp add: within_search_def)
      qed
      with cur None occ show ?thesis by simp
    next
      case (Some b)
      from search_back_occurs [OF z(1) dom Some] search_back_greatest [OF z(1) dom z(2) Some] cur Some occ
      show ?thesis by simp
    qed
  qed
qed

theorem current_boundary_greatest_witness:
  "current_boundary_at eg_zones eg_nightly (eg_change + 1700000000) = Inr (Some (eg_change - 1800000000))
    \<and> {t. occurs eg_zones eg_nightly t \<and> eg_change - 1800000000 < t \<and> t \<le> eg_change + 1700000000} = {}"
proof -
  have "current_boundary_at eg_zones eg_nightly (eg_change + 1700000000) = Inr (Some (eg_change - 1800000000))"
    by code_simp
  with current_boundary_greatest [OF eg_nightly_loads eg_zones_ordered(1), of "eg_change + 1700000000"]
  show ?thesis by fastforce
qed

text \<open>The next boundary is the least occurrence strictly after the instant; the search fails only when
  no occurrence after the instant lies within the days searched.\<close>

theorem next_boundary_least:
  assumes "schedule_loads zones schedule" and "zones_ordered zones"
  shows "case next_boundary_after zones schedule at of
      Inr b \<Rightarrow> occurs zones schedule b \<and> at < b
        \<and> (\<forall>t. occurs zones schedule t \<and> at < t \<longrightarrow> b \<le> t)
    | Inl e \<Rightarrow> e = No_occurrence
        \<and> (\<forall>t. occurs zones schedule t \<and> within_search zones schedule t at \<longrightarrow> t \<le> at)"
proof (cases schedule)
  case (Interval_schedule n anchor)
  with assms(1) have n: "0 < n" by (simp add: schedule_loads_def)
  show ?thesis
  proof (cases "at < anchor")
    case True
    with Interval_schedule interval_anchor [of n anchor] show ?thesis
      by (auto simp: next_boundary_after_def occurs_def dest: interval_starts)
  next
    case False
    then have le: "anchor \<le> at" by simp
    from interval_floor(3,4,6) [OF n le] Interval_schedule False show ?thesis
      by (simp add: next_boundary_after_def occurs_def Let_def)
  qed
next
  case (Cron_schedule e tz starts v)
  with assms(1) obtain z parsed where load: "load_cron zones e tz = Inr (z, parsed)"
    by (cases "load_cron zones e tz") (auto simp: schedule_loads_def)
  with assms(2) have z: "folds_cover z" "days_ordered z" "zones tz = Some z" and dom: "cron_in_domain parsed"
    by (auto simp: load_cron_Inr zones_ordered_def intro: parse_cron_in_domain)
  have occ: "occurs zones schedule t = cron_occurs z parsed starts t" for t
    using load Cron_schedule by (simp add: occurs_def)
  let ?search = "search_days (day_matches parsed) (\<lambda>d. pick_with Min (candidates_after z parsed starts at d))
      1 max_cron_search_days (local_day z (max at (starts - 1)))"
  show ?thesis
  proof (cases ?search)
    case None
    have "t \<le> at" if t: "cron_occurs z parsed starts t" "within_search zones schedule t at" for t
    proof (rule ccontr)
      assume "\<not> t \<le> at"
      with search_ahead_none [OF z(1) dom z(2) None t(1)]
      have "local_day z (max at (starts - 1)) + int max_cron_search_days \<le> local_day z t" by simp
      with t(2) z(3) Cron_schedule show False by (simp add: within_search_def)
    qed
    with None Cron_schedule occ show ?thesis by (simp add: next_boundary_cron [OF load])
  next
    case (Some b)
    with search_ahead_least [OF z(1) dom z(2) Some] Cron_schedule occ show ?thesis
      by (simp add: next_boundary_cron [OF load])
  qed
qed

theorem next_boundary_least_witness:
  "next_boundary_after eg_zones eg_nightly (eg_change - 1800000000) = Inr (eg_change + 1800000000)
    \<and> {t. occurs eg_zones eg_nightly t \<and> eg_change - 1800000000 < t \<and> t < eg_change + 1800000000} = {}"
proof -
  have "next_boundary_after eg_zones eg_nightly (eg_change - 1800000000) = Inr (eg_change + 1800000000)"
    by code_simp
  with next_boundary_least [OF eg_nightly_loads eg_zones_ordered(1), of "eg_change - 1800000000"]
  show ?thesis by fastforce
qed

section \<open>The length of the search\<close>

text \<open>Between 29 February 2096 and 29 February 2104 lie 2921 days, more than the engine searches.\<close>

lemma leap_days_across_2100:
  "month_and_day 46080 = (2, 29) \<and> month_and_day 49001 = (2, 29) \<and> max_cron_search_days < 2921"
  by code_simp

end
