(* ===== verification/Contract_Validation.thy ===== *)
theory Contract_Validation
  imports Contract_Change Schedule_Boundaries
begin

text \<open>
  The semantic gate of \<open>ergasterion/source_delivery.py\<close>: every cross-field rule of a Landing contract,
  each violation as a value instead of its message, collected in the order the code collects them.
  The installed zone database is a parameter.
\<close>

section \<open>Violations\<close>

datatype (plugins only: code) violation =
    Progress_not_allowed | Delete_strategy_not_allowed | Event_field_required | Effective_field_required
  | Tombstone_required | Tombstone_not_admitted | Snapshot_required | Snapshot_not_admitted
  | Record_key_empty | Record_key_repeats | Fingerprint_required | Fingerprint_forbidden
  | Snapshot_scope_differs | Valid_rows_not_admitted | Error_fraction_not_zero
  | Lateness_not_ascending | Maximum_age_not_ascending | Retry_cap_below_base
  | Cron_invalid cron_error | Timezone_unknown string | Timezone_data_differs string
  | Duplicate_rule digest | Unique_key_repeats "ident list"
  | Range_unbounded ident | Range_kinds_differ ident | Range_descending ident
  | Row_count_unbounded | Row_count_descending | Accepted_values_empty ident
  | Set_repeats string
  | Codec_not_one_char string | Codec_marks_collide | Null_tokens_repeat
  | Columns_repeat | Columns_empty | Encodings_repeat
  | Reserved_collides string ident | Reserved_repeat | Key_ids_repeat | Key_ids_empty
  | No_such_column string ident | Tombstone_kind_differs ident | Rule_kind_differs ident
  | Projection_empty | Projection_repeats | No_such_source ident ident
  | Projection_kind_differs ident | Projection_narrows_null ident | Interfaces_authored

definition violation_if :: "bool \<Rightarrow> violation \<Rightarrow> violation list" where
  "violation_if bad v = (if bad then [v] else [])"

lemma violation_if_Nil [simp]: "violation_if bad v = [] \<longleftrightarrow> \<not> bad"
  by (simp add: violation_if_def)

section \<open>Quality rules\<close>

text \<open>\<open>Decimal.scaleb\<close> rounds its result to the 28 digits of the default context, half to even.\<close>

definition round_28 :: "int \<Rightarrow> int" where
  "round_28 u =
     (let n = length (show_nat (nat \<bar>u\<bar>)) in
      if n \<le> 28 then u
      else let p = 10 ^ (n - 28); q = \<bar>u\<bar> div p; r = \<bar>u\<bar> mod p;
               q' = (if 2 * r > p \<or> 2 * r = p \<and> odd q then q + 1 else q)
           in sgn u * q' * p)"

definition decimal_greater :: "int \<Rightarrow> nat \<Rightarrow> int \<Rightarrow> nat \<Rightarrow> bool" where
  "decimal_greater u s u' s' \<longleftrightarrow> round_28 u * 10 ^ s' > round_28 u' * 10 ^ s"

text \<open>\<open>_typed_scalar_order_key\<close> of the first above that of the second, for scalars of one kind.\<close>

fun scalar_greater :: "typed_scalar \<Rightarrow> typed_scalar \<Rightarrow> bool" where
  "scalar_greater (T_decimal u s) (T_decimal u' s') = decimal_greater u s u' s'"
| "scalar_greater (T_int64 a) (T_int64 b) = (a > b)"
| "scalar_greater (T_boolean a) (T_boolean b) = (a \<and> \<not> b)"
| "scalar_greater (T_binary a) (T_binary b) = (a > b)"
| "scalar_greater (T_date a) (T_date b) = (a > b)"
| "scalar_greater (T_local_datetime a _) (T_local_datetime b _) = (a > b)"
| "scalar_greater (T_string a) (T_string b) = (a > b)"
| "scalar_greater (T_utc_instant a) (T_utc_instant b) = (a > b)"
| "scalar_greater _ _ = False"

definition rule_violations :: "quality_rule \<Rightarrow> violation list" where
  "rule_violations r =
     (case r of
        Unique_key fs sev \<Rightarrow> violation_if (\<not> distinct fs) (Unique_key_repeats fs)
      | Range_rule f lo hi allow sev \<Rightarrow>
          (case (lo, hi) of
             (None, None) \<Rightarrow> [Range_unbounded f]
           | (Some a, Some b) \<Rightarrow>
               if scalar_kind a \<noteq> scalar_kind b then [Range_kinds_differ f]
               else violation_if (scalar_greater a b) (Range_descending f)
           | _ \<Rightarrow> [])
      | Row_count lo hi sev \<Rightarrow>
          (case (lo, hi) of
             (None, None) \<Rightarrow> [Row_count_unbounded]
           | (Some a, Some b) \<Rightarrow> violation_if (a > b) Row_count_descending
           | _ \<Rightarrow> [])
      | Accepted_values f vs allow sev \<Rightarrow> violation_if (vs = []) (Accepted_values_empty f)
      | Not_null f sev \<Rightarrow> [])"

fun quality_violations ::
    "canonical_lib \<Rightarrow> digest list \<Rightarrow> quality_rule list \<Rightarrow> contract_error + violation list" where
  "quality_violations lib seen [] = Inr []"
| "quality_violations lib seen (r # rs) =
     bind (compute_rule_id lib r) (\<lambda>i.
     bind (quality_violations lib (i # seen) rs) (\<lambda>vs.
     Inr (violation_if (i \<in> set seen) (Duplicate_rule i) @ rule_violations r @ vs)))"

section \<open>The delivery policy\<close>

definition schedule_violations :: "(string \<Rightarrow> zone option) \<Rightarrow> string \<Rightarrow> schedule \<Rightarrow> violation list" where
  "schedule_violations zones installed schedule =
     (case schedule of
        Interval_schedule every_minutes anchor \<Rightarrow> []
      | Cron_schedule expression timezone starts_at version \<Rightarrow>
          (case parse_cron_expression expression of Inl e \<Rightarrow> [Cron_invalid e] | Inr _ \<Rightarrow> [])
          @ violation_if (zones timezone = None) (Timezone_unknown timezone)
          @ violation_if (version \<noteq> installed) (Timezone_data_differs version))"

definition progress_allowed :: "delivery_mode \<Rightarrow> progress_contract \<Rightarrow> bool" where
  "progress_allowed mode progress =
     (case mode of
        Cdc \<Rightarrow> (case progress of Sequence_progress _ \<Rightarrow> True | Opaque_batch_progress \<Rightarrow> False)
      | Append_only \<Rightarrow> True
      | Complete_snapshot \<Rightarrow> (case progress of Sequence_progress _ \<Rightarrow> False | Opaque_batch_progress \<Rightarrow> True))"

definition delete_strategies :: "delivery_mode \<Rightarrow> delete_strategy list" where
  "delete_strategies mode =
     (case mode of Cdc \<Rightarrow> [No_deletes, Explicit_tombstone] | Append_only \<Rightarrow> [No_deletes]
      | Complete_snapshot \<Rightarrow> [Snapshot_diff])"

text \<open>Two mappings of scope parameters are equal when they hold the same items.\<close>

definition same_scope :: "snapshot_contract \<Rightarrow> fingerprint_scope \<Rightarrow> bool" where
  "same_scope s f \<longleftrightarrow> sn_scope_id s = fs_scope_id f
     \<and> canonical_parameters (sn_scope_parameters s) = canonical_parameters (fs_scope_parameters f)"

definition admission_violations :: "delivery_policy \<Rightarrow> violation list" where
  "admission_violations d =
     violation_if (\<not> progress_allowed (dp_mode d) (dp_progress d)) Progress_not_allowed
     @ violation_if (dp_delete_strategy d \<notin> set (delete_strategies (dp_mode d))) Delete_strategy_not_allowed
     @ violation_if (dp_mode d = Cdc \<and> tc_event_field (dp_timestamps d) = None) Event_field_required
     @ violation_if (dp_mode d = Complete_snapshot \<and> tc_effective_field (dp_timestamps d) = None)
         Effective_field_required
     @ (if dp_delete_strategy d = Explicit_tombstone
        then violation_if (dp_tombstone d = None) Tombstone_required
        else violation_if (dp_tombstone d \<noteq> None) Tombstone_not_admitted)
     @ (if dp_delete_strategy d = Snapshot_diff
        then violation_if (dp_snapshot d = None) Snapshot_required
        else violation_if (dp_snapshot d \<noteq> None) Snapshot_not_admitted)"

definition record_key_violations :: "delivery_policy \<Rightarrow> violation list" where
  "record_key_violations d =
     (let k = dp_record_key d;
          needs = (dp_delete_strategy d \<in> {Explicit_tombstone, Snapshot_diff});
          has = (rk_fingerprint_scope k \<noteq> None \<and> rk_hmac_key_id k \<noteq> None);
          has_any = (rk_fingerprint_scope k \<noteq> None \<or> rk_hmac_key_id k \<noteq> None)
      in (if rk_fields k = [] then [Record_key_empty]
          else violation_if (\<not> distinct (rk_fields k)) Record_key_repeats)
       @ violation_if (needs \<and> \<not> has) Fingerprint_required
       @ violation_if (dp_delete_strategy d = No_deletes \<and> has_any) Fingerprint_forbidden
       @ (case (dp_snapshot d, rk_fingerprint_scope k) of
            (Some s, Some f) \<Rightarrow> violation_if (\<not> same_scope s f) Snapshot_scope_differs
          | _ \<Rightarrow> []))"

definition level_violations :: "delivery_policy \<Rightarrow> violation list" where
  "level_violations d =
     (case qp_publication_mode (dp_quality d) of
        Publish_valid_rows \<Rightarrow>
          violation_if (dp_mode d \<noteq> Append_only \<or> dp_progress d \<noteq> Opaque_batch_progress) Valid_rows_not_admitted
      | All_or_nothing \<Rightarrow>
          violation_if (qp_max_error_fraction (dp_quality d) \<noteq> ''0'') Error_fraction_not_zero)
     @ violation_if (sla_warn_after_minutes (dp_schedule_lateness d)
         \<ge> sla_error_after_minutes (dp_schedule_lateness d)) Lateness_not_ascending
     @ (case dp_maximum_age d of None \<Rightarrow> []
        | Some a \<Rightarrow> violation_if (sla_warn_after_minutes a \<ge> sla_error_after_minutes a) Maximum_age_not_ascending)
     @ violation_if (rp_cap_seconds (dp_retry d) < rp_base_seconds (dp_retry d)) Retry_cap_below_base"

text \<open>What \<open>validate_delivery_policy\<close> raises: the violations, or the repeated value a rule id trips over.\<close>

definition error_violations :: "contract_error \<Rightarrow> violation list" where
  "error_violations e = (case e of Repeated_value at \<Rightarrow> [Set_repeats at] | _ \<Rightarrow> [])"

definition validate_delivery_policy ::
    "canonical_lib \<Rightarrow> (string \<Rightarrow> zone option) \<Rightarrow> string \<Rightarrow> delivery_policy \<Rightarrow> violation list + unit" where
  "validate_delivery_policy lib zones installed d =
     (case quality_violations lib [] (qp_rules (dp_quality d)) of
        Inl e \<Rightarrow> Inl (error_violations e)
      | Inr vs \<Rightarrow>
          let violations = admission_violations d @ record_key_violations d @ level_violations d
            @ schedule_violations zones installed (dp_schedule d) @ vs
          in if violations \<noteq> [] then Inl violations else Inr ())"

section \<open>Landing and projection\<close>

definition codec_violations :: "codec \<Rightarrow> violation list" where
  "codec_violations c =
     (case c of
        Csv_codec delimiter header quote escape newline nulls \<Rightarrow>
          violation_if (length delimiter \<noteq> 1) (Codec_not_one_char ''delimiter'')
          @ violation_if (length quote \<noteq> 1) (Codec_not_one_char ''quote'')
          @ violation_if (length escape \<noteq> 1) (Codec_not_one_char ''escape'')
          @ violation_if (\<not> distinct [delimiter, quote, escape]) Codec_marks_collide
          @ violation_if (\<not> distinct nulls) Null_tokens_repeat
      | Jsonl_codec newline \<Rightarrow> [])"

definition columns_of :: "landing_block \<Rightarrow> ident \<Rightarrow> source_field option" where
  "columns_of l = map_of (rev (map (\<lambda>c. (sf_name c, c)) (lb_physical_columns l)))"

definition reserved_columns :: "external_integration \<Rightarrow> (string \<times> ident) list" where
  "reserved_columns e =
     [(''delivery_id_column'', ei_delivery_id_column e),
      (''visibility_epoch_column'', ei_visibility_epoch_column e),
      (''visibility_kind_column'', ei_visibility_kind_column e),
      (''visibility_id_column'', ei_visibility_id_column e)]"

definition integration_violations :: "landing_block \<Rightarrow> violation list" where
  "integration_violations l =
     (case lb_integration l of
        Managed \<Rightarrow> []
      | External e \<Rightarrow>
          concat (map (\<lambda>(n, v). violation_if (columns_of l v \<noteq> None) (Reserved_collides n v)) (reserved_columns e))
          @ violation_if (\<not> distinct (map snd (reserved_columns e))) Reserved_repeat
          @ violation_if (\<not> distinct (tp_allowed_key_ids (ei_receipt_trust e))) Key_ids_repeat
          @ violation_if (tp_allowed_key_ids (ei_receipt_trust e) = []) Key_ids_empty)"

definition require_column :: "landing_block \<Rightarrow> string \<Rightarrow> ident option \<Rightarrow> violation list" where
  "require_column l at name =
     (case name of None \<Rightarrow> [] | Some n \<Rightarrow> violation_if (columns_of l n = None) (No_such_column at n))"

definition field_violations :: "landing_block \<Rightarrow> delivery_policy \<Rightarrow> violation list" where
  "field_violations l d =
     require_column l ''delivery.timestamps.load_field'' (Some (tc_load_field (dp_timestamps d)))
     @ require_column l ''delivery.timestamps.event_field'' (tc_event_field (dp_timestamps d))
     @ require_column l ''delivery.timestamps.effective_field'' (tc_effective_field (dp_timestamps d))
     @ (case dp_progress d of
          Sequence_progress f \<Rightarrow> require_column l ''delivery.progress.field'' (Some f)
        | Opaque_batch_progress \<Rightarrow> [])
     @ concat (map (\<lambda>f. require_column l ''delivery.record_key.fields'' (Some f)) (rk_fields (dp_record_key d)))"

definition tombstone_violations :: "landing_block \<Rightarrow> delivery_policy \<Rightarrow> violation list" where
  "tombstone_violations l d =
     (case dp_tombstone d of None \<Rightarrow> []
      | Some t \<Rightarrow> require_column l ''delivery.tombstone.field'' (Some (ts_field t))
          @ (case columns_of l (ts_field t) of None \<Rightarrow> []
             | Some c \<Rightarrow> concat (map (\<lambda>v. violation_if (scalar_kind v \<noteq> logical_type_token (sf_logical_type c))
                 (Tombstone_kind_differs (ts_field t))) (ts_values t))))"

definition rule_scalars :: "quality_rule \<Rightarrow> typed_scalar list" where
  "rule_scalars r =
     (case r of
        Accepted_values f vs allow sev \<Rightarrow> vs
      | Range_rule f lo hi allow sev \<Rightarrow>
          (case lo of None \<Rightarrow> [] | Some v \<Rightarrow> [v]) @ (case hi of None \<Rightarrow> [] | Some v \<Rightarrow> [v])
      | _ \<Rightarrow> [])"

definition field_rule_violations :: "landing_block \<Rightarrow> string \<Rightarrow> quality_rule \<Rightarrow> ident \<Rightarrow> violation list" where
  "field_rule_violations l at r f =
     require_column l at (Some f)
     @ (case columns_of l f of None \<Rightarrow> []
        | Some c \<Rightarrow> concat (map (\<lambda>v. violation_if (scalar_kind v \<noteq> logical_type_token (sf_logical_type c))
            (Rule_kind_differs f)) (rule_scalars r)))"

definition rule_field_violations :: "landing_block \<Rightarrow> quality_rule \<Rightarrow> violation list" where
  "rule_field_violations l r =
     (case r of
        Not_null f sev \<Rightarrow> field_rule_violations l ''delivery.quality.rules[not_null].field'' r f
      | Accepted_values f vs allow sev \<Rightarrow>
          field_rule_violations l ''delivery.quality.rules[accepted_values].field'' r f
      | Range_rule f lo hi allow sev \<Rightarrow> field_rule_violations l ''delivery.quality.rules[range].field'' r f
      | Unique_key fs sev \<Rightarrow>
          concat (map (\<lambda>f. require_column l ''delivery.quality.rules[unique_key].fields'' (Some f)) fs)
      | Row_count lo hi sev \<Rightarrow> [])"

definition projection_violations :: "landing_block \<Rightarrow> projection_field \<Rightarrow> violation list" where
  "projection_violations l e =
     (case columns_of l (pj_source e) of
        None \<Rightarrow> [No_such_source (pj_name e) (pj_source e)]
      | Some c \<Rightarrow>
          violation_if (logical_type_token (pj_logical_type e) \<noteq> logical_type_token (sf_logical_type c))
            (Projection_kind_differs (pj_name e))
          @ violation_if (sf_nullable c \<and> \<not> pj_nullable e) (Projection_narrows_null (pj_name e)))"

definition landing_and_projection_violations :: "landing_product_contract \<Rightarrow> violation list" where
  "landing_and_projection_violations c =
     (let l = lc_landing c; d = lc_delivery c in
      violation_if (\<not> distinct (map sf_name (lb_physical_columns l))) Columns_repeat
      @ violation_if (lb_physical_columns l = []) Columns_empty
      @ violation_if (\<not> distinct (lb_content_encodings l)) Encodings_repeat
      @ codec_violations (lb_codec l)
      @ integration_violations l
      @ field_violations l d
      @ tombstone_violations l d
      @ concat (map (rule_field_violations l) (qp_rules (dp_quality d)))
      @ violation_if (lc_projection c = []) Projection_empty
      @ violation_if (\<not> distinct (map pj_name (lc_projection c))) Projection_repeats
      @ concat (map (projection_violations l) (lc_projection c))
      @ violation_if (lc_interfaces c
          \<noteq> derive_interfaces (li_source (lc_logical_identity c)) (li_table (lc_logical_identity c)))
          Interfaces_authored)"

definition validate_contract ::
    "canonical_lib \<Rightarrow> (string \<Rightarrow> zone option) \<Rightarrow> string \<Rightarrow> landing_product_contract \<Rightarrow> violation list + unit" where
  "validate_contract lib zones installed c =
     (let violations = (case validate_delivery_policy lib zones installed (lc_delivery c) of
            Inl vs \<Rightarrow> vs | Inr _ \<Rightarrow> []) @ landing_and_projection_violations c
      in if violations \<noteq> [] then Inl violations else Inr ())"

section \<open>What a valid contract is\<close>

text \<open>The production modes: what each admits for progress, deletion and timestamps.\<close>

definition mode_admits :: "delivery_policy \<Rightarrow> bool" where
  "mode_admits d =
     (case dp_mode d of
        Cdc \<Rightarrow> dp_progress d \<noteq> Opaque_batch_progress \<and> dp_delete_strategy d \<noteq> Snapshot_diff
          \<and> tc_event_field (dp_timestamps d) \<noteq> None
      | Append_only \<Rightarrow> dp_delete_strategy d = No_deletes
      | Complete_snapshot \<Rightarrow> dp_progress d = Opaque_batch_progress \<and> dp_delete_strategy d = Snapshot_diff
          \<and> tc_effective_field (dp_timestamps d) \<noteq> None)"

text \<open>The deletion strategy alone decides which blocks a policy carries.\<close>

definition deletion_blocks :: "delivery_policy \<Rightarrow> bool" where
  "deletion_blocks d \<longleftrightarrow>
     (dp_tombstone d \<noteq> None \<longleftrightarrow> dp_delete_strategy d = Explicit_tombstone)
     \<and> (dp_snapshot d \<noteq> None \<longleftrightarrow> dp_delete_strategy d = Snapshot_diff)
     \<and> (rk_fingerprint_scope (dp_record_key d) \<noteq> None \<longleftrightarrow> dp_delete_strategy d \<noteq> No_deletes)
     \<and> (rk_hmac_key_id (dp_record_key d) \<noteq> None \<longleftrightarrow> dp_delete_strategy d \<noteq> No_deletes)
     \<and> (\<forall>s f. dp_snapshot d = Some s \<longrightarrow> rk_fingerprint_scope (dp_record_key d) = Some f \<longrightarrow> same_scope s f)"

definition levels_ok :: "delivery_policy \<Rightarrow> bool" where
  "levels_ok d \<longleftrightarrow>
     (if qp_publication_mode (dp_quality d) = Publish_valid_rows
      then dp_mode d = Append_only \<and> dp_progress d = Opaque_batch_progress
      else qp_max_error_fraction (dp_quality d) = ''0'')
     \<and> (\<forall>a \<in> insert (dp_schedule_lateness d) (set_option (dp_maximum_age d)).
          sla_warn_after_minutes a < sla_error_after_minutes a)
     \<and> rp_base_seconds (dp_retry d) \<le> rp_cap_seconds (dp_retry d)"

definition schedule_ok :: "(string \<Rightarrow> zone option) \<Rightarrow> string \<Rightarrow> schedule \<Rightarrow> bool" where
  "schedule_ok zones installed s =
     (case s of Interval_schedule n anchor \<Rightarrow> True
      | Cron_schedule e tz starts v \<Rightarrow> (\<exists>x. load_cron zones e tz = Inr x) \<and> v = installed)"

definition rules_ok :: "canonical_lib \<Rightarrow> quality_rule list \<Rightarrow> bool" where
  "rules_ok lib rs \<longleftrightarrow> (\<forall>r \<in> set rs. \<not> isl (compute_rule_id lib r) \<and> rule_violations r = [])
     \<and> distinct (map (\<lambda>r. projr (compute_rule_id lib r)) rs)"

definition delivery_ok ::
    "canonical_lib \<Rightarrow> (string \<Rightarrow> zone option) \<Rightarrow> string \<Rightarrow> delivery_policy \<Rightarrow> bool" where
  "delivery_ok lib zones installed d \<longleftrightarrow> mode_admits d \<and> deletion_blocks d
     \<and> rk_fields (dp_record_key d) \<noteq> [] \<and> distinct (rk_fields (dp_record_key d))
     \<and> levels_ok d \<and> schedule_ok zones installed (dp_schedule d) \<and> rules_ok lib (qp_rules (dp_quality d))"

text \<open>Every column a policy names, and every scalar it compares a column with.\<close>

definition rule_names :: "quality_rule \<Rightarrow> ident set" where
  "rule_names r = (case r of Not_null f _ \<Rightarrow> {f} | Accepted_values f _ _ _ \<Rightarrow> {f} | Range_rule f _ _ _ _ \<Rightarrow> {f}
     | Unique_key fs _ \<Rightarrow> set fs | Row_count _ _ _ \<Rightarrow> {})"

definition named_columns :: "delivery_policy \<Rightarrow> ident set" where
  "named_columns d = {tc_load_field (dp_timestamps d)} \<union> set_option (tc_event_field (dp_timestamps d))
     \<union> set_option (tc_effective_field (dp_timestamps d))
     \<union> (case dp_progress d of Sequence_progress f \<Rightarrow> {f} | Opaque_batch_progress \<Rightarrow> {})
     \<union> set (rk_fields (dp_record_key d)) \<union> ts_field ` set_option (dp_tombstone d)
     \<union> (\<Union>r \<in> set (qp_rules (dp_quality d)). rule_names r)"

definition compared_scalars :: "delivery_policy \<Rightarrow> (ident \<times> typed_scalar) set" where
  "compared_scalars d =
     {(ts_field t, v) | t v. dp_tombstone d = Some t \<and> v \<in> set (ts_values t)}
     \<union> {(f, v) | f v r. r \<in> set (qp_rules (dp_quality d)) \<and> v \<in> set (rule_scalars r) \<and> f \<in> rule_names r}"

definition landing_ok :: "landing_block \<Rightarrow> bool" where
  "landing_ok l \<longleftrightarrow> lb_physical_columns l \<noteq> [] \<and> distinct (map sf_name (lb_physical_columns l))
     \<and> distinct (lb_content_encodings l) \<and> codec_violations (lb_codec l) = []
     \<and> (case lb_integration l of Managed \<Rightarrow> True
        | External e \<Rightarrow> distinct (map snd (reserved_columns e))
            \<and> set (map snd (reserved_columns e)) \<inter> sf_name ` set (lb_physical_columns l) = {}
            \<and> tp_allowed_key_ids (ei_receipt_trust e) \<noteq> [] \<and> distinct (tp_allowed_key_ids (ei_receipt_trust e)))"

definition published_from :: "projection_field \<Rightarrow> source_field \<Rightarrow> bool" where
  "published_from e c \<longleftrightarrow> sf_name c = pj_source e
     \<and> logical_type_token (sf_logical_type c) = logical_type_token (pj_logical_type e)
     \<and> (sf_nullable c \<longrightarrow> pj_nullable e)"

definition contract_ok ::
    "canonical_lib \<Rightarrow> (string \<Rightarrow> zone option) \<Rightarrow> string \<Rightarrow> landing_product_contract \<Rightarrow> bool" where
  "contract_ok lib zones installed c \<longleftrightarrow>
     (let columns = set (lb_physical_columns (lc_landing c)) in
      delivery_ok lib zones installed (lc_delivery c) \<and> landing_ok (lc_landing c)
      \<and> named_columns (lc_delivery c) \<subseteq> sf_name ` columns
      \<and> (\<forall>(f, v) \<in> compared_scalars (lc_delivery c). \<forall>k \<in> columns.
           sf_name k = f \<longrightarrow> scalar_kind v = logical_type_token (sf_logical_type k))
      \<and> lc_projection c \<noteq> [] \<and> distinct (map pj_name (lc_projection c))
      \<and> (\<forall>e \<in> set (lc_projection c). \<exists>k \<in> columns. published_from e k)
      \<and> lc_interfaces c = derive_interfaces (li_source (lc_logical_identity c)) (li_table (lc_logical_identity c)))"

section \<open>The gate accepts exactly the valid contracts\<close>

lemma quality_violations_Nil:
  "quality_violations lib seen rs = Inr [] \<longleftrightarrow>
    (\<forall>r \<in> set rs. \<not> isl (compute_rule_id lib r) \<and> rule_violations r = [])
    \<and> distinct (map (\<lambda>r. projr (compute_rule_id lib r)) rs)
    \<and> (\<forall>r \<in> set rs. projr (compute_rule_id lib r) \<notin> set seen)"
proof (induction rs arbitrary: seen)
  case (Cons r rs)
  show ?case
  proof (cases "compute_rule_id lib r")
    case (Inr i)
    have "(\<exists>vs. quality_violations lib (i # seen) rs = Inr vs \<and> vs = []) \<longleftrightarrow>
        quality_violations lib (i # seen) rs = Inr []" by blast
    with Inr show ?thesis by (auto simp: Cons.IH [of "i # seen"])
  qed simp
qed simp

lemma admission_and_key_Nil:
  "admission_violations d = [] \<and> record_key_violations d = [] \<longleftrightarrow>
    mode_admits d \<and> deletion_blocks d
    \<and> rk_fields (dp_record_key d) \<noteq> [] \<and> distinct (rk_fields (dp_record_key d))"
  by (cases "dp_mode d"; cases "dp_delete_strategy d"; cases "dp_progress d"; cases "dp_tombstone d";
      cases "dp_snapshot d"; cases "rk_fingerprint_scope (dp_record_key d)"; cases "rk_hmac_key_id (dp_record_key d)")
    (auto simp: admission_violations_def record_key_violations_def mode_admits_def deletion_blocks_def
      progress_allowed_def delete_strategies_def Let_def)

lemma level_violations_Nil: "level_violations d = [] \<longleftrightarrow> levels_ok d"
  by (auto simp: level_violations_def levels_ok_def split: option.splits publication_policy.splits)

lemma schedule_violations_Nil: "schedule_violations zones installed s = [] \<longleftrightarrow> schedule_ok zones installed s"
  by (auto simp: schedule_violations_def schedule_ok_def load_cron_def split: schedule.splits sum.splits option.splits)

lemma validate_delivery_iff:
  "validate_delivery_policy lib zones installed d = Inr () \<longleftrightarrow> delivery_ok lib zones installed d"
proof (cases "quality_violations lib [] (qp_rules (dp_quality d))")
  case (Inl e)
  then have "\<not> rules_ok lib (qp_rules (dp_quality d))"
    using quality_violations_Nil [of lib "[]" "qp_rules (dp_quality d)"] by (auto simp: rules_ok_def)
  with Inl show ?thesis by (simp add: validate_delivery_policy_def delivery_ok_def)
next
  case (Inr vs)
  then have "vs = [] \<longleftrightarrow> rules_ok lib (qp_rules (dp_quality d))"
    using quality_violations_Nil [of lib "[]" "qp_rules (dp_quality d)"] by (simp add: rules_ok_def)
  with Inr show ?thesis
    using admission_and_key_Nil [of d]
    by (simp add: validate_delivery_policy_def Let_def delivery_ok_def level_violations_Nil
        schedule_violations_Nil) blast
qed

lemma columns_of_None: "columns_of l n = None \<longleftrightarrow> n \<notin> sf_name ` set (lb_physical_columns l)"
  by (auto simp: columns_of_def map_of_eq_None_iff image_iff)

lemma columns_of_Some:
  assumes "distinct (map sf_name (lb_physical_columns l))"
  shows "columns_of l n = Some c \<longleftrightarrow> c \<in> set (lb_physical_columns l) \<and> sf_name c = n"
proof -
  have "map fst (rev (map (\<lambda>c. (sf_name c, c)) (lb_physical_columns l))) = rev (map sf_name (lb_physical_columns l))"
    by (simp add: rev_map comp_def)
  then have "distinct (map fst (rev (map (\<lambda>c. (sf_name c, c)) (lb_physical_columns l))))" using assms by simp
  then show ?thesis unfolding columns_of_def by (subst map_of_eq_Some_iff) auto
qed

lemma require_column_Nil [simp]:
  "require_column l at name = [] \<longleftrightarrow> set_option name \<subseteq> sf_name ` set (lb_physical_columns l)"
  by (cases name) (simp_all add: require_column_def columns_of_None)

lemma concat_map_Nil: "concat (map f xs) = [] \<longleftrightarrow> (\<forall>x \<in> set xs. f x = [])"
  by auto

text \<open>The scalars compared with one column are all of its kind.\<close>

definition kinds_fit :: "landing_block \<Rightarrow> ident \<Rightarrow> typed_scalar set \<Rightarrow> bool" where
  "kinds_fit l f vs \<longleftrightarrow> (\<forall>v \<in> vs. \<forall>k \<in> set (lb_physical_columns l).
     sf_name k = f \<longrightarrow> scalar_kind v = logical_type_token (sf_logical_type k))"

lemma kind_violations_Nil:
  assumes "distinct (map sf_name (lb_physical_columns l))"
  shows "(case columns_of l f of None \<Rightarrow> []
      | Some c \<Rightarrow> concat (map (\<lambda>v. violation_if (scalar_kind v \<noteq> logical_type_token (sf_logical_type c)) e) vs)) = []
    \<longleftrightarrow> kinds_fit l f (set vs)"
proof (cases "columns_of l f")
  case None
  moreover from None have "f \<notin> sf_name ` set (lb_physical_columns l)" by (simp add: columns_of_None)
  ultimately show ?thesis by (auto simp: kinds_fit_def)
next
  case (Some c)
  then have c: "c \<in> set (lb_physical_columns l)" "sf_name c = f" by (simp_all add: columns_of_Some [OF assms])
  have "k = c" if "k \<in> set (lb_physical_columns l)" "sf_name k = f" for k
    using that c assms by (auto simp: distinct_map inj_on_def)
  with c have "kinds_fit l f (set vs) \<longleftrightarrow> (\<forall>v \<in> set vs. scalar_kind v = logical_type_token (sf_logical_type c))"
    unfolding kinds_fit_def by metis
  with Some show ?thesis by (simp add: concat_map_Nil del: concat_eq_Nil_conv)
qed

lemma tombstone_violations_Nil:
  assumes "distinct (map sf_name (lb_physical_columns l))"
  shows "tombstone_violations l d = [] \<longleftrightarrow>
    ts_field ` set_option (dp_tombstone d) \<subseteq> sf_name ` set (lb_physical_columns l)
    \<and> (\<forall>t. dp_tombstone d = Some t \<longrightarrow> kinds_fit l (ts_field t) (set (ts_values t)))"
  by (cases "dp_tombstone d") (simp_all add: tombstone_violations_def kind_violations_Nil [OF assms])

lemma rule_field_violations_Nil:
  assumes "distinct (map sf_name (lb_physical_columns l))"
  shows "rule_field_violations l r = [] \<longleftrightarrow>
    rule_names r \<subseteq> sf_name ` set (lb_physical_columns l)
    \<and> (\<forall>f \<in> rule_names r. kinds_fit l f (set (rule_scalars r)))"
  by (cases r) (auto simp: rule_field_violations_def field_rule_violations_def rule_names_def
      kind_violations_Nil [OF assms] concat_map_Nil rule_scalars_def kinds_fit_def
      simp del: concat_eq_Nil_conv)

lemma field_violations_Nil:
  "field_violations l d = [] \<longleftrightarrow>
    {tc_load_field (dp_timestamps d)} \<union> set_option (tc_event_field (dp_timestamps d))
     \<union> set_option (tc_effective_field (dp_timestamps d))
     \<union> (case dp_progress d of Sequence_progress f \<Rightarrow> {f} | Opaque_batch_progress \<Rightarrow> {})
     \<union> set (rk_fields (dp_record_key d)) \<subseteq> sf_name ` set (lb_physical_columns l)"
  by (cases "dp_progress d")
     (auto simp: field_violations_def concat_map_Nil simp del: concat_eq_Nil_conv)

lemma named_and_compared_Nil:
  assumes "distinct (map sf_name (lb_physical_columns l))"
  shows "field_violations l d = [] \<and> tombstone_violations l d = []
      \<and> (\<forall>r \<in> set (qp_rules (dp_quality d)). rule_field_violations l r = []) \<longleftrightarrow>
    named_columns d \<subseteq> sf_name ` set (lb_physical_columns l)
    \<and> (\<forall>(f, v) \<in> compared_scalars d. kinds_fit l f {v})"
proof -
  have names: "named_columns d \<subseteq> S \<longleftrightarrow>
      {tc_load_field (dp_timestamps d)} \<union> set_option (tc_event_field (dp_timestamps d))
       \<union> set_option (tc_effective_field (dp_timestamps d))
       \<union> (case dp_progress d of Sequence_progress f \<Rightarrow> {f} | Opaque_batch_progress \<Rightarrow> {})
       \<union> set (rk_fields (dp_record_key d)) \<subseteq> S
      \<and> ts_field ` set_option (dp_tombstone d) \<subseteq> S
      \<and> (\<forall>r \<in> set (qp_rules (dp_quality d)). rule_names r \<subseteq> S)" for S
    unfolding named_columns_def by blast
  have kinds: "(\<forall>(f, v) \<in> compared_scalars d. kinds_fit l f {v}) \<longleftrightarrow>
      (\<forall>t. dp_tombstone d = Some t \<longrightarrow> kinds_fit l (ts_field t) (set (ts_values t)))
      \<and> (\<forall>r \<in> set (qp_rules (dp_quality d)). \<forall>f \<in> rule_names r. kinds_fit l f (set (rule_scalars r)))"
    unfolding compared_scalars_def kinds_fit_def by blast
  show ?thesis
    unfolding names kinds field_violations_Nil tombstone_violations_Nil [OF assms]
      rule_field_violations_Nil [OF assms] ball_conj_distrib by (intro iffI conjI; elim conjE; assumption)
qed

lemma integration_violations_Nil:
  "integration_violations l = [] \<longleftrightarrow> (case lb_integration l of Managed \<Rightarrow> True
    | External e \<Rightarrow> distinct (map snd (reserved_columns e))
        \<and> set (map snd (reserved_columns e)) \<inter> sf_name ` set (lb_physical_columns l) = {}
        \<and> tp_allowed_key_ids (ei_receipt_trust e) \<noteq> [] \<and> distinct (tp_allowed_key_ids (ei_receipt_trust e)))"
proof (cases "lb_integration l")
  case (External e)
  have "(\<forall>(n, v) \<in> set (reserved_columns e). columns_of l v = None) \<longleftrightarrow>
      set (map snd (reserved_columns e)) \<inter> sf_name ` set (lb_physical_columns l) = {}"
    unfolding columns_of_None by force
  with External show ?thesis
    by (auto simp: integration_violations_def concat_map_Nil case_prod_beta
        simp del: concat_eq_Nil_conv set_map)
qed (simp add: integration_violations_def)

lemma projection_violations_Nil:
  assumes "distinct (map sf_name (lb_physical_columns l))"
  shows "projection_violations l e = [] \<longleftrightarrow> (\<exists>k \<in> set (lb_physical_columns l). published_from e k)"
proof (cases "columns_of l (pj_source e)")
  case None
  moreover from None have "pj_source e \<notin> sf_name ` set (lb_physical_columns l)"
    by (simp add: columns_of_None)
  then have "\<not> (\<exists>k \<in> set (lb_physical_columns l). published_from e k)"
    unfolding published_from_def image_iff by metis
  ultimately show ?thesis by (simp add: projection_violations_def)
next
  case (Some c)
  then have c: "c \<in> set (lb_physical_columns l)" "sf_name c = pj_source e"
    by (simp_all add: columns_of_Some [OF assms])
  have "k = c" if "k \<in> set (lb_physical_columns l)" "sf_name k = pj_source e" for k
    using that c assms by (auto simp: distinct_map inj_on_def)
  with c have "(\<exists>k \<in> set (lb_physical_columns l). published_from e k) \<longleftrightarrow> published_from e c"
    unfolding published_from_def by metis
  with c Some show ?thesis by (auto simp: projection_violations_def published_from_def)
qed

lemma landing_and_projection_iff:
  "landing_and_projection_violations c = [] \<longleftrightarrow>
    (let columns = set (lb_physical_columns (lc_landing c)) in
      landing_ok (lc_landing c) \<and> named_columns (lc_delivery c) \<subseteq> sf_name ` columns
      \<and> (\<forall>(f, v) \<in> compared_scalars (lc_delivery c). kinds_fit (lc_landing c) f {v})
      \<and> lc_projection c \<noteq> [] \<and> distinct (map pj_name (lc_projection c))
      \<and> (\<forall>e \<in> set (lc_projection c). \<exists>k \<in> columns. published_from e k)
      \<and> lc_interfaces c = derive_interfaces (li_source (lc_logical_identity c)) (li_table (lc_logical_identity c)))"
proof (cases "distinct (map sf_name (lb_physical_columns (lc_landing c)))")
  case False
  then show ?thesis by (simp add: landing_and_projection_violations_def Let_def landing_ok_def)
next
  case True
  note named = named_and_compared_Nil [OF True, of "lc_delivery c"]
  show ?thesis
    unfolding landing_and_projection_violations_def Let_def append_is_Nil_conv concat_map_Nil
      projection_violations_Nil [OF True] integration_violations_Nil violation_if_Nil landing_ok_def
    using True named by blast
qed

lemma compute_rule_id_Inl: "compute_rule_id lib r = Inl e \<Longrightarrow> e = Repeated_value ''rule.values''"
  by (cases r) (auto simp: compute_rule_id_def canonical_rule_def normalise_declared_set_def split: if_splits)

lemma quality_violations_Inl:
  "quality_violations lib seen rs = Inl e \<Longrightarrow> e = Repeated_value ''rule.values''"
  by (induction rs arbitrary: seen) (auto simp: bind_eq_Inl dest: compute_rule_id_Inl)

lemma validate_contract_correct:
  "validate_contract lib zones installed c = Inr () \<longleftrightarrow> contract_ok lib zones installed c"
proof -
  have "validate_contract lib zones installed c = Inr () \<longleftrightarrow>
      (case validate_delivery_policy lib zones installed (lc_delivery c) of Inl vs \<Rightarrow> vs = [] | Inr _ \<Rightarrow> True)
      \<and> landing_and_projection_violations c = []"
    by (auto simp: validate_contract_def Let_def split: sum.splits)
  moreover have "validate_delivery_policy lib zones installed (lc_delivery c) \<noteq> Inl []"
    using quality_violations_Inl [of lib "[]" "qp_rules (dp_quality (lc_delivery c))"]
    by (auto simp: validate_delivery_policy_def error_violations_def Let_def split: sum.splits)
  ultimately have "validate_contract lib zones installed c = Inr () \<longleftrightarrow>
      validate_delivery_policy lib zones installed (lc_delivery c) = Inr ()
      \<and> landing_and_projection_violations c = []"
    by (auto split: sum.splits)
  then show ?thesis
    unfolding validate_delivery_iff landing_and_projection_iff contract_ok_def kinds_fit_def Let_def by auto
qed

end
