(* ===== verification/Validation_Props.thy ===== *)
theory Validation_Props
  imports Contract_Validation Registry_Props
begin

text \<open>
  What the semantic gate guarantees: it accepts exactly the valid contracts, and a contract it accepts
  goes through the registry's first activation, with what the gate leaves unchecked as hypotheses.
\<close>

section \<open>The gate\<close>


section \<open>From the gate to the registry\<close>

lemma normalise_total:
  "distinct xs \<Longrightarrow> inj f \<Longrightarrow> normalise_declared_set f at xs = Inr (sort_key f xs)"
  by (simp add: normalise_declared_set_def distinct_map inj_on_subset [of f UNIV])

lemma canonical_rule_total:
  assumes "\<not> isl (compute_rule_id lib r)"
  shows "\<exists>r'. canonical_rule lib at r = Inr r'"
  using assms by (cases r) (auto simp: canonical_rule_def compute_rule_id_def normalise_declared_set_def split: if_splits)

lemma canonical_rules_total:
  assumes "\<forall>r \<in> set rs. \<not> isl (compute_rule_id lib r)"
  shows "\<exists>rs'. canonical_rules lib rs = Inr rs'"
proof -
  have "map_result (compute_rule_id lib) rs = Inr (map (\<lambda>r. projr (compute_rule_id lib r)) rs)"
    by (rule map_result_total) (use assms in auto)
  moreover have "map_result (\<lambda>r. canonical_rule lib (rule_at r) r) rs
      = Inr (map (\<lambda>r. projr (canonical_rule lib (rule_at r) r)) rs)"
  proof (rule map_result_total)
    fix r assume "r \<in> set rs"
    with assms canonical_rule_total [of lib r "rule_at r"]
    show "canonical_rule lib (rule_at r) r = Inr (projr (canonical_rule lib (rule_at r) r))" by auto
  qed
  ultimately show ?thesis by (simp add: canonical_rules_def)
qed

lemma canonical_contract_total:
  assumes "contract_ok lib zones installed c" and "inj (cj_encoding lib)" and "inj (cj_token lib)"
    and "\<forall>t. dp_tombstone (lc_delivery c) = Some t \<longrightarrow> distinct (map (cj_scalar lib) (ts_values t))"
    and "\<forall>s. dp_snapshot (lc_delivery c) = Some s \<longrightarrow> distinct (sn_allowed_key_ids s)"
  shows "\<exists>d. canonical_contract lib c = Inr d"
proof -
  let ?l = "lc_landing c" and ?d = "lc_delivery c"
  from assms(1) have l: "landing_ok ?l" and rules: "\<forall>r \<in> set (qp_rules (dp_quality ?d)). \<not> isl (compute_rule_id lib r)"
    by (auto simp: contract_ok_def delivery_ok_def rules_ok_def Let_def)
  have "\<exists>i. canonical_integration lib (lb_integration ?l) = Inr i"
    using l assms(3) by (cases "lb_integration ?l")
      (simp_all add: canonical_integration_def landing_ok_def normalise_total)
  then obtain l' where l': "canonical_landing lib ?l = Inr l'"
    using l assms(2) by (auto simp: canonical_landing_def landing_ok_def normalise_total)
  have "\<exists>t. canonical_tombstone lib (dp_tombstone ?d) = Inr t"
    using assms(4) by (cases "dp_tombstone ?d") (simp_all add: canonical_tombstone_def normalise_declared_set_def)
  moreover have "\<exists>s. canonical_snapshot lib (dp_snapshot ?d) = Inr s"
    using assms(3,5) by (cases "dp_snapshot ?d") (simp_all add: canonical_snapshot_def normalise_total)
  moreover note canonical_rules_total [OF rules]
  ultimately obtain t s rs where "canonical_tombstone lib (dp_tombstone ?d) = Inr t"
    "canonical_snapshot lib (dp_snapshot ?d) = Inr s"
    "canonical_rules lib (qp_rules (dp_quality ?d)) = Inr rs" by blast
  with l' show ?thesis
    by (simp add: canonical_contract_def canonical_delivery_def del: canonical_contract_identity)
qed

text \<open>The first activation of a contract: register it, stage it and confirm its baseline.\<close>

definition first_activation ::
    "canonical_lib \<Rightarrow> landing_product_contract \<Rightarrow> instant \<Rightarrow> contract_error + registry_state" where
  "first_activation lib c at =
     bind (register_candidate lib c 0 initial_registry) (\<lambda>s1.
     bind (activate_contract lib (eg_activation None c 1 None) s1) (\<lambda>(s2, _).
     bind (confirm_baseline_activation lib 2 (Some at) s2) (\<lambda>(s3, _). Inr s3)))"

lemma first_activation_total:
  assumes "canonical_contract lib c = Inr d"
  shows "\<exists>s. first_activation lib c at = Inr s
    \<and> rg_activation_state s = Active \<and> rg_active_contract_digest s = Some (cj_contract_digest lib d)
    \<and> rg_active_product_version s = Some (pf_product_version (lc_product c))
    \<and> rg_visibility_ancestry s = [1] \<and> rg_candidate_contract_digest s = None"
  using assms
  by (simp add: first_activation_def register_candidate_def check_expected_def initial_registry_def
      compute_contract_digest_def activate_contract_def eg_activation_def plan_migration_def
      classify_contract_change_def required_migration_kind_def activate_reset_def
      confirm_baseline_activation_def planned_migration_def Let_def)

text \<open>A contract the gate accepts has a canonical document and goes through its first activation,
  whenever its tombstone values and snapshot keys, which the gate does not look at, repeat nothing: it
  ends active, at its own version and digest, alone in its ancestry.\<close>

theorem valid_contract_activates:
  assumes "validate_contract lib zones installed c = Inr ()"
    and "inj (cj_encoding lib)" and "inj (cj_token lib)"
    and "\<forall>t. dp_tombstone (lc_delivery c) = Some t \<longrightarrow> distinct (map (cj_scalar lib) (ts_values t))"
    and "\<forall>s. dp_snapshot (lc_delivery c) = Some s \<longrightarrow> distinct (sn_allowed_key_ids s)"
  shows "\<exists>d s. canonical_contract lib c = Inr d \<and> first_activation lib c at = Inr s
    \<and> rg_activation_state s = Active \<and> rg_active_contract_digest s = Some (cj_contract_digest lib d)
    \<and> rg_active_product_version s = Some (pf_product_version (lc_product c))
    \<and> rg_visibility_ancestry s = [1] \<and> rg_candidate_contract_digest s = None"
proof -
  have "contract_ok lib zones installed c" using assms(1) validate_contract_correct by blast
  from canonical_contract_total [OF this assms(2-5)] obtain d where "canonical_contract lib c = Inr d" ..
  with first_activation_total [OF this, of at] show ?thesis by blast
qed

lemma eg_first_valid: "validate_contract eg_lib (\<lambda>_. None) ''2026.2'' eg_first = Inr ()"
  by code_simp

theorem valid_contract_activates_witness:
  "\<exists>s. first_activation eg_lib eg_first 5 = Inr s \<and> rg_activation_state s = Active
    \<and> rg_active_product_version s = Some ''1.0.0''"
proof -
  have enc: "inj (cj_encoding eg_lib)"
  proof (rule injI)
    fix x y assume "cj_encoding eg_lib x = cj_encoding eg_lib y"
    then show "x = y" by (cases x; cases y) (simp_all add: eg_lib_def)
  qed
  have tok: "inj (cj_token eg_lib)" by (simp add: eg_lib_def inj_on_def)
  have blocks: "dp_tombstone (lc_delivery eg_first) = None" "dp_snapshot (lc_delivery eg_first) = None"
    "pf_product_version (lc_product eg_first) = ''1.0.0''" by code_simp+
  from valid_contract_activates [OF eg_first_valid enc tok, of 5] blocks show ?thesis by auto
qed

section \<open>What the gate leaves unchecked\<close>

definition eg_snapshot_contract :: landing_product_contract where
  "eg_snapshot_contract = (let scope = \<lparr>fs_scope_id = ''all'', fs_scope_parameters = []\<rparr>; d = lc_delivery eg_first in
     eg_first\<lparr>lc_delivery := d\<lparr>dp_mode := Complete_snapshot, dp_progress := Opaque_batch_progress,
       dp_delete_strategy := Snapshot_diff,
       dp_timestamps := (dp_timestamps d)\<lparr>tc_effective_field := Some ''at''\<rparr>,
       dp_record_key := (dp_record_key d)\<lparr>rk_fingerprint_scope := Some scope, rk_hmac_key_id := Some ''k''\<rparr>,
       dp_snapshot := Some \<lparr>sn_scope_id = ''all'', sn_scope_parameters = [], sn_attestation_policy_ref = ''p'',
         sn_allowed_key_ids = [''k1'', ''k1''], sn_future_clock_skew_seconds = 0\<rparr>\<rparr>\<rparr>)"

text \<open>A contract whose snapshot block names one key twice passes the gate and has no canonical document.\<close>

lemma gate_accepts_repeated_snapshot_keys:
  "validate_contract eg_lib (\<lambda>_. None) ''2026.2'' eg_snapshot_contract = Inr ()
    \<and> canonical_contract eg_lib eg_snapshot_contract = Inl (Repeated_value ''delivery.snapshot.allowed_key_ids'')"
  by (rule conjI; code_simp)

text \<open>Decimal bounds are compared after rounding to 28 digits, so a descending range can pass.\<close>

lemma descending_range_passes:
  "rule_violations (Range_rule f (Some (T_decimal 10000000000000000000000000001 0)) (Some (T_decimal 10000000000000000000000000000 0)) allow sev) = []"
proof -
  have "length (show_nat 10000000000000000000000000001) = 29" "length (show_nat 10000000000000000000000000000) = 29" by (simp_all add: show_nat.simps)
  then have "\<not> decimal_greater 10000000000000000000000000001 0 10000000000000000000000000000 0"
    by (simp add: decimal_greater_def round_28_def Let_def)
  then show ?thesis by (simp add: rule_violations_def)
qed

end
