(* ===== verification/State_Result.thy ===== *)
theory State_Result
  imports Prelude
begin

text \<open>
  Actions: code that changes a state, may raise, and leaves the state it had reached when it raises.
  \<open>sfor\<close> is a \<open>for\<close> loop; loops that may not end take fuel, and running out of it is a value of its own.
\<close>

datatype (plugins only: code) run_error = Raised exn | No_fuel

type_synonym ('s, 'a) action = "'s \<Rightarrow> (run_error + 'a) \<times> 's"

definition ret :: "'a \<Rightarrow> ('s, 'a) action" where
  "ret x s = (Inr x, s)"

definition throw :: "error_code \<Rightarrow> ('s, 'a) action" where
  "throw c s = (Inl (Raised (Port_error c)), s)"

definition out_of_fuel :: "('s, 'a) action" where
  "out_of_fuel s = (Inl No_fuel, s)"

definition sbind :: "('s, 'a) action \<Rightarrow> ('a \<Rightarrow> ('s, 'b) action) \<Rightarrow> ('s, 'b) action" where
  "sbind m f s = (case m s of (Inl e, t) \<Rightarrow> (Inl e, t) | (Inr x, t) \<Rightarrow> f x t)"

definition modify :: "('s \<Rightarrow> 's) \<Rightarrow> ('s, unit) action" where
  "modify f s = (Inr (), f s)"

text \<open>What a part that answers with a result, and changes nothing, gives.\<close>

definition of_result :: "('s \<Rightarrow> 'a result) \<Rightarrow> ('s, 'a) action" where
  "of_result f s = (case f s of Inl e \<Rightarrow> (Inl (Raised e), s) | Inr x \<Rightarrow> (Inr x, s))"

fun sfor :: "('x \<Rightarrow> ('s, unit) action) \<Rightarrow> 'x list \<Rightarrow> ('s, unit) action" where
  "sfor body [] = ret ()"
| "sfor body (x # xs) = sbind (body x) (\<lambda>_. sfor body xs)"

named_theorems action_simps

lemma ret_Inr [simp, action_simps]: "ret x s = (Inr y, t) \<longleftrightarrow> y = x \<and> t = s"
  by (auto simp: ret_def)

lemma ret_Inl [simp, action_simps]: "ret x s \<noteq> (Inl e, t)"
  by (simp add: ret_def)

lemma throw_Inr [simp, action_simps]: "throw c s \<noteq> (Inr y, t)"
  by (simp add: throw_def)

lemma throw_Inl [simp, action_simps]: "throw c s = (Inl e, t) \<longleftrightarrow> e = Raised (Port_error c) \<and> t = s"
  by (auto simp: throw_def)

lemma out_of_fuel_Inr [simp, action_simps]: "out_of_fuel s \<noteq> (Inr y, t)"
  by (simp add: out_of_fuel_def)

lemma modify_Inr [simp, action_simps]: "modify f s = (Inr u, t) \<longleftrightarrow> t = f s"
  by (auto simp: modify_def)

lemma modify_Inl [simp, action_simps]: "modify f s \<noteq> (Inl e, t)"
  by (simp add: modify_def)

lemma of_result_Inr [simp, action_simps]: "of_result f s = (Inr x, t) \<longleftrightarrow> f s = Inr x \<and> t = s"
  by (auto simp: of_result_def split: sum.splits)

lemma of_result_Inl [action_simps]: "of_result f s = (Inl e, t) \<longleftrightarrow> (\<exists>x. f s = Inl x \<and> e = Raised x) \<and> t = s"
  by (auto simp: of_result_def split: sum.splits)

lemma sbind_Inr [simp, action_simps]:
  "sbind m f s = (Inr y, t) \<longleftrightarrow> (\<exists>x u. m s = (Inr x, u) \<and> f x u = (Inr y, t))"
  by (auto simp: sbind_def split: prod.splits sum.splits)

lemma sbind_Inl [action_simps]:
  "sbind m f s = (Inl e, t) \<longleftrightarrow> m s = (Inl e, t) \<or> (\<exists>x u. m s = (Inr x, u) \<and> f x u = (Inl e, t))"
  by (auto simp: sbind_def split: prod.splits sum.splits)

lemma sbind_ret [simp]: "sbind (ret x) f = f x"
  by (rule ext) (simp add: sbind_def ret_def)

lemma sbind_assoc: "sbind (sbind m f) g = sbind m (\<lambda>x. sbind (f x) g)"
  by (rule ext) (auto simp: sbind_def split: prod.splits sum.splits)

lemma sfor_append: "sfor body (xs @ ys) = sbind (sfor body xs) (\<lambda>_. sfor body ys)"
  by (induction xs) (simp_all add: sbind_assoc)

text \<open>What every action keeps, whether it raises or not.\<close>

definition keeps :: "('s \<Rightarrow> bool) \<Rightarrow> ('s, 'a) action \<Rightarrow> bool" where
  "keeps P m \<longleftrightarrow> (\<forall>s. P s \<longrightarrow> P (snd (m s)))"

named_theorems keeps_intros

lemma keepsD: "keeps P m \<Longrightarrow> P s \<Longrightarrow> m s = (r, t) \<Longrightarrow> P t"
  unfolding keeps_def by (metis snd_conv)

lemma keeps_ret [simp, keeps_intros]: "keeps P (ret x)"
  by (simp add: keeps_def ret_def)

lemma keeps_throw [simp, keeps_intros]: "keeps P (throw c)"
  by (simp add: keeps_def throw_def)

lemma keeps_out_of_fuel [simp, keeps_intros]: "keeps P out_of_fuel"
  by (simp add: keeps_def out_of_fuel_def)

lemma keeps_of_result [simp, keeps_intros]: "keeps P (of_result f)"
  by (simp add: keeps_def of_result_def split: sum.splits)

lemma keeps_sbind [keeps_intros]: "keeps P m \<Longrightarrow> (\<And>x. keeps P (f x)) \<Longrightarrow> keeps P (sbind m f)"
  unfolding keeps_def sbind_def by (auto split: prod.splits sum.splits)

lemma keeps_modify: "(\<And>s. P s \<Longrightarrow> P (f s)) \<Longrightarrow> keeps P (modify f)"
  by (simp add: keeps_def modify_def)

lemma keeps_sfor [keeps_intros]: "(\<And>x. x \<in> set xs \<Longrightarrow> keeps P (body x)) \<Longrightarrow> keeps P (sfor body xs)"
  by (induction xs) (simp_all add: keeps_sbind)

text \<open>
  What an action ends with: if it returns, \<open>Q\<close> holds of its answer and the state; if it raises, the
  error is one of \<open>E\<close>. With no error admitted this is total correctness, with \<open>raised\<close> it says
  that fuel never runs out.
\<close>

definition yields :: "(run_error \<Rightarrow> bool) \<Rightarrow> ('s, 'a) action \<Rightarrow> 's \<Rightarrow> ('a \<Rightarrow> 's \<Rightarrow> bool) \<Rightarrow> bool" where
  "yields E m s Q \<longleftrightarrow> (case m s of (Inr x, t) \<Rightarrow> Q x t | (Inl e, t) \<Rightarrow> E e)"

definition raised :: "run_error \<Rightarrow> bool" where
  "raised e \<longleftrightarrow> e \<noteq> No_fuel"

definition no_error :: "run_error \<Rightarrow> bool" where
  "no_error e \<longleftrightarrow> False"

lemma yieldsD: "yields E m s Q \<Longrightarrow> m s = (Inr x, t) \<Longrightarrow> Q x t"
  by (simp add: yields_def)

lemma yields_no_fuel: "yields raised m s Q \<Longrightarrow> fst (m s) \<noteq> Inl No_fuel"
  by (auto simp: yields_def raised_def split: prod.splits sum.splits)

lemma yields_total: "yields no_error m s Q \<Longrightarrow> \<exists>x t. m s = (Inr x, t) \<and> Q x t"
  by (auto simp: yields_def no_error_def split: prod.splits sum.splits)

lemma yields_ret [simp]: "yields E (ret x) s Q \<longleftrightarrow> Q x s"
  by (simp add: yields_def ret_def)

lemma yields_throw [simp]: "yields E (throw c) s Q \<longleftrightarrow> E (Raised (Port_error c))"
  by (simp add: yields_def throw_def)

lemma yields_modify [simp]: "yields E (modify f) s Q \<longleftrightarrow> Q () (f s)"
  by (simp add: yields_def modify_def)

lemma yields_of_result: "f s = Inr x \<Longrightarrow> Q x s \<Longrightarrow> yields E (of_result f) s Q"
  by (simp add: yields_def of_result_def)

lemma yields_sbind:
  assumes "yields E m s R" and "\<And>x t. R x t \<Longrightarrow> yields E (f x) t Q"
  shows "yields E (sbind m f) s Q"
proof -
  obtain r t where r: "m s = (r, t)" by (cases "m s")
  show ?thesis
  proof (cases r)
    case (Inl e)
    with assms(1) r show ?thesis by (simp add: yields_def sbind_def)
  next
    case (Inr x)
    with assms(1) r have "R x t" by (simp add: yields_def)
    from assms(2) [OF this] r Inr show ?thesis by (simp add: yields_def sbind_def)
  qed
qed

lemma yields_weaken: "yields E m s R \<Longrightarrow> (\<And>x t. R x t \<Longrightarrow> Q x t) \<Longrightarrow> yields E m s Q"
  by (auto simp: yields_def split: prod.splits sum.splits)

lemma yields_conj: "yields E m s Q \<Longrightarrow> yields E m s R \<Longrightarrow> yields E m s (\<lambda>x t. Q x t \<and> R x t)"
  by (auto simp: yields_def split: prod.splits sum.splits)

text \<open>A loop with an invariant over the elements done.\<close>

lemma yields_sfor:
  assumes "I [] s"
    and "\<And>ys x zs t. xs = ys @ x # zs \<Longrightarrow> I ys t \<Longrightarrow> yields E (body x) t (\<lambda>_ u. I (ys @ [x]) u)"
  shows "yields E (sfor body xs) s (\<lambda>_ t. I xs t)"
proof -
  have "yields E (sfor body zs) t (\<lambda>_ u. I xs u)" if "xs = ys @ zs" "I ys t" for ys zs t
    using that
  proof (induction zs arbitrary: ys t)
    case Nil
    then show ?case by simp
  next
    case (Cons x zs)
    show ?case
      unfolding sfor.simps
    proof (rule yields_sbind)
      show "yields E (body x) t (\<lambda>_ u. I (ys @ [x]) u)" by (rule assms(2) [OF Cons.prems])
      show "yields E (sfor body zs) u (\<lambda>_ u. I xs u)" if "I (ys @ [x]) u" for u
        by (rule Cons.IH [of "ys @ [x]"]) (use Cons.prems that in simp_all)
    qed
  qed
  from this [of "[]" xs s] assms(1) show ?thesis by simp
qed

end
