(* ===== verification/Scratch_Store.thy ===== *)
theory Scratch_Store
  imports Prelude
begin

text \<open>
  The local scratch store of \<open>ergasterion/ingestion/local_scratch_store.py\<close>: scopes of sequential rows,
  each owned by one attempt and bounded by its reservation. A scope's files are the list of its rows,
  the file name being the row's position; what a row encodes to is a parameter, of which only the
  number of bytes matters here. A request answers and leaves the state it changed.
\<close>

section \<open>State\<close>

record 'r scope =
  sc_id :: token
  sc_owner :: digest
  sc_capacity :: nat
  sc_used :: nat
  sc_closed :: bool
  sc_rows :: "'r list"

record 'r scratch =
  sx_scopes :: "'r scope list"
  sx_created :: nat
  sx_max_bytes :: nat

record 'r scratch_lib =
  xl_scope_id :: "digest \<Rightarrow> nat \<Rightarrow> token"
  xl_size :: "'r \<Rightarrow> nat"

definition is_scope :: "digest \<Rightarrow> token \<Rightarrow> 'r scope \<Rightarrow> bool" where
  "is_scope att i c \<longleftrightarrow> sc_owner c = att \<and> sc_id c = i"

definition find_scope :: "digest \<Rightarrow> token \<Rightarrow> 'r scratch \<Rightarrow> 'r scope option" where
  "find_scope att i s = find (is_scope att i) (sx_scopes s)"

definition reserved_aggregate :: "'r scratch \<Rightarrow> nat" where
  "reserved_aggregate s = sum_list (map sc_capacity (sx_scopes s))"

definition set_scope :: "digest \<Rightarrow> token \<Rightarrow> ('r scope \<Rightarrow> 'r scope) \<Rightarrow> 'r scratch \<Rightarrow> 'r scratch" where
  "set_scope att i f s = s\<lparr>sx_scopes := map (\<lambda>c. if is_scope att i c then f c else c) (sx_scopes s)\<rparr>"

section \<open>Operations\<close>

definition create_scope ::
    "'r scratch_lib \<Rightarrow> digest \<Rightarrow> nat \<Rightarrow> 'r scratch \<Rightarrow> token result \<times> 'r scratch" where
  "create_scope lib att capacity s =
     (if capacity < 1 then (raise Capacity_exceeded, s)
      else if reserved_aggregate s + capacity > sx_max_bytes s then (raise Capacity_exceeded, s)
      else let n = sx_created s + 1; i = xl_scope_id lib att n; s1 = s\<lparr>sx_created := n\<rparr> in
        if find_scope att i s \<noteq> None then (raise Scope_conflict, s1)
        else (Inr i, s1\<lparr>sx_scopes := sx_scopes s @ [\<lparr>sc_id = i, sc_owner = att, sc_capacity = capacity,
          sc_used = 0, sc_closed = False, sc_rows = []\<rparr>]\<rparr>))"

definition require_owner :: "error_code \<Rightarrow> digest \<Rightarrow> token \<Rightarrow> 'r scratch \<Rightarrow> 'r scope result" where
  "require_owner missing att i s =
     (case find_scope att i s of
        Some c \<Rightarrow> Inr c
      | None \<Rightarrow> if \<exists>c \<in> set (sx_scopes s). sc_id c = i then raise Scope_owner_mismatch else raise missing)"

definition write_sequential ::
    "'r scratch_lib \<Rightarrow> digest \<Rightarrow> token \<Rightarrow> nat \<Rightarrow> 'r \<Rightarrow> 'r scratch \<Rightarrow> unit result \<times> 'r scratch" where
  "write_sequential lib att i n row s =
     (case require_owner Scope_owner_mismatch att i s of
        Inl e \<Rightarrow> (Inl e, s)
      | Inr c \<Rightarrow>
          if sc_closed c then (raise Scope_closed, s)
          else if n \<noteq> length (sc_rows c) then (raise Sequence_conflict, s)
          else if sc_used c + xl_size lib row > sc_capacity c then (raise Capacity_exceeded, s)
          else (Inr (), set_scope att i (\<lambda>c. c\<lparr>sc_rows := sc_rows c @ [row],
            sc_used := sc_used c + xl_size lib row\<rparr>) s))"

text \<open>A page: its rows with their sequence numbers, the first one left out, and the bytes returned.\<close>

record 'r read_page =
  rp_chunks :: "(nat \<times> 'r) list"
  rp_next_sequence :: "nat option"
  rp_bytes :: nat

fun take_page ::
    "('r \<Rightarrow> nat) \<Rightarrow> nat \<Rightarrow> (nat \<times> 'r) list \<Rightarrow> nat \<Rightarrow> (nat \<times> 'r) list \<Rightarrow> 'r read_page result" where
  "take_page bytes budget chunks returned [] =
     Inr \<lparr>rp_chunks = chunks, rp_next_sequence = None, rp_bytes = returned\<rparr>"
| "take_page bytes budget chunks returned ((n, r) # rest) =
     (if bytes r > budget then raise Item_too_large
      else if returned + bytes r > budget \<and> chunks \<noteq> []
      then Inr \<lparr>rp_chunks = chunks, rp_next_sequence = Some n, rp_bytes = returned\<rparr>
      else if returned + bytes r > budget then raise Item_too_large
      else take_page bytes budget (chunks @ [(n, r)]) (returned + bytes r) rest)"

definition numbered :: "'r list \<Rightarrow> (nat \<times> 'r) list" where
  "numbered rows = zip [0..<length rows] rows"

definition read_sequential ::
    "'r scratch_lib \<Rightarrow> digest \<Rightarrow> token \<Rightarrow> int \<Rightarrow> nat \<Rightarrow> 'r scratch \<Rightarrow> 'r read_page result" where
  "read_sequential lib att i after max_bytes s =
     bind (require_owner Not_found att i s) (\<lambda>c.
       if \<not> sc_closed c then raise Scope_open
       else take_page (xl_size lib) max_bytes [] 0 (filter (\<lambda>(n, r). int n > after) (numbered (sc_rows c))))"

definition close_scope :: "digest \<Rightarrow> token \<Rightarrow> 'r scratch \<Rightarrow> unit result \<times> 'r scratch" where
  "close_scope att i s =
     (case require_owner Not_found att i s of
        Inl e \<Rightarrow> (Inl e, s)
      | Inr c \<Rightarrow> (Inr (), set_scope att i (\<lambda>c. c\<lparr>sc_closed := True\<rparr>) s))"

definition delete_scope :: "digest \<Rightarrow> token \<Rightarrow> 'r scratch \<Rightarrow> unit result \<times> 'r scratch" where
  "delete_scope att i s =
     (case require_owner Scope_owner_mismatch att i s of
        Inl e \<Rightarrow> (Inl e, s)
      | Inr c \<Rightarrow> (Inr (), s\<lparr>sx_scopes := filter (\<lambda>c. \<not> is_scope att i c) (sx_scopes s)\<rparr>))"

text \<open>Scopes are visited in the order of their paths, owner first.\<close>

definition cleanup_orphans :: "digest list \<Rightarrow> nat \<Rightarrow> 'r scratch \<Rightarrow> token list \<times> 'r scratch" where
  "cleanup_orphans active max_scopes s =
     (let orphans = take max_scopes (sort_key (\<lambda>c. (sc_owner c, sc_id c))
            (filter (\<lambda>c. sc_owner c \<notin> set active) (sx_scopes s)));
          removed = map (\<lambda>c. (sc_owner c, sc_id c)) orphans
      in (map sc_id orphans,
          s\<lparr>sx_scopes := filter (\<lambda>c. (sc_owner c, sc_id c) \<notin> set removed) (sx_scopes s)\<rparr>))"

section \<open>Looking scopes up\<close>

lemma find_scope_SomeD: "find_scope att i s = Some c \<Longrightarrow> c \<in> set (sx_scopes s) \<and> sc_owner c = att \<and> sc_id c = i"
  by (auto simp: find_scope_def find_Some_iff is_scope_def)

lemma find_set_scope:
  assumes "\<And>c. sc_owner (f c) = sc_owner c \<and> sc_id (f c) = sc_id c"
  shows "find_scope att j (set_scope own i f s) =
    (if att = own \<and> j = i then map_option f (find_scope att j s) else find_scope att j s)"
proof -
  have "find (is_scope att j) (map (\<lambda>c. if is_scope own i c then f c else c) xs) =
      (if att = own \<and> j = i then map_option f (find (is_scope att j) xs) else find (is_scope att j) xs)" for xs
    using assms by (induction xs) (auto simp: is_scope_def)
  then show ?thesis by (simp add: find_scope_def set_scope_def)
qed

lemma create_scope_Inr:
  assumes "create_scope lib att capacity s = (Inr i, s')"
  shows "i = xl_scope_id lib att (sx_created s + 1) \<and> find_scope att i s = None
    \<and> find_scope own j s' = (if own = att \<and> j = i
        then Some \<lparr>sc_id = i, sc_owner = att, sc_capacity = capacity, sc_used = 0, sc_closed = False, sc_rows = []\<rparr>
        else find_scope own j s)"
proof -
  have app: "find P (xs @ [c]) = (case find P xs of None \<Rightarrow> if P c then Some c else None | Some d \<Rightarrow> Some d)"
    for P :: "'a scope \<Rightarrow> bool" and xs c by (induction xs) auto
  from assms show ?thesis
    by (auto simp: create_scope_def Let_def find_scope_def app is_scope_def split: if_splits option.splits)
qed

lemma write_sequential_Inr:
  assumes "write_sequential lib att i n row s = (Inr u, s')"
  shows "\<exists>c. find_scope att i s = Some c \<and> \<not> sc_closed c \<and> n = length (sc_rows c)
    \<and> find_scope own j s' = (if own = att \<and> j = i
        then Some (c\<lparr>sc_rows := sc_rows c @ [row], sc_used := sc_used c + xl_size lib row\<rparr>)
        else find_scope own j s)"
  using assms
  by (auto simp: write_sequential_def require_owner_def find_set_scope
      split: option.splits if_splits sum.splits)

lemma close_scope_Inr:
  assumes "close_scope att i s = (Inr u, s')"
  shows "\<exists>c. find_scope att i s = Some c
    \<and> find_scope own j s' = (if own = att \<and> j = i then Some (c\<lparr>sc_closed := True\<rparr>) else find_scope own j s)"
  using assms
  by (auto simp: close_scope_def require_owner_def find_set_scope split: option.splits if_splits sum.splits)

section \<open>Pages\<close>

lemma numbered_after:
  "filter (\<lambda>(n, r). int n > after) (numbered rows) = drop (nat (after + 1)) (numbered rows)"
proof -
  have "filter (\<lambda>(n, r). int n > after) (zip [k..<k + length rows] rows)
      = drop (nat (after + 1) - k) (zip [k..<k + length rows] rows)" for k
  proof (induction rows arbitrary: k)
    case (Cons r rows)
    have zip_Cons: "zip [k..<k + length (r # rows)] (r # rows) = (k, r) # zip [Suc k..<Suc k + length rows] rows"
      by (simp add: upt_conv_Cons del: upt_Suc)
    show ?case
    proof (cases "int k > after")
      case True
      then have "nat (after + 1) - k = 0" by linarith
      moreover have "filter (\<lambda>(n, r). int n > after) (zip [Suc k..<Suc k + length rows] rows)
          = zip [Suc k..<Suc k + length rows] rows"
        using True by (auto simp: filter_id_conv simp del: upt_Suc dest!: set_zip_leftD)
      ultimately show ?thesis unfolding zip_Cons using True by simp
    next
      case False
      then obtain j where "nat (after + 1) - k = Suc j" "nat (after + 1) - Suc k = j"
        by (metis Suc_diff_Suc add.commute diff_Suc_Suc int_nat_eq less_iff_succ_less_eq linorder_not_less nat_less_iff
            of_nat_0_le_iff of_nat_less_iff zle_add1_eq_le zless_nat_conj zless_nat_eq_int_zless)
      with False Cons.IH [of "Suc k"] show ?thesis unfolding zip_Cons by simp
    qed
  qed simp
  from this [of 0] show ?thesis by (simp add: numbered_def)
qed

lemma length_numbered [simp]: "length (numbered rows) = length rows"
  by (simp add: numbered_def)

lemma map_snd_numbered [simp]: "map snd (numbered rows) = rows"
  by (simp add: numbered_def)

lemma nth_numbered: "n < length rows \<Longrightarrow> numbered rows ! n = (n, rows ! n)"
  by (simp add: numbered_def)

lemma take_page_fits:
  assumes "\<forall>(n, r) \<in> set rest. bytes r \<le> budget" and "chunks = [] \<Longrightarrow> returned = 0"
  shows "\<exists>k next_seq total. take_page bytes budget chunks returned rest =
      Inr \<lparr>rp_chunks = chunks @ take k rest, rp_next_sequence = next_seq, rp_bytes = total\<rparr>
    \<and> (next_seq = None \<longleftrightarrow> length rest \<le> k) \<and> (rest \<noteq> [] \<longrightarrow> chunks = [] \<longrightarrow> 0 < k)"
  using assms
proof (induction rest arbitrary: chunks returned)
  case Nil
  then show ?case by simp
next
  case (Cons x rest)
  obtain n r where x: "x = (n, r)" by (cases x)
  with Cons.prems(1) have fits: "bytes r \<le> budget" by simp
  show ?case
  proof (cases "returned + bytes r > budget \<and> chunks \<noteq> []")
    case True
    with x fits show ?thesis by (intro exI [of _ 0]) auto
  next
    case False
    with Cons.prems(2) fits have room: "\<not> returned + bytes r > budget" by auto
    from Cons.IH [of "chunks @ [(n, r)]" "returned + bytes r"] Cons.prems(1) obtain k next_seq total where
      "take_page bytes budget (chunks @ [(n, r)]) (returned + bytes r) rest =
        Inr \<lparr>rp_chunks = (chunks @ [(n, r)]) @ take k rest, rp_next_sequence = next_seq, rp_bytes = total\<rparr>"
      "next_seq = None \<longleftrightarrow> length rest \<le> k" by auto
    with x fits room show ?thesis by (intro exI [of _ "Suc k"]) auto
  qed
qed

lemma take_page_bytes:
  assumes "take_page bytes budget chunks returned rest = Inr pg" and "returned \<le> budget"
    and "returned = sum_list (map (bytes \<circ> snd) chunks)"
  shows "rp_bytes pg \<le> budget \<and> rp_bytes pg = sum_list (map (bytes \<circ> snd) (rp_chunks pg))"
  using assms
  by (induction bytes budget chunks returned rest rule: take_page.induct) (auto split: if_splits)

section \<open>What every request keeps\<close>

definition scratch_inv :: "'r scratch_lib \<Rightarrow> 'r scratch \<Rightarrow> bool" where
  "scratch_inv lib s \<longleftrightarrow> distinct (map (\<lambda>c. (sc_owner c, sc_id c)) (sx_scopes s))
     \<and> (\<forall>c \<in> set (sx_scopes s). sc_used c = sum_list (map (xl_size lib) (sc_rows c)) \<and> sc_used c \<le> sc_capacity c)
     \<and> reserved_aggregate s \<le> sx_max_bytes s"

datatype 'r scratch_request =
    Create_request digest nat
  | Write_request digest token nat 'r
  | Close_request digest token
  | Delete_request digest token
  | Cleanup_request "digest list" nat

fun scratch_apply :: "'r scratch_lib \<Rightarrow> 'r scratch_request \<Rightarrow> 'r scratch \<Rightarrow> 'r scratch" where
  "scratch_apply lib (Create_request att capacity) s = snd (create_scope lib att capacity s)"
| "scratch_apply lib (Write_request att i n row) s = snd (write_sequential lib att i n row s)"
| "scratch_apply lib (Close_request att i) s = snd (close_scope att i s)"
| "scratch_apply lib (Delete_request att i) s = snd (delete_scope att i s)"
| "scratch_apply lib (Cleanup_request active n) s = snd (cleanup_orphans active n s)"

fun touches :: "'r scratch_request \<Rightarrow> digest \<Rightarrow> bool" where
  "touches (Create_request att _) own = (own = att)"
| "touches (Write_request att _ _ _) own = (own = att)"
| "touches (Close_request att _) own = (own = att)"
| "touches (Delete_request att _) own = (own = att)"
| "touches (Cleanup_request active _) own = (own \<notin> set active)"

lemma set_scope_inv:
  assumes "scratch_inv lib s"
    and "\<And>c. c \<in> set (sx_scopes s) \<Longrightarrow> is_scope att i c \<Longrightarrow> sc_owner (f c) = sc_owner c \<and> sc_id (f c) = sc_id c
      \<and> sc_capacity (f c) = sc_capacity c \<and> sc_used (f c) = sum_list (map (xl_size lib) (sc_rows (f c)))
      \<and> sc_used (f c) \<le> sc_capacity c"
  shows "scratch_inv lib (set_scope att i f s)"
proof -
  let ?g = "\<lambda>c. if is_scope att i c then f c else c"
  have ids: "map (\<lambda>c. (sc_owner c, sc_id c)) (map ?g (sx_scopes s)) = map (\<lambda>c. (sc_owner c, sc_id c)) (sx_scopes s)"
    using assms(2) by simp
  have capacities: "map sc_capacity (map ?g (sx_scopes s)) = map sc_capacity (sx_scopes s)"
    using assms(2) by simp
  have "\<forall>c \<in> set (map ?g (sx_scopes s)). sc_used c = sum_list (map (xl_size lib) (sc_rows c)) \<and> sc_used c \<le> sc_capacity c"
  proof
    fix d assume "d \<in> set (map ?g (sx_scopes s))"
    then obtain c where c: "c \<in> set (sx_scopes s)" "d = ?g c" by auto
    show "sc_used d = sum_list (map (xl_size lib) (sc_rows d)) \<and> sc_used d \<le> sc_capacity d"
    proof (cases "is_scope att i c")
      case True
      with assms(2) [OF c(1) True] c(2) show ?thesis by metis
    next
      case False
      with c assms(1) show ?thesis by (auto simp: scratch_inv_def)
    qed
  qed
  moreover have "sx_scopes (set_scope att i f s) = map ?g (sx_scopes s)"
    "sx_max_bytes (set_scope att i f s) = sx_max_bytes s" by (simp_all add: set_scope_def)
  ultimately show ?thesis
    using assms(1) unfolding scratch_inv_def reserved_aggregate_def by (simp only: ids capacities)
qed

lemma filter_scopes_inv:
  assumes "scratch_inv lib s"
  shows "scratch_inv lib (s\<lparr>sx_scopes := filter P (sx_scopes s)\<rparr>)"
proof -
  have "sum_list (map sc_capacity (filter P xs)) \<le> sum_list (map sc_capacity xs)" for xs :: "'a scope list"
    by (induction xs) auto
  from this [of "sx_scopes s"] assms show ?thesis
    unfolding scratch_inv_def reserved_aggregate_def by (auto simp: distinct_map_filter intro: order.trans)
qed

lemma find_scope_None: "find_scope att i s = None \<longleftrightarrow> (att, i) \<notin> (\<lambda>c. (sc_owner c, sc_id c)) ` set (sx_scopes s)"
  by (auto simp: find_scope_def find_None_iff is_scope_def)

lemma scratch_apply_inv:
  assumes "scratch_inv lib s"
  shows "scratch_inv lib (scratch_apply lib q s)"
proof (cases q)
  case (Create_request att capacity)
  with assms show ?thesis
    by (auto simp: create_scope_def Let_def scratch_inv_def reserved_aggregate_def find_scope_None)
next
  case (Write_request att i n row)
  show ?thesis
  proof (cases "find_scope att i s")
    case None
    with Write_request assms show ?thesis by (simp add: write_sequential_def require_owner_def raise_def)
  next
    case (Some c)
    have unique: "d = c" if "d \<in> set (sx_scopes s)" "is_scope att i d" for d
      using that find_scope_SomeD [OF Some] assms by (auto simp: scratch_inv_def is_scope_def distinct_map inj_on_def)
    show ?thesis
    proof (cases "sc_closed c \<or> n \<noteq> length (sc_rows c) \<or> sc_used c + xl_size lib row > sc_capacity c")
      case True
      with Write_request Some assms show ?thesis by (auto simp: write_sequential_def require_owner_def)
    next
      case False
      have "scratch_inv lib (set_scope att i (\<lambda>c. c\<lparr>sc_rows := sc_rows c @ [row],
          sc_used := sc_used c + xl_size lib row\<rparr>) s)"
        by (rule set_scope_inv [OF assms]) (use assms False unique in \<open>force simp: scratch_inv_def\<close>)
      with Write_request Some False show ?thesis by (simp add: write_sequential_def require_owner_def)
    qed
  qed
next
  case (Close_request att i)
  have "scratch_inv lib (set_scope att i (\<lambda>c. c\<lparr>sc_closed := True\<rparr>) s)"
    by (rule set_scope_inv [OF assms]) (use assms in \<open>auto simp: scratch_inv_def\<close>)
  with Close_request assms show ?thesis by (auto simp: close_scope_def split: sum.splits)
next
  case (Delete_request att i)
  with assms show ?thesis by (auto simp: delete_scope_def filter_scopes_inv split: sum.splits)
next
  case (Cleanup_request active n)
  with assms show ?thesis by (simp add: cleanup_orphans_def Let_def filter_scopes_inv)
qed

lemma scratch_apply_others:
  assumes "\<not> touches q own"
  shows "filter (\<lambda>c. sc_owner c = own) (sx_scopes (scratch_apply lib q s))
    = filter (\<lambda>c. sc_owner c = own) (sx_scopes s)"
proof -
  have set_other: "filter (\<lambda>c. sc_owner c = own) (sx_scopes (set_scope att i f s)) = filter (\<lambda>c. sc_owner c = own) (sx_scopes s)"
    if "own \<noteq> att" "\<And>c. sc_owner (f c) = sc_owner c" for att i f
  proof -
    have "filter (\<lambda>c. sc_owner c = own) (map (\<lambda>c. if is_scope att i c then f c else c) xs)
        = filter (\<lambda>c. sc_owner c = own) xs" for xs
      using that by (induction xs) (auto simp: is_scope_def)
    then show ?thesis by (simp add: set_scope_def)
  qed
  have drop_other: "filter (\<lambda>c. sc_owner c = own) (filter P xs) = filter (\<lambda>c. sc_owner c = own) xs"
    if "\<And>c. c \<in> set xs \<Longrightarrow> sc_owner c = own \<Longrightarrow> P c" for P and xs :: "'a scope list"
    using that by (induction xs) auto
  show ?thesis
  proof (cases q)
    case (Create_request att capacity)
    with assms show ?thesis by (auto simp: create_scope_def Let_def)
  next
    case (Write_request att i n row)
    with assms show ?thesis by (auto simp: write_sequential_def set_other split: sum.splits)
  next
    case (Close_request att i)
    with assms show ?thesis by (auto simp: close_scope_def set_other split: sum.splits)
  next
    case (Delete_request att i)
    have eq: "filter (\<lambda>c. sc_owner c = own) (filter (\<lambda>c. \<not> is_scope att i c) (sx_scopes s))
        = filter (\<lambda>c. sc_owner c = own) (sx_scopes s)"
      by (rule drop_other) (use Delete_request assms in \<open>simp add: is_scope_def\<close>)
    show ?thesis
    proof (cases "require_owner Scope_owner_mismatch att i s")
      case (Inl e)
      with Delete_request show ?thesis by (simp add: delete_scope_def)
    next
      case (Inr c)
      then have "sx_scopes (scratch_apply lib q s) = filter (\<lambda>c. \<not> is_scope att i c) (sx_scopes s)"
        using Delete_request by (simp add: delete_scope_def)
      then show ?thesis by (simp only: eq)
    qed
  next
    case (Cleanup_request active n)
    let ?orphans = "take n (sort_key (\<lambda>c. (sc_owner c, sc_id c)) (filter (\<lambda>c. sc_owner c \<notin> set active) (sx_scopes s)))"
    define os where "os = ?orphans"
    let ?P = "\<lambda>c. (sc_owner c, sc_id c) \<notin> set (map (\<lambda>c. (sc_owner c, sc_id c)) os)"
    have foreign: "sc_owner d \<noteq> own" if "d \<in> set os" for d
      using in_set_takeD [OF that [unfolded os_def]] Cleanup_request assms by auto
    have "?P c" if "sc_owner c = own" for c
    proof
      assume "(sc_owner c, sc_id c) \<in> set (map (\<lambda>c. (sc_owner c, sc_id c)) os)"
      then obtain d where "d \<in> set os" "sc_owner d = sc_owner c" by auto
      with foreign that show False by metis
    qed
    then have "filter (\<lambda>c. sc_owner c = own) (filter ?P (sx_scopes s)) = filter (\<lambda>c. sc_owner c = own) (sx_scopes s)"
      by (rule drop_other)
    moreover have "sx_scopes (scratch_apply lib q s) = filter ?P (sx_scopes s)"
      unfolding Cleanup_request os_def by (simp add: cleanup_orphans_def Let_def)
    ultimately show ?thesis by (simp only:)
  qed
qed

end
