(* ===== verification/Paged_Loop.thy ===== *)
theory Paged_Loop
  imports State_Result Scratch_Store
begin

text \<open>
  Reading a scope page by page. The contract of the port is the locale \<open>paged_rows\<close>: a page holds the
  rows that come next, at least one when there is one, and says when it is the last. What a client
  builds on it is proved once: a loop over pages runs its body over every row in order, whatever the
  page size, and a single read gives the next row. The local scratch store is the interpretation.
\<close>

section \<open>The client's loop\<close>

text \<open>Read a page after \<open>after\<close>, run the body over its rows, stop when it is empty or the last.\<close>

fun page_loop ::
    "(int \<Rightarrow> 's \<Rightarrow> 'r read_page result) \<Rightarrow> (nat \<times> 'r \<Rightarrow> ('s, unit) action) \<Rightarrow> nat \<Rightarrow> int \<Rightarrow> ('s, unit) action" where
  "page_loop page body 0 after = out_of_fuel"
| "page_loop page body (Suc fuel) after =
     sbind (of_result (page after)) (\<lambda>pg.
       if rp_chunks pg = [] then ret ()
       else sbind (sfor body (rp_chunks pg)) (\<lambda>_.
         case rp_next_sequence pg of
           None \<Rightarrow> ret ()
         | Some _ \<Rightarrow> page_loop page body fuel (int (fst (last (rp_chunks pg))))))"

lemma keeps_page_loop [keeps_intros]:
  assumes "\<And>x. keeps P (body x)"
  shows "keeps P (page_loop page body fuel after)"
proof (induction fuel arbitrary: after)
  case (Suc fuel)
  show ?case
    unfolding page_loop.simps
    by (intro keeps_sbind keeps_of_result) (auto intro!: keeps_intros assms Suc split: option.splits)
qed simp

lemma sbind_ret_right [simp]: "sbind m ret = m"
proof
  fix s show "sbind m ret s = m s"
    by (cases "m s"; cases "fst (m s)") (auto simp: sbind_def ret_def)
qed

lemma sbind_cong_keeps:
  assumes "keeps P m" and "P s" and "\<And>x t. P t \<Longrightarrow> f x t = g x t"
  shows "sbind m f s = sbind m g s"
  using keepsD [OF assms(1,2)] assms(3)
  by (cases "m s"; cases "fst (m s)") (auto simp: sbind_def)

locale paged_rows =
  fixes page :: "int \<Rightarrow> 's \<Rightarrow> 'r read_page result"
    and rows_of :: "'s \<Rightarrow> 'r list option"
  assumes page_next: "rows_of s = Some rows \<Longrightarrow> \<exists>pg k. page after s = Inr pg
      \<and> rp_chunks pg = take k (drop (nat (after + 1)) (numbered rows))
      \<and> (rp_next_sequence pg = None \<longleftrightarrow> length rows - nat (after + 1) \<le> k)
      \<and> (nat (after + 1) < length rows \<longrightarrow> 0 < k)"
begin

lemma loop_visits_all:
  assumes "rows_of s = Some rows" and "\<And>x. keeps (\<lambda>t. rows_of t = Some rows) (body x)"
    and "length rows - nat (after + 1) < fuel" and "- 1 \<le> after"
  shows "page_loop page body fuel after s = sfor body (drop (nat (after + 1)) (numbered rows)) s"
  using assms(1,3,4)
proof (induction fuel arbitrary: after s)
  case (Suc fuel)
  let ?d = "nat (after + 1)" and ?rest = "drop (nat (after + 1)) (numbered rows)"
  from page_next [OF Suc.prems(1), of after] obtain pg k where pg: "page after s = Inr pg"
    "rp_chunks pg = take k ?rest"
    "rp_next_sequence pg = None \<longleftrightarrow> length rows - ?d \<le> k" "?d < length rows \<longrightarrow> 0 < k"
    by (elim exE conjE) (rule that)
  show ?case
  proof (cases "?d < length rows")
    case False
    then show ?thesis using pg by (simp add: sbind_def of_result_def)
  next
    case more: True
    with pg(4) have k: "0 < k" by simp
    with pg(2) more have chunks: "rp_chunks pg \<noteq> []" by simp
    show ?thesis
    proof (cases "length rows - ?d \<le> k")
      case True
      with pg chunks show ?thesis by (simp add: sbind_def [of "of_result _"] of_result_def)
    next
      case False
      then obtain n where n: "rp_next_sequence pg = Some n" using pg(3) by (cases "rp_next_sequence pg") auto
      have last_chunk: "last (rp_chunks pg) = numbered rows ! (?d + k - 1)"
        using False k more pg(2) by (simp add: last_conv_nth)
      then have at: "fst (last (rp_chunks pg)) = ?d + k - 1"
        using False k more by (simp add: nth_numbered)
      let ?after = "int (?d + k - 1)"
      have "nat (int (m + k - 1) + 1) = m + k" for m using k by simp
      then have step: "nat (?after + 1) = ?d + k" .
      have "page_loop page body (Suc fuel) after s
          = sbind (sfor body (rp_chunks pg)) (\<lambda>_. page_loop page body fuel ?after) s"
        using pg(1) chunks n at by (simp add: sbind_def [of "of_result _"] of_result_def)
      also have "\<dots> = sbind (sfor body (rp_chunks pg)) (\<lambda>_. sfor body (drop (?d + k) (numbered rows))) s"
      proof (rule sbind_cong_keeps [where P = "\<lambda>t. rows_of t = Some rows"])
        show "keeps (\<lambda>t. rows_of t = Some rows) (sfor body (rp_chunks pg))"
          by (intro keeps_sfor assms(2))
        show "page_loop page body fuel ?after t = sfor body (drop (?d + k) (numbered rows)) t"
          if "rows_of t = Some rows" for t
          using Suc.IH [OF that, of ?after] Suc.prems(2) k more step by simp
      qed (rule Suc.prems(1))
      also have "\<dots> = sfor body (take k ?rest @ drop k ?rest) s"
        by (simp only: sfor_append pg(2) drop_drop add.commute)
      also have "take k ?rest @ drop k ?rest = ?rest" by (rule append_take_drop_id)
      finally show ?thesis .
    qed
  qed
qed simp

lemma next_row:
  assumes "rows_of s = Some rows" and "n < length rows"
  shows "\<exists>pg rest. page (int n - 1) s = Inr pg \<and> rp_chunks pg = (n, rows ! n) # rest"
proof -
  from page_next [OF assms(1), of "int n - 1"] assms(2) obtain pg k where
    "page (int n - 1) s = Inr pg" "rp_chunks pg = take k (drop n (numbered rows))" "0 < k" by auto
  moreover have "drop n (numbered rows) = (n, rows ! n) # drop (Suc n) (numbered rows)"
    using assms(2) Cons_nth_drop_Suc [of n "numbered rows"] by (simp add: nth_numbered)
  ultimately show ?thesis by (cases k) auto
qed

lemma no_next_row:
  assumes "rows_of s = Some rows" and "length rows \<le> n"
  shows "\<exists>pg. page (int n - 1) s = Inr pg \<and> rp_chunks pg = []"
  using page_next [OF assms(1), of "int n - 1"] assms(2) by auto

end

section \<open>The local scratch store keeps the contract\<close>

text \<open>The rows of a closed scope, all of which fit a page.\<close>

definition closed_rows :: "'r scratch_lib \<Rightarrow> digest \<Rightarrow> token \<Rightarrow> nat \<Rightarrow> 'r scratch \<Rightarrow> 'r list option" where
  "closed_rows lib att i budget s =
     (case find_scope att i s of
        Some c \<Rightarrow> if sc_closed c \<and> (\<forall>r \<in> set (sc_rows c). xl_size lib r \<le> budget) then Some (sc_rows c) else None
      | None \<Rightarrow> None)"

interpretation scratch_pages: paged_rows "\<lambda>after. read_sequential lib att i after budget"
    "closed_rows lib att i budget"
proof
  fix s :: "'a scratch" and rows after
  assume "closed_rows lib att i budget s = Some rows"
  then obtain c where c: "find_scope att i s = Some c" "sc_closed c" "sc_rows c = rows"
    "\<forall>r \<in> set rows. xl_size lib r \<le> budget"
    by (auto simp: closed_rows_def split: option.splits if_splits)
  let ?rest = "drop (nat (after + 1)) (numbered rows)"
  have "\<forall>(n, r) \<in> set ?rest. xl_size lib r \<le> budget"
    using c(4) by (auto simp: numbered_def dest!: in_set_dropD set_zip_rightD)
  from take_page_fits [OF this, of "[]" 0] obtain k next_seq total where
    "take_page (xl_size lib) budget [] 0 ?rest = Inr \<lparr>rp_chunks = take k ?rest,
        rp_next_sequence = next_seq, rp_bytes = total\<rparr>"
    "next_seq = None \<longleftrightarrow> length ?rest \<le> k" "?rest \<noteq> [] \<longrightarrow> 0 < k" by auto
  moreover have "read_sequential lib att i after budget s = take_page (xl_size lib) budget [] 0 ?rest"
    using c by (simp add: read_sequential_def require_owner_def numbered_after)
  ultimately show "\<exists>pg k. read_sequential lib att i after budget s = Inr pg
      \<and> rp_chunks pg = take k ?rest
      \<and> (rp_next_sequence pg = None \<longleftrightarrow> length rows - nat (after + 1) \<le> k)
      \<and> (nat (after + 1) < length rows \<longrightarrow> 0 < k)"
    by (intro exI [of _ "\<lparr>rp_chunks = take k ?rest, rp_next_sequence = next_seq, rp_bytes = total\<rparr>"] exI [of _ k]) auto
qed

end
