(* ===== verification/Unique_Spill.thy ===== *)
theory Unique_Spill
  imports Paged_Loop Landing_Contract "HOL-Library.Multiset"
begin

text \<open>
  The bounded working memory of \<open>ergasterion/ingestion/validation.py\<close>: the byte meter, and the
  uniqueness check, whose tags live in memory until the bound would be crossed, are then written to
  scratch, and are merged back as sorted runs (\<open>_UniqueSpill\<close>). A row of scratch is a tag record or the
  state of a framed unit; what it encodes to is the library's, and reading it back gives the row.
\<close>

section \<open>Rows and working state\<close>

record unique_row =
  ur_rule :: nat
  ur_tag :: digest
  ur_sequence :: nat
  ur_locator :: raw_locator

record unit_row =
  un_sequence :: nat
  un_locator :: raw_locator
  un_structural :: "finding list"
  un_rule_findings :: "finding list"
  un_parse_failed :: bool

datatype (plugins only: code) scratch_row = Tag_row unique_row | Unit_row unit_row

record unique_rule =
  uq_fields :: "ident list"
  uq_rule_id :: digest
  uq_severity :: severity

record meter =
  mt_budget :: nat
  mt_current :: nat
  mt_peak :: nat

text \<open>The tags of one rule by tag, in the order first seen, each member with its bytes.\<close>

type_synonym tag_groups = "(digest \<times> (nat \<times> raw_locator \<times> nat) list) list"

record working =
  wk_meter :: meter
  wk_scratch :: "scratch_row scratch option"
  wk_groups :: "tag_groups list"
  wk_tag_scope :: "token option"
  wk_tag_next :: nat
  wk_tags_spilled :: bool
  wk_work_scopes :: "token list"
  wk_units :: "(unit_row \<times> nat) list"
  wk_unit_scope :: "token option"
  wk_unit_next :: nat
  wk_units_spilled :: bool

text \<open>What a validation fixes: the scratch library, the attempt, the scratch capacity and the rules. A
  rule is known by its position; the gate refuses two rules of one identity.\<close>

record setting =
  st_lib :: "scratch_row scratch_lib"
  st_attempt :: digest
  st_capacity :: nat
  st_rules :: "unique_rule list"

section \<open>The meter\<close>

definition would_exceed :: "nat \<Rightarrow> working \<Rightarrow> bool" where
  "would_exceed n w \<longleftrightarrow> mt_current (wk_meter w) + n > mt_budget (wk_meter w)"

definition charge :: "nat \<Rightarrow> (working, unit) action" where
  "charge n w =
     (if would_exceed n w then throw Capacity_exceeded w
      else let m = wk_meter w; now = mt_current m + n in
        ret () (w\<lparr>wk_meter := m\<lparr>mt_current := now, mt_peak := max (mt_peak m) now\<rparr>\<rparr>))"

definition release :: "nat \<Rightarrow> (working, unit) action" where
  "release n = modify (\<lambda>w. w\<lparr>wk_meter := (wk_meter w)\<lparr>mt_current := mt_current (wk_meter w) - n\<rparr>\<rparr>)"

definition when_exceeding :: "nat \<Rightarrow> (working, unit) action \<Rightarrow> (working, unit) action" where
  "when_exceeding n m w = (if would_exceed n w then m w else ret () w)"

section \<open>Scratch\<close>

text \<open>A request to the scratch store; without one the spill is refused.\<close>

definition on_scratch ::
    "(scratch_row scratch \<Rightarrow> 'a result \<times> scratch_row scratch) \<Rightarrow> (working, 'a) action" where
  "on_scratch f w =
     (case wk_scratch w of
        None \<Rightarrow> throw Capacity_exceeded w
      | Some x \<Rightarrow> (case f x of
            (Inl e, y) \<Rightarrow> (Inl (Raised e), w\<lparr>wk_scratch := Some y\<rparr>)
          | (Inr a, y) \<Rightarrow> (Inr a, w\<lparr>wk_scratch := Some y\<rparr>)))"

definition new_scope :: "setting \<Rightarrow> (working, token) action" where
  "new_scope st = on_scratch (create_scope (st_lib st) (st_attempt st) (max (st_capacity st) 1))"

definition write_row :: "setting \<Rightarrow> token \<Rightarrow> nat \<Rightarrow> scratch_row \<Rightarrow> (working, unit) action" where
  "write_row st i n row = on_scratch (write_sequential (st_lib st) (st_attempt st) i n row)"

definition shut_scope :: "setting \<Rightarrow> token \<Rightarrow> (working, unit) action" where
  "shut_scope st i = on_scratch (close_scope (st_attempt st) i)"

definition page_budget :: "working \<Rightarrow> nat" where
  "page_budget w = max (mt_budget (wk_meter w)) 1"

definition read_scope :: "setting \<Rightarrow> token \<Rightarrow> int \<Rightarrow> working \<Rightarrow> scratch_row read_page result" where
  "read_scope st i after w =
     (case wk_scratch w of
        None \<Rightarrow> raise Capacity_exceeded
      | Some x \<Rightarrow> read_sequential (st_lib st) (st_attempt st) i after (page_budget w) x)"

definition write_rows :: "setting \<Rightarrow> token \<Rightarrow> nat \<Rightarrow> scratch_row list \<Rightarrow> (working, unit) action" where
  "write_rows st i n rows = sfor (\<lambda>(k, row). write_row st i k row) (zip [n..<n + length rows] rows)"

section \<open>Observing tags\<close>

fun add_member :: "digest \<Rightarrow> nat \<times> raw_locator \<times> nat \<Rightarrow> tag_groups \<Rightarrow> tag_groups" where
  "add_member tag m [] = [(tag, [m])]"
| "add_member tag m ((t, ms) # gs) = (if t = tag then (t, ms @ [m]) # gs else (t, ms) # add_member tag m gs)"

definition tag_rows :: "tag_groups list \<Rightarrow> unique_row list" where
  "tag_rows groups = concat (map (\<lambda>(i, gs). concat (map (\<lambda>(tag, ms).
     map (\<lambda>(s, loc, b). \<lparr>ur_rule = i, ur_tag = tag, ur_sequence = s, ur_locator = loc\<rparr>) ms) gs))
     (zip [0..<length groups] groups))"

definition held_bytes :: "tag_groups list \<Rightarrow> nat" where
  "held_bytes groups = sum_list (map (\<lambda>gs. sum_list (map (\<lambda>(tag, ms). sum_list (map (snd \<circ> snd) ms)) gs)) groups)"

definition spill_tags :: "setting \<Rightarrow> (working, unit) action" where
  "spill_tags st w =
     (let groups = wk_groups w; rows = tag_rows groups in
      sbind (modify (\<lambda>w. w\<lparr>wk_groups := map (\<lambda>_. []) groups\<rparr>)) (\<lambda>_.
      if rows = [] then ret ()
      else sbind (case wk_tag_scope w of
            Some i \<Rightarrow> (if wk_scratch w = None then throw Capacity_exceeded else ret i)
          | None \<Rightarrow> sbind (new_scope st) (\<lambda>i. sbind (modify (\<lambda>w. w\<lparr>wk_tag_scope := Some i\<rparr>)) (\<lambda>_. ret i))) (\<lambda>i.
        sbind (sfor (\<lambda>row w. sbind (write_row st i (wk_tag_next w) (Tag_row row))
             (\<lambda>_. modify (\<lambda>w. w\<lparr>wk_tag_next := wk_tag_next w + 1\<rparr>)) w) rows) (\<lambda>_.
        sbind (release (held_bytes groups)) (\<lambda>_.
        modify (\<lambda>w. w\<lparr>wk_tags_spilled := True\<rparr>))))) w)"

definition observe :: "setting \<Rightarrow> nat \<Rightarrow> digest \<Rightarrow> nat \<Rightarrow> raw_locator \<Rightarrow> (working, unit) action" where
  "observe st i tag s loc =
     (let bytes = xl_size (st_lib st) (Tag_row \<lparr>ur_rule = i, ur_tag = tag, ur_sequence = s, ur_locator = loc\<rparr>) in
      sbind (when_exceeding bytes (spill_tags st)) (\<lambda>_.
      sbind (charge bytes) (\<lambda>_.
      modify (\<lambda>w. w\<lparr>wk_groups := (wk_groups w)[i := add_member tag (s, loc, bytes) (wk_groups w ! i)]\<rparr>))))"

section \<open>Duplicates in memory\<close>

type_synonym findings_at = "nat \<Rightarrow> finding list"

definition duplicate_finding :: "unique_rule \<Rightarrow> raw_locator \<Rightarrow> nat \<Rightarrow> finding" where
  "duplicate_finding rule loc members =
     \<lparr>fi_kind = Rule_kind, fi_rule_id = Some (uq_rule_id rule), fi_field_path = None,
      fi_code = Contract_invalid, fi_severity = uq_severity rule,
      fi_metadata = \<lparr>fm_diagnostic_code = Duplicate_key, fm_raw_locator = Some loc,
        fm_expected_logical_type = None, fm_observed_logical_type = None, fm_observed_count = None,
        fm_expected_min_count = None, fm_expected_max_count = None, fm_duplicate_group_size = Some members\<rparr>\<rparr>"

definition add_finding :: "nat \<Rightarrow> finding \<Rightarrow> findings_at \<Rightarrow> findings_at" where
  "add_finding s x found = found(s := found s @ [x])"

definition group_findings :: "unique_rule \<Rightarrow> (nat \<times> raw_locator) list \<Rightarrow> findings_at \<Rightarrow> findings_at" where
  "group_findings rule ms found =
     (if length ms < 2 then found
      else fold (\<lambda>(s, loc). add_finding s (duplicate_finding rule loc (length ms))) ms found)"

definition unique_key_findings :: "unique_rule list \<Rightarrow> tag_groups list \<Rightarrow> findings_at" where
  "unique_key_findings rules groups =
     fold (\<lambda>(rule, gs). fold (\<lambda>(tag, ms). group_findings rule (map (\<lambda>(s, loc, b). (s, loc)) ms)) gs)
       (zip rules groups) (\<lambda>_. [])"

section \<open>Duplicates through scratch\<close>

definition tag_key :: "unique_row \<Rightarrow> nat \<times> digest \<times> nat" where
  "tag_key r = (ur_rule r, ur_tag r, ur_sequence r)"

text \<open>A scratch row read back as a tag record; the record of a unit would not decode as one.\<close>

definition as_tag :: "scratch_row \<Rightarrow> (working, unique_row) action" where
  "as_tag row w = (case row of Tag_row r \<Rightarrow> (Inr r, w) | Unit_row u \<Rightarrow> (Inl (Raised Validation_error), w))"

text \<open>\<open>_read_one\<close>: the next row of a run that ends at \<open>stop\<close>, and the position after it.\<close>

definition read_one :: "setting \<Rightarrow> token \<Rightarrow> int \<Rightarrow> int \<Rightarrow> (working, unique_row option \<times> int) action" where
  "read_one st i after stop =
     sbind (of_result (read_scope st i after)) (\<lambda>pg.
       case filter (\<lambda>(n, r). int n \<le> stop) (rp_chunks pg) of
         [] \<Rightarrow> ret (None, after)
       | (n, r) # _ \<Rightarrow> sbind (as_tag r) (\<lambda>t. ret (Some t, int n)))"

text \<open>A run is the rows of a scope from a first to a last position.\<close>

type_synonym run = "token \<times> nat \<times> nat"

record run_builder =
  rb_rows :: "unique_row list"
  rb_bytes :: nat
  rb_next :: nat
  rb_runs :: "run list"

definition flush_sorted_run :: "setting \<Rightarrow> token \<Rightarrow> run_builder \<Rightarrow> (working, run_builder) action" where
  "flush_sorted_run st i b =
     (let rows = sort_key tag_key (rb_rows b); next_out = rb_next b + length rows in
      sbind (write_rows st i (rb_next b) (map Tag_row rows)) (\<lambda>_.
      ret \<lparr>rb_rows = [], rb_bytes = 0, rb_next = next_out,
           rb_runs = rb_runs b @ [(i, rb_next b, next_out - 1)]\<rparr>))"

definition on_working :: "('b \<Rightarrow> (working, 'b) action) \<Rightarrow> (working \<times> 'b, unit) action" where
  "on_working f = (\<lambda>(w, b). case f b w of (Inl e, w') \<Rightarrow> (Inl e, (w', b)) | (Inr b', w') \<Rightarrow> (Inr (), (w', b')))"

definition build_row :: "setting \<Rightarrow> token \<Rightarrow> nat \<times> scratch_row \<Rightarrow> run_builder \<Rightarrow> (working, run_builder) action" where
  "build_row st i = (\<lambda>(n, row) b w.
     (let bytes = xl_size (st_lib st) row in
      sbind (as_tag row) (\<lambda>r.
      sbind (if rb_rows b \<noteq> [] \<and> rb_bytes b + bytes > mt_budget (wk_meter w) then flush_sorted_run st i b
             else ret b) (\<lambda>b.
      ret (b\<lparr>rb_rows := rb_rows b @ [r], rb_bytes := rb_bytes b + bytes\<rparr>))) w))"

definition scope_length :: "setting \<Rightarrow> token \<Rightarrow> working \<Rightarrow> nat" where
  "scope_length st i w =
     (case wk_scratch w of None \<Rightarrow> 0
      | Some x \<Rightarrow> (case find_scope (st_attempt st) i x of None \<Rightarrow> 0 | Some c \<Rightarrow> length (sc_rows c)))"

text \<open>The loop reads as many pages as the scope has rows, at most, and one more.\<close>

definition build_sorted_runs :: "setting \<Rightarrow> token \<Rightarrow> (working, run list) action" where
  "build_sorted_runs st i =
     sbind (new_scope st) (\<lambda>out.
     sbind (modify (\<lambda>w. w\<lparr>wk_work_scopes := wk_work_scopes w @ [out]\<rparr>)) (\<lambda>_ w.
     (case page_loop (\<lambda>after (w, b). read_scope st i after w) (\<lambda>x. on_working (build_row st out x))
          (scope_length st i w + 1) (- 1)
          (w, \<lparr>rb_rows = [], rb_bytes = 0, rb_next = 0, rb_runs = []\<rparr>) of
        (Inl e, (w', b)) \<Rightarrow> (Inl e, w')
      | (Inr _, (w', b)) \<Rightarrow>
          sbind (if rb_rows b \<noteq> [] then flush_sorted_run st out b else ret b) (\<lambda>b.
          sbind (shut_scope st out) (\<lambda>_. ret (rb_runs b))) w')))"

text \<open>The merge loop takes the smaller of the two next rows, the left one on a tie.\<close>

fun merge_loop ::
    "setting \<Rightarrow> token \<Rightarrow> token \<times> int \<Rightarrow> token \<times> int \<Rightarrow> nat \<Rightarrow> nat
       \<Rightarrow> unique_row option \<times> int \<Rightarrow> unique_row option \<times> int \<Rightarrow> (working, nat) action" where
  "merge_loop st out (li, lend) (ri, rend) 0 n (lrow, lafter) (rrow, rafter) = out_of_fuel"
| "merge_loop st out (li, lend) (ri, rend) (Suc fuel) n (lrow, lafter) (rrow, rafter) =
     (case (lrow, rrow) of
        (None, None) \<Rightarrow> ret n
      | (Some l, None) \<Rightarrow>
          sbind (write_row st out n (Tag_row l)) (\<lambda>_. sbind (read_one st li lafter lend) (\<lambda>next_left.
          merge_loop st out (li, lend) (ri, rend) fuel (n + 1) next_left (rrow, rafter)))
      | (None, Some r) \<Rightarrow>
          sbind (write_row st out n (Tag_row r)) (\<lambda>_. sbind (read_one st ri rafter rend) (\<lambda>next_right.
          merge_loop st out (li, lend) (ri, rend) fuel (n + 1) (lrow, lafter) next_right))
      | (Some l, Some r) \<Rightarrow>
          if tag_key l \<le> tag_key r
          then sbind (write_row st out n (Tag_row l)) (\<lambda>_. sbind (read_one st li lafter lend) (\<lambda>next_left.
            merge_loop st out (li, lend) (ri, rend) fuel (n + 1) next_left (rrow, rafter)))
          else sbind (write_row st out n (Tag_row r)) (\<lambda>_. sbind (read_one st ri rafter rend) (\<lambda>next_right.
            merge_loop st out (li, lend) (ri, rend) fuel (n + 1) (lrow, lafter) next_right)))"

fun run_length :: "run \<Rightarrow> nat" where
  "run_length (i, a, b) = b + 1 - a"

fun merge_runs :: "setting \<Rightarrow> run \<Rightarrow> run \<Rightarrow> (working, run) action" where
  "merge_runs st (li, la, lb) (ri, ra, rb) =
     sbind (new_scope st) (\<lambda>out.
     sbind (modify (\<lambda>w. w\<lparr>wk_work_scopes := wk_work_scopes w @ [out]\<rparr>)) (\<lambda>_.
     sbind (read_one st li (int la - 1) (int lb)) (\<lambda>left.
     sbind (read_one st ri (int ra - 1) (int rb)) (\<lambda>right.
     sbind (merge_loop st out (li, int lb) (ri, int rb)
       (run_length (li, la, lb) + run_length (ri, ra, rb) + 1) 0 left right) (\<lambda>n.
     sbind (shut_scope st out) (\<lambda>_.
     ret (out, 0, n - 1)))))))"

fun merge_pairs :: "setting \<Rightarrow> run list \<Rightarrow> (working, run list) action" where
  "merge_pairs st [] = ret []"
| "merge_pairs st [r] = ret [r]"
| "merge_pairs st (a # b # rest) =
     sbind (merge_runs st a b) (\<lambda>m. sbind (merge_pairs st rest) (\<lambda>ms. ret (m # ms)))"

fun merge_rounds :: "setting \<Rightarrow> nat \<Rightarrow> run list \<Rightarrow> (working, run list) action" where
  "merge_rounds st 0 runs = out_of_fuel"
| "merge_rounds st (Suc fuel) runs =
     (if length runs \<le> 1 then ret runs else sbind (merge_pairs st runs) (merge_rounds st fuel))"

text \<open>One pass over the last run: a group ends where the rule or the tag changes.\<close>

definition flush_group ::
    "unique_rule list \<Rightarrow> (nat \<times> digest) option \<Rightarrow> (nat \<times> raw_locator) list \<Rightarrow> findings_at \<Rightarrow> findings_at" where
  "flush_group rules key ms found =
     (case key of None \<Rightarrow> found
      | Some (i, tag) \<Rightarrow> if i < length rules then group_findings (rules ! i) ms found else found)"

fun scan_loop ::
    "setting \<Rightarrow> token \<Rightarrow> int \<Rightarrow> nat \<Rightarrow> int \<Rightarrow> (nat \<times> digest) option \<Rightarrow> (nat \<times> raw_locator) list
       \<Rightarrow> findings_at \<Rightarrow> (working, findings_at) action" where
  "scan_loop st i stop 0 after key ms found = out_of_fuel"
| "scan_loop st i stop (Suc fuel) after key ms found =
     sbind (read_one st i after stop) (\<lambda>(row, after).
       case row of
         None \<Rightarrow> ret (flush_group (st_rules st) key ms found)
       | Some r \<Rightarrow>
           let k = (ur_rule r, ur_tag r); new_group = (key \<noteq> None \<and> key \<noteq> Some k) in
           scan_loop st i stop fuel after (Some k)
             ((if new_group then [] else ms) @ [(ur_sequence r, ur_locator r)])
             (if new_group then flush_group (st_rules st) key ms found else found))"

definition scan_run :: "setting \<Rightarrow> run \<Rightarrow> (working, findings_at) action" where
  "scan_run st = (\<lambda>(i, a, b). scan_loop st i (int b) (run_length (i, a, b) + 1) (int a - 1) None [] (\<lambda>_. []))"

definition duplicate_findings :: "setting \<Rightarrow> (working, findings_at) action" where
  "duplicate_findings st w =
     (if \<not> wk_tags_spilled w then ret (unique_key_findings (st_rules st) (wk_groups w)) w
      else sbind (spill_tags st) (\<lambda>_ w.
        case wk_tag_scope w of
          None \<Rightarrow> ret (\<lambda>_. []) w
        | Some i \<Rightarrow>
            sbind (shut_scope st i) (\<lambda>_.
            sbind (build_sorted_runs st i) (\<lambda>runs.
              if runs = [] then ret (\<lambda>_. [])
              else sbind (merge_rounds st (length runs) runs) (\<lambda>runs. scan_run st (hd runs)))) w) w)"

end
