(* ===== verification/Spill_Correct.thy ===== *)
theory Spill_Correct
  imports Unique_Spill
begin

text \<open>
  The spilled uniqueness check finds what the check in memory finds. A run stands for a sorted list of
  rows; merging keeps the rows and their order, so the last run is the sorted list of every row
  observed, and the scan of it reports each row whose tag it shares.
\<close>

section \<open>What a scope holds\<close>

definition scope_at :: "setting \<Rightarrow> working \<Rightarrow> token \<Rightarrow> scratch_row scope option" where
  "scope_at st w i = Option.bind (wk_scratch w) (find_scope (st_attempt st) i)"

definition scope_bytes :: "setting \<Rightarrow> nat" where
  "scope_bytes st = max (st_capacity st) 1"

definition bytes_of :: "setting \<Rightarrow> scratch_row list \<Rightarrow> nat" where
  "bytes_of st rows = sum_list (map (xl_size (st_lib st)) rows)"

definition holds :: "setting \<Rightarrow> working \<Rightarrow> token \<Rightarrow> bool \<Rightarrow> scratch_row list \<Rightarrow> bool" where
  "holds st w i closed rows \<longleftrightarrow> scope_at st w i = Some \<lparr>sc_id = i, sc_owner = st_attempt st,
     sc_capacity = scope_bytes st, sc_used = bytes_of st rows, sc_closed = closed, sc_rows = rows\<rparr>"

text \<open>Room for \<open>n\<close> more scopes: the ceiling has it, and their identities are new.\<close>

definition room :: "setting \<Rightarrow> nat \<Rightarrow> working \<Rightarrow> bool" where
  "room st n w \<longleftrightarrow> (\<exists>x. wk_scratch w = Some x \<and> reserved_aggregate x + n * scope_bytes st \<le> sx_max_bytes x
     \<and> (\<forall>k \<in> {sx_created x + 1..sx_created x + n}. find_scope (st_attempt st) (xl_scope_id (st_lib st) (st_attempt st) k) x = None)
     \<and> inj_on (xl_scope_id (st_lib st) (st_attempt st)) {sx_created x + 1..sx_created x + n})"

text \<open>Either scratch may refuse, which ends the validation with its error, or it has the room.\<close>

definition ample :: "(run_error \<Rightarrow> bool) \<Rightarrow> setting \<Rightarrow> nat \<Rightarrow> working \<Rightarrow> bool" where
  "ample E st n w \<longleftrightarrow> (\<forall>e. E (Raised e)) \<or> room st n w"

definition fits :: "(run_error \<Rightarrow> bool) \<Rightarrow> setting \<Rightarrow> scratch_row list \<Rightarrow> bool" where
  "fits E st rows \<longleftrightarrow> (\<forall>e. E (Raised e)) \<or> bytes_of st rows \<le> scope_bytes st"

text \<open>What a step that writes to the scope \<open>i\<close> leaves alone, and what one that opens scopes does.\<close>

definition only :: "setting \<Rightarrow> token \<Rightarrow> working \<Rightarrow> working \<Rightarrow> bool" where
  "only st i w t \<longleftrightarrow> t = w\<lparr>wk_scratch := wk_scratch t\<rparr> \<and> (\<forall>j. j \<noteq> i \<longrightarrow> scope_at st t j = scope_at st w j)"

definition grown :: "setting \<Rightarrow> working \<Rightarrow> working \<Rightarrow> bool" where
  "grown st w t \<longleftrightarrow> t = w\<lparr>wk_scratch := wk_scratch t, wk_work_scopes := wk_work_scopes t\<rparr>
     \<and> (\<forall>j. scope_at st w j \<noteq> None \<longrightarrow> scope_at st t j = scope_at st w j)"

lemma bytes_of_append [simp]: "bytes_of st (xs @ ys) = bytes_of st xs + bytes_of st ys"
  by (simp add: bytes_of_def)

lemma bytes_of_simps [simp]: "bytes_of st [] = 0" "bytes_of st (x # xs) = xl_size (st_lib st) x + bytes_of st xs"
  by (simp_all add: bytes_of_def)

lemma bytes_of_mset: "mset xs = mset ys \<Longrightarrow> bytes_of st xs = bytes_of st ys"
  unfolding bytes_of_def by (metis mset_map sum_mset_sum_list)

lemma fits_appendD: "fits E st (xs @ ys) \<Longrightarrow> fits E st xs"
  by (auto simp: fits_def)

lemma fits_mset: "fits E st xs \<Longrightarrow> mset xs = mset ys \<Longrightarrow> fits E st ys"
  using bytes_of_mset [of xs ys st] by (simp add: fits_def)

lemma fits_subset: "fits E st xs \<Longrightarrow> mset ys \<subseteq># mset xs \<Longrightarrow> fits E st ys"
proof -
  assume a: "fits E st xs" "mset ys \<subseteq># mset xs"
  then obtain zs where "mset xs = mset (ys @ zs)"
    by (metis ex_mset mset_append mset_subset_eq_exists_conv)
  with a(1) show ?thesis using fits_mset fits_appendD by metis
qed

lemma only_refl: "only st i w w"
  by (simp add: only_def)

lemma only_trans: "only st i w t \<Longrightarrow> only st i t u \<Longrightarrow> only st i w u"
  by (cases w; cases t; cases u) (auto simp: only_def)

lemma grown_refl: "grown st w w"
  by (simp add: grown_def)

lemma grown_trans: "grown st w t \<Longrightarrow> grown st t u \<Longrightarrow> grown st w u"
  by (cases w; cases t; cases u) (auto simp: grown_def)

lemma grown_only:
  assumes "grown st w t" and "scope_at st w i = None" and "only st i t u"
  shows "grown st w u"
  unfolding grown_def
proof (intro conjI allI impI)
  show "u = w\<lparr>wk_scratch := wk_scratch u, wk_work_scopes := wk_work_scopes u\<rparr>"
    using assms(1,3) by (cases w; cases t; cases u) (simp add: grown_def only_def)
  fix j assume "scope_at st w j \<noteq> None"
  with assms(2) have "j \<noteq> i" by auto
  with assms(3) have "scope_at st u j = scope_at st t j" by (simp add: only_def)
  also have "\<dots> = scope_at st w j" using assms(1) \<open>scope_at st w j \<noteq> None\<close> by (simp add: grown_def)
  finally show "scope_at st u j = scope_at st w j" .
qed

lemma holdsE:
  assumes "holds st w i c rows"
  obtains x where "wk_scratch w = Some x"
    and "find_scope (st_attempt st) i x = Some \<lparr>sc_id = i, sc_owner = st_attempt st,
      sc_capacity = scope_bytes st, sc_used = bytes_of st rows, sc_closed = c, sc_rows = rows\<rparr>"
  using assms by (cases "wk_scratch w") (simp_all add: holds_def scope_at_def)

lemma only_holds: "only st i w t \<Longrightarrow> j \<noteq> i \<Longrightarrow> holds st t j c rows \<longleftrightarrow> holds st w j c rows"
  by (simp add: only_def holds_def)

lemma grown_holds: "grown st w t \<Longrightarrow> holds st w j c rows \<Longrightarrow> holds st t j c rows"
  by (simp add: grown_def holds_def)

lemma only_meter: "only st i w t \<Longrightarrow> wk_meter t = wk_meter w"
  by (cases w; cases t) (simp add: only_def)

lemma grown_meter: "grown st w t \<Longrightarrow> wk_meter t = wk_meter w"
  by (cases w; cases t) (simp add: grown_def)

lemma page_budget_meter: "wk_meter t = wk_meter w \<Longrightarrow> page_budget t = page_budget w"
  by (simp add: page_budget_def)

section \<open>Requests to scratch\<close>

lemma scope_at_update [simp]: "scope_at st (w\<lparr>wk_scratch := Some y\<rparr>) j = find_scope (st_attempt st) j y"
  by (simp add: scope_at_def)

lemma only_update: "only st i w (w\<lparr>wk_scratch := Some y\<rparr>)
    \<longleftrightarrow> (\<forall>j. j \<noteq> i \<longrightarrow> find_scope (st_attempt st) j y = scope_at st w j)"
  by (simp add: only_def)

lemma yields_Inr: "m s = (Inr x, t) \<Longrightarrow> Q x t \<Longrightarrow> yields E m s Q"
  by (simp add: yields_def)

lemma room_set_scope:
  assumes "room st n w" and "wk_scratch w = Some x"
    and "\<And>c. sc_owner (f c) = sc_owner c \<and> sc_id (f c) = sc_id c \<and> sc_capacity (f c) = sc_capacity c"
  shows "room st n (w\<lparr>wk_scratch := Some (set_scope att i f x)\<rparr>)"
proof -
  have "map sc_capacity (map (\<lambda>c. if is_scope att i c then f c else c) cs) = map sc_capacity cs" for cs
    using assms(3) by (induction cs) auto
  then have "reserved_aggregate (set_scope att i f x) = reserved_aggregate x"
    unfolding reserved_aggregate_def set_scope_def by (simp del: map_map)
  moreover have "find_scope own j (set_scope att i f x) = None \<longleftrightarrow> find_scope own j x = None" for own j
    using assms(3) by (simp add: find_set_scope)
  moreover have "sx_max_bytes (set_scope att i f x) = sx_max_bytes x" "sx_created (set_scope att i f x) = sx_created x"
    by (simp_all add: set_scope_def)
  ultimately show ?thesis using assms(1,2) unfolding room_def by simp
qed

lemma yields_new_scope:
  assumes "ample E st (Suc n) w"
  shows "yields E (new_scope st) w (\<lambda>i t. scope_at st w i = None \<and> holds st t i False [] \<and> only st i w t \<and> ample E st n t)"
proof (cases "wk_scratch w")
  case None
  with assms have "E (Raised e)" for e by (auto simp: ample_def room_def)
  with None show ?thesis by (simp add: new_scope_def on_scratch_def yields_def throw_def)
next
  case (Some x)
  let ?i = "xl_scope_id (st_lib st) (st_attempt st) (sx_created x + 1)"
  obtain r y where ry: "create_scope (st_lib st) (st_attempt st) (max (st_capacity st) 1) x = (r, y)"
    by fastforce
  show ?thesis
  proof (cases r)
    case (Inl e)
    have "\<not> room st (Suc n) w"
      using ry Inl Some by (auto simp: create_scope_def room_def Let_def scope_bytes_def split: if_splits)
    with assms have "E (Raised e)" by (auto simp: ample_def)
    with Some ry Inl show ?thesis by (simp add: new_scope_def on_scratch_def yields_def)
  next
    case (Inr i)
    from create_scope_Inr [OF ry [unfolded Inr]]
    have i: "i = ?i" "find_scope (st_attempt st) i x = None"
      "\<And>own j. find_scope own j y = (if own = st_attempt st \<and> j = i
        then Some \<lparr>sc_id = i, sc_owner = st_attempt st, sc_capacity = max (st_capacity st) 1, sc_used = 0, sc_closed = False, sc_rows = []\<rparr>
        else find_scope own j x)" by blast+
    have y: "sx_max_bytes y = sx_max_bytes x" "sx_created y = sx_created x + 1"
      "reserved_aggregate y = reserved_aggregate x + scope_bytes st"
      using ry Inr by (auto simp: create_scope_def Let_def reserved_aggregate_def scope_bytes_def split: if_splits)
    have "room st n (w\<lparr>wk_scratch := Some y\<rparr>)" if "room st (Suc n) w"
    proof -
      from that Some have old: "reserved_aggregate x + Suc n * scope_bytes st \<le> sx_max_bytes x"
        "\<forall>k \<in> {sx_created x + 1..sx_created x + Suc n}. find_scope (st_attempt st) (xl_scope_id (st_lib st) (st_attempt st) k) x = None"
        "inj_on (xl_scope_id (st_lib st) (st_attempt st)) {sx_created x + 1..sx_created x + Suc n}"
        by (auto simp: room_def)
      have "xl_scope_id (st_lib st) (st_attempt st) k \<noteq> ?i" if "k \<in> {sx_created x + 2..sx_created x + Suc n}" for k
        using inj_onD [OF old(3), of k "sx_created x + 1"] that by auto
      with old(2) i have "find_scope (st_attempt st) (xl_scope_id (st_lib st) (st_attempt st) k) y = None"
        if "k \<in> {sx_created y + 1..sx_created y + n}" for k
        using that y by simp
      moreover have "inj_on (xl_scope_id (st_lib st) (st_attempt st)) {sx_created y + 1..sx_created y + n}"
        by (rule inj_on_subset [OF old(3)]) (use y in auto)
      ultimately show ?thesis using old(1) y by (simp add: room_def)
    qed
    with assms have "ample E st n (w\<lparr>wk_scratch := Some y\<rparr>)" by (auto simp: ample_def)
    moreover have "new_scope st w = (Inr i, w\<lparr>wk_scratch := Some y\<rparr>)"
      using Some ry Inr by (simp add: new_scope_def on_scratch_def)
    moreover have "holds st (w\<lparr>wk_scratch := Some y\<rparr>) i False []"
      unfolding holds_def by (simp add: i(3) scope_bytes_def)
    moreover have "only st i w (w\<lparr>wk_scratch := Some y\<rparr>)"
      unfolding only_update by (simp add: i(3) scope_at_def Some)
    moreover have "scope_at st w i = None" using i(2) by (simp add: scope_at_def Some)
    ultimately show ?thesis by - (rule yields_Inr, assumption, intro conjI)
  qed
qed

lemma yields_write_row:
  assumes "holds st w i False rows" and "n = length rows" and "fits E st (rows @ [row])" and "ample E st k w"
  shows "yields E (write_row st i n row) w
    (\<lambda>_ t. holds st t i False (rows @ [row]) \<and> only st i w t \<and> ample E st k t)"
proof -
  from assms(1) obtain x where x: "wk_scratch w = Some x"
    and find: "find_scope (st_attempt st) i x = Some \<lparr>sc_id = i, sc_owner = st_attempt st,
      sc_capacity = scope_bytes st, sc_used = bytes_of st rows, sc_closed = False, sc_rows = rows\<rparr>"
    by (rule holdsE)
  show ?thesis
  proof (cases "bytes_of st (rows @ [row]) \<le> scope_bytes st")
    case False
    with assms(3) have "E (Raised e)" for e by (auto simp: fits_def)
    with False x find assms(2) show ?thesis
      by (simp add: write_row_def on_scratch_def yields_def write_sequential_def require_owner_def raise_def)
  next
    case True
    let ?f = "\<lambda>c. c\<lparr>sc_rows := sc_rows c @ [row], sc_used := sc_used c + xl_size (st_lib st) row\<rparr>"
    let ?t = "w\<lparr>wk_scratch := Some (set_scope (st_attempt st) i ?f x)\<rparr>"
    have "write_row st i n row w = (Inr (), ?t)"
      using True x find assms(2)
      by (simp add: write_row_def on_scratch_def write_sequential_def require_owner_def)
    moreover have "ample E st k ?t"
      using assms(4) room_set_scope [OF _ x, of st k ?f "st_attempt st" i] by (auto simp: ample_def)
    moreover have "holds st ?t i False (rows @ [row])"
      unfolding holds_def by (simp add: find_set_scope find)
    moreover have "only st i w ?t"
      unfolding only_update by (simp add: find_set_scope scope_at_def x)
    ultimately show ?thesis by - (rule yields_Inr, assumption, intro conjI)
  qed
qed

lemma yields_shut_scope:
  assumes "holds st w i c rows" and "ample E st k w"
  shows "yields E (shut_scope st i) w (\<lambda>_ t. holds st t i True rows \<and> only st i w t \<and> ample E st k t)"
proof -
  from assms(1) obtain x where x: "wk_scratch w = Some x"
    and find: "find_scope (st_attempt st) i x = Some \<lparr>sc_id = i, sc_owner = st_attempt st,
      sc_capacity = scope_bytes st, sc_used = bytes_of st rows, sc_closed = c, sc_rows = rows\<rparr>"
    by (rule holdsE)
  let ?f = "\<lambda>c. c\<lparr>sc_closed := True\<rparr>"
  let ?t = "w\<lparr>wk_scratch := Some (set_scope (st_attempt st) i ?f x)\<rparr>"
  have "shut_scope st i w = (Inr (), ?t)"
    using x find by (simp add: shut_scope_def on_scratch_def close_scope_def require_owner_def)
  moreover have "ample E st k ?t"
    using assms(2) room_set_scope [OF _ x, of st k ?f "st_attempt st" i] by (auto simp: ample_def)
  moreover have "holds st ?t i True rows"
    unfolding holds_def by (simp add: find_set_scope find)
  moreover have "only st i w ?t"
    unfolding only_update by (simp add: find_set_scope scope_at_def x)
  ultimately show ?thesis by - (rule yields_Inr, assumption, intro conjI)
qed

lemma yields_write_rows:
  assumes "holds st w i False old" and "n = length old" and "fits E st (old @ rows)" and "ample E st k w"
  shows "yields E (write_rows st i n rows) w
    (\<lambda>_ t. holds st t i False (old @ rows) \<and> only st i w t \<and> ample E st k t)"
proof -
  let ?I = "\<lambda>ys t. holds st t i False (old @ map snd ys) \<and> only st i w t \<and> ample E st k t"
  let ?xs = "zip [n..<n + length rows] rows"
  have "yields E (write_rows st i n rows) w (\<lambda>_ t. ?I ?xs t)"
    unfolding write_rows_def
  proof (rule yields_sfor)
    show "?I [] w" using assms by (simp add: only_refl)
    fix ys x zs t
    assume split: "?xs = ys @ x # zs" and inv: "?I ys t"
    obtain m row where x: "x = (m, row)" by (cases x)
    have "x = ?xs ! length ys" "length ys < length ?xs" by (simp_all add: split)
    then have m: "m = length (old @ map snd ys)" using x assms(2) by simp
    have "map snd ?xs = rows" by simp
    then have "rows = map snd ys @ row # map snd zs" using split x by simp
    then have "fits E st (((old @ map snd ys) @ [row]) @ map snd zs)" using assms(3) by simp
    then have fit: "fits E st ((old @ map snd ys) @ [row])" by (rule fits_appendD)
    show "yields E ((\<lambda>(k, row). write_row st i k row) x) t (\<lambda>_ u. ?I (ys @ [x]) u)"
      unfolding x prod.case
      by (rule yields_weaken [OF yields_write_row [OF _ m fit, of t i k]])
        (use inv x in \<open>auto intro: only_trans\<close>)
  qed
  then show ?thesis by (rule yields_weaken) simp
qed

section \<open>Reading a scope\<close>

definition readable :: "setting \<Rightarrow> token \<Rightarrow> working \<Rightarrow> scratch_row list option" where
  "readable st i w = Option.bind (wk_scratch w) (closed_rows (st_lib st) (st_attempt st) i (page_budget w))"

interpretation working_pages: paged_rows "read_scope st i" "readable st i"
proof
  fix w rows after
  assume "readable st i w = Some rows"
  then obtain x where x: "wk_scratch w = Some x"
    "closed_rows (st_lib st) (st_attempt st) i (page_budget w) x = Some rows"
    by (cases "wk_scratch w") (simp_all add: readable_def)
  from scratch_pages.page_next [OF x(2)] x(1)
  show "\<exists>pg k. read_scope st i after w = Inr pg
      \<and> rp_chunks pg = take k (drop (nat (after + 1)) (numbered rows))
      \<and> (rp_next_sequence pg = None \<longleftrightarrow> length rows - nat (after + 1) \<le> k)
      \<and> (nat (after + 1) < length rows \<longrightarrow> 0 < k)"
    by (simp add: read_scope_def)
qed

definition small :: "setting \<Rightarrow> working \<Rightarrow> scratch_row list \<Rightarrow> bool" where
  "small st w rows \<longleftrightarrow> (\<forall>r \<in> set rows. xl_size (st_lib st) r \<le> page_budget w)"

lemma readable_holds:
  assumes "holds st w i True rows" and "small st w rows"
  shows "readable st i w = Some rows"
proof (rule holdsE [OF assms(1)])
  fix x
  assume "wk_scratch w = Some x"
    and "find_scope (st_attempt st) i x = Some \<lparr>sc_id = i, sc_owner = st_attempt st,
      sc_capacity = scope_bytes st, sc_used = bytes_of st rows, sc_closed = True, sc_rows = rows\<rparr>"
  with assms(2) show ?thesis by (simp add: readable_def closed_rows_def small_def)
qed

text \<open>A cursor at the tag \<open>n\<close> of a run that ends at \<open>b\<close>.\<close>

lemma yields_read_one:
  assumes "holds st w i True (map Tag_row ts)" and "small st w (map Tag_row ts)" and "b < length ts"
  shows "yields E (read_one st i (int n - 1) (int b)) w (\<lambda>c t. t = w
    \<and> (if n \<le> b then c = (Some (ts ! n), int n) else fst c = None))"
proof -
  let ?rows = "map Tag_row ts"
  from working_pages.page_next [OF readable_holds [OF assms(1,2)], of "int n - 1"]
  obtain pg k where pg: "read_scope st i (int n - 1) w = Inr pg" "rp_chunks pg = take k (drop n (numbered ?rows))"
    "n < length ts \<longrightarrow> 0 < k" by auto
  show ?thesis
  proof (cases "n \<le> b")
    case True
    with assms(3) have "drop n (numbered ?rows) = (n, Tag_row (ts ! n)) # drop (Suc n) (numbered ?rows)"
      using Cons_nth_drop_Suc [of n "numbered ?rows"] by (simp add: nth_numbered)
    with pg(2,3) True assms(3) obtain rest where "rp_chunks pg = (n, Tag_row (ts ! n)) # rest"
      by (cases k) auto
    with pg(1) True show ?thesis
      by (simp add: read_one_def yields_def sbind_def of_result_def as_tag_def ret_def)
  next
    case False
    have "int b < int m" if "(m, r) \<in> set (rp_chunks pg)" for m r
    proof -
      from that pg(2) have "(m, r) \<in> set (drop n (numbered ?rows))" by (metis in_set_takeD)
      then obtain j where "j < length (drop n (numbered ?rows))" "drop n (numbered ?rows) ! j = (m, r)"
        by (metis in_set_conv_nth)
      then have "m = n + j" by (simp add: nth_numbered)
      with False show ?thesis by simp
    qed
    then have "filter (\<lambda>(m, r). int m \<le> int b) (rp_chunks pg) = []"
      by (fastforce simp: filter_empty_conv)
    with pg(1) False show ?thesis
      by (simp add: read_one_def yields_def sbind_def of_result_def ret_def)
  qed
qed

section \<open>Runs\<close>

text \<open>The sorted rows a run stands for.\<close>

definition run_holds :: "setting \<Rightarrow> working \<Rightarrow> run \<Rightarrow> unique_row list \<Rightarrow> bool" where
  "run_holds st w = (\<lambda>(i, a, b) rs. \<exists>ts. holds st w i True (map Tag_row ts) \<and> small st w (map Tag_row ts)
     \<and> a \<le> b \<and> b < length ts \<and> rs = drop a (take (b + 1) ts) \<and> sorted (map tag_key rs))"

text \<open>What is left of a run: the row read last, if any, and those after it.\<close>

definition cursor ::
    "setting \<Rightarrow> working \<Rightarrow> token \<Rightarrow> nat \<Rightarrow> unique_row option \<times> int \<Rightarrow> unique_row list \<Rightarrow> bool" where
  "cursor st w i b c rest \<longleftrightarrow> (case rest of
     [] \<Rightarrow> fst c = None
   | r # _ \<Rightarrow> \<exists>ts n. holds st w i True (map Tag_row ts) \<and> small st w (map Tag_row ts)
       \<and> n \<le> b \<and> b < length ts \<and> rest = drop n (take (b + 1) ts) \<and> c = (Some r, int n))"

lemma run_holds_length: "run_holds st w (i, a, b) rs \<Longrightarrow> length rs = run_length (i, a, b)"
  by (auto simp: run_holds_def)

lemma run_holds_nonempty: "run_holds st w r rs \<Longrightarrow> rs \<noteq> []"
  by (auto simp: run_holds_def)

lemma small_only: "only st i w t \<Longrightarrow> small st t rows \<longleftrightarrow> small st w rows"
  by (drule only_meter) (simp add: small_def page_budget_def)

lemma small_grown: "grown st w t \<Longrightarrow> small st t rows \<longleftrightarrow> small st w rows"
  by (drule grown_meter) (simp add: small_def page_budget_def)

lemma run_holds_grown: "grown st w t \<Longrightarrow> run_holds st w r rs \<Longrightarrow> run_holds st t r rs"
  by (cases r) (fastforce simp: run_holds_def small_grown dest: grown_holds)

lemma cursor_only:
  assumes "only st j w t" and "i \<noteq> j" and "cursor st w i b c rest"
  shows "cursor st t i b c rest"
proof -
  have "holds st t i True rows \<and> small st t rows \<longleftrightarrow> holds st w i True rows \<and> small st w rows" for rows
    using only_holds [OF assms(1,2)] small_only [OF assms(1)] by simp
  then show ?thesis using assms(3) unfolding cursor_def by (simp only: conj_assoc [symmetric])
qed

lemma yields_read_cursor:
  assumes "holds st w i True (map Tag_row ts)" and "small st w (map Tag_row ts)" and "b < length ts"
    and "n \<le> b + 1"
  shows "yields E (read_one st i (int n - 1) (int b)) w (\<lambda>c t. t = w \<and> cursor st w i b c (drop n (take (b + 1) ts)))"
proof (rule yields_weaken [OF yields_read_one [OF assms(1-3)]])
  fix c t
  assume r: "t = w \<and> (if n \<le> b then c = (Some (ts ! n), int n) else fst c = None)"
  show "t = w \<and> cursor st w i b c (drop n (take (b + 1) ts))"
  proof (cases "n \<le> b")
    case True
    with assms(3) have "drop n (take (b + 1) ts) = ts ! n # drop (n + 1) (take (b + 1) ts)"
      using Cons_nth_drop_Suc [of n "take (b + 1) ts"] by simp
    with r True assms show ?thesis unfolding cursor_def by auto
  next
    case False
    with r assms(3,4) show ?thesis by (simp add: cursor_def)
  qed
qed

lemma yields_run_start:
  assumes "run_holds st w (i, a, b) rs"
  shows "yields E (read_one st i (int a - 1) (int b)) w (\<lambda>c t. t = w \<and> cursor st w i b c rs)"
proof -
  from assms obtain ts where "holds st w i True (map Tag_row ts)" "small st w (map Tag_row ts)"
    "b < length ts" "a \<le> b + 1" "rs = drop a (take (b + 1) ts)" by (auto simp: run_holds_def)
  then show ?thesis using yields_read_cursor by blast
qed

lemma yields_cursor_next:
  assumes "cursor st w i b (Some r', pos) (r # rest)"
  shows "r' = r \<and> yields E (read_one st i pos (int b)) w (\<lambda>c t. t = w \<and> cursor st w i b c rest)"
proof -
  from assms obtain ts n where ts: "holds st w i True (map Tag_row ts)" "small st w (map Tag_row ts)"
    "n \<le> b" "b < length ts" "r # rest = drop n (take (b + 1) ts)" "r' = r" "pos = int n"
    by (auto simp: cursor_def)
  from ts(5) have "rest = drop (n + 1) (take (b + 1) ts)" by (metis drop_drop add.commute drop_Suc_Cons drop0 One_nat_def)
  moreover have "pos = int (n + 1) - 1" using ts(7) by simp
  ultimately show ?thesis using yields_read_cursor [OF ts(1,2,4), of "n + 1"] ts(3,6) by simp
qed

section \<open>Merging\<close>

fun merge_by :: "('a \<Rightarrow> 'k::linorder) \<Rightarrow> 'a list \<Rightarrow> 'a list \<Rightarrow> 'a list" where
  "merge_by key [] ys = ys"
| "merge_by key xs [] = xs"
| "merge_by key (x # xs) (y # ys) =
     (if key x \<le> key y then x # merge_by key xs (y # ys) else y # merge_by key (x # xs) ys)"

lemma merge_by_Nil2 [simp]: "merge_by key xs [] = xs"
  by (cases xs) simp_all

lemma mset_merge_by [simp]: "mset (merge_by key xs ys) = mset xs + mset ys"
  by (induction key xs ys rule: merge_by.induct) simp_all

lemma set_merge_by [simp]: "set (merge_by key xs ys) = set xs \<union> set ys"
  by (metis mset_merge_by set_mset_mset set_mset_union)

lemma length_merge_by [simp]: "length (merge_by key xs ys) = length xs + length ys"
  by (metis mset_merge_by size_mset size_union)

lemma sorted_merge_by: "sorted (map key xs) \<Longrightarrow> sorted (map key ys) \<Longrightarrow> sorted (map key (merge_by key xs ys))"
  by (induction key xs ys rule: merge_by.induct) auto

text \<open>The row a cursor holds is written, and the cursor moves on.\<close>

lemma yields_take:
  assumes "cursor st w i b (Some r', pos) (r # rest)" and "i \<noteq> out"
    and "holds st w out False (map Tag_row zs)" and "fits E st (map Tag_row (zs @ [r]))" and "ample E st k w"
    and "\<And>c t. cursor st t i b c rest \<Longrightarrow> holds st t out False (map Tag_row (zs @ [r])) \<Longrightarrow> only st out w t
      \<Longrightarrow> ample E st k t \<Longrightarrow> yields E (g c) t Q"
  shows "r' = r \<and> yields E (sbind (write_row st out (length zs) (Tag_row r))
    (\<lambda>_. sbind (read_one st i pos (int b)) g)) w Q"
proof (intro conjI yields_sbind [OF yields_write_row [OF assms(3)]])
  show "r' = r" using yields_cursor_next [OF assms(1)] by blast
  show "length zs = length (map Tag_row zs)" by simp
  show "fits E st (map Tag_row zs @ [Tag_row r])" using assms(4) by simp
  show "ample E st k w" by (rule assms(5))
  fix u t
  assume t: "holds st t out False (map Tag_row zs @ [Tag_row r]) \<and> only st out w t \<and> ample E st k t"
  then have "cursor st t i b (Some r', pos) (r # rest)" using cursor_only assms(1,2) by blast
  then have next_row: "yields E (read_one st i pos (int b)) t (\<lambda>c u. u = t \<and> cursor st t i b c rest)"
    using yields_cursor_next by blast
  show "yields E (sbind (read_one st i pos (int b)) g) t Q"
    by (rule yields_sbind [OF next_row]) (use t assms(6) in simp)
qed

lemma yields_merge_loop:
  assumes "cursor st w li lb lc xs" and "cursor st w ri rb rc ys" and "li \<noteq> out" and "ri \<noteq> out"
    and "holds st w out False (map Tag_row zs)" and "fits E st (map Tag_row (zs @ xs @ ys))" and "ample E st k w"
    and "length xs + length ys < fuel"
  shows "yields E (merge_loop st out (li, int lb) (ri, int rb) fuel (length zs) lc rc) w
    (\<lambda>n t. n = length zs + length xs + length ys \<and> holds st t out False (map Tag_row (zs @ merge_by tag_key xs ys))
       \<and> only st out w t \<and> ample E st k t)"
  using assms(1,2,5-8)
proof (induction fuel arbitrary: w lc rc xs ys zs)
  case (Suc fuel)
  obtain lrow lpos rrow rpos where c: "lc = (lrow, lpos)" "rc = (rrow, rpos)" by (cases lc; cases rc)
  have next_left: "yields E (sbind (write_row st out (length zs) (Tag_row l))
      (\<lambda>_. sbind (read_one st li lpos (int lb)) (\<lambda>next_left.
         merge_loop st out (li, int lb) (ri, int rb) fuel (length zs + 1) next_left rc))) w
      (\<lambda>n t. n = length zs + length xs + length ys \<and> holds st t out False (map Tag_row (zs @ l # merge_by tag_key xs' ys))
       \<and> only st out w t \<and> ample E st k t)" if "xs = l # xs'" "lrow = Some l" for l xs'
  proof (rule yields_take [THEN conjunct2])
    show "cursor st w li lb (Some l, lpos) (l # xs')" using Suc.prems(1) c that by simp
    show "fits E st (map Tag_row (zs @ [l]))"
      by (rule fits_subset [OF Suc.prems(4)]) (use that in simp)
    fix d t
    assume t: "cursor st t li lb d xs'" "holds st t out False (map Tag_row (zs @ [l]))" "only st out w t" "ample E st k t"
    have "yields E (merge_loop st out (li, int lb) (ri, int rb) fuel (length (zs @ [l])) d rc) t
      (\<lambda>n u. n = length (zs @ [l]) + length xs' + length ys
        \<and> holds st u out False (map Tag_row ((zs @ [l]) @ merge_by tag_key xs' ys)) \<and> only st out t u \<and> ample E st k u)"
      by (rule Suc.IH) (use Suc.prems t that cursor_only [OF t(3) assms(4)] in simp_all)
    then show "yields E (merge_loop st out (li, int lb) (ri, int rb) fuel (length zs + 1) d rc) t
      (\<lambda>n t. n = length zs + length xs + length ys \<and> holds st t out False (map Tag_row (zs @ l # merge_by tag_key xs' ys))
       \<and> only st out w t \<and> ample E st k t)"
      using that only_trans [OF t(3)] by (simp add: yields_weaken)
  qed (use Suc.prems assms in simp_all)
  have next_right: "yields E (sbind (write_row st out (length zs) (Tag_row r))
      (\<lambda>_. sbind (read_one st ri rpos (int rb)) (\<lambda>next_right.
         merge_loop st out (li, int lb) (ri, int rb) fuel (length zs + 1) lc next_right))) w
      (\<lambda>n t. n = length zs + length xs + length ys \<and> holds st t out False (map Tag_row (zs @ r # merge_by tag_key xs ys'))
       \<and> only st out w t \<and> ample E st k t)" if "ys = r # ys'" "rrow = Some r" for r ys'
  proof (rule yields_take [THEN conjunct2])
    show "cursor st w ri rb (Some r, rpos) (r # ys')" using Suc.prems(2) c that by simp
    show "fits E st (map Tag_row (zs @ [r]))"
      by (rule fits_subset [OF Suc.prems(4)]) (use that in simp)
    fix d t
    assume t: "cursor st t ri rb d ys'" "holds st t out False (map Tag_row (zs @ [r]))" "only st out w t" "ample E st k t"
    have "yields E (merge_loop st out (li, int lb) (ri, int rb) fuel (length (zs @ [r])) lc d) t
      (\<lambda>n u. n = length (zs @ [r]) + length xs + length ys'
        \<and> holds st u out False (map Tag_row ((zs @ [r]) @ merge_by tag_key xs ys')) \<and> only st out t u \<and> ample E st k u)"
    proof (rule Suc.IH)
      show "fits E st (map Tag_row ((zs @ [r]) @ xs @ ys'))"
        by (rule fits_mset [OF Suc.prems(4)]) (use that in simp)
    qed (use Suc.prems t that cursor_only [OF t(3) assms(3)] in simp_all)
    then show "yields E (merge_loop st out (li, int lb) (ri, int rb) fuel (length zs + 1) lc d) t
      (\<lambda>n t. n = length zs + length xs + length ys \<and> holds st t out False (map Tag_row (zs @ r # merge_by tag_key xs ys'))
       \<and> only st out w t \<and> ample E st k t)"
      using that only_trans [OF t(3)] by (simp add: yields_weaken)
  qed (use Suc.prems assms in simp_all)
  have left: "(xs = [] \<and> lrow = None) \<or> (\<exists>l xs'. xs = l # xs' \<and> lrow = Some l)"
    using Suc.prems(1) c by (cases xs) (auto simp: cursor_def)
  have right: "(ys = [] \<and> rrow = None) \<or> (\<exists>r ys'. ys = r # ys' \<and> rrow = Some r)"
    using Suc.prems(2) c by (cases ys) (auto simp: cursor_def)
  from left right consider (none) "xs = []" "lrow = None" "ys = []" "rrow = None"
    | (l) l xs' where "xs = l # xs'" "lrow = Some l" "ys = []" "rrow = None"
    | (r) r ys' where "xs = []" "lrow = None" "ys = r # ys'" "rrow = Some r"
    | (both) l xs' r ys' where "xs = l # xs'" "lrow = Some l" "ys = r # ys'" "rrow = Some r"
    by blast
  then show ?case
  proof cases
    case none
    then show ?thesis using Suc.prems c by (simp add: only_refl)
  next
    case l
    then show ?thesis using next_left [OF l(1,2)] c by simp
  next
    case r
    then show ?thesis using next_right [OF r(3,4)] c by simp
  next
    case both
    then show ?thesis using next_left [OF both(1,2)] next_right [OF both(3,4)] c by simp
  qed
qed simp

text \<open>A new scope for sorted rows, noted as one to delete at the end.\<close>

lemma grown_work: "grown st w t \<Longrightarrow> grown st w (t\<lparr>wk_work_scopes := xs\<rparr>)"
  by (cases w; cases t) (simp add: grown_def scope_at_def)

lemma yields_new_work:
  assumes "ample E st (Suc k) w"
    and "\<And>out u. scope_at st w out = None \<Longrightarrow> holds st u out False [] \<Longrightarrow> grown st w u \<Longrightarrow> ample E st k u
      \<Longrightarrow> yields E (f out) u Q"
  shows "yields E (sbind (new_scope st) (\<lambda>out.
    sbind (modify (\<lambda>w. w\<lparr>wk_work_scopes := wk_work_scopes w @ [out]\<rparr>)) (\<lambda>_. f out))) w Q"
proof (rule yields_sbind [OF yields_new_scope [OF assms(1)]], rule yields_sbind)
  fix out t
  assume t: "scope_at st w out = None \<and> holds st t out False [] \<and> only st out w t \<and> ample E st k t"
  let ?t = "t\<lparr>wk_work_scopes := wk_work_scopes t @ [out]\<rparr>"
  show "yields E (modify (\<lambda>w. w\<lparr>wk_work_scopes := wk_work_scopes w @ [out]\<rparr>)) t (\<lambda>_ u. u = ?t)" by simp
  fix x u
  assume u: "u = ?t"
  have "grown st w u"
    unfolding u using grown_work grown_only [OF grown_refl] t by blast
  moreover have "holds st u out False []" "ample E st k u"
    using t u by (simp_all add: holds_def ample_def scope_at_def room_def)
  ultimately show "yields E (f out) u Q" using assms(2) t by blast
qed

lemma yields_merge_runs:
  assumes "run_holds st w l xs" and "run_holds st w r ys" and "fits E st (map Tag_row (xs @ ys))"
    and "ample E st (Suc k) w"
  shows "yields E (merge_runs st l r) w
    (\<lambda>m t. run_holds st t m (merge_by tag_key xs ys) \<and> grown st w t \<and> ample E st k t)"
proof -
  obtain li la lb ri ra rb where lr: "l = (li, la, lb)" "r = (ri, ra, rb)" by (cases l; cases r)
  show ?thesis
    unfolding lr merge_runs.simps
  proof (rule yields_new_work [OF assms(4)])
    fix out u
    assume new: "scope_at st w out = None" and "holds st u out False []" and grown: "grown st w u"
      and ample: "ample E st k u"
    then have out: "holds st u out False (map Tag_row [])" by simp
    have "li \<noteq> out" "ri \<noteq> out"
      using assms(1,2) lr new by (auto simp: run_holds_def holds_def)
    have left: "run_holds st u (li, la, lb) xs" and right: "run_holds st u (ri, ra, rb) ys"
      using assms(1,2) lr run_holds_grown [OF grown] by blast+
    let ?zs = "merge_by tag_key xs ys"
    show "yields E (sbind (read_one st li (int la - 1) (int lb)) (\<lambda>left.
        sbind (read_one st ri (int ra - 1) (int rb)) (\<lambda>right.
        sbind (merge_loop st out (li, int lb) (ri, int rb)
          (run_length (li, la, lb) + run_length (ri, ra, rb) + 1) 0 left right) (\<lambda>n.
        sbind (shut_scope st out) (\<lambda>_. ret (out, 0, n - 1)))))) u
      (\<lambda>m t. run_holds st t m ?zs \<and> grown st w t \<and> ample E st k t)"
    proof (rule yields_sbind [OF yields_run_start [OF left]], rule yields_sbind)
      fix lc v
      assume v: "v = u \<and> cursor st u li lb lc xs"
      show "yields E (read_one st ri (int ra - 1) (int rb)) v (\<lambda>c t. t = u \<and> cursor st u ri rb c ys)"
        using yields_run_start [OF right] v by simp
      fix rc v'
      assume v': "v' = u \<and> cursor st u ri rb rc ys"
      have loop: "yields E (merge_loop st out (li, int lb) (ri, int rb)
          (run_length (li, la, lb) + run_length (ri, ra, rb) + 1) (length ([] :: unique_row list)) lc rc) u
        (\<lambda>n t. n = length ([] :: unique_row list) + length xs + length ys
          \<and> holds st t out False (map Tag_row ([] @ ?zs)) \<and> only st out u t \<and> ample E st k t)"
        by (rule yields_merge_loop) (use v v' out ample \<open>li \<noteq> out\<close> \<open>ri \<noteq> out\<close> assms(3)
            run_holds_length [OF left] run_holds_length [OF right] in simp_all)
      show "yields E (sbind (merge_loop st out (li, int lb) (ri, int rb)
          (run_length (li, la, lb) + run_length (ri, ra, rb) + 1) 0 lc rc) (\<lambda>n.
        sbind (shut_scope st out) (\<lambda>_. ret (out, 0, n - 1)))) v'
      (\<lambda>m t. run_holds st t m ?zs \<and> grown st w t \<and> ample E st k t)"
      proof (rule yields_sbind, use v' loop in simp, rule yields_sbind)
        fix n s
        assume s: "n = length xs + length ys \<and> holds st s out False (map Tag_row ?zs) \<and> only st out u s \<and> ample E st k s"
        show "yields E (shut_scope st out) s
          (\<lambda>_ t. holds st t out True (map Tag_row ?zs) \<and> only st out s t \<and> ample E st k t)"
          using s yields_shut_scope by blast
        fix y s'
        assume s': "holds st s' out True (map Tag_row ?zs) \<and> only st out s s' \<and> ample E st k s'"
        then have only: "only st out u s'" using s only_trans by blast
        have "small st s' (map Tag_row ?zs)"
        proof -
          have "small st u (map Tag_row xs)" "small st u (map Tag_row ys)"
            using left right by (auto simp: run_holds_def small_def dest!: in_set_dropD in_set_takeD)
          then show ?thesis unfolding small_only [OF only] by (auto simp: small_def)
        qed
        moreover have "sorted (map tag_key ?zs)"
          using left right by (auto simp: run_holds_def intro!: sorted_merge_by)
        moreover have "xs \<noteq> []" by (rule run_holds_nonempty [OF left])
        ultimately have "run_holds st s' (out, 0, n - 1) ?zs"
          using s s' by (auto simp: run_holds_def intro!: exI [of _ ?zs])
        moreover have "grown st w s'"
          using grown only new grown_only by blast
        ultimately show "yields E (ret (out, 0, n - 1)) s' (\<lambda>m t. run_holds st t m ?zs \<and> grown st w t \<and> ample E st k t)"
          using s' by simp
      qed
    qed
  qed
qed

lemma list_all2_grown:
  "grown st w t \<Longrightarrow> list_all2 (run_holds st w) runs rss \<Longrightarrow> list_all2 (run_holds st t) runs rss"
  by (erule list_all2_mono) (rule run_holds_grown)

lemma yields_merge_pairs:
  assumes "list_all2 (run_holds st w) runs rss" and "fits E st (map Tag_row (concat rss))"
    and "ample E st (length runs div 2 + k) w"
  shows "yields E (merge_pairs st runs) w (\<lambda>runs' t. grown st w t \<and> ample E st k t
    \<and> length runs' = (length runs + 1) div 2
    \<and> (\<exists>rss'. list_all2 (run_holds st t) runs' rss' \<and> mset (concat rss') = mset (concat rss)))"
  using assms
proof (induction st runs arbitrary: w rss rule: merge_pairs.induct)
  case (1 st)
  then show ?case by (simp add: grown_refl)
next
  case (2 st r)
  then show ?case by (auto simp: grown_refl)
next
  case (3 st a b rest)
  from 3(2) obtain xs ys rss' where rss: "rss = xs # ys # rss'" "run_holds st w a xs" "run_holds st w b ys"
    "list_all2 (run_holds st w) rest rss'" by (auto simp: list_all2_Cons1)
  have fit: "fits E st (map Tag_row (xs @ ys))" "fits E st (map Tag_row (concat rss'))"
    by (rule fits_subset [OF 3(3)], use rss in simp)+
  have "ample E st (Suc (length rest div 2 + k)) w" using 3(4) by simp
  from yields_merge_runs [OF rss(2,3) fit(1) this] show ?case
    unfolding merge_pairs.simps
  proof (rule yields_sbind)
    fix m t
    assume t: "run_holds st t m (merge_by tag_key xs ys) \<and> grown st w t \<and> ample E st (length rest div 2 + k) t"
    have "list_all2 (run_holds st t) rest rss'" using t rss(4) list_all2_grown by blast
    from 3(1) [OF this fit(2)] t have
      "yields E (merge_pairs st rest) t (\<lambda>runs' u. grown st t u \<and> ample E st k u
        \<and> length runs' = (length rest + 1) div 2
        \<and> (\<exists>rss''. list_all2 (run_holds st u) runs' rss'' \<and> mset (concat rss'') = mset (concat rss')))" by blast
    then show "yields E (sbind (merge_pairs st rest) (\<lambda>ms. ret (m # ms))) t
      (\<lambda>runs' u. grown st w u \<and> ample E st k u \<and> length runs' = (length (a # b # rest) + 1) div 2
        \<and> (\<exists>rss''. list_all2 (run_holds st u) runs' rss'' \<and> mset (concat rss'') = mset (concat rss)))"
    proof (rule yields_sbind)
      fix ms u
      assume u: "grown st t u \<and> ample E st k u \<and> length ms = (length rest + 1) div 2
        \<and> (\<exists>rss''. list_all2 (run_holds st u) ms rss'' \<and> mset (concat rss'') = mset (concat rss'))"
      then obtain rss'' where "list_all2 (run_holds st u) ms rss''" "mset (concat rss'') = mset (concat rss')"
        by blast
      moreover have "run_holds st u m (merge_by tag_key xs ys)" using t u run_holds_grown by blast
      ultimately have "list_all2 (run_holds st u) (m # ms) (merge_by tag_key xs ys # rss'')
          \<and> mset (concat (merge_by tag_key xs ys # rss'')) = mset (concat rss)"
        using rss(1) by simp
      moreover have "grown st w u" using t u grown_trans by blast
      ultimately show "yields E (ret (m # ms)) u (\<lambda>runs' u. grown st w u \<and> ample E st k u
        \<and> length runs' = (length (a # b # rest) + 1) div 2
        \<and> (\<exists>rss''. list_all2 (run_holds st u) runs' rss'' \<and> mset (concat rss'') = mset (concat rss)))"
        unfolding yields_ret using u by auto
    qed
  qed
qed

lemma yields_merge_rounds:
  assumes "list_all2 (run_holds st w) runs rss" and "fits E st (map Tag_row (concat rss))"
    and "runs \<noteq> []" and "length runs \<le> fuel" and "ample E st (length runs - 1 + k) w"
  shows "yields E (merge_rounds st fuel runs) w (\<lambda>runs' t. grown st w t \<and> ample E st k t
    \<and> (\<exists>r rs. runs' = [r] \<and> run_holds st t r rs \<and> mset rs = mset (concat rss)))"
  using assms
proof (induction fuel arbitrary: w runs rss)
  case (Suc fuel)
  show ?case
  proof (cases "length runs \<le> 1")
    case True
    with Suc.prems(3) obtain i a b where "runs = [(i, a, b)]" by (cases runs) auto
    with Suc.prems show ?thesis by (auto simp: grown_refl list_all2_Cons1)
  next
    case False
    let ?n = "length runs"
    have "?n div 2 + ((?n + 1) div 2 - 1) = ?n - 1" using False by linarith
    then have "ample E st (?n div 2 + ((?n + 1) div 2 - 1 + k)) w" using Suc.prems(5) by (simp add: add.assoc [symmetric])
    from yields_merge_pairs [OF Suc.prems(1,2) this]
    have "yields E (sbind (merge_pairs st runs) (merge_rounds st fuel)) w (\<lambda>runs' t. grown st w t \<and> ample E st k t
      \<and> (\<exists>r rs. runs' = [r] \<and> run_holds st t r rs \<and> mset rs = mset (concat rss)))"
    proof (rule yields_sbind)
      fix runs' t
      assume t: "grown st w t \<and> ample E st ((?n + 1) div 2 - 1 + k) t \<and> length runs' = (?n + 1) div 2
        \<and> (\<exists>rss'. list_all2 (run_holds st t) runs' rss' \<and> mset (concat rss') = mset (concat rss))"
      then obtain rss' where rss': "list_all2 (run_holds st t) runs' rss'" "mset (concat rss') = mset (concat rss)"
        by blast
      have "yields E (merge_rounds st fuel runs') t (\<lambda>runs'' u. grown st t u \<and> ample E st k u
        \<and> (\<exists>r rs. runs'' = [r] \<and> run_holds st u r rs \<and> mset rs = mset (concat rss')))"
      proof (rule Suc.IH [OF rss'(1)])
        show "fits E st (map Tag_row (concat rss'))"
          by (rule fits_mset [OF Suc.prems(2)]) (simp only: mset_map rss'(2))
        show "runs' \<noteq> []" "length runs' \<le> fuel" "ample E st (length runs' - 1 + k) t"
          using t False Suc.prems(4) by auto
      qed
      then show "yields E (merge_rounds st fuel runs') t (\<lambda>runs' t. grown st w t \<and> ample E st k t
        \<and> (\<exists>r rs. runs' = [r] \<and> run_holds st t r rs \<and> mset rs = mset (concat rss)))"
        by (rule yields_weaken) (use t rss'(2) grown_trans in metis)
    qed
    with False show ?thesis by simp
  qed
qed simp

section \<open>Cutting a scope into sorted runs\<close>

lemma room_antimono: "room st m w \<Longrightarrow> n \<le> m \<Longrightarrow> room st n w"
proof -
  assume m: "room st m w" "n \<le> m"
  then have le: "n * scope_bytes st \<le> m * scope_bytes st" by simp
  have "{c + 1..c + n} \<subseteq> {c + 1..c + m}" for c using m(2) by auto
  with m(1) le show ?thesis unfolding room_def by (meson inj_on_subset order.trans add_left_mono subsetD)
qed

lemma ample_antimono: "ample E st m w \<Longrightarrow> n \<le> m \<Longrightarrow> ample E st n w"
  using room_antimono by (auto simp: ample_def)

lemma keeps_readable_write: "keeps (\<lambda>w. readable st i w = Some rows) (write_row st j n row)"
  unfolding keeps_def
proof (intro allI impI)
  fix w assume readable: "readable st i w = Some rows"
  then obtain x where x: "wk_scratch w = Some x" by (cases "wk_scratch w") (simp_all add: readable_def)
  obtain r y where ry: "write_sequential (st_lib st) (st_attempt st) j n row x = (r, y)" by fastforce
  have "closed_rows (st_lib st) (st_attempt st) i (page_budget w) y = Some rows"
  proof (cases r)
    case (Inl e)
    then have "y = x" using ry by (auto simp: write_sequential_def split: sum.splits if_splits)
    with readable x show ?thesis by (simp add: readable_def)
  next
    case (Inr u)
    from write_sequential_Inr [OF ry [unfolded Inr], of "st_attempt st" i]
    obtain c where c: "find_scope (st_attempt st) j x = Some c" "\<not> sc_closed c"
      "j \<noteq> i \<Longrightarrow> find_scope (st_attempt st) i y = find_scope (st_attempt st) i x" by auto
    have "j \<noteq> i" using readable x c(1,2) by (auto simp: readable_def closed_rows_def)
    with c(3) readable x show ?thesis by (simp add: readable_def closed_rows_def)
  qed
  then show "readable st i (snd (write_row st j n row w)) = Some rows"
    using x ry by (cases r) (simp_all add: write_row_def on_scratch_def readable_def page_budget_def)
qed

lemma keeps_readable_flush: "keeps (\<lambda>w. readable st i w = Some rows) (flush_sorted_run st j b)"
  unfolding flush_sorted_run_def write_rows_def Let_def
  by (intro keeps_sbind keeps_sfor keeps_ret) (auto intro: keeps_readable_write split: prod.splits)

lemma keeps_at: "(\<And>s. keeps P (m s)) \<Longrightarrow> keeps P (\<lambda>s. m s s)"
  by (auto simp: keeps_def)

lemma keeps_as_tag: "keeps P (as_tag row)"
  by (cases row) (simp_all add: keeps_def as_tag_def)

lemma keeps_on_working:
  fixes f :: "'b \<Rightarrow> (working, 'b) action"
  assumes "\<And>b. keeps P (f b)"
  shows "keeps (\<lambda>(w, b). P w) (on_working f)"
  unfolding keeps_def
proof (intro allI impI)
  fix s :: "working \<times> 'b"
  assume P: "case s of (w, b) \<Rightarrow> P w"
  obtain w b where s: "s = (w, b)" by (cases s)
  with P keepsD [OF assms, of w b "fst (f b w)" "snd (f b w)"] have "P (snd (f b w))" by simp
  then show "case snd (on_working f s) of (w, b) \<Rightarrow> P w"
    by (cases "f b w"; cases "fst (f b w)") (simp_all add: s on_working_def)
qed

interpretation paired_pages: paged_rows "\<lambda>after (w, b :: 'b). read_scope st i after w"
    "\<lambda>(w, b). readable st i w"
proof
  fix s :: "working \<times> 'b" and rows after
  assume rows: "(case s of (w, b) \<Rightarrow> readable st i w) = Some rows"
  obtain w b where s: "s = (w, b)" by (cases s)
  with rows have "readable st i w = Some rows" by simp
  from working_pages.page_next [OF this, of after] show "\<exists>pg k. (case s of (w, b) \<Rightarrow> read_scope st i after w) = Inr pg
      \<and> rp_chunks pg = take k (drop (nat (after + 1)) (numbered rows))
      \<and> (rp_next_sequence pg = None \<longleftrightarrow> length rows - nat (after + 1) \<le> k)
      \<and> (nat (after + 1) < length rows \<longrightarrow> 0 < k)"
    unfolding s prod.case .
qed

lemma keeps_build_row:
  "keeps (\<lambda>s. (case s of (w, b) \<Rightarrow> readable st i w) = Some rows) (on_working (build_row st out x))"
proof -
  have "(\<lambda>s. (case s of (w, b :: run_builder) \<Rightarrow> readable st i w) = Some rows)
      = (\<lambda>(w, b). readable st i w = Some rows)" by auto
  moreover have "keeps (\<lambda>(w, b). readable st i w = Some rows) (on_working (build_row st out x))"
  proof (rule keeps_on_working)
    fix b :: run_builder
    obtain n row where x: "x = (n, row)" by (cases x)
    show "keeps (\<lambda>w. readable st i w = Some rows) (build_row st out x b)"
      unfolding build_row_def x prod.case Let_def
      by (rule keeps_at) (auto intro!: keeps_sbind keeps_as_tag keeps_readable_flush keeps_ret)
  qed
  ultimately show ?thesis by simp
qed

lemma yields_on_working:
  "yields E (f b) w (\<lambda>b' w'. Q () (w', b')) \<Longrightarrow> yields E (on_working f) (w, b) Q"
  by (auto simp: yields_def on_working_def split: prod.splits sum.splits)

text \<open>The runs that consecutive chunks of a scope are.\<close>

fun runs_of :: "token \<Rightarrow> nat \<Rightarrow> 'r list list \<Rightarrow> run list" where
  "runs_of out n [] = []"
| "runs_of out n (c # cs) = (out, n, n + length c - 1) # runs_of out (n + length c) cs"

lemma runs_of_append: "runs_of out n (cs @ [c])
    = runs_of out n cs @ [(out, n + length (concat cs), n + length (concat cs) + length c - 1)]"
  by (induction cs arbitrary: n) (simp_all add: add.assoc)

lemma list_all2_runs_of:
  assumes "holds st w out True (map Tag_row (pre @ concat cs))" and "small st w (map Tag_row (pre @ concat cs))"
    and "\<forall>c \<in> set cs. c \<noteq> [] \<and> sorted (map tag_key c)"
  shows "list_all2 (run_holds st w) (runs_of out (length pre) cs) cs"
  using assms
proof (induction cs arbitrary: pre)
  case (Cons c cs)
  let ?ts = "pre @ c @ concat cs"
  have c: "c \<noteq> []" "sorted (map tag_key c)" using Cons.prems(3) by auto
  then have pos: "0 < length c" by simp
  have "c = drop (length pre) (take (length pre + length c - 1 + 1) ?ts)" using pos by simp
  moreover have "length pre \<le> length pre + length c - 1" using pos by linarith
  moreover have "length ?ts = length pre + length c + length (concat cs)" by simp
  then have "length pre + length c - 1 < length ?ts" using pos by linarith
  moreover have "holds st w out True (map Tag_row ?ts)" "small st w (map Tag_row ?ts)" using Cons.prems(1,2) by simp_all
  ultimately have "run_holds st w (out, length pre, length pre + length c - 1) c"
    unfolding run_holds_def prod.case using c(2) by blast
  moreover have "list_all2 (run_holds st w) (runs_of out (length (pre @ c)) cs) cs"
    by (rule Cons.IH) (use Cons.prems in auto)
  ultimately show ?case by simp
qed simp

text \<open>The builder's state: the runs flushed and the rows still held are the rows read.\<close>

definition building ::
    "(run_error \<Rightarrow> bool) \<Rightarrow> setting \<Rightarrow> nat \<Rightarrow> working \<Rightarrow> token \<Rightarrow> unique_row list \<Rightarrow> working \<Rightarrow> run_builder \<Rightarrow> bool" where
  "building E st k w out ts t b \<longleftrightarrow> grown st w t \<and> ample E st k t \<and> (\<exists>cs. rb_runs b = runs_of out 0 cs
     \<and> rb_next b = length (concat cs) \<and> holds st t out False (map Tag_row (concat cs))
     \<and> (\<forall>c \<in> set cs. c \<noteq> [] \<and> sorted (map tag_key c)) \<and> mset (concat cs) + mset (rb_rows b) = mset ts)"

lemma yields_flush:
  assumes "building E st k w out ts t b" and "rb_rows b \<noteq> []" and "fits E st (map Tag_row ts)"
    and "scope_at st w out = None"
  shows "yields E (flush_sorted_run st out b) t (\<lambda>b' u. building E st k w out ts u b' \<and> rb_rows b' = [])"
proof -
  from assms(1) obtain cs where cs: "rb_runs b = runs_of out 0 cs" "rb_next b = length (concat cs)"
    "holds st t out False (map Tag_row (concat cs))" "\<forall>c \<in> set cs. c \<noteq> [] \<and> sorted (map tag_key c)"
    "mset (concat cs) + mset (rb_rows b) = mset ts" "grown st w t" "ample E st k t"
    unfolding building_def by blast
  let ?c = "sort_key tag_key (rb_rows b)"
  have "fits E st (map Tag_row (concat cs) @ map Tag_row ?c)"
    by (rule fits_mset [OF assms(3)]) (simp flip: cs(5))
  moreover have "rb_next b = length (map Tag_row (concat cs))" using cs(2) by simp
  ultimately show ?thesis
    unfolding flush_sorted_run_def Let_def
  proof (intro yields_sbind [OF yields_write_rows [OF cs(3) _ _ cs(7)]])
    fix x u
    assume u: "holds st u out False (map Tag_row (concat cs) @ map Tag_row ?c) \<and> only st out t u \<and> ample E st k u"
    let ?b = "\<lparr>rb_rows = [], rb_bytes = 0, rb_next = rb_next b + length ?c,
      rb_runs = rb_runs b @ [(out, rb_next b, rb_next b + length ?c - 1)]\<rparr>"
    have "grown st w u" using u grown_only [OF cs(6) assms(4)] by blast
    moreover have "rb_runs ?b = runs_of out 0 (cs @ [?c])" using cs(1,2) by (simp add: runs_of_append)
    moreover have "rb_next ?b = length (concat (cs @ [?c]))" using cs(2) by simp
    moreover have "holds st u out False (map Tag_row (concat (cs @ [?c])))" using u by simp
    moreover have "\<forall>c \<in> set (cs @ [?c]). c \<noteq> [] \<and> sorted (map tag_key c)"
    proof
      fix d assume "d \<in> set (cs @ [?c])"
      then consider "d \<in> set cs" | "d = ?c" by auto
      then show "d \<noteq> [] \<and> sorted (map tag_key d)"
      proof cases
        case 2
        have "length ?c = length (rb_rows b)" by simp
        with assms(2) 2 show ?thesis by (metis length_0_conv sorted_sort_key)
      qed (use cs(4) in blast)
    qed
    moreover have "mset (concat (cs @ [?c])) + mset (rb_rows ?b) = mset ts" using cs(5) by simp
    ultimately have "building E st k w out ts u ?b" unfolding building_def using u by blast
    then show "yields E (ret ?b) u (\<lambda>b' u. building E st k w out ts u b' \<and> rb_rows b' = [])" by simp
  qed
qed

lemma yields_build_row:
  assumes "building E st k w out ts t b" and "fits E st (map Tag_row (ts @ [r]))" and "scope_at st w out = None"
  shows "yields E (build_row st out (n, Tag_row r) b) t (\<lambda>b' u. building E st k w out (ts @ [r]) u b')"
proof -
  have fit: "fits E st (map Tag_row ts)" by (rule fits_subset [OF assms(2)]) simp
  let ?full = "rb_rows b \<noteq> [] \<and> rb_bytes b + xl_size (st_lib st) (Tag_row r) > mt_budget (wk_meter t)"
  have "yields E (if ?full then flush_sorted_run st out b else ret b) t
      (\<lambda>b' u. building E st k w out ts u b')"
  proof (cases ?full)
    case True
    then show ?thesis using yields_weaken [OF yields_flush [OF assms(1) _ fit assms(3)]] by auto
  next
    case False
    then show ?thesis using assms(1) by auto
  qed
  then have "yields E (sbind (if ?full then flush_sorted_run st out b else ret b) (\<lambda>b.
      ret (b\<lparr>rb_rows := rb_rows b @ [r], rb_bytes := rb_bytes b + xl_size (st_lib st) (Tag_row r)\<rparr>))) t
      (\<lambda>b' u. building E st k w out (ts @ [r]) u b')"
    by (rule yields_sbind) (auto simp: building_def)
  moreover have "build_row st out (n, Tag_row r) b t = sbind (if ?full then flush_sorted_run st out b else ret b) (\<lambda>b.
      ret (b\<lparr>rb_rows := rb_rows b @ [r], rb_bytes := rb_bytes b + xl_size (st_lib st) (Tag_row r)\<rparr>)) t"
    by (simp add: build_row_def Let_def sbind_def [of "as_tag _"] as_tag_def)
  ultimately show ?thesis unfolding yields_def by simp
qed

lemma list_all2_length_concat:
  "list_all2 (run_holds st w) runs rss \<Longrightarrow> length runs \<le> length (concat rss)"
proof (induction runs rss rule: list_all2_induct)
  case (Cons r runs rs rss)
  then have "rs \<noteq> []" using run_holds_nonempty by blast
  then have "1 \<le> length rs" by (cases rs) simp_all
  with Cons show ?case by simp
qed simp

lemma sfor_building:
  assumes "building E st k w out [] t b" and "fits E st (map Tag_row ts)" and "scope_at st w out = None"
  shows "yields E (sfor (\<lambda>x. on_working (build_row st out x)) (numbered (map Tag_row ts))) (t, b)
    (\<lambda>_ (u, b'). building E st k w out ts u b')"
proof -
  let ?rows = "numbered (map Tag_row ts)"
  let ?I = "\<lambda>ys (u, b'). building E st k w out (take (length ys) ts) u b'"
  have "yields E (sfor (\<lambda>x. on_working (build_row st out x)) ?rows) (t, b) (\<lambda>_ s. ?I ?rows s)"
  proof (rule yields_sfor)
    show "?I [] (t, b)" using assms(1) by simp
    fix ys x zs s
    assume split: "?rows = ys @ x # zs" and inv: "?I ys s"
    obtain u b' where s: "s = (u, b')" by (cases s)
    have "length ?rows = length ys + Suc (length zs)" using split by simp
    then have len: "length ys < length ts" by simp
    have "x = ?rows ! length ys" using split by simp
    with len have x: "x = (length ys, Tag_row (ts ! length ys))" by (simp add: nth_numbered)
    have taken: "take (length (ys @ [x])) ts = take (length ys) ts @ [ts ! length ys]"
      using len by (simp add: take_Suc_conv_app_nth)
    have "fits E st (map Tag_row (take (length ys) ts @ [ts ! length ys] @ drop (Suc (length ys)) ts))"
      using assms(2) len by (simp add: Cons_nth_drop_Suc)
    then have "fits E st (map Tag_row (take (length ys) ts @ [ts ! length ys]))"
      by (rule fits_subset) simp
    with inv s assms(3) have "yields E (build_row st out (length ys, Tag_row (ts ! length ys)) b') u
        (\<lambda>b'' u. building E st k w out (take (length ys) ts @ [ts ! length ys]) u b'')"
      by (intro yields_build_row) simp_all
    then show "yields E (on_working (build_row st out x)) s (\<lambda>_ s. ?I (ys @ [x]) s)"
      unfolding s by (intro yields_on_working) (simp only: x taken [unfolded x] prod.case)
  qed
  then show ?thesis by simp
qed

lemma yields_build_sorted_runs:
  assumes "holds st w i True (map Tag_row ts)" and "small st w (map Tag_row ts)" and "fits E st (map Tag_row ts)"
    and "ample E st (Suc k) w"
  shows "yields E (build_sorted_runs st i) w (\<lambda>runs t. grown st w t \<and> ample E st k t
    \<and> (\<exists>rss. list_all2 (run_holds st t) runs rss \<and> mset (concat rss) = mset ts))"
  unfolding build_sorted_runs_def
proof (rule yields_new_work [OF assms(4)])
  fix out u
  assume out: "scope_at st w out = None" "holds st u out False []" "grown st w u" "ample E st k u"
  let ?b = "\<lparr>rb_rows = [], rb_bytes = 0, rb_next = 0, rb_runs = []\<rparr>"
  let ?pages = "page_loop (\<lambda>after (w, b). read_scope st i after w) (\<lambda>x. on_working (build_row st out x))
    (scope_length st i u + 1) (- 1) (u, ?b)"
  have held: "holds st u i True (map Tag_row ts)" using out(3) assms(1) grown_holds by blast
  have "scope_length st i u = length ts" by (rule holdsE [OF held]) (simp add: scope_length_def)
  moreover have "readable st i u = Some (map Tag_row ts)"
    using readable_holds [OF held] assms(2) small_grown [OF out(3)] by blast
  moreover have "page_loop (\<lambda>after (w, b). read_scope st i after w) (\<lambda>x. on_working (build_row st out x))
      (length ts + 1) (- 1) (u, ?b)
      = sfor (\<lambda>x. on_working (build_row st out x)) (drop (nat (- 1 + 1)) (numbered (map Tag_row ts))) (u, ?b)"
    if "readable st i u = Some (map Tag_row ts)"
    by (rule paired_pages.loop_visits_all [OF _ keeps_build_row]) (use that in simp_all)
  ultimately have "?pages = sfor (\<lambda>x. on_working (build_row st out x)) (numbered (map Tag_row ts)) (u, ?b)"
    by simp
  moreover have "building E st k w out [] u ?b"
    unfolding building_def using out by (auto intro: exI [of _ "[]"])
  ultimately have pages: "case ?pages of (Inr x, s) \<Rightarrow> (\<lambda>(u, b). building E st k w out ts u b) s | (Inl e, s) \<Rightarrow> E e"
    using sfor_building [OF _ assms(3) out(1)] unfolding yields_def by simp
  obtain r v b where rvb: "?pages = (r, v, b)" by (cases ?pages) auto
  let ?Q = "\<lambda>runs t. grown st w t \<and> ample E st k t
    \<and> (\<exists>rss. list_all2 (run_holds st t) runs rss \<and> mset (concat rss) = mset ts)"
  show "yields E (\<lambda>w. case page_loop (\<lambda>after (w, b). read_scope st i after w) (\<lambda>x. on_working (build_row st out x))
          (scope_length st i w + 1) (- 1) (w, ?b) of
        (Inl e, w', b) \<Rightarrow> (Inl e, w')
      | (Inr _, w', b) \<Rightarrow> sbind (if rb_rows b \<noteq> [] then flush_sorted_run st out b else ret b) (\<lambda>b.
          sbind (shut_scope st out) (\<lambda>_. ret (rb_runs b))) w') u ?Q"
  proof (cases r)
    case (Inl e)
    have "E e" using pages unfolding rvb Inl by simp
    then show ?thesis unfolding yields_def by (simp only: rvb Inl prod.case sum.case)
  next
    case (Inr x)
    have b: "building E st k w out ts v b" using pages unfolding rvb Inr by simp
    have "yields E (if rb_rows b \<noteq> [] then flush_sorted_run st out b else ret b) v
        (\<lambda>b u. building E st k w out ts u b \<and> rb_rows b = [])"
      using yields_flush [OF b _ assms(3) out(1)] b by simp
    then have "yields E (sbind (if rb_rows b \<noteq> [] then flush_sorted_run st out b else ret b) (\<lambda>b.
          sbind (shut_scope st out) (\<lambda>_. ret (rb_runs b)))) v ?Q"
    proof (rule yields_sbind)
      fix b t
      assume bt: "building E st k w out ts t b \<and> rb_rows b = []"
      then obtain cs where cs: "rb_runs b = runs_of out 0 cs" "holds st t out False (map Tag_row (concat cs))"
        "\<forall>c \<in> set cs. c \<noteq> [] \<and> sorted (map tag_key c)" "mset (concat cs) = mset ts" "grown st w t" "ample E st k t"
        unfolding building_def by auto
      show "yields E (sbind (shut_scope st out) (\<lambda>_. ret (rb_runs b))) t ?Q"
      proof (rule yields_sbind [OF yields_shut_scope [OF cs(2,6)]])
        fix x t'
        assume t': "holds st t' out True (map Tag_row (concat cs)) \<and> only st out t t' \<and> ample E st k t'"
        then have grown: "grown st w t'" using grown_only [OF cs(5) out(1)] by blast
        have "set (concat cs) = set ts" using cs(4) by (metis set_mset_mset)
        then have "small st w (map Tag_row ([] @ concat cs))" using assms(2) by (simp add: small_def)
        then have "small st t' (map Tag_row ([] @ concat cs))" using small_grown [OF grown] by blast
        then have "list_all2 (run_holds st t') (rb_runs b) cs"
          using list_all2_runs_of [of st t' out "[]" cs] t' cs(1,3) by simp
        with grown t' cs(4) show "yields E (ret (rb_runs b)) t' ?Q" by auto
      qed
    qed
    then show ?thesis unfolding yields_def by (simp only: rvb Inr prod.case sum.case)
  qed
qed

end
