(* ===== verification/Duplicate_Findings.thy ===== *)
theory Duplicate_Findings
  imports Spill_Correct
begin

text \<open>
  What the uniqueness check reports, whichever way it goes: for each rule under which a row was observed,
  one finding when another row has its tag, with the size of the group. The check in memory and the
  scan of the merged run are two ways to list the same groups.
\<close>

section \<open>The reference\<close>

definition duplicates_of :: "unique_rule list \<Rightarrow> unique_row list \<Rightarrow> findings_at" where
  "duplicates_of rules rows s = concat (map (\<lambda>(i, rule).
     case find (\<lambda>r. ur_rule r = i \<and> ur_sequence r = s) rows of
       None \<Rightarrow> []
     | Some r \<Rightarrow> let n = length (filter (\<lambda>q. ur_rule q = i \<and> ur_tag q = ur_tag r) rows) in
         if n < 2 then [] else [duplicate_finding rule (ur_locator r) n])
     (zip [0..<length rules] rules))"

section \<open>Groups\<close>

type_synonym tag_group = "nat \<times> digest \<times> (nat \<times> raw_locator) list"

definition group_key :: "tag_group \<Rightarrow> nat \<times> digest" where
  "group_key = (\<lambda>(i, tag, ms). (i, tag))"

definition group_rows :: "tag_group \<Rightarrow> unique_row list" where
  "group_rows = (\<lambda>(i, tag, ms). map (\<lambda>(s, loc). \<lparr>ur_rule = i, ur_tag = tag, ur_sequence = s, ur_locator = loc\<rparr>) ms)"

definition groups_findings :: "unique_rule list \<Rightarrow> tag_group list \<Rightarrow> findings_at \<Rightarrow> findings_at" where
  "groups_findings rules gs found =
     fold (\<lambda>(i, tag, ms) found. if i < length rules then group_findings (rules ! i) ms found else found) gs found"

definition group_at :: "unique_rule list \<Rightarrow> nat \<Rightarrow> tag_group \<Rightarrow> finding list" where
  "group_at rules s = (\<lambda>(i, tag, ms). if i < length rules \<and> 2 \<le> length ms
     then map (\<lambda>(q, loc). duplicate_finding (rules ! i) loc (length ms)) (filter (\<lambda>(q, loc). q = s) ms) else [])"

lemma group_findings_at:
  "group_findings rule ms found s = found s @ (if length ms < 2 then []
     else map (\<lambda>(q, loc). duplicate_finding rule loc (length ms)) (filter (\<lambda>(q, loc). q = s) ms))"
proof -
  have "fold (\<lambda>(q, loc). add_finding q (duplicate_finding rule loc n)) ms found s
      = found s @ map (\<lambda>(q, loc). duplicate_finding rule loc n) (filter (\<lambda>(q, loc). q = s) ms)" for n
    by (induction ms arbitrary: found) (auto simp: add_finding_def)
  then show ?thesis by (simp add: group_findings_def)
qed

lemma groups_findings_at:
  "groups_findings rules gs found s = found s @ concat (map (group_at rules s) gs)"
  by (induction gs arbitrary: found) (auto simp: groups_findings_def group_findings_at group_at_def)

lemma groups_findings_Cons:
  "groups_findings rules ((i, tag, ms) # gs) found = groups_findings rules gs (flush_group rules (Some (i, tag)) ms found)"
  by (simp add: groups_findings_def flush_group_def)

lemma concat_map_concat: "concat (map f (concat xss)) = concat (map (\<lambda>xs. concat (map f xs)) xss)"
  by (induction xss) simp_all

text \<open>Sorted by rule, the groups come rule by rule.\<close>

lemma sorted_by_index:
  assumes "sorted (map f xs)"
  shows "xs = concat (map (\<lambda>i. filter (\<lambda>x. f x = i) xs) [0..<n]) @ filter (\<lambda>x. n \<le> f x) xs"
proof (induction n)
  case (Suc n)
  have "filter (\<lambda>x. n \<le> f x) xs = filter (\<lambda>x. f x = n) xs @ filter (\<lambda>x. Suc n \<le> f x) xs"
    using assms
  proof (induction xs)
    case (Cons x xs)
    show ?case
    proof (cases "f x = n")
      case True
      with Cons show ?thesis by simp
    next
      case False
      show ?thesis
      proof (cases "n \<le> f x")
        case True
        with False Cons.prems have "filter (\<lambda>x. f x = n) xs = []" by (fastforce simp: filter_empty_conv)
        with True False Cons show ?thesis by simp
      qed (use Cons in simp)
    qed
  qed simp
  with Suc show ?case by simp
qed simp

lemma group_at_member:
  assumes "group_at rules s g \<noteq> []"
  obtains r where "r \<in> set (group_rows g)" and "ur_rule r = fst g" and "ur_sequence r = s"
proof -
  obtain i tag ms where g: "g = (i, tag, ms)" by (cases g)
  with assms have "filter (\<lambda>(q, loc). q = s) ms \<noteq> []" by (auto simp: group_at_def split: if_splits)
  then obtain loc where "(s, loc) \<in> set ms" by (auto simp: filter_empty_conv)
  then show thesis
    by (intro that [of "\<lparr>ur_rule = i, ur_tag = tag, ur_sequence = s, ur_locator = loc\<rparr>"]) (force simp: g group_rows_def)+
qed

lemma group_rows_key: "r \<in> set (group_rows g) \<Longrightarrow> (ur_rule r, ur_tag r) = group_key g"
  by (auto simp: group_rows_def group_key_def split: prod.splits)

lemma fst_group_key [simp]: "fst (group_key g) = fst g"
  by (simp add: group_key_def split: prod.splits)

theorem groups_findings_correct:
  assumes "distinct (map group_key gs)" and "sorted (map fst gs)"
    and "mset (concat (map group_rows gs)) = mset rows"
    and "distinct (map (\<lambda>r. (ur_rule r, ur_sequence r)) rows)"
  shows "groups_findings rules gs (\<lambda>_. []) = duplicates_of rules rows"
proof
  fix s
  let ?all = "concat (map group_rows gs)"
  have rows: "set rows = set ?all" using assms(3) by (metis set_mset_mset)
  have once: "r = q" if "r \<in> set rows" "q \<in> set rows" "ur_rule r = ur_rule q" "ur_sequence r = ur_sequence q" for r q
    using assms(4) that by (auto simp: distinct_map dest!: inj_onD)
  have distinct_all: "distinct ?all"
    using assms(3,4) by (metis distinct_map distinct_count_atmost_1 mset_eq_imp_distinct_iff)
  define at where "at i = (case find (\<lambda>r. ur_rule r = i \<and> ur_sequence r = s) rows of
      None \<Rightarrow> []
    | Some r \<Rightarrow> let n = length (filter (\<lambda>q. ur_rule q = i \<and> ur_tag q = ur_tag r) rows) in
        if n < 2 then [] else [duplicate_finding (rules ! i) (ur_locator r) n])" for i
  have per_rule: "concat (map (group_at rules s) (filter (\<lambda>g. fst g = i) gs)) = at i" if i: "i < length rules" for i
  proof (cases "find (\<lambda>r. ur_rule r = i \<and> ur_sequence r = s) rows")
    case None
    have "group_at rules s g = []" if "g \<in> set gs" "fst g = i" for g
    proof (rule ccontr)
      assume "group_at rules s g \<noteq> []"
      then obtain r where "r \<in> set (group_rows g)" "ur_rule r = fst g" "ur_sequence r = s" by (rule group_at_member)
      with that None rows show False by (fastforce simp: find_None_iff)
    qed
    with None show ?thesis by (auto simp: at_def)
  next
    case (Some r)
    then have r: "r \<in> set rows" "ur_rule r = i" "ur_sequence r = s" by (auto simp: find_Some_iff)
    then obtain g where g: "g \<in> set gs" "r \<in> set (group_rows g)" using rows by auto
    obtain tag ms where g_eq: "g = (i, tag, ms)" and tag: "tag = ur_tag r"
      using group_rows_key [OF g(2)] r(2) by (cases g) (auto simp: group_key_def)
    obtain as bs where gs: "gs = as @ g # bs" using g(1) by (metis split_list)
    have other_key: "group_key h \<noteq> group_key g" if "h \<in> set as \<union> set bs" for h
    proof -
      have "group_key g \<notin> group_key ` (set as \<union> set bs)" using assms(1) by (simp add: gs image_Un)
      with that show ?thesis by (metis imageI)
    qed
    have others: "group_at rules s h = []" if "h \<in> set as \<union> set bs" "fst h = i" for h
    proof (rule ccontr)
      assume "group_at rules s h \<noteq> []"
      then obtain q where q: "q \<in> set (group_rows h)" "ur_rule q = fst h" "ur_sequence q = s" by (rule group_at_member)
      have "q \<in> set rows" using q(1) that(1) by (auto simp: rows gs)
      with once r q that have "q = r" by metis
      with group_rows_key [OF q(1)] group_rows_key [OF g(2)] other_key [OF that(1)] show False by simp
    qed
    then have empty: "concat (map (group_at rules s) (filter (\<lambda>g. fst g = i) as)) = []"
      "concat (map (group_at rules s) (filter (\<lambda>g. fst g = i) bs)) = []" by auto
    have "concat (map (group_at rules s) (filter (\<lambda>g. fst g = i) gs)) = group_at rules s g"
      by (simp add: gs g_eq empty)
    also have "\<dots> = (if length ms < 2 then [] else [duplicate_finding (rules ! i) (ur_locator r) (length ms)])"
    proof -
      let ?row = "\<lambda>(q, loc). \<lparr>ur_rule = i, ur_tag = tag, ur_sequence = q, ur_locator = loc\<rparr>"
      obtain a b where "(a, b) \<in> set ms" and row: "r = ?row (a, b)"
        using g(2) unfolding g_eq group_rows_def by auto
      moreover have "ur_sequence r = a" "ur_locator r = b" by (subst row, simp)+
      ultimately have member: "(s, ur_locator r) \<in> set ms" using r(3) by simp
      have "group_rows g = map ?row ms" by (simp add: g_eq group_rows_def)
      then have "set (map ?row ms) \<subseteq> set rows" unfolding rows using g(1) by force
      then have "q = (s, ur_locator r)" if "q \<in> set ms" "fst q = s" for q
        using once [of "?row q" "?row (s, ur_locator r)"] that member by (cases q) auto
      moreover have "distinct ms"
        using distinct_all by (auto simp: gs g_eq group_rows_def distinct_map)
      ultimately have "filter (\<lambda>(q, loc). q = s) ms = [(s, ur_locator r)]"
      proof -
        assume all: "\<And>q. q \<in> set ms \<Longrightarrow> fst q = s \<Longrightarrow> q = (s, ur_locator r)" and "distinct ms"
        then have "filter (\<lambda>(q, loc). q = s) ms = filter (\<lambda>q. q = (s, ur_locator r)) ms"
          by (intro filter_cong) (auto)
        also have "\<dots> = [(s, ur_locator r)]"
          using member \<open>distinct ms\<close> by (induction ms) (auto simp: filter_empty_conv)
        finally show ?thesis .
      qed
      then show ?thesis using i by (auto simp: g_eq group_at_def)
    qed
    also have "length ms = length (filter (\<lambda>q. ur_rule q = i \<and> ur_tag q = ur_tag r) rows)"
    proof -
      let ?same = "\<lambda>q. ur_rule q = i \<and> ur_tag q = ur_tag r"
      have "group_key g = (i, ur_tag r)" by (simp add: g_eq tag group_key_def)
      then have same: "?same q \<longleftrightarrow> group_key h = group_key g" if "q \<in> set (group_rows h)" for q h
        using group_rows_key [OF that] by (metis prod.inject)
      have "filter ?same (group_rows h) = []" if "h \<in> set as \<union> set bs" for h
        using same other_key [OF that] by (simp add: filter_empty_conv)
      then have "\<forall>q \<in> set (concat (map group_rows as)). \<not> ?same q" "\<forall>q \<in> set (concat (map group_rows bs)). \<not> ?same q"
        by (force simp: filter_empty_conv)+
      then have "filter ?same (concat (map group_rows as)) = []" "filter ?same (concat (map group_rows bs)) = []"
        unfolding filter_empty_conv .
      moreover have "filter ?same (group_rows g) = group_rows g"
        using same [of _ g] by (intro filter_True) simp
      moreover have "?all = concat (map group_rows as) @ group_rows g @ concat (map group_rows bs)" by (simp add: gs)
      ultimately have "filter ?same ?all = group_rows g" by (simp only: filter_append append_Nil append_Nil2)
      moreover have "length (group_rows g) = length ms" by (simp add: g_eq group_rows_def)
      ultimately have "length (filter ?same ?all) = length ms" by (simp only:)
      moreover have "size (mset (filter ?same ?all)) = size (mset (filter ?same rows))"
        by (simp only: mset_filter assms(3))
      ultimately show ?thesis by (simp only: size_mset)
    qed
    finally show ?thesis using Some by (simp add: at_def)
  qed
  have beyond: "concat (map (group_at rules s) (filter (\<lambda>g. length rules \<le> fst g) gs)) = []"
    by (auto simp: group_at_def split: prod.splits)
  have "concat (map (group_at rules s) gs)
      = concat (map (\<lambda>i. concat (map (group_at rules s) (filter (\<lambda>g. fst g = i) gs))) [0..<length rules])"
  proof -
    have "concat (map (group_at rules s) gs)
        = concat (map (group_at rules s) (concat (map (\<lambda>i. filter (\<lambda>g. fst g = i) gs) [0..<length rules])
            @ filter (\<lambda>g. length rules \<le> fst g) gs))"
      using sorted_by_index [OF assms(2), of "length rules"] by (rule arg_cong)
    then show ?thesis by (simp only: map_append concat_append beyond append_Nil2 concat_map_concat map_map o_def)
  qed
  also have "\<dots> = concat (map at [0..<length rules])"
    by (intro arg_cong [of _ _ concat] map_cong) (simp_all add: per_rule)
  also have "\<dots> = concat (map (\<lambda>(i, rule). at i) (zip [0..<length rules] rules))"
    by (simp add: case_prod_beta' flip: map_map [of at fst, unfolded o_def])
  also have "\<dots> = duplicates_of rules rows s"
    unfolding duplicates_of_def
  proof (intro arg_cong [of _ _ concat] map_cong refl)
    fix x assume "x \<in> set (zip [0..<length rules] rules)"
    then obtain i where "x = (i, rules ! i)" by (auto simp: set_zip)
    then show "(case x of (i, rule) \<Rightarrow> at i) = (case x of (i, rule) \<Rightarrow>
        case find (\<lambda>r. ur_rule r = i \<and> ur_sequence r = s) rows of
          None \<Rightarrow> []
        | Some r \<Rightarrow> let n = length (filter (\<lambda>q. ur_rule q = i \<and> ur_tag q = ur_tag r) rows) in
            if n < 2 then [] else [duplicate_finding rule (ur_locator r) n])"
      by (simp only: at_def prod.case)
  qed
  finally show "groups_findings rules gs (\<lambda>_. []) s = duplicates_of rules rows s"
    by (simp add: groups_findings_at)
qed

section \<open>The scan of the merged run\<close>

fun groups_of :: "unique_row list \<Rightarrow> tag_group list" where
  "groups_of [] = []"
| "groups_of (r # rs) = (case groups_of rs of
     [] \<Rightarrow> [(ur_rule r, ur_tag r, [(ur_sequence r, ur_locator r)])]
   | (i, tag, ms) # gs \<Rightarrow>
       if (i, tag) = (ur_rule r, ur_tag r) then (i, tag, (ur_sequence r, ur_locator r) # ms) # gs
       else (ur_rule r, ur_tag r, [(ur_sequence r, ur_locator r)]) # (i, tag, ms) # gs)"

lemma rows_groups_of: "concat (map group_rows (groups_of rs)) = rs"
  by (induction rs) (auto simp: group_rows_def split: list.splits prod.splits if_splits)

lemma group_key_eq [simp]: "group_key (i, tag, ms) = (i, tag)"
  by (simp add: group_key_def)

lemma groups_of_sorted:
  "sorted (map (\<lambda>r. (ur_rule r, ur_tag r)) rs) \<Longrightarrow> sorted_wrt (<) (map group_key (groups_of rs))
    \<and> (rs \<noteq> [] \<longrightarrow> groups_of rs \<noteq> [] \<and> group_key (hd (groups_of rs)) = (ur_rule (hd rs), ur_tag (hd rs)))"
proof (induction rs)
  case (Cons r rs)
  let ?k = "\<lambda>r. (ur_rule r, ur_tag r)"
  from Cons have IH: "sorted_wrt (<) (map group_key (groups_of rs))"
    "rs \<noteq> [] \<longrightarrow> groups_of rs \<noteq> [] \<and> group_key (hd (groups_of rs)) = ?k (hd rs)" by simp_all
  show ?case
  proof (cases "groups_of rs")
    case Nil
    then show ?thesis by (simp add: group_key_eq)
  next
    case g: (Cons g gs)
    obtain i tag ms where g_eq: "g = (i, tag, ms)" by (cases g)
    from g have "rs \<noteq> []" by auto
    with IH(2) g g_eq have hd: "(i, tag) = ?k (hd rs)" by (simp add: group_key_eq)
    with Cons.prems \<open>rs \<noteq> []\<close> have le: "?k r \<le> (i, tag)" by (cases rs) auto
    have tail: "\<forall>x \<in> set gs. (i, tag) < group_key x" using IH(1) g g_eq by (simp add: group_key_eq)
    show ?thesis
    proof (cases "(i, tag) = ?k r")
      case True
      with IH(1) g g_eq tail show ?thesis by (simp add: group_key_eq)
    next
      case False
      with le have "?k r < (i, tag)" by (metis order_le_imp_less_or_eq)
      moreover from this tail have "\<forall>x \<in> set gs. ?k r < group_key x" using order.strict_trans by blast
      ultimately show ?thesis using IH(1) g g_eq False by (simp add: group_key_eq)
    qed
  qed
qed simp

fun scan_rows :: "unique_rule list \<Rightarrow> (nat \<times> digest) option \<Rightarrow> (nat \<times> raw_locator) list \<Rightarrow> findings_at
    \<Rightarrow> unique_row list \<Rightarrow> findings_at" where
  "scan_rows rules key ms found [] = flush_group rules key ms found"
| "scan_rows rules key ms found (r # rs) =
     (let k = (ur_rule r, ur_tag r); new_group = (key \<noteq> None \<and> key \<noteq> Some k) in
      scan_rows rules (Some k) ((if new_group then [] else ms) @ [(ur_sequence r, ur_locator r)])
        (if new_group then flush_group rules key ms found else found) rs)"

lemma groups_findings_Nil [simp]: "groups_findings rules [] found = found"
  by (simp add: groups_findings_def)

lemma scan_rows_from:
  "scan_rows rules (Some (i, tag)) ms found rs = (case groups_of rs of
     [] \<Rightarrow> groups_findings rules [(i, tag, ms)] found
   | (j, tag', ms') # gs \<Rightarrow>
       if (j, tag') = (i, tag) then groups_findings rules ((i, tag, ms @ ms') # gs) found
       else groups_findings rules ((i, tag, ms) # (j, tag', ms') # gs) found)"
proof (induction rs arbitrary: i tag ms found)
  case Nil
  then show ?case by (simp add: groups_findings_Cons)
next
  case (Cons r rs)
  show ?case
  proof (cases "(ur_rule r, ur_tag r) = (i, tag)")
    case True
    then show ?thesis using Cons by (auto split: list.splits)
  next
    case False
    then show ?thesis using Cons by (auto simp: groups_findings_Cons split: list.splits)
  qed
qed

lemma scan_rows_groups: "scan_rows rules None [] found rs = groups_findings rules (groups_of rs) found"
proof (cases rs)
  case Nil
  then show ?thesis by (simp add: flush_group_def)
next
  case (Cons r rs')
  have "scan_rows rules None [] found rs
      = scan_rows rules (Some (ur_rule r, ur_tag r)) [(ur_sequence r, ur_locator r)] found rs'"
    using Cons by simp
  also have "\<dots> = groups_findings rules (groups_of rs) found"
    unfolding scan_rows_from using Cons by (auto split: list.splits)
  finally show ?thesis .
qed

lemma yields_scan_loop:
  assumes "holds st w i True (map Tag_row ts)" and "small st w (map Tag_row ts)" and "b < length ts"
    and "n \<le> b + 1" and "b + 1 - n < fuel"
  shows "yields E (scan_loop st i (int b) fuel (int n - 1) key ms found) w
    (\<lambda>f t. t = w \<and> f = scan_rows (st_rules st) key ms found (drop n (take (b + 1) ts)))"
  using assms(4,5)
proof (induction fuel arbitrary: n key ms found)
  case (Suc fuel)
  show ?case
    unfolding scan_loop.simps
  proof (rule yields_sbind [OF yields_read_one [OF assms(1-3)]])
    fix c t
    assume c: "t = w \<and> (if n \<le> b then c = (Some (ts ! n), int n) else fst c = None)"
    show "yields E (case c of (row, after) \<Rightarrow> case row of
         None \<Rightarrow> ret (flush_group (st_rules st) key ms found)
       | Some r \<Rightarrow>
           let k = (ur_rule r, ur_tag r); new_group = (key \<noteq> None \<and> key \<noteq> Some k) in
           scan_loop st i (int b) fuel after (Some k)
             ((if new_group then [] else ms) @ [(ur_sequence r, ur_locator r)])
             (if new_group then flush_group (st_rules st) key ms found else found)) t
      (\<lambda>f t. t = w \<and> f = scan_rows (st_rules st) key ms found (drop n (take (b + 1) ts)))"
    proof (cases "n \<le> b")
      case True
      let ?r = "ts ! n"
      have rest: "drop n (take (b + 1) ts) = ?r # drop (n + 1) (take (b + 1) ts)"
        using True assms(3) Cons_nth_drop_Suc [of n "take (b + 1) ts"] by simp
      have after: "int (n + 1) - 1 = int n" by simp
      have IH: "yields E (scan_loop st i (int b) fuel (int n) k ms' found') w
          (\<lambda>f t. t = w \<and> f = scan_rows (st_rules st) k ms' found' (drop (n + 1) (take (b + 1) ts)))" for k ms' found'
        using Suc.IH [of "n + 1" k ms' found', unfolded after] True Suc.prems by linarith
      have "c = (Some ?r, int n)" "t = w" using c True by simp_all
      then show ?thesis by (simp only: prod.case option.case rest scan_rows.simps Let_def) (rule IH)
    next
      case False
      with c Suc.prems(1) show ?thesis by (cases c) simp
    qed
  qed
qed simp

lemma yields_scan_run:
  assumes "run_holds st w r rs" and "mset rs = mset rows"
    and "distinct (map (\<lambda>r. (ur_rule r, ur_sequence r)) rows)"
  shows "yields E (scan_run st r) w (\<lambda>f t. t = w \<and> f = duplicates_of (st_rules st) rows)"
proof -
  obtain i a b where r: "r = (i, a, b)" by (cases r)
  with assms(1) obtain ts where ts: "holds st w i True (map Tag_row ts)" "small st w (map Tag_row ts)"
    "a \<le> b" "b < length ts" "rs = drop a (take (b + 1) ts)" "sorted (map tag_key rs)"
    by (auto simp: run_holds_def)
  have "sorted (map (\<lambda>r. (ur_rule r, ur_tag r)) rs)"
    using ts(6) by (auto simp: tag_key_def sorted_wrt_map intro: sorted_wrt_mono_rel [rotated])
  then have lt: "sorted_wrt (<) (map group_key (groups_of rs))" using groups_of_sorted by blast
  then have "distinct (map group_key (groups_of rs))" by (simp add: strict_sorted_iff)
  moreover have "sorted (map fst (groups_of rs))"
    using lt by (auto simp: sorted_wrt_map group_key_def split_beta intro: sorted_wrt_mono_rel [rotated])
  moreover have "mset (concat (map group_rows (groups_of rs))) = mset rows"
    by (simp only: rows_groups_of assms(2))
  ultimately have "groups_findings (st_rules st) (groups_of rs) (\<lambda>_. []) = duplicates_of (st_rules st) rows"
    using groups_findings_correct assms(3) by blast
  with yields_scan_loop [OF ts(1,2,4), of a "run_length (i, a, b) + 1" E None "[]" "\<lambda>_. []"] ts(3,5)
  show ?thesis by (simp add: scan_run_def r scan_rows_groups del: drop_take)
qed

section \<open>The check in memory\<close>

definition memory_groups :: "tag_groups list \<Rightarrow> tag_group list" where
  "memory_groups groups = concat (map (\<lambda>(i, gs). map (\<lambda>(tag, ms). (i, tag, map (\<lambda>(s, loc, b). (s, loc)) ms)) gs)
     (zip [0..<length groups] groups))"

lemma tag_rows_groups: "tag_rows groups = concat (map group_rows (memory_groups groups))"
proof -
  have part: "concat (map group_rows (map (\<lambda>(tag, ms). (i, tag, map (\<lambda>(s, loc, b). (s, loc)) ms)) gs))
      = concat (map (\<lambda>(tag, ms). map (\<lambda>(s, loc, b). \<lparr>ur_rule = i, ur_tag = tag, ur_sequence = s, ur_locator = loc\<rparr>) ms) gs)"
    for i and gs :: "(digest \<times> (nat \<times> raw_locator \<times> nat) list) list"
    by (induction gs) (auto simp: group_rows_def split_beta)
  show ?thesis
    unfolding tag_rows_def memory_groups_def concat_map_concat map_map
    by (intro arg_cong [of _ _ concat] map_cong refl) (simp only: split_paired_all prod.case o_apply part)
qed

lemma fold_concat: "fold f (concat xss) a = fold (fold f) xss a"
  by (induction xss arbitrary: a) simp_all

lemma unique_key_findings_groups:
  assumes "length groups = length rules"
  shows "unique_key_findings rules groups = groups_findings rules (memory_groups groups) (\<lambda>_. [])"
proof -
  let ?g = "\<lambda>rule. fold (\<lambda>(tag, ms). group_findings rule (map (\<lambda>(s, loc, b). (s, loc)) ms))"
  let ?h = "\<lambda>(i, tag, ms) found. if i < length rules then group_findings (rules ! i) ms found else found"
  have "zip rules groups = map (\<lambda>(i, gs). (rules ! i, gs)) (zip [0..<length groups] groups)"
    using assms by (intro nth_equalityI) simp_all
  then have "unique_key_findings rules groups
      = fold (\<lambda>(rule, gs). ?g rule gs) (map (\<lambda>(i, gs). (rules ! i, gs)) (zip [0..<length groups] groups)) (\<lambda>_. [])"
    unfolding unique_key_findings_def by (rule arg_cong)
  also have "\<dots> = fold (\<lambda>x. (\<lambda>(rule, gs). ?g rule gs) ((\<lambda>(i, gs). (rules ! i, gs)) x))
      (zip [0..<length groups] groups) (\<lambda>_. [])"
    by (simp only: fold_map o_def)
  also have "\<dots> = fold (\<lambda>x. fold ?h ((\<lambda>(i, gs). map (\<lambda>(tag, ms). (i, tag, map (\<lambda>(s, loc, b). (s, loc)) ms)) gs) x))
      (zip [0..<length groups] groups) (\<lambda>_. [])"
  proof (rule fold_cong)
    fix x assume "x \<in> set (zip [0..<length groups] groups)"
    then obtain i gs where x: "x = (i, gs)" "i < length rules" using assms by (auto simp: set_zip)
    show "(\<lambda>(rule, gs). ?g rule gs) ((\<lambda>(i, gs). (rules ! i, gs)) x)
        = fold ?h ((\<lambda>(i, gs). map (\<lambda>(tag, ms). (i, tag, map (\<lambda>(s, loc, b). (s, loc)) ms)) gs) x)"
      unfolding x(1) prod.case fold_map
      by (rule ext, rule fold_cong) (simp_all add: x(2) split_beta)
  qed simp_all
  also have "\<dots> = groups_findings rules (memory_groups groups) (\<lambda>_. [])"
    unfolding groups_findings_def memory_groups_def fold_concat by (simp add: fold_map o_def)
  finally show ?thesis .
qed

definition tidy :: "tag_groups list \<Rightarrow> bool" where
  "tidy groups \<longleftrightarrow> (\<forall>gs \<in> set groups. distinct (map fst gs))"

lemma memory_groups_keys:
  assumes "tidy groups"
  shows "distinct (map group_key (memory_groups groups)) \<and> sorted (map fst (memory_groups groups))"
proof -
  let ?part = "\<lambda>(i, gs). map (\<lambda>(tag, ms). (i, tag, map (\<lambda>(s, loc, b). (s, loc)) ms)) gs"
  have "distinct (map group_key (concat (map ?part (zip [n..<n + length gss] gss))))
    \<and> sorted (map fst (concat (map ?part (zip [n..<n + length gss] gss))))
    \<and> (\<forall>g \<in> set (concat (map ?part (zip [n..<n + length gss] gss))). n \<le> fst g)"
    if "\<forall>gs \<in> set gss. distinct (map fst gs)" for n and gss :: "tag_groups list"
    using that
  proof (induction gss arbitrary: n)
    case (Cons gs gss)
    let ?rest = "concat (map ?part (zip [Suc n..<Suc n + length gss] gss))"
    have rest: "distinct (map group_key ?rest)" "sorted (map fst ?rest)" "\<forall>g \<in> set ?rest. Suc n \<le> fst g"
      using Cons.IH [of "Suc n"] Cons.prems by simp_all
    have split: "concat (map ?part (zip [n..<n + length (gs # gss)] (gs # gss))) = ?part (n, gs) @ ?rest"
      by (simp add: upt_conv_Cons del: upt_Suc)
    have first: "map fst (?part (n, gs)) = map (\<lambda>_. n) gs"
      "map group_key (?part (n, gs)) = map (Pair n) (map fst gs)"
      by (simp_all add: split_beta)
    have "distinct (map (Pair n) (map fst gs))"
      using Cons.prems by (subst distinct_map) (auto intro: inj_onI)
    moreover have "set (map (Pair n) (map fst gs)) \<inter> set (map group_key ?rest) = {}"
    proof -
      have low: "fst k = n" if "k \<in> set (map (Pair n) (map fst gs))" for k using that by auto
      have high: "Suc n \<le> fst k" if "k \<in> set (map group_key ?rest)" for k
      proof -
        have "\<exists>g \<in> set xs. k = group_key g" if "k \<in> set (map group_key xs)" for xs using that by auto
        from this [OF that] obtain g where g: "g \<in> set ?rest" "k = group_key g" by (rule bexE)
        have "Suc n \<le> fst g" using rest(3) g(1) by (rule bspec)
        then show ?thesis by (simp only: g(2) fst_group_key)
      qed
      have False if "k \<in> set (map (Pair n) (map fst gs))" "k \<in> set (map group_key ?rest)" for k
        using low [OF that(1)] high [OF that(2)] by linarith
      then show ?thesis by (intro Int_emptyI)
    qed
    moreover have "sorted (map (\<lambda>_. n) gs @ map fst ?rest)"
    proof -
      have "sorted (map (\<lambda>_. n) gs @ map fst xs)" if "sorted (map fst xs)" "\<forall>g \<in> set xs. Suc n \<le> fst g"
        for xs :: "tag_group list"
        using that by (auto simp: sorted_append map_replicate_const dest: bspec)
      then show ?thesis using rest(2,3) .
    qed
    moreover have "\<forall>g \<in> set (?part (n, gs) @ ?rest). n \<le> fst g"
    proof -
      have "\<forall>g \<in> set (?part (n, gs)). n \<le> fst g" by auto
      moreover have "\<forall>g \<in> set xs. n \<le> fst g" if "\<forall>g \<in> set xs. Suc n \<le> fst g" for xs :: "tag_group list"
        using that Suc_leD by blast
      ultimately show ?thesis unfolding set_append ball_Un using rest(3) by blast
    qed
    ultimately show ?case
      unfolding split map_append first distinct_append using rest(1) by blast
  qed simp
  from this [of groups 0] assms show ?thesis by (simp add: memory_groups_def tidy_def)
qed

theorem memory_findings_correct:
  assumes "length groups = length rules" and "tidy groups" and "mset (tag_rows groups) = mset rows"
    and "distinct (map (\<lambda>r. (ur_rule r, ur_sequence r)) rows)"
  shows "unique_key_findings rules groups = duplicates_of rules rows"
  using groups_findings_correct memory_groups_keys [OF assms(2)] assms(3,4)
  by (simp add: unique_key_findings_groups assms(1) tag_rows_groups)

end
