(* ===== verification/Spill_Buffer.thy ===== *)
theory Spill_Buffer
  imports Spill_Correct
begin

text \<open>
  A buffer that spills to a scope of its own: the tags and the units of a validation are two of them. The
  locale \<open>spill_buffer\<close> is what spilling needs of a buffer's bookkeeping; opening the scope and appending
  rows to it are proved once.
\<close>

section \<open>What scratch alone decides\<close>

lemma scope_at_cong: "wk_scratch t = wk_scratch w \<Longrightarrow> scope_at st t = scope_at st w"
  by (simp add: scope_at_def fun_eq_iff)

lemma holds_cong: "wk_scratch t = wk_scratch w \<Longrightarrow> holds st t = holds st w"
  by (drule scope_at_cong [of t w st]) (simp add: holds_def fun_eq_iff)

lemma ample_cong: "wk_scratch t = wk_scratch w \<Longrightarrow> ample E st k t = ample E st k w"
  by (simp add: ample_def room_def)

lemma small_budget: "mt_budget (wk_meter t) = mt_budget (wk_meter w) \<Longrightarrow> small st t = small st w"
  by (simp add: small_def page_budget_def fun_eq_iff)

lemma lenient_ample: "\<forall>e. E (Raised e) \<Longrightarrow> ample E st k w"
  by (simp add: ample_def)

text \<open>What a step of one of the two buffers leaves alone: every scope but its own, which it may open.\<close>

definition scope_step :: "setting \<Rightarrow> (working \<Rightarrow> token option) \<Rightarrow> working \<Rightarrow> working \<Rightarrow> bool" where
  "scope_step st own w t \<longleftrightarrow> (\<forall>j. scope_at st w j \<noteq> None \<longrightarrow> own w \<noteq> Some j \<longrightarrow> scope_at st t j = scope_at st w j)
     \<and> (\<forall>i. own t = Some i \<longrightarrow> own w = Some i \<or> scope_at st w i = None)
     \<and> (\<forall>i. own w = Some i \<longrightarrow> own t = Some i)"

lemma scope_step_refl: "scope_step st own w w"
  by (simp add: scope_step_def)

lemma scope_step_trans: "scope_step st own w t \<Longrightarrow> scope_step st own t u \<Longrightarrow> scope_step st own w u"
  unfolding scope_step_def by metis

lemma scope_step_own:
  assumes "own w = Some i \<or> own w = None \<and> scope_at st w i = None" and "own t = Some i"
    and "\<And>j. j \<noteq> i \<Longrightarrow> scope_at st t j = scope_at st w j"
  shows "scope_step st own w t"
proof -
  have "scope_at st t j = scope_at st w j" if "scope_at st w j \<noteq> None" "own w \<noteq> Some j" for j
    using that assms(1) assms(3) [of j] by metis
  moreover have "own w = Some j \<or> scope_at st w j = None" if "own t = Some j" for j
    using that assms(1,2) by auto
  moreover have "own t = Some j" if "own w = Some j" for j
    using that assms(1,2) by auto
  ultimately show ?thesis unfolding scope_step_def by blast
qed

section \<open>The bookkeeping of a buffer\<close>

locale spill_buffer =
  fixes own :: "working \<Rightarrow> token option"
    and put :: "token \<Rightarrow> working \<Rightarrow> working"
    and nxt :: "working \<Rightarrow> nat"
    and inc :: "working \<Rightarrow> working"
  assumes put_scratch: "put i (w\<lparr>wk_scratch := s\<rparr>) = put i w\<lparr>wk_scratch := s\<rparr>"
    and scratch_put: "wk_scratch (put i w) = wk_scratch w"
    and put_own: "own w = Some i \<Longrightarrow> put i w = w"
    and inc_scratch: "inc (w\<lparr>wk_scratch := s\<rparr>) = inc w\<lparr>wk_scratch := s\<rparr>"
    and scratch_inc: "wk_scratch (inc w) = wk_scratch w"
    and nxt_inc: "nxt (inc w) = nxt w + 1"
    and nxt_scratch: "nxt (w\<lparr>wk_scratch := s\<rparr>) = nxt w"
begin

lemma only_put:
  assumes "only st i w t" shows "only st i (put i w) (put i t)"
proof -
  obtain s where "t = w\<lparr>wk_scratch := s\<rparr>" using assms by (auto simp: only_def)
  then have "put i t = put i w\<lparr>wk_scratch := wk_scratch (put i t)\<rparr>"
    by (simp add: put_scratch)
  moreover have "scope_at st (put i u) = scope_at st u" for u by (rule scope_at_cong) (rule scratch_put)
  ultimately show ?thesis using assms by (simp add: only_def)
qed

lemma only_inc:
  assumes "only st i w t" shows "only st i (inc w) (inc t)"
proof -
  obtain s where "t = w\<lparr>wk_scratch := s\<rparr>" using assms by (auto simp: only_def)
  then have "inc t = inc w\<lparr>wk_scratch := wk_scratch (inc t)\<rparr>"
    by (simp add: inc_scratch)
  moreover have "scope_at st (inc u) = scope_at st u" for u by (rule scope_at_cong) (rule scratch_inc)
  ultimately show ?thesis using assms by (simp add: only_def)
qed

lemma yields_open:
  assumes "case own w of None \<Rightarrow> old = [] | Some i \<Rightarrow> holds st w i False old"
    and "ample E st (if own w = None then Suc k else k) w"
  shows "yields E (case own w of
            Some i \<Rightarrow> (if wk_scratch w = None then throw Capacity_exceeded else ret i)
          | None \<Rightarrow> sbind (new_scope st) (\<lambda>i. sbind (modify (put i)) (\<lambda>_. ret i))) w
    (\<lambda>i t. holds st t i False old \<and> only st i (put i w) t \<and> ample E st k t
      \<and> (own w = Some i \<or> own w = None \<and> scope_at st w i = None))"
proof (cases "own w")
  case None
  then have "ample E st (Suc k) w" using assms(2) by simp
  from yields_new_scope [OF this] None show ?thesis
    unfolding None option.case
  proof (elim yields_sbind)
    fix i t
    assume t: "scope_at st w i = None \<and> holds st t i False [] \<and> only st i w t \<and> ample E st k t"
    have "holds st (put i t) i False []" "ample E st k (put i t)"
      using t holds_cong [OF scratch_put] ample_cong [OF scratch_put] by simp_all
    moreover have "only st i (put i w) (put i t)" using t only_put by blast
    ultimately show "yields E (sbind (modify (put i)) (\<lambda>_. ret i)) t
        (\<lambda>i t. holds st t i False old \<and> only st i (put i w) t \<and> ample E st k t
          \<and> (None = Some i \<or> None = None \<and> scope_at st w i = None))"
      using assms(1) None t by (intro yields_sbind [where R = "\<lambda>_ u. u = put i t"]) simp_all
  qed
next
  case (Some i)
  with assms(1) have held: "holds st w i False old" by simp
  obtain x where "wk_scratch w = Some x" by (rule holdsE [OF held])
  with Some held assms(2) show ?thesis by (simp add: put_own [OF Some] only_refl)
qed

text \<open>Rows are written one position at a time, after those already there.\<close>

lemma yields_append:
  assumes "holds st w i False old" and "nxt w = length old"
    and "fits E st (old @ map enc xs)" and "ample E st k w"
  shows "yields E (sfor (\<lambda>x w. sbind (write_row st i (nxt w) (enc x)) (\<lambda>_. modify inc) w) xs) w
    (\<lambda>_ t. holds st t i False (old @ map enc xs) \<and> nxt t = length (old @ map enc xs)
      \<and> only st i ((inc ^^ length xs) w) t \<and> ample E st k t)"
proof (rule yields_sfor)
  show "holds st w i False (old @ map enc []) \<and> nxt w = length (old @ map enc [])
      \<and> only st i ((inc ^^ length []) w) w \<and> ample E st k w"
    using assms by (simp add: only_refl)
  fix ys x zs t
  assume xs: "xs = ys @ x # zs"
    and inv: "holds st t i False (old @ map enc ys) \<and> nxt t = length (old @ map enc ys)
      \<and> only st i ((inc ^^ length ys) w) t \<and> ample E st k t"
  have "fits E st ((old @ map enc ys) @ [enc x])"
    by (rule fits_subset [OF assms(3)]) (simp add: xs)
  with inv have wrote: "yields E (write_row st i (nxt t) (enc x)) t
      (\<lambda>_ u. holds st u i False ((old @ map enc ys) @ [enc x]) \<and> only st i t u \<and> ample E st k u)"
    by (intro yields_write_row) simp_all
  have "yields E (sbind (write_row st i (nxt t) (enc x)) (\<lambda>_. modify inc)) t
      (\<lambda>_ u. holds st u i False (old @ map enc (ys @ [x])) \<and> nxt u = length (old @ map enc (ys @ [x]))
        \<and> only st i ((inc ^^ length (ys @ [x])) w) u \<and> ample E st k u)"
    using wrote
  proof (rule yields_sbind)
    fix r u
    assume u: "holds st u i False ((old @ map enc ys) @ [enc x]) \<and> only st i t u \<and> ample E st k u"
    then have "only st i ((inc ^^ length ys) w) u" using inv only_trans by blast
    then have "only st i (inc ((inc ^^ length ys) w)) (inc u)" by (rule only_inc)
    moreover have "nxt u = nxt t" using u nxt_scratch by (metis only_def)
    moreover have "holds st (inc u) = holds st u" "ample E st k (inc u) = ample E st k u"
      by (rule holds_cong [OF scratch_inc], rule ample_cong [OF scratch_inc])
    ultimately show "yields E (modify inc) u
        (\<lambda>_ u. holds st u i False (old @ map enc (ys @ [x])) \<and> nxt u = length (old @ map enc (ys @ [x]))
          \<and> only st i ((inc ^^ length (ys @ [x])) w) u \<and> ample E st k u)"
      using u inv nxt_inc by simp
  qed
  then show "yields E (\<lambda>w. sbind (write_row st i (nxt w) (enc x)) (\<lambda>_. modify inc) w) t
      (\<lambda>_ u. holds st u i False (old @ map enc (ys @ [x])) \<and> nxt u = length (old @ map enc (ys @ [x]))
        \<and> only st i ((inc ^^ length (ys @ [x])) w) u \<and> ample E st k u)"
    by (simp add: yields_def)
qed

end

interpretation tag_buffer: spill_buffer wk_tag_scope "\<lambda>i w. w\<lparr>wk_tag_scope := Some i\<rparr>" wk_tag_next
    "\<lambda>w. w\<lparr>wk_tag_next := wk_tag_next w + 1\<rparr>"
  by unfold_locales simp_all

interpretation unit_buffer: spill_buffer wk_unit_scope "\<lambda>i w. w\<lparr>wk_unit_scope := Some i\<rparr>" wk_unit_next
    "\<lambda>w. w\<lparr>wk_unit_next := wk_unit_next w + 1\<rparr>"
  by unfold_locales simp_all

lemma tag_incs: "((\<lambda>w. w\<lparr>wk_tag_next := wk_tag_next w + 1\<rparr>) ^^ n) w = w\<lparr>wk_tag_next := wk_tag_next w + n\<rparr>"
  by (induction n) simp_all

lemma unit_incs: "((\<lambda>w. w\<lparr>wk_unit_next := wk_unit_next w + 1\<rparr>) ^^ n) w = w\<lparr>wk_unit_next := wk_unit_next w + n\<rparr>"
  by (induction n) simp_all

end
