(* ===== verification/Observed_Tags.thy ===== *)
theory Observed_Tags
  imports Duplicate_Findings Spill_Buffer
begin

text \<open>
  The working state of the uniqueness check between two rows: the tags observed are those in memory and
  those in the tag scope. Observing and spilling keep it, and from it the duplicate findings are those
  of the rows observed.
\<close>

section \<open>The invariant\<close>

definition tag_state :: "setting \<Rightarrow> working \<Rightarrow> unique_row list \<Rightarrow> bool" where
  "tag_state st w rows \<longleftrightarrow> length (wk_groups w) = length (st_rules st) \<and> tidy (wk_groups w)
     \<and> small st w (map Tag_row rows)
     \<and> (case wk_tag_scope w of
          None \<Rightarrow> \<not> wk_tags_spilled w \<and> wk_tag_next w = 0 \<and> mset (tag_rows (wk_groups w)) = mset rows
        | Some i \<Rightarrow> wk_tags_spilled w \<and> (\<exists>old. holds st w i False (map Tag_row old) \<and> wk_tag_next w = length old
            \<and> mset old + mset (tag_rows (wk_groups w)) = mset rows))"

text \<open>What a step of the tags leaves alone.\<close>

definition tags_step :: "setting \<Rightarrow> working \<Rightarrow> working \<Rightarrow> bool" where
  "tags_step st w t \<longleftrightarrow> scope_step st wk_tag_scope w t \<and> wk_units t = wk_units w \<and> wk_unit_scope t = wk_unit_scope w
     \<and> wk_unit_next t = wk_unit_next w \<and> wk_units_spilled t = wk_units_spilled w \<and> wk_work_scopes t = wk_work_scopes w
     \<and> mt_budget (wk_meter t) = mt_budget (wk_meter w)"

lemma tags_step_refl: "tags_step st w w"
  by (simp add: tags_step_def scope_step_refl)

lemma tags_step_trans: "tags_step st w t \<Longrightarrow> tags_step st t u \<Longrightarrow> tags_step st w u"
  unfolding tags_step_def using scope_step_trans by metis

section \<open>Adding a tag\<close>

lemma tag_rows_cleared [simp]: "tag_rows (map (\<lambda>_. []) groups) = []"
  unfolding tag_rows_groups by (auto simp: memory_groups_def set_zip)

lemma tidy_cleared [simp]: "tidy (map (\<lambda>_. []) groups)"
  by (auto simp: tidy_def)

lemma concat_zip_update:
  assumes "i < length xs"
  shows "mset (concat (map p (zip [n..<n + length xs] (xs[i := y])))) + mset (p (n + i, xs ! i))
    = mset (concat (map p (zip [n..<n + length xs] xs))) + mset (p (n + i, y))"
  using assms
proof (induction xs arbitrary: i n)
  case (Cons x xs)
  have zip_Cons: "zip [n..<n + length (x # xs)] (z # zs) = (n, z) # zip [Suc n..<Suc n + length xs] zs" for z zs
    by (simp add: upt_conv_Cons del: upt_Suc)
  show ?case
  proof (cases i)
    case 0
    then show ?thesis
      by (simp only: list_update_code nth_Cons_0 zip_Cons list.map concat.simps mset_append add_0_right) (simp add: ac_simps)
  next
    case (Suc j)
    with Cons.IH [of j "Suc n"] Cons.prems show ?thesis
      by (simp only: list_update_code nth_Cons_Suc zip_Cons list.map concat.simps mset_append) (simp add: ac_simps)
  qed
qed simp

lemma tag_rows_add:
  assumes "i < length groups"
  shows "mset (tag_rows (groups[i := add_member tag (s, loc, b) (groups ! i)]))
    = add_mset \<lparr>ur_rule = i, ur_tag = tag, ur_sequence = s, ur_locator = loc\<rparr> (mset (tag_rows groups))"
proof -
  define one where "one = (\<lambda>(i, gs :: tag_groups). concat (map (\<lambda>(tag, ms). map (\<lambda>(s, loc, b).
     \<lparr>ur_rule = i, ur_tag = tag, ur_sequence = s, ur_locator = loc\<rparr>) ms) gs)
     :: unique_row list)"
  have "mset (one (i, add_member tag (s, loc, b) gs))
      = add_mset \<lparr>ur_rule = i, ur_tag = tag, ur_sequence = s, ur_locator = loc\<rparr> (mset (one (i, gs)))" for gs
    by (induction gs) (auto simp: one_def)
  with concat_zip_update [OF assms, of one 0 "add_member tag (s, loc, b) (groups ! i)"]
  show ?thesis unfolding tag_rows_def one_def [symmetric] by simp
qed

lemma fst_add_member: "map fst (add_member tag m gs) = (if tag \<in> fst ` set gs then map fst gs else map fst gs @ [tag])"
  by (induction gs) (auto simp: rev_image_eqI)

lemma tidy_add: "tidy groups \<Longrightarrow> tidy (groups[i := add_member tag m (groups ! i)])"
proof (cases "i < length groups")
  case True
  assume "tidy groups"
  with True have "distinct (map fst (add_member tag m (groups ! i)))"
    by (auto simp: tidy_def fst_add_member)
  with \<open>tidy groups\<close> show ?thesis
    by (auto simp: tidy_def dest!: set_update_subset_insert [THEN subsetD])
qed (simp add: list_update_beyond)

section \<open>Spilling\<close>

lemma yields_spill_tags:
  assumes "tag_state st w rows" and "fits E st (map Tag_row rows)"
    and "ample E st (if wk_tag_scope w = None then Suc k else k) w"
  shows "yields E (spill_tags st) w (\<lambda>_ t. tag_state st t rows \<and> tags_step st w t \<and> ample E st k t
    \<and> tag_rows (wk_groups t) = [] \<and> mt_current (wk_meter t) \<le> mt_current (wk_meter w))"
proof -
  let ?clear = "map (\<lambda>_. []) (wk_groups w) :: tag_groups list"
  let ?w = "w\<lparr>wk_groups := ?clear\<rparr>"
  let ?rows = "tag_rows (wk_groups w)"
  have state: "length ?clear = length (st_rules st)" "small st w (map Tag_row rows)"
    using assms(1) by (simp_all add: tag_state_def)
  have same: "scope_at st ?w = scope_at st w" "holds st ?w = holds st w" "ample E st k ?w = ample E st k w"
    "ample E st (Suc k) ?w = ample E st (Suc k) w"
    by (rule scope_at_cong, simp, rule holds_cong, simp, (rule ample_cong, simp)+)
  let ?Q = "\<lambda>_ t. tag_state st t rows \<and> tags_step st w t \<and> ample E st k t
    \<and> tag_rows (wk_groups t) = [] \<and> mt_current (wk_meter t) \<le> mt_current (wk_meter w)"
  let ?open = "case wk_tag_scope w of
      Some i \<Rightarrow> (if wk_scratch w = None then throw Capacity_exceeded else ret i)
    | None \<Rightarrow> sbind (new_scope st) (\<lambda>i. sbind (modify (\<lambda>w. w\<lparr>wk_tag_scope := Some i\<rparr>)) (\<lambda>_. ret i))"
  let ?put = "\<lambda>i. sfor (\<lambda>row w. sbind (write_row st i (wk_tag_next w) (Tag_row row))
      (\<lambda>_. modify (\<lambda>w. w\<lparr>wk_tag_next := wk_tag_next w + 1\<rparr>)) w) ?rows"
  let ?finish = "\<lambda>_. sbind (release (held_bytes (wk_groups w))) (\<lambda>_. modify (\<lambda>w. w\<lparr>wk_tags_spilled := True\<rparr>))"
  obtain old where old: "case wk_tag_scope w of None \<Rightarrow> old = [] | Some i \<Rightarrow> holds st w i False (map Tag_row old)"
    "wk_tag_next w = length old" "mset old + mset ?rows = mset rows"
    using assms(1) by (cases "wk_tag_scope w") (auto simp: tag_state_def)
  have fit: "fits E st (map Tag_row old @ map Tag_row ?rows)"
    by (rule fits_mset [OF assms(2)]) (simp flip: old(3))
  have spilled: "yields E (sbind ?open (\<lambda>i. sbind (?put i) ?finish)) ?w ?Q"
  proof -
    have "yields E ?open ?w (\<lambda>i t. holds st t i False (map Tag_row old)
        \<and> only st i (?w\<lparr>wk_tag_scope := Some i\<rparr>) t \<and> ample E st k t
        \<and> (wk_tag_scope w = Some i \<or> wk_tag_scope w = None \<and> scope_at st w i = None))"
    proof -
      have sel: "wk_tag_scope ?w = wk_tag_scope w" "wk_scratch ?w = wk_scratch w" by simp_all
      have a: "case wk_tag_scope ?w of None \<Rightarrow> map Tag_row old = [] | Some i \<Rightarrow> holds st ?w i False (map Tag_row old)"
        using old(1) same(2) by (simp split: option.splits)
      have b: "ample E st (if wk_tag_scope ?w = None then Suc k else k) ?w"
        using assms(3) same(3,4) by (cases "wk_tag_scope w") simp_all
      from tag_buffer.yields_open [OF a b] show ?thesis unfolding sel same(1) .
    qed
    then show ?thesis
    proof (rule yields_sbind)
      fix i t
      assume t: "holds st t i False (map Tag_row old) \<and> only st i (?w\<lparr>wk_tag_scope := Some i\<rparr>) t \<and> ample E st k t
        \<and> (wk_tag_scope w = Some i \<or> wk_tag_scope w = None \<and> scope_at st w i = None)"
      then have "wk_tag_next t = wk_tag_next (?w\<lparr>wk_tag_scope := Some i\<rparr>)"
        using tag_buffer.nxt_scratch by (metis only_def)
      then have n: "wk_tag_next t = length (map Tag_row old)" using old(2) by simp
      show "yields E (sbind (?put i) ?finish) t ?Q"
      proof (rule yields_sbind [OF tag_buffer.yields_append [OF _ n fit, where i = i and k = k]])
        fix r u
        assume u: "holds st u i False (map Tag_row old @ map Tag_row ?rows)
          \<and> wk_tag_next u = length (map Tag_row old @ map Tag_row ?rows)
          \<and> only st i (((\<lambda>w. w\<lparr>wk_tag_next := wk_tag_next w + 1\<rparr>) ^^ length ?rows) t) u \<and> ample E st k u"
        let ?m = "(wk_meter u)\<lparr>mt_current := mt_current (wk_meter u) - held_bytes (wk_groups w)\<rparr>"
        let ?u = "u\<lparr>wk_meter := ?m, wk_tags_spilled := True\<rparr>"
        have only_t: "only st i (?w\<lparr>wk_tag_scope := Some i\<rparr>) t" using t by blast
        have only_u: "only st i (t\<lparr>wk_tag_next := wk_tag_next t + length ?rows\<rparr>) u" using u unfolding tag_incs by blast
        have fields: "wk_groups ?u = ?clear" "wk_tag_scope ?u = Some i" "wk_meter u = wk_meter w"
          "wk_units ?u = wk_units w" "wk_unit_scope ?u = wk_unit_scope w" "wk_unit_next ?u = wk_unit_next w"
          "wk_units_spilled ?u = wk_units_spilled w" "wk_work_scopes ?u = wk_work_scopes w"
          using only_t only_u by (cases w; cases t; cases u; simp add: only_def)+
        have "scope_at st ?u j = scope_at st w j" if "j \<noteq> i" for j
        proof -
          have "scope_at st ?u j = scope_at st u j" by (simp add: scope_at_cong [of ?u u])
          also have "\<dots> = scope_at st (t\<lparr>wk_tag_next := wk_tag_next t + length ?rows\<rparr>) j"
            using only_u that by (simp add: only_def)
          also have "\<dots> = scope_at st t j"
            by (simp add: scope_at_cong [of "t\<lparr>wk_tag_next := wk_tag_next t + length ?rows\<rparr>" t])
          also have "\<dots> = scope_at st (?w\<lparr>wk_tag_scope := Some i\<rparr>) j" using only_t that by (simp add: only_def)
          also have "\<dots> = scope_at st w j" by (simp add: scope_at_cong [of "?w\<lparr>wk_tag_scope := Some i\<rparr>" w])
          finally show ?thesis .
        qed
        then have "scope_step st wk_tag_scope w ?u" using t fields(2) by (intro scope_step_own [of _ _ i]) auto
        then have "tags_step st w ?u" unfolding tags_step_def using fields by simp
        moreover have "holds st ?u i False (map Tag_row (old @ ?rows))" "ample E st k ?u"
          using u holds_cong [of ?u u st] ample_cong [of ?u u] by simp_all
        moreover have "small st ?u (map Tag_row rows)"
          using state(2) small_budget [of ?u w st] fields(3) by simp
        ultimately show "yields E (?finish r) u ?Q"
          using u state(1) fields old(3)
          by (intro yields_sbind [where R = "\<lambda>_ v. v = u\<lparr>wk_meter := ?m\<rparr>"])
            (auto simp: release_def tag_state_def intro!: exI [of _ "old @ ?rows"])
      qed (use t in simp_all)
    qed
  qed
  have kept: "?Q () ?w" if "?rows = []"
  proof -
    have "tag_state st ?w rows"
      using assms(1) that same small_budget [of ?w w st] state
      by (simp add: tag_state_def split: option.splits)
    moreover have "tags_step st w ?w"
      unfolding tags_step_def scope_step_def using same by simp
    moreover have "ample E st k w" using assms(3) by (auto intro: ample_antimono split: if_splits)
    ultimately show ?thesis using same by simp
  qed
  have "spill_tags st w = sbind (modify (\<lambda>w. w\<lparr>wk_groups := ?clear\<rparr>)) (\<lambda>_. if ?rows = [] then ret ()
      else sbind ?open (\<lambda>i. sbind (?put i) ?finish)) w"
    by (simp only: spill_tags_def Let_def)
  also have "\<dots> = (if ?rows = [] then ret () else sbind ?open (\<lambda>i. sbind (?put i) ?finish)) ?w"
    by (simp add: sbind_def [of "modify _"] modify_def)
  finally show ?thesis
    using kept spilled by (cases "?rows = []") (simp_all add: yields_def ret_def)
qed

section \<open>Observing a tag\<close>

lemma yields_charge:
  assumes "(\<forall>e. E (Raised e)) \<or> \<not> would_exceed n w"
  shows "yields E (charge n) w (\<lambda>_ t. \<not> would_exceed n w
    \<and> t = w\<lparr>wk_meter := (wk_meter w)\<lparr>mt_current := mt_current (wk_meter w) + n,
        mt_peak := max (mt_peak (wk_meter w)) (mt_current (wk_meter w) + n)\<rparr>\<rparr>)"
  using assms by (auto simp: charge_def yields_def throw_def ret_def Let_def)

lemma lenient_fits: "\<forall>e. E (Raised e) \<Longrightarrow> fits E st rows"
  by (simp add: fits_def)

lemma yields_make_room:
  assumes "tag_state st w rows"
    and "(\<forall>e. E (Raised e)) \<or> \<not> would_exceed n w"
  shows "yields E (when_exceeding n (spill_tags st)) w (\<lambda>_ t. tag_state st t rows \<and> tags_step st w t
    \<and> mt_current (wk_meter t) \<le> mt_current (wk_meter w) \<and> ((\<forall>e. E (Raised e)) \<or> t = w))"
proof (cases "would_exceed n w")
  case False
  then show ?thesis using assms(1) by (simp add: when_exceeding_def yields_def ret_def tags_step_refl)
next
  case True
  with assms(2) have "\<forall>e. E (Raised e)" by simp
  with True yields_weaken [OF yields_spill_tags [OF assms(1) lenient_fits lenient_ample, of E 0]]
  show ?thesis by (auto simp: when_exceeding_def yields_def split: prod.splits sum.splits)
qed

lemma yields_observe:
  assumes "tag_state st w rows" and "i < length (st_rules st)"
    and "row = \<lparr>ur_rule = i, ur_tag = tag, ur_sequence = s, ur_locator = loc\<rparr>"
    and "(\<forall>e. E (Raised e)) \<or> \<not> would_exceed (xl_size (st_lib st) (Tag_row row)) w"
  shows "yields E (observe st i tag s loc) w (\<lambda>_ t. tag_state st t (rows @ [row]) \<and> tags_step st w t
    \<and> mt_current (wk_meter t) \<le> mt_current (wk_meter w) + xl_size (st_lib st) (Tag_row row)
    \<and> ((\<forall>e. E (Raised e)) \<or> wk_tags_spilled t = wk_tags_spilled w))"
proof -
  let ?n = "xl_size (st_lib st) (Tag_row row)"
  show ?thesis
    unfolding observe_def Let_def assms(3) [symmetric]
  proof (rule yields_sbind [OF yields_make_room [OF assms(1,4)]])
    fix u t
    assume t: "tag_state st t rows \<and> tags_step st w t \<and> mt_current (wk_meter t) \<le> mt_current (wk_meter w)
      \<and> ((\<forall>e. E (Raised e)) \<or> t = w)"
    then have "(\<forall>e. E (Raised e)) \<or> \<not> would_exceed ?n t" using assms(4) by auto
    from yields_charge [OF this]
    show "yields E (sbind (charge ?n) (\<lambda>_. modify (\<lambda>w. w\<lparr>wk_groups := (wk_groups w)[i := add_member tag (s, loc, ?n) (wk_groups w ! i)]\<rparr>))) t
      (\<lambda>_ t. tag_state st t (rows @ [row]) \<and> tags_step st w t
        \<and> mt_current (wk_meter t) \<le> mt_current (wk_meter w) + ?n
        \<and> ((\<forall>e. E (Raised e)) \<or> wk_tags_spilled t = wk_tags_spilled w))"
    proof (rule yields_sbind)
      fix v x
      assume x: "\<not> would_exceed ?n t \<and> x = t\<lparr>wk_meter := (wk_meter t)\<lparr>mt_current := mt_current (wk_meter t) + ?n,
        mt_peak := max (mt_peak (wk_meter t)) (mt_current (wk_meter t) + ?n)\<rparr>\<rparr>"
      let ?y = "x\<lparr>wk_groups := (wk_groups x)[i := add_member tag (s, loc, ?n) (wk_groups x ! i)]\<rparr>"
      have scratch: "wk_scratch ?y = wk_scratch t" using x by simp
      have budget: "mt_budget (wk_meter ?y) = mt_budget (wk_meter t)" using x by simp
      have "i < length (wk_groups t)" using t assms(2) by (simp add: tag_state_def)
      then have rows: "mset (tag_rows (wk_groups ?y)) = add_mset row (mset (tag_rows (wk_groups t)))"
        using x tag_rows_add assms(3) by simp
      have "?n \<le> page_budget t" using x by (auto simp: would_exceed_def page_budget_def)
      then have "small st t (map Tag_row (rows @ [row]))" using t by (auto simp: tag_state_def small_def)
      then have "small st ?y (map Tag_row (rows @ [row]))" using small_budget [OF budget] by metis
      moreover have "tidy (wk_groups ?y)" using t x tidy_add by (simp add: tag_state_def)
      moreover have "holds st ?y = holds st t" by (rule holds_cong [OF scratch])
      moreover have "wk_tag_scope ?y = wk_tag_scope t" "wk_tags_spilled ?y = wk_tags_spilled t" "wk_tag_next ?y = wk_tag_next t"
        "length (wk_groups ?y) = length (wk_groups t)" using x by simp_all
      ultimately have "tag_state st ?y (rows @ [row])"
        using t rows by (auto simp: tag_state_def split: option.splits)
      moreover have "tags_step st t ?y"
        using x scope_at_cong [OF scratch, of st] by (simp add: tags_step_def scope_step_def)
      then have "tags_step st w ?y" using t tags_step_trans by blast
      moreover have "mt_current (wk_meter ?y) \<le> mt_current (wk_meter w) + ?n" using t x by simp
      moreover have "(\<forall>e. E (Raised e)) \<or> wk_tags_spilled ?y = wk_tags_spilled w" using t x by auto
      ultimately show "yields E (modify (\<lambda>w. w\<lparr>wk_groups := (wk_groups w)[i := add_member tag (s, loc, ?n) (wk_groups w ! i)]\<rparr>)) x
        (\<lambda>_ t. tag_state st t (rows @ [row]) \<and> tags_step st w t
          \<and> mt_current (wk_meter t) \<le> mt_current (wk_meter w) + ?n
          \<and> ((\<forall>e. E (Raised e)) \<or> wk_tags_spilled t = wk_tags_spilled w))" by simp
    qed
  qed
qed

section \<open>The findings\<close>

definition found_step :: "setting \<Rightarrow> working \<Rightarrow> working \<Rightarrow> bool" where
  "found_step st w t \<longleftrightarrow> (\<forall>j. scope_at st w j \<noteq> None \<longrightarrow> wk_tag_scope w \<noteq> Some j \<longrightarrow> scope_at st t j = scope_at st w j)
     \<and> wk_units t = wk_units w \<and> wk_unit_scope t = wk_unit_scope w
     \<and> wk_unit_next t = wk_unit_next w \<and> wk_units_spilled t = wk_units_spilled w
     \<and> wk_tag_scope t = wk_tag_scope w \<and> mt_budget (wk_meter t) = mt_budget (wk_meter w)"

lemma duplicates_of_Nil [simp]: "duplicates_of rules [] = (\<lambda>_. [])"
  by (auto simp: duplicates_of_def fun_eq_iff)

theorem yields_duplicate_findings:
  assumes "tag_state st w rows" and "wk_tags_spilled w \<Longrightarrow> fits E st (map Tag_row rows)"
    and "distinct (map (\<lambda>r. (ur_rule r, ur_sequence r)) rows)"
    and "wk_tags_spilled w \<Longrightarrow> ample E st (Suc (length rows)) w"
  shows "yields E (duplicate_findings st) w (\<lambda>f t. f = duplicates_of (st_rules st) rows \<and> found_step st w t)"
proof (cases "wk_tags_spilled w")
  case False
  then have "wk_tag_scope w = None" using assms(1) by (auto simp: tag_state_def split: option.splits)
  then have "unique_key_findings (st_rules st) (wk_groups w) = duplicates_of (st_rules st) rows"
    using assms(1,3) by (intro memory_findings_correct) (auto simp: tag_state_def)
  with False show ?thesis by (simp add: duplicate_findings_def yields_def ret_def found_step_def)
next
  case True
  then obtain i where i: "wk_tag_scope w = Some i"
    using assms(1) by (auto simp: tag_state_def split: option.splits)
  let ?Q = "\<lambda>f t. f = duplicates_of (st_rules st) rows \<and> found_step st w t"
  have "ample E st (Suc (length rows)) w" using assms(4) True by simp
  then have "yields E (spill_tags st) w (\<lambda>_ t. tag_state st t rows \<and> tags_step st w t
      \<and> ample E st (Suc (length rows)) t \<and> tag_rows (wk_groups t) = [])"
    using yields_weaken [OF yields_spill_tags [OF assms(1) assms(2) [OF True], of "Suc (length rows)"]] i by simp
  then have "yields E (sbind (spill_tags st) (\<lambda>_ w.
        case wk_tag_scope w of
          None \<Rightarrow> ret (\<lambda>_. []) w
        | Some i \<Rightarrow>
            sbind (shut_scope st i) (\<lambda>_.
            sbind (build_sorted_runs st i) (\<lambda>runs.
              if runs = [] then ret (\<lambda>_. [])
              else sbind (merge_rounds st (length runs) runs) (\<lambda>runs. scan_run st (hd runs)))) w)) w ?Q"
  proof (rule yields_sbind)
    fix u t
    assume t: "tag_state st t rows \<and> tags_step st w t \<and> ample E st (Suc (length rows)) t \<and> tag_rows (wk_groups t) = []"
    then have scope: "wk_tag_scope t = Some i" using i by (simp add: tags_step_def scope_step_def)
    with t obtain old where old: "holds st t i False (map Tag_row old)" "mset old = mset rows"
      by (auto simp: tag_state_def)
    have small: "small st t (map Tag_row old)"
      using t mset_eq_setD [OF old(2)] by (simp add: tag_state_def small_def)
    have fit: "fits E st (map Tag_row old)" by (rule fits_mset [OF assms(2) [OF True]]) (simp add: old(2))
    have step: "found_step st w v" if "only st i t u" "grown st u v" for u v
    proof -
      have fields: "wk_units v = wk_units t" "wk_unit_scope v = wk_unit_scope t" "wk_unit_next v = wk_unit_next t"
        "wk_units_spilled v = wk_units_spilled t" "wk_tag_scope v = wk_tag_scope t" "wk_meter v = wk_meter t"
        using that by (cases t; cases u; cases v; simp add: only_def grown_def)+
      have "scope_at st v j = scope_at st w j" if j: "scope_at st w j \<noteq> None" "wk_tag_scope w \<noteq> Some j" for j
      proof -
        have "scope_at st t j = scope_at st w j" using t j by (simp add: tags_step_def scope_step_def)
        moreover have "scope_at st u j = scope_at st t j" using \<open>only st i t u\<close> j i by (auto simp: only_def)
        ultimately show ?thesis using \<open>grown st u v\<close> j(1) by (simp add: grown_def)
      qed
      then show ?thesis unfolding found_step_def using fields t scope i by (auto simp: tags_step_def)
    qed
    have "ample E st (Suc (length rows)) t" using t by simp
    from yields_shut_scope [OF old(1) this]
    have "yields E (sbind (shut_scope st i) (\<lambda>_.
            sbind (build_sorted_runs st i) (\<lambda>runs.
              if runs = [] then ret (\<lambda>_. [])
              else sbind (merge_rounds st (length runs) runs) (\<lambda>runs. scan_run st (hd runs))))) t ?Q"
    proof (rule yields_sbind)
      fix x v
      assume v: "holds st v i True (map Tag_row old) \<and> only st i t v \<and> ample E st (Suc (length rows)) v"
      then have "small st v (map Tag_row old)" using small small_only by blast
      with v fit have "yields E (build_sorted_runs st i) v (\<lambda>runs y. grown st v y \<and> ample E st (length rows) y
          \<and> (\<exists>rss. list_all2 (run_holds st y) runs rss \<and> mset (concat rss) = mset old))"
        by (intro yields_build_sorted_runs) auto
      then show "yields E (sbind (build_sorted_runs st i) (\<lambda>runs.
              if runs = [] then ret (\<lambda>_. [])
              else sbind (merge_rounds st (length runs) runs) (\<lambda>runs. scan_run st (hd runs)))) v ?Q"
      proof (rule yields_sbind)
        fix runs y
        assume "grown st v y \<and> ample E st (length rows) y
          \<and> (\<exists>rss. list_all2 (run_holds st y) runs rss \<and> mset (concat rss) = mset old)"
        then obtain rss where y: "grown st v y" "ample E st (length rows) y"
          "list_all2 (run_holds st y) runs rss" "mset (concat rss) = mset old" by blast
        show "yields E (if runs = [] then ret (\<lambda>_. [])
            else sbind (merge_rounds st (length runs) runs) (\<lambda>runs. scan_run st (hd runs))) y ?Q"
        proof (cases "runs = []")
          case True
          with y(3,4) old(2) have "rows = []" by simp
          with True show ?thesis using step [of v y] v y(1) by simp
        next
          case False
          have "length (concat rss) = length rows" using y(4) old(2) by (metis size_mset)
          then have "length runs - 1 + 0 \<le> length rows" using list_all2_length_concat [OF y(3)] by simp
          with y(2) have "ample E st (length runs - 1 + 0) y" using ample_antimono by blast
          moreover have "fits E st (map Tag_row (concat rss))"
            by (rule fits_mset [OF fit]) (simp only: mset_map y(4))
          ultimately have "yields E (merge_rounds st (length runs) runs) y (\<lambda>runs' z. grown st y z \<and> ample E st 0 z
              \<and> (\<exists>r rs. runs' = [r] \<and> run_holds st z r rs \<and> mset rs = mset (concat rss)))"
            using yields_merge_rounds [OF y(3) _ False order_refl] by blast
          then have "yields E (sbind (merge_rounds st (length runs) runs) (\<lambda>runs. scan_run st (hd runs))) y ?Q"
          proof (rule yields_sbind)
            fix runs' z
            assume z: "grown st y z \<and> ample E st 0 z
              \<and> (\<exists>r rs. runs' = [r] \<and> run_holds st z r rs \<and> mset rs = mset (concat rss))"
            then obtain r rs where r: "runs' = [r]" "run_holds st z r rs" "mset rs = mset rows"
              using y(4) old(2) by auto
            have "found_step st w z" using step v y(1) z grown_trans by blast
            then show "yields E (scan_run st (hd runs')) z ?Q"
              using yields_weaken [OF yields_scan_run [OF r(2,3) assms(3)]] r(1) by simp
          qed
          with False show ?thesis by simp
        qed
      qed
    qed
    then show "yields E (\<lambda>w. case wk_tag_scope w of
          None \<Rightarrow> ret (\<lambda>_. []) w
        | Some i \<Rightarrow>
            sbind (shut_scope st i) (\<lambda>_.
            sbind (build_sorted_runs st i) (\<lambda>runs.
              if runs = [] then ret (\<lambda>_. [])
              else sbind (merge_rounds st (length runs) runs) (\<lambda>runs. scan_run st (hd runs)))) w) t ?Q"
      using scope by (simp add: yields_def)
  qed
  with True show ?thesis by (simp add: duplicate_findings_def yields_def)
qed

end
