(* ===== verification/Finding_Order.thy ===== *)
theory Finding_Order
  imports Landing_Contract
begin

text \<open>
  Findings of \<open>ergasterion/ingestion/validation.py\<close>: their identity, the order in which they are
  reported with repeated identities dropped, and the predicates that read them.
\<close>

fun kind_value :: "finding_kind \<Rightarrow> string" where
  "kind_value Batch_rule = ''batch_rule''"
| "kind_value Parse_kind = ''parse''"
| "kind_value Rule_kind = ''rule''"
| "kind_value Type_kind = ''type''"

fun diagnostic_value :: "diagnostic_code \<Rightarrow> string" where
  "diagnostic_value Accepted_value_violation = ''accepted_value_violation''"
| "diagnostic_value Column_count_mismatch = ''column_count_mismatch''"
| "diagnostic_value Duplicate_key = ''duplicate_key''"
| "diagnostic_value Invalid_encoding = ''invalid_encoding''"
| "diagnostic_value Invalid_logical_type = ''invalid_logical_type''"
| "diagnostic_value Json_parse_error = ''json_parse_error''"
| "diagnostic_value Missing_required_field = ''missing_required_field''"
| "diagnostic_value Null_not_allowed = ''null_not_allowed''"
| "diagnostic_value Range_violation = ''range_violation''"
| "diagnostic_value Row_count_violation = ''row_count_violation''"
| "diagnostic_value Unexpected_field = ''unexpected_field''"

type_synonym identity = "string \<times> string \<times> string \<times> string"

definition or_empty :: "string option \<Rightarrow> string" where
  "or_empty s = (case s of None \<Rightarrow> [] | Some t \<Rightarrow> t)"

definition finding_identity :: "finding \<Rightarrow> identity" where
  "finding_identity f = (kind_value (fi_kind f), or_empty (fi_rule_id f), or_empty (fi_field_path f),
     diagnostic_value (fm_diagnostic_code (fi_metadata f)))"

fun first_of_each :: "identity list \<Rightarrow> finding list \<Rightarrow> finding list" where
  "first_of_each seen [] = []"
| "first_of_each seen (f # fs) =
     (if finding_identity f \<in> set seen then first_of_each seen fs
      else f # first_of_each (finding_identity f # seen) fs)"

definition sort_findings :: "finding list \<Rightarrow> finding list" where
  "sort_findings fs = sort_key finding_identity (first_of_each [] fs)"

definition is_parse_or_type_error :: "finding list \<Rightarrow> bool" where
  "is_parse_or_type_error fs \<longleftrightarrow>
     (\<exists>f \<in> set fs. fi_severity f = Sev_error \<and> fi_kind f \<in> {Parse_kind, Type_kind})"

definition is_batch_abort :: "finding list \<Rightarrow> bool" where
  "is_batch_abort fs \<longleftrightarrow>
     (\<exists>f \<in> set fs. fi_severity f = Sev_error
        \<and> (fi_kind f = Parse_kind \<or> fi_kind f = Batch_rule
           \<or> fm_diagnostic_code (fi_metadata f) \<in> {Invalid_encoding, Json_parse_error, Column_count_mismatch})
        \<and> fm_raw_locator (fi_metadata f) = None)"

definition batch_blocks_publication :: "finding list \<Rightarrow> bool" where
  "batch_blocks_publication fs \<longleftrightarrow> is_batch_abort fs
     \<or> (\<exists>f \<in> set fs. fi_severity f = Sev_error \<and> fi_kind f = Batch_rule)"

text \<open>\<open>_finding\<close>, with the fields its callers leave out at their defaults.\<close>

definition rule_finding :: "diagnostic_code \<Rightarrow> severity \<Rightarrow> raw_locator \<Rightarrow> digest \<Rightarrow> string option \<Rightarrow> finding" where
  "rule_finding diagnostic sev loc rule_id field_path =
     \<lparr>fi_kind = Rule_kind, fi_rule_id = Some rule_id, fi_field_path = field_path,
      fi_code = Contract_invalid, fi_severity = sev,
      fi_metadata = \<lparr>fm_diagnostic_code = diagnostic, fm_raw_locator = Some loc,
        fm_expected_logical_type = None, fm_observed_logical_type = None, fm_observed_count = None,
        fm_expected_min_count = None, fm_expected_max_count = None, fm_duplicate_group_size = None\<rparr>\<rparr>"

definition count_finding ::
    "severity \<Rightarrow> digest \<Rightarrow> nat \<Rightarrow> nat option \<Rightarrow> nat option \<Rightarrow> finding" where
  "count_finding sev rule_id observed expected_min expected_max =
     \<lparr>fi_kind = Batch_rule, fi_rule_id = Some rule_id, fi_field_path = None,
      fi_code = Contract_invalid, fi_severity = sev,
      fi_metadata = \<lparr>fm_diagnostic_code = Row_count_violation, fm_raw_locator = None,
        fm_expected_logical_type = None, fm_observed_logical_type = None, fm_observed_count = Some observed,
        fm_expected_min_count = expected_min, fm_expected_max_count = expected_max,
        fm_duplicate_group_size = None\<rparr>\<rparr>"

definition field_path :: "ident \<Rightarrow> string" where
  "field_path name = ''/'' @ concat (map (\<lambda>c. if c = CHR ''~'' then ''~0'' else if c = CHR ''/'' then ''~1'' else [c]) name)"

section \<open>Lemmas\<close>

lemma first_of_each_identities:
  "finding_identity ` set (first_of_each seen fs) = finding_identity ` set fs - set seen
    \<and> distinct (map finding_identity (first_of_each seen fs))
    \<and> set (first_of_each seen fs) \<subseteq> set fs"
  by (induction fs arbitrary: seen) auto

lemma first_of_each_first:
  "f \<in> set (first_of_each seen fs) \<longleftrightarrow>
    finding_identity f \<notin> set seen \<and> find (\<lambda>g. finding_identity g = finding_identity f) fs = Some f"
  by (induction fs arbitrary: seen) (auto simp: find_Some_iff)

lemma sort_findings_correct:
  "sorted (map finding_identity (sort_findings fs)) \<and> distinct (map finding_identity (sort_findings fs))
    \<and> set (sort_findings fs) = {f. find (\<lambda>g. finding_identity g = finding_identity f) fs = Some f}"
  using first_of_each_identities [of "[]" fs] first_of_each_first [of _ "[]" fs]
  by (auto simp: sort_findings_def distinct_map inj_on_def)

lemma sort_findings_identities [simp]: "finding_identity ` set (sort_findings fs) = finding_identity ` set fs"
  using first_of_each_identities [of "[]" fs] by (simp add: sort_findings_def)

end
