(* ===== verification/Publication_Decision.thy ===== *)
theory Publication_Decision
  imports Landing_Contract Decimal_Text
begin

text \<open>
  The quality arithmetic of \<open>ergasterion/ingestion/validation.py\<close>: whether a delivery is published
  whole, published without its rejected rows, or rejected. The error fraction is a quotient of Python
  decimals, which keeps 28 digits, rounded half to even; the theorem says when that is exact.
\<close>

section \<open>Decimals\<close>

text \<open>\<open>Decimal(text)\<close> for a text of the \<open>DecimalString\<close> pattern: the digits and how many follow the point.\<close>

definition decimal_of :: "string \<Rightarrow> int \<times> nat" where
  "decimal_of text =
     (let negative = (take 1 text = ''-''); digits = (if negative then drop 1 text else text);
          sign = (if negative then - 1 else 1)
      in case split_on CHR ''.'' digits of
           whole # fraction # _ \<Rightarrow> (sign * int (read_nat (whole @ fraction)), length fraction)
         | [whole] \<Rightarrow> (sign * int (read_nat whole), 0)
         | [] \<Rightarrow> (0, 0))"

text \<open>\<open>Decimal(n) / Decimal(m)\<close> of positive numbers is a coefficient of 28 digits over a power of ten; a
  quotient of more than 28 digits before the point, far above every bound it is compared with, is kept whole.\<close>

definition quotient_exponent :: "nat \<Rightarrow> nat \<Rightarrow> nat" where
  "quotient_exponent n m =
     (let k = 28 + length (show_nat m) - length (show_nat n) in
      if m * 10 ^ 27 \<le> n * 10 ^ (k - 1) then k - 1 else k)"

definition half_even :: "nat \<Rightarrow> nat \<Rightarrow> nat" where
  "half_even n m = (let q = n div m; r = n mod m in if 2 * r > m \<or> 2 * r = m \<and> odd q then q + 1 else q)"

definition fraction_exceeds :: "nat \<Rightarrow> nat \<Rightarrow> int \<times> nat \<Rightarrow> bool" where
  "fraction_exceeds n m bound =
     (let e = quotient_exponent n m in int (half_even (n * 10 ^ e) m) * 10 ^ snd bound > fst bound * 10 ^ e)"

section \<open>The decision\<close>

definition allows_partial :: "publication_policy \<Rightarrow> delivery_mode \<Rightarrow> progress_contract \<Rightarrow> bool" where
  "allows_partial mode delivery progress \<longleftrightarrow>
     mode = Publish_valid_rows \<and> delivery = Append_only \<and> progress = Opaque_batch_progress"

definition partial_publication_permitted :: "landing_product_contract \<Rightarrow> bool" where
  "partial_publication_permitted c = (let d = lc_delivery c in
     allows_partial (qp_publication_mode (dp_quality d)) (dp_mode d) (dp_progress d))"

definition decide_publication ::
    "publication_policy \<Rightarrow> string \<Rightarrow> delivery_mode \<Rightarrow> progress_contract \<Rightarrow> nat \<Rightarrow> nat \<Rightarrow> nat \<Rightarrow> bool
       \<Rightarrow> publication_decision result" where
  "decide_publication mode max_error delivery progress framed errors passing batch_error =
     (let bound = decimal_of max_error; partial_ok = allows_partial mode delivery progress in
      if mode = Publish_valid_rows \<and> \<not> partial_ok then raise Invalid_config
      else if mode = All_or_nothing \<and> fst bound \<noteq> 0 then raise Invalid_config
      else if partial_ok \<and> (fst bound < 0 \<or> fst bound \<ge> 10 ^ snd bound) then raise Invalid_config
      else if batch_error then Inr Decide_reject
      else if framed = 0 then Inr Decide_all
      else if errors = 0 then Inr Decide_all
      else if \<not> partial_ok then Inr Decide_reject
      else if passing < 1 then Inr Decide_reject
      else if fraction_exceeds errors framed bound then Inr Decide_reject
      else Inr Decide_valid_rows)"

section \<open>The fraction is exact\<close>

lemma show_nat_bounds: "n < 10 ^ length (show_nat n) \<and> (0 < n \<longrightarrow> 10 ^ (length (show_nat n) - 1) \<le> n)"
proof (induction n rule: show_nat.induct)
  case (1 n)
  show ?case
  proof (cases "n < 10")
    case True
    then show ?thesis by (simp add: show_nat.simps [of n])
  next
    case False
    let ?l = "length (show_nat (n div 10))"
    from 1 False have IH: "n div 10 < 10 ^ ?l" "10 ^ (?l - 1) \<le> n div 10" by simp_all
    have len: "length (show_nat n) = Suc ?l" using False by (simp add: show_nat.simps [of n])
    have "?l \<noteq> 0" using show_nat_digits [of "n div 10"] by simp
    then have "(10 :: nat) ^ ?l = 10 * 10 ^ (?l - 1)" by (cases ?l) simp_all
    also have "\<dots> \<le> 10 * (n div 10)" using IH(2) by simp
    also have "\<dots> \<le> n" by simp
    finally have "10 ^ ?l \<le> n" .
    moreover have "n < 10 * 10 ^ ?l" using IH(1) by linarith
    ultimately show ?thesis by (simp add: len)
  qed
qed

lemma quotient_exponent_reaches:
  assumes "0 < n" and "n \<le> m"
  shows "m * 10 ^ 27 \<le> n * 10 ^ quotient_exponent n m"
proof -
  let ?a = "length (show_nat n)" and ?b = "length (show_nat m)"
  have a: "10 ^ (?a - 1) \<le> n" "m < 10 ^ ?b" using assms show_nat_bounds by auto
  have "(10 :: nat) ^ (?a - 1) < 10 ^ ?b" using a assms(2) by linarith
  then have "?a - 1 < ?b" by simp
  then have exponent: "?b + 27 = ?a - 1 + (28 + ?b - ?a)"
    using show_nat_digits [of n] by (cases "show_nat n") auto
  have "m * 10 ^ 27 \<le> 10 ^ ?b * 10 ^ 27" using a(2) by simp
  also have "\<dots> = 10 ^ (?b + 27)" by (simp add: power_add)
  also have "\<dots> = 10 ^ (?a - 1) * 10 ^ (28 + ?b - ?a)" by (simp only: exponent power_add)
  also have "\<dots> \<le> n * 10 ^ (28 + ?b - ?a)" using a(1) by simp
  finally show ?thesis by (simp add: quotient_exponent_def Let_def)
qed

lemma half_even_bounds:
  assumes "0 < m"
  shows "2 * (half_even n m * m) \<le> 2 * n + m" and "2 * n \<le> 2 * (half_even n m * m) + m"
proof -
  define q r where "q = n div m" and "r = n mod m"
  have n: "n = q * m + r" and r: "r < m" using assms by (simp_all add: q_def r_def)
  consider "half_even n m = q" "2 * r \<le> m" | "half_even n m = q + 1" "m \<le> 2 * r"
  proof (cases "2 * r > m \<or> 2 * r = m \<and> odd q")
    case True
    then show ?thesis by (intro that(2)) (auto simp: half_even_def Let_def q_def r_def)
  next
    case False
    then show ?thesis by (intro that(1)) (auto simp: half_even_def Let_def q_def r_def)
  qed
  then consider "half_even n m * m = q * m" "2 * r \<le> m" | "half_even n m * m = q * m + m" "m \<le> 2 * r"
    by cases auto
  then have "2 * c \<le> 2 * n + m \<and> 2 * n \<le> 2 * c + m" if "c = half_even n m * m" for c
    using that r n by cases auto
  then show "2 * (half_even n m * m) \<le> 2 * n + m" "2 * n \<le> 2 * (half_even n m * m) + m" by simp_all
qed

lemma fraction_exceeds_exact:
  assumes "0 < n" and "n \<le> m" and "m * 10 ^ d \<le> 10 ^ 27"
  shows "fraction_exceeds n m (u, d) \<longleftrightarrow> int n * 10 ^ d > u * int m"
proof -
  let ?e = "quotient_exponent n m"
  let ?c = "half_even (n * 10 ^ ?e) m"
  have m: "0 < m" using assms by linarith
  have "m * 10 ^ 27 \<le> m * 10 ^ ?e"
    using quotient_exponent_reaches [OF assms(1,2)] assms(2) by (meson le_trans mult_le_mono1)
  then have big: "(10 :: nat) ^ 27 \<le> 10 ^ ?e" using m by simp
  have "(10 :: nat) ^ d \<le> m * 10 ^ d" using m by simp
  then have "(10 :: nat) ^ d \<le> 10 ^ 27" using assms(3) by linarith
  then have "(10 :: nat) ^ d \<le> 10 ^ ?e" using big by linarith
  then have de: "d \<le> ?e" by simp
  define p where "p = (10 :: int) ^ (?e - d)"
  have p: "0 < p" by (simp add: p_def)
  have split: "(10 :: int) ^ ?e = p * 10 ^ d" using de by (simp add: p_def power_add [symmetric])
  define x where "x = int n * 10 ^ d"
  have xe: "int n * 10 ^ ?e = x * p" by (simp add: x_def split)
  have "int (2 * (?c * m)) \<le> int (2 * (n * 10 ^ ?e) + m)" "int (2 * (n * 10 ^ ?e)) \<le> int (2 * (?c * m) + m)"
    using half_even_bounds [OF m, of "n * 10 ^ ?e"] by (simp_all only: of_nat_le_iff)
  then have cm: "2 * (int ?c * int m) \<le> 2 * (x * p) + int m" "2 * (x * p) \<le> 2 * (int ?c * int m) + int m"
    by (simp_all add: xe [symmetric])
  have "int m * 10 ^ d \<le> p * 10 ^ d"
  proof -
    have "int (m * 10 ^ d) \<le> int (10 ^ ?e)" using assms(3) big by (simp only: of_nat_le_iff)
    then show ?thesis by (simp add: split [symmetric])
  qed
  then have mp: "int m \<le> p" by simp
  have "fraction_exceeds n m (u, d) \<longleftrightarrow> int ?c * 10 ^ d > u * p * 10 ^ d"
    by (simp add: fraction_exceeds_def Let_def split mult.assoc)
  also have "\<dots> \<longleftrightarrow> int ?c > u * p" by simp
  also have "\<dots> \<longleftrightarrow> x > u * int m"
  proof
    assume "x > u * int m"
    then have "(u * int m + 1) * p \<le> x * p" using p by (intro mult_right_mono) simp_all
    then have low: "u * p * int m + p \<le> x * p" by (simp add: algebra_simps)
    show "int ?c > u * p"
    proof (rule ccontr)
      assume "\<not> int ?c > u * p"
      then have "int ?c * int m \<le> u * p * int m" by (intro mult_right_mono) simp_all
      with low cm(2) mp p show False by linarith
    qed
  next
    assume "int ?c > u * p"
    then have "(u * p + 1) * int m \<le> int ?c * int m" by (intro mult_right_mono) simp_all
    then have high: "u * p * int m + int m \<le> int ?c * int m" by (simp add: algebra_simps)
    show "x > u * int m"
    proof (rule ccontr)
      assume "\<not> x > u * int m"
      then have "x * p \<le> u * int m * p" using p by (intro mult_right_mono) simp_all
      then have "x * p \<le> u * p * int m" by (simp add: algebra_simps)
      with high cm(1) m show False by linarith
    qed
  qed
  finally show ?thesis by (simp add: x_def)
qed

end
