(* ===== verification/Frame_Validation.thy ===== *)
theory Frame_Validation
  imports Observed_Tags Finding_Order Publication_Decision Contract_Validation Wire_Records
begin

text \<open>
  The validation of one delivery, \<open>ergasterion/ingestion/validation.py\<close>: framed units stream through
  the authored rules and the uniqueness check, spill when the declared memory bound would be crossed,
  and come back in receiver order as dispositions, with the counts, the publication decision and one
  digest. Digests and canonical sizes are parameters.
\<close>

section \<open>Records\<close>

record candidate_field =
  cf_name :: ident
  cf_value :: "typed_scalar option"

record candidate_frame =
  fr_sequence :: nat
  fr_locator :: raw_locator
  fr_fields :: "candidate_field list option"
  fr_structural :: "finding list"

record disposition =
  di_id :: digest
  di_raw_ref :: nat
  di_locator :: raw_locator
  di_delivery_id :: token
  di_claim_digest :: digest
  di_ruleset_digest :: digest
  di_product_version :: semver
  di_contract_digest :: digest
  di_source_schema_digest :: digest
  di_published_schema_digest :: digest
  di_status :: disposition_status
  di_findings :: "finding list"
  di_outcome_digest :: digest

record validation_result =
  vr_evaluation_id :: digest
  vr_ruleset_digest :: digest
  vr_batch_findings :: "finding list"
  vr_framed_count :: nat
  vr_accepted_count :: nat
  vr_error_count :: nat
  vr_warning_count :: nat
  vr_quarantined_count :: nat
  vr_error_numerator :: nat
  vr_error_denominator :: nat
  vr_decision :: publication_decision
  vr_digest :: digest

record validation_outcome =
  vo_validation :: validation_result
  vo_dispositions :: "disposition list"
  vo_snapshot :: "snapshot_acceptance option"
  vo_peak_memory :: nat
  vo_spilled_uniqueness :: bool

text \<open>What the validation takes from libraries: canonical bytes and digests.\<close>

record validation_lib =
  vl_canonical :: canonical_lib
  vl_scratch :: "scratch_row scratch_lib"
  vl_frame_size :: "candidate_frame \<Rightarrow> nat"
  vl_key_tag :: "ident list \<Rightarrow> typed_scalar list \<Rightarrow> digest"
  vl_outcome_digest :: "disposition_status \<Rightarrow> finding list \<Rightarrow> digest"
  vl_disposition_id :: "digest \<Rightarrow> raw_locator \<Rightarrow> digest \<Rightarrow> digest"
  vl_result_digest :: "validation_result \<Rightarrow> (digest \<times> digest) list \<Rightarrow> digest"

section \<open>Field rules\<close>

text \<open>The values of a frame by name, the last field of a name winning; an absent value is a null.\<close>

definition frame_value :: "candidate_frame \<Rightarrow> ident \<Rightarrow> typed_scalar option" where
  "frame_value fr name = (case fr_fields fr of
     None \<Rightarrow> None
   | Some fs \<Rightarrow> Option.bind (map_of (rev (map (\<lambda>f. (cf_name f, cf_value f)) fs)) name) (\<lambda>v. v))"

fun kind_name :: "logical_type_kind \<Rightarrow> string" where
  "kind_name K_binary = ''binary''"
| "kind_name K_boolean = ''boolean''"
| "kind_name K_date = ''date''"
| "kind_name K_decimal = ''decimal''"
| "kind_name K_int64 = ''int64''"
| "kind_name K_local_datetime = ''local_datetime''"
| "kind_name K_utc_instant = ''utc_instant''"
| "kind_name K_utf8_string = ''utf8_string''"

text \<open>\<open>_scalar_order\<close> of the first above that of the second: by the name of the kind, then by value.\<close>

definition scalar_above :: "typed_scalar \<Rightarrow> typed_scalar \<Rightarrow> bool" where
  "scalar_above a b = (if scalar_kind a = scalar_kind b then scalar_greater a b
     else kind_name (scalar_kind a) > kind_name (scalar_kind b))"

definition scalars_equal :: "canonical_lib \<Rightarrow> typed_scalar \<Rightarrow> typed_scalar \<Rightarrow> bool" where
  "scalars_equal lib a b \<longleftrightarrow> cj_scalar lib a = cj_scalar lib b"

definition column_nullable :: "source_field list \<Rightarrow> ident \<Rightarrow> bool" where
  "column_nullable columns name = (case map_of (rev (map (\<lambda>c. (sf_name c, sf_nullable c)) columns)) name of
     None \<Rightarrow> False | Some n \<Rightarrow> n)"

text \<open>What one rule with its id finds in one frame.\<close>

definition field_rule_findings ::
    "canonical_lib \<Rightarrow> source_field list \<Rightarrow> candidate_frame \<Rightarrow> quality_rule \<times> digest \<Rightarrow> finding list" where
  "field_rule_findings lib columns fr = (\<lambda>(rule, rule_id).
     let value_of = (\<lambda>f. frame_value fr f);
         found = (\<lambda>diagnostic f. [rule_finding diagnostic (rule_severity rule) (fr_locator fr) rule_id (Some (field_path f))])
     in case rule of
       Row_count lo hi sev \<Rightarrow> []
     | Unique_key fs sev \<Rightarrow> []
     | Not_null f sev \<Rightarrow> if value_of f = None then found Null_not_allowed f else []
     | Accepted_values f vs allow sev \<Rightarrow>
         (case value_of f of
            None \<Rightarrow> if column_nullable columns f \<and> allow then [] else found Null_not_allowed f
          | Some v \<Rightarrow> if \<exists>a \<in> set vs. scalars_equal lib v a then [] else found Accepted_value_violation f)
     | Range_rule f lo hi allow sev \<Rightarrow>
         (case value_of f of
            None \<Rightarrow> if column_nullable columns f \<and> allow then [] else found Null_not_allowed f
          | Some v \<Rightarrow>
              if \<exists>a \<in> set_option lo. scalar_above a v then found Range_violation f
              else if \<exists>b \<in> set_option hi. scalar_above v b then found Range_violation f
              else []))"

definition evaluate_field_rules ::
    "canonical_lib \<Rightarrow> source_field list \<Rightarrow> (quality_rule \<times> digest) list \<Rightarrow> candidate_frame \<Rightarrow> finding list" where
  "evaluate_field_rules lib columns rules fr = concat (map (field_rule_findings lib columns fr) rules)"

definition row_count_findings :: "(quality_rule \<times> digest) list \<Rightarrow> nat \<Rightarrow> finding list" where
  "row_count_findings rules framed = concat (map (\<lambda>(rule, rule_id). case rule of
       Row_count lo hi sev \<Rightarrow>
         if (\<exists>n \<in> set_option lo. framed < n) \<or> (\<exists>n \<in> set_option hi. framed > n)
         then [count_finding sev rule_id framed lo hi] else []
     | _ \<Rightarrow> []) rules)"

section \<open>Unique keys\<close>

definition unique_rules :: "(quality_rule \<times> digest) list \<Rightarrow> unique_rule list" where
  "unique_rules rules = concat (map (\<lambda>(rule, rule_id). case rule of
       Unique_key fs sev \<Rightarrow> [\<lparr>uq_fields = fs, uq_rule_id = rule_id, uq_severity = sev\<rparr>]
     | _ \<Rightarrow> []) rules)"

definition unique_key_tag :: "validation_lib \<Rightarrow> ident list \<Rightarrow> candidate_frame \<Rightarrow> digest option" where
  "unique_key_tag lib fs fr = (let vs = map (frame_value fr) fs in
     if None \<in> set vs then None else Some (vl_key_tag lib fs (map the vs)))"

definition null_key_finding :: "unique_rule \<Rightarrow> candidate_frame \<Rightarrow> finding" where
  "null_key_finding rule fr = rule_finding Null_not_allowed (uq_severity rule) (fr_locator fr) (uq_rule_id rule) None"

section \<open>Units\<close>

definition spill_units :: "setting \<Rightarrow> (working, unit) action" where
  "spill_units st w =
     (let units = wk_units w in
      if units = [] then ret () w
      else sbind (case wk_unit_scope w of
            Some i \<Rightarrow> (if wk_scratch w = None then throw Capacity_exceeded else ret i)
          | None \<Rightarrow> sbind (new_scope st) (\<lambda>i. sbind (modify (\<lambda>w. w\<lparr>wk_unit_scope := Some i\<rparr>)) (\<lambda>_. ret i))) (\<lambda>i.
        sbind (sfor (\<lambda>(u, n) w. sbind (write_row st i (wk_unit_next w) (Unit_row u))
             (\<lambda>_. modify (\<lambda>w. w\<lparr>wk_unit_next := wk_unit_next w + 1\<rparr>)) w) units) (\<lambda>_.
        sbind (modify (\<lambda>w. w\<lparr>wk_units := []\<rparr>)) (\<lambda>_.
        sbind (release (sum_list (map snd units))) (\<lambda>_.
        modify (\<lambda>w. w\<lparr>wk_units_spilled := True\<rparr>))))) w)"

definition add_unit :: "setting \<Rightarrow> unit_row \<Rightarrow> (working, unit) action" where
  "add_unit st u =
     (let n = xl_size (st_lib st) (Unit_row u) in
      sbind (when_exceeding n (spill_units st)) (\<lambda>_.
      sbind (charge n) (\<lambda>_.
      modify (\<lambda>w. w\<lparr>wk_units := wk_units w @ [(u, n)]\<rparr>))))"

text \<open>A scratch row read back as a unit; a tag record would not decode as one.\<close>

definition as_unit :: "scratch_row \<Rightarrow> (working \<times> 'd list, unit_row) action" where
  "as_unit row w = (case row of Unit_row u \<Rightarrow> (Inr u, w) | Tag_row r \<Rightarrow> (Inl (Raised Validation_error), w))"

definition restore_unit :: "(unit_row \<Rightarrow> 'd) \<Rightarrow> nat \<times> scratch_row \<Rightarrow> (working \<times> 'd list, unit) action" where
  "restore_unit build = (\<lambda>(n, row). sbind (as_unit row) (\<lambda>u. modify (\<lambda>(w, ds). (w, ds @ [build u]))))"

definition materialize_units :: "setting \<Rightarrow> (unit_row \<Rightarrow> 'd) \<Rightarrow> (working, 'd list) action" where
  "materialize_units st build w =
     (if \<not> wk_units_spilled w then ret (map (build \<circ> fst) (wk_units w)) w
      else sbind (spill_units st) (\<lambda>_ w.
        case wk_unit_scope w of
          None \<Rightarrow> ret [] w
        | Some i \<Rightarrow>
            sbind (shut_scope st i) (\<lambda>_ w.
              case page_loop (\<lambda>after (w, ds). read_scope st i after w) (restore_unit build)
                  (scope_length st i w + 1) (- 1) (w, []) of
                (Inl e, (w', ds)) \<Rightarrow> (Inl e, w')
              | (Inr _, (w', ds)) \<Rightarrow> (Inr ds, w')) w) w)"

section \<open>One frame\<close>

text \<open>\<open>try: \<dots> finally\<close>: the second part runs whether the first raises or not.\<close>

definition finally_do :: "('s, 'a) action \<Rightarrow> ('s \<Rightarrow> 's) \<Rightarrow> ('s, 'a) action" where
  "finally_do m f s = (case m s of (r, t) \<Rightarrow> (r, f t))"

definition release_bytes :: "nat \<Rightarrow> working \<Rightarrow> working" where
  "release_bytes n w = w\<lparr>wk_meter := (wk_meter w)\<lparr>mt_current := mt_current (wk_meter w) - n\<rparr>\<rparr>"

text \<open>The unique keys of a frame: a key with a null is a finding, any other is observed.\<close>

fun observe_keys ::
    "validation_lib \<Rightarrow> setting \<Rightarrow> candidate_frame \<Rightarrow> (nat \<times> unique_rule) list \<Rightarrow> (working, finding list) action" where
  "observe_keys lib st fr [] = ret []"
| "observe_keys lib st fr ((i, rule) # rules) =
     (case unique_key_tag lib (uq_fields rule) fr of
        None \<Rightarrow> sbind (observe_keys lib st fr rules) (\<lambda>fs. ret (null_key_finding rule fr # fs))
      | Some tag \<Rightarrow> sbind (observe st i tag (fr_sequence fr) (fr_locator fr)) (\<lambda>_. observe_keys lib st fr rules))"

definition frame_unit ::
    "validation_lib \<Rightarrow> setting \<Rightarrow> source_field list \<Rightarrow> (quality_rule \<times> digest) list \<Rightarrow> candidate_frame
       \<Rightarrow> (working, unit_row) action" where
  "frame_unit lib st columns rules fr =
     (let parse_failed = (is_parse_or_type_error (fr_structural fr) \<or> fr_fields fr = None) in
      sbind (if parse_failed then ret []
             else sbind (observe_keys lib st fr (zip [0..<length (st_rules st)] (st_rules st))) (\<lambda>keys.
               ret (evaluate_field_rules (vl_canonical lib) columns rules fr @ keys))) (\<lambda>found.
      ret \<lparr>un_sequence = fr_sequence fr, un_locator = fr_locator fr, un_structural = fr_structural fr,
           un_rule_findings = found, un_parse_failed = parse_failed\<rparr>))"

definition validate_frame ::
    "validation_lib \<Rightarrow> setting \<Rightarrow> source_field list \<Rightarrow> (quality_rule \<times> digest) list \<Rightarrow> candidate_frame
       \<Rightarrow> (working, unit) action" where
  "validate_frame lib st columns rules fr =
     (let n = vl_frame_size lib fr in
      sbind (when_exceeding n (sbind (spill_tags st) (\<lambda>_. spill_units st))) (\<lambda>_.
      sbind (charge n) (\<lambda>_.
      sbind (finally_do (frame_unit lib st columns rules fr) (release_bytes n)) (add_unit st))))"

section \<open>Scopes are deleted, whatever happens\<close>

text \<open>\<open>delete_scope\<close> with its \<open>PortError\<close> ignored.\<close>

definition drop_scope :: "setting \<Rightarrow> token \<Rightarrow> working \<Rightarrow> working" where
  "drop_scope st i w = w\<lparr>wk_scratch := map_option (\<lambda>x. snd (delete_scope (st_attempt st) i x)) (wk_scratch w)\<rparr>"

definition close_tags :: "setting \<Rightarrow> working \<Rightarrow> working" where
  "close_tags st w = fold (drop_scope st) ((case wk_tag_scope w of None \<Rightarrow> [] | Some i \<Rightarrow> [i]) @ wk_work_scopes w) w"

definition close_units :: "setting \<Rightarrow> working \<Rightarrow> working" where
  "close_units st w = (case wk_unit_scope w of None \<Rightarrow> w | Some i \<Rightarrow> drop_scope st i w)"

definition close_both :: "setting \<Rightarrow> working \<Rightarrow> working" where
  "close_both st w = close_units st (close_tags st w)"

text \<open>\<open>except: close; raise\<close>.\<close>

definition on_error :: "('s, 'a) action \<Rightarrow> ('s \<Rightarrow> 's) \<Rightarrow> ('s, 'a) action" where
  "on_error m f s = (case m s of (Inl e, t) \<Rightarrow> (Inl e, f t) | (Inr x, t) \<Rightarrow> (Inr x, t))"

section \<open>The delivery\<close>

text \<open>What the arguments of one evaluation fix, with the digests of the contract.\<close>

record evaluation =
  ev_contract :: landing_product_contract
  ev_rules :: "(quality_rule \<times> digest) list"
  ev_claim_digest :: digest
  ev_delivery_id :: token
  ev_evaluation_id :: digest
  ev_batch_findings :: "finding list"
  ev_product_version :: semver
  ev_contract_digest :: digest
  ev_source_schema_digest :: digest
  ev_published_schema_digest :: digest
  ev_ruleset_digest :: digest

definition unit_disposition :: "validation_lib \<Rightarrow> evaluation \<Rightarrow> findings_at \<Rightarrow> unit_row \<Rightarrow> disposition" where
  "unit_disposition lib ev extras u =
     (let found = sort_findings (un_structural u @ un_rule_findings u @ extras (un_sequence u));
          has_error = (un_parse_failed u \<or> (\<exists>f \<in> set found. fi_severity f = Sev_error));
          status = (if has_error then Rejected else Accepted)
      in \<lparr>di_id = vl_disposition_id lib (ev_claim_digest ev) (un_locator u) (ev_ruleset_digest ev),
          di_raw_ref = rl_frame_sequence (un_locator u), di_locator = un_locator u,
          di_delivery_id = ev_delivery_id ev, di_claim_digest = ev_claim_digest ev,
          di_ruleset_digest = ev_ruleset_digest ev, di_product_version = ev_product_version ev,
          di_contract_digest = ev_contract_digest ev, di_source_schema_digest = ev_source_schema_digest ev,
          di_published_schema_digest = ev_published_schema_digest ev, di_status = status, di_findings = found,
          di_outcome_digest = vl_outcome_digest lib status found\<rparr>)"

text \<open>From the dispositions to the result: counts, decision, the verdict on a complete snapshot, digest.\<close>

definition summarise ::
    "validation_lib \<Rightarrow> evaluation \<Rightarrow> nat \<Rightarrow> disposition list \<Rightarrow> (validation_result \<times> snapshot_acceptance option) result" where
  "summarise lib ev framed ds =
     (let c = ev_contract ev; d = lc_delivery c;
          batch = sort_findings (ev_batch_findings ev @ row_count_findings (ev_rules ev) framed);
          batch_error = batch_blocks_publication batch;
          rejected = length (filter (\<lambda>x. di_status x = Rejected) ds);
          accepted = length (filter (\<lambda>x. di_status x = Accepted) ds);
          warned = length (filter (\<lambda>x. \<exists>f \<in> set (di_findings x). fi_severity f = Sev_warn) ds)
      in bind (decide_publication (qp_publication_mode (dp_quality d)) (qp_max_error_fraction (dp_quality d))
                 (dp_mode d) (dp_progress d) framed rejected accepted batch_error) (\<lambda>decided.
         let complete = (rejected = 0 \<and> decided = Decide_all);
             decision = (if dp_mode d = Complete_snapshot \<and> \<not> complete then Decide_reject else decided);
             result = \<lparr>vr_evaluation_id = ev_evaluation_id ev, vr_ruleset_digest = ev_ruleset_digest ev,
               vr_batch_findings = batch, vr_framed_count = framed, vr_accepted_count = accepted,
               vr_error_count = rejected, vr_warning_count = warned, vr_quarantined_count = rejected,
               vr_error_numerator = rejected, vr_error_denominator = framed, vr_decision = decision,
               vr_digest = []\<rparr>;
             digest = vl_result_digest lib result (map (\<lambda>x. (di_id x, di_outcome_digest x)) ds)
         in Inr (result\<lparr>vr_digest := digest\<rparr>,
              if dp_mode d = Complete_snapshot
              then Some \<lparr>sa_accepted_snapshot_complete = complete, sa_framed_count = framed, sa_accepted_count = accepted,
                sa_quarantined_count = rejected, sa_validation_result_digest = digest, sa_publication_decision = decision\<rparr>
              else None)))"

definition stream_frames ::
    "validation_lib \<Rightarrow> setting \<Rightarrow> evaluation \<Rightarrow> candidate_frame list \<Rightarrow> (working, disposition list) action" where
  "stream_frames lib st ev frames =
     sbind (on_error
       (sbind (sfor (validate_frame lib st (lb_physical_columns (lc_landing (ev_contract ev))) (ev_rules ev)) frames)
         (\<lambda>_. duplicate_findings st)) (close_both st)) (\<lambda>extras.
     finally_do (materialize_units st (unit_disposition lib ev extras)) (close_both st))"

definition fresh_working :: "nat \<Rightarrow> nat \<Rightarrow> scratch_row scratch option \<Rightarrow> working" where
  "fresh_working budget rules x =
     \<lparr>wk_meter = \<lparr>mt_budget = budget, mt_current = 0, mt_peak = 0\<rparr>, wk_scratch = x,
      wk_groups = replicate rules [], wk_tag_scope = None, wk_tag_next = 0, wk_tags_spilled = False,
      wk_work_scopes = [], wk_units = [], wk_unit_scope = None, wk_unit_next = 0, wk_units_spilled = False\<rparr>"

datatype (plugins only: code) failure = Contract_failure contract_error | Run_failure run_error

definition of_contract :: "contract_error + 'a \<Rightarrow> failure + 'a" where
  "of_contract r = (case r of Inl e \<Rightarrow> Inl (Contract_failure e) | Inr x \<Rightarrow> Inr x)"

record request_arguments =
  ra_claim_digest :: digest
  ra_delivery_id :: token
  ra_evaluation_id :: digest
  ra_memory_budget :: nat
  ra_attempt_id :: "digest option"
  ra_batch_findings :: "finding list"
  ra_product_version :: "semver option"
  ra_scratch_capacity :: "nat option"

definition prepare_evaluation ::
    "validation_lib \<Rightarrow> landing_product_contract \<Rightarrow> request_arguments \<Rightarrow> failure + evaluation" where
  "prepare_evaluation lib c a =
     (let can = vl_canonical lib; rules = qp_rules (dp_quality (lc_delivery c)) in
      bind (of_contract (compute_source_schema_digest can c)) (\<lambda>source.
      bind (of_contract (compute_published_schema_digest can c)) (\<lambda>published.
      bind (of_contract (compute_contract_digest can c)) (\<lambda>contract.
      bind (of_contract (compute_ruleset_digest can source published rules)) (\<lambda>ruleset.
      bind (of_contract (map_result (compute_rule_id can) rules)) (\<lambda>ids.
      Inr \<lparr>ev_contract = c, ev_rules = zip rules ids, ev_claim_digest = ra_claim_digest a,
           ev_delivery_id = ra_delivery_id a, ev_evaluation_id = ra_evaluation_id a,
           ev_batch_findings = ra_batch_findings a,
           ev_product_version = (case ra_product_version a of
             Some v \<Rightarrow> if v = [] then pf_product_version (lc_product c) else v
           | None \<Rightarrow> pf_product_version (lc_product c)),
           ev_contract_digest = contract, ev_source_schema_digest = source,
           ev_published_schema_digest = published, ev_ruleset_digest = ruleset\<rparr>))))))"

definition scratch_capacity :: "request_arguments \<Rightarrow> nat" where
  "scratch_capacity a = (case ra_scratch_capacity a of
     Some n \<Rightarrow> if n = 0 then max (ra_memory_budget a * 64) 1048576 else n
   | None \<Rightarrow> max (ra_memory_budget a * 64) 1048576)"

definition owner :: "request_arguments \<Rightarrow> digest" where
  "owner a = (case ra_attempt_id a of
     Some i \<Rightarrow> if i = [] then ra_evaluation_id a else i
   | None \<Rightarrow> ra_evaluation_id a)"

definition setting_of :: "validation_lib \<Rightarrow> evaluation \<Rightarrow> request_arguments \<Rightarrow> setting" where
  "setting_of lib ev a = \<lparr>st_lib = vl_scratch lib, st_attempt = owner a, st_capacity = scratch_capacity a,
     st_rules = unique_rules (ev_rules ev)\<rparr>"

text \<open>The outcome, and the scratch store as it is left. \<open>memory_budget_bytes\<close> below one is refused.\<close>

definition validate_frames ::
    "validation_lib \<Rightarrow> landing_product_contract \<Rightarrow> candidate_frame list \<Rightarrow> request_arguments
       \<Rightarrow> scratch_row scratch option \<Rightarrow> (failure + validation_outcome) \<times> scratch_row scratch option" where
  "validate_frames lib c frames a x =
     (if ra_memory_budget a < 1 then (Inl (Run_failure (Raised (Port_error Capacity_exceeded))), x)
      else case prepare_evaluation lib c a of
        Inl e \<Rightarrow> (Inl e, x)
      | Inr ev \<Rightarrow>
          let st = setting_of lib ev a in
          (case stream_frames lib st ev frames (fresh_working (ra_memory_budget a) (length (st_rules st)) x) of
             (Inl e, w) \<Rightarrow> (Inl (Run_failure e), wk_scratch w)
           | (Inr ds, w) \<Rightarrow>
               (case summarise lib ev (length frames) ds of
                  Inl e \<Rightarrow> Inl (Run_failure (Raised e))
                | Inr (result, snapshot) \<Rightarrow> Inr \<lparr>vo_validation = result, vo_dispositions = ds, vo_snapshot = snapshot,
                    vo_peak_memory = mt_peak (wk_meter w), vo_spilled_uniqueness = wk_tags_spilled w\<rparr>,
                wk_scratch w)))"

section \<open>Validating again\<close>

definition finding_identities :: "disposition list \<Rightarrow> identity list" where
  "finding_identities ds = sort (concat (map (\<lambda>d. map finding_identity (di_findings d)) ds))"

datatype (plugins only: code) remediation_status = Unchanged_finding | Revalidated

definition current_ruleset :: "canonical_lib \<Rightarrow> landing_product_contract \<Rightarrow> contract_error + digest" where
  "current_ruleset can c =
     bind (compute_source_schema_digest can c) (\<lambda>source.
     bind (compute_published_schema_digest can c) (\<lambda>published.
     compute_ruleset_digest can source published (qp_rules (dp_quality (lc_delivery c)))))"

definition revalidate_frames ::
    "validation_lib \<Rightarrow> landing_product_contract \<Rightarrow> candidate_frame list \<Rightarrow> digest \<Rightarrow> disposition list
       \<Rightarrow> request_arguments \<Rightarrow> scratch_row scratch option
       \<Rightarrow> (failure + remediation_status \<times> validation_outcome) \<times> scratch_row scratch option" where
  "revalidate_frames lib c frames prior_ruleset prior a x =
     (case current_ruleset (vl_canonical lib) c of
        Inl e \<Rightarrow> (Inl (Contract_failure e), x)
      | Inr ruleset \<Rightarrow>
          (case validate_frames lib c frames (a\<lparr>ra_product_version := None, ra_scratch_capacity := None\<rparr>) x of
             (Inl e, y) \<Rightarrow> (Inl e, y)
           | (Inr out, y) \<Rightarrow>
               (if ruleset = prior_ruleset
                then if finding_identities (vo_dispositions out) \<noteq> finding_identities prior
                  then Inl (Run_failure (Raised (Port_error Decision_conflict)))
                  else Inr (Unchanged_finding, out)
                else Inr (Revalidated, out), y)))"

end
