(* ===== verification/Frame_Correct.thy ===== *)
theory Frame_Correct
  imports Frame_Validation
begin

text \<open>
  The working state of a validation between two frames stands for the units framed and the tags
  observed so far, whatever has been spilled; so the streamed evaluation is the reference evaluation of
  its frames, one after the other.
\<close>

section \<open>The units\<close>

definition unit_state :: "setting \<Rightarrow> working \<Rightarrow> unit_row list \<Rightarrow> bool" where
  "unit_state st w us \<longleftrightarrow> small st w (map Unit_row us)
     \<and> (case wk_unit_scope w of
          None \<Rightarrow> \<not> wk_units_spilled w \<and> wk_unit_next w = 0 \<and> map fst (wk_units w) = us
        | Some i \<Rightarrow> wk_units_spilled w \<and> (\<exists>old. holds st w i False (map Unit_row old) \<and> wk_unit_next w = length old
            \<and> old @ map fst (wk_units w) = us))"

definition units_step :: "setting \<Rightarrow> working \<Rightarrow> working \<Rightarrow> bool" where
  "units_step st w t \<longleftrightarrow> scope_step st wk_unit_scope w t \<and> wk_groups t = wk_groups w \<and> wk_tag_scope t = wk_tag_scope w
     \<and> wk_tag_next t = wk_tag_next w \<and> wk_tags_spilled t = wk_tags_spilled w \<and> wk_work_scopes t = wk_work_scopes w
     \<and> mt_budget (wk_meter t) = mt_budget (wk_meter w)"

lemma units_step_refl: "units_step st w w"
  by (simp add: units_step_def scope_step_refl)

lemma units_step_trans: "units_step st w t \<Longrightarrow> units_step st t u \<Longrightarrow> units_step st w u"
  unfolding units_step_def using scope_step_trans by metis

lemma yields_spill_units:
  assumes "unit_state st w us" and "fits E st (map Unit_row us)"
    and "ample E st (if wk_unit_scope w = None then Suc k else k) w"
  shows "yields E (spill_units st) w (\<lambda>_ t. unit_state st t us \<and> units_step st w t \<and> ample E st k t
    \<and> wk_units t = [] \<and> mt_current (wk_meter t) \<le> mt_current (wk_meter w))"
proof (cases "wk_units w = []")
  case True
  have "ample E st k w" using assms(3) by (auto intro: ample_antimono split: if_splits)
  with True assms(1) show ?thesis by (simp add: spill_units_def yields_def ret_def units_step_refl)
next
  case False
  let ?us = "map fst (wk_units w)"
  let ?Q = "\<lambda>_ t. unit_state st t us \<and> units_step st w t \<and> ample E st k t
    \<and> wk_units t = [] \<and> mt_current (wk_meter t) \<le> mt_current (wk_meter w)"
  let ?open = "case wk_unit_scope w of
      Some i \<Rightarrow> (if wk_scratch w = None then throw Capacity_exceeded else ret i)
    | None \<Rightarrow> sbind (new_scope st) (\<lambda>i. sbind (modify (\<lambda>w. w\<lparr>wk_unit_scope := Some i\<rparr>)) (\<lambda>_. ret i))"
  let ?put = "\<lambda>i. sfor (\<lambda>x w. sbind (write_row st i (wk_unit_next w) (Unit_row (fst x)))
      (\<lambda>_. modify (\<lambda>w. w\<lparr>wk_unit_next := wk_unit_next w + 1\<rparr>)) w) (wk_units w)"
  let ?finish = "\<lambda>_. sbind (modify (\<lambda>w. w\<lparr>wk_units := []\<rparr>)) (\<lambda>_.
      sbind (release (sum_list (map snd (wk_units w)))) (\<lambda>_. modify (\<lambda>w. w\<lparr>wk_units_spilled := True\<rparr>)))"
  obtain old where old: "case wk_unit_scope w of None \<Rightarrow> map Unit_row old = [] | Some i \<Rightarrow> holds st w i False (map Unit_row old)"
    "wk_unit_next w = length old" "old @ ?us = us"
    using assms(1) by (cases "wk_unit_scope w") (auto simp: unit_state_def)
  have enc: "map (\<lambda>x. Unit_row (fst x)) (wk_units w) = map Unit_row ?us" by simp
  have fit: "fits E st (map Unit_row old @ map (\<lambda>x. Unit_row (fst x)) (wk_units w))"
    unfolding enc using assms(2) by (simp flip: old(3))
  from unit_buffer.yields_open [OF old(1) assms(3)]
  have "yields E (sbind ?open (\<lambda>i. sbind (?put i) ?finish)) w ?Q"
  proof (rule yields_sbind)
    fix i t
    assume t: "holds st t i False (map Unit_row old) \<and> only st i (w\<lparr>wk_unit_scope := Some i\<rparr>) t \<and> ample E st k t
      \<and> (wk_unit_scope w = Some i \<or> wk_unit_scope w = None \<and> scope_at st w i = None)"
    then have "wk_unit_next t = wk_unit_next (w\<lparr>wk_unit_scope := Some i\<rparr>)"
      using unit_buffer.nxt_scratch by (metis only_def)
    then have n: "wk_unit_next t = length (map Unit_row old)" using old(2) by simp
    show "yields E (sbind (?put i) ?finish) t ?Q"
    proof (rule yields_sbind [OF unit_buffer.yields_append [OF _ n fit, where i = i and k = k]])
      fix r u
      assume u: "holds st u i False (map Unit_row old @ map (\<lambda>x. Unit_row (fst x)) (wk_units w))
        \<and> wk_unit_next u = length (map Unit_row old @ map (\<lambda>x. Unit_row (fst x)) (wk_units w))
        \<and> only st i (((\<lambda>w. w\<lparr>wk_unit_next := wk_unit_next w + 1\<rparr>) ^^ length (wk_units w)) t) u \<and> ample E st k u"
      let ?m = "(wk_meter u)\<lparr>mt_current := mt_current (wk_meter u) - sum_list (map snd (wk_units w))\<rparr>"
      let ?u = "u\<lparr>wk_meter := ?m, wk_units := [], wk_units_spilled := True\<rparr>"
      have only_t: "only st i (w\<lparr>wk_unit_scope := Some i\<rparr>) t" using t by blast
      have only_u: "only st i (t\<lparr>wk_unit_next := wk_unit_next t + length (wk_units w)\<rparr>) u" using u unfolding unit_incs by blast
      have fields: "wk_groups ?u = wk_groups w" "wk_unit_scope ?u = Some i" "wk_meter u = wk_meter w"
        "wk_tag_scope ?u = wk_tag_scope w" "wk_tag_next ?u = wk_tag_next w"
        "wk_tags_spilled ?u = wk_tags_spilled w" "wk_work_scopes ?u = wk_work_scopes w"
        using only_t only_u by (cases w; cases t; cases u; simp add: only_def)+
      have "scope_at st ?u j = scope_at st w j" if "j \<noteq> i" for j
      proof -
        have "scope_at st ?u j = scope_at st u j" by (simp add: scope_at_cong [of ?u u])
        also have "\<dots> = scope_at st (t\<lparr>wk_unit_next := wk_unit_next t + length (wk_units w)\<rparr>) j"
          using only_u that by (simp add: only_def)
        also have "\<dots> = scope_at st t j"
          by (simp add: scope_at_cong [of "t\<lparr>wk_unit_next := wk_unit_next t + length (wk_units w)\<rparr>" t])
        also have "\<dots> = scope_at st (w\<lparr>wk_unit_scope := Some i\<rparr>) j" using only_t that by (simp add: only_def)
        also have "\<dots> = scope_at st w j" by (simp add: scope_at_cong [of "w\<lparr>wk_unit_scope := Some i\<rparr>" w])
        finally show ?thesis .
      qed
      then have "scope_step st wk_unit_scope w ?u" using t fields(2) by (intro scope_step_own [of _ _ i]) auto
      then have step: "units_step st w ?u" unfolding units_step_def using fields by simp
      have "holds st ?u i False (map Unit_row us)" "ample E st k ?u"
        using u holds_cong [of ?u u st] ample_cong [of ?u u] enc by (simp_all flip: old(3))
      moreover have "wk_unit_next ?u = length us" using u by (simp flip: old(3))
      moreover have "small st ?u (map Unit_row us)"
        using assms(1) small_budget [of ?u w st] fields(3) by (simp add: unit_state_def)
      ultimately have Q: "?Q () ?u" using step fields by (simp add: unit_state_def)
      have finish: "?finish r u = (Inr (), ?u)"
        by (simp add: sbind_def modify_def release_def)
      show "yields E (?finish r) u ?Q" 
        unfolding yields_def finish using Q by (simp only: prod.case sum.case)
    qed (use t in simp_all)
  qed
  moreover have "spill_units st w = sbind ?open (\<lambda>i. sbind (?put i) ?finish) w"
    using False by (simp add: spill_units_def Let_def case_prod_beta')
  ultimately show ?thesis by (simp add: yields_def)
qed

section \<open>Both buffers\<close>

definition frame_state :: "setting \<Rightarrow> working \<Rightarrow> unique_row list \<Rightarrow> unit_row list \<Rightarrow> bool" where
  "frame_state st w rows us \<longleftrightarrow> tag_state st w rows \<and> unit_state st w us
     \<and> (\<forall>i. wk_tag_scope w = Some i \<longrightarrow> wk_unit_scope w \<noteq> Some i)"

lemma unit_scope_present: "unit_state st w us \<Longrightarrow> wk_unit_scope w = Some i \<Longrightarrow> scope_at st w i \<noteq> None"
  by (auto simp: unit_state_def holds_def)

lemma tag_scope_present: "tag_state st w rows \<Longrightarrow> wk_tag_scope w = Some i \<Longrightarrow> scope_at st w i \<noteq> None"
  by (auto simp: tag_state_def holds_def)

lemma frame_state_tags:
  assumes "frame_state st w rows us" and "tag_state st t rows'" and "tags_step st w t"
  shows "frame_state st t rows' us"
proof -
  from assms(3) have fields: "wk_units t = wk_units w" "wk_unit_scope t = wk_unit_scope w"
    "wk_unit_next t = wk_unit_next w" "wk_units_spilled t = wk_units_spilled w"
    "mt_budget (wk_meter t) = mt_budget (wk_meter w)" and step: "scope_step st wk_tag_scope w t"
    by (simp_all add: tags_step_def)
  have units: "unit_state st w us" using assms(1) by (simp add: frame_state_def)
  have same: "scope_at st t i = scope_at st w i" if "wk_unit_scope w = Some i" for i
    using step unit_scope_present [OF units that] assms(1) that by (auto simp: scope_step_def frame_state_def)
  have "unit_state st t us"
    using units fields same small_budget [OF fields(5)] by (auto simp: unit_state_def holds_def split: option.splits)
  moreover have "wk_unit_scope t \<noteq> Some i" if "wk_tag_scope t = Some i" for i
    using that step fields(2) assms(1) unit_scope_present [OF units, of i] by (auto simp: scope_step_def frame_state_def)
  ultimately show ?thesis using assms(2) by (simp add: frame_state_def)
qed

lemma frame_state_units:
  assumes "frame_state st w rows us" and "unit_state st t us'" and "units_step st w t"
  shows "frame_state st t rows us'"
proof -
  from assms(3) have fields: "wk_groups t = wk_groups w" "wk_tag_scope t = wk_tag_scope w"
    "wk_tag_next t = wk_tag_next w" "wk_tags_spilled t = wk_tags_spilled w"
    "mt_budget (wk_meter t) = mt_budget (wk_meter w)" and step: "scope_step st wk_unit_scope w t"
    by (simp_all add: units_step_def)
  have tags: "tag_state st w rows" using assms(1) by (simp add: frame_state_def)
  have same: "scope_at st t i = scope_at st w i" if "wk_tag_scope w = Some i" for i
    using step tag_scope_present [OF tags that] assms(1) that by (auto simp: scope_step_def frame_state_def)
  have "tag_state st t rows"
    using tags fields same small_budget [OF fields(5)] by (auto simp: tag_state_def holds_def split: option.splits)
  moreover have "wk_unit_scope t \<noteq> Some i" if "wk_tag_scope t = Some i" for i
    using that step fields(2) assms(1) tag_scope_present [OF tags, of i] by (auto simp: scope_step_def frame_state_def)
  ultimately show ?thesis using assms(2) by (simp add: frame_state_def)
qed

section \<open>The reference evaluation of a frame\<close>

definition frame_failed :: "candidate_frame \<Rightarrow> bool" where
  "frame_failed fr \<longleftrightarrow> is_parse_or_type_error (fr_structural fr) \<or> fr_fields fr = None"

definition key_rows :: "validation_lib \<Rightarrow> candidate_frame \<Rightarrow> (nat \<times> unique_rule) list \<Rightarrow> unique_row list" where
  "key_rows lib fr rules = concat (map (\<lambda>(i, rule). case unique_key_tag lib (uq_fields rule) fr of
      None \<Rightarrow> []
    | Some tag \<Rightarrow> [\<lparr>ur_rule = i, ur_tag = tag, ur_sequence = fr_sequence fr, ur_locator = fr_locator fr\<rparr>]) rules)"

definition null_key_findings :: "validation_lib \<Rightarrow> candidate_frame \<Rightarrow> (nat \<times> unique_rule) list \<Rightarrow> finding list" where
  "null_key_findings lib fr rules = concat (map (\<lambda>(i, rule).
     case unique_key_tag lib (uq_fields rule) fr of None \<Rightarrow> [null_key_finding rule fr] | Some tag \<Rightarrow> []) rules)"

definition numbered_rules :: "setting \<Rightarrow> (nat \<times> unique_rule) list" where
  "numbered_rules st = zip [0..<length (st_rules st)] (st_rules st)"

definition frame_rows :: "validation_lib \<Rightarrow> setting \<Rightarrow> candidate_frame \<Rightarrow> unique_row list" where
  "frame_rows lib st fr = (if frame_failed fr then [] else key_rows lib fr (numbered_rules st))"

definition reference_unit ::
    "validation_lib \<Rightarrow> setting \<Rightarrow> source_field list \<Rightarrow> (quality_rule \<times> digest) list \<Rightarrow> candidate_frame \<Rightarrow> unit_row" where
  "reference_unit lib st columns rules fr =
     \<lparr>un_sequence = fr_sequence fr, un_locator = fr_locator fr, un_structural = fr_structural fr,
      un_rule_findings = (if frame_failed fr then []
        else evaluate_field_rules (vl_canonical lib) columns rules fr @ null_key_findings lib fr (numbered_rules st)),
      un_parse_failed = frame_failed fr\<rparr>"

section \<open>One frame\<close>

text \<open>Either a refusal ends the validation with its error, or the bytes fit the budget.\<close>

definition enough :: "(run_error \<Rightarrow> bool) \<Rightarrow> nat \<Rightarrow> working \<Rightarrow> bool" where
  "enough E n w \<longleftrightarrow> (\<forall>e. E (Raised e)) \<or> mt_current (wk_meter w) + n \<le> mt_budget (wk_meter w)"

lemma enough_exceed: "enough E n w \<Longrightarrow> m \<le> n \<Longrightarrow> (\<forall>e. E (Raised e)) \<or> \<not> would_exceed m w"
  by (auto simp: enough_def would_exceed_def)

lemma enough_step:
  "enough E (m + n) w \<Longrightarrow> mt_budget (wk_meter t) = mt_budget (wk_meter w)
    \<Longrightarrow> mt_current (wk_meter t) \<le> mt_current (wk_meter w) + m \<Longrightarrow> enough E n t"
  by (auto simp: enough_def)

text \<open>A step that adds rows and units and at most so many bytes.\<close>

definition adds ::
    "(run_error \<Rightarrow> bool) \<Rightarrow> setting \<Rightarrow> nat \<Rightarrow> working \<Rightarrow> unique_row list \<Rightarrow> unit_row list \<Rightarrow> working \<Rightarrow> bool" where
  "adds E st n w rows us t \<longleftrightarrow> frame_state st t rows us \<and> mt_budget (wk_meter t) = mt_budget (wk_meter w)
     \<and> mt_current (wk_meter t) \<le> mt_current (wk_meter w) + n
     \<and> ((\<forall>e. E (Raised e)) \<or> wk_tags_spilled t = wk_tags_spilled w \<and> wk_units_spilled t = wk_units_spilled w)"

lemma adds_trans: "adds E st m w rows us t \<Longrightarrow> adds E st n t rows' us' u \<Longrightarrow> adds E st (m + n) w rows' us' u"
  by (auto simp: adds_def)

lemma yields_observe_key:
  assumes "frame_state st w rows us" and "i < length (st_rules st)"
    and "row = \<lparr>ur_rule = i, ur_tag = tag, ur_sequence = s, ur_locator = loc\<rparr>"
    and "enough E (xl_size (st_lib st) (Tag_row row)) w"
  shows "yields E (observe st i tag s loc) w
    (\<lambda>_ t. adds E st (xl_size (st_lib st) (Tag_row row)) w (rows @ [row]) us t)"
proof (rule yields_weaken [OF yields_observe [OF _ assms(2,3)]])
  show "tag_state st w rows" using assms(1) by (simp add: frame_state_def)
  show "(\<forall>e. E (Raised e)) \<or> \<not> would_exceed (xl_size (st_lib st) (Tag_row row)) w"
    by (rule enough_exceed [OF assms(4)]) simp
  fix x t
  assume "tag_state st t (rows @ [row]) \<and> tags_step st w t
    \<and> mt_current (wk_meter t) \<le> mt_current (wk_meter w) + xl_size (st_lib st) (Tag_row row)
    \<and> ((\<forall>e. E (Raised e)) \<or> wk_tags_spilled t = wk_tags_spilled w)"
  then show "adds E st (xl_size (st_lib st) (Tag_row row)) w (rows @ [row]) us t"
    using frame_state_tags [OF assms(1)] by (auto simp: adds_def tags_step_def)
qed

lemma adds_refl: "frame_state st w rows us \<Longrightarrow> adds E st 0 w rows us w"
  by (simp add: adds_def)

lemma yields_observe_keys:
  assumes "frame_state st w rows us" and "\<forall>(i, rule) \<in> set rules. i < length (st_rules st)"
    and "enough E (bytes_of st (map Tag_row (key_rows lib fr rules))) w"
  shows "yields E (observe_keys lib st fr rules) w (\<lambda>fs t. fs = null_key_findings lib fr rules
    \<and> adds E st (bytes_of st (map Tag_row (key_rows lib fr rules))) w (rows @ key_rows lib fr rules) us t)"
  using assms
proof (induction rules arbitrary: w rows)
  case Nil
  then show ?case by (simp add: null_key_findings_def key_rows_def adds_refl)
next
  case (Cons x rules)
  obtain i rule where x: "x = (i, rule)" by (cases x)
  show ?case
  proof (cases "unique_key_tag lib (uq_fields rule) fr")
    case None
    then have eq: "key_rows lib fr (x # rules) = key_rows lib fr rules"
      "null_key_findings lib fr (x # rules) = null_key_finding rule fr # null_key_findings lib fr rules"
      by (simp_all add: x key_rows_def null_key_findings_def)
    have "yields E (observe_keys lib st fr rules) w (\<lambda>fs t. fs = null_key_findings lib fr rules
        \<and> adds E st (bytes_of st (map Tag_row (key_rows lib fr rules))) w (rows @ key_rows lib fr rules) us t)"
      by (rule Cons.IH) (use Cons.prems eq in simp_all)
    then have "yields E (sbind (observe_keys lib st fr rules) (\<lambda>fs. ret (null_key_finding rule fr # fs))) w
      (\<lambda>fs t. fs = null_key_findings lib fr (x # rules)
        \<and> adds E st (bytes_of st (map Tag_row (key_rows lib fr (x # rules)))) w (rows @ key_rows lib fr (x # rules)) us t)"
      by (rule yields_sbind) (simp add: eq)
    then show ?thesis by (simp add: x None)
  next
    case (Some tag)
    let ?row = "\<lparr>ur_rule = i, ur_tag = tag, ur_sequence = fr_sequence fr, ur_locator = fr_locator fr\<rparr>"
    from Some have eq: "key_rows lib fr (x # rules) = ?row # key_rows lib fr rules"
      "null_key_findings lib fr (x # rules) = null_key_findings lib fr rules"
      by (simp_all add: x key_rows_def null_key_findings_def)
    let ?n = "xl_size (st_lib st) (Tag_row ?row)" and ?m = "bytes_of st (map Tag_row (key_rows lib fr rules))"
    have more: "enough E (?n + ?m) w" using Cons.prems(3) by (simp add: eq)
    then have "enough E ?n w" by (auto simp: enough_def)
    moreover have "i < length (st_rules st)" using Cons.prems(2) by (simp add: x)
    ultimately have "yields E (observe st i tag (fr_sequence fr) (fr_locator fr)) w
        (\<lambda>_ t. adds E st ?n w (rows @ [?row]) us t)"
      by (intro yields_observe_key [OF Cons.prems(1)]) simp_all
    then have "yields E (sbind (observe st i tag (fr_sequence fr) (fr_locator fr)) (\<lambda>_. observe_keys lib st fr rules)) w
      (\<lambda>fs t. fs = null_key_findings lib fr rules \<and> adds E st (?n + ?m) w (rows @ ?row # key_rows lib fr rules) us t)"
    proof (rule yields_sbind)
      fix u t
      assume t: "adds E st ?n w (rows @ [?row]) us t"
      then have "enough E ?m t" using enough_step [OF more, of t] by (simp add: adds_def)
      with t Cons.prems(2) have "yields E (observe_keys lib st fr rules) t (\<lambda>fs v. fs = null_key_findings lib fr rules
          \<and> adds E st ?m t ((rows @ [?row]) @ key_rows lib fr rules) us v)"
        by (intro Cons.IH) (simp_all add: adds_def)
      then show "yields E (observe_keys lib st fr rules) t (\<lambda>fs v. fs = null_key_findings lib fr rules
          \<and> adds E st (?n + ?m) w (rows @ ?row # key_rows lib fr rules) us v)"
        by (rule yields_weaken) (use t adds_trans in auto)
    qed
    then show ?thesis by (simp add: x Some eq [unfolded x])
  qed
qed

lemma yields_frame_unit:
  assumes "frame_state st w rows us" and "enough E (bytes_of st (map Tag_row (frame_rows lib st fr))) w"
  shows "yields E (frame_unit lib st columns rules fr) w (\<lambda>u t. u = reference_unit lib st columns rules fr
    \<and> adds E st (bytes_of st (map Tag_row (frame_rows lib st fr))) w (rows @ frame_rows lib st fr) us t)"
proof (cases "frame_failed fr")
  case True
  then show ?thesis
    using adds_refl [OF assms(1)]
    by (auto simp: frame_unit_def Let_def frame_rows_def reference_unit_def frame_failed_def)
next
  case False
  then have rows: "frame_rows lib st fr = key_rows lib fr (numbered_rules st)" by (simp add: frame_rows_def)
  have "\<forall>(i, rule) \<in> set (numbered_rules st). i < length (st_rules st)"
    by (auto simp: numbered_rules_def set_zip)
  from yields_observe_keys [OF assms(1) this] assms(2) rows
  have keys: "yields E (observe_keys lib st fr (numbered_rules st)) w
      (\<lambda>fs t. fs = null_key_findings lib fr (numbered_rules st)
        \<and> adds E st (bytes_of st (map Tag_row (frame_rows lib st fr))) w (rows @ frame_rows lib st fr) us t)" by simp
  have "yields E (sbind (sbind (observe_keys lib st fr (numbered_rules st)) (\<lambda>keys.
               ret (evaluate_field_rules (vl_canonical lib) columns rules fr @ keys))) (\<lambda>found.
      ret \<lparr>un_sequence = fr_sequence fr, un_locator = fr_locator fr, un_structural = fr_structural fr,
           un_rule_findings = found, un_parse_failed = False\<rparr>)) w (\<lambda>u t. u = reference_unit lib st columns rules fr
    \<and> adds E st (bytes_of st (map Tag_row (frame_rows lib st fr))) w (rows @ frame_rows lib st fr) us t)"
    unfolding sbind_assoc sbind_ret
    by (rule yields_sbind [OF keys]) (use False in \<open>simp add: reference_unit_def\<close>)
  moreover have "(is_parse_or_type_error (fr_structural fr) \<or> fr_fields fr = None) = False"
    using False by (simp add: frame_failed_def)
  ultimately show ?thesis unfolding frame_unit_def Let_def numbered_rules_def by (simp only: if_False)
qed

lemma yields_room_for_unit:
  assumes "frame_state st w rows us" and "(\<forall>e. E (Raised e)) \<or> \<not> would_exceed n w"
  shows "yields E (when_exceeding n (spill_units st)) w (\<lambda>_ t. adds E st 0 w rows us t
    \<and> ((\<forall>e. E (Raised e)) \<or> \<not> would_exceed n t))"
proof (cases "would_exceed n w")
  case False
  then show ?thesis using assms by (simp add: when_exceeding_def yields_def ret_def adds_refl)
next
  case True
  with assms(2) have lenient: "\<forall>e. E (Raised e)" by simp
  have "unit_state st w us" using assms(1) by (simp add: frame_state_def)
  from yields_spill_units [OF this lenient_fits [OF lenient] lenient_ample [OF lenient], of 0]
  have "yields E (spill_units st) w (\<lambda>_ t. adds E st 0 w rows us t \<and> ((\<forall>e. E (Raised e)) \<or> \<not> would_exceed n t))"
  proof (rule yields_weaken)
    fix x t
    assume "unit_state st t us \<and> units_step st w t \<and> ample E st 0 t \<and> wk_units t = []
      \<and> mt_current (wk_meter t) \<le> mt_current (wk_meter w)"
    then show "adds E st 0 w rows us t \<and> ((\<forall>e. E (Raised e)) \<or> \<not> would_exceed n t)"
      using lenient frame_state_units [OF assms(1)] by (auto simp: adds_def units_step_def)
  qed
  with True show ?thesis by (simp add: when_exceeding_def yields_def)
qed

lemma yields_add_unit:
  assumes "frame_state st w rows us" and "enough E (xl_size (st_lib st) (Unit_row u)) w"
  shows "yields E (add_unit st u) w (\<lambda>_ t. adds E st (xl_size (st_lib st) (Unit_row u)) w rows (us @ [u]) t)"
proof -
  let ?n = "xl_size (st_lib st) (Unit_row u)"
  from enough_exceed [OF assms(2) order_refl]
  show ?thesis
    unfolding add_unit_def Let_def
  proof (rule yields_sbind [OF yields_room_for_unit [OF assms(1)]])
    fix x t
    assume t: "adds E st 0 w rows us t \<and> ((\<forall>e. E (Raised e)) \<or> \<not> would_exceed ?n t)"
    then have "(\<forall>e. E (Raised e)) \<or> \<not> would_exceed ?n t" by blast
    from yields_charge [OF this]
    show "yields E (sbind (charge ?n) (\<lambda>_. modify (\<lambda>w. w\<lparr>wk_units := wk_units w @ [(u, ?n)]\<rparr>))) t
      (\<lambda>_ t. adds E st ?n w rows (us @ [u]) t)"
    proof (rule yields_sbind)
      fix v y
      assume y: "\<not> would_exceed ?n t \<and> y = t\<lparr>wk_meter := (wk_meter t)\<lparr>mt_current := mt_current (wk_meter t) + ?n,
        mt_peak := max (mt_peak (wk_meter t)) (mt_current (wk_meter t) + ?n)\<rparr>\<rparr>"
      let ?z = "y\<lparr>wk_units := wk_units y @ [(u, ?n)]\<rparr>"
      have scratch: "wk_scratch ?z = wk_scratch t" and budget: "mt_budget (wk_meter ?z) = mt_budget (wk_meter t)"
        using y by simp_all
      have state: "frame_state st t rows us" using t by (simp add: adds_def)
      have "?n \<le> page_budget t" using y by (auto simp: would_exceed_def page_budget_def)
      then have "small st t (map Unit_row (us @ [u]))"
        using state by (auto simp: frame_state_def unit_state_def small_def)
      then have "small st ?z (map Unit_row (us @ [u]))" using small_budget [OF budget] by metis
      moreover have "holds st ?z = holds st t" by (rule holds_cong [OF scratch])
      moreover have "wk_unit_scope ?z = wk_unit_scope t" "wk_units_spilled ?z = wk_units_spilled t"
        "wk_unit_next ?z = wk_unit_next t" "map fst (wk_units ?z) = map fst (wk_units t) @ [u]" using y by simp_all
      ultimately have "unit_state st ?z (us @ [u])"
        using state by (auto simp: frame_state_def unit_state_def split: option.splits)
      moreover have "units_step st t ?z"
        using y scope_at_cong [OF scratch, of st] by (simp add: units_step_def scope_step_def)
      ultimately have "frame_state st ?z rows (us @ [u])" using frame_state_units [OF state] by blast
      moreover have "mt_current (wk_meter ?z) \<le> mt_current (wk_meter w) + ?n"
        "mt_budget (wk_meter ?z) = mt_budget (wk_meter w)" using t y by (simp_all add: adds_def)
      moreover have "(\<forall>e. E (Raised e)) \<or> wk_tags_spilled ?z = wk_tags_spilled w \<and> wk_units_spilled ?z = wk_units_spilled w"
        using t y by (auto simp: adds_def)
      ultimately show "yields E (modify (\<lambda>w. w\<lparr>wk_units := wk_units w @ [(u, ?n)]\<rparr>)) y
        (\<lambda>_ t. adds E st ?n w rows (us @ [u]) t)" by (simp add: adds_def)
    qed
  qed
qed

text \<open>What one frame costs, when nothing is spilled: itself, its tags and its unit.\<close>

definition frame_bytes ::
    "validation_lib \<Rightarrow> setting \<Rightarrow> source_field list \<Rightarrow> (quality_rule \<times> digest) list \<Rightarrow> candidate_frame \<Rightarrow> nat" where
  "frame_bytes lib st columns rules fr = vl_frame_size lib fr
     + (bytes_of st (map Tag_row (frame_rows lib st fr)) + xl_size (st_lib st) (Unit_row (reference_unit lib st columns rules fr)))"

lemma frame_state_meter:
  assumes "mt_budget m = mt_budget (wk_meter w)"
  shows "frame_state st (w\<lparr>wk_meter := m\<rparr>) rows us \<longleftrightarrow> frame_state st w rows us"
proof -
  have "holds st (w\<lparr>wk_meter := m\<rparr>) = holds st w" by (rule holds_cong) simp
  moreover have "small st (w\<lparr>wk_meter := m\<rparr>) = small st w" by (rule small_budget) (simp add: assms)
  ultimately show ?thesis by (simp add: frame_state_def tag_state_def unit_state_def cong: option.case_cong)
qed

lemma frame_state_released: "frame_state st (release_bytes n w) rows us \<longleftrightarrow> frame_state st w rows us"
  unfolding release_bytes_def by (rule frame_state_meter) simp

lemma yields_finally: "yields E m s (\<lambda>x t. Q x (f t)) \<Longrightarrow> yields E (finally_do m f) s Q"
  by (auto simp: yields_def finally_do_def split: prod.splits sum.splits)

lemma yields_room_for_frame:
  assumes "frame_state st w rows us" and "(\<forall>e. E (Raised e)) \<or> \<not> would_exceed n w"
  shows "yields E (when_exceeding n (sbind (spill_tags st) (\<lambda>_. spill_units st))) w (\<lambda>_ t. adds E st 0 w rows us t
    \<and> ((\<forall>e. E (Raised e)) \<or> \<not> would_exceed n t))"
proof (cases "would_exceed n w")
  case False
  then show ?thesis using assms by (simp add: when_exceeding_def yields_def ret_def adds_refl)
next
  case True
  with assms(2) have lenient: "\<forall>e. E (Raised e)" by simp
  have "tag_state st w rows" using assms(1) by (simp add: frame_state_def)
  from yields_spill_tags [OF this lenient_fits [OF lenient] lenient_ample [OF lenient], of 0]
  have "yields E (sbind (spill_tags st) (\<lambda>_. spill_units st)) w (\<lambda>_ t. adds E st 0 w rows us t
    \<and> ((\<forall>e. E (Raised e)) \<or> \<not> would_exceed n t))"
  proof (rule yields_sbind)
    fix x t
    assume "tag_state st t rows \<and> tags_step st w t \<and> ample E st 0 t
      \<and> tag_rows (wk_groups t) = [] \<and> mt_current (wk_meter t) \<le> mt_current (wk_meter w)"
    then have t: "adds E st 0 w rows us t"
      using frame_state_tags [OF assms(1)] lenient by (auto simp: adds_def tags_step_def)
    then have "unit_state st t us" by (simp add: adds_def frame_state_def)
    from yields_spill_units [OF this lenient_fits [OF lenient] lenient_ample [OF lenient], of 0]
    show "yields E (spill_units st) t (\<lambda>_ t. adds E st 0 w rows us t
      \<and> ((\<forall>e. E (Raised e)) \<or> \<not> would_exceed n t))"
    proof (rule yields_weaken)
      fix y u
      assume "unit_state st u us \<and> units_step st t u \<and> ample E st 0 u
        \<and> wk_units u = [] \<and> mt_current (wk_meter u) \<le> mt_current (wk_meter t)"
      then have "adds E st 0 t rows us u"
        using frame_state_units t lenient by (auto simp: adds_def units_step_def)
      then show "adds E st 0 w rows us u \<and> ((\<forall>e. E (Raised e)) \<or> \<not> would_exceed n u)"
        using adds_trans [OF t] lenient by simp
    qed
  qed
  with True show ?thesis by (simp add: when_exceeding_def yields_def)
qed

lemma yields_validate_frame:
  assumes "frame_state st w rows us" and "enough E (frame_bytes lib st columns rules fr) w"
  shows "yields E (validate_frame lib st columns rules fr) w (\<lambda>_ t.
    adds E st (frame_bytes lib st columns rules fr) w (rows @ frame_rows lib st fr)
      (us @ [reference_unit lib st columns rules fr]) t)"
proof -
  let ?n = "vl_frame_size lib fr" and ?tags = "bytes_of st (map Tag_row (frame_rows lib st fr))"
  let ?u = "reference_unit lib st columns rules fr"
  let ?unit = "xl_size (st_lib st) (Unit_row ?u)"
  have enough: "enough E (?n + (?tags + ?unit)) w" using assms(2) by (simp add: frame_bytes_def)
  then have "(\<forall>e. E (Raised e)) \<or> \<not> would_exceed ?n w" by (rule enough_exceed) simp
  from yields_room_for_frame [OF assms(1) this] show ?thesis
    unfolding validate_frame_def Let_def
  proof (rule yields_sbind)
    fix x t
    assume t: "adds E st 0 w rows us t \<and> ((\<forall>e. E (Raised e)) \<or> \<not> would_exceed ?n t)"
    then have room: "(\<forall>e. E (Raised e)) \<or> \<not> would_exceed ?n t" by blast
    have "enough E (0 + (?n + (?tags + ?unit))) w" using enough by simp
    then have more: "enough E (?n + (?tags + ?unit)) t"
      by (rule enough_step) (use t in \<open>simp_all add: adds_def\<close>)
    from yields_charge [OF room]
    show "yields E (sbind (charge ?n) (\<lambda>_. sbind (finally_do (frame_unit lib st columns rules fr) (release_bytes ?n)) (add_unit st))) t
      (\<lambda>_ t. adds E st (frame_bytes lib st columns rules fr) w (rows @ frame_rows lib st fr) (us @ [?u]) t)"
    proof (rule yields_sbind)
      fix v y
      assume y: "\<not> would_exceed ?n t \<and> y = t\<lparr>wk_meter := (wk_meter t)\<lparr>mt_current := mt_current (wk_meter t) + ?n,
        mt_peak := max (mt_peak (wk_meter t)) (mt_current (wk_meter t) + ?n)\<rparr>\<rparr>"
      have "enough E (?tags + ?unit) y" by (rule enough_step [OF more]) (use y in simp_all)
      then have tags: "enough E ?tags y" by (auto simp: enough_def)
      have "frame_state st y rows us"
        using t y frame_state_meter by (simp add: adds_def)
      note unit = yields_frame_unit [OF this tags]
      have "yields E (finally_do (frame_unit lib st columns rules fr) (release_bytes ?n)) y (\<lambda>u z. u = ?u
          \<and> adds E st ?tags t (rows @ frame_rows lib st fr) us z)"
      proof (rule yields_finally, rule yields_weaken [OF unit])
        fix u z
        assume "u = ?u \<and> adds E st ?tags y (rows @ frame_rows lib st fr) us z"
        then show "u = ?u \<and> adds E st ?tags t (rows @ frame_rows lib st fr) us (release_bytes ?n z)"
          using y by (simp add: adds_def frame_state_released) (simp add: release_bytes_def, linarith)
      qed
      then show "yields E (sbind (finally_do (frame_unit lib st columns rules fr) (release_bytes ?n)) (add_unit st)) y
        (\<lambda>_ t. adds E st (frame_bytes lib st columns rules fr) w (rows @ frame_rows lib st fr) (us @ [?u]) t)"
      proof (rule yields_sbind)
        fix u z
        assume z: "u = ?u \<and> adds E st ?tags t (rows @ frame_rows lib st fr) us z"
        have "enough E (?tags + ?unit) t" using more by (auto simp: enough_def)
        then have "enough E ?unit z" by (rule enough_step) (use z in \<open>simp_all add: adds_def\<close>)
        then have "yields E (add_unit st ?u) z (\<lambda>_ v. adds E st ?unit z (rows @ frame_rows lib st fr) (us @ [?u]) v)"
          using z by (intro yields_add_unit) (simp_all add: adds_def)
        then have "yields E (add_unit st u) z (\<lambda>_ v. adds E st ?unit z (rows @ frame_rows lib st fr) (us @ [?u]) v)"
          using z by simp
        then show "yields E (add_unit st u) z
          (\<lambda>_ t. adds E st (frame_bytes lib st columns rules fr) w (rows @ frame_rows lib st fr) (us @ [?u]) t)"
        proof (rule yields_weaken)
          fix a v
          assume "adds E st ?unit z (rows @ frame_rows lib st fr) (us @ [?u]) v"
          with t z show "adds E st (frame_bytes lib st columns rules fr) w (rows @ frame_rows lib st fr) (us @ [?u]) v"
            by (simp add: adds_def frame_bytes_def) metis
        qed
      qed
    qed
  qed
qed

section \<open>The delivery\<close>

definition delivery_rows :: "validation_lib \<Rightarrow> setting \<Rightarrow> candidate_frame list \<Rightarrow> unique_row list" where
  "delivery_rows lib st frames = concat (map (frame_rows lib st) frames)"

definition delivery_bytes ::
    "validation_lib \<Rightarrow> setting \<Rightarrow> source_field list \<Rightarrow> (quality_rule \<times> digest) list \<Rightarrow> candidate_frame list \<Rightarrow> nat" where
  "delivery_bytes lib st columns rules frames = sum_list (map (frame_bytes lib st columns rules) frames)"

text \<open>The dispositions of the delivery, each unit with the duplicates among the rows of all of them.\<close>

definition reference_dispositions ::
    "validation_lib \<Rightarrow> setting \<Rightarrow> evaluation \<Rightarrow> candidate_frame list \<Rightarrow> disposition list" where
  "reference_dispositions lib st ev frames = map (\<lambda>fr. unit_disposition lib ev
     (duplicates_of (st_rules st) (delivery_rows lib st frames))
     (reference_unit lib st (lb_physical_columns (lc_landing (ev_contract ev))) (ev_rules ev) fr)) frames"

lemma fresh_state: "frame_state st (fresh_working budget (length (st_rules st)) x) [] []"
proof -
  have "replicate n ([] :: 'x list) = map (\<lambda>_. []) (replicate n ())" for n by (induction n) simp_all
  then have "tag_rows (replicate n []) = []" for n by (metis tag_rows_cleared)
  moreover have "tidy (replicate n [])" for n by (auto simp: tidy_def)
  ultimately show ?thesis
    by (simp add: frame_state_def tag_state_def unit_state_def fresh_working_def small_def)
qed

lemma yields_all_frames:
  assumes "frame_state st w [] []" and "enough E (delivery_bytes lib st columns rules frames) w"
  shows "yields E (sfor (validate_frame lib st columns rules) frames) w (\<lambda>_ t.
    adds E st (delivery_bytes lib st columns rules frames) w (delivery_rows lib st frames)
      (map (reference_unit lib st columns rules) frames) t)"
proof (rule yields_sfor)
  show "adds E st (delivery_bytes lib st columns rules []) w (delivery_rows lib st [])
      (map (reference_unit lib st columns rules) []) w"
    using adds_refl [OF assms(1)] by (simp add: delivery_bytes_def delivery_rows_def)
  fix ys fr zs t
  assume split: "frames = ys @ fr # zs"
    and inv: "adds E st (delivery_bytes lib st columns rules ys) w (delivery_rows lib st ys)
      (map (reference_unit lib st columns rules) ys) t"
  have "enough E (delivery_bytes lib st columns rules ys + frame_bytes lib st columns rules fr) w"
    using assms(2) by (auto simp: split delivery_bytes_def enough_def)
  then have "enough E (frame_bytes lib st columns rules fr) t"
    by (rule enough_step) (use inv in \<open>simp_all add: adds_def\<close>)
  with inv have "yields E (validate_frame lib st columns rules fr) t (\<lambda>_ u.
      adds E st (frame_bytes lib st columns rules fr) t (delivery_rows lib st ys @ frame_rows lib st fr)
        (map (reference_unit lib st columns rules) ys @ [reference_unit lib st columns rules fr]) u)"
    by (intro yields_validate_frame) (simp_all add: adds_def)
  then show "yields E (validate_frame lib st columns rules fr) t (\<lambda>_ u.
      adds E st (delivery_bytes lib st columns rules (ys @ [fr])) w (delivery_rows lib st (ys @ [fr]))
        (map (reference_unit lib st columns rules) (ys @ [fr])) u)"
    by (rule yields_weaken) (use adds_trans [OF inv] in \<open>simp add: delivery_bytes_def delivery_rows_def\<close>)
qed

lemma frame_row_keys:
  "r \<in> set (frame_rows lib st fr) \<Longrightarrow> ur_sequence r = fr_sequence fr"
  "distinct (map (\<lambda>r. (ur_rule r, ur_sequence r)) (frame_rows lib st fr))"
proof -
  have keys: "map ur_rule (key_rows lib fr rules) = map fst (filter (\<lambda>(i, rule). unique_key_tag lib (uq_fields rule) fr \<noteq> None) rules)"
    "\<forall>r \<in> set (key_rows lib fr rules). ur_sequence r = fr_sequence fr" for rules
    by (induction rules) (auto simp: key_rows_def split: option.splits)
  then show "ur_sequence r = fr_sequence fr" if "r \<in> set (frame_rows lib st fr)"
    using that by (auto simp: frame_rows_def split: if_splits)
  have "map fst (numbered_rules st) = [0..<length (st_rules st)]" by (simp add: numbered_rules_def)
  then have "distinct (map fst (filter P (numbered_rules st)))" for P
    by (metis distinct_map_filter distinct_upt)
  then have "distinct (map ur_rule (key_rows lib fr (numbered_rules st)))" by (simp add: keys(1))
  then show "distinct (map (\<lambda>r. (ur_rule r, ur_sequence r)) (frame_rows lib st fr))"
    by (auto simp: frame_rows_def distinct_map inj_on_def)
qed

lemma delivery_row_keys:
  assumes "distinct (map fr_sequence frames)"
  shows "distinct (map (\<lambda>r. (ur_rule r, ur_sequence r)) (delivery_rows lib st frames))"
  using assms
proof (induction frames)
  case (Cons fr frames)
  have "ur_sequence r \<in> fr_sequence ` set frames" if "r \<in> set (delivery_rows lib st frames)" for r
    using that frame_row_keys(1) by (fastforce simp: delivery_rows_def)
  moreover have "fr_sequence fr \<notin> fr_sequence ` set frames" using Cons.prems by simp
  ultimately have "(ur_rule q, ur_sequence q) \<noteq> (ur_rule r, ur_sequence r)"
    if "q \<in> set (frame_rows lib st fr)" "r \<in> set (delivery_rows lib st frames)" for q r
    using that frame_row_keys(1) by (metis prod.inject)
  then have "set (map (\<lambda>r. (ur_rule r, ur_sequence r)) (frame_rows lib st fr))
      \<inter> set (map (\<lambda>r. (ur_rule r, ur_sequence r)) (delivery_rows lib st frames)) = {}" by fastforce
  with Cons frame_row_keys(2) [of lib st fr] show ?case by (simp add: delivery_rows_def)
qed (simp add: delivery_rows_def)

section \<open>Units come back in order\<close>

lemma sfor_restore:
  "sfor (restore_unit build) (zip ns (map Unit_row us)) (w, ds) =
    (Inr (), (w, ds @ map build (take (length ns) us)))"
proof (induction us arbitrary: ns ds)
  case (Cons u us)
  show ?case
  proof (cases ns)
    case (Cons n ms)
    have "restore_unit build (n, Unit_row u) (w, ds) = (Inr (), (w, ds @ [build u]))"
      by (simp add: restore_unit_def sbind_def as_unit_def modify_def)
    then show ?thesis by (simp add: Cons sbind_def Cons.IH)
  qed (simp add: ret_def)
qed (simp add: ret_def)

lemma keeps_restore:
  "keeps (\<lambda>s. (case s of (w, ds) \<Rightarrow> readable st i w) = Some rows) (restore_unit build x)"
proof -
  obtain n row where x: "x = (n, row)" by (cases x)
  show ?thesis
    by (cases row) (auto simp: x keeps_def restore_unit_def sbind_def as_unit_def modify_def)
qed

lemma yields_materialize:
  assumes "unit_state st w us" and "wk_units_spilled w \<Longrightarrow> \<forall>e. E (Raised e)"
  shows "yields E (materialize_units st build) w (\<lambda>ds t. ds = map build us)"
proof (cases "wk_units_spilled w")
  case False
  then have "wk_unit_scope w = None"
    using assms(1) by (auto simp: unit_state_def split: option.splits)
  then have "map fst (wk_units w) = us" using assms(1) by (simp add: unit_state_def)
  then have "map (build \<circ> fst) (wk_units w) = map build us" by (metis map_map)
  with False show ?thesis by (simp add: materialize_units_def yields_def ret_def)
next
  case True
  then have lenient: "\<forall>e. E (Raised e)" using assms(2) by simp
  obtain i where i: "wk_unit_scope w = Some i"
    using assms(1) True by (auto simp: unit_state_def split: option.splits)
  let ?Q = "\<lambda>ds t. ds = map build us"
  from yields_spill_units [OF assms(1) lenient_fits [OF lenient] lenient_ample [OF lenient], of 0]
  have "yields E (sbind (spill_units st) (\<lambda>_ w.
        case wk_unit_scope w of
          None \<Rightarrow> ret [] w
        | Some i \<Rightarrow>
            sbind (shut_scope st i) (\<lambda>_ w.
              case page_loop (\<lambda>after (w, ds). read_scope st i after w) (restore_unit build)
                  (scope_length st i w + 1) (- 1) (w, []) of
                (Inl e, (w', ds)) \<Rightarrow> (Inl e, w')
              | (Inr _, (w', ds)) \<Rightarrow> (Inr ds, w')) w)) w ?Q"
  proof (rule yields_sbind)
    fix x t
    assume t: "unit_state st t us \<and> units_step st w t \<and> ample E st 0 t
      \<and> wk_units t = [] \<and> mt_current (wk_meter t) \<le> mt_current (wk_meter w)"
    then have scope: "wk_unit_scope t = Some i" using i by (simp add: units_step_def scope_step_def)
    with t have held: "holds st t i False (map Unit_row us)" and small: "small st t (map Unit_row us)"
      by (auto simp: unit_state_def)
    from yields_shut_scope [OF held lenient_ample [OF lenient], of 0]
    have "yields E (sbind (shut_scope st i) (\<lambda>_ w.
              case page_loop (\<lambda>after (w, ds). read_scope st i after w) (restore_unit build)
                  (scope_length st i w + 1) (- 1) (w, []) of
                (Inl e, (w', ds)) \<Rightarrow> (Inl e, w')
              | (Inr _, (w', ds)) \<Rightarrow> (Inr ds, w'))) t ?Q"
    proof (rule yields_sbind)
      fix y v
      assume v: "holds st v i True (map Unit_row us) \<and> only st i t v \<and> ample E st 0 v"
      then have held: "holds st v i True (map Unit_row us)" by blast
      have "small st v (map Unit_row us)" using small small_only v by blast
      then have "readable st i v = Some (map Unit_row us)" by (rule readable_holds [OF held])
      moreover have "scope_length st i v = length us" by (rule holdsE [OF held]) (simp add: scope_length_def)
      moreover have "page_loop (\<lambda>after (w, ds). read_scope st i after w) (restore_unit build)
          (length us + 1) (- 1) (v, [])
          = sfor (restore_unit build) (drop (nat (- 1 + 1)) (numbered (map Unit_row us))) (v, [])"
        if "readable st i v = Some (map Unit_row us)"
        by (rule paired_pages.loop_visits_all [OF _ keeps_restore]) (use that in simp_all)
      moreover have "sfor (restore_unit build) (numbered (map Unit_row us)) (v, []) = (Inr (), (v, map build us))"
        unfolding numbered_def by (simp add: sfor_restore)
      ultimately have "page_loop (\<lambda>after (w, ds). read_scope st i after w) (restore_unit build)
          (scope_length st i v + 1) (- 1) (v, []) = (Inr (), (v, map build us))" by simp
      then show "yields E (\<lambda>w. case page_loop (\<lambda>after (w, ds). read_scope st i after w) (restore_unit build)
                  (scope_length st i w + 1) (- 1) (w, []) of
                (Inl e, (w', ds)) \<Rightarrow> (Inl e, w')
              | (Inr _, (w', ds)) \<Rightarrow> (Inr ds, w')) v ?Q"
        unfolding yields_def by (simp only: prod.case sum.case)
    qed
    then show "yields E (\<lambda>w. case wk_unit_scope w of
          None \<Rightarrow> ret [] w
        | Some i \<Rightarrow>
            sbind (shut_scope st i) (\<lambda>_ w.
              case page_loop (\<lambda>after (w, ds). read_scope st i after w) (restore_unit build)
                  (scope_length st i w + 1) (- 1) (w, []) of
                (Inl e, (w', ds)) \<Rightarrow> (Inl e, w')
              | (Inr _, (w', ds)) \<Rightarrow> (Inr ds, w')) w) t ?Q"
      unfolding yields_def by (simp only: scope option.case)
  qed
  with True show ?thesis unfolding yields_def materialize_units_def by (simp only: not_True_eq_False if_False)
qed

lemma frame_state_found:
  assumes "frame_state st w rows us" and "found_step st w t"
  shows "unit_state st t us"
proof -
  have units: "unit_state st w us" using assms(1) by (simp add: frame_state_def)
  have budget: "mt_budget (wk_meter t) = mt_budget (wk_meter w)" using assms(2) by (simp add: found_step_def)
  have "scope_at st t i = scope_at st w i" if "wk_unit_scope w = Some i" for i
    using assms unit_scope_present [OF units that] that by (auto simp: found_step_def frame_state_def)
  then show ?thesis
    using units assms(2) small_budget [OF budget] by (auto simp: found_step_def unit_state_def holds_def split: option.splits)
qed

section \<open>The stream\<close>

lemma yields_on_error: "yields E m s Q \<Longrightarrow> yields E (on_error m f) s Q"
  by (auto simp: yields_def on_error_def split: prod.splits sum.splits)

text \<open>
  Whatever was spilled, the dispositions are those of the reference. The errors admitted are either all
  but lack of fuel, or, when the bytes of the delivery fit the budget, none.
\<close>

theorem yields_stream_frames:
  fixes st ev lib frames budget x
  defines "columns \<equiv> lb_physical_columns (lc_landing (ev_contract ev))"
  assumes "distinct (map fr_sequence frames)"
    and "(\<forall>e. E (Raised e)) \<or> delivery_bytes lib st columns (ev_rules ev) frames \<le> budget"
  shows "yields E (stream_frames lib st ev frames) (fresh_working budget (length (st_rules st)) x)
    (\<lambda>ds t. ds = reference_dispositions lib st ev frames)"
proof -
  let ?w = "fresh_working budget (length (st_rules st)) x"
  let ?us = "map (reference_unit lib st columns (ev_rules ev)) frames"
  let ?rows = "delivery_rows lib st frames"
  have "enough E (delivery_bytes lib st columns (ev_rules ev) frames) ?w"
    using assms(3) by (auto simp: enough_def fresh_working_def)
  note streamed = yields_all_frames [OF fresh_state this]
  have checked: "yields E (sbind (sfor (validate_frame lib st columns (ev_rules ev)) frames) (\<lambda>_. duplicate_findings st)) ?w
    (\<lambda>f t. f = duplicates_of (st_rules st) ?rows \<and> unit_state st t ?us
      \<and> (wk_units_spilled t \<longrightarrow> (\<forall>e. E (Raised e))))"
  proof (rule yields_sbind [OF streamed])
    fix u t
    assume t: "adds E st (delivery_bytes lib st columns (ev_rules ev) frames) ?w ?rows ?us t"
    then have state: "frame_state st t ?rows ?us" by (simp add: adds_def)
    then have tags: "tag_state st t ?rows" by (simp add: frame_state_def)
    have lenient: "\<forall>e. E (Raised e)" if "wk_tags_spilled t \<or> wk_units_spilled t"
      using that t by (auto simp: adds_def fresh_working_def)
    show "yields E (duplicate_findings st) t (\<lambda>f t. f = duplicates_of (st_rules st) ?rows \<and> unit_state st t ?us
      \<and> (wk_units_spilled t \<longrightarrow> (\<forall>e. E (Raised e))))"
    proof (rule yields_weaken, rule yields_duplicate_findings [OF tags])
      show "distinct (map (\<lambda>r. (ur_rule r, ur_sequence r)) ?rows)" by (rule delivery_row_keys [OF assms(2)])
      fix f v
      assume "f = duplicates_of (st_rules st) ?rows \<and> found_step st t v"
      then show "f = duplicates_of (st_rules st) ?rows \<and> unit_state st v ?us
          \<and> (wk_units_spilled v \<longrightarrow> (\<forall>e. E (Raised e)))"
        using frame_state_found [OF state] lenient by (auto simp: found_step_def)
    qed (use lenient lenient_fits lenient_ample in blast)+
  qed
  show ?thesis
    unfolding stream_frames_def columns_def [symmetric]
  proof (rule yields_sbind [OF yields_on_error [OF checked]])
    fix f t
    assume t: "f = duplicates_of (st_rules st) ?rows \<and> unit_state st t ?us
      \<and> (wk_units_spilled t \<longrightarrow> (\<forall>e. E (Raised e)))"
    then have "yields E (materialize_units st (unit_disposition lib ev f)) t
        (\<lambda>ds v. ds = map (unit_disposition lib ev f) ?us)"
      by (intro yields_materialize) simp_all
    then show "yields E (finally_do (materialize_units st (unit_disposition lib ev f)) (close_both st)) t
        (\<lambda>ds v. ds = reference_dispositions lib st ev frames)"
      by (rule yields_finally [OF yields_weaken]) (use t in \<open>simp add: reference_dispositions_def columns_def\<close>)
  qed
qed

end
