(* ===== verification/Working_Invariant.thy ===== *)
theory Working_Invariant
  imports Frame_Correct
begin

text \<open>
  What a validation never loses, whether it returns or raises. A property of the working state that
  every primitive keeps (charging and releasing bytes, writing and closing a scope, opening a scope and
  registering it) is kept by every operation; the locale proves that once. It is interpreted twice: the
  peak of the byte meter stays within the budget, and every scope of the attempt is registered while no
  scope of another attempt changes, so that closing leaves the scratch store as it was found.
\<close>

section \<open>After an action\<close>

definition after :: "('s \<Rightarrow> bool) \<Rightarrow> ('s, 'a) action \<Rightarrow> 's \<Rightarrow> bool" where
  "after P m s \<longleftrightarrow> P (snd (m s))"

named_theorems after_intros

lemma keeps_after: "keeps P m \<longleftrightarrow> (\<forall>s. P s \<longrightarrow> after P m s)"
  by (simp add: keeps_def after_def)

lemma keepsI: "(\<And>s. P s \<Longrightarrow> after P m s) \<Longrightarrow> keeps P m"
  by (simp add: keeps_after)

lemma after_keeps: "keeps P m \<Longrightarrow> P s \<Longrightarrow> after P m s"
  by (simp add: keeps_after)

lemma after_sbind:
  assumes "after P m s" and "\<And>x t. P t \<Longrightarrow> after P (f x) t"
  shows "after P (sbind m f) s"
proof -
  obtain r t where "m s = (r, t)" by (cases "m s")
  with assms show ?thesis by (cases r) (simp_all add: after_def sbind_def)
qed

lemma after_primitive [simp]:
  "after P (ret x) s \<longleftrightarrow> P s" "after P (throw c) s \<longleftrightarrow> P s" "after P (modify f) s \<longleftrightarrow> P (f s)"
  by (simp_all add: after_def ret_def throw_def modify_def)

lemma after_at: "after P (\<lambda>s. m s s) s \<longleftrightarrow> after P (m s) s"
  by (simp add: after_def)

lemma snd_finally: "snd (finally_do m f s) = f (snd (m s))"
  by (simp add: finally_do_def split: prod.split)

lemma keeps_finally: "keeps P m \<Longrightarrow> (\<And>s. P s \<Longrightarrow> P (f s)) \<Longrightarrow> keeps P (finally_do m f)"
  by (simp add: keeps_def snd_finally)

text \<open>A loop over pages that carries a value beside the working state.\<close>

lemma after_paired:
  assumes "keeps (\<lambda>(w, b). P w) m" and "P w"
    and "\<And>e t. P t \<Longrightarrow> after P (bad e) t" and "\<And>x b t. P t \<Longrightarrow> after P (good x b) t"
  shows "after P (\<lambda>w. case m (w, b) of (Inl e, (t, c)) \<Rightarrow> bad e t | (Inr x, (t, c)) \<Rightarrow> good x c t) w"
proof -
  obtain r t c where r: "m (w, b) = (r, (t, c))" by (cases "m (w, b)") auto
  from keepsD [OF assms(1) _ r] assms(2) have "P t" by simp
  with assms(3,4) show ?thesis by (cases r) (simp_all add: after_def r)
qed

section \<open>Every operation keeps what every primitive keeps\<close>

locale working_invariant =
  fixes st :: setting and P :: "working \<Rightarrow> bool"
  assumes kept_charge: "P w \<Longrightarrow> after P (charge n) w"
    and kept_release: "P w \<Longrightarrow> P (release_bytes n w)"
    and kept_write: "P w \<Longrightarrow> after P (write_row st i n row) w"
    and kept_shut: "P w \<Longrightarrow> after P (shut_scope st i) w"
    and kept_tag_scope: "P w \<Longrightarrow> wk_tag_scope w = None
      \<Longrightarrow> after P (sbind (new_scope st) (\<lambda>i. modify (\<lambda>w. w\<lparr>wk_tag_scope := Some i\<rparr>))) w"
    and kept_unit_scope: "P w \<Longrightarrow> wk_unit_scope w = None
      \<Longrightarrow> after P (sbind (new_scope st) (\<lambda>i. modify (\<lambda>w. w\<lparr>wk_unit_scope := Some i\<rparr>))) w"
    and kept_work_scope: "P w
      \<Longrightarrow> after P (sbind (new_scope st) (\<lambda>i. modify (\<lambda>w. w\<lparr>wk_work_scopes := wk_work_scopes w @ [i]\<rparr>))) w"
    and kept_buffers: "P w \<Longrightarrow> P (w\<lparr>wk_groups := gs, wk_tag_next := a, wk_tags_spilled := p, wk_units := us,
      wk_unit_next := b, wk_units_spilled := q\<rparr>)"
begin

lemma kept_fields:
  assumes "P w"
  shows "P (w\<lparr>wk_groups := gs\<rparr>)" "P (w\<lparr>wk_tag_next := a\<rparr>)" "P (w\<lparr>wk_tags_spilled := p\<rparr>)"
    "P (w\<lparr>wk_units := us\<rparr>)" "P (w\<lparr>wk_unit_next := a\<rparr>)" "P (w\<lparr>wk_units_spilled := p\<rparr>)"
proof -
  have eqs: "w\<lparr>wk_groups := gs\<rparr> = w\<lparr>wk_groups := gs, wk_tag_next := wk_tag_next w, wk_tags_spilled := wk_tags_spilled w,
      wk_units := wk_units w, wk_unit_next := wk_unit_next w, wk_units_spilled := wk_units_spilled w\<rparr>"
    "w\<lparr>wk_tag_next := a\<rparr> = w\<lparr>wk_groups := wk_groups w, wk_tag_next := a, wk_tags_spilled := wk_tags_spilled w,
      wk_units := wk_units w, wk_unit_next := wk_unit_next w, wk_units_spilled := wk_units_spilled w\<rparr>"
    "w\<lparr>wk_tags_spilled := p\<rparr> = w\<lparr>wk_groups := wk_groups w, wk_tag_next := wk_tag_next w, wk_tags_spilled := p,
      wk_units := wk_units w, wk_unit_next := wk_unit_next w, wk_units_spilled := wk_units_spilled w\<rparr>"
    "w\<lparr>wk_units := us\<rparr> = w\<lparr>wk_groups := wk_groups w, wk_tag_next := wk_tag_next w, wk_tags_spilled := wk_tags_spilled w,
      wk_units := us, wk_unit_next := wk_unit_next w, wk_units_spilled := wk_units_spilled w\<rparr>"
    "w\<lparr>wk_unit_next := a\<rparr> = w\<lparr>wk_groups := wk_groups w, wk_tag_next := wk_tag_next w, wk_tags_spilled := wk_tags_spilled w,
      wk_units := wk_units w, wk_unit_next := a, wk_units_spilled := wk_units_spilled w\<rparr>"
    "w\<lparr>wk_units_spilled := p\<rparr> = w\<lparr>wk_groups := wk_groups w, wk_tag_next := wk_tag_next w, wk_tags_spilled := wk_tags_spilled w,
      wk_units := wk_units w, wk_unit_next := wk_unit_next w, wk_units_spilled := p\<rparr>"
    by (cases w; simp)+
  show "P (w\<lparr>wk_groups := gs\<rparr>)" using kept_buffers [OF assms] eqs(1) by metis
  show "P (w\<lparr>wk_tag_next := a\<rparr>)" using kept_buffers [OF assms] eqs(2) by metis
  show "P (w\<lparr>wk_tags_spilled := p\<rparr>)" using kept_buffers [OF assms] eqs(3) by metis
  show "P (w\<lparr>wk_units := us\<rparr>)" using kept_buffers [OF assms] eqs(4) by metis
  show "P (w\<lparr>wk_unit_next := a\<rparr>)" using kept_buffers [OF assms] eqs(5) by metis
  show "P (w\<lparr>wk_units_spilled := p\<rparr>)" using kept_buffers [OF assms] eqs(6) by metis
qed

lemma keeps_charge: "keeps P (charge n)" by (rule keepsI) (rule kept_charge)

lemma keeps_release: "keeps P (release n)"
  by (rule keepsI) (use kept_release in \<open>simp add: release_def release_bytes_def\<close>)

lemma keeps_write_row: "keeps P (write_row st i n row)" by (rule keepsI) (rule kept_write)

lemma keeps_shut: "keeps P (shut_scope st i)" by (rule keepsI) (rule kept_shut)

lemma keeps_write_rows: "keeps P (write_rows st i n rows)"
  unfolding write_rows_def by (intro keeps_sfor) (auto intro: keeps_write_row)

lemma keeps_buffers:
  "keeps P (modify (\<lambda>w. w\<lparr>wk_groups := g w\<rparr>))" "keeps P (modify (\<lambda>w. w\<lparr>wk_tag_next := a w\<rparr>))"
  "keeps P (modify (\<lambda>w. w\<lparr>wk_tags_spilled := p w\<rparr>))" "keeps P (modify (\<lambda>w. w\<lparr>wk_units := us w\<rparr>))"
  "keeps P (modify (\<lambda>w. w\<lparr>wk_unit_next := a w\<rparr>))" "keeps P (modify (\<lambda>w. w\<lparr>wk_units_spilled := p w\<rparr>))"
  by (auto intro!: keeps_modify intro: kept_fields)

lemma keeps_next_tag: "keeps P (\<lambda>w. sbind (write_row st i (wk_tag_next w) row) (\<lambda>_. modify (\<lambda>w. w\<lparr>wk_tag_next := wk_tag_next w + 1\<rparr>)) w)"
  by (rule keeps_at) (intro keeps_sbind keeps_write_row keeps_buffers)

lemma keeps_next_unit: "keeps P (\<lambda>w. sbind (write_row st i (wk_unit_next w) row) (\<lambda>_. modify (\<lambda>w. w\<lparr>wk_unit_next := wk_unit_next w + 1\<rparr>)) w)"
  by (rule keeps_at) (intro keeps_sbind keeps_write_row keeps_buffers)

text \<open>A scope opened and registered, and the rest.\<close>

lemma after_open:
  assumes "P w" and "after P (sbind (new_scope st) (\<lambda>i. modify (f i))) w"
    and "\<And>i. keeps P (g i)"
  shows "after P (sbind (sbind (new_scope st) (\<lambda>i. sbind (modify (f i)) (\<lambda>_. ret i))) g) w"
proof -
  obtain r t where r: "new_scope st w = (r, t)" by (cases "new_scope st w")
  show ?thesis
  proof (cases r)
    case (Inl e)
    with assms(2) r show ?thesis by (simp add: after_def sbind_def)
  next
    case (Inr i)
    with assms(2) r have "P (f i t)" by (simp add: after_def sbind_def modify_def)
    with assms(3) [of i] r Inr show ?thesis by (simp add: after_def sbind_def modify_def ret_def keeps_def)
  qed
qed

lemma keeps_spill_tags: "keeps P (spill_tags st)"
proof (rule keepsI)
  fix w assume w: "P w"
  let ?rest = "\<lambda>i. sbind (sfor (\<lambda>row w. sbind (write_row st i (wk_tag_next w) (Tag_row row))
             (\<lambda>_. modify (\<lambda>w. w\<lparr>wk_tag_next := wk_tag_next w + 1\<rparr>)) w) (tag_rows (wk_groups w))) (\<lambda>_.
        sbind (release (held_bytes (wk_groups w))) (\<lambda>_.
        modify (\<lambda>w. w\<lparr>wk_tags_spilled := True\<rparr>)))"
  let ?open = "case wk_tag_scope w of
      Some i \<Rightarrow> (if wk_scratch w = None then throw Capacity_exceeded else ret i)
    | None \<Rightarrow> sbind (new_scope st) (\<lambda>i. sbind (modify (\<lambda>w. w\<lparr>wk_tag_scope := Some i\<rparr>)) (\<lambda>_. ret i))"
  let ?w = "w\<lparr>wk_groups := map (\<lambda>_. []) (wk_groups w)\<rparr>"
  have rest: "keeps P (?rest i)" for i
    by (intro keeps_sbind keeps_sfor keeps_next_tag keeps_release keeps_buffers)
  have cleared: "P ?w" by (rule kept_fields [OF w])
  have "after P (sbind ?open ?rest) ?w"
  proof (cases "wk_tag_scope w")
    case None
    then have "after P (sbind (new_scope st) (\<lambda>i. modify (\<lambda>w. w\<lparr>wk_tag_scope := Some i\<rparr>))) ?w"
      by (intro kept_tag_scope [OF cleared]) simp
    with None cleared rest show ?thesis by (simp only: option.case) (rule after_open)
  next
    case (Some i)
    have "keeps P (sbind (if wk_scratch w = None then throw Capacity_exceeded else ret i) ?rest)"
      by (intro keeps_sbind rest) simp
    with Some cleared show ?thesis by (simp add: keeps_after)
  qed
  then show "after P (spill_tags st) w"
    using cleared by (simp add: spill_tags_def Let_def after_def sbind_def modify_def ret_def)
qed

lemma keeps_spill_units: "keeps P (spill_units st)"
proof (rule keepsI)
  fix w assume w: "P w"
  let ?rest = "\<lambda>i. sbind (sfor (\<lambda>x w. sbind (write_row st i (wk_unit_next w) (Unit_row (fst x)))
             (\<lambda>_. modify (\<lambda>w. w\<lparr>wk_unit_next := wk_unit_next w + 1\<rparr>)) w) (wk_units w)) (\<lambda>_.
        sbind (modify (\<lambda>w. w\<lparr>wk_units := []\<rparr>)) (\<lambda>_.
        sbind (release (sum_list (map snd (wk_units w)))) (\<lambda>_.
        modify (\<lambda>w. w\<lparr>wk_units_spilled := True\<rparr>))))"
  let ?open = "case wk_unit_scope w of
      Some i \<Rightarrow> (if wk_scratch w = None then throw Capacity_exceeded else ret i)
    | None \<Rightarrow> sbind (new_scope st) (\<lambda>i. sbind (modify (\<lambda>w. w\<lparr>wk_unit_scope := Some i\<rparr>)) (\<lambda>_. ret i))"
  have rest: "keeps P (?rest i)" for i
    by (intro keeps_sbind keeps_sfor keeps_next_unit keeps_release keeps_buffers)
  have "after P (sbind ?open ?rest) w"
  proof (cases "wk_unit_scope w")
    case None
    with after_open [OF w kept_unit_scope [OF w None] rest] show ?thesis by (simp only: option.case)
  next
    case (Some i)
    have "keeps P (sbind (if wk_scratch w = None then throw Capacity_exceeded else ret i) ?rest)"
      by (intro keeps_sbind rest) simp
    with Some w show ?thesis by (simp add: keeps_after)
  qed
  then show "after P (spill_units st) w"
    using w by (simp add: spill_units_def Let_def after_def ret_def case_prod_beta')
qed

lemma keeps_when: "keeps P m \<Longrightarrow> keeps P (when_exceeding n m)"
  by (rule keepsI) (simp add: when_exceeding_def after_def keeps_def ret_def)

lemma keeps_observe: "keeps P (observe st i tag s loc)"
  unfolding observe_def Let_def by (intro keeps_sbind keeps_when keeps_spill_tags keeps_charge keeps_buffers)

lemma keeps_read_one: "keeps P (read_one st i a stop)"
  unfolding read_one_def
  by (intro keeps_sbind keeps_of_result) (auto intro!: keeps_sbind keeps_as_tag split: list.splits)

lemma keeps_flush: "keeps P (flush_sorted_run st i b)"
  unfolding flush_sorted_run_def Let_def by (intro keeps_sbind keeps_write_rows keeps_ret)

lemma keeps_row_built: "keeps P (build_row st i x b)"
proof (rule keepsI)
  fix w assume "P w"
  moreover obtain n row where "x = (n, row)" by (cases x)
  moreover have "keeps P (sbind (as_tag row) (\<lambda>r.
      sbind (if rb_rows b \<noteq> [] \<and> rb_bytes b + xl_size (st_lib st) row > mt_budget (wk_meter w)
             then flush_sorted_run st i b else ret b) (\<lambda>b.
      ret (b\<lparr>rb_rows := rb_rows b @ [r], rb_bytes := rb_bytes b + xl_size (st_lib st) row\<rparr>))))"
    by (intro keeps_sbind keeps_as_tag keeps_ret) (simp add: keeps_flush)
  ultimately show "after P (build_row st i x b) w" by (simp add: build_row_def Let_def keeps_after after_def)
qed

lemma keeps_build_rows: "keeps (\<lambda>(w, b). P w) (on_working (build_row st out x))"
proof -
  have "P (fst (snd (on_working (build_row st out x) (w, b))))" if "P w" for w b
  proof -
    obtain r t where r: "build_row st out x b w = (r, t)" by (cases "build_row st out x b w")
    have "P t" by (rule keepsD [OF keeps_row_built that r])
    then show ?thesis by (cases r) (simp_all add: on_working_def r)
  qed
  then show ?thesis by (simp add: keeps_def case_prod_beta')
qed

text \<open>A work scope opened and registered, and the rest.\<close>

lemma keeps_open_work:
  assumes "\<And>i. keeps P (g i)"
  shows "keeps P (sbind (new_scope st) (\<lambda>i. sbind (modify (\<lambda>w. w\<lparr>wk_work_scopes := wk_work_scopes w @ [i]\<rparr>)) (\<lambda>_. g i)))"
proof (rule keepsI)
  fix w assume w: "P w"
  obtain r t where r: "new_scope st w = (r, t)" by (cases "new_scope st w")
  show "after P (sbind (new_scope st) (\<lambda>i. sbind (modify (\<lambda>w. w\<lparr>wk_work_scopes := wk_work_scopes w @ [i]\<rparr>)) (\<lambda>_. g i))) w"
  proof (cases r)
    case (Inl e)
    with kept_work_scope [OF w] r show ?thesis by (simp add: after_def sbind_def)
  next
    case (Inr i)
    with kept_work_scope [OF w] r have "P (t\<lparr>wk_work_scopes := wk_work_scopes t @ [i]\<rparr>)"
      by (simp add: after_def sbind_def modify_def)
    with assms [of i] r Inr show ?thesis by (simp add: after_def sbind_def modify_def keeps_def)
  qed
qed

lemma keeps_build_sorted_runs: "keeps P (build_sorted_runs st i)"
  unfolding build_sorted_runs_def
proof (rule keeps_open_work, rule keepsI)
  fix out w assume w: "P w"
  have "keeps P (sbind (if rb_rows b \<noteq> [] then flush_sorted_run st out b else ret b) (\<lambda>b.
          sbind (shut_scope st out) (\<lambda>_. ret (rb_runs b))))" for b
    by (intro keeps_sbind keeps_shut keeps_ret) (simp add: keeps_flush)
  then have rest: "after P (sbind (if rb_rows b \<noteq> [] then flush_sorted_run st out b else ret b) (\<lambda>b.
          sbind (shut_scope st out) (\<lambda>_. ret (rb_runs b)))) t" if "P t" for b t
    using that by (simp add: keeps_after)
  obtain r t b where r: "page_loop (\<lambda>after (w, b). read_scope st i after w) (\<lambda>x. on_working (build_row st out x))
          (scope_length st i w + 1) (- 1) (w, \<lparr>rb_rows = [], rb_bytes = 0, rb_next = 0, rb_runs = []\<rparr>) = (r, (t, b))"
    by (metis surj_pair)
  have "keeps (\<lambda>(w, b). P w) (page_loop (\<lambda>after (w, b). read_scope st i after w) (\<lambda>x. on_working (build_row st out x))
          (scope_length st i w + 1) (- 1))" by (rule keeps_page_loop) (rule keeps_build_rows)
  from keepsD [OF this _ r] w have "P t" by simp
  with rest show "after P (\<lambda>w. case page_loop (\<lambda>after (w, b). read_scope st i after w) (\<lambda>x. on_working (build_row st out x))
          (scope_length st i w + 1) (- 1)
          (w, \<lparr>rb_rows = [], rb_bytes = 0, rb_next = 0, rb_runs = []\<rparr>) of
        (Inl e, (w', b)) \<Rightarrow> (Inl e, w')
      | (Inr _, (w', b)) \<Rightarrow>
          sbind (if rb_rows b \<noteq> [] then flush_sorted_run st out b else ret b) (\<lambda>b.
          sbind (shut_scope st out) (\<lambda>_. ret (rb_runs b))) w') w"
    unfolding after_def r by (cases r) simp_all
qed


lemma keeps_merge_loop: "keeps P (merge_loop st out (li, lend) (ri, rend) fuel n x y)"
proof (induction fuel arbitrary: n x y)
  case 0
  show ?case by (cases x; cases y) simp
next
  case (Suc fuel)
  obtain l a r b where x: "x = (l, a)" "y = (r, b)" by (cases x; cases y)
  have step: "keeps P (sbind (write_row st out n row) (\<lambda>_. sbind (read_one st i p q) g))" if "\<And>z. keeps P (g z)" for row i p q g
    by (intro keeps_sbind keeps_write_row keeps_read_one that)
  show ?case
    unfolding x merge_loop.simps by (cases l; cases r) (auto intro!: step Suc)
qed

lemma keeps_merge_runs: "keeps P (merge_runs st a b)"
proof -
  obtain li la lb ri ra rb where "a = (li, la, lb)" "b = (ri, ra, rb)" by (cases a; cases b)
  then show ?thesis
    by (simp only: merge_runs.simps)
      (intro keeps_open_work keeps_sbind keeps_read_one keeps_merge_loop keeps_shut keeps_ret)
qed

lemma keeps_merge_pairs: "keeps P (merge_pairs st runs)"
  by (induction runs rule: induct_list012) (auto intro!: keeps_sbind keeps_merge_runs)

lemma keeps_merge_rounds: "keeps P (merge_rounds st fuel runs)"
  by (induction fuel arbitrary: runs) (auto intro!: keeps_sbind keeps_merge_pairs)

lemma keeps_scan_run: "keeps P (scan_run st r)"
proof -
  have "keeps P (scan_loop st i stop fuel a key ms found)" for i stop fuel a key ms found
    by (induction fuel arbitrary: a key ms found)
      (auto intro!: keeps_sbind keeps_read_one simp: Let_def split: option.splits)
  then show ?thesis by (cases r) (simp only: scan_run_def prod.case)
qed

lemma after_scope:
  assumes "P w" and "\<And>i. keeps P (g i)"
  shows "after P (\<lambda>w. case f w of None \<Rightarrow> ret x w | Some i \<Rightarrow> g i w) w"
  using assms by (cases "f w") (simp_all add: after_def keeps_def ret_def)

lemma keeps_duplicate_findings: "keeps P (duplicate_findings st)"
proof (rule keepsI)
  fix w assume w: "P w"
  have "keeps P (sbind (shut_scope st i) (\<lambda>_. sbind (build_sorted_runs st i) (\<lambda>runs.
      if runs = [] then ret (\<lambda>_. []) else sbind (merge_rounds st (length runs) runs) (\<lambda>runs. scan_run st (hd runs)))))" for i
    by (intro keeps_sbind keeps_shut keeps_build_sorted_runs) (auto intro!: keeps_sbind keeps_merge_rounds keeps_scan_run)
  then have "after P (sbind (spill_tags st) (\<lambda>_ w. case wk_tag_scope w of None \<Rightarrow> ret (\<lambda>_. []) w | Some i \<Rightarrow>
      sbind (shut_scope st i) (\<lambda>_. sbind (build_sorted_runs st i) (\<lambda>runs.
        if runs = [] then ret (\<lambda>_. [])
        else sbind (merge_rounds st (length runs) runs) (\<lambda>runs. scan_run st (hd runs)))) w)) w"
    by (intro after_sbind after_scope after_keeps [OF keeps_spill_tags w])
  with w show "after P (duplicate_findings st) w" by (simp add: duplicate_findings_def after_def ret_def)
qed

lemma keeps_observe_keys: "keeps P (observe_keys lib st fr rules)"
proof (induction rules)
  case (Cons x rules)
  then show ?case by (cases x) (auto intro!: keeps_sbind keeps_observe split: option.splits)
qed simp

lemma keeps_validate_frame: "keeps P (validate_frame lib st columns rules fr)"
proof -
  have "keeps P (frame_unit lib st columns rules fr)"
    unfolding frame_unit_def Let_def by (auto intro!: keeps_sbind keeps_observe_keys)
  moreover have "keeps P (add_unit st u)" for u
    unfolding add_unit_def Let_def by (intro keeps_sbind keeps_when keeps_spill_units keeps_charge keeps_buffers)
  ultimately show ?thesis
    unfolding validate_frame_def Let_def
    by (intro keeps_sbind keeps_when keeps_spill_tags keeps_spill_units keeps_charge keeps_finally kept_release)
qed

lemma keeps_materialize: "keeps P (materialize_units st build)"
proof (rule keepsI)
  fix w assume w: "P w"
  have unit: "keeps (\<lambda>(w, ds). P w) (restore_unit build x)" for build and x :: "nat \<times> scratch_row"
  proof -
    obtain n row where "x = (n, row)" by (cases x)
    then show ?thesis
      by (cases row) (auto simp: keeps_def restore_unit_def sbind_def as_unit_def modify_def)
  qed
  have pages: "keeps P (\<lambda>w. case page_loop (\<lambda>after (w, ds). read_scope st i after w) (restore_unit build)
      (scope_length st i w + 1) (- 1) (w, []) of
        (Inl e, (w', ds)) \<Rightarrow> (Inl e, w')
      | (Inr _, (w', ds)) \<Rightarrow> (Inr ds, w'))" for i
  proof (rule keepsI)
    fix v assume v: "P v"
    obtain r t ds where r: "page_loop (\<lambda>after (w, ds). read_scope st i after w) (restore_unit build)
      (scope_length st i v + 1) (- 1) (v, []) = (r, (t, ds))" by (metis surj_pair)
    have "keeps (\<lambda>(w, ds). P w) (page_loop (\<lambda>after (w, ds). read_scope st i after w) (restore_unit build)
      (scope_length st i v + 1) (- 1))" by (rule keeps_page_loop) (rule unit)
    from keepsD [OF this _ r] v have "P t" by simp
    then show "after P (\<lambda>w. case page_loop (\<lambda>after (w, ds). read_scope st i after w) (restore_unit build)
      (scope_length st i w + 1) (- 1) (w, []) of
        (Inl e, (w', ds)) \<Rightarrow> (Inl e, w')
      | (Inr _, (w', ds)) \<Rightarrow> (Inr ds, w')) v"
      unfolding after_def r by (cases r) simp_all
  qed
  have "after P (sbind (spill_units st) (\<lambda>_ w.
        case wk_unit_scope w of
          None \<Rightarrow> ret [] w
        | Some i \<Rightarrow>
            sbind (shut_scope st i) (\<lambda>_ w.
              case page_loop (\<lambda>after (w, ds). read_scope st i after w) (restore_unit build)
                  (scope_length st i w + 1) (- 1) (w, []) of
                (Inl e, (w', ds)) \<Rightarrow> (Inl e, w')
              | (Inr _, (w', ds)) \<Rightarrow> (Inr ds, w')) w)) w"
    by (intro after_sbind after_scope after_keeps [OF keeps_spill_units w] keeps_sbind keeps_shut pages)
  with w show "after P (materialize_units st build) w" by (simp add: materialize_units_def after_def ret_def)
qed

text \<open>A delivery ends by closing the scopes of a state that still has the property, whatever happens.\<close>

lemma stream_closes:
  assumes "P w"
  shows "\<exists>t. P t \<and> snd (stream_frames lib st ev frames w) = close_both st t"
proof -
  let ?run = "sbind (sfor (validate_frame lib st (lb_physical_columns (lc_landing (ev_contract ev))) (ev_rules ev)) frames)
    (\<lambda>_. duplicate_findings st)"
  have run: "keeps P ?run"
    by (intro keeps_sbind keeps_sfor keeps_validate_frame keeps_duplicate_findings)
  obtain r t where r: "?run w = (r, t)" by (cases "?run w")
  have t: "P t" using keepsD [OF run assms r] .
  show ?thesis
  proof (cases r)
    case (Inl e)
    then have "on_error ?run (close_both st) w = (Inl e, close_both st t)" unfolding on_error_def r by simp
    with t show ?thesis by (auto simp: stream_frames_def sbind_def [of "on_error _ _"])
  next
    case (Inr f)
    have "P (snd (materialize_units st (unit_disposition lib ev f) t))"
      by (rule keepsD [OF keeps_materialize t surjective_pairing])
    moreover have "snd (stream_frames lib st ev frames w)
        = close_both st (snd (materialize_units st (unit_disposition lib ev f) t))"
    proof -
      have "on_error ?run (close_both st) w = (Inr f, t)" unfolding on_error_def r Inr by simp
      then show ?thesis by (simp add: stream_frames_def sbind_def [of "on_error _ _"] snd_finally)
    qed
    ultimately show ?thesis by blast
  qed
qed

end

section \<open>The peak of the meter\<close>

definition within_budget :: "nat \<Rightarrow> working \<Rightarrow> bool" where
  "within_budget n w \<longleftrightarrow> mt_budget (wk_meter w) = n \<and> mt_peak (wk_meter w) \<le> n"

lemma on_scratch_meter: "wk_meter (snd (on_scratch f w)) = wk_meter w"
  by (auto simp: on_scratch_def throw_def split: option.splits prod.splits sum.splits)

lemma after_opened:
  "after P (sbind (on_scratch f) (\<lambda>i. modify (g i))) w \<longleftrightarrow>
     (case on_scratch f w of (Inl e, t) \<Rightarrow> P t | (Inr i, t) \<Rightarrow> P (g i t))"
  by (auto simp: after_def sbind_def modify_def split: prod.splits sum.splits)

lemma within_budget_cong: "wk_meter t = wk_meter w \<Longrightarrow> within_budget n t = within_budget n w"
  by (simp add: within_budget_def)

lemma within_budget_open:
  assumes "within_budget n w" and "\<And>i t. wk_meter (g i t) = wk_meter t"
  shows "after (within_budget n) (sbind (new_scope st) (\<lambda>i. modify (g i))) w"
proof -
  obtain r t where r: "on_scratch (create_scope (st_lib st) (st_attempt st) (max (st_capacity st) 1)) w = (r, t)"
    by (metis surj_pair)
  with on_scratch_meter [of _ w] have "wk_meter t = wk_meter w" by (metis snd_conv)
  with assms show ?thesis
    unfolding new_scope_def after_opened r by (cases r) (simp_all add: within_budget_def)
qed

interpretation metered: working_invariant st "within_budget n" for st n
proof
  fix w i
  assume w: "within_budget n w"
  show "after (within_budget n) (charge m) w" for m
    using w by (simp add: after_def charge_def Let_def ret_def throw_def would_exceed_def within_budget_def)
  show "within_budget n (release_bytes m w)" for m using w by (simp add: release_bytes_def within_budget_def)
  show "after (within_budget n) (write_row st i k row) w" for k row
    using w by (simp add: after_def write_row_def within_budget_cong [OF on_scratch_meter])
  show "after (within_budget n) (shut_scope st i) w"
    using w by (simp add: after_def shut_scope_def within_budget_cong [OF on_scratch_meter])
  show "after (within_budget n) (sbind (new_scope st) (\<lambda>i. modify (\<lambda>w. w\<lparr>wk_tag_scope := Some i\<rparr>))) w"
    "after (within_budget n) (sbind (new_scope st) (\<lambda>i. modify (\<lambda>w. w\<lparr>wk_unit_scope := Some i\<rparr>))) w"
    "after (within_budget n) (sbind (new_scope st) (\<lambda>i. modify (\<lambda>w. w\<lparr>wk_work_scopes := wk_work_scopes w @ [i]\<rparr>))) w"
    by (rule within_budget_open [OF w]; simp)+
qed (simp add: within_budget_def)

lemma drop_scope_meter: "wk_meter (drop_scope st i w) = wk_meter w"
  by (simp add: drop_scope_def)

lemma close_both_meter: "wk_meter (close_both st w) = wk_meter w"
proof -
  have "wk_meter (fold (drop_scope st) is w) = wk_meter w" for "is" w
    by (induction "is" arbitrary: w) (simp_all add: drop_scope_meter)
  then show ?thesis by (simp add: close_both_def close_units_def close_tags_def drop_scope_meter split: option.splits)
qed

section \<open>The scopes of the attempt\<close>

definition registered :: "working \<Rightarrow> token set" where
  "registered w = set_option (wk_tag_scope w) \<union> set (wk_work_scopes w) \<union> set_option (wk_unit_scope w)"

text \<open>The scopes of others are those at the start, and every scope of the attempt is registered.\<close>

definition only_own :: "digest \<Rightarrow> scratch_row scratch option \<Rightarrow> working \<Rightarrow> bool" where
  "only_own att start w \<longleftrightarrow>
     (case (start, wk_scratch w) of
        (None, None) \<Rightarrow> True
      | (Some x, Some y) \<Rightarrow> filter (\<lambda>c. sc_owner c \<noteq> att) (sx_scopes y) = sx_scopes x \<and> sx_max_bytes y = sx_max_bytes x
          \<and> (\<forall>c \<in> set (sx_scopes y). sc_owner c = att \<longrightarrow> sc_id c \<in> registered w)
      | _ \<Rightarrow> False)"

lemma filter_set_scope:
  assumes "\<And>c. sc_owner (f c) = sc_owner c"
  shows "filter (\<lambda>c. sc_owner c \<noteq> att) (sx_scopes (set_scope att i f y)) = filter (\<lambda>c. sc_owner c \<noteq> att) (sx_scopes y)"
proof -
  have "filter (\<lambda>c. sc_owner c \<noteq> att) (map (\<lambda>c. if is_scope att i c then f c else c) xs)
      = filter (\<lambda>c. sc_owner c \<noteq> att) xs" for xs
    using assms by (induction xs) (auto simp: is_scope_def)
  then show ?thesis by (simp add: set_scope_def)
qed

text \<open>A request on one scope of the attempt changes nothing that matters here.\<close>

lemma only_own_scratch:
  assumes "only_own att start w"
    and "\<And>y. filter (\<lambda>c. sc_owner c \<noteq> att) (sx_scopes (snd (f y))) = filter (\<lambda>c. sc_owner c \<noteq> att) (sx_scopes y)"
    and "\<And>y. sx_max_bytes (snd (f y)) = sx_max_bytes y"
    and "\<And>y. sc_id ` {c \<in> set (sx_scopes (snd (f y))). sc_owner c = att} \<subseteq> sc_id ` {c \<in> set (sx_scopes y). sc_owner c = att}"
  shows "after (only_own att start) (on_scratch f) w"
proof (cases "wk_scratch w")
  case None
  with assms(1) show ?thesis by (simp add: after_def on_scratch_def throw_def)
next
  case (Some y)
  then have "snd (on_scratch f w) = w\<lparr>wk_scratch := Some (snd (f y))\<rparr>"
    by (auto simp: on_scratch_def split: prod.splits sum.splits)
  moreover obtain x where start: "start = Some x" using assms(1) Some by (auto simp: only_own_def split: option.splits)
  moreover have "\<forall>c \<in> set (sx_scopes (snd (f y))). sc_owner c = att \<longrightarrow> sc_id c \<in> registered w"
    using assms(1,4) Some start by (fastforce simp: only_own_def)
  ultimately show ?thesis
    using assms(1-3) Some by (simp add: after_def only_own_def registered_def)
qed

lemma only_own_set_scope:
  assumes "only_own att start w" and "\<And>y. snd (f y) = y \<or> snd (f y) = set_scope att i (g y) y"
    and "\<And>y c. sc_owner (g y c) = sc_owner c \<and> sc_id (g y c) = sc_id c"
  shows "after (only_own att start) (on_scratch f) w"
proof (rule only_own_scratch [OF assms(1)])
  fix y
  show "filter (\<lambda>c. sc_owner c \<noteq> att) (sx_scopes (snd (f y))) = filter (\<lambda>c. sc_owner c \<noteq> att) (sx_scopes y)"
    using assms(2) [of y] filter_set_scope [of "g y" att i y] assms(3) by auto
  show "sx_max_bytes (snd (f y)) = sx_max_bytes y" using assms(2) [of y] by (auto simp: set_scope_def)
  have "sc_id ` {c \<in> set (sx_scopes (set_scope att i (g y) y)). sc_owner c = att} \<subseteq> sc_id ` {c \<in> set (sx_scopes y). sc_owner c = att}"
    using assms(3) by (auto simp: set_scope_def split: if_splits)
  then show "sc_id ` {c \<in> set (sx_scopes (snd (f y))). sc_owner c = att} \<subseteq> sc_id ` {c \<in> set (sx_scopes y). sc_owner c = att}"
    using assms(2) [of y] by auto
qed

lemma only_own_open:
  assumes "only_own (st_attempt st) start w"
    and "\<And>i t. wk_scratch (g i t) = wk_scratch t"
    and "\<And>i z. registered (g i (w\<lparr>wk_scratch := Some z\<rparr>)) = insert i (registered w)"
  shows "after (only_own (st_attempt st) start) (sbind (new_scope st) (\<lambda>i. modify (g i))) w"
proof (cases "wk_scratch w")
  case None
  with assms(1) show ?thesis
    unfolding new_scope_def after_opened by (simp add: on_scratch_def throw_def)
next
  case (Some y)
  then obtain x where x: "start = Some x" "filter (\<lambda>c. sc_owner c \<noteq> st_attempt st) (sx_scopes y) = sx_scopes x"
    "sx_max_bytes y = sx_max_bytes x" "\<forall>c \<in> set (sx_scopes y). sc_owner c = st_attempt st \<longrightarrow> sc_id c \<in> registered w"
    using assms(1) by (auto simp: only_own_def split: option.splits)
  obtain r z where r: "create_scope (st_lib st) (st_attempt st) (max (st_capacity st) 1) y = (r, z)" by (metis surj_pair)
  show ?thesis
  proof (cases r)
    case (Inl e)
    then have "sx_scopes z = sx_scopes y" "sx_max_bytes z = sx_max_bytes y"
      using r by (auto simp: create_scope_def Let_def split: if_splits)
    then show ?thesis
      using r Inl Some x unfolding new_scope_def after_opened by (simp add: on_scratch_def only_own_def registered_def)
  next
    case (Inr i)
    then obtain c where c: "sx_scopes z = sx_scopes y @ [c]" "sc_owner c = st_attempt st" "sc_id c = i"
      and bound: "sx_max_bytes z = sx_max_bytes y"
      using r by (auto simp: create_scope_def Let_def split: if_splits)
    have "registered (g i (w\<lparr>wk_scratch := Some z\<rparr>)) = insert i (registered w)"
      by (rule assms(3))
    then show ?thesis
      using r Inr Some x c bound unfolding new_scope_def after_opened
      by (simp add: on_scratch_def only_own_def assms(2))
  qed
qed

lemma only_own_cong:
  "wk_scratch t = wk_scratch w \<Longrightarrow> registered t = registered w \<Longrightarrow> only_own att start t = only_own att start w"
  by (simp add: only_own_def cong: option.case_cong)

interpretation owned: working_invariant st "only_own (st_attempt st) start" for st start
proof
  fix w i
  assume w: "only_own (st_attempt st) start w"
  show "after (only_own (st_attempt st) start) (charge m) w" for m
  proof -
    have "wk_scratch (snd (charge m w)) = wk_scratch w" "registered (snd (charge m w)) = registered w"
      by (simp_all add: charge_def Let_def throw_def ret_def registered_def)
    from only_own_cong [OF this] w show ?thesis by (simp add: after_def)
  qed
  show "only_own (st_attempt st) start (release_bytes m w)" for m
  proof -
    have "wk_scratch (release_bytes m w) = wk_scratch w" "registered (release_bytes m w) = registered w"
      by (simp_all add: release_bytes_def registered_def)
    from only_own_cong [OF this] w show ?thesis by simp
  qed
  show "after (only_own (st_attempt st) start) (write_row st i k row) w" for k row
    unfolding write_row_def
    by (rule only_own_set_scope [OF w, where i = i and g = "\<lambda>y c. c\<lparr>sc_rows := sc_rows c @ [row],
            sc_used := sc_used c + xl_size (st_lib st) row\<rparr>"])
      (auto simp: write_sequential_def split: sum.splits)
  show "after (only_own (st_attempt st) start) (shut_scope st i) w"
    unfolding shut_scope_def
    by (rule only_own_set_scope [OF w, where i = i and g = "\<lambda>y c. c\<lparr>sc_closed := True\<rparr>"])
      (auto simp: close_scope_def split: sum.splits)
  show "after (only_own (st_attempt st) start) (sbind (new_scope st) (\<lambda>i. modify (\<lambda>w. w\<lparr>wk_tag_scope := Some i\<rparr>))) w"
    if "wk_tag_scope w = None"
    by (rule only_own_open [OF w]) (use that in \<open>auto simp: registered_def\<close>)
  show "after (only_own (st_attempt st) start) (sbind (new_scope st) (\<lambda>i. modify (\<lambda>w. w\<lparr>wk_unit_scope := Some i\<rparr>))) w"
    if "wk_unit_scope w = None"
    by (rule only_own_open [OF w]) (use that in \<open>auto simp: registered_def\<close>)
  show "after (only_own (st_attempt st) start) (sbind (new_scope st) (\<lambda>i. modify (\<lambda>w. w\<lparr>wk_work_scopes := wk_work_scopes w @ [i]\<rparr>))) w"
    by (rule only_own_open [OF w]) (auto simp: registered_def)
qed (simp add: only_own_def registered_def cong: option.case_cong)

text \<open>Closing drops every registered scope, and no other.\<close>

lemma delete_scope_scopes:
  "sx_scopes (snd (delete_scope att i y)) = filter (\<lambda>c. \<not> is_scope att i c) (sx_scopes y)"
  "sx_max_bytes (snd (delete_scope att i y)) = sx_max_bytes y"
proof -
  have "find_scope att i y = None \<Longrightarrow> filter (\<lambda>c. \<not> is_scope att i c) (sx_scopes y) = sx_scopes y"
    by (auto simp: find_scope_def find_None_iff intro!: filter_True)
  then show "sx_scopes (snd (delete_scope att i y)) = filter (\<lambda>c. \<not> is_scope att i c) (sx_scopes y)"
    by (auto simp: delete_scope_def require_owner_def split: option.splits sum.splits if_splits)
qed (auto simp: delete_scope_def split: sum.splits)

lemma drop_scopes:
  "wk_scratch w = Some y \<Longrightarrow> \<exists>z. wk_scratch (fold (drop_scope st) is w) = Some z \<and> sx_max_bytes z = sx_max_bytes y
    \<and> sx_scopes z = filter (\<lambda>c. \<not> (sc_owner c = st_attempt st \<and> sc_id c \<in> set is)) (sx_scopes y)"
proof (induction "is" arbitrary: w y)
  case (Cons i "is")
  have "wk_scratch (drop_scope st i w) = Some (snd (delete_scope (st_attempt st) i y))"
    using Cons.prems by (simp add: drop_scope_def)
  from Cons.IH [OF this] obtain z where z: "wk_scratch (fold (drop_scope st) is (drop_scope st i w)) = Some z"
    "sx_max_bytes z = sx_max_bytes y" "sx_scopes z = filter (\<lambda>c. \<not> (sc_owner c = st_attempt st \<and> sc_id c \<in> set is))
      (filter (\<lambda>c. \<not> is_scope (st_attempt st) i c) (sx_scopes y))" by (auto simp: delete_scope_scopes)
  have "sx_scopes z = filter (\<lambda>c. \<not> (sc_owner c = st_attempt st \<and> sc_id c \<in> set (i # is))) (sx_scopes y)"
    unfolding z(3) filter_filter by (rule filter_cong) (auto simp: is_scope_def)
  with z(1,2) show ?case by auto
qed simp

lemma close_both_fold:
  "close_both st w = fold (drop_scope st) ((case wk_tag_scope w of None \<Rightarrow> [] | Some i \<Rightarrow> [i]) @ wk_work_scopes w
     @ (case wk_unit_scope w of None \<Rightarrow> [] | Some i \<Rightarrow> [i])) w"
proof -
  have "wk_unit_scope (fold (drop_scope st) is w) = wk_unit_scope w" for "is" w
    by (induction "is" arbitrary: w) (simp_all add: drop_scope_def)
  then show ?thesis by (auto simp: close_both_def close_units_def close_tags_def split: option.splits)
qed

lemma close_leaves_start:
  assumes "only_own (st_attempt st) start w"
  shows "map_option sx_scopes (wk_scratch (close_both st w)) = map_option sx_scopes start
    \<and> map_option sx_max_bytes (wk_scratch (close_both st w)) = map_option sx_max_bytes start"
proof (cases "wk_scratch w")
  case None
  have "wk_scratch (fold (drop_scope st) is w) = None" if "wk_scratch w = None" for "is" w
    using that by (induction "is" arbitrary: w) (simp_all add: drop_scope_def)
  with None assms show ?thesis by (auto simp: close_both_fold only_own_def split: option.splits)
next
  case (Some y)
  then obtain x where x: "start = Some x" "filter (\<lambda>c. sc_owner c \<noteq> st_attempt st) (sx_scopes y) = sx_scopes x"
    "sx_max_bytes y = sx_max_bytes x" "\<forall>c \<in> set (sx_scopes y). sc_owner c = st_attempt st \<longrightarrow> sc_id c \<in> registered w"
    using assms by (auto simp: only_own_def split: option.splits)
  let ?is = "(case wk_tag_scope w of None \<Rightarrow> [] | Some i \<Rightarrow> [i]) @ wk_work_scopes w
     @ (case wk_unit_scope w of None \<Rightarrow> [] | Some i \<Rightarrow> [i])"
  have ids: "set ?is = registered w" by (auto simp: registered_def split: option.splits)
  from drop_scopes [OF Some, of st ?is] obtain z where z: "wk_scratch (close_both st w) = Some z"
    "sx_max_bytes z = sx_max_bytes y"
    "sx_scopes z = filter (\<lambda>c. \<not> (sc_owner c = st_attempt st \<and> sc_id c \<in> set ?is)) (sx_scopes y)"
    unfolding close_both_fold by blast
  have "sx_scopes z = filter (\<lambda>c. sc_owner c \<noteq> st_attempt st) (sx_scopes y)"
    unfolding z(3) ids by (rule filter_cong) (use x(4) in auto)
  with z x show ?thesis by simp
qed

end
