(* ===== verification/Frame_Props.thy ===== *)
theory Frame_Props
  imports Working_Invariant Registry_Props
begin

text \<open>
  What a validation guarantees: its verdict is that of the reference evaluation, whatever the memory
  budget and whatever was spilled; with room it returns; it never runs past its budget; it leaves the
  scratch store as it found it; and the publication decision is the one the contract states.
\<close>

section \<open>An example\<close>

definition eg_locator :: "nat \<Rightarrow> raw_locator" where
  "eg_locator n = \<lparr>rl_frame_sequence = n, rl_byte_offset = Some n, rl_byte_length = Some 1, rl_line_number = None\<rparr>"

definition eg_frame :: "nat \<Rightarrow> int \<Rightarrow> candidate_frame" where
  "eg_frame n k = \<lparr>fr_sequence = n, fr_locator = eg_locator n,
     fr_fields = Some [\<lparr>cf_name = ''id'', cf_value = Some (T_int64 k)\<rparr>], fr_structural = []\<rparr>"

definition eg_frames :: "candidate_frame list" where
  "eg_frames = [eg_frame 1 7, eg_frame 2 7]"

definition eg_unique :: landing_product_contract where
  "eg_unique = (let d = lc_delivery eg_first in eg_first\<lparr>lc_delivery := d\<lparr>dp_quality := (dp_quality d)
     \<lparr>qp_rules := [Unique_key [''id''] Sev_error]\<rparr>\<rparr>\<rparr>)"

definition eg_validation :: validation_lib where
  "eg_validation = \<lparr>vl_canonical = eg_lib\<lparr>cj_rule_digest := (\<lambda>r. ''u'')\<rparr>,
     vl_scratch = \<lparr>xl_scope_id = (\<lambda>att n. ''s'' @ replicate n CHR ''x''), xl_size = (\<lambda>row. 1)\<rparr>,
     vl_frame_size = (\<lambda>fr. 1),
     vl_key_tag = (\<lambda>fs vs. concat (map (\<lambda>v. case v of T_int64 k \<Rightarrow> show_nat (nat k) | _ \<Rightarrow> []) vs)),
     vl_outcome_digest = (\<lambda>s fs. if s = Accepted then ''yes'' else ''no''),
     vl_disposition_id = (\<lambda>claim loc rules. show_nat (rl_frame_sequence loc)),
     vl_result_digest = (\<lambda>r ds. concat (map fst ds))\<rparr>"

definition eg_request :: "nat \<Rightarrow> request_arguments" where
  "eg_request budget = \<lparr>ra_claim_digest = ''claim'', ra_delivery_id = ''d'', ra_evaluation_id = ''e'',
     ra_memory_budget = budget, ra_attempt_id = Some ''a'', ra_batch_findings = [], ra_product_version = None,
     ra_scratch_capacity = Some 3\<rparr>"

definition eg_scratch :: "scratch_row scratch" where
  "eg_scratch = \<lparr>sx_scopes = [], sx_created = 0, sx_max_bytes = 12\<rparr>"


lemma eg_spills: "case validate_frames eg_validation eg_unique eg_frames (eg_request 2) (Some eg_scratch) of
    (Inl e, y) \<Rightarrow> False
  | (Inr out, y) \<Rightarrow> vo_spilled_uniqueness out \<and> vo_peak_memory out = 2 \<and> map di_status (vo_dispositions out) = [Rejected, Rejected]"
  by code_simp

lemma eg_spilled:
  obtains out y where "validate_frames eg_validation eg_unique eg_frames (eg_request 2) (Some eg_scratch) = (Inr out, y)"
    "vo_spilled_uniqueness out" "vo_peak_memory out = 2" "map di_status (vo_dispositions out) = [Rejected, Rejected]"
  using eg_spills by (cases "validate_frames eg_validation eg_unique eg_frames (eg_request 2) (Some eg_scratch)") (auto split: sum.splits)

definition eg_evaluation :: evaluation where
  "eg_evaluation = projr (prepare_evaluation eg_validation eg_unique (eg_request 9))"

lemma eg_prepared: "prepare_evaluation eg_validation eg_unique (eg_request n) = Inr eg_evaluation"
proof -
  have "\<not> isl (prepare_evaluation eg_validation eg_unique (eg_request 9))" by code_simp
  moreover have "prepare_evaluation eg_validation eg_unique (eg_request n) = prepare_evaluation eg_validation eg_unique (eg_request 9)"
    by (simp add: prepare_evaluation_def eg_request_def)
  ultimately show ?thesis by (simp add: eg_evaluation_def)
qed

lemma eg_sequences: "distinct (map fr_sequence eg_frames)"
  by (simp add: eg_frames_def eg_frame_def)

section \<open>The verdict is the reference's\<close>

text \<open>A validation is refused, or its stream ends and is summed up.\<close>

lemma validate_frames_cases:
  assumes "validate_frames lib c frames a x = (r, y)"
  obtains e where "r = Inl e" "e \<noteq> Run_failure No_fuel" "y = x"
  | ev e w where "prepare_evaluation lib c a = Inr ev" "r = Inl (Run_failure e)" "y = wk_scratch w"
      "stream_frames lib (setting_of lib ev a) ev frames
        (fresh_working (ra_memory_budget a) (length (st_rules (setting_of lib ev a))) x) = (Inl e, w)"
  | ev ds w where "prepare_evaluation lib c a = Inr ev" "y = wk_scratch w"
      "stream_frames lib (setting_of lib ev a) ev frames
        (fresh_working (ra_memory_budget a) (length (st_rules (setting_of lib ev a))) x) = (Inr ds, w)"
      "r = (case summarise lib ev (length frames) ds of
          Inl e \<Rightarrow> Inl (Run_failure (Raised e))
        | Inr (result, snapshot) \<Rightarrow> Inr \<lparr>vo_validation = result, vo_dispositions = ds, vo_snapshot = snapshot,
            vo_peak_memory = mt_peak (wk_meter w), vo_spilled_uniqueness = wk_tags_spilled w\<rparr>)"
proof (cases "ra_memory_budget a < 1")
  case True
  with assms show thesis by (intro that(1)) (auto simp: validate_frames_def)
next
  case False
  show thesis
  proof (cases "prepare_evaluation lib c a")
    case (Inl e)
    have "e \<noteq> Run_failure No_fuel"
      using Inl by (auto simp: prepare_evaluation_def Let_def bind_eq_Inl of_contract_def split: sum.splits)
    with False Inl assms show thesis by (intro that(1)) (auto simp: validate_frames_def)
  next
    case (Inr ev)
    let ?st = "setting_of lib ev a"
    obtain r' w where w: "stream_frames lib ?st ev frames (fresh_working (ra_memory_budget a) (length (st_rules ?st)) x) = (r', w)"
      by (metis surj_pair)
    show thesis
    proof (cases r')
      case (Inl e)
      with False Inr w assms show thesis by (intro that(2) [of ev e w]) (auto simp: validate_frames_def Let_def)
    next
      case ds: (Inr ds)
      with False Inr w assms show thesis by (intro that(3) [of ev w ds]) (auto simp: validate_frames_def Let_def)
    qed
  qed
qed

lemma stream_is_reference:
  assumes "distinct (map fr_sequence frames)"
    and "stream_frames lib st ev frames (fresh_working budget (length (st_rules st)) x) = (r, w)"
  shows "r \<noteq> Inl No_fuel" and "r = Inr ds \<Longrightarrow> ds = reference_dispositions lib st ev frames"
proof -
  have "yields raised (stream_frames lib st ev frames) (fresh_working budget (length (st_rules st)) x)
    (\<lambda>ds t. ds = reference_dispositions lib st ev frames)"
    by (rule yields_stream_frames [OF assms(1)]) (simp add: raised_def)
  with assms(2) show "r \<noteq> Inl No_fuel" "r = Inr ds \<Longrightarrow> ds = reference_dispositions lib st ev frames"
    by (auto simp: yields_def raised_def)
qed

lemma validated_reference:
  assumes "distinct (map fr_sequence frames)" and "validate_frames lib c frames a x = (Inr out, y)"
  shows "\<exists>ev. prepare_evaluation lib c a = Inr ev
    \<and> vo_dispositions out = reference_dispositions lib (setting_of lib ev a) ev frames
    \<and> summarise lib ev (length frames) (reference_dispositions lib (setting_of lib ev a) ev frames)
        = Inr (vo_validation out, vo_snapshot out)"
  using assms(2)
proof (cases rule: validate_frames_cases)
  case (3 ev ds w)
  have "ds = reference_dispositions lib (setting_of lib ev a) ev frames"
    by (rule stream_is_reference(2) [OF assms(1) 3(3)]) simp
  with 3 show ?thesis by (auto split: sum.splits prod.splits)
qed simp_all

text \<open>C8: A validation that returns gives the dispositions of the reference evaluation, which has no memory
  budget and no scratch store, and the counts, decision and snapshot verdict that follow from them.\<close>

theorem validate_frames_reference:
  assumes "distinct (map fr_sequence frames)" and "validate_frames lib c frames a x = (Inr out, y)"
  shows "\<exists>ev. prepare_evaluation lib c a = Inr ev
    \<and> vo_dispositions out = reference_dispositions lib (setting_of lib ev a) ev frames
    \<and> summarise lib ev (length frames) (reference_dispositions lib (setting_of lib ev a) ev frames)
        = Inr (vo_validation out, vo_snapshot out)"
  using assms by (rule validated_reference)

theorem validate_frames_reference_witness:
  "\<exists>out y. validate_frames eg_validation eg_unique eg_frames (eg_request 2) (Some eg_scratch) = (Inr out, y)
    \<and> vo_spilled_uniqueness out
    \<and> vo_dispositions out = reference_dispositions eg_validation (setting_of eg_validation eg_evaluation (eg_request 2)) eg_evaluation eg_frames"
  by (rule eg_spilled) (use validate_frames_reference [OF eg_sequences] eg_prepared in fastforce)

text \<open>C23: A validation of frames with sequence numbers of their own never runs out of the fuel its loops
  are given: it returns, or it raises an error of the code.\<close>

theorem validate_frames_ends:
  assumes "distinct (map fr_sequence frames)"
  shows "fst (validate_frames lib c frames a x) \<noteq> Inl (Run_failure No_fuel)"
proof -
  obtain r y where "validate_frames lib c frames a x = (r, y)" by (metis surj_pair)
  note ran = this
  from ran show ?thesis
  proof (cases rule: validate_frames_cases)
    case (2 ev e w)
    have "e \<noteq> No_fuel" using stream_is_reference(1) [OF assms 2(4)] by simp
    with ran 2(2) show ?thesis by simp
  next
    case (3 ev ds w)
    with ran show ?thesis by (auto split: sum.splits prod.splits)
  qed (simp add: ran)
qed

theorem validate_frames_ends_witness:
  "fst (validate_frames eg_validation eg_unique eg_frames (eg_request 2) (Some eg_scratch)) \<noteq> Inl (Run_failure No_fuel)"
  by (rule validate_frames_ends [OF eg_sequences])

lemma validated_in_memory:
  assumes "distinct (map fr_sequence frames)" and "prepare_evaluation lib c a = Inr ev"
    and "delivery_bytes lib (setting_of lib ev a) (lb_physical_columns (lc_landing c)) (ev_rules ev) frames
      \<le> ra_memory_budget a"
    and "1 \<le> ra_memory_budget a"
    and "summarise lib ev (length frames) (reference_dispositions lib (setting_of lib ev a) ev frames) = Inr (v, s)"
  shows "\<exists>out y. validate_frames lib c frames a x = (Inr out, y) \<and> vo_validation out = v \<and> vo_snapshot out = s
    \<and> vo_dispositions out = reference_dispositions lib (setting_of lib ev a) ev frames"
proof -
  let ?st = "setting_of lib ev a"
  have "ev_contract ev = c" using assms(2) by (auto simp: prepare_evaluation_def Let_def bind_eq_Inr of_contract_def)
  then have "yields no_error (stream_frames lib ?st ev frames) (fresh_working (ra_memory_budget a) (length (st_rules ?st)) x)
    (\<lambda>ds t. ds = reference_dispositions lib ?st ev frames)"
    using assms(3) by (intro yields_stream_frames [OF assms(1)]) simp
  from yields_total [OF this] obtain t where
    "stream_frames lib ?st ev frames (fresh_working (ra_memory_budget a) (length (st_rules ?st)) x)
      = (Inr (reference_dispositions lib ?st ev frames), t)" by blast
  with assms(2,4,5) show ?thesis by (simp add: validate_frames_def Let_def)
qed

text \<open>C26: With a budget of the bytes of the delivery, a validation returns, with any scratch store or none,
  unless its publication policy is refused.\<close>

theorem validate_frames_in_memory:
  assumes "distinct (map fr_sequence frames)" and "prepare_evaluation lib c a = Inr ev"
    and "delivery_bytes lib (setting_of lib ev a) (lb_physical_columns (lc_landing c)) (ev_rules ev) frames
      \<le> ra_memory_budget a"
    and "1 \<le> ra_memory_budget a"
    and "summarise lib ev (length frames) (reference_dispositions lib (setting_of lib ev a) ev frames) = Inr (v, s)"
  shows "\<exists>out y. validate_frames lib c frames a x = (Inr out, y) \<and> vo_validation out = v \<and> vo_snapshot out = s
    \<and> vo_dispositions out = reference_dispositions lib (setting_of lib ev a) ev frames"
  using assms by (rule validated_in_memory)

text \<open>The scratch capacity and the owner of the scopes are of no account to what is found or held in memory.\<close>

lemma setting_cong:
  assumes "st_rules st = st_rules t" and "st_lib st = st_lib t"
  shows "delivery_bytes lib st columns rules frames = delivery_bytes lib t columns rules frames"
    and "reference_dispositions lib st ev frames = reference_dispositions lib t ev frames"
proof -
  have numbered: "numbered_rules st = numbered_rules t" using assms(1) by (simp add: numbered_rules_def)
  then have rows: "frame_rows lib st = frame_rows lib t" by (simp add: frame_rows_def fun_eq_iff)
  have "bytes_of st = bytes_of t" using assms(2) by (simp add: bytes_of_def fun_eq_iff)
  then have "frame_bytes lib st columns rules = frame_bytes lib t columns rules"
    using numbered rows assms(2) by (simp add: fun_eq_iff frame_bytes_def reference_unit_def)
  then show "delivery_bytes lib st columns rules frames = delivery_bytes lib t columns rules frames"
    by (simp only: delivery_bytes_def)
  have "delivery_rows lib st frames = delivery_rows lib t frames" by (simp only: delivery_rows_def rows)
  with numbered assms(1) show "reference_dispositions lib st ev frames = reference_dispositions lib t ev frames"
    by (simp add: reference_dispositions_def reference_unit_def)
qed

lemma eg_memory:
  assumes "prepare_evaluation eg_validation eg_unique a = Inr eg_evaluation" and "ra_memory_budget a = 9"
  shows "1 \<le> ra_memory_budget a"
    and "delivery_bytes eg_validation (setting_of eg_validation eg_evaluation a)
      (lb_physical_columns (lc_landing eg_unique)) (ev_rules eg_evaluation) eg_frames \<le> ra_memory_budget a"
    and "\<exists>v s. summarise eg_validation eg_evaluation (length eg_frames)
      (reference_dispositions eg_validation (setting_of eg_validation eg_evaluation a) eg_evaluation eg_frames) = Inr (v, s)"
proof -
  let ?st = "setting_of eg_validation eg_evaluation a" and ?eg = "setting_of eg_validation eg_evaluation (eg_request 9)"
  have same: "st_rules ?st = st_rules ?eg" "st_lib ?st = st_lib ?eg" by (simp_all add: setting_of_def)
  show "1 \<le> ra_memory_budget a" using assms(2) by simp
  have "delivery_bytes eg_validation ?eg (lb_physical_columns (lc_landing eg_unique)) (ev_rules eg_evaluation) eg_frames \<le> 9"
    by code_simp
  then show "delivery_bytes eg_validation ?st (lb_physical_columns (lc_landing eg_unique)) (ev_rules eg_evaluation) eg_frames
      \<le> ra_memory_budget a" unfolding setting_cong(1) [OF same] assms(2) .
  have "\<not> isl (summarise eg_validation eg_evaluation (length eg_frames)
      (reference_dispositions eg_validation ?eg eg_evaluation eg_frames))" by code_simp
  then show "\<exists>v s. summarise eg_validation eg_evaluation (length eg_frames)
      (reference_dispositions eg_validation ?st eg_evaluation eg_frames) = Inr (v, s)"
    unfolding setting_cong(2) [OF same] by (metis isl_def obj_sumE surj_pair)
qed

theorem validate_frames_in_memory_witness:
  "\<exists>out y. validate_frames eg_validation eg_unique eg_frames (eg_request 9) None = (Inr out, y)
    \<and> vo_dispositions out = reference_dispositions eg_validation (setting_of eg_validation eg_evaluation (eg_request 9)) eg_evaluation eg_frames"
proof -
  have "ra_memory_budget (eg_request 9) = 9" by (simp add: eg_request_def)
  note memory = eg_memory [OF eg_prepared this]
  from memory(3) obtain v s where "summarise eg_validation eg_evaluation (length eg_frames)
      (reference_dispositions eg_validation (setting_of eg_validation eg_evaluation (eg_request 9)) eg_evaluation eg_frames) = Inr (v, s)"
    by blast
  from validate_frames_in_memory [OF eg_sequences eg_prepared memory(2,1) this] show ?thesis by blast
qed

section \<open>Memory and scratch\<close>

text \<open>C28: The peak of the working memory never passes the declared budget.\<close>

theorem peak_within_budget:
  assumes "validate_frames lib c frames a x = (Inr out, y)"
  shows "vo_peak_memory out \<le> ra_memory_budget a"
  using assms
proof (cases rule: validate_frames_cases)
  case (3 ev ds w)
  have "within_budget (ra_memory_budget a) (fresh_working (ra_memory_budget a) (length (st_rules (setting_of lib ev a))) x)"
    by (simp add: within_budget_def fresh_working_def)
  from metered.stream_closes [OF this, of lib "setting_of lib ev a" ev frames] 3(3)
  have "mt_peak (wk_meter w) \<le> ra_memory_budget a" by (auto simp: close_both_meter within_budget_def)
  with 3(4) show ?thesis by (auto split: sum.splits prod.splits)
qed simp_all

theorem peak_within_budget_witness:
  "\<exists>out y. validate_frames eg_validation eg_unique eg_frames (eg_request 2) (Some eg_scratch) = (Inr out, y)
    \<and> vo_peak_memory out \<le> 2"
  by (rule eg_spilled) (use peak_within_budget [of eg_validation eg_unique eg_frames "eg_request 2" "Some eg_scratch"]
      in \<open>auto simp: eg_request_def\<close>)

text \<open>C19: Whether a validation returns or raises, it leaves the scratch store with the scopes it found, when
  none of them is of the attempt: every scope it opened is deleted and no other is touched.\<close>

theorem scratch_left_as_found:
  assumes "validate_frames lib c frames a (Some x) = (r, y)" and "owner a \<notin> sc_owner ` set (sx_scopes x)"
  shows "\<exists>z. y = Some z \<and> sx_scopes z = sx_scopes x \<and> sx_max_bytes z = sx_max_bytes x"
proof -
  have left: "\<exists>z. wk_scratch w = Some z \<and> sx_scopes z = sx_scopes x \<and> sx_max_bytes z = sx_max_bytes x"
    if "stream_frames lib (setting_of lib ev a) ev frames
      (fresh_working (ra_memory_budget a) (length (st_rules (setting_of lib ev a))) (Some x)) = (r', w)" for ev r' w
  proof -
    let ?st = "setting_of lib ev a"
    have "filter (\<lambda>c. sc_owner c \<noteq> owner a) (sx_scopes x) = sx_scopes x"
      using assms(2) by (intro filter_True) force
    then have "only_own (st_attempt ?st) (Some x) (fresh_working (ra_memory_budget a) (length (st_rules ?st)) (Some x))"
      using assms(2) by (force simp: only_own_def fresh_working_def setting_of_def)
    from owned.stream_closes [OF this, of lib ev frames] that
    obtain t where "only_own (st_attempt ?st) (Some x) t" "w = close_both ?st t" by auto
    with close_leaves_start [of ?st "Some x" t] show ?thesis by auto
  qed
  from assms(1) show ?thesis by (cases rule: validate_frames_cases) (use left in auto)
qed

theorem scratch_left_as_found_witness:
  "\<exists>z. snd (validate_frames eg_validation eg_unique eg_frames (eg_request 2) (Some eg_scratch)) = Some z \<and> sx_scopes z = []"
proof -
  obtain out y where run: "validate_frames eg_validation eg_unique eg_frames (eg_request 2) (Some eg_scratch) = (Inr out, y)"
    by (rule eg_spilled)
  have "owner (eg_request 2) \<notin> sc_owner ` set (sx_scopes eg_scratch)" by (simp add: eg_scratch_def)
  from scratch_left_as_found [OF run this] obtain z where "y = Some z" "sx_scopes z = sx_scopes eg_scratch" by blast
  then show ?thesis unfolding run snd_conv by (simp add: eg_scratch_def)
qed

section \<open>The count and the decision\<close>

lemma length_filter_not: "length (filter (\<lambda>x. f x = Rejected) xs) + length (filter (\<lambda>x. f x = Accepted) xs) = length xs"
proof (induction xs)
  case (Cons x xs)
  then show ?case by (cases "f x") simp_all
qed simp

lemma summarise_Inr:
  assumes "summarise lib ev n ds = Inr (v, s)"
  shows "vr_framed_count v = n \<and> vr_error_count v = length (filter (\<lambda>x. di_status x = Rejected) ds)
    \<and> vr_accepted_count v = length (filter (\<lambda>x. di_status x = Accepted) ds)
    \<and> vr_quarantined_count v = vr_error_count v \<and> vr_error_numerator v = vr_error_count v \<and> vr_error_denominator v = n"
  using assms by (auto simp: summarise_def Let_def bind_eq_Inr)

text \<open>Every framed unit gets one disposition, in receiver order, rejected exactly when it did not
  parse or one of its findings is an error, its findings sorted and without repeats; and the counts add up.\<close>

theorem every_frame_is_disposed:
  assumes "distinct (map fr_sequence frames)" and "validate_frames lib c frames a x = (Inr out, y)"
  shows "map di_locator (vo_dispositions out) = map fr_locator frames
    \<and> list_all2 (\<lambda>fr d. (di_status d = Rejected) = (frame_failed fr \<or> (\<exists>f \<in> set (di_findings d). fi_severity f = Sev_error))
        \<and> sorted (map finding_identity (di_findings d)) \<and> distinct (map finding_identity (di_findings d)))
      frames (vo_dispositions out)
    \<and> vr_framed_count (vo_validation out) = length frames
    \<and> vr_accepted_count (vo_validation out) + vr_error_count (vo_validation out) = length frames
    \<and> vr_error_count (vo_validation out) = length (filter (\<lambda>d. di_status d = Rejected) (vo_dispositions out))
    \<and> vr_quarantined_count (vo_validation out) = vr_error_count (vo_validation out)"
proof -
  from validated_reference [OF assms] obtain ev where
    ds: "vo_dispositions out = reference_dispositions lib (setting_of lib ev a) ev frames"
    and sum: "summarise lib ev (length frames) (vo_dispositions out) = Inr (vo_validation out, vo_snapshot out)" by metis
  have len: "length (vo_dispositions out) = length frames" by (simp add: ds reference_dispositions_def)
  have "map di_locator (vo_dispositions out) = map fr_locator frames"
    by (simp add: ds reference_dispositions_def comp_def unit_disposition_def reference_unit_def Let_def)
  moreover have "list_all2 (\<lambda>fr d. (di_status d = Rejected) = (frame_failed fr \<or> (\<exists>f \<in> set (di_findings d). fi_severity f = Sev_error))
        \<and> sorted (map finding_identity (di_findings d)) \<and> distinct (map finding_identity (di_findings d)))
      frames (vo_dispositions out)"
    unfolding ds reference_dispositions_def list.rel_map
    by (rule list.rel_refl_strong) (auto simp: unit_disposition_def reference_unit_def Let_def sort_findings_correct)
  ultimately show ?thesis
    using summarise_Inr [OF sum] length_filter_not [of di_status "vo_dispositions out"] len by auto
qed

theorem every_frame_is_disposed_witness:
  "\<exists>out y. validate_frames eg_validation eg_unique eg_frames (eg_request 2) (Some eg_scratch) = (Inr out, y)
    \<and> vr_error_count (vo_validation out) = 2 \<and> vr_accepted_count (vo_validation out) = 0"
proof -
  obtain out y where run: "validate_frames eg_validation eg_unique eg_frames (eg_request 2) (Some eg_scratch) = (Inr out, y)"
    "map di_status (vo_dispositions out) = [Rejected, Rejected]" by (rule eg_spilled)
  have "length (filter (\<lambda>d. di_status d = Rejected) (vo_dispositions out)) = length (filter (\<lambda>s. s = Rejected) (map di_status (vo_dispositions out)))"
    by (simp add: filter_map comp_def)
  also have "\<dots> = 2" by (simp add: run(2))
  finally show ?thesis
    using every_frame_is_disposed [OF eg_sequences run(1)] run(1) by (auto simp: eg_frames_def)
qed

text \<open>C27: The decision follows the policy: a batch error rejects, no error publishes all, and valid rows alone
  are published exactly when partial publication is allowed, some row passed, and the errors are at most
  the stated fraction of the frames. The comparison is exact as long as the frames and the digits of the
  bound stay within 27 digits together.\<close>

theorem publication_decision_exact:
  assumes "decimal_of text = (u, d)" and "errors \<le> framed" and "framed * 10 ^ d \<le> 10 ^ 27"
    and "mode = Publish_valid_rows \<longrightarrow> allows_partial mode delivery progress \<and> 0 \<le> u \<and> u < 10 ^ d"
    and "mode = All_or_nothing \<longrightarrow> u = 0"
  shows "decide_publication mode text delivery progress framed errors passing batch_error = Inr
    (if batch_error then Decide_reject
     else if errors = 0 then Decide_all
     else if mode = Publish_valid_rows \<and> 1 \<le> passing \<and> int errors * 10 ^ d \<le> u * int framed then Decide_valid_rows
     else Decide_reject)"
proof -
  have partial_mode: "allows_partial mode delivery progress \<longleftrightarrow> mode = Publish_valid_rows"
    using assms(4) by (auto simp: allows_partial_def)
  have exceeds: "fraction_exceeds errors framed (u, d) \<longleftrightarrow> int errors * 10 ^ d > u * int framed" if "errors \<noteq> 0"
    by (rule fraction_exceeds_exact) (use that assms(2,3) in auto)
  have "framed = 0 \<Longrightarrow> errors = 0" using assms(2) by simp
  then show ?thesis
    using assms(4,5) exceeds unfolding decide_publication_def Let_def partial_mode assms(1)
    by (cases mode) (auto simp: not_less)
qed

theorem publication_decision_exact_witness:
  "decide_publication Publish_valid_rows ''0.05'' Append_only Opaque_batch_progress 100 5 95 False = Inr Decide_valid_rows
    \<and> decide_publication Publish_valid_rows ''0.05'' Append_only Opaque_batch_progress 99 5 94 False = Inr Decide_reject"
proof -
  have bound: "decimal_of ''0.05'' = (5, 2)" by code_simp
  show ?thesis
    using publication_decision_exact [OF bound, of 5 100 Publish_valid_rows Append_only Opaque_batch_progress 95 False]
      publication_decision_exact [OF bound, of 5 99 Publish_valid_rows Append_only Opaque_batch_progress 94 False]
    by (simp add: allows_partial_def)
qed

lemma summarise_snapshot:
  assumes "summarise lib ev n ds = Inr (v, t)" and "dp_mode (lc_delivery (ev_contract ev)) = Complete_snapshot"
  shows "\<exists>s. t = Some s \<and> sa_publication_decision s = vr_decision v
    \<and> (sa_accepted_snapshot_complete s = (vr_decision v = Decide_all))
    \<and> vr_decision v \<in> {Decide_all, Decide_reject} \<and> (sa_accepted_snapshot_complete s \<longrightarrow> vr_error_count v = 0)
    \<and> sa_validation_result_digest s = vr_digest v"
  using assms by (auto simp: summarise_def Let_def bind_eq_Inr)

text \<open>A complete snapshot is published whole or not at all: its verdict is present, and it says complete
  exactly when everything is published, which takes that no unit was rejected.\<close>

theorem snapshot_is_whole:
  assumes "validate_frames lib c frames a x = (Inr out, y)" and "dp_mode (lc_delivery c) = Complete_snapshot"
  shows "\<exists>s. vo_snapshot out = Some s \<and> sa_publication_decision s = vr_decision (vo_validation out)
    \<and> (sa_accepted_snapshot_complete s = (vr_decision (vo_validation out) = Decide_all))
    \<and> vr_decision (vo_validation out) \<in> {Decide_all, Decide_reject}
    \<and> (sa_accepted_snapshot_complete s \<longrightarrow> vr_error_count (vo_validation out) = 0)
    \<and> sa_validation_result_digest s = vr_digest (vo_validation out)"
  using assms(1)
proof (cases rule: validate_frames_cases)
  case (3 ev ds w)
  have "ev_contract ev = c" using 3(1) by (auto simp: prepare_evaluation_def Let_def bind_eq_Inr of_contract_def)
  with assms(2) have mode: "dp_mode (lc_delivery (ev_contract ev)) = Complete_snapshot" by simp
  show ?thesis
  proof (cases "summarise lib ev (length frames) ds")
    case (Inr vt)
    with 3(4) have "summarise lib ev (length frames) ds = Inr (vo_validation out, vo_snapshot out)" by (cases vt) auto
    from summarise_snapshot [OF this mode] show ?thesis .
  qed (use 3(4) in simp)
qed simp_all

definition eg_whole :: landing_product_contract where
  "eg_whole = (let d = lc_delivery eg_unique in eg_unique\<lparr>lc_delivery := d\<lparr>dp_mode := Complete_snapshot\<rparr>\<rparr>)"

theorem snapshot_is_whole_witness:
  "\<exists>out y s. validate_frames eg_validation eg_whole [eg_frame 1 7] (eg_request 9) None = (Inr out, y)
    \<and> vo_snapshot out = Some s \<and> sa_publication_decision s = vr_decision (vo_validation out)"
proof -
  have "\<not> isl (fst (validate_frames eg_validation eg_whole [eg_frame 1 7] (eg_request 9) None))" by code_simp
  then obtain out y where run: "validate_frames eg_validation eg_whole [eg_frame 1 7] (eg_request 9) None = (Inr out, y)"
    by (metis isl_def obj_sumE surj_pair fst_conv)
  have "dp_mode (lc_delivery eg_whole) = Complete_snapshot" by (simp add: eg_whole_def Let_def)
  from snapshot_is_whole [OF run this] run show ?thesis by blast
qed

section \<open>Validating again\<close>

lemma same_rules:
  assumes "prepare_evaluation lib c a = Inr ev" and "prepare_evaluation lib c b = Inr ev'"
  shows "ev_rules ev = ev_rules ev' \<and> ev_contract ev = ev_contract ev'
    \<and> ev_ruleset_digest ev = ev_ruleset_digest ev' \<and> current_ruleset (vl_canonical lib) c = Inr (ev_ruleset_digest ev)"
  using assms by (auto simp: prepare_evaluation_def current_ruleset_def Let_def bind_eq_Inr of_contract_def split: sum.splits)

lemma same_findings:
  assumes "ev_rules ev = ev_rules ev'" and "ev_contract ev = ev_contract ev'"
  shows "map di_findings (reference_dispositions lib (setting_of lib ev a) ev frames)
    = map di_findings (reference_dispositions lib (setting_of lib ev' b) ev' frames)"
proof -
  have rules: "st_rules (setting_of lib ev a) = st_rules (setting_of lib ev' b)"
    using assms(1) by (simp add: setting_of_def)
  then have numbered: "numbered_rules (setting_of lib ev a) = numbered_rules (setting_of lib ev' b)"
    by (simp add: numbered_rules_def)
  then have "frame_rows lib (setting_of lib ev a) = frame_rows lib (setting_of lib ev' b)"
    by (simp add: frame_rows_def fun_eq_iff)
  then have "delivery_rows lib (setting_of lib ev a) frames = delivery_rows lib (setting_of lib ev' b) frames"
    by (simp only: delivery_rows_def)
  then show ?thesis
    using rules numbered assms
    by (simp add: reference_dispositions_def unit_disposition_def reference_unit_def Let_def comp_def)
qed

text \<open>Validating the same frames again under the ruleset they were judged by reproduces the findings,
  whatever the budget, the attempt and the scratch store of either run: a second run that returns is
  never a decision conflict.\<close>

theorem revalidation_reproduces:
  assumes "distinct (map fr_sequence frames)" and "validate_frames lib c frames a x = (Inr out, y)"
    and "current_ruleset (vl_canonical lib) c = Inr ruleset"
  shows "fst (revalidate_frames lib c frames ruleset (vo_dispositions out) b z) =
    (case fst (validate_frames lib c frames (b\<lparr>ra_product_version := None, ra_scratch_capacity := None\<rparr>) z) of
       Inl e \<Rightarrow> Inl e
     | Inr again \<Rightarrow> Inr (Unchanged_finding, again))"
proof -
  let ?b = "b\<lparr>ra_product_version := None, ra_scratch_capacity := None\<rparr>"
  obtain r v where r: "validate_frames lib c frames ?b z = (r, v)" by (metis surj_pair)
  show ?thesis
  proof (cases r)
    case (Inl e)
    with r assms(3) show ?thesis by (simp add: revalidate_frames_def)
  next
    case (Inr again)
    from validated_reference [OF assms(1,2)] obtain ev where ev: "prepare_evaluation lib c a = Inr ev"
      "vo_dispositions out = reference_dispositions lib (setting_of lib ev a) ev frames" by blast
    from validated_reference [OF assms(1) r [unfolded Inr]] obtain ev' where ev': "prepare_evaluation lib c ?b = Inr ev'"
      "vo_dispositions again = reference_dispositions lib (setting_of lib ev' ?b) ev' frames" by blast
    have "map di_findings (vo_dispositions again) = map di_findings (vo_dispositions out)"
      unfolding ev(2) ev'(2) using same_rules [OF ev(1) ev'(1)] by (intro same_findings) simp_all
    then have "map (\<lambda>d. map finding_identity (di_findings d)) (vo_dispositions again)
        = map (\<lambda>d. map finding_identity (di_findings d)) (vo_dispositions out)"
      by (metis (no_types, lifting) map_map comp_def map_eq_conv)
    then have "finding_identities (vo_dispositions again) = finding_identities (vo_dispositions out)"
      by (simp add: finding_identities_def)
    with r Inr assms(3) show ?thesis by (simp add: revalidate_frames_def)
  qed
qed

theorem revalidation_reproduces_witness:
  "\<exists>out y ruleset. validate_frames eg_validation eg_unique eg_frames (eg_request 2) (Some eg_scratch) = (Inr out, y)
    \<and> fst (revalidate_frames eg_validation eg_unique eg_frames ruleset (vo_dispositions out) (eg_request 9) None)
      \<noteq> Inl (Run_failure (Raised (Port_error Decision_conflict)))"
proof -
  obtain out y where run: "validate_frames eg_validation eg_unique eg_frames (eg_request 2) (Some eg_scratch) = (Inr out, y)"
    by (rule eg_spilled)
  have "\<not> isl (current_ruleset (vl_canonical eg_validation) eg_unique)" by code_simp
  then obtain ruleset where ruleset: "current_ruleset (vl_canonical eg_validation) eg_unique = Inr ruleset"
    by (metis isl_def obj_sumE)
  let ?again = "(eg_request 9)\<lparr>ra_product_version := None, ra_scratch_capacity := None\<rparr>"
  have prepared: "prepare_evaluation eg_validation eg_unique ?again = Inr eg_evaluation"
    using eg_prepared [of 9] by (simp add: prepare_evaluation_def eg_request_def)
  have "ra_memory_budget ?again = 9" by (simp add: eg_request_def)
  note memory = eg_memory [OF prepared this]
  from memory(3) obtain v s where "summarise eg_validation eg_evaluation (length eg_frames)
      (reference_dispositions eg_validation (setting_of eg_validation eg_evaluation ?again) eg_evaluation eg_frames) = Inr (v, s)"
    by blast
  from validated_in_memory [OF eg_sequences prepared memory(2,1) this]
  obtain again where "fst (validate_frames eg_validation eg_unique eg_frames ?again None) = Inr again" by (metis fst_conv)
  then have "fst (revalidate_frames eg_validation eg_unique eg_frames ruleset (vo_dispositions out) (eg_request 9) None)
      = Inr (Unchanged_finding, again)"
    using revalidation_reproduces [OF eg_sequences run ruleset, of "eg_request 9" None] by (simp only: sum.case)
  with run show ?thesis by (metis Inl_Inr_False)
qed

section \<open>Duplicate keys\<close>












section \<open>Through scratch\<close>

text \<open>Once tags were spilled, the check through scratch returns the duplicates of all rows observed, as
  long as the scratch store has room for one more scope than there are rows and every row fits one; so
  writing, building sorted runs, merging and scanning all end.\<close>

theorem duplicates_found_through_scratch:
  assumes "tag_state st w rows" and "distinct (map (\<lambda>r. (ur_rule r, ur_sequence r)) rows)"
    and "bytes_of st (map Tag_row rows) \<le> scope_bytes st" and "room st (Suc (length rows)) w"
  shows "\<exists>f t. duplicate_findings st w = (Inr f, t) \<and> f = duplicates_of (st_rules st) rows"
proof -
  have "fits no_error st (map Tag_row rows)" using assms(3) by (simp add: fits_def)
  moreover have "ample no_error st (Suc (length rows)) w" using assms(4) by (simp add: ample_def)
  ultimately have "yields no_error (duplicate_findings st) w
      (\<lambda>f t. f = duplicates_of (st_rules st) rows \<and> found_step st w t)"
    by (intro yields_duplicate_findings [OF assms(1) _ assms(2)]) auto
  from yields_total [OF this] show ?thesis by blast
qed

definition eg_spilled_tags :: working where
  "eg_spilled_tags = (fresh_working 5 1 (Some (eg_scratch\<lparr>sx_created := 1, sx_scopes := [\<lparr>sc_id = ''sx'', sc_owner = ''a'',
     sc_capacity = 3, sc_used = 2, sc_closed = False,
     sc_rows = [Tag_row \<lparr>ur_rule = 0, ur_tag = ''7'', ur_sequence = 1, ur_locator = eg_locator 1\<rparr>,
       Tag_row \<lparr>ur_rule = 0, ur_tag = ''7'', ur_sequence = 2, ur_locator = eg_locator 2\<rparr>]\<rparr>]\<rparr>)))
     \<lparr>wk_tag_scope := Some ''sx'', wk_tag_next := 2, wk_tags_spilled := True\<rparr>"

theorem duplicates_found_through_scratch_witness:
  "\<exists>f t. duplicate_findings (setting_of eg_validation eg_evaluation (eg_request 2)) eg_spilled_tags = (Inr f, t)"
proof -
  let ?st = "setting_of eg_validation eg_evaluation (eg_request 2)"
  let ?rows = "[\<lparr>ur_rule = 0, ur_tag = ''7'', ur_sequence = 1, ur_locator = eg_locator 1\<rparr>,
       \<lparr>ur_rule = 0, ur_tag = ''7'', ur_sequence = 2, ur_locator = eg_locator 2\<rparr>]"
  have setting: "st_attempt ?st = ''a''" "st_capacity ?st = 3" "st_lib ?st = vl_scratch eg_validation"
    "xl_size (vl_scratch eg_validation) = (\<lambda>row. 1)" "xl_scope_id (vl_scratch eg_validation) = (\<lambda>att n. ''s'' @ replicate n CHR ''x'')"
    by (simp_all add: setting_of_def owner_def scratch_capacity_def eg_request_def eg_validation_def)
  have rules: "length (st_rules ?st) = 1" by code_simp
  have at: "scope_at ?st eg_spilled_tags ''sx'' = Some \<lparr>sc_id = ''sx'', sc_owner = ''a'',
     sc_capacity = 3, sc_used = 2, sc_closed = False, sc_rows = map Tag_row ?rows\<rparr>"
    by (simp add: scope_at_def eg_spilled_tags_def fresh_working_def find_scope_def is_scope_def setting)
  have "holds ?st eg_spilled_tags ''sx'' False (map Tag_row ?rows)"
    unfolding holds_def at by (simp add: setting scope_bytes_def bytes_of_def)
  then have "tag_state ?st eg_spilled_tags ?rows"
    using rules by (auto simp: tag_state_def eg_spilled_tags_def fresh_working_def tidy_def tag_rows_def small_def setting page_budget_def
        intro!: exI [of _ ?rows])
  moreover have "distinct (map (\<lambda>r. (ur_rule r, ur_sequence r)) ?rows)" by simp
  moreover have "bytes_of ?st (map Tag_row ?rows) \<le> scope_bytes ?st" by (simp add: bytes_of_def scope_bytes_def setting)
  moreover have "room ?st (Suc (length ?rows)) eg_spilled_tags"
  proof -
    have "(''sx'' :: string) \<noteq> ''s'' @ replicate k CHR ''x''" if "2 \<le> k" for k
      using that by (cases k; cases "k - 1") auto
    then show ?thesis
      by (auto simp: room_def eg_spilled_tags_def fresh_working_def eg_scratch_def reserved_aggregate_def scope_bytes_def
          setting find_scope_def is_scope_def inj_on_def replicate_eq_replicate)
  qed
  ultimately show ?thesis using duplicates_found_through_scratch by blast
qed

section \<open>The scratch store\<close>

text \<open>Requests of other attempts, in any order and number, leave the scopes of an attempt as they were,
  and the store stays within its bounds: identities differ, every scope holds no more than it reserved,
  and the reservations together no more than the store has.\<close>

theorem scratch_requests_are_isolated:
  assumes "scratch_inv lib s" and "\<forall>q \<in> set qs. \<not> touches q own"
  shows "scratch_inv lib (fold (scratch_apply lib) qs s)
    \<and> filter (\<lambda>c. sc_owner c = own) (sx_scopes (fold (scratch_apply lib) qs s))
        = filter (\<lambda>c. sc_owner c = own) (sx_scopes s)"
  using assms
proof (induction qs arbitrary: s)
  case (Cons q qs)
  have "scratch_inv lib (scratch_apply lib q s)" by (rule scratch_apply_inv [OF Cons.prems(1)])
  from Cons.IH [OF this] Cons.prems(2) scratch_apply_others [of q own lib s] show ?case by simp
qed simp

theorem scratch_requests_are_isolated_witness:
  "filter (\<lambda>c. sc_owner c = ''a'') (sx_scopes (fold (scratch_apply (vl_scratch eg_validation))
     [Create_request ''b'' 3, Close_request ''b'' ''sxx'', Cleanup_request [''a''] 5] (eg_scratch\<lparr>sx_created := 1,
       sx_scopes := [\<lparr>sc_id = ''sx'', sc_owner = ''a'', sc_capacity = 3, sc_used = 0, sc_closed = False, sc_rows = []\<rparr>]\<rparr>)))
   = [\<lparr>sc_id = ''sx'', sc_owner = ''a'', sc_capacity = 3, sc_used = 0, sc_closed = False, sc_rows = []\<rparr>]"
proof -
  let ?s = "eg_scratch\<lparr>sx_created := 1, sx_scopes := [\<lparr>sc_id = ''sx'', sc_owner = ''a'', sc_capacity = 3,
    sc_used = 0, sc_closed = False, sc_rows = []\<rparr>]\<rparr>"
  let ?qs = "[Create_request ''b'' 3, Close_request ''b'' ''sxx'', Cleanup_request [''a''] 5]"
  have "scratch_inv (vl_scratch eg_validation) ?s" by (simp add: scratch_inv_def reserved_aggregate_def eg_scratch_def)
  moreover have "\<forall>q \<in> set ?qs. \<not> touches q ''a''" by simp
  ultimately show ?thesis using scratch_requests_are_isolated [of "vl_scratch eg_validation" ?s ?qs "''a''"] by simp
qed

section \<open>What modelling showed\<close>

definition eg_keyless :: "nat \<Rightarrow> candidate_frame" where
  "eg_keyless n = (eg_frame n 7)\<lparr>fr_fields := Some [\<lparr>cf_name = ''id'', cf_value = None\<rparr>]\<rparr>"

text \<open>More memory can be worse. Observing a tag spills tags only, and adding a unit spills units only,
  so a delivery can be refused for its memory with scratch to spare: two frames without a key and one
  with a key pass with a budget of two bytes and are refused with three.\<close>

lemma more_memory_can_be_refused:
  "\<not> isl (fst (validate_frames eg_validation eg_unique [eg_keyless 1, eg_keyless 2, eg_frame 3 7] (eg_request 2) (Some eg_scratch)))
    \<and> fst (validate_frames eg_validation eg_unique [eg_keyless 1, eg_keyless 2, eg_frame 3 7] (eg_request 3) (Some eg_scratch))
        = Inl (Run_failure (Raised (Port_error Capacity_exceeded)))"
proof
  show "\<not> isl (fst (validate_frames eg_validation eg_unique [eg_keyless 1, eg_keyless 2, eg_frame 3 7] (eg_request 2) (Some eg_scratch)))"
    by code_simp
  have "case fst (validate_frames eg_validation eg_unique [eg_keyless 1, eg_keyless 2, eg_frame 3 7] (eg_request 3) (Some eg_scratch)) of
      Inl (Run_failure (Raised (Port_error Capacity_exceeded))) \<Rightarrow> True | _ \<Rightarrow> False"
    by code_simp
  then show "fst (validate_frames eg_validation eg_unique [eg_keyless 1, eg_keyless 2, eg_frame 3 7] (eg_request 3) (Some eg_scratch))
      = Inl (Run_failure (Raised (Port_error Capacity_exceeded)))"
    by (auto split: sum.splits failure.splits run_error.splits exn.splits error_code.splits)
qed

definition eg_over_one :: landing_product_contract where
  "eg_over_one = (let d = lc_delivery eg_first in eg_first\<lparr>lc_delivery := d\<lparr>dp_progress := Opaque_batch_progress,
     dp_quality := (dp_quality d)\<lparr>qp_publication_mode := Publish_valid_rows, qp_max_error_fraction := ''1.5''\<rparr>\<rparr>\<rparr>)"

lemma refused_bound:
  assumes "decimal_of text = (u, d)" and "10 ^ d \<le> u" and "0 < u"
    and "allows_partial mode delivery progress \<or> mode = All_or_nothing"
  shows "decide_publication mode text delivery progress framed errors passing batch_error = raise Invalid_config"
  using assms by (auto simp: decide_publication_def Let_def allows_partial_def)

text \<open>The gate does not look at the bound on the error fraction: it accepts a contract that publishes
  valid rows up to a fraction of 1.5, and no delivery of that contract can be validated.\<close>

lemma gate_accepts_unusable_fraction:
  "validate_contract eg_lib (\<lambda>_. None) ''2026.2'' eg_over_one = Inr ()
    \<and> (\<forall>lib frames a x. isl (fst (validate_frames lib eg_over_one frames a x)))"
proof (intro conjI allI)
  show "validate_contract eg_lib (\<lambda>_. None) ''2026.2'' eg_over_one = Inr ()" by code_simp
  fix lib frames a x
  obtain r y where run: "validate_frames lib eg_over_one frames a x = (r, y)" by (metis surj_pair)
  have bound: "decimal_of ''1.5'' = (15, 1)" by code_simp
  show "isl (fst (validate_frames lib eg_over_one frames a x))"
    using run
  proof (cases rule: validate_frames_cases)
    case (3 ev ds w)
    have "ev_contract ev = eg_over_one" using 3(1) by (auto simp: prepare_evaluation_def Let_def bind_eq_Inr of_contract_def)
    moreover have "qp_publication_mode (dp_quality (lc_delivery eg_over_one)) = Publish_valid_rows"
      "qp_max_error_fraction (dp_quality (lc_delivery eg_over_one)) = ''1.5''"
      "dp_mode (lc_delivery eg_over_one) = Append_only" "dp_progress (lc_delivery eg_over_one) = Opaque_batch_progress"
      by (simp_all add: eg_over_one_def eg_first_def eg_landing_contract_def Let_def)
    ultimately have "summarise lib ev (length frames) ds = raise Invalid_config"
      using refused_bound [OF bound, of Publish_valid_rows Append_only Opaque_batch_progress]
      by (simp add: summarise_def Let_def allows_partial_def bind_def raise_def)
    with run 3(4) show ?thesis by (simp add: raise_def)
  qed (simp_all add: run)
qed

end
