(* ===== verification/Relation_Schemas.thy ===== *)
theory Relation_Schemas
  imports Product_Graph
begin

text \<open>
  How the typed columns of a product follow from its declaration, \<open>ergasterion/framework/contract.py\<close>:
  the relation a composition opens with, and what each step makes of it.
\<close>

section \<open>Relations\<close>

text \<open>
  A neutral type is a scalar's name, a decimal object, or an object naming a structured type the estate
  enables; the members of such an object beyond its name are kept as their canonical text.
\<close>

datatype neutral_type =
    Named_type string
  | Decimal_object nat nat
  | Structured_object string string

record relation_field =
  rf_name :: string
  rf_type :: neutral_type
  rf_required :: bool
  rf_description :: "string option"
  rf_physical_name :: "string option"

record relation_schema =
  rs_name :: string
  rs_fields :: "relation_field list"
  rs_physical_name :: "string option"
  rs_physical_schema :: "string option"

definition plain_field :: "string \<Rightarrow> neutral_type \<Rightarrow> relation_field" where
  "plain_field name type =
     \<lparr>rf_name = name, rf_type = type, rf_required = False, rf_description = None, rf_physical_name = None\<rparr>"

definition field_names :: "relation_field list \<Rightarrow> string list" where
  "field_names = map rf_name"

text \<open>A dictionary of fields by name, in insertion order; and the last field of a name, as a dictionary has it.\<close>

definition put_field :: "relation_field \<Rightarrow> relation_field list \<Rightarrow> relation_field list" where
  "put_field = upsert_row rf_name"

definition fields_by_name :: "relation_field list \<Rightarrow> relation_field list" where
  "fields_by_name cols = fold put_field cols []"

definition field_of :: "relation_field list \<Rightarrow> string \<Rightarrow> relation_field option" where
  "field_of cols name = lookup_row rf_name name (fields_by_name cols)"

section \<open>Declarations\<close>

text \<open>The typed parts of a declaration, with the shape the product schema gives them.\<close>

type_synonym conform_entry = "string \<times> string \<times> neutral_type"

record upstream_source =
  us_contract :: string
  us_relation :: "string option"
  us_expect :: "string list"
  us_conform :: "conform_entry list"
  us_fixture :: "(string \<times> neutral_type \<times> string option) list option"

record enrichment =
  en_contract :: string
  en_relation :: "string option"
  en_fields :: "string list"

datatype mapping_entry = Map_field string string neutral_type | Drop_field string

text \<open>A field rule by the parts that bear on the schema: \<open>not_null\<close>, and a completeness of exactly one.\<close>

record required_rule =
  rq_field :: "string option"
  rq_not_null :: bool
  rq_complete :: bool

datatype compose_step =
    Transform_step "mapping_entry list"
  | Calculate_step "(string \<times> neutral_type) list"
  | Enrich_step "enrichment list"
  | Aggregate_step "string list" "string list" "(string \<times> neutral_type option) list"
  | Validate_step "required_rule list"
  | Plain_step string

record combination =
  cb_method :: "string option"
  cb_keys :: "string list"
  cb_join :: "string option"

text \<open>The sections of \<open>target.shape_config\<close>, an entity of which is canonical or operational by its shape.\<close>

record canonical_entity =
  ce_name :: string
  ce_key :: "string list"
  ce_columns :: "string list"
  ce_reference :: "string list"

record ods_entity =
  oe_name :: string
  oe_key :: "string list"
  oe_attributes :: "string list"
  oe_change :: string
  oe_source_system :: string
  oe_source_key :: string
  oe_operation :: string

record dimension_decl =
  dm_name :: string
  dm_type :: nat
  dm_key :: "string list"
  dm_attributes :: "string list"
  dm_change :: string

record fact_decl =
  fd_name :: string
  fd_grain :: "string list"
  fd_dimensions :: "string list"
  fd_time :: string
  fd_measures :: "string list"

text \<open>The sections of a vault.\<close>

datatype satellite_kind = Kind_current | Kind_history

datatype surviving_strategy = Most_recent | First_non_null

record hub_decl =
  hb_name :: string
  hb_key :: "string list"

record link_decl =
  lk_name :: string
  lk_hubs :: "string list"

record satellite_decl =
  sa_name :: string
  sa_kind :: satellite_kind
  sa_parent :: string
  sa_payload :: "string list"
  sa_change :: string
  sa_exclude :: "string list"

record surviving_decl =
  sv_name :: string
  sv_hub :: string
  sv_satellites :: "string list"
  sv_attributes :: "(string \<times> surviving_strategy) list"

record instant_decl =
  pt_name :: string
  pt_hub :: string
  pt_satellites :: "string list"

record vault_section =
  vs_hubs :: "hub_decl list"
  vs_links :: "link_decl list"
  vs_satellites :: "satellite_decl list"
  vs_surviving :: "surviving_decl list"
  vs_instants :: "instant_decl list"

record shape_section =
  ss_canonical :: "canonical_entity list"
  ss_ods :: "ods_entity list"
  ss_dimensions :: "dimension_decl list"
  ss_facts :: "fact_decl list"
  ss_metrics :: "(string \<times> string) list"
  ss_vault :: vault_section

record composition_document =
  cd_sources :: "upstream_source list"
  cd_steps :: "compose_step list"
  cd_combine :: "combination option"
  cd_shape_config :: shape_section
  cd_physical :: "(string option \<times> physical_relation) list"

section \<open>Errors\<close>

datatype conform_fault = Renamed_twice | Not_carried | Name_taken | Not_in_source | Other_type | Not_in_union

datatype merge_fault = Key_not_carried | Key_type_differs | Already_brought string

datatype origin_fault = Several_bound | Supplied_and_bound

text \<open>What a shape refuses, by the values its message carries.\<close>

datatype shape_detail =
    No_column string
  | Declared_twice string
  | Key_not_published string "string list"
  | Mapped_not_published string "string list"
  | Two_roles string string string
  | Range_taken "string list"
  | Not_an_instant string neutral_type
  | Several_keys string nat
  | Key_or_change_column string "string list"
  | No_dimension string "string list"
  | Measure_taken string string
  | No_measure string string
  | Wrong_source_count nat
  | Upstream_unknown string
  | Upstream_not_curated string
  | Named_twice string string
  | Generated_column string "string list"
  | Unknown_hub string
  | Unknown_parent string
  | Payload_orders_itself string
  | Excluded_outside "string list"
  | Nothing_fingerprinted
  | Unknown_satellite string
  | Foreign_satellite string string string
  | Not_stored "string list"
  | Mixed_instants "neutral_type list"
  | No_curation

datatype contract_fault =
    Unresolved_source string string
  | Unresolved_products "string list"
  | Source_expectation string string string
  | Unconformable string string string conform_fault
  | Unmergeable string string string merge_fault
  | Undeclared_composition string nat
  | Undeclared_merge_join string "string option"
  | Unresolved_field string string string
  | Contract_generation string string
  | Missing_landing_schema string
  | Landing_schema_origin string origin_fault
  | Unknown_physical_column string string string
  | Read_fault graph_error
  | Shape_constraint string string string shape_detail
  | Unhashable_type neutral_type
  | Unmapped_neutral_type string

definition of_read :: "graph_error + 'a \<Rightarrow> contract_fault + 'a" where
  "of_read r = (case r of Inl e \<Rightarrow> Inl (Read_fault e) | Inr x \<Rightarrow> Inr x)"

definition check_that :: "bool \<Rightarrow> contract_fault \<Rightarrow> contract_fault + unit" where
  "check_that ok e = (if ok then Inr () else Inl e)"

text \<open>The first value of a list a loop stops at.\<close>

definition refuse_first :: "('a \<Rightarrow> bool) \<Rightarrow> ('a \<Rightarrow> contract_fault) \<Rightarrow> 'a list \<Rightarrow> contract_fault + unit" where
  "refuse_first bad e xs = (case find bad xs of None \<Rightarrow> Inr () | Some x \<Rightarrow> Inl (e x))"

section \<open>Conforming one source\<close>

definition check_source_expectation ::
    "string \<Rightarrow> string \<Rightarrow> string list \<Rightarrow> relation_schema \<Rightarrow> contract_fault + unit" where
  "check_source_expectation consumer producer expected schema =
     (case sorted_list_of_set (set expected - set (field_names (rs_fields schema))) of
        [] \<Rightarrow> Inr ()
      | name # _ \<Rightarrow> Inl (Source_expectation consumer producer name))"

record conformed_column =
  cl_source_name :: string
  cl_name :: string
  cl_cast_type :: "neutral_type option"
  cl_physical_source_name :: "string option"

fun repeated_name :: "string list \<Rightarrow> string list \<Rightarrow> string option" where
  "repeated_name seen [] = None"
| "repeated_name seen (x # xs) = (if x \<in> set seen then Some x else repeated_name (x # seen) xs)"

definition conform_field :: "conform_entry list \<Rightarrow> relation_field \<Rightarrow> relation_field \<times> conformed_column" where
  "conform_field renames f =
     (case map_of renames (rf_name f) of
        None \<Rightarrow> (f\<lparr>rf_physical_name := None\<rparr>,
          \<lparr>cl_source_name = rf_name f, cl_name = rf_name f, cl_cast_type = None,
           cl_physical_source_name = rf_physical_name f\<rparr>)
      | Some (target, type) \<Rightarrow> (plain_field target type,
          \<lparr>cl_source_name = rf_name f, cl_name = target, cl_cast_type = Some type,
           cl_physical_source_name = rf_physical_name f\<rparr>))"

definition conform_source ::
    "string \<Rightarrow> string \<Rightarrow> conform_entry list \<Rightarrow> relation_schema
       \<Rightarrow> contract_fault + relation_field list \<times> conformed_column list" where
  "conform_source consumer contract renames schema =
     (case repeated_name [] (map fst renames) of
        Some name \<Rightarrow> Inl (Unconformable consumer contract name Renamed_twice)
      | None \<Rightarrow>
          bind (refuse_first (\<lambda>n. n \<notin> set (field_names (rs_fields schema)))
                  (\<lambda>n. Unconformable consumer contract n Not_carried) (sort (map fst renames))) (\<lambda>_.
          let conformed = map (conform_field renames) (rs_fields schema); cols = map fst conformed in
          (case repeated_name [] (field_names cols) of
             Some name \<Rightarrow> Inl (Unconformable consumer contract name Name_taken)
           | None \<Rightarrow> Inr (cols, map snd conformed))))"

section \<open>Combining sources\<close>

text \<open>One source against the schema of a union: its fields missing or retyped, then its fields in excess.\<close>

definition union_source ::
    "string \<Rightarrow> relation_field list \<Rightarrow> string \<times> relation_field list \<Rightarrow> contract_fault + unit" where
  "union_source consumer opening = (\<lambda>(contract, cols).
     bind (fold_result (\<lambda>f _.
         case field_of cols (rf_name f) of
           None \<Rightarrow> Inl (Unconformable consumer contract (rf_name f) Not_in_source)
         | Some g \<Rightarrow> check_that (rf_type g = rf_type f) (Unconformable consumer contract (rf_name f) Other_type))
       (fields_by_name opening) ()) (\<lambda>_.
     refuse_first (\<lambda>n. n \<notin> set (field_names opening))
       (\<lambda>n. Unconformable consumer contract n Not_in_union) (field_names (fields_by_name cols))))"

definition union_fields ::
    "string \<Rightarrow> (string \<times> relation_field list) list \<Rightarrow> contract_fault + relation_field list" where
  "union_fields consumer conformed =
     (let opening = snd (hd conformed) in
      bind (fold_result (\<lambda>source _. union_source consumer opening source) (tl conformed) ()) (\<lambda>_. Inr opening))"

definition merge_key ::
    "string \<Rightarrow> (string \<times> relation_field list) list \<Rightarrow> string \<Rightarrow> contract_fault + relation_field" where
  "merge_key consumer conformed key =
     (case field_of (snd (hd conformed)) key of
        None \<Rightarrow> Inl (Unmergeable consumer (fst (hd conformed)) key Key_not_carried)
      | Some carried \<Rightarrow>
          bind (fold_result (\<lambda>(contract, cols) _.
              case field_of cols key of
                None \<Rightarrow> Inl (Unmergeable consumer contract key Key_not_carried)
              | Some candidate \<Rightarrow>
                  check_that (rf_type candidate = rf_type carried) (Unmergeable consumer contract key Key_type_differs))
            (tl conformed) ()) (\<lambda>_. Inr carried))"

text \<open>The fields brought so far, with the source that brought each, and one more.\<close>

definition bring_field ::
    "string \<Rightarrow> string list \<Rightarrow> bool \<Rightarrow> string \<times> relation_field
       \<Rightarrow> (string \<times> string) list \<times> relation_field list
       \<Rightarrow> contract_fault + (string \<times> string) list \<times> relation_field list" where
  "bring_field consumer keys outer = (\<lambda>(contract, f) (brought, ordered).
     if rf_name f \<in> set keys then Inr (brought, ordered)
     else case map_of brought (rf_name f) of
       Some other \<Rightarrow> Inl (Unmergeable consumer contract (rf_name f) (Already_brought other))
     | None \<Rightarrow> Inr ((rf_name f, contract) # brought,
         ordered @ [if outer \<and> rf_required f then f\<lparr>rf_required := False\<rparr> else f]))"

definition merged_fields ::
    "string \<Rightarrow> string list \<Rightarrow> string \<Rightarrow> (string \<times> relation_field list) list
       \<Rightarrow> contract_fault + relation_field list" where
  "merged_fields consumer keys join conformed =
     bind (map_result (merge_key consumer conformed) keys) (\<lambda>keyed.
     bind (fold_result (bring_field consumer keys (join = ''outer''))
       (concat (map (\<lambda>(contract, cols). map (\<lambda>f. (contract, f)) cols) conformed)) ([], [])) (\<lambda>(brought, ordered).
     Inr (keyed @ ordered)))"

section \<open>The opening relation\<close>

definition source_relation_key :: "string \<Rightarrow> string option \<Rightarrow> string" where
  "source_relation_key reference relation =
     (case relation of None \<Rightarrow> contract_target reference | Some r \<Rightarrow> contract_target reference @ ''#'' @ r)"

type_synonym schemas = "(string \<times> relation_schema) list"

record source_composition =
  sc_key :: string
  sc_contract :: string
  sc_columns :: "conformed_column list"

record opening_composition =
  op_method :: "string option"
  op_keys :: "string list"
  op_fields :: "relation_field list"
  op_sources :: "source_composition list"
  op_join :: "string option"

definition read_source ::
    "string \<Rightarrow> schemas \<Rightarrow> upstream_source
       \<Rightarrow> contract_fault + (string \<times> relation_field list) \<times> source_composition" where
  "read_source consumer schemas s =
     (let key = source_relation_key (us_contract s) (us_relation s) in
      case map_of schemas key of
        None \<Rightarrow> Inl (Unresolved_source consumer (us_contract s))
      | Some schema \<Rightarrow>
          bind (if us_expect s = [] then Inr ()
                else check_source_expectation consumer (us_contract s) (us_expect s) schema) (\<lambda>_.
          bind (conform_source consumer (us_contract s) (us_conform s) schema) (\<lambda>(cols, columns).
          Inr ((us_contract s, cols), \<lparr>sc_key = key, sc_contract = us_contract s, sc_columns = columns\<rparr>))))"

text \<open>The columns of a source of a union, in the order of the union's schema.\<close>

fun position_of :: "string list \<Rightarrow> string \<Rightarrow> nat" where
  "position_of [] name = 0"
| "position_of (n # names) name = (if n = name then 0 else Suc (position_of names name))"

definition align_columns :: "relation_field list \<Rightarrow> source_composition \<Rightarrow> source_composition" where
  "align_columns cols s =
     s\<lparr>sc_columns := sort_key (\<lambda>c. position_of (field_names cols) (cl_name c)) (sc_columns s)\<rparr>"

definition resolve_opening_composition ::
    "string \<Rightarrow> composition_document \<Rightarrow> schemas \<Rightarrow> contract_fault + opening_composition" where
  "resolve_opening_composition consumer doc schemas =
     bind (map_result (read_source consumer schemas) (cd_sources doc)) (\<lambda>reads.
     let resolved = map fst reads; sources = map snd reads in
     case resolved of
       [] \<Rightarrow> Inr \<lparr>op_method = None, op_keys = [], op_fields = [], op_sources = [], op_join = None\<rparr>
     | [(contract, cols)] \<Rightarrow>
         Inr \<lparr>op_method = None, op_keys = [], op_fields = cols, op_sources = sources, op_join = None\<rparr>
     | _ \<Rightarrow>
         (case cd_combine doc of
            None \<Rightarrow> Inl (Undeclared_composition consumer (length (cd_sources doc)))
          | Some c \<Rightarrow>
              if cb_method c = Some ''union'' then
                bind (union_fields consumer resolved) (\<lambda>cols.
                Inr \<lparr>op_method = Some ''union'', op_keys = cb_keys c, op_fields = cols,
                  op_sources = map (align_columns cols) sources, op_join = None\<rparr>)
              else if cb_method c = Some ''merge'' then
                (case cb_join c of
                   Some join \<Rightarrow>
                     if join \<in> {''inner'', ''outer''} then
                       bind (merged_fields consumer (cb_keys c) join resolved) (\<lambda>cols.
                       Inr \<lparr>op_method = Some ''merge'', op_keys = cb_keys c, op_fields = cols,
                         op_sources = sources, op_join = Some join\<rparr>)
                     else Inl (Undeclared_merge_join consumer (Some join))
                 | None \<Rightarrow> Inl (Undeclared_merge_join consumer None))
              else Inl (Undeclared_composition consumer (length (cd_sources doc)))))"

section \<open>Propagation through the steps\<close>

definition pattern_token :: "compose_step \<Rightarrow> string" where
  "pattern_token s = (case s of
       Transform_step _ \<Rightarrow> ''schema_transform''
     | Calculate_step _ \<Rightarrow> ''calculated_fields''
     | Enrich_step _ \<Rightarrow> ''data_enrichment''
     | Aggregate_step _ _ _ \<Rightarrow> ''data_aggregation''
     | Validate_step _ \<Rightarrow> ''data_validation''
     | Plain_step p \<Rightarrow> p)"

definition occurrence_tag :: "nat \<Rightarrow> compose_step \<Rightarrow> string" where
  "occurrence_tag n s = ''steps['' @ decimal n @ '']:'' @ pattern_token s"

fun transform_field :: "mapping_entry \<Rightarrow> relation_field list \<Rightarrow> relation_field list" where
  "transform_field (Map_field source target type) cols =
     put_field (plain_field target type) (delete_rows (\<lambda>f. rf_name f = source) cols)"
| "transform_field (Drop_field source) cols = delete_rows (\<lambda>f. rf_name f = source) cols"

definition enrich_fields ::
    "string \<Rightarrow> schemas \<Rightarrow> string \<Rightarrow> enrichment \<Rightarrow> relation_field list \<Rightarrow> contract_fault + relation_field list" where
  "enrich_fields consumer schemas occurrence l cols =
     (case map_of schemas (source_relation_key (en_contract l) (en_relation l)) of
        None \<Rightarrow> Inl (Unresolved_source consumer (en_contract l))
      | Some schema \<Rightarrow>
          fold_result (\<lambda>name cols.
            case field_of (rs_fields schema) name of
              None \<Rightarrow> Inl (Unresolved_field consumer occurrence name)
            | Some g \<Rightarrow> Inr (put_field (plain_field name (rf_type g)) cols)) (en_fields l) cols)"

definition group_field ::
    "string \<Rightarrow> string \<Rightarrow> relation_field list \<Rightarrow> string \<Rightarrow> relation_field list \<Rightarrow> contract_fault + relation_field list" where
  "group_field consumer occurrence cols name grouped =
     (case lookup_row rf_name name cols of
        None \<Rightarrow> Inl (Unresolved_field consumer occurrence name)
      | Some f \<Rightarrow> Inr (put_field f grouped))"

definition aggregate_field ::
    "string \<Rightarrow> string \<Rightarrow> string \<times> neutral_type option \<Rightarrow> relation_field list \<Rightarrow> contract_fault + relation_field list" where
  "aggregate_field consumer occurrence = (\<lambda>(name, type) grouped.
     case type of
       None \<Rightarrow> Inl (Unresolved_field consumer occurrence (if name = [] then ''<unnamed>'' else name))
     | Some t \<Rightarrow> if name = [] then Inl (Unresolved_field consumer occurrence ''<unnamed>'')
         else Inr (put_field (plain_field name t) grouped))"

definition propagate_step ::
    "string \<Rightarrow> schemas \<Rightarrow> nat \<Rightarrow> compose_step \<Rightarrow> relation_field list \<Rightarrow> contract_fault + relation_field list" where
  "propagate_step consumer schemas n s cols =
     (let occurrence = occurrence_tag n s in
      case s of
        Transform_step mapping \<Rightarrow> Inr (fold transform_field mapping cols)
      | Calculate_step calculated \<Rightarrow>
          Inr (fold (\<lambda>(name, type). if name = [] then (\<lambda>fs. fs) else put_field (plain_field name type)) calculated cols)
      | Enrich_step lookups \<Rightarrow> fold_result (enrich_fields consumer schemas occurrence) lookups cols
      | Aggregate_step grain groups aggregates \<Rightarrow>
          bind (fold_result (group_field consumer occurrence cols) (grain @ groups) []) (\<lambda>grouped.
          fold_result (aggregate_field consumer occurrence) aggregates grouped)
      | Validate_step rules \<Rightarrow> Inr cols
      | Plain_step p \<Rightarrow> Inr cols)"

record occurrence_fields =
  oc_index :: nat
  oc_pattern :: string
  oc_occurrence :: string
  oc_fields :: "relation_field list"

fun propagate_steps ::
    "string \<Rightarrow> schemas \<Rightarrow> nat \<Rightarrow> compose_step list \<Rightarrow> relation_field list
       \<Rightarrow> contract_fault + occurrence_fields list" where
  "propagate_steps consumer schemas n [] cols = Inr []"
| "propagate_steps consumer schemas n (s # steps) cols =
     bind (propagate_step consumer schemas n s cols) (\<lambda>cols.
     bind (propagate_steps consumer schemas (n + 1) steps cols) (\<lambda>rest.
     Inr (\<lparr>oc_index = n, oc_pattern = pattern_token s, oc_occurrence = occurrence_tag n s, oc_fields = cols\<rparr> # rest)))"

definition propagate_relation_fields ::
    "string \<Rightarrow> composition_document \<Rightarrow> schemas \<Rightarrow> contract_fault + relation_field list \<times> occurrence_fields list" where
  "propagate_relation_fields consumer doc schemas =
     bind (resolve_opening_composition consumer doc schemas) (\<lambda>opening.
     bind (propagate_steps consumer schemas 0 (cd_steps doc) (fields_by_name (op_fields opening))) (\<lambda>occurrences.
     Inr (op_fields opening, occurrences)))"

definition required_field_names :: "composition_document \<Rightarrow> string list" where
  "required_field_names doc = concat (map (\<lambda>s. case s of
       Validate_step rules \<Rightarrow> concat (map (\<lambda>r. case rq_field r of
           None \<Rightarrow> [] | Some name \<Rightarrow> if rq_not_null r \<or> rq_complete r then [name] else []) rules)
     | _ \<Rightarrow> []) (cd_steps doc))"

definition publish_field :: "string list \<Rightarrow> relation_field \<Rightarrow> relation_field" where
  "publish_field required f = (plain_field (rf_name f) (rf_type f))
     \<lparr>rf_required := rf_required f \<or> rf_name f \<in> set required\<rparr>"

definition derive_relation_fields ::
    "string \<Rightarrow> composition_document \<Rightarrow> schemas \<Rightarrow> contract_fault + relation_field list" where
  "derive_relation_fields consumer doc schemas =
     bind (propagate_relation_fields consumer doc schemas) (\<lambda>(opening, occurrences).
     let final = (if occurrences = [] then opening else oc_fields (last occurrences)) in
     Inr (map (publish_field (required_field_names doc)) final))"

end
