(* ===== verification/Shape_Relations.thy ===== *)
theory Shape_Relations
  imports Relation_Schemas
begin

text \<open>
  The relations a shape renders from the columns a composition leaves: \<open>ergasterion/framework/shapes.py\<close>
  with its \<open>declared\<close> shape, and the plug-ins \<open>canonical\<close>, \<open>ods\<close> and \<open>dimensional\<close> under
  \<open>ergasterion/shapes\<close>. The \<open>data_vault\<close> plug-in is a parameter here, which Data_Vault provides.
\<close>

section \<open>A relation of a shape\<close>

datatype derivation = Composition | Projection | Dimension_type_1 | Dimension_type_2 | Vault_derivation string

datatype materialisation = As_view | As_table | As_increment

record shape_relation =
  sr_suffix :: "string option"
  sr_schema :: relation_schema
  sr_derivation :: derivation
  sr_source_columns :: "string list"
  sr_key :: "string list"
  sr_materialisation :: "materialisation option"
  sr_change_column :: "string option"
  sr_range_columns :: "(string \<times> string) option"
  sr_reads :: "string list"

definition effective_from :: string where "effective_from = ''effective_from''"
definition effective_to :: string where "effective_to = ''effective_to''"

definition time_types :: "string list" where "time_types = [''date'', ''timestamp'']"

definition plain_schema :: "string \<Rightarrow> relation_field list \<Rightarrow> relation_schema" where
  "plain_schema name cols =
     \<lparr>rs_name = name, rs_fields = cols, rs_physical_name = None, rs_physical_schema = None\<rparr>"

definition typed_field :: "string \<Rightarrow> neutral_type \<Rightarrow> bool \<Rightarrow> relation_field" where
  "typed_field name type required = (plain_field name type)\<lparr>rf_required := required\<rparr>"

definition refuse :: "string \<Rightarrow> string \<Rightarrow> string \<Rightarrow> shape_detail \<Rightarrow> contract_fault + 'a" where
  "refuse product shape occurrence detail = Inl (Shape_constraint product shape occurrence detail)"

definition column_field ::
    "string \<Rightarrow> string \<Rightarrow> string \<Rightarrow> relation_field list \<Rightarrow> string \<Rightarrow> contract_fault + relation_field" where
  "column_field product shape occurrence cols name =
     (case find (\<lambda>f. rf_name f = name) cols of
        None \<Rightarrow> refuse product shape occurrence (No_column name)
      | Some f \<Rightarrow> Inr f)"

text \<open>
  The test \<open>field.type not in TIME_TYPES\<close>: a type that is an object is a \<open>dict\<close>, which no set can look up.
\<close>

definition instant_field ::
    "string \<Rightarrow> string \<Rightarrow> string \<Rightarrow> relation_field list \<Rightarrow> string \<Rightarrow> contract_fault + relation_field" where
  "instant_field product shape occurrence cols name =
     bind (column_field product shape occurrence cols name) (\<lambda>f.
     case rf_type f of
       Named_type t \<Rightarrow>
         if t \<in> set time_types then Inr f
         else refuse product shape occurrence (Not_an_instant name (rf_type f))
     | other \<Rightarrow> Inl (Unhashable_type other))"

text \<open>The composition's fields of some columns, required where they are or where a key has them.\<close>

definition keyed_fields ::
    "string \<Rightarrow> string \<Rightarrow> string \<Rightarrow> relation_field list \<Rightarrow> string list \<Rightarrow> string list
       \<Rightarrow> contract_fault + relation_field list" where
  "keyed_fields product shape occurrence cols key columns =
     bind (map_result (column_field product shape occurrence cols) columns) (\<lambda>found.
     Inr (map (\<lambda>f. typed_field (rf_name f) (rf_type f) (rf_required f \<or> rf_name f \<in> set key)) found))"

definition entry_occurrence :: "string \<Rightarrow> nat \<Rightarrow> string" where
  "entry_occurrence section n = ''target.shape_config.'' @ section @ ''['' @ decimal n @ '']''"

definition columns_in :: "string list \<Rightarrow> string list \<Rightarrow> string list" where
  "columns_in wanted columns = filter (\<lambda>c. c \<in> set wanted) columns"

definition columns_outside :: "string list \<Rightarrow> string list \<Rightarrow> string list" where
  "columns_outside carried columns = filter (\<lambda>c. c \<notin> set carried) columns"

section \<open>The declared shape\<close>

definition declared_relations ::
    "string \<Rightarrow> string \<Rightarrow> shape_section \<Rightarrow> relation_field list \<Rightarrow> contract_fault + shape_relation list" where
  "declared_relations domain name cfg cols = Inr [
     \<lparr>sr_suffix = None, sr_schema = plain_schema (product_name domain name) cols, sr_derivation = Composition,
      sr_source_columns = [], sr_key = [], sr_materialisation = None, sr_change_column = None,
      sr_range_columns = None, sr_reads = []\<rparr>]"

section \<open>The canonical shape\<close>

definition canonical_relation ::
    "string \<Rightarrow> relation_field list \<Rightarrow> nat \<times> canonical_entity \<Rightarrow> string list \<times> shape_relation list
       \<Rightarrow> contract_fault + string list \<times> shape_relation list" where
  "canonical_relation product cols = (\<lambda>(index, e) (seen, relations).
     let occurrence = entry_occurrence ''entities'' index; stop = refuse product ''canonical'' occurrence;
         name = ce_name e; columns = ce_columns e; key = ce_key e in
     if name \<in> set seen then stop (Declared_twice name)
     else let missing = columns_outside columns key in
     if missing \<noteq> [] then stop (Key_not_published name missing)
     else let unpublished = columns_outside columns (sort (ce_reference e)) in
     if unpublished \<noteq> [] then stop (Mapped_not_published name unpublished)
     else
       bind (keyed_fields product ''canonical'' occurrence cols key columns) (\<lambda>published.
       Inr (name # seen, relations @ [
         \<lparr>sr_suffix = Some name, sr_schema = plain_schema (under_product product name) published,
          sr_derivation = Projection, sr_source_columns = columns, sr_key = key,
          sr_materialisation = Some As_view, sr_change_column = None, sr_range_columns = None,
          sr_reads = []\<rparr>])))"

definition canonical_relations ::
    "string \<Rightarrow> string \<Rightarrow> shape_section \<Rightarrow> relation_field list \<Rightarrow> contract_fault + shape_relation list" where
  "canonical_relations domain name cfg cols =
     bind (fold_result (canonical_relation (product_name domain name) cols)
       (enumerate 0 (ss_canonical cfg)) ([], [])) (\<lambda>(seen, relations). Inr relations)"

text \<open>
  \<open>check_estate\<close>: a canonical product reads one product of the estate, and that product is a curated one.
  \<open>upstream\<close> has the declaration of every consumed product, by its published name.
\<close>

definition canonical_check_estate ::
    "string \<Rightarrow> composition_document \<Rightarrow> (string \<times> composition_document) list \<Rightarrow> contract_fault + unit" where
  "canonical_check_estate product doc upstream =
     (case cd_sources doc of
        [s] \<Rightarrow>
          let published = contract_target (us_contract s) in
          (case map_of upstream published of
             None \<Rightarrow> refuse product ''canonical'' ''sources[0]'' (Upstream_unknown published)
           | Some producer \<Rightarrow>
               if ''data_curation'' \<in> set (map pattern_token (cd_steps producer)) then Inr ()
               else refuse product ''canonical'' ''sources[0]'' (Upstream_not_curated published))
      | sources \<Rightarrow> refuse product ''canonical'' ''sources'' (Wrong_source_count (length sources)))"

section \<open>The operational shape\<close>

definition entity_roles :: "ods_entity \<Rightarrow> (string \<times> string) list" where
  "entity_roles e = map (Pair ''key'') (oe_key e) @ map (Pair ''attributes'') (oe_attributes e)
     @ [(''change_column'', oe_change e), (''source_system_column'', oe_source_system e),
        (''source_key_column'', oe_source_key e), (''operation_column'', oe_operation e)]"

text \<open>The first column two roles name, with the role that named it first and the role that names it again.\<close>

fun role_clash :: "(string \<times> string) list \<Rightarrow> (string \<times> string) list \<Rightarrow> (string \<times> string \<times> string) option" where
  "role_clash seen [] = None"
| "role_clash seen ((role, column) # roles) =
     (case map_of seen column of
        Some earlier \<Rightarrow> Some (column, earlier, role)
      | None \<Rightarrow> role_clash ((column, role) # seen) roles)"

definition check_roles :: "string \<Rightarrow> string \<Rightarrow> ods_entity \<Rightarrow> contract_fault + unit" where
  "check_roles product occurrence e =
     (case role_clash [] (entity_roles e) of
        Some (column, earlier, role) \<Rightarrow> refuse product ''ods'' occurrence (Two_roles column earlier role)
      | None \<Rightarrow>
          let reserved = columns_in [effective_from, effective_to] (oe_key e @ oe_attributes e) in
          if reserved \<noteq> [] then refuse product ''ods'' occurrence (Range_taken reserved) else Inr ())"

definition range_fields :: "neutral_type \<Rightarrow> relation_field list" where
  "range_fields type = [typed_field effective_from type True, typed_field effective_to type False]"

definition ods_entity_relation ::
    "string \<Rightarrow> string \<Rightarrow> relation_field list \<Rightarrow> ods_entity \<Rightarrow> contract_fault + shape_relation" where
  "ods_entity_relation product occurrence cols e =
     bind (instant_field product ''ods'' (occurrence @ ''.change_column'') cols (oe_change e)) (\<lambda>change.
     bind (keyed_fields product ''ods'' occurrence cols (oe_key e) (oe_key e @ oe_attributes e)) (\<lambda>published.
     Inr \<lparr>sr_suffix = Some (oe_name e),
       sr_schema = plain_schema (under_product product (oe_name e)) (published @ range_fields (rf_type change)),
       sr_derivation = Dimension_type_2, sr_source_columns = oe_key e @ oe_attributes e @ [oe_change e],
       sr_key = oe_key e, sr_materialisation = Some As_table, sr_change_column = Some (oe_change e),
       sr_range_columns = Some (effective_from, effective_to), sr_reads = []\<rparr>))"

definition ods_xref_relation ::
    "string \<Rightarrow> string \<Rightarrow> relation_field list \<Rightarrow> ods_entity \<Rightarrow> contract_fault + shape_relation" where
  "ods_xref_relation product occurrence cols e =
     (let key = [oe_source_system e, oe_source_key e]; columns = key @ oe_key e;
          suffix = oe_name e @ ''_xref'' in
      bind (keyed_fields product ''ods'' occurrence cols key columns) (\<lambda>published.
      Inr \<lparr>sr_suffix = Some suffix, sr_schema = plain_schema (under_product product suffix) published,
        sr_derivation = Dimension_type_1, sr_source_columns = columns @ [oe_change e], sr_key = key,
        sr_materialisation = Some As_table, sr_change_column = Some (oe_change e), sr_range_columns = None,
        sr_reads = []\<rparr>))"

definition ods_audit_relation ::
    "string \<Rightarrow> string \<Rightarrow> relation_field list \<Rightarrow> ods_entity \<Rightarrow> contract_fault + shape_relation" where
  "ods_audit_relation product occurrence cols e =
     (let key = [oe_source_system e, oe_source_key e, oe_change e]; columns = oe_key e @ key @ [oe_operation e];
          suffix = oe_name e @ ''_audit'' in
      bind (keyed_fields product ''ods'' occurrence cols key columns) (\<lambda>published.
      Inr \<lparr>sr_suffix = Some suffix, sr_schema = plain_schema (under_product product suffix) published,
        sr_derivation = Projection, sr_source_columns = columns, sr_key = key,
        sr_materialisation = Some As_table, sr_change_column = None, sr_range_columns = None,
        sr_reads = []\<rparr>))"

definition ods_relation ::
    "string \<Rightarrow> relation_field list \<Rightarrow> nat \<times> ods_entity \<Rightarrow> string list \<times> shape_relation list
       \<Rightarrow> contract_fault + string list \<times> shape_relation list" where
  "ods_relation product cols = (\<lambda>(index, e) (seen, relations).
     let occurrence = entry_occurrence ''entities'' index in
     if oe_name e \<in> set seen then refuse product ''ods'' occurrence (Declared_twice (oe_name e))
     else
       bind (check_roles product occurrence e) (\<lambda>_.
       bind (ods_entity_relation product occurrence cols e) (\<lambda>entity.
       bind (ods_xref_relation product occurrence cols e) (\<lambda>xref.
       bind (ods_audit_relation product occurrence cols e) (\<lambda>audit.
       Inr (oe_name e # seen, relations @ [entity, xref, audit]))))))"

definition ods_relations ::
    "string \<Rightarrow> string \<Rightarrow> shape_section \<Rightarrow> relation_field list \<Rightarrow> contract_fault + shape_relation list" where
  "ods_relations domain name cfg cols =
     bind (fold_result (ods_relation (product_name domain name) cols)
       (enumerate 0 (ss_ods cfg)) ([], [])) (\<lambda>(seen, relations). Inr relations)"

section \<open>The dimensional shape\<close>

text \<open>\<open>_ordered\<close>: repeats dropped, the first occurrence kept.\<close>

definition ordered_columns :: "string list \<Rightarrow> string list" where
  "ordered_columns columns = fold (\<lambda>c seen. if c \<in> set seen then seen else seen @ [c]) columns []"

definition dimension_suffix :: "string \<Rightarrow> string" where "dimension_suffix name = ''dim_'' @ name"
definition fact_suffix :: "string \<Rightarrow> string" where "fact_suffix name = ''fact_'' @ name"

definition dimension_relation ::
    "string \<Rightarrow> string \<Rightarrow> relation_field list \<Rightarrow> dimension_decl \<Rightarrow> contract_fault + shape_relation" where
  "dimension_relation product occurrence cols d =
     (let stop = refuse product ''dimensional'' occurrence;
          suffix = dimension_suffix (dm_name d); key = dm_key d; change = dm_change d;
          column = column_field product ''dimensional'' occurrence cols in
      if length key \<noteq> 1 then stop (Several_keys (dm_name d) (length key))
      else let overlapping = columns_in (change # key) (dm_attributes d) in
      if overlapping \<noteq> [] then stop (Key_or_change_column (dm_name d) overlapping)
      else
        bind (instant_field product ''dimensional'' (occurrence @ ''.change_column'') cols change) (\<lambda>instant.
        bind (map_result column key) (\<lambda>keyed.
        bind (map_result column (dm_attributes d)) (\<lambda>attributes.
        let published = map (\<lambda>f. typed_field (rf_name f) (rf_type f) True) keyed @ attributes;
            relation = \<lparr>sr_suffix = Some suffix, sr_schema = plain_schema (under_product product suffix) published,
              sr_derivation = Dimension_type_1, sr_source_columns = key @ dm_attributes d @ [change],
              sr_key = key, sr_materialisation = Some As_table, sr_change_column = Some change,
              sr_range_columns = None, sr_reads = []\<rparr> in
        if dm_type d = 1 then Inr relation
        else let clashing = columns_in [effective_from, effective_to] (key @ dm_attributes d) in
        if clashing \<noteq> [] then stop (Range_taken clashing)
        else Inr (relation\<lparr>
          sr_schema := plain_schema (under_product product suffix) (published @ range_fields (rf_type instant)),
          sr_derivation := Dimension_type_2, sr_range_columns := Some (effective_from, effective_to)\<rparr>)))))"

type_synonym dimension_keys = "(string \<times> string list) list"

definition add_dimension ::
    "string \<Rightarrow> relation_field list \<Rightarrow> nat \<times> dimension_decl \<Rightarrow> dimension_keys \<times> shape_relation list
       \<Rightarrow> contract_fault + dimension_keys \<times> shape_relation list" where
  "add_dimension product cols = (\<lambda>(index, d) (keys, relations).
     let occurrence = entry_occurrence ''dimensions'' index in
     if dm_name d \<in> fst ` set keys then refuse product ''dimensional'' occurrence (Declared_twice (dm_name d))
     else
       bind (dimension_relation product occurrence cols d) (\<lambda>relation.
       Inr ((dm_name d, dm_key d) # keys, relations @ [relation])))"

text \<open>The measures declared so far, with the fact that declared each, and one more.\<close>

definition add_measure ::
    "string \<Rightarrow> string \<Rightarrow> string \<Rightarrow> nat \<times> string \<Rightarrow> (string \<times> string) list \<Rightarrow> contract_fault + (string \<times> string) list" where
  "add_measure product occurrence owner = (\<lambda>(index, measure) measures.
     case map_of measures measure of
       Some other \<Rightarrow> refuse product ''dimensional'' (occurrence @ ''.measures['' @ decimal index @ '']'')
         (Measure_taken measure other)
     | None \<Rightarrow> Inr ((measure, owner) # measures))"

record star_state =
  st_seen :: "string list"
  st_measures :: "(string \<times> string) list"
  st_relations :: "shape_relation list"

definition fact_columns :: "dimension_keys \<Rightarrow> fact_decl \<Rightarrow> string list" where
  "fact_columns keys f = ordered_columns (fd_grain f
     @ concat (map (\<lambda>entry. the (map_of keys entry)) (fd_dimensions f)) @ [fd_time f] @ fd_measures f)"

definition add_fact ::
    "string \<Rightarrow> dimension_keys \<Rightarrow> relation_field list \<Rightarrow> nat \<times> fact_decl \<Rightarrow> star_state
       \<Rightarrow> contract_fault + star_state" where
  "add_fact product keys cols = (\<lambda>(index, f) st.
     let occurrence = entry_occurrence ''facts'' index; stop = refuse product ''dimensional'' occurrence;
         name = fd_name f; suffix = fact_suffix name in
     if name \<in> set (st_seen st) then stop (Declared_twice name)
     else let unknown = columns_outside (map fst keys) (fd_dimensions f) in
     if unknown \<noteq> [] then stop (No_dimension name unknown)
     else
       bind (instant_field product ''dimensional'' (occurrence @ ''.time_dimension'') cols (fd_time f)) (\<lambda>_.
       bind (fold_result (add_measure product occurrence name) (enumerate 0 (fd_measures f)) (st_measures st)) (\<lambda>measures.
       let columns = fact_columns keys f in
       bind (keyed_fields product ''dimensional'' occurrence cols (fd_grain f) columns) (\<lambda>published.
       Inr \<lparr>st_seen = name # st_seen st, st_measures = measures, st_relations = st_relations st @ [
         \<lparr>sr_suffix = Some suffix, sr_schema = plain_schema (under_product product suffix) published,
          sr_derivation = Projection, sr_source_columns = columns, sr_key = fd_grain f,
          sr_materialisation = Some As_table, sr_change_column = None, sr_range_columns = None,
          sr_reads = []\<rparr>]\<rparr>))))"

definition check_metric ::
    "string \<Rightarrow> (string \<times> string) list \<Rightarrow> nat \<times> string \<times> string \<Rightarrow> contract_fault + unit" where
  "check_metric product declared = (\<lambda>(index, name, measure).
     if measure \<in> fst ` set declared then Inr ()
     else refuse product ''dimensional'' (entry_occurrence ''metrics'' index) (No_measure name measure))"

definition dimensional_relations ::
    "string \<Rightarrow> string \<Rightarrow> shape_section \<Rightarrow> relation_field list \<Rightarrow> contract_fault + shape_relation list" where
  "dimensional_relations domain name cfg cols =
     (let product = product_name domain name in
      bind (fold_result (add_dimension product cols) (enumerate 0 (ss_dimensions cfg)) ([], [])) (\<lambda>(keys, relations).
      bind (fold_result (add_fact product keys cols) (enumerate 0 (ss_facts cfg))
        \<lparr>st_seen = [], st_measures = [], st_relations = relations\<rparr>) (\<lambda>st.
      bind (check_all (check_metric product (st_measures st)) (enumerate 0 (ss_metrics cfg))) (\<lambda>_.
      Inr (st_relations st)))))"

section \<open>The registry of shapes\<close>

type_synonym shape =
  "string \<Rightarrow> string \<Rightarrow> shape_section \<Rightarrow> relation_field list \<Rightarrow> contract_fault + shape_relation list"

text \<open>\<open>get_shape\<close>, with the \<open>data_vault\<close> plug-in given.\<close>

definition get_shape :: "shape \<Rightarrow> string \<Rightarrow> shape option" where
  "get_shape vault name =
     (if name = ''declared'' then Some declared_relations
      else if name = ''canonical'' then Some canonical_relations
      else if name = ''ods'' then Some ods_relations
      else if name = ''dimensional'' then Some dimensional_relations
      else if name = ''data_vault'' then Some vault
      else None)"

text \<open>The names a section declares, as the graph reads them of the same section.\<close>

definition section_names :: "string \<Rightarrow> shape_section \<Rightarrow> shape_config" where
  "section_names shape cfg = (let v = ss_vault cfg in \<lparr>
     cf_entities = (if shape = ''canonical'' then map ce_name (ss_canonical cfg) else map oe_name (ss_ods cfg)),
     cf_dimensions = map dm_name (ss_dimensions cfg), cf_facts = map fd_name (ss_facts cfg),
     cf_hubs = map hb_name (vs_hubs v), cf_links = map lk_name (vs_links v),
     cf_satellites = map sa_name (vs_satellites v), cf_business_vault = map sv_name (vs_surviving v),
     cf_point_in_time = map pt_name (vs_instants v)\<rparr>)"

definition shape_relations_for ::
    "shape \<Rightarrow> composition_document \<Rightarrow> validated_product \<Rightarrow> relation_field list
       \<Rightarrow> contract_fault + shape_relation list" where
  "shape_relations_for vault doc v cols =
     (case get_shape vault (vp_shape v) of
        None \<Rightarrow> Inl (Contract_generation (vp_name v) (vp_shape v))
      | Some render \<Rightarrow>
          bind (render (vp_domain v) (vp_name v) (cd_shape_config doc) cols) (\<lambda>relations.
          if relations = [] then Inl (Contract_generation (vp_name v) (vp_shape v)) else Inr relations))"

definition derive_shape_relations ::
    "shape \<Rightarrow> composition_document \<Rightarrow> validated_product \<Rightarrow> schemas \<Rightarrow> contract_fault + shape_relation list" where
  "derive_shape_relations vault doc v schemas =
     bind (derive_relation_fields (published_name v) doc schemas) (shape_relations_for vault doc v)"

definition derive_relation_schema ::
    "shape \<Rightarrow> composition_document \<Rightarrow> validated_product \<Rightarrow> schemas \<Rightarrow> contract_fault + relation_schema" where
  "derive_relation_schema vault doc v schemas =
     bind (derive_shape_relations vault doc v schemas) (\<lambda>relations.
     case relations of [r] \<Rightarrow> Inr (sr_schema r) | _ \<Rightarrow> Inl (Contract_generation (vp_name v) (vp_shape v)))"

end
