(* ===== verification/Relation_Registry.thy ===== *)
theory Relation_Registry
  imports Shape_Relations Landing_Contract
begin

text \<open>
  What a product publishes, and what a consumer reads of it: the second half of
  \<open>ergasterion/framework/contract.py\<close>. A landing product's columns come from its ingestion contract or from
  a bound relation; every other product's from the products it reads; stored names are laid over what its
  shape renders; and the registry resolves an estate's products, pass by pass.
\<close>

section \<open>Landing products\<close>

definition neutral_type_from_logical_type :: "logical_type \<Rightarrow> contract_fault + neutral_type" where
  "neutral_type_from_logical_type t = (case t of
       Simple S_utf8_string \<Rightarrow> Inr (Named_type ''string'')
     | Simple S_boolean \<Rightarrow> Inr (Named_type ''boolean'')
     | Simple S_date \<Rightarrow> Inr (Named_type ''date'')
     | Simple S_int64 \<Rightarrow> Inr (Named_type ''integer'')
     | Simple S_utc_instant \<Rightarrow> Inr (Named_type ''timestamp'')
     | Simple S_binary \<Rightarrow> Inl (Unmapped_neutral_type ''binary'')
     | Decimal_type precision scale \<Rightarrow> Inr (Decimal_object precision scale)
     | Local_datetime_type _ \<Rightarrow> Inr (Named_type ''timestamp''))"

definition relation_schema_from_landing_projection ::
    "string \<Rightarrow> string \<Rightarrow> projection_field list \<Rightarrow> contract_fault + relation_schema" where
  "relation_schema_from_landing_projection domain name projection =
     bind (map_result (\<lambda>f. bind (neutral_type_from_logical_type (pj_logical_type f)) (\<lambda>t.
         Inr (typed_field (pj_name f) t (\<not> pj_nullable f)))) projection) (\<lambda>cols.
     Inr (plain_schema (product_name domain name) cols))"

definition bound_field :: "string \<times> neutral_type \<times> string option \<Rightarrow> relation_field" where
  "bound_field = (\<lambda>(name, type, physical). (plain_field name type)\<lparr>rf_physical_name := physical\<rparr>)"

definition bound_schema :: "string \<Rightarrow> (string \<times> neutral_type \<times> string option) list \<Rightarrow> relation_schema" where
  "bound_schema name cols =
     plain_schema name (map bound_field cols)"

definition landing_schema_for ::
    "composition_document \<Rightarrow> string \<Rightarrow> schemas \<Rightarrow> contract_fault + relation_schema" where
  "landing_schema_for doc product landing =
     (let bindings = List.map_filter us_fixture (cd_sources doc) in
      if 1 < length bindings then Inl (Landing_schema_origin product Several_bound)
      else case (map_of landing product, bindings) of
        (Some schema, []) \<Rightarrow> Inr schema
      | (Some schema, _) \<Rightarrow> Inl (Landing_schema_origin product Supplied_and_bound)
      | (None, []) \<Rightarrow> Inl (Missing_landing_schema product)
      | (None, cols # _) \<Rightarrow> Inr (bound_schema product cols))"

definition apply_physical_name ::
    "string \<Rightarrow> (string option \<times> physical_relation) list \<Rightarrow> shape_relation \<Rightarrow> contract_fault + shape_relation" where
  "apply_physical_name product declared r =
     (case map_of declared (sr_suffix r) of
        None \<Rightarrow> Inr r
      | Some entry \<Rightarrow>
          let schema = sr_schema r; stored = map_of (rev (ph_fields entry)) in
          bind (refuse_first (\<lambda>c. c \<notin> set (field_names (rs_fields schema)))
              (\<lambda>c. Unknown_physical_column product (rs_name schema) c) (map fst (ph_fields entry))) (\<lambda>_.
          Inr (r\<lparr>sr_schema := schema
            \<lparr>rs_fields := map (\<lambda>f. f\<lparr>rf_physical_name := stored (rf_name f)\<rparr>) (rs_fields schema),
             rs_physical_name := ph_name entry, rs_physical_schema := ph_schema entry\<rparr>\<rparr>)))"

definition apply_physical_names ::
    "composition_document \<Rightarrow> string \<Rightarrow> shape_relation list \<Rightarrow> contract_fault + shape_relation list" where
  "apply_physical_names doc product relations =
     map_result (apply_physical_name product (cd_physical doc)) relations"

text \<open>\<open>fixture_relation_schemas\<close>: the contracts an estate binds to a fixture; a later binding replaces an earlier.\<close>

definition fixture_bindings :: "composition_document \<Rightarrow> schemas" where
  "fixture_bindings doc = List.map_filter (\<lambda>s. map_option
       (\<lambda>cols. (contract_target (us_contract s), bound_schema (contract_target (us_contract s)) cols)) (us_fixture s))
     (cd_sources doc)"

definition fixture_relation_schemas :: "(string \<times> composition_document \<times> validated_product) list \<Rightarrow> schemas" where
  "fixture_relation_schemas entries =
     rev (concat (map (\<lambda>(name, doc, v). fixture_bindings doc) (sort_key fst entries)))"

section \<open>Reads\<close>

record resolved_read =
  rr_kind :: read_kind
  rr_contract :: string
  rr_producer :: string
  rr_key :: string
  rr_relation :: string
  rr_suffix :: "string option"
  rr_schema :: relation_schema

type_synonym resolved = "(string \<times> shape_relation list) list"

definition resolve_source_relation ::
    "shape_relation list \<Rightarrow> string \<Rightarrow> string \<Rightarrow> string option \<Rightarrow> read_kind \<Rightarrow> contract_fault + shape_relation" where
  "resolve_source_relation relations consumer producer relation kind =
     bind (of_read (resolve_relation_name (map (rs_name \<circ> sr_schema) relations) consumer producer relation kind)) (\<lambda>chosen.
     Inr (the (find (\<lambda>r. rs_name (sr_schema r) = chosen) relations)))"

definition resolve_read ::
    "string \<Rightarrow> resolved \<Rightarrow> schemas \<Rightarrow> read_kind \<times> string \<times> string option \<Rightarrow> contract_fault + resolved_read" where
  "resolve_read consumer resolved opening = (\<lambda>(kind, reference, relation).
     let producer = contract_target reference; key = source_relation_key reference relation in
     case map_of resolved producer of
       None \<Rightarrow>
         (case map_of opening producer of
            None \<Rightarrow> Inl (Unresolved_source consumer reference)
          | Some schema \<Rightarrow>
              bind (of_read (resolve_relation_name [producer] consumer producer relation kind)) (\<lambda>name.
              Inr \<lparr>rr_kind = kind, rr_contract = reference, rr_producer = producer, rr_key = key,
                rr_relation = name, rr_suffix = None, rr_schema = schema\<rparr>))
     | Some relations \<Rightarrow>
         bind (resolve_source_relation relations consumer producer relation kind) (\<lambda>chosen.
         Inr \<lparr>rr_kind = kind, rr_contract = reference, rr_producer = producer, rr_key = key,
           rr_relation = rs_name (sr_schema chosen), rr_suffix = sr_suffix chosen, rr_schema = sr_schema chosen\<rparr>))"

definition declared_lookups :: "composition_document \<Rightarrow> enrichment list" where
  "declared_lookups doc = concat (map (\<lambda>s. case s of Enrich_step ls \<Rightarrow> ls | _ \<Rightarrow> []) (cd_steps doc))"

definition declared_reads :: "composition_document \<Rightarrow> (read_kind \<times> string \<times> string option) list" where
  "declared_reads doc = map (\<lambda>s. (Read_source, us_contract s, us_relation s)) (cd_sources doc)
     @ map (\<lambda>l. (Read_lookup, en_contract l, en_relation l)) (declared_lookups doc)"

definition resolve_consumer_reads ::
    "composition_document \<Rightarrow> string \<Rightarrow> resolved \<Rightarrow> schemas \<Rightarrow> contract_fault + resolved_read list" where
  "resolve_consumer_reads doc consumer resolved opening =
     map_result (resolve_read consumer resolved opening) (declared_reads doc)"

text \<open>The opening schemas, with the schema of every read written over them.\<close>

definition consumer_source_schemas ::
    "composition_document \<Rightarrow> string \<Rightarrow> resolved \<Rightarrow> schemas \<Rightarrow> contract_fault + schemas" where
  "consumer_source_schemas doc consumer resolved opening =
     bind (resolve_consumer_reads doc consumer resolved opening) (\<lambda>reads.
     Inr (rev (map (\<lambda>r. (rr_key r, rr_schema r)) reads) @ opening))"

section \<open>The registry of an estate\<close>

type_synonym compositions = "(string \<times> composition_document \<times> validated_product) list"

definition needed_products :: "composition_document \<Rightarrow> string list" where
  "needed_products doc = map (contract_target \<circ> us_contract) (cd_sources doc)
     @ map (contract_target \<circ> en_contract) (declared_lookups doc)"

text \<open>The relations of one product, or nothing while a product it needs is not there yet.\<close>

type_synonym entry = "string \<times> composition_document \<times> validated_product"

definition resolve_product ::
    "shape \<Rightarrow> schemas \<Rightarrow> resolved \<Rightarrow> entry \<Rightarrow> contract_fault + shape_relation list option" where
  "resolve_product vault landing resolved = (\<lambda>(name, doc, v).
     if vp_profile v = ''landing'' then
       bind (landing_schema_for doc name landing) (\<lambda>schema.
       bind (shape_relations_for vault doc v (rs_fields schema)) (\<lambda>relations.
       bind (apply_physical_names doc name relations) (\<lambda>relations. Inr (Some relations))))
     else if \<not> set (needed_products doc) \<subseteq> fst ` set resolved \<union> fst ` set landing then Inr None
     else
       bind (consumer_source_schemas doc name resolved landing) (\<lambda>schemas.
       bind (derive_shape_relations vault doc v schemas) (\<lambda>relations.
       bind (apply_physical_names doc name relations) (\<lambda>relations. Inr (Some relations)))))"

text \<open>
  One pass over the products that remain, by name; a product resolved early serves the later ones.
  \<open>produce\<close> is the body of the loop.
\<close>

type_synonym producer = "resolved \<Rightarrow> entry \<Rightarrow> contract_fault + shape_relation list option"

fun resolve_pass :: "producer \<Rightarrow> compositions \<Rightarrow> resolved \<Rightarrow> contract_fault + compositions \<times> resolved" where
  "resolve_pass produce [] resolved = Inr ([], resolved)"
| "resolve_pass produce (e # rest) resolved =
     bind (produce resolved e) (\<lambda>outcome.
     case outcome of
       None \<Rightarrow> bind (resolve_pass produce rest resolved) (\<lambda>(remaining, resolved). Inr (e # remaining, resolved))
     | Some relations \<Rightarrow> resolve_pass produce rest (resolved @ [(fst e, relations)]))"

text \<open>Passes until nothing remains or one makes no progress.\<close>

function resolve_passes :: "producer \<Rightarrow> compositions \<Rightarrow> resolved \<Rightarrow> contract_fault + resolved" where
  "resolve_passes produce remaining resolved =
     (if remaining = [] then Inr resolved
      else case resolve_pass produce remaining resolved of
        Inl e \<Rightarrow> Inl e
      | Inr (rest, found) \<Rightarrow>
          if length rest < length remaining then resolve_passes produce rest found
          else Inl (Unresolved_products (map fst rest)))"
  by pat_completeness auto

termination by (relation "measure (\<lambda>(produce, remaining, resolved). length remaining)") auto

declare resolve_passes.simps [simp del]

definition resolve_relation_registry :: "shape \<Rightarrow> schemas \<Rightarrow> compositions \<Rightarrow> contract_fault + resolved" where
  "resolve_relation_registry vault landing entries =
     resolve_passes (resolve_product vault landing) (sort_key fst entries) []"

end
