(* ===== verification/Registry_Loop.thy ===== *)
theory Registry_Loop
  imports Relation_Registry
begin

text \<open>
  The passes of the registry against the contract of their body: a product waits exactly while something it
  needs is missing, and what it becomes depends only on what it needs. From that alone the passes end, what
  they return solves the equations of the estate, nothing else does, and an estate that can be ordered is
  never given up.
\<close>

text \<open>What a read finds of a product: its relations once it is resolved, before that what was given.\<close>

definition seen :: "(string \<Rightarrow> shape_relation list option) \<Rightarrow> resolved \<Rightarrow> string \<Rightarrow> shape_relation list option" where
  "seen given resolved n = (case map_of resolved n of Some relations \<Rightarrow> Some relations | None \<Rightarrow> given n)"

lemma seen_append:
  "map_of resolved n = Some relations \<Longrightarrow> seen given (resolved @ further) n = Some relations"
  by (simp add: seen_def map_of_append map_add_Some_iff split: option.splits)

lemma map_of_append1:
  "n \<notin> fst ` set xs \<Longrightarrow> map_of (xs @ [(n, y)]) k = (if k = n then Some y else map_of xs k)"
  by (induction xs) auto

text \<open>A list of results in which each one follows from those before it.\<close>

fun built :: "producer \<Rightarrow> compositions \<Rightarrow> resolved \<Rightarrow> resolved \<Rightarrow> bool" where
  "built produce es before [] \<longleftrightarrow> True"
| "built produce es before ((n, relations) # results) \<longleftrightarrow>
     (\<exists>e \<in> set es. fst e = n \<and> produce before e = Inr (Some relations)) \<and>
     built produce es (before @ [(n, relations)]) results"

lemma built_mono: "built produce es before results \<Longrightarrow> set es \<subseteq> set es' \<Longrightarrow> built produce es' before results"
  by (induction produce es before results rule: built.induct) auto

lemma built_append:
  "built produce es before (xs @ ys) \<longleftrightarrow> built produce es before xs \<and> built produce es (before @ xs) ys"
  by (induction xs arbitrary: before) auto

lemma resolve_pass_built:
  "resolve_pass produce es before = Inr (rest, after) \<Longrightarrow>
     \<exists>results. after = before @ results \<and> built produce es before results \<and>
       mset (map fst es) = mset (map fst rest) + mset (map fst results) \<and> set rest \<subseteq> set es"
proof (induction es arbitrary: before rest after)
  case (Cons e es)
  from Cons.prems obtain outcome where outcome: "produce before e = Inr outcome"
    and tail: "(case outcome of
        None \<Rightarrow> bind (resolve_pass produce es before) (\<lambda>(remaining, resolved). Inr (e # remaining, resolved))
      | Some relations \<Rightarrow> resolve_pass produce es (before @ [(fst e, relations)])) = Inr (rest, after)"
    by auto
  show ?case
  proof (cases outcome)
    case None
    with tail obtain later where later: "resolve_pass produce es before = Inr (later, after)" "rest = e # later"
      by auto
    from Cons.IH [OF later(1)] obtain results where "after = before @ results" "built produce es before results"
      "mset (map fst es) = mset (map fst later) + mset (map fst results)" "set later \<subseteq> set es" by auto
    with later(2) show ?thesis by (intro exI [of _ results]) (auto intro: built_mono)
  next
    case (Some relations)
    with tail have "resolve_pass produce es (before @ [(fst e, relations)]) = Inr (rest, after)" by simp
    from Cons.IH [OF this] obtain results
      where "after = (before @ [(fst e, relations)]) @ results" "built produce es (before @ [(fst e, relations)]) results"
        "mset (map fst es) = mset (map fst rest) + mset (map fst results)" "set rest \<subseteq> set es" by auto
    with outcome Some show ?thesis
      by (intro exI [of _ "(fst e, relations) # results"]) (auto intro: built_mono)
  qed
qed simp

lemma resolve_passes_built:
  "resolve_passes produce es before = Inr after \<Longrightarrow>
     \<exists>results. after = before @ results \<and> built produce es before results \<and> mset (map fst results) = mset (map fst es)"
proof (induction produce es before arbitrary: after rule: resolve_passes.induct)
  case (1 produce es before)
  show ?case
  proof (cases "es = []")
    case True
    with "1.prems" show ?thesis by (simp add: resolve_passes.simps)
  next
    case False
    with "1.prems" obtain rest found where pass: "resolve_pass produce es before = Inr (rest, found)"
      and fewer: "length rest < length es" and more: "resolve_passes produce rest found = Inr after"
      by (auto simp: resolve_passes.simps [of produce es] split: sum.splits if_splits)
    from resolve_pass_built [OF pass] obtain first where first: "found = before @ first" "built produce es before first"
      "mset (map fst es) = mset (map fst rest) + mset (map fst first)" "set rest \<subseteq> set es" by auto
    from "1.IH" [OF False pass refl fewer more] obtain later where later: "after = found @ later"
      "built produce rest found later" "mset (map fst later) = mset (map fst rest)" by auto
    with first have "built produce es before (first @ later)" by (auto simp: built_append intro: built_mono)
    with first later show ?thesis by (intro exI [of _ "first @ later"]) auto
  qed
qed

text \<open>A pass that resolves nothing leaves every product waiting on the same results.\<close>

lemma idle_pass:
  "resolve_pass produce es before = Inr (rest, after) \<Longrightarrow> length es \<le> length rest \<Longrightarrow>
     rest = es \<and> after = before \<and> (\<forall>e \<in> set es. produce before e = Inr None)"
proof (induction es arbitrary: before rest after)
  case (Cons e es)
  from Cons.prems(1) obtain outcome where outcome: "produce before e = Inr outcome"
    and tail: "(case outcome of
        None \<Rightarrow> bind (resolve_pass produce es before) (\<lambda>(remaining, resolved). Inr (e # remaining, resolved))
      | Some relations \<Rightarrow> resolve_pass produce es (before @ [(fst e, relations)])) = Inr (rest, after)"
    by auto
  show ?case
  proof (cases outcome)
    case None
    with tail obtain later where "resolve_pass produce es before = Inr (later, after)" "rest = e # later" by auto
    with Cons None outcome show ?thesis by auto
  next
    case (Some relations)
    with tail have "resolve_pass produce es (before @ [(fst e, relations)]) = Inr (rest, after)" by simp
    from resolve_pass_built [OF this] have "mset (map fst rest) \<subseteq># mset (map fst es)" by auto
    then have "length rest \<le> length es" by (metis length_map size_mset size_mset_mono)
    with Cons.prems(2) show ?thesis by simp
  qed
qed simp

text \<open>A pass fails with the fault of a product; the passes fail so too, or give up over products that still wait.\<close>

lemma resolve_pass_fault: "resolve_pass produce es r = Inl fault \<Longrightarrow> \<exists>found. \<exists>e \<in> set es. produce found e = Inl fault"
proof (induction es arbitrary: r)
  case (Cons e es)
  show ?case
  proof (cases "produce r e")
    case (Inl other)
    with Cons.prems show ?thesis by (intro exI [of _ r] bexI [of _ e]) auto
  next
    case (Inr outcome)
    with Cons.prems have "\<exists>r. resolve_pass produce es r = Inl fault" by (cases outcome) (auto simp: bind_eq_Inl)
    with Cons.IH show ?thesis by (meson list.set_intros(2))
  qed
qed simp

lemma given_up:
  assumes "resolve_passes produce es before = Inl fault"
  shows "(\<exists>found. \<exists>e \<in> set es. produce found e = Inl fault) \<or>
    (\<exists>rest found. fault = Unresolved_products (map fst rest) \<and> rest \<noteq> [] \<and> set rest \<subseteq> set es \<and>
      (\<forall>e \<in> set rest. produce found e = Inr None) \<and>
      fst ` set es - fst ` set rest \<subseteq> fst ` set found \<and> fst ` set before \<subseteq> fst ` set found)"
    (is "?own es \<or> ?stuck es before")
  using assms
proof (induction produce es before rule: resolve_passes.induct)
  case (1 produce es before)
  from "1.prems" have nonempty: "es \<noteq> []" by (auto simp: resolve_passes.simps [of produce es])
  show ?case
  proof (cases "resolve_pass produce es before")
    case (Inl other)
    with "1.prems" nonempty have "other = fault" by (simp add: resolve_passes.simps [of produce es])
    with resolve_pass_fault [of produce es before fault] Inl show ?thesis by simp
  next
    case (Inr outcome)
    then obtain rest found where pass: "resolve_pass produce es before = Inr (rest, found)" by (cases outcome) simp
    from resolve_pass_built [OF pass] obtain first where first: "found = before @ first"
        "mset (map fst es) = mset (map fst rest) + mset (map fst first)" "set rest \<subseteq> set es" by auto
    have names: "fst ` set es = fst ` set rest \<union> fst ` set first"
      using arg_cong [OF first(2), of set_mset] by simp
    show ?thesis
    proof (cases "length rest < length es")
      case True
      with "1.prems" nonempty pass have "resolve_passes produce rest found = Inl fault"
        by (simp add: resolve_passes.simps [of produce es])
      from "1.IH" [OF nonempty pass refl True this] show ?thesis
      proof
        assume "\<exists>found. \<exists>e \<in> set rest. produce found e = Inl fault"
        with first(3) show ?thesis by blast
      next
        assume "\<exists>last_rest last_found. fault = Unresolved_products (map fst last_rest) \<and> last_rest \<noteq> [] \<and>
          set last_rest \<subseteq> set rest \<and> (\<forall>e \<in> set last_rest. produce last_found e = Inr None) \<and>
          fst ` set rest - fst ` set last_rest \<subseteq> fst ` set last_found \<and> fst ` set found \<subseteq> fst ` set last_found"
        then obtain last_rest last_found
          where last: "fault = Unresolved_products (map fst last_rest)" "last_rest \<noteq> []" "set last_rest \<subseteq> set rest"
            "\<forall>e \<in> set last_rest. produce last_found e = Inr None"
            "fst ` set rest - fst ` set last_rest \<subseteq> fst ` set last_found" "fst ` set found \<subseteq> fst ` set last_found" by auto
        have grown: "fst ` set first \<subseteq> fst ` set found" "fst ` set before \<subseteq> fst ` set found" by (auto simp: first(1))
        have "fst ` set es - fst ` set last_rest \<subseteq> (fst ` set rest - fst ` set last_rest) \<union> fst ` set first"
          unfolding names by blast
        also have "\<dots> \<subseteq> fst ` set last_found" by (intro Un_least last(5) order_trans [OF grown(1) last(6)])
        finally have "fst ` set es - fst ` set last_rest \<subseteq> fst ` set last_found" .
        moreover have "fst ` set before \<subseteq> fst ` set last_found" by (rule order_trans [OF grown(2) last(6)])
        moreover from last(3) first(3) have "set last_rest \<subseteq> set es" by blast
        ultimately show ?thesis using last(1,2,4) by blast
      qed
    next
      case False
      with "1.prems" nonempty pass have "fault = Unresolved_products (map fst rest)"
        by (simp add: resolve_passes.simps [of produce es])
      with idle_pass [OF pass] False nonempty show ?thesis by (intro disjI2 exI [of _ rest] exI [of _ before]) auto
    qed
  qed
qed

section \<open>The contract of the body\<close>

text \<open>
  \<open>needs\<close> are the names a product reads, \<open>given\<close> what can be read of a name before it is resolved. A name
  that is both a product's and given is settled when its product becomes exactly what was given.
\<close>

locale resolver =
  fixes produce :: "'w \<Rightarrow> producer"
    and needs :: "entry \<Rightarrow> string set"
    and given :: "'w \<Rightarrow> string \<Rightarrow> shape_relation list option"
    and fits :: "'w \<Rightarrow> bool"
  assumes waits: "produce w r e = Inr None \<Longrightarrow> \<exists>n \<in> needs e. seen (given w) r n = None"
    and ready: "produce w r e = Inr (Some relations) \<Longrightarrow> n \<in> needs e \<Longrightarrow> seen (given w) r n \<noteq> None"
    and reads: "fits w \<Longrightarrow> (\<And>n. n \<in> needs e \<Longrightarrow> seen (given w) r n = seen (given w) r' n) \<Longrightarrow>
      produce w r e = produce w r' e"
begin

definition settled :: "'w \<Rightarrow> compositions \<Rightarrow> bool" where
  "settled w es \<longleftrightarrow> distinct (map fst es) \<and>
     (\<forall>e \<in> set es. \<forall>relations. given w (fst e) = Some relations \<longrightarrow> (\<forall>r. produce w r e = Inr (Some relations)))"

definition solves :: "'w \<Rightarrow> compositions \<Rightarrow> (string \<rightharpoonup> shape_relation list) \<Rightarrow> resolved \<Rightarrow> bool" where
  "solves w es m resolved \<longleftrightarrow> (\<forall>e \<in> set es. m (fst e) \<noteq> None \<and> produce w resolved e = Inr (m (fst e)))"

lemma settled_entry: "settled w es \<Longrightarrow> e \<in> set es \<Longrightarrow> e' \<in> set es \<Longrightarrow> fst e = fst e' \<Longrightarrow> e = e'"
  by (auto simp: settled_def distinct_map dest: inj_onD)

text \<open>What a product that was built saw of a name, any solution of the estate shows of it too.\<close>

lemma seen_of_solution:
  assumes settled: "settled w es" and solution: "solves w es (map_of other) other" "fst ` set other = fst ` set es"
    and agrees: "\<And>k relations. map_of before k = Some relations \<Longrightarrow> map_of other k = Some relations"
    and there: "seen (given w) before n \<noteq> None"
  shows "seen (given w) other n = seen (given w) before n"
proof (cases "map_of before n")
  case None
  with there obtain relations where relations: "given w n = Some relations" by (auto simp: seen_def)
  show ?thesis
  proof (cases "n \<in> fst ` set es")
    case True
    then obtain e where e: "e \<in> set es" "fst e = n" by auto
    with settled relations have "produce w other e = Inr (Some relations)" by (auto simp: settled_def)
    with solution(1) e have "map_of other n = Some relations" by (auto simp: solves_def)
    with None relations show ?thesis by (simp add: seen_def)
  next
    case False
    with solution(2) have "map_of other n = None" by (simp add: map_of_eq_None_iff)
    with None relations show ?thesis by (simp add: seen_def)
  qed
next
  case (Some relations)
  with agrees [OF Some] show ?thesis by (simp add: seen_def)
qed

lemma built_agrees:
  assumes fits: "fits w" and settled: "settled w es" and solution: "solves w es (map_of other) other" "fst ` set other = fst ` set es"
  shows "built (produce w) es before results \<Longrightarrow>
    (\<And>k relations. map_of before k = Some relations \<Longrightarrow> map_of other k = Some relations) \<Longrightarrow>
    (\<forall>(n, relations) \<in> set results. map_of other n = Some relations)"
proof (induction results arbitrary: before)
  case (Cons result results)
  obtain n relations where result: "result = (n, relations)" by (cases result)
  with Cons.prems(1) obtain e where e: "e \<in> set es" "fst e = n" "produce w before e = Inr (Some relations)"
    and rest: "built (produce w) es (before @ [(n, relations)]) results" by auto
  have "produce w other e = produce w before e"
    using seen_of_solution [OF settled solution Cons.prems(2)] ready [OF e(3)] by (intro reads [OF fits]) blast
  with solution(1) e have here: "map_of other n = Some relations" by (auto simp: solves_def)
  have "map_of other k = Some x" if "map_of (before @ [(n, relations)]) k = Some x" for k x
    using that here Cons.prems(2) by (auto simp: map_of_append map_add_Some_iff split: if_splits)
  from Cons.IH [OF rest this] here show ?case by (simp add: result)
qed simp

text \<open>The results of a run solve the estate: a product read while it was only given reads the same at the end.\<close>

lemma built_solves:
  assumes fits: "fits w" and settled: "settled w es" and built: "built (produce w) es [] results"
    and names: "mset (map fst results) = mset (map fst es)"
  shows "solves w es (map_of results) results"
  unfolding solves_def
proof
  fix e
  assume e: "e \<in> set es"
  have once: "distinct (map fst results)" using settled mset_eq_imp_distinct_iff [OF names] by (simp add: settled_def)
  have same: "fst ` set results = fst ` set es" using arg_cong [OF names, of set_mset] by simp
  with e obtain relations where "(fst e, relations) \<in> set results" by force
  then obtain xs ys where split: "results = xs @ (fst e, relations) # ys" by (meson split_list)
  with built obtain e' where e': "e' \<in> set es" "fst e' = fst e" "produce w xs e' = Inr (Some relations)"
    by (auto simp: built_append)
  then have here: "produce w xs e = Inr (Some relations)" using settled_entry [OF settled e'(1) e] by simp
  have final: "map_of results (fst e) = Some relations"
    using once by (rule map_of_is_SomeI) (simp add: split)
  have "seen (given w) results n = seen (given w) xs n" if n: "n \<in> needs e" for n
  proof (cases "map_of xs n")
    case None
    with ready [OF here n] obtain g where g: "given w n = Some g" by (auto simp: seen_def)
    show ?thesis
    proof (cases "map_of results n")
      case (Some later)
      then have "(n, later) \<in> set results" by (rule map_of_SomeD)
      then obtain us vs where "results = us @ (n, later) # vs" by (meson split_list)
      with built obtain d where "d \<in> set es" "fst d = n" "produce w us d = Inr (Some later)" by (auto simp: built_append)
      with settled g have "later = g" by (auto simp: settled_def)
      with Some None g show ?thesis by (simp add: seen_def)
    qed (simp add: None g seen_def)
  next
    case (Some x)
    then show ?thesis by (simp add: split seen_append) (simp add: seen_def)
  qed
  with here have "produce w results e = Inr (Some relations)" using reads [OF fits, of e results xs] by simp
  with final show "map_of results (fst e) \<noteq> None \<and> produce w results e = Inr (map_of results (fst e))" by simp
qed

theorem run_solves:
  assumes "fits w" and "settled w es" and "resolve_passes (produce w) es [] = Inr resolved"
  shows "mset (map fst resolved) = mset (map fst es) \<and> solves w es (map_of resolved) resolved"
  using resolve_passes_built [OF assms(3)] built_solves [OF assms(1,2)] by auto

theorem run_unique:
  assumes "fits w" and "settled w es" and "resolve_passes (produce w) es [] = Inr resolved"
    and "solves w es (map_of other) other" "fst ` set other = fst ` set es"
  shows "map_of other = map_of resolved"
proof
  fix n
  obtain built: "built (produce w) es [] resolved" and names: "mset (map fst resolved) = mset (map fst es)"
    using resolve_passes_built [OF assms(3)] by auto
  have same: "fst ` set resolved = fst ` set es" using arg_cong [OF names, of set_mset] by simp
  show "map_of other n = map_of resolved n"
  proof (cases "map_of resolved n")
    case None
    with same assms(5) have "n \<notin> fst ` set other" by (simp add: map_of_eq_None_iff)
    then have "map_of other n = None" by (simp only: map_of_eq_None_iff not_False_eq_True)
    with None show ?thesis by (simp only:)
  next
    case (Some relations)
    then have "(n, relations) \<in> set resolved" by (rule map_of_SomeD)
    with built_agrees [OF assms(1,2,4,5) built] Some show ?thesis by auto
  qed
qed

text \<open>
  An estate is given up only over products that need one another in a circle, or something no one provides.
\<close>

theorem run_faults:
  assumes "resolve_passes (produce w) es [] = Inl fault"
  shows "(\<exists>found. \<exists>e \<in> set es. produce w found e = Inl fault) \<or>
    (\<exists>names. fault = Unresolved_products names \<and> names \<noteq> [] \<and> (\<forall>m \<in> set names. \<exists>e \<in> set es. fst e = m \<and>
      (\<exists>n \<in> needs e. n \<in> set names \<or> n \<notin> fst ` set es \<and> given w n = None)))"
  using given_up [OF assms]
proof
  assume "\<exists>rest found. fault = Unresolved_products (map fst rest) \<and> rest \<noteq> [] \<and> set rest \<subseteq> set es \<and>
    (\<forall>e \<in> set rest. produce w found e = Inr None) \<and>
    fst ` set es - fst ` set rest \<subseteq> fst ` set found \<and> fst ` set [] \<subseteq> fst ` set found"
  then obtain rest found where rest: "fault = Unresolved_products (map fst rest)" "rest \<noteq> []" "set rest \<subseteq> set es"
    "\<forall>e \<in> set rest. produce w found e = Inr None" "fst ` set es - fst ` set rest \<subseteq> fst ` set found" by auto
  have "\<exists>e \<in> set es. fst e = m \<and> (\<exists>n \<in> needs e. n \<in> fst ` set rest \<or> n \<notin> fst ` set es \<and> given w n = None)"
    if m: "m \<in> fst ` set rest" for m
  proof -
    from m obtain e where e: "e \<in> set rest" "fst e = m" by auto
    with rest(4) waits obtain n where n: "n \<in> needs e" "seen (given w) found n = None" by blast
    then have "n \<notin> fst ` set found" "given w n = None" by (auto simp: seen_def map_of_eq_None_iff split: option.splits)
    with rest(5) have "n \<in> fst ` set rest \<or> n \<notin> fst ` set es \<and> given w n = None" by blast
    with e n(1) rest(3) show ?thesis by blast
  qed
  with rest(1,2) show ?thesis by (intro disjI2 exI [of _ "map fst rest"]) simp
qed blast

theorem run_never_given_up:
  assumes failed: "resolve_passes (produce w) es [] = Inl fault"
    and closed: "\<forall>e \<in> set es. \<forall>n \<in> needs e. n \<in> fst ` set es \<or> given w n \<noteq> None"
    and ordered: "acyclic {(n, fst e) | n e. e \<in> set es \<and> n \<in> needs e \<and> n \<in> fst ` set es \<and> given w n = None}"
  shows "\<exists>found. \<exists>e \<in> set es. produce w found e = Inl fault"
  using given_up [OF failed]
proof
  let ?R = "{(n, fst e) | n e. e \<in> set es \<and> n \<in> needs e \<and> n \<in> fst ` set es \<and> given w n = None}"
  assume "\<exists>rest found. fault = Unresolved_products (map fst rest) \<and> rest \<noteq> [] \<and> set rest \<subseteq> set es \<and>
    (\<forall>e \<in> set rest. produce w found e = Inr None) \<and>
    fst ` set es - fst ` set rest \<subseteq> fst ` set found \<and> fst ` set [] \<subseteq> fst ` set found"
  then obtain rest found where rest: "rest \<noteq> []" "set rest \<subseteq> set es"
    "\<forall>e \<in> set rest. produce w found e = Inr None" "fst ` set es - fst ` set rest \<subseteq> fst ` set found" by auto
  have "?R \<subseteq> fst ` set es \<times> fst ` set es" by (intro subsetI, elim CollectE exE) simp
  then have "finite ?R" by (rule finite_subset) simp
  with ordered have "wf ?R" by (simp add: finite_acyclic_wf)
  moreover have "fst ` set rest \<noteq> {}" using rest(1) by simp
  ultimately obtain m where m: "m \<in> fst ` set rest" "\<And>n. (n, m) \<in> ?R \<Longrightarrow> n \<notin> fst ` set rest"
    by (meson wfE_min all_not_in_conv)
  then obtain e where e: "e \<in> set rest" "fst e = m" by auto
  with rest(3) waits obtain n where n: "n \<in> needs e" "seen (given w) found n = None" by blast
  then have missing: "map_of found n = None" "given w n = None" by (auto simp: seen_def split: option.splits)
  with closed e rest(2) n(1) have known: "n \<in> fst ` set es" by blast
  with e n(1) rest(2) missing(2) have "(n, m) \<in> ?R" by blast
  with m(2) known rest(4) have "n \<in> fst ` set found" by blast
  with missing(1) show ?thesis by (simp add: map_of_eq_None_iff)
qed

end

end
