(* ===== verification/Estate_Registry.thy ===== *)
theory Estate_Registry
  imports Registry_Loop
begin

text \<open>
  The body of the registry's loop meets the contract of \<open>resolver\<close>: what a product becomes depends only on the
  relations of the products it names. A landing schema stands for one relation of its product's own name.
\<close>

text \<open>A schema an estate opens with, as the relations a read finds of it.\<close>

definition opening_relation :: "relation_schema \<Rightarrow> shape_relation" where
  "opening_relation s =
     \<lparr>sr_suffix = None, sr_schema = s, sr_derivation = Composition, sr_source_columns = [], sr_key = [],
      sr_materialisation = None, sr_change_column = None, sr_range_columns = None, sr_reads = []\<rparr>"

definition given_of :: "schemas \<Rightarrow> string \<Rightarrow> shape_relation list option" where
  "given_of landing n = map_option (\<lambda>s. [opening_relation s]) (map_of landing n)"

text \<open>A landing schema is published under the name it is supplied for.\<close>

definition named_schemas :: "schemas \<Rightarrow> bool" where
  "named_schemas landing \<longleftrightarrow> (\<forall>(n, s) \<in> set landing. rs_name s = n)"

definition needs_of :: "entry \<Rightarrow> string set" where
  "needs_of = (\<lambda>(name, doc, v). if vp_profile v = ''landing'' then {} else set (needed_products doc))"

text \<open>A read, by what it sees of its producer.\<close>

definition read_relation ::
    "string \<Rightarrow> shape_relation list option \<Rightarrow> read_kind \<times> string \<times> string option \<Rightarrow> contract_fault + resolved_read" where
  "read_relation consumer found = (\<lambda>(kind, reference, relation).
     let producer = contract_target reference in
     case found of
       None \<Rightarrow> Inl (Unresolved_source consumer reference)
     | Some relations \<Rightarrow>
         bind (resolve_source_relation relations consumer producer relation kind) (\<lambda>chosen.
         Inr \<lparr>rr_kind = kind, rr_contract = reference, rr_producer = producer,
           rr_key = source_relation_key reference relation,
           rr_relation = rs_name (sr_schema chosen), rr_suffix = sr_suffix chosen, rr_schema = sr_schema chosen\<rparr>))"

lemma resolve_relation_name_mem:
  "resolve_relation_name available consumer producer relation kind = Inr name \<Longrightarrow> name \<in> set available"
  by (auto simp: resolve_relation_name_def Let_def find_Some_iff in_set_conv_nth split: option.splits list.splits)

lemma read_opening:
  assumes "rs_name s = producer"
  shows "resolve_source_relation [opening_relation s] consumer producer relation kind =
    bind (of_read (resolve_relation_name [producer] consumer producer relation kind)) (\<lambda>_. Inr (opening_relation s))"
proof (cases "resolve_relation_name [producer] consumer producer relation kind")
  case (Inr name)
  with resolve_relation_name_mem have "name = producer" by fastforce
  with Inr assms show ?thesis by (simp add: resolve_source_relation_def opening_relation_def of_read_def)
qed (simp add: resolve_source_relation_def opening_relation_def of_read_def assms)

lemma resolve_read_seen:
  assumes "named_schemas landing"
  shows "resolve_read consumer resolved landing (kind, reference, relation) =
    read_relation consumer (seen (given_of landing) resolved (contract_target reference)) (kind, reference, relation)"
proof (cases "map_of resolved (contract_target reference)")
  case None
  show ?thesis
  proof (cases "map_of landing (contract_target reference)")
    case (Some s)
    then have "rs_name s = contract_target reference"
      using assms by (auto simp: named_schemas_def dest: map_of_SomeD)
    note via = read_opening [OF this]
    show ?thesis
    proof (cases "resolve_relation_name [contract_target reference] consumer (contract_target reference) relation kind")
      case (Inr name)
      with resolve_relation_name_mem [OF Inr] \<open>rs_name s = contract_target reference\<close> show ?thesis using None Some
        by (simp add: resolve_read_def read_relation_def seen_def given_of_def via of_read_def Let_def)
           (simp add: opening_relation_def)
    qed (simp add: None Some resolve_read_def read_relation_def seen_def given_of_def via of_read_def Let_def)
  qed (simp add: None resolve_read_def read_relation_def seen_def given_of_def)
qed (simp add: resolve_read_def read_relation_def seen_def)

lemma declared_reads_needed:
  "(kind, reference, relation) \<in> set (declared_reads doc) \<Longrightarrow> contract_target reference \<in> set (needed_products doc)"
  by (auto simp: declared_reads_def needed_products_def)

lemma consumer_schemas_seen:
  assumes "named_schemas landing"
    and same: "\<And>n. n \<in> set (needed_products doc) \<Longrightarrow> seen (given_of landing) r n = seen (given_of landing) r' n"
  shows "consumer_source_schemas doc name r landing = consumer_source_schemas doc name r' landing"
proof -
  have "resolve_read name r landing read = resolve_read name r' landing read" if "read \<in> set (declared_reads doc)" for read
  proof -
    obtain kind reference relation where read: "read = (kind, reference, relation)" by (cases read) auto
    with that have "contract_target reference \<in> set (needed_products doc)" by (auto intro: declared_reads_needed)
    from same [OF this] show ?thesis by (simp add: read resolve_read_seen [OF assms(1)])
  qed
  then have "resolve_consumer_reads doc name r landing = resolve_consumer_reads doc name r' landing"
    unfolding resolve_consumer_reads_def by (intro map_result_cong) auto
  then show ?thesis by (simp add: consumer_source_schemas_def)
qed

lemma available_iff:
  "set names \<subseteq> fst ` set r \<union> fst ` set landing \<longleftrightarrow> (\<forall>n \<in> set names. seen (given_of landing) r n \<noteq> None)"
proof -
  have "seen (given_of landing) r n \<noteq> None \<longleftrightarrow> n \<in> fst ` set r \<union> fst ` set landing" for n
    using map_of_eq_None_iff [of r n] map_of_eq_None_iff [of landing n]
    by (auto simp: seen_def given_of_def split: option.splits simp del: map_of_eq_None_iff)
  then show ?thesis by blast
qed

lemma resolve_product_waits:
  "resolve_product vault landing r (name, doc, v) =
    (if vp_profile v = ''landing'' then
       bind (landing_schema_for doc name landing) (\<lambda>schema.
       bind (shape_relations_for vault doc v (rs_fields schema)) (\<lambda>relations.
       bind (apply_physical_names doc name relations) (\<lambda>relations. Inr (Some relations))))
     else if \<exists>n \<in> set (needed_products doc). seen (given_of landing) r n = None then Inr None
     else
       bind (consumer_source_schemas doc name r landing) (\<lambda>schemas.
       bind (derive_shape_relations vault doc v schemas) (\<lambda>relations.
       bind (apply_physical_names doc name relations) (\<lambda>relations. Inr (Some relations)))))"
  unfolding resolve_product_def prod.case available_iff by auto

lemma produce_waits:
  assumes "resolve_product vault landing r e = Inr None"
  shows "\<exists>n \<in> needs_of e. seen (given_of landing) r n = None"
proof -
  obtain name doc v where e: "e = (name, doc, v)" by (cases e) auto
  from assms show ?thesis by (auto simp: e resolve_product_waits needs_of_def split: if_splits)
qed

lemma produce_ready:
  assumes "resolve_product vault landing r e = Inr (Some relations)" and "n \<in> needs_of e"
  shows "seen (given_of landing) r n \<noteq> None"
proof -
  obtain name doc v where e: "e = (name, doc, v)" by (cases e) auto
  from assms show ?thesis by (auto simp: e resolve_product_waits needs_of_def split: if_splits)
qed

lemma produce_reads:
  assumes "named_schemas landing"
    and same: "\<And>n. n \<in> needs_of e \<Longrightarrow> seen (given_of landing) r n = seen (given_of landing) r' n"
  shows "resolve_product vault landing r e = resolve_product vault landing r' e"
proof -
  obtain name doc v where e: "e = (name, doc, v)" by (cases e) auto
  show ?thesis
  proof (cases "vp_profile v = ''landing''")
    case False
    with same e have same: "\<And>n. n \<in> set (needed_products doc) \<Longrightarrow> seen (given_of landing) r n = seen (given_of landing) r' n"
      by (simp add: needs_of_def)
    then have "(\<exists>n \<in> set (needed_products doc). seen (given_of landing) r n = None) \<longleftrightarrow>
        (\<exists>n \<in> set (needed_products doc). seen (given_of landing) r' n = None)" by simp
    moreover have "consumer_source_schemas doc name r landing = consumer_source_schemas doc name r' landing"
      by (rule consumer_schemas_seen [OF assms(1) same])
    ultimately show ?thesis unfolding e resolve_product_waits by (simp only:)
  qed (simp add: e resolve_product_def)
qed

text \<open>No product of an estate is itself the fault of an estate that is given up.\<close>

lemma of_read_fault [simp]: "of_read r \<noteq> Inl (Unresolved_products names)"
  by (simp add: of_read_def split: sum.splits)

interpretation estate: resolver "resolve_product vault" needs_of given_of named_schemas for vault
  by unfold_locales (rule produce_waits, assumption, rule produce_ready, assumption+, rule produce_reads, assumption+)

end
