(* ===== verification/Composition_Facts.thy ===== *)
theory Composition_Facts
  imports Relation_Registry
begin

text \<open>
  Lemmas on columns and compositions: dictionaries of fields, a conformed source, a union, a merge, and what
  propagation through the steps of a composition keeps of the columns.
\<close>

section \<open>Dictionaries of fields\<close>

lemma check_that_simps [simp, result_simps]: "check_that b e = Inr u \<longleftrightarrow> b" "check_that b e = Inl d \<longleftrightarrow> \<not> b \<and> d = e"
  by (auto simp: check_that_def)

lemma refuse_first_Inr [simp, result_simps]: "refuse_first bad e xs = Inr u \<longleftrightarrow> (\<forall>x \<in> set xs. \<not> bad x)"
  by (induction xs) (auto simp: refuse_first_def split: if_splits)

lemma refuse_first_Inl: "refuse_first bad e xs = Inl d \<Longrightarrow> \<exists>x \<in> set xs. bad x \<and> d = e x"
  by (induction xs) (auto simp: refuse_first_def split: if_splits)

text \<open>A loop that only checks.\<close>

lemma fold_check_Inr [simp, result_simps]:
  "fold_result (\<lambda>x _. g x) xs () = Inr u \<longleftrightarrow> (\<forall>x \<in> set xs. g x = Inr ())"
  by (induction xs) auto

lemma fold_check_pair_Inr [simp, result_simps]:
  "fold_result (\<lambda>(a, b) _. g a b) xs () = Inr u \<longleftrightarrow> (\<forall>(a, b) \<in> set xs. g a b = Inr ())"
  by (induction xs) (auto split: prod.splits)

lemma unique_put_field: "unique_keys rf_name cols \<Longrightarrow> unique_keys rf_name (put_field f cols)"
  by (simp add: put_field_def unique_keys_upsert)

lemma lookup_put_field [simp]:
  "lookup_row rf_name n (put_field f cols) = (if n = rf_name f then Some f else lookup_row rf_name n cols)"
  by (simp add: put_field_def lookup_row_upsert)

lemma set_put_fieldD: "x \<in> set (put_field f cols) \<Longrightarrow> x = f \<or> x \<in> set cols"
  by (auto simp: put_field_def dest: set_upsert_rowD)

lemma put_field_fresh: "rf_name f \<notin> rf_name ` set cols \<Longrightarrow> put_field f cols = cols @ [f]"
  by (simp add: put_field_def upsert_row_def)

lemma unique_fold_put: "unique_keys rf_name cols \<Longrightarrow> unique_keys rf_name (fold put_field fs cols)"
  by (induction fs arbitrary: cols) (simp_all add: unique_put_field)

lemma set_fold_putD: "x \<in> set (fold put_field fs cols) \<Longrightarrow> x \<in> set fs \<or> x \<in> set cols"
  by (induction fs arbitrary: cols) (use set_put_fieldD in \<open>fastforce+\<close>)

lemma fold_put_fresh:
  "distinct (map rf_name fs) \<Longrightarrow> rf_name ` set fs \<inter> rf_name ` set cols = {} \<Longrightarrow> fold put_field fs cols = cols @ fs"
proof (induction fs arbitrary: cols)
  case (Cons f fs)
  then have "put_field f cols = cols @ [f]" by (intro put_field_fresh) auto
  with Cons show ?case by auto
qed simp

lemma fields_by_name_distinct [simp]: "distinct (map rf_name cols) \<Longrightarrow> fields_by_name cols = cols"
  by (simp add: fields_by_name_def fold_put_fresh)

lemma unique_fields_by_name [simp]: "unique_keys rf_name (fields_by_name cols)"
  by (simp add: fields_by_name_def unique_fold_put)

lemma set_fields_by_name: "f \<in> set (fields_by_name cols) \<Longrightarrow> f \<in> set cols"
  using set_fold_putD [of f cols "[]"] by (simp add: fields_by_name_def)

lemma field_of_SomeD: "field_of cols n = Some f \<Longrightarrow> f \<in> set cols \<and> rf_name f = n"
  by (auto simp: field_of_def dest!: lookup_row_SomeD intro: set_fields_by_name)

lemma field_of_iff:
  "distinct (map rf_name cols) \<Longrightarrow> field_of cols n = Some f \<longleftrightarrow> f \<in> set cols \<and> rf_name f = n"
  by (simp add: field_of_def lookup_row_iff unique_keys_def)

lemma field_of_Nil [simp]: "field_of [] n = None"
  by (simp add: field_of_def fields_by_name_def)

lemma names_fold_put: "rf_name ` set (fold put_field fs cols) = rf_name ` set fs \<union> rf_name ` set cols"
  by (induction fs arbitrary: cols) (auto simp: put_field_def upsert_row_keys)

lemma field_of_None: "field_of cols n = None \<longleftrightarrow> n \<notin> set (field_names cols)"
  by (simp add: field_of_def lookup_row_None fields_by_name_def names_fold_put field_names_def)

lemma field_of_last: "field_of cols n = (case filter (\<lambda>f. rf_name f = n) cols of [] \<Rightarrow> None | fs \<Rightarrow> Some (last fs))"
proof -
  have "lookup_row rf_name n (fold put_field cols acc) =
      (case filter (\<lambda>f. rf_name f = n) cols of [] \<Rightarrow> lookup_row rf_name n acc | fs \<Rightarrow> Some (last fs))" for acc
    by (induction cols arbitrary: acc) (auto split: list.splits)
  then show ?thesis by (simp add: field_of_def fields_by_name_def split: list.splits)
qed

section \<open>One source, conformed\<close>

lemma repeated_name_None: "repeated_name seen xs = None \<longleftrightarrow> distinct xs \<and> set xs \<inter> set seen = {}"
  by (induction xs arbitrary: seen) auto

lemma repeated_name_Nil: "repeated_name [] xs = None \<longleftrightarrow> distinct xs"
  by (simp add: repeated_name_None)

lemma stop_at_repeated:
  "(case repeated_name [] xs of None \<Rightarrow> r | Some n \<Rightarrow> Inl (e n)) = Inr y \<longleftrightarrow> distinct xs \<and> r = Inr y"
proof (cases "repeated_name [] xs")
  case None
  then have "distinct xs" by (simp add: repeated_name_Nil)
  with None show ?thesis by simp
next
  case (Some n)
  then have "\<not> distinct xs" using repeated_name_Nil [of xs] by auto
  with Some show ?thesis by simp
qed

lemma conform_source_Inr:
  "conform_source consumer contract renames schema = Inr (cols, columns) \<longleftrightarrow>
     distinct (map fst renames) \<and> fst ` set renames \<subseteq> set (field_names (rs_fields schema)) \<and>
     cols = map (fst \<circ> conform_field renames) (rs_fields schema) \<and> distinct (field_names cols) \<and>
     columns = map (snd \<circ> conform_field renames) (rs_fields schema)"
  by (auto simp: conform_source_def Let_def stop_at_repeated)

lemma conform_field_simps:
  "rf_name (fst (conform_field renames f)) = cl_name (snd (conform_field renames f))"
  "rf_type (fst (conform_field renames f)) =
     (case cl_cast_type (snd (conform_field renames f)) of None \<Rightarrow> rf_type f | Some t \<Rightarrow> t)"
  "cl_source_name (snd (conform_field renames f)) = rf_name f"
  by (simp_all add: conform_field_def plain_field_def split: option.splits)

lemma conform_field_type:
  "rf_type (fst (conform_field renames f)) \<in> insert (rf_type f) (snd ` snd ` set renames)"
  by (auto simp: conform_field_def plain_field_def split: option.splits dest!: map_of_SomeD intro: rev_image_eqI)

text \<open>A source that conforms carries every column once: two of one name would both keep it or both take the new one.\<close>

lemma conform_distinct_source:
  assumes "conform_source consumer contract renames schema = Inr (cols, columns)"
  shows "distinct (field_names (rs_fields schema))"
proof -
  from assms have "distinct (map (\<lambda>f. rf_name (fst (conform_field renames f))) (rs_fields schema))"
    by (auto simp: conform_source_Inr field_names_def comp_def)
  moreover have "rf_name (fst (conform_field renames f)) =
      (case map_of renames (rf_name f) of None \<Rightarrow> rf_name f | Some (target, type) \<Rightarrow> target)" for f
    by (simp add: conform_field_def plain_field_def split: option.splits)
  ultimately have "distinct (map (\<lambda>n. case map_of renames n of None \<Rightarrow> n | Some (target, type) \<Rightarrow> target)
      (field_names (rs_fields schema)))"
    by (simp add: field_names_def comp_def)
  then show ?thesis by (rule distinct_map [THEN iffD1, THEN conjunct1])
qed

section \<open>A union\<close>

text \<open>Two lists of columns of the same names, each with the same type.\<close>

definition same_columns :: "relation_field list \<Rightarrow> relation_field list \<Rightarrow> bool" where
  "same_columns xs ys \<longleftrightarrow> set (map (\<lambda>f. (rf_name f, rf_type f)) xs) = set (map (\<lambda>f. (rf_name f, rf_type f)) ys)"

lemma same_columnsD:
  assumes "same_columns xs ys" and "f \<in> set xs"
  obtains g where "g \<in> set ys" "rf_name g = rf_name f" "rf_type g = rf_type f"
proof -
  from assms(2) have "(rf_name f, rf_type f) \<in> set (map (\<lambda>f. (rf_name f, rf_type f)) xs)" by force
  with assms(1) have "(rf_name f, rf_type f) \<in> set (map (\<lambda>f. (rf_name f, rf_type f)) ys)"
    by (simp only: same_columns_def)
  then show ?thesis using that by auto
qed

lemma same_columns_sym: "same_columns xs ys \<longleftrightarrow> same_columns ys xs"
  by (auto simp: same_columns_def)

lemma same_columns_names: "same_columns xs ys \<Longrightarrow> set (field_names xs) = set (field_names ys)"
proof -
  assume same: "same_columns xs ys"
  have names: "set (field_names zs) = fst ` set (map (\<lambda>f. (rf_name f, rf_type f)) zs)" for zs
    by (simp add: field_names_def image_image)
  from same show ?thesis unfolding names by (simp only: same_columns_def)
qed

lemma union_source_Inr:
  assumes first: "distinct (field_names opening)" and cols: "distinct (field_names cols)"
  shows "union_source consumer opening (contract, cols) = Inr () \<longleftrightarrow> same_columns opening cols"
proof
  assume "union_source consumer opening (contract, cols) = Inr ()"
  then have have_all: "\<forall>f \<in> set opening. \<exists>g. field_of cols (rf_name f) = Some g \<and> rf_type g = rf_type f"
    and no_more: "\<forall>g \<in> set cols. rf_name g \<in> set (field_names opening)"
    using first cols by (auto simp: union_source_def field_names_def split: option.splits)
  have forth: "(rf_name f, rf_type f) \<in> (\<lambda>f. (rf_name f, rf_type f)) ` set cols" if f: "f \<in> set opening" for f
  proof -
    from have_all f obtain g where "field_of cols (rf_name f) = Some g" "rf_type g = rf_type f" by blast
    with field_of_SomeD [of cols "rf_name f" g] show ?thesis by (intro rev_image_eqI [of g]) auto
  qed
  have converse: "(rf_name g, rf_type g) \<in> (\<lambda>f. (rf_name f, rf_type f)) ` set opening" if g: "g \<in> set cols" for g
  proof -
    from no_more g obtain f where f: "f \<in> set opening" "rf_name f = rf_name g" by (auto simp: field_names_def)
    with have_all obtain h where h: "field_of cols (rf_name g) = Some h" "rf_type h = rf_type f" by auto
    with cols g have "h = g" by (simp add: field_of_iff field_names_def) (metis distinct_map inj_onD)
    with f h show ?thesis by (intro rev_image_eqI [of f]) auto
  qed
  show "same_columns opening cols"
    unfolding same_columns_def set_map using forth converse by (intro equalityI image_subsetI) auto
next
  assume same: "same_columns opening cols"
  have "\<exists>g. field_of cols (rf_name f) = Some g \<and> rf_type g = rf_type f" if f: "f \<in> set opening" for f
  proof -
    from same f obtain g where "g \<in> set cols" "rf_name g = rf_name f" "rf_type g = rf_type f"
      by (rule same_columnsD)
    with cols show ?thesis by (intro exI [of _ g]) (simp add: field_of_iff field_names_def)
  qed
  moreover from same_columns_names [OF same] have "set (field_names cols) = set (field_names opening)" by simp
  ultimately show "union_source consumer opening (contract, cols) = Inr ()"
    using first cols by (fastforce simp: union_source_def field_names_def split: option.splits)
qed

lemma union_fields_Inr:
  assumes "\<forall>(contract, cols) \<in> set conformed. distinct (field_names cols)" and "conformed \<noteq> []"
  shows "union_fields consumer conformed = Inr cols \<longleftrightarrow>
    cols = snd (hd conformed) \<and> (\<forall>(contract, other) \<in> set conformed. same_columns cols other)"
proof -
  obtain contract "opening" rest where c: "conformed = (contract, opening) # rest"
    using assms(2) by (cases conformed) auto
  have "union_source consumer opening s = Inr () \<longleftrightarrow> same_columns opening (snd s)" if "s \<in> set rest" for s
    using union_source_Inr [of "opening" "snd s" consumer "fst s"] assms(1) that c by fastforce
  moreover have "same_columns opening opening" by (simp add: same_columns_def)
  ultimately show ?thesis by (auto simp: union_fields_def c)
qed

section \<open>A merge\<close>

text \<open>The columns a merge has beside its keys, in the order of the sources.\<close>

definition beside_keys :: "string list \<Rightarrow> (string \<times> relation_field list) list \<Rightarrow> relation_field list" where
  "beside_keys keys conformed = filter (\<lambda>f. rf_name f \<notin> set keys) (concat (map snd conformed))"

definition relaxed :: "bool \<Rightarrow> relation_field \<Rightarrow> relation_field" where
  "relaxed outer f = (if outer then f\<lparr>rf_required := False\<rparr> else f)"

lemma relaxed_simps [simp]: "rf_name (relaxed outer f) = rf_name f" "rf_type (relaxed outer f) = rf_type f"
  by (simp_all add: relaxed_def)

lemma bring_field_step:
  "bring_field consumer keys outer (contract, f) (brought, ordered) =
     (if rf_name f \<in> set keys then Inr (brought, ordered)
      else case map_of brought (rf_name f) of
        Some other \<Rightarrow> Inl (Unmergeable consumer contract (rf_name f) (Already_brought other))
      | None \<Rightarrow> Inr ((rf_name f, contract) # brought, ordered @ [relaxed outer f]))"
  by (simp add: bring_field_def relaxed_def split: option.splits)

lemma bring_fields_Inr:
  "fold_result (bring_field consumer keys outer) rows (brought, ordered) = Inr (brought', ordered') \<Longrightarrow>
     (let new = filter (\<lambda>f. rf_name f \<notin> set keys) (map snd rows) in
      distinct (field_names new) \<and> set (field_names new) \<inter> fst ` set brought = {} \<and>
      ordered' = ordered @ map (relaxed outer) new)"
proof (induction rows arbitrary: brought ordered)
  case (Cons row rows)
  obtain contract f where row: "row = (contract, f)" by (cases row)
  show ?case
  proof (cases "rf_name f \<in> set keys")
    case True
    with Cons show ?thesis by (simp add: row bring_field_step)
  next
    case False
    with Cons.prems have none: "map_of brought (rf_name f) = None"
      and rest: "fold_result (bring_field consumer keys outer) rows
        ((rf_name f, contract) # brought, ordered @ [relaxed outer f]) = Inr (brought', ordered')"
      by (auto simp: row bring_field_step split: option.splits)
    from none have "rf_name f \<notin> fst ` set brought" by (simp add: map_of_eq_None_iff)
    with Cons.IH [OF rest] False show ?thesis by (auto simp: row Let_def field_names_def)
  qed
qed (simp add: field_names_def)

lemma bring_fields_total:
  assumes "distinct (field_names (filter (\<lambda>f. rf_name f \<notin> set keys) (map snd rows)))"
    and "set (field_names (filter (\<lambda>f. rf_name f \<notin> set keys) (map snd rows))) \<inter> fst ` set brought = {}"
  shows "\<exists>brought'. fold_result (bring_field consumer keys outer) rows (brought, ordered) =
    Inr (brought', ordered @ map (relaxed outer) (filter (\<lambda>f. rf_name f \<notin> set keys) (map snd rows)))"
  using assms
proof (induction rows arbitrary: brought ordered)
  case (Cons row rows)
  obtain contract f where row: "row = (contract, f)" by (cases row)
  show ?case
  proof (cases "rf_name f \<in> set keys")
    case True
    with Cons show ?thesis by (simp add: row bring_field_step)
  next
    case False
    with Cons.prems have "map_of brought (rf_name f) = None"
      by (auto simp: row field_names_def map_of_eq_None_iff)
    with False Cons.prems Cons.IH [of "(rf_name f, contract) # brought" "ordered @ [relaxed outer f]"]
    show ?thesis by (auto simp: row bring_field_step field_names_def)
  qed
qed simp

lemma rows_of_sources:
  "map snd (concat (map (\<lambda>(contract, cols). map (\<lambda>f. (contract, f)) cols) conformed)) = concat (map snd conformed)"
  by (induction conformed) (auto simp: comp_def)

lemma merge_key_Inr:
  "merge_key consumer ((contract, opening) # rest) key = Inr f \<longleftrightarrow>
     field_of opening key = Some f \<and>
     (\<forall>(c, cols) \<in> set rest. map_option rf_type (field_of cols key) = Some (rf_type f))"
  by (auto simp: merge_key_def case_prod_beta split: option.splits)

text \<open>A merge succeeds exactly when every source carries every key with one type and no other name comes twice.\<close>

definition carries_keys :: "string list \<Rightarrow> (string \<times> relation_field list) list \<Rightarrow> bool" where
  "carries_keys keys conformed \<longleftrightarrow> (\<forall>key \<in> set keys. \<exists>t. \<forall>(c, cols) \<in> set conformed.
     map_option rf_type (field_of cols key) = Some t)"

lemma merged_fields_Inr:
  assumes "conformed \<noteq> []"
  shows "merged_fields consumer keys join conformed = Inr cols \<longleftrightarrow>
    carries_keys keys conformed \<and> distinct (field_names (beside_keys keys conformed)) \<and>
    cols = map (\<lambda>key. the (field_of (snd (hd conformed)) key)) keys
      @ map (relaxed (join = ''outer'')) (beside_keys keys conformed)"
proof -
  obtain contract "opening" rest where c: "conformed = (contract, opening) # rest"
    using assms by (cases conformed) auto
  let ?rows = "concat (map (\<lambda>(contract, cols). map (\<lambda>f. (contract, f)) cols) conformed)"
  let ?new = "filter (\<lambda>f. rf_name f \<notin> set keys) (map snd ?rows)"
  have new: "?new = beside_keys keys conformed" by (simp only: rows_of_sources beside_keys_def)
  have keyed: "map_result (merge_key consumer conformed) keys = Inr fs \<longleftrightarrow>
      carries_keys keys conformed \<and> fs = map (\<lambda>key. the (field_of opening key)) keys" for fs
  proof (induction keys arbitrary: fs)
    case (Cons key keys)
    have "(\<exists>f. merge_key consumer conformed key = Inr f \<and> f = the (field_of opening key)) \<longleftrightarrow>
        (\<exists>t. \<forall>(c, cols) \<in> set conformed. map_option rf_type (field_of cols key) = Some t)"
      by (auto simp: c merge_key_Inr)
    moreover have "merge_key consumer conformed key = Inr f \<Longrightarrow> f = the (field_of opening key)" for f
      by (auto simp: c merge_key_Inr)
    ultimately show ?case using Cons by (auto simp: carries_keys_def)
  qed (auto simp: carries_keys_def)
  have brings: "(\<exists>brought ordered. fold_result (bring_field consumer keys outer) ?rows ([], []) = Inr (brought, ordered)
        \<and> cols = fs @ ordered) \<longleftrightarrow>
      distinct (field_names (beside_keys keys conformed)) \<and> cols = fs @ map (relaxed outer) (beside_keys keys conformed)"
    for outer fs
    using bring_fields_total [of keys ?rows "[]" consumer outer "[]"]
      bring_fields_Inr [of consumer keys outer ?rows "[]" "[]"] unfolding new by (auto simp: Let_def)
  have "merged_fields consumer keys join conformed = Inr cols \<longleftrightarrow>
      (\<exists>fs. map_result (merge_key consumer conformed) keys = Inr fs \<and>
        (\<exists>brought ordered. fold_result (bring_field consumer keys (join = ''outer'')) ?rows ([], []) = Inr (brought, ordered)
          \<and> cols = fs @ ordered))"
    by (auto simp: merged_fields_def)
  then show ?thesis unfolding keyed brings by (auto simp: c)
qed

section \<open>The opening relation\<close>

text \<open>Columns of distinct names whose types are all of a given set.\<close>

definition typed_in :: "neutral_type set \<Rightarrow> relation_field list \<Rightarrow> bool" where
  "typed_in T cols \<longleftrightarrow> distinct (field_names cols) \<and> rf_type ` set cols \<subseteq> T"

definition schema_types :: "schemas \<Rightarrow> neutral_type set" where
  "schema_types schemas = (\<Union>(key, s) \<in> set schemas. rf_type ` set (rs_fields s))"

fun mapped_type :: "mapping_entry \<Rightarrow> neutral_type list" where
  "mapped_type (Map_field source target t) = [t]"
| "mapped_type (Drop_field source) = []"

fun step_types :: "compose_step \<Rightarrow> neutral_type list" where
  "step_types (Transform_step mapping) = concat (map mapped_type mapping)"
| "step_types (Calculate_step calculated) = map snd calculated"
| "step_types (Aggregate_step grain groups aggregates) = List.map_filter snd aggregates"
| "step_types _ = []"

definition declared_types :: "composition_document \<Rightarrow> neutral_type set" where
  "declared_types doc = (\<Union>s \<in> set (cd_sources doc). snd ` snd ` set (us_conform s))
     \<union> (\<Union>s \<in> set (cd_steps doc). set (step_types s))"

lemma schema_typesI: "map_of schemas key = Some s \<Longrightarrow> f \<in> set (rs_fields s) \<Longrightarrow> rf_type f \<in> schema_types schemas"
  by (force simp: schema_types_def dest: map_of_SomeD)

lemma typed_in_mono: "typed_in T cols \<Longrightarrow> T \<subseteq> U \<Longrightarrow> typed_in U cols"
  by (auto simp: typed_in_def)

lemma read_source_Inr:
  "read_source consumer schemas s = Inr ((contract, cols), sc) \<longleftrightarrow>
     contract = us_contract s \<and> (\<exists>schema. map_of schemas (source_relation_key (us_contract s) (us_relation s)) = Some schema \<and>
       (us_expect s \<noteq> [] \<longrightarrow> check_source_expectation consumer (us_contract s) (us_expect s) schema = Inr ()) \<and>
       (\<exists>columns. conform_source consumer (us_contract s) (us_conform s) schema = Inr (cols, columns) \<and>
         sc = \<lparr>sc_key = source_relation_key (us_contract s) (us_relation s), sc_contract = us_contract s,
               sc_columns = columns\<rparr>))"
  by (auto simp: read_source_def Let_def split: option.splits)

lemma read_source_typed:
  assumes "read_source consumer schemas s = Inr ((contract, cols), sc)" and "s \<in> set (cd_sources doc)"
  shows "typed_in (schema_types schemas \<union> declared_types doc) cols"
proof -
  from assms(1) obtain schema columns
    where schema: "map_of schemas (source_relation_key (us_contract s) (us_relation s)) = Some schema"
      and conform: "conform_source consumer (us_contract s) (us_conform s) schema = Inr (cols, columns)"
    by (auto simp: read_source_Inr)
  have "rf_type (fst (conform_field (us_conform s) f)) \<in> schema_types schemas \<union> declared_types doc"
    if "f \<in> set (rs_fields schema)" for f
    using conform_field_type [of "us_conform s" f] schema_typesI [OF schema that] assms(2)
    by (auto simp: declared_types_def)
  with conform show ?thesis by (auto simp: conform_source_Inr typed_in_def)
qed

lemma merged_typed:
  assumes merged: "merged_fields consumer keys join conformed = Inr cols" and "conformed \<noteq> []" and "distinct keys"
    and typed: "\<forall>(contract, other) \<in> set conformed. typed_in T other"
  shows "typed_in T cols"
proof -
  obtain contract first rest where c: "conformed = (contract, first) # rest" using assms(2) by (cases conformed) auto
  let ?keyed = "map (\<lambda>key. the (field_of first key)) keys"
  let ?other = "map (relaxed (join = ''outer'')) (beside_keys keys conformed)"
  from merged c have carried: "carries_keys keys conformed" and beside: "distinct (field_names (beside_keys keys conformed))"
    and cols: "cols = ?keyed @ ?other" by (simp_all add: merged_fields_Inr)
  have key: "rf_name (the (field_of first k)) = k \<and> the (field_of first k) \<in> set first" if "k \<in> set keys" for k
  proof -
    from carried that obtain f where "field_of first k = Some f" by (auto simp: carries_keys_def c)
    with field_of_SomeD [of first k f] show ?thesis by simp
  qed
  then have "map rf_name ?keyed = keys" by (simp add: comp_def map_idI)
  moreover have "field_names ?other = field_names (beside_keys keys conformed)" by (simp add: field_names_def comp_def)
  moreover have "set (field_names (beside_keys keys conformed)) \<inter> set keys = {}"
    by (auto simp: field_names_def beside_keys_def)
  ultimately have "field_names cols = keys @ field_names (beside_keys keys conformed)"
    by (simp add: cols field_names_def)
  then have "distinct (field_names cols)"
    using beside \<open>distinct keys\<close> \<open>set (field_names (beside_keys keys conformed)) \<inter> set keys = {}\<close> by auto
  moreover have "rf_type ` set ?keyed \<subseteq> T" using key typed by (auto simp: c typed_in_def)
  moreover have "rf_type ` set (beside_keys keys conformed) \<subseteq> T" using typed by (fastforce simp: beside_keys_def typed_in_def)
  ultimately show ?thesis by (auto simp: typed_in_def cols)
qed

text \<open>What the opening relation is made of, method by method.\<close>

lemma opening_cases:
  assumes "resolve_opening_composition consumer doc schemas = Inr op"
  obtains reads where "map_result (read_source consumer schemas) (cd_sources doc) = Inr reads" "length reads \<le> 1"
      "op_fields op = concat (map (snd \<circ> fst) reads)" "op_method op = None" "op_sources op = map snd reads"
    | reads where "map_result (read_source consumer schemas) (cd_sources doc) = Inr reads" "2 \<le> length reads"
      "op_method op = Some ''union''" "union_fields consumer (map fst reads) = Inr (op_fields op)"
      "op_sources op = map (align_columns (op_fields op)) (map snd reads)"
    | reads c join where "map_result (read_source consumer schemas) (cd_sources doc) = Inr reads" "2 \<le> length reads"
      "cd_combine doc = Some c" "op_method op = Some ''merge''" "op_keys op = cb_keys c" "op_join op = Some join"
      "cb_join c = Some join" "join \<in> {''inner'', ''outer''}"
      "merged_fields consumer (cb_keys c) join (map fst reads) = Inr (op_fields op)" "op_sources op = map snd reads"
proof -
  from assms obtain reads where reads: "map_result (read_source consumer schemas) (cd_sources doc) = Inr reads"
    by (auto simp: resolve_opening_composition_def)
  consider "reads = []" | r where "reads = [r]" | r s rest where "reads = r # s # rest" by (metis list.exhaust)
  then show thesis
  proof cases
    case 1
    with assms reads show thesis by (intro that(1) [OF reads]) (auto simp: resolve_opening_composition_def)
  next
    case 2
    with assms reads show thesis
      by (intro that(1) [OF reads]) (auto simp: resolve_opening_composition_def case_prod_beta)
  next
    case 3
    let ?resolved = "map fst reads"
    from assms reads 3 obtain c where c: "cd_combine doc = Some c"
      by (auto simp: resolve_opening_composition_def Let_def split: option.splits)
    show thesis
    proof (cases "cb_method c = Some ''union''")
      case True
      with assms reads 3 c obtain cols where "union_fields consumer ?resolved = Inr cols"
        and "op = \<lparr>op_method = Some ''union'', op_keys = cb_keys c, op_fields = cols,
          op_sources = map (align_columns cols) (map snd reads), op_join = None\<rparr>"
        by (simp add: resolve_opening_composition_def Let_def) blast
      with 3 show thesis by (intro that(2) [OF reads]) auto
    next
      case False
      with assms reads 3 c have how: "cb_method c = Some ''merge''"
        by (auto simp: resolve_opening_composition_def Let_def split: if_splits)
      have merge: "resolve_opening_composition consumer doc schemas = (case cb_join c of
          Some join \<Rightarrow> if join \<in> {''inner'', ''outer''}
            then bind (merged_fields consumer (cb_keys c) join ?resolved) (\<lambda>cols.
              Inr \<lparr>op_method = Some ''merge'', op_keys = cb_keys c, op_fields = cols,
                op_sources = map snd reads, op_join = Some join\<rparr>)
            else Inl (Undeclared_merge_join consumer (Some join))
        | None \<Rightarrow> Inl (Undeclared_merge_join consumer None))"
        using reads c how unfolding 3 by (simp add: resolve_opening_composition_def Let_def)
      from assms obtain join where some: "cb_join c = Some join"
        unfolding merge by (cases "cb_join c") simp_all
      have "join \<in> {''inner'', ''outer''}"
      proof (rule ccontr)
        assume "join \<notin> {''inner'', ''outer''}"
        with assms show False unfolding merge some option.case by (simp only: if_False sum.distinct)
      qed
      note join = some this
      from assms obtain cols where "merged_fields consumer (cb_keys c) join ?resolved = Inr cols"
        and "op = \<lparr>op_method = Some ''merge'', op_keys = cb_keys c, op_fields = cols,
          op_sources = map snd reads, op_join = Some join\<rparr>"
        unfolding merge join(1) option.case if_P [OF join(2)] by auto
      with 3 c join show thesis by (intro that(3) [OF reads]) auto
    qed
  qed
qed

lemma reads_member:
  assumes "map_result (read_source consumer schemas) (cd_sources doc) = Inr reads" and "r \<in> set reads"
  obtains s where "s \<in> set (cd_sources doc)" "read_source consumer schemas s = Inr r"
proof -
  from assms obtain i where i: "i < length reads" "r = reads ! i" by (auto simp: in_set_conv_nth)
  with assms(1) show thesis
    by (intro that [of "cd_sources doc ! i"]) (auto simp: map_result_Inr list_all2_conv_all_nth)
qed

definition keys_once :: "composition_document \<Rightarrow> bool" where
  "keys_once doc = (case cd_combine doc of None \<Rightarrow> True | Some c \<Rightarrow> distinct (cb_keys c))"

lemma opening_typed:
  assumes opened: "resolve_opening_composition consumer doc schemas = Inr op" and once: "keys_once doc"
  shows "typed_in (schema_types schemas \<union> declared_types doc) (op_fields op)" (is "typed_in ?T _")
proof -
  have typed: "\<forall>(contract, cols) \<in> set (map fst reads). typed_in ?T cols"
    if reads: "map_result (read_source consumer schemas) (cd_sources doc) = Inr reads" for reads
  proof clarify
    fix contract cols
    assume "(contract, cols) \<in> set (map fst reads)"
    then obtain sc where "((contract, cols), sc) \<in> set reads" by force
    then obtain s where "s \<in> set (cd_sources doc)" "read_source consumer schemas s = Inr ((contract, cols), sc)"
      by (rule reads_member [OF reads])
    then show "typed_in ?T cols" by (intro read_source_typed)
  qed
  from opened show ?thesis
  proof (cases rule: opening_cases)
    case (1 reads)
    show ?thesis
    proof (cases reads)
      case Nil
      with 1(3) show ?thesis by (simp add: typed_in_def field_names_def)
    next
      case (Cons r rest)
      with 1(2,3) have "op_fields op = snd (fst r)" by simp
      with typed [OF 1(1)] Cons show ?thesis by (simp add: case_prod_beta)
    qed
  next
    case (2 reads)
    then have "op_fields op = snd (hd (map fst reads))" by (simp add: union_fields_def Let_def)
    with 2(2) typed [OF 2(1)] show ?thesis by (cases reads) auto
  next
    case (3 reads c join)
    with once have "distinct (cb_keys c)" by (simp add: keys_once_def)
    moreover have "map fst reads \<noteq> []" using 3(2) by auto
    ultimately show ?thesis using merged_typed [OF 3(9) _ _ typed [OF 3(1)]] by simp
  qed
qed

text \<open>After a union, every source has its columns in the order of the schema, each with the type of its place.\<close>

definition column_type :: "relation_schema \<Rightarrow> conformed_column \<Rightarrow> neutral_type option" where
  "column_type schema c = (case cl_cast_type c of
     Some t \<Rightarrow> Some t | None \<Rightarrow> map_option rf_type (field_of (rs_fields schema) (cl_source_name c)))"

lemma position_of_nth: "distinct names \<Longrightarrow> i < length names \<Longrightarrow> position_of names (names ! i) = i"
proof (induction names arbitrary: i)
  case (Cons n names)
  then show ?case by (cases i) auto
qed simp

lemma sort_by_position:
  assumes "distinct names" and "mset (map g xs) = mset names"
  shows "map g (sort_key (\<lambda>x. position_of names (g x)) xs) = names"
proof -
  let ?p = "position_of names" and ?ys = "sort_key (\<lambda>x. position_of names (g x)) xs"
  have perm: "mset (map g ?ys) = mset names" using assms(2) by simp
  have "sorted (map ?p (map g ?ys))" using sorted_sort_key [of "\<lambda>x. ?p (g x)" xs] by (simp add: comp_def)
  moreover have positions: "map ?p names = [0..<length names]"
    using position_of_nth [OF assms(1)] by (intro nth_equalityI) auto
  moreover have "mset (map ?p (map g ?ys)) = mset (map ?p names)" using perm by (simp only: mset_map)
  ultimately have same: "map ?p (map g ?ys) = map ?p names"
    by (metis properties_for_sort sorted_upt sorted_sort_id)
  have "inj_on ?p (set names)"
    using position_of_nth [OF assms(1)] by (intro inj_onI) (metis in_set_conv_nth)
  moreover have "set (map g ?ys) = set names" using perm by (metis set_mset_mset)
  ultimately show ?thesis using same by (intro map_inj_on [of ?p]) auto
qed

lemma conformed_types:
  assumes "conform_source consumer contract renames schema = Inr (cols, columns)"
  shows "map cl_name columns = field_names cols"
    and "map (column_type schema) columns = map (Some \<circ> rf_type) cols"
proof -
  have cols: "cols = map (fst \<circ> conform_field renames) (rs_fields schema)"
    and columns: "columns = map (snd \<circ> conform_field renames) (rs_fields schema)"
    using assms by (simp_all add: conform_source_Inr)
  show "map cl_name columns = field_names cols" by (simp add: cols columns field_names_def conform_field_simps)
  have "field_of (rs_fields schema) (rf_name f) = Some f" if "f \<in> set (rs_fields schema)" for f
    using conform_distinct_source [OF assms] that by (simp add: field_of_iff field_names_def)
  then show "map (column_type schema) columns = map (Some \<circ> rf_type) cols"
    by (auto simp: cols columns column_type_def conform_field_simps split: option.splits)
qed

lemma aligned_columns:
  assumes conform: "conform_source consumer contract renames schema = Inr (cols, columns)"
    and names: "distinct (field_names first)" and same: "same_columns first cols"
    and sorted: "aligned = sort_key (\<lambda>c. position_of (field_names first) (cl_name c)) columns"
  shows "map cl_name aligned = field_names first" and "map (column_type schema) aligned = map (Some \<circ> rf_type) first"
proof -
  note types = conformed_types [OF conform]
  have once: "distinct (field_names cols)" using conform unfolding conform_source_Inr by blast
  have "mset (map cl_name columns) = mset (field_names first)"
    using types(1) same_columns_names [OF same] names once by (simp add: set_eq_iff_mset_eq_distinct)
  then show aligned: "map cl_name aligned = field_names first" unfolding sorted by (rule sort_by_position [OF names])
  show "map (column_type schema) aligned = map (Some \<circ> rf_type) first"
  proof (rule nth_equalityI)
    show len: "length (map (column_type schema) aligned) = length (map (Some \<circ> rf_type) first)"
      using arg_cong [OF aligned, of length] by (simp add: field_names_def)
    fix i
    assume "i < length (map (column_type schema) aligned)"
    then have i: "i < length aligned" "i < length first" using len by simp_all
    then have "aligned ! i \<in> set columns" by (metis nth_mem set_sort sorted)
    then obtain j where j: "j < length columns" "columns ! j = aligned ! i" by (auto simp: in_set_conv_nth)
    moreover have length: "length cols = length columns" using arg_cong [OF types(1), of length] by (simp add: field_names_def)
    ultimately have type: "column_type schema (aligned ! i) = Some (rf_type (cols ! j))"
      and name: "rf_name (cols ! j) = cl_name (aligned ! i)"
      using arg_cong [OF types(2), of "\<lambda>xs. xs ! j"] arg_cong [OF types(1), of "\<lambda>xs. xs ! j"]
      by (simp_all add: field_names_def)
    have here: "cl_name (aligned ! i) = rf_name (first ! i)"
      using arg_cong [OF aligned, of "\<lambda>xs. xs ! i"] i by (simp add: field_names_def)
    from i(2) have "first ! i \<in> set first" by simp
    from same this obtain g where g: "g \<in> set cols" "rf_name g = rf_name (first ! i)" "rf_type g = rf_type (first ! i)"
      by (rule same_columnsD)
    moreover have "cols ! j \<in> set cols" using j length by simp
    ultimately have "g = cols ! j" using once here name by (simp add: field_names_def) (metis distinct_map inj_onD)
    with g type i show "map (column_type schema) aligned ! i = map (Some \<circ> rf_type) first ! i" by simp
  qed
qed

section \<open>Propagation\<close>

text \<open>A dictionary of columns whose types are all of a given set.\<close>

definition dictionary_in :: "neutral_type set \<Rightarrow> relation_field list \<Rightarrow> bool" where
  "dictionary_in T cols \<longleftrightarrow> unique_keys rf_name cols \<and> rf_type ` set cols \<subseteq> T"

lemma dictionary_in_iff: "dictionary_in T cols \<longleftrightarrow> typed_in T cols"
  by (simp add: dictionary_in_def typed_in_def unique_keys_def field_names_def)

lemma dictionary_in_Nil [simp]: "dictionary_in T []"
  by (simp add: dictionary_in_def)

lemma dictionary_in_put [intro]:
  "dictionary_in T cols \<Longrightarrow> rf_type f \<in> T \<Longrightarrow> dictionary_in T (put_field f cols)"
  by (auto simp: dictionary_in_def unique_put_field dest: set_put_fieldD)

lemma dictionary_in_delete [intro]: "dictionary_in T cols \<Longrightarrow> dictionary_in T (delete_rows p cols)"
  by (auto simp: dictionary_in_def unique_keys_delete)

lemma dictionary_in_lookup: "dictionary_in T cols \<Longrightarrow> lookup_row rf_name n cols = Some f \<Longrightarrow> rf_type f \<in> T"
  by (auto simp: dictionary_in_def dest!: lookup_row_SomeD)

lemma plain_field_simps [simp]:
  "rf_name (plain_field n t) = n" "rf_type (plain_field n t) = t" "rf_required (plain_field n t) = False"
  by (simp_all add: plain_field_def)

lemma dictionary_in_plain [intro]:
  "dictionary_in T cols \<Longrightarrow> t \<in> T \<Longrightarrow> dictionary_in T (put_field (plain_field n t) cols)"
  by (rule dictionary_in_put) simp_all

lemma transform_in:
  "dictionary_in T cols \<Longrightarrow> (\<And>m. m \<in> set mapping \<Longrightarrow> set (mapped_type m) \<subseteq> T) \<Longrightarrow>
     dictionary_in T (fold transform_field mapping cols)"
proof (induction mapping arbitrary: cols)
  case (Cons m mapping)
  have "dictionary_in T (transform_field m cols)"
    using Cons.prems(1) Cons.prems(2) [of m] by (cases m) auto
  with Cons show ?case by simp
qed simp

lemma calculate_in:
  "dictionary_in T cols \<Longrightarrow> snd ` set calculated \<subseteq> T \<Longrightarrow> dictionary_in T
     (fold (\<lambda>(name, type). if name = [] then (\<lambda>fs. fs) else put_field (plain_field name type)) calculated cols)"
proof (induction calculated arbitrary: cols)
  case (Cons c calculated)
  obtain name type where c: "c = (name, type)" by (cases c)
  with Cons.prems have "dictionary_in T (if name = [] then cols else put_field (plain_field name type) cols)"
    using dictionary_in_put [OF Cons.prems(1), of "plain_field name type"] by auto
  with Cons.IH [of "if name = [] then cols else put_field (plain_field name type) cols"] Cons.prems(2) c
  show ?case by (auto split: if_splits)
qed simp

lemma enrich_in:
  assumes "enrich_fields consumer schemas occurrence l cols = Inr cols'" and "dictionary_in T cols"
    and "schema_types schemas \<subseteq> T"
  shows "dictionary_in T cols'"
proof -
  from assms(1) obtain schema where schema: "map_of schemas (source_relation_key (en_contract l) (en_relation l)) = Some schema"
    and loop: "fold_result (\<lambda>name cols. case field_of (rs_fields schema) name of
        None \<Rightarrow> Inl (Unresolved_field consumer occurrence name)
      | Some g \<Rightarrow> Inr (put_field (plain_field name (rf_type g)) cols)) (en_fields l) cols = Inr cols'"
    by (auto simp: enrich_fields_def split: option.splits)
  show ?thesis
  proof (rule fold_result_invariant [where P = "dictionary_in T", OF _ assms(2) loop])
    fix name cols cols'
    assume "dictionary_in T cols"
      and "(case field_of (rs_fields schema) name of None \<Rightarrow> Inl (Unresolved_field consumer occurrence name)
        | Some g \<Rightarrow> Inr (put_field (plain_field name (rf_type g)) cols)) = Inr cols'"
    then show "dictionary_in T cols'"
      using schema_typesI [OF schema] assms(3) by (fastforce split: option.splits dest: field_of_SomeD)
  qed
qed

lemma propagate_step_in:
  assumes step: "propagate_step consumer schemas n s cols = Inr cols'" and cols: "dictionary_in T cols"
    and types: "schema_types schemas \<subseteq> T" "set (step_types s) \<subseteq> T"
  shows "dictionary_in T cols'"
proof (cases s)
  case (Transform_step mapping)
  with step types(2) transform_in [OF cols, of mapping] show ?thesis by (auto simp: propagate_step_def)
next
  case (Calculate_step calculated)
  with step types(2) calculate_in [OF cols, of calculated] show ?thesis by (auto simp: propagate_step_def)
next
  case (Enrich_step lookups)
  with step have "fold_result (enrich_fields consumer schemas (occurrence_tag n s)) lookups cols = Inr cols'"
    by (simp add: propagate_step_def)
  then show ?thesis by (rule fold_result_invariant [rotated 2]) (use cols types(1) enrich_in in auto)
next
  case (Aggregate_step grain groups aggregates)
  with step obtain grouped
    where grouped: "fold_result (group_field consumer (occurrence_tag n s) cols) (grain @ groups) [] = Inr grouped"
      and aggregated: "fold_result (aggregate_field consumer (occurrence_tag n s)) aggregates grouped = Inr cols'"
    by (auto simp: propagate_step_def Let_def)
  have "dictionary_in T grouped"
  proof (rule fold_result_invariant [OF _ _ grouped])
    fix name fs fs'
    assume "dictionary_in T fs" and "group_field consumer (occurrence_tag n s) cols name fs = Inr fs'"
    then show "dictionary_in T fs'" using dictionary_in_lookup [OF cols] by (auto simp: group_field_def split: option.splits)
  qed simp
  show ?thesis
  proof (rule fold_result_invariant [where P = "dictionary_in T", OF _ \<open>dictionary_in T grouped\<close> aggregated])
    fix a fs fs'
    assume a: "a \<in> set aggregates" and fs: "dictionary_in T fs"
      and put: "aggregate_field consumer (occurrence_tag n s) a fs = Inr fs'"
    obtain name t where at: "a = (name, Some t)" using put by (cases a) (auto simp: aggregate_field_def split: option.splits)
    with a have "t \<in> set (step_types s)" by (force simp: Aggregate_step List.map_filter_def)
    with types(2) put fs at show "dictionary_in T fs'" by (auto simp: aggregate_field_def split: if_splits)
  qed
qed (use step cols in \<open>simp_all add: propagate_step_def\<close>)

lemma propagate_steps_in:
  assumes "propagate_steps consumer schemas n steps cols = Inr occurrences" and "dictionary_in T cols"
    and "schema_types schemas \<subseteq> T" and "\<forall>s \<in> set steps. set (step_types s) \<subseteq> T"
  shows "length occurrences = length steps \<and> (\<forall>oc \<in> set occurrences. dictionary_in T (oc_fields oc))"
  using assms
proof (induction steps arbitrary: n cols occurrences)
  case (Cons s steps)
  from Cons.prems(1) obtain mid rest where mid: "propagate_step consumer schemas n s cols = Inr mid"
    and rest: "propagate_steps consumer schemas (n + 1) steps mid = Inr rest"
    and occurrences: "occurrences = \<lparr>oc_index = n, oc_pattern = pattern_token s,
      oc_occurrence = occurrence_tag n s, oc_fields = mid\<rparr> # rest"
    by (auto simp del: One_nat_def)
  have "dictionary_in T mid" using mid Cons.prems by (intro propagate_step_in [OF mid]) auto
  with Cons.IH [OF rest] Cons.prems occurrences show ?case by auto
qed simp

lemma published_typed:
  assumes "derive_relation_fields consumer doc schemas = Inr cols" and "keys_once doc"
  shows "typed_in (schema_types schemas \<union> declared_types doc) cols" (is "typed_in ?T _")
proof -
  from assms(1) obtain op occurrences
    where opened: "resolve_opening_composition consumer doc schemas = Inr op"
      and steps: "propagate_steps consumer schemas 0 (cd_steps doc) (fields_by_name (op_fields op)) = Inr occurrences"
      and cols: "cols = map (publish_field (required_field_names doc))
        (if occurrences = [] then op_fields op else oc_fields (last occurrences))"
    by (auto simp: derive_relation_fields_def propagate_relation_fields_def)
  have start: "typed_in ?T (op_fields op)" by (rule opening_typed [OF opened assms(2)])
  then have "dictionary_in ?T (fields_by_name (op_fields op))"
    by (simp add: dictionary_in_iff typed_in_def field_names_def)
  then have "\<forall>oc \<in> set occurrences. typed_in ?T (oc_fields oc)"
    using propagate_steps_in [OF steps] by (auto simp: dictionary_in_iff declared_types_def)
  with start have "typed_in ?T (if occurrences = [] then op_fields op else oc_fields (last occurrences))" by simp
  moreover have "typed_in ?T (map (publish_field required) fs) = typed_in ?T fs" for required fs
    by (simp add: typed_in_def field_names_def publish_field_def comp_def image_image)
  ultimately show ?thesis by (simp add: cols)
qed

end
