(* ===== verification/Shape_Facts.thy ===== *)
theory Shape_Facts
  imports Composition_Facts
begin

text \<open>
  What a shape renders, shape by shape: the relations it names, the columns they carry and read, their types,
  and the keys they are unique on.
\<close>

text \<open>A relation over some columns: it reads and is keyed on columns it has, and no type is new.\<close>

definition sound_relation :: "relation_field list \<Rightarrow> shape_relation \<Rightarrow> bool" where
  "sound_relation cols r \<longleftrightarrow>
     set (sr_source_columns r) \<subseteq> set (field_names cols) \<and>
     set (sr_key r) \<subseteq> set (field_names (rs_fields (sr_schema r))) \<and>
     (\<forall>f \<in> set (rs_fields (sr_schema r)). rf_type f \<in> rf_type ` set cols \<and>
        (rf_name f \<in> set (field_names cols) \<or> rf_name f \<in> {effective_from, effective_to})) \<and>
     (\<forall>f \<in> set (rs_fields (sr_schema r)). rf_name f \<in> set (sr_key r) \<longrightarrow> rf_required f)"

lemma refuse_not_Inr [simp]: "refuse product shape occurrence detail \<noteq> Inr x"
  by (simp add: refuse_def)

lemma column_field_Inr:
  "column_field product shape occurrence cols name = Inr f \<Longrightarrow> f \<in> set cols \<and> rf_name f = name"
  by (induction cols) (auto simp: column_field_def split: if_splits)

lemma instant_field_Inr:
  "instant_field product shape occurrence cols name = Inr f \<Longrightarrow>
     f \<in> set cols \<and> rf_name f = name \<and> name \<in> set (field_names cols)"
proof -
  assume instant: "instant_field product shape occurrence cols name = Inr f"
  then obtain g where g: "column_field product shape occurrence cols name = Inr g" by (auto simp: instant_field_def)
  with instant have "g = f" by (cases "rf_type g") (auto simp: instant_field_def split: if_splits)
  with column_field_Inr [OF g] show ?thesis by (auto simp: field_names_def)
qed

lemma typed_field_simps [simp]:
  "rf_name (typed_field n t b) = n" "rf_type (typed_field n t b) = t" "rf_required (typed_field n t b) = b"
  by (simp_all add: typed_field_def)

lemma columns_found:
  assumes "map_result (column_field product shape occurrence cols) columns = Inr found"
  shows "map rf_name found = columns" and "set found \<subseteq> set cols" and "set columns \<subseteq> set (field_names cols)"
proof -
  have "list_all2 (\<lambda>c f. f \<in> set cols \<and> rf_name f = c) columns found"
    using assms unfolding map_result_Inr by (rule list_all2_mono) (rule column_field_Inr)
  then show "map rf_name found = columns" "set found \<subseteq> set cols" "set columns \<subseteq> set (field_names cols)"
    by (induction rule: list_all2_induct) (auto simp: field_names_def)
qed

lemma keyed_fields_Inr:
  assumes "keyed_fields product shape occurrence cols key columns = Inr published"
  shows "field_names published = columns" and "set columns \<subseteq> set (field_names cols)"
    and "\<forall>f \<in> set published. rf_type f \<in> rf_type ` set cols \<and> (rf_name f \<in> set key \<longrightarrow> rf_required f)"
    and "\<forall>f \<in> set published. rf_name f \<in> set (field_names cols)"
proof -
  from assms obtain found where found: "map_result (column_field product shape occurrence cols) columns = Inr found"
    and published: "published = map (\<lambda>f. typed_field (rf_name f) (rf_type f) (rf_required f \<or> rf_name f \<in> set key)) found"
    by (auto simp: keyed_fields_def)
  note columns = columns_found [OF found]
  show "field_names published = columns" using columns(1) by (simp add: published field_names_def comp_def)
  show "set columns \<subseteq> set (field_names cols)" by (rule columns(3))
  show "\<forall>f \<in> set published. rf_type f \<in> rf_type ` set cols \<and> (rf_name f \<in> set key \<longrightarrow> rf_required f)"
    using columns(2) by (auto simp: published)
  show "\<forall>f \<in> set published. rf_name f \<in> set (field_names cols)"
    using image_mono [OF columns(2), of rf_name] by (auto simp: published field_names_def)
qed

text \<open>A relation whose columns are those of a key and others, as they are found.\<close>

lemma keyed_sound:
  assumes keyed: "keyed_fields product shape occurrence cols key columns = Inr published"
    and r: "rs_fields (sr_schema r) = published" "sr_key r = key"
    and key: "set key \<subseteq> set columns" and sources: "set (sr_source_columns r) \<subseteq> set (field_names cols)"
  shows "sound_relation cols r"
proof -
  note k = keyed_fields_Inr [OF keyed]
  from k(1,3,4) r key sources show ?thesis by (simp add: sound_relation_def)
qed

section \<open>Loops over the entries of a section\<close>

text \<open>A loop that appends to its relations what each entry adds to them.\<close>

lemma entries_loop:
  assumes step: "\<And>n e s s'. f (n, e) s = Inr s' \<Longrightarrow>
      \<exists>new. out s' = out s @ new \<and> (\<forall>r \<in> set new. Q r) \<and> map (\<lambda>r. rs_name (sr_schema r)) new = names e"
  shows "fold_result f (enumerate n es) s = Inr s' \<Longrightarrow>
    \<exists>new. out s' = out s @ new \<and> (\<forall>r \<in> set new. Q r) \<and>
      map (\<lambda>r. rs_name (sr_schema r)) new = concat (map names es)"
proof (induction es arbitrary: n s)
  case (Cons e es)
  from Cons.prems obtain mid where mid: "f (n, e) s = Inr mid"
    and rest: "fold_result f (enumerate (Suc n) es) mid = Inr s'" by auto
  from step [OF mid] obtain new where new: "out mid = out s @ new" "\<forall>r \<in> set new. Q r"
    "map (\<lambda>r. rs_name (sr_schema r)) new = names e" by blast
  from Cons.IH [OF rest] obtain later where "out s' = out mid @ later" "\<forall>r \<in> set later. Q r"
    "map (\<lambda>r. rs_name (sr_schema r)) later = concat (map names es)" by blast
  with new show ?case by (intro exI [of _ "new @ later"]) auto
qed simp

lemma canonical_step:
  assumes "canonical_relation product cols (n, e) (seen, relations) = Inr (seen', relations')"
  shows "\<exists>r. relations' = relations @ [r] \<and> rs_name (sr_schema r) = under_product product (ce_name e) \<and>
    sound_relation cols r"
proof -
  let ?columns = "ce_columns e" and ?key = "ce_key e"
  from assms have missing: "columns_outside ?columns ?key = []"
    and rest: "bind (keyed_fields product ''canonical'' (entry_occurrence ''entities'' n) cols ?key ?columns) (\<lambda>published.
       Inr (ce_name e # seen, relations @ [
         \<lparr>sr_suffix = Some (ce_name e), sr_schema = plain_schema (under_product product (ce_name e)) published,
          sr_derivation = Projection, sr_source_columns = ?columns, sr_key = ?key,
          sr_materialisation = Some As_view, sr_change_column = None, sr_range_columns = None,
          sr_reads = []\<rparr>])) = Inr (seen', relations')"
    by (simp_all add: canonical_relation_def Let_def split: if_splits)
  from missing have key: "set ?key \<subseteq> set ?columns" by (auto simp: columns_outside_def filter_empty_conv)
  from rest obtain published
    where keyed: "keyed_fields product ''canonical'' (entry_occurrence ''entities'' n) cols ?key ?columns = Inr published"
      and out: "relations' = relations @ [
         \<lparr>sr_suffix = Some (ce_name e), sr_schema = plain_schema (under_product product (ce_name e)) published,
          sr_derivation = Projection, sr_source_columns = ?columns, sr_key = ?key,
          sr_materialisation = Some As_view, sr_change_column = None, sr_range_columns = None,
          sr_reads = []\<rparr>]" by auto
  have "sound_relation cols \<lparr>sr_suffix = Some (ce_name e),
      sr_schema = plain_schema (under_product product (ce_name e)) published,
      sr_derivation = Projection, sr_source_columns = ?columns, sr_key = ?key,
      sr_materialisation = Some As_view, sr_change_column = None, sr_range_columns = None, sr_reads = []\<rparr>"
    by (rule keyed_sound [OF keyed _ _ key]) (simp_all add: plain_schema_def keyed_fields_Inr(2) [OF keyed])
  with out show ?thesis by (simp add: plain_schema_def)
qed

lemma canonical_rendered:
  assumes "canonical_relations domain name cfg cols = Inr relations"
  shows "map (\<lambda>r. rs_name (sr_schema r)) relations = canonical_names domain name (section_names ''canonical'' cfg)"
    and "\<forall>r \<in> set relations. sound_relation cols r"
proof -
  let ?product = "product_name domain name"
  have step: "\<exists>new. snd s' = snd s @ new \<and> (\<forall>r \<in> set new. sound_relation cols r) \<and>
      map (\<lambda>r. rs_name (sr_schema r)) new = [under_product ?product (ce_name e)]"
    if "canonical_relation ?product cols (n, e) s = Inr s'" for n e s s'
    using that canonical_step [of ?product cols n e "fst s" "snd s" "fst s'" "snd s'"] by auto
  from assms obtain seen where run: "fold_result (canonical_relation ?product cols) (enumerate 0 (ss_canonical cfg)) ([], []) =
      Inr (seen, relations)" by (auto simp: canonical_relations_def)
  from entries_loop [of "canonical_relation ?product cols" snd, OF step run]
  show "map (\<lambda>r. rs_name (sr_schema r)) relations = canonical_names domain name (section_names ''canonical'' cfg)"
    and "\<forall>r \<in> set relations. sound_relation cols r"
    by (auto simp: canonical_names_def section_names_def Let_def comp_def concat_map_singleton)
qed

section \<open>The operational shape\<close>

lemma role_clash_None:
  "role_clash seen roles = None \<longleftrightarrow> distinct (map snd roles) \<and> snd ` set roles \<inter> fst ` set seen = {}"
proof (induction seen roles rule: role_clash.induct)
  case (2 seen role column roles)
  show ?case
  proof (cases "map_of seen column")
    case None
    then have step: "role_clash seen ((role, column) # roles) = role_clash ((column, role) # seen) roles" by simp
    from None have "column \<notin> fst ` set seen" by (simp only: map_of_eq_None_iff not_False_eq_True)
    then show ?thesis unfolding step "2.IH" [OF None] by auto
  next
    case (Some earlier)
    then have "column \<in> fst ` set seen" by (force dest: map_of_SomeD)
    with Some show ?thesis by auto
  qed
qed simp

lemma check_roles_Inr:
  assumes "check_roles product occurrence e = Inr u"
  shows "distinct (oe_key e @ oe_attributes e @ [oe_change e, oe_source_system e, oe_source_key e, oe_operation e])"
    and "{effective_from, effective_to} \<inter> set (oe_key e @ oe_attributes e) = {}"
proof -
  from assms have roles: "role_clash [] (entity_roles e) = None"
    and free: "columns_in [effective_from, effective_to] (oe_key e @ oe_attributes e) = []"
    by (auto simp: check_roles_def Let_def split: option.splits if_splits)
  from roles show "distinct (oe_key e @ oe_attributes e @ [oe_change e, oe_source_system e, oe_source_key e, oe_operation e])"
    by (simp add: role_clash_None entity_roles_def comp_def)
  from free show "{effective_from, effective_to} \<inter> set (oe_key e @ oe_attributes e) = {}"
    by (auto simp: columns_in_def filter_empty_conv)
qed

lemma range_fields_simps [simp]:
  "set (field_names (range_fields t)) = {effective_from, effective_to}"
  "f \<in> set (range_fields t) \<Longrightarrow> rf_type f = t \<and> rf_name f \<in> {effective_from, effective_to}"
  by (auto simp: range_fields_def field_names_def)

text \<open>The same with the columns of an effective range behind.\<close>

lemma ranged_sound:
  assumes columns: "\<forall>f \<in> set published. rf_type f \<in> rf_type ` set cols \<and> rf_name f \<in> set (field_names cols) \<and>
      (rf_name f \<in> set key \<longrightarrow> rf_required f)"
    and r: "rs_fields (sr_schema r) = published @ range_fields t" "sr_key r = key"
    and key: "set key \<subseteq> set (field_names published)" "{effective_from, effective_to} \<inter> set key = {}"
    and sources: "set (sr_source_columns r) \<subseteq> set (field_names cols)" and t: "t \<in> rf_type ` set cols"
  shows "sound_relation cols r"
  using columns key sources t unfolding sound_relation_def r
  by (auto simp: field_names_def dest: range_fields_simps(2))

lemma ods_entity_sound:
  assumes roles: "check_roles product occurrence e = Inr u" and r: "ods_entity_relation product occurrence cols e = Inr r"
  shows "rs_name (sr_schema r) = under_product product (oe_name e) \<and> sound_relation cols r"
proof -
  from r obtain change published
    where change: "instant_field product ''ods'' (occurrence @ ''.change_column'') cols (oe_change e) = Inr change"
      and keyed: "keyed_fields product ''ods'' occurrence cols (oe_key e) (oe_key e @ oe_attributes e) = Inr published"
      and out: "r = \<lparr>sr_suffix = Some (oe_name e),
       sr_schema = plain_schema (under_product product (oe_name e)) (published @ range_fields (rf_type change)),
       sr_derivation = Dimension_type_2, sr_source_columns = oe_key e @ oe_attributes e @ [oe_change e],
       sr_key = oe_key e, sr_materialisation = Some As_table, sr_change_column = Some (oe_change e),
       sr_range_columns = Some (effective_from, effective_to), sr_reads = []\<rparr>"
    by (auto simp: ods_entity_relation_def)
  note k = keyed_fields_Inr [OF keyed] and c = instant_field_Inr [OF change]
  have "\<forall>f \<in> set published. rf_name f \<in> set (field_names cols)"
    using k(4) .
  moreover have "oe_change e \<in> set (field_names cols)" using c by simp
  ultimately have "sound_relation cols r"
    using k c check_roles_Inr(2) [OF roles]
    by (intro ranged_sound [of published cols "oe_key e" r "rf_type change"]) (auto simp: out plain_schema_def)
  then show ?thesis by (simp add: out plain_schema_def)
qed

lemma ods_xref_sound:
  assumes "ods_xref_relation product occurrence cols e = Inr r" and change: "oe_change e \<in> set (field_names cols)"
  shows "rs_name (sr_schema r) = under_product product (oe_name e @ ''_xref'') \<and> sound_relation cols r"
proof -
  let ?key = "[oe_source_system e, oe_source_key e]"
  from assms(1) obtain published where keyed: "keyed_fields product ''ods'' occurrence cols ?key (?key @ oe_key e) = Inr published"
    and out: "rs_fields (sr_schema r) = published" "sr_key r = ?key" "sr_source_columns r = (?key @ oe_key e) @ [oe_change e]"
      "rs_name (sr_schema r) = under_product product (oe_name e @ ''_xref'')"
    by (auto simp: ods_xref_relation_def Let_def plain_schema_def)
  have "sound_relation cols r"
    by (rule keyed_sound [OF keyed out(1,2)]) (use keyed_fields_Inr(2) [OF keyed] change out(3) in auto)
  with out(4) show ?thesis by simp
qed

lemma ods_audit_sound:
  assumes "ods_audit_relation product occurrence cols e = Inr r"
  shows "rs_name (sr_schema r) = under_product product (oe_name e @ ''_audit'') \<and> sound_relation cols r"
proof -
  let ?key = "[oe_source_system e, oe_source_key e, oe_change e]"
  from assms(1) obtain published
    where keyed: "keyed_fields product ''ods'' occurrence cols ?key (oe_key e @ ?key @ [oe_operation e]) = Inr published"
    and out: "rs_fields (sr_schema r) = published" "sr_key r = ?key" "sr_source_columns r = oe_key e @ ?key @ [oe_operation e]"
      "rs_name (sr_schema r) = under_product product (oe_name e @ ''_audit'')"
    by (auto simp: ods_audit_relation_def Let_def plain_schema_def)
  have "sound_relation cols r"
    by (rule keyed_sound [OF keyed out(1,2)]) (use keyed_fields_Inr(2) [OF keyed] out(3) in auto)
  with out(4) show ?thesis by simp
qed

lemma ods_rendered:
  assumes "ods_relations domain name cfg cols = Inr relations"
  shows "map (\<lambda>r. rs_name (sr_schema r)) relations = ods_names domain name (section_names ''ods'' cfg)"
    and "\<forall>r \<in> set relations. sound_relation cols r"
proof -
  let ?product = "product_name domain name"
  let ?names = "\<lambda>e. map (under_product ?product) [oe_name e, oe_name e @ ''_xref'', oe_name e @ ''_audit'']"
  have step: "\<exists>new. snd s' = snd s @ new \<and> (\<forall>r \<in> set new. sound_relation cols r) \<and>
      map (\<lambda>r. rs_name (sr_schema r)) new = ?names e"
    if step: "ods_relation ?product cols (n, e) s = Inr s'" for n e s s'
  proof -
    let ?at = "entry_occurrence ''entities'' n"
    from step obtain entity xref audit where roles: "check_roles ?product ?at e = Inr ()"
      and entity: "ods_entity_relation ?product ?at cols e = Inr entity"
      and xref: "ods_xref_relation ?product ?at cols e = Inr xref"
      and audit: "ods_audit_relation ?product ?at cols e = Inr audit"
      and out: "snd s' = snd s @ [entity, xref, audit]"
      by (cases s) (auto simp: ods_relation_def Let_def split: if_splits)
    from entity have "oe_change e \<in> set (field_names cols)"
      by (auto simp: ods_entity_relation_def dest!: instant_field_Inr)
    with out ods_entity_sound [OF roles entity] ods_xref_sound [OF xref] ods_audit_sound [OF audit]
    show ?thesis by (intro exI [of _ "[entity, xref, audit]"]) simp
  qed
  from assms obtain seen where run: "fold_result (ods_relation ?product cols) (enumerate 0 (ss_ods cfg)) ([], []) =
      Inr (seen, relations)" by (auto simp: ods_relations_def)
  from entries_loop [of "ods_relation ?product cols" snd, OF step run]
  show "map (\<lambda>r. rs_name (sr_schema r)) relations = ods_names domain name (section_names ''ods'' cfg)"
    and "\<forall>r \<in> set relations. sound_relation cols r"
    by (auto simp: ods_names_def section_names_def Let_def comp_def)
qed

section \<open>The dimensional shape\<close>

lemma set_ordered_columns: "set (ordered_columns columns) = set columns"
proof -
  have "set (fold (\<lambda>c seen. if c \<in> set seen then seen else seen @ [c]) columns seen) = set seen \<union> set columns" for seen
    by (induction columns arbitrary: seen) auto
  from this [of "[]"] show ?thesis by (simp add: ordered_columns_def)
qed

lemma dimension_sound:
  assumes r: "dimension_relation product occurrence cols d = Inr r"
  shows "rs_name (sr_schema r) = under_product product (''dim_'' @ dm_name d) \<and> sound_relation cols r"
proof -
  let ?column = "column_field product ''dimensional'' occurrence cols"
  from r obtain instant keyed attributes
    where instant: "instant_field product ''dimensional'' (occurrence @ ''.change_column'') cols (dm_change d) = Inr instant"
      and keyed: "map_result ?column (dm_key d) = Inr keyed" and attributes: "map_result ?column (dm_attributes d) = Inr attributes"
      and apart: "columns_in (dm_change d # dm_key d) (dm_attributes d) = []"
    by (auto simp: dimension_relation_def Let_def split: if_splits)
  let ?published = "map (\<lambda>f. typed_field (rf_name f) (rf_type f) True) keyed @ attributes"
  have r_parts: "sr_key r = dm_key d" "sr_source_columns r = dm_key d @ dm_attributes d @ [dm_change d]"
      "rs_name (sr_schema r) = under_product product (''dim_'' @ dm_name d)"
    and r_fields: "rs_fields (sr_schema r) = ?published @ [] \<or>
      rs_fields (sr_schema r) = ?published @ range_fields (rf_type instant) \<and>
        columns_in [effective_from, effective_to] (dm_key d @ dm_attributes d) = []"
    using r instant keyed attributes
    by (auto simp: dimension_relation_def Let_def plain_schema_def dimension_suffix_def split: if_splits)
  note k = columns_found [OF keyed] and a = columns_found [OF attributes] and i = instant_field_Inr [OF instant]
  have names: "field_names ?published = dm_key d @ dm_attributes d"
    using k(1) a(1) by (simp add: field_names_def comp_def)
  have columns: "\<forall>f \<in> set ?published. rf_type f \<in> rf_type ` set cols \<and> rf_name f \<in> set (field_names cols) \<and>
      (rf_name f \<in> set (dm_key d) \<longrightarrow> rf_required f)"
  proof
    fix f
    assume "f \<in> set ?published"
    then consider g where "g \<in> set keyed" "f = typed_field (rf_name g) (rf_type g) True" | "f \<in> set attributes" by auto
    then show "rf_type f \<in> rf_type ` set cols \<and> rf_name f \<in> set (field_names cols) \<and>
      (rf_name f \<in> set (dm_key d) \<longrightarrow> rf_required f)"
    proof cases
      case 1
      with k(2) show ?thesis by (auto simp: field_names_def)
    next
      case 2
      then have "rf_name f \<in> set (dm_attributes d)" using arg_cong [OF a(1), of set] by auto
      with apart have "rf_name f \<notin> set (dm_key d)" by (auto simp: columns_in_def filter_empty_conv)
      with 2 a(2) show ?thesis by (auto simp: field_names_def)
    qed
  qed
  have sources: "set (sr_source_columns r) \<subseteq> set (field_names cols)"
    using k(3) a(3) i by (simp add: r_parts(2))
  from r_fields have "sound_relation cols r"
  proof
    assume "rs_fields (sr_schema r) = ?published @ []"
    with columns sources r_parts(1) names show ?thesis by (auto simp: sound_relation_def simp del: set_map)
  next
    assume ranged: "rs_fields (sr_schema r) = ?published @ range_fields (rf_type instant) \<and>
        columns_in [effective_from, effective_to] (dm_key d @ dm_attributes d) = []"
    then have "{effective_from, effective_to} \<inter> set (dm_key d) = {}" by (auto simp: columns_in_def filter_empty_conv)
    then show ?thesis
      using ranged i names by (intro ranged_sound [OF columns _ r_parts(1) _ _ sources]) auto
  qed
  with r_parts(3) show ?thesis by simp
qed

lemma fact_sound:
  assumes "add_fact product keys cols (n, f) st = Inr st'"
  shows "\<exists>r. st_relations st' = st_relations st @ [r] \<and>
    rs_name (sr_schema r) = under_product product (''fact_'' @ fd_name f) \<and> sound_relation cols r"
proof -
  let ?columns = "fact_columns keys f" and ?at = "entry_occurrence ''facts'' n"
  from assms obtain published r
    where keyed: "keyed_fields product ''dimensional'' ?at cols (fd_grain f) ?columns = Inr published"
      and out: "st_relations st' = st_relations st @ [r]" "rs_fields (sr_schema r) = published" "sr_key r = fd_grain f"
        "sr_source_columns r = ?columns" "rs_name (sr_schema r) = under_product product (''fact_'' @ fd_name f)"
    by (auto simp: add_fact_def Let_def plain_schema_def fact_suffix_def split: if_splits)
  have "set (fd_grain f) \<subseteq> set ?columns" by (auto simp: fact_columns_def set_ordered_columns)
  then have "sound_relation cols r"
    by (intro keyed_sound [OF keyed out(2,3)]) (simp_all add: out(4) keyed_fields_Inr(2) [OF keyed])
  with out show ?thesis by blast
qed

lemma dimensional_rendered:
  assumes "dimensional_relations domain name cfg cols = Inr relations"
  shows "map (\<lambda>r. rs_name (sr_schema r)) relations = dimensional_names domain name (section_names ''dimensional'' cfg)"
    and "\<forall>r \<in> set relations. sound_relation cols r"
proof -
  let ?product = "product_name domain name"
  from assms obtain keys dims st
    where dims: "fold_result (add_dimension ?product cols) (enumerate 0 (ss_dimensions cfg)) ([], []) = Inr (keys, dims)"
      and facts: "fold_result (add_fact ?product keys cols) (enumerate 0 (ss_facts cfg))
        \<lparr>st_seen = [], st_measures = [], st_relations = dims\<rparr> = Inr st"
      and out: "relations = st_relations st"
    by (auto simp: dimensional_relations_def Let_def)
  have dim: "\<exists>new. snd s' = snd s @ new \<and> (\<forall>r \<in> set new. sound_relation cols r) \<and>
      map (\<lambda>r. rs_name (sr_schema r)) new = [under_product ?product (''dim_'' @ dm_name d)]"
    if "add_dimension ?product cols (n, d) s = Inr s'" for n d s s'
  proof -
    from that obtain r where "dimension_relation ?product (entry_occurrence ''dimensions'' n) cols d = Inr r"
      and "snd s' = snd s @ [r]" by (cases s) (auto simp: add_dimension_def Let_def split: if_splits)
    with dimension_sound show ?thesis by (intro exI [of _ "[r]"]) auto
  qed
  have fact_step: "\<exists>new. st_relations s' = st_relations s @ new \<and> (\<forall>r \<in> set new. sound_relation cols r) \<and>
      map (\<lambda>r. rs_name (sr_schema r)) new = [under_product ?product (''fact_'' @ fd_name f)]"
    if "add_fact ?product keys cols (n, f) s = Inr s'" for n f s s'
    using fact_sound [OF that] by auto
  have "\<exists>new. snd (keys, dims) = snd ([] :: dimension_keys, []) @ new \<and> (\<forall>r \<in> set new. sound_relation cols r) \<and>
      map (\<lambda>r. rs_name (sr_schema r)) new = concat (map (\<lambda>d. [under_product ?product (''dim_'' @ dm_name d)]) (ss_dimensions cfg))"
    by (rule entries_loop [where out = snd, OF _ dims]) (rule dim)
  moreover have "\<exists>new. st_relations st = st_relations \<lparr>st_seen = [], st_measures = [], st_relations = dims\<rparr> @ new \<and>
      (\<forall>r \<in> set new. sound_relation cols r) \<and>
      map (\<lambda>r. rs_name (sr_schema r)) new = concat (map (\<lambda>f. [under_product ?product (''fact_'' @ fd_name f)]) (ss_facts cfg))"
    by (rule entries_loop [where out = st_relations, OF _ facts]) (rule fact_step)
  ultimately show "map (\<lambda>r. rs_name (sr_schema r)) relations = dimensional_names domain name (section_names ''dimensional'' cfg)"
    and "\<forall>r \<in> set relations. sound_relation cols r"
    by (auto simp: out dimensional_names_def section_names_def Let_def comp_def concat_map_singleton)
qed

section \<open>Every registered shape\<close>

text \<open>The shapes modelled in Shape_Relations: all but the \<open>data_vault\<close> plug-in.\<close>

definition modelled_shape :: "string \<Rightarrow> bool" where
  "modelled_shape shape \<longleftrightarrow> shape \<in> {''declared'', ''canonical'', ''ods'', ''dimensional''}"

lemma declared_rendered:
  assumes "declared_relations domain name cfg cols = Inr relations"
  shows "map (\<lambda>r. rs_name (sr_schema r)) relations = declared_names domain name (section_names ''declared'' cfg)"
    and "\<forall>r \<in> set relations. sound_relation cols r"
  using assms by (auto simp: declared_relations_def declared_names_def plain_schema_def sound_relation_def field_names_def)

lemma shape_rendered:
  assumes "shape_relations_for vault doc v cols = Inr relations" and "modelled_shape (vp_shape v)"
  shows "shape_relation_names (vp_shape v) (vp_domain v) (vp_name v) (section_names (vp_shape v) (cd_shape_config doc)) =
      Inr (map (\<lambda>r. rs_name (sr_schema r)) relations)"
    and "\<forall>r \<in> set relations. sound_relation cols r"
proof -
  from assms obtain render where render: "get_shape vault (vp_shape v) = Some render"
      "render (vp_domain v) (vp_name v) (cd_shape_config doc) cols = Inr relations"
    by (auto simp: shape_relations_for_def split: option.splits if_splits)
  from assms(2) consider "vp_shape v = ''declared''" | "vp_shape v = ''canonical''" | "vp_shape v = ''ods''"
    | "vp_shape v = ''dimensional''" by (auto simp: modelled_shape_def)
  then have "shape_relation_names (vp_shape v) (vp_domain v) (vp_name v) (section_names (vp_shape v) (cd_shape_config doc)) =
      Inr (map (\<lambda>r. rs_name (sr_schema r)) relations) \<and> (\<forall>r \<in> set relations. sound_relation cols r)"
  proof cases
    case 1
    with render declared_rendered [of "vp_domain v" "vp_name v" "cd_shape_config doc" cols relations]
    show ?thesis by (simp add: get_shape_def shape_relation_names_def)
  next
    case 2
    with render canonical_rendered [of "vp_domain v" "vp_name v" "cd_shape_config doc" cols relations]
    show ?thesis by (simp add: get_shape_def shape_relation_names_def)
  next
    case 3
    with render ods_rendered [of "vp_domain v" "vp_name v" "cd_shape_config doc" cols relations]
    show ?thesis by (simp add: get_shape_def shape_relation_names_def)
  next
    case 4
    with render dimensional_rendered [of "vp_domain v" "vp_name v" "cd_shape_config doc" cols relations]
    show ?thesis by (simp add: get_shape_def shape_relation_names_def)
  qed
  then show "shape_relation_names (vp_shape v) (vp_domain v) (vp_name v) (section_names (vp_shape v) (cd_shape_config doc)) =
      Inr (map (\<lambda>r. rs_name (sr_schema r)) relations)" "\<forall>r \<in> set relations. sound_relation cols r" by simp_all
qed

end
