(* ===== verification/Relation_Change.thy ===== *)
theory Relation_Change
  imports Relation_Schemas
begin

text \<open>
  How a relation may change under its consumers, and how it is checked against the columns a build manifest
  has: the last part of \<open>ergasterion/framework/contract.py\<close>.
\<close>

section \<open>Compatibility\<close>

datatype relation_change = No_change | Minor_change | Major_change

definition names_of :: "relation_schema \<Rightarrow> string set" where
  "names_of s = set (field_names (rs_fields s))"

definition classify_relation_change :: "relation_schema \<Rightarrow> relation_schema \<Rightarrow> relation_change \<times> string list" where
  "classify_relation_change prior candidate =
     (let removed = sorted_list_of_set (names_of prior - names_of candidate);
          added = sorted_list_of_set (names_of candidate - names_of prior);
          both = sorted_list_of_set (names_of prior \<inter> names_of candidate);
          old = (\<lambda>n. the (field_of (rs_fields prior) n)); new = (\<lambda>n. the (field_of (rs_fields candidate) n));
          offending = removed @ filter (\<lambda>n. rf_required (new n)) added
            @ filter (\<lambda>n. rf_type (old n) \<noteq> rf_type (new n)) both
            @ filter (\<lambda>n. rf_required (new n) \<and> \<not> rf_required (old n)) both
      in if offending \<noteq> [] then (Major_change, offending)
         else if added \<noteq> [] then (Minor_change, []) else (No_change, []))"

record incompatibility =
  ic_consumer :: string
  ic_producer :: string
  ic_field :: string
  ic_removed :: "string list"
  ic_added :: "string list"

definition check_consumer_compatibility ::
    "string \<Rightarrow> string \<Rightarrow> relation_schema \<Rightarrow> relation_schema \<Rightarrow> incompatibility + unit" where
  "check_consumer_compatibility consumer producer prior candidate =
     (if rs_name prior \<noteq> rs_name candidate
      then Inl \<lparr>ic_consumer = consumer, ic_producer = producer, ic_field = rs_name candidate, ic_removed = [], ic_added = []\<rparr>
      else case classify_relation_change prior candidate of
        (Major_change, offending) \<Rightarrow>
          Inl \<lparr>ic_consumer = consumer, ic_producer = producer, ic_field = hd offending,
            ic_removed = sorted_list_of_set (names_of prior - names_of candidate),
            ic_added = sorted_list_of_set (names_of candidate - names_of prior)\<rparr>
      | _ \<Rightarrow> Inr ())"

definition cross_check_manifest_agreement ::
    "string list \<Rightarrow> relation_schema \<Rightarrow> string list \<times> string list + unit" where
  "cross_check_manifest_agreement manifest declared =
     (if set manifest = names_of declared then Inr ()
      else Inl (sorted_list_of_set (names_of declared - set manifest), sorted_list_of_set (set manifest - names_of declared)))"

end
