(* ===== verification/Estate_Types.thy ===== *)
theory Estate_Types
  imports Graph_Build Estate_Registry Shape_Facts Relation_Change
begin

text \<open>
  The types of an estate: what the resolution of one product adds to the types it reads, the names of the
  relations a registry holds, and the two directions of a change of a relation.
\<close>

section \<open>One product\<close>

text \<open>Stored names change neither what a relation is called nor a type.\<close>

lemma apply_physical_name_Inr:
  assumes "apply_physical_name product declared r = Inr r'"
  shows "rs_name (sr_schema r') = rs_name (sr_schema r)"
    and "map (\<lambda>f. (rf_name f, rf_type f, rf_required f)) (rs_fields (sr_schema r')) =
      map (\<lambda>f. (rf_name f, rf_type f, rf_required f)) (rs_fields (sr_schema r))"
  using assms by (auto simp: apply_physical_name_def Let_def split: option.splits)

lemma apply_physical_names_Inr:
  assumes "apply_physical_names doc product relations = Inr relations'"
  shows "map (\<lambda>r. rs_name (sr_schema r)) relations' = map (\<lambda>r. rs_name (sr_schema r)) relations"
    and "r' \<in> set relations' \<Longrightarrow> \<exists>r \<in> set relations. rf_type ` set (rs_fields (sr_schema r')) = rf_type ` set (rs_fields (sr_schema r))"
proof -
  have all: "list_all2 (\<lambda>r r'. apply_physical_name product (cd_physical doc) r = Inr r') relations relations'"
    using assms by (simp add: apply_physical_names_def map_result_Inr)
  then show "map (\<lambda>r. rs_name (sr_schema r)) relations' = map (\<lambda>r. rs_name (sr_schema r)) relations"
    by (induction rule: list_all2_induct) (auto simp: apply_physical_name_Inr(1))
  assume "r' \<in> set relations'"
  then obtain r where r: "r \<in> set relations" "apply_physical_name product (cd_physical doc) r = Inr r'"
    using map_result_mem [OF assms [unfolded apply_physical_names_def], of r'] by blast
  have types: "rf_type ` set fs = (\<lambda>(n, t, q). t) ` set (map (\<lambda>f. (rf_name f, rf_type f, rf_required f)) fs)" for fs
    by (simp add: image_image)
  have "rf_type ` set (rs_fields (sr_schema r')) = rf_type ` set (rs_fields (sr_schema r))"
    unfolding types apply_physical_name_Inr(2) [OF r(2)] ..
  with r(1) show "\<exists>r \<in> set relations. rf_type ` set (rs_fields (sr_schema r')) = rf_type ` set (rs_fields (sr_schema r))" by blast
qed

text \<open>The types of the relations a registry holds.\<close>

definition held_types :: "resolved \<Rightarrow> neutral_type set" where
  "held_types resolved = (\<Union>(n, relations) \<in> set resolved. \<Union>r \<in> set relations. rf_type ` set (rs_fields (sr_schema r)))"

lemma resolve_source_relation_mem:
  assumes "resolve_source_relation relations consumer producer relation kind = Inr r"
  shows "r \<in> set relations \<and> resolve_relation_name (map (\<lambda>r. rs_name (sr_schema r)) relations) consumer producer relation kind =
    Inr (rs_name (sr_schema r))"
proof -
  from assms obtain chosen
    where chosen: "resolve_relation_name (map (rs_name \<circ> sr_schema) relations) consumer producer relation kind = Inr chosen"
      and r: "r = the (find (\<lambda>r. rs_name (sr_schema r) = chosen) relations)"
    by (auto simp: resolve_source_relation_def of_read_def split: sum.splits)
  from resolve_relation_name_mem [OF chosen] have "find (\<lambda>r. rs_name (sr_schema r) = chosen) relations \<noteq> None"
    by (auto simp: find_None_iff)
  then obtain r' where "find (\<lambda>r. rs_name (sr_schema r) = chosen) relations = Some r'" by blast
  moreover from this have "r = r'" by (simp add: r)
  ultimately have "r \<in> set relations" "rs_name (sr_schema r) = chosen" by (auto simp: find_Some_iff)
  with chosen show ?thesis by (simp add: comp_def)
qed

lemma resolve_read_types:
  assumes "resolve_read consumer resolved landing read = Inr rr"
  shows "rf_type ` set (rs_fields (rr_schema rr)) \<subseteq> held_types resolved \<union> schema_types landing"
proof -
  obtain kind reference relation where read: "read = (kind, reference, relation)" by (cases read) auto
  show ?thesis
  proof (cases "map_of resolved (contract_target reference)")
    case None
    with assms obtain s where "map_of landing (contract_target reference) = Some s" "rr_schema rr = s"
      by (auto simp: read resolve_read_def Let_def split: option.splits)
    then show ?thesis using schema_typesI by auto
  next
    case (Some relations)
    with assms obtain r where "resolve_source_relation relations consumer (contract_target reference) relation kind = Inr r"
      and "rr_schema rr = sr_schema r" by (auto simp: read resolve_read_def Let_def)
    with resolve_source_relation_mem Some show ?thesis
      by (fastforce simp: held_types_def dest: map_of_SomeD)
  qed
qed

lemma consumer_schema_types:
  assumes "consumer_source_schemas doc name resolved landing = Inr schemas"
  shows "schema_types schemas \<subseteq> held_types resolved \<union> schema_types landing"
proof -
  from assms obtain reads where reads: "resolve_consumer_reads doc name resolved landing = Inr reads"
    and schemas: "schemas = rev (map (\<lambda>r. (rr_key r, rr_schema r)) reads) @ landing"
    by (auto simp: consumer_source_schemas_def)
  have "rf_type ` set (rs_fields (rr_schema rr)) \<subseteq> held_types resolved \<union> schema_types landing" if "rr \<in> set reads" for rr
  proof -
    from map_result_mem [OF reads [unfolded resolve_consumer_reads_def], THEN iffD1, OF that]
    obtain read where "resolve_read name resolved landing read = Inr rr" by blast
    then show ?thesis by (rule resolve_read_types)
  qed
  then show ?thesis by (auto simp: schemas schema_types_def)
qed

text \<open>Every type an estate states: of the schemas it opens with, of its bindings and of its declarations.\<close>

definition binding_types :: "composition_document \<Rightarrow> neutral_type set" where
  "binding_types doc = (\<Union>s \<in> set (cd_sources doc). case us_fixture s of None \<Rightarrow> {} | Some fs \<Rightarrow> (fst \<circ> snd) ` set fs)"

definition estate_types :: "schemas \<Rightarrow> compositions \<Rightarrow> neutral_type set" where
  "estate_types landing entries = schema_types landing \<union>
     (\<Union>(name, doc, v) \<in> set entries. declared_types doc \<union> binding_types doc)"

lemma landing_schema_types:
  assumes "landing_schema_for doc name landing = Inr s"
  shows "rf_type ` set (rs_fields s) \<subseteq> schema_types landing \<union> binding_types doc"
proof -
  let ?bindings = "List.map_filter us_fixture (cd_sources doc)"
  from assms consider "map_of landing name = Some s" | fs rest where "?bindings = fs # rest" "s = bound_schema name fs"
    by (auto simp: landing_schema_for_def Let_def split: option.splits list.splits if_splits)
  then show ?thesis
  proof cases
    case 1
    then show ?thesis using schema_typesI by auto
  next
    case 2
    then have "fs \<in> set ?bindings" by simp
    then obtain source where "source \<in> set (cd_sources doc)" "us_fixture source = Some fs"
      by (auto simp: List.map_filter_def)
    then have "(fst \<circ> snd) ` set fs \<subseteq> binding_types doc" by (force simp: binding_types_def)
    moreover have "rf_type ` set (rs_fields s) = (fst \<circ> snd) ` set fs"
      by (auto simp: 2 bound_schema_def plain_schema_def bound_field_def image_image case_prod_beta comp_def)
    ultimately show ?thesis by auto
  qed
qed

lemma produced:
  assumes step: "resolve_product vault landing resolved (name, doc, v) = Inr (Some relations)"
    and shape: "modelled_shape (vp_shape v)" and once: "keys_once doc"
  shows "shape_relation_names (vp_shape v) (vp_domain v) (vp_name v) (section_names (vp_shape v) (cd_shape_config doc)) =
      Inr (map (\<lambda>r. rs_name (sr_schema r)) relations)"
    and "r \<in> set relations \<Longrightarrow> rf_type ` set (rs_fields (sr_schema r)) \<subseteq>
      held_types resolved \<union> schema_types landing \<union> declared_types doc \<union> binding_types doc"
proof -
  have "\<exists>cols rendered. shape_relations_for vault doc v cols = Inr rendered \<and> apply_physical_names doc name rendered = Inr relations \<and>
      rf_type ` set cols \<subseteq> held_types resolved \<union> schema_types landing \<union> declared_types doc \<union> binding_types doc"
  proof (cases "vp_profile v = ''landing''")
    case True
    with step obtain s rendered where "landing_schema_for doc name landing = Inr s"
        "shape_relations_for vault doc v (rs_fields s) = Inr rendered" "apply_physical_names doc name rendered = Inr relations"
      by (auto simp: resolve_product_def)
    with landing_schema_types show ?thesis by blast
  next
    case False
    with step obtain schemas cols rendered where schemas: "consumer_source_schemas doc name resolved landing = Inr schemas"
        and cols: "derive_relation_fields (published_name v) doc schemas = Inr cols"
        and out: "shape_relations_for vault doc v cols = Inr rendered" "apply_physical_names doc name rendered = Inr relations"
      by (auto simp: resolve_product_def derive_shape_relations_def split: if_splits)
    have "rf_type ` set cols \<subseteq> schema_types schemas \<union> declared_types doc"
      using published_typed [OF cols once] by (simp add: typed_in_def)
    with consumer_schema_types [OF schemas] out show ?thesis by blast
  qed
  then obtain cols rendered where rendered: "shape_relations_for vault doc v cols = Inr rendered"
    and stored: "apply_physical_names doc name rendered = Inr relations"
    and types: "rf_type ` set cols \<subseteq> held_types resolved \<union> schema_types landing \<union> declared_types doc \<union> binding_types doc"
    by blast
  show "shape_relation_names (vp_shape v) (vp_domain v) (vp_name v) (section_names (vp_shape v) (cd_shape_config doc)) =
      Inr (map (\<lambda>r. rs_name (sr_schema r)) relations)"
    using shape_rendered(1) [OF rendered shape] apply_physical_names_Inr(1) [OF stored] by simp
  assume "r \<in> set relations"
  with apply_physical_names_Inr(2) [OF stored] obtain r0 where r0: "r0 \<in> set rendered"
    "rf_type ` set (rs_fields (sr_schema r)) = rf_type ` set (rs_fields (sr_schema r0))" by blast
  with shape_rendered(2) [OF rendered shape] have "rf_type ` set (rs_fields (sr_schema r)) \<subseteq> rf_type ` set cols"
    by (auto simp: sound_relation_def)
  with types show "rf_type ` set (rs_fields (sr_schema r)) \<subseteq>
      held_types resolved \<union> schema_types landing \<union> declared_types doc \<union> binding_types doc" by blast
qed

text \<open>A run of the registry keeps to the types of the estate.\<close>

lemma built_types:
  assumes "\<forall>(name, doc, v) \<in> set es. modelled_shape (vp_shape v) \<and> keys_once doc"
  shows "built (resolve_product vault landing) es before results \<Longrightarrow> held_types before \<subseteq> estate_types landing es \<Longrightarrow>
    held_types (before @ results) \<subseteq> estate_types landing es"
proof (induction results arbitrary: before)
  case (Cons result results)
  obtain n relations where result: "result = (n, relations)" by (cases result)
  with Cons.prems(1) obtain name doc v where e: "(name, doc, v) \<in> set es"
    and step: "resolve_product vault landing before (name, doc, v) = Inr (Some relations)"
    and rest: "built (resolve_product vault landing) es (before @ [result]) results" by auto
  from assms e have ok: "modelled_shape (vp_shape v)" "keys_once doc" by auto
  have "declared_types doc \<union> binding_types doc \<subseteq> estate_types landing es" "schema_types landing \<subseteq> estate_types landing es"
    using e by (auto simp: estate_types_def)
  then have "\<forall>r \<in> set relations. rf_type ` set (rs_fields (sr_schema r)) \<subseteq> estate_types landing es"
    using produced(2) [OF step ok] Cons.prems(2) by blast
  moreover have "held_types (before @ [result]) = held_types before \<union> (\<Union>r \<in> set relations. rf_type ` set (rs_fields (sr_schema r)))"
    by (auto simp: held_types_def result)
  ultimately have "held_types (before @ [result]) \<subseteq> estate_types landing es"
    using Cons.prems(2) by (simp only: Un_subset_iff UN_subset_iff)
  from Cons.IH [OF rest this] show ?case by simp
qed simp

lemma registry_built:
  assumes "resolve_relation_registry vault landing entries = Inr resolved"
  shows "built (resolve_product vault landing) entries [] resolved" and "mset (map fst resolved) = mset (map fst entries)"
proof -
  from resolve_passes_built [OF assms [unfolded resolve_relation_registry_def]]
  have run: "built (resolve_product vault landing) (sort_key fst entries) [] resolved"
    and names: "mset (map fst resolved) = mset (map fst (sort_key fst entries))" by auto
  from run show "built (resolve_product vault landing) entries [] resolved" by (rule built_mono) simp
  from names show "mset (map fst resolved) = mset (map fst entries)" by (simp only: mset_map mset_sort)
qed

section \<open>A change of a relation\<close>

text \<open>
  What a consumer of the prior relation can go on relying on: every column of the same type and no column
  newly required; a column that is added is optional.
\<close>

definition serves :: "relation_schema \<Rightarrow> relation_schema \<Rightarrow> bool" where
  "serves prior candidate \<longleftrightarrow>
     (\<forall>n f. field_of (rs_fields prior) n = Some f \<longrightarrow>
        (\<exists>g. field_of (rs_fields candidate) n = Some g \<and> rf_type g = rf_type f \<and> (rf_required g \<longrightarrow> rf_required f))) \<and>
     (\<forall>n g. field_of (rs_fields candidate) n = Some g \<longrightarrow> field_of (rs_fields prior) n = None \<longrightarrow> \<not> rf_required g)"

lemma serves_refl: "serves s s"
  by (simp add: serves_def)

lemma serves_trans:
  assumes "serves a b" and "serves b c"
  shows "serves a c"
  unfolding serves_def
proof (intro conjI allI impI)
  fix n f
  assume "field_of (rs_fields a) n = Some f"
  with assms(1) obtain g where "field_of (rs_fields b) n = Some g" "rf_type g = rf_type f" "rf_required g \<longrightarrow> rf_required f"
    unfolding serves_def by blast
  moreover from this assms(2) obtain h where "field_of (rs_fields c) n = Some h" "rf_type h = rf_type g"
    "rf_required h \<longrightarrow> rf_required g" unfolding serves_def by blast
  ultimately show "\<exists>h. field_of (rs_fields c) n = Some h \<and> rf_type h = rf_type f \<and> (rf_required h \<longrightarrow> rf_required f)" by auto
next
  fix n h
  assume h: "field_of (rs_fields c) n = Some h" and none: "field_of (rs_fields a) n = None"
  show "\<not> rf_required h"
  proof (cases "field_of (rs_fields b) n")
    case None
    with h assms(2) show ?thesis unfolding serves_def by blast
  next
    case (Some g)
    with none assms(1) have "\<not> rf_required g" unfolding serves_def by blast
    moreover from Some h assms(2) have "rf_required h \<longrightarrow> rf_required g" unfolding serves_def by fastforce
    ultimately show ?thesis by blast
  qed
qed

text \<open>The names a major change is about: removed, added and required, retyped, and newly required.\<close>

definition offending :: "relation_schema \<Rightarrow> relation_schema \<Rightarrow> string set" where
  "offending prior candidate = {n. case (field_of (rs_fields prior) n, field_of (rs_fields candidate) n) of
       (Some f, None) \<Rightarrow> True
     | (None, Some g) \<Rightarrow> rf_required g
     | (Some f, Some g) \<Rightarrow> rf_type f \<noteq> rf_type g \<or> rf_required g \<and> \<not> rf_required f
     | (None, None) \<Rightarrow> False}"

lemma offending_serves: "offending prior candidate = {} \<longleftrightarrow> serves prior candidate"
proof
  assume none: "offending prior candidate = {}"
  have at: "n \<notin> offending prior candidate" for n using none by simp
  show "serves prior candidate"
    unfolding serves_def
  proof (intro conjI allI impI)
    fix n f
    assume "field_of (rs_fields prior) n = Some f"
    with at [of n] show "\<exists>g. field_of (rs_fields candidate) n = Some g \<and> rf_type g = rf_type f \<and> (rf_required g \<longrightarrow> rf_required f)"
      by (cases "field_of (rs_fields candidate) n") (auto simp: offending_def)
  next
    fix n g
    assume "field_of (rs_fields candidate) n = Some g" "field_of (rs_fields prior) n = None"
    with at [of n] show "\<not> rf_required g" by (simp add: offending_def)
  qed
next
  assume serves: "serves prior candidate"
  have "n \<notin> offending prior candidate" for n
  proof (cases "field_of (rs_fields prior) n")
    case None
    with serves show ?thesis by (cases "field_of (rs_fields candidate) n") (auto simp: offending_def serves_def)
  next
    case (Some f)
    with serves obtain g where "field_of (rs_fields candidate) n = Some g" "rf_type g = rf_type f"
      "rf_required g \<longrightarrow> rf_required f" unfolding serves_def by blast
    with Some show ?thesis by (auto simp: offending_def)
  qed
  then show "offending prior candidate = {}" by blast
qed

lemma names_of_field: "n \<in> names_of s \<longleftrightarrow> field_of (rs_fields s) n \<noteq> None"
  by (simp add: names_of_def field_of_None)

lemma set_offending:
  "set (snd (classify_relation_change prior candidate)) = offending prior candidate"
  "fst (classify_relation_change prior candidate) = Major_change \<longleftrightarrow> offending prior candidate \<noteq> {}"
proof -
  let ?old = "\<lambda>n. the (field_of (rs_fields prior) n)" and ?new = "\<lambda>n. the (field_of (rs_fields candidate) n)"
  let ?removed = "sorted_list_of_set (names_of prior - names_of candidate)"
  let ?added = "sorted_list_of_set (names_of candidate - names_of prior)"
  let ?both = "sorted_list_of_set (names_of prior \<inter> names_of candidate)"
  let ?all = "?removed @ filter (\<lambda>n. rf_required (?new n)) ?added @ filter (\<lambda>n. rf_type (?old n) \<noteq> rf_type (?new n)) ?both
    @ filter (\<lambda>n. rf_required (?new n) \<and> \<not> rf_required (?old n)) ?both"
  have finite: "finite (names_of s)" for s by (simp add: names_of_def)
  have "n \<in> set ?all \<longleftrightarrow> n \<in> offending prior candidate" for n
    using finite by (cases "field_of (rs_fields prior) n"; cases "field_of (rs_fields candidate) n")
      (auto simp: names_of_field offending_def)
  then have all: "set ?all = offending prior candidate" by blast
  have classified: "classify_relation_change prior candidate =
      (if ?all \<noteq> [] then (Major_change, ?all) else if ?added \<noteq> [] then (Minor_change, []) else (No_change, []))"
    by (simp only: classify_relation_change_def Let_def)
  have "set (snd (if xs \<noteq> [] then (Major_change, xs) else if ys \<noteq> [] then (Minor_change, []) else (No_change, []))) = set xs"
    "fst (if xs \<noteq> [] then (Major_change, xs) else if ys \<noteq> [] then (Minor_change, []) else (No_change, [])) = Major_change
      \<longleftrightarrow> set xs \<noteq> {}" for xs ys :: "string list"
    by auto
  from this [of ?all ?added] show "set (snd (classify_relation_change prior candidate)) = offending prior candidate"
    "fst (classify_relation_change prior candidate) = Major_change \<longleftrightarrow> offending prior candidate \<noteq> {}"
    unfolding classified all by blast+
qed

end
