(* ===== verification/Contract_Props.thy ===== *)
theory Contract_Props
  imports Estate_Types
begin

text \<open>
  What the contract pipe of an estate guarantees: types, combination of sources, the registry's resolution,
  the relations shapes publish, changes under a consumer, and agreement with the product graph.
\<close>

section \<open>An example estate\<close>

text \<open>A landing product of two columns, a product that renames one of them, and one that keeps the other.\<close>

definition eg_type :: neutral_type where "eg_type = Named_type ''date''"

definition eg_doc :: "upstream_source list \<Rightarrow> compose_step list \<Rightarrow> combination option \<Rightarrow> composition_document" where
  "eg_doc sources steps combine =
     \<lparr>cd_sources = sources, cd_steps = steps, cd_combine = combine,
      cd_shape_config = \<lparr>ss_canonical = [], ss_ods = [], ss_dimensions = [], ss_facts = [], ss_metrics = [],
        ss_vault = \<lparr>vs_hubs = [], vs_links = [], vs_satellites = [], vs_surviving = [], vs_instants = []\<rparr>\<rparr>,
      cd_physical = []\<rparr>"

definition eg_upstream :: "string \<Rightarrow> conform_entry list \<Rightarrow> upstream_source" where
  "eg_upstream reference renames =
     \<lparr>us_contract = reference, us_relation = None, us_expect = [], us_conform = renames, us_fixture = None\<rparr>"

definition eg_valid :: "string \<Rightarrow> string \<Rightarrow> validated_product" where
  "eg_valid name profile = \<lparr>vp_name = name, vp_domain = ''s'', vp_layer = [], vp_profile = profile, vp_shape = ''declared''\<rparr>"

definition eg_landing :: schemas where
  "eg_landing = [(''s.r'', plain_schema ''s.r'' [plain_field ''k'' eg_type, plain_field ''v'' eg_type])]"

definition eg_entries :: compositions where
  "eg_entries =
     [(''s.r'', eg_doc [] [] None, eg_valid ''r'' ''landing''),
      (''s.a'', eg_doc [eg_upstream ''s.b@1'' []] [Transform_step [Map_field ''v'' ''w'' (Decimal_object 1 0)]] None, eg_valid ''a'' ''d''),
      (''s.b'', eg_doc [eg_upstream ''s.r@1'' []] [] None, eg_valid ''b'' ''d'')]"

definition eg_vault :: shape where "eg_vault domain name cfg cols = Inr []"

definition eg_resolved :: resolved where
  "eg_resolved = (case resolve_relation_registry eg_vault eg_landing eg_entries of Inr r \<Rightarrow> r | Inl e \<Rightarrow> [])"

lemma eg_resolves: "resolve_relation_registry eg_vault eg_landing eg_entries = Inr eg_resolved"
  by code_simp

lemma eg_resolved_value:
  "map (\<lambda>(n, rs). (n, map (\<lambda>r. map (\<lambda>f. (rf_name f, rf_type f)) (rs_fields (sr_schema r))) rs)) eg_resolved =
    [(''s.b'', [[(''k'', eg_type), (''v'', eg_type)]]), (''s.r'', [[(''k'', eg_type), (''v'', eg_type)]]),
     (''s.a'', [[(''k'', eg_type), (''w'', Decimal_object 1 0)]])]"
  by code_simp

section \<open>The registry\<close>

text \<open>
  A landing product that is also read before it is resolved publishes what was supplied for it: the declared
  shape, no stored names, no bound relation beside the supplied schema.
\<close>

definition plain_landing :: "schemas \<Rightarrow> compositions \<Rightarrow> bool" where
  "plain_landing landing entries \<longleftrightarrow> (\<forall>(name, doc, v) \<in> set entries. case map_of landing name of
       None \<Rightarrow> True
     | Some s \<Rightarrow> vp_profile v = ''landing'' \<and> vp_shape v = ''declared'' \<and> published_name v = name \<and>
         cd_physical doc = [] \<and> List.map_filter us_fixture (cd_sources doc) = [] \<and> s = plain_schema name (rs_fields s))"

lemma plain_landing_settled:
  assumes "distinct (map fst entries)" and plain: "plain_landing landing entries"
  shows "resolver.settled (resolve_product vault) given_of landing entries"
  unfolding estate.settled_def
proof (intro conjI assms(1) ballI allI impI)
  fix e relations r
  assume e: "e \<in> set entries" and given: "given_of landing (fst e) = Some relations"
  obtain name doc v where parts: "e = (name, doc, v)" by (cases e) auto
  from given parts obtain s where s: "map_of landing name = Some s" "relations = [opening_relation s]"
    by (auto simp: given_of_def)
  with plain e parts have ok: "vp_profile v = ''landing''" "vp_shape v = ''declared''" "published_name v = name"
      "cd_physical doc = []" "List.map_filter us_fixture (cd_sources doc) = []" "s = plain_schema name (rs_fields s)"
    by (auto simp: plain_landing_def)
  have "shape_relations_for vault doc v (rs_fields s) = Inr [opening_relation s]"
    using ok(2,3,6) by (simp add: shape_relations_for_def get_shape_def declared_relations_def opening_relation_def published_name_def)
  moreover have "apply_physical_names doc name [opening_relation s] = Inr [opening_relation s]"
    using ok(4) by (simp add: apply_physical_names_def apply_physical_name_def)
  ultimately show "resolve_product vault landing r e = Inr (Some relations)"
    using ok(1,5) s by (simp add: parts resolve_product_def landing_schema_for_def)
qed

text \<open>C2: What the registry returns for an estate has every product once, each with the relations its own
  declaration gives over that very result, and it is the only such assignment of relations to the estate's
  products. The order of the passes and of the names leaves no trace, when the products that supply their
  landing schema publish it as it stands.\<close>

theorem registry_solves_the_estate:
  assumes "resolve_relation_registry vault landing entries = Inr resolved"
    and "distinct (map fst entries)" and "named_schemas landing" and "plain_landing landing entries"
  shows "mset (map fst resolved) = mset (map fst entries) \<and>
    (\<forall>e \<in> set entries. map_of resolved (fst e) \<noteq> None \<and>
       resolve_product vault landing resolved e = Inr (map_of resolved (fst e))) \<and>
    (\<forall>other. fst ` set other = fst ` set entries \<longrightarrow>
       (\<forall>e \<in> set entries. map_of other (fst e) \<noteq> None \<and> resolve_product vault landing other e = Inr (map_of other (fst e))) \<longrightarrow>
       map_of other = map_of resolved)"
proof -
  let ?es = "sort_key fst entries"
  have run: "resolve_passes (resolve_product vault landing) ?es [] = Inr resolved"
    using assms(1) by (simp add: resolve_relation_registry_def)
  have "distinct (map fst ?es)" using assms(2) by (simp add: distinct_map)
  moreover have "plain_landing landing ?es" using assms(4) by (simp add: plain_landing_def)
  ultimately have settled: "resolver.settled (resolve_product vault) given_of landing ?es" by (rule plain_landing_settled)
  from estate.run_solves [OF assms(3) settled run] estate.run_unique [OF assms(3) settled run]
  show ?thesis by (auto simp: estate.solves_def)
qed

theorem registry_solves_the_estate_witness:
  "map_of eg_resolved ''s.a'' \<noteq> None \<and>
   resolve_product eg_vault eg_landing eg_resolved (eg_entries ! 1) = Inr (map_of eg_resolved ''s.a'')"
proof -
  have "distinct (map fst eg_entries)" "named_schemas eg_landing" "plain_landing eg_landing eg_entries" by code_simp+
  from registry_solves_the_estate [OF eg_resolves this]
  have "\<forall>e \<in> set eg_entries. map_of eg_resolved (fst e) \<noteq> None \<and>
    resolve_product eg_vault eg_landing eg_resolved e = Inr (map_of eg_resolved (fst e))" by blast
  moreover have "eg_entries ! 1 \<in> set eg_entries" "fst (eg_entries ! 1) = ''s.a''" by (simp_all add: eg_entries_def)
  ultimately show ?thesis by metis
qed

text \<open>C12: An estate in which every product a product reads is declared or supplied, and in which no products that
  are not supplied read one another in a circle, is never given up: if the registry fails, the failure is one
  product's own.\<close>

theorem ordered_estates_resolve:
  assumes "resolve_relation_registry vault landing entries = Inl fault"
    and "\<forall>e \<in> set entries. \<forall>n \<in> needs_of e. n \<in> fst ` set entries \<or> n \<in> fst ` set landing"
    and "acyclic {(n, fst e) | n e. e \<in> set entries \<and> n \<in> needs_of e \<and> n \<in> fst ` set entries - fst ` set landing}"
  shows "\<exists>found. \<exists>e \<in> set entries. resolve_product vault landing found e = Inl fault"
proof -
  have given: "given_of landing n = None \<longleftrightarrow> n \<notin> fst ` set landing" for n
    by (simp add: given_of_def map_of_eq_None_iff)
  have run: "resolve_passes (resolve_product vault landing) (sort_key fst entries) [] = Inl fault"
    using assms(1) by (simp add: resolve_relation_registry_def)
  have "\<exists>found. \<exists>e \<in> set (sort_key fst entries). resolve_product vault landing found e = Inl fault"
    by (rule estate.run_never_given_up [OF run]) (use assms(2,3) in \<open>simp_all add: given\<close>)
  then show ?thesis by simp
qed

text \<open>A product of two sources that says nothing of how they combine, and one that reads it.\<close>

definition eg_undeclared :: compositions where
  "eg_undeclared =
     [(''s.b'', eg_doc [eg_upstream ''s.a@1'' []] [] None, eg_valid ''b'' ''d''),
      (''s.a'', eg_doc [eg_upstream ''s.r@1'' [], eg_upstream ''s.q@1'' []] [] None, eg_valid ''a'' ''d'')]"

definition eg_pair :: schemas where
  "eg_pair = [(''s.r'', plain_schema ''s.r'' [plain_field ''k'' eg_type]), (''s.q'', plain_schema ''s.q'' [plain_field ''k'' eg_type])]"

theorem ordered_estates_resolve_witness:
  "\<exists>found e. e \<in> set eg_undeclared \<and> resolve_product eg_vault eg_pair found e = Inl (Undeclared_composition ''s.a'' 2)"
proof -
  have failed: "resolve_relation_registry eg_vault eg_pair eg_undeclared = Inl (Undeclared_composition ''s.a'' 2)" by code_simp
  have needs: "\<forall>e \<in> set eg_undeclared. \<forall>n \<in> needs_of e. n \<in> fst ` set eg_undeclared \<or> n \<in> fst ` set eg_pair" by code_simp
  let ?R = "{(n, fst e) | n e. e \<in> set eg_undeclared \<and> n \<in> needs_of e \<and> n \<in> fst ` set eg_undeclared - fst ` set eg_pair}"
  have own: "fst ` set eg_undeclared - fst ` set eg_pair = {''s.a'', ''s.b''}" by code_simp
  have reads: "needs_of (eg_undeclared ! 0) = {''s.a''}" "needs_of (eg_undeclared ! 1) = {''s.r'', ''s.q''}" by code_simp+
  have both: "set eg_undeclared = {eg_undeclared ! 0, eg_undeclared ! 1}" "fst (eg_undeclared ! 0) = ''s.b''"
    by (simp_all add: eg_undeclared_def)
  have "?R \<subseteq> {(''s.a'', ''s.b'')}"
  proof
    fix p
    assume "p \<in> ?R"
    then obtain n e where p: "p = (n, fst e)" "e \<in> set eg_undeclared" "n \<in> needs_of e" "n \<in> {''s.a'', ''s.b''}"
      unfolding own by blast
    from p(2) both(1) consider "e = eg_undeclared ! 0" | "e = eg_undeclared ! 1" by blast
    then show "p \<in> {(''s.a'', ''s.b'')}" using p(1,3,4) reads both(2) by cases auto
  qed
  moreover have "acyclic {(''s.a'', ''s.b'')}" by (simp add: acyclic_insert) (simp add: acyclic_def)
  ultimately have "acyclic ?R" by (meson acyclic_subset)
  from ordered_estates_resolve [OF failed needs this] show ?thesis by blast
qed

text \<open>C31: When the registry fails, either one product's resolution failed that way, or it names products none of
  which could be resolved: each of them reads another of them, or a product nothing declares or supplies.\<close>

theorem registry_fails_closed:
  assumes "resolve_relation_registry vault landing entries = Inl fault"
  shows "(\<exists>found. \<exists>e \<in> set entries. resolve_product vault landing found e = Inl fault) \<or>
    (\<exists>names. fault = Unresolved_products names \<and> names \<noteq> [] \<and>
      (\<forall>m \<in> set names. \<exists>e \<in> set entries. fst e = m \<and>
        (\<exists>n \<in> needs_of e. n \<in> set names \<or> n \<notin> fst ` set entries \<union> fst ` set landing)))"
proof -
  have given: "given_of landing n = None \<longleftrightarrow> n \<notin> fst ` set landing" for n
    by (simp add: given_of_def map_of_eq_None_iff)
  have "resolve_passes (resolve_product vault landing) (sort_key fst entries) [] = Inl fault"
    using assms by (simp add: resolve_relation_registry_def)
  from estate.run_faults [OF this] show ?thesis by (simp add: given)
qed

text \<open>Two products that read each other.\<close>

definition eg_circle :: compositions where
  "eg_circle =
     [(''s.a'', eg_doc [eg_upstream ''s.b@1'' []] [] None, eg_valid ''a'' ''d''),
      (''s.b'', eg_doc [eg_upstream ''s.a@1'' []] [] None, eg_valid ''b'' ''d'')]"

theorem registry_fails_closed_witness:
  "(\<exists>found e. e \<in> set eg_circle \<and> resolve_product eg_vault [] found e = Inl (Unresolved_products [''s.a'', ''s.b''])) \<or>
   (\<exists>e n. e \<in> set eg_circle \<and> fst e = ''s.a'' \<and> n \<in> needs_of e \<and> n \<in> {''s.a'', ''s.b''})"
proof -
  have failed: "resolve_relation_registry eg_vault [] eg_circle = Inl (Unresolved_products [''s.a'', ''s.b''])" by code_simp
  have names: "fst ` set eg_circle = {''s.a'', ''s.b''}" by code_simp
  from registry_fails_closed [OF failed] show ?thesis
  proof
    assume "\<exists>found. \<exists>e \<in> set eg_circle. resolve_product eg_vault [] found e = Inl (Unresolved_products [''s.a'', ''s.b''])"
    then show ?thesis by blast
  next
    assume "\<exists>names. Unresolved_products [''s.a'', ''s.b''] = Unresolved_products names \<and> names \<noteq> [] \<and>
      (\<forall>m \<in> set names. \<exists>e \<in> set eg_circle. fst e = m \<and>
        (\<exists>n \<in> needs_of e. n \<in> set names \<or> n \<notin> fst ` set eg_circle \<union> fst ` set ([] :: schemas)))"
    then obtain stuck where "Unresolved_products [''s.a'', ''s.b''] = Unresolved_products stuck"
      and "\<forall>m \<in> set stuck. \<exists>e \<in> set eg_circle. fst e = m \<and>
        (\<exists>n \<in> needs_of e. n \<in> set stuck \<or> n \<notin> fst ` set eg_circle \<union> fst ` set ([] :: schemas))" by blast
    then obtain e n where e: "e \<in> set eg_circle" "fst e = ''s.a''" and n: "n \<in> needs_of e" by auto
    have "\<forall>e \<in> set eg_circle. \<forall>n \<in> needs_of e. n \<in> set [''s.a'', ''s.b'']" by code_simp
    with e n have "n \<in> set [''s.a'', ''s.b'']" by blast
    with e n show ?thesis by (intro disjI2 exI [of _ e] exI [of _ n]) simp
  qed
qed



section \<open>One product\<close>

text \<open>The columns a product's composition leaves have distinct names, and each has a type that one of its
  source schemas or its own declaration states, whatever steps the composition takes, provided a merge names
  each of its keys once.\<close>

theorem published_columns_are_declared:
  assumes "derive_relation_fields consumer doc schemas = Inr cols" and "keys_once doc"
  shows "distinct (field_names cols) \<and> rf_type ` set cols \<subseteq> schema_types schemas \<union> declared_types doc"
  using published_typed [OF assms] by (simp add: typed_in_def)

definition eg_merge :: "string list \<Rightarrow> string \<Rightarrow> composition_document" where
  "eg_merge keys join = eg_doc [eg_upstream ''a@1'' [], eg_upstream ''b@1'' [(''v'', ''w'', eg_type)]]
     [Validate_step [\<lparr>rq_field = Some ''w'', rq_not_null = True, rq_complete = False\<rparr>]]
     (Some \<lparr>cb_method = Some ''merge'', cb_keys = keys, cb_join = Some join\<rparr>)"

definition eg_schemas :: schemas where
  "eg_schemas = [(''a'', plain_schema ''a'' [plain_field ''k'' eg_type, typed_field ''v'' (Decimal_object 1 0) True]),
     (''b'', plain_schema ''b'' [plain_field ''v'' (Decimal_object 2 0), plain_field ''k'' eg_type])]"

definition eg_columns :: "relation_field list" where
  "eg_columns = [plain_field ''k'' eg_type, plain_field ''v'' (Decimal_object 1 0), typed_field ''w'' eg_type True]"

theorem published_columns_are_declared_witness:
  "distinct (field_names eg_columns) \<and> rf_type ` set eg_columns \<subseteq> schema_types eg_schemas \<union> declared_types (eg_merge [''k''] ''outer'')"
proof -
  have "derive_relation_fields ''c'' (eg_merge [''k''] ''outer'') eg_schemas = Inr eg_columns"
    "keys_once (eg_merge [''k''] ''outer'')" by code_simp+
  then show ?thesis by (rule published_columns_are_declared)
qed

text \<open>Without that, a key named twice is published twice, when no step follows that makes a dictionary of it.\<close>

lemma repeated_merge_key_is_published_twice:
  "map_sum id field_names (derive_relation_fields ''c'' ((eg_merge [''k'', ''k''] ''inner'')\<lparr>cd_steps := []\<rparr>) eg_schemas) =
    Inr [''k'', ''k'', ''v'', ''w'']"
  by code_simp

text \<open>C14: In a union every source contributes its columns by position: after the sources are conformed and
  aligned, each has exactly the columns the union publishes, in that order, and each column has the type of
  its place, either cast to it or carried with it.\<close>

theorem union_stacks_matching_columns:
  assumes "resolve_opening_composition consumer doc schemas = Inr op" and "op_method op = Some ''union''"
    and "s \<in> set (op_sources op)"
  shows "map cl_name (sc_columns s) = field_names (op_fields op) \<and>
    (\<exists>schema. map_of schemas (sc_key s) = Some schema \<and>
       map (column_type schema) (sc_columns s) = map (Some \<circ> rf_type) (op_fields op))"
  using assms(1)
proof (cases rule: opening_cases)
  case (2 reads)
  from assms(3) 2(5) obtain r where r: "r \<in> set reads" "s = align_columns (op_fields op) (snd r)" by auto
  from r(1) obtain source where "source \<in> set (cd_sources doc)" "read_source consumer schemas source = Inr r"
    by (rule reads_member [OF 2(1)])
  moreover obtain contract cols sc where "r = ((contract, cols), sc)" by (cases r) auto
  ultimately have read: "read_source consumer schemas source = Inr ((contract, cols), sc)" and pair: "(contract, cols) \<in> set (map fst reads)"
    and s: "s = align_columns (op_fields op) sc" using r by force+
  from read [unfolded read_source_Inr] obtain schema columns
    where found: "map_of schemas (source_relation_key (us_contract source) (us_relation source)) = Some schema"
      and conform: "conform_source consumer (us_contract source) (us_conform source) schema = Inr (cols, columns)"
      and made: "sc = \<lparr>sc_key = source_relation_key (us_contract source) (us_relation source),
        sc_contract = us_contract source, sc_columns = columns\<rparr>" by blast
  then have schema: "map_of schemas (sc_key sc) = Some schema" and sc: "sc_columns sc = columns" by simp_all
  have distinct: "\<forall>(contract, cols) \<in> set (map fst reads). distinct (field_names cols)"
  proof clarify
    fix contract cols
    assume "(contract, cols) \<in> set (map fst reads)"
    then obtain sc where "((contract, cols), sc) \<in> set reads" by force
    then obtain source where "read_source consumer schemas source = Inr ((contract, cols), sc)"
      using reads_member [OF 2(1)] by blast
    then show "distinct (field_names cols)" by (auto simp: read_source_Inr conform_source_Inr)
  qed
  have nonempty: "map fst reads \<noteq> []" using 2(2) by auto
  from 2(4) union_fields_Inr [OF distinct nonempty] have first: "op_fields op = snd (hd (map fst reads))"
    and same: "\<forall>(contract, other) \<in> set (map fst reads). same_columns (op_fields op) other" by auto
  have "hd (map fst reads) \<in> set (map fst reads)" using nonempty by (rule hd_in_set)
  with distinct first have "distinct (field_names (op_fields op))" by (metis case_prodD prod.collapse)
  moreover have "same_columns (op_fields op) cols" using same pair by blast
  ultimately have "map cl_name (sc_columns s) = field_names (op_fields op)"
    "map (column_type schema) (sc_columns s) = map (Some \<circ> rf_type) (op_fields op)"
    using aligned_columns [OF conform, of "op_fields op" "sc_columns s"] by (simp_all add: s align_columns_def sc)
  with schema show ?thesis by (simp add: s align_columns_def)
qed (use assms(2) in simp_all)

definition eg_union :: composition_document where
  "eg_union = eg_doc [eg_upstream ''a@1'' [], eg_upstream ''b@1'' [(''v'', ''v'', Decimal_object 1 0)]] []
     (Some \<lparr>cb_method = Some ''union'', cb_keys = [], cb_join = None\<rparr>)"

definition eg_opening :: opening_composition where
  "eg_opening = (case resolve_opening_composition ''c'' eg_union eg_schemas of Inr op \<Rightarrow> op
     | Inl e \<Rightarrow> \<lparr>op_method = None, op_keys = [], op_fields = [], op_sources = [], op_join = None\<rparr>)"

theorem union_stacks_matching_columns_witness:
  "map cl_name (sc_columns (op_sources eg_opening ! 1)) = field_names (op_fields eg_opening)"
proof -
  have "resolve_opening_composition ''c'' eg_union eg_schemas = Inr eg_opening" "op_method eg_opening = Some ''union''"
    "length (op_sources eg_opening) = 2" by code_simp+
  then have opened: "resolve_opening_composition ''c'' eg_union eg_schemas = Inr eg_opening" "op_method eg_opening = Some ''union''"
    "op_sources eg_opening ! 1 \<in> set (op_sources eg_opening)" by simp_all
  from union_stacks_matching_columns [OF opened] show ?thesis by blast
qed

text \<open>C18: A merge is accepted exactly when every source has every key, with one type, and no other name comes from
  two sources or twice from one; it then publishes the keys, as the first source has them, and every other
  column in the order of the sources, all of them optional in an outer merge.\<close>

theorem merge_accepted_iff:
  assumes "conformed \<noteq> []"
  shows "merged_fields consumer keys join conformed = Inr cols \<longleftrightarrow>
    carries_keys keys conformed \<and> distinct (field_names (beside_keys keys conformed)) \<and>
    cols = map (\<lambda>key. the (field_of (snd (hd conformed)) key)) keys
      @ map (relaxed (join = ''outer'')) (beside_keys keys conformed)"
  using assms by (rule merged_fields_Inr)

definition eg_sources :: "(string \<times> relation_field list) list" where
  "eg_sources = [(''a'', [plain_field ''k'' eg_type, typed_field ''v'' eg_type True]), (''b'', [plain_field ''k'' eg_type])]"

theorem merge_accepted_iff_witness:
  "carries_keys [''k''] eg_sources \<and> distinct (field_names (beside_keys [''k''] eg_sources))"
proof -
  have "merged_fields ''c'' [''k''] ''outer'' eg_sources = Inr [plain_field ''k'' eg_type, plain_field ''v'' eg_type]"
    by code_simp
  moreover have "eg_sources \<noteq> []" by (simp add: eg_sources_def)
  ultimately show ?thesis using merge_accepted_iff [of eg_sources] by blast
qed

section \<open>Shapes\<close>

text \<open>A shape publishes exactly the relations it declares: the names its rendering gives its relations, from
  the columns of a composition, are those the product graph reads off the same section, in the same order.\<close>

theorem shapes_render_what_they_name:
  assumes "shape_relations_for vault doc v cols = Inr relations" and "modelled_shape (vp_shape v)"
  shows "shape_relation_names (vp_shape v) (vp_domain v) (vp_name v) (section_names (vp_shape v) (cd_shape_config doc)) =
    Inr (map (\<lambda>r. rs_name (sr_schema r)) relations)"
  using assms by (rule shape_rendered(1))

text \<open>An entity with a key, an attribute and its bookkeeping columns.\<close>

definition eg_entity :: ods_entity where
  "eg_entity = \<lparr>oe_name = ''e'', oe_key = [''k''], oe_attributes = [''v''], oe_change = ''c'', oe_source_system = ''s'',
     oe_source_key = ''i'', oe_operation = ''o''\<rparr>"

definition eg_ods :: composition_document where
  "eg_ods = (eg_doc [] [] None)\<lparr>cd_shape_config := (cd_shape_config (eg_doc [] [] None))\<lparr>ss_ods := [eg_entity]\<rparr>\<rparr>"

definition eg_ods_columns :: "relation_field list" where
  "eg_ods_columns = map (\<lambda>n. plain_field n eg_type) [''k'', ''v'', ''c'', ''s'', ''i'', ''o'']"

definition eg_ods_valid :: validated_product where
  "eg_ods_valid = (eg_valid ''p'' ''d'')\<lparr>vp_shape := ''ods''\<rparr>"

definition eg_ods_relations :: "shape_relation list" where
  "eg_ods_relations = (case shape_relations_for eg_vault eg_ods eg_ods_valid eg_ods_columns of Inr rs \<Rightarrow> rs | Inl e \<Rightarrow> [])"

lemma eg_ods_renders: "shape_relations_for eg_vault eg_ods eg_ods_valid eg_ods_columns = Inr eg_ods_relations"
  by code_simp

theorem shapes_render_what_they_name_witness:
  "shape_relation_names ''ods'' ''s'' ''p'' (section_names ''ods'' (cd_shape_config eg_ods)) =
    Inr (map (\<lambda>r. rs_name (sr_schema r)) eg_ods_relations)"
proof -
  have "modelled_shape (vp_shape eg_ods_valid)" by code_simp
  from shapes_render_what_they_name [OF eg_ods_renders this] show ?thesis by (simp add: eg_ods_valid_def eg_valid_def)
qed



section \<open>A relation that changes\<close>

lemma compatible_iff:
  "check_consumer_compatibility consumer producer prior candidate = Inr () \<longleftrightarrow>
     rs_name prior = rs_name candidate \<and> serves prior candidate"
proof -
  obtain change names where "classify_relation_change prior candidate = (change, names)" by fastforce
  with set_offending(2) [of prior candidate] show ?thesis
    by (cases change) (auto simp: check_consumer_compatibility_def offending_serves [symmetric])
qed

lemma refusal_names_a_column:
  assumes "check_consumer_compatibility consumer producer prior candidate = Inl e" and "rs_name prior = rs_name candidate"
  shows "ic_field e \<in> offending prior candidate"
proof -
  obtain change names where c: "classify_relation_change prior candidate = (change, names)" by fastforce
  with assms have major: "change = Major_change" and e: "ic_field e = hd names"
    by (auto simp: check_consumer_compatibility_def split: relation_change.splits)
  note facts = set_offending [of prior candidate, unfolded c fst_conv snd_conv]
  with major have "names \<noteq> []" by auto
  then show ?thesis using facts(1) hd_in_set e by fastforce
qed

text \<open>C22: A consumer accepts a candidate schema exactly when it is the same relation and serves every use of the
  prior one: each column still there with its type, none newly required, no required one added. A refusal
  names a column that breaks one of these, or the relation when its name changed.\<close>

theorem compatibility_is_exact:
  "case check_consumer_compatibility consumer producer prior candidate of
     Inr u \<Rightarrow> rs_name prior = rs_name candidate \<and> serves prior candidate
   | Inl e \<Rightarrow> (if rs_name prior = rs_name candidate
       then \<not> serves prior candidate \<and> ic_field e \<in> offending prior candidate
       else ic_field e = rs_name candidate)"
proof (cases "check_consumer_compatibility consumer producer prior candidate")
  case (Inl e)
  then show ?thesis
    using compatible_iff [of consumer producer prior candidate] refusal_names_a_column [OF Inl]
    by (auto simp: check_consumer_compatibility_def)
next
  case (Inr u)
  then show ?thesis using compatible_iff [of consumer producer prior candidate] by simp
qed

text \<open>Releases that each pass the consumer check against the one before pass it against the first: a consumer
  that pinned the first release can skip any number of them.\<close>

theorem skipped_releases_stay_compatible:
  assumes "successively (\<lambda>p c. check_consumer_compatibility consumer producer p c = Inr ()) releases"
    and "releases \<noteq> []"
  shows "check_consumer_compatibility consumer producer (hd releases) (last releases) = Inr ()"
  using assms
proof (induction releases rule: induct_list012)
  case (2 s)
  then show ?case by (simp add: compatible_iff serves_refl)
next
  case (3 a b rest)
  then have "check_consumer_compatibility consumer producer a b = Inr ()"
    "check_consumer_compatibility consumer producer b (last (b # rest)) = Inr ()" by simp_all
  then show ?case by (auto simp: compatible_iff intro: serves_trans)
qed simp

definition eg_releases :: "relation_schema list" where
  "eg_releases = [plain_schema ''r'' [typed_field ''k'' eg_type True], plain_schema ''r'' [typed_field ''k'' eg_type False],
     plain_schema ''r'' [plain_field ''k'' eg_type, plain_field ''v'' eg_type]]"

theorem skipped_releases_stay_compatible_witness:
  "check_consumer_compatibility ''c'' ''p'' (hd eg_releases) (last eg_releases) = Inr ()"
proof -
  have "successively (\<lambda>p c. check_consumer_compatibility ''c'' ''p'' p c = Inr ()) eg_releases" "eg_releases \<noteq> []"
    by code_simp+
  then show ?thesis by (rule skipped_releases_stay_compatible)
qed

section \<open>The graph and the contracts\<close>





section \<open>What the pipe leaves open\<close>

text \<open>
  A landing product that renders an entity of its supplied columns. A consumer whose name comes before it reads
  the supplied columns, one whose name comes after reads the entity, though both declare the same read.
\<close>

definition eg_reshaped :: compositions where
  "eg_reshaped =
     [(''s.a'', eg_doc [eg_upstream ''s.m@1'' []] [] None, eg_valid ''a'' ''d''),
      (''s.m'', (eg_doc [] [] None)\<lparr>cd_shape_config := (cd_shape_config (eg_doc [] [] None))
         \<lparr>ss_canonical := [\<lparr>ce_name = ''e'', ce_key = [''k''], ce_columns = [''k''], ce_reference = []\<rparr>]\<rparr>\<rparr>,
       (eg_valid ''m'' ''landing'')\<lparr>vp_shape := ''canonical''\<rparr>),
      (''s.z'', eg_doc [eg_upstream ''s.m@1'' []] [] None, eg_valid ''z'' ''d'')]"

definition column_names :: "shape_relation list \<Rightarrow> string list list" where
  "column_names relations = map (\<lambda>r. field_names (rs_fields (sr_schema r))) relations"

lemma landing_read_depends_on_its_consumers_name:
  "map_sum id (map (\<lambda>(n, rs). (n, column_names rs)))
     (resolve_relation_registry eg_vault [(''s.m'', plain_schema ''s.m'' [plain_field ''k'' eg_type, plain_field ''v'' eg_type])]
       eg_reshaped) =
   Inr [(''s.a'', [[''k'', ''v'']]), (''s.m'', [[''k'']]), (''s.z'', [[''k'']])]"
  by code_simp

text \<open>A canonical entity that lists a column twice publishes it twice.\<close>

lemma canonical_entity_repeats_a_column:
  "map_sum id column_names (canonical_relations ''s'' ''p''
     ((cd_shape_config (eg_doc [] [] None))\<lparr>ss_canonical :=
       [\<lparr>ce_name = ''e'', ce_key = [''k''], ce_columns = [''k'', ''k''], ce_reference = []\<rparr>]\<rparr>)
     [plain_field ''k'' eg_type]) = Inr [[''k'', ''k'']]"
  by code_simp

text \<open>A change column of a decimal type is not refused by the shape: looking it up among the instants raises.\<close>

lemma decimal_change_column_raises:
  "instant_field product shape occurrence [plain_field ''c'' (Decimal_object p s)] ''c'' = Inl (Unhashable_type (Decimal_object p s))"
  by (simp add: instant_field_def column_field_def)

end
