(* ===== verification/Execution_Plans.thy ===== *)
theory Execution_Plans
  imports Prelude
begin

text \<open>
  The patterns of the framework, the profiles that constrain a composition of them, and the execution
  graph a profile resolves to: \<open>ergasterion/framework/models.py\<close>, \<open>patterns.py\<close> and
  \<open>resolver.py\<close>.
\<close>

section \<open>Patterns\<close>

datatype pattern_id =
    P_batch_ingestion | P_data_validation | P_data_contracts | P_lineage_capture | P_metadata_capture
  | P_schema_publish | P_data_publish | P_checkpoint_retries | P_batch_transfer | P_schema_transform
  | P_calculated_fields | P_data_enrichment | P_data_filtering | P_data_aggregation | P_data_curation

definition all_patterns :: "pattern_id list" where
  "all_patterns =
     [P_batch_ingestion, P_data_validation, P_data_contracts, P_lineage_capture, P_metadata_capture,
      P_schema_publish, P_data_publish, P_checkpoint_retries, P_batch_transfer, P_schema_transform,
      P_calculated_fields, P_data_enrichment, P_data_filtering, P_data_aggregation, P_data_curation]"

fun pattern_value :: "pattern_id \<Rightarrow> string" where
  "pattern_value P_batch_ingestion = ''batch_ingestion''"
| "pattern_value P_data_validation = ''data_validation''"
| "pattern_value P_data_contracts = ''data_contracts''"
| "pattern_value P_lineage_capture = ''lineage_capture''"
| "pattern_value P_metadata_capture = ''metadata_capture''"
| "pattern_value P_schema_publish = ''schema_publish''"
| "pattern_value P_data_publish = ''data_publish''"
| "pattern_value P_checkpoint_retries = ''checkpoint_retries''"
| "pattern_value P_batch_transfer = ''batch_transfer''"
| "pattern_value P_schema_transform = ''schema_transform''"
| "pattern_value P_calculated_fields = ''calculated_fields''"
| "pattern_value P_data_enrichment = ''data_enrichment''"
| "pattern_value P_data_filtering = ''data_filtering''"
| "pattern_value P_data_aggregation = ''data_aggregation''"
| "pattern_value P_data_curation = ''data_curation''"

text \<open>\<open>PatternId(token)\<close>, which raises for a token outside the closed set.\<close>

definition pattern_of_token :: "string \<Rightarrow> pattern_id option" where
  "pattern_of_token t = find (\<lambda>p. pattern_value p = t) all_patterns"

section \<open>Profiles\<close>

datatype disposition_class = Is_mandatory | Is_optional | Is_forbidden

record profile =
  pf_name :: string
  pf_mandatory :: "pattern_id list"
  pf_optional :: "pattern_id list"
  pf_forbidden :: "pattern_id list"
  pf_ordering :: "pattern_id list"

definition disposition_of :: "profile \<Rightarrow> pattern_id \<Rightarrow> disposition_class option" where
  "disposition_of f p =
     (if p \<in> set (pf_mandatory f) then Some Is_mandatory
      else if p \<in> set (pf_optional f) then Some Is_optional
      else if p \<in> set (pf_forbidden f) then Some Is_forbidden
      else None)"

text \<open>A profile document as it is read: each key may be absent, and lists tokens when it is there.\<close>

record profile_document =
  pd_schema :: "string option"
  pd_name :: "string option"
  pd_mandatory :: "string list option"
  pd_optional :: "string list option"
  pd_forbidden :: "string list option"
  pd_ordering :: "string list"

datatype profile_fault =
    Wrong_schema "string option"
  | Other_name string
  | Missing_key string
  | Unknown_token string string
  | Sets_overlap
  | Ordering_unknown string
  | Ordering_unclassified string
  | Ordering_repeats
  | Ordering_incomplete
  | Unknown_profile_name string

text \<open>The set of patterns a key names; a set is the list of its members in the order they are first named.\<close>

definition pattern_set :: "string \<Rightarrow> string list option \<Rightarrow> profile_fault + pattern_id list" where
  "pattern_set key tokens =
     (case tokens of
        None \<Rightarrow> Inl (Missing_key key)
      | Some ts \<Rightarrow> fold_result (\<lambda>t found.
          case pattern_of_token t of
            None \<Rightarrow> Inl (Unknown_token key t)
          | Some p \<Rightarrow> Inr (if p \<in> set found then found else found @ [p])) ts [])"

definition order_token :: "pattern_id set \<Rightarrow> string \<Rightarrow> pattern_id list \<Rightarrow> profile_fault + pattern_id list" where
  "order_token composed t placed =
     (case pattern_of_token t of
        None \<Rightarrow> Inl (Ordering_unknown t)
      | Some p \<Rightarrow> if p \<in> composed then Inr (placed @ [p]) else Inl (Ordering_unclassified (pattern_value p)))"

definition parse_profile_document :: "string \<Rightarrow> profile_document \<Rightarrow> profile_fault + profile" where
  "parse_profile_document name doc =
     (if pd_schema doc \<noteq> Some ''ergasterion.profile/v1'' then Inl (Wrong_schema (pd_schema doc))
      else if pd_name doc \<noteq> None \<and> pd_name doc \<noteq> Some name then Inl (Other_name (the (pd_name doc)))
      else
        bind (pattern_set ''mandatory'' (pd_mandatory doc)) (\<lambda>mandatory.
        bind (pattern_set ''optional'' (pd_optional doc)) (\<lambda>optional.
        bind (pattern_set ''forbidden'' (pd_forbidden doc)) (\<lambda>forbidden.
        if length mandatory + length optional + length forbidden \<noteq> card (set mandatory \<union> set optional \<union> set forbidden)
        then Inl Sets_overlap
        else
          let composed = set mandatory \<union> set optional in
          bind (fold_result (order_token composed) (pd_ordering doc) []) (\<lambda>placed.
          if \<not> distinct placed then Inl Ordering_repeats
          else if set placed \<noteq> composed then Inl Ordering_incomplete
          else Inr \<lparr>pf_name = name, pf_mandatory = mandatory, pf_optional = optional, pf_forbidden = forbidden,
            pf_ordering = placed\<rparr>)))))"

definition profile_names :: "string list" where
  "profile_names = [''landing'', ''integration'', ''derivation'', ''consolidation'', ''serving'']"

text \<open>The five documents under \<open>ergasterion/profiles\<close>.\<close>

definition reference_document :: "string \<Rightarrow> string list \<Rightarrow> string list \<Rightarrow> string list \<Rightarrow> string list \<Rightarrow> profile_document" where
  "reference_document name mandatory optional forbidden placed =
     \<lparr>pd_schema = Some ''ergasterion.profile/v1'', pd_name = Some name, pd_mandatory = Some mandatory,
      pd_optional = Some optional, pd_forbidden = Some forbidden, pd_ordering = placed\<rparr>"

definition landing_document :: profile_document where
  "landing_document = reference_document ''landing''
     [''batch_ingestion'', ''data_validation'', ''data_contracts'', ''lineage_capture'',
      ''metadata_capture'', ''schema_publish'', ''data_publish'', ''checkpoint_retries'']
     [''batch_transfer'', ''data_filtering'']
     [''schema_transform'', ''calculated_fields'', ''data_enrichment'', ''data_aggregation'',
      ''data_curation'']
     [''batch_ingestion'', ''batch_transfer'', ''data_validation'', ''data_filtering'',
      ''data_contracts'', ''lineage_capture'', ''metadata_capture'', ''schema_publish'',
      ''data_publish'', ''checkpoint_retries'']"

definition integration_document :: profile_document where
  "integration_document = reference_document ''integration''
     [''batch_transfer'', ''data_validation'', ''schema_transform'', ''data_curation'',
      ''data_contracts'', ''lineage_capture'', ''metadata_capture'', ''schema_publish'',
      ''data_publish'', ''checkpoint_retries'']
     [''calculated_fields'', ''data_enrichment'', ''data_filtering'', ''data_aggregation'']
     [''batch_ingestion'']
     [''batch_transfer'', ''data_validation'', ''schema_transform'', ''calculated_fields'',
      ''data_enrichment'', ''data_filtering'', ''data_aggregation'', ''data_curation'',
      ''data_contracts'', ''lineage_capture'', ''metadata_capture'', ''schema_publish'',
      ''data_publish'', ''checkpoint_retries'']"

definition derivation_document :: profile_document where
  "derivation_document = reference_document ''derivation''
     [''batch_transfer'', ''data_validation'', ''calculated_fields'', ''data_contracts'',
      ''lineage_capture'', ''metadata_capture'', ''schema_publish'', ''data_publish'',
      ''checkpoint_retries'']
     [''data_enrichment'', ''data_aggregation'', ''data_filtering'']
     [''batch_ingestion'', ''data_curation'']
     [''batch_transfer'', ''data_validation'', ''calculated_fields'', ''data_enrichment'',
      ''data_filtering'', ''data_aggregation'', ''data_contracts'', ''lineage_capture'',
      ''metadata_capture'', ''schema_publish'', ''data_publish'', ''checkpoint_retries'']"

definition consolidation_document :: profile_document where
  "consolidation_document = reference_document ''consolidation''
     [''batch_transfer'', ''data_validation'', ''data_contracts'', ''lineage_capture'',
      ''metadata_capture'', ''schema_publish'', ''data_publish'', ''checkpoint_retries'']
     [''calculated_fields'', ''data_enrichment'', ''data_aggregation'', ''data_curation'']
     [''batch_ingestion'']
     [''batch_transfer'', ''data_validation'', ''calculated_fields'', ''data_enrichment'',
      ''data_aggregation'', ''data_curation'', ''data_contracts'', ''lineage_capture'',
      ''metadata_capture'', ''schema_publish'', ''data_publish'', ''checkpoint_retries'']"

definition serving_document :: profile_document where
  "serving_document = reference_document ''serving''
     [''batch_transfer'', ''data_validation'', ''data_contracts'', ''lineage_capture'',
      ''metadata_capture'', ''data_publish'', ''checkpoint_retries'']
     [''calculated_fields'', ''data_filtering'', ''data_aggregation'', ''data_curation'',
      ''schema_publish'']
     [''batch_ingestion'']
     [''batch_transfer'', ''data_validation'', ''calculated_fields'', ''data_filtering'',
      ''data_aggregation'', ''data_curation'', ''data_contracts'', ''lineage_capture'',
      ''metadata_capture'', ''schema_publish'', ''data_publish'', ''checkpoint_retries'']"

definition load_profile :: "string \<Rightarrow> profile_fault + profile" where
  "load_profile name =
     (case map_of [(''landing'', landing_document), (''integration'', integration_document),
         (''derivation'', derivation_document), (''consolidation'', consolidation_document),
         (''serving'', serving_document)] name of
        None \<Rightarrow> Inl (Unknown_profile_name name)
      | Some doc \<Rightarrow> parse_profile_document name doc)"

section \<open>Execution plans\<close>

datatype role = Phase_role | Wrapper_role | Policy_role | Observer_role | Barrier_role

fun role_index :: "role \<Rightarrow> nat" where
  "role_index Phase_role = 0"
| "role_index Wrapper_role = 1"
| "role_index Policy_role = 2"
| "role_index Observer_role = 3"
| "role_index Barrier_role = 4"

datatype edge_role = Data_edge | Validation_edge | Readiness_edge | Barrier_edge | Observe_edge

datatype handoff_schema =
    Raw_evidence_handoff | Validation_result_handoff | Contract_conformance_handoff
  | Interface_readiness_handoff | Publication_confirmation_handoff

record plan_occurrence =
  po_id :: string
  po_pattern :: pattern_id
  po_roles :: "role list"
  po_owner_required :: bool

record plan_edge =
  pg_source :: string
  pg_target :: string
  pg_role :: edge_role
  pg_handoff :: handoff_schema

record execution_plan =
  xp_profile :: string
  xp_occurrences :: "plan_occurrence list"
  xp_edges :: "plan_edge list"
  xp_wrapper :: string
  xp_members :: "string list"

datatype plan_fault =
    Duplicate_roles string
  | Unsorted_roles string
  | Empty_roles string
  | Duplicate_occurrences
  | Unsorted_occurrences
  | Undeclared_wrapper string
  | Unsorted_members
  | Wrapper_is_member
  | Members_differ
  | Undeclared_occurrence string string
  | Unknown_profile string
  | Unsupported_profile string

text \<open>The checks an \<open>Occurrence\<close> and an \<open>ExecutionPlan\<close> make when they are built.\<close>

definition check_occurrence :: "plan_occurrence \<Rightarrow> plan_fault + unit" where
  "check_occurrence o' =
     (if \<not> distinct (po_roles o') then Inl (Duplicate_roles (po_id o'))
      else if sort_key role_index (po_roles o') \<noteq> po_roles o' then Inl (Unsorted_roles (po_id o'))
      else if po_roles o' = [] then Inl (Empty_roles (po_id o'))
      else Inr ())"

definition plan_ids :: "execution_plan \<Rightarrow> string list" where
  "plan_ids p = map po_id (xp_occurrences p)"

definition check_plan :: "execution_plan \<Rightarrow> plan_fault + unit" where
  "check_plan p =
     (let ids = plan_ids p; members = xp_members p in
      if \<not> distinct ids then Inl Duplicate_occurrences
      else if sort ids \<noteq> ids then Inl Unsorted_occurrences
      else if xp_wrapper p \<notin> set ids then Inl (Undeclared_wrapper (xp_wrapper p))
      else if \<not> distinct members \<or> sort members \<noteq> members then Inl Unsorted_members
      else if xp_wrapper p \<in> set members then Inl Wrapper_is_member
      else if members \<noteq> sort (filter (\<lambda>i. i \<noteq> xp_wrapper p) ids) then Inl Members_differ
      else case find (\<lambda>e. pg_source e \<notin> set ids \<or> pg_target e \<notin> set ids) (xp_edges p) of
        Some e \<Rightarrow> Inl (Undeclared_occurrence (pg_source e) (pg_target e))
      | None \<Rightarrow> Inr ())"

section \<open>The landing graph\<close>

definition landing_occurrences :: "plan_occurrence list" where
  "landing_occurrences = map (\<lambda>(i, p, rs). \<lparr>po_id = i, po_pattern = p, po_roles = rs, po_owner_required = True\<rparr>)
     [(''landing.checkpoint'', P_checkpoint_retries, [Wrapper_role, Policy_role]),
      (''landing.contract'', P_data_contracts, [Policy_role, Barrier_role]),
      (''landing.ingest'', P_batch_ingestion, [Phase_role]),
      (''landing.lineage'', P_lineage_capture, [Observer_role]),
      (''landing.metadata'', P_metadata_capture, [Observer_role]),
      (''landing.publish'', P_data_publish, [Barrier_role]),
      (''landing.schema'', P_schema_publish, [Observer_role, Barrier_role]),
      (''landing.validate'', P_data_validation, [Phase_role])]"

definition landing_edges :: "plan_edge list" where
  "landing_edges = map (\<lambda>(s, t, r, h). \<lparr>pg_source = s, pg_target = t, pg_role = r, pg_handoff = h\<rparr>)
     [(''landing.ingest'', ''landing.validate'', Data_edge, Raw_evidence_handoff),
      (''landing.validate'', ''landing.contract'', Validation_edge, Validation_result_handoff),
      (''landing.contract'', ''landing.schema'', Readiness_edge, Contract_conformance_handoff),
      (''landing.validate'', ''landing.publish'', Barrier_edge, Validation_result_handoff),
      (''landing.contract'', ''landing.publish'', Barrier_edge, Contract_conformance_handoff),
      (''landing.schema'', ''landing.publish'', Barrier_edge, Interface_readiness_handoff),
      (''landing.ingest'', ''landing.lineage'', Observe_edge, Raw_evidence_handoff),
      (''landing.validate'', ''landing.lineage'', Observe_edge, Validation_result_handoff),
      (''landing.publish'', ''landing.lineage'', Observe_edge, Publication_confirmation_handoff),
      (''landing.contract'', ''landing.metadata'', Observe_edge, Contract_conformance_handoff),
      (''landing.validate'', ''landing.metadata'', Observe_edge, Validation_result_handoff),
      (''landing.publish'', ''landing.metadata'', Observe_edge, Publication_confirmation_handoff)]"

definition landing_wrapper :: string where "landing_wrapper = ''landing.checkpoint''"

definition landing_members :: "string list" where
  "landing_members = sort (filter (\<lambda>i. i \<noteq> landing_wrapper) (map po_id landing_occurrences))"

definition resolve_landing :: "plan_fault + execution_plan" where
  "resolve_landing =
     bind (check_all check_occurrence landing_occurrences) (\<lambda>_.
     let plan = \<lparr>xp_profile = ''landing'', xp_occurrences = sort_key po_id landing_occurrences,
       xp_edges = landing_edges, xp_wrapper = landing_wrapper, xp_members = landing_members\<rparr> in
     bind (check_plan plan) (\<lambda>_. Inr plan))"

definition resolve_profile :: "string \<Rightarrow> plan_fault + execution_plan" where
  "resolve_profile name =
     (if name \<notin> set profile_names then Inl (Unknown_profile name)
      else if name = ''landing'' then resolve_landing
      else Inl (Unsupported_profile name))"

end
