(* ===== verification/Routing.thy ===== *)
theory Routing
  imports Execution_Plans
begin

text \<open>
  The translation router, \<open>ergasterion/framework/routing.py\<close>: who executes each occurrence of a plan,
  decided by what the translators claim or by the estate's translator table.
\<close>

section \<open>Translators\<close>

record capability =
  cp_token :: string
  cp_translator :: string
  cp_adapter :: string

text \<open>
  A translator by what the router asks of it. The frozen sets it answers with are lists in the order the
  router iterates over them; what it renders is of the type \<open>'r\<close>, and rendering may raise.
\<close>

record 'r translator =
  tr_target_name :: string
  tr_owned :: "string list"
  tr_observed :: "string list"
  tr_execution_order :: "string list"
  tr_plan_digest :: "string option"
  tr_accepts_handoff :: "plan_edge \<Rightarrow> bool"
  tr_capabilities :: "capability list"
  tr_translate :: "execution_plan \<Rightarrow> string + 'r"

datatype attachment_detail = Unknown_occurrences "string list" | Owned_and_observed "string list"

datatype order_detail = Not_a_permutation | Edge_reversed string string | Wrapper_after_member string

datatype routing_fault =
    Missing_execution_owner string
  | Duplicate_execution_owner string "string list"
  | Reordered_ownership string order_detail
  | Digest_mismatch string string string
  | Bad_handoff string plan_edge
  | Undeclared_attachment string attachment_detail
  | Duplicate_target_name string nat
  | Table_routing_argument
  | Missing_table_entry string string "string list"
  | Unregistered_table_translator string string string
  | Missing_capability string string string string
  | Foreign_capability string string
  | Translation_failed string

record route_assignment =
  ra_occurrence :: string
  ra_translator :: string
  ra_adapter :: "string option"

record 'r routing_result =
  rt_plan :: execution_plan
  rt_assignments :: "route_assignment list"
  rt_translations :: "(string \<times> 'r) list"

section \<open>Ownership\<close>

definition check_target_names_unique :: "'r translator list \<Rightarrow> routing_fault + unit" where
  "check_target_names_unique ts =
     (let names = map tr_target_name ts in
      case find (\<lambda>n. 1 < count_list names n) names of
        Some n \<Rightarrow> Inl (Duplicate_target_name n (count_list names n))
      | None \<Rightarrow> Inr ())"

definition touched :: "'r translator \<Rightarrow> string set" where
  "touched t = set (tr_owned t) \<union> set (tr_observed t)"

definition check_attachment :: "execution_plan \<Rightarrow> 'r translator \<Rightarrow> routing_fault + unit" where
  "check_attachment plan t =
     (case sorted_list_of_set (touched t - set (plan_ids plan)) of
        i # is \<Rightarrow> Inl (Undeclared_attachment (tr_target_name t) (Unknown_occurrences (i # is)))
      | [] \<Rightarrow>
          (case sorted_list_of_set (set (tr_owned t) \<inter> set (tr_observed t)) of
             i # is \<Rightarrow> Inl (Undeclared_attachment (tr_target_name t) (Owned_and_observed (i # is)))
           | [] \<Rightarrow> Inr ()))"

text \<open>The dictionary from each occurrence of an order to its index.\<close>

definition position_in :: "string list \<Rightarrow> string \<Rightarrow> nat" where
  "position_in order i = the (map_of (rev (zip order [0..<length order])) i)"

definition check_order :: "execution_plan \<Rightarrow> 'r translator \<Rightarrow> routing_fault + unit" where
  "check_order plan t =
     (let owned = set (tr_owned t); order = tr_execution_order t; position = position_in order;
          stop = (\<lambda>d. Inl (Reordered_ownership (tr_target_name t) d)) in
      if set order \<noteq> owned \<or> length order \<noteq> card owned then stop Not_a_permutation
      else case find (\<lambda>e. pg_source e \<in> owned \<and> pg_target e \<in> owned \<and> position (pg_target e) \<le> position (pg_source e))
          (xp_edges plan) of
        Some e \<Rightarrow> stop (Edge_reversed (pg_source e) (pg_target e))
      | None \<Rightarrow>
          if xp_wrapper plan \<in> owned then
            (case find (\<lambda>m. m \<in> owned \<and> position m \<le> position (xp_wrapper plan)) (xp_members plan) of
               Some m \<Rightarrow> stop (Wrapper_after_member m)
             | None \<Rightarrow> Inr ())
          else Inr ())"

definition owners_of :: "'r translator list \<Rightarrow> string \<Rightarrow> 'r translator list" where
  "owners_of ts i = filter (\<lambda>t. i \<in> set (tr_owned t)) ts"

text \<open>The owner of each occurrence that has one, as the occurrences have it.\<close>

definition cover_occurrence ::
    "'r translator list \<Rightarrow> plan_occurrence \<Rightarrow> (string \<times> 'r translator) list
       \<Rightarrow> routing_fault + (string \<times> 'r translator) list" where
  "cover_occurrence ts occ owner_of =
     (case owners_of ts (po_id occ) of
        [] \<Rightarrow> if po_owner_required occ then Inl (Missing_execution_owner (po_id occ)) else Inr owner_of
      | [t] \<Rightarrow> Inr (owner_of @ [(po_id occ, t)])
      | owners \<Rightarrow> Inl (Duplicate_execution_owner (po_id occ) (map tr_target_name owners)))"

definition check_coverage ::
    "execution_plan \<Rightarrow> 'r translator list \<Rightarrow> routing_fault + (string \<times> 'r translator) list" where
  "check_coverage plan ts = fold_result (cover_occurrence ts) (xp_occurrences plan) []"

definition check_digest :: "string \<Rightarrow> 'r translator \<Rightarrow> routing_fault + unit" where
  "check_digest expected t =
     (case tr_plan_digest t of
        None \<Rightarrow> Inr ()
      | Some got \<Rightarrow> if got = expected then Inr () else Inl (Digest_mismatch (tr_target_name t) expected got))"

definition check_handoff :: "execution_plan \<Rightarrow> 'r translator \<Rightarrow> routing_fault + unit" where
  "check_handoff plan t =
     (case find (\<lambda>e. pg_target e \<in> touched t \<and> \<not> tr_accepts_handoff t e) (xp_edges plan) of
        Some e \<Rightarrow> Inl (Bad_handoff (tr_target_name t) e)
      | None \<Rightarrow> Inr ())"

definition translate_with :: "execution_plan \<Rightarrow> 'r translator \<Rightarrow> routing_fault + string \<times> 'r" where
  "translate_with plan t =
     (case tr_translate t plan of
        Inl e \<Rightarrow> Inl (Translation_failed e)
      | Inr r \<Rightarrow> Inr (tr_target_name t, r))"

text \<open>\<open>digest\<close> is \<open>compute_plan_digest\<close>, the SHA-256 of a canonical document.\<close>

definition route_by_ownership ::
    "(execution_plan \<Rightarrow> string) \<Rightarrow> execution_plan \<Rightarrow> 'r translator list \<Rightarrow> routing_fault + 'r routing_result" where
  "route_by_ownership digest plan ts =
     bind (check_all (check_attachment plan) ts) (\<lambda>_.
     bind (check_all (check_order plan) ts) (\<lambda>_.
     bind (check_coverage plan ts) (\<lambda>owner_of.
     bind (check_all (check_digest (digest plan)) ts) (\<lambda>_.
     bind (check_all (check_handoff plan) ts) (\<lambda>_.
     let assignments = List.map_filter (\<lambda>occ. map_option (\<lambda>t.
           \<lparr>ra_occurrence = po_id occ, ra_translator = tr_target_name t, ra_adapter = None\<rparr>)
           (map_of owner_of (po_id occ))) (xp_occurrences plan) in
     bind (map_result (translate_with plan) (filter (\<lambda>t. tr_owned t \<noteq> [] \<or> tr_observed t \<noteq> []) ts)) (\<lambda>translations.
     Inr \<lparr>rt_plan = plan, rt_assignments = assignments, rt_translations = translations\<rparr>))))))"

section \<open>The translator table\<close>

type_synonym translator_table = "(string \<times> (string \<times> string) list) list"

definition owner_named :: "translator_table \<Rightarrow> string \<Rightarrow> string \<Rightarrow> string option" where
  "owner_named table label token = map_of (case map_of table label of None \<Rightarrow> [] | Some entries \<Rightarrow> entries) token"

text \<open>The translators by name; a later one of a name replaces an earlier.\<close>

definition translator_named :: "'r translator list \<Rightarrow> string \<Rightarrow> 'r translator option" where
  "translator_named ts name = map_of (rev (map (\<lambda>t. (tr_target_name t, t)) ts)) name"

definition check_coherent :: "string \<Rightarrow> capability list \<Rightarrow> string list \<Rightarrow> routing_fault + string list" where
  "check_coherent name capabilities checked =
     (if name \<in> set checked then Inr checked
      else case find (\<lambda>c. cp_translator c \<noteq> name) capabilities of
        Some c \<Rightarrow> Inl (Foreign_capability name (cp_translator c))
      | None \<Rightarrow> Inr (name # checked))"

definition assign_adapter ::
    "string \<Rightarrow> string \<Rightarrow> string \<Rightarrow> string \<Rightarrow> capability list \<Rightarrow> string \<Rightarrow> routing_fault + route_assignment" where
  "assign_adapter label i token name capabilities adapter =
     (if \<lparr>cp_token = token, cp_translator = name, cp_adapter = adapter\<rparr> \<in> set capabilities
      then Inr \<lparr>ra_occurrence = i, ra_translator = name, ra_adapter = Some adapter\<rparr>
      else Inl (Missing_capability label token name adapter))"

definition resolve_occurrence ::
    "string \<Rightarrow> translator_table \<Rightarrow> string list \<Rightarrow> 'r translator list \<Rightarrow> string \<times> string
       \<Rightarrow> string list \<times> route_assignment list \<Rightarrow> routing_fault + string list \<times> route_assignment list" where
  "resolve_occurrence label table adapters ts = (\<lambda>(i, token) (checked, assignments).
     case owner_named table label token of
       None \<Rightarrow> Inl (Missing_table_entry label token adapters)
     | Some name \<Rightarrow>
         (case translator_named ts name of
            None \<Rightarrow> Inl (Unregistered_table_translator label token name)
          | Some t \<Rightarrow>
              bind (check_coherent name (tr_capabilities t) checked) (\<lambda>checked.
              bind (map_result (assign_adapter label i token name (tr_capabilities t)) adapters) (\<lambda>assigned.
              Inr (checked, assignments @ assigned)))))"

definition resolve_table_owners ::
    "(string \<times> string) list \<Rightarrow> string \<Rightarrow> translator_table \<Rightarrow> string list \<Rightarrow> 'r translator list
       \<Rightarrow> routing_fault + route_assignment list" where
  "resolve_table_owners occurrences label table adapters ts =
     bind (fold_result (resolve_occurrence label table adapters ts) occurrences ([], [])) (\<lambda>(checked, assignments).
     Inr assignments)"

definition touched_names :: "route_assignment list \<Rightarrow> string list" where
  "touched_names assignments = fold (\<lambda>a names. if ra_translator a \<in> set names then names else names @ [ra_translator a])
     assignments []"

definition route_by_table ::
    "string \<Rightarrow> translator_table \<Rightarrow> string list \<Rightarrow> execution_plan \<Rightarrow> 'r translator list
       \<Rightarrow> routing_fault + 'r routing_result" where
  "route_by_table label table adapters plan ts =
     bind (resolve_table_owners (map (\<lambda>occ. (po_id occ, pattern_value (po_pattern occ))) (xp_occurrences plan))
       label table adapters ts) (\<lambda>assignments.
     bind (map_result (\<lambda>name. translate_with plan (the (translator_named ts name))) (touched_names assignments)) (\<lambda>translations.
     Inr \<lparr>rt_plan = plan, rt_assignments = assignments, rt_translations = translations\<rparr>))"

section \<open>The router\<close>

definition route ::
    "(execution_plan \<Rightarrow> string) \<Rightarrow> execution_plan \<Rightarrow> 'r translator list
       \<Rightarrow> string option \<Rightarrow> translator_table option \<Rightarrow> string list option \<Rightarrow> routing_fault + 'r routing_result" where
  "route digest plan ts label table adapters =
     (case (label, table, adapters) of
        (None, None, None) \<Rightarrow> bind (check_target_names_unique ts) (\<lambda>_. route_by_ownership digest plan ts)
      | (Some l, Some t, Some a) \<Rightarrow> bind (check_target_names_unique ts) (\<lambda>_. route_by_table l t a plan ts)
      | _ \<Rightarrow> Inl Table_routing_argument)"

end
