(* ===== verification/Routing_Props.thy ===== *)
theory Routing_Props
  imports Routing
begin

text \<open>
  What the router guarantees: \<open>routable\<close> and \<open>covered_by_table\<close> state when a plan is routed without naming
  a loop or a dictionary, and the landing graph leaves a sole owner hardly any choice of order.
\<close>

section \<open>Orders\<close>

definition precedes :: "string list \<Rightarrow> string \<Rightarrow> string \<Rightarrow> bool" where
  "precedes xs a b \<longleftrightarrow> (\<exists>us vs. xs = us @ vs \<and> a \<in> set us \<and> b \<in> set vs)"

lemma position_in_nth:
  assumes "distinct xs" and "k < length xs"
  shows "position_in xs (xs ! k) = k"
proof -
  let ?places = "rev (zip xs [0..<length xs])"
  have "distinct (map fst ?places)" using assms(1) by (simp add: rev_map [symmetric])
  moreover have "(xs ! k, k) \<in> set ?places" using assms(2) by (auto simp: in_set_zip)
  ultimately have "map_of ?places (xs ! k) = Some k" by (rule map_of_is_SomeI)
  then show ?thesis by (simp add: position_in_def)
qed

lemma nth_position_in:
  assumes "distinct xs" and "a \<in> set xs"
  shows "xs ! position_in xs a = a" "position_in xs a < length xs"
  using assms position_in_nth by (metis in_set_conv_nth)+

lemma precedes_position:
  assumes "distinct xs" and "a \<in> set xs" and "b \<in> set xs"
  shows "precedes xs a b \<longleftrightarrow> position_in xs a < position_in xs b"
proof
  assume "precedes xs a b"
  then obtain us vs where parts: "xs = us @ vs" "a \<in> set us" "b \<in> set vs" by (auto simp: precedes_def)
  then obtain i j where "i < length us" "a = us ! i" "j < length vs" "b = vs ! j" by (metis in_set_conv_nth)
  with parts(1) have "a = xs ! i" "i < length xs" "b = xs ! (length us + j)" "length us + j < length xs" "i < length us"
    by (simp_all add: nth_append)
  with position_in_nth [OF assms(1)] show "position_in xs a < position_in xs b" by simp
next
  assume less: "position_in xs a < position_in xs b"
  let ?n = "position_in xs b"
  have "a \<in> set (take ?n xs)"
    using nth_position_in [OF assms(1,2)] less by (auto simp: in_set_conv_nth intro!: exI [of _ "position_in xs a"])
  moreover have "b \<in> set (drop ?n xs)"
    using nth_position_in [OF assms(1,3)] by (metis Cons_nth_drop_Suc list.set_intros(1))
  ultimately show "precedes xs a b" unfolding precedes_def by (metis append_take_drop_id)
qed

text \<open>A translator executes what it owns, once each, after what it depends on directly and after the wrapper.\<close>

definition keeps_order :: "execution_plan \<Rightarrow> 'r translator \<Rightarrow> bool" where
  "keeps_order plan t \<longleftrightarrow>
     (let owned = set (tr_owned t); order = tr_execution_order t in
      distinct order \<and> set order = owned \<and>
      (\<forall>e \<in> set (xp_edges plan). pg_source e \<in> owned \<and> pg_target e \<in> owned \<longrightarrow> precedes order (pg_source e) (pg_target e)) \<and>
      (\<forall>m \<in> set (xp_members plan). xp_wrapper plan \<in> owned \<and> m \<in> owned \<longrightarrow> precedes order (xp_wrapper plan) m))"

lemma permutation_iff: "set xs = A \<and> length xs = card A \<longleftrightarrow> distinct xs \<and> set xs = A"
  by (metis card_distinct distinct_card)

lemma check_order_Inr: "check_order plan t = Inr () \<longleftrightarrow> keeps_order plan t"
proof (cases "set (tr_execution_order t) = set (tr_owned t) \<and> length (tr_execution_order t) = card (set (tr_owned t))")
  case True
  let ?order = "tr_execution_order t"
  from True have ok: "distinct ?order" "set ?order = set (tr_owned t)" unfolding permutation_iff by simp_all
  have before: "a \<in> set (tr_owned t) \<Longrightarrow> b \<in> set (tr_owned t) \<Longrightarrow>
      precedes ?order a b \<longleftrightarrow> \<not> position_in ?order b \<le> position_in ?order a" for a b
    using precedes_position [OF ok(1)] ok(2) by auto
  have "check_order plan t = Inr () \<longleftrightarrow>
      find (\<lambda>e. pg_source e \<in> set (tr_owned t) \<and> pg_target e \<in> set (tr_owned t) \<and>
        position_in ?order (pg_target e) \<le> position_in ?order (pg_source e)) (xp_edges plan) = None \<and>
      (xp_wrapper plan \<in> set (tr_owned t) \<longrightarrow>
        find (\<lambda>m. m \<in> set (tr_owned t) \<and> position_in ?order m \<le> position_in ?order (xp_wrapper plan)) (xp_members plan) = None)"
    using True by (simp add: check_order_def Let_def split: option.splits)
  also have "\<dots> \<longleftrightarrow> keeps_order plan t"
    unfolding find_None_iff keeps_order_def Let_def using ok before by blast
  finally show ?thesis .
next
  case False
  then have "\<not> (distinct (tr_execution_order t) \<and> set (tr_execution_order t) = set (tr_owned t))" unfolding permutation_iff .
  with False show ?thesis by (auto simp: check_order_def keeps_order_def Let_def)
qed

section \<open>Routing by ownership\<close>

definition solely_owned :: "'r translator list \<Rightarrow> plan_occurrence \<Rightarrow> bool" where
  "solely_owned ts occ \<longleftrightarrow> length (owners_of ts (po_id occ)) \<le> 1 \<and>
     (po_owner_required occ \<longrightarrow> owners_of ts (po_id occ) \<noteq> [])"

definition fits_plan :: "(execution_plan \<Rightarrow> string) \<Rightarrow> execution_plan \<Rightarrow> 'r translator \<Rightarrow> bool" where
  "fits_plan digest plan t \<longleftrightarrow>
     touched t \<subseteq> set (plan_ids plan) \<and> set (tr_owned t) \<inter> set (tr_observed t) = {} \<and> keeps_order plan t \<and>
     tr_plan_digest t \<in> {None, Some (digest plan)} \<and>
     (\<forall>e \<in> set (xp_edges plan). pg_target e \<in> touched t \<longrightarrow> tr_accepts_handoff t e)"

definition routable :: "(execution_plan \<Rightarrow> string) \<Rightarrow> execution_plan \<Rightarrow> 'r translator list \<Rightarrow> bool" where
  "routable digest plan ts \<longleftrightarrow>
     distinct (map tr_target_name ts) \<and> (\<forall>t \<in> set ts. fits_plan digest plan t) \<and>
     (\<forall>occ \<in> set (xp_occurrences plan). solely_owned ts occ)"

lemma check_attachment_Inr:
  "check_attachment plan t = Inr () \<longleftrightarrow> touched t \<subseteq> set (plan_ids plan) \<and> set (tr_owned t) \<inter> set (tr_observed t) = {}"
proof -
  have "finite (touched t - set (plan_ids plan))" by (simp add: touched_def)
  then have "sorted_list_of_set (touched t - set (plan_ids plan)) = [] \<longleftrightarrow> touched t \<subseteq> set (plan_ids plan)"
    by (simp add: sorted_list_of_set_eq_Nil_iff)
  moreover have "sorted_list_of_set (set (tr_owned t) \<inter> set (tr_observed t)) = [] \<longleftrightarrow> set (tr_owned t) \<inter> set (tr_observed t) = {}"
    by (simp add: sorted_list_of_set_eq_Nil_iff)
  ultimately show ?thesis
    by (cases "sorted_list_of_set (touched t - set (plan_ids plan))";
        cases "sorted_list_of_set (set (tr_owned t) \<inter> set (tr_observed t))") (simp_all add: check_attachment_def)
qed

lemma check_digest_Inr: "check_digest expected t = Inr () \<longleftrightarrow> tr_plan_digest t \<in> {None, Some expected}"
  by (auto simp: check_digest_def split: option.splits)

lemma check_handoff_Inr:
  "check_handoff plan t = Inr () \<longleftrightarrow> (\<forall>e \<in> set (xp_edges plan). pg_target e \<in> touched t \<longrightarrow> tr_accepts_handoff t e)"
proof -
  have "check_handoff plan t = Inr () \<longleftrightarrow> find (\<lambda>e. pg_target e \<in> touched t \<and> \<not> tr_accepts_handoff t e) (xp_edges plan) = None"
    by (simp add: check_handoff_def split: option.splits)
  then show ?thesis unfolding find_None_iff by blast
qed

lemma distinct_iff_count_list: "distinct xs \<longleftrightarrow> (\<forall>x. count_list xs x \<le> 1)"
proof (induction xs)
  case (Cons y ys)
  have "(\<forall>x. count_list (y # ys) x \<le> 1) \<longleftrightarrow> count_list ys y = 0 \<and> (\<forall>x. count_list ys x \<le> 1)"
  proof
    assume all: "\<forall>x. count_list (y # ys) x \<le> 1"
    have "count_list ys x \<le> 1" for x using all [rule_format, of x] by (simp split: if_split_asm)
    moreover have "count_list ys y = 0" using all [rule_format, of y] by simp
    ultimately show "count_list ys y = 0 \<and> (\<forall>x. count_list ys x \<le> 1)" by blast
  qed auto
  with Cons show ?case by (simp add: count_list_0_iff)
qed simp

lemma unique_names_Inr: "check_target_names_unique ts = Inr () \<longleftrightarrow> distinct (map tr_target_name ts)"
proof -
  let ?names = "map tr_target_name ts"
  have absent: "n \<notin> set ?names \<Longrightarrow> count_list ?names n \<le> 1" for n by (simp add: count_notin del: set_map)
  have "check_target_names_unique ts = Inr () \<longleftrightarrow> find (\<lambda>n. 1 < count_list ?names n) ?names = None"
    by (simp add: check_target_names_unique_def Let_def split: option.splits)
  also have "\<dots> \<longleftrightarrow> (\<forall>n. count_list ?names n \<le> 1)"
    unfolding find_None_iff using absent by (meson not_le)
  also have "\<dots> \<longleftrightarrow> distinct ?names" by (simp add: distinct_iff_count_list)
  finally show ?thesis .
qed

lemma check_coverage_Inr:
  "check_coverage plan ts = Inr owner_of \<longleftrightarrow> (\<forall>occ \<in> set (xp_occurrences plan). solely_owned ts occ) \<and>
     owner_of = concat (map (\<lambda>occ. map (Pair (po_id occ)) (owners_of ts (po_id occ))) (xp_occurrences plan))"
proof -
  have step: "cover_occurrence ts occ found = Inr found' \<longleftrightarrow>
      solely_owned ts occ \<and> found' = found @ map (Pair (po_id occ)) (owners_of ts (po_id occ))" for occ found found'
    by (auto simp: cover_occurrence_def solely_owned_def split: list.splits)
  have "fold_result (cover_occurrence ts) occs found = Inr found' \<longleftrightarrow> (\<forall>occ \<in> set occs. solely_owned ts occ) \<and>
      found' = found @ concat (map (\<lambda>occ. map (Pair (po_id occ)) (owners_of ts (po_id occ))) occs)" for occs found found'
    by (induction occs arbitrary: found) (auto simp: step)
  then show ?thesis by (simp add: check_coverage_def)
qed

definition owner_rows :: "execution_plan \<Rightarrow> 'r translator list \<Rightarrow> route_assignment list" where
  "owner_rows plan ts = concat (map (\<lambda>occ. map (\<lambda>t.
       \<lparr>ra_occurrence = po_id occ, ra_translator = tr_target_name t, ra_adapter = None\<rparr>) (owners_of ts (po_id occ)))
     (xp_occurrences plan))"

lemma owner_looked_up:
  assumes "\<forall>occ \<in> set occs. solely_owned ts occ"
  shows "map_of (concat (map (\<lambda>occ. map (Pair (po_id occ)) (owners_of ts (po_id occ))) occs)) i =
    (if i \<in> po_id ` set occs then (case owners_of ts i of [] \<Rightarrow> None | t # _ \<Rightarrow> Some t) else None)"
  using assms
proof (induction occs)
  case (Cons occ occs)
  have "length (owners_of ts (po_id occ)) \<le> 1" using Cons.prems by (simp add: solely_owned_def)
  then consider "owners_of ts (po_id occ) = []" | t where "owners_of ts (po_id occ) = [t]"
    by (cases "owners_of ts (po_id occ)") auto
  then show ?case using Cons by cases auto
qed simp

lemma assignments_rows:
  assumes "\<forall>occ \<in> set (xp_occurrences plan). solely_owned ts occ"
  shows "List.map_filter (\<lambda>occ. map_option (\<lambda>t.
      \<lparr>ra_occurrence = po_id occ, ra_translator = tr_target_name t, ra_adapter = None\<rparr>)
      (map_of (concat (map (\<lambda>occ. map (Pair (po_id occ)) (owners_of ts (po_id occ))) (xp_occurrences plan))) (po_id occ)))
      (xp_occurrences plan) = owner_rows plan ts"
proof -
  let ?owner = "map_of (concat (map (\<lambda>occ. map (Pair (po_id occ)) (owners_of ts (po_id occ))) (xp_occurrences plan)))"
  let ?row = "\<lambda>occ t. \<lparr>ra_occurrence = po_id occ, ra_translator = tr_target_name t, ra_adapter = None\<rparr>"
  have "List.map_filter (\<lambda>occ. map_option (?row occ) (?owner (po_id occ))) occs =
      concat (map (\<lambda>occ. map (?row occ) (owners_of ts (po_id occ))) occs)"
    if "set occs \<subseteq> set (xp_occurrences plan)" for occs
    using that
  proof (induction occs)
    case (Cons occ occs)
    then have occ: "occ \<in> set (xp_occurrences plan)" by simp
    then have "length (owners_of ts (po_id occ)) \<le> 1" using assms by (simp add: solely_owned_def)
    then consider "owners_of ts (po_id occ) = []" | t where "owners_of ts (po_id occ) = [t]"
      by (cases "owners_of ts (po_id occ)") auto
    then show ?case
      using Cons occ owner_looked_up [OF assms, of "po_id occ"] by cases (auto simp: List.map_filter_simps)
  qed (simp add: List.map_filter_simps)
  then show ?thesis by (simp add: owner_rows_def)
qed

lemma ownership_Inr:
  "route_by_ownership digest plan ts = Inr r \<longleftrightarrow>
     (\<forall>t \<in> set ts. fits_plan digest plan t) \<and> (\<forall>occ \<in> set (xp_occurrences plan). solely_owned ts occ) \<and>
     rt_plan r = plan \<and> rt_assignments r = owner_rows plan ts \<and>
     map_result (translate_with plan) (filter (\<lambda>t. touched t \<noteq> {}) ts) = Inr (rt_translations r)"
proof -
  let ?attached = "filter (\<lambda>t. tr_owned t \<noteq> [] \<or> tr_observed t \<noteq> []) ts"
  have attached: "?attached = filter (\<lambda>t. touched t \<noteq> {}) ts" by (rule filter_cong) (auto simp: touched_def)
  have checks: "(\<forall>t \<in> set ts. fits_plan digest plan t) \<longleftrightarrow>
      check_all (check_attachment plan) ts = Inr () \<and> check_all (check_order plan) ts = Inr () \<and>
      check_all (check_digest (digest plan)) ts = Inr () \<and> check_all (check_handoff plan) ts = Inr ()"
    unfolding check_all_Inr check_attachment_Inr check_order_Inr check_digest_Inr check_handoff_Inr fits_plan_def by blast
  show ?thesis
  proof (cases "(\<forall>t \<in> set ts. fits_plan digest plan t) \<and> (\<forall>occ \<in> set (xp_occurrences plan). solely_owned ts occ)")
    case True
    then have "check_coverage plan ts =
        Inr (concat (map (\<lambda>occ. map (Pair (po_id occ)) (owners_of ts (po_id occ))) (xp_occurrences plan)))"
      unfolding check_coverage_Inr by blast
    with True checks assignments_rows [of plan ts] show ?thesis
      unfolding route_by_ownership_def attached by (cases r) (auto simp: bind_eq_Inr Let_def)
  next
    case False
    then have "route_by_ownership digest plan ts \<noteq> Inr r"
      using checks by (auto simp: route_by_ownership_def bind_eq_Inr check_coverage_Inr)
    with False show ?thesis by blast
  qed
qed

section \<open>Routing by the table\<close>

definition coherent :: "'r translator list \<Rightarrow> string \<Rightarrow> bool" where
  "coherent ts name = (case translator_named ts name of None \<Rightarrow> True
     | Some t \<Rightarrow> \<forall>c \<in> set (tr_capabilities t). cp_translator c = name)"

definition table_serves ::
    "string \<Rightarrow> translator_table \<Rightarrow> string list \<Rightarrow> 'r translator list \<Rightarrow> string \<Rightarrow> bool" where
  "table_serves label table adapters ts token =
     (case owner_named table label token of None \<Rightarrow> False
      | Some name \<Rightarrow>
          (case translator_named ts name of None \<Rightarrow> False
           | Some t \<Rightarrow> coherent ts name \<and> (\<forall>adapter \<in> set adapters.
               \<lparr>cp_token = token, cp_translator = name, cp_adapter = adapter\<rparr> \<in> set (tr_capabilities t))))"

definition table_rows ::
    "string \<Rightarrow> translator_table \<Rightarrow> string list \<Rightarrow> (string \<times> string) list \<Rightarrow> route_assignment list" where
  "table_rows label table adapters occurrences = concat (map (\<lambda>(i, token). map (\<lambda>adapter.
       \<lparr>ra_occurrence = i, ra_translator = the (owner_named table label token), ra_adapter = Some adapter\<rparr>) adapters) occurrences)"

lemma check_coherent_Inr:
  assumes "translator_named ts name = Some t" and "\<forall>n \<in> set checked. coherent ts n"
  shows "check_coherent name (tr_capabilities t) checked = Inr checked' \<longleftrightarrow>
    coherent ts name \<and> checked' = (if name \<in> set checked then checked else name # checked)"
proof -
  have "find (\<lambda>c. cp_translator c \<noteq> name) (tr_capabilities t) = None \<longleftrightarrow> coherent ts name"
    using assms(1) by (auto simp: find_None_iff coherent_def)
  then show ?thesis using assms by (auto simp: check_coherent_def split: option.splits)
qed

lemma assign_adapters_Inr:
  "map_result (assign_adapter label i token name capabilities) adapters = Inr rows \<longleftrightarrow>
     (\<forall>a \<in> set adapters. \<lparr>cp_token = token, cp_translator = name, cp_adapter = a\<rparr> \<in> set capabilities) \<and>
     rows = map (\<lambda>a. \<lparr>ra_occurrence = i, ra_translator = name, ra_adapter = Some a\<rparr>) adapters"
  by (induction adapters arbitrary: rows) (auto simp: assign_adapter_def bind_eq_Inr)

lemma resolve_occurrences_Inr:
  assumes "\<forall>n \<in> set checked. coherent ts n"
  shows "(\<exists>checked'. fold_result (resolve_occurrence label table adapters ts) occurrences (checked, rows) = Inr (checked', rows'))
    \<longleftrightarrow> (\<forall>(i, token) \<in> set occurrences. table_serves label table adapters ts token) \<and>
      rows' = rows @ table_rows label table adapters occurrences"
  using assms
proof (induction occurrences arbitrary: checked rows)
  case (Cons occurrence occurrences)
  obtain i token where occurrence: "occurrence = (i, token)" by (cases occurrence)
  show ?case
  proof (cases "table_serves label table adapters ts token")
    case False
    have "resolve_occurrence label table adapters ts (i, token) (checked, rows) \<noteq> Inr st" for st
      using False check_coherent_Inr [OF _ Cons.prems]
      by (auto simp: table_serves_def resolve_occurrence_def bind_eq_Inr assign_adapters_Inr split: option.splits)
    then have "\<nexists>st. resolve_occurrence label table adapters ts (i, token) (checked, rows) = Inr st" by blast
    with False occurrence show ?thesis by (auto simp: bind_eq_Inr)
  next
    case True
    then obtain name t where named: "owner_named table label token = Some name" "translator_named ts name = Some t"
      and ok: "coherent ts name" "\<forall>a \<in> set adapters. \<lparr>cp_token = token, cp_translator = name, cp_adapter = a\<rparr> \<in> set (tr_capabilities t)"
      by (auto simp: table_serves_def split: option.splits)
    let ?checked = "if name \<in> set checked then checked else name # checked"
    let ?row = "map (\<lambda>a. \<lparr>ra_occurrence = i, ra_translator = name, ra_adapter = Some a\<rparr>) adapters"
    have "check_coherent name (tr_capabilities t) checked = Inr ?checked"
      using check_coherent_Inr [OF named(2) Cons.prems] ok(1) by blast
    moreover have "map_result (assign_adapter label i token name (tr_capabilities t)) adapters = Inr ?row"
      using assign_adapters_Inr ok(2) by blast
    ultimately have "resolve_occurrence label table adapters ts (i, token) (checked, rows) = Inr (?checked, rows @ ?row)"
      using named by (simp add: resolve_occurrence_def)
    moreover have "\<forall>n \<in> set ?checked. coherent ts n" using Cons.prems ok(1) by simp
    ultimately show ?thesis
      using Cons.IH [of ?checked "rows @ ?row"] True occurrence named(1) by (simp add: table_rows_def)
  qed
qed (auto simp: table_rows_def)

lemma resolve_table_owners_Inr:
  "resolve_table_owners occurrences label table adapters ts = Inr rows \<longleftrightarrow>
     (\<forall>(i, token) \<in> set occurrences. table_serves label table adapters ts token) \<and>
     rows = table_rows label table adapters occurrences"
  using resolve_occurrences_Inr [of "[]" ts label table adapters occurrences "[]" rows]
  by (auto simp: resolve_table_owners_def bind_eq_Inr)

section \<open>Guarantees\<close>

text \<open>C16: Without a translator table a plan is routed exactly when the target names are distinct, each translator
  fits the plan (it attaches to occurrences of the plan, executes what it owns in an order that respects the
  plan's direct dependencies and its wrapper, was built against the plan's digest and accepts what it is handed)
  and every occurrence that needs an owner has exactly one; the result names the owner of every occurrence that
  has one, in the plan's order, and the rendering of every translator that is attached.\<close>

theorem ownership_routing_exact:
  "route digest plan ts None None None = Inr r \<longleftrightarrow>
     routable digest plan ts \<and> rt_plan r = plan \<and> rt_assignments r = owner_rows plan ts \<and>
     map_result (translate_with plan) (filter (\<lambda>t. touched t \<noteq> {}) ts) = Inr (rt_translations r)"
  by (auto simp: route_def bind_eq_Inr unique_names_Inr ownership_Inr routable_def)

text \<open>With a translator table, occurrences are resolved exactly when the table names, for the pattern of each,
  a translator that was supplied, claims capabilities in its own name only and has the one for that pattern and
  every adapter; the assignments then are one row for each occurrence and adapter, in the order given.\<close>

lemma table_routing_exact:
  "resolve_table_owners occurrences label table adapters ts = Inr rows \<longleftrightarrow>
     list_all (\<lambda>(i, token). table_serves label table adapters ts token) occurrences \<and>
     rows = table_rows label table adapters occurrences"
  unfolding resolve_table_owners_Inr list_all_iff ..

text \<open>The landing graph, as it is resolved.\<close>

definition landing_plan :: execution_plan where
  "landing_plan = \<lparr>xp_profile = ''landing'', xp_occurrences = landing_occurrences, xp_edges = landing_edges,
     xp_wrapper = landing_wrapper, xp_members = landing_members\<rparr>"

lemma resolve_landing_plan: "resolve_landing = Inr landing_plan"
  by code_simp

lemma resolve_profile_Inr: "resolve_profile name = Inr plan \<longleftrightarrow> name = ''landing'' \<and> plan = landing_plan"
  by (auto simp: resolve_profile_def resolve_landing_plan profile_names_def)

definition landing_phases :: "string list" where
  "landing_phases = [''landing.checkpoint'', ''landing.ingest'', ''landing.validate'', ''landing.contract'',
     ''landing.schema'', ''landing.publish'']"

lemma landing_ids:
  "set (plan_ids landing_plan) = set (landing_phases @ [''landing.lineage'', ''landing.metadata''])"
  by code_simp

lemma landing_dependencies:
  "map (\<lambda>e. (pg_source e, pg_target e)) landing_edges =
    [(''landing.ingest'', ''landing.validate''), (''landing.validate'', ''landing.contract''),
     (''landing.contract'', ''landing.schema''), (''landing.validate'', ''landing.publish''),
     (''landing.contract'', ''landing.publish''), (''landing.schema'', ''landing.publish''),
     (''landing.ingest'', ''landing.lineage''), (''landing.validate'', ''landing.lineage''),
     (''landing.publish'', ''landing.lineage''), (''landing.contract'', ''landing.metadata''),
     (''landing.validate'', ''landing.metadata''), (''landing.publish'', ''landing.metadata'')]"
  by (simp add: landing_edges_def)

lemma landing_member: "''landing.ingest'' \<in> set landing_members"
  by code_simp

text \<open>A list of eight that has six phases one after the other and two observers after them.\<close>

lemma phased_list:
  assumes "distinct xs" and "length xs = 8" and chain: "\<forall>(a, b) \<in> set (zip ps (tl ps)). precedes xs a b" and "length ps = 6"
    and "set ps \<union> {x, y} \<subseteq> set xs" and "precedes xs (last ps) x" and "precedes xs (last ps) y" and "x \<noteq> y"
  shows "xs = ps @ [x, y] \<or> xs = ps @ [y, x]"
proof -
  obtain a b c d e f where ps: "ps = [a, b, c, d, e, f]"
    using assms(4) by (auto simp: eval_nat_numeral length_Suc_conv)
  let ?p = "position_in xs"
  have before: "precedes xs u v \<Longrightarrow> u \<in> set xs \<Longrightarrow> v \<in> set xs \<Longrightarrow> ?p u < ?p v" for u v
    using precedes_position [OF assms(1)] by blast
  have place: "u \<in> set xs \<Longrightarrow> xs ! ?p u = u \<and> ?p u < 8" for u
    using nth_position_in [OF assms(1)] assms(2) by auto
  have less: "?p a < ?p b" "?p b < ?p c" "?p c < ?p d" "?p d < ?p e" "?p e < ?p f" "?p f < ?p x" "?p f < ?p y"
    using chain assms(5,6,7) by (auto simp: ps intro!: before)
  have small: "?p x < 8" "?p y < 8" using place assms(5) by simp_all
  have "?p x \<noteq> ?p y" using place assms(5,8) by (metis Un_insert_right insert_subset)
  with less small have eqs: "?p a = 0" "?p b = 1" "?p c = 2" "?p d = 3" "?p e = 4" "?p f = 5"
    "?p x = 6 \<and> ?p y = 7 \<or> ?p x = 7 \<and> ?p y = 6" by linarith+
  have "u \<in> {a, b, c, d, e, f, x, y} \<Longrightarrow> xs ! ?p u = u" for u using place assms(5) by (auto simp: ps)
  then have "xs ! ?p a = a" "xs ! ?p b = b" "xs ! ?p c = c" "xs ! ?p d = d" "xs ! ?p e = e" "xs ! ?p f = f"
    "xs ! ?p x = x" "xs ! ?p y = y" by simp_all
  then have at: "xs ! 0 = a" "xs ! 1 = b" "xs ! 2 = c" "xs ! 3 = d" "xs ! 4 = e" "xs ! 5 = f"
    "xs ! 6 = x \<and> xs ! 7 = y \<or> xs ! 6 = y \<and> xs ! 7 = x"
    unfolding eqs(1-6) using eqs(7) by (simp_all only:) auto
  have "xs = map (nth xs) [0..<8]" using assms(2) by (metis map_nth)
  also have "[0..<8] = [0, 1, 2, 3, 4, 5, 6, 7 :: nat]" by (simp add: upt_rec)
  finally show ?thesis using at by (auto simp: ps)
qed

lemma landing_endpoints:
  "list_all (\<lambda>e. pg_source e \<in> set (plan_ids landing_plan) \<and> pg_target e \<in> set (plan_ids landing_plan)) landing_edges"
  by code_simp

lemma landing_order:
  assumes "keeps_order landing_plan t" and "set (tr_owned t) = set (plan_ids landing_plan)"
  shows "tr_execution_order t \<in> {landing_phases @ [''landing.lineage'', ''landing.metadata''],
    landing_phases @ [''landing.metadata'', ''landing.lineage'']}"
proof -
  let ?xs = "tr_execution_order t"
  have owned: "distinct ?xs" "set ?xs = set (plan_ids landing_plan)"
    using assms by (simp_all add: keeps_order_def Let_def)
  have direct: "precedes ?xs a b" if edge: "(a, b) \<in> set (map (\<lambda>e. (pg_source e, pg_target e)) landing_edges)" for a b
  proof -
    from edge obtain e where e: "e \<in> set (xp_edges landing_plan)" "a = pg_source e" "b = pg_target e"
      by (auto simp: landing_plan_def)
    with landing_endpoints have "a \<in> set (tr_owned t)" "b \<in> set (tr_owned t)"
      unfolding assms(2) by (simp_all add: landing_plan_def list_all_iff)
    with e assms(1) show ?thesis by (simp add: keeps_order_def Let_def)
  qed
  have "landing_wrapper \<in> set (plan_ids landing_plan)" "''landing.ingest'' \<in> set (plan_ids landing_plan)" by code_simp+
  then have "precedes ?xs landing_wrapper ''landing.ingest''"
    using assms landing_member by (simp add: keeps_order_def Let_def landing_plan_def)
  with direct have "\<forall>(a, b) \<in> set (zip landing_phases (tl landing_phases)). precedes ?xs a b"
    by (simp add: landing_phases_def landing_dependencies landing_wrapper_def)
  moreover have "length ?xs = 8" using owned distinct_card [OF owned(1)] by (simp add: landing_ids landing_phases_def)
  moreover have "precedes ?xs (last landing_phases) ''landing.lineage''" "precedes ?xs (last landing_phases) ''landing.metadata''"
    using direct by (simp_all add: landing_phases_def landing_dependencies)
  ultimately show ?thesis
    using phased_list [of ?xs landing_phases "''landing.lineage''" "''landing.metadata''"] owned
    by (simp add: landing_ids landing_phases_def)
qed

text \<open>C29: A translator that owns the whole landing graph and is routed runs it in one of two orders: the wrapper, then
  ingestion, validation, contract, schema and publication, then the two observers; and every assignment is its
  own.\<close>

theorem landing_runs_in_order:
  assumes "resolve_profile name = Inr plan" and "route digest plan ts None None None = Inr r" and "t \<in> set ts"
    and "set (tr_owned t) = set (plan_ids plan)"
  shows "tr_execution_order t \<in> {landing_phases @ [''landing.lineage'', ''landing.metadata''],
      landing_phases @ [''landing.metadata'', ''landing.lineage'']} \<and>
    ra_translator ` set (rt_assignments r) = {tr_target_name t}"
proof -
  have plan: "plan = landing_plan" using assms(1) by (simp add: resolve_profile_Inr)
  have fits: "fits_plan digest plan t" and solely: "\<forall>occ \<in> set (xp_occurrences plan). solely_owned ts occ"
    and rows: "rt_assignments r = owner_rows plan ts"
    using assms(2,3) by (auto simp: route_def bind_eq_Inr ownership_Inr)
  have "owners_of ts (po_id occ) = [t]" if occ: "occ \<in> set (xp_occurrences plan)" for occ
  proof -
    have "po_id occ \<in> set (plan_ids plan)" using occ by (simp add: plan_ids_def)
    then have "t \<in> set (owners_of ts (po_id occ))" using assms(3,4) by (simp add: owners_of_def)
    with solely occ show ?thesis by (cases "owners_of ts (po_id occ)") (auto simp: solely_owned_def)
  qed
  moreover have "xp_occurrences plan \<noteq> []" by (simp add: plan landing_plan_def landing_occurrences_def)
  ultimately have "ra_translator ` set (rt_assignments r) = {tr_target_name t}"
    unfolding rows owner_rows_def by (cases "xp_occurrences plan") auto
  with fits plan assms(4) landing_order [of t] show ?thesis by (simp add: fits_plan_def)
qed

definition eg_translator :: "string \<Rightarrow> string list \<Rightarrow> nat translator" where
  "eg_translator name order = \<lparr>tr_target_name = name, tr_owned = order, tr_observed = [], tr_execution_order = order,
     tr_plan_digest = None, tr_accepts_handoff = (\<lambda>_. True), tr_capabilities = [], tr_translate = (\<lambda>_. Inr 0)\<rparr>"

definition eg_order :: "string list" where
  "eg_order = landing_phases @ [''landing.metadata'', ''landing.lineage'']"

definition eg_routed :: "nat routing_result" where
  "eg_routed = \<lparr>rt_plan = landing_plan, rt_assignments = map (\<lambda>occ.
       \<lparr>ra_occurrence = po_id occ, ra_translator = ''t'', ra_adapter = None\<rparr>) landing_occurrences,
     rt_translations = [(''t'', 0)]\<rparr>"

theorem landing_runs_in_order_witness:
  "ra_translator ` set (rt_assignments eg_routed) = {''t''}"
proof -
  have "resolve_profile ''landing'' = Inr landing_plan" by (simp add: resolve_profile_Inr)
  moreover have "route (\<lambda>_. []) landing_plan [eg_translator ''t'' eg_order] None None None = Inr eg_routed"
    "set (tr_owned (eg_translator ''t'' eg_order)) = set (plan_ids landing_plan)" by code_simp+
  ultimately have "ra_translator ` set (rt_assignments eg_routed) = {tr_target_name (eg_translator ''t'' eg_order)}"
    using landing_runs_in_order [of "''landing''" landing_plan "\<lambda>_. []" "[eg_translator ''t'' eg_order]" eg_routed "eg_translator ''t'' eg_order"]
    by simp
  then show ?thesis by (simp add: eg_translator_def)
qed

text \<open>
  The router looks at direct dependencies only: here one translator publishes the contract before it ingests,
  although ingestion comes before the contract through the validation another translator owns.
\<close>

lemma transitive_dependency_is_not_checked:
  "case route (\<lambda>_. []) landing_plan
     [eg_translator ''a'' [''landing.contract'', ''landing.ingest''],
      eg_translator ''b'' [''landing.checkpoint'', ''landing.validate'', ''landing.schema'', ''landing.publish'',
        ''landing.lineage'', ''landing.metadata'']] None None None of
     Inr r \<Rightarrow> map fst (rt_translations r) = [''a'', ''b''] | Inl e \<Rightarrow> False"
  by code_simp

end
