(* ===== verification/Declaration_Validation.thy ===== *)
theory Declaration_Validation
  imports Execution_Plans Shape_Relations
begin

text \<open>
  The first layer of validation of one product declaration, \<open>validate_declaration\<close> of
  \<open>ergasterion/framework/declaration.py\<close>: labels and profiles, neutral types, sources and their
  combination, steps against the profile, and the target. Each refusal carries the product, the rule and the
  occurrence the code's \<open>DeclarationError\<close> carries.
\<close>

section \<open>Policy and declaration\<close>

record estate_policy =
  ep_structured_types :: "string list"
  ep_labels :: "(string \<times> string list) list"
  ep_profiles :: "(string \<times> profile) list"

text \<open>
  A step: the pattern it names, each value of a \<open>type\<close> key in it with its path, the keys the checks read,
  and what it does to a relation's columns.
\<close>

record declared_step =
  ds_token :: string
  ds_types :: "(string \<times> neutral_type) list"
  ds_stage :: "string option"
  ds_publication_mode :: "string option"
  ds_unique_key :: bool
  ds_compose :: compose_step

record product_declaration =
  dl_name :: string
  dl_domain :: string
  dl_layer :: string
  dl_profile :: "string option"
  dl_sources :: "(string option \<times> upstream_source) list"
  dl_combine :: "combination option"
  dl_steps :: "declared_step list"
  dl_checkpointing :: bool
  dl_shape :: string
  dl_shape_config :: shape_section
  dl_physical :: "(string option \<times> physical_relation) list"

definition composition_of :: "product_declaration \<Rightarrow> composition_document" where
  "composition_of d = \<lparr>cd_sources = map snd (dl_sources d), cd_steps = map ds_compose (dl_steps d),
     cd_combine = dl_combine d, cd_shape_config = dl_shape_config d, cd_physical = dl_physical d\<rparr>"

text \<open>
  What the checks ask of the JSON Schema library and of the neutrality gate: the rule and occurrence of the
  first violation of the envelope or the gate, and whether a step, the checkpoint block or the shape section
  violates its own schema.
\<close>

record schema_lib =
  sl_gate :: "product_declaration \<Rightarrow> (string \<times> string) option"
  sl_step_error :: "pattern_id \<Rightarrow> declared_step \<Rightarrow> bool"
  sl_checkpoint_error :: "product_declaration \<Rightarrow> bool"
  sl_shape_error :: "product_declaration \<Rightarrow> string option"

datatype declaration_fault =
    Declaration_error string string string
  | Label_error string string "string option"
  | Missing_profile string

type_synonym 'a declared = "declaration_fault + 'a"

definition rule_that :: "string \<Rightarrow> string \<Rightarrow> string \<Rightarrow> bool \<Rightarrow> unit declared" where
  "rule_that product rule occurrence ok = (if ok then Inr () else Inl (Declaration_error product rule occurrence))"

definition at_index :: "string \<Rightarrow> nat \<Rightarrow> string" where
  "at_index key n = key @ ''['' @ decimal n @ '']''"

section \<open>The estate's policy\<close>

text \<open>
  The profiles and labels of \<open>estate.yml\<close>, as \<open>load_estate_policy\<close> checks them: the reference profiles,
  the estate's own under names of their own, and labels that admit only known profiles in which the data
  contract is mandatory; every profile of the estate's own must be admitted by some label.
\<close>

datatype policy_fault =
    Nameless_profile
  | Reuses_reference_name string
  | Invalid_profile string profile_fault
  | Label_names_no_profile string
  | Label_names_unknown_profile string string
  | Profile_without_contracts string string
  | Orphaned_profile string

definition load_reference_profile :: "string \<Rightarrow> policy_fault + string \<times> profile" where
  "load_reference_profile name = (case load_profile name of
     Inl e \<Rightarrow> Inl (Invalid_profile name e) | Inr f \<Rightarrow> Inr (name, f))"

definition load_own_profile :: "string \<times> profile_document \<Rightarrow> policy_fault + string \<times> profile" where
  "load_own_profile = (\<lambda>(name, doc).
     if name = [] then Inl Nameless_profile
     else if name \<in> set profile_names then Inl (Reuses_reference_name name)
     else case parse_profile_document name doc of
       Inl e \<Rightarrow> Inl (Invalid_profile name e) | Inr f \<Rightarrow> Inr (name, f))"

definition check_admitted :: "(string \<times> profile) list \<Rightarrow> string \<Rightarrow> string \<Rightarrow> policy_fault + unit" where
  "check_admitted profiles label name =
     (case map_of profiles name of
        None \<Rightarrow> Inl (Label_names_unknown_profile label name)
      | Some f \<Rightarrow> if P_data_contracts \<in> set (pf_mandatory f) then Inr () else Inl (Profile_without_contracts label name))"

definition check_label :: "(string \<times> profile) list \<Rightarrow> string \<times> string list \<Rightarrow> policy_fault + unit" where
  "check_label profiles = (\<lambda>(label, admitted).
     if admitted = [] then Inl (Label_names_no_profile label)
     else check_all (check_admitted profiles label) admitted)"

definition load_estate_policy ::
    "string list \<Rightarrow> (string \<times> profile_document) list \<Rightarrow> (string \<times> string list) list \<Rightarrow> policy_fault + estate_policy" where
  "load_estate_policy structured own labels =
     bind (map_result load_reference_profile profile_names) (\<lambda>reference.
     bind (map_result load_own_profile own) (\<lambda>declared.
     let profiles = reference @ declared in
     bind (check_all (check_label profiles) labels) (\<lambda>_.
     case sorted_list_of_set (fst ` set profiles - set profile_names - \<Union> (set ` snd ` set labels)) of
       name # _ \<Rightarrow> Inl (Orphaned_profile name)
     | [] \<Rightarrow> Inr \<lparr>ep_structured_types = structured, ep_labels = labels, ep_profiles = profiles\<rparr>)))"

section \<open>Labels\<close>

definition resolve_profile_for_label ::
    "estate_policy \<Rightarrow> string \<Rightarrow> string \<Rightarrow> string option \<Rightarrow> string declared" where
  "resolve_profile_for_label policy product label profile =
     (case map_of (ep_labels policy) label of
        None \<Rightarrow> Inl (Label_error product ''unknown_label'' profile)
      | Some admitted \<Rightarrow>
          (case profile of
             None \<Rightarrow>
               (case admitted of
                  [one] \<Rightarrow> Inr one
                | _ \<Rightarrow> Inl (Label_error product ''profile_required'' profile))
           | Some p \<Rightarrow>
               if p \<notin> fst ` set (ep_profiles policy) then Inl (Label_error product ''unknown_profile'' profile)
               else if p \<notin> set admitted then Inl (Label_error product ''profile_not_admitted'' profile)
               else Inr p))"

section \<open>Neutral types\<close>

definition neutral_scalar_types :: "string list" where
  "neutral_scalar_types = [''string'', ''integer'', ''boolean'', ''date'', ''timestamp'']"

definition validate_type :: "estate_policy \<Rightarrow> string \<Rightarrow> string \<Rightarrow> neutral_type \<Rightarrow> unit declared" where
  "validate_type policy product occurrence t =
     (case t of
        Named_type n \<Rightarrow> rule_that product ''non_neutral_type'' occurrence (n \<in> set neutral_scalar_types)
      | Decimal_object precision scale \<Rightarrow> rule_that product ''non_neutral_type'' occurrence (1 \<le> precision)
      | Structured_object n members \<Rightarrow>
          bind (rule_that product ''non_neutral_type'' occurrence
            (n \<noteq> ''decimal'' \<and> n \<noteq> [] \<and> n \<notin> set neutral_scalar_types)) (\<lambda>_.
          rule_that product ''undeclared_structured_type'' occurrence (n \<in> set (ep_structured_types policy))))"

section \<open>Sources\<close>

text \<open>
  \<open>_CONTRACT_REFERENCE\<close>: at least two identifiers between dots, an at sign and digits; the pattern ends in
  \<open>$\<close>, which also matches before a final line break.
\<close>

fun dotted :: "string \<Rightarrow> string list" where
  "dotted [] = [[]]"
| "dotted (c # cs) =
     (if c = CHR ''.'' then [] # dotted cs
      else case dotted cs of [] \<Rightarrow> [[c]] | s # ss \<Rightarrow> (c # s) # ss)"

definition lower_letter :: "char \<Rightarrow> bool" where
  "lower_letter c \<longleftrightarrow> CHR ''a'' \<le> c \<and> c \<le> CHR ''z''"

definition ascii_digit :: "char \<Rightarrow> bool" where
  "ascii_digit c \<longleftrightarrow> CHR ''0'' \<le> c \<and> c \<le> CHR ''9''"

definition identifier_segment :: "string \<Rightarrow> bool" where
  "identifier_segment s = (case s of [] \<Rightarrow> False
     | c # cs \<Rightarrow> lower_letter c \<and> list_all (\<lambda>x. lower_letter x \<or> ascii_digit x \<or> x = CHR ''_'') cs)"

definition major_version :: "string \<Rightarrow> bool" where
  "major_version s =
     (let digits = (if s \<noteq> [] \<and> last s = CHR 0x0A then butlast s else s) in digits \<noteq> [] \<and> list_all ascii_digit digits)"

definition is_contract_reference :: "string \<Rightarrow> bool" where
  "is_contract_reference s =
     (let name = takeWhile (\<lambda>c. c \<noteq> CHR ''@'') s; rest = dropWhile (\<lambda>c. c \<noteq> CHR ''@'') s in
      rest \<noteq> [] \<and> 2 \<le> length (dotted name) \<and> list_all identifier_segment (dotted name) \<and> major_version (tl rest))"

definition check_source ::
    "estate_policy \<Rightarrow> string \<Rightarrow> nat \<times> string option \<times> upstream_source \<Rightarrow> unit declared" where
  "check_source policy product = (\<lambda>(index, kind, s).
     let at = at_index ''sources'' index; fixture = (case kind of None \<Rightarrow> ''contract'' | Some k \<Rightarrow> k) = ''fixture'' in
     bind (rule_that product ''source_not_a_contract'' at (is_contract_reference (us_contract s))) (\<lambda>_.
     bind (rule_that product ''fixture_binding_mismatch'' at (fixture = (us_fixture s \<noteq> None))) (\<lambda>_.
     bind (rule_that product ''fixture_source_names_a_relation'' at (us_fixture s = None \<or> us_relation s = None)) (\<lambda>_.
     bind (check_all (\<lambda>(n, name, type, physical).
         validate_type policy product (at_index (at @ ''.fixture.fields'') n @ ''.type'') type)
       (enumerate 0 (case us_fixture s of None \<Rightarrow> [] | Some cols \<Rightarrow> cols))) (\<lambda>_.
     check_all (\<lambda>(n, source, target, type).
         validate_type policy product (at_index (at @ ''.conform.mapping'') n @ ''.type'') type)
       (enumerate 0 (us_conform s)))))))"

definition read_key :: "upstream_source \<Rightarrow> string" where
  "read_key s = source_relation_key (us_contract s) (us_relation s)"

definition note_read ::
    "string \<Rightarrow> nat \<times> string option \<times> upstream_source \<Rightarrow> string list \<Rightarrow> string list declared" where
  "note_read product = (\<lambda>(index, kind, s) seen.
     if read_key s \<in> set seen then Inl (Declaration_error product ''duplicate_source'' (at_index ''sources'' index))
     else Inr (read_key s # seen))"

text \<open>How several sources combine.\<close>

definition check_combination :: "string \<Rightarrow> nat \<Rightarrow> combination option \<Rightarrow> unit declared" where
  "check_combination product n combine =
     (case combine of
        None \<Rightarrow> rule_that product ''undeclared_composition'' ''combine'' (n < 2)
      | Some c \<Rightarrow>
          let merge = (cb_method c = Some ''merge''); union = (cb_method c = Some ''union'') in
          bind (rule_that product ''combine_without_two_sources'' ''combine'' (2 \<le> n)) (\<lambda>_.
          bind (rule_that product ''unknown_combine_method'' ''combine.method'' (merge \<or> union)) (\<lambda>_.
          bind (rule_that product ''merge_without_keys'' ''combine.keys'' (merge \<longrightarrow> cb_keys c \<noteq> [])) (\<lambda>_.
          bind (rule_that product ''merge_without_a_declared_join'' ''combine.join''
            (merge \<longrightarrow> cb_join c \<in> {Some ''inner'', Some ''outer''})) (\<lambda>_.
          bind (rule_that product ''union_with_a_join'' ''combine.join'' (union \<longrightarrow> cb_join c = None)) (\<lambda>_.
          rule_that product ''union_with_keys'' ''combine.keys'' (union \<longrightarrow> cb_keys c = [])))))))"

definition check_conform ::
    "string \<Rightarrow> combination option \<Rightarrow> nat \<times> string option \<times> upstream_source \<Rightarrow> unit declared" where
  "check_conform product combine = (\<lambda>(index, kind, s).
     rule_that product ''conform_without_a_combination'' (at_index ''sources'' index @ ''.conform'')
       (us_conform s = [] \<or> combine \<noteq> None))"

definition check_sources :: "estate_policy \<Rightarrow> string \<Rightarrow> product_declaration \<Rightarrow> unit declared" where
  "check_sources policy profile_name d =
     (let product = dl_name d; sources = enumerate 0 (dl_sources d); n = length (dl_sources d) in
      bind (check_all (check_source policy product) sources) (\<lambda>_.
      bind (fold_result (note_read product) sources []) (\<lambda>_.
      bind (check_combination product n (dl_combine d)) (\<lambda>_.
      bind (check_all (check_conform product (dl_combine d)) sources) (\<lambda>_.
      rule_that product ''consolidation_needs_two_sources'' ''sources'' (profile_name = ''consolidation'' \<longrightarrow> 2 \<le> n))))))"

section \<open>Steps\<close>

text \<open>What the loop over the steps keeps: the order of the last first occurrence, and every occurrence by pattern.\<close>

type_synonym seen_patterns = "(pattern_id \<times> (nat \<times> string option) list) list"

record step_state =
  ls_last :: int
  ls_seen :: seen_patterns

definition add_seen :: "pattern_id \<Rightarrow> nat \<times> string option \<Rightarrow> seen_patterns \<Rightarrow> seen_patterns" where
  "add_seen p x seen =
     (if p \<in> fst ` set seen then map (\<lambda>(q, xs). (q, if q = p then xs @ [x] else xs)) seen else seen @ [(p, [x])])"

definition order_index :: "profile \<Rightarrow> pattern_id \<Rightarrow> nat option" where
  "order_index f p = map_of (zip (pf_ordering f) [0..<length (pf_ordering f)]) p"

definition step_tag :: "nat \<Rightarrow> pattern_id \<Rightarrow> string" where
  "step_tag index p = at_index ''steps'' index @ '':'' @ pattern_value p"

text \<open>The place of a pattern in the profile's order, looked at when the pattern occurs first.\<close>

definition place_step ::
    "string \<Rightarrow> profile \<Rightarrow> string \<Rightarrow> pattern_id \<Rightarrow> step_state \<Rightarrow> int declared" where
  "place_step product f tag p st =
     (if p \<in> fst ` set (ls_seen st) then Inr (ls_last st)
      else case order_index f p of
        None \<Rightarrow> Inr (ls_last st)
      | Some k \<Rightarrow> bind (rule_that product ''out_of_order_occurrence'' tag (ls_last st \<le> int k)) (\<lambda>_. Inr (int k)))"

definition check_step ::
    "schema_lib \<Rightarrow> estate_policy \<Rightarrow> string \<Rightarrow> profile \<Rightarrow> nat \<times> declared_step \<Rightarrow> step_state \<Rightarrow> step_state declared" where
  "check_step lib policy product f = (\<lambda>(index, s) st.
     case pattern_of_token (ds_token s) of
       None \<Rightarrow> Inl (Declaration_error product ''unknown_pattern_key'' (at_index ''steps'' index))
     | Some p \<Rightarrow>
         let tag = step_tag index p in
         bind (rule_that product ''unknown_pattern_key'' (at_index ''steps'' index) (p \<noteq> P_checkpoint_retries)) (\<lambda>_.
         bind (rule_that product ''forbidden_pattern'' tag (disposition_of f p \<noteq> Some Is_forbidden)) (\<lambda>_.
         bind (rule_that product ''unknown_pattern_key'' tag (\<not> sl_step_error lib p s)) (\<lambda>_.
         bind (place_step product f tag p st) (\<lambda>place.
         bind (check_all (\<lambda>(path, type). validate_type policy product (tag @ path) type) (ds_types s)) (\<lambda>_.
         bind (rule_that product ''publication_key_mismatch'' tag
           (p = P_data_publish \<longrightarrow> (ds_publication_mode s = Some ''incremental'') = ds_unique_key s)) (\<lambda>_.
         Inr \<lparr>ls_last = place, ls_seen = add_seen p (index, ds_stage s) (ls_seen st)\<rparr>)))))))"

text \<open>\<open>"stage" in _pattern_schema(...)\<close>: of the schemas under \<open>schemas/patterns\<close>, one has it.\<close>

definition schema_has_stage :: "pattern_id \<Rightarrow> bool" where
  "schema_has_stage p = (p = P_data_validation)"

definition note_stage ::
    "string \<Rightarrow> pattern_id \<Rightarrow> nat \<times> string option \<Rightarrow> string option list \<Rightarrow> string option list declared" where
  "note_stage product p = (\<lambda>(index, stage) seen.
     if stage \<in> set seen then Inl (Declaration_error product ''duplicate_stage'' (step_tag index p))
     else Inr (stage # seen))"

definition check_repeats :: "string \<Rightarrow> pattern_id \<times> (nat \<times> string option) list \<Rightarrow> unit declared" where
  "check_repeats product = (\<lambda>(p, occurrences).
     case occurrences of
       first # (second, stage) # rest \<Rightarrow>
         bind (rule_that product ''repeated_pattern_without_stage'' (step_tag second p) (schema_has_stage p)) (\<lambda>_.
         bind (fold_result (note_stage product p) occurrences []) (\<lambda>_. Inr ()))
     | _ \<Rightarrow> Inr ())"

definition missing_mandatory :: "profile \<Rightarrow> seen_patterns \<Rightarrow> string list" where
  "missing_mandatory f seen =
     sort (map pattern_value (filter (\<lambda>p. p \<noteq> P_checkpoint_retries \<and> p \<notin> fst ` set seen) (pf_mandatory f)))"

definition check_steps :: "schema_lib \<Rightarrow> estate_policy \<Rightarrow> string \<Rightarrow> profile \<Rightarrow> declared_step list \<Rightarrow> unit declared" where
  "check_steps lib policy product f steps =
     bind (fold_result (check_step lib policy product f) (enumerate 0 steps) \<lparr>ls_last = -1, ls_seen = []\<rparr>) (\<lambda>st.
     bind (check_all (check_repeats product) (ls_seen st)) (\<lambda>_.
     case missing_mandatory f (ls_seen st) of
       [] \<Rightarrow> Inr ()
     | token # _ \<Rightarrow> Inl (Declaration_error product ''missing_mandatory_pattern'' token)))"

section \<open>One declaration\<close>

definition check_checkpointing :: "schema_lib \<Rightarrow> profile \<Rightarrow> product_declaration \<Rightarrow> unit declared" where
  "check_checkpointing lib f d =
     (if P_checkpoint_retries \<in> set (pf_mandatory f) then
        bind (rule_that (dl_name d) ''missing_mandatory_pattern'' ''checkpoint_retries'' (dl_checkpointing d)) (\<lambda>_.
        rule_that (dl_name d) ''unknown_pattern_key'' ''checkpointing'' (\<not> sl_checkpoint_error lib d))
      else Inr ())"

definition check_target :: "schema_lib \<Rightarrow> shape \<Rightarrow> product_declaration \<Rightarrow> unit declared" where
  "check_target lib vault d =
     (case get_shape vault (dl_shape d) of
        None \<Rightarrow> Inl (Declaration_error (dl_name d) ''unknown_shape'' ''target.shape'')
      | Some render \<Rightarrow>
          (case sl_shape_error lib d of
             Some path \<Rightarrow> Inl (Declaration_error (dl_name d) ''wrong_shape_section'' (''target.shape_config.'' @ path))
           | None \<Rightarrow> Inr ()))"

definition validate_declaration ::
    "schema_lib \<Rightarrow> shape \<Rightarrow> estate_policy \<Rightarrow> product_declaration \<Rightarrow> validated_product declared" where
  "validate_declaration lib vault policy d =
     (if dl_name d = [] then Inl (Declaration_error ''<unknown>'' ''malformed_product_block'' ''n/a'')
      else case sl_gate lib d of
        Some (rule, occurrence) \<Rightarrow> Inl (Declaration_error (dl_name d) rule occurrence)
      | None \<Rightarrow>
          bind (resolve_profile_for_label policy (dl_name d) (dl_layer d) (dl_profile d)) (\<lambda>profile_name.
          (case map_of (ep_profiles policy) profile_name of
             None \<Rightarrow> Inl (Missing_profile profile_name)
           | Some f \<Rightarrow>
               bind (check_sources policy profile_name d) (\<lambda>_.
               bind (check_steps lib policy (dl_name d) f (dl_steps d)) (\<lambda>_.
               bind (check_checkpointing lib f d) (\<lambda>_.
               bind (check_target lib vault d) (\<lambda>_.
               Inr \<lparr>vp_name = dl_name d, vp_domain = dl_domain d, vp_layer = dl_layer d, vp_profile = profile_name,
                 vp_shape = dl_shape d\<rparr>)))))))"

end
