(* ===== verification/Declaration_Facts.thy ===== *)
theory Declaration_Facts
  imports Declaration_Validation Composition_Facts Graph_Build
begin

text \<open>
  What the checks of a declaration accept, said without loops: the steps that follow a profile, the sources
  that combine, and the policies under which they are judged.
\<close>

lemma rule_that_simps [simp]:
  "rule_that product rule occurrence ok = Inr u \<longleftrightarrow> ok"
  "rule_that product rule occurrence ok = Inl e \<longleftrightarrow> \<not> ok \<and> e = Declaration_error product rule occurrence"
  by (auto simp: rule_that_def)

section \<open>Profiles\<close>

definition profile_ok :: "profile \<Rightarrow> bool" where
  "profile_ok f \<longleftrightarrow> distinct (pf_mandatory f @ pf_optional f @ pf_forbidden f) \<and>
     distinct (pf_ordering f) \<and> set (pf_ordering f) = set (pf_mandatory f) \<union> set (pf_optional f)"

lemma pattern_set_distinct: "pattern_set key tokens = Inr ps \<Longrightarrow> distinct ps"
proof -
  assume "pattern_set key tokens = Inr ps"
  then obtain ts where "fold_result (\<lambda>t found. case pattern_of_token t of None \<Rightarrow> Inl (Unknown_token key t)
      | Some p \<Rightarrow> Inr (if p \<in> set found then found else found @ [p])) ts [] = Inr ps"
    by (auto simp: pattern_set_def split: option.splits)
  then show ?thesis
    by (rule fold_result_invariant [where P = distinct, rotated 2]) (auto split: option.splits if_splits)
qed

lemma three_disjoint:
  assumes "distinct xs" "distinct ys" "distinct zs"
  shows "length xs + length ys + length zs = card (set xs \<union> set ys \<union> set zs) \<longleftrightarrow> distinct (xs @ ys @ zs)"
proof -
  have "card (set xs \<union> set ys \<union> set zs) = card (set (xs @ ys @ zs))" by (simp add: Un_assoc)
  moreover have "length xs + length ys + length zs = length (xs @ ys @ zs)" by simp
  ultimately show ?thesis by (metis card_distinct distinct_card)
qed

lemma parse_profile_ok:
  assumes "parse_profile_document name doc = Inr f"
  shows "profile_ok f \<and> pf_name f = name"
proof -
  from assms obtain m p q ps where sets: "pattern_set ''mandatory'' (pd_mandatory doc) = Inr m"
      "pattern_set ''optional'' (pd_optional doc) = Inr p" "pattern_set ''forbidden'' (pd_forbidden doc) = Inr q"
    and sum: "length m + length p + length q = card (set m \<union> set p \<union> set q)"
    and ps: "distinct ps" "set ps = set m \<union> set p"
    and f: "f = \<lparr>pf_name = name, pf_mandatory = m, pf_optional = p, pf_forbidden = q, pf_ordering = ps\<rparr>"
    by (auto simp: parse_profile_document_def Let_def split: if_splits)
  from sum have "distinct (m @ p @ q)" using three_disjoint sets [THEN pattern_set_distinct] by blast
  with ps show ?thesis by (simp add: f profile_ok_def)
qed

lemma reference_profiles_load: "list_all (\<lambda>name. case load_profile name of Inr f \<Rightarrow> pf_name f = name | Inl e \<Rightarrow> False) profile_names"
  by code_simp

lemma load_profile_ok: "load_profile name = Inr f \<Longrightarrow> profile_ok f"
  using parse_profile_ok by (auto simp: load_profile_def split: option.splits)

definition policy_ok :: "estate_policy \<Rightarrow> bool" where
  "policy_ok policy \<longleftrightarrow> (\<forall>(name, f) \<in> set (ep_profiles policy). profile_ok f) \<and>
     (\<forall>(label, admitted) \<in> set (ep_labels policy). admitted \<noteq> [] \<and> (\<forall>name \<in> set admitted.
        \<exists>f. map_of (ep_profiles policy) name = Some f \<and> P_data_contracts \<in> set (pf_mandatory f)))"

lemma check_label_Inr:
  "check_label profiles (label, admitted) = Inr () \<longleftrightarrow> admitted \<noteq> [] \<and>
     (\<forall>name \<in> set admitted. \<exists>f. map_of profiles name = Some f \<and> P_data_contracts \<in> set (pf_mandatory f))"
  by (auto simp: check_label_def check_admitted_def split: option.splits if_splits)

lemma loaded_profiles_ok:
  assumes "map_result load_reference_profile profile_names = Inr reference" and "map_result load_own_profile own = Inr declared"
    and "(name, f) \<in> set (reference @ declared)"
  shows "profile_ok f"
proof -
  consider "(name, f) \<in> set reference" | "(name, f) \<in> set declared" using assms(3) by auto
  then show ?thesis
  proof cases
    case 1
    then obtain n where "load_reference_profile n = Inr (name, f)"
      using map_result_mem [OF assms(1), THEN iffD1] by blast
    then show ?thesis by (auto simp: load_reference_profile_def split: sum.splits intro: load_profile_ok)
  next
    case 2
    then obtain x where "load_own_profile x = Inr (name, f)"
      using map_result_mem [OF assms(2), THEN iffD1] by blast
    then show ?thesis
      by (auto simp: load_own_profile_def split: sum.splits prod.splits if_splits dest: parse_profile_ok)
  qed
qed

lemma load_estate_policy_ok:
  assumes "load_estate_policy structured own labels = Inr policy"
  shows "policy_ok policy"
proof -
  from assms obtain reference declared where loaded: "map_result load_reference_profile profile_names = Inr reference"
      "map_result load_own_profile own = Inr declared"
    and labels: "\<forall>l \<in> set labels. check_label (reference @ declared) l = Inr ()"
    and made: "(case sorted_list_of_set (fst ` set (reference @ declared) - set profile_names - \<Union> (set ` snd ` set labels)) of
       name # _ \<Rightarrow> Inl (Orphaned_profile name)
     | [] \<Rightarrow> Inr \<lparr>ep_structured_types = structured, ep_labels = labels, ep_profiles = reference @ declared\<rparr>) = Inr policy"
    unfolding load_estate_policy_def bind_eq_Inr Let_def check_all_Inr by blast
  from made have policy: "policy = \<lparr>ep_structured_types = structured, ep_labels = labels, ep_profiles = reference @ declared\<rparr>"
    by (simp only: split: list.split_asm) (simp_all only: sum.inject sum.distinct)
  have "\<forall>(label, admitted) \<in> set labels. admitted \<noteq> [] \<and> (\<forall>name \<in> set admitted.
      \<exists>f. map_of (reference @ declared) name = Some f \<and> P_data_contracts \<in> set (pf_mandatory f))"
    using labels check_label_Inr by blast
  then show ?thesis using loaded_profiles_ok [OF loaded] by (fastforce simp: policy_ok_def policy)
qed

lemma resolved_label:
  assumes "resolve_profile_for_label policy product label profile = Inr name"
  shows "\<exists>admitted. (label, admitted) \<in> set (ep_labels policy) \<and> name \<in> set admitted"
  using assms
  by (auto simp: resolve_profile_for_label_def split: option.splits list.splits if_splits dest: map_of_SomeD)

section \<open>Steps\<close>

definition step_pattern :: "declared_step \<Rightarrow> pattern_id" where
  "step_pattern s = the (pattern_of_token (ds_token s))"

definition neutral :: "estate_policy \<Rightarrow> neutral_type \<Rightarrow> bool" where
  "neutral policy t = (case t of
     Named_type n \<Rightarrow> n \<in> set neutral_scalar_types
   | Decimal_object precision scale \<Rightarrow> 1 \<le> precision
   | Structured_object n members \<Rightarrow>
       n \<noteq> ''decimal'' \<and> n \<noteq> [] \<and> n \<notin> set neutral_scalar_types \<and> n \<in> set (ep_structured_types policy))"

lemma validate_type_Inr [simp]: "validate_type policy product occurrence t = Inr u \<longleftrightarrow> neutral policy t"
  by (cases t) (auto simp: validate_type_def neutral_def)

definition step_ok :: "schema_lib \<Rightarrow> estate_policy \<Rightarrow> profile \<Rightarrow> declared_step \<Rightarrow> bool" where
  "step_ok lib policy f s \<longleftrightarrow>
     (let p = step_pattern s in
      pattern_of_token (ds_token s) \<noteq> None \<and> p \<noteq> P_checkpoint_retries \<and> disposition_of f p \<noteq> Some Is_forbidden \<and>
      \<not> sl_step_error lib p s \<and> (\<forall>(path, t) \<in> set (ds_types s). neutral policy t) \<and>
      (p = P_data_publish \<longrightarrow> (ds_publication_mode s = Some ''incremental'') = ds_unique_key s))"

fun places_ok :: "profile \<Rightarrow> pattern_id set \<Rightarrow> int \<Rightarrow> pattern_id list \<Rightarrow> bool" where
  "places_ok f seen low [] = True"
| "places_ok f seen low (p # ps) =
     (if p \<in> seen then places_ok f seen low ps
      else case order_index f p of
        None \<Rightarrow> places_ok f (insert p seen) low ps
      | Some k \<Rightarrow> low \<le> int k \<and> places_ok f (insert p seen) (int k) ps)"

text \<open>The first occurrence of each element.\<close>

fun firsts :: "'a list \<Rightarrow> 'a list" where
  "firsts [] = []"
| "firsts (x # xs) = x # filter (\<lambda>y. y \<noteq> x) (firsts xs)"

lemma places_sorted:
  "places_ok f seen low ps \<longleftrightarrow>
     sorted (low # map int (List.map_filter (order_index f) (filter (\<lambda>p. p \<notin> seen) (firsts ps))))"
proof (induction ps arbitrary: seen low)
  case (Cons p ps)
  show ?case
  proof (cases "p \<in> seen")
    case True
    then have "filter (\<lambda>q. q \<notin> seen) (firsts (p # ps)) = filter (\<lambda>q. q \<notin> seen) (firsts ps)"
      by (simp, intro filter_cong) auto
    with True Cons [of seen low] show ?thesis by (simp del: firsts.simps)
  next
    case False
    then have "filter (\<lambda>q. q \<notin> seen) (firsts (p # ps)) = p # filter (\<lambda>q. q \<notin> insert p seen) (firsts ps)"
      by (simp only: firsts.simps filter.simps if_True not_False_eq_True filter_filter list.inject simp_thms) (intro filter_cong refl, auto)
    moreover have "sorted (low # int k # map int ks) \<longleftrightarrow> low \<le> int k \<and> sorted (int k # map int ks)" for k ks by auto
    ultimately show ?thesis using False
      by (cases "order_index f p") (simp_all add: Cons List.map_filter_simps del: firsts.simps sorted_simps)
  qed
qed (simp add: List.map_filter_simps)

text \<open>The occurrences of a pattern so far.\<close>

definition occurrences_in :: "seen_patterns \<Rightarrow> pattern_id \<Rightarrow> (nat \<times> string option) list" where
  "occurrences_in seen p = (case map_of seen p of None \<Rightarrow> [] | Some xs \<Rightarrow> xs)"

lemma add_seen_facts:
  "fst ` set (add_seen p x seen) = insert p (fst ` set seen)"
  "distinct (map fst seen) \<Longrightarrow> distinct (map fst (add_seen p x seen))"
  "occurrences_in (add_seen p x seen) q = occurrences_in seen q @ (if q = p then [x] else [])"
proof -
  show "fst ` set (add_seen p x seen) = insert p (fst ` set seen)" by (force simp: add_seen_def)
  have "map fst (map (\<lambda>(q, xs). (q, if q = p then xs @ [x] else xs)) seen) = map fst seen" by (induction seen) auto
  then show "distinct (map fst seen) \<Longrightarrow> distinct (map fst (add_seen p x seen))"
    unfolding add_seen_def by (cases "p \<in> fst ` set seen") (simp_all del: map_map)
  have "map_of (map (\<lambda>(q, xs). (q, if q = p then xs @ [x] else xs)) seen) q =
      map_option (\<lambda>xs. if q = p then xs @ [x] else xs) (map_of seen q)"
    by (induction seen) auto
  moreover have "p \<in> fst ` set seen \<longleftrightarrow> map_of seen p \<noteq> None" by (simp add: map_of_eq_None_iff)
  ultimately show "occurrences_in (add_seen p x seen) q = occurrences_in seen q @ (if q = p then [x] else [])"
    by (auto simp: add_seen_def occurrences_in_def map_add_def split: option.splits)
qed

lemma note_stages_Inr:
  "(\<exists>found. fold_result (note_stage product p) occurrences seen = Inr found) \<longleftrightarrow>
     distinct (map snd occurrences) \<and> set (map snd occurrences) \<inter> set seen = {}"
proof (induction occurrences arbitrary: seen)
  case (Cons x occurrences)
  have "note_stage product p x seen = Inr found \<longleftrightarrow> snd x \<notin> set seen \<and> found = snd x # seen" for found
    by (auto simp: note_stage_def split: prod.splits)
  then show ?case using Cons [of "snd x # seen"] by auto
qed simp

lemma check_repeats_Inr:
  "check_repeats product (p, occurrences) = Inr () \<longleftrightarrow>
     length occurrences \<le> 1 \<or> p = P_data_validation \<and> distinct (map snd occurrences)"
proof (cases occurrences rule: list.exhaust [case_names Nil Cons])
  case (Cons first rest)
  then show ?thesis
    using note_stages_Inr [of product p occurrences "[]"]
    by (cases rest) (auto simp: check_repeats_def schema_has_stage_def)
qed (simp add: check_repeats_def)

definition seen_after :: "nat \<Rightarrow> declared_step list \<Rightarrow> seen_patterns \<Rightarrow> seen_patterns" where
  "seen_after n steps seen = fold (\<lambda>(index, s). add_seen (step_pattern s) (index, ds_stage s)) (enumerate n steps) seen"

lemma seen_after_simps [simp]:
  "seen_after n [] seen = seen"
  "seen_after n (s # steps) seen = seen_after (Suc n) steps (add_seen (step_pattern s) (n, ds_stage s) seen)"
  by (simp_all add: seen_after_def)

lemma seen_after_facts:
  "fst ` set (seen_after n steps seen) = fst ` set seen \<union> step_pattern ` set steps"
  "distinct (map fst seen) \<Longrightarrow> distinct (map fst (seen_after n steps seen))"
  "map snd (occurrences_in (seen_after n steps seen) p) =
     map snd (occurrences_in seen p) @ map ds_stage (filter (\<lambda>s. step_pattern s = p) steps)"
  by (induction steps arbitrary: n seen) (auto simp: add_seen_facts)

fun end_place :: "profile \<Rightarrow> pattern_id set \<Rightarrow> int \<Rightarrow> pattern_id list \<Rightarrow> int" where
  "end_place f seen low [] = low"
| "end_place f seen low (p # ps) =
     (if p \<in> seen then end_place f seen low ps
      else case order_index f p of
        None \<Rightarrow> end_place f (insert p seen) low ps
      | Some k \<Rightarrow> end_place f (insert p seen) (int k) ps)"

lemma check_step_Inr:
  "check_step lib policy product f (n, s) st = Inr st' \<longleftrightarrow> step_ok lib policy f s \<and>
     (\<exists>place. place_step product f (step_tag n (step_pattern s)) (step_pattern s) st = Inr place \<and>
       st' = \<lparr>ls_last = place, ls_seen = add_seen (step_pattern s) (n, ds_stage s) (ls_seen st)\<rparr>)"
  by (auto simp: check_step_def step_ok_def step_pattern_def Let_def case_prod_beta split: option.splits)

lemma place_step_Inr:
  "place_step product f tag p st = Inr place \<longleftrightarrow>
     places_ok f (fst ` set (ls_seen st)) (ls_last st) [p] \<and> place = end_place f (fst ` set (ls_seen st)) (ls_last st) [p]"
  by (auto simp: place_step_def split: option.splits)

lemma check_steps_loop:
  "fold_result (check_step lib policy product f) (enumerate n steps) st = Inr st' \<longleftrightarrow>
     (\<forall>s \<in> set steps. step_ok lib policy f s) \<and>
     places_ok f (fst ` set (ls_seen st)) (ls_last st) (map step_pattern steps) \<and>
     st' = \<lparr>ls_last = end_place f (fst ` set (ls_seen st)) (ls_last st) (map step_pattern steps),
       ls_seen = seen_after n steps (ls_seen st)\<rparr>"
proof (induction steps arbitrary: n st)
  case (Cons s steps)
  have split: "places_ok f seen low (p # ps) \<longleftrightarrow> places_ok f seen low [p] \<and> places_ok f (insert p seen) (end_place f seen low [p]) ps"
    "end_place f seen low (p # ps) = end_place f (insert p seen) (end_place f seen low [p]) ps" for seen low p ps
    by (auto simp: insert_absorb split: option.splits)
  show ?case
    unfolding enumerate_simps fold_result.simps bind_eq_Inr check_step_Inr place_step_Inr
    by (auto simp: Cons add_seen_facts split [of _ _ "step_pattern s" "map step_pattern steps"] simp del: places_ok.simps end_place.simps)
qed (cases st, cases st', auto)

text \<open>The steps a profile admits, in its order.\<close>

definition follows_profile :: "schema_lib \<Rightarrow> estate_policy \<Rightarrow> profile \<Rightarrow> declared_step list \<Rightarrow> bool" where
  "follows_profile lib policy f steps \<longleftrightarrow>
     (\<forall>s \<in> set steps. step_ok lib policy f s) \<and>
     sorted (List.map_filter (order_index f) (firsts (map step_pattern steps))) \<and>
     (\<forall>p. let stages = map ds_stage (filter (\<lambda>s. step_pattern s = p) steps) in
        length stages \<le> 1 \<or> p = P_data_validation \<and> distinct stages) \<and>
     set (pf_mandatory f) - {P_checkpoint_retries} \<subseteq> step_pattern ` set steps"

lemma missing_mandatory_Nil:
  "missing_mandatory f seen = [] \<longleftrightarrow> set (pf_mandatory f) - {P_checkpoint_retries} \<subseteq> fst ` set seen"
proof -
  have "missing_mandatory f seen = [] \<longleftrightarrow> filter (\<lambda>p. p \<noteq> P_checkpoint_retries \<and> p \<notin> fst ` set seen) (pf_mandatory f) = []"
    unfolding missing_mandatory_def length_0_conv [symmetric] length_sort length_map ..
  then show ?thesis by (auto simp: filter_empty_conv)
qed

lemma check_steps_Inr: "check_steps lib policy product f steps = Inr () \<longleftrightarrow> follows_profile lib policy f steps"
proof -
  let ?seen = "seen_after 0 steps []"
  have sorted: "places_ok f {} (- 1) (map step_pattern steps) \<longleftrightarrow>
      sorted (List.map_filter (order_index f) (firsts (map step_pattern steps)))"
  proof -
    have "sorted (- 1 # map int ks) \<longleftrightarrow> sorted ks" for ks by (auto simp: sorted_map) 
    then show ?thesis by (simp add: places_sorted)
  qed
  have stages: "map snd (occurrences_in ?seen p) = map ds_stage (filter (\<lambda>s. step_pattern s = p) steps)" for p
  proof -
    have "occurrences_in [] p = []" by (simp add: occurrences_in_def)
    then show ?thesis by (simp add: seen_after_facts(3))
  qed
  have count: "length (occurrences_in ?seen p) = length (filter (\<lambda>s. step_pattern s = p) steps)" for p
    using arg_cong [OF stages, of length] by simp
  have keys: "distinct (map fst ?seen)" by (simp add: seen_after_facts)
  have "(\<forall>x \<in> set ?seen. check_repeats product x = Inr ()) \<longleftrightarrow>
      (\<forall>p. check_repeats product (p, occurrences_in ?seen p) = Inr ())"
  proof
    assume all: "\<forall>x \<in> set ?seen. check_repeats product x = Inr ()"
    show "\<forall>p. check_repeats product (p, occurrences_in ?seen p) = Inr ()"
    proof
      fix p
      show "check_repeats product (p, occurrences_in ?seen p) = Inr ()"
      proof (cases "map_of ?seen p")
        case None
        then show ?thesis by (simp add: occurrences_in_def check_repeats_Inr)
      next
        case (Some xs)
        with all map_of_SomeD [OF Some] show ?thesis by (simp add: occurrences_in_def)
      qed
    qed
  next
    assume all: "\<forall>p. check_repeats product (p, occurrences_in ?seen p) = Inr ()"
    show "\<forall>x \<in> set ?seen. check_repeats product x = Inr ()"
    proof clarify
      fix p xs
      assume "(p, xs) \<in> set ?seen"
      then have "occurrences_in ?seen p = xs" using map_of_is_SomeI [OF keys] by (simp add: occurrences_in_def)
      with all show "check_repeats product (p, xs) = Inr ()" by metis
    qed
  qed
  also have "\<dots> \<longleftrightarrow> (\<forall>p. let stages = map ds_stage (filter (\<lambda>s. step_pattern s = p) steps) in
      length stages \<le> 1 \<or> p = P_data_validation \<and> distinct stages)"
    unfolding check_repeats_Inr stages Let_def length_map count ..
  finally have repeats: "(\<forall>x \<in> set ?seen. check_repeats product x = Inr ()) \<longleftrightarrow>
      (\<forall>p. let stages = map ds_stage (filter (\<lambda>s. step_pattern s = p) steps) in
        length stages \<le> 1 \<or> p = P_data_validation \<and> distinct stages)" .
  have "check_steps lib policy product f steps = Inr () \<longleftrightarrow>
      (\<forall>s \<in> set steps. step_ok lib policy f s) \<and> places_ok f {} (- 1) (map step_pattern steps) \<and>
      (\<forall>x \<in> set ?seen. check_repeats product x = Inr ()) \<and> missing_mandatory f ?seen = []"
    by (auto simp: check_steps_def check_steps_loop split: list.splits)
  then show ?thesis
    unfolding sorted repeats missing_mandatory_Nil seen_after_facts(1) follows_profile_def by simp
qed

section \<open>Sources\<close>

definition combination_ok :: "nat \<Rightarrow> combination option \<Rightarrow> bool" where
  "combination_ok n combine = (case combine of
       None \<Rightarrow> n < 2
     | Some c \<Rightarrow> 2 \<le> n \<and>
         (cb_method c = Some ''merge'' \<and> cb_keys c \<noteq> [] \<and> cb_join c \<in> {Some ''inner'', Some ''outer''} \<or>
          cb_method c = Some ''union'' \<and> cb_keys c = [] \<and> cb_join c = None))"

lemma check_combination_Inr: "check_combination product n combine = Inr () \<longleftrightarrow> combination_ok n combine"
  by (cases combine) (auto simp: check_combination_def combination_ok_def Let_def)

lemma note_reads_Inr:
  "(\<exists>found. fold_result (note_read product) (enumerate n sources) seen = Inr found) \<longleftrightarrow>
     distinct (map (read_key \<circ> snd) sources) \<and> (read_key \<circ> snd) ` set sources \<inter> set seen = {}"
proof (induction sources arbitrary: n seen)
  case (Cons x sources)
  have "note_read product (n, x) seen = Inr found \<longleftrightarrow> read_key (snd x) \<notin> set seen \<and> found = read_key (snd x) # seen" for found
    by (auto simp: note_read_def split: prod.splits)
  then show ?case using Cons [of "Suc n" "read_key (snd x) # seen"] by auto
qed simp

lemma check_sources_facts:
  assumes "check_sources policy profile_name d = Inr ()"
  shows "distinct (map (read_key \<circ> snd) (dl_sources d))" "combination_ok (length (dl_sources d)) (dl_combine d)"
    "\<forall>(kind, s) \<in> set (dl_sources d). is_contract_reference (us_contract s)"
proof -
  let ?sources = "enumerate 0 (dl_sources d)"
  from assms have each: "\<forall>x \<in> set ?sources. check_source policy (dl_name d) x = Inr ()"
    and reads: "\<exists>found. fold_result (note_read (dl_name d)) ?sources [] = Inr found"
    and comb: "check_combination (dl_name d) (length (dl_sources d)) (dl_combine d) = Inr ()"
    by (auto simp: check_sources_def Let_def)
  from reads show "distinct (map (read_key \<circ> snd) (dl_sources d))" unfolding note_reads_Inr by simp
  from comb show "combination_ok (length (dl_sources d)) (dl_combine d)" unfolding check_combination_Inr .
  note enumerate_mem [of _ "dl_sources d"]
  with each show "\<forall>(kind, s) \<in> set (dl_sources d). is_contract_reference (us_contract s)"
    by (fastforce simp: check_source_def Let_def)
qed

text \<open>The faults of a declaration that does not say how its sources combine.\<close>

definition undeclared :: "contract_fault \<Rightarrow> bool" where
  "undeclared e = (case e of Undeclared_composition consumer n \<Rightarrow> True | Undeclared_merge_join consumer join \<Rightarrow> True | _ \<Rightarrow> False)"

lemma undeclared_simps [simp]:
  "undeclared (Undeclared_composition consumer n)" "undeclared (Undeclared_merge_join consumer join)"
  "\<not> undeclared (Unresolved_source consumer s)" "\<not> undeclared (Source_expectation consumer s f)"
  "\<not> undeclared (Unconformable consumer s f c)" "\<not> undeclared (Unmergeable consumer s f m)"
  by (simp_all add: undeclared_def)

lemma read_source_fault: "read_source consumer schemas s = Inl e \<Longrightarrow> \<not> undeclared e"
  by (auto simp: read_source_def check_source_expectation_def conform_source_def Let_def bind_eq_Inl
      split: option.splits list.splits if_splits dest!: refuse_first_Inl)

lemma union_source_fault: "union_source consumer opening source = Inl e \<Longrightarrow> \<not> undeclared e"
proof -
  assume fault: "union_source consumer opening source = Inl e"
  obtain contract cols where source: "source = (contract, cols)" by (cases source)
  let ?f = "\<lambda>f (_ :: unit). case field_of cols (rf_name f) of
        None \<Rightarrow> Inl (Unconformable consumer contract (rf_name f) Not_in_source)
      | Some g \<Rightarrow> check_that (rf_type g = rf_type f) (Unconformable consumer contract (rf_name f) Other_type)"
  from fault consider "fold_result ?f (fields_by_name opening) () = Inl e"
    | "refuse_first (\<lambda>n. n \<notin> set (field_names opening)) (\<lambda>n. Unconformable consumer contract n Not_in_union)
        (field_names (fields_by_name cols)) = Inl e"
    by (auto simp: union_source_def source bind_eq_Inl)
  then show ?thesis
  proof cases
    case 1
    then show ?thesis
      by (rule fold_result_error [where P = "\<lambda>_. True" and Q = "\<lambda>e. \<not> undeclared e", rotated 3]) (auto split: option.splits)
  qed (auto dest!: refuse_first_Inl)
qed

lemma union_fields_fault: "union_fields consumer conformed = Inl e \<Longrightarrow> \<not> undeclared e"
proof -
  assume "union_fields consumer conformed = Inl e"
  then have "fold_result (\<lambda>source _. union_source consumer (snd (hd conformed)) source) (tl conformed) () = Inl e"
    by (auto simp: union_fields_def Let_def bind_eq_Inl)
  then show ?thesis
    by (rule fold_result_error [where P = "\<lambda>_. True" and Q = "\<lambda>e. \<not> undeclared e", rotated 3])
      (auto dest: union_source_fault)
qed

lemma merged_fields_fault: "merged_fields consumer keys join conformed = Inl e \<Longrightarrow> \<not> undeclared e"
proof -
  assume "merged_fields consumer keys join conformed = Inl e"
  then consider "map_result (merge_key consumer conformed) keys = Inl e"
    | "fold_result (bring_field consumer keys (join = ''outer''))
        (concat (map (\<lambda>(contract, cols). map (\<lambda>f. (contract, f)) cols) conformed)) ([], []) = Inl e"
    by (auto simp: merged_fields_def bind_eq_Inl split: prod.splits)
  then show ?thesis
  proof cases
    case 1
    then obtain key where fault: "merge_key consumer conformed key = Inl e" by (blast dest: map_result_Inl)
    consider "e = Unmergeable consumer (fst (hd conformed)) key Key_not_carried"
      | carried :: relation_field where "fold_result (\<lambda>(contract, cols) _. case field_of cols key of
            None \<Rightarrow> Inl (Unmergeable consumer contract key Key_not_carried)
          | Some candidate \<Rightarrow> check_that (rf_type candidate = rf_type carried) (Unmergeable consumer contract key Key_type_differs))
          (tl conformed) () = Inl e"
    proof (cases "field_of (snd (hd conformed)) key")
      case None
      with fault show thesis by (intro that(1)) (simp add: merge_key_def)
    next
      case (Some carried)
      with fault show thesis by (intro that(2) [of carried]) (simp add: merge_key_def bind_eq_Inl)
    qed
    then show ?thesis
    proof cases
      case 2
      then show ?thesis
        by (rule fold_result_error [where P = "\<lambda>_. True" and Q = "\<lambda>e. \<not> undeclared e", rotated 3])
          (auto split: prod.splits option.splits)
    qed simp
  next
    case 2
    then show ?thesis
      by (rule fold_result_error [where P = "\<lambda>_. True" and Q = "\<lambda>e. \<not> undeclared e", rotated 3])
        (auto simp: bring_field_def split: prod.splits option.splits if_splits)
  qed
qed

lemma declared_opening_fault:
  assumes "combination_ok (length (cd_sources doc)) (cd_combine doc)" and "resolve_opening_composition consumer doc schemas = Inl e"
  shows "\<not> undeclared e"
proof (cases "map_result (read_source consumer schemas) (cd_sources doc)")
  case (Inl d)
  then have "e = d" using assms(2) by (simp add: resolve_opening_composition_def)
  with Inl show ?thesis by (blast dest: map_result_Inl read_source_fault)
next
  case (Inr reads)
  then have n: "length reads = length (cd_sources doc)" unfolding map_result_Inr by (simp add: list_all2_lengthD)
  consider "reads = []" | r where "reads = [r]" | r s rest where "reads = r # s # rest" by (metis list.exhaust)
  then show ?thesis
  proof cases
    case 3
    then obtain c where c: "cd_combine doc = Some c" using assms(1) n by (cases "cd_combine doc") (auto simp: combination_ok_def)
    with assms(1) have "cb_method c = Some ''merge'' \<and> cb_join c \<in> {Some ''inner'', Some ''outer''} \<or> cb_method c = Some ''union''"
      by (auto simp: combination_ok_def)
    then show ?thesis
    proof (elim disjE conjE)
      assume "cb_method c = Some ''union''"
      with assms(2) Inr 3 c have "union_fields consumer (map fst reads) = Inl e"
        by (auto simp: resolve_opening_composition_def Let_def bind_eq_Inl)
      then show ?thesis by (rule union_fields_fault)
    next
      assume how: "cb_method c = Some ''merge''" and "cb_join c \<in> {Some ''inner'', Some ''outer''}"
      then obtain join where "cb_join c = Some join" "join \<in> {''inner'', ''outer''}" by blast
      with assms(2) Inr 3 c how have "merged_fields consumer (cb_keys c) join (map fst reads) = Inl e"
        by (simp add: resolve_opening_composition_def Let_def bind_eq_Inl)
      then show ?thesis by (rule merged_fields_fault)
    qed
  qed (use assms(2) Inr in \<open>auto simp: resolve_opening_composition_def\<close>)
qed

end
