(* ===== verification/Physical_Names.thy ===== *)
theory Physical_Names
  imports Declaration_Validation
begin

text \<open>
  The rules on stored names, \<open>validate_physical_names\<close>, and the estate-wide checks around them,
  \<open>validate_estate_products\<close>, both of \<open>ergasterion/framework/declaration.py\<close>.
\<close>

section \<open>Stored names\<close>

text \<open>
  An adapter's answer to what a stored name may be. \<open>casefold\<close> is Python's, an argument here; a comparison
  that is neither of the two declared ones raises.
\<close>

record identifier_policy =
  ip_adapter :: string
  ip_quote :: string
  ip_comparison :: string
  ip_max_relation :: "nat option"
  ip_max_column :: "nat option"

datatype name_fault =
    Name_rule string string string
  | Unknown_comparison string
  | Unnamed_shape graph_error
  | Invalid_declaration declaration_fault

definition name_rule :: "string \<Rightarrow> string \<Rightarrow> string \<Rightarrow> bool \<Rightarrow> name_fault + unit" where
  "name_rule product rule occurrence ok = (if ok then Inr () else Inl (Name_rule product rule occurrence))"

definition comparison_key :: "(string \<Rightarrow> string) \<Rightarrow> string \<Rightarrow> string \<Rightarrow> name_fault + string" where
  "comparison_key casefold comparison name =
     (if comparison = ''insensitive'' then Inr (casefold name)
      else if comparison = ''sensitive'' then Inr name
      else Inl (Unknown_comparison comparison))"

definition carries :: "string \<Rightarrow> string \<Rightarrow> bool" where
  "carries text part \<longleftrightarrow> list_ex (\<lambda>n. take (length part) (drop n text) = part) [0..<Suc (length text)]"

definition forbidden_text :: "string list" where
  "forbidden_text = [''.'', [CHR 0x0A], [CHR 0x0D]]"

definition portable :: "string \<Rightarrow> nat option \<Rightarrow> string \<Rightarrow> bool" where
  "portable quote budget name \<longleftrightarrow>
     list_all (\<lambda>text. \<not> carries name text) (quote # forbidden_text) \<and>
     (case budget of None \<Rightarrow> True | Some b \<Rightarrow> length name \<le> b)"

text \<open>\<open>not value.strip()\<close>, on the characters of Latin-1.\<close>

definition is_space :: "char \<Rightarrow> bool" where
  "is_space c \<longleftrightarrow> c \<in> set [CHR 0x09, CHR 0x0A, CHR 0x0B, CHR 0x0C, CHR 0x0D, CHR 0x1C, CHR 0x1D, CHR 0x1E, CHR 0x1F,
     CHR '' '', CHR 0x85, CHR 0xA0]"

definition blank :: "string \<Rightarrow> bool" where
  "blank name = list_all is_space name"

definition check_name ::
    "string \<Rightarrow> string \<Rightarrow> identifier_policy \<Rightarrow> nat option \<Rightarrow> string \<Rightarrow> name_fault + unit" where
  "check_name product occurrence policy budget name =
     bind (name_rule product ''physical_name_missing'' occurrence (\<not> blank name)) (\<lambda>_.
     name_rule product ''physical_name_unportable'' occurrence (portable (ip_quote policy) budget name))"

definition check_schema_override ::
    "string \<Rightarrow> string \<Rightarrow> identifier_policy \<Rightarrow> string \<Rightarrow> name_fault + unit" where
  "check_schema_override product relation policy name =
     bind (name_rule product ''physical_name_missing'' (relation @ ''.schema'') (\<not> blank name)) (\<lambda>_.
     name_rule product ''physical_schema_unaddressable'' (relation @ ''.schema'')
       (portable (ip_quote policy) (ip_max_relation policy) name))"

text \<open>One column given a stored name; the logical names so far, and the comparison keys of the stored ones.\<close>

definition check_column ::
    "(string \<Rightarrow> string) \<Rightarrow> string \<Rightarrow> string \<Rightarrow> identifier_policy \<Rightarrow> string \<times> string \<Rightarrow> string list \<times> string list
       \<Rightarrow> name_fault + string list \<times> string list" where
  "check_column casefold product relation policy = (\<lambda>(logical, physical) (seen, stored).
     let occurrence = relation @ ''.'' @ logical in
     bind (name_rule product ''physical_name_duplicate'' occurrence (logical \<notin> set seen)) (\<lambda>_.
     bind (check_name product occurrence policy (ip_max_column policy) physical) (\<lambda>_.
     bind (comparison_key casefold (ip_comparison policy) physical) (\<lambda>key.
     bind (name_rule product ''physical_name_duplicate'' occurrence (key \<notin> set stored)) (\<lambda>_.
     Inr (logical # seen, key # stored))))))"

definition check_relation_on ::
    "(string \<Rightarrow> string) \<Rightarrow> string \<Rightarrow> string \<Rightarrow> physical_relation \<Rightarrow> identifier_policy \<Rightarrow> name_fault + unit" where
  "check_relation_on casefold product relation entry policy =
     bind (case ph_name entry of None \<Rightarrow> Inr ()
       | Some name \<Rightarrow> check_name product relation policy (ip_max_relation policy) name) (\<lambda>_.
     bind (case ph_schema entry of None \<Rightarrow> Inr ()
       | Some name \<Rightarrow> check_schema_override product relation policy name) (\<lambda>_.
     bind (fold_result (check_column casefold product relation policy) (ph_fields entry) ([], [])) (\<lambda>_. Inr ())))"

definition check_relation ::
    "(string \<Rightarrow> string) \<Rightarrow> identifier_policy list \<Rightarrow> string \<Rightarrow> string \<Rightarrow> physical_relation \<Rightarrow> name_fault + unit" where
  "check_relation casefold policies product relation entry =
     check_all (check_relation_on casefold product relation entry) policies"

section \<open>Coordinates\<close>

text \<open>\<open>relation.replace(".", "__", 1)\<close>.\<close>

fun default_table :: "string \<Rightarrow> string" where
  "default_table [] = []"
| "default_table (c # cs) = (if c = CHR ''.'' then ''__'' @ cs else c # default_table cs)"

definition stated_name :: "physical_relation option \<Rightarrow> string \<Rightarrow> string" where
  "stated_name entry relation =
     (case entry of
        Some e \<Rightarrow> (case ph_name e of Some name \<Rightarrow> if name = [] then default_table relation else name | None \<Rightarrow> default_table relation)
      | None \<Rightarrow> default_table relation)"

definition stated_schema :: "physical_relation option \<Rightarrow> string" where
  "stated_schema entry = (case entry of Some e \<Rightarrow> (case ph_schema e of Some name \<Rightarrow> name | None \<Rightarrow> []) | None \<Rightarrow> [])"

record coordinate =
  cr_schema_key :: string
  cr_table_key :: string
  cr_relation :: string
  cr_product :: string

type_synonym named_document = "string \<times> (string option \<times> physical_relation) list \<times> string list"

text \<open>The stored names a declaration states, each for a relation its product publishes.\<close>

definition check_stated ::
    "(string \<Rightarrow> string) \<Rightarrow> identifier_policy list \<Rightarrow> named_document \<Rightarrow> name_fault + unit" where
  "check_stated casefold policies = (\<lambda>(product, declared, names).
     check_all (\<lambda>(key, entry).
         case map_of (addressable_relations product names) key of
           None \<Rightarrow> Inl (Name_rule product ''physical_name_missing''
             (''physical.relations.'' @ (case key of None \<Rightarrow> ''None'' | Some k \<Rightarrow> k)))
         | Some relation \<Rightarrow> check_relation casefold policies product relation entry)
       (sort_key (\<lambda>(key, entry). (key \<noteq> None, case key of None \<Rightarrow> [] | Some k \<Rightarrow> k)) declared))"

definition coordinate_on ::
    "(string \<Rightarrow> string) \<Rightarrow> named_document \<Rightarrow> identifier_policy \<Rightarrow> string option \<times> string \<Rightarrow> name_fault + coordinate" where
  "coordinate_on casefold = (\<lambda>(product, declared, names) policy (key, relation).
     let entry = map_of declared key in
     bind (comparison_key casefold (ip_comparison policy) (stated_schema entry)) (\<lambda>schema_key.
     bind (comparison_key casefold (ip_comparison policy) (stated_name entry relation)) (\<lambda>table_key.
     Inr \<lparr>cr_schema_key = schema_key, cr_table_key = table_key, cr_relation = relation, cr_product = product\<rparr>)))"

definition published_relations :: "named_document \<Rightarrow> (string option \<times> string) list" where
  "published_relations = (\<lambda>(product, declared, names).
     sort_key snd (remdups (addressable_relations product names)))"

text \<open>
  What one declaration adds to the coordinates of each adapter: a loop over its relations, and for each of
  them over the adapters. The lists of the adapters stand in the order of the policies.
\<close>

definition place_relation ::
    "(string \<Rightarrow> string) \<Rightarrow> identifier_policy list \<Rightarrow> named_document \<Rightarrow> string option \<times> string
       \<Rightarrow> coordinate list list \<Rightarrow> name_fault + coordinate list list" where
  "place_relation casefold policies doc published placed =
     bind (map_result (\<lambda>policy. coordinate_on casefold doc policy published) policies) (\<lambda>row.
     Inr (map (\<lambda>(xs, x). xs @ [x]) (zip placed row)))"

definition place_document ::
    "(string \<Rightarrow> string) \<Rightarrow> identifier_policy list \<Rightarrow> named_document \<Rightarrow> coordinate list list
       \<Rightarrow> name_fault + coordinate list list" where
  "place_document casefold policies doc placed =
     bind (check_stated casefold policies doc) (\<lambda>_.
     fold_result (place_relation casefold policies doc) (published_relations doc) placed)"

definition note_coordinate ::
    "coordinate \<Rightarrow> (string \<times> string) list \<Rightarrow> name_fault + (string \<times> string) list" where
  "note_coordinate c seen =
     (if (cr_schema_key c, cr_table_key c) \<in> set seen
      then Inl (Name_rule (cr_product c) ''physical_relation_conflict'' (cr_relation c))
      else Inr ((cr_schema_key c, cr_table_key c) # seen))"

definition validate_physical_names ::
    "(string \<Rightarrow> string) \<Rightarrow> identifier_policy list \<Rightarrow> named_document list \<Rightarrow> name_fault + unit" where
  "validate_physical_names casefold policies documents =
     (if policies = [] then
        (case sort (map fst (filter (\<lambda>(product, declared, names). declared \<noteq> []) documents)) of
           product # _ \<Rightarrow> Inl (Name_rule product ''physical_name_unportable'' ''physical'')
         | [] \<Rightarrow> Inr ())
      else
        bind (fold_result (place_document casefold policies) (sort_key fst documents) (map (\<lambda>_. []) policies)) (\<lambda>placed.
        check_all (\<lambda>cs. bind (fold_result note_coordinate cs []) (\<lambda>_. Inr ())) placed))"

section \<open>The products of an estate\<close>

record estate_state =
  es_documents :: "named_document list"
  es_published :: "string list"
  es_fixture_bound :: "(string \<times> string) list"
  es_validated :: "string list"

text \<open>The contracts a declaration binds to a fixture; the first consumer that binds one keeps it.\<close>

definition bind_fixture :: "string \<Rightarrow> string option \<times> upstream_source \<Rightarrow> (string \<times> string) list \<Rightarrow> (string \<times> string) list" where
  "bind_fixture consumer = (\<lambda>(kind, s) bound.
     if kind \<noteq> Some ''fixture'' \<or> contract_target (us_contract s) \<in> fst ` set bound then bound
     else bound @ [(contract_target (us_contract s), consumer)])"

definition validate_product ::
    "schema_lib \<Rightarrow> shape \<Rightarrow> estate_policy \<Rightarrow> product_declaration \<Rightarrow> estate_state \<Rightarrow> name_fault + estate_state" where
  "validate_product lib vault policy d st =
     (case validate_declaration lib vault policy d of
        Inl e \<Rightarrow> Inl (Invalid_declaration e)
      | Inr v \<Rightarrow>
          let published = published_name v in
          (case shape_relation_names (vp_shape v) (vp_domain v) (vp_name v) (section_names (vp_shape v) (dl_shape_config d)) of
             Inl e \<Rightarrow> Inl (Unnamed_shape e)
           | Inr names \<Rightarrow>
               if published \<in> set (es_published st) then Inl (Name_rule (vp_name v) ''duplicate_published_name'' published)
               else Inr \<lparr>es_documents = es_documents st @ [(published, dl_physical d, names)],
                 es_published = es_published st @ [published],
                 es_fixture_bound = fold (bind_fixture (vp_name v)) (dl_sources d) (es_fixture_bound st),
                 es_validated = es_validated st @ [vp_name v]\<rparr>))"

definition check_shadowed :: "string list \<Rightarrow> string \<times> string \<Rightarrow> name_fault + unit" where
  "check_shadowed published = (\<lambda>(target, consumer).
     name_rule consumer ''fixture_shadows_declared_product'' target (target \<notin> set published))"

text \<open>The declarations come in the order of their paths; \<open>policies\<close> are the adapters' identifier policies.\<close>

definition validate_estate_products ::
    "schema_lib \<Rightarrow> shape \<Rightarrow> estate_policy \<Rightarrow> (string \<Rightarrow> string) \<Rightarrow> identifier_policy list \<Rightarrow> product_declaration list
       \<Rightarrow> name_fault + string list" where
  "validate_estate_products lib vault policy casefold policies declarations =
     bind (fold_result (validate_product lib vault policy) declarations
       \<lparr>es_documents = [], es_published = [], es_fixture_bound = [], es_validated = []\<rparr>) (\<lambda>st.
     bind (check_all (check_shadowed (es_published st)) (sort_key fst (es_fixture_bound st))) (\<lambda>_.
     bind (validate_physical_names casefold
       (if \<exists>(product, declared, names) \<in> set (es_documents st). declared \<noteq> [] then policies else []) (es_documents st)) (\<lambda>_.
     Inr (sort (es_validated st)))))"

end
