(* ===== verification/Physical_Facts.thy ===== *)
theory Physical_Facts
  imports Physical_Names
begin

text \<open>What the rules on stored names accept, said without loops.\<close>

lemma name_rule_simps [simp]:
  "name_rule product rule occurrence ok = Inr u \<longleftrightarrow> ok"
  by (auto simp: name_rule_def)

section \<open>One stored name\<close>

definition name_ok :: "identifier_policy \<Rightarrow> nat option \<Rightarrow> string \<Rightarrow> bool" where
  "name_ok policy budget name \<longleftrightarrow> \<not> blank name \<and> portable (ip_quote policy) budget name"

lemma check_name_Inr: "check_name product occurrence policy budget name = Inr u \<longleftrightarrow> name_ok policy budget name"
  by (auto simp: check_name_def name_ok_def)

lemma check_schema_Inr:
  "check_schema_override product relation policy name = Inr u \<longleftrightarrow> name_ok policy (ip_max_relation policy) name"
  by (auto simp: check_schema_override_def name_ok_def)

definition known_comparison :: "identifier_policy \<Rightarrow> bool" where
  "known_comparison policy \<longleftrightarrow> ip_comparison policy \<in> {''insensitive'', ''sensitive''}"

definition compared :: "(string \<Rightarrow> string) \<Rightarrow> identifier_policy \<Rightarrow> string \<Rightarrow> string" where
  "compared casefold policy name = (if ip_comparison policy = ''insensitive'' then casefold name else name)"

lemma comparison_key_Inr:
  "comparison_key casefold (ip_comparison policy) name = Inr k \<longleftrightarrow> known_comparison policy \<and> k = compared casefold policy name"
  by (auto simp: comparison_key_def known_comparison_def compared_def)

text \<open>Each column has one stored name, which the adapter can address, and no two have the same one.\<close>

definition columns_ok :: "(string \<Rightarrow> string) \<Rightarrow> identifier_policy \<Rightarrow> (string \<times> string) list \<Rightarrow> bool" where
  "columns_ok casefold policy cols \<longleftrightarrow> distinct (map fst cols) \<and>
     (\<forall>(logical, physical) \<in> set cols. name_ok policy (ip_max_column policy) physical \<and> known_comparison policy) \<and>
     distinct (map (compared casefold policy \<circ> snd) cols)"

lemma check_column_Inr:
  "check_column casefold product relation policy (logical, physical) (seen, stored) = Inr st \<longleftrightarrow>
     logical \<notin> set seen \<and> name_ok policy (ip_max_column policy) physical \<and> known_comparison policy \<and>
     compared casefold policy physical \<notin> set stored \<and> st = (logical # seen, compared casefold policy physical # stored)"
  by (auto simp: check_column_def check_name_Inr comparison_key_Inr Let_def bind_eq_Inr)

lemma check_columns_Inr:
  "(\<exists>st. fold_result (check_column casefold product relation policy) cols (seen, stored) = Inr st) \<longleftrightarrow>
     columns_ok casefold policy cols \<and> fst ` set cols \<inter> set seen = {} \<and>
     (compared casefold policy \<circ> snd) ` set cols \<inter> set stored = {}"
proof (induction cols arbitrary: seen stored)
  case (Cons x cols)
  obtain logical physical where x: "x = (logical, physical)" by (cases x)
  show ?case
    unfolding x fold_result.simps bind_eq_Inr check_column_Inr
    using Cons [of "logical # seen" "compared casefold policy physical # stored"] by (auto simp: columns_ok_def)
qed (simp add: columns_ok_def)

definition stored_ok :: "(string \<Rightarrow> string) \<Rightarrow> identifier_policy \<Rightarrow> physical_relation \<Rightarrow> bool" where
  "stored_ok casefold policy entry \<longleftrightarrow>
     (\<forall>name \<in> set_option (ph_name entry) \<union> set_option (ph_schema entry). name_ok policy (ip_max_relation policy) name) \<and>
     columns_ok casefold policy (ph_fields entry)"

lemma check_relation_Inr:
  "check_relation casefold policies product relation entry = Inr () \<longleftrightarrow> (\<forall>policy \<in> set policies. stored_ok casefold policy entry)"
proof -
  have "check_relation_on casefold product relation entry policy = Inr () \<longleftrightarrow> stored_ok casefold policy entry" for policy
    using check_columns_Inr [of casefold product relation policy "ph_fields entry" "[]" "[]"]
    by (auto simp: check_relation_on_def stored_ok_def check_name_Inr check_schema_Inr split: option.splits)
  then show ?thesis by (simp add: check_relation_def)
qed

definition stated_ok :: "(string \<Rightarrow> string) \<Rightarrow> identifier_policy list \<Rightarrow> named_document \<Rightarrow> bool" where
  "stated_ok casefold policies = (\<lambda>(product, declared, names). \<forall>(key, entry) \<in> set declared.
     map_of (addressable_relations product names) key \<noteq> None \<and> (\<forall>policy \<in> set policies. stored_ok casefold policy entry))"

lemma check_stated_Inr: "check_stated casefold policies doc = Inr () \<longleftrightarrow> stated_ok casefold policies doc"
  by (cases doc) (auto simp: check_stated_def stated_ok_def check_relation_Inr split: option.splits)

section \<open>Coordinates\<close>

text \<open>The coordinates of the relations of some declarations, on one adapter.\<close>

definition coordinates_on ::
    "(string \<Rightarrow> string) \<Rightarrow> identifier_policy \<Rightarrow> named_document list \<Rightarrow> name_fault + coordinate list" where
  "coordinates_on casefold policy docs = map_result (\<lambda>(doc, published). coordinate_on casefold doc policy published)
     (concat (map (\<lambda>doc. map (Pair doc) (published_relations doc)) docs))"

lemma map_result_append:
  "map_result f xs = Inr as \<Longrightarrow> map_result f ys = Inr bs \<Longrightarrow> map_result f (xs @ ys) = Inr (as @ bs)"
  by (induction xs arbitrary: as) auto

lemma placed_relation:
  assumes "place_relation casefold policies doc published placed = Inr placed'" and "length placed = length policies"
  shows "length placed' = length policies"
    "\<forall>k < length policies. \<exists>c. coordinate_on casefold doc (policies ! k) published = Inr c \<and> placed' ! k = placed ! k @ [c]"
proof -
  from assms(1) obtain row where row: "map_result (\<lambda>policy. coordinate_on casefold doc policy published) policies = Inr row"
    and placed': "placed' = map (\<lambda>(xs, x). xs @ [x]) (zip placed row)"
    by (auto simp: place_relation_def)
  have n: "length row = length policies" and at: "\<forall>k < length policies. coordinate_on casefold doc (policies ! k) published = Inr (row ! k)"
    using row unfolding map_result_Inr by (auto simp: list_all2_conv_all_nth)
  show "length placed' = length policies" by (simp add: placed' n assms(2))
  show "\<forall>k < length policies. \<exists>c. coordinate_on casefold doc (policies ! k) published = Inr c \<and> placed' ! k = placed ! k @ [c]"
    using at by (simp add: placed' n assms(2))
qed

lemma placed_relations:
  assumes "fold_result (place_relation casefold policies doc) rs placed = Inr placed'" and "length placed = length policies"
  shows "length placed' = length policies \<and> (\<forall>k < length policies. \<exists>cs.
    map_result (coordinate_on casefold doc (policies ! k)) rs = Inr cs \<and> placed' ! k = placed ! k @ cs)"
  using assms
proof (induction rs arbitrary: placed)
  case (Cons r rs)
  from Cons.prems(1) obtain mid where mid: "place_relation casefold policies doc r placed = Inr mid"
    "fold_result (place_relation casefold policies doc) rs mid = Inr placed'" by auto
  note here = placed_relation [OF mid(1) Cons.prems(2)]
  note rest = Cons.IH [OF mid(2) here(1)]
  show ?case
  proof (intro conjI allI impI)
    fix k
    assume k: "k < length policies"
    from here(2) k obtain c where "coordinate_on casefold doc (policies ! k) r = Inr c" "mid ! k = placed ! k @ [c]" by blast
    moreover from rest k obtain cs where "map_result (coordinate_on casefold doc (policies ! k)) rs = Inr cs" "placed' ! k = mid ! k @ cs"
      by blast
    ultimately show "\<exists>cs. map_result (coordinate_on casefold doc (policies ! k)) (r # rs) = Inr cs \<and> placed' ! k = placed ! k @ cs"
      by simp
  qed (use rest in simp)
qed simp

lemma place_document_Inr:
  "place_document casefold policies doc placed = Inr mid \<longleftrightarrow>
     stated_ok casefold policies doc \<and> fold_result (place_relation casefold policies doc) (published_relations doc) placed = Inr mid"
  by (auto simp: place_document_def check_stated_Inr)

lemma placed_documents:
  assumes "fold_result (place_document casefold policies) docs placed = Inr placed'" and "length placed = length policies"
  shows "(\<forall>doc \<in> set docs. stated_ok casefold policies doc) \<and> length placed' = length policies \<and>
    (\<forall>k < length policies. \<exists>cs. coordinates_on casefold (policies ! k) docs = Inr cs \<and> placed' ! k = placed ! k @ cs)"
  using assms
proof (induction docs arbitrary: placed)
  case (Cons doc docs)
  from Cons.prems(1) obtain mid where stated: "stated_ok casefold policies doc"
    and mid: "fold_result (place_relation casefold policies doc) (published_relations doc) placed = Inr mid"
      "fold_result (place_document casefold policies) docs mid = Inr placed'"
    unfolding fold_result.simps bind_eq_Inr place_document_Inr by blast
  note here = placed_relations [OF mid(1) Cons.prems(2)]
  note rest = Cons.IH [OF mid(2) here [THEN conjunct1]]
  have split: "coordinates_on casefold policy (doc # docs) = Inr (cs @ ds)"
    if "map_result (coordinate_on casefold doc policy) (published_relations doc) = Inr cs"
      "coordinates_on casefold policy docs = Inr ds" for policy cs ds
  proof -
    have "map_result (\<lambda>(doc, published). coordinate_on casefold doc policy published) (map (Pair doc) rs) =
        map_result (coordinate_on casefold doc policy) rs" for rs
      by (induction rs) auto
    with that show ?thesis by (simp add: coordinates_on_def map_result_append)
  qed
  show ?case
  proof (intro conjI allI impI)
    fix k
    assume k: "k < length policies"
    from here k obtain cs where "map_result (coordinate_on casefold doc (policies ! k)) (published_relations doc) = Inr cs"
      "mid ! k = placed ! k @ cs" by blast
    moreover from rest k obtain ds where "coordinates_on casefold (policies ! k) docs = Inr ds" "placed' ! k = mid ! k @ ds" by blast
    ultimately show "\<exists>cs. coordinates_on casefold (policies ! k) (doc # docs) = Inr cs \<and> placed' ! k = placed ! k @ cs"
      using split by auto
  qed (use rest stated in auto)
qed (simp add: coordinates_on_def)

lemma note_coordinates_Inr:
  "(\<exists>found. fold_result note_coordinate cs seen = Inr found) \<longleftrightarrow>
     distinct (map (\<lambda>c. (cr_schema_key c, cr_table_key c)) cs) \<and> (\<lambda>c. (cr_schema_key c, cr_table_key c)) ` set cs \<inter> set seen = {}"
  by (induction cs arbitrary: seen) (auto simp: note_coordinate_def)

lemma validated_names:
  assumes "validate_physical_names casefold policies documents = Inr ()" and "policy \<in> set policies"
  shows "(\<forall>doc \<in> set documents. stated_ok casefold policies doc) \<and>
    (\<exists>cs. coordinates_on casefold policy (sort_key fst documents) = Inr cs \<and>
      distinct (map (\<lambda>c. (cr_schema_key c, cr_table_key c)) cs))"
proof -
  let ?none = "map (\<lambda>_. []) policies"
  from assms(2) have "policies \<noteq> []" by auto
  with assms(1) have "bind (fold_result (place_document casefold policies) (sort_key fst documents) ?none)
      (\<lambda>placed. check_all (\<lambda>cs. bind (fold_result note_coordinate cs []) (\<lambda>_. Inr ())) placed) = Inr ()"
    by (simp add: validate_physical_names_def)
  then obtain placed where placed: "fold_result (place_document casefold policies) (sort_key fst documents) ?none = Inr placed"
    and each: "\<forall>cs \<in> set placed. \<exists>found. fold_result note_coordinate cs [] = Inr found"
    unfolding bind_eq_Inr check_all_Inr by auto
  have facts: "(\<forall>doc \<in> set (sort_key fst documents). stated_ok casefold policies doc) \<and> length placed = length policies \<and>
    (\<forall>k < length policies. \<exists>cs. coordinates_on casefold (policies ! k) (sort_key fst documents) = Inr cs \<and> placed ! k = ?none ! k @ cs)"
    by (rule placed_documents [OF placed]) simp
  from assms(2) obtain k where k: "k < length policies" "policies ! k = policy" by (auto simp: in_set_conv_nth)
  with facts obtain cs where cs: "coordinates_on casefold policy (sort_key fst documents) = Inr cs" "placed ! k = cs" by fastforce
  have "cs \<in> set placed" using cs(2) k(1) facts nth_mem by metis
  with each have "distinct (map (\<lambda>c. (cr_schema_key c, cr_table_key c)) cs)" using note_coordinates_Inr by blast
  with cs(1) facts show ?thesis by simp
qed

end
