(* ===== verification/Declaration_Props.thy ===== *)
theory Declaration_Props
  imports Declaration_Facts Physical_Facts Estate_Registry
begin

text \<open>
  What an accepted declaration guarantees: its steps follow its profile, its sources combine, it publishes a
  data contract, and its stored names meet no other.
\<close>

section \<open>An example\<close>

definition eg_step :: "string \<Rightarrow> string option \<Rightarrow> declared_step" where
  "eg_step token stage = \<lparr>ds_token = token, ds_types = [], ds_stage = stage, ds_publication_mode = None,
     ds_unique_key = False, ds_compose = Plain_step token\<rparr>"

definition eg_landing_steps :: "declared_step list" where
  "eg_landing_steps = [eg_step ''batch_ingestion'' None, eg_step ''data_validation'' (Some ''pre''),
     eg_step ''data_contracts'' None, eg_step ''lineage_capture'' None, eg_step ''metadata_capture'' None,
     eg_step ''schema_publish'' None, eg_step ''data_publish'' None, eg_step ''data_validation'' (Some ''post'')]"

definition eg_section :: shape_section where
  "eg_section = \<lparr>ss_canonical = [], ss_ods = [], ss_dimensions = [], ss_facts = [], ss_metrics = [],
     ss_vault = \<lparr>vs_hubs = [], vs_links = [], vs_satellites = [], vs_surviving = [], vs_instants = []\<rparr>\<rparr>"

definition eg_source :: "string \<Rightarrow> string option \<times> upstream_source" where
  "eg_source reference = (None,
     \<lparr>us_contract = reference, us_relation = None, us_expect = [], us_conform = [], us_fixture = None\<rparr>)"

definition eg_declared :: "(string option \<times> upstream_source) list \<Rightarrow> combination option \<Rightarrow> product_declaration" where
  "eg_declared sources combine = \<lparr>dl_name = ''r'', dl_domain = ''s'', dl_layer = ''raw'', dl_profile = None,
     dl_sources = sources, dl_combine = combine, dl_steps = eg_landing_steps, dl_checkpointing = True,
     dl_shape = ''declared'', dl_shape_config = eg_section, dl_physical = []\<rparr>"

definition eg_lib :: schema_lib where
  "eg_lib = \<lparr>sl_gate = (\<lambda>_. None), sl_step_error = (\<lambda>_ _. False), sl_checkpoint_error = (\<lambda>_. False),
     sl_shape_error = (\<lambda>_. None)\<rparr>"

definition eg_policy :: estate_policy where
  "eg_policy = (case load_estate_policy [] [] [(''raw'', [''landing''])] of Inr p \<Rightarrow> p
     | Inl e \<Rightarrow> \<lparr>ep_structured_types = [], ep_labels = [], ep_profiles = []\<rparr>)"

definition eg_no_vault :: shape where "eg_no_vault domain name cfg cols = Inr []"

definition eg_two :: product_declaration where
  "eg_two = eg_declared [eg_source ''s.a@1'', eg_source ''s.b@1'']
     (Some \<lparr>cb_method = Some ''merge'', cb_keys = [''k''], cb_join = Some ''inner''\<rparr>)"

definition eg_product :: validated_product where
  "eg_product = \<lparr>vp_name = ''r'', vp_domain = ''s'', vp_layer = ''raw'', vp_profile = ''landing'', vp_shape = ''declared''\<rparr>"

lemma eg_policy_loads: "load_estate_policy [] [] [(''raw'', [''landing''])] = Inr eg_policy"
  by code_simp

lemma eg_two_accepted: "validate_declaration eg_lib eg_no_vault eg_policy eg_two = Inr eg_product"
  by code_simp

section \<open>An accepted declaration\<close>

lemma accepted_declaration:
  assumes "validate_declaration lib vault policy d = Inr v"
  obtains f where "resolve_profile_for_label policy (dl_name d) (dl_layer d) (dl_profile d) = Inr (vp_profile v)"
    "map_of (ep_profiles policy) (vp_profile v) = Some f" "check_sources policy (vp_profile v) d = Inr ()"
    "check_steps lib policy (dl_name d) f (dl_steps d) = Inr ()"
proof -
  from assms obtain name f where "resolve_profile_for_label policy (dl_name d) (dl_layer d) (dl_profile d) = Inr name"
    "map_of (ep_profiles policy) name = Some f" "check_sources policy name d = Inr ()"
    "check_steps lib policy (dl_name d) f (dl_steps d) = Inr ()" "vp_profile v = name"
    by (auto simp: validate_declaration_def split: if_splits option.splits)
  with that show thesis by blast
qed

text \<open>C11: The loop over the steps of a declaration accepts exactly the compositions the profile describes: every
  step names a pattern the profile does not forbid and satisfies that pattern's own rules, the first occurrences
  of the patterns stand in the profile's order, a pattern is repeated only if it is a validation and every
  repetition has a stage of its own, and no mandatory pattern is missing.\<close>

theorem composition_follows_profile:
  "check_steps lib policy product f steps = Inr () \<longleftrightarrow>
     list_all (step_ok lib policy f) steps \<and>
     sorted (List.map_filter (order_index f) (firsts (map step_pattern steps))) \<and>
     (\<forall>p. case map ds_stage (filter (\<lambda>s. step_pattern s = p) steps) of
        first # second # rest \<Rightarrow> p = P_data_validation \<and> distinct (first # second # rest)
      | _ \<Rightarrow> True) \<and>
     set (pf_mandatory f) - {P_checkpoint_retries} \<subseteq> step_pattern ` set steps"
proof -
  have "(case stages of first # second # rest \<Rightarrow> q \<and> distinct (first # second # rest) | _ \<Rightarrow> True) \<longleftrightarrow>
      length stages \<le> 1 \<or> q \<and> distinct stages" for stages :: "string option list" and q
    by (cases stages rule: remdups_adj.cases) auto
  then show ?thesis
    unfolding check_steps_Inr follows_profile_def list_all_iff Let_def by presburger
qed

lemma reads_keys:
  assumes "map_result (read_source consumer schemas) sources = Inr reads"
  shows "map (sc_key \<circ> snd) reads = map read_key sources"
  using assms unfolding map_result_Inr
  by (induction rule: list_all2_induct) (auto simp: read_source_Inr read_key_def split: prod.splits)

text \<open>C7: The sources of an accepted declaration combine: resolving its opening relation can fail on what a source
  publishes, but never because the combination was left out; and when it succeeds, the result has one source
  for each declared one, in distinct coordinates, a combination exactly when there are two sources or more, and
  keys whenever it merges.\<close>

theorem accepted_sources_combine:
  assumes "validate_declaration lib vault policy d = Inr v"
  shows "case resolve_opening_composition consumer (composition_of d) schemas of
      Inl e \<Rightarrow> \<not> undeclared e
    | Inr op \<Rightarrow> distinct (map sc_key (op_sources op)) \<and> length (op_sources op) = length (dl_sources d) \<and>
        (op_method op = None \<longleftrightarrow> length (dl_sources d) < 2) \<and>
        (op_method op \<noteq> Some ''merge'' \<or> op_keys op \<noteq> [])"
proof -
  obtain f where "check_sources policy (vp_profile v) d = Inr ()" by (rule accepted_declaration [OF assms])
  note sources = check_sources_facts [OF this]
  let ?doc = "composition_of d"
  have doc: "cd_sources ?doc = map snd (dl_sources d)" "cd_combine ?doc = dl_combine d" by (simp_all add: composition_of_def)
  show ?thesis
  proof (cases "resolve_opening_composition consumer ?doc schemas")
    case (Inl e)
    have "\<not> undeclared e" by (rule declared_opening_fault [OF _ Inl]) (simp add: doc sources(2))
    with Inl show ?thesis by simp
  next
    case (Inr op)
    have keys: "map (sc_key \<circ> snd) reads = map (read_key \<circ> snd) (dl_sources d)"
      if "map_result (read_source consumer schemas) (cd_sources ?doc) = Inr reads" for reads
      using reads_keys [OF that] by (simp add: doc)
    then have n: "length reads = length (dl_sources d)"
      if "map_result (read_source consumer schemas) (cd_sources ?doc) = Inr reads" for reads
      using arg_cong [OF keys [OF that], of length] by simp
    from Inr show ?thesis
    proof (cases rule: opening_cases)
      case (1 reads)
      with keys [OF 1(1)] n [OF 1(1)] sources(1) Inr show ?thesis by simp
    next
      case (2 reads)
      have "map sc_key (op_sources op) = map (sc_key \<circ> snd) reads" by (simp add: 2 align_columns_def)
      with 2 keys [OF 2(1)] n [OF 2(1)] sources(1) Inr show ?thesis by simp
    next
      case (3 reads c join)
      have "cb_keys c \<noteq> []"
        using sources(2) 3 Inr doc by (auto simp: combination_ok_def resolve_opening_composition_def)
      with 3 keys [OF 3(1)] n [OF 3(1)] sources(1) Inr show ?thesis by simp
    qed
  qed
qed

text \<open>Every product publishes a contract: under a policy that was loaded, a declaration is accepted only with a
  step that runs the data contract, whatever labels and profiles the estate declares for itself.\<close>

theorem every_product_publishes_a_contract:
  assumes "load_estate_policy structured own labels = Inr policy" and "validate_declaration lib vault policy d = Inr v"
  shows "\<exists>s \<in> set (dl_steps d). ds_token s = ''data_contracts''"
proof -
  obtain f where named: "resolve_profile_for_label policy (dl_name d) (dl_layer d) (dl_profile d) = Inr (vp_profile v)"
    and f: "map_of (ep_profiles policy) (vp_profile v) = Some f"
    and steps: "check_steps lib policy (dl_name d) f (dl_steps d) = Inr ()"
    by (rule accepted_declaration [OF assms(2)])
  from resolved_label [OF named] load_estate_policy_ok [OF assms(1)] f have "P_data_contracts \<in> set (pf_mandatory f)"
    by (fastforce simp: policy_ok_def)
  with steps obtain s where s: "s \<in> set (dl_steps d)" "step_pattern s = P_data_contracts" "step_ok lib policy f s"
    unfolding check_steps_Inr follows_profile_def by (elim conjE) (force dest: subsetD)
  then have "pattern_of_token (ds_token s) = Some P_data_contracts" by (auto simp: step_ok_def step_pattern_def Let_def)
  then have "ds_token s = pattern_value P_data_contracts" by (auto simp: pattern_of_token_def find_Some_iff)
  with s(1) show ?thesis by auto
qed

definition eg_read :: schemas where
  "eg_read = [(''s.a'', \<lparr>rs_name = ''s.a'', rs_fields = [plain_field ''k'' (Named_type ''date''), plain_field ''v'' (Named_type ''date'')],
       rs_physical_name = None, rs_physical_schema = None\<rparr>),
     (''s.b'', \<lparr>rs_name = ''s.b'', rs_fields = [plain_field ''k'' (Named_type ''date'')],
       rs_physical_name = None, rs_physical_schema = None\<rparr>)]"

definition eg_opening :: opening_composition where
  "eg_opening = (case resolve_opening_composition ''s.r'' (composition_of eg_two) eg_read of Inr op \<Rightarrow> op
     | Inl e \<Rightarrow> \<lparr>op_method = None, op_keys = [], op_fields = [], op_sources = [], op_join = None\<rparr>)"

theorem accepted_sources_combine_witness:
  "distinct (map sc_key (op_sources eg_opening)) \<and> op_method eg_opening \<noteq> None"
proof -
  have "resolve_opening_composition ''s.r'' (composition_of eg_two) eg_read = Inr eg_opening" by code_simp
  moreover have "length (dl_sources eg_two) = 2" by code_simp
  ultimately show ?thesis
    using accepted_sources_combine [OF eg_two_accepted, of "''s.r''" eg_read] by simp
qed

theorem every_product_publishes_a_contract_witness:
  "\<exists>s \<in> set (dl_steps eg_two). ds_token s = ''data_contracts''"
  by (rule every_product_publishes_a_contract [OF eg_policy_loads eg_two_accepted])

section \<open>Stored names\<close>





definition eg_adapter :: identifier_policy where
  "eg_adapter = \<lparr>ip_adapter = ''duckdb'', ip_quote = ''`'', ip_comparison = ''insensitive'',
     ip_max_relation = None, ip_max_column = None\<rparr>"

definition eg_fold :: "string \<Rightarrow> string" where
  "eg_fold = map (\<lambda>c. if c = CHR ''A'' then CHR ''a'' else c)"

definition eg_named :: "string \<Rightarrow> named_document" where
  "eg_named table = (''s.r'', [(None, \<lparr>ph_name = Some table, ph_schema = None, ph_fields = [(''k'', ''A'')]\<rparr>)], [''s.r''])"

definition eg_plain :: named_document where "eg_plain = (''s.a'', [], [''s.a''])"


text \<open>The table \<open>s__A\<close> meets the table a relation is stored under by default, and is refused.\<close>

lemma stored_name_conflict:
  "validate_physical_names eg_fold [eg_adapter] [eg_named ''s__A'', eg_plain] =
     Inl (Name_rule ''s.r'' ''physical_relation_conflict'' ''s.r'')"
  by code_simp

text \<open>
  The columns of a relation are compared by the names stated for them only: a column stored under the logical name of
  another, for which none is stated, is accepted, and both columns then have one name in the store.
\<close>

lemma stored_name_meets_a_logical_name:
  "check_relation eg_fold [eg_adapter] ''s.r'' ''s.r'' \<lparr>ph_name = None, ph_schema = None, ph_fields = [(''a'', ''b'')]\<rparr> = Inr () \<and>
   (case apply_physical_name ''s.r'' [(None, \<lparr>ph_name = None, ph_schema = None, ph_fields = [(''a'', ''b'')]\<rparr>)]
       (opening_relation \<lparr>rs_name = ''s.r'', rs_fields = [plain_field ''a'' (Named_type ''date''),
          plain_field ''b'' (Named_type ''date'')], rs_physical_name = None, rs_physical_schema = None\<rparr>) of
      Inr r \<Rightarrow> map (\<lambda>f. (rf_name f, rf_physical_name f)) (rs_fields (sr_schema r)) = [(''a'', Some ''b''), (''b'', None)]
    | Inl e \<Rightarrow> False)"
proof
  show "check_relation eg_fold [eg_adapter] ''s.r'' ''s.r'' \<lparr>ph_name = None, ph_schema = None, ph_fields = [(''a'', ''b'')]\<rparr> = Inr ()"
    by code_simp
qed (simp add: apply_physical_name_def opening_relation_def plain_field_def Let_def refuse_first_def field_names_def)

text \<open>
  An estate hands the adapters to these rules only when one of its products states a stored name: two products whose
  relations are stored under one table by default are accepted where none does, and refused as soon as one does.
\<close>

definition eg_pair :: "named_document list" where
  "eg_pair = [(''s.a__b'', [], [''s.a__b'']), (''s__a.b'', [], [''s__a.b''])]"

lemma default_tables_meet_unseen:
  "validate_physical_names eg_fold [] eg_pair = Inr () \<and>
   validate_physical_names eg_fold [eg_adapter] eg_pair = Inl (Name_rule ''s__a.b'' ''physical_relation_conflict'' ''s__a.b'')"
  by code_simp

end
