(* ===== verification/Data_Vault.thy ===== *)
theory Data_Vault
  imports Shape_Relations
begin

text \<open>
  The \<open>data_vault\<close> shape, \<open>ergasterion/shapes/data_vault/__init__.py\<close>: the hubs, links, satellites, surviving
  records and point-in-time relations of a section, resolved against each other, checked against the columns of
  the composition, and rendered.
\<close>

section \<open>The resolved vault\<close>

record hub =
  hu_name :: string
  hu_suffix :: string
  hu_key_column :: string
  hu_business_key :: "string list"

record hub_link =
  li_name :: string
  li_suffix :: string
  li_key_column :: string
  li_hubs :: "hub list"

definition link_business_key :: "hub_link \<Rightarrow> string list" where
  "link_business_key l = concat (map hu_business_key (li_hubs l))"

record satellite =
  su_name :: string
  su_suffix :: string
  su_kind :: satellite_kind
  su_parent_column :: string
  su_parent_key :: "string list"
  su_payload :: "string list"
  su_basis :: "string list"
  su_exclusions :: "string list"
  su_change :: string

record surviving_record =
  gr_name :: string
  gr_suffix :: string
  gr_hub :: hub
  gr_satellites :: "satellite list"
  gr_attributes :: "(string \<times> surviving_strategy) list"

record point_in_time =
  pi_name :: string
  pi_suffix :: string
  pi_hub :: hub
  pi_satellites :: "satellite list"

record vault_plan =
  pl_product :: string
  pl_hubs :: "hub list"
  pl_links :: "hub_link list"
  pl_satellites :: "satellite list"
  pl_surviving :: "surviving_record list"
  pl_instants :: "point_in_time list"

definition hub_suffix :: "string \<Rightarrow> string" where "hub_suffix n = ''hub_'' @ n"
definition link_suffix :: "string \<Rightarrow> string" where "link_suffix n = ''link_'' @ n"
definition satellite_suffix :: "string \<Rightarrow> string" where "satellite_suffix n = ''sat_'' @ n"
definition surviving_suffix :: "string \<Rightarrow> string" where "surviving_suffix n = ''golden_'' @ n"
definition point_in_time_suffix :: "string \<Rightarrow> string" where "point_in_time_suffix n = ''pit_'' @ n"
definition identity_column :: "string \<Rightarrow> string" where "identity_column n = n @ ''_hk''"
definition association_column :: "string \<Rightarrow> string" where "association_column n = n @ ''_lhk''"
definition pointer_column :: "string \<Rightarrow> string" where "pointer_column n = n @ ''_'' @ effective_from"

definition generated_columns :: "string list" where
  "generated_columns = [''hashdiff'', ''hashdiff_basis_version'', ''load_datetime'', ''record_source'', ''as_of'', effective_from]"

section \<open>Checks of a section\<close>

definition vault_stop :: "string \<Rightarrow> string \<Rightarrow> shape_detail \<Rightarrow> contract_fault + 'a" where
  "vault_stop product occurrence = refuse product ''data_vault'' occurrence"

definition check_unique :: "string \<Rightarrow> string \<Rightarrow> string \<Rightarrow> string list \<Rightarrow> contract_fault + unit" where
  "check_unique product occurrence kind names =
     (case repeated_name [] names of
        Some n \<Rightarrow> vault_stop product occurrence (Named_twice kind n)
      | None \<Rightarrow> Inr ())"

definition check_not_generated :: "string \<Rightarrow> string \<Rightarrow> string \<Rightarrow> string list \<Rightarrow> contract_fault + unit" where
  "check_not_generated product occurrence part columns =
     (let clashing = columns_in generated_columns columns in
      if clashing \<noteq> [] then vault_stop product occurrence (Generated_column part clashing) else Inr ())"

definition resolve_hub :: "string \<Rightarrow> nat \<times> hub_decl \<Rightarrow> contract_fault + hub" where
  "resolve_hub product = (\<lambda>(index, e).
     let occurrence = entry_occurrence ''hubs'' index in
     bind (check_not_generated product occurrence ''the business key'' (hb_key e)) (\<lambda>_.
     bind (check_unique product occurrence ''business-key column'' (hb_key e)) (\<lambda>_.
     Inr \<lparr>hu_name = hb_name e, hu_suffix = hub_suffix (hb_name e), hu_key_column = identity_column (hb_name e),
       hu_business_key = hb_key e\<rparr>)))"

definition hub_named :: "hub list \<Rightarrow> string \<Rightarrow> hub option" where
  "hub_named hubs n = find (\<lambda>h. hu_name h = n) hubs"

definition declared_hub :: "string \<Rightarrow> string \<Rightarrow> hub list \<Rightarrow> string \<Rightarrow> contract_fault + hub" where
  "declared_hub product occurrence hubs n =
     (case hub_named hubs n of
        None \<Rightarrow> vault_stop product occurrence (Unknown_hub n)
      | Some h \<Rightarrow> Inr h)"

definition resolve_link :: "string \<Rightarrow> hub list \<Rightarrow> nat \<times> link_decl \<Rightarrow> contract_fault + hub_link" where
  "resolve_link product hubs = (\<lambda>(index, e).
     let occurrence = entry_occurrence ''links'' index in
     bind (check_unique product occurrence ''hub reference'' (lk_hubs e)) (\<lambda>_.
     bind (map_result (declared_hub product occurrence hubs) (lk_hubs e)) (\<lambda>resolved.
     Inr \<lparr>li_name = lk_name e, li_suffix = link_suffix (lk_name e), li_key_column = association_column (lk_name e),
       li_hubs = resolved\<rparr>)))"

text \<open>The dictionary of parents: the hubs, then the links, so that a link takes the place of a hub of its name.\<close>

definition parent_named :: "hub list \<Rightarrow> hub_link list \<Rightarrow> string \<Rightarrow> (string \<times> string list) option" where
  "parent_named hubs links n = map_of
     (map (\<lambda>l. (li_name l, li_key_column l, link_business_key l)) links
      @ map (\<lambda>h. (hu_name h, hu_key_column h, hu_business_key h)) hubs) n"

definition resolve_satellite ::
    "string \<Rightarrow> hub list \<Rightarrow> hub_link list \<Rightarrow> nat \<times> satellite_decl \<Rightarrow> contract_fault + satellite" where
  "resolve_satellite product hubs links = (\<lambda>(index, e).
     let occurrence = entry_occurrence ''satellites'' index; stop = vault_stop product occurrence; payload = sa_payload e in
     case parent_named hubs links (sa_parent e) of
       None \<Rightarrow> stop (Unknown_parent (sa_parent e))
     | Some (column, key) \<Rightarrow>
         bind (check_unique product occurrence ''payload column'' payload) (\<lambda>_.
         bind (check_not_generated product occurrence ''the payload'' payload) (\<lambda>_.
         if sa_change e \<in> set payload then stop (Payload_orders_itself (sa_change e))
         else let outside = columns_outside payload (sa_exclude e) in
         if outside \<noteq> [] then vault_stop product (occurrence @ ''.hashdiff_exclude'') (Excluded_outside outside)
         else let basis = columns_outside (sa_exclude e) payload in
         if basis = [] then vault_stop product (occurrence @ ''.hashdiff_exclude'') Nothing_fingerprinted
         else Inr \<lparr>su_name = sa_name e, su_suffix = satellite_suffix (sa_name e), su_kind = sa_kind e,
           su_parent_column = column, su_parent_key = key, su_payload = payload, su_basis = basis,
           su_exclusions = sa_exclude e, su_change = sa_change e\<rparr>)))"

definition satellite_of ::
    "string \<Rightarrow> string \<Rightarrow> satellite list \<Rightarrow> hub \<Rightarrow> string \<Rightarrow> contract_fault + satellite" where
  "satellite_of product occurrence satellites h n =
     (case find (\<lambda>s. su_name s = n) satellites of
        None \<Rightarrow> vault_stop product occurrence (Unknown_satellite n)
      | Some s \<Rightarrow>
          if su_parent_column s \<noteq> hu_key_column h
          then vault_stop product occurrence (Foreign_satellite n (su_parent_column s) (hu_key_column h))
          else Inr s)"

definition satellites_of ::
    "string \<Rightarrow> string \<Rightarrow> satellite list \<Rightarrow> hub \<Rightarrow> string list \<Rightarrow> contract_fault + satellite list" where
  "satellites_of product occurrence satellites h names =
     bind (check_unique product occurrence ''satellite reference'' names) (\<lambda>_.
     map_result (satellite_of product occurrence satellites h) names)"

definition resolve_surviving ::
    "string \<Rightarrow> hub list \<Rightarrow> satellite list \<Rightarrow> nat \<times> surviving_decl \<Rightarrow> contract_fault + surviving_record" where
  "resolve_surviving product hubs satellites = (\<lambda>(index, e).
     let occurrence = entry_occurrence ''business_vault'' index in
     bind (declared_hub product occurrence hubs (sv_hub e)) (\<lambda>h.
     bind (satellites_of product occurrence satellites h (sv_satellites e)) (\<lambda>found.
     bind (check_unique product occurrence ''surviving attribute'' (map fst (sv_attributes e))) (\<lambda>_.
     let missing = columns_outside (concat (map su_payload found)) (map fst (sv_attributes e)) in
     if missing \<noteq> [] then vault_stop product occurrence (Not_stored missing)
     else Inr \<lparr>gr_name = sv_name e, gr_suffix = surviving_suffix (sv_name e), gr_hub = h, gr_satellites = found,
       gr_attributes = sv_attributes e\<rparr>))))"

definition resolve_instant ::
    "string \<Rightarrow> hub list \<Rightarrow> satellite list \<Rightarrow> nat \<times> instant_decl \<Rightarrow> contract_fault + point_in_time" where
  "resolve_instant product hubs satellites = (\<lambda>(index, e).
     let occurrence = entry_occurrence ''point_in_time'' index in
     bind (declared_hub product occurrence hubs (pt_hub e)) (\<lambda>h.
     bind (satellites_of product occurrence satellites h (pt_satellites e)) (\<lambda>found.
     Inr \<lparr>pi_name = pt_name e, pi_suffix = point_in_time_suffix (pt_name e), pi_hub = h, pi_satellites = found\<rparr>)))"

definition section_occurrence :: "string \<Rightarrow> string" where
  "section_occurrence part = ''target.shape_config.'' @ part"

definition resolve_plan :: "string \<Rightarrow> vault_section \<Rightarrow> contract_fault + vault_plan" where
  "resolve_plan product cfg =
     bind (check_unique product (section_occurrence ''hubs'') ''hub'' (map hb_name (vs_hubs cfg))) (\<lambda>_.
     bind (map_result (resolve_hub product) (enumerate 0 (vs_hubs cfg))) (\<lambda>hubs.
     bind (check_unique product (section_occurrence ''links'') ''link'' (map lk_name (vs_links cfg))) (\<lambda>_.
     bind (map_result (resolve_link product hubs) (enumerate 0 (vs_links cfg))) (\<lambda>links.
     bind (check_unique product (section_occurrence ''satellites'') ''satellite'' (map sa_name (vs_satellites cfg))) (\<lambda>_.
     bind (map_result (resolve_satellite product hubs links) (enumerate 0 (vs_satellites cfg))) (\<lambda>satellites.
     bind (check_unique product (section_occurrence ''business_vault'') ''business-vault rule'' (map sv_name (vs_surviving cfg))) (\<lambda>_.
     bind (map_result (resolve_surviving product hubs satellites) (enumerate 0 (vs_surviving cfg))) (\<lambda>surviving.
     bind (check_unique product (section_occurrence ''point_in_time'') ''point-in-time relation'' (map pt_name (vs_instants cfg))) (\<lambda>_.
     bind (map_result (resolve_instant product hubs satellites) (enumerate 0 (vs_instants cfg))) (\<lambda>instants.
     Inr \<lparr>pl_product = product, pl_hubs = hubs, pl_links = links, pl_satellites = satellites,
       pl_surviving = surviving, pl_instants = instants\<rparr>))))))))))"

section \<open>The columns of the composition\<close>

definition named_occurrence :: "string \<Rightarrow> string \<Rightarrow> string" where
  "named_occurrence part n = ''target.shape_config.'' @ part @ '':'' @ n"

text \<open>\<open>_fields_for\<close>; a column is required where the composition has it so, or all are.\<close>

definition fields_for ::
    "string \<Rightarrow> string \<Rightarrow> relation_field list \<Rightarrow> bool \<Rightarrow> string list \<Rightarrow> contract_fault + relation_field list" where
  "fields_for product occurrence cols required columns =
     keyed_fields product ''data_vault'' occurrence cols (if required then columns else []) columns"

definition check_satellite ::
    "string \<Rightarrow> relation_field list \<Rightarrow> satellite \<Rightarrow> contract_fault + string \<times> relation_field" where
  "check_satellite product cols s =
     (let occurrence = named_occurrence ''satellites'' (su_name s) in
      bind (fields_for product occurrence cols False (su_payload s)) (\<lambda>_.
      bind (instant_field product ''data_vault'' (occurrence @ ''.change_column'') cols (su_change s)) (\<lambda>f.
      Inr (su_name s, f))))"

text \<open>The change columns by satellite.\<close>

type_synonym change_fields = "(string \<times> relation_field) list"

definition change_type :: "change_fields \<Rightarrow> satellite \<Rightarrow> neutral_type" where
  "change_type changes s = rf_type (the (map_of changes (su_name s)))"

definition check_instants :: "string \<Rightarrow> change_fields \<Rightarrow> point_in_time \<Rightarrow> contract_fault + unit" where
  "check_instants product changes p =
     (let types = remdups (map (change_type changes) (pi_satellites p)) in
      if length types \<noteq> 1 then vault_stop product (named_occurrence ''point_in_time'' (pi_name p)) (Mixed_instants types)
      else Inr ())"

definition check_composition :: "vault_plan \<Rightarrow> string \<Rightarrow> relation_field list \<Rightarrow> contract_fault + change_fields" where
  "check_composition plan product cols =
     bind (check_all (\<lambda>h. bind (fields_for product (named_occurrence ''hubs'' (hu_name h)) cols False (hu_business_key h))
       (\<lambda>_. Inr ())) (pl_hubs plan)) (\<lambda>_.
     bind (map_result (check_satellite product cols) (pl_satellites plan)) (\<lambda>changes.
     bind (check_all (check_instants product changes) (pl_instants plan)) (\<lambda>_.
     Inr changes)))"

section \<open>Rendering\<close>

definition string_type :: neutral_type where "string_type = Named_type ''string''"
definition integer_type :: neutral_type where "integer_type = Named_type ''integer''"
definition timestamp_type :: neutral_type where "timestamp_type = Named_type ''timestamp''"

definition identity_field :: "string \<Rightarrow> relation_field" where
  "identity_field column = typed_field column string_type True"

definition metadata_fields :: "relation_field list" where
  "metadata_fields = [typed_field ''load_datetime'' timestamp_type True, typed_field ''record_source'' string_type True]"

definition basis_version_description :: string where
  "basis_version_description =
     ''The hashdiff basis version this version's fingerprint was computed under. A '' @
     ''re-baseline stores one version per entity under the next version and leaves every '' @
     ''version stored under the previous one in place, so a reader that wants the '' @
     ''entity's current state scopes to the highest basis version it carries.''"

definition basis_version_field :: relation_field where
  "basis_version_field =
     (typed_field ''hashdiff_basis_version'' integer_type True)\<lparr>rf_description := Some basis_version_description\<rparr>"

definition store_relation ::
    "string \<Rightarrow> string \<Rightarrow> relation_field list \<Rightarrow> string \<Rightarrow> string list \<Rightarrow> string list \<Rightarrow> shape_relation" where
  "store_relation product suffix published derivation sources key =
     \<lparr>sr_suffix = Some suffix, sr_schema = plain_schema (under_product product suffix) published,
      sr_derivation = Vault_derivation derivation, sr_source_columns = sources, sr_key = key,
      sr_materialisation = Some As_increment, sr_change_column = None, sr_range_columns = None, sr_reads = []\<rparr>"

definition hub_relation :: "string \<Rightarrow> relation_field list \<Rightarrow> hub \<Rightarrow> contract_fault + shape_relation" where
  "hub_relation product cols h =
     bind (fields_for product (named_occurrence ''hubs'' (hu_name h)) cols True (hu_business_key h)) (\<lambda>keyed.
     Inr (store_relation product (hu_suffix h) (identity_field (hu_key_column h) # keyed @ metadata_fields)
       ''identity_store'' (hu_business_key h) [hu_key_column h]))"

definition link_relation :: "string \<Rightarrow> hub_link \<Rightarrow> shape_relation" where
  "link_relation product l = store_relation product (li_suffix l)
     (identity_field (li_key_column l) # map (\<lambda>h. identity_field (hu_key_column h)) (li_hubs l) @ metadata_fields)
     ''association_store'' (link_business_key l) [li_key_column l]"

fun satellite_derivation :: "satellite_kind \<Rightarrow> string" where
  "satellite_derivation Kind_current = ''version_store''"
| "satellite_derivation Kind_history = ''snapshot_store''"

definition satellite_relation ::
    "string \<Rightarrow> relation_field list \<Rightarrow> change_fields \<Rightarrow> satellite \<Rightarrow> contract_fault + shape_relation" where
  "satellite_relation product cols changes s =
     bind (fields_for product (named_occurrence ''satellites'' (su_name s)) cols False (su_payload s)) (\<lambda>payload.
     Inr ((store_relation product (su_suffix s)
       ([identity_field (su_parent_column s), typed_field ''hashdiff'' string_type True, basis_version_field]
        @ payload @ [typed_field effective_from (change_type changes s) True] @ metadata_fields)
       (satellite_derivation (su_kind s)) (su_parent_key s @ su_payload s @ [su_change s])
       [su_parent_column s, effective_from, ''hashdiff_basis_version''])\<lparr>sr_change_column := Some (su_change s)\<rparr>))"

definition surviving_relation ::
    "string \<Rightarrow> relation_field list \<Rightarrow> surviving_record \<Rightarrow> contract_fault + shape_relation" where
  "surviving_relation product cols g =
     (let occurrence = named_occurrence ''business_vault'' (gr_name g); h = gr_hub g; attributes = map fst (gr_attributes g) in
      bind (fields_for product occurrence cols True (hu_business_key h)) (\<lambda>keyed.
      bind (fields_for product occurrence cols False attributes) (\<lambda>survived.
      Inr ((store_relation product (gr_suffix g) (identity_field (hu_key_column h) # keyed @ survived @ metadata_fields)
        ''surviving_record'' (hu_business_key h @ attributes) [hu_key_column h])
        \<lparr>sr_materialisation := Some As_table, sr_reads := hu_suffix h # map su_suffix (gr_satellites g)\<rparr>))))"

definition instant_relation :: "string \<Rightarrow> change_fields \<Rightarrow> point_in_time \<Rightarrow> shape_relation" where
  "instant_relation product changes p =
     (let h = pi_hub p; satellites = pi_satellites p in
      (store_relation product (pi_suffix p)
        ([identity_field (hu_key_column h), typed_field ''as_of'' (change_type changes (hd satellites)) True]
         @ map (\<lambda>s. typed_field (pointer_column (su_name s)) (change_type changes s) False) satellites)
        ''point_in_time'' (hu_business_key h) [hu_key_column h, ''as_of''])
        \<lparr>sr_materialisation := Some As_table, sr_reads := map su_suffix satellites\<rparr>)"

definition vault_relations ::
    "string \<Rightarrow> vault_section \<Rightarrow> relation_field list \<Rightarrow> contract_fault + shape_relation list" where
  "vault_relations product cfg cols =
     bind (resolve_plan product cfg) (\<lambda>plan.
     bind (check_composition plan product cols) (\<lambda>changes.
     bind (map_result (hub_relation product cols) (pl_hubs plan)) (\<lambda>hubs.
     bind (map_result (satellite_relation product cols changes) (pl_satellites plan)) (\<lambda>satellites.
     bind (map_result (surviving_relation product cols) (pl_surviving plan)) (\<lambda>surviving.
     Inr (hubs @ map (link_relation product) (pl_links plan) @ satellites @ surviving
       @ map (instant_relation product changes) (pl_instants plan)))))))"

text \<open>The shape, as the registry has it.\<close>

definition data_vault_relations :: shape where
  "data_vault_relations domain name cfg cols = vault_relations (product_name domain name) (ss_vault cfg) cols"

text \<open>\<open>check_estate\<close>: the composition curates.\<close>

definition data_vault_check_estate :: "string \<Rightarrow> composition_document \<Rightarrow> contract_fault + unit" where
  "data_vault_check_estate product doc =
     (if ''data_curation'' \<in> set (map pattern_token (cd_steps doc)) then Inr ()
      else vault_stop product ''steps'' No_curation)"

end
