(* ===== verification/Vault_Evolution.thy ===== *)
theory Vault_Evolution
  imports Data_Vault
begin

text \<open>
  The evolution ledger of a vault product, \<open>ergasterion/shapes/data_vault/evolution.py\<close>, the operation that moves a
  hashdiff basis, \<open>rebaseline.py\<close>, and the emission that reads and writes the ledger, the \<open>ledger\<close> hook of
  \<open>data_vault/__init__.py\<close>.
\<close>

section \<open>The ledger\<close>

type_synonym column_types = "(string \<times> neutral_type) list"

text \<open>A satellite as its declaration has it, and as a re-baseline stages it.\<close>

record satellite_record =
  de_kind :: satellite_kind
  de_change :: string
  de_payload :: "string list"
  de_exclusions :: "string list"
  de_basis :: "string list"
  de_types :: column_types

record superseded_basis =
  sb_version :: nat
  sb_basis :: "string list"
  sb_payload :: "string list"
  sb_types :: column_types

text \<open>A key a document leaves out is \<open>None\<close>, and an empty list where the code reads it as one.\<close>

record ledger_entry =
  le_kind :: satellite_kind
  le_change :: string
  le_version :: "nat option"
  le_basis :: "string list"
  le_payload :: "string list"
  le_exclusions :: "string list"
  le_types :: column_types
  le_superseded :: "superseded_basis list"
  le_pending :: "satellite_record option"

record ledger =
  lg_product :: string
  lg_satellites :: "(string \<times> ledger_entry) list"

text \<open>\<open>int(entry.get("basis_version") or FIRST_BASIS_VERSION)\<close>.\<close>

definition version_of :: "ledger_entry \<Rightarrow> nat" where
  "version_of e = (case le_version e of None \<Rightarrow> 1 | Some n \<Rightarrow> if n = 0 then 1 else n)"

datatype evolution_class = Removal | Redefinition | Retype | Basis_change

datatype change_detail =
    Kind_restated satellite_kind satellite_kind
  | Change_column_restated string string
  | Column_retyped string neutral_type neutral_type
  | Columns_removed "string list"
  | Detection_differs "string list" "string list"
  | Nothing_staged
  | Not_recorded "string list"

datatype rebaseline_fault =
    No_declaration string "string list"
  | Not_a_vault string string
  | No_ledger string
  | No_such_satellite string string "string list"

datatype evolution_fault =
    Estate_migration string string evolution_class change_detail
  | Pending_basis string string
  | Rebaseline_fault rebaseline_fault
  | Unrendered contract_fault

datatype notice =
    Basis_recorded string "string list"
  | Outside_detection string "string list" nat nat
  | No_longer_declared string

section \<open>Declared records\<close>

definition declared_record :: "satellite_decl \<Rightarrow> column_types \<Rightarrow> satellite_record" where
  "declared_record s types =
     \<lparr>de_kind = sa_kind s, de_change = sa_change s, de_payload = sa_payload s, de_exclusions = sa_exclude s,
      de_basis = columns_outside (sa_exclude s) (sa_payload s),
      de_types = List.map_filter (\<lambda>c. map_option (Pair c) (map_of types c)) (sa_payload s)\<rparr>"

definition types_named :: "(string \<times> column_types) list \<Rightarrow> string \<Rightarrow> column_types" where
  "types_named types n = (case map_of types n of None \<Rightarrow> [] | Some t \<Rightarrow> t)"

definition declared_records ::
    "satellite_decl list \<Rightarrow> (string \<times> column_types) list \<Rightarrow> (string \<times> satellite_record) list" where
  "declared_records entries types =
     map (\<lambda>s. (sa_name s, declared_record s (types_named types (sa_name s)))) entries"

text \<open>\<open>payload_types\<close>: the type each stored column has in the relation that publishes it.\<close>

definition stored_types :: "shape_relation \<Rightarrow> satellite_decl \<Rightarrow> column_types" where
  "stored_types r s =
     (let published = map_of (rev (map (\<lambda>f. (rf_name f, rf_type f)) (rs_fields (sr_schema r)))) in
      List.map_filter (\<lambda>c. map_option (Pair c) (published c)) (sa_payload s))"

definition payload_types :: "shape_relation list \<Rightarrow> satellite_decl list \<Rightarrow> (string \<times> column_types) list" where
  "payload_types relations entries = List.map_filter (\<lambda>s.
     map_option (\<lambda>r. (sa_name s, stored_types r s))
       (map_of (rev (map (\<lambda>r. (sr_suffix r, r)) relations)) (Some (satellite_suffix (sa_name s))))) entries"

section \<open>Grading\<close>

definition estate_migration :: "string \<Rightarrow> string \<Rightarrow> evolution_class \<Rightarrow> change_detail \<Rightarrow> evolution_fault + 'a" where
  "estate_migration product satellite class detail = Inl (Estate_migration product satellite class detail)"

definition retyped_columns :: "ledger_entry \<Rightarrow> satellite_record \<Rightarrow> (string \<times> neutral_type \<times> neutral_type) list" where
  "retyped_columns stored d = List.map_filter (\<lambda>c.
     case (map_of (le_types stored) c, map_of (de_types d) c) of
       (Some was, Some now) \<Rightarrow> if was \<noteq> now then Some (c, was, now) else None
     | _ \<Rightarrow> None) (le_payload stored)"

definition entry_of :: "satellite_record \<Rightarrow> nat \<Rightarrow> string list \<Rightarrow> superseded_basis list \<Rightarrow> ledger_entry" where
  "entry_of d version basis superseded =
     \<lparr>le_kind = de_kind d, le_change = de_change d, le_version = Some version, le_basis = basis, le_payload = de_payload d,
      le_exclusions = de_exclusions d, le_types = de_types d, le_superseded = superseded, le_pending = None\<rparr>"

definition grade_one ::
    "string \<Rightarrow> string \<Rightarrow> satellite_record \<Rightarrow> ledger_entry \<Rightarrow> evolution_fault + ledger_entry \<times> notice list" where
  "grade_one product satellite d stored =
     (let stop = estate_migration product satellite in
      if le_pending stored \<noteq> None then Inl (Pending_basis product satellite)
      else if le_kind stored \<noteq> de_kind d then stop Redefinition (Kind_restated (le_kind stored) (de_kind d))
      else if le_change stored \<noteq> de_change d then stop Redefinition (Change_column_restated (le_change stored) (de_change d))
      else case retyped_columns stored d of
        (c, was, now) # _ \<Rightarrow> stop Retype (Column_retyped c was now)
      | [] \<Rightarrow>
          let removed = columns_outside (de_payload d) (le_payload stored) in
          if removed \<noteq> [] then stop Removal (Columns_removed removed)
          else
            let added = columns_outside (le_payload stored) (de_payload d); frozen = columns_outside added (de_basis d) in
            if frozen \<noteq> le_basis stored then stop Basis_change (Detection_differs frozen (le_basis stored))
            else
              let outside = columns_outside (le_basis stored) added in
              Inr (entry_of d (version_of stored) (le_basis stored) (le_superseded stored),
                if outside = [] then [] else [Outside_detection satellite outside (length (le_basis stored)) (version_of stored)]))"

definition grade_satellite ::
    "string \<Rightarrow> (string \<times> ledger_entry) list \<Rightarrow> string \<times> satellite_record \<Rightarrow> (string \<times> ledger_entry) list \<times> notice list
       \<Rightarrow> evolution_fault + (string \<times> ledger_entry) list \<times> notice list" where
  "grade_satellite product previous = (\<lambda>(satellite, d) (graded, notices).
     case map_of previous satellite of
       None \<Rightarrow> Inr (graded @ [(satellite, entry_of d 1 (de_basis d) [])], notices @ [Basis_recorded satellite (de_basis d)])
     | Some stored \<Rightarrow>
         bind (grade_one product satellite d stored) (\<lambda>(e, new).
         Inr (graded @ [(satellite, e)], notices @ new)))"

definition grade ::
    "string \<Rightarrow> (string \<times> satellite_record) list \<Rightarrow> ledger option \<Rightarrow> evolution_fault + ledger \<times> notice list" where
  "grade product declared recorded =
     (let previous = (case recorded of None \<Rightarrow> [] | Some l \<Rightarrow> lg_satellites l) in
      bind (fold_result (grade_satellite product previous) (sort_key fst declared) ([], [])) (\<lambda>(graded, notices).
      Inr (\<lparr>lg_product = product, lg_satellites = graded\<rparr>,
        notices @ map No_longer_declared (filter (\<lambda>n. n \<notin> fst ` set declared) (sort (map fst previous))))))"

definition basis_versions :: "ledger \<Rightarrow> (string \<times> nat) list" where
  "basis_versions l = map (\<lambda>(n, e). (n, version_of e)) (lg_satellites l)"

section \<open>The re-baseline\<close>

text \<open>The entry a ledger has of a satellite, and the ledger with that entry changed in place.\<close>

definition recorded_entry :: "string \<Rightarrow> string \<Rightarrow> ledger \<Rightarrow> evolution_fault + ledger_entry" where
  "recorded_entry product satellite l =
     (case map_of (lg_satellites l) satellite of
        None \<Rightarrow> estate_migration product satellite Basis_change (Not_recorded (sort (map fst (lg_satellites l))))
      | Some e \<Rightarrow> Inr e)"

definition put_entry :: "string \<Rightarrow> ledger_entry \<Rightarrow> ledger \<Rightarrow> ledger" where
  "put_entry satellite e l =
     l\<lparr>lg_satellites := map (\<lambda>(n, old). (n, if n = satellite then e else old)) (lg_satellites l)\<rparr>"

definition stage :: "string \<Rightarrow> string \<Rightarrow> satellite_record \<Rightarrow> ledger \<Rightarrow> evolution_fault + ledger" where
  "stage product satellite d l =
     bind (recorded_entry product satellite l) (\<lambda>e.
     Inr (put_entry satellite (e\<lparr>le_pending := Some d\<rparr>) l))"

definition promote :: "string \<Rightarrow> string \<Rightarrow> ledger \<Rightarrow> evolution_fault + ledger" where
  "promote product satellite l =
     bind (recorded_entry product satellite l) (\<lambda>e.
     case le_pending e of
       None \<Rightarrow> estate_migration product satellite Basis_change Nothing_staged
     | Some d \<Rightarrow>
         let old = \<lparr>sb_version = version_of e, sb_basis = le_basis e, sb_payload = le_payload e, sb_types = le_types e\<rparr> in
         Inr (put_entry satellite (entry_of d (version_of e + 1) (de_basis d) (le_superseded e @ [old])) l))"

definition abort :: "string \<Rightarrow> string \<Rightarrow> ledger \<Rightarrow> evolution_fault + ledger" where
  "abort product satellite l =
     bind (recorded_entry product satellite l) (\<lambda>e.
     if le_pending e = None then estate_migration product satellite Basis_change Nothing_staged
     else Inr (put_entry satellite (e\<lparr>le_pending := None\<rparr>) l))"

section \<open>Emission and command\<close>

text \<open>The declarations of an estate, in the order of their paths: published name, shape and vault section.\<close>

type_synonym vault_declaration = "string \<times> string \<times> vault_section"

definition vault_declaration_of :: "vault_declaration list \<Rightarrow> string \<Rightarrow> evolution_fault + vault_section" where
  "vault_declaration_of declarations product =
     (case find (\<lambda>d. fst d = product) declarations of
        None \<Rightarrow> Inl (Rebaseline_fault (No_declaration product (sort (map fst declarations))))
      | Some (_, shape, cfg) \<Rightarrow>
          if shape \<noteq> ''data_vault'' then Inl (Rebaseline_fault (Not_a_vault product shape)) else Inr cfg)"

datatype rebaseline = Stage | Promote | Abort

definition declared_now :: "shape_relation list \<Rightarrow> vault_section \<Rightarrow> (string \<times> satellite_record) list" where
  "declared_now relations cfg = declared_records (vs_satellites cfg) (payload_types relations (vs_satellites cfg))"

text \<open>\<open>run\<close>; \<open>relations\<close> is what the estate's registry resolves the product to, asked for by a staging only.\<close>

definition run_rebaseline ::
    "vault_declaration list \<Rightarrow> (string \<Rightarrow> contract_fault + shape_relation list) \<Rightarrow> string \<Rightarrow> string \<Rightarrow> rebaseline
       \<Rightarrow> ledger option \<Rightarrow> evolution_fault + ledger" where
  "run_rebaseline declarations relations product satellite operation recorded =
     bind (vault_declaration_of declarations product) (\<lambda>cfg.
     case recorded of
       None \<Rightarrow> Inl (Rebaseline_fault (No_ledger product))
     | Some l \<Rightarrow>
         (case operation of
            Stage \<Rightarrow>
              (case relations product of
                 Inl e \<Rightarrow> Inl (Unrendered e)
               | Inr rs \<Rightarrow>
                   (case map_of (declared_now rs cfg) satellite of
                      None \<Rightarrow> Inl (Rebaseline_fault (No_such_satellite product satellite (sort (map fst (declared_now rs cfg)))))
                    | Some d \<Rightarrow> stage product satellite d l))
          | Promote \<Rightarrow> promote product satellite l
          | Abort \<Rightarrow> abort product satellite l))"

text \<open>\<open>ledger\<close>: what an emission of the product makes of the record the estate carries.\<close>

definition emit_ledger ::
    "string \<Rightarrow> vault_section \<Rightarrow> shape_relation list \<Rightarrow> ledger option \<Rightarrow> evolution_fault + ledger \<times> notice list" where
  "emit_ledger product cfg relations recorded = grade product (declared_now relations cfg) recorded"

end
