(* ===== verification/Vault_Facts.thy ===== *)
theory Vault_Facts
  imports Data_Vault Shape_Facts
begin

text \<open>
  What a resolved vault and its relations keep: the declared names, references to what the section declares, and
  columns the composition carries.
\<close>

section \<open>Checks and loops\<close>

lemma vault_stop_not_Inr [simp]: "vault_stop product occurrence detail \<noteq> Inr x"
  by (simp add: vault_stop_def)

lemma check_unique_Inr [simp]: "check_unique product occurrence kind names = Inr u \<longleftrightarrow> distinct names"
  using repeated_name_Nil [of names] by (auto simp: check_unique_def split: option.splits)

lemma check_not_generated_Inr [simp]:
  "check_not_generated product occurrence part columns = Inr u \<longleftrightarrow> set columns \<inter> set generated_columns = {}"
  by (auto simp: check_not_generated_def Let_def columns_in_def filter_empty_conv)

lemma columns_outside_Nil [simp]: "columns_outside carried columns = [] \<longleftrightarrow> set columns \<subseteq> set carried"
  by (auto simp: columns_outside_def filter_empty_conv)

lemma set_columns_outside [simp]: "set (columns_outside carried columns) = set columns - set carried"
  by (auto simp: columns_outside_def)

text \<open>A loop over the entries of a section, one result for each.\<close>

lemma entries_map:
  assumes "\<And>n e r. f (n, e) = Inr r \<Longrightarrow> P e r"
  shows "map_result f (enumerate n es) = Inr rs \<Longrightarrow> list_all2 P es rs"
proof (induction es arbitrary: n rs)
  case (Cons e es)
  then show ?case by (auto intro: assms)
qed simp

section \<open>The plan\<close>

definition hub_entry :: "hub_decl \<Rightarrow> hub \<Rightarrow> bool" where
  "hub_entry e h \<longleftrightarrow> h = \<lparr>hu_name = hb_name e, hu_suffix = hub_suffix (hb_name e), hu_key_column = identity_column (hb_name e),
     hu_business_key = hb_key e\<rparr> \<and> distinct (hb_key e) \<and> set (hb_key e) \<inter> set generated_columns = {}"

definition link_entry :: "hub list \<Rightarrow> link_decl \<Rightarrow> hub_link \<Rightarrow> bool" where
  "link_entry hubs e l \<longleftrightarrow> li_name l = lk_name e \<and> li_suffix l = link_suffix (lk_name e) \<and>
     li_key_column l = association_column (lk_name e) \<and> map hu_name (li_hubs l) = lk_hubs e \<and> distinct (lk_hubs e) \<and>
     set (li_hubs l) \<subseteq> set hubs"

definition satellite_entry :: "hub list \<Rightarrow> hub_link list \<Rightarrow> satellite_decl \<Rightarrow> satellite \<Rightarrow> bool" where
  "satellite_entry hubs links e s \<longleftrightarrow> su_name s = sa_name e \<and> su_suffix s = satellite_suffix (sa_name e) \<and>
     su_kind s = sa_kind e \<and> su_payload s = sa_payload e \<and> su_change s = sa_change e \<and> su_exclusions s = sa_exclude e \<and>
     su_basis s = columns_outside (sa_exclude e) (sa_payload e) \<and> su_basis s \<noteq> [] \<and>
     parent_named hubs links (sa_parent e) = Some (su_parent_column s, su_parent_key s) \<and>
     distinct (sa_payload e) \<and> set (sa_payload e) \<inter> set generated_columns = {} \<and> sa_change e \<notin> set (sa_payload e) \<and>
     set (sa_exclude e) \<subseteq> set (sa_payload e)"

definition reads_of :: "hub \<Rightarrow> satellite list \<Rightarrow> satellite list \<Rightarrow> bool" where
  "reads_of h satellites found \<longleftrightarrow> distinct (map su_name found) \<and>
     (\<forall>s \<in> set found. s \<in> set satellites \<and> su_parent_column s = hu_key_column h)"

definition surviving_entry :: "hub list \<Rightarrow> satellite list \<Rightarrow> surviving_decl \<Rightarrow> surviving_record \<Rightarrow> bool" where
  "surviving_entry hubs satellites e g \<longleftrightarrow> gr_name g = sv_name e \<and> gr_suffix g = surviving_suffix (sv_name e) \<and>
     gr_hub g \<in> set hubs \<and> reads_of (gr_hub g) satellites (gr_satellites g) \<and> gr_attributes g = sv_attributes e \<and>
     distinct (map fst (gr_attributes g)) \<and> set (map fst (gr_attributes g)) \<subseteq> set (concat (map su_payload (gr_satellites g)))"

definition instant_entry :: "hub list \<Rightarrow> satellite list \<Rightarrow> instant_decl \<Rightarrow> point_in_time \<Rightarrow> bool" where
  "instant_entry hubs satellites e p \<longleftrightarrow> pi_name p = pt_name e \<and> pi_suffix p = point_in_time_suffix (pt_name e) \<and>
     pi_hub p \<in> set hubs \<and> reads_of (pi_hub p) satellites (pi_satellites p)"

lemma declared_hub_Inr: "declared_hub product occurrence hubs n = Inr h \<Longrightarrow> h \<in> set hubs \<and> hu_name h = n"
  by (auto simp: declared_hub_def hub_named_def find_Some_iff split: option.splits)

lemma declared_hubs:
  assumes "map_result (declared_hub product occurrence hubs) names = Inr found"
  shows "map hu_name found = names \<and> set found \<subseteq> set hubs"
proof -
  have "list_all2 (\<lambda>n h. h \<in> set hubs \<and> hu_name h = n) names found"
    using assms unfolding map_result_Inr by (rule list_all2_mono) (rule declared_hub_Inr)
  then show ?thesis by (induction rule: list_all2_induct) auto
qed

lemma satellites_of_Inr:
  assumes "satellites_of product occurrence satellites h names = Inr found"
  shows "reads_of h satellites found"
proof -
  from assms have once: "distinct names" and found: "map_result (satellite_of product occurrence satellites h) names = Inr found"
    by (auto simp: satellites_of_def)
  have "list_all2 (\<lambda>n s. s \<in> set satellites \<and> su_name s = n \<and> su_parent_column s = hu_key_column h) names found"
    using found unfolding map_result_Inr
    by (rule list_all2_mono) (auto simp: satellite_of_def find_Some_iff split: option.splits if_splits)
  then have "map su_name found = names \<and> (\<forall>s \<in> set found. s \<in> set satellites \<and> su_parent_column s = hu_key_column h)"
    by (induction rule: list_all2_induct) auto
  with once show ?thesis by (simp add: reads_of_def)
qed

lemma resolve_hub_Inr: "resolve_hub product (n, e) = Inr h \<Longrightarrow> hub_entry e h"
  by (auto simp: resolve_hub_def Let_def hub_entry_def)

lemma resolve_link_Inr: "resolve_link product hubs (n, e) = Inr l \<Longrightarrow> link_entry hubs e l"
  by (auto simp: resolve_link_def Let_def link_entry_def dest!: declared_hubs)

lemma resolve_satellite_Inr: "resolve_satellite product hubs links (n, e) = Inr s \<Longrightarrow> satellite_entry hubs links e s"
  by (auto simp: resolve_satellite_def Let_def satellite_entry_def split: option.splits if_splits)

lemma resolve_surviving_Inr: "resolve_surviving product hubs satellites (n, e) = Inr g \<Longrightarrow> surviving_entry hubs satellites e g"
  by (auto simp: resolve_surviving_def Let_def surviving_entry_def simp del: set_map set_concat
      dest!: declared_hub_Inr satellites_of_Inr split: if_splits)

lemma resolve_instant_Inr: "resolve_instant product hubs satellites (n, e) = Inr p \<Longrightarrow> instant_entry hubs satellites e p"
  by (auto simp: resolve_instant_def Let_def instant_entry_def dest!: declared_hub_Inr satellites_of_Inr)

lemma resolve_plan_Inr:
  assumes "resolve_plan product cfg = Inr plan"
  shows "list_all2 hub_entry (vs_hubs cfg) (pl_hubs plan)" "list_all2 (link_entry (pl_hubs plan)) (vs_links cfg) (pl_links plan)"
    "list_all2 (satellite_entry (pl_hubs plan) (pl_links plan)) (vs_satellites cfg) (pl_satellites plan)"
    "list_all2 (surviving_entry (pl_hubs plan) (pl_satellites plan)) (vs_surviving cfg) (pl_surviving plan)"
    "list_all2 (instant_entry (pl_hubs plan) (pl_satellites plan)) (vs_instants cfg) (pl_instants plan)"
    "distinct (map hb_name (vs_hubs cfg))" "distinct (map lk_name (vs_links cfg))" "distinct (map sa_name (vs_satellites cfg))"
    "distinct (map sv_name (vs_surviving cfg))" "distinct (map pt_name (vs_instants cfg))"
proof -
  from assms obtain hubs links satellites surviving instants where
    steps: "map_result (resolve_hub product) (enumerate 0 (vs_hubs cfg)) = Inr hubs"
      "map_result (resolve_link product hubs) (enumerate 0 (vs_links cfg)) = Inr links"
      "map_result (resolve_satellite product hubs links) (enumerate 0 (vs_satellites cfg)) = Inr satellites"
      "map_result (resolve_surviving product hubs satellites) (enumerate 0 (vs_surviving cfg)) = Inr surviving"
      "map_result (resolve_instant product hubs satellites) (enumerate 0 (vs_instants cfg)) = Inr instants"
    and once: "distinct (map hb_name (vs_hubs cfg))" "distinct (map lk_name (vs_links cfg))"
      "distinct (map sa_name (vs_satellites cfg))" "distinct (map sv_name (vs_surviving cfg))" "distinct (map pt_name (vs_instants cfg))"
    and plan: "plan = \<lparr>pl_product = product, pl_hubs = hubs, pl_links = links, pl_satellites = satellites,
      pl_surviving = surviving, pl_instants = instants\<rparr>"
    unfolding resolve_plan_def bind_eq_Inr check_unique_Inr by blast
  show "list_all2 hub_entry (vs_hubs cfg) (pl_hubs plan)"
    unfolding plan using entries_map [OF _ steps(1), of hub_entry] resolve_hub_Inr by simp
  show "list_all2 (link_entry (pl_hubs plan)) (vs_links cfg) (pl_links plan)"
    unfolding plan using entries_map [OF _ steps(2), of "link_entry hubs"] resolve_link_Inr by simp
  show "list_all2 (satellite_entry (pl_hubs plan) (pl_links plan)) (vs_satellites cfg) (pl_satellites plan)"
    unfolding plan using entries_map [OF _ steps(3), of "satellite_entry hubs links"] resolve_satellite_Inr by simp
  show "list_all2 (surviving_entry (pl_hubs plan) (pl_satellites plan)) (vs_surviving cfg) (pl_surviving plan)"
    unfolding plan using entries_map [OF _ steps(4), of "surviving_entry hubs satellites"] resolve_surviving_Inr by simp
  show "list_all2 (instant_entry (pl_hubs plan) (pl_satellites plan)) (vs_instants cfg) (pl_instants plan)"
    unfolding plan using entries_map [OF _ steps(5), of "instant_entry hubs satellites"] resolve_instant_Inr by simp
qed (use assms in \<open>auto simp: resolve_plan_def\<close>)

section \<open>The relations\<close>

lemma fields_for_Inr:
  assumes "fields_for product occurrence cols required columns = Inr published"
  shows "field_names published = columns" "set columns \<subseteq> set (field_names cols)" "rf_type ` set published \<subseteq> rf_type ` set cols"
  using keyed_fields_Inr [OF assms [unfolded fields_for_def]] by auto

text \<open>The types a rendered vault has beside those of the composition.\<close>

definition vault_types :: "neutral_type set" where
  "vault_types = {string_type, integer_type, timestamp_type}"

text \<open>A relation of a vault reads columns the composition carries, is keyed on required columns of its own, and has no
  type from elsewhere.\<close>

definition vault_sound :: "relation_field list \<Rightarrow> shape_relation \<Rightarrow> bool" where
  "vault_sound cols r \<longleftrightarrow> set (sr_source_columns r) \<subseteq> set (field_names cols) \<and>
     (\<forall>k \<in> set (sr_key r). \<exists>f \<in> set (rs_fields (sr_schema r)). rf_name f = k \<and> rf_required f) \<and>
     rf_type ` set (rs_fields (sr_schema r)) \<subseteq> rf_type ` set cols \<union> vault_types"

lemma store_relation_simps [simp]:
  "sr_suffix (store_relation product suffix published derivation sources key) = Some suffix"
  "sr_schema (store_relation product suffix published derivation sources key) = plain_schema (under_product product suffix) published"
  "sr_source_columns (store_relation product suffix published derivation sources key) = sources"
  "sr_key (store_relation product suffix published derivation sources key) = key"
  by (simp_all add: store_relation_def)

lemma plain_schema_simps [simp]: "rs_name (plain_schema n cols) = n" "rs_fields (plain_schema n cols) = cols"
  by (simp_all add: plain_schema_def)

text \<open>A change column has a type of the composition.\<close>

definition typed_changes :: "relation_field list \<Rightarrow> satellite list \<Rightarrow> change_fields \<Rightarrow> bool" where
  "typed_changes cols satellites changes \<longleftrightarrow> (\<forall>s \<in> set satellites. change_type changes s \<in> rf_type ` set cols)"

lemma generated_simps:
  "rf_name (identity_field c) = c" "rf_required (identity_field c)" "rf_type (identity_field c) = string_type"
  "rf_name basis_version_field = ''hashdiff_basis_version''" "rf_required basis_version_field" "rf_type basis_version_field = integer_type"
  "rf_type ` set metadata_fields = {timestamp_type, string_type}"
  by (auto simp: identity_field_def basis_version_field_def metadata_fields_def)

lemma hub_relation_Inr:
  assumes "hub_relation product cols h = Inr r"
  shows "sr_suffix r = Some (hu_suffix h) \<and> rs_name (sr_schema r) = under_product product (hu_suffix h) \<and> vault_sound cols r"
proof -
  from assms obtain keyed where keyed: "fields_for product (named_occurrence ''hubs'' (hu_name h)) cols True (hu_business_key h) = Inr keyed"
    and r: "r = store_relation product (hu_suffix h) (identity_field (hu_key_column h) # keyed @ metadata_fields)
       ''identity_store'' (hu_business_key h) [hu_key_column h]"
    by (auto simp: hub_relation_def)
  show ?thesis using fields_for_Inr [OF keyed] by (auto simp: r vault_sound_def generated_simps image_Un vault_types_def)
qed

lemma link_relation_facts:
  assumes "set (link_business_key l) \<subseteq> set (field_names cols)"
  shows "sr_suffix (link_relation product l) = Some (li_suffix l) \<and>
    rs_name (sr_schema (link_relation product l)) = under_product product (li_suffix l) \<and> vault_sound cols (link_relation product l)"
  using assms by (auto simp: link_relation_def vault_sound_def generated_simps image_Un image_image vault_types_def)

lemma satellite_relation_Inr:
  assumes "satellite_relation product cols changes s = Inr r" and "change_type changes s \<in> rf_type ` set cols"
    and "set (su_parent_key s) \<subseteq> set (field_names cols)" "su_change s \<in> set (field_names cols)"
  shows "sr_suffix r = Some (su_suffix s) \<and> rs_name (sr_schema r) = under_product product (su_suffix s) \<and>
    set (su_payload s) \<subseteq> set (field_names (rs_fields (sr_schema r))) \<and> vault_sound cols r"
proof -
  from assms(1) obtain payload
    where payload: "fields_for product (named_occurrence ''satellites'' (su_name s)) cols False (su_payload s) = Inr payload"
    and r: "r = (store_relation product (su_suffix s)
       ([identity_field (su_parent_column s), typed_field ''hashdiff'' string_type True, basis_version_field]
        @ payload @ [typed_field effective_from (change_type changes s) True] @ metadata_fields)
       (satellite_derivation (su_kind s)) (su_parent_key s @ su_payload s @ [su_change s])
       [su_parent_column s, effective_from, ''hashdiff_basis_version''])\<lparr>sr_change_column := Some (su_change s)\<rparr>"
    by (auto simp: satellite_relation_def)
  note k = fields_for_Inr [OF payload]
  have "set (su_payload s) \<subseteq> set (field_names (rs_fields (sr_schema r)))" using k(1) by (auto simp: r field_names_def)
  moreover have "vault_sound cols r"
    using k assms(2-4) by (auto simp: r vault_sound_def generated_simps image_Un vault_types_def)
  ultimately show ?thesis by (simp add: r)
qed

lemma surviving_relation_Inr:
  assumes "surviving_relation product cols g = Inr r"
  shows "sr_suffix r = Some (gr_suffix g) \<and> rs_name (sr_schema r) = under_product product (gr_suffix g) \<and> vault_sound cols r"
proof -
  let ?o = "named_occurrence ''business_vault'' (gr_name g)"
  from assms obtain keyed survived where keyed: "fields_for product ?o cols True (hu_business_key (gr_hub g)) = Inr keyed"
    and survived: "fields_for product ?o cols False (map fst (gr_attributes g)) = Inr survived"
    and r: "r = (store_relation product (gr_suffix g) (identity_field (hu_key_column (gr_hub g)) # keyed @ survived @ metadata_fields)
        ''surviving_record'' (hu_business_key (gr_hub g) @ map fst (gr_attributes g)) [hu_key_column (gr_hub g)])
        \<lparr>sr_materialisation := Some As_table, sr_reads := hu_suffix (gr_hub g) # map su_suffix (gr_satellites g)\<rparr>"
    by (auto simp: surviving_relation_def Let_def)
  show ?thesis
    using fields_for_Inr [OF keyed] fields_for_Inr [OF survived]
    by (auto simp: r vault_sound_def generated_simps image_Un vault_types_def)
qed

lemma instant_relation_facts:
  assumes "\<forall>s \<in> set (pi_satellites p). change_type changes s \<in> rf_type ` set cols" and "pi_satellites p \<noteq> []"
    and "set (hu_business_key (pi_hub p)) \<subseteq> set (field_names cols)"
  shows "sr_suffix (instant_relation product changes p) = Some (pi_suffix p) \<and>
    rs_name (sr_schema (instant_relation product changes p)) = under_product product (pi_suffix p) \<and>
    vault_sound cols (instant_relation product changes p)"
proof -
  have "change_type changes (hd (pi_satellites p)) \<in> rf_type ` set cols" using assms(1,2) by simp
  with assms(1,3) show ?thesis
    by (auto simp: instant_relation_def Let_def vault_sound_def generated_simps image_Un image_image vault_types_def)
qed

section \<open>The rendered vault\<close>

definition vault_suffixes :: "vault_section \<Rightarrow> string list" where
  "vault_suffixes cfg = map (\<lambda>e. hub_suffix (hb_name e)) (vs_hubs cfg) @ map (\<lambda>e. link_suffix (lk_name e)) (vs_links cfg)
     @ map (\<lambda>e. satellite_suffix (sa_name e)) (vs_satellites cfg) @ map (\<lambda>e. surviving_suffix (sv_name e)) (vs_surviving cfg)
     @ map (\<lambda>e. point_in_time_suffix (pt_name e)) (vs_instants cfg)"

lemmas suffix_defs = hub_suffix_def link_suffix_def satellite_suffix_def surviving_suffix_def point_in_time_suffix_def

lemma vault_suffixes_distinct:
  assumes "resolve_plan product cfg = Inr plan"
  shows "distinct (vault_suffixes cfg)"
  using resolve_plan_Inr(6-10) [OF assms]
  by (auto simp: vault_suffixes_def suffix_defs distinct_map inj_on_def)

lemma vault_suffixes_names: "map (under_product (product_name domain name)) (vault_suffixes (ss_vault cfg)) =
    data_vault_names domain name (section_names ''data_vault'' cfg)"
  by (simp add: vault_suffixes_def suffix_defs data_vault_names_def section_names_def Let_def comp_def)

text \<open>What one kind of entry is rendered as.\<close>

definition rendered_as :: "string \<Rightarrow> relation_field list \<Rightarrow> string list \<Rightarrow> shape_relation list \<Rightarrow> bool" where
  "rendered_as product cols suffixes rs \<longleftrightarrow> map sr_suffix rs = map Some suffixes \<and>
     map (\<lambda>r. rs_name (sr_schema r)) rs = map (under_product product) suffixes \<and> (\<forall>r \<in> set rs. vault_sound cols r)"

lemma rendered_as_append:
  "rendered_as product cols xs rs \<Longrightarrow> rendered_as product cols ys qs \<Longrightarrow> rendered_as product cols (xs @ ys) (rs @ qs)"
  by (auto simp: rendered_as_def)

lemma rendered_entries:
  assumes "list_all2 E es xs" and "\<And>e x. E e x \<Longrightarrow> suffix x = name e"
    and "list_all2 R xs rs"
    and "\<And>x r. x \<in> set xs \<Longrightarrow> R x r \<Longrightarrow>
      sr_suffix r = Some (suffix x) \<and> rs_name (sr_schema r) = under_product product (suffix x) \<and> vault_sound cols r"
  shows "rendered_as product cols (map name es) rs"
proof -
  from assms(1) have names: "map name es = map suffix xs"
    by (induction rule: list_all2_induct) (auto dest: assms(2))
  from assms(3,4) have "rendered_as product cols (map suffix xs) rs"
    by (induction rule: list_all2_induct) (auto simp: rendered_as_def)
  with names show ?thesis by simp
qed

lemma check_composition_Inr:
  assumes "check_composition plan product cols = Inr changes"
  shows "\<forall>h \<in> set (pl_hubs plan). set (hu_business_key h) \<subseteq> set (field_names cols)"
    and "\<forall>s \<in> set (pl_satellites plan). change_type changes s \<in> rf_type ` set cols \<and> su_change s \<in> set (field_names cols)"
    and "\<forall>p \<in> set (pl_instants plan). pi_satellites p \<noteq> []"
proof -
  from assms have hubs: "\<forall>h \<in> set (pl_hubs plan). \<exists>x. fields_for product (named_occurrence ''hubs'' (hu_name h)) cols False (hu_business_key h) = Inr x"
    and changes: "map_result (check_satellite product cols) (pl_satellites plan) = Inr changes"
    and instants: "\<forall>p \<in> set (pl_instants plan). check_instants product changes p = Inr ()"
    by (auto simp: check_composition_def)
  show "\<forall>h \<in> set (pl_hubs plan). set (hu_business_key h) \<subseteq> set (field_names cols)"
    using hubs fields_for_Inr(2) by blast
  have each: "list_all2 (\<lambda>s (n, f). n = su_name s \<and> f \<in> set cols \<and> su_change s \<in> set (field_names cols)) (pl_satellites plan) changes"
    using changes unfolding map_result_Inr
    by (rule list_all2_mono) (auto simp: check_satellite_def Let_def dest: instant_field_Inr)
  then have found: "s \<in> set (pl_satellites plan) \<Longrightarrow> su_change s \<in> set (field_names cols) \<and> su_name s \<in> fst ` set changes"
    and from_cols: "\<forall>(n, f) \<in> set changes. f \<in> set cols" for s
    by (induction rule: list_all2_induct) auto
  show "\<forall>s \<in> set (pl_satellites plan). change_type changes s \<in> rf_type ` set cols \<and> su_change s \<in> set (field_names cols)"
  proof
    fix s
    assume "s \<in> set (pl_satellites plan)"
    note s = found [OF this]
    then obtain f where "map_of changes (su_name s) = Some f" by (cases "map_of changes (su_name s)") (auto simp: map_of_eq_None_iff)
    with from_cols s show "change_type changes s \<in> rf_type ` set cols \<and> su_change s \<in> set (field_names cols)"
      by (auto simp: change_type_def dest: map_of_SomeD)
  qed
  show "\<forall>p \<in> set (pl_instants plan). pi_satellites p \<noteq> []"
    using instants by (auto simp: check_instants_def Let_def split: if_splits)
qed

lemma vault_rendered:
  assumes "vault_relations product cfg cols = Inr relations"
  shows "rendered_as product cols (vault_suffixes cfg) relations" and "distinct (vault_suffixes cfg)"
    and "\<forall>e \<in> set (vs_satellites cfg). \<exists>r \<in> set relations. sr_suffix r = Some (satellite_suffix (sa_name e)) \<and>
      set (sa_payload e) \<subseteq> set (field_names (rs_fields (sr_schema r)))"
proof -
  from assms obtain plan changes hubs satellites surviving where plan: "resolve_plan product cfg = Inr plan"
    and changes: "check_composition plan product cols = Inr changes"
    and parts: "map_result (hub_relation product cols) (pl_hubs plan) = Inr hubs"
      "map_result (satellite_relation product cols changes) (pl_satellites plan) = Inr satellites"
      "map_result (surviving_relation product cols) (pl_surviving plan) = Inr surviving"
    and relations: "relations = hubs @ map (link_relation product) (pl_links plan) @ satellites @ surviving
       @ map (instant_relation product changes) (pl_instants plan)"
    by (auto simp: vault_relations_def)
  note entries = resolve_plan_Inr [OF plan]
  note carried = check_composition_Inr [OF changes]
  have keys: "set (link_business_key l) \<subseteq> set (field_names cols)" if "l \<in> set (pl_links plan)" for l
  proof -
    from entries(2) that obtain e where "link_entry (pl_hubs plan) e l" by (auto simp: list_all2_conv_all_nth in_set_conv_nth)
    with carried(1) show ?thesis by (auto simp: link_entry_def link_business_key_def)
  qed
  have parent: "set (su_parent_key s) \<subseteq> set (field_names cols)" if "s \<in> set (pl_satellites plan)" for s
  proof -
    from entries(3) that obtain e where "satellite_entry (pl_hubs plan) (pl_links plan) e s"
      by (auto simp: list_all2_conv_all_nth in_set_conv_nth)
    then have "parent_named (pl_hubs plan) (pl_links plan) (sa_parent e) = Some (su_parent_column s, su_parent_key s)"
      by (simp add: satellite_entry_def)
    from map_of_SomeD [OF this [unfolded parent_named_def]]
    consider l where "l \<in> set (pl_links plan)" "su_parent_key s = link_business_key l"
      | h where "h \<in> set (pl_hubs plan)" "su_parent_key s = hu_business_key h" by auto
    then show ?thesis by cases (simp_all add: keys carried(1))
  qed
  have "rendered_as product cols (map (\<lambda>e. hub_suffix (hb_name e)) (vs_hubs cfg)) hubs"
    by (rule rendered_entries [OF entries(1) _ parts(1) [unfolded map_result_Inr], of hu_suffix])
      (auto simp: hub_entry_def dest: hub_relation_Inr)
  moreover have "rendered_as product cols (map (\<lambda>e. link_suffix (lk_name e)) (vs_links cfg)) (map (link_relation product) (pl_links plan))"
    by (rule rendered_entries [OF entries(2), of li_suffix _ "\<lambda>l r. r = link_relation product l"])
      (auto simp: link_entry_def list.rel_map intro: list.rel_refl dest!: keys intro!: link_relation_facts)
  moreover have sat: "list_all2 (\<lambda>s r. sr_suffix r = Some (su_suffix s) \<and> rs_name (sr_schema r) = under_product product (su_suffix s) \<and>
      set (su_payload s) \<subseteq> set (field_names (rs_fields (sr_schema r))) \<and> vault_sound cols r) (pl_satellites plan) satellites"
  proof (rule list.rel_mono_strong [OF parts(2) [unfolded map_result_Inr]])
    fix s r
    assume s: "s \<in> set (pl_satellites plan)" and r: "satellite_relation product cols changes s = Inr r"
    from bspec [OF carried(2) s] parent [OF s]
    show "sr_suffix r = Some (su_suffix s) \<and> rs_name (sr_schema r) = under_product product (su_suffix s) \<and>
        set (su_payload s) \<subseteq> set (field_names (rs_fields (sr_schema r))) \<and> vault_sound cols r"
      by (intro satellite_relation_Inr [OF r]) simp_all
  qed
  moreover have "rendered_as product cols (map (\<lambda>e. satellite_suffix (sa_name e)) (vs_satellites cfg)) satellites"
    by (rule rendered_entries [OF entries(3) _ sat, of su_suffix]) (auto simp: satellite_entry_def)
  moreover have "rendered_as product cols (map (\<lambda>e. surviving_suffix (sv_name e)) (vs_surviving cfg)) surviving"
    by (rule rendered_entries [OF entries(4) _ parts(3) [unfolded map_result_Inr], of gr_suffix])
      (auto simp: surviving_entry_def dest: surviving_relation_Inr)
  moreover have "rendered_as product cols (map (\<lambda>e. point_in_time_suffix (pt_name e)) (vs_instants cfg))
      (map (instant_relation product changes) (pl_instants plan))"
  proof (rule rendered_entries [OF entries(5), of pi_suffix _ "\<lambda>p r. r = instant_relation product changes p"])
    fix p r
    assume p: "p \<in> set (pl_instants plan)" and r: "r = instant_relation product changes p"
    from entries(5) p obtain e where "instant_entry (pl_hubs plan) (pl_satellites plan) e p"
      by (auto simp: list_all2_conv_all_nth in_set_conv_nth)
    with carried p show "sr_suffix r = Some (pi_suffix p) \<and> rs_name (sr_schema r) = under_product product (pi_suffix p) \<and> vault_sound cols r"
      unfolding r by (intro instant_relation_facts) (auto simp: instant_entry_def reads_of_def)
  qed (auto simp: instant_entry_def list.rel_map intro: list.rel_refl)
  ultimately show "rendered_as product cols (vault_suffixes cfg) relations"
    unfolding relations vault_suffixes_def by (intro rendered_as_append)
  show "distinct (vault_suffixes cfg)" by (rule vault_suffixes_distinct [OF plan])
  show "\<forall>e \<in> set (vs_satellites cfg). \<exists>r \<in> set relations. sr_suffix r = Some (satellite_suffix (sa_name e)) \<and>
      set (sa_payload e) \<subseteq> set (field_names (rs_fields (sr_schema r)))"
  proof
    fix e
    assume "e \<in> set (vs_satellites cfg)"
    then obtain s where s: "s \<in> set (pl_satellites plan)" "satellite_entry (pl_hubs plan) (pl_links plan) e s"
      using list_all2_setD1 [OF entries(3)] by blast
    with list_all2_setD1 [OF sat] obtain r where r: "r \<in> set satellites" "sr_suffix r = Some (su_suffix s)"
      "set (su_payload s) \<subseteq> set (field_names (rs_fields (sr_schema r)))"
      by blast
    with s(2) r show "\<exists>r \<in> set relations. sr_suffix r = Some (satellite_suffix (sa_name e)) \<and>
        set (sa_payload e) \<subseteq> set (field_names (rs_fields (sr_schema r)))"
      by (auto simp: relations satellite_entry_def intro!: bexI [of _ r])
  qed
qed

end
