(* ===== verification/Vault_Ledger.thy ===== *)
theory Vault_Ledger
  imports Vault_Evolution Vault_Facts "HOL-Library.Sublist"
begin

text \<open>
  What the gradings and the re-baseline keep of a ledger: the entry each of them leaves for a satellite, the
  histories of a product's ledger as a step relation, and the bases an entry has recorded.
\<close>

section \<open>One satellite\<close>

lemma columns_outside_simps [simp]: "columns_outside carried [] = []" "columns_outside [] columns = columns"
  by (simp_all add: columns_outside_def)

lemma entry_of_simps [simp]:
  "le_kind (entry_of d v b s) = de_kind d" "le_change (entry_of d v b s) = de_change d"
  "le_version (entry_of d v b s) = Some v" "le_basis (entry_of d v b s) = b" "le_payload (entry_of d v b s) = de_payload d"
  "le_exclusions (entry_of d v b s) = de_exclusions d" "le_types (entry_of d v b s) = de_types d"
  "le_superseded (entry_of d v b s) = s" "le_pending (entry_of d v b s) = None"
  by (simp_all add: entry_of_def)

text \<open>No column both sides have a type for has two.\<close>

definition types_agree :: "ledger_entry \<Rightarrow> satellite_record \<Rightarrow> bool" where
  "types_agree e d \<longleftrightarrow> (\<forall>c \<in> set (le_payload e). \<forall>was now.
     map_of (le_types e) c = Some was \<longrightarrow> map_of (de_types d) c = Some now \<longrightarrow> was = now)"

lemma retyped_columns_Nil: "retyped_columns e d = [] \<longleftrightarrow> types_agree e d"
  by (fastforce simp: retyped_columns_def types_agree_def map_filter_def filter_empty_conv split: option.splits if_splits)

text \<open>What an emission may change of a recorded satellite.\<close>

definition extends :: "ledger_entry \<Rightarrow> satellite_record \<Rightarrow> bool" where
  "extends e d \<longleftrightarrow> le_pending e = None \<and> le_kind e = de_kind d \<and> le_change e = de_change d \<and> types_agree e d \<and>
     set (le_payload e) \<subseteq> set (de_payload d) \<and>
     columns_outside (columns_outside (le_payload e) (de_payload d)) (de_basis d) = le_basis e"

lemma grade_one_Inr:
  "grade_one product n d e = Inr (e', ns) \<longleftrightarrow>
     extends e d \<and> e' = entry_of d (version_of e) (le_basis e) (le_superseded e) \<and>
     ns = (let outside = columns_outside (le_basis e) (columns_outside (le_payload e) (de_payload d)) in
       if outside = [] then [] else [Outside_detection n outside (length (le_basis e)) (version_of e)])"
  unfolding grade_one_def extends_def retyped_columns_Nil [symmetric]
  by (auto simp: estate_migration_def Let_def split: list.splits)

lemma grade_one_Inl: "\<not> extends e d \<Longrightarrow> \<exists>f. grade_one product n d e = Inl f"
  by (cases "grade_one product n d e") (auto simp: grade_one_Inr)

text \<open>An entry that already has the payload of its declaration has no reason to be refused but its basis.\<close>

lemma grade_one_again:
  assumes "le_pending e = None" "le_kind e = de_kind d" "le_change e = de_change d" "le_payload e = de_payload d"
    "le_types e = de_types d"
  shows "grade_one product n d e =
    (if le_basis e = de_basis d then Inr (entry_of d (version_of e) (le_basis e) (le_superseded e), [])
     else Inl (Estate_migration product n Basis_change (Detection_differs (de_basis d) (le_basis e))))"
proof -
  have "retyped_columns e d = []" using assms by (simp add: retyped_columns_Nil types_agree_def)
  moreover have "columns_outside (de_payload d) (de_payload d) = []" by simp
  ultimately show ?thesis using assms by (simp add: grade_one_def Let_def estate_migration_def del: columns_outside_Nil)
qed

section \<open>An emission\<close>

text \<open>What an emission makes of one declared satellite.\<close>

definition graded_as :: "string \<Rightarrow> (string \<times> ledger_entry) list \<Rightarrow> string \<Rightarrow> satellite_record \<Rightarrow> ledger_entry \<Rightarrow> bool" where
  "graded_as product previous n d e \<longleftrightarrow>
     (case map_of previous n of
        None \<Rightarrow> e = entry_of d 1 (de_basis d) []
      | Some stored \<Rightarrow> \<exists>ns. grade_one product n d stored = Inr (e, ns))"

lemma graded_loop:
  "fold_result (grade_satellite product previous) ds (graded, notices) = Inr (graded', notices') \<Longrightarrow>
     \<exists>new. graded' = graded @ new \<and> list_all2 (\<lambda>(n, d) (m, e). m = n \<and> graded_as product previous n d e) ds new"
proof (induction ds arbitrary: graded notices)
  case (Cons x ds)
  obtain n d where x: "x = (n, d)" by (cases x)
  from Cons.prems obtain e ns where step: "grade_satellite product previous x (graded, notices) = Inr (graded @ [(n, e)], ns)"
    and e: "graded_as product previous n d e"
    and rest: "fold_result (grade_satellite product previous) ds (graded @ [(n, e)], ns) = Inr (graded', notices')"
    unfolding x by (auto simp: grade_satellite_def graded_as_def split: option.splits)
  from Cons.IH [OF rest] obtain new where "graded' = graded @ [(n, e)] @ new"
    "list_all2 (\<lambda>(n, d) (m, e). m = n \<and> graded_as product previous n d e) ds new" by auto
  with e x show ?case by (intro exI [of _ "(n, e) # new"]) auto
qed simp

definition satellites_recorded :: "ledger option \<Rightarrow> (string \<times> ledger_entry) list" where
  "satellites_recorded recorded = (case recorded of None \<Rightarrow> [] | Some l \<Rightarrow> lg_satellites l)"

lemma satellites_recorded_simps [simp]:
  "satellites_recorded None = []" "satellites_recorded (Some l) = lg_satellites l"
  by (simp_all add: satellites_recorded_def)

lemma names_of_pairs: "list_all2 (\<lambda>(n, d) (m, e). m = n \<and> P n d e) xs ys \<Longrightarrow> map fst ys = map fst xs"
  by (induction rule: list_all2_induct) auto

lemma map_of_pairs:
  "list_all2 (\<lambda>(n, d) (m, e). m = n \<and> P n d e) xs ys \<Longrightarrow> map_of xs n = Some d \<Longrightarrow>
     \<exists>e. map_of ys n = Some e \<and> P n d e"
  by (induction rule: list_all2_induct) (auto split: if_splits)

lemma map_of_sort_key:
  assumes "distinct (map fst ds)"
  shows "map_of (sort_key fst ds) = map_of ds" "map fst (sort_key fst ds) = sort (map fst ds)"
proof -
  have once: "distinct (map fst (sort_key fst ds))"
    using assms by (simp add: distinct_map)
  with assms show "map_of (sort_key fst ds) = map_of ds" by (intro map_of_inject_set [THEN iffD2]) simp_all
  show "map fst (sort_key fst ds) = sort (map fst ds)"
    using assms once by (intro sorted_distinct_set_unique) simp_all
qed

lemma grade_Inr:
  assumes "grade product declared recorded = Inr (l, notices)" and "distinct (map fst declared)"
  shows "lg_product l = product" "map fst (lg_satellites l) = sort (map fst declared)"
    "map_of declared n = Some d \<Longrightarrow>
      \<exists>e. map_of (lg_satellites l) n = Some e \<and> graded_as product (satellites_recorded recorded) n d e"
proof -
  from assms(1) obtain graded ns where loop: "fold_result (grade_satellite product (satellites_recorded recorded))
      (sort_key fst declared) ([], []) = Inr (graded, ns)" and l: "l = \<lparr>lg_product = product, lg_satellites = graded\<rparr>"
    by (auto simp: grade_def satellites_recorded_def Let_def)
  from graded_loop [OF loop] have pairs: "list_all2 (\<lambda>(n, d) (m, e). m = n \<and>
      graded_as product (satellites_recorded recorded) n d e) (sort_key fst declared) graded" by auto
  show "lg_product l = product" by (simp add: l)
  show "map fst (lg_satellites l) = sort (map fst declared)"
    using names_of_pairs [OF pairs] map_of_sort_key [OF assms(2)] by (simp add: l)
  show "\<exists>e. map_of (lg_satellites l) n = Some e \<and> graded_as product (satellites_recorded recorded) n d e"
    if "map_of declared n = Some d"
    using map_of_pairs [OF pairs] that map_of_sort_key [OF assms(2)] by (simp add: l)
qed

text \<open>One satellite that would be refused stops the emission.\<close>

lemma grade_stopped:
  assumes "distinct (map fst declared)" "map_of declared n = Some d" "map_of (lg_satellites l) n = Some e" "\<not> extends e d"
  shows "\<exists>f. grade product declared (Some l) = Inl f"
proof (cases "grade product declared (Some l)")
  case (Inr r)
  then have "grade product declared (Some l) = Inr (fst r, snd r)" by simp
  from grade_Inr(3) [OF this assms(1,2)] assms(3,4) show ?thesis
    by (auto simp: graded_as_def grade_one_Inr)
qed simp

section \<open>The history of a ledger\<close>

text \<open>What is done to the ledger of a product: an emission under some declaration, or a step of a re-baseline.\<close>

datatype ledger_event =
    Emitted "(string \<times> satellite_record) list"
  | Staged string satellite_record
  | Promoted string
  | Aborted string

inductive ledger_step :: "string \<Rightarrow> ledger option \<Rightarrow> ledger_event \<Rightarrow> ledger \<Rightarrow> bool" for product where
  emitted: "distinct (map fst declared) \<Longrightarrow> grade product declared recorded = Inr (l, notices) \<Longrightarrow>
     ledger_step product recorded (Emitted declared) l"
| staged: "stage product n d l = Inr l' \<Longrightarrow> ledger_step product (Some l) (Staged n d) l'"
| promoted: "promote product n l = Inr l' \<Longrightarrow> ledger_step product (Some l) (Promoted n) l'"
| aborted: "abort product n l = Inr l' \<Longrightarrow> ledger_step product (Some l) (Aborted n) l'"

inductive_cases emitted_cases: "ledger_step product recorded (Emitted declared) l"

inductive ledger_history :: "string \<Rightarrow> ledger option \<Rightarrow> ledger_event list \<Rightarrow> ledger option \<Rightarrow> bool" for product recorded where
  unchanged: "ledger_history product recorded [] recorded"
| then_step: "ledger_history product recorded events r \<Longrightarrow> ledger_step product r event l \<Longrightarrow>
     ledger_history product recorded (events @ [event]) (Some l)"

text \<open>The emission route and the command only make such steps.\<close>

lemma emission_steps:
  assumes "emit_ledger product cfg relations recorded = Inr (l, notices)" and "distinct (map sa_name (vs_satellites cfg))"
  shows "ledger_step product recorded (Emitted (declared_now relations cfg)) l"
  using assms by (auto simp: emit_ledger_def declared_now_def declared_records_def comp_def intro!: emitted)

lemma rebaseline_steps:
  assumes "run_rebaseline declarations relations product n operation recorded = Inr l'"
  shows "\<exists>l event. recorded = Some l \<and> ledger_step product (Some l) event l'"
  using assms
  by (cases recorded; cases operation; cases "relations product")
    (auto simp: run_rebaseline_def split: option.splits sum.splits dest: ledger_step.intros(2-4))

lemma map_of_put_entry: "map_of (lg_satellites (put_entry n e l)) m =
    (if m = n then map_option (\<lambda>_. e) (map_of (lg_satellites l) n) else map_of (lg_satellites l) m)"
proof -
  have "map_of (map (\<lambda>(k, old). (k, if k = n then e else old)) xs) m =
      (if m = n then map_option (\<lambda>_. e) (map_of xs n) else map_of xs m)" for xs :: "(string \<times> ledger_entry) list"
    by (induction xs) auto
  then show ?thesis by (simp add: put_entry_def)
qed

lemma recorded_entry_Inr [simp]: "recorded_entry product n l = Inr e \<longleftrightarrow> map_of (lg_satellites l) n = Some e"
  by (simp add: recorded_entry_def estate_migration_def split: option.splits)

lemma stage_Inr: "stage product n d l = Inr l' \<longleftrightarrow>
    (\<exists>e. map_of (lg_satellites l) n = Some e \<and> l' = put_entry n (e\<lparr>le_pending := Some d\<rparr>) l)"
  by (auto simp: stage_def)

text \<open>The entry a promotion leaves.\<close>

definition rebased :: "satellite_record \<Rightarrow> ledger_entry \<Rightarrow> ledger_entry" where
  "rebased d e = entry_of d (version_of e + 1) (de_basis d) (le_superseded e @
     [\<lparr>sb_version = version_of e, sb_basis = le_basis e, sb_payload = le_payload e, sb_types = le_types e\<rparr>])"

lemma promote_Inr: "promote product n l = Inr l' \<longleftrightarrow>
    (\<exists>e d. map_of (lg_satellites l) n = Some e \<and> le_pending e = Some d \<and> l' = put_entry n (rebased d e) l)"
  by (auto simp: promote_def rebased_def estate_migration_def Let_def split: option.splits)

lemma abort_Inr: "abort product n l = Inr l' \<longleftrightarrow>
    (\<exists>e. map_of (lg_satellites l) n = Some e \<and> le_pending e \<noteq> None \<and> l' = put_entry n (e\<lparr>le_pending := None\<rparr>) l)"
  by (auto simp: abort_def estate_migration_def)

section \<open>The bases of an entry\<close>

text \<open>Every basis an entry has recorded, with its version: the superseded ones and the one in force.\<close>

definition recorded_bases :: "ledger_entry \<Rightarrow> (nat \<times> string list) list" where
  "recorded_bases e = map (\<lambda>s. (sb_version s, sb_basis s)) (le_superseded e) @ [(version_of e, le_basis e)]"

definition sound_entry :: "ledger_entry \<Rightarrow> bool" where
  "sound_entry e \<longleftrightarrow> map fst (recorded_bases e) = [1..<Suc (version_of e)]"

definition sound_ledger :: "ledger \<Rightarrow> bool" where
  "sound_ledger l \<longleftrightarrow> (\<forall>n e. map_of (lg_satellites l) n = Some e \<longrightarrow> sound_entry e)"

lemma version_of_entry [simp]: "0 < v \<Longrightarrow> version_of (entry_of d v b s) = v" "version_of (e\<lparr>le_pending := p\<rparr>) = version_of e"
  by (simp_all add: version_of_def)

lemma version_pos [simp]: "0 < version_of e"
  by (simp add: version_of_def split: option.splits)

lemma recorded_bases_simps [simp]:
  "0 < v \<Longrightarrow> recorded_bases (entry_of d v b s) = map (\<lambda>s. (sb_version s, sb_basis s)) s @ [(v, b)]"
  "recorded_bases (e\<lparr>le_pending := p\<rparr>) = recorded_bases e"
  "recorded_bases (rebased d e) = recorded_bases e @ [(version_of e + 1, de_basis d)]"
  by (simp_all add: recorded_bases_def rebased_def)

lemma graded_bases:
  assumes "graded_as product previous n d e'" and "map_of previous n = Some e"
  shows "recorded_bases e' = recorded_bases e"
  using assms by (auto simp: graded_as_def grade_one_Inr recorded_bases_def)

lemma sound_new [simplified, simp]: "sound_entry (entry_of d 1 b [])"
  by (simp add: sound_entry_def)

lemma version_of_rebased [simp]: "version_of (rebased d e) = version_of e + 1"
  by (simp add: rebased_def)

lemma sound_rebased: "sound_entry e \<Longrightarrow> sound_entry (rebased d e)"
  by (simp add: sound_entry_def)

lemma sound_pending: "sound_entry (e\<lparr>le_pending := p\<rparr>) = sound_entry e"
  by (simp add: sound_entry_def)

lemma sound_graded:
  assumes "graded_as product previous n d e" and "\<And>old. map_of previous n = Some old \<Longrightarrow> sound_entry old"
  shows "sound_entry e"
proof (cases "map_of previous n")
  case None
  with assms(1) show ?thesis by (simp add: graded_as_def)
next
  case (Some old)
  with assms graded_bases [OF assms(1) Some] show ?thesis
    by (auto simp: sound_entry_def graded_as_def grade_one_Inr)
qed

lemma step_sound:
  assumes "ledger_step product recorded event l'" and "\<And>l. recorded = Some l \<Longrightarrow> sound_ledger l"
  shows "sound_ledger l'"
  using assms
proof (cases rule: ledger_step.cases)
  case (emitted declared notices)
  show ?thesis
    unfolding sound_ledger_def
  proof (intro allI impI)
    fix n e
    assume e: "map_of (lg_satellites l') n = Some e"
    then have "n \<in> fst ` set (lg_satellites l')" by (metis map_of_eq_None_iff option.distinct(1))
    with grade_Inr(2) [OF emitted(3,2)] have "n \<in> fst ` set declared" by (metis list.set_map set_sort)
    then obtain d where d: "map_of declared n = Some d" by (metis map_of_eq_None_iff not_None_eq)
    from grade_Inr(3) [OF emitted(3,2) d] e have "graded_as product (satellites_recorded recorded) n d e" by auto
    then show "sound_entry e"
      by (rule sound_graded) (use assms(2) in \<open>auto simp: satellites_recorded_def sound_ledger_def split: option.splits\<close>)
  qed
qed (auto simp: sound_ledger_def stage_Inr promote_Inr abort_Inr map_of_put_entry sound_rebased sound_pending split: if_splits)

text \<open>A step keeps every basis a satellite has recorded, where it does not drop the satellite.\<close>

lemma step_keeps_bases:
  assumes "ledger_step product (Some l) event l'" and "map_of (lg_satellites l) n = Some e"
    and "\<And>declared. event = Emitted declared \<Longrightarrow> n \<in> fst ` set declared"
  shows "\<exists>e'. map_of (lg_satellites l') n = Some e' \<and> prefix (recorded_bases e) (recorded_bases e')"
  using assms(1)
proof (cases rule: ledger_step.cases)
  case (emitted declared notices)
  with assms(3) obtain d where d: "map_of declared n = Some d" by (metis map_of_eq_None_iff not_None_eq)
  from grade_Inr(3) [OF emitted(3,2) d] obtain e' where e': "map_of (lg_satellites l') n = Some e'"
    "graded_as product (lg_satellites l) n d e'" by auto
  with graded_bases [OF e'(2) assms(2)] show ?thesis by auto
qed (use assms(2) in \<open>auto simp: stage_Inr promote_Inr abort_Inr map_of_put_entry\<close>)

lemma history_sound:
  "ledger_history product recorded events r \<Longrightarrow> (\<And>l. recorded = Some l \<Longrightarrow> sound_ledger l) \<Longrightarrow>
     r = Some l \<Longrightarrow> sound_ledger l"
proof (induction arbitrary: l rule: ledger_history.induct)
  case (then_step events r event l')
  then show ?case using step_sound [OF then_step.hyps(2)] by auto
qed simp

lemma history_keeps_bases:
  assumes "ledger_history product recorded events r" and "recorded = Some l" "map_of (lg_satellites l) n = Some e"
    and "\<And>declared. Emitted declared \<in> set events \<Longrightarrow> n \<in> fst ` set declared"
  shows "\<exists>l' e'. r = Some l' \<and> map_of (lg_satellites l') n = Some e' \<and> prefix (recorded_bases e) (recorded_bases e')"
  using assms
proof (induction rule: ledger_history.induct)
  case (then_step events r event l')
  then obtain k f where k: "r = Some k" "map_of (lg_satellites k) n = Some f" "prefix (recorded_bases e) (recorded_bases f)"
    by auto
  from step_keeps_bases [OF then_step.hyps(2) [unfolded k(1)] k(2)] then_step.prems(3)
  obtain e' where "map_of (lg_satellites l') n = Some e'" "prefix (recorded_bases f) (recorded_bases e')" by auto
  with k(3) show ?case by (auto intro: prefix_order.trans)
qed simp

section \<open>An emission of the same declaration\<close>

text \<open>An entry as an emission of a declaration leaves it.\<close>

definition as_declared :: "satellite_record \<Rightarrow> ledger_entry \<Rightarrow> bool" where
  "as_declared d e \<longleftrightarrow> (\<exists>v b s. 0 < v \<and> e = entry_of d v b s)"

lemma graded_as_declared:
  assumes "graded_as product previous n d e"
  shows "as_declared d e"
proof -
  from assms consider "e = entry_of d 1 (de_basis d) []"
    | old where "e = entry_of d (version_of old) (le_basis old) (le_superseded old)"
    by (auto simp: graded_as_def grade_one_Inr split: option.splits)
  then show ?thesis unfolding as_declared_def by cases (blast intro: zero_less_one version_pos)+
qed

lemma grade_as_declared: "as_declared d e \<Longrightarrow> grade_one product n d e =
    (if le_basis e = de_basis d then Inr (e, [])
     else Inl (Estate_migration product n Basis_change (Detection_differs (de_basis d) (le_basis e))))"
  by (auto simp: as_declared_def grade_one_again)

lemma graded_again:
  assumes "\<forall>(n, d) \<in> set ds. \<exists>e. map_of previous n = Some e \<and> as_declared d e"
  shows "fold_result (grade_satellite product previous) ds (graded, notices) =
    (case find (\<lambda>(n, d). map_option le_basis (map_of previous n) \<noteq> Some (de_basis d)) ds of
       None \<Rightarrow> Inr (graded @ map (\<lambda>(n, d). (n, the (map_of previous n))) ds, notices)
     | Some (n, d) \<Rightarrow> Inl (Estate_migration product n Basis_change
         (Detection_differs (de_basis d) (le_basis (the (map_of previous n))))))"
  using assms
proof (induction ds arbitrary: graded)
  case (Cons x ds)
  obtain n d where x: "x = (n, d)" by (cases x)
  from Cons.prems obtain e where e: "map_of previous n = Some e" "as_declared d e" by (auto simp: x)
  from Cons.prems have rest: "\<forall>(n, d) \<in> set ds. \<exists>e. map_of previous n = Some e \<and> as_declared d e" by simp
  have step: "grade_satellite product previous x (graded, notices) =
      (if le_basis e = de_basis d then Inr (graded @ [(n, e)], notices)
       else Inl (Estate_migration product n Basis_change (Detection_differs (de_basis d) (le_basis e))))"
    using e by (simp add: x grade_satellite_def grade_as_declared)
  show ?case
    by (simp add: step Cons.IH [OF rest]) (simp add: x e(1) split: option.split)
qed simp

lemma pairs_by_name:
  assumes "map fst ys = map fst xs" and "distinct (map fst xs)"
  shows "map (\<lambda>(n, d). (n, the (map_of ys n))) xs = ys"
proof -
  have "map (\<lambda>(n, d). (n, the (map_of ys n))) xs = map (\<lambda>n. (n, the (map_of ys n))) (map fst xs)"
    by (simp add: case_prod_beta)
  also have "\<dots> = map (\<lambda>n. (n, the (map_of ys n))) (map fst ys)" by (simp only: assms(1))
  also have "\<dots> = map (\<lambda>y. (fst y, the (map_of ys (fst y)))) ys" by simp
  also have "\<dots> = ys" using assms(2) [folded assms(1)] by (intro map_idI) (auto simp: distinct_map)
  finally show ?thesis .
qed

section \<open>Stored types\<close>

lemma map_of_tabulated:
  "map_of (List.map_filter (\<lambda>c. map_option (Pair c) (f c)) cs) c = (if c \<in> set cs then f c else None)"
  by (induction cs) (auto simp: map_filter_simps split: option.splits)

lemma map_of_tabulated_by:
  "distinct (map name xs) \<Longrightarrow> x \<in> set xs \<Longrightarrow>
     map_of (List.map_filter (\<lambda>s. map_option (\<lambda>r. (name s, g r s)) (h s)) xs) (name x) = map_option (\<lambda>r. g r x) (h x)"
proof (induction xs)
  case (Cons y xs)
  have "n \<notin> set (map name xs) \<Longrightarrow> map_of (List.map_filter (\<lambda>s. map_option (\<lambda>r. (name s, g r s)) (h s)) xs) n = None" for n
    by (induction xs) (auto simp: map_filter_simps split: option.splits)
  moreover have "x \<in> set xs \<longrightarrow> name x \<in> name ` set xs" by simp
  moreover from this Cons.prems have "x = y \<or> x \<in> set xs \<and> name x \<noteq> name y" by (cases "name x = name y") auto
  ultimately show ?case using Cons by (auto simp: map_filter_simps split: option.splits)
qed simp

text \<open>Every column a declared satellite stores has a type in the relation of the satellite.\<close>

lemma stored_types_complete:
  assumes "vault_relations product cfg cols = Inr relations" and "s \<in> set (vs_satellites cfg)"
  shows "distinct (map sa_name (vs_satellites cfg))"
    and "c \<in> set (sa_payload s) \<Longrightarrow>
      \<exists>t. map_of (types_named (payload_types relations (vs_satellites cfg)) (sa_name s)) c = Some t"
proof -
  note rendered = vault_rendered [OF assms(1)]
  from rendered(2) show once: "distinct (map sa_name (vs_satellites cfg))"
    by (auto simp: vault_suffixes_def suffix_defs distinct_map inj_on_def)
  assume c: "c \<in> set (sa_payload s)"
  from rendered(3) assms(2) obtain r where r: "r \<in> set relations" "sr_suffix r = Some (satellite_suffix (sa_name s))"
    "set (sa_payload s) \<subseteq> set (field_names (rs_fields (sr_schema r)))" by auto
  have "map sr_suffix relations = map Some (vault_suffixes cfg)" using rendered(1) by (simp add: rendered_as_def)
  then have "distinct (rev (map sr_suffix relations))" using rendered(2) by (simp add: distinct_map)
  then have "distinct (map fst (rev (map (\<lambda>r. (sr_suffix r, r)) relations)))" by (simp add: rev_map comp_def)
  with r(1,2) have relation: "map_of (rev (map (\<lambda>r. (sr_suffix r, r)) relations)) (Some (satellite_suffix (sa_name s))) = Some r"
    by (force intro: map_of_is_SomeI)
  have "c \<in> fst ` set (rev (map (\<lambda>f. (rf_name f, rf_type f)) (rs_fields (sr_schema r))))"
    using c r(3) by (force simp: field_names_def)
  then obtain t where "map_of (rev (map (\<lambda>f. (rf_name f, rf_type f)) (rs_fields (sr_schema r)))) c = Some t"
    by (metis map_of_eq_None_iff not_None_eq)
  moreover have "map_of (payload_types relations (vs_satellites cfg)) (sa_name s) = Some (stored_types r s)"
    unfolding payload_types_def
    by (subst map_of_tabulated_by [OF once assms(2)]) (simp add: relation)
  ultimately show "\<exists>t. map_of (types_named (payload_types relations (vs_satellites cfg)) (sa_name s)) c = Some t"
    using c by (simp add: types_named_def stored_types_def map_of_tabulated)
qed

lemma declared_now_of:
  assumes "vault_relations product cfg cols = Inr relations" and "s \<in> set (vs_satellites cfg)"
  shows "distinct (map fst (declared_now relations cfg))"
    and "map_of (declared_now relations cfg) (sa_name s) =
      Some (declared_record s (types_named (payload_types relations (vs_satellites cfg)) (sa_name s)))"
proof -
  have once: "distinct (map sa_name (vs_satellites cfg))" by (rule stored_types_complete(1) [OF assms])
  then show names: "distinct (map fst (declared_now relations cfg))"
    by (simp add: declared_now_def declared_records_def comp_def)
  show "map_of (declared_now relations cfg) (sa_name s) =
      Some (declared_record s (types_named (payload_types relations (vs_satellites cfg)) (sa_name s)))"
    using assms(2) by (intro map_of_is_SomeI [OF names]) (auto simp: declared_now_def declared_records_def)
qed

lemma declared_record_types [simp]:
  "de_payload (declared_record s types) = sa_payload s"
  "map_of (de_types (declared_record s types)) c = (if c \<in> set (sa_payload s) then map_of types c else None)"
  by (simp_all add: declared_record_def map_of_tabulated)

end
