(* ===== verification/Vault_Props.thy ===== *)
theory Vault_Props
  imports Vault_Ledger
begin

text \<open>
  What a vault product publishes, and what its evolution ledger keeps from one emission to the next.
\<close>

section \<open>An example\<close>

definition eg_vault_columns :: "relation_field list" where
  "eg_vault_columns = [typed_field ''id'' string_type True, typed_field ''a'' string_type False,
     typed_field ''b'' string_type False, typed_field ''at'' timestamp_type True]"

definition eg_satellite :: "string list \<Rightarrow> satellite_decl" where
  "eg_satellite payload = \<lparr>sa_name = ''d'', sa_kind = Kind_current, sa_parent = ''p'', sa_payload = payload,
     sa_change = ''at'', sa_exclude = []\<rparr>"

definition eg_vault_config :: "string list \<Rightarrow> vault_section" where
  "eg_vault_config payload = \<lparr>vs_hubs = [\<lparr>hb_name = ''p'', hb_key = [''id'']\<rparr>], vs_links = [],
     vs_satellites = [eg_satellite payload],
     vs_surviving = [\<lparr>sv_name = ''g'', sv_hub = ''p'', sv_satellites = [''d''], sv_attributes = [(''a'', Most_recent)]\<rparr>],
     vs_instants = [\<lparr>pt_name = ''t'', pt_hub = ''p'', pt_satellites = [''d'']\<rparr>]\<rparr>"

definition eg_relations :: "string list \<Rightarrow> shape_relation list" where
  "eg_relations payload = (case vault_relations ''s.v'' (eg_vault_config payload) eg_vault_columns of Inr rs \<Rightarrow> rs | Inl _ \<Rightarrow> [])"

definition eg_declared_now :: "string list \<Rightarrow> (string \<times> satellite_record) list" where
  "eg_declared_now payload = declared_now (eg_relations payload) (eg_vault_config payload)"

definition eg_entry :: "string list \<Rightarrow> string list \<Rightarrow> ledger_entry" where
  "eg_entry basis payload = entry_of (snd (hd (eg_declared_now payload))) 1 basis []"

definition eg_ledger :: "string list \<Rightarrow> string list \<Rightarrow> ledger" where
  "eg_ledger basis payload = \<lparr>lg_product = ''s.v'', lg_satellites = [(''d'', eg_entry basis payload)]\<rparr>"

lemma eg_renders: "vault_relations ''s.v'' (eg_vault_config [''a'']) eg_vault_columns = Inr (eg_relations [''a''])"
    "vault_relations ''s.v'' (eg_vault_config [''a'', ''b'']) eg_vault_columns = Inr (eg_relations [''a'', ''b''])"
  by code_simp+

lemma eg_first_emission: "emit_ledger ''s.v'' (eg_vault_config [''a'']) (eg_relations [''a'']) None =
    Inr (eg_ledger [''a''] [''a''], [Basis_recorded ''d'' [''a'']])"
  by code_simp

lemma eg_second_emission: "emit_ledger ''s.v'' (eg_vault_config [''a'', ''b'']) (eg_relations [''a'', ''b'']) (Some (eg_ledger [''a''] [''a''])) =
    Inr (eg_ledger [''a''] [''a'', ''b''], [Outside_detection ''d'' [''b''] 1 1])"
  by code_simp

lemma eg_names: "distinct (map fst (eg_declared_now [''a'']))" "distinct (map fst (eg_declared_now [''a'', ''b'']))"
    "fst ` set (eg_declared_now [''a'', ''b'']) = {''d''}"
  by code_simp+

section \<open>The relations of a vault\<close>

text \<open>The vault renders the relations it names, and each of them is sound.\<close>

lemma vault_renders_what_it_names:
  assumes "data_vault_relations domain name cfg cols = Inr relations"
  shows "map (\<lambda>r. rs_name (sr_schema r)) relations = data_vault_names domain name (section_names ''data_vault'' cfg) \<and>
    distinct (data_vault_names domain name (section_names ''data_vault'' cfg)) \<and> (\<forall>r \<in> set relations. vault_sound cols r)"
proof -
  note rendered = vault_rendered [OF assms [unfolded data_vault_relations_def]]
  have names: "data_vault_names domain name (section_names ''data_vault'' cfg) =
      map (under_product (product_name domain name)) (vault_suffixes (ss_vault cfg))"
    by (rule vault_suffixes_names [symmetric])
  from rendered(1,2) show ?thesis by (auto simp: names rendered_as_def distinct_map inj_on_def)
qed

definition eg_vault_section :: shape_section where
  "eg_vault_section = \<lparr>ss_canonical = [], ss_ods = [], ss_dimensions = [], ss_facts = [], ss_metrics = [],
     ss_vault = eg_vault_config [''a'']\<rparr>"

text \<open>C33: Every shape the registry has, the vault included, publishes exactly the relations it declares: the names its
  rendering gives its relations are those the product graph reads off the same section, in the same order. The
  relations of a vault have distinct names; each of them reads only columns the composition carries, is keyed on
  columns of its own that are required, and gives a column no type but one the composition declares or one of the
  three the shape generates.\<close>

theorem every_shape_renders_what_it_names:
  assumes "shape_relations_for data_vault_relations doc v cols = Inr relations"
  shows "shape_relation_names (vp_shape v) (vp_domain v) (vp_name v) (section_names (vp_shape v) (cd_shape_config doc)) =
      Inr (map (\<lambda>r. rs_name (sr_schema r)) relations) \<and>
    (vp_shape v = ''data_vault'' \<longrightarrow>
      distinct (map (\<lambda>r. rs_name (sr_schema r)) relations) \<and> (\<forall>r \<in> set relations. vault_sound cols r))"
proof (cases "vp_shape v = ''data_vault''")
  case True
  with assms have "data_vault_relations (vp_domain v) (vp_name v) (cd_shape_config doc) cols = Inr relations"
    by (auto simp: shape_relations_for_def get_shape_def split: if_splits)
  from vault_renders_what_it_names [OF this] True show ?thesis by (simp add: shape_relation_names_def)
next
  case False
  from assms have "get_shape data_vault_relations (vp_shape v) \<noteq> None" by (auto simp: shape_relations_for_def split: option.splits)
  with False have "modelled_shape (vp_shape v)" by (auto simp: get_shape_def modelled_shape_def split: if_splits)
  with shape_rendered(1) [OF assms] False show ?thesis by simp
qed

definition eg_vault_document :: composition_document where
  "eg_vault_document = \<lparr>cd_sources = [], cd_steps = [], cd_combine = None,
     cd_shape_config = \<lparr>ss_canonical = [], ss_ods = [], ss_dimensions = [], ss_facts = [], ss_metrics = [],
       ss_vault = eg_vault_config [''a'']\<rparr>, cd_physical = []\<rparr>"

definition eg_vault_product :: validated_product where
  "eg_vault_product = \<lparr>vp_name = ''v'', vp_domain = ''s'', vp_layer = ''l'', vp_profile = ''serving'', vp_shape = ''data_vault''\<rparr>"

lemma every_shape_renders_what_it_names_witness:
  "shape_relation_names ''data_vault'' ''s'' ''v'' (section_names ''data_vault'' (cd_shape_config eg_vault_document)) =
     Inr (map (\<lambda>r. rs_name (sr_schema r)) (eg_relations [''a''])) \<and> length (eg_relations [''a'']) = 4"
proof -
  have "shape_relations_for data_vault_relations eg_vault_document eg_vault_product eg_vault_columns = Inr (eg_relations [''a''])"
    by code_simp
  from every_shape_renders_what_it_names [OF this] have "shape_relation_names ''data_vault'' ''s'' ''v''
      (section_names ''data_vault'' (cd_shape_config eg_vault_document)) = Inr (map (\<lambda>r. rs_name (sr_schema r)) (eg_relations [''a'']))"
    by (simp add: eg_vault_product_def)
  moreover have "length (eg_relations [''a'']) = 4" by code_simp
  ultimately show ?thesis by blast
qed

section \<open>The ledger\<close>

text \<open>C5: A recorded hashdiff basis never changes. In every history of a product's ledger, emissions under any
  declarations and re-baselines staged, promoted and abandoned in any order, as long as the emissions still declare
  a satellite: every basis recorded for it stays recorded under its version, later ones are only added at the end,
  and the versions are numbered 1, 2, and so on without a gap, the last being the one in force.\<close>

theorem recorded_bases_are_frozen:
  assumes "ledger_history product None before (Some l)" and "map_of (lg_satellites l) n = Some e"
    and "ledger_history product (Some l) events r"
    and "\<And>declared. Emitted declared \<in> set events \<Longrightarrow> n \<in> fst ` set declared"
  shows "\<exists>l' e'. r = Some l' \<and> map_of (lg_satellites l') n = Some e' \<and> prefix (recorded_bases e) (recorded_bases e') \<and>
    map fst (recorded_bases e') = [1..<Suc (version_of e')]"
proof -
  from history_keeps_bases [OF assms(3) refl assms(2,4)] obtain l' e' where l': "r = Some l'"
    "map_of (lg_satellites l') n = Some e'" "prefix (recorded_bases e) (recorded_bases e')" by blast
  have "sound_ledger l" using history_sound [OF assms(1)] by auto
  with history_sound [OF assms(3)] l'(1) have "sound_ledger l'" by auto
  with l'(2) have "map fst (recorded_bases e') = [1..<Suc (version_of e')]" by (simp add: sound_ledger_def sound_entry_def)
  with l' show ?thesis by blast
qed

lemma eg_ledger_history: "ledger_history ''s.v'' None [Emitted (eg_declared_now [''a''])] (Some (eg_ledger [''a''] [''a'']))"
  by (rule then_step [of _ _ "[]", simplified, OF unchanged]) (rule emitted [OF eg_names(1) eg_first_emission [unfolded emit_ledger_def
    eg_declared_now_def [symmetric]]])

lemma eg_extension: "ledger_history ''s.v'' (Some (eg_ledger [''a''] [''a''])) [Emitted (eg_declared_now [''a'', ''b''])]
    (Some (eg_ledger [''a''] [''a'', ''b'']))"
  by (rule then_step [of _ _ "[]", simplified, OF unchanged]) (rule emitted [OF eg_names(2) eg_second_emission [unfolded emit_ledger_def
    eg_declared_now_def [symmetric]]])

lemma recorded_bases_are_frozen_witness:
  "prefix (recorded_bases (eg_entry [''a''] [''a''])) (recorded_bases (eg_entry [''a''] [''a'', ''b'']))"
proof -
  have "map_of (lg_satellites (eg_ledger [''a''] [''a''])) ''d'' = Some (eg_entry [''a''] [''a''])"
    "map_of (lg_satellites (eg_ledger [''a''] [''a'', ''b''])) ''d'' = Some (eg_entry [''a''] [''a'', ''b''])"
    by (simp_all add: eg_ledger_def)
  from recorded_bases_are_frozen [OF eg_ledger_history this(1) eg_extension] this(2) eg_names(3) show ?thesis by auto
qed



text \<open>C25: The re-baseline. Once a declaration of a satellite is staged, every emission that declares the satellite is
  refused, and abandoning the re-baseline gives back the ledger as it was. Promoting it adds the staged basis under the
  next version after all the recorded ones, leaves every other satellite as it was, and an emission then accepts the
  staged declaration without a notice and without a change.\<close>

theorem rebaseline_adopts_the_declared_basis:
  assumes "distinct (map fst (lg_satellites l))" and "map_of (lg_satellites l) n = Some e" "le_pending e = None"
    and "stage product n d l = Inr staged"
  shows "(\<forall>declared. distinct (map fst declared) \<and> n \<in> fst ` set declared \<longrightarrow>
      (\<exists>f. grade product declared (Some staged) = Inl f)) \<and>
    abort product n staged = Inr l \<and>
    (\<exists>l' e'. promote product n staged = Inr l' \<and> map_of (lg_satellites l') n = Some e' \<and>
      recorded_bases e' = recorded_bases e @ [(version_of e + 1, de_basis d)] \<and>
      (\<forall>m. m \<noteq> n \<longrightarrow> map_of (lg_satellites l') m = map_of (lg_satellites l) m) \<and>
      grade_one product n d e' = Inr (e', []))"
proof (intro conjI)
  let ?p = "e\<lparr>le_pending := Some d\<rparr>"
  have staged: "staged = put_entry n ?p l" using assms(2,4) by (simp add: stage_Inr)
  have pending: "map_of (lg_satellites staged) n = Some ?p" using assms(2) by (simp add: staged map_of_put_entry)
  show "\<forall>declared. distinct (map fst declared) \<and> n \<in> fst ` set declared \<longrightarrow>
      (\<exists>f. grade product declared (Some staged) = Inl f)"
  proof (intro allI impI, elim conjE)
    fix declared :: "(string \<times> satellite_record) list"
    assume once: "distinct (map fst declared)" and "n \<in> fst ` set declared"
    then obtain d' where "map_of declared n = Some d'" by (metis map_of_eq_None_iff not_None_eq)
    from grade_stopped [OF once this pending] show "\<exists>f. grade product declared (Some staged) = Inl f"
      by (simp add: extends_def)
  qed
  have "put_entry n e (put_entry n ?p l) = l"
  proof -
    have "map ((\<lambda>(k, old). (k, if k = n then e else old)) \<circ> (\<lambda>(k, old). (k, if k = n then ?p else old))) (lg_satellites l)
        = lg_satellites l"
      using assms(1,2) by (intro map_idI) (auto dest!: map_of_SomeD dest: eq_key_imp_eq_value)
    then show ?thesis by (simp add: put_entry_def comp_def)
  qed
  moreover have "?p\<lparr>le_pending := None\<rparr> = e" using assms(3) by simp
  ultimately show "abort product n staged = Inr l" using pending by (auto simp: abort_Inr staged)
  have same: "rebased d ?p = rebased d e" by (simp add: rebased_def)
  have "as_declared d (rebased d e)" unfolding as_declared_def rebased_def by (blast intro: add_pos_pos version_pos zero_less_one)
  then have "grade_one product n d (rebased d e) = Inr (rebased d e, [])" by (simp add: grade_as_declared rebased_def)
  moreover have "promote product n staged = Inr (put_entry n (rebased d e) staged)" using pending by (simp add: promote_Inr same)
  ultimately show "\<exists>l' e'. promote product n staged = Inr l' \<and> map_of (lg_satellites l') n = Some e' \<and>
      recorded_bases e' = recorded_bases e @ [(version_of e + 1, de_basis d)] \<and>
      (\<forall>m. m \<noteq> n \<longrightarrow> map_of (lg_satellites l') m = map_of (lg_satellites l) m) \<and>
      grade_one product n d e' = Inr (e', [])"
    using pending by (intro exI [of _ "put_entry n (rebased d e) staged"] exI [of _ "rebased d e"])
      (simp add: map_of_put_entry staged)
qed

lemma rebaseline_adopts_the_declared_basis_witness:
  "\<exists>staged l' e'. stage ''s.v'' ''d'' (snd (hd (eg_declared_now [''a'', ''b'']))) (eg_ledger [''a''] [''a'', ''b'']) = Inr staged \<and>
     abort ''s.v'' ''d'' staged = Inr (eg_ledger [''a''] [''a'', ''b'']) \<and> promote ''s.v'' ''d'' staged = Inr l' \<and>
     map_of (lg_satellites l') ''d'' = Some e' \<and> recorded_bases e' = [(1, [''a'']), (2, [''a'', ''b''])]"
proof -
  let ?l = "eg_ledger [''a''] [''a'', ''b'']" and ?e = "eg_entry [''a''] [''a'', ''b'']"
    and ?d = "snd (hd (eg_declared_now [''a'', ''b'']))"
  have l: "distinct (map fst (lg_satellites ?l))" "map_of (lg_satellites ?l) ''d'' = Some ?e" "le_pending ?e = None"
    by (simp_all add: eg_ledger_def eg_entry_def)
  then obtain staged where staged: "stage ''s.v'' ''d'' ?d ?l = Inr staged" by (auto simp: stage_Inr)
  have "de_basis ?d = [''a'', ''b'']" by code_simp
  moreover have "recorded_bases ?e = [(1, [''a''])]" "version_of ?e = 1"
    by (simp_all add: eg_entry_def)
  ultimately show ?thesis
    using staged rebaseline_adopts_the_declared_basis [OF l staged] by auto
qed

text \<open>C15: No stored column loses its place or its type. Where a vault declaration rendered and its emission was
  recorded, and an emission of a later declaration of the product is accepted on that record, every payload column of
  a satellite both declare is still one of its payload columns and is published with the type it had: the comparison
  of types never passes a column by for want of a type on either side.\<close>

theorem stored_columns_keep_their_types:
  assumes "vault_relations product cfg cols = Inr relations" and "emit_ledger product cfg relations recorded = Inr (l, ns)"
    and "vault_relations product cfg' cols' = Inr relations'" and "emit_ledger product cfg' relations' (Some l) = Inr (l', ns')"
    and "s \<in> set (vs_satellites cfg)" "s' \<in> set (vs_satellites cfg')" "sa_name s' = sa_name s" "c \<in> set (sa_payload s)"
  shows "c \<in> set (sa_payload s') \<and> (\<exists>t.
    map_of (types_named (payload_types relations (vs_satellites cfg)) (sa_name s)) c = Some t \<and>
    map_of (types_named (payload_types relations' (vs_satellites cfg')) (sa_name s)) c = Some t)"
proof -
  note now = declared_now_of [OF assms(1,5)] and later = declared_now_of [OF assms(3,6)]
  from grade_Inr(3) [OF assms(2) [unfolded emit_ledger_def] now] obtain e where
    e: "map_of (lg_satellites l) (sa_name s) = Some e"
      "as_declared (declared_record s (types_named (payload_types relations (vs_satellites cfg)) (sa_name s))) e"
    by (blast dest: graded_as_declared)
  from grade_Inr(3) [OF assms(4) [unfolded emit_ledger_def] later] e(1) obtain e' ms where
    "grade_one product (sa_name s) (declared_record s' (types_named (payload_types relations' (vs_satellites cfg')) (sa_name s))) e
      = Inr (e', ms)"
    by (auto simp: graded_as_def assms(7))
  then have extends: "extends e (declared_record s' (types_named (payload_types relations' (vs_satellites cfg')) (sa_name s)))"
    by (simp add: grade_one_Inr)
  from e(2) have stored: "le_payload e = sa_payload s"
    "map_of (le_types e) c = map_of (types_named (payload_types relations (vs_satellites cfg)) (sa_name s)) c"
    using assms(8) by (auto simp: as_declared_def)
  from extends stored(1) assms(8) have still: "c \<in> set (sa_payload s')" by (auto simp: extends_def)
  from stored_types_complete(2) [OF assms(1,5,8)] obtain was where
    was: "map_of (types_named (payload_types relations (vs_satellites cfg)) (sa_name s)) c = Some was" ..
  from stored_types_complete(2) [OF assms(3,6) still] obtain t where
    t: "map_of (types_named (payload_types relations' (vs_satellites cfg')) (sa_name s)) c = Some t"
    unfolding assms(7) ..
  from extends have "was = t"
    using assms(8) stored was t still by (auto simp: extends_def types_agree_def)
  with was t still show ?thesis by blast
qed

lemma stored_columns_keep_their_types_witness:
  "\<exists>t. map_of (types_named (payload_types (eg_relations [''a'', ''b'']) (vs_satellites (eg_vault_config [''a'', ''b'']))) ''d'') ''a'' = Some t"
  using stored_columns_keep_their_types [OF eg_renders(1) eg_first_emission eg_renders(2) eg_second_emission,
      of "eg_satellite [''a'']" "eg_satellite [''a'', ''b'']" "''a''"]
  by (auto simp: eg_vault_config_def eg_satellite_def)

section \<open>What the ledger and the shape do not keep\<close>

text \<open>After an accepted extension the fingerprint of the satellite is taken over its declared basis, under the
  version whose recorded basis is the smaller one.\<close>

lemma extension_is_fingerprinted:
  "(case resolve_plan ''s.v'' (eg_vault_config [''a'', ''b'']) of Inr plan \<Rightarrow> map su_basis (pl_satellites plan) | Inl _ \<Rightarrow> []) = [[''a'', ''b'']]"
  "basis_versions (eg_ledger [''a''] [''a'', ''b'']) = [(''d'', 1)]"
  "map (\<lambda>(n, e). recorded_bases e) (lg_satellites (eg_ledger [''a''] [''a'', ''b''])) = [[(1, [''a''])]]"
  by code_simp+

text \<open>A satellite an emission does not declare leaves the ledger, with the bases recorded for it; declared again, its
  bases start from version 1, which another basis had.\<close>

definition eg_without :: vault_section where
  "eg_without = (eg_vault_config [''a''])\<lparr>vs_satellites := [(eg_satellite [''b''])\<lparr>sa_name := ''o''\<rparr>], vs_surviving := [], vs_instants := []\<rparr>"

definition eg_without_relations :: "shape_relation list" where
  "eg_without_relations = (case vault_relations ''s.v'' eg_without eg_vault_columns of Inr rs \<Rightarrow> rs | Inl _ \<Rightarrow> [])"

lemma dropped_satellite_restarts:
  "bind (emit_ledger ''s.v'' (eg_vault_config [''a'']) (eg_relations [''a'']) None) (\<lambda>(l, _).
   bind (emit_ledger ''s.v'' eg_without eg_without_relations (Some l)) (\<lambda>(l, _).
   bind (emit_ledger ''s.v'' (eg_vault_config [''a'', ''b'']) (eg_relations [''a'', ''b'']) (Some l)) (\<lambda>(l, _). Inr l))) =
   Inr (eg_ledger [''a'', ''b''] [''a'', ''b''])"
  by code_simp

text \<open>A link with the name of a hub takes its place as the parent of a satellite.\<close>

definition eg_shadowed :: vault_section where
  "eg_shadowed = (eg_vault_config [''a''])\<lparr>vs_hubs := [\<lparr>hb_name = ''p'', hb_key = [''id'']\<rparr>, \<lparr>hb_name = ''q'', hb_key = [''b'']\<rparr>],
     vs_links := [\<lparr>lk_name = ''p'', lk_hubs = [''p'', ''q'']\<rparr>], vs_surviving := [], vs_instants := []\<rparr>"

lemma link_shadows_hub:
  "(case resolve_plan ''s.v'' eg_shadowed of Inr plan \<Rightarrow> map su_parent_column (pl_satellites plan) | Inl _ \<Rightarrow> []) = [''p_lhk'']"
  by code_simp

text \<open>A payload column with the name of the parent's key column is published beside it.\<close>

definition eg_key_payload :: "shape_relation list" where
  "eg_key_payload = (case vault_relations ''s.v'' ((eg_vault_config [''p_hk''])\<lparr>vs_surviving := []\<rparr>)
     (eg_vault_columns @ [typed_field ''p_hk'' string_type False]) of Inr rs \<Rightarrow> rs | Inl _ \<Rightarrow> [])"

lemma payload_doubles_the_key:
  "map (\<lambda>r. count_list (field_names (rs_fields (sr_schema r))) ''p_hk'') eg_key_payload = [1, 2, 1]"
  by code_simp

end
