(* ===== verification/Spec2Isabelle.thy ===== *)
theory Spec2Isabelle
  imports Outbox_Props Store_Props Keyset_Props Graph_Props Registry_Props Schedule_Props Validation_Props Frame_Props Contract_Props Routing_Props Declaration_Props Vault_Props
begin

text \<open>
  A verification library for ergasterion, the framework that lands source deliveries as data products.

  \<^bold>\<open>The program.\<close> A product is declared in YAML, and
  \<open>framework/declaration.py\<close> holds every declaration to its profile and to the estate's policy.
  From the accepted declarations \<open>framework/contract.py\<close> derives the typed relations every product publishes, through the shapes
  under \<open>shapes/\<close>, \<open>framework/graph.py\<close> builds one graph of the estate,
  \<open>framework/routing.py\<close> decides which translator executes what, and \<open>source_delivery.py\<close>
  governs the contract of every delivery: it checks a typed contract, classifies the change from one
  contract to the next, runs the registry through which contracts become active, and says when a
  delivery is due. At run time \<open>ingestion/sqlite_store.py\<close> keeps the state of each delivery
  stream in one SQLite file: the stream row with its revision, attempts with their pages, the contract
  and deployment lifecycles, a recoverable outbox with its ledgers, and the keysets deletions are
  derived from, and \<open>ingestion/validation.py\<close> judges the frames of one delivery within a
  declared memory bound, spilling to the scratch store of \<open>ingestion/local_scratch_store.py\<close>.
  \<open>framework/landing_contract.py\<close> and \<open>ingestion/records.py\<close> are the
  vocabulary and the records all of them exchange. All paths are under \<open>src/ergasterion/\<close>.

  \<^bold>\<open>Shared theories.\<close>
  Prelude: scalar types, the closed error codes as \<open>error_code\<close> and what a raise carries as
  \<open>exn\<close>, the result type \<open>exn + 'a\<close> of every operation that can raise, its bind,
  tables with a primary key, and the lemma collections. State_Result: actions, code that changes a state
  and leaves the state it had reached when it raises, with the rules for what an action yields (partial
  and total correctness in one) and for what it keeps whether it returns or raises. Landing_Contract and Wire_Records: the enumerations and
  records, field by field, and the checks their validators make. Decimal_Text: decimal numbers in text.
  Three theories are interfaces: Optimistic_Store (a write commits only over the revision it read),
  Sealed_Log (a log that is filled page by page, then sealed) and Write_Once (a ledger whose entries
  are never replaced). Each is a locale whose laws are discharged on the model's own operations where
  those are defined: the store in Store_Machine and the registry in Contract_Registry as optimistic
  stores, both kinds of keyset in Keysets as sealed logs, the auxiliary relations in Product_Graph as a
  write-once ledger. Three more belong to the validation of frames: paged_rows (what a page of a
  scope promises), spill_buffer (a buffer that moves to a scope of its own) and working_invariant (a
  property every primitive step keeps), interpreted in Paged_Loop and Spill_Correct on the scratch store,
  in Spill_Buffer on the two buffers and in Working_Invariant on the meter and on the scopes opened.
  The last, resolver, is what a loop of passes may rely on of the function that resolves one product;
  Registry_Loop proves in it what such a loop returns, and Estate_Registry interprets it on
  \<open>resolve_product\<close>.

  \<^bold>\<open>Delivery state store\<close>, \<open>ingestion/sqlite_store.py\<close>.
  The file is the record \<open>store\<close>, one list of rows per table. Operations take it and answer
  a result with the file they leave; a raise leaves the file as it was, since a transaction rolls back.
  State_Store: transactions with the expiry they open with, streams, attempts and fencing, contract and
  deployment transitions, attempt pages and status. Outbox: intents, confirmations, events, enqueue,
  lease, complete, fail, the state transaction, the lifecycle sink. Keysets: snapshot and tombstone
  keysets, reconciliation, finalization, retention. Store_Machine: one constructor of \<open>store_request\<close>
  for every public operation, the invariant \<open>store_ok\<close>, its preservation by each, and the
  reachable files. Store_Props, Outbox_Props and Keyset_Props hold what callers may rely on: one writer
  for each revision, a consistent file, no error outside the closed codes, monotone cursors that refine
  the confirmation ledger, exclusive leases, exact reconciliation and expiry.

  \<^bold>\<open>Product graph\<close>, \<open>framework/graph.py\<close> with the loaders' declaration records.
  Relation_Names: the relations a product publishes and how a read resolves to one. Graph_Order: the
  build order (the loop removes the products that wait for nothing; it has one unit of fuel for each
  product, and \<open>topological_order_correct\<close> shows that this suffices on every acyclic estate
  and that the failure names exactly the products a cycle leads to). Product_Graph: edges, generations,
  field lineage, materialisation, validation records, the registry of auxiliary relations, the build
  and its coverage check. Graph_Build: reading a built graph back to its declarations. Graph_Props: the
  guarantees.

  \<^bold>\<open>Product contract model\<close>, \<open>framework/contract.py\<close> over
  \<open>framework/shapes.py\<close> and the shape plug-ins.
  Relation_Schemas: neutral types, fields and relations, conformance of one source, union and merge, the
  opening relation, and what each step makes of it. Shape_Relations: the relations the declared, canonical,
  ods and dimensional shapes render from those columns, with their refusals. Relation_Registry: landing
  schemas, stored names, the resolution of a read, and the registry that resolves an estate pass by pass
  (each pass that resolves nothing ends it, so the number of products bounds the passes).
  Relation_Change: compatibility of two releases and the manifest check. Composition_Facts and
  Shape_Facts: what a composition and a shape keep of names and types. Registry_Loop, Estate_Registry,
  Estate_Types: what the registry returns, when it fails, and where every type comes from.
  Contract_Props: the guarantees, among them that the registry's result is the one solution of the estate's
  declarations and that the product graph reads the same relations as the contracts.

  \<^bold>\<open>Declarations and routing\<close>, \<open>framework/declaration.py\<close>,
  \<open>patterns.py\<close>, \<open>resolver.py\<close> and \<open>routing.py\<close>.
  Execution_Plans: the patterns, the profile documents as shipped under \<open>profiles/\<close> with their
  parser, and the landing graph. Routing: the router, by the occurrences translators own or by the estate's
  table. Declaration_Validation: the policy of an estate, and the checks of one declaration in the order of
  the code, each refusal with its product, rule and occurrence. Physical_Names: the rules on stored names and
  the checks across an estate. Declaration_Facts and Physical_Facts: what those loops accept, said without
  loops. Routing_Props and Declaration_Props: the guarantees, among them that an accepted declaration follows
  its profile, that its sources combine when the contract model resolves them, and that no two relations of an
  estate are stored under one name.

  \<^bold>\<open>Contracts and schedules\<close>, \<open>source_delivery.py\<close>.
  Contract_Change: canonical documents, derived interface names, the classifier of changes and the
  version bump. Contract_Registry: registration, activation, staging of a reset and its confirmation,
  as a state machine with its runs. Contract_Validation: the semantic gate with every violation as a
  value, and \<open>contract_ok\<close>, a readable statement of what it accepts. Cron: the limited cron
  grammar, its parser and what a field means. Schedule_Boundaries: civil dates, local readings, and the
  current, next and eligible boundaries. Registry_Props, Schedule_Props, Validation_Props: the
  guarantees.

  \<^bold>\<open>Data vault\<close>, \<open>shapes/data_vault\<close>.
  Data_Vault: the hubs, links, satellites, surviving records and point-in-time relations of a section
  (\<open>vault_section\<close>), resolved against each other into a \<open>vault_plan\<close>, checked
  against the columns of the composition and rendered. Vault_Evolution: the \<open>ledger\<close> of a
  product, one \<open>ledger_entry\<close> for each satellite with the basis its fingerprints are taken over
  and the bases it superseded, the grading of a declaration against it at an emission
  (\<open>grade\<close>), the re-baseline in its steps (\<open>stage\<close>, \<open>promote\<close>,
  \<open>abort\<close>) and the command. Vault_Facts: what resolving and rendering keep. Vault_Ledger: what
  each operation leaves of an entry, and the histories of a ledger as the step relation
  \<open>ledger_step\<close>. Vault_Props: a basis once recorded never changes under its version, stored
  columns keep their types, when an emission can be repeated, what a re-baseline adopts.

  \<^bold>\<open>Validation of a delivery\<close>, \<open>ingestion/validation.py\<close> over
  \<open>ingestion/local_scratch_store.py\<close>.
  Scratch_Store: scopes of sequential rows, owned, bounded, read in pages. Paged_Loop: reading one to
  its end. Unique_Spill: the byte meter, the tags in memory, their spill, the sorted runs, the merges
  and the scan. Finding_Order and Publication_Decision: the order of findings, and the decision with its
  decimal quotient. Frame_Validation: field rules, the unit buffer, one frame, the whole delivery with
  its clean-up on every exit, dispositions, counts, result, revalidation. The working state of the code
  (\<open>_MemoryMeter\<close>, \<open>_UniqueSpill\<close>, \<open>_UnitBuffer\<close> and the scratch store
  they share) is the record \<open>working\<close>. Spill_Correct, Duplicate_Findings, Spill_Buffer,
  Observed_Tags and Frame_Correct show step by step that the working state stands for the rows and units
  seen so far, wherever they are, so that a delivery gives the dispositions of
  \<open>reference_dispositions\<close>, which knows neither budget nor scratch. Working_Invariant: the
  peak stays in the budget and closing leaves the scratch store as it was found. Frame_Props: the
  guarantees.

  \<^bold>\<open>Parameters and what is assumed of them.\<close>
  Digests and canonical JSON come from libraries: \<open>canonical_lib\<close> and the digest functions of
  the store configuration are parameters, and a theorem that needs two documents told apart says so
  with an injectivity hypothesis. The zone database is the parameter \<open>zone\<close>: the hypotheses
  \<open>folds_cover\<close> and \<open>days_ordered\<close> state that an instant is one of the readings of
  its own local time and that later local days hold later instants; the witnesses instantiate both with a fixed offset and with a zone
  that repeats an hour. Clocks, generated identifiers and random tokens are arguments of the
  operations that use them. The canonical sizes, tags and digests of a validation are the parameters
  \<open>validation_lib\<close> and \<open>scratch_lib\<close>, of which nothing is assumed but, where a spill
  must succeed, that the scope identities it draws are new. A plug-in, the \<open>data_vault\<close> shape is the
  parameter \<open>vault\<close> of the registry of shapes, of which nothing is assumed there; it is
  \<open>data_vault_relations\<close>, with which \<open>every_shape_renders_what_it_names\<close> speaks of all five
  shapes. The answers of the JSON Schema library and of the neutrality gate
  are the parameter \<open>schema_lib\<close>, the digest of a plan is \<open>digest\<close>, and
  \<open>casefold\<close> is Python's, of none of which anything is assumed; a translator is a record of the
  answers the router asks it for. Pydantic's field patterns are the well-formedness predicates of
  Wire_Records where an operation depends on them, and otherwise not part of the model.

  \<^bold>\<open>Bounds.\<close> Loops over lists are structural. The build order has one unit of fuel for
  each product. A loop over pages has one unit for each row of its scope and one more, a merge one for
  each row of its two runs and one more, and the rounds of merging one for each run; running out is the
  error \<open>No_fuel\<close>, and \<open>validate_frames_ends\<close> shows that it never occurs. The
  schedule searches walk the number of days the code walks, and the theorems on them
  say what lies within those days. Python integers are \<open>int\<close> or \<open>nat\<close>; SQLite
  integers are compared with the ceilings the code compares them with.

  \<^bold>\<open>What modelling showed.\<close> The lemmas \<open>completed_entry_is_dispatched_again\<close>,
  \<open>incomplete_candidate_is_reconciled\<close>, \<open>projection_lease_skips_incomplete\<close>,
  \<open>cycle_error_names_consumers\<close>, \<open>derive_interfaces_collides\<close>,
  \<open>gate_accepts_repeated_snapshot_keys\<close>, \<open>descending_range_passes\<close>,
  \<open>leap_days_across_2100\<close>, \<open>more_memory_can_be_refused\<close>,
  \<open>gate_accepts_unusable_fraction\<close>, \<open>repeated_merge_key_is_published_twice\<close>,
  \<open>landing_read_depends_on_its_consumers_name\<close>,
  \<open>canonical_entity_repeats_a_column\<close>, \<open>decimal_change_column_raises\<close>,
  \<open>stored_name_meets_a_logical_name\<close>,
  \<open>default_tables_meet_unseen\<close>, \<open>extension_is_fingerprinted\<close>,
  \<open>dropped_satellite_restarts\<close>, \<open>link_shadows_hub\<close> and
  \<open>payload_doubles_the_key\<close> are runs on which the code departs from its comments or guards.

  \<^bold>\<open>Not modelled.\<close> File and process input and output, SQL and YAML text generation, argument
  parsing and third-party libraries. Of the program's own logic: the catalogue of named rules
  (\<open>framework/rules.py\<close>), the documents a contract is
  published as, the ingestion runtime
  (\<open>ingestion/runtime.py\<close>), which calls the state store through its ports, and the key resolver.
\<close>

end
